(* ===== verification/Prelude.thy ===== *)
theory Prelude
  imports Main "HOL-Library.Word"
begin

text \<open>
  Shared vocabulary of the development: the integer types of the native profiler, the
  error monad that stands for early returns, and the generic lemmas on words, lists and
  results that the component theories share.

  Integers keep the width they have in the C++ code (\<open>BYTE\<close>, \<open>UINT16\<close>, \<open>ULONG\<close>,
  \<open>INT64\<close>), so every wrap-around of the code is a wrap-around of the model.
\<close>

unbundle bit_operations_syntax

type_synonym byte = "8 word"
type_synonym u16 = "16 word"
type_synonym u32 = "32 word"
type_synonym u64 = "64 word"

named_theorems res_simps \<open>rewriting of results through the error monad\<close>
named_theorems bits_simps \<open>bits of masked, shifted and converted words\<close>

section \<open>Results: a value or the reason there is none\<close>

definition bindE :: "'e + 'a \<Rightarrow> ('a \<Rightarrow> 'e + 'b) \<Rightarrow> 'e + 'b" where
  "bindE m f = (case m of Inl e \<Rightarrow> Inl e | Inr x \<Rightarrow> f x)"

definition guardE :: "'e \<Rightarrow> bool \<Rightarrow> 'e + unit" where
  "guardE e b = (if b then Inr () else Inl e)"

lemma bindE_Inr [simp, res_simps]: "bindE (Inr x) f = f x"
  by (simp add: bindE_def)

lemma bindE_Inl [simp, res_simps]: "bindE (Inl e) f = Inl e"
  by (simp add: bindE_def)

lemma bindE_eq_Inr [res_simps]: "bindE m f = Inr y \<longleftrightarrow> (\<exists>x. m = Inr x \<and> f x = Inr y)"
  by (cases m) auto

lemma bindE_eq_Inl [res_simps]:
  "bindE m f = Inl e \<longleftrightarrow> m = Inl e \<or> (\<exists>x. m = Inr x \<and> f x = Inl e)"
  by (cases m) auto

lemma bindE_assoc: "bindE (bindE m f) g = bindE m (\<lambda>x. bindE (f x) g)"
  by (cases m) auto

lemma bindE_cong [fundef_cong]:
  "m = m' \<Longrightarrow> (\<And>x. m' = Inr x \<Longrightarrow> f x = f' x) \<Longrightarrow> bindE m f = bindE m' f'"
  by (cases m') auto

lemma guardE_eq_Inr [simp, res_simps]: "guardE e b = Inr u \<longleftrightarrow> b"
  by (simp add: guardE_def)

lemma guardE_eq_Inl [simp, res_simps]: "guardE e b = Inl e' \<longleftrightarrow> \<not> b \<and> e' = e"
  by (auto simp: guardE_def)

lemma guardE_True [simp]: "guardE e True = Inr ()"
  by (simp add: guardE_def)

lemma guardE_False [simp]: "guardE e False = Inl e"
  by (simp add: guardE_def)

section \<open>Words\<close>

lemma bit_bounded:
  fixes w :: "'a::len word"
  assumes "unat w < 2 ^ k" and "bit w i"
  shows "i < k"
proof -
  have "take_bit k (unat w) = unat w"
    using assms(1) by (simp add: take_bit_nat_eq_self_iff)
  moreover have "bit (unat w) i"
    using assms(2) by (simp add: bit_unsigned_iff)
  ultimately show "i < k"
    by (metis bit_take_bit_iff)
qed

lemma unat_bounded_by_bits:
  fixes w :: "'a::len word"
  assumes "\<And>i. bit w i \<Longrightarrow> i < k"
  shows "unat w < 2 ^ k"
proof -
  have "take_bit k (unat w) = unat w"
    by (rule bit_eqI) (use assms in \<open>auto simp: bit_take_bit_iff bit_unsigned_iff\<close>)
  then show ?thesis by (simp add: take_bit_nat_eq_self_iff)
qed

lemma unat_byte: "unat (b :: byte) < 256"
  using unsigned_less [of b, where 'a = nat] by simp

lemma numeral_eq_mask:
  "(0x03 :: u32) = mask 2" "(0x1F :: u32) = mask 5" "(0x3F :: u32) = mask 6"
  "(0xFF :: u32) = mask 8" "(0x3FF :: u32) = mask 10" "(0x0F :: u32) = mask 4"
  "(0x07 :: u32) = mask 3"
  by (simp_all add: mask_eq_exp_minus_1)

lemma byte_numeral_eq_mask:
  "(0x0F :: byte) = mask 4" "(0x1F :: byte) = mask 5" "(0x3F :: byte) = mask 6"
  "(0x7F :: byte) = mask 7" "(0x07 :: byte) = mask 3"
  by (simp_all add: mask_eq_exp_minus_1)

text \<open>The simplifier reads the bits of a word numeral through the integer numeral.\<close>

lemma bit_int_numerals [bits_simps]:
  "bit (128::int) i \<longleftrightarrow> i = 7"
  "bit (192::int) i \<longleftrightarrow> i = 6 \<or> i = 7"
  "bit (224::int) i \<longleftrightarrow> i = 5 \<or> i = 6 \<or> i = 7"
  "bit (240::int) i \<longleftrightarrow> i = 4 \<or> i = 5 \<or> i = 6 \<or> i = 7"
proof -
  have *: "(192::int) = push_bit 6 (mask 2)" "(224::int) = push_bit 5 (mask 3)"
    "(240::int) = push_bit 4 (mask 4)"
    by (simp_all add: mask_eq_exp_minus_1 push_bit_eq_mult)
  show "bit (128::int) i \<longleftrightarrow> i = 7"
    using bit_exp_iff [where 'a = int, of 7 i] by auto
  show "bit (192::int) i \<longleftrightarrow> i = 6 \<or> i = 7" unfolding * by (auto simp: bit_simps)
  show "bit (224::int) i \<longleftrightarrow> i = 5 \<or> i = 6 \<or> i = 7" unfolding * by (auto simp: bit_simps)
  show "bit (240::int) i \<longleftrightarrow> i = 4 \<or> i = 5 \<or> i = 6 \<or> i = 7"
    unfolding * by (auto simp: bit_simps)
qed

text \<open>The low byte of a 32-bit word, cut out and widened again.\<close>

lemma bit_low_byte [bits_simps]:
  "bit (ucast (n AND 0xFF) :: byte) i \<longleftrightarrow> i < 8 \<and> bit (n :: u32) i"
  "bit (ucast (ucast (n AND 0xFF) :: byte) :: u32) i \<longleftrightarrow> i < 8 \<and> bit (n :: u32) i"
  unfolding numeral_eq_mask by (auto simp: bit_simps)

end
