(* ===== verification/CorSig.thy ===== *)
theory CorSig
  imports Prelude
begin

text \<open>
  The compressed integers and tokens of metadata signatures: the inline functions
  \<open>CorSigUncompressData\<close>, \<open>CorSigUncompressToken\<close>, \<open>CorSigCompressData\<close> and
  \<open>CorSigCompressToken\<close> of \<open>lib/coreclr/src/inc/cor.h\<close>, on which the signature parser,
  the metadata helpers and the CallTarget token builder of the profiler rest.

  A \<open>PCCOR_SIGNATURE\<close> is a pointer into a blob; the model is the list of the bytes from
  that pointer to the end of the blob. Reading behind the end is the error \<open>Overread\<close>
  (the C++ code reads memory it does not own).
\<close>

datatype sig_error =
    Overread    \<comment> \<open>the code dereferences a pointer at or behind the end of the blob\<close>
  | Rejected    \<comment> \<open>the code returns \<open>false\<close> or a failure code\<close>
  | OutOfFuel   \<comment> \<open>the model's recursion bound is used up\<close>

definition ULONG_MAX :: u32 where
  "ULONG_MAX = - 1"

definition rd :: "byte list \<Rightarrow> sig_error + byte" where
  "rd bs = (case bs of [] \<Rightarrow> Inl Overread | b # _ \<Rightarrow> Inr b)"

section \<open>Reading\<close>

text \<open>The checked form: value and length, or \<open>Rejected\<close> for \<open>META_E_BAD_SIGNATURE\<close>.\<close>

definition CorSigUncompressData_len :: "byte list \<Rightarrow> u32 \<Rightarrow> sig_error + (u32 \<times> u32)" where
  "CorSigUncompressData_len p len = (case p of
     [] \<Rightarrow> Inl Overread
   | b0 # r \<Rightarrow>
       if b0 AND 0x80 = 0 then
         (if len < 1 then Inl Rejected else Inr (ucast b0, 1))
       else if b0 AND 0xC0 = 0x80 then
         (if len < 2 then Inl Rejected
          else (case r of
              b1 # _ \<Rightarrow> Inr (push_bit 8 (ucast (b0 AND 0x3F)) OR ucast b1, 2)
            | _ \<Rightarrow> Inl Overread))
       else if b0 AND 0xE0 = 0xC0 then
         (if len < 4 then Inl Rejected
          else (case r of
              b1 # b2 # b3 # _ \<Rightarrow>
                Inr (push_bit 24 (ucast (b0 AND 0x1F)) OR push_bit 16 (ucast b1)
                     OR push_bit 8 (ucast b2) OR ucast b3, 4)
            | _ \<Rightarrow> Inl Overread))
       else Inl Rejected)"

text \<open>The form the profiler calls: the number of bytes read (\<open>(ULONG) -1\<close> for a bad
  encoding) and the value written to the out parameter.\<close>

definition CorSigUncompressData :: "byte list \<Rightarrow> sig_error + (u32 \<times> u32)" where
  "CorSigUncompressData p =
     (case CorSigUncompressData_len p 0xFF of
        Inl Rejected \<Rightarrow> Inr (ULONG_MAX, 0)
      | Inl e \<Rightarrow> Inl e
      | Inr (v, n) \<Rightarrow> Inr (n, v))"

definition mdtTypeDef :: u32 where "mdtTypeDef = 0x02000000"
definition mdtTypeRef :: u32 where "mdtTypeRef = 0x01000000"
definition mdtTypeSpec :: u32 where "mdtTypeSpec = 0x1B000000"
definition mdtBaseType :: u32 where "mdtBaseType = 0x72000000"

definition TypeFromToken :: "u32 \<Rightarrow> u32" where
  "TypeFromToken tk = tk AND 0xFF000000"

definition RidFromToken :: "u32 \<Rightarrow> u32" where
  "RidFromToken tk = tk AND 0x00FFFFFF"

definition TokenFromRid :: "u32 \<Rightarrow> u32 \<Rightarrow> u32" where
  "TokenFromRid rid tktype = rid OR tktype"

definition g_tkCorEncodeToken :: "u32 \<Rightarrow> u32" where
  "g_tkCorEncodeToken i =
     (if i = 0 then mdtTypeDef else if i = 1 then mdtTypeRef
      else if i = 2 then mdtTypeSpec else mdtBaseType)"

definition CorSigUncompressToken :: "byte list \<Rightarrow> sig_error + (u32 \<times> u32)" where
  "CorSigUncompressToken p =
     bindE (CorSigUncompressData p)
       (\<lambda>(cb, tk). Inr (cb, TokenFromRid (drop_bit 2 tk) (g_tkCorEncodeToken (tk AND 0x3))))"

section \<open>Writing\<close>

text \<open>The bytes written to the out buffer; \<open>None\<close> stands for the return value
  \<open>(ULONG) -1\<close>, and the return value is the number of bytes otherwise.\<close>

definition CorSigCompressData :: "u32 \<Rightarrow> byte list option" where
  "CorSigCompressData iLen =
     (if iLen \<le> 0x7F then Some [ucast iLen]
      else if iLen \<le> 0x3FFF then
        Some [ucast (drop_bit 8 iLen OR 0x80), ucast (iLen AND 0xFF)]
      else if iLen \<le> 0x1FFFFFFF then
        Some [ucast (drop_bit 24 iLen OR 0xC0), ucast (drop_bit 16 iLen AND 0xFF),
              ucast (drop_bit 8 iLen AND 0xFF), ucast (iLen AND 0xFF)]
      else None)"

definition CorSigCompressToken :: "u32 \<Rightarrow> byte list option" where
  "CorSigCompressToken tk =
     (let rid = RidFromToken tk; ulTyp = TypeFromToken tk in
      if rid > 0x3FFFFFF then None
      else
        let rid = push_bit 2 rid;
            rid = (if ulTyp = g_tkCorEncodeToken 1 then rid OR 0x1
                   else if ulTyp = g_tkCorEncodeToken 2 then rid OR 0x2
                   else if ulTyp = g_tkCorEncodeToken 3 then rid OR 0x3
                   else rid)
        in CorSigCompressData rid)"

section \<open>Lemmas\<close>

lemma ULONG_MAX_neq [simp]: "ULONG_MAX \<noteq> 1" "ULONG_MAX \<noteq> 2" "ULONG_MAX \<noteq> 4"
  by (simp_all add: ULONG_MAX_def)

text \<open>The bytes the compressor writes, seen through the bits of the value.\<close>

lemma compress1_bits:
  fixes n :: u32
  assumes "unat n < 2 ^ 7"
  shows "(ucast n :: byte) AND 0x80 = 0" and "ucast (ucast n :: byte) = n"
  by (rule bit_word_eqI, auto simp: bit_simps bits_simps dest: bit_bounded [OF assms])+

lemma compress2_bits:
  fixes n :: u32
  assumes "unat n < 2 ^ 14"
  defines "b0 \<equiv> ucast (drop_bit 8 n OR 0x80) :: byte"
  shows "b0 AND 0x80 \<noteq> 0" and "b0 AND 0xC0 = 0x80"
    and "push_bit 8 (ucast (b0 AND 0x3F)) OR ucast (ucast (n AND 0xFF) :: byte) = n"
proof -
  have "bit (b0 AND 0x80) 7"
    unfolding b0_def by (simp add: bit_simps bits_simps)
  then show "b0 AND 0x80 \<noteq> 0" by auto
  show "b0 AND 0xC0 = 0x80"
    unfolding b0_def
    by (rule bit_word_eqI) (auto simp: bit_simps bits_simps dest: bit_bounded [OF assms(1)])
  show "push_bit 8 (ucast (b0 AND 0x3F)) OR ucast (ucast (n AND 0xFF) :: byte) = n"
    unfolding b0_def numeral_eq_mask byte_numeral_eq_mask
    by (rule bit_word_eqI) (auto simp: bit_simps bits_simps dest: bit_bounded [OF assms(1)])
qed

lemma compress4_bits:
  fixes n :: u32
  assumes "unat n < 2 ^ 29"
  defines "b0 \<equiv> ucast (drop_bit 24 n OR 0xC0) :: byte"
  shows "b0 AND 0x80 \<noteq> 0" and "b0 AND 0xC0 \<noteq> 0x80" and "b0 AND 0xE0 = 0xC0"
    and "push_bit 24 (ucast (b0 AND 0x1F)) OR push_bit 16 (ucast (ucast (drop_bit 16 n AND 0xFF) :: byte))
      OR push_bit 8 (ucast (ucast (drop_bit 8 n AND 0xFF) :: byte))
      OR ucast (ucast (n AND 0xFF) :: byte) = n" (is "?v = n")
proof -
  have "bit (b0 AND 0x80) 7" and "bit (b0 AND 0xC0) 6"
    unfolding b0_def by (simp_all add: bit_simps bits_simps)
  then show "b0 AND 0x80 \<noteq> 0" and "b0 AND 0xC0 \<noteq> 0x80"
    by (auto simp: bits_simps)
  show "b0 AND 0xE0 = 0xC0"
    unfolding b0_def
    by (rule bit_word_eqI) (auto simp: bit_simps bits_simps dest: bit_bounded [OF assms(1)])
  have b0: "bit (ucast (b0 AND 0x1F) :: u32) i \<longleftrightarrow> i < 5 \<and> bit n (24 + i)" for i
    unfolding b0_def byte_numeral_eq_mask by (auto simp: bit_simps bits_simps)
  show "?v = n"
  proof (rule bit_word_eqI)
    fix i assume "i < LENGTH(32)"
    then have "i < 8 \<or> 8 \<le> i \<and> i < 16 \<or> 16 \<le> i \<and> i < 24 \<or> 24 \<le> i \<and> i < 32"
      by auto
    then show "bit ?v i \<longleftrightarrow> bit n i"
      by (auto simp: bit_or_iff bit_push_bit_iff bit_low_byte b0 bit_drop_bit_eq
          dest: bit_bounded [OF assms(1)])
  qed
qed

text \<open>A successful read consumes at least one byte and no more than there are.\<close>

lemma CorSigUncompressData_consumes:
  assumes "CorSigUncompressData p = Inr (n, v)" and "n \<noteq> ULONG_MAX"
  shows "0 < unat n \<and> unat n \<le> length p"
  using assms
  by (auto simp: CorSigUncompressData_def CorSigUncompressData_len_def
      split: list.splits if_splits sum.splits sig_error.splits)

text \<open>Bytes behind the compressed integer do not change what is read.\<close>

lemma CorSigUncompressData_append:
  assumes "CorSigUncompressData p = Inr r"
  shows "CorSigUncompressData (p @ q) = Inr r"
  using assms
  by (auto simp: CorSigUncompressData_def CorSigUncompressData_len_def
      split: list.splits if_splits sum.splits sig_error.splits)

lemma CorSigCompressData_length:
  "CorSigCompressData n = Some bs \<Longrightarrow> length bs \<in> {1, 2, 4}"
  by (auto simp: CorSigCompressData_def split: if_splits)

lemma CorSigCompressData_None_iff: "CorSigCompressData n = None \<longleftrightarrow> n > 0x1FFFFFFF"
  by (auto simp: CorSigCompressData_def not_le word_less_nat_alt word_le_nat_alt)


section \<open>Round trips\<close>

lemma CorSigCompressData_roundtrip_raw:
  assumes "CorSigCompressData n = Some bs"
  shows "CorSigUncompressData (bs @ rest) = Inr (of_nat (length bs), n)"
proof -
  consider "n \<le> 0x7F" | "\<not> n \<le> 0x7F" "n \<le> 0x3FFF"
    | "\<not> n \<le> 0x7F" "\<not> n \<le> 0x3FFF" "n \<le> 0x1FFFFFFF"
    using assms by (auto simp: CorSigCompressData_def split: if_splits)
  then show ?thesis
  proof cases
    case 1
    then have "unat n < 2 ^ 7" by (simp add: word_le_nat_alt)
    from compress1_bits [OF this] 1 assms show ?thesis
      by (auto simp: CorSigCompressData_def CorSigUncompressData_def CorSigUncompressData_len_def)
  next
    case 2
    then have "unat n < 2 ^ 14" by (simp add: word_le_nat_alt)
    from compress2_bits [OF this] 2 assms show ?thesis
      by (auto simp: CorSigCompressData_def CorSigUncompressData_def CorSigUncompressData_len_def)
  next
    case 3
    then have "unat n < 2 ^ 29" by (simp add: word_le_nat_alt)
    from compress4_bits [OF this] 3 assms show ?thesis
      by (auto simp: CorSigCompressData_def CorSigUncompressData_def CorSigUncompressData_len_def)
  qed
qed

text \<open>
  C29. Compressed integers round-trip: whatever \<open>CorSigCompressData\<close> writes,
  \<open>CorSigUncompressData\<close> reads back, whatever bytes follow, with the number of bytes
  written as the number of bytes read.
\<close>
theorem CorSigCompressData_roundtrip:
  assumes "CorSigCompressData n = Some bs"
  shows "CorSigUncompressData (bs @ rest) = Inr (of_nat (length bs), n)"
  by (rule CorSigCompressData_roundtrip_raw [OF assms])

theorem CorSigCompressData_roundtrip_witness:
  "CorSigUncompressData ([0x92, 0x34] @ [0x01]) = Inr (of_nat (length [0x92, 0x34 :: byte]), 0x1234)"
  by (rule CorSigCompressData_roundtrip) (simp add: CorSigCompressData_def)

lemma token_bits:
  fixes rid :: u32
  assumes "unat rid < 2 ^ 24" and "i < 4"
  shows "drop_bit 2 (push_bit 2 rid OR i) = rid" and "(push_bit 2 rid OR i) AND 3 = i"
    and "push_bit 2 rid OR i \<le> 0x1FFFFFFF"
proof -
  have i: "unat i < 2 ^ 2" using assms(2) by (simp add: word_less_nat_alt)
  note bnd = bit_bounded [OF assms(1)] bit_bounded [OF i]
  show "drop_bit 2 (push_bit 2 rid OR i) = rid"
    by (rule bit_word_eqI) (auto simp: bit_simps dest: bnd)
  show "(push_bit 2 rid OR i) AND 3 = i"
    unfolding numeral_eq_mask by (rule bit_word_eqI) (auto simp: bit_simps dest: bnd)
  have "unat (push_bit 2 rid OR i) < 2 ^ 29"
    by (rule unat_bounded_by_bits) (auto simp: bit_simps dest: bnd)
  then show "push_bit 2 rid OR i \<le> 0x1FFFFFFF"
    by (simp add: word_le_nat_alt)
qed

lemma RidFromToken_bound: "unat (RidFromToken tk) < 2 ^ 24"
proof -
  have "RidFromToken tk = tk AND mask 24"
    by (simp add: RidFromToken_def mask_eq_exp_minus_1)
  then show ?thesis
    using unat_bounded_by_bits [of "tk AND mask 24" 24] by (simp add: bit_simps)
qed

lemma TokenFromRid_split: "TokenFromRid (RidFromToken tk) (TypeFromToken tk) = tk"
proof -
  have "(tk AND 0xFFFFFF) OR (tk AND 0xFF000000) = tk AND (0xFFFFFF OR 0xFF000000)"
    by (simp only: bit.conj_disj_distrib)
  also have "(0xFFFFFF OR 0xFF000000 :: u32) = - 1"
    by simp
  finally show ?thesis
    by (simp add: TokenFromRid_def RidFromToken_def TypeFromToken_def)
qed

text \<open>The two low bits that the compressor adds for a token type, and their meaning.\<close>

definition token_tag :: "u32 \<Rightarrow> u32" where
  "token_tag ty =
     (if ty = mdtTypeRef then 1 else if ty = mdtTypeSpec then 2
      else if ty = mdtBaseType then 3 else 0)"

lemma token_tag_bound [simp]: "token_tag ty < 4"
  by (simp add: token_tag_def)

lemma g_tkCorEncodeToken_tag:
  "ty \<in> {mdtTypeDef, mdtTypeRef, mdtTypeSpec, mdtBaseType} \<Longrightarrow> g_tkCorEncodeToken (token_tag ty) = ty"
  by (auto simp: token_tag_def g_tkCorEncodeToken_def
      mdtTypeDef_def mdtTypeRef_def mdtTypeSpec_def mdtBaseType_def)

lemma CorSigCompressToken_eq:
  "CorSigCompressToken tk =
     CorSigCompressData (push_bit 2 (RidFromToken tk) OR token_tag (TypeFromToken tk))"
proof -
  have "\<not> RidFromToken tk > 0x3FFFFFF"
    using RidFromToken_bound [of tk] by (simp add: word_less_nat_alt)
  then show ?thesis
    by (simp add: CorSigCompressToken_def Let_def token_tag_def g_tkCorEncodeToken_def)
qed

lemma CorSigCompressToken_roundtrip_raw:
  assumes "TypeFromToken tk \<in> {mdtTypeDef, mdtTypeRef, mdtTypeSpec, mdtBaseType}"
  shows "\<exists>bs. CorSigCompressToken tk = Some bs
    \<and> CorSigUncompressToken (bs @ rest) = Inr (of_nat (length bs), tk)"
proof -
  let ?v = "push_bit 2 (RidFromToken tk) OR token_tag (TypeFromToken tk)"
  note bits = token_bits [OF RidFromToken_bound [of tk] token_tag_bound [of "TypeFromToken tk"]]
  have "CorSigCompressData ?v \<noteq> None"
    using bits(3) by (simp add: CorSigCompressData_None_iff)
  then obtain bs where bs: "CorSigCompressData ?v = Some bs" by blast
  have "CorSigUncompressToken (bs @ rest) = Inr (of_nat (length bs),
      TokenFromRid (RidFromToken tk) (g_tkCorEncodeToken (token_tag (TypeFromToken tk))))"
    by (simp only: CorSigUncompressToken_def CorSigCompressData_roundtrip_raw [OF bs]
        bindE_Inr prod.case bits)
  also have "\<dots> = Inr (of_nat (length bs), tk)"
    by (simp only: g_tkCorEncodeToken_tag [OF assms] TokenFromRid_split)
  finally show ?thesis
    using bs by (auto simp: CorSigCompressToken_eq)
qed

text \<open>
  Tokens round-trip: every type definition, reference, specification or base type
  token is compressible (the code's \<open>-1\<close> branch is dead for it), and uncompressing the
  bytes gives the token back, whatever follows them.
\<close>
theorem CorSigCompressToken_roundtrip:
  assumes "TypeFromToken tk \<in> {mdtTypeDef, mdtTypeRef, mdtTypeSpec, mdtBaseType}"
  shows "\<exists>bs. CorSigCompressToken tk = Some bs
    \<and> CorSigUncompressToken (bs @ rest) = Inr (of_nat (length bs), tk)"
  by (rule CorSigCompressToken_roundtrip_raw [OF assms])

theorem CorSigCompressToken_roundtrip_witness:
  "\<exists>bs. CorSigCompressToken 0x0100002A = Some bs
    \<and> CorSigUncompressToken (bs @ [0x08]) = Inr (of_nat (length bs), 0x0100002A)"
  by (rule CorSigCompressToken_roundtrip) (simp add: TypeFromToken_def mdtTypeRef_def)

end
