(* ===== verification/SigParser.thy ===== *)
theory SigParser
  imports CorSig
begin

text \<open>
  The recursive-descent parser of metadata type signatures (\<open>sig_helpers.cpp\<close>). Each
  \<open>bool Parse...(PCCOR_SIGNATURE* p_sig)\<close> becomes a function from the bytes at the
  pointer to either the bytes at the advanced pointer, or the reason the code stops:
  \<open>Rejected\<close> where it returns \<open>false\<close>, \<open>Overread\<close> where it reads behind the blob.

  \<open>ParseType\<close> is recursive through \<open>ParseMethod\<close>, \<open>ParseRetType\<close> and \<open>ParseParam\<close>. The
  mutually recursive bodies are written over the recursive call (the parameter \<open>pt\<close>), and
  \<open>ParseType\<close> ties the knot with one unit of fuel per nested call. The length of the input
  is enough fuel, because every nested call starts behind at least one consumed byte.
\<close>

section \<open>Element types (\<open>corhdr.h\<close>)\<close>

abbreviation (input) "ELEMENT_TYPE_VOID \<equiv> (0x01 :: byte)"
abbreviation (input) "ELEMENT_TYPE_BOOLEAN \<equiv> (0x02 :: byte)"
abbreviation (input) "ELEMENT_TYPE_CHAR \<equiv> (0x03 :: byte)"
abbreviation (input) "ELEMENT_TYPE_I1 \<equiv> (0x04 :: byte)"
abbreviation (input) "ELEMENT_TYPE_U1 \<equiv> (0x05 :: byte)"
abbreviation (input) "ELEMENT_TYPE_I2 \<equiv> (0x06 :: byte)"
abbreviation (input) "ELEMENT_TYPE_U2 \<equiv> (0x07 :: byte)"
abbreviation (input) "ELEMENT_TYPE_I4 \<equiv> (0x08 :: byte)"
abbreviation (input) "ELEMENT_TYPE_U4 \<equiv> (0x09 :: byte)"
abbreviation (input) "ELEMENT_TYPE_I8 \<equiv> (0x0A :: byte)"
abbreviation (input) "ELEMENT_TYPE_U8 \<equiv> (0x0B :: byte)"
abbreviation (input) "ELEMENT_TYPE_R4 \<equiv> (0x0C :: byte)"
abbreviation (input) "ELEMENT_TYPE_R8 \<equiv> (0x0D :: byte)"
abbreviation (input) "ELEMENT_TYPE_STRING \<equiv> (0x0E :: byte)"
abbreviation (input) "ELEMENT_TYPE_PTR \<equiv> (0x0F :: byte)"
abbreviation (input) "ELEMENT_TYPE_BYREF \<equiv> (0x10 :: byte)"
abbreviation (input) "ELEMENT_TYPE_VALUETYPE \<equiv> (0x11 :: byte)"
abbreviation (input) "ELEMENT_TYPE_CLASS \<equiv> (0x12 :: byte)"
abbreviation (input) "ELEMENT_TYPE_VAR \<equiv> (0x13 :: byte)"
abbreviation (input) "ELEMENT_TYPE_ARRAY \<equiv> (0x14 :: byte)"
abbreviation (input) "ELEMENT_TYPE_GENERICINST \<equiv> (0x15 :: byte)"
abbreviation (input) "ELEMENT_TYPE_TYPEDBYREF \<equiv> (0x16 :: byte)"
abbreviation (input) "ELEMENT_TYPE_I \<equiv> (0x18 :: byte)"
abbreviation (input) "ELEMENT_TYPE_U \<equiv> (0x19 :: byte)"
abbreviation (input) "ELEMENT_TYPE_FNPTR \<equiv> (0x1B :: byte)"
abbreviation (input) "ELEMENT_TYPE_OBJECT \<equiv> (0x1C :: byte)"
abbreviation (input) "ELEMENT_TYPE_SZARRAY \<equiv> (0x1D :: byte)"
abbreviation (input) "ELEMENT_TYPE_MVAR \<equiv> (0x1E :: byte)"
abbreviation (input) "ELEMENT_TYPE_CMOD_REQD \<equiv> (0x1F :: byte)"
abbreviation (input) "ELEMENT_TYPE_CMOD_OPT \<equiv> (0x20 :: byte)"
abbreviation (input) "ELEMENT_TYPE_SENTINEL \<equiv> (0x41 :: byte)"
abbreviation (input) "IMAGE_CEE_CS_CALLCONV_GENERIC \<equiv> (0x10 :: byte)"

definition simple_element_types :: "byte list" where
  "simple_element_types =
     [ELEMENT_TYPE_VOID, ELEMENT_TYPE_BOOLEAN, ELEMENT_TYPE_CHAR, ELEMENT_TYPE_I1,
      ELEMENT_TYPE_U1, ELEMENT_TYPE_I2, ELEMENT_TYPE_U2, ELEMENT_TYPE_I4, ELEMENT_TYPE_U4,
      ELEMENT_TYPE_I8, ELEMENT_TYPE_U8, ELEMENT_TYPE_R4, ELEMENT_TYPE_R8,
      ELEMENT_TYPE_STRING, ELEMENT_TYPE_OBJECT]"

section \<open>The parser\<close>

type_synonym parser = "byte list \<Rightarrow> sig_error + byte list"

definition ParseNumber :: "byte list \<Rightarrow> sig_error + (u32 \<times> byte list)" where
  "ParseNumber p = bindE (CorSigUncompressData p)
     (\<lambda>(result, number). if result = ULONG_MAX then Inl Rejected
                         else Inr (number, drop (unat result) p))"

definition ParseTypeDefOrRefEncoded :: parser where
  "ParseTypeDefOrRefEncoded p = bindE (CorSigUncompressToken p)
     (\<lambda>(result, type_token). if result = ULONG_MAX then Inl Rejected
                             else Inr (drop (unat result) p))"

definition ParseCustomMod :: parser where
  "ParseCustomMod p = bindE (rd p)
     (\<lambda>b. if b = ELEMENT_TYPE_CMOD_OPT \<or> b = ELEMENT_TYPE_CMOD_REQD
          then ParseTypeDefOrRefEncoded (drop 1 p)
          else Inl Rejected)"

lemma ParseNumber_consumes:
  "ParseNumber p = Inr (v, q) \<Longrightarrow> length q < length p \<and> (\<exists>w. p = w @ q \<and> w \<noteq> [])"
proof -
  assume "ParseNumber p = Inr (v, q)"
  then obtain n where n: "CorSigUncompressData p = Inr (n, v)" "n \<noteq> ULONG_MAX"
    and q: "q = drop (unat n) p"
    by (auto simp: ParseNumber_def res_simps split: if_splits)
  have len: "0 < unat n" "unat n \<le> length p"
    using CorSigUncompressData_consumes [OF n] by simp_all
  then have "p = take (unat n) p @ q" and "take (unat n) p \<noteq> []"
    using q by auto
  with len q show ?thesis
    by (metis append_take_drop_id length_drop diff_less le_trans length_greater_0_conv
        less_le_trans list.size(3) not_le)
qed

lemma ParseTypeDefOrRefEncoded_eq:
  "ParseTypeDefOrRefEncoded p = bindE (ParseNumber p) (\<lambda>(_, q). Inr q)"
  by (auto simp: ParseTypeDefOrRefEncoded_def ParseNumber_def CorSigUncompressToken_def bindE_def
      split: sum.splits)

lemma ParseTypeDefOrRefEncoded_consumes:
  "ParseTypeDefOrRefEncoded p = Inr q \<Longrightarrow> length q < length p"
  by (auto simp: ParseTypeDefOrRefEncoded_eq res_simps dest: ParseNumber_consumes)

lemma ParseCustomMod_consumes:
  "ParseCustomMod p = Inr q \<Longrightarrow> length q < length p"
  by (auto simp: ParseCustomMod_def res_simps split: if_splits
      dest!: ParseTypeDefOrRefEncoded_consumes)

function ParseOptionalCustomMods :: parser where
  "ParseOptionalCustomMods p = bindE (rd p)
     (\<lambda>b. if b = ELEMENT_TYPE_CMOD_OPT \<or> b = ELEMENT_TYPE_CMOD_REQD
          then bindE (ParseCustomMod p) (\<lambda>q. ParseOptionalCustomMods q)
          else Inr p)"
  by pat_completeness auto
termination
  by (relation "measure length") (auto dest: ParseCustomMod_consumes)

declare ParseOptionalCustomMods.simps [simp del]

text \<open>A counted loop: \<open>n\<close> times the same parser.\<close>

fun repeatE :: "nat \<Rightarrow> ('s \<Rightarrow> 'e + 's) \<Rightarrow> 's \<Rightarrow> 'e + 's" where
  "repeatE 0 f s = Inr s"
| "repeatE (Suc n) f s = bindE (f s) (repeatE n f)"

definition ParseRetType_body :: "parser \<Rightarrow> parser" where
  "ParseRetType_body pt p = bindE (ParseOptionalCustomMods p) (\<lambda>p.
     bindE (rd p) (\<lambda>b.
       if b = ELEMENT_TYPE_TYPEDBYREF \<or> b = ELEMENT_TYPE_VOID then Inr (drop 1 p)
       else if b = ELEMENT_TYPE_BYREF then pt (drop 1 p)
       else pt p))"

definition ParseParam_body :: "parser \<Rightarrow> parser" where
  "ParseParam_body pt p = bindE (ParseOptionalCustomMods p) (\<lambda>p.
     bindE (rd p) (\<lambda>b.
       if b = ELEMENT_TYPE_TYPEDBYREF then Inr (drop 1 p)
       else if b = ELEMENT_TYPE_BYREF then pt (drop 1 p)
       else pt p))"

text \<open>The parameter loop of \<open>ParseMethod\<close>, with the flag \<open>sentinel_found\<close>.\<close>

fun ParseMethod_params :: "parser \<Rightarrow> nat \<Rightarrow> bool \<Rightarrow> parser" where
  "ParseMethod_params pt 0 sentinel_found p = Inr p"
| "ParseMethod_params pt (Suc n) sentinel_found p = bindE (rd p) (\<lambda>b.
     if b = ELEMENT_TYPE_SENTINEL then
       (if sentinel_found then Inl Rejected
        else bindE (ParseParam_body pt (drop 1 p)) (ParseMethod_params pt n True))
     else bindE (ParseParam_body pt p) (ParseMethod_params pt n sentinel_found))"

definition ParseMethod_body :: "parser \<Rightarrow> parser" where
  "ParseMethod_body pt p = bindE (rd p) (\<lambda>b.
     bindE (if b = IMAGE_CEE_CS_CALLCONV_GENERIC
            then bindE (ParseNumber (drop 1 p)) (\<lambda>(generic_count, p). Inr p)
            else Inr p) (\<lambda>p.
     bindE (ParseNumber p) (\<lambda>(param_count, p).
     bindE (ParseRetType_body pt p) (\<lambda>p.
       ParseMethod_params pt (unat param_count) False p))))"

definition ParseArrayShape :: parser where
  "ParseArrayShape p =
     bindE (ParseNumber p) (\<lambda>(rank, p).
     bindE (ParseNumber p) (\<lambda>(numsizes, p).
     bindE (repeatE (unat numsizes) (\<lambda>p. bindE (ParseNumber p) (\<lambda>(size, p). Inr p)) p) (\<lambda>p.
     bindE (ParseNumber p) (\<lambda>(numsizes, p).
       repeatE (unat numsizes) (\<lambda>p. bindE (ParseNumber p) (\<lambda>(size, p). Inr p)) p))))"

definition ParseType_body :: "parser \<Rightarrow> parser" where
  "ParseType_body pt p = bindE (rd p) (\<lambda>cor_element_type. let p = drop 1 p in
     if cor_element_type \<in> set simple_element_types then Inr p
     else if cor_element_type = ELEMENT_TYPE_PTR then
       bindE (ParseOptionalCustomMods p) (\<lambda>p.
       bindE (rd p) (\<lambda>b. if b = ELEMENT_TYPE_VOID then Inr (drop 1 p) else pt p))
     else if cor_element_type = ELEMENT_TYPE_VALUETYPE \<or> cor_element_type = ELEMENT_TYPE_CLASS then
       ParseTypeDefOrRefEncoded p
     else if cor_element_type = ELEMENT_TYPE_FNPTR then ParseMethod_body pt p
     else if cor_element_type = ELEMENT_TYPE_ARRAY then
       bindE (pt p) (\<lambda>p. ParseArrayShape p)
     else if cor_element_type = ELEMENT_TYPE_SZARRAY then
       bindE (ParseOptionalCustomMods p) (\<lambda>p. pt p)
     else if cor_element_type = ELEMENT_TYPE_GENERICINST then
       bindE (rd p) (\<lambda>b.
         if b \<noteq> ELEMENT_TYPE_VALUETYPE \<and> b \<noteq> ELEMENT_TYPE_CLASS then Inl Rejected
         else
           bindE (ParseTypeDefOrRefEncoded (drop 1 p)) (\<lambda>p.
           bindE (ParseNumber p) (\<lambda>(number, p). repeatE (unat number) pt p)))
     else if cor_element_type = ELEMENT_TYPE_VAR \<or> cor_element_type = ELEMENT_TYPE_MVAR then
       bindE (ParseNumber p) (\<lambda>(number, p). Inr p)
     else Inl Rejected)"

primrec ParseType_fuel :: "nat \<Rightarrow> parser" where
  "ParseType_fuel 0 = (\<lambda>p. Inl OutOfFuel)"
| "ParseType_fuel (Suc k) = ParseType_body (ParseType_fuel k)"

definition ParseType :: parser where
  "ParseType p = ParseType_fuel (Suc (length p)) p"

definition ParseRetType :: parser where "ParseRetType = ParseRetType_body ParseType"
definition ParseParam :: parser where "ParseParam = ParseParam_body ParseType"
definition ParseMethod :: parser where "ParseMethod = ParseMethod_body ParseType"


section \<open>Progress and the recursion equation\<close>

text \<open>What the bodies need of the recursive call on inputs shorter than \<open>k\<close>: equal
  parsers give equal bodies, and parsers that do not grow the input give bodies that do
  not grow it.\<close>

definition agree_below :: "nat \<Rightarrow> parser \<Rightarrow> parser \<Rightarrow> bool" where
  "agree_below k f g \<longleftrightarrow> (\<forall>q. length q < k \<longrightarrow> f q = g q)"

definition shrinks_below :: "nat \<Rightarrow> parser \<Rightarrow> bool" where
  "shrinks_below k f \<longleftrightarrow> (\<forall>q r. length q < k \<longrightarrow> f q = Inr r \<longrightarrow> length r \<le> length q)"

definition fueled_below :: "nat \<Rightarrow> parser \<Rightarrow> bool" where
  "fueled_below k f \<longleftrightarrow> (\<forall>q. length q < k \<longrightarrow> f q \<noteq> Inl OutOfFuel)"

lemma agree_belowD: "agree_below k f g \<Longrightarrow> length q < k \<Longrightarrow> f q = g q"
  by (simp add: agree_below_def)

lemma shrinks_belowD: "shrinks_below k f \<Longrightarrow> f q = Inr r \<Longrightarrow> length q < k \<Longrightarrow> length r \<le> length q"
  by (auto simp: shrinks_below_def)

lemma fueled_belowD: "fueled_below k f \<Longrightarrow> length q < k \<Longrightarrow> f q \<noteq> Inl OutOfFuel"
  by (simp add: fueled_below_def)

lemma rd_Inr [simp]: "rd p = Inr b \<longleftrightarrow> (\<exists>r. p = b # r)"
  by (auto simp: rd_def split: list.splits)

lemma rd_Inl [simp]: "rd p = Inl e \<longleftrightarrow> p = [] \<and> e = Overread"
  by (auto simp: rd_def split: list.splits)

lemma rd_Cons [simp]: "rd (b # p) = Inr b"
  by simp

lemma ParseOptionalCustomMods_le:
  "ParseOptionalCustomMods p = Inr q \<Longrightarrow> length q \<le> length p"
proof (induction p arbitrary: q rule: ParseOptionalCustomMods.induct)
  case (1 p)
  show ?case
  proof (cases "\<exists>b r. p = b # r \<and> (b = ELEMENT_TYPE_CMOD_OPT \<or> b = ELEMENT_TYPE_CMOD_REQD)")
    case True
    then obtain b where b: "rd p = Inr b" "b = ELEMENT_TYPE_CMOD_OPT \<or> b = ELEMENT_TYPE_CMOD_REQD"
      by auto
    with 1(2) obtain p' where p': "ParseCustomMod p = Inr p'" "ParseOptionalCustomMods p' = Inr q"
      by (subst (asm) ParseOptionalCustomMods.simps) (auto simp: res_simps)
    have "length q \<le> length p'"
      using 1(1) [OF b p'(1) p'(2)] .
    with ParseCustomMod_consumes [OF p'(1)] show ?thesis by simp
  next
    case False
    with 1(2) show ?thesis
      by (subst (asm) ParseOptionalCustomMods.simps) (auto simp: res_simps split: if_splits)
  qed
qed

lemma ParseRetType_body_cong:
  "agree_below k f g \<Longrightarrow> length p < k \<Longrightarrow> ParseRetType_body f p = ParseRetType_body g p"
  unfolding ParseRetType_body_def
  by (intro bindE_cong refl if_cong)
    (auto dest!: ParseOptionalCustomMods_le intro!: agree_belowD)

lemma ParseParam_body_cong:
  "agree_below k f g \<Longrightarrow> length p < k \<Longrightarrow> ParseParam_body f p = ParseParam_body g p"
  unfolding ParseParam_body_def
  by (intro bindE_cong refl if_cong)
    (auto dest!: ParseOptionalCustomMods_le intro!: agree_belowD)

lemma ParseRetType_body_shrinks:
  assumes "shrinks_below k f" and "ParseRetType_body f p = Inr q" and "length p < k"
  shows "length q \<le> length p"
  using assms
  by (fastforce simp: ParseRetType_body_def res_simps split: if_splits
      dest: ParseOptionalCustomMods_le shrinks_belowD)

lemma ParseParam_body_shrinks:
  assumes "shrinks_below k f" and "ParseParam_body f p = Inr q" and "length p < k"
  shows "length q \<le> length p"
  using assms
  by (fastforce simp: ParseParam_body_def res_simps split: if_splits
      dest: ParseOptionalCustomMods_le shrinks_belowD)

lemma ParseMethod_params_cong:
  assumes "agree_below k f g" and "shrinks_below k f" and "length p < k"
  shows "ParseMethod_params f n s p = ParseMethod_params g n s p"
  using assms(3)
proof (induction n arbitrary: s p)
  case (Suc n)
  have "bindE (ParseParam_body f p') (ParseMethod_params f n s')
      = bindE (ParseParam_body g p') (ParseMethod_params g n s')" if "length p' \<le> length p" for p' s'
    using that Suc.prems ParseParam_body_shrinks [OF assms(2)]
    by (intro bindE_cong ParseParam_body_cong [OF assms(1)] Suc.IH)
      (auto simp: ParseParam_body_cong [OF assms(1), symmetric], fastforce)
  then show ?case
    by (auto intro!: bindE_cong)
qed simp

lemma ParseMethod_params_shrinks:
  assumes "shrinks_below k f"
  shows "ParseMethod_params f n s p = Inr q \<Longrightarrow> length p < k \<Longrightarrow> length q \<le> length p"
proof (induction n arbitrary: s p)
  case (Suc n)
  from Suc.prems(1) obtain b r where p: "p = b # r"
    by (auto simp: res_simps)
  from Suc.prems(1) obtain p' s' p'' where "p' = p \<or> p' = r" "ParseParam_body f p' = Inr p''"
      "ParseMethod_params f n s' p'' = Inr q"
    by (auto simp: p res_simps split: if_splits)
  then have p': "length p' \<le> length p" "ParseParam_body f p' = Inr p''"
      "ParseMethod_params f n s' p'' = Inr q"
    using p by auto
  have "length p'' \<le> length p'"
    using ParseParam_body_shrinks [OF assms p'(2)] p'(1) Suc.prems(2) by simp
  moreover from this have "length q \<le> length p''"
    using Suc.IH [OF p'(3)] p'(1) Suc.prems(2) by simp
  ultimately show ?case using p'(1) by simp
qed simp

lemma repeatE_cong_below:
  assumes "agree_below k f g" and "shrinks_below k f" and "length p < k"
  shows "repeatE n f p = repeatE n g p"
  using assms(3)
proof (induction n arbitrary: p)
  case (Suc n)
  have "bindE (f p) (repeatE n f) = bindE (g p) (repeatE n g)"
  proof (rule bindE_cong)
    show fg: "f p = g p"
      by (rule agree_belowD [OF assms(1) Suc.prems])
    fix q assume "g p = Inr q"
    with fg have "length q \<le> length p"
      using shrinks_belowD [OF assms(2) _ Suc.prems] by simp
    with Suc.prems show "repeatE n f q = repeatE n g q"
      by (intro Suc.IH) simp
  qed
  then show ?case by simp
qed simp

lemma repeatE_shrinks:
  assumes "\<And>q r. f q = Inr r \<Longrightarrow> length q < k \<Longrightarrow> length r \<le> length q"
  shows "repeatE n f p = Inr q \<Longrightarrow> length p < k \<Longrightarrow> length q \<le> length p"
proof (induction n arbitrary: p)
  case (Suc n)
  then show ?case
    using assms by (fastforce simp: res_simps)
qed simp


lemma ParseNumber_le: "ParseNumber p = Inr (v, q) \<Longrightarrow> length q < length p"
  using ParseNumber_consumes by blast

lemma skip_number_le:
  "bindE (ParseNumber p) (\<lambda>(v, q). Inr q) = Inr r \<Longrightarrow> length r < length p"
  by (auto simp: res_simps dest: ParseNumber_le)

lemma repeat_numbers_le:
  "repeatE n (\<lambda>p. bindE (ParseNumber p) (\<lambda>(v, q). Inr q)) p = Inr q \<Longrightarrow> length q \<le> length p"
  by (rule repeatE_shrinks [where k = "Suc (length p)"])
    (auto dest: skip_number_le)

lemma ParseArrayShape_le: "ParseArrayShape p = Inr q \<Longrightarrow> length q < length p"
  unfolding ParseArrayShape_def
  by (auto simp: res_simps dest!: ParseNumber_le repeat_numbers_le)

lemma generic_prefix_le:
  "(if b then bindE (ParseNumber (drop 1 p)) (\<lambda>(c, p). Inr p) else Inr p) = Inr q
    \<Longrightarrow> length q \<le> length p"
  by (auto split: if_splits dest!: skip_number_le)

lemma ParseMethod_body_cong:
  assumes "agree_below k f g" and "shrinks_below k f" and "length p < k"
  shows "ParseMethod_body f p = ParseMethod_body g p"
proof -
  have "ParseMethod_params f n s q = ParseMethod_params g n s q"
    and "ParseRetType_body f q = ParseRetType_body g q" if "length q \<le> length p" for q n s
    using that assms by (auto intro: ParseMethod_params_cong ParseRetType_body_cong)
  moreover have "length r \<le> length p"
    if "ParseRetType_body g q = Inr r" "length q \<le> length p" for q r
    using that ParseRetType_body_shrinks [OF assms(2)] ParseRetType_body_cong [OF assms(1)] assms(3)
    by (metis le_trans le_less_trans)
  ultimately show ?thesis
    unfolding ParseMethod_body_def
    by (fastforce intro!: bindE_cong simp: split_beta
        dest!: generic_prefix_le ParseNumber_le [of _ "fst x" "snd x" for x, simplified prod.collapse])
qed

lemma ParseMethod_body_shrinks:
  assumes "shrinks_below k f" and "ParseMethod_body f p = Inr q" and "length p < k"
  shows "length q \<le> length p"
proof -
  from assms(2) obtain p1 n p2 p3 where
    "length p1 \<le> length p" "ParseNumber p1 = Inr (n, p2)" "ParseRetType_body f p2 = Inr p3"
    "ParseMethod_params f (unat n) False p3 = Inr q"
    by (auto simp: ParseMethod_body_def res_simps dest!: generic_prefix_le)
  moreover from this have "length p2 < length p1" by (simp add: ParseNumber_le)
  moreover from calculation have "length p3 \<le> length p2"
    using ParseRetType_body_shrinks [OF assms(1)] assms(3) by simp
  moreover from calculation have "length q \<le> length p3"
    using ParseMethod_params_shrinks [OF assms(1)] assms(3) by simp
  ultimately show ?thesis by simp
qed

lemma ParseType_body_cong:
  assumes "agree_below (length p) f g" and "shrinks_below (length p) f"
  shows "ParseType_body f p = ParseType_body g p"
proof (cases p)
  case (Cons b r)
  have f: "f q = g q" if "length q \<le> length r" for q
    using agree_belowD [OF assms(1), of q] that Cons by simp
  have m: "ParseMethod_body f r = ParseMethod_body g r"
    using ParseMethod_body_cong [OF assms, of r] Cons by simp
  have rep: "repeatE n f q = repeatE n g q" if "length q \<le> length r" for n q
    using repeatE_cong_below [OF assms, of q n] that Cons by simp
  show ?thesis
    unfolding ParseType_body_def Cons
    by (auto simp: m Let_def split_beta intro!: bindE_cong f rep
        dest!: ParseOptionalCustomMods_le ParseTypeDefOrRefEncoded_consumes skip_number_le
          ParseNumber_le [of _ "fst x" "snd x" for x, simplified prod.collapse])
qed (simp add: ParseType_body_def rd_def)

lemma ParseType_body_shrinks:
  assumes "shrinks_below (length p) f" and "ParseType_body f p = Inr q"
  shows "length q < length p"
proof -
  from assms(2) obtain b r where p: "p = b # r"
    by (auto simp: ParseType_body_def res_simps)
  have f: "f x = Inr y \<Longrightarrow> length x \<le> length r \<Longrightarrow> length y \<le> length x" for x y
    using shrinks_belowD [OF assms(1), of x y] p by simp
  have m: "ParseMethod_body f r = Inr y \<Longrightarrow> length y \<le> length r" for y
    using ParseMethod_body_shrinks [OF assms(1), of r y] p by simp
  have rep: "repeatE n f x = Inr y \<Longrightarrow> length x \<le> length r \<Longrightarrow> length y \<le> length x" for n x y
    using repeatE_shrinks [of f "length p" n x y] shrinks_belowD [OF assms(1)] p by simp
  have "length q \<le> length r"
    using assms(2) unfolding ParseType_body_def p
    by (auto simp: res_simps Let_def split: if_splits
        dest!: ParseOptionalCustomMods_le ParseTypeDefOrRefEncoded_consumes ParseNumber_le
          ParseArrayShape_le m) (fastforce dest: f rep)+
  then show ?thesis using p by simp
qed


lemma ParseType_fuel_shrinks: "ParseType_fuel k p = Inr q \<Longrightarrow> length q < length p"
proof (induction k arbitrary: p q)
  case (Suc k)
  then have "shrinks_below (length p) (ParseType_fuel k)"
    by (auto simp: shrinks_below_def less_imp_le)
  then show ?case
    using ParseType_body_shrinks Suc.prems by simp
qed simp

lemma ParseType_fuel_shrinks_below: "shrinks_below k (ParseType_fuel n)"
  by (auto simp: shrinks_below_def dest: ParseType_fuel_shrinks)

lemma ParseType_fuel_agree:
  "length p < k \<Longrightarrow> length p < k' \<Longrightarrow> ParseType_fuel k p = ParseType_fuel k' p"
proof (induction "length p" arbitrary: p k k' rule: less_induct)
  case less
  then obtain j j' where k: "k = Suc j" "k' = Suc j'"
    by (metis less_imp_Suc_add)
  have "agree_below (length p) (ParseType_fuel j) (ParseType_fuel j')"
    unfolding agree_below_def using less.hyps less.prems k by (meson less_trans_Suc Suc_less_eq less_le_trans not_less)
  then show ?case
    unfolding k by (auto intro: ParseType_body_cong ParseType_fuel_shrinks_below)
qed

lemma ParseType_fuel_enough: "length p < k \<Longrightarrow> ParseType_fuel k p = ParseType p"
  unfolding ParseType_def by (rule ParseType_fuel_agree) simp_all

lemma ParseType_shrinks: "ParseType p = Inr q \<Longrightarrow> length q < length p"
  unfolding ParseType_def by (rule ParseType_fuel_shrinks)

text \<open>The equation of the source: \<open>ParseType\<close> is its body, calling itself.\<close>

lemma ParseType_unfold_raw: "ParseType p = ParseType_body ParseType p"
proof -
  have "agree_below (length p) (ParseType_fuel (length p)) ParseType"
    by (simp add: agree_below_def ParseType_fuel_enough)
  then show ?thesis
    by (simp add: ParseType_def [of p] ParseType_body_cong ParseType_fuel_shrinks_below)
qed

subsection \<open>The parser never runs out of fuel\<close>

lemma CorSigUncompressData_fueled [simp]: "CorSigUncompressData p \<noteq> Inl OutOfFuel"
  by (auto simp: CorSigUncompressData_def CorSigUncompressData_len_def
      split: list.splits sum.splits sig_error.splits if_splits)

lemma ParseNumber_fueled [simp]: "ParseNumber p \<noteq> Inl OutOfFuel"
  by (auto simp: ParseNumber_def res_simps split: if_splits)

lemma ParseTypeDefOrRefEncoded_fueled [simp]: "ParseTypeDefOrRefEncoded p \<noteq> Inl OutOfFuel"
  by (auto simp: ParseTypeDefOrRefEncoded_eq res_simps)

lemma ParseOptionalCustomMods_fueled [simp]: "ParseOptionalCustomMods p \<noteq> Inl OutOfFuel"
proof (induction p rule: ParseOptionalCustomMods.induct)
  case (1 p)
  then show ?case
    by (subst ParseOptionalCustomMods.simps)
      (auto simp: res_simps ParseCustomMod_def split: if_splits)
qed

lemma repeatE_fueled:
  assumes "fueled_below k f" and "shrinks_below k f"
  shows "length p < k \<Longrightarrow> repeatE n f p \<noteq> Inl OutOfFuel"
proof (induction n arbitrary: p)
  case (Suc n)
  have "repeatE n f q \<noteq> Inl OutOfFuel" if "f p = Inr q" for q
    using shrinks_belowD [OF assms(2) that] Suc by simp
  then show ?case
    using fueled_belowD [OF assms(1) Suc.prems] by (auto simp: bindE_eq_Inl)
qed simp

lemma ParseArrayShape_fueled [simp]: "ParseArrayShape p \<noteq> Inl OutOfFuel"
proof -
  have "repeatE n (\<lambda>p. bindE (ParseNumber p) (\<lambda>(v, q). Inr q)) p \<noteq> Inl OutOfFuel" for n p
    by (rule repeatE_fueled [where k = "Suc (length p)"])
      (auto simp: fueled_below_def shrinks_below_def res_simps dest: ParseNumber_le)
  then show ?thesis
    by (auto simp: ParseArrayShape_def res_simps)
qed

lemma ParseRetType_body_fueled:
  "fueled_below k f \<Longrightarrow> length p < k \<Longrightarrow> ParseRetType_body f p \<noteq> Inl OutOfFuel"
  by (auto simp: ParseRetType_body_def bindE_eq_Inl fueled_below_def split: if_splits
      dest!: ParseOptionalCustomMods_le)

lemma ParseParam_body_fueled:
  "fueled_below k f \<Longrightarrow> length p < k \<Longrightarrow> ParseParam_body f p \<noteq> Inl OutOfFuel"
  by (auto simp: ParseParam_body_def bindE_eq_Inl fueled_below_def split: if_splits
      dest!: ParseOptionalCustomMods_le)

lemma ParseMethod_params_fueled:
  assumes "fueled_below k f" and "shrinks_below k f"
  shows "length p < k \<Longrightarrow> ParseMethod_params f n s p \<noteq> Inl OutOfFuel"
proof (induction n arbitrary: s p)
  case (Suc n)
  have *: "bindE (ParseParam_body f q) (ParseMethod_params f n s') \<noteq> Inl OutOfFuel"
    if "length q \<le> length p" for q s'
    using that Suc ParseParam_body_fueled [OF assms(1), of q]
      ParseParam_body_shrinks [OF assms(2), of q]
    by (auto simp: bindE_eq_Inl)
  show ?case
    using * [of p] * [of "drop 1 p"] by (auto simp: bindE_eq_Inl [of "rd p"])
qed simp

lemma generic_prefix_fueled [simp]:
  "(if b then bindE (ParseNumber p) (\<lambda>(c, p). Inr p) else Inr q) \<noteq> Inl OutOfFuel"
  by (auto simp: bindE_eq_Inl)

lemma ParseMethod_body_fueled:
  assumes "fueled_below k f" and "shrinks_below k f" and "length p < k"
  shows "ParseMethod_body f p \<noteq> Inl OutOfFuel"
proof
  assume "ParseMethod_body f p = Inl OutOfFuel"
  then obtain b where "bindE (if b = IMAGE_CEE_CS_CALLCONV_GENERIC
      then bindE (ParseNumber (drop 1 p)) (\<lambda>(c, p). Inr p) else Inr p)
      (\<lambda>p. bindE (ParseNumber p) (\<lambda>(n, p). bindE (ParseRetType_body f p)
        (\<lambda>p. ParseMethod_params f (unat n) False p))) = Inl OutOfFuel"
    unfolding ParseMethod_body_def bindE_eq_Inl [of "rd p"] by auto
  then obtain p1 where "length p1 \<le> length p"
    and "bindE (ParseNumber p1) (\<lambda>(n, p). bindE (ParseRetType_body f p)
        (\<lambda>p. ParseMethod_params f (unat n) False p)) = Inl OutOfFuel"
    using generic_prefix_le generic_prefix_fueled unfolding bindE_eq_Inl [of "if _ then _ else _"]
    by blast
  then obtain n p2 where p: "length p1 \<le> length p" "ParseNumber p1 = Inr (n, p2)"
    and bad: "ParseRetType_body f p2 = Inl OutOfFuel \<or> (\<exists>p3. ParseRetType_body f p2 = Inr p3
      \<and> ParseMethod_params f (unat n) False p3 = Inl OutOfFuel)"
    by (auto simp: bindE_eq_Inl)
  have p2: "length p2 < k"
    using p assms(3) by (auto dest: ParseNumber_le)
  have "ParseMethod_params f (unat n) False p3 \<noteq> Inl OutOfFuel"
    if "ParseRetType_body f p2 = Inr p3" for p3
    using ParseRetType_body_shrinks [OF assms(2) that p2] p2
      ParseMethod_params_fueled [OF assms(1,2), of p3] by simp
  with bad ParseRetType_body_fueled [OF assms(1) p2] show False
    by blast
qed

lemma ParseType_body_fueled:
  assumes "fueled_below (length p) f" and "shrinks_below (length p) f"
  shows "ParseType_body f p \<noteq> Inl OutOfFuel"
proof (cases p)
  case (Cons b r)
  have f: "f q \<noteq> Inl OutOfFuel" if "length q \<le> length r" for q
    using fueled_belowD [OF assms(1), of q] that Cons by simp
  have m: "ParseMethod_body f r \<noteq> Inl OutOfFuel"
    using ParseMethod_body_fueled [OF assms, of r] Cons by simp
  have rep: "repeatE n f q \<noteq> Inl OutOfFuel" if "length q \<le> length r" for n q
    using repeatE_fueled [OF assms, of q n] that Cons by simp
  show ?thesis
    unfolding ParseType_body_def Cons
    by (auto simp: m f rep Let_def bindE_eq_Inl
        dest!: ParseOptionalCustomMods_le ParseTypeDefOrRefEncoded_consumes ParseNumber_le)
qed (simp add: ParseType_body_def rd_def)

lemma ParseType_fuel_fueled: "length p < k \<Longrightarrow> ParseType_fuel k p \<noteq> Inl OutOfFuel"
proof (induction k arbitrary: p)
  case (Suc k)
  then have "fueled_below (length p) (ParseType_fuel k)"
    by (auto simp: fueled_below_def)
  then show ?case
    by (simp add: ParseType_body_fueled ParseType_fuel_shrinks_below)
qed simp

text \<open>
  \<open>ParseType\<close> terminates: on every blob, the recursion bounded by the length of the
  blob reaches an answer (it never runs out of fuel), and the answer satisfies the
  unbounded recursion equation of the source.
\<close>
theorem ParseType_terminates:
  "ParseType p \<noteq> Inl OutOfFuel \<and> ParseType p = ParseType_body ParseType p"
  using ParseType_fuel_fueled [of p "Suc (length p)"] ParseType_unfold_raw [of p]
  unfolding ParseType_def [of p] by simp

end
