(* ===== verification/SigGrammar.thy ===== *)
theory SigGrammar
  imports SigParser
begin

text \<open>
  What the signature parser accepts, as a grammar. The comment of \<open>ParseType\<close> in
  \<open>sig_helpers.cpp\<close> gives the format of a type signature as a grammar; here the language
  that the code really recognises is stated as mutually inductive predicates over byte
  lists, and the parser is proved to be a sound and complete recogniser of it: it succeeds
  exactly on the inputs that begin with a word of the language, and it advances the pointer
  by exactly that word.
\<close>

section \<open>The language\<close>

definition is_number :: "byte list \<Rightarrow> u32 \<Rightarrow> bool" where
  "is_number w v \<longleftrightarrow> (\<exists>n. CorSigUncompressData w = Inr (n, v) \<and> n \<noteq> ULONG_MAX \<and> unat n = length w)"

definition is_token :: "byte list \<Rightarrow> bool" where
  "is_token w \<longleftrightarrow> (\<exists>v. is_number w v)"

inductive NumbersSig :: "nat \<Rightarrow> byte list \<Rightarrow> bool" where
  none: "NumbersSig 0 []"
| more: "is_number w v \<Longrightarrow> NumbersSig n ws \<Longrightarrow> NumbersSig (Suc n) (w @ ws)"

inductive CustomModsSig :: "byte list \<Rightarrow> bool" where
  none: "CustomModsSig []"
| more: "b = ELEMENT_TYPE_CMOD_OPT \<or> b = ELEMENT_TYPE_CMOD_REQD \<Longrightarrow> is_token w
    \<Longrightarrow> CustomModsSig ws \<Longrightarrow> CustomModsSig (b # w @ ws)"

inductive ArrayShapeSig :: "byte list \<Rightarrow> bool" where
  "is_number r rank \<Longrightarrow> is_number s nsizes \<Longrightarrow> NumbersSig (unat nsizes) ss
    \<Longrightarrow> is_number l nbounds \<Longrightarrow> NumbersSig (unat nbounds) ls
    \<Longrightarrow> ArrayShapeSig (r @ s @ ss @ l @ ls)"

inductive TypeSig :: "byte list \<Rightarrow> bool"
  and TypesSig :: "nat \<Rightarrow> byte list \<Rightarrow> bool"
  and RetTypeSig :: "byte list \<Rightarrow> bool"
  and ParamSig :: "byte list \<Rightarrow> bool"
  and ParamsSig :: "nat \<Rightarrow> bool \<Rightarrow> byte list \<Rightarrow> bool"
  and MethodSig :: "byte list \<Rightarrow> bool"
where
  simple: "b \<in> set simple_element_types \<Longrightarrow> TypeSig [b]"
| ptr: "CustomModsSig m \<Longrightarrow> TypeSig t \<Longrightarrow> TypeSig (ELEMENT_TYPE_PTR # m @ t)"
| valuetype: "is_token w \<Longrightarrow> TypeSig (ELEMENT_TYPE_VALUETYPE # w)"
| class_ref: "is_token w \<Longrightarrow> TypeSig (ELEMENT_TYPE_CLASS # w)"
| fnptr: "MethodSig m \<Longrightarrow> TypeSig (ELEMENT_TYPE_FNPTR # m)"
| array: "TypeSig t \<Longrightarrow> ArrayShapeSig s \<Longrightarrow> TypeSig (ELEMENT_TYPE_ARRAY # t @ s)"
| szarray: "CustomModsSig m \<Longrightarrow> TypeSig t \<Longrightarrow> TypeSig (ELEMENT_TYPE_SZARRAY # m @ t)"
| genericinst: "b = ELEMENT_TYPE_VALUETYPE \<or> b = ELEMENT_TYPE_CLASS \<Longrightarrow> is_token w
    \<Longrightarrow> is_number n v \<Longrightarrow> TypesSig (unat v) ts
    \<Longrightarrow> TypeSig (ELEMENT_TYPE_GENERICINST # b # w @ n @ ts)"
| var: "is_number w v \<Longrightarrow> TypeSig (ELEMENT_TYPE_VAR # w)"
| mvar: "is_number w v \<Longrightarrow> TypeSig (ELEMENT_TYPE_MVAR # w)"
| types_none: "TypesSig 0 []"
| types_more: "TypeSig t \<Longrightarrow> TypesSig n ts \<Longrightarrow> TypesSig (Suc n) (t @ ts)"
| ret_typedbyref: "CustomModsSig m \<Longrightarrow> RetTypeSig (m @ [ELEMENT_TYPE_TYPEDBYREF])"
| ret_byref: "CustomModsSig m \<Longrightarrow> TypeSig t \<Longrightarrow> RetTypeSig (m @ ELEMENT_TYPE_BYREF # t)"
| ret_type: "CustomModsSig m \<Longrightarrow> TypeSig t \<Longrightarrow> RetTypeSig (m @ t)"
| param_typedbyref: "CustomModsSig m \<Longrightarrow> ParamSig (m @ [ELEMENT_TYPE_TYPEDBYREF])"
| param_byref: "CustomModsSig m \<Longrightarrow> TypeSig t \<Longrightarrow> ParamSig (m @ ELEMENT_TYPE_BYREF # t)"
| param_type: "CustomModsSig m \<Longrightarrow> TypeSig t \<Longrightarrow> ParamSig (m @ t)"
| params_none: "ParamsSig 0 s []"
| params_sentinel: "ParamSig w \<Longrightarrow> ParamsSig n True ws
    \<Longrightarrow> ParamsSig (Suc n) False (ELEMENT_TYPE_SENTINEL # w @ ws)"
| params_more: "ParamSig w \<Longrightarrow> ParamsSig n s ws \<Longrightarrow> ParamsSig (Suc n) s (w @ ws)"
| method_generic: "is_number g c \<Longrightarrow> is_number n v \<Longrightarrow> RetTypeSig r \<Longrightarrow> ParamsSig (unat v) False ps
    \<Longrightarrow> MethodSig (IMAGE_CEE_CS_CALLCONV_GENERIC # g @ n @ r @ ps)"
| method_plain: "is_number n v \<Longrightarrow> hd n \<noteq> IMAGE_CEE_CS_CALLCONV_GENERIC \<Longrightarrow> RetTypeSig r
    \<Longrightarrow> ParamsSig (unat v) False ps \<Longrightarrow> MethodSig (n @ r @ ps)"

section \<open>Numbers and modifiers\<close>

lemma is_number_nonempty: "is_number w v \<Longrightarrow> w \<noteq> []"
  by (auto simp: is_number_def CorSigUncompressData_def CorSigUncompressData_len_def)

lemma CorSigUncompressData_prefix:
  assumes "CorSigUncompressData p = Inr (n, v)" and "n \<noteq> ULONG_MAX"
  shows "CorSigUncompressData (take (unat n) p) = Inr (n, v)"
  using assms
  by (auto simp: CorSigUncompressData_def CorSigUncompressData_len_def
      split: list.splits if_splits sum.splits sig_error.splits)

lemma ParseNumber_iff: "ParseNumber p = Inr (v, q) \<longleftrightarrow> (\<exists>w. p = w @ q \<and> is_number w v)"
proof
  assume "ParseNumber p = Inr (v, q)"
  then obtain n where n: "CorSigUncompressData p = Inr (n, v)" "n \<noteq> ULONG_MAX"
    and q: "q = drop (unat n) p"
    by (auto simp: ParseNumber_def res_simps split: if_splits)
  have "is_number (take (unat n) p) v"
    using CorSigUncompressData_prefix [OF n] CorSigUncompressData_consumes [OF n] n
    by (auto simp: is_number_def)
  then show "\<exists>w. p = w @ q \<and> is_number w v"
    using q by (metis append_take_drop_id)
next
  assume "\<exists>w. p = w @ q \<and> is_number w v"
  then obtain w n where "p = w @ q" "CorSigUncompressData w = Inr (n, v)" "n \<noteq> ULONG_MAX"
    "unat n = length w"
    by (auto simp: is_number_def)
  then show "ParseNumber p = Inr (v, q)"
    using CorSigUncompressData_append [of w _ q] by (simp add: ParseNumber_def)
qed

lemma ParseNumber_word: "is_number w v \<Longrightarrow> ParseNumber (w @ q) = Inr (v, q)"
  using ParseNumber_iff by blast

lemma ParseTypeDefOrRefEncoded_iff:
  "ParseTypeDefOrRefEncoded p = Inr q \<longleftrightarrow> (\<exists>w. p = w @ q \<and> is_token w)"
  by (auto simp: ParseTypeDefOrRefEncoded_eq res_simps ParseNumber_iff is_token_def)

lemma ParseTypeDefOrRefEncoded_word:
  "is_token w \<Longrightarrow> ParseTypeDefOrRefEncoded (w @ q) = Inr q"
  using ParseTypeDefOrRefEncoded_iff by blast

abbreviation skip_number :: parser where
  "skip_number \<equiv> (\<lambda>p. bindE (ParseNumber p) (\<lambda>(v, p). Inr p))"

lemma repeat_numbers_word: "NumbersSig n w \<Longrightarrow> repeatE n skip_number (w @ q) = Inr q"
  by (induction rule: NumbersSig.induct) (simp_all add: ParseNumber_word)

lemma repeat_numbers_sound:
  "repeatE n skip_number p = Inr q \<Longrightarrow> \<exists>w. p = w @ q \<and> NumbersSig n w"
proof (induction n arbitrary: p)
  case 0
  then show ?case by (auto intro: NumbersSig.none)
next
  case (Suc n)
  then obtain w v p' where "p = w @ p'" "is_number w v" "repeatE n skip_number p' = Inr q"
    by (auto simp: res_simps ParseNumber_iff)
  with Suc.IH [of p'] show ?case
    by (metis NumbersSig.more append.assoc)
qed

lemma ParseArrayShape_iff: "ParseArrayShape p = Inr q \<longleftrightarrow> (\<exists>w. p = w @ q \<and> ArrayShapeSig w)"
proof
  assume "ParseArrayShape p = Inr q"
  then obtain r rank s nsizes ss l nb ls where
    "p = r @ s @ ss @ l @ ls @ q" "is_number r rank" "is_number s nsizes"
    "NumbersSig (unat nsizes) ss" "is_number l nb" "NumbersSig (unat nb) ls"
    unfolding ParseArrayShape_def
    by (auto simp: res_simps ParseNumber_iff dest!: repeat_numbers_sound)
  then show "\<exists>w. p = w @ q \<and> ArrayShapeSig w"
    by (intro exI [of _ "r @ s @ ss @ l @ ls"]) (auto intro: ArrayShapeSig.intros)
next
  assume "\<exists>w. p = w @ q \<and> ArrayShapeSig w"
  then show "ParseArrayShape p = Inr q"
    by (auto elim!: ArrayShapeSig.cases
        simp: ParseArrayShape_def ParseNumber_word repeat_numbers_word)
qed

lemma ParseOptionalCustomMods_stop:
  "b \<noteq> ELEMENT_TYPE_CMOD_OPT \<Longrightarrow> b \<noteq> ELEMENT_TYPE_CMOD_REQD
    \<Longrightarrow> ParseOptionalCustomMods (b # q) = Inr (b # q)"
  by (subst ParseOptionalCustomMods.simps) simp

lemma ParseOptionalCustomMods_word:
  assumes "CustomModsSig m" and "b \<noteq> ELEMENT_TYPE_CMOD_OPT" and "b \<noteq> ELEMENT_TYPE_CMOD_REQD"
  shows "ParseOptionalCustomMods (m @ b # q) = Inr (b # q)"
  using assms(1)
proof induction
  case none
  then show ?case by (simp add: ParseOptionalCustomMods_stop assms)
next
  case (more c w ws)
  then show ?case
    by (subst ParseOptionalCustomMods.simps)
      (auto simp: ParseCustomMod_def ParseTypeDefOrRefEncoded_word)
qed

lemma ParseOptionalCustomMods_sound:
  "ParseOptionalCustomMods p = Inr q \<Longrightarrow>
    \<exists>m b r. p = m @ q \<and> CustomModsSig m \<and> q = b # r
      \<and> b \<noteq> ELEMENT_TYPE_CMOD_OPT \<and> b \<noteq> ELEMENT_TYPE_CMOD_REQD"
proof (induction p arbitrary: q rule: ParseOptionalCustomMods.induct)
  case (1 p)
  from "1.prems" obtain b r where p: "p = b # r"
    by (subst (asm) ParseOptionalCustomMods.simps) (auto simp: res_simps)
  show ?case
  proof (cases "b = ELEMENT_TYPE_CMOD_OPT \<or> b = ELEMENT_TYPE_CMOD_REQD")
    case True
    with "1.prems" p obtain w p' where w: "r = w @ p'" "is_token w"
      and mod: "ParseCustomMod p = Inr p'" and rest: "ParseOptionalCustomMods p' = Inr q"
      by (subst (asm) ParseOptionalCustomMods.simps)
        (auto simp: res_simps ParseCustomMod_def ParseTypeDefOrRefEncoded_iff)
    have "\<exists>m b r. p' = m @ q \<and> CustomModsSig m \<and> q = b # r
        \<and> b \<noteq> ELEMENT_TYPE_CMOD_OPT \<and> b \<noteq> ELEMENT_TYPE_CMOD_REQD"
      using p by (intro "1.IH" [OF _ True mod rest]) simp
    then show ?thesis
      using CustomModsSig.more [OF True w(2)] p w(1) by (metis append.assoc append_Cons)
  next
    case False
    with "1.prems" p show ?thesis
      by (subst (asm) ParseOptionalCustomMods.simps) (auto intro: CustomModsSig.none)
  qed
qed


section \<open>Words of the language and their first byte\<close>

inductive_cases TypeSig_NilE [elim!]: "TypeSig []"
inductive_cases TypeSig_ConsE: "TypeSig (b # w)"

lemma TypeSig_head:
  assumes "TypeSig w"
  obtains b r where "w = b # r" "b \<noteq> ELEMENT_TYPE_CMOD_OPT" "b \<noteq> ELEMENT_TYPE_CMOD_REQD"
    "b \<noteq> ELEMENT_TYPE_TYPEDBYREF" "b \<noteq> ELEMENT_TYPE_BYREF" "b \<noteq> ELEMENT_TYPE_SENTINEL"
    "b = ELEMENT_TYPE_VOID \<Longrightarrow> r = []"
proof (cases w)
  case Nil
  with assms show ?thesis by blast
next
  case (Cons b r)
  with assms have "b \<noteq> ELEMENT_TYPE_CMOD_OPT \<and> b \<noteq> ELEMENT_TYPE_CMOD_REQD
      \<and> b \<noteq> ELEMENT_TYPE_TYPEDBYREF \<and> b \<noteq> ELEMENT_TYPE_BYREF \<and> b \<noteq> ELEMENT_TYPE_SENTINEL
      \<and> (b = ELEMENT_TYPE_VOID \<longrightarrow> r = [])"
    by (auto elim!: TypeSig_ConsE simp: simple_element_types_def)
  with Cons that show ?thesis by blast
qed

lemma CustomModsSig_head:
  "CustomModsSig m \<Longrightarrow> m = [] \<or> hd m = ELEMENT_TYPE_CMOD_OPT \<or> hd m = ELEMENT_TYPE_CMOD_REQD"
  by (auto elim: CustomModsSig.cases)

lemma ParamSig_head:
  assumes "ParamSig w"
  obtains b r where "w = b # r" "b \<noteq> ELEMENT_TYPE_SENTINEL"
proof -
  have "\<exists>m b r. w = m @ b # r \<and> CustomModsSig m \<and> b \<noteq> ELEMENT_TYPE_SENTINEL"
    using assms
  proof (cases rule: ParamSig.cases)
    case (param_type m t)
    then show ?thesis by (metis TypeSig_head)
  qed fastforce+
  then obtain m b r where w: "w = m @ b # r" "CustomModsSig m" "b \<noteq> ELEMENT_TYPE_SENTINEL"
    by blast
  with CustomModsSig_head [OF w(2)] that show ?thesis
    by (cases m) auto
qed

section \<open>Completeness: every word of the language is accepted\<close>

lemma ParseMods_then_type:
  assumes "CustomModsSig m" and "TypeSig t"
  shows "ParseOptionalCustomMods (m @ t @ q) = Inr (t @ q)"
  using assms(2) by (rule TypeSig_head) (simp add: ParseOptionalCustomMods_word [OF assms(1)])

lemma parse_complete:
  "TypeSig w \<Longrightarrow> ParseType (w @ q) = Inr q"
  "TypesSig n w \<Longrightarrow> repeatE n ParseType (w @ q) = Inr q"
  "RetTypeSig w \<Longrightarrow> ParseRetType_body ParseType (w @ q) = Inr q"
  "ParamSig w \<Longrightarrow> ParseParam_body ParseType (w @ q) = Inr q"
  "ParamsSig n s w \<Longrightarrow> ParseMethod_params ParseType n s (w @ q) = Inr q"
  "MethodSig w \<Longrightarrow> ParseMethod_body ParseType (w @ q) = Inr q"
proof (induction arbitrary: q and q and q and q and q and q
    rule: TypeSig_TypesSig_RetTypeSig_ParamSig_ParamsSig_MethodSig.inducts)
  case (simple b)
  then show ?case
    by (subst ParseType_unfold_raw) (simp add: ParseType_body_def)
next
  case (ptr m t)
  from ptr.hyps(2) obtain b r where t: "t = b # r" "b = ELEMENT_TYPE_VOID \<Longrightarrow> r = []"
    by (rule TypeSig_head) blast
  have "ParseOptionalCustomMods (m @ t @ q) = Inr (t @ q)"
    by (rule ParseMods_then_type [OF ptr.hyps])
  then show ?case
    using ptr.IH t
    by (subst ParseType_unfold_raw) (simp add: ParseType_body_def simple_element_types_def)
next
  case (valuetype w)
  then show ?case
    by (subst ParseType_unfold_raw)
      (simp add: ParseType_body_def simple_element_types_def ParseTypeDefOrRefEncoded_word)
next
  case (class_ref w)
  then show ?case
    by (subst ParseType_unfold_raw)
      (simp add: ParseType_body_def simple_element_types_def ParseTypeDefOrRefEncoded_word)
next
  case (fnptr m)
  then show ?case
    by (subst ParseType_unfold_raw) (simp add: ParseType_body_def simple_element_types_def)
next
  case (array t s)
  have "ParseArrayShape (s @ q) = Inr q"
    using array.hyps ParseArrayShape_iff by blast
  with array.IH [of "s @ q"] show ?case
    by (subst ParseType_unfold_raw) (simp add: ParseType_body_def simple_element_types_def)
next
  case (szarray m t)
  with ParseMods_then_type [OF szarray.hyps, of q] show ?case
    by (subst ParseType_unfold_raw) (simp add: ParseType_body_def simple_element_types_def)
next
  case (genericinst b w n v ts)
  then show ?case
    by (subst ParseType_unfold_raw)
      (auto simp: ParseType_body_def simple_element_types_def ParseTypeDefOrRefEncoded_word
        ParseNumber_word)
next
  case (var w v)
  then show ?case
    by (subst ParseType_unfold_raw)
      (simp add: ParseType_body_def simple_element_types_def ParseNumber_word)
next
  case (mvar w v)
  then show ?case
    by (subst ParseType_unfold_raw)
      (simp add: ParseType_body_def simple_element_types_def ParseNumber_word)
next
  case (ret_type m t)
  from ret_type.hyps(2) show ?case
    using ParseMods_then_type [OF ret_type.hyps, of q] ret_type.IH [of q]
    by (elim TypeSig_head) (auto simp: ParseRetType_body_def)
next
  case (param_type m t)
  from param_type.hyps(2) show ?case
    using ParseMods_then_type [OF param_type.hyps, of q] param_type.IH [of q]
    by (elim TypeSig_head) (auto simp: ParseParam_body_def)
next
  case (params_more w n s ws)
  from params_more.hyps(1) show ?case
    using params_more.IH by (elim ParamSig_head) force
next
  case (method_plain n v r ps)
  obtain b n' where n: "n = b # n'"
    using is_number_nonempty [OF method_plain.hyps(1)] by (cases n) auto
  with method_plain ParseNumber_word [OF method_plain.hyps(1), of "r @ ps @ q"] show ?case
    by (simp add: ParseMethod_body_def)
qed (simp_all add: ParseRetType_body_def ParseParam_body_def ParseMethod_body_def
    ParseOptionalCustomMods_word ParseNumber_word)


section \<open>Soundness: only words of the language are accepted\<close>

definition sound_below :: "nat \<Rightarrow> bool" where
  "sound_below k \<longleftrightarrow>
     (\<forall>p q. length p < k \<longrightarrow> ParseType p = Inr q \<longrightarrow> (\<exists>w. p = w @ q \<and> TypeSig w))"

lemma sound_belowE:
  assumes "sound_below k" and "ParseType p = Inr q" and "length p < k"
  obtains w where "p = w @ q" "TypeSig w"
  using assms by (auto simp: sound_below_def)

lemma ParseRetType_sound:
  assumes "sound_below k" and "length p < k" and "ParseRetType_body ParseType p = Inr q"
  shows "\<exists>w. p = w @ q \<and> RetTypeSig w"
proof -
  from assms(3) obtain m b r where p: "p = m @ b # r" "CustomModsSig m"
    and rest: "(if b = ELEMENT_TYPE_TYPEDBYREF \<or> b = ELEMENT_TYPE_VOID then Inr (drop 1 (b # r))
      else if b = ELEMENT_TYPE_BYREF then ParseType (drop 1 (b # r)) else ParseType (b # r)) = Inr q"
    by (auto simp: ParseRetType_body_def res_simps dest!: ParseOptionalCustomMods_sound
        split del: if_split)
  consider "b = ELEMENT_TYPE_TYPEDBYREF" "q = r" | "b = ELEMENT_TYPE_VOID" "q = r"
    | "b = ELEMENT_TYPE_BYREF" "ParseType r = Inr q" | "ParseType (b # r) = Inr q"
    using rest by (auto split: if_splits)
  then show ?thesis
  proof cases
    case 1
    with p show ?thesis
      by (intro exI [of _ "m @ [b]"]) (auto intro: ret_typedbyref)
  next
    case 2
    then have "TypeSig [b]" by (auto intro: simple simp: simple_element_types_def)
    with 2 p show ?thesis
      by (intro exI [of _ "m @ [b]"]) (auto intro: ret_type)
  next
    case 3
    with assms p obtain w where "r = w @ q" "TypeSig w" by (auto elim: sound_belowE)
    with 3 p show ?thesis
      by (intro exI [of _ "m @ b # w"]) (auto intro: ret_byref)
  next
    case 4
    with assms p obtain w where "b # r = w @ q" "TypeSig w" by (auto elim: sound_belowE)
    with 4 p show ?thesis
      by (intro exI [of _ "m @ w"]) (auto intro: ret_type)
  qed
qed

lemma ParseParam_sound:
  assumes "sound_below k" and "length p < k" and "ParseParam_body ParseType p = Inr q"
  shows "\<exists>w. p = w @ q \<and> ParamSig w"
proof -
  from assms(3) obtain m b r where p: "p = m @ b # r" "CustomModsSig m"
    and rest: "(if b = ELEMENT_TYPE_TYPEDBYREF then Inr (drop 1 (b # r))
      else if b = ELEMENT_TYPE_BYREF then ParseType (drop 1 (b # r)) else ParseType (b # r)) = Inr q"
    by (auto simp: ParseParam_body_def res_simps dest!: ParseOptionalCustomMods_sound
        split del: if_split)
  consider "b = ELEMENT_TYPE_TYPEDBYREF" "q = r"
    | "b = ELEMENT_TYPE_BYREF" "ParseType r = Inr q" | "ParseType (b # r) = Inr q"
    using rest by (auto split: if_splits)
  then show ?thesis
  proof cases
    case 1
    with p show ?thesis
      by (intro exI [of _ "m @ [b]"]) (auto intro: param_typedbyref)
  next
    case 2
    with assms p obtain w where "r = w @ q" "TypeSig w" by (auto elim: sound_belowE)
    with 2 p show ?thesis
      by (intro exI [of _ "m @ b # w"]) (auto intro: param_byref)
  next
    case 3
    with assms p obtain w where "b # r = w @ q" "TypeSig w" by (auto elim: sound_belowE)
    with 3 p show ?thesis
      by (intro exI [of _ "m @ w"]) (auto intro: param_type)
  qed
qed

lemma ParseMethod_params_sound:
  assumes "sound_below k"
  shows "ParseMethod_params ParseType n s p = Inr q \<Longrightarrow> length p < k
    \<Longrightarrow> \<exists>w. p = w @ q \<and> ParamsSig n s w"
proof (induction n arbitrary: s p)
  case 0
  then show ?case by (auto intro: params_none)
next
  case (Suc n)
  from Suc.prems(1) obtain b r where p: "p = b # r" by (auto simp: res_simps)
  have step: "\<exists>u v. p' = u @ v @ q \<and> ParamSig u \<and> ParamsSig n s' v"
    if "bindE (ParseParam_body ParseType p') (ParseMethod_params ParseType n s') = Inr q"
      "length p' < k" for p' s'
    using that ParseParam_sound [OF assms that(2)] Suc.IH [of s'] by (fastforce simp: res_simps)
  show ?case
  proof (cases "b = ELEMENT_TYPE_SENTINEL")
    case True
    with Suc.prems p have "\<not> s" and "\<exists>u v. r = u @ v @ q \<and> ParamSig u \<and> ParamsSig n True v"
      by (auto split: if_splits intro!: step)
    then obtain u v where "\<not> s" "r = u @ v @ q" "ParamSig u" "ParamsSig n True v" by blast
    with True p show ?thesis
      by (intro exI [of _ "b # u @ v"]) (auto intro: params_sentinel)
  next
    case False
    with Suc.prems p obtain u v where "p = u @ v @ q" "ParamSig u" "ParamsSig n s v"
      using step [of p s] by auto
    then show ?thesis
      by (intro exI [of _ "u @ v"]) (auto intro: params_more)
  qed
qed

lemma types_sound:
  assumes "sound_below k"
  shows "repeatE n ParseType p = Inr q \<Longrightarrow> length p < k \<Longrightarrow> \<exists>w. p = w @ q \<and> TypesSig n w"
proof (induction n arbitrary: p)
  case 0
  then show ?case by (auto intro: types_none)
next
  case (Suc n)
  then obtain p' where p': "ParseType p = Inr p'" "repeatE n ParseType p' = Inr q"
    by (auto simp: res_simps)
  from sound_belowE [OF assms p'(1) Suc.prems(2)] obtain u where u: "p = u @ p'" "TypeSig u" .
  from Suc.IH [OF p'(2)] Suc.prems(2) u obtain v where "p' = v @ q" "TypesSig n v" by auto
  with u show ?case
    by (intro exI [of _ "u @ v"]) (auto intro: types_more)
qed

lemma ParseMethod_sound:
  assumes "sound_below k" and "length p < k" and "ParseMethod_body ParseType p = Inr q"
  shows "\<exists>w. p = w @ q \<and> MethodSig w"
proof -
  from assms(3) obtain b p' where p: "p = b # p'" by (auto simp: ParseMethod_body_def res_simps)
  have tail: "\<exists>n v r ps. x = n @ r @ ps @ q \<and> is_number n v \<and> RetTypeSig r
      \<and> ParamsSig (unat v) False ps"
    if "bindE (ParseNumber x) (\<lambda>(c, p). bindE (ParseRetType_body ParseType p)
         (\<lambda>p. ParseMethod_params ParseType (unat c) False p)) = Inr q" "length x < k" for x
  proof -
    from that(1) obtain n v y z where "x = n @ y" "is_number n v"
      "ParseRetType_body ParseType y = Inr z" "ParseMethod_params ParseType (unat v) False z = Inr q"
      by (auto simp: res_simps ParseNumber_iff)
    with that(2) ParseRetType_sound [OF assms(1), of y] ParseMethod_params_sound [OF assms(1)]
    show ?thesis by fastforce
  qed
  show ?thesis
  proof (cases "b = IMAGE_CEE_CS_CALLCONV_GENERIC")
    case True
    with assms(3) p have "bindE (skip_number p') (\<lambda>x. bindE (ParseNumber x) (\<lambda>(c, p).
        bindE (ParseRetType_body ParseType p)
         (\<lambda>p. ParseMethod_params ParseType (unat c) False p))) = Inr q"
      by (simp add: ParseMethod_body_def)
    then obtain x where "skip_number p' = Inr x"
      and num: "bindE (ParseNumber x) (\<lambda>(c, p). bindE (ParseRetType_body ParseType p)
         (\<lambda>p. ParseMethod_params ParseType (unat c) False p)) = Inr q"
      unfolding bindE_eq_Inr [of "skip_number p'"] by blast
    then obtain g c where g: "p' = g @ x" "is_number g c"
      by (auto simp: res_simps ParseNumber_iff)
    note num    with tail [of x] assms(2) p g obtain n v r ps where "x = n @ r @ ps @ q" "is_number n v"
      "RetTypeSig r" "ParamsSig (unat v) False ps" by auto
    with True g p show ?thesis
      by (intro exI [of _ "b # g @ n @ r @ ps"]) (auto intro: method_generic)
  next
    case False
    with assms(3) p tail [of p] assms(2) obtain n v r ps where n: "p = n @ r @ ps @ q"
      "is_number n v" "RetTypeSig r" "ParamsSig (unat v) False ps"
      by (auto simp: ParseMethod_body_def)
    moreover have "hd n = b"
      using n p is_number_nonempty [OF n(2)] by (cases n) auto
    ultimately show ?thesis
      using False by (intro exI [of _ "n @ r @ ps"]) (auto intro: method_plain)
  qed
qed


lemma ParseType_sound: "ParseType p = Inr q \<Longrightarrow> \<exists>w. p = w @ q \<and> TypeSig w"
proof (induction "length p" arbitrary: p q rule: less_induct)
  case less
  then have sound: "sound_below (length p)"
    by (auto simp: sound_below_def)
  have body: "ParseType_body ParseType p = Inr q"
    using less.prems ParseType_unfold_raw by simp
  then obtain b r where p: "p = b # r"
    by (auto simp: ParseType_body_def res_simps)
  have sub: "\<exists>w. x = w @ y \<and> TypeSig w" if "ParseType x = Inr y" "length x \<le> length r" for x y
    using that sound p by (auto elim!: sound_belowE)
  consider "b \<in> set simple_element_types" "q = r"
    | m x where "b = ELEMENT_TYPE_PTR" "r = m @ x" "CustomModsSig m" "rd x = Inr ELEMENT_TYPE_VOID"
        "q = drop 1 x"
    | m x where "b = ELEMENT_TYPE_PTR \<or> b = ELEMENT_TYPE_SZARRAY" "r = m @ x" "CustomModsSig m"
        "ParseType x = Inr q"
    | "b = ELEMENT_TYPE_VALUETYPE \<or> b = ELEMENT_TYPE_CLASS" "ParseTypeDefOrRefEncoded r = Inr q"
    | "b = ELEMENT_TYPE_FNPTR" "ParseMethod_body ParseType r = Inr q"
    | x where "b = ELEMENT_TYPE_ARRAY" "ParseType r = Inr x" "ParseArrayShape x = Inr q"
    | c x v y where "b = ELEMENT_TYPE_GENERICINST" "rd r = Inr c"
        "c = ELEMENT_TYPE_VALUETYPE \<or> c = ELEMENT_TYPE_CLASS"
        "ParseTypeDefOrRefEncoded (drop 1 r) = Inr x"
        "ParseNumber x = Inr (v, y)" "repeatE (unat v) ParseType y = Inr q"
    | v where "b = ELEMENT_TYPE_VAR \<or> b = ELEMENT_TYPE_MVAR" "ParseNumber r = Inr (v, q)"
    using body unfolding p ParseType_body_def
    by (fastforce simp: res_simps Let_def split: if_splits dest!: ParseOptionalCustomMods_sound)
  then show ?case
  proof cases
    case 1
    with p show ?thesis by (intro exI [of _ "[b]"]) (auto intro: simple)
  next
    case (2 m x)
    moreover have "TypeSig [ELEMENT_TYPE_VOID]"
      by (auto intro: simple simp: simple_element_types_def)
    ultimately show ?thesis
      using p by (intro exI [of _ "b # m @ [ELEMENT_TYPE_VOID]"]) (auto intro: ptr)
  next
    case (3 m x)
    with sub [of x q] obtain w where "x = w @ q" "TypeSig w" by auto
    with 3 p show ?thesis
      by (intro exI [of _ "b # m @ w"]) (auto intro: ptr szarray)
  next
    case 4
    then obtain w where "r = w @ q" "is_token w" by (auto simp: ParseTypeDefOrRefEncoded_iff)
    with 4 p show ?thesis
      by (intro exI [of _ "b # w"]) (auto intro: valuetype class_ref)
  next
    case 5
    with ParseMethod_sound [OF sound, of r q] p obtain w where "r = w @ q" "MethodSig w" by auto
    with 5 p show ?thesis
      by (intro exI [of _ "b # w"]) (auto intro: fnptr)
  next
    case (6 x)
    with sub [of r x] obtain w s where "r = w @ s @ q" "TypeSig w" "ArrayShapeSig s"
      by (auto simp: ParseArrayShape_iff)
    with 6 p show ?thesis
      by (intro exI [of _ "b # w @ s"]) (auto intro: array)
  next
    case (7 c x v y)
    then obtain r' w n where r: "r = c # r'" "r' = w @ n @ y" "is_token w" "is_number n v"
      by (auto simp: ParseTypeDefOrRefEncoded_iff ParseNumber_iff)
    with types_sound [OF sound, of "unat v" y q] 7 p obtain ts where
      "y = ts @ q" "TypesSig (unat v) ts" by auto
    with r 7 p show ?thesis
      by (intro exI [of _ "b # c # w @ n @ ts"]) (auto intro: genericinst)
  next
    case (8 v)
    then obtain w where "r = w @ q" "is_number w v" by (auto simp: ParseNumber_iff)
    with 8 p show ?thesis
      by (intro exI [of _ "b # w"]) (auto intro: var mvar)
  qed
qed

section \<open>The contract of the parser\<close>


text \<open>
  Type signatures are prefix-free, so the extent of a type inside a blob is determined
  by the blob: two readings of the same bytes agree on where the type ends. The callers
  that cut argument signatures out of a method signature rely on it.
\<close>
theorem TypeSig_unambiguous:
  assumes "TypeSig w" and "TypeSig w'" and "w @ q = w' @ q'"
  shows "w = w' \<and> q = q'"
proof -
  have "Inr q = (Inr q' :: sig_error + byte list)"
    using parse_complete(1) [OF assms(1), of q] parse_complete(1) [OF assms(2), of q'] assms(3)
    by simp
  with assms(3) show ?thesis by simp
qed

lemma TypeSig_int32: "TypeSig [ELEMENT_TYPE_I4]"
  by (rule simple) (simp add: simple_element_types_def)

theorem TypeSig_unambiguous_witness:
  "[ELEMENT_TYPE_I4] = [ELEMENT_TYPE_I4] \<and> [ELEMENT_TYPE_I8] = [ELEMENT_TYPE_I8]"
  by (rule TypeSig_unambiguous [OF TypeSig_int32 TypeSig_int32]) simp

text \<open>
  The format comment of \<open>ParseType\<close> lists \<open>I\<close> and \<open>U\<close> (native integers) among the
  types, but the code has no case for them: every signature that starts with one is
  rejected, and so is a pointer to one and an array of one.
\<close>
theorem ParseType_rejects_native_int:
  "\<forall>b \<in> {ELEMENT_TYPE_I, ELEMENT_TYPE_U}.
     ParseType (b # q) = Inl Rejected
     \<and> ParseType (ELEMENT_TYPE_PTR # b # q) = Inl Rejected
     \<and> ParseType (ELEMENT_TYPE_SZARRAY # b # q) = Inl Rejected"
proof -
  have *: "ParseType (b # q) = Inl Rejected" if "b \<in> {ELEMENT_TYPE_I, ELEMENT_TYPE_U}" for b
    using that
    by (subst ParseType_unfold_raw) (auto simp: ParseType_body_def simple_element_types_def)
  then show ?thesis
    by (auto simp: ParseType_unfold_raw [of "_ # _ # q"] ParseType_body_def
        simple_element_types_def ParseOptionalCustomMods_stop)
qed

theorem ParseType_rejects_native_int_witness:
  "ParseType [ELEMENT_TYPE_I] = Inl Rejected"
  using ParseType_rejects_native_int [of "[]"] by simp

text \<open>
  The comment of \<open>ParseMethod\<close> gives the format \<open>(DEFAULT|VARARG|GENERIC GenParamCount)
  ParamCount RetType Param*\<close>, but only the byte \<open>GENERIC\<close> is skipped: a function pointer
  with the default calling convention (byte 0) is read as having no parameters, so for every
  signature \<open>FNPTR DEFAULT n VOID ...\<close> with \<open>n = 1\<close> the parser stops right behind the
  parameter count, taking it for the return type, and leaves the rest unread.
\<close>
theorem ParseType_fnptr_default_convention:
  "ParseType (ELEMENT_TYPE_FNPTR # 0x00 # 0x01 # ELEMENT_TYPE_VOID # ELEMENT_TYPE_I4 # q)
     = Inr (ELEMENT_TYPE_VOID # ELEMENT_TYPE_I4 # q)"
proof -
  have "is_number [0x00] 0"
    by (simp add: is_number_def CorSigUncompressData_def CorSigUncompressData_len_def)
  moreover have "RetTypeSig ([] @ [ELEMENT_TYPE_VOID])"
    by (intro ret_type CustomModsSig.none simple) (simp add: simple_element_types_def)
  moreover have "ParamsSig (unat (0 :: u32)) False []"
    using params_none by simp
  ultimately have "MethodSig ([0x00] @ ([] @ [ELEMENT_TYPE_VOID]) @ [])"
    by (intro method_plain [where v = 0]) simp_all
  then have "TypeSig (ELEMENT_TYPE_FNPTR # [0x00] @ ([] @ [ELEMENT_TYPE_VOID]) @ [])"
    by (rule fnptr)
  from parse_complete(1) [OF this] show ?thesis by simp
qed

end
