(* ===== verification/OpCodes.thy ===== *)
theory OpCodes
  imports Prelude
begin

text \<open>
  The opcode tables of the IL rewriter: \<open>opcode.def\<close> as the list of its \<open>OPDEF\<close> rows (the
  operand kind and the stack pushes of every opcode, in the order that numbers the enum
  \<open>OPCODE\<close>), and the two tables that \<open>il_rewriter.cpp\<close> computes from it, the operand flags
  \<open>s_OpCodeFlags\<close> and the stack growth \<open>k_rgnStackPushes\<close>.
\<close>

section \<open>The rows of \<open>opcode.def\<close>\<close>

datatype inline_kind =
    InlineNone | ShortInlineVar | InlineVar | ShortInlineI | InlineI | InlineI8
  | ShortInlineR | InlineR | ShortInlineBrTarget | InlineBrTarget | InlineMethod
  | InlineField | InlineType | InlineString | InlineSig | InlineRVA | InlineTok | InlineSwitch

datatype stack_push =
    Push0 | Push1 | PushI | PushI4 | PushR4 | PushI8 | PushR8 | PushRef | VarPush

type_synonym opdef = "inline_kind \<times> stack_push list"

text \<open>The one-byte opcodes, 0x00 to 0xFF.\<close>

definition opdef_one_byte :: "opdef list" where
  "opdef_one_byte =
     [(InlineNone, [Push0]), (InlineNone, [Push0]), (InlineNone, [Push1]), (InlineNone, [Push1]),
      (InlineNone, [Push1]), (InlineNone, [Push1]), (InlineNone, [Push1]), (InlineNone, [Push1]),
      (InlineNone, [Push1]), (InlineNone, [Push1]), (InlineNone, [Push0]), (InlineNone, [Push0]),
      (InlineNone, [Push0]), (InlineNone, [Push0]), (ShortInlineVar, [Push1]),
      (ShortInlineVar, [PushI]), (ShortInlineVar, [Push0]), (ShortInlineVar, [Push1]),
      (ShortInlineVar, [PushI]), (ShortInlineVar, [Push0]), (InlineNone, [PushRef]),
      (InlineNone, [PushI]), (InlineNone, [PushI]), (InlineNone, [PushI]), (InlineNone, [PushI]),
      (InlineNone, [PushI]), (InlineNone, [PushI]), (InlineNone, [PushI]), (InlineNone, [PushI]),
      (InlineNone, [PushI]), (InlineNone, [PushI]), (ShortInlineI, [PushI]), (InlineI, [PushI]),
      (InlineI8, [PushI8]), (ShortInlineR, [PushR4]), (InlineR, [PushR8]), (InlineNone, [Push0]),
      (InlineNone, [Push1, Push1]), (InlineNone, [Push0]), (InlineMethod, [Push0]),
      (InlineMethod, [VarPush]), (InlineSig, [VarPush]), (InlineNone, [Push0]),
      (ShortInlineBrTarget, [Push0]), (ShortInlineBrTarget, [Push0]),
      (ShortInlineBrTarget, [Push0]), (ShortInlineBrTarget, [Push0]),
      (ShortInlineBrTarget, [Push0]), (ShortInlineBrTarget, [Push0]),
      (ShortInlineBrTarget, [Push0]), (ShortInlineBrTarget, [Push0]),
      (ShortInlineBrTarget, [Push0]), (ShortInlineBrTarget, [Push0]),
      (ShortInlineBrTarget, [Push0]), (ShortInlineBrTarget, [Push0]),
      (ShortInlineBrTarget, [Push0]), (InlineBrTarget, [Push0]), (InlineBrTarget, [Push0]),
      (InlineBrTarget, [Push0]), (InlineBrTarget, [Push0]), (InlineBrTarget, [Push0]),
      (InlineBrTarget, [Push0]), (InlineBrTarget, [Push0]), (InlineBrTarget, [Push0]),
      (InlineBrTarget, [Push0]), (InlineBrTarget, [Push0]), (InlineBrTarget, [Push0]),
      (InlineBrTarget, [Push0]), (InlineBrTarget, [Push0]), (InlineSwitch, [Push0]),
      (InlineNone, [PushI]), (InlineNone, [PushI]), (InlineNone, [PushI]), (InlineNone, [PushI]),
      (InlineNone, [PushI]), (InlineNone, [PushI]), (InlineNone, [PushI8]),
      (InlineNone, [PushI]), (InlineNone, [PushR4]), (InlineNone, [PushR8]),
      (InlineNone, [PushRef]), (InlineNone, [Push0]), (InlineNone, [Push0]),
      (InlineNone, [Push0]), (InlineNone, [Push0]), (InlineNone, [Push0]), (InlineNone, [Push0]),
      (InlineNone, [Push0]), (InlineNone, [Push1]), (InlineNone, [Push1]), (InlineNone, [Push1]),
      (InlineNone, [Push1]), (InlineNone, [Push1]), (InlineNone, [Push1]), (InlineNone, [Push1]),
      (InlineNone, [Push1]), (InlineNone, [Push1]), (InlineNone, [Push1]), (InlineNone, [Push1]),
      (InlineNone, [Push1]), (InlineNone, [Push1]), (InlineNone, [Push1]), (InlineNone, [Push1]),
      (InlineNone, [PushI]), (InlineNone, [PushI]), (InlineNone, [PushI]),
      (InlineNone, [PushI8]), (InlineNone, [PushR4]), (InlineNone, [PushR8]),
      (InlineNone, [PushI]), (InlineNone, [PushI8]), (InlineMethod, [VarPush]),
      (InlineType, [Push0]), (InlineType, [Push1]), (InlineString, [PushRef]),
      (InlineMethod, [PushRef]), (InlineType, [PushRef]), (InlineType, [PushI]),
      (InlineNone, [PushR8]), (InlineNone, [Push0]), (InlineNone, [Push0]),
      (InlineType, [PushI]), (InlineNone, [Push0]), (InlineField, [Push1]),
      (InlineField, [PushI]), (InlineField, [Push0]), (InlineField, [Push1]),
      (InlineField, [PushI]), (InlineField, [Push0]), (InlineType, [Push0]),
      (InlineNone, [PushI]), (InlineNone, [PushI]), (InlineNone, [PushI]),
      (InlineNone, [PushI8]), (InlineNone, [PushI]), (InlineNone, [PushI]),
      (InlineNone, [PushI]), (InlineNone, [PushI8]), (InlineNone, [PushI]),
      (InlineNone, [PushI]), (InlineType, [PushRef]), (InlineType, [PushRef]),
      (InlineNone, [PushI]), (InlineType, [PushI]), (InlineNone, [PushI]), (InlineNone, [PushI]),
      (InlineNone, [PushI]), (InlineNone, [PushI]), (InlineNone, [PushI]), (InlineNone, [PushI]),
      (InlineNone, [PushI8]), (InlineNone, [PushI]), (InlineNone, [PushR4]),
      (InlineNone, [PushR8]), (InlineNone, [PushRef]), (InlineNone, [Push0]),
      (InlineNone, [Push0]), (InlineNone, [Push0]), (InlineNone, [Push0]), (InlineNone, [Push0]),
      (InlineNone, [Push0]), (InlineNone, [Push0]), (InlineNone, [Push0]), (InlineType, [Push1]),
      (InlineType, [Push0]), (InlineType, [Push1]), (InlineNone, [Push0]), (InlineNone, [Push0]),
      (InlineNone, [Push0]), (InlineNone, [Push0]), (InlineNone, [Push0]), (InlineNone, [Push0]),
      (InlineNone, [Push0]), (InlineNone, [Push0]), (InlineNone, [Push0]), (InlineNone, [Push0]),
      (InlineNone, [Push0]), (InlineNone, [Push0]), (InlineNone, [Push0]), (InlineNone, [PushI]),
      (InlineNone, [PushI]), (InlineNone, [PushI]), (InlineNone, [PushI]), (InlineNone, [PushI]),
      (InlineNone, [PushI]), (InlineNone, [PushI8]), (InlineNone, [PushI8]),
      (InlineNone, [Push0]), (InlineNone, [Push0]), (InlineNone, [Push0]), (InlineNone, [Push0]),
      (InlineNone, [Push0]), (InlineNone, [Push0]), (InlineNone, [Push0]), (InlineType, [PushI]),
      (InlineNone, [PushR8]), (InlineNone, [Push0]), (InlineNone, [Push0]),
      (InlineType, [Push1]), (InlineNone, [Push0]), (InlineNone, [Push0]), (InlineNone, [Push0]),
      (InlineNone, [Push0]), (InlineNone, [Push0]), (InlineNone, [Push0]), (InlineNone, [Push0]),
      (InlineNone, [Push0]), (InlineNone, [Push0]), (InlineTok, [PushI]), (InlineNone, [PushI]),
      (InlineNone, [PushI]), (InlineNone, [PushI]), (InlineNone, [PushI]), (InlineNone, [PushI]),
      (InlineNone, [Push1]), (InlineNone, [Push1]), (InlineNone, [Push1]), (InlineNone, [Push1]),
      (InlineNone, [Push1]), (InlineNone, [Push1]), (InlineNone, [Push0]),
      (InlineBrTarget, [Push0]), (ShortInlineBrTarget, [Push0]), (InlineNone, [Push0]),
      (InlineNone, [PushI]), (InlineNone, [Push0]), (InlineNone, [Push0]), (InlineNone, [Push0]),
      (InlineNone, [Push0]), (InlineNone, [Push0]), (InlineNone, [Push0]), (InlineNone, [Push0]),
      (InlineNone, [Push0]), (InlineNone, [Push0]), (InlineNone, [Push0]), (InlineNone, [Push0]),
      (InlineNone, [Push0]), (InlineNone, [Push0]), (InlineNone, [Push0]), (InlineNone, [Push0]),
      (InlineNone, [Push0]), (InlineNone, [Push0]), (InlineNone, [Push0]), (InlineNone, [Push0]),
      (InlineNone, [Push0]), (InlineNone, [Push0]), (InlineNone, [Push0]), (InlineNone, [Push0]),
      (InlineNone, [Push0]), (InlineNone, [Push0]), (InlineNone, [Push0]), (InlineNone, [Push0]),
      (InlineNone, [Push0]), (InlineNone, [Push0]), (InlineNone, [Push0]), (InlineNone, [Push0])]"

text \<open>The two-byte opcodes (lead byte 0xFE), and the three internal ones behind them.\<close>

definition opdef_two_byte :: "opdef list" where
  "opdef_two_byte =
     [(InlineNone, [PushI]), (InlineNone, [PushI]), (InlineNone, [PushI]), (InlineNone, [PushI]),
      (InlineNone, [PushI]), (InlineNone, [PushI]), (InlineMethod, [PushI]),
      (InlineMethod, [PushI]), (InlineNone, [Push0]), (InlineVar, [Push1]), (InlineVar, [PushI]),
      (InlineVar, [Push0]), (InlineVar, [Push1]), (InlineVar, [PushI]), (InlineVar, [Push0]),
      (InlineNone, [PushI]), (InlineNone, [Push0]), (InlineNone, [Push0]),
      (ShortInlineI, [Push0]), (InlineNone, [Push0]), (InlineNone, [Push0]),
      (InlineType, [Push0]), (InlineType, [Push0]), (InlineNone, [Push0]), (InlineNone, [Push0]),
      (InlineNone, [Push0]), (InlineNone, [Push0]), (InlineNone, [Push0]), (InlineType, [PushI]),
      (InlineNone, [PushI]), (InlineNone, [Push0]), (InlineNone, [Push0]), (InlineNone, [Push0]),
      (InlineNone, [Push0]), (InlineNone, [Push0]), (InlineNone, [Push0]), (InlineNone, [Push0]),
      (InlineNone, [Push0])]"

definition opdefs :: "opdef list" where
  "opdefs = opdef_one_byte @ opdef_two_byte"

section \<open>Opcode numbers\<close>

abbreviation (input) "CEE_NOP \<equiv> (0 :: nat)"
abbreviation (input) "CEE_LDARG_0 \<equiv> (2 :: nat)"
abbreviation (input) "CEE_LDARG_S \<equiv> (14 :: nat)"
abbreviation (input) "CEE_LDARG \<equiv> (265 :: nat)"
abbreviation (input) "CEE_LDLOC_S \<equiv> (17 :: nat)"
abbreviation (input) "CEE_LDLOC \<equiv> (268 :: nat)"
abbreviation (input) "CEE_STLOC_S \<equiv> (19 :: nat)"
abbreviation (input) "CEE_STLOC \<equiv> (270 :: nat)"
abbreviation (input) "CEE_LDARGA_S \<equiv> (15 :: nat)"
abbreviation (input) "CEE_LDARGA \<equiv> (266 :: nat)"
abbreviation (input) "CEE_LDLOCA_S \<equiv> (18 :: nat)"
abbreviation (input) "CEE_LDNULL \<equiv> (20 :: nat)"
abbreviation (input) "CEE_LDC_I4_M1 \<equiv> (21 :: nat)"
abbreviation (input) "CEE_LDC_I4_0 \<equiv> (22 :: nat)"
abbreviation (input) "CEE_LDC_I4_S \<equiv> (31 :: nat)"
abbreviation (input) "CEE_LDC_I4 \<equiv> (32 :: nat)"
abbreviation (input) "CEE_LDC_I8 \<equiv> (33 :: nat)"
abbreviation (input) "CEE_DUP \<equiv> (37 :: nat)"
abbreviation (input) "CEE_POP \<equiv> (38 :: nat)"
abbreviation (input) "CEE_CALL \<equiv> (40 :: nat)"
abbreviation (input) "CEE_RET \<equiv> (42 :: nat)"
abbreviation (input) "CEE_BR_S \<equiv> (43 :: nat)"
abbreviation (input) "CEE_BRFALSE_S \<equiv> (44 :: nat)"
abbreviation (input) "CEE_BLT_UN_S \<equiv> (55 :: nat)"
abbreviation (input) "CEE_BR \<equiv> (56 :: nat)"
abbreviation (input) "CEE_BRFALSE \<equiv> (57 :: nat)"
abbreviation (input) "CEE_BLT_UN \<equiv> (68 :: nat)"
abbreviation (input) "CEE_SWITCH \<equiv> (69 :: nat)"
abbreviation (input) "CEE_CALLVIRT \<equiv> (111 :: nat)"
abbreviation (input) "CEE_LDSTR \<equiv> (114 :: nat)"
abbreviation (input) "CEE_NEWOBJ \<equiv> (115 :: nat)"
abbreviation (input) "CEE_CASTCLASS \<equiv> (116 :: nat)"
abbreviation (input) "CEE_THROW \<equiv> (122 :: nat)"
abbreviation (input) "CEE_LDIND_I \<equiv> (77 :: nat)"
abbreviation (input) "CEE_LDSFLD \<equiv> (126 :: nat)"
abbreviation (input) "CEE_STSFLD \<equiv> (128 :: nat)"
abbreviation (input) "CEE_BOX \<equiv> (140 :: nat)"
abbreviation (input) "CEE_NEWARR \<equiv> (141 :: nat)"
abbreviation (input) "CEE_STELEM_REF \<equiv> (162 :: nat)"
abbreviation (input) "CEE_LDELEM_REF \<equiv> (154 :: nat)"
abbreviation (input) "CEE_UNBOX_ANY \<equiv> (165 :: nat)"
abbreviation (input) "CEE_LDTOKEN \<equiv> (208 :: nat)"
abbreviation (input) "CEE_ENDFINALLY \<equiv> (220 :: nat)"
abbreviation (input) "CEE_LEAVE \<equiv> (221 :: nat)"
abbreviation (input) "CEE_LEAVE_S \<equiv> (222 :: nat)"
abbreviation (input) "CEE_PREFIX7 \<equiv> (248 :: nat)"
abbreviation (input) "CEE_PREFIX2 \<equiv> (253 :: nat)"
abbreviation (input) "CEE_PREFIX1 \<equiv> (254 :: nat)"
abbreviation (input) "CEE_LDOBJ \<equiv> (113 :: nat)"
abbreviation (input) "CEE_RETHROW \<equiv> (282 :: nat)"
abbreviation (input) "CEE_INITOBJ \<equiv> (277 :: nat)"
abbreviation (input) "CEE_CONV_I \<equiv> (211 :: nat)"

abbreviation (input) "CEE_COUNT \<equiv> (294 :: nat)"
abbreviation (input) "CEE_SWITCH_ARG \<equiv> (295 :: nat)"

section \<open>The tables of the rewriter\<close>

abbreviation (input) "OPCODEFLAGS_SizeMask \<equiv> (0x0F :: nat)"
abbreviation (input) "OPCODEFLAGS_BranchTarget \<equiv> (0x10 :: nat)"
abbreviation (input) "OPCODEFLAGS_Switch \<equiv> (0x20 :: nat)"

fun inline_flags :: "inline_kind \<Rightarrow> nat" where
  "inline_flags InlineNone = 0"
| "inline_flags ShortInlineVar = 1"
| "inline_flags InlineVar = 2"
| "inline_flags ShortInlineI = 1"
| "inline_flags InlineI = 4"
| "inline_flags InlineI8 = 8"
| "inline_flags ShortInlineR = 4"
| "inline_flags InlineR = 8"
| "inline_flags ShortInlineBrTarget = or 1 OPCODEFLAGS_BranchTarget"
| "inline_flags InlineBrTarget = or 4 OPCODEFLAGS_BranchTarget"
| "inline_flags InlineMethod = 4"
| "inline_flags InlineField = 4"
| "inline_flags InlineType = 4"
| "inline_flags InlineString = 4"
| "inline_flags InlineSig = 4"
| "inline_flags InlineRVA = 4"
| "inline_flags InlineTok = 4"
| "inline_flags InlineSwitch = or 0 OPCODEFLAGS_Switch"

definition s_OpCodeFlags :: "nat list" where
  "s_OpCodeFlags = map (inline_flags \<circ> fst) opdefs @ [0, or 4 OPCODEFLAGS_BranchTarget]"

fun push_count :: "stack_push \<Rightarrow> nat" where
  "push_count Push0 = 0"
| "push_count Push1 = 1"
| "push_count PushI = 1"
| "push_count PushI4 = 1"
| "push_count PushR4 = 1"
| "push_count PushI8 = 1"
| "push_count PushR8 = 1"
| "push_count PushRef = 1"
| "push_count VarPush = 1"

definition k_rgnStackPushes :: "nat list" where
  "k_rgnStackPushes = map (sum_list \<circ> map push_count \<circ> snd) opdefs @ [0, 0]"

text \<open>The switch of the code over the flags, as the kinds of operand it tells apart.\<close>

abbreviation op_flags :: "nat \<Rightarrow> nat" where
  "op_flags opcode \<equiv> s_OpCodeFlags ! opcode"

section \<open>Facts about the tables, by evaluation\<close>

lemma length_opdefs: "length opdefs = CEE_COUNT"
  by (simp add: opdefs_def opdef_one_byte_def opdef_two_byte_def)

lemma length_s_OpCodeFlags [simp]: "length s_OpCodeFlags = 296"
  by (simp add: s_OpCodeFlags_def length_opdefs)

lemma length_k_rgnStackPushes [simp]: "length k_rgnStackPushes = 296"
  by (simp add: k_rgnStackPushes_def length_opdefs)


lemma all_opcodes:
  "list_all (\<lambda>(i, f). P i f) (enumerate 0 s_OpCodeFlags) \<Longrightarrow> i < 296 \<Longrightarrow> P i (op_flags i)"
  by (auto simp: list_all_length nth_enumerate_eq)

lemma op_flags_table:
  "list_all (\<lambda>(i, f). f \<in> {0, 1, 2, 4, 8, 17, 20, 32}
      \<and> (f = 32 \<longleftrightarrow> i = CEE_SWITCH)
      \<and> (f = 17 \<longleftrightarrow> CEE_BR_S \<le> i \<and> i \<le> CEE_BLT_UN_S \<or> i = CEE_LEAVE_S)
      \<and> (f = 20 \<longleftrightarrow> CEE_BR \<le> i \<and> i \<le> CEE_BLT_UN \<or> i = CEE_LEAVE \<or> i = CEE_SWITCH_ARG))
    (enumerate 0 s_OpCodeFlags)"
  by (simp add: s_OpCodeFlags_def opdefs_def opdef_one_byte_def opdef_two_byte_def)

lemma op_flags_cases:
  assumes "i < 296"
  shows "op_flags i \<in> {0, 1, 2, 4, 8, 17, 20, 32}"
    and "op_flags i = 32 \<longleftrightarrow> i = CEE_SWITCH"
    and "op_flags i = 17 \<longleftrightarrow> CEE_BR_S \<le> i \<and> i \<le> CEE_BLT_UN_S \<or> i = CEE_LEAVE_S"
    and "op_flags i = 20 \<longleftrightarrow>
      CEE_BR \<le> i \<and> i \<le> CEE_BLT_UN \<or> i = CEE_LEAVE \<or> i = CEE_SWITCH_ARG"
  using all_opcodes [OF op_flags_table assms] unfolding prod.case by blast+

end
