(* ===== verification/ILRewriter.thy ===== *)
theory ILRewriter
  imports OpCodes
begin

text \<open>
  The state of \<open>ILRewriter\<close> (\<open>il_rewriter.h\<close>) and its operations on the instruction list
  (\<open>il_rewriter.cpp\<close>). Instructions are nodes of a heap, linked both ways into a ring whose
  anchor is the member \<open>m_IL\<close>; the model keeps the heap, the two links of every node and
  the order in which the code writes them. Pointers are numbers, 0 is the address of
  \<open>m_IL\<close>, and \<open>new ILInstr()\<close> takes the next unused number.

  The \<open>unsigned\<close> members and locals are natural numbers below \<open>2 ^ 32\<close>, reduced by \<open>w32\<close>
  at every addition and multiplication of the code; operands and tokens are words.
\<close>

section \<open>Machine arithmetic and memory\<close>

abbreviation w32 :: "nat \<Rightarrow> nat" where
  "w32 n \<equiv> n mod 4294967296"

datatype hr =
    COR_E_INVALIDPROGRAM
  | COR_E_INVALIDOPERATION
  | COR_E_INDEXOUTOFRANGE
  | E_FAIL
  | E_OUTOFMEMORY
  | ClrError u32        \<comment> \<open>a failure code returned by the CLR's profiling interface\<close>
  | BadAccess           \<comment> \<open>a read or write outside of the memory the code owns\<close>
  | TypePun             \<comment> \<open>a read of a union member that was not the one written\<close>
  | NoFuel              \<comment> \<open>the model's recursion bound is used up\<close>

text \<open>Little-endian unaligned reads and writes.\<close>

fun le_word :: "byte list \<Rightarrow> 'a::len word" where
  "le_word [] = 0"
| "le_word (b # bs) = ucast b OR push_bit 8 (le_word bs)"

fun le_bytes :: "nat \<Rightarrow> 'a::len word \<Rightarrow> byte list" where
  "le_bytes 0 w = []"
| "le_bytes (Suc n) w = ucast w # le_bytes n (drop_bit 8 w)"

definition read_le :: "nat \<Rightarrow> byte list \<Rightarrow> nat \<Rightarrow> hr + 'a::len word" where
  "read_le n m off =
     (if off + n \<le> length m then Inr (le_word (take n (drop off m))) else Inl BadAccess)"

definition write_bytes :: "byte list \<Rightarrow> nat \<Rightarrow> byte list \<Rightarrow> hr + byte list" where
  "write_bytes bs off m =
     (if off + length bs \<le> length m
      then Inr (take off m @ bs @ drop (off + length bs) m) else Inl BadAccess)"

section \<open>Instructions and the rewriter's members\<close>

type_synonym ptr = nat

abbreviation (input) m_IL :: ptr where "m_IL \<equiv> 0"

text \<open>The anonymous union of \<open>ILInstr\<close>; \<open>new ILInstr()\<close> zeroes it.\<close>

datatype operand =
    Zeroed | Arg8 byte | Arg16 u16 | Arg32 u32 | Arg64 u64 | Target ptr

fun get_Arg8 :: "operand \<Rightarrow> hr + byte" where
  "get_Arg8 (Arg8 b) = Inr b"
| "get_Arg8 Zeroed = Inr 0"
| "get_Arg8 _ = Inl TypePun"

fun get_Arg16 :: "operand \<Rightarrow> hr + u16" where
  "get_Arg16 (Arg16 w) = Inr w"
| "get_Arg16 Zeroed = Inr 0"
| "get_Arg16 _ = Inl TypePun"

fun get_Arg32 :: "operand \<Rightarrow> hr + u32" where
  "get_Arg32 (Arg32 w) = Inr w"
| "get_Arg32 Zeroed = Inr 0"
| "get_Arg32 _ = Inl TypePun"

fun get_Arg64 :: "operand \<Rightarrow> hr + u64" where
  "get_Arg64 (Arg64 w) = Inr w"
| "get_Arg64 Zeroed = Inr 0"
| "get_Arg64 _ = Inl TypePun"

fun get_Target :: "operand \<Rightarrow> hr + ptr" where
  "get_Target (Target p) = Inr p"
| "get_Target Zeroed = Inl BadAccess"
| "get_Target _ = Inl TypePun"

record ILInstr =
  m_pNext :: ptr
  m_pPrev :: ptr
  m_opcode :: nat
  m_offset :: nat
  m_arg :: operand

text \<open>The union of \<open>EHClause\<close>: a class token, or the filter's first instruction.\<close>

datatype eh_union = ClassToken u32 | Filter ptr

record EHClause =
  m_Flags :: u32
  m_pTryBegin :: ptr
  m_pTryEnd :: ptr
  m_pHandlerBegin :: ptr
  m_pHandlerEnd :: ptr
  m_union :: eh_union

abbreviation (input) "COR_ILEXCEPTION_CLAUSE_FILTER \<equiv> (0x0001 :: u32)"

record ILRewriter =
  heap :: "ptr \<Rightarrow> ILInstr"
  fresh :: ptr
  m_tkLocalVarSig :: u32
  m_maxStack :: nat
  m_flags :: u32
  m_fGenerateTinyHeader :: bool
  m_nEH :: nat
  m_pEH :: "EHClause list option"
  m_pOffsetToInstr :: "ptr option list"
  m_CodeSize :: nat
  m_nInstrs :: nat

definition zero_instr :: ILInstr where
  "zero_instr = \<lparr>m_pNext = 0, m_pPrev = 0, m_opcode = 0, m_offset = 0, m_arg = Zeroed\<rparr>"

text \<open>
  The constructor sets both links of \<open>m_IL\<close> to \<open>m_IL\<close>, clears \<open>m_nInstrs\<close>, \<open>m_pEH\<close> and
  \<open>m_fGenerateTinyHeader\<close>, and leaves the other members as the memory has them (\<open>junk\<close>).
\<close>

definition ILRewriter_new :: "ILRewriter \<Rightarrow> ILRewriter" where
  "ILRewriter_new junk = junk\<lparr>
     heap := (heap junk)(m_IL := (heap junk m_IL)\<lparr>m_pNext := m_IL, m_pPrev := m_IL\<rparr>),
     fresh := 1, m_fGenerateTinyHeader := False, m_pEH := None,
     m_pOffsetToInstr := [], m_nInstrs := 0\<rparr>"

abbreviation (input) "CorILMethod_InitLocals \<equiv> (0x0010 :: u32)"
abbreviation (input) "CorILMethod_MoreSects \<equiv> (0x0008 :: u32)"
abbreviation (input) "CorILMethod_TinyFormat \<equiv> (0x0002 :: u32)"
abbreviation (input) "CorILMethod_FatFormat \<equiv> (0x0003 :: u32)"

definition InitializeTiny :: "ILRewriter \<Rightarrow> ILRewriter" where
  "InitializeTiny s = s\<lparr>m_tkLocalVarSig := 0, m_maxStack := 8, m_flags := CorILMethod_TinyFormat,
     m_CodeSize := 0, m_nEH := 0, m_fGenerateTinyHeader := True\<rparr>"

definition GetTkLocalVarSig :: "ILRewriter \<Rightarrow> u32" where
  "GetTkLocalVarSig s = m_tkLocalVarSig s"

definition SetTkLocalVarSig :: "u32 \<Rightarrow> ILRewriter \<Rightarrow> ILRewriter" where
  "SetTkLocalVarSig tk s = s\<lparr>m_tkLocalVarSig := tk, m_fGenerateTinyHeader := False\<rparr>"

definition GetEHCount :: "ILRewriter \<Rightarrow> nat" where
  "GetEHCount s = m_nEH s"

definition GetEHPointer :: "ILRewriter \<Rightarrow> EHClause list option" where
  "GetEHPointer s = m_pEH s"

definition SetEHClause :: "EHClause list option \<Rightarrow> nat \<Rightarrow> ILRewriter \<Rightarrow> ILRewriter" where
  "SetEHClause ehPointer ehLength s =
     (let s = (if m_pEH s \<noteq> None then s\<lparr>m_nEH := 0\<rparr> else s)
      in s\<lparr>m_nEH := ehLength, m_pEH := ehPointer\<rparr>)"

definition GetILList :: "ILRewriter \<Rightarrow> ptr" where
  "GetILList s = m_IL"

definition GetMaxStackValue :: "ILRewriter \<Rightarrow> nat" where
  "GetMaxStackValue s = m_maxStack s"

section \<open>Writing nodes\<close>

definition upd_instr :: "ptr \<Rightarrow> (ILInstr \<Rightarrow> ILInstr) \<Rightarrow> ILRewriter \<Rightarrow> ILRewriter" where
  "upd_instr p f s = s\<lparr>heap := (heap s)(p := f (heap s p))\<rparr>"

definition set_next :: "ptr \<Rightarrow> ptr \<Rightarrow> ILRewriter \<Rightarrow> ILRewriter" where
  "set_next p q = upd_instr p (\<lambda>i. i\<lparr>m_pNext := q\<rparr>)"

definition set_prev :: "ptr \<Rightarrow> ptr \<Rightarrow> ILRewriter \<Rightarrow> ILRewriter" where
  "set_prev p q = upd_instr p (\<lambda>i. i\<lparr>m_pPrev := q\<rparr>)"

definition set_opcode :: "ptr \<Rightarrow> nat \<Rightarrow> ILRewriter \<Rightarrow> ILRewriter" where
  "set_opcode p opcode = upd_instr p (\<lambda>i. i\<lparr>m_opcode := opcode\<rparr>)"

definition set_offset :: "ptr \<Rightarrow> nat \<Rightarrow> ILRewriter \<Rightarrow> ILRewriter" where
  "set_offset p off = upd_instr p (\<lambda>i. i\<lparr>m_offset := off\<rparr>)"

definition set_arg :: "ptr \<Rightarrow> operand \<Rightarrow> ILRewriter \<Rightarrow> ILRewriter" where
  "set_arg p a = upd_instr p (\<lambda>i. i\<lparr>m_arg := a\<rparr>)"

definition NewILInstr :: "ILRewriter \<Rightarrow> ptr \<times> ILRewriter" where
  "NewILInstr s = (fresh s, s\<lparr>m_nInstrs := w32 (m_nInstrs s + 1), fresh := Suc (fresh s),
     heap := (heap s)(fresh s := zero_instr)\<rparr>)"

definition AdjustState :: "ptr \<Rightarrow> ILRewriter \<Rightarrow> ILRewriter" where
  "AdjustState pNewInstr s =
     s\<lparr>m_maxStack := w32 (m_maxStack s + k_rgnStackPushes ! m_opcode (heap s pNewInstr))\<rparr>"

definition InsertBefore :: "ptr \<Rightarrow> ptr \<Rightarrow> ILRewriter \<Rightarrow> ILRewriter" where
  "InsertBefore pWhere pWhat s =
     (let s = set_next pWhat pWhere s;
          s = set_prev pWhat (m_pPrev (heap s pWhere)) s;
          s = set_prev (m_pNext (heap s pWhat)) pWhat s;
          s = set_next (m_pPrev (heap s pWhat)) pWhat s
      in AdjustState pWhat s)"

definition InsertAfter :: "ptr \<Rightarrow> ptr \<Rightarrow> ILRewriter \<Rightarrow> ILRewriter" where
  "InsertAfter pWhere pWhat s =
     (let s = set_next pWhat (m_pNext (heap s pWhere)) s;
          s = set_prev pWhat pWhere s;
          s = set_prev (m_pNext (heap s pWhat)) pWhat s;
          s = set_next (m_pPrev (heap s pWhat)) pWhat s
      in AdjustState pWhat s)"

definition GetInstrFromOffset :: "nat \<Rightarrow> ILRewriter \<Rightarrow> hr + ptr" where
  "GetInstrFromOffset offset s =
     (if offset \<le> m_CodeSize s then
        (if offset < length (m_pOffsetToInstr s) then
           (case m_pOffsetToInstr s ! offset of
              Some result \<Rightarrow> Inr result
            | None \<Rightarrow> Inl COR_E_INVALIDPROGRAM)
         else Inl BadAccess)
      else Inl COR_E_INVALIDPROGRAM)"

text \<open>The loop \<open>for (p = m_IL.m_pNext; p != &m_IL; p = p->m_pNext)\<close>: the nodes it visits.
  Fuel is the number of nodes ever allocated.\<close>

fun walk :: "(ptr \<Rightarrow> ILInstr) \<Rightarrow> nat \<Rightarrow> ptr \<Rightarrow> hr + ptr list" where
  "walk h 0 p = Inl NoFuel"
| "walk h (Suc k) p =
     (if p = m_IL then Inr []
      else bindE (walk h k (m_pNext (h p))) (\<lambda>ps. Inr (p # ps)))"

definition il_nodes :: "ILRewriter \<Rightarrow> hr + ptr list" where
  "il_nodes s = walk (heap s) (fresh s) (m_pNext (heap s m_IL))"

fun foldE :: "('x \<Rightarrow> 's \<Rightarrow> 'e + 's) \<Rightarrow> 'x list \<Rightarrow> 's \<Rightarrow> 'e + 's" where
  "foldE f [] s = Inr s"
| "foldE f (x # xs) s = bindE (f x s) (foldE f xs)"

section \<open>The ring of instructions\<close>

text \<open>\<open>linked h ps\<close>: consecutive nodes of \<open>ps\<close> point to each other, both ways.\<close>

fun linked :: "(ptr \<Rightarrow> ILInstr) \<Rightarrow> ptr list \<Rightarrow> bool" where
  "linked h (p # q # ps) \<longleftrightarrow> m_pNext (h p) = q \<and> m_pPrev (h q) = p \<and> linked h (q # ps)"
| "linked h _ \<longleftrightarrow> True"

text \<open>The instruction list of a rewriter is \<open>ps\<close>: from \<open>m_IL\<close> through \<open>ps\<close> back to \<open>m_IL\<close>, every
  node once, all of them allocated.\<close>

definition il_ring :: "ILRewriter \<Rightarrow> ptr list \<Rightarrow> bool" where
  "il_ring s ps \<longleftrightarrow> linked (heap s) (m_IL # ps @ [m_IL]) \<and> distinct (m_IL # ps)
     \<and> (\<forall>p \<in> set ps. p < fresh s) \<and> 0 < fresh s"

text \<open>The abstract operations.\<close>

definition insert_before :: "ptr \<Rightarrow> ptr \<Rightarrow> ptr list \<Rightarrow> ptr list" where
  "insert_before w x ps = takeWhile (\<lambda>p. p \<noteq> w) ps @ x # dropWhile (\<lambda>p. p \<noteq> w) ps"

definition insert_after :: "ptr \<Rightarrow> ptr \<Rightarrow> ptr list \<Rightarrow> ptr list" where
  "insert_after w x ps =
     (if w = m_IL then x # ps
      else takeWhile (\<lambda>p. p \<noteq> w) ps @ w # x # tl (dropWhile (\<lambda>p. p \<noteq> w) ps))"

lemma linked_append:
  "linked h (ps @ p # qs) \<longleftrightarrow> linked h (ps @ [p]) \<and> linked h (p # qs)"
proof (induction ps)
  case (Cons a ps)
  then show ?case by (cases ps) auto
qed simp

lemma linked_appendD:
  assumes "linked h (ps @ p # qs)"
  shows "linked h (ps @ [p])" and "linked h (p # qs)"
  using assms linked_append by blast+

text \<open>A chain reads the forward link of all nodes but the last and the backward link of all
  nodes but the first.\<close>

lemma linked_cong:
  assumes "\<And>p. p \<in> set (butlast ps) \<Longrightarrow> m_pNext (h p) = m_pNext (g p)"
    and "\<And>p. p \<in> set (tl ps) \<Longrightarrow> m_pPrev (h p) = m_pPrev (g p)"
  shows "linked h ps \<longleftrightarrow> linked g ps"
  using assms by (induction h ps rule: linked.induct) auto

section \<open>What the operations leave alone\<close>

named_theorems frame_simps \<open>members that an operation does not write\<close>

lemma upd_instr_frame [frame_simps]:
  "fresh (upd_instr p f s) = fresh s"
  "m_tkLocalVarSig (upd_instr p f s) = m_tkLocalVarSig s"
  "m_maxStack (upd_instr p f s) = m_maxStack s"
  "m_flags (upd_instr p f s) = m_flags s"
  "m_fGenerateTinyHeader (upd_instr p f s) = m_fGenerateTinyHeader s"
  "m_nEH (upd_instr p f s) = m_nEH s"
  "m_pEH (upd_instr p f s) = m_pEH s"
  "m_pOffsetToInstr (upd_instr p f s) = m_pOffsetToInstr s"
  "m_CodeSize (upd_instr p f s) = m_CodeSize s"
  "m_nInstrs (upd_instr p f s) = m_nInstrs s"
  "heap (upd_instr p f s) = (heap s)(p := f (heap s p))"
  by (simp_all add: upd_instr_def)

lemmas set_defs [frame_simps] =
  set_next_def set_prev_def set_opcode_def set_offset_def set_arg_def

lemma InsertBefore_frame [frame_simps]:
  "fresh (InsertBefore w x s) = fresh s"
  "m_tkLocalVarSig (InsertBefore w x s) = m_tkLocalVarSig s"
  "m_flags (InsertBefore w x s) = m_flags s"
  "m_fGenerateTinyHeader (InsertBefore w x s) = m_fGenerateTinyHeader s"
  "m_nEH (InsertBefore w x s) = m_nEH s"
  "m_pEH (InsertBefore w x s) = m_pEH s"
  "m_pOffsetToInstr (InsertBefore w x s) = m_pOffsetToInstr s"
  "m_CodeSize (InsertBefore w x s) = m_CodeSize s"
  "m_nInstrs (InsertBefore w x s) = m_nInstrs s"
  "m_opcode (heap (InsertBefore w x s) p) = m_opcode (heap s p)"
  "m_offset (heap (InsertBefore w x s) p) = m_offset (heap s p)"
  "m_arg (heap (InsertBefore w x s) p) = m_arg (heap s p)"
  by (simp_all add: InsertBefore_def AdjustState_def Let_def frame_simps)

lemma InsertBefore_maxStack:
  "m_maxStack (InsertBefore w x s) = w32 (m_maxStack s + k_rgnStackPushes ! m_opcode (heap s x))"
  by (simp add: InsertBefore_def AdjustState_def Let_def frame_simps)

lemma InsertBefore_links:
  assumes "x \<noteq> w" and "m_pPrev (heap s w) \<noteq> x"
  shows "m_pNext (heap (InsertBefore w x s) p) =
      (if p = m_pPrev (heap s w) then x else if p = x then w else m_pNext (heap s p))"
    and "m_pPrev (heap (InsertBefore w x s) p) =
      (if p = w then x else if p = x then m_pPrev (heap s w) else m_pPrev (heap s p))"
  using assms by (simp_all add: InsertBefore_def AdjustState_def Let_def frame_simps)

section \<open>The operations implement list insertion\<close>

text \<open>The ring cut between two neighbours \<open>q\<close> and \<open>w\<close>, either of which may be the anchor.\<close>

lemma il_ring_cut:
  assumes "il_ring s (as @ bs)" and "m_IL # as = cs @ [q]" and "bs @ [m_IL] = w # ds"
  shows "m_pPrev (heap s w) = q" and "m_pNext (heap s q) = w"
    and "linked (heap s) (m_IL # as)" and "linked (heap s) (bs @ [m_IL])"
proof -
  have "linked (heap s) ((m_IL # as) @ bs @ [m_IL])"
    using assms(1) by (simp add: il_ring_def)
  then have "linked (heap s) (cs @ q # w # ds)"
    unfolding assms(2,3) by simp
  from linked_appendD [OF this]
  show "m_pPrev (heap s w) = q" and "m_pNext (heap s q) = w"
    and "linked (heap s) (m_IL # as)" and "linked (heap s) (bs @ [m_IL])"
    unfolding assms(2,3) by simp_all
qed

lemma InsertBefore_ring_split:
  assumes ring: "il_ring s (as @ bs)" and x: "x \<notin> set (m_IL # as @ bs)" "x < fresh s"
    and w: "w = hd (bs @ [m_IL])"
  shows "il_ring (InsertBefore w x s) (as @ x # bs)"
proof -
  let ?h = "heap (InsertBefore w x s)"
  obtain cs q where cs: "m_IL # as = cs @ [q]"
    by (metis list.distinct(1) rev_exhaust)
  obtain ds where ds: "bs @ [m_IL] = w # ds"
    using w by (cases bs) auto
  note cut = il_ring_cut [OF ring cs ds]
  have dist: "distinct (m_IL # as @ bs)"
    using ring by (simp add: il_ring_def)
  have w_in: "w \<in> set (m_IL # bs)" using w by (cases bs) auto
  have q_in: "q \<in> set (m_IL # as)" unfolding cs by simp
  have xw: "x \<noteq> w" and xq: "x \<noteq> q" using x w_in q_in by auto
  have "m_pPrev (heap s w) \<noteq> x" using cut(1) xq by simp
  note links = InsertBefore_links [OF xw this, unfolded cut(1)]
  have "distinct (cs @ [q])" using dist unfolding cs [symmetric] by simp
  then have q_cs: "q \<notin> set cs" by simp
  have cs_sub: "set cs \<subseteq> set (m_IL # as)" unfolding cs by auto
  have new1: "linked ?h (m_IL # as)"
  proof (subst linked_cong [where g = "heap s"])
    fix p assume "p \<in> set (butlast (m_IL # as))"
    then have "p \<in> set cs" unfolding cs by simp
    then have "p \<noteq> q" "p \<noteq> x" using q_cs cs_sub x by auto
    then show "m_pNext (?h p) = m_pNext (heap s p)" by (simp add: links)
  next
    fix p assume "p \<in> set (tl (m_IL # as))"
    then have "p \<noteq> w" "p \<noteq> x" using dist w_in x by auto
    then show "m_pPrev (?h p) = m_pPrev (heap s p)" by (simp add: links)
  qed (rule cut)
  have new2: "linked ?h (bs @ [m_IL])"
  proof (subst linked_cong [where g = "heap s"])
    fix p assume "p \<in> set (butlast (bs @ [m_IL]))"
    then have "p \<noteq> q" "p \<noteq> x" using dist q_in x by auto
    then show "m_pNext (?h p) = m_pNext (heap s p)" by (simp add: links)
  next
    fix p assume p: "p \<in> set (tl (bs @ [m_IL]))"
    then have "p \<noteq> w" using dist w by (cases bs) auto
    moreover have "p \<noteq> x" using p x by (cases bs) auto
    ultimately show "m_pPrev (?h p) = m_pPrev (heap s p)" by (simp add: links)
  qed (rule cut)
  have "linked ?h (q # x # w # ds)"
    using new2 xw xq unfolding ds by (simp add: links)
  with new1 have "linked ?h (cs @ q # x # w # ds)"
    unfolding cs by (rule linked_append [THEN iffD2, OF conjI])
  moreover have "cs @ q # x # w # ds = m_IL # (as @ x # bs) @ [m_IL]"
    using cs ds by (metis append.assoc append_Cons append_Nil)
  ultimately show ?thesis
    using ring x dist by (auto simp: il_ring_def frame_simps)
qed

lemma insert_before_split:
  assumes "w \<in> insert m_IL (set ps)" and "m_IL \<notin> set ps"
  obtains as bs where "ps = as @ bs" "insert_before w x ps = as @ x # bs" "w = hd (bs @ [m_IL])"
proof -
  let ?P = "\<lambda>p. p \<noteq> w"
  have "hd (dropWhile ?P ps @ [m_IL]) = w"
  proof (cases "w = m_IL")
    case True
    then have "dropWhile ?P ps = []"
      using assms unfolding dropWhile_eq_Nil_conv by metis
    then show ?thesis using True by (simp only: append_Nil list.sel)
  next
    case False
    then have "dropWhile ?P ps \<noteq> []" using assms by (auto simp: dropWhile_eq_Nil_conv)
    then show ?thesis using hd_dropWhile [of ?P ps] by simp
  qed
  then show ?thesis
    using that [of "takeWhile ?P ps" "dropWhile ?P ps"] by (simp add: insert_before_def)
qed

lemma InsertBefore_ring:
  assumes "il_ring s ps" and "w \<in> insert m_IL (set ps)" and "x \<notin> insert m_IL (set ps)"
    and "x < fresh s"
  shows "il_ring (InsertBefore w x s) (insert_before w x ps)"
proof -
  have "m_IL \<notin> set ps" using assms(1) by (simp add: il_ring_def)
  from insert_before_split [OF assms(2) this] obtain as bs where
    "ps = as @ bs" "insert_before w x ps = as @ x # bs" "w = hd (bs @ [m_IL])" .
  then show ?thesis
    using InsertBefore_ring_split [of s as bs x] assms by simp
qed


text \<open>\<open>InsertAfter\<close> is \<open>InsertBefore\<close> at the successor.\<close>

lemma InsertAfter_eq:
  assumes "m_pPrev (heap s (m_pNext (heap s w))) = w" and "x \<noteq> m_pNext (heap s w)"
  shows "InsertAfter w x s = InsertBefore (m_pNext (heap s w)) x s"
  using assms by (simp add: InsertAfter_def InsertBefore_def frame_simps)

lemma insert_after_split:
  assumes "w \<in> insert m_IL (set ps)" and "m_IL \<notin> set ps"
  obtains as bs where "ps = as @ bs" "insert_after w x ps = as @ x # bs" "w = last (m_IL # as)"
proof (cases "w = m_IL")
  case True
  then show ?thesis using that [of "[]" ps] by (simp add: insert_after_def)
next
  case False
  let ?P = "\<lambda>p. p \<noteq> w"
  have "dropWhile ?P ps \<noteq> []" using False assms unfolding dropWhile_eq_Nil_conv by blast
  then obtain r where r: "dropWhile ?P ps = w # r"
    using hd_dropWhile [of ?P ps] by (cases "dropWhile ?P ps") auto
  show ?thesis
  proof (rule that [of "takeWhile ?P ps @ [w]" r])
    show "ps = (takeWhile ?P ps @ [w]) @ r"
      using takeWhile_dropWhile_id [of ?P ps] unfolding r by simp
  qed (use False in \<open>simp_all add: insert_after_def r\<close>)
qed

lemma InsertAfter_ring:
  assumes "il_ring s ps" and "w \<in> insert m_IL (set ps)" and "x \<notin> insert m_IL (set ps)"
    and "x < fresh s"
  shows "il_ring (InsertAfter w x s) (insert_after w x ps)"
proof -
  have "m_IL \<notin> set ps" using assms(1) by (simp add: il_ring_def)
  from insert_after_split [OF assms(2) this] obtain as bs where
    ps: "ps = as @ bs" "insert_after w x ps = as @ x # bs" "w = last (m_IL # as)" .
  obtain cs q where cs: "m_IL # as = cs @ [q]"
    by (metis list.distinct(1) rev_exhaust)
  obtain v ds where ds: "bs @ [m_IL] = v # ds"
    by (cases bs) auto
  have "w = q" using ps(3) unfolding cs by simp
  with il_ring_cut [OF assms(1) [unfolded ps(1)] cs ds]
  have vw: "m_pNext (heap s w) = v" "m_pPrev (heap s v) = w" by simp_all
  have "v \<in> set (m_IL # bs)" using ds by (cases bs) auto
  then have "x \<noteq> v" using assms(3) ps(1) by auto
  then have "InsertAfter w x s = InsertBefore v x s"
    using InsertAfter_eq [of s w x] vw by simp
  moreover have "v = hd (bs @ [m_IL])" using ds by simp
  ultimately show ?thesis
    using InsertBefore_ring_split [of s as bs x v] assms ps by simp
qed

section \<open>The loop over the list visits the ring\<close>

lemma walk_linked:
  assumes "linked h (p # ps @ [m_IL])" and "m_IL \<notin> set ps" and "length ps < k"
  shows "walk h k (m_pNext (h p)) = Inr ps"
  using assms
proof (induction ps arbitrary: p k)
  case (Cons q ps)
  then obtain k' where k: "k = Suc k'" by (cases k) auto
  then show ?case using Cons by simp
qed (auto simp: gr0_conv_Suc)

lemma il_ring_length:
  assumes "il_ring s ps"
  shows "length ps < fresh s"
proof -
  have "set ps \<subseteq> {1..<fresh s}"
    using assms by (auto simp: il_ring_def Suc_le_eq intro: gr0I)
  then have "card (set ps) \<le> fresh s - 1"
    using card_mono [of "{1..<fresh s}" "set ps"] by simp
  moreover have "card (set ps) = length ps"
    using assms by (simp add: il_ring_def distinct_card)
  moreover have "0 < fresh s"
    using assms by (simp add: il_ring_def)
  ultimately show ?thesis by linarith
qed

lemma il_nodes_ring: "il_ring s ps \<Longrightarrow> il_nodes s = Inr ps"
  unfolding il_nodes_def
  by (rule walk_linked) (auto simp: il_ring_def il_ring_length)

lemma il_ring_new: "il_ring (ILRewriter_new junk) []"
  by (simp add: il_ring_def ILRewriter_new_def)

text \<open>Allocating a node, and writing other members of a node, keep the ring.\<close>

lemma NewILInstr_ring:
  assumes "il_ring s ps" and "NewILInstr s = (x, s')"
  shows "il_ring s' ps" and "x = fresh s" and "x \<notin> insert m_IL (set ps)" and "x < fresh s'"
proof -
  have x: "x = fresh s" and s': "heap s' = (heap s)(fresh s := zero_instr)" "fresh s' = Suc (fresh s)"
    using assms(2) by (auto simp: NewILInstr_def)
  show "x = fresh s" by fact
  show "x \<notin> insert m_IL (set ps)" "x < fresh s'"
    using assms(1) x s' by (auto simp: il_ring_def)
  have "linked (heap s') (m_IL # ps @ [m_IL]) \<longleftrightarrow> linked (heap s) (m_IL # ps @ [m_IL])"
  proof (rule linked_cong)
    fix p assume "p \<in> set (butlast (m_IL # ps @ [m_IL]))"
    then have "p \<noteq> fresh s" using assms(1) by (auto simp: il_ring_def butlast_append split: if_splits)
    then show "m_pNext (heap s' p) = m_pNext (heap s p)" by (simp add: s')
  next
    fix p assume "p \<in> set (tl (m_IL # ps @ [m_IL]))"
    then have "p \<noteq> fresh s" using assms(1) by (auto simp: il_ring_def)
    then show "m_pPrev (heap s' p) = m_pPrev (heap s p)" by (simp add: s')
  qed
  then show "il_ring s' ps"
    using assms(1) by (auto simp: il_ring_def s' less_Suc_eq)
qed

lemma il_ring_upd:
  assumes "\<And>i. m_pNext (f i) = m_pNext i" and "\<And>i. m_pPrev (f i) = m_pPrev i"
  shows "il_ring (upd_instr p f s) ps \<longleftrightarrow> il_ring s ps"
proof -
  have "linked (heap (upd_instr p f s)) qs \<longleftrightarrow> linked (heap s) qs" for qs
    by (rule linked_cong) (auto simp: frame_simps assms)
  then show ?thesis by (simp add: il_ring_def frame_simps)
qed

lemma il_ring_set [simp]:
  "il_ring (set_opcode p c s) ps \<longleftrightarrow> il_ring s ps"
  "il_ring (set_offset p n s) ps \<longleftrightarrow> il_ring s ps"
  "il_ring (set_arg p a s) ps \<longleftrightarrow> il_ring s ps"
  by (simp_all add: set_defs il_ring_upd)

text \<open>Appending a fresh node at the end: \<open>InsertBefore(&m_IL, x)\<close>.\<close>

lemma InsertBefore_end:
  assumes "il_ring s ps" and "x \<notin> insert m_IL (set ps)" and "x < fresh s"
  shows "il_ring (InsertBefore m_IL x s) (ps @ [x])"
  using InsertBefore_ring_split [of s ps "[]" x m_IL] assms by simp

end
