(* ===== verification/ILImport.thy ===== *)
theory ILImport
  imports ILRewriter
begin

text \<open>
  Reading a method body: \<open>ILRewriter::ImportIL\<close> and \<open>ILRewriter::ImportEH\<close>. The IL bytes
  become the instruction ring; branch operands become absolute offsets while the bytes are
  read and pointers in a second pass, through the table \<open>m_pOffsetToInstr\<close>; the exception
  clauses are resolved through the same table.
\<close>

section \<open>ImportIL\<close>

text \<open>\<open>NewILInstr\<close>, set the opcode, \<open>InsertBefore(&m_IL, pInstr)\<close>.\<close>

definition append_instr :: "nat \<Rightarrow> ILRewriter \<Rightarrow> ptr \<times> ILRewriter" where
  "append_instr opcode s =
     (let (pInstr, s) = NewILInstr s;
          s = set_opcode pInstr opcode s
      in (pInstr, InsertBefore m_IL pInstr s))"

text \<open>The loop over the targets of a \<open>switch\<close>: the node's operand is set before it is linked.\<close>

fun import_switch_args ::
  "byte list \<Rightarrow> nat \<Rightarrow> nat \<Rightarrow> nat \<Rightarrow> ILRewriter \<Rightarrow> hr + (nat \<times> ILRewriter)" where
  "import_switch_args pIL base 0 offset s = Inr (offset, s)"
| "import_switch_args pIL base (Suc n) offset s =
     (if offset + 4 > m_CodeSize s then Inl COR_E_INVALIDPROGRAM
      else
        let (pInstr, s) = NewILInstr s;
            s = set_opcode pInstr CEE_SWITCH_ARG s
        in bindE (read_le 4 pIL offset) (\<lambda>v.
             let s = set_arg pInstr (Arg32 (of_nat base + v)) s;
                 offset = w32 (offset + 4);
                 s = InsertBefore m_IL pInstr s
             in import_switch_args pIL base n offset s))"

text \<open>The opcode at \<open>offset\<close>, and the offset behind it.\<close>

definition import_opcode :: "byte list \<Rightarrow> nat \<Rightarrow> ILRewriter \<Rightarrow> hr + (nat \<times> nat)" where
  "import_opcode pIL offset s =
     bindE (read_le 1 pIL offset) (\<lambda>(b0 :: byte).
     let opcode = unat b0; offset = w32 (offset + 1)
     in bindE (if opcode = CEE_PREFIX1 then
                 (if offset \<ge> m_CodeSize s then Inl COR_E_INVALIDPROGRAM
                  else bindE (read_le 1 pIL offset) (\<lambda>(b1 :: byte).
                    Inr (0x100 + unat b1, w32 (offset + 1))))
               else Inr (opcode, offset)) (\<lambda>(opcode, offset).
        if CEE_PREFIX7 \<le> opcode \<and> opcode \<le> CEE_PREFIX2 then Inl COR_E_INVALIDPROGRAM
        else if opcode \<ge> CEE_COUNT then Inl COR_E_INVALIDPROGRAM
        else Inr (opcode, offset)))"

text \<open>The \<open>switch (flags)\<close> of the import loop: the operand of the new node, the offset behind
  what the case itself consumed, and whether the case sets \<open>fBranch\<close>.\<close>

definition import_operand ::
  "byte list \<Rightarrow> nat \<Rightarrow> ptr \<Rightarrow> nat \<Rightarrow> ILRewriter \<Rightarrow> hr + (nat \<times> bool \<times> ILRewriter)" where
  "import_operand pIL flags pInstr offset s =
     (if flags = 0 then Inr (offset, False, s)
      else if flags = 1 then
        bindE (read_le 1 pIL offset) (\<lambda>v. Inr (offset, False, set_arg pInstr (Arg8 v) s))
      else if flags = 2 then
        bindE (read_le 2 pIL offset) (\<lambda>v. Inr (offset, False, set_arg pInstr (Arg16 v) s))
      else if flags = 4 then
        bindE (read_le 4 pIL offset) (\<lambda>v. Inr (offset, False, set_arg pInstr (Arg32 v) s))
      else if flags = 8 then
        bindE (read_le 8 pIL offset) (\<lambda>v. Inr (offset, False, set_arg pInstr (Arg64 v) s))
      else if flags = or 1 OPCODEFLAGS_BranchTarget then
        bindE (read_le 1 pIL offset) (\<lambda>(v :: byte).
          Inr (offset, True, set_arg pInstr (Arg32 (of_nat (offset + 1) + scast v)) s))
      else if flags = or 4 OPCODEFLAGS_BranchTarget then
        bindE (read_le 4 pIL offset) (\<lambda>v.
          Inr (offset, True, set_arg pInstr (Arg32 (of_nat (offset + 4) + v)) s))
      else if flags = or 0 OPCODEFLAGS_Switch then
        (if offset + 4 > m_CodeSize s then Inl COR_E_INVALIDPROGRAM
         else
           bindE (read_le 4 pIL offset) (\<lambda>(v :: u32).
             let nTargets = unat v;
                 s = set_arg pInstr (Arg32 v) s;
                 offset = w32 (offset + 4);
                 base = w32 (offset + nTargets * 4)
             in bindE (import_switch_args pIL base nTargets offset s)
                  (\<lambda>(offset, s). Inr (offset, True, s))))
      else Inl COR_E_INVALIDPROGRAM)"

text \<open>One round of \<open>while (offset < m_CodeSize)\<close>.\<close>

definition import_instr ::
  "byte list \<Rightarrow> nat \<Rightarrow> ILRewriter \<Rightarrow> hr + (nat \<times> bool \<times> ILRewriter)" where
  "import_instr pIL startOffset s =
     bindE (import_opcode pIL startOffset s) (\<lambda>(opcode, offset).
     let flags = op_flags opcode; size = and flags OPCODEFLAGS_SizeMask
     in if w32 (offset + size) > m_CodeSize s then Inl COR_E_INVALIDPROGRAM
        else
          let (pInstr, s) = append_instr opcode s;
              s = s\<lparr>m_pOffsetToInstr := (m_pOffsetToInstr s)[startOffset := Some pInstr]\<rparr>
          in bindE (import_operand pIL flags pInstr offset s) (\<lambda>(offset, branch, s).
               Inr (w32 (offset + size), branch, s)))"

text \<open>The loop. Every round consumes at least one byte of the code, so \<open>m_CodeSize\<close> rounds are
  enough; fuel counts the rounds.\<close>

fun import_loop ::
  "nat \<Rightarrow> byte list \<Rightarrow> nat \<Rightarrow> bool \<Rightarrow> ILRewriter \<Rightarrow> hr + (nat \<times> bool \<times> ILRewriter)" where
  "import_loop 0 pIL offset fBranch s =
     (if offset < m_CodeSize s then Inl NoFuel else Inr (offset, fBranch, s))"
| "import_loop (Suc k) pIL offset fBranch s =
     (if offset < m_CodeSize s then
        bindE (import_instr pIL offset s) (\<lambda>(offset, branch, s).
          import_loop k pIL offset (fBranch \<or> branch) s)
      else Inr (offset, fBranch, s))"

text \<open>The pass that resolves the targets of control flow instructions.\<close>

definition resolve_target :: "ptr \<Rightarrow> ILRewriter \<Rightarrow> hr + ILRewriter" where
  "resolve_target pInstr s =
     (if and (op_flags (m_opcode (heap s pInstr))) OPCODEFLAGS_BranchTarget \<noteq> 0 then
        bindE (get_Arg32 (m_arg (heap s pInstr))) (\<lambda>v.
        bindE (GetInstrFromOffset (unat v) s) (\<lambda>pTarget.
          Inr (set_arg pInstr (Target pTarget) s)))
      else Inr s)"

definition ImportIL :: "byte list \<Rightarrow> ILRewriter \<Rightarrow> hr + ILRewriter" where
  "ImportIL pIL s =
     (let s = s\<lparr>m_pOffsetToInstr := replicate (m_CodeSize s) None @ [Some m_IL]\<rparr>;
          s = set_opcode m_IL 0xFFFFFFFF s
      in bindE (import_loop (m_CodeSize s) pIL 0 False s) (\<lambda>(offset, fBranch, s).
         if offset \<noteq> m_CodeSize s then Inl COR_E_INVALIDPROGRAM
         else if fBranch then bindE (il_nodes s) (\<lambda>ps. foldE resolve_target ps s)
         else Inr s))"

section \<open>ImportEH\<close>

text \<open>An exception clause in the fat form that \<open>COR_ILMETHOD_SECT_EH::EHClause\<close> returns.\<close>

record eh_clause_fat =
  GetFlags :: u32
  GetTryOffset :: nat
  GetTryLength :: nat
  GetHandlerOffset :: nat
  GetHandlerLength :: nat
  GetClassTokenOrFilterOffset :: u32

definition import_clause :: "eh_clause_fat \<Rightarrow> ILRewriter \<Rightarrow> hr + EHClause" where
  "import_clause ehInfo s =
     bindE (GetInstrFromOffset (GetTryOffset ehInfo) s) (\<lambda>tryBegin.
     bindE (GetInstrFromOffset (w32 (GetTryOffset ehInfo + GetTryLength ehInfo)) s) (\<lambda>tryEnd.
     bindE (GetInstrFromOffset (GetHandlerOffset ehInfo) s) (\<lambda>handlerBegin.
     bindE (GetInstrFromOffset (w32 (GetHandlerOffset ehInfo + GetHandlerLength ehInfo)) s)
       (\<lambda>handlerEnd.
     bindE (if GetFlags ehInfo AND COR_ILEXCEPTION_CLAUSE_FILTER = 0
            then Inr (ClassToken (GetClassTokenOrFilterOffset ehInfo))
            else bindE (GetInstrFromOffset (unat (GetClassTokenOrFilterOffset ehInfo)) s)
                   (\<lambda>p. Inr (Filter p))) (\<lambda>u.
       Inr \<lparr>m_Flags = GetFlags ehInfo, m_pTryBegin = tryBegin, m_pTryEnd = tryEnd,
            m_pHandlerBegin = handlerBegin, m_pHandlerEnd = m_pPrev (heap s handlerEnd),
            m_union = u\<rparr>)))))"

fun mapE :: "('a \<Rightarrow> 'e + 'b) \<Rightarrow> 'a list \<Rightarrow> 'e + 'b list" where
  "mapE f [] = Inr []"
| "mapE f (x # xs) = bindE (f x) (\<lambda>y. bindE (mapE f xs) (\<lambda>ys. Inr (y # ys)))"

definition ImportEH :: "eh_clause_fat list \<Rightarrow> ILRewriter \<Rightarrow> hr + ILRewriter" where
  "ImportEH pILEH s =
     (if m_pEH s \<noteq> None then Inl COR_E_INVALIDOPERATION
      else
        let s = s\<lparr>m_nEH := length pILEH\<rparr>
        in if pILEH = [] then Inr s
           else bindE (mapE (\<lambda>ehInfo. import_clause ehInfo s) pILEH)
                  (\<lambda>clauses. Inr (s\<lparr>m_pEH := Some clauses\<rparr>)))"

section \<open>Import\<close>

text \<open>What \<open>COR_ILMETHOD_DECODER\<close> reads out of the method header.\<close>

record method_decoder =
  GetLocalVarSigTok :: u32
  GetMaxStack :: nat
  GetHeaderFlags :: u32
  GetCodeSize :: nat
  Code :: "byte list"
  EH :: "eh_clause_fat list"

text \<open>\<open>body\<close> is what the CLR answers to \<open>GetILFunctionBody\<close>, already decoded
  (\<open>Import_body\<close> has the decoder in it).\<close>

definition Import :: "u32 + method_decoder \<Rightarrow> ILRewriter \<Rightarrow> hr + ILRewriter" where
  "Import body s = (case body of
     Inl code \<Rightarrow> Inl (ClrError code)
   | Inr decoder \<Rightarrow>
       let s = s\<lparr>m_tkLocalVarSig := GetLocalVarSigTok decoder,
                 m_maxStack := GetMaxStack decoder,
                 m_flags := GetHeaderFlags decoder AND CorILMethod_InitLocals,
                 m_CodeSize := GetCodeSize decoder\<rparr>
       in bindE (ImportIL (Code decoder) s) (ImportEH (EH decoder)))"

end
