(* ===== verification/ILExport.thy ===== *)
theory ILExport
  imports ILRewriter
begin

text \<open>
  Writing a method body: \<open>ILRewriter::Export\<close>. The code lays the instructions out in a
  buffer of \<open>m_nInstrs * 10\<close> bytes, patches the branch operands in a second pass over the
  list, and starts over (\<open>goto again\<close>) when a short branch turned out to be too short and
  was widened. The finished code gets a tiny or a fat header and the exception clauses.
\<close>

section \<open>First pass: layout\<close>

text \<open>\<open>m_pOutputBuffer[offset++] = b\<close>.\<close>

definition put_byte :: "byte \<Rightarrow> nat \<times> byte list \<Rightarrow> hr + (nat \<times> byte list)" where
  "put_byte b = (\<lambda>(offset, buf).
     bindE (write_bytes [b] offset buf) (\<lambda>buf. Inr (w32 (offset + 1), buf)))"

text \<open>The opcode bytes; the pseudo opcode of switch targets has none.\<close>

definition export_opcode :: "nat \<Rightarrow> nat \<times> byte list \<Rightarrow> hr + (nat \<times> byte list)" where
  "export_opcode opcode st =
     (if opcode < CEE_COUNT then
        bindE (if opcode \<ge> 0x100 then put_byte (of_nat CEE_PREFIX1) st else Inr st)
          (put_byte (of_nat (and opcode 0xFF)))
      else Inr st)"

text \<open>The \<open>switch (flags)\<close> of the first pass: offset, buffer and whether \<open>fBranch\<close> is set.\<close>

definition export_operand ::
  "nat \<Rightarrow> operand \<Rightarrow> nat \<Rightarrow> byte list \<Rightarrow> hr + (nat \<times> bool \<times> byte list)" where
  "export_operand flags arg offset buf =
     (if flags = 0 then Inr (offset, False, buf)
      else if flags = 1 then bindE (get_Arg8 arg) (\<lambda>v.
        bindE (write_bytes (le_bytes 1 v) offset buf) (\<lambda>buf. Inr (offset, False, buf)))
      else if flags = 2 then bindE (get_Arg16 arg) (\<lambda>v.
        bindE (write_bytes (le_bytes 2 v) offset buf) (\<lambda>buf. Inr (offset, False, buf)))
      else if flags = 4 then bindE (get_Arg32 arg) (\<lambda>v.
        bindE (write_bytes (le_bytes 4 v) offset buf) (\<lambda>buf. Inr (offset, False, buf)))
      else if flags = 8 then bindE (get_Arg64 arg) (\<lambda>v.
        bindE (write_bytes (le_bytes 8 v) offset buf) (\<lambda>buf. Inr (offset, False, buf)))
      else if flags = or 1 OPCODEFLAGS_BranchTarget then Inr (offset, True, buf)
      else if flags = or 4 OPCODEFLAGS_BranchTarget then Inr (offset, True, buf)
      else if flags = or 0 OPCODEFLAGS_Switch then bindE (get_Arg32 arg) (\<lambda>v.
        bindE (write_bytes (le_bytes 4 v) offset buf) (\<lambda>buf. Inr (w32 (offset + 4), False, buf)))
      else Inl COR_E_INVALIDPROGRAM)"

type_synonym layout = "nat \<times> bool \<times> byte list \<times> ILRewriter"

definition layout_instr :: "nat \<Rightarrow> ptr \<Rightarrow> layout \<Rightarrow> hr + layout" where
  "layout_instr maxSize pInstr = (\<lambda>(offset, fBranch, buf, s).
     if offset \<ge> maxSize then Inl COR_E_INDEXOUTOFRANGE
     else
       let s = set_offset pInstr offset s;
           opcode = m_opcode (heap s pInstr)
       in bindE (export_opcode opcode (offset, buf)) (\<lambda>(offset, buf).
          if opcode \<ge> length s_OpCodeFlags then Inl COR_E_INVALIDPROGRAM
          else
            let flags = op_flags opcode
            in bindE (export_operand flags (m_arg (heap s pInstr)) offset buf)
                 (\<lambda>(offset, branch, buf).
                   Inr (w32 (offset + and flags OPCODEFLAGS_SizeMask), fBranch \<or> branch, buf, s))))"

definition layout_pass :: "nat \<Rightarrow> byte list \<Rightarrow> ptr list \<Rightarrow> ILRewriter \<Rightarrow> hr + layout" where
  "layout_pass maxSize buf ps s =
     bindE (foldE (layout_instr maxSize) ps (0, False, buf, s)) (\<lambda>(offset, fBranch, buf, s).
       Inr (offset, fBranch, buf, set_offset m_IL offset s))"

section \<open>Second pass: branch operands\<close>

text \<open>\<open>int delta\<close>, the difference of two \<open>unsigned\<close> offsets.\<close>

definition branch_delta :: "nat \<Rightarrow> nat \<Rightarrow> u32" where
  "branch_delta target from = of_nat target - of_nat from"

text \<open>\<open>(INT8) delta == delta\<close>.\<close>

definition fits_int8 :: "u32 \<Rightarrow> bool" where
  "fits_int8 delta \<longleftrightarrow> scast (ucast delta :: byte) = delta"

text \<open>The long form of a short branch, or \<open>COR_E_INVALIDPROGRAM\<close>.\<close>

definition widen_branch :: "nat \<Rightarrow> hr + nat" where
  "widen_branch opcode =
     (if opcode = CEE_LEAVE_S then Inr CEE_LEAVE
      else if \<not> (CEE_BR_S \<le> opcode \<and> opcode \<le> CEE_BLT_UN_S) then Inl COR_E_INVALIDPROGRAM
      else
        let opcode' = opcode - CEE_BR_S + CEE_BR
        in if \<not> (CEE_BR \<le> opcode' \<and> opcode' \<le> CEE_BLT_UN) then Inl COR_E_INVALIDPROGRAM
           else Inr opcode')"

text \<open>\<open>fTryAgain\<close>, \<open>switchBase\<close>, the buffer and the rewriter.\<close>

type_synonym patching = "bool \<times> nat \<times> byte list \<times> ILRewriter"

definition patch_instr :: "ptr \<Rightarrow> patching \<Rightarrow> hr + patching" where
  "patch_instr pInstr = (\<lambda>(fTryAgain, switchBase, buf, s).
     let i = heap s pInstr; opcode = m_opcode i in
     if opcode = CEE_SWITCH then
       bindE (get_Arg32 (m_arg i)) (\<lambda>v.
         Inr (fTryAgain, w32 (m_offset i + 1 + 4 * unat (v + 1)), buf, s))
     else if opcode = CEE_SWITCH_ARG then
       bindE (get_Target (m_arg i)) (\<lambda>t.
       bindE (write_bytes (le_bytes 4 (branch_delta (m_offset (heap s t)) switchBase)) (m_offset i) buf)
         (\<lambda>buf. Inr (fTryAgain, switchBase, buf, s)))
     else
       let flags = op_flags opcode
       in if and flags OPCODEFLAGS_BranchTarget = 0 then Inr (fTryAgain, switchBase, buf, s)
          else
            bindE (get_Target (m_arg i)) (\<lambda>t.
            let after = m_offset (heap s (m_pNext i));
                delta = branch_delta (m_offset (heap s t)) after
            in if flags = or 1 OPCODEFLAGS_BranchTarget then
                 (if \<not> fits_int8 delta then
                    bindE (widen_branch opcode) (\<lambda>opcode'.
                      Inr (True, switchBase, buf, set_opcode pInstr opcode' s))
                  else if after = 0 then Inl BadAccess
                  else bindE (write_bytes (le_bytes 1 delta) (after - 1) buf)
                         (\<lambda>buf. Inr (fTryAgain, switchBase, buf, s)))
               else if flags = or 4 OPCODEFLAGS_BranchTarget then
                 (if after < 4 then Inl BadAccess
                  else bindE (write_bytes (le_bytes 4 delta) (after - 4) buf)
                         (\<lambda>buf. Inr (fTryAgain, switchBase, buf, s)))
               else Inl COR_E_INVALIDPROGRAM))"

text \<open>Both passes, and \<open>goto again\<close>. Every retry has widened a short branch, so the number of
  instructions bounds the number of rounds; fuel counts them. \<open>m_nInstrs * 10\<close> bytes are
  allocated once, with whatever content the memory has.\<close>

fun code_passes :: "nat \<Rightarrow> nat \<Rightarrow> byte list \<Rightarrow> ptr list \<Rightarrow> ILRewriter
    \<Rightarrow> hr + (nat \<times> byte list \<times> ILRewriter)" where
  "code_passes 0 maxSize buf ps s = Inl NoFuel"
| "code_passes (Suc k) maxSize buf ps s =
     bindE (layout_pass maxSize buf ps s) (\<lambda>(offset, fBranch, buf, s).
     if fBranch then
       bindE (foldE patch_instr ps (False, 0, buf, s)) (\<lambda>(fTryAgain, switchBase, buf, s).
         if fTryAgain then code_passes k maxSize buf ps s
         else Inr (offset, buf, s))
     else Inr (offset, buf, s))"

definition ExportCode :: "(nat \<Rightarrow> byte list) \<Rightarrow> ILRewriter \<Rightarrow> hr + (byte list \<times> ILRewriter)" where
  "ExportCode new s =
     (let maxSize = w32 (m_nInstrs s * 10); buf = new maxSize
      in bindE (il_nodes s) (\<lambda>ps.
         bindE (code_passes (Suc (length ps)) maxSize buf ps s) (\<lambda>(codeSize, buf, s).
           Inr (take codeSize buf, s))))"


section \<open>The method body: header, code and exception clauses\<close>

text \<open>\<open>IMAGE_COR_ILMETHOD_FAT\<close>: 12 bits of flags, 4 bits of size in words, 16 bits of stack.\<close>

definition fat_header :: "u32 \<Rightarrow> nat \<Rightarrow> nat \<Rightarrow> u32 \<Rightarrow> byte list" where
  "fat_header flags maxStack codeSize tk =
     le_bytes 2 (((ucast flags :: u16) AND 0x0FFF) OR push_bit 12 3)
     @ le_bytes 2 (of_nat maxStack :: u16)
     @ le_bytes 4 (of_nat codeSize :: u32)
     @ le_bytes 4 tk"

text \<open>\<open>IMAGE_COR_ILMETHOD_SECT_FAT\<close>: 8 bits of kind, 24 bits of size.\<close>

definition fat_section :: "nat \<Rightarrow> byte list" where
  "fat_section nEH =
     0x41 # le_bytes 3 (of_nat (4 + 24 * nEH) :: u32)"

definition export_clause :: "ILRewriter \<Rightarrow> EHClause \<Rightarrow> byte list" where
  "export_clause s c =
     (let off = (\<lambda>p. of_nat (m_offset (heap s p)) :: u32)
      in le_bytes 4 (m_Flags c)
         @ le_bytes 4 (off (m_pTryBegin c))
         @ le_bytes 4 (off (m_pTryEnd c) - off (m_pTryBegin c))
         @ le_bytes 4 (off (m_pHandlerBegin c))
         @ le_bytes 4 (off (m_pNext (heap s (m_pHandlerEnd c))) - off (m_pHandlerBegin c))
         @ le_bytes 4 (case m_union c of ClassToken tk \<Rightarrow> tk | Filter p \<Rightarrow> off p))"

text \<open>Which member of the union the code reads is decided by the flags.\<close>

definition clause_union_ok :: "EHClause \<Rightarrow> bool" where
  "clause_union_ok c =
     (case m_union c of
        ClassToken tk \<Rightarrow> m_Flags c AND COR_ILEXCEPTION_CLAUSE_FILTER = 0
      | Filter p \<Rightarrow> m_Flags c AND COR_ILEXCEPTION_CLAUSE_FILTER \<noteq> 0)"

definition export_clauses :: "ILRewriter \<Rightarrow> hr + byte list" where
  "export_clauses s =
     (if m_nEH s = 0 then Inr []
      else case m_pEH s of
        None \<Rightarrow> Inl BadAccess
      | Some cs \<Rightarrow>
          if length cs < m_nEH s then Inl BadAccess
          else if \<not> list_all clause_union_ok (take (m_nEH s) cs) then Inl TypePun
          else Inr (fat_section (m_nEH s) @ concat (map (export_clause s) (take (m_nEH s) cs))))"

definition alignedCodeSize :: "nat \<Rightarrow> nat" where
  "alignedCodeSize codeSize = (w32 (codeSize + 3) div 4) * 4"

text \<open>
  \<open>alloc n\<close> is the memory that \<open>AllocateILMemory(n)\<close> returns (\<open>None\<close> for the null pointer)
  and \<open>set_body\<close> the CLR's answer to \<open>SetILFunctionBody\<close> (\<open>Some\<close> failure code). The result
  is the body that was handed over.
\<close>

definition Export :: "(nat \<Rightarrow> byte list) \<Rightarrow> (nat \<Rightarrow> byte list option) \<Rightarrow> (byte list \<Rightarrow> u32 option)
    \<Rightarrow> ILRewriter \<Rightarrow> hr + (byte list \<times> ILRewriter)" where
  "Export new alloc set_body s =
     bindE (ExportCode new s) (\<lambda>(code, s).
     let codeSize = length code in
     bindE (if m_fGenerateTinyHeader s then
         (if codeSize \<ge> 64 then Inl E_FAIL
          else case alloc (w32 (1 + codeSize)) of
            None \<Rightarrow> Inl E_OUTOFMEMORY
          | Some pBody \<Rightarrow>
              bindE (write_bytes [of_nat (or 2 (codeSize * 4))] 0 pBody) (write_bytes code 1))
       else
         let aligned = alignedCodeSize codeSize;
             flags = m_flags s OR (if m_nEH s \<noteq> 0 then CorILMethod_MoreSects else 0)
                       OR CorILMethod_FatFormat;
             totalSize = w32 (12 + aligned + (if m_nEH s \<noteq> 0 then 4 + 24 * m_nEH s else 0))
         in case alloc totalSize of
              None \<Rightarrow> Inl E_OUTOFMEMORY
            | Some pBody \<Rightarrow>
                bindE (write_bytes (fat_header flags (m_maxStack s) codeSize (m_tkLocalVarSig s))
                        0 pBody) (\<lambda>pBody.
                bindE (write_bytes code 12 pBody) (\<lambda>pBody.
                bindE (export_clauses s) (\<lambda>clauses.
                  write_bytes clauses (12 + aligned) pBody)))) (\<lambda>pBody.
     case set_body pBody of
       Some failure \<Rightarrow> Inl (ClrError failure)
     | None \<Rightarrow> Inr (pBody, s)))"

end
