(* ===== verification/ILEncoding.thy ===== *)
theory ILEncoding
  imports ILExport
begin

text \<open>
  The byte encoding of a laid-out instruction list, as a specification, and the proof that
  \<open>Export\<close> produces it: on a well-formed rewriter the two passes never leave the buffer,
  never read the wrong union member and always end, and the code they produce is the
  encoding of the list at the offsets that the layout has assigned.
\<close>

section \<open>The encoding\<close>

definition opcode_bytes :: "nat \<Rightarrow> byte list" where
  "opcode_bytes op =
     (if op < CEE_COUNT then (if op \<ge> 0x100 then [of_nat CEE_PREFIX1] else []) @ [of_nat (and op 0xFF)]
      else [])"

definition operand_size :: "nat \<Rightarrow> nat" where
  "operand_size op = (if op_flags op = 32 then 4 else and (op_flags op) 0x0F)"

definition instr_size :: "nat \<Rightarrow> nat" where
  "instr_size op = length (opcode_bytes op) + operand_size op"

definition is_branch :: "nat \<Rightarrow> bool" where
  "is_branch op \<longleftrightarrow> op_flags op = 17 \<or> op_flags op = 20"

definition code_size :: "(ptr \<Rightarrow> ILInstr) \<Rightarrow> ptr list \<Rightarrow> nat" where
  "code_size h ps = sum_list (map (\<lambda>p. instr_size (m_opcode (h p))) ps)"

text \<open>The value of a union member that must have been written (or is still zero).\<close>

fun operand_bytes :: "nat \<Rightarrow> operand \<Rightarrow> byte list" where
  "operand_bytes n (Arg8 v) = le_bytes n v"
| "operand_bytes n (Arg16 v) = le_bytes n v"
| "operand_bytes n (Arg32 v) = le_bytes n v"
| "operand_bytes n (Arg64 v) = le_bytes n v"
| "operand_bytes n Zeroed = replicate n 0"
| "operand_bytes n (Target t) = []"

text \<open>The displacement of a branch: from the end of the instruction, or from the end of the
  whole \<open>switch\<close> for its targets.\<close>

definition branch_base :: "(ptr \<Rightarrow> ILInstr) \<Rightarrow> nat \<Rightarrow> ptr \<Rightarrow> nat" where
  "branch_base h switchBase p =
     (if m_opcode (h p) = CEE_SWITCH_ARG then switchBase
      else m_offset (h p) + instr_size (m_opcode (h p)))"

definition enc_instr :: "(ptr \<Rightarrow> ILInstr) \<Rightarrow> nat \<Rightarrow> ptr \<Rightarrow> byte list" where
  "enc_instr h switchBase p =
     opcode_bytes (m_opcode (h p)) @
     (case m_arg (h p) of
        Target t \<Rightarrow>
          if is_branch (m_opcode (h p)) then
            le_bytes (operand_size (m_opcode (h p)))
              (branch_delta (m_offset (h t)) (branch_base h switchBase p))
          else []
      | a \<Rightarrow> operand_bytes (operand_size (m_opcode (h p))) a)"

definition next_switch_base :: "(ptr \<Rightarrow> ILInstr) \<Rightarrow> ptr \<Rightarrow> nat \<Rightarrow> nat" where
  "next_switch_base h p switchBase =
     (if m_opcode (h p) = CEE_SWITCH then
        (case m_arg (h p) of
           Arg32 v \<Rightarrow> w32 (m_offset (h p) + 1 + 4 * unat (v + 1))
         | _ \<Rightarrow> w32 (m_offset (h p) + 1 + 4))
      else switchBase)"

fun enc_code :: "(ptr \<Rightarrow> ILInstr) \<Rightarrow> nat \<Rightarrow> ptr list \<Rightarrow> byte list" where
  "enc_code h switchBase [] = []"
| "enc_code h switchBase (p # ps) =
     enc_instr h switchBase p @ enc_code h (next_switch_base h p switchBase) ps"

text \<open>The offsets of the list, starting at \<open>off\<close>; the anchor gets the offset of the end.\<close>

fun laid_out :: "(ptr \<Rightarrow> ILInstr) \<Rightarrow> nat \<Rightarrow> ptr list \<Rightarrow> bool" where
  "laid_out h off [] \<longleftrightarrow> m_offset (h m_IL) = off"
| "laid_out h off (p # ps) \<longleftrightarrow>
     m_offset (h p) = off \<and> laid_out h (off + instr_size (m_opcode (h p))) ps"

section \<open>Well-formed rewriters\<close>

text \<open>The operand is the one that the flags of the opcode make \<open>Export\<close> read.\<close>

fun operand_ok :: "ptr set \<Rightarrow> nat \<Rightarrow> operand \<Rightarrow> bool" where
  "operand_ok P fl Zeroed \<longleftrightarrow> fl \<noteq> 17 \<and> fl \<noteq> 20"
| "operand_ok P fl (Arg8 v) \<longleftrightarrow> fl = 1"
| "operand_ok P fl (Arg16 v) \<longleftrightarrow> fl = 2"
| "operand_ok P fl (Arg32 v) \<longleftrightarrow> fl = 4 \<or> fl = 32"
| "operand_ok P fl (Arg64 v) \<longleftrightarrow> fl = 8"
| "operand_ok P fl (Target t) \<longleftrightarrow> (fl = 17 \<or> fl = 20) \<and> t \<in> P"

definition instr_ok :: "ptr set \<Rightarrow> ILInstr \<Rightarrow> bool" where
  "instr_ok P i \<longleftrightarrow> m_opcode i < 296 \<and> operand_ok P (op_flags (m_opcode i)) (m_arg i)"

text \<open>A rewriter whose list is \<open>ps\<close>: the ring, an operand of the right kind at every
  instruction, every branch target in the list (or its end), and every node counted.\<close>

definition il_wf :: "ILRewriter \<Rightarrow> ptr list \<Rightarrow> bool" where
  "il_wf s ps \<longleftrightarrow> il_ring s ps \<and> (\<forall>p \<in> set ps. instr_ok (insert m_IL (set ps)) (heap s p))
     \<and> length ps \<le> m_nInstrs s"

section \<open>Sizes\<close>

lemma length_le_bytes [simp]: "length (le_bytes n w) = n"
  by (induction n arbitrary: w) auto

lemma operand_size_flags:
  assumes "op < 296"
  shows "operand_size op =
    (if op_flags op = 17 then 1 else if op_flags op = 20 then 4 else if op_flags op = 32 then 4
     else op_flags op)"
  using op_flags_cases(1) [OF assms] by (auto simp: operand_size_def)

lemma instr_size_le_10: "op < 296 \<Longrightarrow> instr_size op \<le> 10"
  using op_flags_cases(1) [of op]
  by (auto simp: instr_size_def operand_size_flags opcode_bytes_def split: if_splits)

lemma code_size_simps [simp]:
  "code_size h [] = 0"
  "code_size h (p # ps) = instr_size (m_opcode (h p)) + code_size h ps"
  "code_size h (ps @ qs) = code_size h ps + code_size h qs"
  by (simp_all add: code_size_def)

lemma code_size_le:
  "(\<And>p. p \<in> set ps \<Longrightarrow> m_opcode (h p) < 296) \<Longrightarrow> code_size h ps \<le> 10 * length ps"
proof (induction ps)
  case (Cons p ps)
  then show ?case using instr_size_le_10 [of "m_opcode (h p)"] by force
qed simp

section \<open>Writing into the middle of a buffer\<close>

lemma write_bytes_at:
  assumes "length bs \<le> length rest"
  shows "write_bytes bs (length pre) (pre @ rest) = Inr (pre @ bs @ drop (length bs) rest)"
  using assms by (simp add: write_bytes_def)

lemma write_bytes_mid:
  assumes "length bs = length old" and "off = length pre"
  shows "write_bytes bs off (pre @ old @ rest) = Inr (pre @ bs @ rest)"
  using assms by (simp add: write_bytes_def)

section \<open>The layout pass\<close>

text \<open>What the layout leaves in the bytes of one instruction: the opcode, and the operand
  unless it is a displacement, whose bytes keep their old content.\<close>

definition chunk_laid :: "ILInstr \<Rightarrow> byte list \<Rightarrow> bool" where
  "chunk_laid i c \<longleftrightarrow> (\<exists>x. c = opcode_bytes (m_opcode i) @ x \<and> length x = operand_size (m_opcode i)
     \<and> (\<not> is_branch (m_opcode i) \<longrightarrow> x = operand_bytes (operand_size (m_opcode i)) (m_arg i)))"

lemma chunk_laid_length: "chunk_laid i c \<Longrightarrow> length c = instr_size (m_opcode i)"
  by (auto simp: chunk_laid_def instr_size_def)

lemma export_opcode_at:
  assumes "length (opcode_bytes op) \<le> length rest" and "length pre + 2 < 4294967296"
  shows "export_opcode op (length pre, pre @ rest) =
    Inr (length pre + length (opcode_bytes op),
      pre @ opcode_bytes op @ drop (length (opcode_bytes op)) rest)"
proof -
  have put: "put_byte b (length q, q @ r) = Inr (Suc (length q), q @ b # drop 1 r)"
    if "1 \<le> length r" "Suc (length q) < 4294967296" for b q r
    using that write_bytes_at [of "[b]" r q] by (simp add: put_byte_def)
  show ?thesis
  proof (cases "op \<ge> 0x100 \<and> op < CEE_COUNT")
    case True
    with assms put [of rest pre "of_nat CEE_PREFIX1"]
      put [of "drop 1 rest" "pre @ [of_nat CEE_PREFIX1]" "of_nat (and op 0xFF)"]
    show ?thesis by (simp add: export_opcode_def opcode_bytes_def)
  next
    case False
    with assms put [of rest pre "of_nat (and op 0xFF)"] show ?thesis
      by (auto simp: export_opcode_def opcode_bytes_def)
  qed
qed

lemma get_operand:
  assumes "operand_ok P fl a"
  shows "fl = 1 \<Longrightarrow> \<exists>v. get_Arg8 a = Inr v \<and> le_bytes 1 v = operand_bytes 1 a"
    and "fl = 2 \<Longrightarrow> \<exists>v. get_Arg16 a = Inr v \<and> le_bytes 2 v = operand_bytes 2 a"
    and "fl = 4 \<or> fl = 32 \<Longrightarrow> \<exists>v. get_Arg32 a = Inr v \<and> le_bytes 4 v = operand_bytes 4 a"
    and "fl = 8 \<Longrightarrow> \<exists>v. get_Arg64 a = Inr v \<and> le_bytes 8 v = operand_bytes 8 a"
    and "fl = 17 \<or> fl = 20 \<Longrightarrow> \<exists>t. a = Target t \<and> t \<in> P"
  using assms by (cases a; force simp: eval_nat_numeral)+


lemma export_operand_at:
  assumes op: "op < 296" and a: "operand_ok P (op_flags op) a"
    and len: "operand_size op \<le> length rest" "length pre + 4 < 4294967296"
  shows "\<exists>x. length x = operand_size op
    \<and> (\<not> is_branch op \<longrightarrow> x = operand_bytes (operand_size op) a)
    \<and> export_operand (op_flags op) a (length pre) (pre @ rest)
      = Inr (length pre + (if op_flags op = 32 then 4 else 0), is_branch op,
          pre @ x @ drop (operand_size op) rest)"
proof -
  note sz = operand_size_flags [OF op]
  note w = write_bytes_at [of _ rest pre]
  consider "op_flags op = 0" | "op_flags op = 1" | "op_flags op = 2" | "op_flags op = 4"
    | "op_flags op = 8" | "op_flags op = 17" | "op_flags op = 20" | "op_flags op = 32"
    using op_flags_cases(1) [OF op] by auto
  then show ?thesis
  proof cases
    case 1
    then have "operand_bytes 0 a = []" using a by (cases a) auto
    with 1 show ?thesis by (simp add: export_operand_def sz is_branch_def)
  next
    case 2
    with get_operand(1) [OF a] obtain v where v: "get_Arg8 a = Inr v"
      "le_bytes 1 v = operand_bytes 1 a" by auto
    moreover from this have "length (operand_bytes 1 a) = 1" by (metis length_le_bytes)
    ultimately show ?thesis
      using 2 w [of "le_bytes 1 v"] len
      by (intro exI [of _ "le_bytes 1 v"]) (simp add: export_operand_def sz is_branch_def)
  next
    case 3
    with get_operand(2) [OF a] obtain v where v: "get_Arg16 a = Inr v"
      "le_bytes 2 v = operand_bytes 2 a" by auto
    moreover from this have "length (operand_bytes 2 a) = 2" by (metis length_le_bytes)
    ultimately show ?thesis
      using 3 w [of "le_bytes 2 v"] len
      by (intro exI [of _ "le_bytes 2 v"]) (simp add: export_operand_def sz is_branch_def)
  next
    case 4
    with get_operand(3) [OF a] obtain v where v: "get_Arg32 a = Inr v"
      "le_bytes 4 v = operand_bytes 4 a" by auto
    moreover from this have "length (operand_bytes 4 a) = 4" by (metis length_le_bytes)
    ultimately show ?thesis
      using 4 w [of "le_bytes 4 v"] len
      by (intro exI [of _ "le_bytes 4 v"]) (simp add: export_operand_def sz is_branch_def)
  next
    case 5
    with get_operand(4) [OF a] obtain v where v: "get_Arg64 a = Inr v"
      "le_bytes 8 v = operand_bytes 8 a" by auto
    moreover from this have "length (operand_bytes 8 a) = 8" by (metis length_le_bytes)
    ultimately show ?thesis
      using 5 w [of "le_bytes 8 v"] len
      by (intro exI [of _ "le_bytes 8 v"]) (simp add: export_operand_def sz is_branch_def)
  next
    case 6
    with len show ?thesis
      by (intro exI [of _ "take 1 rest"]) (simp add: export_operand_def sz is_branch_def)
  next
    case 7
    with len show ?thesis
      by (intro exI [of _ "take 4 rest"]) (simp add: export_operand_def sz is_branch_def)
  next
    case 8
    with get_operand(3) [OF a] obtain v where v: "get_Arg32 a = Inr v"
      "le_bytes 4 v = operand_bytes 4 a" by auto
    moreover from this have "length (operand_bytes 4 a) = 4" by (metis length_le_bytes)
    ultimately show ?thesis
      using 8 w [of "le_bytes 4 v"] len
      by (intro exI [of _ "le_bytes 4 v"]) (simp add: export_operand_def sz is_branch_def)
  qed
qed

lemma set_offset_members [simp]:
  "m_opcode (heap (set_offset p n s) q) = m_opcode (heap s q)"
  "m_arg (heap (set_offset p n s) q) = m_arg (heap s q)"
  "m_pNext (heap (set_offset p n s) q) = m_pNext (heap s q)"
  "m_pPrev (heap (set_offset p n s) q) = m_pPrev (heap s q)"
  "m_offset (heap (set_offset p n s) q) = (if q = p then n else m_offset (heap s q))"
  by (simp_all add: frame_simps)

lemma layout_instr_step:
  assumes ok: "instr_ok P (heap s p)" and off: "length pre < maxSize"
    and len: "instr_size (m_opcode (heap s p)) \<le> length rest" "length pre + 10 < 4294967296"
  shows "\<exists>c. chunk_laid (heap s p) c
    \<and> layout_instr maxSize p (length pre, fb, pre @ rest, s)
      = Inr (length pre + instr_size (m_opcode (heap s p)), fb \<or> is_branch (m_opcode (heap s p)),
          pre @ c @ drop (instr_size (m_opcode (heap s p))) rest, set_offset p (length pre) s)"
proof -
  let ?op = "m_opcode (heap s p)" and ?a = "m_arg (heap s p)"
  let ?o = "opcode_bytes ?op"
  have op: "?op < 296" and a: "operand_ok P (op_flags ?op) ?a"
    using ok by (auto simp: instr_ok_def)
  have o2: "length ?o \<le> 2" by (simp add: opcode_bytes_def)
  have len': "length ?o \<le> length rest" "operand_size ?op \<le> length (drop (length ?o) rest)"
    using len(1) by (auto simp: instr_size_def)
  have "length (pre @ ?o) + 4 < 4294967296"
    using len(2) o2 by simp
  from export_operand_at [OF op a len'(2) this] obtain x where
    x: "length x = operand_size ?op" "\<not> is_branch ?op \<longrightarrow> x = operand_bytes (operand_size ?op) ?a"
    and eo: "export_operand (op_flags ?op) ?a (length (pre @ ?o)) ((pre @ ?o) @ drop (length ?o) rest)
      = Inr (length (pre @ ?o) + (if op_flags ?op = 32 then 4 else 0), is_branch ?op,
          (pre @ ?o) @ x @ drop (operand_size ?op) (drop (length ?o) rest))"
    by blast
  have opc: "export_opcode ?op (length pre, pre @ rest)
      = Inr (length (pre @ ?o), (pre @ ?o) @ drop (length ?o) rest)"
    using export_opcode_at [OF len'(1), of pre] len(2) by simp
  have size: "(if op_flags ?op = 32 then 4 else 0) + and (op_flags ?op) 0x0F = operand_size ?op"
    by (auto simp: operand_size_def)
  have "instr_size ?op \<le> 10" by (rule instr_size_le_10 [OF op])
  then have "length pre + instr_size ?op < 4294967296" using len(2) by simp
  then have fin: "w32 (length (pre @ ?o) + (if op_flags ?op = 32 then 4 else 0)
      + and (op_flags ?op) 0x0F) = length pre + instr_size ?op"
    unfolding add.assoc size by (simp add: instr_size_def add.assoc)
  have "chunk_laid (heap s p) (?o @ x)"
    using x by (auto simp: chunk_laid_def)
  moreover have "layout_instr maxSize p (length pre, fb, pre @ rest, s)
      = Inr (length pre + instr_size ?op, fb \<or> is_branch ?op,
          pre @ (?o @ x) @ drop (instr_size ?op) rest, set_offset p (length pre) s)"
    using op off unfolding layout_instr_def
    by (simp only: prod.case not_le if_False Let_def set_offset_members opc bindE_Inr
        length_s_OpCodeFlags eo fin) (simp add: instr_size_def add.commute)
  ultimately show ?thesis by blast
qed

text \<open>The whole pass: the buffer is a sequence of chunks, one per instruction, and the rest.\<close>

fun assign_offsets :: "nat \<Rightarrow> ptr list \<Rightarrow> ILRewriter \<Rightarrow> ILRewriter" where
  "assign_offsets off [] s = s"
| "assign_offsets off (p # ps) s =
     assign_offsets (off + instr_size (m_opcode (heap s p))) ps (set_offset p off s)"

lemma assign_offsets_members [simp]:
  "m_opcode (heap (assign_offsets off ps s) q) = m_opcode (heap s q)"
  "m_arg (heap (assign_offsets off ps s) q) = m_arg (heap s q)"
  "m_pNext (heap (assign_offsets off ps s) q) = m_pNext (heap s q)"
  "m_pPrev (heap (assign_offsets off ps s) q) = m_pPrev (heap s q)"
  "il_ring (assign_offsets off ps s) qs \<longleftrightarrow> il_ring s qs"
  by (induction ps arbitrary: off s) simp_all

lemma assign_offsets_frame [simp]:
  "m_nInstrs (assign_offsets off ps s) = m_nInstrs s"
  "m_nEH (assign_offsets off ps s) = m_nEH s"
  "m_pEH (assign_offsets off ps s) = m_pEH s"
  "m_flags (assign_offsets off ps s) = m_flags s"
  "m_maxStack (assign_offsets off ps s) = m_maxStack s"
  "m_tkLocalVarSig (assign_offsets off ps s) = m_tkLocalVarSig s"
  "m_fGenerateTinyHeader (assign_offsets off ps s) = m_fGenerateTinyHeader s"
  by (induction ps arbitrary: off s) (simp_all add: frame_simps)

lemma assign_offsets_other:
  "q \<notin> set ps \<Longrightarrow> m_offset (heap (assign_offsets off ps s) q) = m_offset (heap s q)"
  by (induction ps arbitrary: off s) simp_all

lemma code_size_cong:
  "(\<And>p. p \<in> set ps \<Longrightarrow> m_opcode (h p) = m_opcode (g p)) \<Longrightarrow> code_size h ps = code_size g ps"
  by (induction ps) simp_all

lemma code_size_members [simp]:
  "code_size (heap (set_offset p n s)) ps = code_size (heap s) ps"
  "code_size (heap (assign_offsets off qs s)) ps = code_size (heap s) ps"
  by (rule code_size_cong, simp)+

text \<open>The state after the pass: every node has its offset, and the anchor the code size.\<close>

definition lay_out :: "ptr list \<Rightarrow> ILRewriter \<Rightarrow> ILRewriter" where
  "lay_out ps s = set_offset m_IL (code_size (heap s) ps) (assign_offsets 0 ps s)"

lemma laid_out_assign:
  assumes "distinct (m_IL # ps)" and "n = off + code_size (heap s) ps"
  shows "laid_out (heap (set_offset m_IL n (assign_offsets off ps s))) off ps"
  using assms
proof (induction ps arbitrary: off s)
  case (Cons p ps)
  have "laid_out (heap (set_offset m_IL n (assign_offsets (off + instr_size (m_opcode (heap s p)))
      ps (set_offset p off s)))) (off + instr_size (m_opcode (heap s p))) ps"
    by (rule Cons.IH) (use Cons.prems in simp_all)
  then show ?case using Cons.prems by (simp add: assign_offsets_other)
qed simp

lemma laid_out_lay_out: "distinct (m_IL # ps) \<Longrightarrow> laid_out (heap (lay_out ps s)) 0 ps"
  unfolding lay_out_def by (rule laid_out_assign) simp_all

lemma instr_ok_set_offset [simp]:
  "instr_ok P (heap (set_offset p n s) q) \<longleftrightarrow> instr_ok P (heap s q)"
  by (simp add: instr_ok_def)

lemma chunk_laid_set_offset [simp]:
  "chunk_laid (heap (set_offset p n s) q) c \<longleftrightarrow> chunk_laid (heap s q) c"
  by (simp add: chunk_laid_def)

lemma foldE_layout:
  assumes "\<And>p. p \<in> set ps \<Longrightarrow> instr_ok P (heap s p)"
    and "length pre + 10 * length ps \<le> maxSize" and "code_size (heap s) ps \<le> length rest"
    and "maxSize + 10 < 4294967296"
  shows "\<exists>cs. list_all2 (\<lambda>p c. chunk_laid (heap s p) c) ps cs
    \<and> foldE (layout_instr maxSize) ps (length pre, fb, pre @ rest, s)
      = Inr (length pre + code_size (heap s) ps,
          fb \<or> (\<exists>p \<in> set ps. is_branch (m_opcode (heap s p))),
          pre @ concat cs @ drop (code_size (heap s) ps) rest, assign_offsets (length pre) ps s)"
  using assms
proof (induction ps arbitrary: pre rest fb s)
  case (Cons p ps)
  let ?n = "instr_size (m_opcode (heap s p))"
  have n: "?n \<le> 10"
    using Cons.prems(1) [of p] by (simp add: instr_ok_def instr_size_le_10)
  obtain c where c: "chunk_laid (heap s p) c"
    and step: "layout_instr maxSize p (length pre, fb, pre @ rest, s)
      = Inr (length pre + ?n, fb \<or> is_branch (m_opcode (heap s p)), pre @ c @ drop ?n rest,
          set_offset p (length pre) s)"
    using layout_instr_step [of P s p pre maxSize rest fb] Cons.prems by auto
  have len: "length (pre @ c) = length pre + ?n"
    using chunk_laid_length [OF c] by simp
  have "\<exists>cs. list_all2 (\<lambda>p c. chunk_laid (heap (set_offset p' (length pre) s) p) c) ps cs
    \<and> foldE (layout_instr maxSize) ps (length (pre @ c), fb \<or> is_branch (m_opcode (heap s p)),
        (pre @ c) @ drop ?n rest, set_offset p (length pre) s)
      = Inr (length (pre @ c) + code_size (heap (set_offset p (length pre) s)) ps,
          (fb \<or> is_branch (m_opcode (heap s p)))
            \<or> (\<exists>q \<in> set ps. is_branch (m_opcode (heap (set_offset p (length pre) s) q))),
          (pre @ c) @ concat cs @ drop (code_size (heap (set_offset p (length pre) s)) ps)
            (drop ?n rest),
          assign_offsets (length (pre @ c)) ps (set_offset p (length pre) s))" for p'
    using Cons.IH [of "set_offset p (length pre) s" "pre @ c" "drop ?n rest"
        "fb \<or> is_branch (m_opcode (heap s p))"] Cons.prems n len
    by simp
  then obtain cs where "list_all2 (\<lambda>p c. chunk_laid (heap s p) c) ps cs"
    and "foldE (layout_instr maxSize) ps (length pre + ?n, fb \<or> is_branch (m_opcode (heap s p)),
        pre @ c @ drop ?n rest, set_offset p (length pre) s)
      = Inr (length pre + ?n + code_size (heap s) ps,
          (fb \<or> is_branch (m_opcode (heap s p)))
            \<or> (\<exists>q \<in> set ps. is_branch (m_opcode (heap s q))),
          pre @ c @ concat cs @ drop (?n + code_size (heap s) ps) rest,
          assign_offsets (length pre + ?n) ps (set_offset p (length pre) s))"
    by (auto simp: len add.commute simp del: length_append)
  with c step show ?case
    by (intro exI [of _ "c # cs"]) (simp add: add.assoc disj_assoc)
qed simp

section \<open>The patch pass\<close>

text \<open>The displacement that the code computes for a branch, from the next instruction of the
  list, and the short branches that it does not fit.\<close>

definition target_delta :: "(ptr \<Rightarrow> ILInstr) \<Rightarrow> ptr \<Rightarrow> u32" where
  "target_delta h p = (case m_arg (h p) of
     Target t \<Rightarrow> branch_delta (m_offset (h t)) (m_offset (h (m_pNext (h p))))
   | _ \<Rightarrow> 0)"

definition needs_widening :: "(ptr \<Rightarrow> ILInstr) \<Rightarrow> ptr \<Rightarrow> bool" where
  "needs_widening h p \<longleftrightarrow> op_flags (m_opcode (h p)) = 17 \<and> \<not> fits_int8 (target_delta h p)"

definition long_form :: "nat \<Rightarrow> nat" where
  "long_form op = (if op = CEE_LEAVE_S then CEE_LEAVE else op - CEE_BR_S + CEE_BR)"

fun widen_all :: "ptr list \<Rightarrow> ILRewriter \<Rightarrow> ILRewriter" where
  "widen_all [] s = s"
| "widen_all (p # ps) s =
     widen_all ps (if needs_widening (heap s) p then set_opcode p (long_form (m_opcode (heap s p))) s
       else s)"

lemma long_form:
  assumes "op < 296" and "op_flags op = 17"
  shows "widen_branch op = Inr (long_form op)" and "op_flags (long_form op) = 20"
    and "long_form op < 296"
proof -
  have op: "CEE_BR_S \<le> op \<and> op \<le> CEE_BLT_UN_S \<or> op = CEE_LEAVE_S"
    using op_flags_cases(3) [OF assms(1)] assms(2) by simp
  then show "widen_branch op = Inr (long_form op)" and lt: "long_form op < 296"
    by (auto simp: widen_branch_def long_form_def)
  show "op_flags (long_form op) = 20"
    using op op_flags_cases(4) [OF lt] by (auto simp: long_form_def)
qed

lemma set_opcode_members [simp]:
  "m_opcode (heap (set_opcode p n s) q) = (if q = p then n else m_opcode (heap s q))"
  "m_arg (heap (set_opcode p n s) q) = m_arg (heap s q)"
  "m_pNext (heap (set_opcode p n s) q) = m_pNext (heap s q)"
  "m_pPrev (heap (set_opcode p n s) q) = m_pPrev (heap s q)"
  "m_offset (heap (set_opcode p n s) q) = m_offset (heap s q)"
  by (simp_all add: frame_simps)

lemma target_delta_set_opcode [simp]:
  "target_delta (heap (set_opcode p n s)) q = target_delta (heap s) q"
  by (simp add: target_delta_def cong: operand.case_cong)

lemma needs_widening_set_opcode [simp]:
  "q \<noteq> p \<Longrightarrow> needs_widening (heap (set_opcode p n s)) q \<longleftrightarrow> needs_widening (heap s) q"
  by (simp add: needs_widening_def)

lemma laid_out_cong:
  "(\<And>p. m_offset (h p) = m_offset (g p)) \<Longrightarrow> (\<And>p. p \<in> set ps \<Longrightarrow> m_opcode (h p) = m_opcode (g p))
    \<Longrightarrow> laid_out h off ps = laid_out g off ps"
  by (induction ps arbitrary: off) simp_all

lemma operand_bytes_length:
  assumes "op < 296" and "operand_ok P (op_flags op) a" and "\<not> is_branch op"
  shows "length (operand_bytes (operand_size op) a) = operand_size op"
  using assms by (cases a) (auto simp: is_branch_def)

lemma patch_other:
  assumes ok: "instr_ok P (heap s p)" and chunk: "chunk_laid (heap s p) c"
    and nb: "\<not> is_branch (m_opcode (heap s p))"
  shows "c = enc_instr (heap s) sb p"
    and "patch_instr p (tf, sb, buf, s) = Inr (tf, next_switch_base (heap s) p sb, buf, s)"
proof -
  let ?op = "m_opcode (heap s p)" and ?a = "m_arg (heap s p)"
  have op: "?op < 296" and a: "operand_ok P (op_flags ?op) ?a"
    using ok by (simp_all add: instr_ok_def)
  have nt: "?a \<noteq> Target t" for t using a nb by (cases ?a) (auto simp: is_branch_def)
  show "c = enc_instr (heap s) sb p"
    using chunk nb nt by (auto simp: chunk_laid_def enc_instr_def split: operand.split)
  show "patch_instr p (tf, sb, buf, s) = Inr (tf, next_switch_base (heap s) p sb, buf, s)"
  proof (cases "?op = CEE_SWITCH")
    case True
    then have "op_flags ?op = 32" using op_flags_cases(2) [OF op] by simp
    then show ?thesis using a True
      by (cases ?a) (auto simp: patch_instr_def next_switch_base_def Let_def)
  next
    case False
    then have f32: "op_flags ?op \<noteq> 32" using op_flags_cases(2) [OF op] by simp
    have "?op \<noteq> CEE_SWITCH_ARG" using nb op_flags_cases(4) [OF op] by (auto simp: is_branch_def)
    moreover have "and (op_flags ?op) OPCODEFLAGS_BranchTarget = 0"
      using op_flags_cases(1) [OF op] nb f32 by (auto simp: is_branch_def)
    ultimately show ?thesis using False
      by (simp add: patch_instr_def next_switch_base_def Let_def)
  qed
qed

lemma patch_branch:
  assumes ok: "instr_ok P (heap s p)" and chunk: "chunk_laid (heap s p) c"
    and br: "is_branch (m_opcode (heap s p))"
    and off: "m_offset (heap s p) = length pre"
    and nxt: "m_offset (heap s (m_pNext (heap s p))) = length pre + instr_size (m_opcode (heap s p))"
  shows "patch_instr p (tf, sb, pre @ c @ rest, s) =
    (if needs_widening (heap s) p then
       Inr (True, sb, pre @ c @ rest, set_opcode p (long_form (m_opcode (heap s p))) s)
     else Inr (tf, sb, pre @ enc_instr (heap s) sb p @ rest, s))"
proof -
  let ?op = "m_opcode (heap s p)" and ?a = "m_arg (heap s p)"
  let ?o = "opcode_bytes ?op"
  have op: "?op < 296" and a: "operand_ok P (op_flags ?op) ?a"
    using ok by (simp_all add: instr_ok_def)
  have fl: "op_flags ?op = 17 \<or> op_flags ?op = 20" using br by (simp add: is_branch_def)
  obtain t where t: "?a = Target t" using a fl by (cases ?a) auto
  have nsw: "?op \<noteq> CEE_SWITCH" using op_flags_cases(2) [OF op] fl by auto
  obtain x where c: "c = ?o @ x" "length x = operand_size ?op"
    using chunk by (auto simp: chunk_laid_def)
  have enc: "enc_instr (heap s) sb p = ?o @ le_bytes (operand_size ?op)
      (branch_delta (m_offset (heap s t)) (branch_base (heap s) sb p))"
    using br by (simp add: enc_instr_def t)
  have wr: "write_bytes (le_bytes (operand_size ?op) d) (length pre + length ?o) (pre @ c @ rest)
      = Inr (pre @ ?o @ le_bytes (operand_size ?op) d @ rest)" for d :: u32
    using write_bytes_mid [of "le_bytes (operand_size ?op) d" x "length pre + length ?o" "pre @ ?o" rest] c
    by simp
  show ?thesis
  proof (cases "?op = CEE_SWITCH_ARG")
    case True
    then have f: "op_flags ?op = 20" using op_flags_cases(4) [OF op] by simp
    have o: "?o = []" and sz: "operand_size ?op = 4"
      using True f by (simp_all add: opcode_bytes_def operand_size_def)
    have "\<not> needs_widening (heap s) p" by (simp add: needs_widening_def f)
    moreover have "patch_instr p (tf, sb, pre @ c @ rest, s)
        = Inr (tf, sb, pre @ le_bytes 4 (branch_delta (m_offset (heap s t)) sb) @ rest, s)"
      using wr [of "branch_delta (m_offset (heap s t)) sb", unfolded o sz] True off
      by (simp add: patch_instr_def t)
    ultimately show ?thesis
      using True unfolding enc o sz by (simp add: branch_base_def)
  next
    case False
    let ?d = "branch_delta (m_offset (heap s t)) (length pre + instr_size ?op)"
    have d: "target_delta (heap s) p = ?d" by (simp add: target_delta_def t nxt)
    have base: "branch_base (heap s) sb p = length pre + instr_size ?op"
      using False by (simp add: branch_base_def off)
    from fl show ?thesis
    proof
      assume f: "op_flags ?op = 17"
      then have sz: "operand_size ?op = 1" by (simp add: operand_size_flags [OF op])
      then have isz: "instr_size ?op = Suc (length ?o)" by (simp add: instr_size_def)
      show ?thesis
        using wr [of ?d] False nsw f long_form(1) [OF op f]
        by (simp add: patch_instr_def Let_def t nxt needs_widening_def d enc base sz isz)
    next
      assume f: "op_flags ?op = 20"
      then have sz: "operand_size ?op = 4" by (simp add: operand_size_flags [OF op])
      then have isz: "instr_size ?op = length ?o + 4" by (simp add: instr_size_def)
      show ?thesis
        using wr [of ?d] False nsw f
        by (simp add: patch_instr_def Let_def t nxt needs_widening_def d enc base sz isz)
    qed
  qed
qed

text \<open>The whole pass: either every short branch reaches its target and the buffer holds the
  encoding, or exactly the short branches that do not have been widened.\<close>

lemma laid_out_next:
  assumes "laid_out h off (p # ps)" and "linked h (p # ps @ [m_IL])"
  shows "m_offset (h (m_pNext (h p))) = off + instr_size (m_opcode (h p))"
  using assms by (cases ps) auto

lemma length_enc_instr:
  assumes "instr_ok P (h p)"
  shows "length (enc_instr h sb p) = instr_size (m_opcode (h p))"
  using assms operand_bytes_length [of "m_opcode (h p)" P "m_arg (h p)"]
  by (cases "m_arg (h p)") (auto simp: enc_instr_def instr_ok_def instr_size_def is_branch_def)

lemma patch_step:
  assumes ok: "instr_ok P (heap s p)" and chunk: "chunk_laid (heap s p) c"
    and lo: "laid_out (heap s) (length pre) (p # ps)" and li: "linked (heap s) (p # ps @ [m_IL])"
  shows "\<exists>sb' c'. length c' = length c
    \<and> patch_instr p (tf, sb, pre @ c @ rest, s)
      = Inr (tf \<or> needs_widening (heap s) p, sb', pre @ c' @ rest, widen_all [p] s)
    \<and> (\<not> needs_widening (heap s) p \<longrightarrow>
        c' = enc_instr (heap s) sb p \<and> sb' = next_switch_base (heap s) p sb)"
proof (cases "is_branch (m_opcode (heap s p))")
  case False
  then have "\<not> needs_widening (heap s) p" by (simp add: needs_widening_def is_branch_def)
  then show ?thesis
    using patch_other(1) [OF ok chunk False, of sb]
      patch_other(2) [OF ok chunk False, of tf sb "pre @ c @ rest"]
    by (intro exI [of _ "next_switch_base (heap s) p sb"] exI [of _ c]) simp
next
  case True
  have op: "m_opcode (heap s p) < 296" using ok by (simp add: instr_ok_def)
  have "m_opcode (heap s p) \<noteq> CEE_SWITCH"
    using op_flags_cases(2) [OF op] True by (auto simp: is_branch_def)
  then have sb: "next_switch_base (heap s) p sb = sb" by (simp add: next_switch_base_def)
  have len: "length (enc_instr (heap s) sb p) = length c"
    using length_enc_instr [where sb = sb and h = "heap s" and p = p, OF ok] chunk_laid_length [OF chunk] by simp
  have off: "m_offset (heap s p) = length pre" using lo by simp
  note pb = patch_branch [where tf = tf and sb = sb and rest = rest,
      OF ok chunk True off laid_out_next [OF lo li]]
  show ?thesis
  proof (cases "needs_widening (heap s) p")
    case True
    then show ?thesis using pb by (intro exI [of _ sb] exI [of _ c]) simp
  next
    case False
    then show ?thesis using pb sb len
      by (intro exI [of _ sb] exI [of _ "enc_instr (heap s) sb p"]) simp
  qed
qed

lemma widen_all_Cons: "widen_all (p # ps) s = widen_all ps (widen_all [p] s)"
  by simp

lemma widen_one_members:
  "m_arg (heap (widen_all [p] s) q) = m_arg (heap s q)"
  "m_pNext (heap (widen_all [p] s) q) = m_pNext (heap s q)"
  "m_pPrev (heap (widen_all [p] s) q) = m_pPrev (heap s q)"
  "m_offset (heap (widen_all [p] s) q) = m_offset (heap s q)"
  "q \<noteq> p \<Longrightarrow> m_opcode (heap (widen_all [p] s) q) = m_opcode (heap s q)"
  "q \<noteq> p \<Longrightarrow> needs_widening (heap (widen_all [p] s)) q \<longleftrightarrow> needs_widening (heap s) q"
  by simp_all

lemma foldE_patch:
  assumes "\<And>p. p \<in> set ps \<Longrightarrow> instr_ok P (heap s p)"
    and "list_all2 (\<lambda>p c. chunk_laid (heap s p) c) ps cs"
    and "laid_out (heap s) (length pre) ps" and "linked (heap s) (ps @ [m_IL])" and "distinct ps"
  shows "\<exists>sb' buf'. length buf' = length (concat cs)
    \<and> foldE patch_instr ps (tf, sb, pre @ concat cs @ rest, s)
      = Inr (tf \<or> (\<exists>p \<in> set ps. needs_widening (heap s) p), sb', pre @ buf' @ rest, widen_all ps s)
    \<and> ((\<forall>p \<in> set ps. \<not> needs_widening (heap s) p) \<longrightarrow> buf' = enc_code (heap s) sb ps)"
  using assms
proof (induction ps arbitrary: pre cs tf sb s)
  case (Cons p ps)
  obtain c cs' where cs: "cs = c # cs'" "chunk_laid (heap s p) c"
    "list_all2 (\<lambda>p c. chunk_laid (heap s p) c) ps cs'"
    using Cons.prems(2) by (auto simp: list_all2_Cons1)
  have li: "linked (heap s) (p # ps @ [m_IL])" using Cons.prems(4) by simp
  from patch_step [of P s p c pre ps tf sb "concat cs' @ rest", OF _ cs(2) Cons.prems(3) li]
    Cons.prems(1)
  obtain sb' c' where len: "length c' = length c"
    and step: "patch_instr p (tf, sb, pre @ c @ concat cs' @ rest, s)
      = Inr (tf \<or> needs_widening (heap s) p, sb', pre @ c' @ concat cs' @ rest, widen_all [p] s)"
    and enc: "\<not> needs_widening (heap s) p \<Longrightarrow>
      c' = enc_instr (heap s) sb p \<and> sb' = next_switch_base (heap s) p sb"
    by auto
  let ?s = "widen_all [p] s"
  have np: "q \<noteq> p" if "q \<in> set ps" for q using that Cons.prems(5) by auto
  have "\<exists>sb'' buf'. length buf' = length (concat cs')
    \<and> foldE patch_instr ps (tf \<or> needs_widening (heap s) p, sb', (pre @ c') @ concat cs' @ rest, ?s)
      = Inr ((tf \<or> needs_widening (heap s) p) \<or> (\<exists>q \<in> set ps. needs_widening (heap ?s) q), sb'',
          (pre @ c') @ buf' @ rest, widen_all ps ?s)
    \<and> ((\<forall>q \<in> set ps. \<not> needs_widening (heap ?s) q) \<longrightarrow> buf' = enc_code (heap ?s) sb' ps)"
  proof (rule Cons.IH)
    show "instr_ok P (heap ?s q)" if "q \<in> set ps" for q
      using Cons.prems(1) [of q] np [OF that] that by (simp add: instr_ok_def)
    show "list_all2 (\<lambda>p c. chunk_laid (heap ?s p) c) ps cs'"
      using cs(3) np by (auto simp: list_all2_conv_all_nth chunk_laid_def)
    have "laid_out (heap ?s) (length pre + instr_size (m_opcode (heap s p))) ps
        \<longleftrightarrow> laid_out (heap s) (length pre + instr_size (m_opcode (heap s p))) ps"
      by (rule laid_out_cong) (use np in auto)
    then show "laid_out (heap ?s) (length (pre @ c')) ps"
      using Cons.prems(3) len chunk_laid_length [OF cs(2)] by simp
    have "linked (heap ?s) (ps @ [m_IL]) \<longleftrightarrow> linked (heap s) (ps @ [m_IL])"
      by (rule linked_cong) simp_all
    then show "linked (heap ?s) (ps @ [m_IL])" using li by (cases ps) auto
    show "distinct ps" using Cons.prems(5) by simp
  qed
  moreover have "(\<exists>q \<in> set ps. needs_widening (heap ?s) q) \<longleftrightarrow> (\<exists>q \<in> set ps. needs_widening (heap s) q)"
    using np by (intro bex_cong refl widen_one_members(6))
  moreover have "(\<forall>q \<in> set ps. \<not> needs_widening (heap ?s) q) \<longleftrightarrow> (\<forall>q \<in> set ps. \<not> needs_widening (heap s) q)"
    using calculation(2) by blast
  ultimately obtain sb'' buf' where len': "length buf' = length (concat cs')"
    and rest: "foldE patch_instr ps (tf \<or> needs_widening (heap s) p, sb', pre @ c' @ concat cs' @ rest, ?s)
      = Inr ((tf \<or> needs_widening (heap s) p) \<or> (\<exists>q \<in> set ps. needs_widening (heap s) q), sb'',
          pre @ c' @ buf' @ rest, widen_all ps ?s)"
    and enc': "\<forall>q \<in> set ps. \<not> needs_widening (heap s) q \<Longrightarrow> buf' = enc_code (heap ?s) sb' ps"
    unfolding append_assoc by (elim exE conjE) (rule that, assumption, simp, blast)
  have "c' @ buf' = enc_code (heap s) sb (p # ps)" if "\<forall>q \<in> set (p # ps). \<not> needs_widening (heap s) q"
    using that enc enc' by simp
  moreover have "foldE patch_instr (p # ps) (tf, sb, pre @ concat cs @ rest, s)
      = Inr (tf \<or> (\<exists>q \<in> set (p # ps). needs_widening (heap s) q), sb'', pre @ (c' @ buf') @ rest,
          widen_all (p # ps) s)"
    unfolding cs(1) foldE.simps concat.simps append_assoc step bindE_Inr rest widen_all_Cons [of p ps]
    by (simp only: disj_assoc set_simps bex_simps(5) insert_iff)
  ultimately show ?case
    using len len' by (intro exI [of _ sb''] exI [of _ "c' @ buf'"] conjI) (simp_all add: cs(1))
qed simp

section \<open>Both passes, until every branch fits\<close>

text \<open>The outcome of \<open>Export\<close>'s loop: lay out, widen the branches that do not fit, again.\<close>

fun settle :: "nat \<Rightarrow> ptr list \<Rightarrow> ILRewriter \<Rightarrow> ILRewriter" where
  "settle 0 ps s = s"
| "settle (Suc k) ps s =
     (let s = lay_out ps s
      in if list_ex (needs_widening (heap s)) ps then settle k ps (widen_all ps s) else s)"

abbreviation is_short :: "ILRewriter \<Rightarrow> ptr \<Rightarrow> bool" where
  "is_short s p \<equiv> op_flags (m_opcode (heap s p)) = 17"

lemma il_wf_set_offset [simp]: "il_wf (set_offset p n s) ps \<longleftrightarrow> il_wf s ps"
  by (simp add: il_wf_def) (simp add: frame_simps)

lemma il_wf_assign_offsets [simp]: "il_wf (assign_offsets off qs s) ps \<longleftrightarrow> il_wf s ps"
  by (induction qs arbitrary: off s) simp_all

lemma lay_out_members [simp]:
  "m_opcode (heap (lay_out qs s) q) = m_opcode (heap s q)"
  "m_arg (heap (lay_out qs s) q) = m_arg (heap s q)"
  "m_pNext (heap (lay_out qs s) q) = m_pNext (heap s q)"
  "m_pPrev (heap (lay_out qs s) q) = m_pPrev (heap s q)"
  "il_wf (lay_out qs s) ps \<longleftrightarrow> il_wf s ps"
  "code_size (heap (lay_out qs s)) ps = code_size (heap s) ps"
  by (simp_all add: lay_out_def)

lemma widen_all_members [simp]:
  "m_arg (heap (widen_all qs s) q) = m_arg (heap s q)"
  "m_pNext (heap (widen_all qs s) q) = m_pNext (heap s q)"
  "m_pPrev (heap (widen_all qs s) q) = m_pPrev (heap s q)"
  "m_offset (heap (widen_all qs s) q) = m_offset (heap s q)"
  "q \<notin> set qs \<Longrightarrow> m_opcode (heap (widen_all qs s) q) = m_opcode (heap s q)"
  by (induction qs arbitrary: s) simp_all

lemma il_wf_set_opcode:
  assumes "il_wf s ps" and "op_flags (m_opcode (heap s p)) = 17" and "p \<in> set ps"
  shows "il_wf (set_opcode p (long_form (m_opcode (heap s p))) s) ps"
proof -
  have ok: "instr_ok (insert m_IL (set ps)) (heap s p)"
    using assms by (simp add: il_wf_def)
  then have op: "m_opcode (heap s p) < 296" by (simp add: instr_ok_def)
  note lf = long_form [OF op assms(2)]
  have "instr_ok (insert m_IL (set ps)) (heap (set_opcode p (long_form (m_opcode (heap s p))) s) q)"
    if "instr_ok (insert m_IL (set ps)) (heap s q)" for q
    using that ok lf assms(2)
    by (cases "m_arg (heap s p)") (auto simp: instr_ok_def)
  with assms(1) show ?thesis
    by (simp add: il_wf_def) (simp add: frame_simps)
qed

lemma il_wf_widen_all:
  assumes "il_wf s ps" and "set qs \<subseteq> set ps"
  shows "il_wf (widen_all qs s) ps"
  using assms
  by (induction qs arbitrary: s) (auto simp: needs_widening_def il_wf_set_opcode)

text \<open>Every retry has fewer short branches.\<close>

lemma widen_all_shorts:
  assumes "il_wf s ps" and "set qs \<subseteq> set ps" and "distinct qs"
  shows "filter (is_short (widen_all qs s)) qs
    = filter (\<lambda>p. is_short s p \<and> \<not> needs_widening (heap s) p) qs"
  using assms
proof (induction qs arbitrary: s)
  case (Cons q qs)
  let ?s = "widen_all [q] s"
  have wf: "il_wf ?s ps" using Cons.prems by (intro il_wf_widen_all) auto
  have IH: "filter (is_short (widen_all qs ?s)) qs
      = filter (\<lambda>p. is_short ?s p \<and> \<not> needs_widening (heap ?s) p) qs"
    using Cons.IH [OF wf] Cons.prems by simp
  have eq: "filter (\<lambda>p. is_short ?s p \<and> \<not> needs_widening (heap ?s) p) qs
      = filter (\<lambda>p. is_short s p \<and> \<not> needs_widening (heap s) p) qs"
    using Cons.prems(3) by (intro filter_cong) auto
  have "m_opcode (heap s q) < 296"
    using Cons.prems by (auto simp: il_wf_def instr_ok_def)
  then have "is_short ?s q \<longleftrightarrow> is_short s q \<and> \<not> needs_widening (heap s) q"
    using long_form(2) [of "m_opcode (heap s q)"] by (auto simp: needs_widening_def)
  moreover have "is_short (widen_all qs ?s) q \<longleftrightarrow> is_short ?s q"
    using Cons.prems(3) widen_all_members(5) [of q qs ?s] by simp
  ultimately show ?case
    unfolding widen_all_Cons [of q qs] filter.simps IH eq by simp
qed simp

lemma fewer_shorts:
  assumes "il_wf s ps" and "list_ex (needs_widening (heap s)) ps"
  shows "length (filter (is_short (widen_all ps s)) ps) < length (filter (is_short s) ps)"
proof -
  have "distinct ps" using assms(1) by (simp add: il_wf_def il_ring_def)
  note eq = widen_all_shorts [OF assms(1) subset_refl this]
  have "filter (\<lambda>p. is_short s p \<and> \<not> needs_widening (heap s) p) ps
      = filter (\<lambda>p. \<not> needs_widening (heap s) p) (filter (is_short s) ps)"
    by (simp add: conj_commute)
  moreover have "\<exists>p \<in> set (filter (is_short s) ps). needs_widening (heap s) p"
    using assms(2) by (auto simp: list_ex_iff needs_widening_def)
  ultimately show ?thesis
    unfolding eq by (metis length_filter_less)
qed

lemma length_enc_code:
  assumes "\<And>p. p \<in> set ps \<Longrightarrow> instr_ok P (h p)"
  shows "length (enc_code h sb ps) = code_size h ps"
  using assms
  by (induction ps arbitrary: sb) (auto intro!: length_enc_instr [where P = P])

lemma concat_chunks_length:
  "list_all2 (\<lambda>p c. chunk_laid (h p) c) ps cs \<Longrightarrow> length (concat cs) = code_size h ps"
  by (induction rule: list_all2_induct) (auto dest: chunk_laid_length)

text \<open>Without branches the layout pass alone writes the encoding.\<close>

lemma chunks_no_branch:
  fixes s :: ILRewriter
  assumes "list_all2 (\<lambda>p c. chunk_laid (heap s p) c) ps cs"
    and "\<And>p. p \<in> set ps \<Longrightarrow> instr_ok P (heap s p) \<and> \<not> is_branch (m_opcode (heap s p))"
  shows "concat cs = enc_code (heap s) sb ps"
  using assms
proof (induction ps arbitrary: sb cs)
  case (Cons p ps)
  then obtain c cs' where "cs = c # cs'" "chunk_laid (heap s p) c"
    "list_all2 (\<lambda>p c. chunk_laid (heap s p) c) ps cs'"
    by (auto simp: list_all2_Cons1)
  with Cons show ?case using patch_other(1) [of P s p c sb] by simp
qed simp

lemma layout_pass_correct:
  assumes wf: "il_wf s ps" and size: "10 * length ps \<le> maxSize" "maxSize + 10 < 4294967296"
    and buf: "length buf = maxSize"
  shows "\<exists>cs rest. list_all2 (\<lambda>p c. chunk_laid (heap (lay_out ps s) p) c) ps cs
    \<and> length (concat cs @ rest) = maxSize
    \<and> layout_pass maxSize buf ps s
      = Inr (code_size (heap s) ps, list_ex (\<lambda>p. is_branch (m_opcode (heap s p))) ps,
          concat cs @ rest, lay_out ps s)"
proof -
  have ok: "p \<in> set ps \<Longrightarrow> instr_ok (insert m_IL (set ps)) (heap s p)" for p
    using wf by (simp add: il_wf_def)
  have "code_size (heap s) ps \<le> length buf"
    using code_size_le [of ps "heap s"] ok size(1) buf by (force simp: instr_ok_def)
  from foldE_layout [OF ok _ this, of "[]" maxSize False] size obtain cs where
    cs: "list_all2 (\<lambda>p c. chunk_laid (heap s p) c) ps cs"
    and run: "foldE (layout_instr maxSize) ps (0, False, buf, s)
      = Inr (code_size (heap s) ps, (\<exists>p \<in> set ps. is_branch (m_opcode (heap s p))),
          concat cs @ drop (code_size (heap s) ps) buf, assign_offsets 0 ps s)"
    by auto
  have "list_all2 (\<lambda>p c. chunk_laid (heap (lay_out ps s) p) c) ps cs"
    using cs by (simp add: chunk_laid_def)
  moreover have "length (concat cs @ drop (code_size (heap s) ps) buf) = maxSize"
    using concat_chunks_length [OF cs] \<open>code_size (heap s) ps \<le> length buf\<close> buf by simp
  ultimately show ?thesis
    using run by (intro exI [of _ cs] exI [of _ "drop (code_size (heap s) ps) buf"])
      (simp add: layout_pass_def lay_out_def list_ex_iff)
qed

definition settled :: "ILRewriter \<Rightarrow> ptr list \<Rightarrow> bool" where
  "settled s ps \<longleftrightarrow> il_wf s ps \<and> laid_out (heap s) 0 ps \<and> \<not> list_ex (needs_widening (heap s)) ps"

lemma il_ring_linked:
  assumes "il_ring s ps"
  shows "linked (heap s) (ps @ [m_IL])"
  using assms unfolding il_ring_def by (cases ps) auto

text \<open>One round of the loop.\<close>

lemma code_round:
  assumes wf: "il_wf s ps" and size: "10 * length ps \<le> maxSize" "maxSize + 10 < 4294967296"
    and buf: "length buf = maxSize"
  shows "\<exists>buf'. length buf' = maxSize
    \<and> code_passes (Suc k) maxSize buf ps s =
      (if list_ex (needs_widening (heap (lay_out ps s))) ps
       then code_passes k maxSize buf' ps (widen_all ps (lay_out ps s))
       else Inr (code_size (heap (lay_out ps s)) ps, buf', lay_out ps s))
    \<and> (\<not> list_ex (needs_widening (heap (lay_out ps s))) ps
        \<longrightarrow> (\<exists>rest. buf' = enc_code (heap (lay_out ps s)) 0 ps @ rest))"
proof -
  let ?s = "lay_out ps s"
  have wf': "il_wf ?s ps" using wf by simp
  then have ring: "il_ring ?s ps"
    and ok: "p \<in> set ps \<Longrightarrow> instr_ok (insert m_IL (set ps)) (heap ?s p)" for p
    by (simp_all add: il_wf_def)
  then have d: "distinct (m_IL # ps)" by (simp add: il_ring_def)
  from layout_pass_correct [OF wf size buf] obtain cs rest where
    cs: "list_all2 (\<lambda>p c. chunk_laid (heap ?s p) c) ps cs" "length (concat cs @ rest) = maxSize"
    and lp: "layout_pass maxSize buf ps s = Inr (code_size (heap s) ps,
      list_ex (\<lambda>p. is_branch (m_opcode (heap s p))) ps, concat cs @ rest, ?s)"
    by blast
  show ?thesis
  proof (cases "list_ex (\<lambda>p. is_branch (m_opcode (heap s p))) ps")
    case False
    then have "concat cs = enc_code (heap ?s) 0 ps"
      using ok by (intro chunks_no_branch [OF cs(1)]) (auto simp: list_ex_iff)
    moreover have "\<not> list_ex (needs_widening (heap ?s)) ps"
      using False by (auto simp: list_ex_iff needs_widening_def is_branch_def)
    ultimately show ?thesis
      using cs(2) lp False by (intro exI [of _ "concat cs @ rest"]) auto
  next
    case True
    have lo: "laid_out (heap ?s) (length []) ps" using laid_out_lay_out [OF d] by simp
    from foldE_patch [OF ok cs(1) lo il_ring_linked [OF ring], of False 0 rest] d
    obtain sb' buf' where "length buf' = length (concat cs)"
      and "foldE patch_instr ps (False, 0, concat cs @ rest, ?s)
        = Inr ((\<exists>p \<in> set ps. needs_widening (heap ?s) p), sb', buf' @ rest, widen_all ps ?s)"
      and "(\<forall>p \<in> set ps. \<not> needs_widening (heap ?s) p) \<longrightarrow> buf' = enc_code (heap ?s) 0 ps"
      by auto
    moreover have "widen_all ps ?s = ?s" if "\<forall>p \<in> set qs. \<not> needs_widening (heap ?s) p"
      and "qs = ps" for qs
    proof -
      have "widen_all qs ?s = ?s" if "\<forall>p \<in> set qs. \<not> needs_widening (heap ?s) p" for qs
        using that by (induction qs) auto
      then show ?thesis using that by simp
    qed
    ultimately show ?thesis
      using cs(2) lp True
      by (intro exI [of _ "buf' @ rest"]) (auto simp: list_ex_iff)
  qed
qed

lemma code_passes_settle:
  assumes "il_wf s ps" and "10 * length ps \<le> maxSize" "maxSize + 10 < 4294967296"
    and "length buf = maxSize" and "length (filter (is_short s) ps) < k"
  shows "settled (settle k ps s) ps
    \<and> (\<exists>rest. code_passes k maxSize buf ps s
      = Inr (code_size (heap (settle k ps s)) ps, enc_code (heap (settle k ps s)) 0 ps @ rest,
          settle k ps s))"
  using assms
proof (induction k arbitrary: s buf)
  case (Suc k)
  let ?s = "lay_out ps s"
  have wf: "il_wf ?s ps" using Suc.prems(1) by simp
  have d: "distinct (m_IL # ps)" using Suc.prems(1) by (simp add: il_wf_def il_ring_def)
  from code_round [OF Suc.prems(1-4), of k] obtain buf' where buf': "length buf' = maxSize"
    and run: "code_passes (Suc k) maxSize buf ps s =
      (if list_ex (needs_widening (heap ?s)) ps
       then code_passes k maxSize buf' ps (widen_all ps ?s)
       else Inr (code_size (heap ?s) ps, buf', ?s))"
    and enc: "\<not> list_ex (needs_widening (heap ?s)) ps
        \<longrightarrow> (\<exists>rest. buf' = enc_code (heap ?s) 0 ps @ rest)"
    by blast
  show ?case
  proof (cases "list_ex (needs_widening (heap ?s)) ps")
    case True
    have "length (filter (is_short (widen_all ps ?s)) ps) < k"
      using fewer_shorts [OF wf True] Suc.prems(5) by simp
    from Suc.IH [OF il_wf_widen_all [OF wf subset_refl] Suc.prems(2,3) buf' this]
    show ?thesis using True run by simp
  next
    case False
    then show ?thesis using run enc wf laid_out_lay_out [OF d, of s] by (auto simp: settled_def)
  qed
qed simp

definition export_state :: "ptr list \<Rightarrow> ILRewriter \<Rightarrow> ILRewriter" where
  "export_state ps s = settle (Suc (length ps)) ps s"

lemma ExportCode_raw:
  assumes wf: "il_wf s ps" and size: "10 * m_nInstrs s + 10 < 4294967296"
    and new: "\<And>n. length (new n) = n"
  shows "settled (export_state ps s) ps"
    and "ExportCode new s = Inr (enc_code (heap (export_state ps s)) 0 ps, export_state ps s)"
proof -
  have nodes: "il_nodes s = Inr ps" using wf by (simp add: il_wf_def il_nodes_ring)
  have max: "w32 (m_nInstrs s * 10) = 10 * m_nInstrs s" using size by simp
  have "10 * length ps \<le> 10 * m_nInstrs s" using wf by (simp add: il_wf_def)
  moreover have "length (filter (is_short s) ps) < Suc (length ps)"
    by (simp add: le_imp_less_Suc)
  ultimately have *: "settled (export_state ps s) ps
    \<and> (\<exists>rest. code_passes (Suc (length ps)) (10 * m_nInstrs s) (new (10 * m_nInstrs s)) ps s
      = Inr (code_size (heap (export_state ps s)) ps,
          enc_code (heap (export_state ps s)) 0 ps @ rest, export_state ps s))"
    unfolding export_state_def using size by (intro code_passes_settle wf new)
  then show "settled (export_state ps s) ps" by simp
  then have "length (enc_code (heap (export_state ps s)) 0 ps) = code_size (heap (export_state ps s)) ps"
    by (intro length_enc_code [where P = "insert m_IL (set ps)"]) (simp add: settled_def il_wf_def)
  with * show "ExportCode new s = Inr (enc_code (heap (export_state ps s)) 0 ps, export_state ps s)"
    by (auto simp: ExportCode_def max nodes Let_def simp del: code_passes.simps)
qed

text \<open>In a settled state a branch operand, read back and added to its base, is the offset of
  the target.\<close>


lemma short_branch_reaches:
  assumes "settled s ps" and "p \<in> set ps" and "is_short s p" and "m_arg (heap s p) = Target t"
  shows "of_nat (m_offset (heap s (m_pNext (heap s p))))
      + (scast (ucast (branch_delta (m_offset (heap s t)) (m_offset (heap s (m_pNext (heap s p))))) :: byte) :: u32)
    = of_nat (m_offset (heap s t))"
proof -
  have "fits_int8 (target_delta (heap s) p)"
    using assms by (auto simp: settled_def list_ex_iff needs_widening_def)
  then show ?thesis using assms(4) by (simp add: target_delta_def fits_int8_def branch_delta_def)
qed

end
