(* ===== verification/ILRoundTrip.thy ===== *)
theory ILRoundTrip
  imports ILImport ILEncoding
begin

text \<open>
  What \<open>ImportIL\<close> builds. On success the ring holds one node per instruction of the method
  body (and one per \<open>switch\<close> target), in order, well formed for \<open>Export\<close>; and exporting it
  unchanged gives back the bytes that were imported. On failure the code returns
  \<open>COR_E_INVALIDPROGRAM\<close>, and it never reads outside of the method body.
\<close>

section \<open>Little-endian words\<close>

lemma bit_le_word: "bit (le_word bs :: 'a::len word) i \<Longrightarrow> i < 8 * length bs"
proof (induction bs arbitrary: i)
  case (Cons b bs)
  from Cons.prems consider "bit (ucast b :: 'a word) i"
    | "8 \<le> i" "bit (le_word bs :: 'a word) (i - 8)"
    by (auto simp: bit_or_iff bit_push_bit_iff)
  then show ?case
  proof cases
    case 1
    then have "bit b i" by (simp add: bit_ucast_iff)
    then show ?thesis using bit_imp_le_length [of b i] by simp
  next
    case 2
    then show ?thesis using Cons.IH [of "i - 8"] by simp
  qed
qed simp

lemma le_bytes_word:
  assumes "8 * length bs \<le> LENGTH('a::len)"
  shows "le_bytes (length bs) (le_word bs :: 'a word) = bs"
  using assms
proof (induction bs)
  case (Cons b bs)
  let ?w = "le_word bs :: 'a word"
  have bits: "bit b i \<Longrightarrow> i < 8" for i using bit_imp_le_length [of b i] by simp
  have "ucast (ucast b OR push_bit 8 ?w) = b"
    using Cons.prems by (intro bit_word_eqI) (auto simp: bit_simps)
  moreover have "drop_bit 8 (ucast b OR push_bit 8 ?w) = ?w"
  proof (rule bit_word_eqI)
    fix i assume "i < LENGTH('a)"
    have "bit ?w i \<Longrightarrow> i + 8 < LENGTH('a)" using bit_le_word [of bs i, where 'a = 'a] Cons.prems by simp
    then show "bit (drop_bit 8 (ucast b OR push_bit 8 ?w)) i = bit ?w i"
      using bits [of "i + 8"] by (auto simp: bit_simps ac_simps)
  qed
  ultimately show ?case using Cons by simp
qed simp

lemma le_bytes_word':
  "length bs = n \<Longrightarrow> 8 * n \<le> LENGTH('a::len) \<Longrightarrow> le_bytes n (le_word bs :: 'a word) = bs"
  using le_bytes_word [of bs] by auto

lemma sign_extend_byte:
  "ucast (scast (v :: byte) :: u32) = v" "fits_int8 (scast v)"
proof -
  show "ucast (scast v :: u32) = v"
    by (rule bit_word_eqI) (simp add: bit_simps)
  then show "fits_int8 (scast v)" by (simp add: fits_int8_def)
qed

section \<open>The imported form\<close>

text \<open>While the bytes are read, a branch holds the absolute offset of its target. The
  encoding of a list of instructions in this form, from an offset and a switch base.\<close>

type_synonym raw = "(nat \<times> operand) list"

definition raw_delta :: "nat \<Rightarrow> nat \<Rightarrow> nat \<Rightarrow> u32 \<Rightarrow> u32" where
  "raw_delta op off sb v = v - of_nat (if op = CEE_SWITCH_ARG then sb else off + instr_size op)"

definition raw_instr :: "nat \<Rightarrow> operand \<Rightarrow> nat \<Rightarrow> nat \<Rightarrow> byte list" where
  "raw_instr op a off sb = opcode_bytes op @
     (if is_branch op then
        (case a of Arg32 v \<Rightarrow> le_bytes (operand_size op) (raw_delta op off sb v) | _ \<Rightarrow> [])
      else operand_bytes (operand_size op) a)"

definition raw_base :: "nat \<Rightarrow> operand \<Rightarrow> nat \<Rightarrow> nat \<Rightarrow> nat" where
  "raw_base op a off sb =
     (if op = CEE_SWITCH then
        (case a of Arg32 v \<Rightarrow> w32 (off + 1 + 4 * unat (v + 1)) | _ \<Rightarrow> w32 (off + 1 + 4))
      else sb)"

fun raw_code :: "raw \<Rightarrow> nat \<Rightarrow> nat \<Rightarrow> byte list" where
  "raw_code [] off sb = []"
| "raw_code ((op, a) # rs) off sb =
     raw_instr op a off sb @ raw_code rs (off + instr_size op) (raw_base op a off sb)"

fun raw_sb :: "raw \<Rightarrow> nat \<Rightarrow> nat \<Rightarrow> nat" where
  "raw_sb [] off sb = sb"
| "raw_sb ((op, a) # rs) off sb = raw_sb rs (off + instr_size op) (raw_base op a off sb)"

definition raw_ok :: "nat \<Rightarrow> operand \<Rightarrow> nat \<Rightarrow> bool" where
  "raw_ok op a off \<longleftrightarrow> op < 296 \<and> op \<noteq> CEE_COUNT
     \<and> (if is_branch op then
          (\<exists>v. a = Arg32 v \<and> (op_flags op = 17 \<longrightarrow> fits_int8 (v - of_nat (off + instr_size op))))
        else operand_ok {} (op_flags op) a)"

fun raw_wf :: "raw \<Rightarrow> nat \<Rightarrow> bool" where
  "raw_wf [] off \<longleftrightarrow> True"
| "raw_wf ((op, a) # rs) off \<longleftrightarrow> raw_ok op a off \<and> raw_wf rs (off + instr_size op)"

abbreviation raw_size :: "raw \<Rightarrow> nat" where
  "raw_size rs \<equiv> sum_list (map (instr_size \<circ> fst) rs)"

lemma raw_append [simp]:
  "raw_code (rs @ js) off sb = raw_code rs off sb @ raw_code js (off + raw_size rs) (raw_sb rs off sb)"
  "raw_sb (rs @ js) off sb = raw_sb js (off + raw_size rs) (raw_sb rs off sb)"
  "raw_wf (rs @ js) off \<longleftrightarrow> raw_wf rs off \<and> raw_wf js (off + raw_size rs)"
  by (induction rs off sb rule: raw_code.induct) (auto simp: add.assoc)

definition il_list :: "ILRewriter \<Rightarrow> ptr list \<Rightarrow> raw" where
  "il_list s ps = map (\<lambda>p. (m_opcode (heap s p), m_arg (heap s p))) ps"

lemma il_list_append [simp]: "il_list s (ps @ qs) = il_list s ps @ il_list s qs"
  by (simp add: il_list_def)

lemma raw_size_il_list: "raw_size (il_list s ps) = code_size (heap s) ps"
  by (simp add: il_list_def code_size_def comp_def)

lemma il_list_cong:
  "(\<And>p. p \<in> set ps \<Longrightarrow> m_opcode (heap s p) = m_opcode (heap t p) \<and> m_arg (heap s p) = m_arg (heap t p))
    \<Longrightarrow> il_list s ps = il_list t ps"
  by (simp add: il_list_def)

section \<open>The invariant of the import loop\<close>

definition starts_at :: "(ptr \<Rightarrow> ILInstr) \<Rightarrow> ptr list \<Rightarrow> ptr \<Rightarrow> nat \<Rightarrow> bool" where
  "starts_at h ps p off \<longleftrightarrow> (\<exists>as bs. ps = as @ p # bs \<and> code_size h as = off)"

text \<open>The offsets below \<open>CodeSize\<close> map to the instruction that starts there, the offset
  \<open>CodeSize\<close> to the anchor.\<close>

definition table_ok :: "ILRewriter \<Rightarrow> ptr list \<Rightarrow> bool" where
  "table_ok s ps \<longleftrightarrow> length (m_pOffsetToInstr s) = Suc (m_CodeSize s)
     \<and> m_pOffsetToInstr s ! m_CodeSize s = Some m_IL
     \<and> (\<forall>o' < m_CodeSize s. \<forall>p. m_pOffsetToInstr s ! o' = Some p \<longrightarrow> starts_at (heap s) ps p o')"

text \<open>The members that \<open>ImportIL\<close> does not write, and the stack estimate.\<close>

definition same_members :: "ILRewriter \<Rightarrow> ILRewriter \<Rightarrow> bool" where
  "same_members s s' \<longleftrightarrow> m_CodeSize s' = m_CodeSize s \<and> m_tkLocalVarSig s' = m_tkLocalVarSig s
     \<and> m_flags s' = m_flags s \<and> m_fGenerateTinyHeader s' = m_fGenerateTinyHeader s
     \<and> m_pEH s' = m_pEH s \<and> m_nEH s' = m_nEH s"

definition stack_pushes :: "raw \<Rightarrow> nat" where
  "stack_pushes rs = sum_list (map (\<lambda>(op, a). k_rgnStackPushes ! op) rs)"

definition imported :: "byte list \<Rightarrow> ILRewriter \<Rightarrow> nat \<Rightarrow> ILRewriter \<Rightarrow> ptr list \<Rightarrow> bool" where
  "imported pIL s0 off s ps \<longleftrightarrow> il_ring s ps \<and> same_members s0 s
     \<and> m_maxStack s = w32 (m_maxStack s0 + stack_pushes (il_list s ps)) \<and> m_nInstrs s = length ps \<and> length ps \<le> off
     \<and> off = code_size (heap s) ps \<and> off \<le> m_CodeSize s
     \<and> raw_code (il_list s ps) 0 0 = take off pIL \<and> raw_wf (il_list s ps) 0 \<and> table_ok s ps"

abbreviation switch_base :: "ILRewriter \<Rightarrow> ptr list \<Rightarrow> nat" where
  "switch_base s ps \<equiv> raw_sb (il_list s ps) 0 0"

lemma instr_size_pos: "op < 296 \<Longrightarrow> op \<noteq> CEE_COUNT \<Longrightarrow> 0 < instr_size op"
  using op_flags_cases(4) [of op]
  by (cases "op < CEE_COUNT") (auto simp: instr_size_def opcode_bytes_def operand_size_def)

lemma starts_at_snoc:
  assumes "starts_at h ps p off" and "\<And>q. q \<in> set ps \<Longrightarrow> m_opcode (g q) = m_opcode (h q)"
  shows "starts_at g (ps @ [x]) p off"
proof -
  obtain as bs where ps: "ps = as @ p # bs" "code_size h as = off"
    using assms(1) by (auto simp: starts_at_def)
  have "code_size g as = off"
    using ps assms(2) code_size_cong [of as g h] by simp
  then show ?thesis using ps unfolding starts_at_def by (intro exI [of _ as] exI [of _ "bs @ [x]"]) simp
qed

text \<open>One more node.\<close>

lemma imported_snoc:
  assumes I: "imported pIL s0 off s ps" and ring: "il_ring s' (ps @ [x])"
    and same: "\<And>p. p \<in> set ps \<Longrightarrow>
      m_opcode (heap s' p) = m_opcode (heap s p) \<and> m_arg (heap s' p) = m_arg (heap s p)"
    and x: "m_opcode (heap s' x) = op" "m_arg (heap s' x) = a"
    and frame: "same_members s s'" "m_nInstrs s' = Suc (m_nInstrs s)"
      "m_maxStack s' = w32 (m_maxStack s + k_rgnStackPushes ! op)"
    and table: "m_pOffsetToInstr s' = m_pOffsetToInstr s
      \<or> off < m_CodeSize s \<and> m_pOffsetToInstr s' = (m_pOffsetToInstr s)[off := Some x]"
    and ok: "raw_ok op a off" and le: "off + instr_size op \<le> m_CodeSize s"
    and bytes: "take (off + instr_size op) pIL = take off pIL @ raw_instr op a off (switch_base s ps)"
  shows "imported pIL s0 (off + instr_size op) s' (ps @ [x])
    \<and> switch_base s' (ps @ [x]) = raw_base op a off (switch_base s ps)"
proof -
  have I': "m_nInstrs s = length ps" "length ps \<le> off" "off = code_size (heap s) ps"
    "raw_code (il_list s ps) 0 0 = take off pIL" "raw_wf (il_list s ps) 0" "table_ok s ps"
    "same_members s0 s" "m_maxStack s = w32 (m_maxStack s0 + stack_pushes (il_list s ps))"
    using I by (simp_all add: imported_def)
  have N: "m_CodeSize s' = m_CodeSize s" using frame(1) by (simp add: same_members_def)
  have "same_members s0 s'" using frame(1) I'(7) by (simp add: same_members_def)
  have list: "il_list s' ps = il_list s ps" by (rule il_list_cong) (use same in blast)
  have lx: "il_list s' [x] = [(op, a)]" by (simp add: il_list_def x)
  have off: "raw_size (il_list s ps) = off" by (simp add: raw_size_il_list I'(3))
  have size: "code_size (heap s') (ps @ [x]) = off + instr_size op"
    using off x by (simp add: raw_size_il_list [symmetric] list)
  have pos: "0 < instr_size op" using ok by (intro instr_size_pos) (simp_all add: raw_ok_def)
  have "switch_base s' (ps @ [x]) = raw_base op a off (switch_base s ps)"
    using off by (simp add: list lx)
  moreover have "table_ok s' (ps @ [x])"
    unfolding table_ok_def N
  proof (intro conjI allI impI)
    show "length (m_pOffsetToInstr s') = Suc (m_CodeSize s)"
      using I'(6) table by (auto simp: table_ok_def)
    show "m_pOffsetToInstr s' ! m_CodeSize s = Some m_IL"
      using I'(6) table by (auto simp: table_ok_def)
    fix o' p assume o': "o' < m_CodeSize s" and p: "m_pOffsetToInstr s' ! o' = Some p"
    show "starts_at (heap s') (ps @ [x]) p o'"
    proof (cases "m_pOffsetToInstr s ! o' = Some p")
      case True
      then have "starts_at (heap s) ps p o'" using I'(6) o' by (auto simp: table_ok_def)
      then show ?thesis by (rule starts_at_snoc) (use same in blast)
    next
      case False
      then have "o' = off" "p = x"
        using p table I'(6) o' by (auto simp: table_ok_def nth_list_update split: if_splits)
      moreover have "code_size (heap s') ps = off"
        using off by (simp add: raw_size_il_list [symmetric] list)
      ultimately show ?thesis unfolding starts_at_def by (intro exI [of _ ps] exI [of _ "[]"]) simp
    qed
  qed
  moreover have "m_maxStack s' = w32 (m_maxStack s0 + stack_pushes (il_list s' (ps @ [x])))"
    by (simp add: frame(3) I'(8) list lx stack_pushes_def mod_add_left_eq add.assoc)
  ultimately show ?thesis
    using I' ring le pos size ok bytes off \<open>same_members s0 s'\<close>
    by (simp add: imported_def frame(2) N list lx)
qed

section \<open>Steps of the import loop\<close>

lemma read_le_ok:
  assumes "off + n \<le> length m"
  shows "read_le n m off = Inr (le_word (take n (drop off m)))"
  using assms by (simp add: read_le_def)

lemma read_byte:
  assumes "off < length m"
  shows "read_le 1 m off = Inr (m ! off)"
proof -
  have "take 1 (drop off m) = [m ! off]"
    using assms by (simp add: take_Suc_conv_app_nth)
  then show ?thesis using assms by (simp add: read_le_def)
qed

lemma and_255: "and (n :: nat) 255 = n mod 256"
  using take_bit_eq_mask [of 8 n] by (simp add: take_bit_eq_mod mask_eq_exp_minus_1)

lemma opcode_bytes_one: "unat (b :: byte) \<noteq> CEE_PREFIX1 \<Longrightarrow> opcode_bytes (unat b) = [b]"
  using unat_byte [of b] by (simp add: opcode_bytes_def and_255)

lemma opcode_bytes_two:
  assumes "256 + unat (b :: byte) < CEE_COUNT"
  shows "opcode_bytes (256 + unat b) = [of_nat CEE_PREFIX1, b]"
  using assms unat_byte [of b] by (simp add: opcode_bytes_def and_255)

lemma import_opcode_cases:
  assumes off: "off < m_CodeSize s" and N: "m_CodeSize s \<le> length pIL" "m_CodeSize s + 10 < 4294967296"
  obtains "import_opcode pIL off s = Inl COR_E_INVALIDPROGRAM"
  | op where "import_opcode pIL off s = Inr (op, off + length (opcode_bytes op))" "op < CEE_COUNT"
    "off + length (opcode_bytes op) \<le> m_CodeSize s"
    "take (length (opcode_bytes op)) (drop off pIL) = opcode_bytes op"
proof (cases "unat (pIL ! off) = CEE_PREFIX1")
  case False
  have "take 1 (drop off pIL) = [pIL ! off]"
    using off N by (simp add: take_Suc_conv_app_nth)
  moreover have "import_opcode pIL off s = Inl COR_E_INVALIDPROGRAM
      \<or> import_opcode pIL off s = Inr (unat (pIL ! off), off + 1)"
    using False off N unat_byte [of "pIL ! off"]
    by (simp add: import_opcode_def read_byte Let_def del: One_nat_def)
  moreover have "unat (pIL ! off) < CEE_COUNT" using unat_byte [of "pIL ! off"] by simp
  ultimately show ?thesis
    using that(1) that(2) [of "unat (pIL ! off)"] off opcode_bytes_one [OF False] by auto
next
  case True
  show ?thesis
  proof (cases "off + 1 < m_CodeSize s")
    case False
    then show ?thesis
      using that(1) True off N by (simp add: import_opcode_def read_byte Let_def del: One_nat_def)
  next
    case more: True
    let ?op = "256 + unat (pIL ! (off + 1))"
    have b0: "pIL ! off = of_nat CEE_PREFIX1" using True by (simp add: word_unat_eq_iff)
    have bytes: "take 2 (drop off pIL) = [pIL ! off, pIL ! (off + 1)]"
      using more N by (simp add: take_Suc_conv_app_nth numeral_2_eq_2)
    have run: "import_opcode pIL off s =
        (if ?op < CEE_COUNT then Inr (?op, off + 2) else Inl COR_E_INVALIDPROGRAM)"
    proof -
      have w: "w32 (off + 1) = off + 1" "w32 (off + 1 + 1) = off + 2" using more N by simp_all
      have r: "read_le 1 pIL off = Inr (pIL ! off)" "read_le 1 pIL (off + 1) = Inr (pIL ! (off + 1))"
        using more N by (simp_all add: read_byte del: One_nat_def)
      show ?thesis
        using more unfolding import_opcode_def r Let_def bindE_Inr w True
        by (simp add: not_le)
    qed
    show ?thesis
    proof (cases "?op < CEE_COUNT")
      case False
      then show ?thesis using that(1) run by simp
    next
      case True
      note ob = opcode_bytes_two [OF True]
      show ?thesis
      proof (rule that(2) [of ?op])
        show "off + length (opcode_bytes ?op) \<le> m_CodeSize s" using more unfolding ob by simp
        show "take (length (opcode_bytes ?op)) (drop off pIL) = opcode_bytes ?op"
          using bytes b0 unfolding ob by (simp add: numeral_2_eq_2)
        show "import_opcode pIL off s = Inr (?op, off + length (opcode_bytes ?op))"
          unfolding ob run using True by simp
      qed (rule True)
    qed
  qed
qed

lemma il_ring_cong: "heap s = heap t \<Longrightarrow> fresh s = fresh t \<Longrightarrow> il_ring s ps \<longleftrightarrow> il_ring t ps"
  by (simp add: il_ring_def)

lemma set_arg_members [simp]:
  "m_opcode (heap (set_arg p a s) q) = m_opcode (heap s q)"
  "m_arg (heap (set_arg p a s) q) = (if q = p then a else m_arg (heap s q))"
  "m_pNext (heap (set_arg p a s) q) = m_pNext (heap s q)"
  "m_pPrev (heap (set_arg p a s) q) = m_pPrev (heap s q)"
  "m_offset (heap (set_arg p a s) q) = m_offset (heap s q)"
  by (simp_all add: frame_simps)

lemma fresh_set_opcode: "fresh (set_opcode p op s) = fresh s"
  by (simp add: frame_simps)

text \<open>A fresh node with an opcode and an operand, linked in at the end: in either order.\<close>

lemma append_instr_node:
  assumes ring: "il_ring s ps" and new: "append_instr op s = (x, s')"
  shows "il_ring s' (ps @ [x])" and "x \<notin> set ps"
    and "p \<in> set ps \<Longrightarrow> m_opcode (heap s' p) = m_opcode (heap s p) \<and> m_arg (heap s' p) = m_arg (heap s p)"
    and "m_opcode (heap s' x) = op" "m_arg (heap s' x) = Zeroed"
    and "same_members s s'" "m_nInstrs s' = w32 (m_nInstrs s + 1)"
      "m_maxStack s' = w32 (m_maxStack s + k_rgnStackPushes ! op)"
    and "m_pOffsetToInstr s' = m_pOffsetToInstr s"
proof -
  obtain s1 where n: "NewILInstr s = (x, s1)" "s' = InsertBefore m_IL x (set_opcode x op s1)"
    using new by (auto simp: append_instr_def split: prod.splits)
  note node = NewILInstr_ring [OF ring n(1)]
  show "il_ring s' (ps @ [x])"
    unfolding n(2)
    by (rule InsertBefore_end) (use node in \<open>simp_all add: fresh_set_opcode\<close>)
  show "x \<notin> set ps" using node(3) by simp
  have s1: "heap s1 = (heap s)(x := zero_instr)" "m_nInstrs s1 = w32 (m_nInstrs s + 1)"
    "m_pOffsetToInstr s1 = m_pOffsetToInstr s" "m_maxStack s1 = m_maxStack s" "same_members s s1"
    using n(1) by (auto simp: NewILInstr_def same_members_def)
  show "p \<in> set ps \<Longrightarrow> m_opcode (heap s' p) = m_opcode (heap s p) \<and> m_arg (heap s' p) = m_arg (heap s p)"
    using node(3) by (auto simp: n(2) frame_simps s1)
  show "m_opcode (heap s' x) = op" "m_arg (heap s' x) = Zeroed"
    by (simp_all add: n(2) frame_simps s1 zero_instr_def)
  show "same_members s s'" "m_nInstrs s' = w32 (m_nInstrs s + 1)"
    "m_pOffsetToInstr s' = m_pOffsetToInstr s"
    using s1 by (simp_all add: n(2) frame_simps same_members_def)
  show "m_maxStack s' = w32 (m_maxStack s + k_rgnStackPushes ! op)"
    by (simp add: n(2) InsertBefore_maxStack) (simp add: frame_simps s1)
qed

lemma set_arg_commute:
  "set_next q r (set_arg p a s) = set_arg p a (set_next q r s)"
  "set_prev q r (set_arg p a s) = set_arg p a (set_prev q r s)"
  "AdjustState q (set_arg p a s) = set_arg p a (AdjustState q s)"
  by (cases "heap s q"; cases "p = q"; simp add: set_next_def set_prev_def set_arg_def
    upd_instr_def AdjustState_def fun_upd_twist)+

lemma InsertBefore_set_arg:
  "InsertBefore w x (set_arg p a s) = set_arg p a (InsertBefore w x s)"
  by (simp add: InsertBefore_def Let_def set_arg_commute)

lemma same_members_set [simp]:
  "same_members s (set_arg p a s') \<longleftrightarrow> same_members s s'"
  "same_members s (s'\<lparr>m_pOffsetToInstr := tbl\<rparr>) \<longleftrightarrow> same_members s s'"
  "same_members s s"
  by (simp_all add: same_members_def frame_simps)

text \<open>The operands other than those of \<open>switch\<close>.\<close>

lemma raw_instr_simple:
  assumes "op < 296" "op \<noteq> CEE_COUNT" "\<not> is_branch op" "operand_ok {} (op_flags op) a"
    and "operand_bytes (operand_size op) a = bs"
  shows "raw_ok op a off" and "raw_instr op a off sb = opcode_bytes op @ bs"
  using assms by (simp_all add: raw_ok_def raw_instr_def)

lemma import_operand_simple:
  assumes op: "op < CEE_COUNT" "op \<noteq> CEE_SWITCH" and zero: "m_arg (heap s x) = Zeroed"
    and len: "off + instr_size op \<le> length pIL"
    and o': "o' = off + length (opcode_bytes op)"
    and bytes: "take (length (opcode_bytes op)) (drop off pIL) = opcode_bytes op"
  shows "\<exists>a. import_operand pIL (op_flags op) x o' s = Inr (o', is_branch op, set_arg x a s)
    \<and> raw_ok op a off \<and> take (instr_size op) (drop off pIL) = raw_instr op a off sb"
proof -
  let ?sz = "operand_size op"
  let ?bs = "take ?sz (drop o' pIL)"
  have op': "op < 296" "op \<noteq> CEE_COUNT" "op \<noteq> CEE_SWITCH_ARG" using op by auto
  note flags = op_flags_cases [OF op'(1)]
  have sz: "?sz = (if op_flags op = 17 then 1 else if op_flags op = 20 then 4 else op_flags op)"
    using operand_size_flags [OF op'(1)] flags(2) op(2) by auto
  have isz: "instr_size op = length (opcode_bytes op) + ?sz" by (simp add: instr_size_def)
  have lo: "o' + ?sz \<le> length pIL" using len by (simp add: o' isz)
  then have lbs: "length ?bs = ?sz" by simp
  have all: "take (instr_size op) (drop off pIL) = opcode_bytes op @ ?bs"
    unfolding isz take_add bytes by (simp add: o' add.commute)
  note simple = raw_instr_simple [OF op'(1,2)]
  consider "op_flags op = 0" | "op_flags op = 1" | "op_flags op = 2" | "op_flags op = 4"
    | "op_flags op = 8" | "op_flags op = 17" | "op_flags op = 20"
    using flags(1,2) op(2) by auto
  then show ?thesis
  proof cases
    case 1
    have "set_arg x Zeroed s = s"
      using zero by (cases s; cases "heap s x") (auto simp: set_arg_def upd_instr_def fun_upd_idem)
    then show ?thesis
      using 1 simple [of Zeroed "?bs"] lbs
      by (intro exI [of _ Zeroed]) (simp add: import_operand_def is_branch_def sz all read_le_ok)
  next
    case 2
    then show ?thesis using simple [of "Arg8 (le_word ?bs)" ?bs] lo lbs
      by (intro exI [of _ "Arg8 (le_word ?bs)"])
        (simp add: import_operand_def is_branch_def sz all read_le_ok le_bytes_word' del: One_nat_def le_bytes.simps le_word.simps)
  next
    case 3
    then show ?thesis using simple [of "Arg16 (le_word ?bs)" ?bs] lo lbs
      by (intro exI [of _ "Arg16 (le_word ?bs)"])
        (simp add: import_operand_def is_branch_def sz all read_le_ok le_bytes_word')
  next
    case 4
    then show ?thesis using simple [of "Arg32 (le_word ?bs)" ?bs] lo lbs
      by (intro exI [of _ "Arg32 (le_word ?bs)"])
        (simp add: import_operand_def is_branch_def sz all read_le_ok le_bytes_word')
  next
    case 5
    then show ?thesis using simple [of "Arg64 (le_word ?bs)" ?bs] lo lbs
      by (intro exI [of _ "Arg64 (le_word ?bs)"])
        (simp add: import_operand_def is_branch_def sz all read_le_ok le_bytes_word')
  next
    case 6
    let ?v = "le_word ?bs :: byte"
    have base: "of_nat (o' + 1) = (of_nat (off + instr_size op) :: u32)"
      using 6 by (simp add: o' isz sz)
    have bs: "le_bytes 1 ?v = ?bs" using lbs 6 by (intro le_bytes_word') (simp_all add: sz)
    have sx: "le_bytes 1 (scast ?v :: u32) = ?bs"
      using sign_extend_byte(1) [of ?v] bs by simp
    show ?thesis
      using 6 lo sx op'
      by (intro exI [of _ "Arg32 (of_nat (o' + 1) + scast ?v)"])
        (simp add: import_operand_def is_branch_def sz all read_le_ok raw_ok_def raw_instr_def raw_delta_def base
          sign_extend_byte(2) del: One_nat_def le_bytes.simps le_word.simps of_nat_add)
  next
    case 7
    let ?v = "le_word ?bs :: u32"
    have base: "of_nat (o' + 4) = (of_nat (off + instr_size op) :: u32)"
      using 7 by (simp add: o' isz sz)
    have bs: "le_bytes 4 ?v = ?bs" using lbs 7 by (intro le_bytes_word') (simp_all add: sz)
    show ?thesis
      using 7 lo bs op'
      by (intro exI [of _ "Arg32 (of_nat (o' + 4) + ?v)"])
        (simp add: import_operand_def is_branch_def sz all read_le_ok raw_ok_def raw_instr_def raw_delta_def base
          del: of_nat_add)
  qed
qed

text \<open>The targets of a \<open>switch\<close>.\<close>

lemma raw_switch_arg:
  "raw_ok CEE_SWITCH_ARG (Arg32 v) off"
  "raw_instr CEE_SWITCH_ARG (Arg32 (of_nat sb + v)) off sb = le_bytes 4 v"
  "instr_size CEE_SWITCH_ARG = 4" "raw_base CEE_SWITCH_ARG a off sb = sb"
  "is_branch CEE_SWITCH_ARG" "k_rgnStackPushes ! CEE_SWITCH_ARG = 0"
proof -
  have f: "op_flags CEE_SWITCH_ARG = 20" using op_flags_cases(4) [of CEE_SWITCH_ARG] by simp
  then show "is_branch CEE_SWITCH_ARG" "instr_size CEE_SWITCH_ARG = 4"
    by (simp_all add: is_branch_def instr_size_def opcode_bytes_def operand_size_def)
  with f show "raw_ok CEE_SWITCH_ARG (Arg32 v) off"
    "raw_instr CEE_SWITCH_ARG (Arg32 (of_nat sb + v)) off sb = le_bytes 4 v"
    by (simp_all add: raw_ok_def raw_instr_def raw_delta_def opcode_bytes_def operand_size_def)
  show "raw_base CEE_SWITCH_ARG a off sb = sb" by (simp add: raw_base_def)
  show "k_rgnStackPushes ! CEE_SWITCH_ARG = 0"
    by (simp add: k_rgnStackPushes_def nth_append length_opdefs)
qed

definition import_ok :: "byte list \<Rightarrow> ILRewriter \<Rightarrow> nat \<Rightarrow> ILRewriter \<Rightarrow> ptr list
    \<Rightarrow> hr + (nat \<times> bool \<times> ILRewriter) \<Rightarrow> bool" where
  "import_ok pIL s0 off s ps r \<longleftrightarrow> (case r of
     Inl e \<Rightarrow> e = COR_E_INVALIDPROGRAM
   | Inr (off', branch, s') \<Rightarrow> off < off' \<and> (\<exists>qs. imported pIL s0 off' s' (ps @ qs)
       \<and> (branch \<or> (\<forall>q \<in> set qs. \<not> is_branch (m_opcode (heap s' q)))
             \<and> (\<forall>p \<in> set ps. m_opcode (heap s' p) = m_opcode (heap s p)))))"

lemma import_switch_args_ok:
  assumes "imported pIL s0 off s ps" and "m_CodeSize s \<le> length pIL" "m_CodeSize s + 10 < 4294967296"
    and "base = switch_base s ps"
  shows "case import_switch_args pIL base n off s of
      Inl e \<Rightarrow> e = COR_E_INVALIDPROGRAM
    | Inr (off', s') \<Rightarrow> off \<le> off' \<and> (\<exists>qs. imported pIL s0 off' s' (ps @ qs))"
  using assms
proof (induction n arbitrary: off s ps)
  case 0
  then show ?case by (auto intro: exI [of _ "[]"])
next
  case (Suc n)
  show ?case
  proof (cases "off + 4 > m_CodeSize s")
    case False
    let ?bs = "take 4 (drop off pIL)"
    let ?v = "le_word ?bs :: u32"
    obtain x s1 where ap: "append_instr CEE_SWITCH_ARG s = (x, s1)" by fastforce
    let ?s = "set_arg x (Arg32 (of_nat base + ?v)) s1"
    have ring: "il_ring s ps" and n: "m_nInstrs s = length ps" "length ps \<le> off"
      using Suc.prems(1) by (simp_all add: imported_def)
    note node = append_instr_node [OF ring ap]
    have lb: "length ?bs = 4" using False Suc.prems(2) by simp
    have raw: "raw_instr CEE_SWITCH_ARG (Arg32 (of_nat base + ?v)) off base = ?bs"
      unfolding raw_switch_arg(2) by (rule le_bytes_word' [OF lb]) simp
    have sz: "off + instr_size CEE_SWITCH_ARG = off + 4" by (simp only: raw_switch_arg)
    have step: "imported pIL s0 (off + instr_size CEE_SWITCH_ARG) ?s (ps @ [x])
      \<and> switch_base ?s (ps @ [x]) = raw_base CEE_SWITCH_ARG (Arg32 (of_nat base + ?v)) off (switch_base s ps)"
    proof (rule imported_snoc [OF Suc.prems(1)])
      show "il_ring ?s (ps @ [x])" using node(1) by simp
      show "same_members s ?s" using node(6) by simp
      show "m_nInstrs ?s = Suc (m_nInstrs s)"
        using node(7) n False Suc.prems(3) by (simp add: set_arg_def upd_instr_frame)
      show "m_maxStack ?s = w32 (m_maxStack s + k_rgnStackPushes ! CEE_SWITCH_ARG)"
        using node(8) by (simp add: set_arg_def upd_instr_frame)
      show "m_pOffsetToInstr ?s = m_pOffsetToInstr s
          \<or> off < m_CodeSize s \<and> m_pOffsetToInstr ?s = (m_pOffsetToInstr s)[off := Some x]"
        using node(9) by (simp add: set_arg_def upd_instr_frame)
      show "off + instr_size CEE_SWITCH_ARG \<le> m_CodeSize s" using False unfolding sz by simp
      show "take (off + instr_size CEE_SWITCH_ARG) pIL
          = take off pIL @ raw_instr CEE_SWITCH_ARG (Arg32 (of_nat base + ?v)) off (switch_base s ps)"
        using raw unfolding sz Suc.prems(4) [symmetric] by (simp add: take_add)
    qed (use node(2,3,4) raw_switch_arg(1) in auto)
    have "m_CodeSize ?s = m_CodeSize s"
      using node(6) by (simp add: same_members_def set_arg_def upd_instr_frame)
    with Suc.IH [of "off + 4" ?s "ps @ [x]"] step Suc.prems(2-4)
    have IH: "case import_switch_args pIL base n (off + 4) ?s of
        Inl e \<Rightarrow> e = COR_E_INVALIDPROGRAM
      | Inr (off', s') \<Rightarrow> off + 4 \<le> off' \<and> (\<exists>qs. imported pIL s0 off' s' ((ps @ [x]) @ qs))"
      unfolding sz raw_switch_arg(4) by simp
    have "import_switch_args pIL base (Suc n) off s = import_switch_args pIL base n (off + 4) ?s"
    proof -
      have "read_le 4 pIL off = Inr ?v" using False Suc.prems(2) by (intro read_le_ok) simp
      moreover have "w32 (off + 4) = off + 4" using False Suc.prems(3) by simp
      ultimately show ?thesis
        using False ap
        by (auto simp: append_instr_def Let_def InsertBefore_set_arg split: prod.splits)
    qed
    with IH show ?thesis
      by (fastforce split: sum.splits)
  qed simp
qed

text \<open>One instruction, with its switch targets.\<close>

lemma raw_switch:
  assumes "length bs = 4"
  shows "raw_ok CEE_SWITCH (Arg32 v) off"
    and "raw_instr CEE_SWITCH (Arg32 (le_word bs)) off sb = opcode_bytes CEE_SWITCH @ bs"
    and "instr_size CEE_SWITCH = 5" "op_flags CEE_SWITCH = 32" "length (opcode_bytes CEE_SWITCH) = 1"
    and "raw_base CEE_SWITCH (Arg32 v) off sb = w32 (off + 5 + unat v * 4)"
proof -
  show f: "op_flags CEE_SWITCH = 32" using op_flags_cases(2) [of CEE_SWITCH] by simp
  show l: "length (opcode_bytes CEE_SWITCH) = 1" by (simp add: opcode_bytes_def)
  have sz: "operand_size CEE_SWITCH = 4" by (simp add: operand_size_def f)
  then show "instr_size CEE_SWITCH = 5" by (simp only: instr_size_def l)
  have nb: "\<not> is_branch CEE_SWITCH" by (simp add: is_branch_def f)
  then show "raw_ok CEE_SWITCH (Arg32 v) off" by (simp add: raw_ok_def f)
  have "le_bytes 4 (le_word bs :: u32) = bs" by (rule le_bytes_word' [OF assms]) simp
  then show "raw_instr CEE_SWITCH (Arg32 (le_word bs)) off sb = opcode_bytes CEE_SWITCH @ bs"
    using nb by (simp add: raw_instr_def sz)
  have u: "unat (v + 1) = w32 (unat v + 1)"
    using unat_word_ariths(1) [of v 1] by simp
  have "w32 (off + 1 + 4 * unat (v + 1)) = w32 (off + 1 + 4 * (unat v + 1))"
    unfolding u by (metis mod_add_right_eq mod_mult_right_eq)
  then show "raw_base CEE_SWITCH (Arg32 v) off sb = w32 (off + 5 + unat v * 4)"
    by (simp add: raw_base_def algebra_simps)
qed

lemma import_instr_ok:
  assumes I: "imported pIL s0 off s ps" and N: "m_CodeSize s \<le> length pIL" "m_CodeSize s + 10 < 4294967296"
    and off: "off < m_CodeSize s"
  shows "import_ok pIL s0 off s ps (import_instr pIL off s)"
proof (cases rule: import_opcode_cases [OF off N])
  case 1
  then show ?thesis by (simp add: import_ok_def import_instr_def)
next
  case (2 op)
  let ?l = "length (opcode_bytes op)"
  obtain x s1 where ap: "append_instr op s = (x, s1)" by fastforce
  let ?tbl = "(m_pOffsetToInstr s1)[off := Some x]"
  let ?s2 = "s1\<lparr>m_pOffsetToInstr := ?tbl\<rparr>"
  have ring: "il_ring s ps" and n: "m_nInstrs s = length ps" "length ps \<le> off"
    using I by (simp_all add: imported_def)
  note node = append_instr_node [OF ring ap]
  have op: "op < 296" using 2(2) by simp
  have N1: "m_CodeSize s1 = m_CodeSize s" using node(6) by (simp add: same_members_def)
  have snoc: "imported pIL s0 (off + instr_size op) (set_arg x a ?s2) (ps @ [x])
      \<and> switch_base (set_arg x a ?s2) (ps @ [x]) = raw_base op a off (switch_base s ps)"
    if "raw_ok op a off" "off + instr_size op \<le> m_CodeSize s"
      "take (instr_size op) (drop off pIL) = raw_instr op a off (switch_base s ps)" for a
  proof (rule imported_snoc [OF I])
    have "il_ring ?s2 (ps @ [x])" using node(1) by (simp cong: il_ring_cong)
    then show "il_ring (set_arg x a ?s2) (ps @ [x])" by simp
    show "same_members s (set_arg x a ?s2)" using node(6) by simp
    show "m_nInstrs (set_arg x a ?s2) = Suc (m_nInstrs s)"
      using node(7) n off N(2) by (simp add: set_arg_def upd_instr_frame)
    show "m_maxStack (set_arg x a ?s2) = w32 (m_maxStack s + k_rgnStackPushes ! op)"
      using node(8) by (simp add: set_arg_def upd_instr_frame)
    show "m_pOffsetToInstr (set_arg x a ?s2) = m_pOffsetToInstr s
        \<or> off < m_CodeSize s \<and> m_pOffsetToInstr (set_arg x a ?s2) = (m_pOffsetToInstr s)[off := Some x]"
      using node(9) off by (simp add: set_arg_def upd_instr_frame)
    show "take (off + instr_size op) pIL = take off pIL @ raw_instr op a off (switch_base s ps)"
      using that(3) by (simp add: take_add)
  qed (use node(2,3,4) that in auto)
  have run: "import_instr pIL off s =
      (if w32 (off + ?l + and (op_flags op) OPCODEFLAGS_SizeMask) > m_CodeSize s
       then Inl COR_E_INVALIDPROGRAM
       else bindE (import_operand pIL (op_flags op) x (off + ?l) ?s2) (\<lambda>(offset, branch, s).
         Inr (w32 (offset + and (op_flags op) OPCODEFLAGS_SizeMask), branch, s)))"
    by (simp add: import_instr_def 2(1) ap Let_def)
  have l2: "?l \<le> 2" by (simp add: opcode_bytes_def)
  show ?thesis
  proof (cases "op = CEE_SWITCH")
    case False
    have f32: "op_flags op \<noteq> 32" using op_flags_cases(2) [OF op] False by simp
    then have sz: "and (op_flags op) OPCODEFLAGS_SizeMask = operand_size op"
      by (simp add: operand_size_def)
    have isz: "off + ?l + operand_size op = off + instr_size op" by (simp add: instr_size_def)
    have "instr_size op \<le> 10" by (rule instr_size_le_10 [OF op])
    then have w: "w32 (off + ?l + operand_size op) = off + instr_size op"
      using off N(2) by (simp add: isz)
    show ?thesis
    proof (cases "off + instr_size op \<le> m_CodeSize s")
      case True
      have "m_arg (heap ?s2 x) = Zeroed" "off + instr_size op \<le> length pIL"
        using node(5) True N(1) by simp_all
      from import_operand_simple [OF 2(2) False this refl 2(4), of "switch_base s ps"] obtain a where
        a: "import_operand pIL (op_flags op) x (off + ?l) ?s2 = Inr (off + ?l, is_branch op, set_arg x a ?s2)"
          "raw_ok op a off" "take (instr_size op) (drop off pIL) = raw_instr op a off (switch_base s ps)"
        by blast
      have "import_instr pIL off s = Inr (off + instr_size op, is_branch op, set_arg x a ?s2)"
        using True unfolding run sz w a(1) bindE_Inr prod.case by simp
      moreover have "0 < instr_size op" using 2(2) by (intro instr_size_pos) auto
      ultimately show ?thesis
        using snoc [OF a(2) True a(3)] node(3,4) by (auto simp: import_ok_def intro!: exI [of _ "[x]"])
    next
      case False
      then show ?thesis unfolding run sz w import_ok_def by simp
    qed
  next
    case True
    let ?bs = "take 4 (drop (off + 1) pIL)"
    let ?v = "le_word ?bs :: u32"
    let ?s3 = "set_arg x (Arg32 ?v) ?s2"
    have fl: "op_flags op = 32" and l: "?l = 1"
      unfolding True using raw_switch(4,5) [of "[0,0,0,0]"] by simp_all
    have N3: "m_CodeSize ?s3 = m_CodeSize s" by (simp add: set_arg_def upd_instr_frame N1)
    show ?thesis
    proof (cases "off + 5 \<le> m_CodeSize s")
      case False
      then show ?thesis
        unfolding run fl l import_operand_def using off N(2) by (simp add: import_ok_def N1)
    next
      case le: True
      have lb: "length ?bs = 4" using le N(1) by simp
      note sw = raw_switch [OF lb]
      have "take (instr_size op) (drop off pIL) = raw_instr op (Arg32 ?v) off (switch_base s ps)"
      proof -
        have "take 5 (drop off pIL) = take 1 (drop off pIL) @ ?bs"
          using take_add [of 1 4 "drop off pIL"] by simp
        then show ?thesis using 2(4) unfolding True sw(2,3,5) by simp
      qed
      with snoc [of "Arg32 ?v"] le have I3: "imported pIL s0 (off + 5) ?s3 (ps @ [x])"
        and base: "w32 (off + 5 + unat ?v * 4) = switch_base ?s3 (ps @ [x])"
        unfolding True sw(3,6) using sw(1) by simp_all
      have args: "case import_switch_args pIL (w32 (off + 5 + unat ?v * 4)) (unat ?v) (off + 5) ?s3 of
          Inl e \<Rightarrow> e = COR_E_INVALIDPROGRAM
        | Inr (off', s') \<Rightarrow> off + 5 \<le> off' \<and> (\<exists>qs. imported pIL s0 off' s' ((ps @ [x]) @ qs))"
        using import_switch_args_ok [OF I3 _ _ base] N unfolding N3 by simp
      have run': "import_instr pIL off s =
          bindE (import_switch_args pIL (w32 (off + 5 + unat ?v * 4)) (unat ?v) (off + 5) ?s3)
            (\<lambda>(offset, s). Inr (w32 offset, True, s))"
      proof -
        have "read_le 4 pIL (off + 1) = Inr ?v" using le N(1) by (intro read_le_ok) simp
        moreover have "w32 (off + 1 + 4) = off + 5" "w32 (off + 1) = off + 1" using le N(2) by simp_all
        ultimately show ?thesis
          using le unfolding run fl l import_operand_def
          by (simp add: N1 Let_def bindE_assoc split_def)
      qed
      have small: "off' \<le> m_CodeSize s" if "imported pIL s0 off' s' qs" for off' s' qs
      proof -
        have "m_CodeSize s' = m_CodeSize s0" "m_CodeSize s = m_CodeSize s0"
          using that I by (simp_all add: imported_def same_members_def)
        then show ?thesis using that by (simp add: imported_def)
      qed
      show ?thesis
      proof (cases "import_switch_args pIL (w32 (off + 5 + unat ?v * 4)) (unat ?v) (off + 5) ?s3")
        case (Inl e)
        then show ?thesis using args run' by (simp add: import_ok_def)
      next
        case (Inr r)
        obtain off' s' where r: "r = (off', s')" by fastforce
        with args Inr obtain qs where qs: "off + 5 \<le> off'" "imported pIL s0 off' s' (ps @ x # qs)"
          by auto
        have "w32 off' = off'" using small [OF qs(2)] N(2) by simp
        then show ?thesis using qs run' unfolding Inr r by (auto simp: import_ok_def)
      qed
    qed
  qed
qed

text \<open>The loop: it ends, with every byte of the code read.\<close>

lemma import_loop_ok:
  assumes "imported pIL s0 off s ps" and "m_CodeSize s \<le> length pIL" "m_CodeSize s + 10 < 4294967296"
    and "m_CodeSize s - off \<le> k" and "fb \<or> (\<forall>p \<in> set ps. \<not> is_branch (m_opcode (heap s p)))"
  shows "case import_loop k pIL off fb s of
      Inl e \<Rightarrow> e = COR_E_INVALIDPROGRAM
    | Inr (off', fb', s') \<Rightarrow> off' = m_CodeSize s \<and> (\<exists>qs. imported pIL s0 off' s' qs
        \<and> (fb' \<or> (\<forall>q \<in> set qs. \<not> is_branch (m_opcode (heap s' q)))))"
  using assms
proof (induction k arbitrary: off fb s ps)
  case 0
  then show ?case by (auto simp: imported_def)
next
  case (Suc k)
  show ?case
  proof (cases "off < m_CodeSize s")
    case False
    then show ?thesis using Suc.prems by (auto simp: imported_def)
  next
    case True
    have step: "import_ok pIL s0 off s ps (import_instr pIL off s)"
      by (rule import_instr_ok [OF Suc.prems(1-3) True])
    show ?thesis
    proof (cases "import_instr pIL off s")
      case (Inl e)
      then show ?thesis using step True by (simp add: import_ok_def)
    next
      case (Inr r)
      obtain off' br s' where r: "r = (off', br, s')" by (cases r) auto
      from step obtain qs where qs: "off < off'" "imported pIL s0 off' s' (ps @ qs)"
        "br \<or> (\<forall>q \<in> set qs. \<not> is_branch (m_opcode (heap s' q)))
             \<and> (\<forall>p \<in> set ps. m_opcode (heap s' p) = m_opcode (heap s p))"
        unfolding Inr r by (auto simp: import_ok_def)
      have N: "m_CodeSize s' = m_CodeSize s"
        using qs(2) Suc.prems(1) by (simp add: imported_def same_members_def)
      have fb: "(fb \<or> br) \<or> (\<forall>p \<in> set (ps @ qs). \<not> is_branch (m_opcode (heap s' p)))"
        using qs(3) Suc.prems(5) by auto
      have "m_CodeSize s' - off' \<le> k" using qs(1) Suc.prems(4) N by simp
      from Suc.IH [OF qs(2) _ _ this fb] Suc.prems(2,3) show ?thesis
        using True unfolding N by (simp add: Inr r)
    qed
  qed
qed

section \<open>Resolving the branch targets\<close>

lemma branch_flag: "op < 296 \<Longrightarrow> and (op_flags op) OPCODEFLAGS_BranchTarget \<noteq> 0 \<longleftrightarrow> is_branch op"
  using op_flags_cases(1) [of op] by (auto simp: is_branch_def)

fun target_of :: "ILRewriter \<Rightarrow> operand \<Rightarrow> ptr" where
  "target_of s (Arg32 v) = the (m_pOffsetToInstr s ! unat v)"
| "target_of s _ = m_IL"

definition resolve_node :: "ILRewriter \<Rightarrow> ILInstr \<Rightarrow> ILInstr" where
  "resolve_node s i = (if is_branch (m_opcode i) then i\<lparr>m_arg := Target (target_of s (m_arg i))\<rparr> else i)"

definition resolved :: "ILRewriter \<Rightarrow> ptr list \<Rightarrow> ILRewriter" where
  "resolved s ps = s\<lparr>heap := (\<lambda>p. if p \<in> set ps then resolve_node s (heap s p) else heap s p)\<rparr>"

definition target_known :: "ILRewriter \<Rightarrow> operand \<Rightarrow> bool" where
  "target_known s a \<longleftrightarrow> (\<exists>v. a = Arg32 v \<and> unat v \<le> m_CodeSize s
     \<and> m_pOffsetToInstr s ! unat v = Some (target_of s a))"

lemma resolve_target_cases:
  assumes op: "m_opcode (heap s p) < 296" and len: "length (m_pOffsetToInstr s) = Suc (m_CodeSize s)"
    and arg: "is_branch (m_opcode (heap s p)) \<Longrightarrow> \<exists>v. m_arg (heap s p) = Arg32 v"
  obtains "resolve_target p s = Inl COR_E_INVALIDPROGRAM"
  | "resolve_target p s = Inr (resolved s [p])"
    "is_branch (m_opcode (heap s p)) \<longrightarrow> target_known s (m_arg (heap s p))"
proof (cases "is_branch (m_opcode (heap s p))")
  case False
  have "heap (resolved s [p]) = heap s"
    using False by (auto simp: resolved_def resolve_node_def)
  then have "resolved s [p] = s" by (simp add: resolved_def)
  then show ?thesis
    using that(2) False unfolding resolve_target_def branch_flag [OF op] by simp
next
  case True
  then obtain v where v: "m_arg (heap s p) = Arg32 v" using arg by blast
  have run: "resolve_target p s = bindE (GetInstrFromOffset (unat v) s) (\<lambda>t. Inr (set_arg p (Target t) s))"
    using True unfolding resolve_target_def branch_flag [OF op] by (simp add: v)
  show ?thesis
  proof (cases "unat v \<le> m_CodeSize s \<and> m_pOffsetToInstr s ! unat v \<noteq> None")
    case False
    then show ?thesis using that(1) run len by (auto simp: GetInstrFromOffset_def)
  next
    case True
    then obtain t where t: "unat v \<le> m_CodeSize s" "m_pOffsetToInstr s ! unat v = Some t" by auto
    then have "resolve_target p s = Inr (set_arg p (Target t) s)"
      using run len by (simp add: GetInstrFromOffset_def)
    moreover have "set_arg p (Target t) s = resolved s [p]"
      using \<open>is_branch _\<close> v t by (auto simp: resolved_def resolve_node_def set_arg_def upd_instr_def
          intro!: ILRewriter.equality)
    ultimately show ?thesis using that(2) v t by (simp add: target_known_def)
  qed
qed

lemma resolved_Cons:
  assumes "p \<notin> set ps"
  shows "resolved (resolved s [p]) ps = resolved s (p # ps)"
proof -
  have "target_of (resolved s [p]) a = target_of s a" for a
    by (cases a) (simp_all add: resolved_def)
  then have "resolve_node (resolved s [p]) i = resolve_node s i" for i
    by (simp add: resolve_node_def)
  then show ?thesis using assms by (auto simp: resolved_def fun_eq_iff)
qed

lemma foldE_resolve:
  assumes "\<And>p. p \<in> set ps \<Longrightarrow> m_opcode (heap s p) < 296"
    and "\<And>p. p \<in> set ps \<Longrightarrow> is_branch (m_opcode (heap s p)) \<Longrightarrow> \<exists>v. m_arg (heap s p) = Arg32 v"
    and "length (m_pOffsetToInstr s) = Suc (m_CodeSize s)" and "distinct ps"
  shows "foldE resolve_target ps s = Inl COR_E_INVALIDPROGRAM
    \<or> foldE resolve_target ps s = Inr (resolved s ps)
      \<and> (\<forall>p \<in> set ps. is_branch (m_opcode (heap s p)) \<longrightarrow> target_known s (m_arg (heap s p)))"
  using assms
proof (induction ps arbitrary: s)
  case Nil
  then show ?case by (simp add: resolved_def)
next
  case (Cons p ps)
  let ?s = "resolved s [p]"
  have p: "m_opcode (heap s p) < 296" using Cons.prems(1) by simp
  have arg: "is_branch (m_opcode (heap s p)) \<Longrightarrow> \<exists>v. m_arg (heap s p) = Arg32 v"
    using Cons.prems(2) by simp
  show ?case
  proof (rule resolve_target_cases [OF p Cons.prems(3) arg])
    assume "resolve_target p s = Inl COR_E_INVALIDPROGRAM"
    then show ?thesis by simp
  next
    assume r: "resolve_target p s = Inr ?s"
      "is_branch (m_opcode (heap s p)) \<longrightarrow> target_known s (m_arg (heap s p))"
    have other: "heap ?s q = heap s q" if "q \<in> set ps" for q
      using that Cons.prems(4) by (auto simp: resolved_def)
    have known: "target_known ?s a = target_known s a" for a
      by (cases a) (simp_all add: target_known_def resolved_def)
    have "foldE resolve_target ps ?s = Inl COR_E_INVALIDPROGRAM
      \<or> foldE resolve_target ps ?s = Inr (resolved ?s ps)
        \<and> (\<forall>p \<in> set ps. is_branch (m_opcode (heap ?s p)) \<longrightarrow> target_known ?s (m_arg (heap ?s p)))"
      using Cons.prems by (intro Cons.IH) (auto simp: other, simp add: resolved_def)
    then show ?thesis
      using r Cons.prems(4) resolved_Cons [of p ps s] by (auto simp: other known)
  qed
qed

section \<open>ImportIL as a whole\<close>

lemma laid_out_starts:
  assumes "laid_out h off ps" and "starts_at h ps p n"
  shows "m_offset (h p) = off + n"
proof -
  obtain as bs where ps: "ps = as @ p # bs" "code_size h as = n"
    using assms(2) by (auto simp: starts_at_def)
  have "laid_out h o' (as @ p # bs) \<Longrightarrow> m_offset (h p) = o' + code_size h as" for o'
    by (induction as arbitrary: o') auto
  then show ?thesis using assms(1) ps by blast
qed

lemma starts_at_cong:
  "(\<And>p. m_opcode (h p) = m_opcode (g p)) \<Longrightarrow> starts_at h ps p n = starts_at g ps p n"
  by (simp add: starts_at_def code_size_def)

lemma laid_out_end: "laid_out h off ps \<Longrightarrow> m_offset (h m_IL) = off + code_size h ps"
  by (induction ps arbitrary: off) auto

text \<open>How a node looks before and after its branch target was resolved.\<close>

definition resolves_to :: "(ptr \<Rightarrow> ILInstr) \<Rightarrow> operand \<Rightarrow> operand \<Rightarrow> nat \<Rightarrow> bool" where
  "resolves_to h a a' op \<longleftrightarrow>
     (if is_branch op then (\<exists>v t. a = Arg32 v \<and> a' = Target t \<and> m_offset (h t) = unat v) else a' = a)"

lemma enc_raw_instr:
  assumes "resolves_to h a (m_arg (h p)) (m_opcode (h p))" and "raw_ok (m_opcode (h p)) a off"
    and "m_offset (h p) = off"
  shows "enc_instr h sb p = raw_instr (m_opcode (h p)) a off sb"
    and "next_switch_base h p sb = raw_base (m_opcode (h p)) a off sb"
proof -
  let ?op = "m_opcode (h p)"
  have nsw: "\<not> is_branch ?op" if "?op = CEE_SWITCH"
    using that op_flags_cases(2) [of ?op] by (simp add: is_branch_def)
  show "next_switch_base h p sb = raw_base ?op a off sb"
    using assms nsw
    by (cases "?op = CEE_SWITCH")
      (auto simp: next_switch_base_def raw_base_def resolves_to_def split: operand.split)
  show "enc_instr h sb p = raw_instr ?op a off sb"
  proof (cases "is_branch ?op")
    case True
    then obtain v t where "a = Arg32 v" "m_arg (h p) = Target t" "m_offset (h t) = unat v"
      using assms(1) by (auto simp: resolves_to_def)
    then show ?thesis
      using True assms(3)
      by (simp add: enc_instr_def raw_instr_def branch_delta_def branch_base_def raw_delta_def)
  next
    case False
    then have "m_arg (h p) = a" "operand_ok {} (op_flags ?op) a"
      using assms(1,2) by (auto simp: resolves_to_def raw_ok_def)
    then show ?thesis
      using False by (cases a) (auto simp: enc_instr_def raw_instr_def is_branch_def)
  qed
qed

lemma enc_raw_code:
  assumes "list_all2 (\<lambda>p (op, a). op = m_opcode (h p) \<and> resolves_to h a (m_arg (h p)) op) ps rs"
    and "raw_wf rs off" and "laid_out h off ps"
  shows "enc_code h sb ps = raw_code rs off sb"
  using assms
proof (induction ps arbitrary: rs off sb)
  case (Cons p ps)
  then obtain a rs' where "rs = (m_opcode (h p), a) # rs'" "resolves_to h a (m_arg (h p)) (m_opcode (h p))"
    by (auto simp: list_all2_Cons1)
  with Cons show ?case using enc_raw_instr [of h a p off sb] by simp
qed simp

lemma raw_fits:
  assumes "list_all2 (\<lambda>p (op, a). op = m_opcode (h p) \<and> resolves_to h a (m_arg (h p)) op) ps rs"
    and "raw_wf rs off" and "laid_out h off ps" and "linked h (ps @ [m_IL])"
  shows "\<not> list_ex (needs_widening h) ps"
  using assms
proof (induction ps arbitrary: rs off)
  case (Cons p ps)
  then obtain a rs' where rs: "rs = (m_opcode (h p), a) # rs'"
    "resolves_to h a (m_arg (h p)) (m_opcode (h p))" "raw_ok (m_opcode (h p)) a off"
    by (auto simp: list_all2_Cons1)
  have nxt: "m_offset (h (m_pNext (h p))) = off + instr_size (m_opcode (h p))"
    by (rule laid_out_next) (use Cons.prems in auto)
  have "\<not> needs_widening h p"
    using rs by (auto simp: needs_widening_def resolves_to_def raw_ok_def is_branch_def
        target_delta_def branch_delta_def nxt)
  moreover have "linked h (ps @ [m_IL])" using Cons.prems(4) by (cases ps) auto
  ultimately show ?case using Cons rs by simp
qed simp

lemma imported_start:
  assumes "il_ring s []" and "m_nInstrs s = 0" and "m_maxStack s < 4294967296"
  shows "imported pIL s 0 (set_opcode m_IL 0xFFFFFFFF
    (s\<lparr>m_pOffsetToInstr := replicate (m_CodeSize s) None @ [Some m_IL]\<rparr>)) []"
  using assms
  by (simp add: imported_def table_ok_def il_list_def stack_pushes_def same_members_def nth_append
      il_ring_def frame_simps)

lemma raw_wf_member:
  assumes "raw_wf rs off" and "(op, a) \<in> set rs"
  shows "\<exists>o'. raw_ok op a o'"
  using assms by (induction rs off rule: raw_wf.induct) auto

definition import_result :: "byte list \<Rightarrow> ILRewriter \<Rightarrow> ILRewriter \<Rightarrow> ptr list \<Rightarrow> bool" where
  "import_result pIL s0 s ps \<longleftrightarrow> il_wf s ps \<and> m_nInstrs s = length ps \<and> length ps \<le> m_CodeSize s0
     \<and> same_members s0 s \<and> m_maxStack s = w32 (m_maxStack s0 + stack_pushes (il_list s ps))
     \<and> enc_code (heap (lay_out ps s)) 0 ps = take (m_CodeSize s0) pIL
     \<and> \<not> list_ex (needs_widening (heap (lay_out ps s))) ps
     \<and> (\<forall>n p. GetInstrFromOffset n s = Inr p \<longrightarrow>
          p \<in> insert m_IL (set ps) \<and> m_offset (heap (lay_out ps s) p) = n)"

lemma resolved_result:
  assumes I: "imported pIL s0 (m_CodeSize s0) s ps" and small: "m_CodeSize s0 < 4294967296"
    and known: "\<forall>p \<in> set ps. is_branch (m_opcode (heap s p)) \<longrightarrow> target_known s (m_arg (heap s p))"
  shows "import_result pIL s0 (resolved s ps) ps"
proof -
  let ?s = "resolved s ps"
  let ?h = "heap (lay_out ps ?s)"
  note D = I [unfolded imported_def]
  have N: "m_CodeSize s = m_CodeSize s0" using D by (simp add: same_members_def)
  have mem: "m_opcode (heap ?s p) = m_opcode (heap s p)" "m_pNext (heap ?s p) = m_pNext (heap s p)"
    "m_pPrev (heap ?s p) = m_pPrev (heap s p)" for p
    by (simp_all add: resolved_def resolve_node_def)
  have fr: "fresh ?s = fresh s" "m_nInstrs ?s = m_nInstrs s" "m_maxStack ?s = m_maxStack s"
    "same_members s0 ?s = same_members s0 s"
    by (simp_all add: resolved_def same_members_def)
  have "linked (heap ?s) qs \<longleftrightarrow> linked (heap s) qs" for qs
    by (rule linked_cong) (simp_all add: mem)
  then have ring: "il_ring ?s ps" using D by (simp add: il_ring_def fr)
  have d: "distinct (m_IL # ps)" using ring by (simp add: il_ring_def)
  have lo: "laid_out ?h 0 ps" by (rule laid_out_lay_out [OF d])
  have ops: "m_opcode (?h p) = m_opcode (heap s p)" for p by (simp add: mem)
  have arg: "m_arg (?h p) = (if is_branch (m_opcode (heap s p))
      then Target (target_of s (m_arg (heap s p))) else m_arg (heap s p))" if "p \<in> set ps" for p
    using that by (simp add: resolved_def resolve_node_def)
  have raw: "\<exists>o'. raw_ok (m_opcode (heap s p)) (m_arg (heap s p)) o'" if "p \<in> set ps" for p
    using that D by (intro raw_wf_member [of "il_list s ps" 0]) (auto simp: il_list_def)
  have table: "p \<in> insert m_IL (set ps) \<and> m_offset (?h p) = n"
    if n: "n \<le> m_CodeSize s0" "m_pOffsetToInstr s ! n = Some p" for n p
  proof (cases "n = m_CodeSize s0")
    case True
    have "m_pOffsetToInstr s ! m_CodeSize s0 = Some m_IL" using D unfolding table_ok_def N by blast
    then have "p = m_IL" using n(2) True by simp
    moreover have "m_offset (?h m_IL) = m_CodeSize s0"
      using laid_out_end [OF lo] D by (simp add: code_size_def mem)
    ultimately show ?thesis using True by simp
  next
    case False
    then have "starts_at (heap s) ps p n"
      using n D by (auto simp: table_ok_def N)
    then have st: "starts_at ?h ps p n"
      using starts_at_cong [of ?h "heap s"] ops by blast
    then show ?thesis
      using laid_out_starts [OF lo st] by (auto simp: starts_at_def)
  qed
  have target: "target_of s (Arg32 v) \<in> insert m_IL (set ps)"
    "m_offset (?h (target_of s (Arg32 v))) = unat v" if "target_known s (Arg32 v)" for v
  proof -
    have v: "unat v \<le> m_CodeSize s0" "m_pOffsetToInstr s ! unat v = Some (target_of s (Arg32 v))"
      using that by (auto simp: target_known_def N)
    from table [OF this] show "target_of s (Arg32 v) \<in> insert m_IL (set ps)"
      "m_offset (?h (target_of s (Arg32 v))) = unat v" by blast+
  qed
  have elem: "resolves_to ?h (m_arg (heap s p)) (m_arg (?h p)) (m_opcode (heap s p))"
    if p: "p \<in> set ps" for p
  proof (cases "is_branch (m_opcode (heap s p))")
    case True
    then obtain v where v: "m_arg (heap s p) = Arg32 v" "target_known s (Arg32 v)"
      using known p by (metis target_known_def)
    have "m_arg (?h p) = Target (target_of s (Arg32 v))"
      unfolding arg [OF p] v(1) using True by (simp only: if_True)
    then show ?thesis
      using True v(1) target(2) [OF v(2)] unfolding resolves_to_def by (metis (no_types))
  next
    case False
    then show ?thesis unfolding resolves_to_def arg [OF p] by (simp only: if_False)
  qed
  have rel: "list_all2 (\<lambda>p (op, a). op = m_opcode (?h p) \<and> resolves_to ?h a (m_arg (?h p)) op) ps
      (il_list s ps)"
    using elem by (simp add: il_list_def list_all2_map2 list_all2_same mem)
  have "instr_ok (insert m_IL (set ps)) (heap ?s p)" if p: "p \<in> set ps" for p
  proof -
    let ?op = "m_opcode (heap s p)" and ?a = "m_arg (heap s p)"
    obtain o' where ok: "raw_ok ?op ?a o'" using raw [OF p] by blast
    have a': "m_arg (heap ?s p) = m_arg (?h p)" by simp
    show ?thesis
    proof (cases "is_branch ?op")
      case True
      then obtain v where v: "?a = Arg32 v" "target_known s (Arg32 v)"
        using known p by (metis target_known_def)
      with True target(1) [OF v(2)] ok show ?thesis
        unfolding instr_ok_def a' arg [OF p] by (auto simp: mem is_branch_def raw_ok_def)
    next
      case False
      then have "operand_ok (insert m_IL (set ps)) (op_flags ?op) ?a"
        using ok by (cases ?a) (auto simp: raw_ok_def)
      then show ?thesis
        using False ok unfolding instr_ok_def a' arg [OF p] by (simp add: mem raw_ok_def)
    qed
  qed
  then have wf: "il_wf ?s ps" using ring D by (simp add: il_wf_def fr)
  have "raw_wf (il_list s ps) 0" and code: "raw_code (il_list s ps) 0 0 = take (m_CodeSize s0) pIL"
    using D by simp_all
  note enc = enc_raw_code [OF rel this(1) lo, of 0] and fits = raw_fits [OF rel this(1) lo]
  have "il_ring (lay_out ps ?s) ps" using wf by (metis il_wf_def lay_out_members(5))
  then have "\<not> list_ex (needs_widening ?h) ps" by (intro fits il_ring_linked)
  moreover have "stack_pushes (il_list ?s ps) = stack_pushes (il_list s ps)"
    by (simp add: stack_pushes_def il_list_def mem comp_def)
  moreover have "p \<in> insert m_IL (set ps) \<and> m_offset (?h p) = n"
    if "GetInstrFromOffset n ?s = Inr p" for n p
    using that table [of n p]
    by (auto simp: GetInstrFromOffset_def resolved_def N split: if_splits option.splits)
  ultimately show ?thesis
    using wf D enc code by (simp add: import_result_def fr)
qed

lemma resolved_id:
  assumes "\<forall>p \<in> set ps. \<not> is_branch (m_opcode (heap s p))"
  shows "resolved s ps = s"
proof -
  have "(\<lambda>p. if p \<in> set ps then resolve_node s (heap s p) else heap s p) = heap s"
    using assms by (auto simp: resolve_node_def)
  then show ?thesis by (simp add: resolved_def)
qed

lemma ImportIL_resolved:
  assumes s: "il_ring s []" "m_nInstrs s = 0" "m_maxStack s < 4294967296"
    and N: "m_CodeSize s \<le> length pIL" "m_CodeSize s + 10 < 4294967296"
  shows "case ImportIL pIL s of
      Inl e \<Rightarrow> e = COR_E_INVALIDPROGRAM
    | Inr s' \<Rightarrow> \<exists>s1 ps fb. import_loop (m_CodeSize s) pIL 0 False (set_opcode m_IL 0xFFFFFFFF
          (s\<lparr>m_pOffsetToInstr := replicate (m_CodeSize s) None @ [Some m_IL]\<rparr>)) = Inr (m_CodeSize s, fb, s1)
        \<and> imported pIL s (m_CodeSize s) s1 ps \<and> s' = resolved s1 ps
        \<and> (\<forall>p \<in> set ps. is_branch (m_opcode (heap s1 p)) \<longrightarrow> target_known s1 (m_arg (heap s1 p)))"
proof -
  let ?s = "set_opcode m_IL 0xFFFFFFFF
    (s\<lparr>m_pOffsetToInstr := replicate (m_CodeSize s) None @ [Some m_IL]\<rparr>)"
  have Ns: "m_CodeSize ?s = m_CodeSize s" by (simp add: frame_simps)
  note loop = import_loop_ok [OF imported_start [OF s, of pIL], of "m_CodeSize s" False, unfolded Ns]
  have run: "ImportIL pIL s = bindE (import_loop (m_CodeSize s) pIL 0 False ?s) (\<lambda>(offset, fBranch, s).
      if offset \<noteq> m_CodeSize s then Inl COR_E_INVALIDPROGRAM
      else if fBranch then bindE (il_nodes s) (\<lambda>ps. foldE resolve_target ps s) else Inr s)"
    by (simp add: ImportIL_def Let_def frame_simps)
  show ?thesis
  proof (cases "import_loop (m_CodeSize s) pIL 0 False ?s")
    case (Inl e)
    then show ?thesis using loop N run by simp
  next
    case (Inr r)
    obtain off fb s1 where r: "r = (off, fb, s1)" by (cases r) auto
    from loop N obtain ps where ps: "off = m_CodeSize s" "imported pIL s off s1 ps"
      "fb \<or> (\<forall>q \<in> set ps. \<not> is_branch (m_opcode (heap s1 q)))"
      unfolding Inr r by auto
    note D = ps(2) [unfolded imported_def]
    have N1: "m_CodeSize s1 = m_CodeSize s" using D by (simp add: same_members_def)
    have run': "ImportIL pIL s = (if fb then bindE (il_nodes s1) (\<lambda>ps. foldE resolve_target ps s1) else Inr s1)"
      unfolding run Inr r by (simp add: ps(1) N1)
    show ?thesis
    proof (cases fb)
      case False
      then show ?thesis using resolved_id [of ps s1] ps run' Inr r by auto
    next
      case True
      have raw: "\<exists>o'. raw_ok (m_opcode (heap s1 p)) (m_arg (heap s1 p)) o'" if "p \<in> set ps" for p
        using that D by (intro raw_wf_member [of "il_list s1 ps" 0]) (auto simp: il_list_def)
      have "foldE resolve_target ps s1 = Inl COR_E_INVALIDPROGRAM
        \<or> foldE resolve_target ps s1 = Inr (resolved s1 ps)
          \<and> (\<forall>p \<in> set ps. is_branch (m_opcode (heap s1 p)) \<longrightarrow> target_known s1 (m_arg (heap s1 p)))"
        using D raw by (intro foldE_resolve) (fastforce simp: raw_ok_def table_ok_def il_ring_def)+
      moreover have "il_nodes s1 = Inr ps" using D by (simp add: il_nodes_ring)
      ultimately show ?thesis using True run' Inr r ps by auto
    qed
  qed
qed

lemma ImportIL_result:
  assumes s: "il_ring s []" "m_nInstrs s = 0" "m_maxStack s < 4294967296"
    and N: "m_CodeSize s \<le> length pIL" "m_CodeSize s + 10 < 4294967296"
  shows "case ImportIL pIL s of
      Inl e \<Rightarrow> e = COR_E_INVALIDPROGRAM
    | Inr s' \<Rightarrow> \<exists>ps. import_result pIL s s' ps"
proof -
  have small: "m_CodeSize s < 4294967296" using N(2) by simp
  show ?thesis using ImportIL_resolved [OF s N] resolved_result [OF _ small] by (auto split: sum.splits)
qed

text \<open>Exporting what was imported.\<close>

lemma import_result_export:
  assumes "import_result pIL s0 s ps"
  shows "export_state ps s = lay_out ps s"
    and "enc_code (heap (export_state ps s)) 0 ps = take (m_CodeSize s0) pIL"
  using assms by (simp_all add: import_result_def export_state_def Let_def)

section \<open>The exception clauses\<close>

definition clause_bytes :: "eh_clause_fat \<Rightarrow> byte list" where
  "clause_bytes c =
     le_bytes 4 (GetFlags c) @ le_bytes 4 (of_nat (GetTryOffset c) :: u32)
     @ le_bytes 4 (of_nat (GetTryLength c) :: u32) @ le_bytes 4 (of_nat (GetHandlerOffset c) :: u32)
     @ le_bytes 4 (of_nat (GetHandlerLength c) :: u32) @ le_bytes 4 (GetClassTokenOrFilterOffset c)"

lemma il_ring_next_prev:
  assumes "il_ring s ps" and "p \<in> insert m_IL (set ps)"
  shows "m_pNext (heap s (m_pPrev (heap s p))) = p"
proof -
  obtain as bs where "ps @ [m_IL] = as @ p # bs"
    using assms(2) by (metis append_Nil2 in_set_conv_decomp insert_iff split_list append_Cons append_assoc)
  moreover obtain cs q where "m_IL # as = cs @ [q]" by (metis list.distinct(1) rev_exhaust)
  ultimately have "m_IL # ps @ [m_IL] = cs @ q # p # bs" by simp
  then have "linked (heap s) (cs @ q # p # bs)" using assms(1) by (simp add: il_ring_def)
  from linked_appendD(2) [OF this] show ?thesis by simp
qed

lemma import_clause_bytes:
  assumes res: "import_result pIL s0 s ps" and imp: "import_clause c s = Inr c'"
    and ring: "il_ring s ps"
  shows "export_clause (lay_out ps s) c' = clause_bytes c" and "clause_union_ok c'"
proof -
  let ?o = "\<lambda>p. m_offset (heap (lay_out ps s) p)"
  from imp obtain tb te hb he u where
    g: "GetInstrFromOffset (GetTryOffset c) s = Inr tb"
    "GetInstrFromOffset (w32 (GetTryOffset c + GetTryLength c)) s = Inr te"
    "GetInstrFromOffset (GetHandlerOffset c) s = Inr hb"
    "GetInstrFromOffset (w32 (GetHandlerOffset c + GetHandlerLength c)) s = Inr he"
    and u: "(if GetFlags c AND COR_ILEXCEPTION_CLAUSE_FILTER = 0
         then Inr (ClassToken (GetClassTokenOrFilterOffset c))
         else bindE (GetInstrFromOffset (unat (GetClassTokenOrFilterOffset c)) s)
                (\<lambda>p. Inr (Filter p))) = Inr u"
    and c': "c' = \<lparr>m_Flags = GetFlags c, m_pTryBegin = tb, m_pTryEnd = te,
            m_pHandlerBegin = hb, m_pHandlerEnd = m_pPrev (heap s he), m_union = u\<rparr>"
    by (simp only: import_clause_def bindE_eq_Inr) blast
  have at: "p \<in> insert m_IL (set ps)" "?o p = n" if "GetInstrFromOffset n s = Inr p" for n p
    using res that by (simp_all add: import_result_def)
  have he: "m_pNext (heap s (m_pPrev (heap s he))) = he"
    by (rule il_ring_next_prev [OF ring at(1) [OF g(4)]])
  have sub: "of_nat (w32 (a + b)) - of_nat a = (of_nat b :: u32)" for a b
  proof -
    have "of_nat (w32 (a + b)) = (of_nat (a + b) :: u32)"
      by (simp only: word_of_nat_eq_iff take_bit_eq_mod len_of_numeral_defs) simp
    then show ?thesis by simp
  qed
  show "clause_union_ok c'"
    using u by (auto simp: c' clause_union_ok_def res_simps split: if_splits)
  have union: "(case u of ClassToken tk \<Rightarrow> tk | Filter p \<Rightarrow> of_nat (?o p)) = GetClassTokenOrFilterOffset c"
    using u at(2) by (auto simp: res_simps split: if_splits)
  show "export_clause (lay_out ps s) c' = clause_bytes c"
    using union by (simp add: export_clause_def clause_bytes_def c' he at(2) [OF g(1)] at(2) [OF g(2)]
        at(2) [OF g(3)] at(2) [OF g(4)] sub Let_def)
qed

lemma lay_out_heap_cong:
  assumes "heap s = heap t"
  shows "heap (lay_out ps s) = heap (lay_out ps t)"
proof -
  have "heap (assign_offsets off ps s) = heap (assign_offsets off ps t)" for off
    using assms by (induction ps arbitrary: off s t) (simp_all add: frame_simps)
  then show ?thesis using assms by (simp add: lay_out_def frame_simps)
qed

lemma lay_out_frame [simp]:
  "m_nInstrs (lay_out ps s) = m_nInstrs s" "m_nEH (lay_out ps s) = m_nEH s"
  "m_pEH (lay_out ps s) = m_pEH s" "m_flags (lay_out ps s) = m_flags s"
  "m_maxStack (lay_out ps s) = m_maxStack s" "m_tkLocalVarSig (lay_out ps s) = m_tkLocalVarSig s"
  "m_fGenerateTinyHeader (lay_out ps s) = m_fGenerateTinyHeader s"
  by (simp_all add: lay_out_def frame_simps)

definition section_bytes :: "eh_clause_fat list \<Rightarrow> byte list" where
  "section_bytes cs = (if cs = [] then [] else fat_section (length cs) @ concat (map clause_bytes cs))"

lemma import_clause_nEH [simp]: "import_clause c (s\<lparr>m_nEH := n\<rparr>) = import_clause c s"
  by (simp add: import_clause_def GetInstrFromOffset_def)

lemma mapE_all2: "mapE f xs = Inr ys \<longleftrightarrow> list_all2 (\<lambda>x y. f x = Inr y) xs ys"
  by (induction xs arbitrary: ys) (auto simp: res_simps list_all2_Cons1)

lemma ImportEH_export:
  assumes res: "import_result pIL s0 s ps" and none: "m_pEH s0 = None"
    and imp: "ImportEH cs s = Inr s'"
  shows "export_clauses (lay_out ps s') = Inr (section_bytes cs)" and "heap s' = heap s"
    and "m_nEH s' = length cs"
proof -
  have sNone: "m_pEH s = None" using res none by (simp add: import_result_def same_members_def)
  have ring: "il_ring s ps" using res by (simp add: import_result_def il_wf_def)
  have "heap s' = heap s \<and> m_nEH s' = length cs
      \<and> export_clauses (lay_out ps s') = Inr (section_bytes cs)"
  proof (cases "cs = []")
    case True
    then show ?thesis using imp sNone by (auto simp: ImportEH_def export_clauses_def section_bytes_def)
  next
    case False
    with imp sNone obtain cl where cl: "mapE (\<lambda>c. import_clause c s) cs = Inr cl"
      and s': "s' = s\<lparr>m_nEH := length cs, m_pEH := Some cl\<rparr>"
      by (auto simp: ImportEH_def Let_def res_simps)
    have heap: "heap (lay_out ps s') = heap (lay_out ps s)" by (rule lay_out_heap_cong) (simp add: s')
    have all: "list_all2 (\<lambda>c c'. import_clause c s = Inr c') cs cl" using cl by (simp add: mapE_all2)
    then have len: "length cl = length cs" by (simp add: list_all2_lengthD)
    have "list_all2 (\<lambda>c c'. export_clause (lay_out ps s) c' = clause_bytes c \<and> clause_union_ok c') cs cl"
      using all by (rule list_all2_mono) (use import_clause_bytes [OF res _ ring] in blast)
    then have "map (export_clause (lay_out ps s)) cl = map clause_bytes cs \<and> list_all clause_union_ok cl"
      by (induction rule: list_all2_induct) simp_all
    moreover have "export_clause (lay_out ps s') = export_clause (lay_out ps s)"
      by (simp add: export_clause_def heap fun_eq_iff)
    ultimately show ?thesis
      using False len by (simp add: s' export_clauses_def section_bytes_def)
  qed
  then show "export_clauses (lay_out ps s') = Inr (section_bytes cs)" "heap s' = heap s"
    "m_nEH s' = length cs" by simp_all
qed

section \<open>Import and Export of a whole body\<close>

lemma length_section_bytes:
  "length (section_bytes cs) = (if cs = [] then 0 else 4 + 24 * length cs)"
proof -
  have "length (clause_bytes c) = 24" for c by (simp add: clause_bytes_def)
  then have "length (concat (map clause_bytes cs)) = 24 * length cs" for cs
    by (induction cs) simp_all
  then show ?thesis by (simp add: section_bytes_def fat_section_def)
qed

lemma length_fat_header: "length (fat_header f m n tk) = 12"
  by (simp add: fat_header_def)

lemma alignedCodeSize_le:
  assumes "n + 3 < 4294967296"
  shows "n \<le> alignedCodeSize n" and "alignedCodeSize n \<le> n + 3"
proof -
  have "w32 (n + 3) = n + 3" using assms by simp
  then have "alignedCodeSize n = (n + 3) div 4 * 4" by (simp only: alignedCodeSize_def)
  then show "n \<le> alignedCodeSize n" "alignedCodeSize n \<le> n + 3" by presburger+
qed

text \<open>Four consecutive writes into a fresh buffer of the right size.\<close>

lemma write_body:
  assumes "length m = length hdr + al + length sec" and "length code \<le> al"
  shows "\<exists>pad. length pad = al - length code
    \<and> bindE (write_bytes hdr 0 m) (\<lambda>m. bindE (write_bytes code (length hdr) m)
        (\<lambda>m. write_bytes sec (length hdr + al) m)) = Inr (hdr @ code @ pad @ sec)"
proof -
  define pad where "pad = take (al - length code) (drop (length hdr + length code) m)"
  let ?m1 = "drop (length hdr) m"
  have 1: "write_bytes hdr 0 m = Inr (hdr @ ?m1)"
    using assms by (simp add: write_bytes_def)
  have 2: "write_bytes code (length hdr) (hdr @ ?m1) = Inr (hdr @ code @ drop (length code) ?m1)"
    using assms by (simp add: write_bytes_def)
  have lp: "length pad = al - length code" using assms by (simp add: pad_def)
  have e: "al - length code + (length hdr + length code) = length hdr + al" using assms(2) by simp
  have "drop (length hdr + length code) m = pad @ drop (al - length code) (drop (length hdr + length code) m)"
    unfolding pad_def by (rule append_take_drop_id [symmetric])
  then have "drop (length hdr + length code) m = pad @ drop (length hdr + al) m"
    unfolding drop_drop e .
  then have split: "drop (length code) ?m1 = pad @ drop (length hdr + al) m"
    by (simp add: add.commute)
  have 3: "write_bytes sec (length hdr + al) (hdr @ code @ drop (length code) ?m1)
      = Inr (hdr @ code @ pad @ sec)"
    unfolding split
    using write_bytes_at [of sec "drop (length hdr + al) m" "hdr @ code @ pad"] assms lp
    by (simp add: add.assoc)
  show ?thesis using lp by (intro exI [of _ pad]) (simp add: 1 2 3 del: drop_drop)
qed

definition fresh_rewriter :: "ILRewriter \<Rightarrow> bool" where
  "fresh_rewriter s \<longleftrightarrow> il_ring s [] \<and> m_nInstrs s = 0 \<and> m_pEH s = None \<and> \<not> m_fGenerateTinyHeader s"

lemma fresh_rewriter_new: "fresh_rewriter (ILRewriter_new junk)"
  using il_ring_new [of junk] by (simp add: fresh_rewriter_def ILRewriter_new_def)

text \<open>The body that \<open>Export\<close> hands over after \<open>Import\<close>, except for the alignment padding.\<close>

lemma Import_Export_raw:
  assumes s: "fresh_rewriter s" and imp: "Import (Inr d) s = Inr s'"
    and code: "GetCodeSize d \<le> length (Code d)" "10 * GetCodeSize d + 10 < 4294967296"
    and stack: "GetMaxStack d < 65536"
    and total: "GetCodeSize d + 24 * length (EH d) + 19 < 4294967296"
    and new: "\<And>n. length (new n) = n" and alloc: "\<And>n. \<exists>m. alloc n = Some m \<and> length m = n"
    and set: "\<And>b. set_body b = None"
  shows "\<exists>pad ps. length pad = alignedCodeSize (GetCodeSize d) - GetCodeSize d
    \<and> m_maxStack s' = w32 (GetMaxStack d + stack_pushes (il_list s' ps))
    \<and> Export new alloc set_body s' = Inr (fat_header
          ((GetHeaderFlags d AND CorILMethod_InitLocals)
            OR (if EH d \<noteq> [] then CorILMethod_MoreSects else 0) OR CorILMethod_FatFormat)
          (m_maxStack s') (GetCodeSize d) (GetLocalVarSigTok d)
        @ take (GetCodeSize d) (Code d) @ pad @ section_bytes (EH d), lay_out ps s')"
proof -
  let ?N = "GetCodeSize d"
  define s0 where "s0 = s\<lparr>m_tkLocalVarSig := GetLocalVarSigTok d, m_maxStack := GetMaxStack d,
    m_flags := GetHeaderFlags d AND CorILMethod_InitLocals, m_CodeSize := ?N\<rparr>"
  have s0: "il_ring s0 []" "m_nInstrs s0 = 0" "m_maxStack s0 < 4294967296" "m_pEH s0 = None"
    "\<not> m_fGenerateTinyHeader s0" "m_CodeSize s0 = ?N" "m_CodeSize s0 \<le> length (Code d)"
    "m_CodeSize s0 + 10 < 4294967296"
    using s code stack by (simp_all add: s0_def fresh_rewriter_def il_ring_def)
  from imp obtain s1 where s1: "ImportIL (Code d) s0 = Inr s1" "ImportEH (EH d) s1 = Inr s'"
    by (auto simp: Import_def s0_def Let_def res_simps)
  from ImportIL_result [OF s0(1-3,7,8)] s1(1) obtain ps where res: "import_result (Code d) s0 s1 ps"
    by auto
  note eh = ImportEH_export [OF res s0(4) s1(2)]
  have same: "same_members s0 s1" and wf1: "il_wf s1 ps" and n: "m_nInstrs s1 = length ps" "length ps \<le> ?N"
    using res s0(6) by (simp_all add: import_result_def)
  have s': "m_nInstrs s' = m_nInstrs s1" "fresh s' = fresh s1" "m_maxStack s' = m_maxStack s1"
    "m_flags s' = m_flags s1" "m_tkLocalVarSig s' = m_tkLocalVarSig s1"
    "m_fGenerateTinyHeader s' = m_fGenerateTinyHeader s1"
    using s1(2) by (auto simp: ImportEH_def Let_def res_simps split: if_splits)
  have list: "il_list s' ps = il_list s1 ps" by (rule il_list_cong) (simp add: eh(2))
  have wf: "il_wf s' ps" using wf1 by (simp add: il_wf_def il_ring_def eh(2) s')
  have lh: "heap (lay_out ps s') = heap (lay_out ps s1)" by (rule lay_out_heap_cong) (rule eh(2))
  have small: "10 * m_nInstrs s' + 10 < 4294967296" using code(2) n s'(1) by simp
  have fits: "\<not> list_ex (needs_widening (heap (lay_out ps s'))) ps"
    and enc: "enc_code (heap (lay_out ps s')) 0 ps = take ?N (Code d)"
    using res s0(6) by (simp_all add: import_result_def lh)
  have st: "export_state ps s' = lay_out ps s'" using fits by (simp add: export_state_def Let_def)
  have ec: "ExportCode new s' = Inr (take ?N (Code d), lay_out ps s')"
    using ExportCode_raw(2) [OF wf small new] by (simp add: st enc)
  let ?fl = "(GetHeaderFlags d AND CorILMethod_InitLocals)
            OR (if EH d \<noteq> [] then CorILMethod_MoreSects else 0) OR CorILMethod_FatFormat"
  let ?hdr = "fat_header ?fl (m_maxStack s') ?N (GetLocalVarSigTok d)"
  have mem: "m_flags s' = GetHeaderFlags d AND CorILMethod_InitLocals"
    "m_tkLocalVarSig s' = GetLocalVarSigTok d" "\<not> m_fGenerateTinyHeader s'"
    using same s0(5) by (simp_all add: s' same_members_def s0_def)
  have lc: "length (take ?N (Code d)) = ?N" using code(1) by simp
  have al: "?N \<le> alignedCodeSize ?N" "alignedCodeSize ?N \<le> ?N + 3"
    using alignedCodeSize_le [of ?N] total by simp_all
  have sec: "length (section_bytes (EH d)) = (if m_nEH s' \<noteq> 0 then 4 + 24 * m_nEH s' else 0)"
    by (simp add: length_section_bytes eh(3))
  let ?total = "12 + alignedCodeSize ?N + (if m_nEH s' \<noteq> 0 then 4 + 24 * m_nEH s' else 0)"
  have "w32 ?total = ?total" using al total by (simp add: eh(3))
  moreover obtain m where m: "alloc ?total = Some m" "length m = ?total" using alloc by blast
  moreover from write_body [of m ?hdr "alignedCodeSize ?N" "section_bytes (EH d)" "take ?N (Code d)"]
  obtain pad where pad: "length pad = alignedCodeSize ?N - ?N"
    "bindE (write_bytes ?hdr 0 m) (\<lambda>m. bindE (write_bytes (take ?N (Code d)) 12 m)
        (\<lambda>m. write_bytes (section_bytes (EH d)) (12 + alignedCodeSize ?N) m))
      = Inr (?hdr @ take ?N (Code d) @ pad @ section_bytes (EH d))"
    using m(2) al sec lc by (auto simp: length_fat_header)
  moreover have "(if m_nEH s' \<noteq> 0 then CorILMethod_MoreSects else 0)
      = (if EH d \<noteq> [] then CorILMethod_MoreSects else 0)" by (simp add: eh(3))
  ultimately have "Export new alloc set_body s'
      = Inr (?hdr @ take ?N (Code d) @ pad @ section_bytes (EH d), lay_out ps s')"
    using mem set
    by (simp only: Export_def ec bindE_Inr prod.case Let_def lc lay_out_frame if_False eh(1) option.case)
  moreover have "m_maxStack s' = w32 (GetMaxStack d + stack_pushes (il_list s' ps))"
    using res by (simp add: s'(3) list import_result_def s0_def)
  ultimately show ?thesis using pad(1) by blast
qed

end
