(* ===== verification/ILProperties.thy ===== *)
theory ILProperties
  imports ILRoundTrip
begin

text \<open>
  What the IL rewriter guarantees, over the lemmas of the component's theories: the state
  after \<open>Import\<close>, the bytes that \<open>Export\<close> hands over, where the branches of the exported code
  lead, and what the insertions of the instrumentation code keep.
\<close>

section \<open>Evaluating the model on a small body\<close>

text \<open>\<open>ldarg.0; brtrue.s L; ldnull; ret; L: ldarg.0; ret\<close>.\<close>

definition demo_code :: "byte list" where
  "demo_code = [0x02, 0x2D, 0x02, 0x14, 0x2A, 0x02, 0x2A]"

definition demo_memory :: ILRewriter where
  "demo_memory = \<lparr>heap = (\<lambda>_. zero_instr), fresh = 0, m_tkLocalVarSig = 0, m_maxStack = 0, m_flags = 0,
     m_fGenerateTinyHeader = False, m_nEH = 0, m_pEH = None, m_pOffsetToInstr = [], m_CodeSize = 0,
     m_nInstrs = 0\<rparr>"

definition demo_clause :: eh_clause_fat where
  "demo_clause = \<lparr>GetFlags = 2, GetTryOffset = 0, GetTryLength = 3, GetHandlerOffset = 3,
     GetHandlerLength = 2, GetClassTokenOrFilterOffset = 0\<rparr>"

definition demo_body :: method_decoder where
  "demo_body = \<lparr>GetLocalVarSigTok = 0x11000001, GetMaxStack = 8, GetHeaderFlags = 0x1B, GetCodeSize = 7,
     Code = demo_code, EH = [demo_clause]\<rparr>"

lemma demo_opcodes:
  "op_flags 0x02 = 0" "op_flags 0x2D = 17" "op_flags 0x14 = 0" "op_flags 0x2A = 0"
  "k_rgnStackPushes ! 0x02 = 1" "k_rgnStackPushes ! 0x2D = 0" "k_rgnStackPushes ! 0x14 = 1"
  "k_rgnStackPushes ! 0x2A = 0"
  by (simp_all add: s_OpCodeFlags_def k_rgnStackPushes_def opdefs_def opdef_one_byte_def nth_append)

lemma import_loop_step:
  "import_loop k pIL offset fBranch s =
     (if offset < m_CodeSize s then
        if k = 0 then Inl NoFuel
        else bindE (import_instr pIL offset s) (\<lambda>(offset, branch, s).
          import_loop (k - 1) pIL offset (fBranch \<or> branch) s)
      else Inr (offset, fBranch, s))"
  by (cases k) simp_all

lemma demo_import: "\<exists>s'. Import (Inr demo_body) (ILRewriter_new demo_memory) = Inr s'"
  by (simp add: Import_def ImportIL_def demo_body_def demo_memory_def demo_code_def ILRewriter_new_def
     import_loop_step set_opcode_def set_arg_def upd_instr_def Let_def
    import_instr_def import_opcode_def read_le_def append_instr_def NewILInstr_def InsertBefore_def set_next_def
    set_prev_def AdjustState_def import_operand_def zero_instr_def demo_opcodes il_nodes_def
    resolve_target_def GetInstrFromOffset_def ImportEH_def demo_clause_def import_clause_def)

section \<open>Where the exported branches lead\<close>

lemma le_word_bytes: "(le_word (le_bytes n w) :: 'a word) = take_bit (8 * n) (w :: 'a::len word)"
proof (induction n arbitrary: w)
  case (Suc n)
  show ?case
  proof (rule bit_word_eqI)
    fix i assume i: "i < LENGTH('a)"
    show "bit (le_word (le_bytes (Suc n) w) :: 'a word) i = bit (take_bit (8 * Suc n) w) i"
      using Suc i by (cases "i < 8") (auto simp: bit_simps)
  qed
qed simp

lemma le_word_bytes_4: "le_word (le_bytes 4 w) = (w :: u32)"
  by (simp only: le_word_bytes) (simp add: take_bit_word_eq_self)

lemma enc_code_at:
  assumes "laid_out h off ps" and "\<And>q. q \<in> set ps \<Longrightarrow> instr_ok P (h q)" and "p \<in> set ps"
  shows "off \<le> m_offset (h p) \<and> (\<exists>sb. take (instr_size (m_opcode (h p)))
      (drop (m_offset (h p) - off) (enc_code h sb0 ps)) = enc_instr h sb p)"
  using assms
proof (induction ps arbitrary: off sb0)
  case (Cons q ps)
  let ?n = "instr_size (m_opcode (h q))"
  have len: "length (enc_instr h sb0 q) = ?n"
    using Cons.prems(2) [of q] by (intro length_enc_instr [where P = P]) simp
  show ?case
  proof (cases "p = q")
    case True
    then show ?thesis using Cons.prems(1) len by (auto intro!: exI [of _ sb0])
  next
    case False
    with Cons.IH [of "off + ?n" "next_switch_base h q sb0"] Cons.prems
    have IH: "off + ?n \<le> m_offset (h p)"
      "\<exists>sb. take (instr_size (m_opcode (h p))) (drop (m_offset (h p) - (off + ?n))
        (enc_code h (next_switch_base h q sb0) ps)) = enc_instr h sb p"
      by auto
    then have "drop (m_offset (h p) - off) (enc_code h sb0 (q # ps))
        = drop (m_offset (h p) - (off + ?n)) (enc_code h (next_switch_base h q sb0) ps)"
      using len by simp
    then show ?thesis using IH by simp
  qed
qed simp

lemma laid_out_linked_next:
  assumes "laid_out h off ps" and "linked h (ps @ [m_IL])" and "p \<in> set ps"
  shows "m_offset (h (m_pNext (h p))) = m_offset (h p) + instr_size (m_opcode (h p))"
  using assms
proof (induction ps arbitrary: off)
  case (Cons q ps)
  then show ?case
    using laid_out_next [of h off q ps] by (cases ps) auto
qed simp

text \<open>The displacement bytes of a branch end where the next instruction begins.\<close>

lemma displacement_bytes:
  assumes st: "settled s ps" and p: "p \<in> set ps" and br: "is_branch (m_opcode (heap s p))"
    and nsw: "m_opcode (heap s p) \<noteq> CEE_SWITCH_ARG" and t: "m_arg (heap s p) = Target t"
  defines "after \<equiv> m_offset (heap s (m_pNext (heap s p)))"
  defines "k \<equiv> operand_size (m_opcode (heap s p))"
  shows "take k (drop (after - k) (enc_code (heap s) 0 ps))
    = le_bytes k (branch_delta (m_offset (heap s t)) after)"
proof -
  let ?h = "heap s" and ?op = "m_opcode (heap s p)" and ?o = "opcode_bytes (m_opcode (heap s p))"
  have wf: "il_wf s ps" and lo: "laid_out ?h 0 ps" using st by (simp_all add: settled_def)
  have ok: "q \<in> set ps \<Longrightarrow> instr_ok (insert m_IL (set ps)) (?h q)" for q
    using wf by (simp add: il_wf_def)
  have "linked ?h (ps @ [m_IL])" using wf by (simp add: il_wf_def il_ring_linked)
  then have after: "after = m_offset (?h p) + instr_size ?op"
    unfolding after_def using lo p by (simp add: laid_out_linked_next)
  obtain sb where "take (instr_size ?op) (drop (m_offset (?h p)) (enc_code ?h 0 ps)) = enc_instr ?h sb p"
    using enc_code_at [OF lo ok p, of 0] by auto
  also have "enc_instr ?h sb p = ?o @ le_bytes k (branch_delta (m_offset (?h t)) after)"
    using br nsw by (simp add: enc_instr_def t branch_base_def after k_def)
  finally have "drop (length ?o) (take (instr_size ?op) (drop (m_offset (?h p)) (enc_code ?h 0 ps)))
      = le_bytes k (branch_delta (m_offset (?h t)) after)" by simp
  then show ?thesis
    by (simp add: drop_take instr_size_def after k_def add.commute)
qed

section \<open>What code generation changes in the list\<close>

text \<open>The operands and the links stay; an opcode stays or is a short branch that was widened.\<close>

definition widened_to :: "nat \<Rightarrow> nat \<Rightarrow> bool" where
  "widened_to op op' \<longleftrightarrow> op' = op \<or> op_flags op = 17 \<and> op' = long_form op"

lemma widen_all_opcode:
  "distinct qs \<Longrightarrow> widened_to (m_opcode (heap s p)) (m_opcode (heap (widen_all qs s) p))"
proof (induction qs arbitrary: s)
  case (Cons q qs)
  let ?s = "widen_all [q] s"
  have IH: "widened_to (m_opcode (heap ?s p)) (m_opcode (heap (widen_all qs ?s) p))"
    using Cons by simp
  show ?case
  proof (cases "p = q")
    case True
    then have "m_opcode (heap (widen_all qs ?s) p) = m_opcode (heap ?s p)"
      using Cons.prems widen_all_members(5) [of p qs ?s] by simp
    moreover have "widened_to (m_opcode (heap s p)) (m_opcode (heap ?s p))"
      using True by (simp add: widened_to_def needs_widening_def)
    ultimately show ?thesis unfolding widen_all_Cons [of q qs] by simp
  next
    case False
    then have "m_opcode (heap ?s p) = m_opcode (heap s p)" by simp
    then show ?thesis using IH unfolding widen_all_Cons [of q qs] by simp
  qed
qed (simp add: widened_to_def)

lemma settle_members:
  assumes "il_wf s ps"
  shows "m_arg (heap (settle k ps s) p) = m_arg (heap s p)
    \<and> m_pNext (heap (settle k ps s) p) = m_pNext (heap s p)
    \<and> m_fGenerateTinyHeader (settle k ps s) = m_fGenerateTinyHeader s
    \<and> (p \<in> set ps \<longrightarrow> widened_to (m_opcode (heap s p)) (m_opcode (heap (settle k ps s) p)))"
  using assms
proof (induction k arbitrary: s)
  case (Suc k)
  let ?s = "lay_out ps s" and ?w = "widen_all ps (lay_out ps s)"
  have wf: "il_wf ?s ps" using Suc.prems by simp
  have wf': "il_wf ?w ps" by (rule il_wf_widen_all [OF wf subset_refl])
  have d: "distinct ps" using wf by (simp add: il_wf_def il_ring_def)
  have tiny: "m_fGenerateTinyHeader (widen_all qs t) = m_fGenerateTinyHeader t" for qs t
    by (induction qs arbitrary: t) (simp_all add: frame_simps)
  have trans: "widened_to op op''" if "op < 296" "widened_to op op'" "widened_to op' op''" for op op' op''
    using that long_form(2) [of op] by (auto simp: widened_to_def)
  have op: "m_opcode (heap s p) < 296" if "p \<in> set ps"
    using that Suc.prems by (auto simp: il_wf_def instr_ok_def)
  have step: "widened_to (m_opcode (heap s p)) (m_opcode (heap ?w p))"
    using widen_all_opcode [OF d, of ?s p] by simp
  have "widened_to (m_opcode (heap s p)) (m_opcode (heap (settle k ps ?w) p))" if "p \<in> set ps"
    using Suc.IH [OF wf'] trans [OF op [OF that] step] that by blast
  then show ?case
    using Suc.IH [OF wf'] by (auto simp: Let_def tiny widened_to_def)
qed (simp add: widened_to_def)

lemma export_state_members:
  assumes "il_wf s ps"
  shows "m_arg (heap (export_state ps s) p) = m_arg (heap s p)"
    and "m_pNext (heap (export_state ps s) p) = m_pNext (heap s p)"
    and "m_fGenerateTinyHeader (export_state ps s) = m_fGenerateTinyHeader s"
    and "p \<in> set ps \<Longrightarrow> widened_to (m_opcode (heap s p)) (m_opcode (heap (export_state ps s) p))"
  using settle_members [OF assms, of "Suc (length ps)" p] unfolding export_state_def by blast+

section \<open>Insertions keep a rewriter well formed\<close>

lemma instr_ok_mono: "instr_ok P i \<Longrightarrow> P \<subseteq> Q \<Longrightarrow> instr_ok Q i"
  by (cases "m_arg i") (auto simp: instr_ok_def)

lemma set_insert_before: "set (insert_before w x ps) = insert x (set ps)"
  by (metis insert_before_def list.simps(15) set_append takeWhile_dropWhile_id Un_insert_right)

lemma length_insert_before: "length (insert_before w x ps) = Suc (length ps)"
  by (metis insert_before_def length_append length_Cons add_Suc_right takeWhile_dropWhile_id)

text \<open>A new node is not counted in the list until it is linked in.\<close>

lemma InsertBefore_wf_raw:
  assumes "il_wf s ps" and "w \<in> insert m_IL (set ps)" and "x \<notin> insert m_IL (set ps)"
    and "x < fresh s" and "length ps < m_nInstrs s" and "instr_ok (insert m_IL (insert x (set ps))) (heap s x)"
  shows "il_wf (InsertBefore w x s) (insert_before w x ps)"
proof -
  let ?P = "insert m_IL (set (insert_before w x ps))"
  have "instr_ok ?P (heap (InsertBefore w x s) q)" if "q \<in> set (insert_before w x ps)" for q
  proof -
    have "instr_ok ?P (heap s q)"
      using that assms(1,6) instr_ok_mono [of "insert m_IL (set ps)" "heap s q" ?P]
      by (auto simp: set_insert_before il_wf_def insert_commute)
    then show ?thesis by (simp add: instr_ok_def frame_simps)
  qed
  moreover have "il_ring (InsertBefore w x s) (insert_before w x ps)"
    using assms by (intro InsertBefore_ring) (simp_all add: il_wf_def)
  ultimately show ?thesis
    using assms(5) by (simp add: il_wf_def length_insert_before frame_simps)
qed

section \<open>A small rewriter\<close>

text \<open>\<open>ldnull; brtrue.s L; ret; L: ret\<close> as a ring of the nodes 1 to 4, and the unlinked node 5.\<close>

definition demo_node :: "ptr \<Rightarrow> ptr \<Rightarrow> nat \<Rightarrow> operand \<Rightarrow> ILInstr" where
  "demo_node n p opcode a = \<lparr>m_pNext = n, m_pPrev = p, m_opcode = opcode, m_offset = 0, m_arg = a\<rparr>"

definition demo_rewriter :: ILRewriter where
  "demo_rewriter = demo_memory\<lparr>fresh := 6, m_nInstrs := 5, m_fGenerateTinyHeader := True,
     heap := (\<lambda>_. zero_instr)(0 := demo_node 1 4 0 Zeroed, 1 := demo_node 2 0 0x14 Zeroed,
       2 := demo_node 3 1 0x2D (Target 4), 3 := demo_node 4 2 0x2A Zeroed, 4 := demo_node 0 3 0x2A Zeroed,
       5 := demo_node 0 0 0x02 Zeroed)\<rparr>"

lemma demo_ring: "il_ring demo_rewriter [1, 2, 3, 4]"
  by (simp add: il_ring_def demo_rewriter_def demo_node_def)

lemma demo_wf: "il_wf demo_rewriter [1, 2, 3, 4]"
  using demo_ring
  by (simp add: il_wf_def) (simp add: instr_ok_def demo_rewriter_def demo_node_def demo_opcodes)

section \<open>Properties\<close>

text \<open>C1. Importing a method body and exporting it unchanged hands the CLR the same IL bytes and
  the same exception clauses, in a fat body; only the header's stack depth grows (by the pushes
  of every instruction) and the alignment padding is whatever the memory held.\<close>

theorem Import_Export_roundtrip:
  assumes "fresh_rewriter s" and "Import (Inr d) s = Inr s'"
    and "GetCodeSize d \<le> length (Code d)" "10 * GetCodeSize d + 10 < 4294967296"
    and "GetMaxStack d < 65536" and "GetCodeSize d + 24 * length (EH d) + 19 < 4294967296"
    and "\<forall>n. length (new n) = n" and "\<forall>n. \<exists>m. alloc n = Some m \<and> length m = n"
    and "\<forall>b. set_body b = None"
  shows "\<exists>pad ps. length pad = alignedCodeSize (GetCodeSize d) - GetCodeSize d
    \<and> m_maxStack s' = w32 (GetMaxStack d + stack_pushes (il_list s' ps))
    \<and> Export new alloc set_body s' = Inr (fat_header
          ((GetHeaderFlags d AND CorILMethod_InitLocals)
            OR (if EH d \<noteq> [] then CorILMethod_MoreSects else 0) OR CorILMethod_FatFormat)
          (m_maxStack s') (GetCodeSize d) (GetLocalVarSigTok d)
        @ take (GetCodeSize d) (Code d) @ pad @ section_bytes (EH d), lay_out ps s')"
  using assms by (intro Import_Export_raw) auto

theorem Import_Export_roundtrip_witness:
  "\<exists>s' pad ps. length pad = 1
    \<and> m_maxStack s' = w32 (8 + stack_pushes (il_list s' ps))
    \<and> Export (\<lambda>n. replicate n 0xCC) (\<lambda>n. Some (replicate n 0xCD)) (\<lambda>b. None) s'
      = Inr (fat_header 0x1B (m_maxStack s') 7 0x11000001 @ demo_code @ pad
          @ section_bytes [demo_clause], lay_out ps s')"
proof -
  obtain s' where "Import (Inr demo_body) (ILRewriter_new demo_memory) = Inr s'"
    using demo_import by blast
  from Import_Export_roundtrip [OF fresh_rewriter_new this, of "\<lambda>n. replicate n 0xCC"
      "\<lambda>n. Some (replicate n 0xCD)" "\<lambda>b. None"]
  show ?thesis by (auto simp: demo_body_def demo_code_def alignedCodeSize_def)
qed

text \<open>C4. ImportIL returns for every byte sequence: with COR_E_INVALIDPROGRAM, or with a
  well-formed instruction ring whose encoding is the input. It never reads past the code and
  never confuses the members of an operand.\<close>

theorem ImportIL_total:
  assumes "il_ring s []" "m_nInstrs s = 0" "m_maxStack s < 4294967296"
    and "m_CodeSize s \<le> length pIL" "m_CodeSize s + 10 < 4294967296"
  shows "case ImportIL pIL s of
      Inl e \<Rightarrow> e = COR_E_INVALIDPROGRAM
    | Inr s' \<Rightarrow> \<exists>ps. il_wf s' ps \<and> m_nInstrs s' = length ps
        \<and> enc_code (heap (lay_out ps s')) 0 ps = take (m_CodeSize s) pIL"
proof -
  have "case ImportIL pIL s of Inl e \<Rightarrow> e = COR_E_INVALIDPROGRAM
    | Inr s' \<Rightarrow> \<exists>ps. import_result pIL s s' ps"
    using assms by (rule ImportIL_result)
  then show ?thesis by (auto simp: import_result_def split: sum.splits)
qed

text \<open>A lone two-byte opcode prefix is rejected.\<close>

definition demo_prefix :: ILRewriter where
  "demo_prefix = ILRewriter_new demo_memory\<lparr>m_CodeSize := 1\<rparr>"

theorem ImportIL_total_witness:
  "case ImportIL [0xFE] demo_prefix of
      Inl e \<Rightarrow> e = COR_E_INVALIDPROGRAM
    | Inr s' \<Rightarrow> \<exists>ps. il_wf s' ps \<and> m_nInstrs s' = length ps
        \<and> enc_code (heap (lay_out ps s')) 0 ps = take (m_CodeSize demo_prefix) [0xFE]"
  by (rule ImportIL_total)
    (simp_all add: demo_prefix_def ILRewriter_new_def demo_memory_def il_ring_def)

text \<open>C3. On a well-formed rewriter the code generation of Export always succeeds: it ends after
  at most one round per instruction, stays inside its buffer, and its code is the encoding of
  the instruction list at the assigned offsets, whatever the uninitialised buffer held.\<close>

theorem ExportCode_encodes:
  assumes "il_wf s ps" and "10 * m_nInstrs s + 10 < 4294967296" and "\<forall>n. length (new n) = n"
  shows "ExportCode new s = Inr (enc_code (heap (export_state ps s)) 0 ps, export_state ps s)
    \<and> laid_out (heap (export_state ps s)) 0 ps"
  using ExportCode_raw [OF assms(1,2), of new] assms(3) by (simp add: settled_def)

theorem ExportCode_encodes_witness:
  "let s = export_state [1, 2, 3, 4] demo_rewriter
   in ExportCode (\<lambda>n. replicate n 0xCC) demo_rewriter = Inr (enc_code (heap s) 0 [1, 2, 3, 4], s)
     \<and> laid_out (heap s) 0 [1, 2, 3, 4]"
  using ExportCode_encodes [OF demo_wf, of "\<lambda>n. replicate n 0xCC"]
  by (simp add: demo_rewriter_def Let_def)

text \<open>C5. Every branch of the exported code leads to its target: the displacement bytes, sign
  extended and added to the offset of the next instruction, give the offset of the target, for
  the short forms and for the long ones.\<close>

theorem ExportCode_branches_reach:
  assumes "il_wf s ps" and "10 * m_nInstrs s + 10 < 4294967296" and "\<forall>n. length (new n) = n"
    and "ExportCode new s = Inr (code, s')" and "p \<in> set ps" and "m_arg (heap s' p) = Target t"
    and "m_opcode (heap s' p) \<noteq> CEE_SWITCH_ARG"
    and "after = m_offset (heap s' (m_pNext (heap s' p)))"
  shows "(op_flags (m_opcode (heap s' p)) = 17 \<longrightarrow>
        of_nat after + scast (le_word (take 1 (drop (after - 1) code)) :: byte)
          = (of_nat (m_offset (heap s' t)) :: u32))
    \<and> (op_flags (m_opcode (heap s' p)) = 20 \<longrightarrow>
        of_nat after + le_word (take 4 (drop (after - 4) code))
          = (of_nat (m_offset (heap s' t)) :: u32))"
proof -
  have s': "s' = export_state ps s" "code = enc_code (heap s') 0 ps" and st: "settled s' ps"
    using ExportCode_raw [OF assms(1,2), of new] assms(3,4) by simp_all
  have op: "m_opcode (heap s' p) < 296"
    using st assms(5) by (auto simp: settled_def il_wf_def instr_ok_def)
  note bytes = displacement_bytes [OF st assms(5) _ assms(7,6), folded assms(8) s'(2)]
  note reach = short_branch_reaches [OF st assms(5) _ assms(6), folded assms(8)]
  let ?d = "branch_delta (m_offset (heap s' t)) after"
  have "of_nat after + scast (le_word (take 1 (drop (after - 1) code)) :: byte)
      = (of_nat (m_offset (heap s' t)) :: u32)" if f: "op_flags (m_opcode (heap s' p)) = 17"
  proof -
    have "take 1 (drop (after - 1) code) = le_bytes 1 ?d"
      using bytes f by (simp add: is_branch_def operand_size_flags [OF op])
    then show ?thesis using reach f by simp
  qed
  moreover have "of_nat after + le_word (take 4 (drop (after - 4) code))
      = (of_nat (m_offset (heap s' t)) :: u32)" if f: "op_flags (m_opcode (heap s' p)) = 20"
  proof -
    have "take 4 (drop (after - 4) code) = le_bytes 4 ?d"
      using bytes f by (simp add: is_branch_def operand_size_flags [OF op])
    then show ?thesis by (simp only: le_word_bytes_4) (simp add: branch_delta_def)
  qed
  ultimately show ?thesis by blast
qed

theorem ExportCode_branches_reach_witness:
  "\<exists>code s'. ExportCode (\<lambda>n. replicate n 0xCC) demo_rewriter = Inr (code, s')
    \<and> (op_flags (m_opcode (heap s' 2)) = 17 \<longrightarrow>
        of_nat (m_offset (heap s' 3))
          + scast (le_word (take 1 (drop (m_offset (heap s' 3) - 1) code)) :: byte)
          = (of_nat (m_offset (heap s' 4)) :: u32))"
proof -
  let ?ps = "[1, 2, 3, 4]" and ?new = "\<lambda>n. replicate n 0xCC"
  let ?s = "export_state ?ps demo_rewriter"
  have small: "10 * m_nInstrs demo_rewriter + 10 < 4294967296" by (simp add: demo_rewriter_def)
  note raw = ExportCode_raw(2) [OF demo_wf small, of ?new, OF length_replicate]
  note mem = export_state_members(1,2,4) [OF demo_wf, of 2]
  have v: "m_pNext (heap demo_rewriter 2) = 3" "m_arg (heap demo_rewriter 2) = Target 4"
    "m_opcode (heap demo_rewriter 2) = 0x2D"
    by (simp_all add: demo_rewriter_def demo_node_def)
  have n: "m_pNext (heap ?s 2) = 3" "m_arg (heap ?s 2) = Target 4"
    using mem v by simp_all
  have op: "m_opcode (heap ?s 2) \<noteq> CEE_SWITCH_ARG"
    using mem v by (auto simp: widened_to_def long_form_def)
  have "\<forall>n. length (?new n) = n" by simp
  have two: "2 \<in> set ?ps" by simp
  note reach = ExportCode_branches_reach [OF demo_wf small \<open>\<forall>n. length (?new n) = n\<close> raw two n(2) op refl,
      unfolded n(1)]
  show ?thesis by (intro exI conjI, rule raw, rule reach [THEN conjunct1])
qed

text \<open>C8. The two insertions implement insertion into the abstract instruction list, at any
  position and at both ends, and keep the doubly linked ring intact.\<close>

theorem Insert_refines:
  assumes "il_ring s ps" and "w \<in> insert m_IL (set ps)" and "x \<notin> insert m_IL (set ps)" "x < fresh s"
  shows "il_ring (InsertBefore w x s) (insert_before w x ps)
    \<and> il_ring (InsertAfter w x s) (insert_after w x ps)"
  using InsertBefore_ring [OF assms] InsertAfter_ring [OF assms] by blast

theorem Insert_refines_witness:
  "il_ring (InsertBefore 3 5 demo_rewriter) [1, 2, 5, 3, 4]
    \<and> il_ring (InsertAfter 3 5 demo_rewriter) [1, 2, 3, 5, 4]"
  using Insert_refines [OF demo_ring, of 3 5]
  by (simp add: insert_before_def insert_after_def demo_rewriter_def)

text \<open>Inserting a new instruction with an operand of the right kind keeps the rewriter well
  formed, so that its code can be exported, with the new instruction in place.\<close>

theorem InsertBefore_wf:
  assumes "il_wf s ps" and "w \<in> insert m_IL (set ps)" and "x \<notin> insert m_IL (set ps)"
    and "x < fresh s" and "length ps < m_nInstrs s"
    and "instr_ok (insert m_IL (insert x (set ps))) (heap s x)"
  shows "il_wf (InsertBefore w x s) (insert_before w x ps)"
  using assms by (rule InsertBefore_wf_raw)

theorem InsertBefore_wf_witness:
  "il_wf (InsertBefore 3 5 demo_rewriter) [1, 2, 5, 3, 4]"
proof -
  have "instr_ok {0, 5, 1, 2, 3, 4} (heap demo_rewriter 5)"
    by (simp add: instr_ok_def demo_rewriter_def demo_node_def demo_opcodes)
  then have "il_wf (InsertBefore 3 5 demo_rewriter) (insert_before 3 5 [1, 2, 3, 4])"
    by (intro InsertBefore_wf [OF demo_wf]) (simp_all add: demo_rewriter_def)
  then show ?thesis by (simp add: insert_before_def)
qed

text \<open>With the tiny header flag, Export hands over one header byte (the format in the low
  two bits, the code size in the upper six) and the code; code of 64 bytes and more is refused
  with E_FAIL.\<close>

theorem Export_tiny:
  assumes "il_wf s ps" and "10 * m_nInstrs s + 10 < 4294967296" and "\<forall>n. length (new n) = n"
    and "m_fGenerateTinyHeader s" and "\<forall>n. \<exists>m. alloc n = Some m \<and> length m = n"
    and "\<forall>b. set_body b = None"
  shows "let s' = export_state ps s; code = enc_code (heap s') 0 ps
    in Export new alloc set_body s =
      (if length code \<ge> 64 then Inl E_FAIL else Inr (of_nat (or 2 (4 * length code)) # code, s'))"
proof -
  let ?s = "export_state ps s"
  let ?code = "enc_code (heap ?s) 0 ps"
  have ec: "ExportCode new s = Inr (?code, ?s)"
    using ExportCode_raw(2) [OF assms(1,2), of new] assms(3) by simp
  have tiny: "m_fGenerateTinyHeader ?s" using export_state_members(3) [OF assms(1)] assms(4) by simp
  obtain m where m: "alloc (w32 (1 + length ?code)) = Some m" "length m = w32 (1 + length ?code)"
    using assms(5) by blast
  show ?thesis
  proof (cases "length ?code \<ge> 64")
    case True
    then show ?thesis by (simp add: Export_def ec tiny)
  next
    case False
    then have len: "length m = Suc (length ?code)" using m(2) by simp
    have "write_bytes [b] 0 m = Inr (b # tl m)" for b :: byte
      using len by (cases m) (simp_all add: write_bytes_def)
    moreover have "write_bytes ?code 1 (b # tl m) = Inr (b # ?code)" for b
      using len by (simp add: write_bytes_def)
    ultimately show ?thesis
      using False m(1) assms(6) by (simp add: Export_def ec tiny mult.commute)
  qed
qed

theorem Export_tiny_witness:
  "let s' = export_state [1, 2, 3, 4] demo_rewriter; code = enc_code (heap s') 0 [1, 2, 3, 4]
    in Export (\<lambda>n. replicate n 0xCC) (\<lambda>n. Some (replicate n 0xCD)) (\<lambda>b. None) demo_rewriter =
      (if length code \<ge> 64 then Inl E_FAIL else Inr (of_nat (or 2 (4 * length code)) # code, s'))"
proof -
  have "\<forall>n. \<exists>m. Some (replicate n 0xCD) = Some m \<and> length m = n" by simp
  moreover have "10 * m_nInstrs demo_rewriter + 10 < 4294967296" "m_fGenerateTinyHeader demo_rewriter"
    by (simp_all add: demo_rewriter_def)
  ultimately show ?thesis
    by (intro Export_tiny [OF demo_wf]) simp_all
qed

text \<open>The stack depth of the fat header is cut to 16 bits: a rewriter whose running count of
  pushes reaches 65536 exports a header that announces a smaller evaluation stack.\<close>

theorem fat_header_stack_truncated:
  "drop 2 (take 4 (fat_header flags maxStack codeSize tk)) = le_bytes 2 (of_nat (maxStack mod 65536) :: u16)"
proof -
  have "of_nat (maxStack mod 65536) = (of_nat maxStack :: u16)"
    by (simp only: word_of_nat_eq_iff take_bit_eq_mod) simp
  moreover have "length (le_bytes 2 (w :: u16)) = 2" for w by simp
  ultimately show ?thesis by (simp add: fat_header_def del: le_bytes.simps)
qed

end
