(* ===== verification/ILRewriterWrapper.thy ===== *)
theory ILRewriterWrapper
  imports ILProperties
begin

text \<open>
  \<open>ILRewriterWrapper\<close> (\<open>il_rewriter_wrapper.cpp\<close>): the operations with which the
  instrumentation code emits IL at the current position of a rewriter, and
  \<open>ReplaceMethodCalls\<close>. The interface that its clients use, a sequence of instructions
  inserted in front of a position, is the locale \<open>il_emitter\<close>; it is interpreted on the
  rewriter's own \<open>NewILInstr\<close> and \<open>InsertBefore\<close>.
\<close>

abbreviation (input) "CEE_LDLOC_0 \<equiv> (6 :: nat)"
abbreviation (input) "CEE_STLOC_0 \<equiv> (10 :: nat)"
abbreviation (input) "CEE_LDLOCA \<equiv> (269 :: nat)"

section \<open>Which instruction loads what\<close>

type_synonym il = "nat \<times> operand"

definition LoadInt32_il :: "u32 \<Rightarrow> il" where
  "LoadInt32_il value =
     (if 0 \<le> sint value \<and> sint value \<le> 8 then (CEE_LDC_I4_0 + unat value, Zeroed)
      else if - 128 \<le> sint value \<and> sint value \<le> 127 then (CEE_LDC_I4_S, Arg8 (ucast value))
      else (CEE_LDC_I4, Arg32 value))"

definition LoadArgument_il :: "u16 \<Rightarrow> il" where
  "LoadArgument_il index =
     (if index \<le> 3 then (CEE_LDARG_0 + unat index, Zeroed)
      else if index \<le> 255 then (CEE_LDARG_S, Arg8 (ucast index))
      else (CEE_LDARG, Arg16 index))"

definition StLocal_il :: "u32 \<Rightarrow> il" where
  "StLocal_il index =
     (if index \<le> 3 then (CEE_STLOC_0 + unat index, Zeroed)
      else if index \<le> 255 then (CEE_STLOC_S, Arg8 (ucast index))
      else (CEE_STLOC, Arg16 (ucast index)))"

definition LoadLocal_il :: "u32 \<Rightarrow> il" where
  "LoadLocal_il index =
     (if index \<le> 3 then (CEE_LDLOC_0 + unat index, Zeroed)
      else if index \<le> 255 then (CEE_LDLOC_S, Arg8 (ucast index))
      else (CEE_LDLOC, Arg16 (ucast index)))"

definition LoadLocalAddress_il :: "u32 \<Rightarrow> il" where
  "LoadLocalAddress_il index =
     (if index \<le> 255 then (CEE_LDLOCA_S, Arg8 (ucast index)) else (CEE_LDLOCA, Arg16 (ucast index)))"

section \<open>The wrapper and its operations\<close>

record ILRewriterWrapper =
  m_ILRewriter :: ILRewriter
  m_ILInstr :: "ptr option"

definition ILRewriterWrapper_new :: "ILRewriter \<Rightarrow> ILRewriterWrapper" where
  "ILRewriterWrapper_new r = \<lparr>m_ILRewriter = r, m_ILInstr = None\<rparr>"

definition GetILRewriter :: "ILRewriterWrapper \<Rightarrow> ILRewriter" where
  "GetILRewriter w = m_ILRewriter w"

definition GetCurrentILInstr :: "ILRewriterWrapper \<Rightarrow> ptr option" where
  "GetCurrentILInstr w = m_ILInstr w"

definition SetILPosition :: "ptr \<Rightarrow> ILRewriterWrapper \<Rightarrow> ILRewriterWrapper" where
  "SetILPosition pILInstr w = w\<lparr>m_ILInstr := Some pILInstr\<rparr>"

text \<open>\<open>NewILInstr\<close>, set the opcode and the operand, \<open>InsertBefore\<close>: the body of every
  emitting operation. Without a position \<open>InsertBefore\<close> dereferences the null pointer.\<close>

definition emit_before :: "ptr \<Rightarrow> il \<Rightarrow> ILRewriter \<Rightarrow> ptr \<times> ILRewriter" where
  "emit_before pWhere = (\<lambda>(opcode, a) r.
     let (pNewInstr, r) = NewILInstr r;
         r = set_opcode pNewInstr opcode r;
         r = set_arg pNewInstr a r
     in (pNewInstr, InsertBefore pWhere pNewInstr r))"

definition emit :: "il \<Rightarrow> ILRewriterWrapper \<Rightarrow> hr + (ptr \<times> ILRewriterWrapper)" where
  "emit i w = (case m_ILInstr w of
     None \<Rightarrow> Inl BadAccess
   | Some pos \<Rightarrow>
       let (p, r) = emit_before pos i (m_ILRewriter w) in Inr (p, w\<lparr>m_ILRewriter := r\<rparr>))"

definition Pop :: "ILRewriterWrapper \<Rightarrow> hr + (ptr \<times> ILRewriterWrapper)" where
  "Pop = emit (CEE_POP, Zeroed)"

definition LoadNull :: "ILRewriterWrapper \<Rightarrow> hr + (ptr \<times> ILRewriterWrapper)" where
  "LoadNull = emit (CEE_LDNULL, Zeroed)"

definition LoadInt64 :: "u64 \<Rightarrow> ILRewriterWrapper \<Rightarrow> hr + (ptr \<times> ILRewriterWrapper)" where
  "LoadInt64 value = emit (CEE_LDC_I8, Arg64 value)"

definition LoadInt32 :: "u32 \<Rightarrow> ILRewriterWrapper \<Rightarrow> hr + (ptr \<times> ILRewriterWrapper)" where
  "LoadInt32 value = emit (LoadInt32_il value)"

definition LoadArgument :: "u16 \<Rightarrow> ILRewriterWrapper \<Rightarrow> hr + (ptr \<times> ILRewriterWrapper)" where
  "LoadArgument index = emit (LoadArgument_il index)"

definition Cast :: "u32 \<Rightarrow> ILRewriterWrapper \<Rightarrow> hr + (ptr \<times> ILRewriterWrapper)" where
  "Cast type_ref = emit (CEE_CASTCLASS, Arg32 type_ref)"

definition Box :: "u32 \<Rightarrow> ILRewriterWrapper \<Rightarrow> hr + (ptr \<times> ILRewriterWrapper)" where
  "Box type_ref = emit (CEE_BOX, Arg32 type_ref)"

definition UnboxAny :: "u32 \<Rightarrow> ILRewriterWrapper \<Rightarrow> hr + (ptr \<times> ILRewriterWrapper)" where
  "UnboxAny type_ref = emit (CEE_UNBOX_ANY, Arg32 type_ref)"

definition UnboxAnyAfter :: "u32 \<Rightarrow> ILRewriterWrapper \<Rightarrow> hr + (ptr \<times> ILRewriterWrapper)" where
  "UnboxAnyAfter type_ref w = (case m_ILInstr w of
     None \<Rightarrow> Inl BadAccess
   | Some pos \<Rightarrow>
       let (p, r) = NewILInstr (m_ILRewriter w);
           r = set_opcode p CEE_UNBOX_ANY r;
           r = set_arg p (Arg32 type_ref) r
       in Inr (p, w\<lparr>m_ILRewriter := InsertAfter pos p r\<rparr>))"

definition CreateArray :: "u32 \<Rightarrow> u32 \<Rightarrow> ILRewriterWrapper \<Rightarrow> hr + (ptr \<times> ILRewriterWrapper)" where
  "CreateArray type_ref count w =
     bindE (LoadInt32 count w) (\<lambda>(_, w). emit (CEE_NEWARR, Arg32 type_ref) w)"

definition CallMember :: "u32 \<Rightarrow> bool \<Rightarrow> ILRewriterWrapper \<Rightarrow> hr + (ptr \<times> ILRewriterWrapper)" where
  "CallMember member_ref is_virtual =
     emit (if is_virtual then CEE_CALLVIRT else CEE_CALL, Arg32 member_ref)"

definition Duplicate :: "ILRewriterWrapper \<Rightarrow> hr + (ptr \<times> ILRewriterWrapper)" where
  "Duplicate = emit (CEE_DUP, Zeroed)"

definition BeginLoadValueIntoArray :: "u32 \<Rightarrow> ILRewriterWrapper \<Rightarrow> hr + (ptr \<times> ILRewriterWrapper)" where
  "BeginLoadValueIntoArray arrayIndex w =
     bindE (Duplicate w) (\<lambda>(_, w). LoadInt32 arrayIndex w)"

definition EndLoadValueIntoArray :: "ILRewriterWrapper \<Rightarrow> hr + (ptr \<times> ILRewriterWrapper)" where
  "EndLoadValueIntoArray = emit (CEE_STELEM_REF, Zeroed)"

definition LoadToken :: "u32 \<Rightarrow> ILRewriterWrapper \<Rightarrow> hr + (ptr \<times> ILRewriterWrapper)" where
  "LoadToken token = emit (CEE_LDTOKEN, Arg32 token)"

definition LoadObj :: "u32 \<Rightarrow> ILRewriterWrapper \<Rightarrow> hr + (ptr \<times> ILRewriterWrapper)" where
  "LoadObj token = emit (CEE_LDOBJ, Arg32 token)"

definition StLocal :: "u32 \<Rightarrow> ILRewriterWrapper \<Rightarrow> hr + (ptr \<times> ILRewriterWrapper)" where
  "StLocal index = emit (StLocal_il index)"

definition LoadLocal :: "u32 \<Rightarrow> ILRewriterWrapper \<Rightarrow> hr + (ptr \<times> ILRewriterWrapper)" where
  "LoadLocal index = emit (LoadLocal_il index)"

definition LoadLocalAddress :: "u32 \<Rightarrow> ILRewriterWrapper \<Rightarrow> hr + (ptr \<times> ILRewriterWrapper)" where
  "LoadLocalAddress index = emit (LoadLocalAddress_il index)"

definition Return :: "ILRewriterWrapper \<Rightarrow> hr + (ptr \<times> ILRewriterWrapper)" where
  "Return = emit (CEE_RET, Zeroed)"

definition Rethrow :: "ILRewriterWrapper \<Rightarrow> hr + (ptr \<times> ILRewriterWrapper)" where
  "Rethrow = emit (CEE_RETHROW, Zeroed)"

definition EndFinally :: "ILRewriterWrapper \<Rightarrow> hr + (ptr \<times> ILRewriterWrapper)" where
  "EndFinally = emit (CEE_ENDFINALLY, Zeroed)"

definition NOP :: "ILRewriterWrapper \<Rightarrow> hr + (ptr \<times> ILRewriterWrapper)" where
  "NOP = emit (CEE_NOP, Zeroed)"

definition CreateInstr :: "nat \<Rightarrow> ILRewriterWrapper \<Rightarrow> hr + (ptr \<times> ILRewriterWrapper)" where
  "CreateInstr opCode = emit (opCode, Zeroed)"

definition InitObj :: "u32 \<Rightarrow> ILRewriterWrapper \<Rightarrow> hr + (ptr \<times> ILRewriterWrapper)" where
  "InitObj type_ref = emit (CEE_INITOBJ, Arg32 type_ref)"

text \<open>\<open>ReplaceMethodCalls\<close>: every call of the old method becomes a (non-virtual) call of the new.\<close>

definition replace_call :: "u32 \<Rightarrow> u32 \<Rightarrow> ptr \<Rightarrow> bool \<times> ILRewriter \<Rightarrow> hr + (bool \<times> ILRewriter)" where
  "replace_call old_method_ref new_method_ref pInstr = (\<lambda>(modified, r).
     let i = heap r pInstr in
     if m_opcode i = CEE_CALL \<or> m_opcode i = CEE_CALLVIRT then
       bindE (get_Arg32 (m_arg i)) (\<lambda>v.
         if v = old_method_ref then
           Inr (True, set_arg pInstr (Arg32 new_method_ref) (set_opcode pInstr CEE_CALL r))
         else Inr (modified, r))
     else Inr (modified, r))"

definition ReplaceMethodCalls :: "u32 \<Rightarrow> u32 \<Rightarrow> ILRewriterWrapper \<Rightarrow> hr + (bool \<times> ILRewriterWrapper)" where
  "ReplaceMethodCalls old_method_ref new_method_ref w =
     bindE (il_nodes (m_ILRewriter w)) (\<lambda>ps.
     bindE (foldE (replace_call old_method_ref new_method_ref) ps (False, m_ILRewriter w))
       (\<lambda>(modified, r). Inr (modified, w\<lparr>m_ILRewriter := r\<rparr>)))"

section \<open>What the chosen instructions mean\<close>

text \<open>The constant, argument or local number that an instruction loads or stores, by ECMA-335.\<close>

fun int_loaded :: "il \<Rightarrow> int option" where
  "int_loaded (op, Zeroed) =
     (if CEE_LDC_I4_M1 \<le> op \<and> op \<le> CEE_LDC_I4_0 + 8 then Some (int op - int CEE_LDC_I4_0) else None)"
| "int_loaded (op, Arg8 b) = (if op = CEE_LDC_I4_S then Some (sint b) else None)"
| "int_loaded (op, Arg32 v) = (if op = CEE_LDC_I4 then Some (sint v) else None)"
| "int_loaded _ = None"

fun slot_of :: "nat \<Rightarrow> nat \<Rightarrow> nat \<Rightarrow> il \<Rightarrow> nat option" where
  "slot_of op0 ops opl (op, Zeroed) = (if op0 \<le> op \<and> op \<le> op0 + 3 then Some (op - op0) else None)"
| "slot_of op0 ops opl (op, Arg8 b) = (if op = ops then Some (unat b) else None)"
| "slot_of op0 ops opl (op, Arg16 v) = (if op = opl then Some (unat v) else None)"
| "slot_of op0 ops opl _ = None"

lemma sint_small_byte:
  assumes "- 128 \<le> sint (v :: u32)" and "sint v \<le> 127"
  shows "sint (ucast v :: byte) = sint v"
proof -
  have "sint (ucast v :: byte) = signed_take_bit 7 (sint v)"
    by (simp add: sint_uint uint_word_ariths unsigned_ucast_eq signed_take_bit_take_bit
        take_bit_signed_take_bit ac_simps flip: signed_take_bit_eq_if_positive)
  also have "\<dots> = sint v"
    using assms by (intro signed_take_bit_int_eq_self) simp_all
  finally show ?thesis .
qed

lemma unat_ucast_small:
  assumes "unat (v :: 'a::len word) < 2 ^ LENGTH('b::len)"
  shows "unat (ucast v :: 'b word) = unat v"
  using assms by (simp add: unsigned_ucast_eq take_bit_nat_eq_self)

lemma LoadInt32_loads: "int_loaded (LoadInt32_il v) = Some (sint v)"
proof -
  have "int (unat v) = sint v" if "0 \<le> sint v"
  proof -
    have "uint v = take_bit 32 (sint v)" by (simp add: uint_sint)
    also have "\<dots> = sint v" using that sint_less [of v] by (intro take_bit_int_eq_self) simp_all
    finally show ?thesis by simp
  qed
  moreover have "unat v \<le> 8" if "0 \<le> sint v" "sint v \<le> 8"
    using that calculation by linarith
  ultimately show ?thesis
    using sint_small_byte [of v] by (auto simp: LoadInt32_il_def)
qed

lemma LoadArgument_loads: "slot_of CEE_LDARG_0 CEE_LDARG_S CEE_LDARG (LoadArgument_il v) = Some (unat v)"
  using unat_ucast_small [of v, where 'b = 8]
  by (auto simp: LoadArgument_il_def word_le_nat_alt)

lemma StLocal_stores:
  "slot_of CEE_STLOC_0 CEE_STLOC_S CEE_STLOC (StLocal_il v) = Some (unat v mod 65536)"
  using unat_ucast_small [of v, where 'b = 8] unsigned_less [of v, where 'a = nat]
  by (auto simp: StLocal_il_def word_le_nat_alt unsigned_ucast_eq take_bit_eq_mod)

section \<open>The interface: emitting a sequence of instructions in front of a position\<close>

text \<open>A provider represents a list of nodes with room for some more, and inserts one
  instruction at a time. Its clients emit sequences.\<close>

definition emits :: "(ptr \<Rightarrow> il \<Rightarrow> 's \<Rightarrow> ptr \<times> 's) \<Rightarrow> ptr \<Rightarrow> il list \<Rightarrow> 's \<Rightarrow> 's" where
  "emits emit1 w code s = fold (\<lambda>i s. snd (emit1 w i s)) code s"

locale il_emitter =
  fixes repr :: "nat \<Rightarrow> 's \<Rightarrow> ptr list \<Rightarrow> bool"
    and emit1 :: "ptr \<Rightarrow> il \<Rightarrow> 's \<Rightarrow> ptr \<times> 's"
    and node :: "'s \<Rightarrow> ptr \<Rightarrow> il"
    and valid :: "ptr set \<Rightarrow> il \<Rightarrow> bool"
  assumes emit_law: "repr (Suc n) s (as @ bs) \<Longrightarrow> w = hd (bs @ [m_IL]) \<Longrightarrow> valid (set (as @ bs)) i
      \<Longrightarrow> emit1 w i s = (x, s') \<Longrightarrow>
      repr n s' (as @ x # bs) \<and> x \<notin> set (as @ bs) \<and> node s' x = i
      \<and> (\<forall>p \<in> set (as @ bs). node s' p = node s p)"
    and valid_mono: "valid P i \<Longrightarrow> P \<subseteq> Q \<Longrightarrow> valid Q i"
begin

lemma emits_law:
  assumes "repr (length code + n) s (as @ bs)" and "w = hd (bs @ [m_IL])"
    and "list_all (valid (set (as @ bs))) code"
  shows "\<exists>xs. repr n (emits emit1 w code s) (as @ xs @ bs)
    \<and> map (node (emits emit1 w code s)) xs = code
    \<and> (\<forall>p \<in> set (as @ bs). node (emits emit1 w code s) p = node s p)"
  using assms
proof (induction code arbitrary: as s)
  case Nil
  then show ?case by (auto simp: emits_def intro!: exI [of _ "[]"])
next
  case (Cons i code)
  obtain x s' where e: "emit1 w i s = (x, s')" by fastforce
  have "repr (Suc (length code + n)) s (as @ bs)" "valid (set (as @ bs)) i"
    using Cons.prems by simp_all
  from emit_law [OF this(1) Cons.prems(2) this(2) e]
  have s': "repr (length code + n) s' ((as @ [x]) @ bs)" "x \<notin> set (as @ bs)" "node s' x = i"
    "\<forall>p \<in> set (as @ bs). node s' p = node s p" by simp_all
  have "list_all (valid (set ((as @ [x]) @ bs))) code"
    using Cons.prems(3) valid_mono [of "set (as @ bs)" _ "set ((as @ [x]) @ bs)"]
    by (auto simp: list_all_iff)
  from Cons.IH [OF s'(1) Cons.prems(2) this] obtain xs where
    xs: "repr n (emits emit1 w code s') ((as @ [x]) @ xs @ bs)"
      "map (node (emits emit1 w code s')) xs = code"
      "\<forall>p \<in> set ((as @ [x]) @ bs). node (emits emit1 w code s') p = node s' p" by blast
  have "emits emit1 w (i # code) s = emits emit1 w code s'" by (simp add: emits_def e)
  then show ?case using xs s'(3,4) by (intro exI [of _ "x # xs"]) auto
qed

end

section \<open>The rewriter provides it\<close>

definition il_room :: "nat \<Rightarrow> ILRewriter \<Rightarrow> ptr list \<Rightarrow> bool" where
  "il_room n r ps \<longleftrightarrow> il_wf r ps \<and> m_nInstrs r + n < 4294967296"

definition il_node :: "ILRewriter \<Rightarrow> ptr \<Rightarrow> il" where
  "il_node r p = (m_opcode (heap r p), m_arg (heap r p))"

definition il_valid :: "ptr set \<Rightarrow> il \<Rightarrow> bool" where
  "il_valid P i \<longleftrightarrow> fst i < 296 \<and> operand_ok (insert m_IL P) (op_flags (fst i)) (snd i)"

lemma NewILInstr_wf:
  assumes "il_wf r ps" and "m_nInstrs r + 1 < 4294967296" and "NewILInstr r = (x, r')"
  shows "il_wf r' ps" and "length ps < m_nInstrs r'" and "m_nInstrs r' = m_nInstrs r + 1"
    and "p \<in> set ps \<Longrightarrow> heap r' p = heap r p"
proof -
  have ring: "il_ring r ps" using assms(1) by (simp add: il_wf_def)
  note new = NewILInstr_ring [OF ring assms(3)]
  have r': "heap r' = (heap r)(x := zero_instr)" "m_nInstrs r' = m_nInstrs r + 1"
    using assms(2,3) by (auto simp: NewILInstr_def)
  show "p \<in> set ps \<Longrightarrow> heap r' p = heap r p" for p using new(3) r' by auto
  then show "il_wf r' ps" "length ps < m_nInstrs r'" using assms(1) new(1) r' by (auto simp: il_wf_def)
  show "m_nInstrs r' = m_nInstrs r + 1" by (rule r')
qed

lemma set_node_wf:
  assumes "il_wf r ps" and "x \<notin> set ps"
  shows "il_wf (set_arg x a (set_opcode x op r)) ps"
proof -
  have "instr_ok P (heap (set_arg x a (set_opcode x op r)) p) \<longleftrightarrow> instr_ok P (heap r p)"
    if "p \<in> set ps" for p P
    using that assms(2) by (auto simp: instr_ok_def)
  then show ?thesis using assms(1) by (simp add: il_wf_def) (simp add: frame_simps)
qed

lemma insert_before_hd:
  assumes "distinct (m_IL # as @ bs)" and "w = hd (bs @ [m_IL])"
  shows "insert_before w x (as @ bs) = as @ x # bs"
proof -
  have "w \<notin> set as" using assms by (cases bs) auto
  then have "takeWhile (\<lambda>p. p \<noteq> w) (as @ bs) = as @ takeWhile (\<lambda>p. p \<noteq> w) bs"
    and "dropWhile (\<lambda>p. p \<noteq> w) (as @ bs) = dropWhile (\<lambda>p. p \<noteq> w) bs"
    by (induction as) auto
  then show ?thesis using assms by (cases bs) (simp_all add: insert_before_def)
qed

lemma emit_before_law:
  assumes room: "il_room (Suc n) r (as @ bs)" and w: "w = hd (bs @ [m_IL])"
    and valid: "il_valid (set (as @ bs)) i" and run: "emit_before w i r = (x, r')"
  shows "il_room n r' (as @ x # bs) \<and> x \<notin> set (as @ bs) \<and> il_node r' x = i
    \<and> (\<forall>p \<in> set (as @ bs). il_node r' p = il_node r p)"
proof -
  obtain op a where i: "i = (op, a)" by fastforce
  obtain r1 where r1: "NewILInstr r = (x, r1)"
    "r' = InsertBefore w x (set_arg x a (set_opcode x op r1))"
    using run by (auto simp: emit_before_def i Let_def split: prod.splits)
  have wf: "il_wf r (as @ bs)" and small: "m_nInstrs r + 1 < 4294967296"
    using room by (simp_all add: il_room_def)
  then have ring: "il_ring r (as @ bs)" by (simp add: il_wf_def)
  note new = NewILInstr_ring [OF ring r1(1)] and new_wf = NewILInstr_wf [OF wf small r1(1)]
  let ?r2 = "set_arg x a (set_opcode x op r1)"
  have x: "x \<notin> set (as @ bs)" using new(3) by simp
  have wf2: "il_wf ?r2 (as @ bs)" by (rule set_node_wf [OF new_wf(1) x])
  have "instr_ok (insert m_IL (set (as @ bs))) (heap ?r2 x)"
    using valid by (simp add: il_valid_def i instr_ok_def)
  then have "instr_ok (insert m_IL (insert x (set (as @ bs)))) (heap ?r2 x)"
    by (rule instr_ok_mono) auto
  moreover have "w \<in> insert m_IL (set (as @ bs))" using w by (cases bs) auto
  moreover have "x < fresh ?r2" "length (as @ bs) < m_nInstrs ?r2"
    using new(4) new_wf(2) by (simp_all add: frame_simps)
  ultimately have "il_wf r' (insert_before w x (as @ bs))"
    unfolding r1(2) using new(3) by (intro InsertBefore_wf_raw [OF wf2])
  then have "il_wf r' (as @ x # bs)"
    using insert_before_hd [OF _ w] ring by (simp add: il_ring_def)
  moreover have "m_nInstrs r' = m_nInstrs r + 1"
    using new_wf(3) by (simp add: r1(2) frame_simps)
  ultimately show ?thesis
    using room x new_wf(4) by (auto simp: il_room_def il_node_def r1(2) i) (auto simp: frame_simps)
qed

interpretation rewriter: il_emitter il_room emit_before il_node il_valid
proof
  show "il_valid Q i" if "il_valid P i" "P \<subseteq> Q" for P Q i
    using that by (cases "snd i") (auto simp: il_valid_def)
qed (rule emit_before_law)

lemma LoadLocal_loads:
  "slot_of CEE_LDLOC_0 CEE_LDLOC_S CEE_LDLOC (LoadLocal_il v) = Some (unat v mod 65536)"
  using unat_ucast_small [of v, where 'b = 8] unsigned_less [of v, where 'a = nat]
  by (auto simp: LoadLocal_il_def word_le_nat_alt unsigned_ucast_eq take_bit_eq_mod)

section \<open>Replacing method calls\<close>

definition calls :: "u32 \<Rightarrow> il \<Rightarrow> bool" where
  "calls ref i \<longleftrightarrow> fst i \<in> {CEE_CALL, CEE_CALLVIRT} \<and> get_Arg32 (snd i) = Inr ref"

definition replaced :: "u32 \<Rightarrow> u32 \<Rightarrow> il \<Rightarrow> il" where
  "replaced old_ref new_ref i = (if calls old_ref i then (CEE_CALL, Arg32 new_ref) else i)"

lemma call_flags: "op_flags CEE_CALL = 4" "op_flags CEE_CALLVIRT = 4"
  by (simp_all add: s_OpCodeFlags_def opdefs_def opdef_one_byte_def nth_append)

lemma replace_call_step:
  assumes wf: "il_wf r qs" and p: "p \<in> set qs"
  shows "\<exists>r'. replace_call old_ref new_ref p (m, r) = Inr (m \<or> calls old_ref (il_node r p), r')
    \<and> il_wf r' qs \<and> il_node r' p = replaced old_ref new_ref (il_node r p)
    \<and> (\<forall>q. q \<noteq> p \<longrightarrow> il_node r' q = il_node r q)"
proof (cases "m_opcode (heap r p) = CEE_CALL \<or> m_opcode (heap r p) = CEE_CALLVIRT")
  case False
  then show ?thesis using wf
    by (intro exI [of _ r]) (auto simp: replace_call_def Let_def calls_def replaced_def il_node_def)
next
  case True
  then have "op_flags (m_opcode (heap r p)) = 4" using call_flags by auto
  then obtain v where v: "get_Arg32 (m_arg (heap r p)) = Inr v"
    using wf p by (cases "m_arg (heap r p)") (auto simp: il_wf_def instr_ok_def)
  let ?r = "set_arg p (Arg32 new_ref) (set_opcode p CEE_CALL r)"
  have "instr_ok P (heap ?r q)" if "instr_ok P (heap r q)" for P q
    using that call_flags by (auto simp: instr_ok_def)
  then have "il_wf ?r qs" using wf by (simp add: il_wf_def) (simp add: frame_simps)
  moreover have "il_node ?r p = (CEE_CALL, Arg32 new_ref)" "q \<noteq> p \<Longrightarrow> il_node ?r q = il_node r q" for q
    by (simp_all add: il_node_def)
  ultimately show ?thesis
  proof (cases "v = old_ref")
    case False
    then show ?thesis using wf True v
      by (intro exI [of _ r]) (auto simp: replace_call_def Let_def calls_def replaced_def il_node_def)
  qed (use True v in \<open>auto simp: replace_call_def Let_def calls_def replaced_def il_node_def
        intro!: exI [of _ ?r]\<close>)
qed

lemma foldE_replace_call:
  assumes "il_wf r qs" and "set ps \<subseteq> set qs" and "distinct ps"
  shows "\<exists>r'. foldE (replace_call old_ref new_ref) ps (m, r)
      = Inr (m \<or> (\<exists>p \<in> set ps. calls old_ref (il_node r p)), r')
    \<and> il_wf r' qs \<and> (\<forall>p. il_node r' p =
        (if p \<in> set ps then replaced old_ref new_ref (il_node r p) else il_node r p))"
  using assms
proof (induction ps arbitrary: m r)
  case (Cons p ps)
  from replace_call_step [OF Cons.prems(1), of p old_ref new_ref m] Cons.prems(2)
  obtain r1 where r1: "replace_call old_ref new_ref p (m, r) = Inr (m \<or> calls old_ref (il_node r p), r1)"
    "il_wf r1 qs" "il_node r1 p = replaced old_ref new_ref (il_node r p)"
    "\<forall>q. q \<noteq> p \<longrightarrow> il_node r1 q = il_node r q" by auto
  from Cons.IH [OF r1(2)] Cons.prems obtain r' where
    r': "foldE (replace_call old_ref new_ref) ps (m \<or> calls old_ref (il_node r p), r1)
      = Inr ((m \<or> calls old_ref (il_node r p)) \<or> (\<exists>q \<in> set ps. calls old_ref (il_node r1 q)), r')"
      "il_wf r' qs"
      "\<forall>q. il_node r' q = (if q \<in> set ps then replaced old_ref new_ref (il_node r1 q) else il_node r1 q)"
    by (metis (no_types, lifting) distinct.simps(2) list.set_intros(2) subset_iff)
  have ne: "q \<noteq> p" if "q \<in> set ps" for q using that Cons.prems(3) by auto
  have "(\<exists>q \<in> set ps. calls old_ref (il_node r1 q)) \<longleftrightarrow> (\<exists>q \<in> set ps. calls old_ref (il_node r q))"
    using r1(4) ne by (metis (no_types))
  then have "foldE (replace_call old_ref new_ref) (p # ps) (m, r)
      = Inr (m \<or> (\<exists>q \<in> set (p # ps). calls old_ref (il_node r q)), r')"
    using r1(1) r'(1) by (simp add: disj_assoc)
  moreover have "il_node r' q = (if q \<in> set (p # ps) then replaced old_ref new_ref (il_node r q)
      else il_node r q)" for q
    using r'(3) r1(3,4) ne Cons.prems(3) by (cases "q = p") auto
  ultimately show ?case using r'(2) by blast
qed simp

section \<open>Properties\<close>

text \<open>A sequence of emitted instructions ends up in the method body as written: in order,
  directly in front of the position, with everything else where it was, in a rewriter that can
  be exported.\<close>

theorem emit_sequence:
  assumes "il_wf r (as @ bs)" and "m_nInstrs r + length code < 4294967296"
    and "w = hd (bs @ [m_IL])"
    and "list_all (\<lambda>(op, a). op < 296 \<and> operand_ok (insert m_IL (set (as @ bs))) (op_flags op) a) code"
  shows "\<exists>xs. il_wf (emits emit_before w code r) (as @ xs @ bs)
    \<and> map (il_node (emits emit_before w code r)) xs = code
    \<and> (\<forall>p \<in> set (as @ bs). il_node (emits emit_before w code r) p = il_node r p)"
  using rewriter.emits_law [of code 0 r as bs w] assms
  by (auto simp: il_room_def il_valid_def list_all_iff split_beta)

theorem emit_sequence_witness:
  "\<exists>xs. il_wf (emits emit_before 3 [(CEE_LDNULL, Zeroed), (CEE_POP, Zeroed)] demo_rewriter)
      ([1, 2] @ xs @ [3, 4])
    \<and> map (il_node (emits emit_before 3 [(CEE_LDNULL, Zeroed), (CEE_POP, Zeroed)] demo_rewriter)) xs
      = [(CEE_LDNULL, Zeroed), (CEE_POP, Zeroed)]
    \<and> (\<forall>p \<in> set ([1, 2] @ [3, 4]).
        il_node (emits emit_before 3 [(CEE_LDNULL, Zeroed), (CEE_POP, Zeroed)] demo_rewriter) p
          = il_node demo_rewriter p)"
proof (rule emit_sequence)
  show "il_wf demo_rewriter ([1, 2] @ [3, 4])" using demo_wf by simp
  have "op_flags CEE_POP = 0"
    by (simp add: s_OpCodeFlags_def opdefs_def opdef_one_byte_def nth_append)
  then show "list_all (\<lambda>(op, a). op < 296 \<and> operand_ok (insert m_IL (set ([1, 2] @ [3, 4]))) (op_flags op) a)
      [(CEE_LDNULL, Zeroed), (CEE_POP, Zeroed)]"
    by (simp add: demo_opcodes)
qed (simp_all add: demo_rewriter_def)

text \<open>The instruction that is chosen for a constant, an argument or a local loads exactly
  that constant, argument or local, with the shortest form that holds it; a local number above
  65535 is cut to 16 bits.\<close>

theorem load_instructions:
  "int_loaded (LoadInt32_il v) = Some (sint v)
   \<and> slot_of CEE_LDARG_0 CEE_LDARG_S CEE_LDARG (LoadArgument_il n) = Some (unat n)
   \<and> slot_of CEE_STLOC_0 CEE_STLOC_S CEE_STLOC (StLocal_il l) = Some (unat l mod 65536)
   \<and> slot_of CEE_LDLOC_0 CEE_LDLOC_S CEE_LDLOC (LoadLocal_il l) = Some (unat l mod 65536)"
  using LoadInt32_loads LoadArgument_loads StLocal_stores LoadLocal_loads by blast+

text \<open>ReplaceMethodCalls retargets exactly the calls of the old method, turns them into
  non-virtual calls, leaves every other instruction alone, and reports whether there was one.\<close>

theorem ReplaceMethodCalls_correct:
  assumes "il_wf (m_ILRewriter w) ps"
  shows "\<exists>r'. ReplaceMethodCalls old_ref new_ref w
      = Inr (list_ex (calls old_ref \<circ> il_node (m_ILRewriter w)) ps, w\<lparr>m_ILRewriter := r'\<rparr>)
    \<and> il_wf r' ps
    \<and> map (il_node r') ps = map (replaced old_ref new_ref \<circ> il_node (m_ILRewriter w)) ps"
proof -
  let ?r = "m_ILRewriter w"
  have ring: "il_ring ?r ps" and d: "distinct ps" using assms by (simp_all add: il_wf_def il_ring_def)
  from foldE_replace_call [OF assms subset_refl d, of old_ref new_ref False] obtain r' where
    "foldE (replace_call old_ref new_ref) ps (False, ?r)
      = Inr (\<exists>p \<in> set ps. calls old_ref (il_node ?r p), r')" "il_wf r' ps"
    "\<forall>p. il_node r' p = (if p \<in> set ps then replaced old_ref new_ref (il_node ?r p) else il_node ?r p)"
    by auto
  then show ?thesis
    using il_nodes_ring [OF ring]
    by (intro exI [of _ r']) (auto simp: ReplaceMethodCalls_def list_ex_iff)
qed

definition demo_caller :: ILRewriter where
  "demo_caller = demo_memory\<lparr>fresh := 3, m_nInstrs := 2, heap := (\<lambda>_. zero_instr)
     (0 := demo_node 1 2 0 Zeroed, 1 := demo_node 2 0 CEE_CALLVIRT (Arg32 0x0A000001),
      2 := demo_node 0 1 CEE_RET Zeroed)\<rparr>"

theorem ReplaceMethodCalls_correct_witness:
  "\<exists>r'. ReplaceMethodCalls 0x0A000001 0x0A000002 (ILRewriterWrapper_new demo_caller)
      = Inr (True, (ILRewriterWrapper_new demo_caller)\<lparr>m_ILRewriter := r'\<rparr>)
    \<and> map (il_node r') [1, 2] = [(CEE_CALL, Arg32 0x0A000002), (CEE_RET, Zeroed)]"
proof -
  let ?w = "ILRewriterWrapper_new demo_caller"
  have nodes: "il_node demo_caller 1 = (CEE_CALLVIRT, Arg32 0x0A000001)" "il_node demo_caller 2 = (CEE_RET, Zeroed)"
    by (simp_all add: il_node_def demo_caller_def demo_node_def)
  have "il_wf demo_caller [1, 2]"
    by (simp add: il_wf_def il_ring_def instr_ok_def demo_caller_def demo_node_def call_flags demo_opcodes)
  then have "il_wf (m_ILRewriter ?w) [1, 2]" by (simp add: ILRewriterWrapper_new_def)
  from ReplaceMethodCalls_correct [OF this, of "0x0A000001" "0x0A000002"] obtain r' where
    r': "ReplaceMethodCalls 0x0A000001 0x0A000002 ?w
      = Inr (list_ex (calls 0x0A000001 \<circ> il_node demo_caller) [1, 2], ?w\<lparr>m_ILRewriter := r'\<rparr>)"
    "map (il_node r') [1, 2] = map (replaced 0x0A000001 0x0A000002 \<circ> il_node demo_caller) [1, 2]"
    by (auto simp: ILRewriterWrapper_new_def)
  have "list_ex (calls 0x0A000001 \<circ> il_node demo_caller) [1, 2]"
    "map (replaced 0x0A000001 0x0A000002 \<circ> il_node demo_caller) [1, 2]
      = [(CEE_CALL, Arg32 0x0A000002), (CEE_RET, Zeroed)]"
    using nodes by (simp_all add: calls_def replaced_def)
  then show ?thesis using r' by auto
qed

end
