(* ===== verification/Miniutf.thy ===== *)
theory Miniutf
  imports ILRewriter
begin

text \<open>
  The UTF-8, UTF-16 and UTF-32 conversions of \<open>miniutf.cpp\<close>, through which every string
  passes between the runtime's \<open>WSTRING\<close> and \<open>std::string\<close>. A string is the list of its
  code units; \<open>str[str.length()]\<close> reads the terminating zero, any later index is outside of
  the string.
\<close>

section \<open>Encoding\<close>

definition utf8_encode :: "u32 \<Rightarrow> byte list" where
  "utf8_encode pt =
     (if pt < 0x80 then [ucast pt]
      else if pt < 0x800 then [ucast (drop_bit 6 pt OR 0xC0), ucast ((pt AND 0x3F) OR 0x80)]
      else if pt < 0x10000 then
        [ucast (drop_bit 12 pt OR 0xE0), ucast ((drop_bit 6 pt AND 0x3F) OR 0x80),
         ucast ((pt AND 0x3F) OR 0x80)]
      else if pt < 0x110000 then
        [ucast (drop_bit 18 pt OR 0xF0), ucast ((drop_bit 12 pt AND 0x3F) OR 0x80),
         ucast ((drop_bit 6 pt AND 0x3F) OR 0x80), ucast ((pt AND 0x3F) OR 0x80)]
      else [0xEF, 0xBF, 0xBD])"

definition utf16_encode :: "u32 \<Rightarrow> u16 list" where
  "utf16_encode pt =
     (if pt < 0x10000 then [ucast pt]
      else if pt < 0x110000 then
        [ucast (drop_bit 10 (pt - 0x10000) + 0xD800), ucast ((pt AND 0x3FF) + 0xDC00)]
      else [0xFFFD])"

section \<open>Decoding\<close>

definition char_at :: "'a::len word list \<Rightarrow> nat \<Rightarrow> hr + 'a word" where
  "char_at str i = (if i < length str then Inr (str ! i) else if i = length str then Inr 0
     else Inl BadAccess)"

text \<open>The number of code units consumed and the code point, or \<open>invalid_pt\<close>.\<close>

type_synonym offset_pt = "(nat \<times> u32) option"

abbreviation (input) invalid_pt :: offset_pt where "invalid_pt \<equiv> None"

text \<open>\<open>if (((b = str[j]) & 0xC0) != 0x80) return invalid_pt;\<close> and the rest.\<close>

definition continuation :: "byte list \<Rightarrow> nat \<Rightarrow> (u32 \<Rightarrow> hr + offset_pt) \<Rightarrow> hr + offset_pt" where
  "continuation str j rest = bindE (char_at str j) (\<lambda>c.
     let b = scast c in if b AND 0xC0 \<noteq> 0x80 then Inr invalid_pt else rest b)"

definition utf8_decode_check :: "byte list \<Rightarrow> nat \<Rightarrow> hr + offset_pt" where
  "utf8_decode_check str i = bindE (char_at str i) (\<lambda>c.
     let b0 = ucast c :: u32 in
     if b0 < 0x80 then Inr (Some (1, b0))
     else if b0 < 0xC0 then Inr invalid_pt
     else if b0 < 0xE0 then
       continuation str (i + 1) (\<lambda>b1.
         let pt = push_bit 6 (b0 AND 0x1F) OR (b1 AND 0x3F)
         in if pt < 0x80 then Inr invalid_pt else Inr (Some (2, pt)))
     else if b0 < 0xF0 then
       continuation str (i + 1) (\<lambda>b1. continuation str (i + 2) (\<lambda>b2.
         let pt = push_bit 12 (b0 AND 0x0F) OR push_bit 6 (b1 AND 0x3F) OR (b2 AND 0x3F)
         in if pt < 0x800 then Inr invalid_pt else Inr (Some (3, pt))))
     else if b0 < 0xF8 then
       continuation str (i + 1) (\<lambda>b1. continuation str (i + 2) (\<lambda>b2. continuation str (i + 3) (\<lambda>b3.
         let pt = push_bit 18 (b0 AND 0x0F) OR push_bit 12 (b1 AND 0x3F) OR push_bit 6 (b2 AND 0x3F)
                    OR (b3 AND 0x3F)
         in if pt < 0x10000 \<or> pt \<ge> 0x110000 then Inr invalid_pt else Inr (Some (4, pt)))))
     else Inr invalid_pt)"

definition is_high_surrogate :: "u16 \<Rightarrow> bool" where
  "is_high_surrogate c \<longleftrightarrow> c \<ge> 0xD800 \<and> c < 0xDC00"

definition is_low_surrogate :: "u16 \<Rightarrow> bool" where
  "is_low_surrogate c \<longleftrightarrow> c \<ge> 0xDC00 \<and> c < 0xE000"

definition utf16_decode_check :: "u16 list \<Rightarrow> nat \<Rightarrow> hr + offset_pt" where
  "utf16_decode_check str i = bindE (char_at str i) (\<lambda>c.
     if is_high_surrogate c then
       bindE (char_at str (i + 1)) (\<lambda>c'.
         if is_low_surrogate c' then
           Inr (Some (2, (push_bit 10 (ucast c - 0xD800) OR (ucast c' - 0xDC00)) + 0x10000))
         else Inr invalid_pt)
     else if is_low_surrogate c then Inr invalid_pt
     else Inr (Some (1, ucast c)))"

definition utf32_decode_check :: "u32 list \<Rightarrow> nat \<Rightarrow> hr + offset_pt" where
  "utf32_decode_check str i = bindE (char_at str i) (\<lambda>c.
     if c < 0x110000 then Inr (Some (1, c)) else Inr invalid_pt)"

text \<open>The decoding wrappers: the new index, the code point and whether it is a replacement.\<close>

definition decode :: "('s \<Rightarrow> nat \<Rightarrow> hr + offset_pt) \<Rightarrow> 's \<Rightarrow> nat \<Rightarrow> hr + (nat \<times> u32 \<times> bool)" where
  "decode check str i = bindE (check str i) (\<lambda>res.
     case res of None \<Rightarrow> Inr (i + 1, 0xFFFD, True)
     | Some (off, pt) \<Rightarrow> Inr (i + off, pt, False))"

definition utf8_decode :: "byte list \<Rightarrow> nat \<Rightarrow> hr + (nat \<times> u32 \<times> bool)" where
  "utf8_decode = decode utf8_decode_check"

definition utf16_decode :: "u16 list \<Rightarrow> nat \<Rightarrow> hr + (nat \<times> u32 \<times> bool)" where
  "utf16_decode = decode utf16_decode_check"

section \<open>Checking\<close>

text \<open>Each round of the loops consumes at least one code unit; fuel counts the rounds.\<close>

fun check_loop :: "nat \<Rightarrow> (nat \<Rightarrow> hr + offset_pt) \<Rightarrow> nat \<Rightarrow> nat \<Rightarrow> hr + bool" where
  "check_loop 0 f len i = (if i < len then Inl NoFuel else Inr True)"
| "check_loop (Suc k) f len i =
     (if i < len then
        bindE (f i) (\<lambda>res. case res of None \<Rightarrow> Inr False | Some (off, pt) \<Rightarrow> check_loop k f len (i + off))
      else Inr True)"

definition check_helper :: "('a list \<Rightarrow> nat \<Rightarrow> hr + offset_pt) \<Rightarrow> 'a list \<Rightarrow> hr + bool" where
  "check_helper f str = check_loop (length str) (f str) (length str) 0"

definition utf8_check :: "byte list \<Rightarrow> hr + bool" where
  "utf8_check = check_helper utf8_decode_check"

definition utf16_check :: "u16 list \<Rightarrow> hr + bool" where
  "utf16_check = check_helper utf16_decode_check"

definition utf32_check :: "u32 list \<Rightarrow> hr + bool" where
  "utf32_check = check_helper utf32_decode_check"

section \<open>Conversion\<close>

fun decode_loop :: "nat \<Rightarrow> (nat \<Rightarrow> hr + (nat \<times> u32 \<times> bool)) \<Rightarrow> nat \<Rightarrow> nat \<Rightarrow> hr + u32 list" where
  "decode_loop 0 f len i = (if i < len then Inl NoFuel else Inr [])"
| "decode_loop (Suc k) f len i =
     (if i < len then
        bindE (f i) (\<lambda>(i, pt, replacement). bindE (decode_loop k f len i) (\<lambda>pts. Inr (pt # pts)))
      else Inr [])"

definition to_utf32 :: "byte list \<Rightarrow> hr + u32 list" where
  "to_utf32 str = decode_loop (length str) (utf8_decode str) (length str) 0"

definition to_utf16 :: "byte list \<Rightarrow> hr + u16 list" where
  "to_utf16 str = bindE (decode_loop (length str) (utf8_decode str) (length str) 0)
     (\<lambda>pts. Inr (concat (map utf16_encode pts)))"

definition to_utf8 :: "u16 list \<Rightarrow> hr + byte list" where
  "to_utf8 str = bindE (decode_loop (length str) (utf16_decode str) (length str) 0)
     (\<lambda>pts. Inr (concat (map utf8_encode pts)))"

definition to_utf8_32 :: "u32 list \<Rightarrow> byte list" where
  "to_utf8_32 str = concat (map utf8_encode str)"

section \<open>The pieces of an encoded code point\<close>

lemma bit_byte: "bit (c :: byte) i \<Longrightarrow> i < 8"
  using bit_imp_le_length [of c i] by simp

text \<open>Continuation bytes: two marker bits and six bits of payload.\<close>

lemma cont_byte:
  assumes "x < (0x40 :: u32)"
  shows "scast (ucast (x OR 0x80) :: byte) AND (0xC0 :: u32) = 0x80"
    and "scast (ucast (x OR 0x80) :: byte) AND (0x3F :: u32) = x"
proof -
  have x: "bit x i \<Longrightarrow> i < 6" for i using bit_bounded [of x 6 i] assms by (simp add: word_less_nat_alt)
  show "scast (ucast (x OR 0x80) :: byte) AND (0xC0 :: u32) = 0x80"
    by (rule bit_word_eqI) (use x in \<open>force simp: bit_simps bits_simps\<close>)
  show "scast (ucast (x OR 0x80) :: byte) AND (0x3F :: u32) = x"
    unfolding numeral_eq_mask
    by (rule bit_word_eqI) (use x in \<open>force simp: bit_simps bits_simps\<close>)
qed

lemma cont_byte_inv:
  assumes "scast (c :: byte) AND (0xC0 :: u32) = 0x80"
  shows "ucast ((scast c AND (0x3F :: u32)) OR 0x80) = c" and "scast c AND (0x3F :: u32) < 0x40"
    and "c \<noteq> 0"
proof -
  have "bit (scast c AND (0xC0 :: u32)) 7 \<longleftrightarrow> bit (0x80 :: u32) 7"
    "bit (scast c AND (0xC0 :: u32)) 6 \<longleftrightarrow> bit (0x80 :: u32) 6"
    unfolding assms by simp_all
  then have c: "bit c 7" "\<not> bit c 6" by (auto simp: bit_simps bits_simps)
  then show "c \<noteq> 0" by auto
  show "ucast ((scast c AND (0x3F :: u32)) OR 0x80) = c"
  proof (rule bit_word_eqI)
    fix i assume "i < LENGTH(8)"
    then have "i < 6 \<or> i = 6 \<or> i = 7" by auto
    then show "bit (ucast ((scast c AND (0x3F :: u32)) OR 0x80) :: byte) i = bit c i"
      using c unfolding numeral_eq_mask by (auto simp: bit_simps bits_simps)
  qed
  show "scast c AND (0x3F :: u32) < 0x40"
    unfolding numeral_eq_mask by (simp add: and_mask_less' [where n = 6, simplified])
qed

text \<open>Lead bytes: the marker and five, four or three bits of payload.\<close>

lemma lead_byte:
  fixes x :: u32
  shows "x < 0x20 \<Longrightarrow> ucast (ucast (x OR 0xC0) :: byte) = 0xC0 + x \<and> (0xC0 + x) AND 0x1F = x"
    and "x < 0x10 \<Longrightarrow> ucast (ucast (x OR 0xE0) :: byte) = 0xE0 + x \<and> (0xE0 + x) AND 0x0F = x"
    and "x < 0x08 \<Longrightarrow> ucast (ucast (x OR 0xF0) :: byte) = 0xF0 + x \<and> (0xF0 + x) AND 0x0F = x"
proof -
  have b: "bit x i \<Longrightarrow> i < k" if "unat x < 2 ^ k" for i k
    using that by (rule bit_bounded)
  { assume "x < 0x20"
    then have x: "bit x i \<Longrightarrow> i < 5" for i using b [of 5] by (simp add: word_less_nat_alt)
    have "0xC0 + x = x OR 0xC0"
      by (subst add.commute, rule disjunctive_add) (use x in \<open>force simp: bit_simps bits_simps\<close>)
    moreover have "ucast (ucast (x OR 0xC0) :: byte) = x OR 0xC0" "(x OR 0xC0) AND 0x1F = x"
      unfolding numeral_eq_mask by (rule bit_word_eqI; use x in \<open>force simp: bit_simps bits_simps\<close>)+
    ultimately show "ucast (ucast (x OR 0xC0) :: byte) = 0xC0 + x \<and> (0xC0 + x) AND 0x1F = x" by simp }
  { assume "x < 0x10"
    then have x: "bit x i \<Longrightarrow> i < 4" for i using b [of 4] by (simp add: word_less_nat_alt)
    have "0xE0 + x = x OR 0xE0"
      by (subst add.commute, rule disjunctive_add) (use x in \<open>force simp: bit_simps bits_simps\<close>)
    moreover have "ucast (ucast (x OR 0xE0) :: byte) = x OR 0xE0" "(x OR 0xE0) AND 0x0F = x"
      unfolding numeral_eq_mask by (rule bit_word_eqI; use x in \<open>force simp: bit_simps bits_simps\<close>)+
    ultimately show "ucast (ucast (x OR 0xE0) :: byte) = 0xE0 + x \<and> (0xE0 + x) AND 0x0F = x" by simp }
  { assume "x < 0x08"
    then have x: "bit x i \<Longrightarrow> i < 3" for i using b [of 3] by (simp add: word_less_nat_alt)
    have "0xF0 + x = x OR 0xF0"
      by (subst add.commute, rule disjunctive_add) (use x in \<open>force simp: bit_simps bits_simps\<close>)
    moreover have "ucast (ucast (x OR 0xF0) :: byte) = x OR 0xF0" "(x OR 0xF0) AND 0x0F = x"
      unfolding numeral_eq_mask by (rule bit_word_eqI; use x in \<open>force simp: bit_simps bits_simps\<close>)+
    ultimately show "ucast (ucast (x OR 0xF0) :: byte) = 0xF0 + x \<and> (0xF0 + x) AND 0x0F = x" by simp }
qed

lemma lead_range:
  fixes x :: u32
  shows "x < 0x20 \<Longrightarrow> 0xC0 \<le> 0xC0 + x \<and> 0xC0 + x < 0xE0"
    and "x < 0x10 \<Longrightarrow> 0xE0 \<le> 0xE0 + x \<and> 0xE0 + x < 0xF0"
    and "x < 0x08 \<Longrightarrow> 0xF0 \<le> 0xF0 + x \<and> 0xF0 + x < 0xF8"
  by (simp_all add: word_less_nat_alt word_le_nat_alt unat_word_ariths(1))

lemma drop_bit_byte: "unat (c :: byte) div 2 ^ k = m \<Longrightarrow> drop_bit k c = of_nat m"
proof -
  have "of_nat (unat (drop_bit k c)) = drop_bit k c" by simp
  then show "unat c div 2 ^ k = m \<Longrightarrow> drop_bit k c = of_nat m"
    by (simp only: unat_drop_bit_eq drop_bit_eq_div [where 'a = nat])
qed

lemma lead_byte_inv:
  fixes c :: byte
  defines "b \<equiv> ucast c :: u32"
  shows "0xC0 \<le> b \<Longrightarrow> b < 0xE0 \<Longrightarrow> ucast ((b AND 0x1F) OR 0xC0) = c \<and> b AND 0x1F < 0x20"
    and "0xE0 \<le> b \<Longrightarrow> b < 0xF0 \<Longrightarrow> ucast ((b AND 0x0F) OR 0xE0) = c \<and> b AND 0x0F < 0x10"
    and "0xF0 \<le> b \<Longrightarrow> b < 0xF8 \<Longrightarrow> ucast ((b AND 0x0F) OR 0xF0) = c \<and> b AND 0x0F < 0x08"
proof -
  have u: "unat b = unat c"
    using unat_byte [of c] by (simp add: b_def unsigned_ucast_eq take_bit_nat_eq_self_iff)
  have bb: "bit b i = bit c i" for i using bit_byte [of c i] by (auto simp: b_def bit_simps)
  have top: "bit c i = bit (drop_bit k c) (i - k)" if "k \<le> i" for i k
    using that by (simp add: bit_simps)
  { assume r: "0xC0 \<le> b" "b < 0xE0"
    have "unat c div 2 ^ 5 = 6" using r by (simp add: word_less_nat_alt word_le_nat_alt u)
    from drop_bit_byte [OF this] have "drop_bit 5 c = 6" by simp
    then have t: "bit c 5 = False" "bit c 6" "bit c 7" using top [of 5 5] top [of 5 6] top [of 5 7] by simp_all
    have "ucast ((b AND 0x1F) OR 0xC0) = c"
    proof (rule bit_word_eqI)
      fix i assume "i < LENGTH(8)"
      then have "i < 5 \<or> i = 5 \<or> i = 6 \<or> i = 7" by auto
      then show "bit (ucast ((b AND 0x1F) OR 0xC0) :: byte) i = bit c i"
        unfolding numeral_eq_mask by (elim disjE) (simp_all add: t bb bit_simps bits_simps)
    qed
    moreover have "b AND 0x1F < 0x20"
      unfolding numeral_eq_mask by (simp add: and_mask_less' [where n = 5, simplified])
    ultimately show "ucast ((b AND 0x1F) OR 0xC0) = c \<and> b AND 0x1F < 0x20" by blast }
  { assume r: "0xE0 \<le> b" "b < 0xF0"
    have "unat c div 2 ^ 4 = 14" using r by (simp add: word_less_nat_alt word_le_nat_alt u)
    from drop_bit_byte [OF this] have "drop_bit 4 c = 14" by simp
    then have t: "bit c 4 = False" "bit c 5" "bit c 6" "bit c 7"
      using top [of 4 4] top [of 4 5] top [of 4 6] top [of 4 7] by simp_all
    have "ucast ((b AND 0x0F) OR 0xE0) = c"
    proof (rule bit_word_eqI)
      fix i assume "i < LENGTH(8)"
      then have "i < 4 \<or> i = 4 \<or> i = 5 \<or> i = 6 \<or> i = 7" by auto
      then show "bit (ucast ((b AND 0x0F) OR 0xE0) :: byte) i = bit c i"
        unfolding numeral_eq_mask by (elim disjE) (simp_all add: t bb bit_simps bits_simps)
    qed
    moreover have "b AND 0x0F < 0x10"
      unfolding numeral_eq_mask by (simp add: and_mask_less' [where n = 4, simplified])
    ultimately show "ucast ((b AND 0x0F) OR 0xE0) = c \<and> b AND 0x0F < 0x10" by blast }
  { assume r: "0xF0 \<le> b" "b < 0xF8"
    have "unat c div 2 ^ 3 = 30" using r by (simp add: word_less_nat_alt word_le_nat_alt u)
    from drop_bit_byte [OF this] have "drop_bit 3 c = 30" by simp
    then have t: "bit c 3 = False" "bit c 4" "bit c 5" "bit c 6" "bit c 7"
      using top [of 3 3] top [of 3 4] top [of 3 5] top [of 3 6] top [of 3 7] by simp_all
    have "ucast ((b AND 0x0F) OR 0xF0) = c"
    proof (rule bit_word_eqI)
      fix i assume "i < LENGTH(8)"
      then have "i < 3 \<or> i = 3 \<or> i = 4 \<or> i = 5 \<or> i = 6 \<or> i = 7" by auto
      then show "bit (ucast ((b AND 0x0F) OR 0xF0) :: byte) i = bit c i"
        unfolding numeral_eq_mask by (elim disjE) (simp_all add: t bb bit_simps bits_simps)
    qed
    moreover have "bit (b AND 0x0F) i \<Longrightarrow> i < 3" for i
      using t bb [of 3] unfolding numeral_eq_mask by (cases "i = 3") (auto simp: bit_simps)
    then have "unat (b AND 0x0F) < 2 ^ 3" by (rule unat_bounded_by_bits)
    ultimately show "ucast ((b AND 0x0F) OR 0xF0) = c \<and> b AND 0x0F < 0x08"
      by (simp add: word_less_nat_alt) }
qed

text \<open>Cutting a code point into payloads and putting it together again.\<close>

lemma split_point:
  fixes pt :: u32
  shows "push_bit 6 (drop_bit 6 pt) OR (pt AND 0x3F) = pt"
    and "push_bit 12 (drop_bit 12 pt) OR push_bit 6 (drop_bit 6 pt AND 0x3F) OR (pt AND 0x3F) = pt"
    and "push_bit 18 (drop_bit 18 pt) OR push_bit 12 (drop_bit 12 pt AND 0x3F)
      OR push_bit 6 (drop_bit 6 pt AND 0x3F) OR (pt AND 0x3F) = pt"
proof -
  have "bit (push_bit 6 (drop_bit 6 pt) OR (pt AND mask 6)) i = bit pt i"
    "bit (push_bit 12 (drop_bit 12 pt) OR push_bit 6 (drop_bit 6 pt AND mask 6) OR (pt AND mask 6)) i = bit pt i"
    "bit (push_bit 18 (drop_bit 18 pt) OR push_bit 12 (drop_bit 12 pt AND mask 6)
      OR push_bit 6 (drop_bit 6 pt AND mask 6) OR (pt AND mask 6)) i = bit pt i"
    if "i < LENGTH(32)" for i
  proof -
    consider "i < 6" | "6 \<le> i" "i < 12" | "12 \<le> i" "i < 18" | "18 \<le> i" by linarith
    then show "bit (push_bit 6 (drop_bit 6 pt) OR (pt AND mask 6)) i = bit pt i"
      "bit (push_bit 12 (drop_bit 12 pt) OR push_bit 6 (drop_bit 6 pt AND mask 6) OR (pt AND mask 6)) i = bit pt i"
      "bit (push_bit 18 (drop_bit 18 pt) OR push_bit 12 (drop_bit 12 pt AND mask 6)
        OR push_bit 6 (drop_bit 6 pt AND mask 6) OR (pt AND mask 6)) i = bit pt i"
      using that by (cases; auto simp: bit_simps)+
  qed
  then show "push_bit 6 (drop_bit 6 pt) OR (pt AND 0x3F) = pt"
    "push_bit 12 (drop_bit 12 pt) OR push_bit 6 (drop_bit 6 pt AND 0x3F) OR (pt AND 0x3F) = pt"
    "push_bit 18 (drop_bit 18 pt) OR push_bit 12 (drop_bit 12 pt AND 0x3F)
      OR push_bit 6 (drop_bit 6 pt AND 0x3F) OR (pt AND 0x3F) = pt"
    unfolding numeral_eq_mask by (auto intro: bit_word_eqI)
qed

lemma payload_small:
  fixes pt :: u32
  shows "pt AND 0x3F < 0x40"
    and "pt < 0x800 \<Longrightarrow> drop_bit 6 pt < 0x20"
    and "pt < 0x10000 \<Longrightarrow> drop_bit 12 pt < 0x10"
    and "pt < 0x110000 \<Longrightarrow> drop_bit 18 pt < 0x08"
proof -
  show "pt AND 0x3F < 0x40"
    unfolding numeral_eq_mask by (simp add: and_mask_less' [where n = 6, simplified])
  have u: "unat (drop_bit k pt) = unat pt div 2 ^ k" for k
    by (simp only: unat_drop_bit_eq drop_bit_eq_div [where 'a = nat])
  show "pt < 0x800 \<Longrightarrow> drop_bit 6 pt < 0x20" "pt < 0x10000 \<Longrightarrow> drop_bit 12 pt < 0x10"
    "pt < 0x110000 \<Longrightarrow> drop_bit 18 pt < 0x08"
    using u [of 6] u [of 12] u [of 18] by (simp_all only: word_less_nat_alt) auto
qed

section \<open>Decoding what was encoded\<close>

lemma char_at_append:
  "char_at (pre @ c # post) (length pre) = Inr c"
  "j = length pre + k \<Longrightarrow> k < length cs \<Longrightarrow> char_at (pre @ cs @ post) j = Inr (cs ! k)"
  by (simp_all add: char_at_def nth_append)

lemma continuation_at:
  assumes "char_at str j = Inr (ucast (x OR 0x80))" and "x < (0x40 :: u32)"
  shows "continuation str j rest = rest (scast (ucast (x OR 0x80) :: byte))"
  using assms cont_byte(1) [OF assms(2)] by (simp add: continuation_def Let_def)

lemma utf8_decode_encode:
  assumes "pt < 0x110000"
  shows "utf8_decode_check (pre @ utf8_encode pt @ post) (length pre)
    = Inr (Some (length (utf8_encode pt), pt))"
proof -
  let ?s = "pre @ utf8_encode pt @ post"
  note small = payload_small [of pt] payload_small(1) [of "drop_bit 6 pt"]
    payload_small(1) [of "drop_bit 12 pt"]
  have at: "char_at ?s (length pre + k) = Inr (utf8_encode pt ! k)" if "k < length (utf8_encode pt)" for k
    by (rule char_at_append(2) [OF refl that])
  consider "pt < 0x80" | "\<not> pt < 0x80" "pt < 0x800" | "\<not> pt < 0x800" "pt < 0x10000" | "\<not> pt < 0x10000"
    by blast
  then show ?thesis
  proof cases
    case 1
    have b: "bit pt i \<Longrightarrow> i < 7" for i using 1 bit_bounded [of pt 7 i] by (simp add: word_less_nat_alt)
    have "ucast (ucast pt :: byte) = pt"
      by (rule bit_word_eqI) (use b in \<open>force simp: bit_simps\<close>)
    then show ?thesis using 1 at [of 0] by (simp add: utf8_decode_check_def utf8_encode_def)
  next
    case 2
    have e: "utf8_encode pt = [ucast (drop_bit 6 pt OR 0xC0), ucast ((pt AND 0x3F) OR 0x80)]"
      using 2 by (simp add: utf8_encode_def)
    have x: "drop_bit 6 pt < 0x20" by (rule small(2)) (rule 2)
    have a: "char_at ?s (length pre) = Inr (ucast (drop_bit 6 pt OR 0xC0))"
      "char_at ?s (length pre + 1) = Inr (ucast ((pt AND 0x3F) OR 0x80))"
      using at [of 0] at [of 1] by (simp_all add: e)
    have r: "\<not> 0xC0 + drop_bit 6 pt < 0x80" "\<not> 0xC0 + drop_bit 6 pt < 0xC0" "0xC0 + drop_bit 6 pt < 0xE0"
      using lead_range(1) [OF x] by (auto simp: word_less_nat_alt word_le_nat_alt)
    show ?thesis
      unfolding utf8_decode_check_def a bindE_Inr Let_def lead_byte(1) [OF x, THEN conjunct1]
        continuation_at [OF a(2) small(1)] cont_byte(2) [OF small(1)] lead_byte(1) [OF x, THEN conjunct2]
        split_point
      using r 2 by (simp add: e)
  next
    case 3
    have e: "utf8_encode pt = [ucast (drop_bit 12 pt OR 0xE0), ucast ((drop_bit 6 pt AND 0x3F) OR 0x80),
        ucast ((pt AND 0x3F) OR 0x80)]"
      using 3 by (simp add: utf8_encode_def word_less_nat_alt)
    have x: "drop_bit 12 pt < 0x10" by (rule small(3)) (rule 3)
    have a: "char_at ?s (length pre) = Inr (ucast (drop_bit 12 pt OR 0xE0))"
      "char_at ?s (length pre + 1) = Inr (ucast ((drop_bit 6 pt AND 0x3F) OR 0x80))"
      "char_at ?s (length pre + 2) = Inr (ucast ((pt AND 0x3F) OR 0x80))"
      using at [of 0] at [of 1] at [of 2] by (simp_all add: e)
    have r: "\<not> 0xE0 + drop_bit 12 pt < 0x80" "\<not> 0xE0 + drop_bit 12 pt < 0xC0"
      "\<not> 0xE0 + drop_bit 12 pt < 0xE0" "0xE0 + drop_bit 12 pt < 0xF0"
      using lead_range(2) [OF x] by (auto simp: word_less_nat_alt word_le_nat_alt)
    show ?thesis
      unfolding utf8_decode_check_def a bindE_Inr Let_def lead_byte(2) [OF x, THEN conjunct1]
        continuation_at [OF a(2) small(5)] continuation_at [OF a(3) small(1)]
        cont_byte(2) [OF small(1)] cont_byte(2) [OF small(5)] lead_byte(2) [OF x, THEN conjunct2]
        split_point
      using r 3 by (simp add: e)
  next
    case 4
    have e: "utf8_encode pt = [ucast (drop_bit 18 pt OR 0xF0), ucast ((drop_bit 12 pt AND 0x3F) OR 0x80),
        ucast ((drop_bit 6 pt AND 0x3F) OR 0x80), ucast ((pt AND 0x3F) OR 0x80)]"
      using 4 assms by (simp add: utf8_encode_def word_less_nat_alt)
    have x: "drop_bit 18 pt < 0x08" by (rule small(4)) (rule assms)
    have a: "char_at ?s (length pre) = Inr (ucast (drop_bit 18 pt OR 0xF0))"
      "char_at ?s (length pre + 1) = Inr (ucast ((drop_bit 12 pt AND 0x3F) OR 0x80))"
      "char_at ?s (length pre + 2) = Inr (ucast ((drop_bit 6 pt AND 0x3F) OR 0x80))"
      "char_at ?s (length pre + 3) = Inr (ucast ((pt AND 0x3F) OR 0x80))"
      using at [of 0] at [of 1] at [of 2] at [of 3] by (simp_all add: e numeral_3_eq_3)
    have r: "\<not> 0xF0 + drop_bit 18 pt < 0x80" "\<not> 0xF0 + drop_bit 18 pt < 0xC0"
      "\<not> 0xF0 + drop_bit 18 pt < 0xE0" "\<not> 0xF0 + drop_bit 18 pt < 0xF0" "0xF0 + drop_bit 18 pt < 0xF8"
      using lead_range(3) [OF x] by (auto simp: word_less_nat_alt word_le_nat_alt)
    show ?thesis
      unfolding utf8_decode_check_def a bindE_Inr Let_def lead_byte(3) [OF x, THEN conjunct1]
        continuation_at [OF a(2) small(6)] continuation_at [OF a(3) small(5)] continuation_at [OF a(4) small(1)]
        cont_byte(2) [OF small(1)] cont_byte(2) [OF small(5)] cont_byte(2) [OF small(6)]
        lead_byte(3) [OF x, THEN conjunct2] split_point
      using r 4 assms by (simp add: e not_le)
  qed
qed

section \<open>What is accepted was encoded\<close>

lemma join_tail:
  fixes w u :: u32
  assumes "unat w < 2 ^ k" "k \<le> 26" "u < 0x40"
  shows "drop_bit 6 (push_bit 6 w OR u) = w" and "(push_bit 6 w OR u) AND 0x3F = u"
    and "unat (push_bit 6 w OR u) < 2 ^ (k + 6)"
proof -
  have w: "bit w i \<Longrightarrow> i < k" for i by (rule bit_bounded [OF assms(1)])
  have u: "bit u i \<Longrightarrow> i < 6" for i using bit_bounded [of u 6 i] assms(3) by (simp add: word_less_nat_alt)
  have ns: "\<not> bit u (6 + i)" "\<not> bit u (i + 6)" for i using u [of "6 + i"] by (auto simp: add.commute)
  have w': "bit w i \<Longrightarrow> i < 26" for i using w [of i] assms(2) by simp
  show "drop_bit 6 (push_bit 6 w OR u) = w"
    by (rule bit_word_eqI) (use w' ns in \<open>auto simp: bit_simps\<close>)
  show "(push_bit 6 w OR u) AND 0x3F = u"
    unfolding numeral_eq_mask by (rule bit_word_eqI) (use u in \<open>auto simp: bit_simps\<close>)
  have "bit (push_bit 6 w OR u) i \<Longrightarrow> i < k + 6" for i
    using w [of "i - 6"] u [of i] by (auto simp: bit_simps)
  then show "unat (push_bit 6 w OR u) < 2 ^ (k + 6)" by (rule unat_bounded_by_bits)
qed

lemma join2:
  fixes x y :: u32
  assumes "x < 0x20" "y < 0x40"
  defines "pt \<equiv> push_bit 6 x OR y"
  shows "drop_bit 6 pt = x" "pt AND 0x3F = y" "pt < 0x800"
  using join_tail [of x 5 y] assms by (simp_all add: word_less_nat_alt)

lemma join3:
  fixes x y z :: u32
  assumes "x < 0x10" "y < 0x40" "z < 0x40"
  defines "pt \<equiv> push_bit 12 x OR push_bit 6 y OR z"
  shows "drop_bit 12 pt = x" "drop_bit 6 pt AND 0x3F = y" "pt AND 0x3F = z" "pt < 0x10000"
proof -
  let ?w = "push_bit 6 x OR y"
  have w: "pt = push_bit 6 ?w OR z" by (simp add: pt_def push_bit_or push_bit_push_bit or.assoc)
  have "unat x < 2 ^ 4" using assms(1) by (simp add: word_less_nat_alt)
  note jw = join_tail [OF this _ assms(2)]
  note j = join_tail [OF jw(3) _ assms(3), folded w]
  show "drop_bit 12 pt = x" using drop_bit_drop_bit [of 6 6 pt] j(1) jw(1) by simp
  show "drop_bit 6 pt AND 0x3F = y" "pt AND 0x3F = z" using j jw by simp_all
  show "pt < 0x10000" using j(3) by (simp add: word_less_nat_alt)
qed

lemma join4:
  fixes x y z u :: u32
  assumes "x < 0x08" "y < 0x40" "z < 0x40" "u < 0x40"
  defines "pt \<equiv> push_bit 18 x OR push_bit 12 y OR push_bit 6 z OR u"
  shows "drop_bit 18 pt = x" "drop_bit 12 pt AND 0x3F = y" "drop_bit 6 pt AND 0x3F = z" "pt AND 0x3F = u"
proof -
  let ?w = "push_bit 12 x OR push_bit 6 y OR z"
  have w: "pt = push_bit 6 ?w OR u" by (simp add: pt_def push_bit_or push_bit_push_bit or.assoc)
  have "x < 0x10" using assms(1) by (auto simp: word_less_nat_alt)
  note jw = join3 [OF this assms(2,3)]
  have "unat ?w < 2 ^ 16" using jw(4) by (simp add: word_less_nat_alt)
  note j = join_tail [OF this _ assms(4), folded w]
  show "drop_bit 18 pt = x" using drop_bit_drop_bit [of 12 6 pt] j(1) jw(1) by simp
  show "drop_bit 12 pt AND 0x3F = y" using drop_bit_drop_bit [of 6 6 pt] j(1) jw(2) by simp
  show "drop_bit 6 pt AND 0x3F = z" "pt AND 0x3F = u" using j jw(3) by simp_all
qed

text \<open>A successful continuation read a continuation byte of the string.\<close>

lemma continuation_Some:
  assumes "continuation str j rest = Inr (Some r)"
  obtains c where "j < length str" "str ! j = c" "scast c AND (0xC0 :: u32) = 0x80"
    "rest (scast c) = Inr (Some r)"
  using assms cont_byte_inv(3)
  by (auto simp: continuation_def char_at_def Let_def res_simps split: if_splits)

lemma continuation_total:
  assumes "j \<le> length str" and "\<And>b. j < length str \<Longrightarrow> \<exists>r. rest b = Inr r"
  shows "\<exists>r. continuation str j rest = Inr r"
  using assms by (cases "j = length str") (auto simp: continuation_def char_at_def Let_def)

lemma utf8_decode_total:
  assumes "i < length str"
  shows "\<exists>r. utf8_decode_check str i = Inr r"
  using assms
  by (auto simp: utf8_decode_check_def char_at_def Let_def intro!: continuation_total)

lemma drop_nth: "i < length xs \<Longrightarrow> drop i xs = xs ! i # drop (Suc i) xs"
  by (simp add: Cons_nth_drop_Suc)

lemma utf8_decode_inv:
  assumes i: "i < length str" and ok: "utf8_decode_check str i = Inr (Some (n, pt))"
  shows "pt < 0x110000 \<and> n = length (utf8_encode pt) \<and> i + n \<le> length str
    \<and> take n (drop i str) = utf8_encode pt"
proof -
  let ?c = "str ! i" and ?b = "ucast (str ! i) :: u32"
  have dec: "utf8_decode_check str i = (
     if ?b < 0x80 then Inr (Some (1, ?b))
     else if ?b < 0xC0 then Inr invalid_pt
     else if ?b < 0xE0 then
       continuation str (i + 1) (\<lambda>b1.
         let pt = push_bit 6 (?b AND 0x1F) OR (b1 AND 0x3F)
         in if pt < 0x80 then Inr invalid_pt else Inr (Some (2, pt)))
     else if ?b < 0xF0 then
       continuation str (i + 1) (\<lambda>b1. continuation str (i + 2) (\<lambda>b2.
         let pt = push_bit 12 (?b AND 0x0F) OR push_bit 6 (b1 AND 0x3F) OR (b2 AND 0x3F)
         in if pt < 0x800 then Inr invalid_pt else Inr (Some (3, pt))))
     else if ?b < 0xF8 then
       continuation str (i + 1) (\<lambda>b1. continuation str (i + 2) (\<lambda>b2. continuation str (i + 3) (\<lambda>b3.
         let pt = push_bit 18 (?b AND 0x0F) OR push_bit 12 (b1 AND 0x3F) OR push_bit 6 (b2 AND 0x3F)
                    OR (b3 AND 0x3F)
         in if pt < 0x10000 \<or> pt \<ge> 0x110000 then Inr invalid_pt else Inr (Some (4, pt)))))
     else Inr invalid_pt)"
    using i by (simp add: utf8_decode_check_def char_at_def Let_def)
  consider "?b < 0x80" | "0xC0 \<le> ?b" "?b < 0xE0" | "0xE0 \<le> ?b" "?b < 0xF0" | "0xF0 \<le> ?b" "?b < 0xF8"
    using ok unfolding dec by (metis (no_types, lifting) Inr_inject not_le option.distinct(1))
  then show ?thesis
  proof cases
    case 1
    then have r: "n = 1" "pt = ?b" using ok unfolding dec by simp_all
    have "unat ?b < 128" using 1 by (simp add: word_less_nat_alt)
    then have "pt < 0x110000" unfolding r by (simp add: word_less_nat_alt)
    moreover have "ucast ?b = ?c" by (rule bit_word_eqI) (simp add: bit_simps)
    then have "utf8_encode pt = [?c]" using 1 unfolding r utf8_encode_def by simp
    ultimately show ?thesis using i by (simp add: r drop_nth [OF i])
  next
    case 2
    then have "\<not> ?b < 0x80" "\<not> ?b < 0xC0" by (auto simp: word_less_nat_alt word_le_nat_alt)
    with 2 ok have "continuation str (i + 1) (\<lambda>b1.
         let pt = push_bit 6 (?b AND 0x1F) OR (b1 AND 0x3F)
         in if pt < 0x80 then Inr invalid_pt else Inr (Some (2, pt))) = Inr (Some (n, pt))"
      unfolding dec by simp
    from this obtain c1 where c1: "i + 1 < length str" "str ! (i + 1) = c1"
      "scast c1 AND (0xC0 :: u32) = 0x80"
      and r: "n = 2" "pt = push_bit 6 (?b AND 0x1F) OR (scast c1 AND 0x3F)" "\<not> pt < 0x80"
      by (elim continuation_Some) (auto simp: Let_def split: if_splits)
    note l = lead_byte_inv(1) [of ?c, OF 2] and k = cont_byte_inv(1,2) [OF c1(3)]
    note j = join2 [OF l [THEN conjunct2] k(2), folded r(2)]
    have "utf8_encode pt = [?c, c1]"
      using r(3) j l k by (simp add: utf8_encode_def)
    moreover have "take 2 (drop i str) = [?c, c1]"
      using c1 by (simp add: drop_nth numeral_2_eq_2)
    moreover have "pt < 0x110000" using j(3) by (simp add: word_less_nat_alt)
    ultimately show ?thesis using c1 r(1) by simp
  next
    case 3
    then have "\<not> ?b < 0x80" "\<not> ?b < 0xC0" "\<not> ?b < 0xE0" by (auto simp: word_less_nat_alt word_le_nat_alt)
    with 3 ok have "continuation str (i + 1) (\<lambda>b1. continuation str (i + 2) (\<lambda>b2.
         let pt = push_bit 12 (?b AND 0x0F) OR push_bit 6 (b1 AND 0x3F) OR (b2 AND 0x3F)
         in if pt < 0x800 then Inr invalid_pt else Inr (Some (3, pt)))) = Inr (Some (n, pt))"
      unfolding dec by simp
    from this obtain c1 c2 where c1: "str ! (i + 1) = c1" "scast c1 AND (0xC0 :: u32) = 0x80"
      and c2: "i + 2 < length str" "str ! (i + 2) = c2" "scast c2 AND (0xC0 :: u32) = 0x80"
      and r: "n = 3" "pt = push_bit 12 (?b AND 0x0F) OR push_bit 6 (scast c1 AND 0x3F) OR (scast c2 AND 0x3F)"
        "\<not> pt < 0x800"
      by (elim continuation_Some) (auto simp: Let_def split: if_splits)
    note l = lead_byte_inv(2) [of ?c, OF 3] and k1 = cont_byte_inv(1,2) [OF c1(2)]
      and k2 = cont_byte_inv(1,2) [OF c2(3)]
    note j = join3 [OF l [THEN conjunct2] k1(2) k2(2), folded r(2)]
    have "utf8_encode pt = [?c, c1, c2]"
      using r(3) j l k1 k2 by (simp add: utf8_encode_def word_less_nat_alt)
    moreover have "take 3 (drop i str) = [?c, c1, c2]"
      using c1 c2 by (simp add: drop_nth numeral_3_eq_3 numeral_2_eq_2)
    moreover have "pt < 0x110000" using j(4) by (simp add: word_less_nat_alt)
    ultimately show ?thesis using c2 r(1) by simp
  next
    case 4
    then have "\<not> ?b < 0x80" "\<not> ?b < 0xC0" "\<not> ?b < 0xE0" "\<not> ?b < 0xF0"
      by (auto simp: word_less_nat_alt word_le_nat_alt)
    with 4 ok have "continuation str (i + 1) (\<lambda>b1. continuation str (i + 2) (\<lambda>b2. continuation str (i + 3) (\<lambda>b3.
         let pt = push_bit 18 (?b AND 0x0F) OR push_bit 12 (b1 AND 0x3F) OR push_bit 6 (b2 AND 0x3F)
                    OR (b3 AND 0x3F)
         in if pt < 0x10000 \<or> pt \<ge> 0x110000 then Inr invalid_pt else Inr (Some (4, pt)))))
        = Inr (Some (n, pt))"
      unfolding dec by simp
    from this obtain c1 c2 c3 where c1: "str ! (i + 1) = c1" "scast c1 AND (0xC0 :: u32) = 0x80"
      and c2: "str ! (i + 2) = c2" "scast c2 AND (0xC0 :: u32) = 0x80"
      and c3: "i + 3 < length str" "str ! (i + 3) = c3" "scast c3 AND (0xC0 :: u32) = 0x80"
      and r: "n = 4" "pt = push_bit 18 (?b AND 0x0F) OR push_bit 12 (scast c1 AND 0x3F)
          OR push_bit 6 (scast c2 AND 0x3F) OR (scast c3 AND 0x3F)"
        "\<not> pt < 0x10000" "pt < 0x110000"
      by (elim continuation_Some) (auto simp: Let_def not_le split: if_splits)
    note l = lead_byte_inv(3) [of ?c, OF 4] and k1 = cont_byte_inv(1,2) [OF c1(2)]
      and k2 = cont_byte_inv(1,2) [OF c2(2)] and k3 = cont_byte_inv(1,2) [OF c3(3)]
    note j = join4 [OF l [THEN conjunct2] k1(2) k2(2) k3(2), folded r(2)]
    have "utf8_encode pt = [?c, c1, c2, c3]"
      using r(3,4) j l k1 k2 k3 by (simp add: utf8_encode_def word_less_nat_alt)
    moreover have "take 4 (drop i str) = [?c, c1, c2, c3]"
      using c1 c2 c3 by (simp add: drop_nth eval_nat_numeral)
    ultimately show ?thesis using c3 r by simp
  qed
qed

section \<open>UTF-16\<close>

definition scalar :: "u32 \<Rightarrow> bool" where
  "scalar pt \<longleftrightarrow> pt < 0x110000 \<and> \<not> (0xD800 \<le> pt \<and> pt < 0xE000)"

lemma unat_u16_u32: "unat pt < 65536 \<Longrightarrow> unat (ucast (pt :: u32) :: u16) = unat pt"
  by (simp add: unsigned_ucast_eq take_bit_nat_eq_self)

lemma ucast_u16_u32: "unat pt < 65536 \<Longrightarrow> ucast (ucast (pt :: u32) :: u16) = pt"
  by (rule bit_word_eqI) (use bit_bounded [of pt 16] in \<open>force simp: bit_simps\<close>)

lemma surrogate_pair:
  fixes pt :: u32
  assumes "\<not> pt < 0x10000" "pt < 0x110000"
  defines "h \<equiv> ucast (drop_bit 10 (pt - 0x10000) + 0xD800) :: u16"
    and "l \<equiv> ucast ((pt AND 0x3FF) + 0xDC00) :: u16"
  shows "is_high_surrogate h" "is_low_surrogate l"
    and "(push_bit 10 (ucast h - 0xD800) OR (ucast l - 0xDC00)) + 0x10000 = pt"
proof -
  let ?q = "pt - 0x10000"
  have u: "unat ?q = unat pt - 65536"
    using assms(1) by (simp add: unat_sub_if' word_less_nat_alt)
  then have q: "unat ?q < 2 ^ 20" using assms(2) by (simp add: word_less_nat_alt)
  then have d: "unat (drop_bit 10 ?q) < 1024"
    by (simp only: unat_drop_bit_eq drop_bit_eq_div [where 'a = nat]) auto
  then have h: "unat (drop_bit 10 ?q + 0xD800) = unat (drop_bit 10 ?q) + 0xD800"
    by (simp add: unat_word_ariths(1))
  have m: "pt AND 0x3FF = take_bit 10 pt" unfolding numeral_eq_mask by (simp add: take_bit_eq_mask)
  have lt: "unat (take_bit 10 pt) < 1024"
    using unat_bounded_by_bits [of "take_bit 10 pt" 10] by (simp add: bit_take_bit_iff)
  then have l: "unat (take_bit 10 pt + 0xDC00) = unat (take_bit 10 pt) + 0xDC00"
    by (simp add: unat_word_ariths(1))
  have "unat pt mod 1024 = (unat pt - 65536) mod 1024"
    using assms(1) mod_add_self2 [where 'a = nat] le_mod_geq
    by (simp add: word_less_nat_alt)
  then have tq: "take_bit 10 pt = take_bit 10 ?q"
    by (simp add: word_unat_eq_iff unsigned_take_bit_eq take_bit_eq_mod unat_mod_distrib u)
  show "is_high_surrogate h"
    using d h by (simp add: is_high_surrogate_def h_def word_less_nat_alt word_le_nat_alt unat_u16_u32)
  show "is_low_surrogate l"
    using lt l by (simp add: is_low_surrogate_def l_def m word_less_nat_alt word_le_nat_alt unat_u16_u32)
  have "ucast h - 0xD800 = drop_bit 10 ?q" using d h by (simp add: h_def ucast_u16_u32)
  moreover have "ucast l - 0xDC00 = take_bit 10 ?q" using lt l by (simp add: l_def m ucast_u16_u32 tq)
  moreover have "push_bit 10 (drop_bit 10 ?q) OR take_bit 10 ?q = ?q"
    by (rule bit_word_eqI) (auto simp: bit_simps)
  ultimately show "(push_bit 10 (ucast h - 0xD800) OR (ucast l - 0xDC00)) + 0x10000 = pt" by simp
qed

lemma utf16_decode_encode:
  assumes "scalar pt"
  shows "utf16_decode_check (pre @ utf16_encode pt @ post) (length pre)
    = Inr (Some (length (utf16_encode pt), pt))"
proof (cases "pt < 0x10000")
  case True
  then have u: "unat pt < 65536" by (simp add: word_less_nat_alt)
  have "\<not> is_high_surrogate (ucast pt)" "\<not> is_low_surrogate (ucast pt)"
    using assms u by (auto simp: scalar_def is_high_surrogate_def is_low_surrogate_def
        word_less_nat_alt word_le_nat_alt unat_u16_u32)
  then show ?thesis
    using True u by (simp add: utf16_decode_check_def utf16_encode_def char_at_append ucast_u16_u32)
next
  case False
  have lt: "pt < 0x110000" using assms by (simp add: scalar_def)
  note pair = surrogate_pair [OF False lt]
  have e: "utf16_encode pt = [ucast (drop_bit 10 (pt - 0x10000) + 0xD800), ucast ((pt AND 0x3FF) + 0xDC00)]"
    using False lt by (simp add: utf16_encode_def)
  have at: "char_at (pre @ utf16_encode pt @ post) (length pre)
      = Inr (ucast (drop_bit 10 (pt - 0x10000) + 0xD800))"
    "char_at (pre @ utf16_encode pt @ post) (length pre + 1) = Inr (ucast ((pt AND 0x3FF) + 0xDC00))"
    by (simp_all add: e char_at_def nth_append)
  show ?thesis
    unfolding utf16_decode_check_def at bindE_Inr using pair by (simp add: e)
qed

lemma utf16_decode_total:
  assumes "i < length str"
  shows "\<exists>r. utf16_decode_check str i = Inr r"
    and "utf16_decode_check str i = Inr (Some (n, pt)) \<Longrightarrow> 0 < n \<and> i + n \<le> length str"
  using assms
  by (auto simp: utf16_decode_check_def char_at_def res_simps is_low_surrogate_def split: if_splits)

section \<open>The loops\<close>

lemma utf8_encode_nonempty: "0 < length (utf8_encode pt)"
  by (simp add: utf8_encode_def)

lemma utf16_encode_nonempty: "0 < length (utf16_encode pt)"
  by (simp add: utf16_encode_def)

lemma decode_loop_total:
  assumes "\<And>i. i < len \<Longrightarrow> \<exists>i' pt b. f i = Inr (i', pt, b) \<and> i < i'" and "len - i \<le> k"
  shows "\<exists>pts. decode_loop k f len i = Inr pts"
  using assms(2)
proof (induction k arbitrary: i)
  case (Suc k)
  show ?case
  proof (cases "i < len")
    case True
    then obtain i' pt b where f: "f i = Inr (i', pt, b)" "i < i'" using assms(1) by blast
    then have "len - i' \<le> k" using Suc.prems True by simp
    then obtain pts where "decode_loop k f len i' = Inr pts" using Suc.IH by blast
    then show ?thesis using f True by simp
  qed simp
qed simp

lemma decode_loop_encoded:
  assumes dec: "\<And>pre pt post. pt \<in> set pts \<Longrightarrow>
      dec (pre @ enc pt @ post) (length pre) = Inr (length pre + length (enc pt), pt, False)"
    and enc: "\<And>pt. 0 < length (enc pt)"
  shows "decode_loop (length (concat (map enc pts)) + k) (dec (pre @ concat (map enc pts)))
    (length (pre @ concat (map enc pts))) (length pre) = Inr pts"
  using dec
proof (induction pts arbitrary: pre k)
  case Nil
  then show ?case by (cases k) simp_all
next
  case (Cons pt pts)
  obtain m where m: "length (enc pt) = Suc m" using enc [of pt] by (cases "length (enc pt)") auto
  have "decode_loop (length (concat (map enc pts)) + (m + k)) (dec ((pre @ enc pt) @ concat (map enc pts)))
      (length ((pre @ enc pt) @ concat (map enc pts))) (length (pre @ enc pt)) = Inr pts"
    by (rule Cons.IH) (use Cons.prems in simp)
  then show ?case
    using Cons.prems [of pt pre "concat (map enc pts)"] m by (simp add: add.assoc add.left_commute)
qed

lemma utf8_decode_encoded:
  assumes "pt < 0x110000"
  shows "utf8_decode (pre @ utf8_encode pt @ post) (length pre)
    = Inr (length pre + length (utf8_encode pt), pt, False)"
  using utf8_decode_encode [OF assms] by (simp add: utf8_decode_def decode_def)

lemma utf16_decode_encoded:
  assumes "scalar pt"
  shows "utf16_decode (pre @ utf16_encode pt @ post) (length pre)
    = Inr (length pre + length (utf16_encode pt), pt, False)"
  using utf16_decode_encode [OF assms] by (simp add: utf16_decode_def decode_def)

lemma decode_utf8:
  assumes "\<forall>pt \<in> set pts. pt < 0x110000"
  shows "decode_loop (length (to_utf8_32 pts)) (utf8_decode (to_utf8_32 pts)) (length (to_utf8_32 pts)) 0
    = Inr pts"
  using decode_loop_encoded [of pts utf8_decode utf8_encode 0 "[]"] utf8_decode_encoded
    utf8_encode_nonempty assms by (simp add: to_utf8_32_def)

lemma decode_utf16:
  assumes "\<forall>pt \<in> set pts. scalar pt"
  shows "to_utf8 (concat (map utf16_encode pts)) = Inr (to_utf8_32 pts)"
  using decode_loop_encoded [of pts utf16_decode utf16_encode 0 "[]"] utf16_decode_encoded
    utf16_encode_nonempty assms by (simp add: to_utf8_32_def to_utf8_def)

lemma utf8_decode_progress:
  "i < length str \<Longrightarrow> \<exists>i' pt b. utf8_decode str i = Inr (i', pt, b) \<and> i < i'"
  using utf8_decode_total [of i str] utf8_decode_inv [of i str] utf8_encode_nonempty
  by (fastforce simp: utf8_decode_def decode_def split: option.split)

lemma utf16_decode_progress:
  "i < length str \<Longrightarrow> \<exists>i' pt b. utf16_decode str i = Inr (i', pt, b) \<and> i < i'"
  using utf16_decode_total [of i str]
  by (fastforce simp: utf16_decode_def decode_def split: option.split)

lemma to_utf16_total: "\<exists>s. to_utf16 str = Inr s"
  using decode_loop_total [of "length str" "utf8_decode str" 0 "length str"] utf8_decode_progress [of _ str]
  by (auto simp: to_utf16_def)

lemma to_utf8_total: "\<exists>s. to_utf8 str = Inr s"
  using decode_loop_total [of "length str" "utf16_decode str" 0 "length str"] utf16_decode_progress [of _ str]
  by (auto simp: to_utf8_def)

text \<open>The check accepts exactly the encodings.\<close>

lemma utf8_check_loop:
  assumes "i \<le> length str" and "length str - i \<le> k"
  shows "check_loop k (utf8_decode_check str) (length str) i
    = Inr (\<exists>pts. (\<forall>pt \<in> set pts. pt < 0x110000) \<and> drop i str = to_utf8_32 pts)"
  using assms
proof (induction k arbitrary: i)
  case 0
  then show ?case by (auto simp: to_utf8_32_def intro!: exI [of _ "[]"])
next
  case (Suc k)
  show ?case
  proof (cases "i < length str")
    case False
    then show ?thesis by (auto simp: to_utf8_32_def intro!: exI [of _ "[]"])
  next
    case True
    then obtain r where r: "utf8_decode_check str i = Inr r" using utf8_decode_total by blast
    let ?ok = "\<lambda>i. \<exists>pts. (\<forall>pt \<in> set pts. pt < 0x110000) \<and> drop i str = to_utf8_32 pts"
    have head: "\<exists>n pt. r = Some (n, pt) \<and> ?ok (i + n)" if ok: "?ok i"
    proof -
      from ok obtain pts where pts: "\<forall>pt \<in> set pts. pt < 0x110000" "drop i str = to_utf8_32 pts" by blast
      then obtain pt ps where p: "pts = pt # ps" using True by (cases pts) (auto simp: to_utf8_32_def)
      have s: "str = take i str @ utf8_encode pt @ to_utf8_32 ps"
        using pts(2) by (simp add: p to_utf8_32_def) (metis append_take_drop_id)
      have "utf8_decode_check str i = Inr (Some (length (utf8_encode pt), pt))"
        using utf8_decode_encode [of pt "take i str" "to_utf8_32 ps"] s pts(1) p True by simp
      moreover have "drop (length (utf8_encode pt)) (drop i str) = to_utf8_32 ps"
        using pts(2) by (simp add: p to_utf8_32_def del: drop_drop)
      then have "drop (i + length (utf8_encode pt)) str = to_utf8_32 ps" by (simp add: add.commute)
      ultimately show ?thesis using r pts(1) p by auto
    qed
    show ?thesis
    proof (cases r)
      case None
      then show ?thesis using True r head by auto
    next
      case (Some np)
      obtain n pt where np: "r = Some (n, pt)" using Some by (cases np) auto
      note inv = utf8_decode_inv [OF True r [unfolded np]]
      have "length str - (i + n) \<le> k" "i + n \<le> length str"
      proof -
        have "0 < n" using inv utf8_encode_nonempty [of pt] by simp
        moreover show le: "i + n \<le> length str" using inv by blast
        ultimately show "length str - (i + n) \<le> k" using Suc.prems(2) by linarith
      qed
      from Suc.IH [OF this(2,1)] have "check_loop (Suc k) (utf8_decode_check str) (length str) i
          = Inr (?ok (i + n))" using True r np by simp
      moreover have "?ok i" if "?ok (i + n)"
      proof -
        from that obtain ps where ps: "\<forall>pt \<in> set ps. pt < 0x110000" "drop (i + n) str = to_utf8_32 ps" by blast
        have "drop i str = take n (drop i str) @ drop (i + n) str"
          by (metis append_take_drop_id drop_drop add.commute)
        also have "take n (drop i str) = utf8_encode pt" using inv by blast
        finally have "drop i str = to_utf8_32 (pt # ps)" using ps(2) by (simp only: to_utf8_32_def list.map concat.simps)
        then show ?thesis using ps inv by (intro exI [of _ "pt # ps"]) simp
      qed
      ultimately show ?thesis using head np by auto
    qed
  qed
qed

section \<open>Properties\<close>

text \<open>utf8_check accepts a byte string exactly when it is the encoding of a sequence of code
  points up to U+10FFFF: no overlong forms, no misplaced or missing continuation bytes. It
  never reads behind the terminating zero.\<close>

theorem utf8_check_correct:
  "utf8_check str = Inr (\<exists>pts. (\<forall>pt \<in> set pts. pt < 0x110000) \<and> str = to_utf8_32 pts)"
  using utf8_check_loop [of 0 str "length str"] by (simp add: utf8_check_def check_helper_def)

theorem utf8_check_correct_witness: "utf8_check [0x41, 0xC3, 0xA9] = Inr True"
proof -
  have "[0x41, 0xC3, 0xA9] = to_utf8_32 [0x41, 0xE9]"
    by (simp add: to_utf8_32_def utf8_encode_def)
  then have "\<exists>pts. (\<forall>pt \<in> set pts. pt < 0x110000) \<and> [0x41, 0xC3, 0xA9] = to_utf8_32 pts"
    by (intro exI [of _ "[0x41, 0xE9]"]) simp
  then show ?thesis by (simp add: utf8_check_correct)
qed

text \<open>C30. Converting Unicode text from UTF-8 to UTF-16 and back, or to UTF-32, loses nothing.\<close>

theorem utf_roundtrip:
  assumes "\<forall>pt \<in> set pts. scalar pt"
  shows "to_utf32 (to_utf8_32 pts) = Inr pts
    \<and> bindE (to_utf16 (to_utf8_32 pts)) to_utf8 = Inr (to_utf8_32 pts)"
proof -
  have "\<forall>pt \<in> set pts. pt < 0x110000" using assms by (simp add: scalar_def)
  then show ?thesis
    using decode_utf8 [of pts] decode_utf16 [OF assms] by (simp add: to_utf32_def to_utf16_def)
qed

theorem utf_roundtrip_witness:
  "to_utf32 (to_utf8_32 [0x24, 0xE9, 0x20AC, 0x1F600]) = Inr [0x24, 0xE9, 0x20AC, 0x1F600]
    \<and> bindE (to_utf16 (to_utf8_32 [0x24, 0xE9, 0x20AC, 0x1F600])) to_utf8
      = Inr (to_utf8_32 [0x24, 0xE9, 0x20AC, 0x1F600])"
  by (rule utf_roundtrip) (simp add: scalar_def)

text \<open>The conversions of arbitrary, possibly malformed, strings always end with a result:
  the loops make progress at every code unit and stay inside the string.\<close>

theorem utf_conversions_total:
  "(\<exists>s. to_utf16 bytes = Inr s) \<and> (\<exists>s. to_utf8 units = Inr s)"
  using to_utf16_total to_utf8_total by blast

end
