(* ===== verification/StringUtil.thy ===== *)
theory StringUtil
  imports Miniutf
begin

text \<open>
  Strings of the profiler (\<open>string.cpp\<close>, the branch of the platforms where \<open>WCHAR\<close> is a
  16-bit \<open>char16_t\<close> and the conversions go through \<open>miniutf\<close>) and the helpers of \<open>util.cpp\<close>:
  splitting and trimming, the environment, and hexadecimal output.
\<close>

type_synonym wstring = "u16 list"
type_synonym cstring = "byte list"

text \<open>Literals: \<open>WStr("...")\<close> and \<open>"..."\<close>.\<close>

definition WStr :: "string \<Rightarrow> wstring" where
  "WStr s = map (\<lambda>c. of_nat (of_char c)) s"

definition CStr :: "string \<Rightarrow> cstring" where
  "CStr s = map (\<lambda>c. of_nat (of_char c)) s"

definition wc :: "char \<Rightarrow> u16" where
  "wc c = of_nat (of_char c)"

section \<open>Conversion\<close>

text \<open>\<open>c_str()\<close> ends a string at its first zero. The conversions of \<open>miniutf\<close> always give a
  result (\<open>utf_conversions_total\<close>).\<close>

definition c_str :: "'a::len word list \<Rightarrow> 'a word list" where
  "c_str s = takeWhile (\<lambda>c. c \<noteq> 0) s"

definition ToString :: "wstring \<Rightarrow> cstring" where
  "ToString wstr = projr (to_utf8 (c_str wstr))"

definition ToWSTRING :: "cstring \<Rightarrow> wstring" where
  "ToWSTRING str = c_str (projr (to_utf16 str))"

text \<open>\<open>std::to_string\<close>, and the stream output of an unsigned number.\<close>

fun decimal :: "nat \<Rightarrow> cstring" where
  "decimal n = (if n < 10 then [of_nat (48 + n)] else decimal (n div 10) @ [of_nat (48 + n mod 10)])"

declare decimal.simps [simp del]

definition ToString_uint64 :: "u64 \<Rightarrow> cstring" where
  "ToString_uint64 i = decimal (unat i)"

section \<open>Splitting and trimming\<close>

fun Split_loop :: "wstring \<Rightarrow> u16 \<Rightarrow> nat \<Rightarrow> nat list \<Rightarrow> wstring list" where
  "Split_loop s delim lpos [] = [drop lpos s]"
| "Split_loop s delim lpos (i # rest) =
     (if s ! i = delim then take (i - lpos) (drop lpos s) # Split_loop s delim (i + 1) rest
      else Split_loop s delim lpos rest)"

definition Split :: "wstring \<Rightarrow> u16 \<Rightarrow> wstring list" where
  "Split s delim = Split_loop s delim 0 [0..<length s]"

text \<open>\<open>find_first_not_of\<close> and \<open>find_last_not_of\<close>; \<open>None\<close> is \<open>npos\<close>.\<close>

definition find_first_not_of :: "wstring \<Rightarrow> wstring \<Rightarrow> nat option" where
  "find_first_not_of cs s =
     (let n = length (takeWhile (\<lambda>c. c \<in> set cs) s) in if n < length s then Some n else None)"

definition find_last_not_of :: "wstring \<Rightarrow> wstring \<Rightarrow> nat option" where
  "find_last_not_of cs s =
     (let n = length (takeWhile (\<lambda>c. c \<in> set cs) (rev s))
      in if n < length s then Some (length s - 1 - n) else None)"

abbreviation (input) blanks :: wstring where "blanks \<equiv> [32, 9]"

definition Trim :: "wstring \<Rightarrow> wstring" where
  "Trim str =
     (if length str = 0 then []
      else
        let trimmed = str;
            trimmed = (case find_first_not_of blanks trimmed of
              Some lpos \<Rightarrow> if lpos > 0 then drop lpos trimmed else trimmed
            | None \<Rightarrow> trimmed)
        in case find_last_not_of blanks trimmed of
             Some rpos \<Rightarrow> take (rpos + 1) trimmed
           | None \<Rightarrow> trimmed)"

section \<open>The environment\<close>

text \<open>\<open>getenv\<close> is a parameter: the value of a variable, if there is one.\<close>

definition GetEnvironmentValue :: "(cstring \<Rightarrow> cstring option) \<Rightarrow> wstring \<Rightarrow> wstring" where
  "GetEnvironmentValue getenv name = (case getenv (ToString name) of
     None \<Rightarrow> []
   | Some str \<Rightarrow> Trim (ToWSTRING str))"

definition GetEnvironmentValues :: "(cstring \<Rightarrow> cstring option) \<Rightarrow> wstring \<Rightarrow> u16 \<Rightarrow> wstring list" where
  "GetEnvironmentValues getenv name delim =
     filter (\<lambda>s. s \<noteq> []) (map Trim (Split (GetEnvironmentValue getenv name) delim))"

definition GetEnvironmentValues_semicolon :: "(cstring \<Rightarrow> cstring option) \<Rightarrow> wstring \<Rightarrow> wstring list" where
  "GetEnvironmentValues_semicolon getenv name = GetEnvironmentValues getenv name 59"

section \<open>Hexadecimal output\<close>

definition HexMap :: "u16 list" where
  "HexMap = [48, 49, 50, 51, 52, 53, 54, 55, 56, 57, 97, 98, 99, 100, 101, 102]"

definition HexStr :: "byte list \<Rightarrow> wstring" where
  "HexStr data = fold (\<lambda>i s. s[2 * i := HexMap ! unat (drop_bit 4 (data ! i AND 0xF0)),
       2 * i + 1 := HexMap ! unat (data ! i AND 0x0F)])
     [0..<length data] (replicate (length data * 2) 32)"

definition TokenStr :: "u32 \<Rightarrow> wstring" where
  "TokenStr token = (let data = le_bytes 4 token; len = 4
     in fold (\<lambda>i s. s[2 * (len - i) - 2 := HexMap ! unat (drop_bit 4 (data ! i AND 0xF0)),
          2 * (len - i) - 1 := HexMap ! unat (data ! i AND 0x0F)])
        [0..<len] (replicate (len * 2) 32))"

section \<open>Splitting loses nothing\<close>

fun join :: "'a \<Rightarrow> 'a list list \<Rightarrow> 'a list" where
  "join d [] = []"
| "join d [x] = x"
| "join d (x # y # xs) = x @ d # join d (y # xs)"

lemma Split_loop_join:
  assumes "lpos \<le> i" "i \<le> length s" "delim \<notin> set (take (i - lpos) (drop lpos s))"
  shows "Split_loop s delim lpos [i..<length s] \<noteq> []
    \<and> join delim (Split_loop s delim lpos [i..<length s]) = drop lpos s
    \<and> list_all (\<lambda>p. delim \<notin> set p) (Split_loop s delim lpos [i..<length s])"
  using assms
proof (induction "length s - i" arbitrary: i lpos)
  case 0
  then show ?case by (simp add: list_all_def)
next
  case (Suc n)
  then have i: "i < length s" by simp
  then have upt: "[i..<length s] = i # [Suc i..<length s]" by (simp add: upt_conv_Cons)
  show ?case
  proof (cases "s ! i = delim")
    case True
    have IH: "Split_loop s delim (i + 1) [Suc i..<length s] \<noteq> []
      \<and> join delim (Split_loop s delim (i + 1) [Suc i..<length s]) = drop (i + 1) s
      \<and> list_all (\<lambda>p. delim \<notin> set p) (Split_loop s delim (i + 1) [Suc i..<length s])"
      using Suc.hyps(1) [of "Suc i" "i + 1"] Suc.hyps(2) i by simp
    then obtain y ys where y: "Split_loop s delim (i + 1) [Suc i..<length s] = y # ys"
      by (cases "Split_loop s delim (i + 1) [Suc i..<length s]") auto
    have "drop lpos s = take (i - lpos) (drop lpos s) @ drop (i - lpos) (drop lpos s)"
      by (rule append_take_drop_id [symmetric])
    also have "drop (i - lpos) (drop lpos s) = drop i s" using Suc.prems(1) by simp
    also have "drop i s = delim # drop (i + 1) s" using i True by (simp add: Cons_nth_drop_Suc [symmetric])
    finally show ?thesis using IH True y Suc.prems(3) upt by simp
  next
    case False
    have "take (Suc i - lpos) (drop lpos s) = take (i - lpos) (drop lpos s) @ [s ! i]"
      using Suc.prems(1) i by (simp add: Suc_diff_le take_Suc_conv_app_nth)
    then have "delim \<notin> set (take (Suc i - lpos) (drop lpos s))" using Suc.prems(3) False by auto
    then show ?thesis
      using Suc.hyps(1) [of "Suc i" lpos] Suc.hyps(2) Suc.prems(1) i False upt by simp
  qed
qed

lemma Split_join:
  "Split s delim \<noteq> [] \<and> join delim (Split s delim) = s \<and> list_all (\<lambda>p. delim \<notin> set p) (Split s delim)"
  using Split_loop_join [of 0 0 s delim] by (simp add: Split_def)

section \<open>What Trim removes\<close>

definition blank :: "u16 \<Rightarrow> bool" where
  "blank c \<longleftrightarrow> c \<in> {32, 9}"

definition strip :: "wstring \<Rightarrow> wstring" where
  "strip s = rev (dropWhile blank (rev (dropWhile blank s)))"

lemma takeWhile_length_less: "length (takeWhile P s) < length s \<longleftrightarrow> \<not> list_all P s"
  by (induction s) auto

lemma drop_takeWhile: "drop (length (takeWhile P s)) s = dropWhile P s"
  by (induction s) auto

lemma list_all_dropWhile: "list_all P (dropWhile P s) \<longleftrightarrow> list_all P s"
  by (induction s) auto

lemma Trim_strip: "Trim s = (if list_all blank s then s else strip s)"
proof -
  have b: "(\<lambda>c. c \<in> set blanks) = blank" by (simp add: fun_eq_iff blank_def)
  have first: "find_first_not_of blanks s
      = (if list_all blank s then None else Some (length (takeWhile blank s)))" for s
    unfolding find_first_not_of_def b Let_def takeWhile_length_less by simp
  have last: "find_last_not_of blanks s
      = (if list_all blank s then None else Some (length s - 1 - length (takeWhile blank (rev s))))" for s
    unfolding find_last_not_of_def b Let_def
    using takeWhile_length_less [of blank "rev s"] by (simp add: list_all_iff)
  show ?thesis
  proof (cases "list_all blank s")
    case True
    then show ?thesis by (simp add: Trim_def first last)
  next
    case False
    let ?t = "dropWhile blank s"
    have ne: "s \<noteq> []" using False by auto
    have t: "\<not> list_all blank ?t" using False by (simp add: list_all_dropWhile)
    then have lt: "length (takeWhile blank (rev ?t)) < length ?t"
      using takeWhile_length_less [of blank "rev ?t"] by (simp add: list_all_iff)
    have "Trim s = take (length ?t - 1 - length (takeWhile blank (rev ?t)) + 1) ?t"
      using False ne t drop_takeWhile [of blank s] by (auto simp: Trim_def first last Let_def)
    also have "length ?t - 1 - length (takeWhile blank (rev ?t)) + 1
        = length ?t - length (takeWhile blank (rev ?t))" using lt by simp
    also have "take \<dots> ?t = rev (drop (length (takeWhile blank (rev ?t))) (rev ?t))"
      by (simp add: rev_drop)
    finally show ?thesis using False by (simp add: strip_def drop_takeWhile)
  qed
qed

section \<open>Hexadecimal digits\<close>

definition hex_digit :: "u16 \<Rightarrow> nat" where
  "hex_digit c = (if 97 \<le> c then unat c - 87 else unat c - 48)"

definition hex_value :: "wstring \<Rightarrow> nat" where
  "hex_value s = foldl (\<lambda>n c. 16 * n + hex_digit c) 0 s"

lemma hex_digit_HexMap: "n < 16 \<Longrightarrow> hex_digit (HexMap ! n) = n"
proof -
  assume "n < 16"
  then have "n \<in> set [0..<16]" by simp
  moreover have "list_all (\<lambda>n. hex_digit (HexMap ! n) = n) [0..<16]"
    by (simp add: HexMap_def hex_digit_def upt_rec)
  ultimately show ?thesis by (simp add: list_all_iff)
qed

lemma nibbles:
  fixes b :: byte
  shows "unat (drop_bit 4 (b AND 0xF0)) = unat b div 16" "unat (b AND 0x0F) = unat b mod 16"
proof -
  have "drop_bit 4 (b AND 0xF0) = drop_bit 4 b"
  proof (rule bit_word_eqI)
    fix i assume "i < LENGTH(8)"
    then have "i \<in> {0, 1, 2, 3} \<or> 4 \<le> i" by auto
    moreover have "4 \<le> i \<Longrightarrow> \<not> bit b (4 + i)" using bit_byte [of b "4 + i"] by auto
    ultimately show "bit (drop_bit 4 (b AND 0xF0)) i = bit (drop_bit 4 b) i"
      by (auto simp: bit_simps bits_simps)
  qed
  then show "unat (drop_bit 4 (b AND 0xF0)) = unat b div 16"
    by (simp only: unat_drop_bit_eq drop_bit_eq_div [where 'a = nat]) simp
  show "unat (b AND 0x0F) = unat b mod 16"
    unfolding byte_numeral_eq_mask by (simp add: take_bit_eq_mask [symmetric] unsigned_take_bit_eq take_bit_eq_mod
        unat_mod_distrib)
qed

definition hex_pair :: "byte \<Rightarrow> wstring" where
  "hex_pair b = [HexMap ! unat (drop_bit 4 (b AND 0xF0)), HexMap ! unat (b AND 0x0F)]"

lemma TokenStr_pairs:
  "le_bytes 4 token = [b0, b1, b2, b3] \<Longrightarrow> TokenStr token = hex_pair b3 @ hex_pair b2 @ hex_pair b1 @ hex_pair b0"
  by (simp add: TokenStr_def hex_pair_def Let_def upt_rec eval_nat_numeral del: le_bytes.simps)

lemma hex_value_pair: "foldl (\<lambda>n c. 16 * n + hex_digit c) n (hex_pair b) = 256 * n + unat b"
proof -
  have "hex_digit (HexMap ! (unat b div 16)) = unat b div 16"
    "hex_digit (HexMap ! (unat b mod 16)) = unat b mod 16"
    using unat_byte [of b] by (auto intro: hex_digit_HexMap)
  then show ?thesis unfolding hex_pair_def nibbles by simp
qed

lemma byte_of_token: "unat (ucast (drop_bit k (t :: u32)) :: byte) = unat t div 2 ^ k mod 256"
  by (simp only: unsigned_ucast_eq unat_drop_bit_eq take_bit_eq_mod drop_bit_eq_div [where 'a = nat]) simp

lemma TokenStr_value: "hex_value (TokenStr token) = unat token \<and> length (TokenStr token) = 8"
proof -
  let ?n = "unat token" and ?b = "\<lambda>k. ucast (drop_bit k token) :: byte"
  have le: "le_bytes 4 token = [?b 0, ?b 8, ?b 16, ?b 24]"
    by (simp add: eval_nat_numeral drop_bit_drop_bit)
  have n: "?n < 4294967296" using unsigned_less [of token, where 'a = nat] by simp
  have "hex_value (TokenStr token)
      = 256 * (256 * (256 * unat (?b 24) + unat (?b 16)) + unat (?b 8)) + unat (?b 0)"
    unfolding TokenStr_pairs [OF le] hex_value_def foldl_append hex_value_pair by simp
  also have "\<dots> = 256 * (256 * (256 * (?n div 16777216 mod 256) + ?n div 65536 mod 256) + ?n div 256 mod 256)
      + ?n mod 256"
    by (simp only: byte_of_token) simp
  also have "\<dots> = ?n"
  proof -
    have d: "?n div 65536 = ?n div 256 div 256" "?n div 16777216 = ?n div 256 div 256 div 256"
      by (simp_all only: div_mult2_eq [symmetric]) simp_all
    have "?n div 256 div 256 div 256 mod 256 = ?n div 256 div 256 div 256"
      using n unfolding d(2) [symmetric] by simp
    then show ?thesis unfolding d by simp
  qed
  finally show ?thesis unfolding TokenStr_pairs [OF le] by (simp add: hex_pair_def)
qed

section \<open>Conversions keep text\<close>

lemma utf16_encode_nonzero:
  assumes "scalar pt" "pt \<noteq> 0"
  shows "0 \<notin> set (utf16_encode pt)"
proof (cases "pt < 0x10000")
  case True
  then have u: "unat pt < 65536" by (simp add: word_less_nat_alt)
  have "unat pt \<noteq> 0" using assms(2) by (simp add: unat_eq_0)
  then have "(ucast pt :: u16) \<noteq> 0" using unat_u16_u32 [OF u] by auto
  then show ?thesis using True by (auto simp: utf16_encode_def)
next
  case False
  have lt: "pt < 0x110000" using assms(1) by (simp add: scalar_def)
  have "\<not> is_high_surrogate 0" "\<not> is_low_surrogate 0"
    by (simp_all add: is_high_surrogate_def is_low_surrogate_def)
  then show ?thesis
    using surrogate_pair(1,2) [OF False lt] False lt by (auto simp: utf16_encode_def)
qed

lemma ToWSTRING_scalars:
  assumes "\<forall>pt \<in> set pts. scalar pt \<and> pt \<noteq> 0"
  shows "ToWSTRING (to_utf8_32 pts) = concat (map utf16_encode pts)"
proof -
  have "\<forall>pt \<in> set pts. pt < 0x110000" using assms by (simp add: scalar_def)
  then have "to_utf16 (to_utf8_32 pts) = Inr (concat (map utf16_encode pts))"
    by (simp add: to_utf16_def decode_utf8)
  moreover have "0 \<notin> set (concat (map utf16_encode pts))"
    using assms utf16_encode_nonzero by auto
  ultimately show ?thesis by (auto simp: ToWSTRING_def c_str_def takeWhile_eq_all_conv)
qed

lemma ToString_scalars:
  assumes "\<forall>pt \<in> set pts. scalar pt \<and> pt \<noteq> 0"
  shows "ToString (concat (map utf16_encode pts)) = to_utf8_32 pts"
proof -
  have "0 \<notin> set (concat (map utf16_encode pts))"
    using assms utf16_encode_nonzero by auto
  then have "c_str (concat (map utf16_encode pts)) = concat (map utf16_encode pts)"
    by (auto simp: c_str_def takeWhile_eq_all_conv)
  then show ?thesis using decode_utf16 [of pts] assms by (simp add: ToString_def)
qed

text \<open>Printable ASCII is the same in all encodings.\<close>

definition ascii :: "'a::len word list \<Rightarrow> bool" where
  "ascii s \<longleftrightarrow> list_all (\<lambda>c. c \<noteq> 0 \<and> c < 0x80) s"

lemma ToWSTRING_ascii:
  assumes "ascii s"
  shows "ToWSTRING s = map ucast s"
proof -
  have c: "utf8_encode (ucast c) = [c] \<and> utf16_encode (ucast c) = [ucast c] \<and> scalar (ucast c)
      \<and> (ucast c :: u32) \<noteq> 0" if "c \<noteq> 0" "c < 0x80" for c :: byte
  proof -
    have u: "unat c < 128" "unat c \<noteq> 0" using that by (simp_all add: word_less_nat_alt unat_eq_0)
    then have n: "unat (ucast c :: u32) = unat c" by (simp add: unsigned_ucast_eq take_bit_nat_eq_self)
    have "ucast (ucast c :: u32) = c" by (rule bit_word_eqI) (simp add: bit_simps)
    moreover have "ucast (ucast c :: u32) = (ucast c :: u16)"
      by (rule bit_word_eqI) (use bit_byte in \<open>force simp: bit_simps\<close>)
    moreover have "(ucast c :: u32) \<noteq> 0" using n u(2) by auto
    ultimately show ?thesis
      using u n by (simp add: utf8_encode_def utf16_encode_def scalar_def word_less_nat_alt word_le_nat_alt)
  qed
  let ?pts = "map ucast s :: u32 list"
  have all: "\<forall>c \<in> set s. c \<noteq> 0 \<and> c < 0x80" using assms by (simp add: ascii_def list_all_iff)
  have "to_utf8_32 ?pts = s" "concat (map utf16_encode ?pts) = map ucast s"
    using all c by (induction s) (simp_all add: to_utf8_32_def)
  moreover have "\<forall>pt \<in> set ?pts. scalar pt \<and> pt \<noteq> 0" using all c by auto
  ultimately show ?thesis using ToWSTRING_scalars [of ?pts] by simp
qed

section \<open>Properties\<close>

text \<open>Text without zeros survives the two string conversions of the profiler.\<close>

theorem ToString_ToWSTRING:
  assumes "\<forall>pt \<in> set pts. scalar pt \<and> pt \<noteq> 0"
  shows "ToString (ToWSTRING (to_utf8_32 pts)) = to_utf8_32 pts"
  using ToWSTRING_scalars [OF assms] ToString_scalars [OF assms] by simp

theorem ToString_ToWSTRING_witness:
  "ToString (ToWSTRING (to_utf8_32 [0x24, 0x20AC, 0x1F600])) = to_utf8_32 [0x24, 0x20AC, 0x1F600]"
  by (rule ToString_ToWSTRING) (simp add: scalar_def)

text \<open>Split cuts a string at every delimiter and nowhere else: the parts joined with the
  delimiter give the string back, and no part contains it.\<close>

theorem Split_correct:
  "join delim (Split s delim) = s \<and> list_all (\<lambda>p. delim \<notin> set p) (Split s delim) \<and> Split s delim \<noteq> []"
  using Split_join [of s delim] by blast

text \<open>Trim strips blanks from both ends, except that a string of blanks only is returned as
  it is.\<close>

theorem Trim_correct: "Trim s = (if list_all blank s then s else strip s)"
  by (rule Trim_strip)

text \<open>Therefore \<open>GetEnvironmentValues\<close>, which drops the values that are empty after \<open>Trim\<close>,
  keeps the blank ones: in \<open>"a; ;b"\<close> it finds three values.\<close>

theorem GetEnvironmentValues_keeps_blank:
  "GetEnvironmentValues (\<lambda>_. Some [97, 59, 32, 59, 98]) name 59 = [[97], [32], [98]]"
proof -
  have "ToWSTRING [97, 59, 32, 59, 98] = [97, 59, 32, 59, 98]"
    by (simp add: ToWSTRING_ascii ascii_def)
  then have "GetEnvironmentValue (\<lambda>_. Some [97, 59, 32, 59, 98]) name = [97, 59, 32, 59, 98]"
    by (simp add: GetEnvironmentValue_def Trim_strip blank_def strip_def)
  then show ?thesis
    by (simp add: GetEnvironmentValues_def Split_def upt_rec Trim_strip blank_def strip_def)
qed

text \<open>TokenStr prints a token as eight hexadecimal digits, most significant first.\<close>

theorem TokenStr_correct: "hex_value (TokenStr token) = unat token \<and> length (TokenStr token) = 8"
  by (rule TokenStr_value)

end
