(* ===== verification/Integration.thy ===== *)
theory Integration
  imports StringUtil "HOL-Library.Product_Lexorder" "HOL-Library.Sublist"
begin

text \<open>
  The descriptions of what to instrument (\<open>integration.h\<close>, \<open>integration.cpp\<close>): public keys,
  versions, assembly references and their textual form, method signatures, and the
  replacement of one method by another.
\<close>

section \<open>Public keys\<close>

text \<open>Eight bytes.\<close>

type_synonym PublicKey = "byte list"

abbreviation (input) kPublicKeySize :: nat where "kPublicKeySize \<equiv> 8"

definition PublicKey_zero :: PublicKey where
  "PublicKey_zero = replicate kPublicKeySize 0"

text \<open>\<open>ss << std::setfill('0') << std::setw(2) << std::hex << static_cast<int>(b)\<close>.\<close>

definition hex_char :: "nat \<Rightarrow> byte" where
  "hex_char n = (if n < 10 then of_nat (48 + n) else of_nat (87 + n))"

definition hex2 :: "byte \<Rightarrow> cstring" where
  "hex2 b = [hex_char (unat b div 16), hex_char (unat b mod 16)]"

definition PublicKey_str :: "PublicKey \<Rightarrow> wstring" where
  "PublicKey_str pk = ToWSTRING (concat (map (\<lambda>i. hex2 (pk ! i)) [0..<kPublicKeySize]))"

fun PublicKey_eq_from :: "nat \<Rightarrow> nat \<Rightarrow> PublicKey \<Rightarrow> PublicKey \<Rightarrow> bool" where
  "PublicKey_eq_from 0 i pk other = True"
| "PublicKey_eq_from (Suc n) i pk other =
     (if pk ! i \<noteq> other ! i then False else PublicKey_eq_from n (i + 1) pk other)"

definition PublicKey_eq :: "PublicKey \<Rightarrow> PublicKey \<Rightarrow> bool" where
  "PublicKey_eq = PublicKey_eq_from kPublicKeySize 0"

section \<open>Versions\<close>

datatype Version = Version (major: u16) (minor: u16) (build: u16) (revision: u16)

definition Version_zero :: Version where
  "Version_zero = Version 0 0 0 0"

definition Version_eq :: "Version \<Rightarrow> Version \<Rightarrow> bool" where
  "Version_eq v other \<longleftrightarrow> major v = major other \<and> minor v = minor other \<and> build v = build other
     \<and> revision v = revision other"

definition Version_str :: "Version \<Rightarrow> wstring" where
  "Version_str v = ToWSTRING (decimal (unat (major v)) @ [46] @ decimal (unat (minor v)) @ [46]
     @ decimal (unat (build v)) @ [46] @ decimal (unat (revision v)))"

definition Version_lt :: "Version \<Rightarrow> Version \<Rightarrow> bool" where
  "Version_lt v other \<longleftrightarrow>
     (if major v < major other then True
      else if major v = major other \<and> minor v < minor other then True
      else if major v = major other \<and> minor v = minor other \<and> build v < build other then True
      else False)"

definition Version_gt :: "Version \<Rightarrow> Version \<Rightarrow> bool" where
  "Version_gt v other \<longleftrightarrow>
     (if major v > major other then True
      else if major v = major other \<and> minor v > minor other then True
      else if major v = major other \<and> minor v = minor other \<and> build v > build other then True
      else False)"

section \<open>Assembly references\<close>

record AssemblyReference =
  name :: wstring
  version :: Version
  locale_name :: wstring
  public_key :: PublicKey

text \<open>The part before the first comma, cut at its last space.\<close>

definition GetNameFromAssemblyReferenceString :: "wstring \<Rightarrow> wstring" where
  "GetNameFromAssemblyReferenceString wstr =
     (let name = wstr;
          pos = length (takeWhile (\<lambda>c. c \<noteq> wc CHR '','') name);
          name = (if pos < length name then take pos name else name);
          rpos = length (takeWhile (\<lambda>c. c \<noteq> wc CHR '' '') (rev name))
      in if rpos < length name then take (length name - 1 - rpos) name else name)"

text \<open>\<open>std::regex_search\<close> with the patterns of the code (the Windows branch): the leftmost
  match; the groups are greedy and what follows a group never starts with one of its
  characters, so there is no backtracking.\<close>

fun regex_search :: "(wstring \<Rightarrow> 'r option) \<Rightarrow> wstring \<Rightarrow> 'r option" where
  "regex_search m [] = m []"
| "regex_search m (c # cs) = (case m (c # cs) of Some r \<Rightarrow> Some r | None \<Rightarrow> regex_search m cs)"

definition literal :: "wstring \<Rightarrow> wstring \<Rightarrow> wstring option" where
  "literal p s = (if take (length p) s = p then Some (drop (length p) s) else None)"

definition group :: "(u16 \<Rightarrow> bool) \<Rightarrow> wstring \<Rightarrow> (wstring \<times> wstring) option" where
  "group P s = (let g = takeWhile P s in if g = [] then None else Some (g, dropWhile P s))"

definition obind :: "'a option \<Rightarrow> ('a \<Rightarrow> 'b option) \<Rightarrow> 'b option" where
  "obind m f = (case m of None \<Rightarrow> None | Some x \<Rightarrow> f x)"

definition is_digit :: "u16 \<Rightarrow> bool" where
  "is_digit c \<longleftrightarrow> wc CHR ''0'' \<le> c \<and> c \<le> wc CHR ''9''"

definition is_alnum :: "u16 \<Rightarrow> bool" where
  "is_alnum c \<longleftrightarrow> is_digit c \<or> wc CHR ''a'' \<le> c \<and> c \<le> wc CHR ''z'' \<or> wc CHR ''A'' \<le> c \<and> c \<le> wc CHR ''Z''"

definition is_hex :: "u16 \<Rightarrow> bool" where
  "is_hex c \<longleftrightarrow> is_digit c \<or> wc CHR ''a'' \<le> c \<and> c \<le> wc CHR ''f'' \<or> wc CHR ''A'' \<le> c \<and> c \<le> wc CHR ''F''"

definition match_version :: "wstring \<Rightarrow> (wstring \<times> wstring \<times> wstring \<times> wstring) option" where
  "match_version s =
     obind (literal (WStr ''Version='') s) (\<lambda>s. obind (group is_digit s) (\<lambda>(g1, s).
     obind (literal (WStr ''.'') s) (\<lambda>s. obind (group is_digit s) (\<lambda>(g2, s).
     obind (literal (WStr ''.'') s) (\<lambda>s. obind (group is_digit s) (\<lambda>(g3, s).
     obind (literal (WStr ''.'') s) (\<lambda>s. obind (group is_digit s) (\<lambda>(g4, s).
       Some (g1, g2, g3, g4)))))))))"

text \<open>\<open>WSTRINGSTREAM(digits) >> n\<close> for an \<open>unsigned short\<close>: a number that does not fit sets
  \<open>n\<close> to the largest one.\<close>

definition stream_ushort :: "wstring \<Rightarrow> u16" where
  "stream_ushort s =
     (let n = foldl (\<lambda>n c. 10 * n + (unat c - 48)) 0 s in if n \<le> 65535 then of_nat n else 65535)"

definition GetVersionFromAssemblyReferenceString :: "wstring \<Rightarrow> Version" where
  "GetVersionFromAssemblyReferenceString str =
     (case regex_search match_version str of
        Some (g1, g2, g3, g4) \<Rightarrow>
          Version (stream_ushort g1) (stream_ushort g2) (stream_ushort g3) (stream_ushort g4)
      | None \<Rightarrow> Version 0 0 0 0)"

definition match_culture :: "wstring \<Rightarrow> wstring option" where
  "match_culture s = obind (literal (WStr ''Culture='') s) (\<lambda>s. obind (group is_alnum s) (\<lambda>(g, s). Some g))"

definition GetLocaleFromAssemblyReferenceString :: "wstring \<Rightarrow> wstring" where
  "GetLocaleFromAssemblyReferenceString str =
     (case regex_search match_culture str of Some g \<Rightarrow> g | None \<Rightarrow> WStr ''neutral'')"

text \<open>\<open>[a-fA-F0-9]{16}\<close>, and \<open>>> std::hex\<close> on two of its digits.\<close>

definition match_public_key :: "wstring \<Rightarrow> wstring option" where
  "match_public_key s = obind (literal (WStr ''PublicKeyToken='') s) (\<lambda>s.
     if length (take 16 s) = 16 \<and> list_all is_hex (take 16 s) then Some (take 16 s) else None)"

definition hex_digit_value :: "u16 \<Rightarrow> nat" where
  "hex_digit_value c =
     (if is_digit c then unat c - 48 else if wc CHR ''a'' \<le> c then unat c - 87 else unat c - 55)"

definition GetPublicKeyFromAssemblyReferenceString :: "wstring \<Rightarrow> PublicKey" where
  "GetPublicKeyFromAssemblyReferenceString str =
     (case regex_search match_public_key str of
        Some g \<Rightarrow> map (\<lambda>i. let s = take 2 (drop (i * 2) g)
            in of_nat (foldl (\<lambda>n c. 16 * n + hex_digit_value c) 0 s)) [0..<8]
      | None \<Rightarrow> replicate 8 0)"

definition AssemblyReference_parse :: "wstring \<Rightarrow> AssemblyReference" where
  "AssemblyReference_parse str = \<lparr>
     name = GetNameFromAssemblyReferenceString str,
     version = GetVersionFromAssemblyReferenceString str,
     locale_name = GetLocaleFromAssemblyReferenceString str,
     public_key = GetPublicKeyFromAssemblyReferenceString str\<rparr>"

text \<open>On the other platforms the code asks \<open>re2::RE2::FullMatch\<close>, a parameter here, for each of
  the three patterns: the values it leaves in the integers it was given, or the text of the
  group if there is a match.\<close>

definition GetVersionFromAssemblyReferenceString_re2 ::
  "(cstring \<Rightarrow> u16 \<times> u16 \<times> u16 \<times> u16 \<Rightarrow> u16 \<times> u16 \<times> u16 \<times> u16) \<Rightarrow> wstring \<Rightarrow> Version" where
  "GetVersionFromAssemblyReferenceString_re2 FullMatch str =
     (let (v1, v2, v3, v4) = FullMatch (ToString str) (0, 0, 0, 0) in Version v1 v2 v3 v4)"

definition GetLocaleFromAssemblyReferenceString_re2 ::
  "(cstring \<Rightarrow> cstring option) \<Rightarrow> wstring \<Rightarrow> wstring" where
  "GetLocaleFromAssemblyReferenceString_re2 FullMatch str =
     (case FullMatch (ToString str) of Some m \<Rightarrow> ToWSTRING m | None \<Rightarrow> WStr ''neutral'')"

definition GetPublicKeyFromAssemblyReferenceString_re2 ::
  "(cstring \<Rightarrow> cstring option) \<Rightarrow> wstring \<Rightarrow> PublicKey" where
  "GetPublicKeyFromAssemblyReferenceString_re2 FullMatch str =
     (case FullMatch (ToString str) of
        Some g \<Rightarrow> map (\<lambda>i. let s = take 2 (drop (i * 2) g)
            in of_nat (foldl (\<lambda>n c. 16 * n + hex_digit_value (ucast c)) 0 s)) [0..<8]
      | None \<Rightarrow> replicate 8 0)"

definition AssemblyReference_parse_re2 ::
  "(cstring \<Rightarrow> u16 \<times> u16 \<times> u16 \<times> u16 \<Rightarrow> u16 \<times> u16 \<times> u16 \<times> u16) \<Rightarrow> (cstring \<Rightarrow> cstring option)
    \<Rightarrow> (cstring \<Rightarrow> cstring option) \<Rightarrow> wstring \<Rightarrow> AssemblyReference" where
  "AssemblyReference_parse_re2 re_version re_culture re_key str = \<lparr>
     name = GetNameFromAssemblyReferenceString str,
     version = GetVersionFromAssemblyReferenceString_re2 re_version str,
     locale_name = GetLocaleFromAssemblyReferenceString_re2 re_culture str,
     public_key = GetPublicKeyFromAssemblyReferenceString_re2 re_key str\<rparr>"

definition AssemblyReference_eq :: "AssemblyReference \<Rightarrow> AssemblyReference \<Rightarrow> bool" where
  "AssemblyReference_eq a other \<longleftrightarrow> name a = name other \<and> Version_eq (version a) (version other)
     \<and> locale_name a = locale_name other \<and> PublicKey_eq (public_key a) (public_key other)"

definition AssemblyReference_str :: "AssemblyReference \<Rightarrow> wstring" where
  "AssemblyReference_str a = name a @ WStr '', Version='' @ Version_str (version a)
     @ WStr '', Culture='' @ locale_name a @ WStr '', PublicKeyToken='' @ PublicKey_str (public_key a)"

section \<open>Method signatures\<close>

type_synonym MethodSignature = "byte list"

definition data_at :: "MethodSignature \<Rightarrow> nat \<Rightarrow> hr + byte" where
  "data_at data i = (if i < length data then Inr (data ! i) else Inl BadAccess)"

definition CallingConvention :: "MethodSignature \<Rightarrow> byte" where
  "CallingConvention data = (if data = [] then 0 else data ! 0)"

abbreviation (input) "IMAGE_CEE_CS_CALLCONV_GENERIC \<equiv> (0x10 :: byte)"
abbreviation (input) "IMAGE_CEE_CS_CALLCONV_HASTHIS \<equiv> (0x20 :: byte)"

definition NumberOfTypeArguments :: "MethodSignature \<Rightarrow> hr + byte" where
  "NumberOfTypeArguments data =
     (if length data > 1 \<and> CallingConvention data AND IMAGE_CEE_CS_CALLCONV_GENERIC \<noteq> 0
      then data_at data 1 else Inr 0)"

definition NumberOfArguments :: "MethodSignature \<Rightarrow> hr + byte" where
  "NumberOfArguments data =
     (if length data > 2 \<and> CallingConvention data AND IMAGE_CEE_CS_CALLCONV_GENERIC \<noteq> 0
      then data_at data 2 else if length data > 1 then data_at data 1 else Inr 0)"

definition ReturnTypeIsObject :: "MethodSignature \<Rightarrow> hr + bool" where
  "ReturnTypeIsObject data =
     (if length data > 2 \<and> CallingConvention data AND IMAGE_CEE_CS_CALLCONV_GENERIC \<noteq> 0
      then bindE (data_at data 3) (\<lambda>b. Inr (b = 0x1C))
      else if length data > 1 then bindE (data_at data 2) (\<lambda>b. Inr (b = 0x1C))
      else Inr False)"

definition IndexOfReturnType :: "MethodSignature \<Rightarrow> nat" where
  "IndexOfReturnType data =
     (if length data > 2 \<and> CallingConvention data AND IMAGE_CEE_CS_CALLCONV_GENERIC \<noteq> 0 then 3
      else if length data > 1 then 2 else 0)"

definition MethodSignature_str :: "MethodSignature \<Rightarrow> wstring" where
  "MethodSignature_str data = ToWSTRING (concat (map hex2 data))"

definition IsInstanceMethod :: "MethodSignature \<Rightarrow> bool" where
  "IsInstanceMethod data \<longleftrightarrow> CallingConvention data AND IMAGE_CEE_CS_CALLCONV_HASTHIS \<noteq> 0"

section \<open>Methods and replacements\<close>

record MethodReference =
  assembly :: AssemblyReference
  type_name :: wstring
  method_name :: wstring
  action :: wstring
  method_signature :: MethodSignature
  min_version :: Version
  max_version :: Version
  signature_types :: "wstring list"

definition MethodReference_default :: MethodReference where
  "MethodReference_default = \<lparr>
     assembly = \<lparr>name = [], version = Version_zero, locale_name = [], public_key = PublicKey_zero\<rparr>,
     type_name = [], method_name = [], action = [], method_signature = [],
     min_version = Version 0 0 0 0, max_version = Version 65535 65535 65535 65535,
     signature_types = []\<rparr>"

text \<open>The constructor; \<open>parse\<close> is the constructor of \<open>AssemblyReference\<close> of the platform.\<close>

definition MethodReference_make :: "(wstring \<Rightarrow> AssemblyReference) \<Rightarrow> wstring \<Rightarrow> wstring \<Rightarrow> wstring \<Rightarrow> wstring \<Rightarrow> Version \<Rightarrow> Version
    \<Rightarrow> byte list \<Rightarrow> wstring list \<Rightarrow> MethodReference" where
  "MethodReference_make parse assembly_name ty meth act minv maxv sig types = \<lparr>
     assembly = parse assembly_name, type_name = ty, method_name = meth,
     action = act, method_signature = sig, min_version = minv, max_version = maxv,
     signature_types = types\<rparr>"

definition get_type_cache_key :: "MethodReference \<Rightarrow> wstring" where
  "get_type_cache_key m = WStr ''['' @ name (assembly m) @ WStr '']'' @ type_name m @ WStr ''_vMin_''
     @ Version_str (min_version m) @ WStr ''_vMax_'' @ Version_str (max_version m)"

definition get_method_cache_key :: "MethodReference \<Rightarrow> wstring" where
  "get_method_cache_key m = WStr ''['' @ name (assembly m) @ WStr '']'' @ type_name m @ WStr ''.''
     @ method_name m @ WStr ''_vMin_'' @ Version_str (min_version m) @ WStr ''_vMax_''
     @ Version_str (max_version m)"

definition MethodReference_eq :: "MethodReference \<Rightarrow> MethodReference \<Rightarrow> bool" where
  "MethodReference_eq m other \<longleftrightarrow> AssemblyReference_eq (assembly m) (assembly other)
     \<and> type_name m = type_name other \<and> Version_eq (min_version m) (min_version other)
     \<and> Version_eq (max_version m) (max_version other) \<and> method_name m = method_name other
     \<and> method_signature m = method_signature other"

record MethodReplacement =
  caller_method :: MethodReference
  target_method :: MethodReference
  wrapper_method :: MethodReference

definition MethodReplacement_eq :: "MethodReplacement \<Rightarrow> MethodReplacement \<Rightarrow> bool" where
  "MethodReplacement_eq r other \<longleftrightarrow> MethodReference_eq (caller_method r) (caller_method other)
     \<and> MethodReference_eq (target_method r) (target_method other)
     \<and> MethodReference_eq (wrapper_method r) (wrapper_method other)"

record Integration =
  integration_name :: wstring
  method_replacements :: "MethodReplacement list"

definition Integration_eq :: "Integration \<Rightarrow> Integration \<Rightarrow> bool" where
  "Integration_eq i other \<longleftrightarrow> integration_name i = integration_name other
     \<and> list_all2 MethodReplacement_eq (method_replacements i) (method_replacements other)"

record IntegrationMethod =
  im_integration_name :: wstring
  replacement :: MethodReplacement

definition IntegrationMethod_eq :: "IntegrationMethod \<Rightarrow> IntegrationMethod \<Rightarrow> bool" where
  "IntegrationMethod_eq i other \<longleftrightarrow> im_integration_name i = im_integration_name other
     \<and> MethodReplacement_eq (replacement i) (replacement other)"

section \<open>Versions are compared by their first three numbers\<close>

instantiation Version :: linorder
begin

definition less_eq_Version :: "Version \<Rightarrow> Version \<Rightarrow> bool" where
  "less_eq_Version v w \<longleftrightarrow>
     (major v, minor v, build v, revision v) \<le> (major w, minor w, build w, revision w)"

definition less_Version :: "Version \<Rightarrow> Version \<Rightarrow> bool" where
  "less_Version v w \<longleftrightarrow>
     (major v, minor v, build v, revision v) < (major w, minor w, build w, revision w)"

instance
  by standard (auto simp: less_eq_Version_def less_Version_def Version.expand less_le_not_le)

end

definition same_release :: "Version \<Rightarrow> Version \<Rightarrow> bool" where
  "same_release v w \<longleftrightarrow> major v = major w \<and> minor v = minor w \<and> build v = build w"

lemma Version_lt_iff: "Version_lt v w \<longleftrightarrow> v < w \<and> \<not> same_release v w"
  by (auto simp: Version_lt_def less_Version_def same_release_def)

lemma Version_gt_lt: "Version_gt v w = Version_lt w v"
  by (auto simp: Version_gt_def Version_lt_def)

lemma Version_eq_iff [simp]: "Version_eq v w \<longleftrightarrow> v = w"
  by (auto simp: Version_eq_def Version.expand)

lemma PublicKey_eq_from_iff:
  "PublicKey_eq_from n i pk other \<longleftrightarrow> (\<forall>j < n. pk ! (i + j) = other ! (i + j))"
proof (induction n arbitrary: i)
  case (Suc n)
  have "(\<forall>j < Suc n. pk ! (i + j) = other ! (i + j))
      \<longleftrightarrow> pk ! i = other ! i \<and> (\<forall>j < n. pk ! (i + 1 + j) = other ! (i + 1 + j))"
    unfolding All_less_Suc2 by simp
  then show ?case using Suc by simp
qed simp

lemma PublicKey_eq_iff:
  "length pk = 8 \<Longrightarrow> length other = 8 \<Longrightarrow> PublicKey_eq pk other \<longleftrightarrow> pk = other"
  by (auto simp: PublicKey_eq_def PublicKey_eq_from_iff list_eq_iff_nth_eq)

section \<open>Searching for a key\<close>

abbreviation (input) eq_sign :: u16 where "eq_sign \<equiv> 61"

text \<open>A matcher of \<open>key=...\<close> matches only where the text up to the next \<open>=\<close> is \<open>key\<close>.\<close>

definition keyed :: "wstring \<Rightarrow> (wstring \<Rightarrow> 'r option) \<Rightarrow> bool" where
  "keyed key m \<longleftrightarrow> (\<forall>s r. m s = Some r \<longrightarrow> takeWhile (\<lambda>c. c \<noteq> eq_sign) s = key)"

lemma regex_search_skip_same:
  assumes "keyed key m" "eq_sign \<notin> set pre"
  shows "eq_sign \<notin> set key \<Longrightarrow> m (key @ eq_sign # rest) = Some r \<Longrightarrow>
    regex_search m (pre @ key @ eq_sign # rest) = Some r"
  using assms(2)
proof (induction pre)
  case Nil
  then show ?case by (cases "key @ eq_sign # rest") auto
next
  case (Cons c pre)
  have "takeWhile (\<lambda>c. c \<noteq> eq_sign) (c # pre @ key @ eq_sign # rest) = c # pre @ key"
    using Cons.prems by (auto simp: takeWhile_append)
  then have "m (c # pre @ key @ eq_sign # rest) = None"
    using assms(1) by (cases "m (c # pre @ key @ eq_sign # rest)") (auto simp: keyed_def)
  then show ?case using Cons by simp
qed

lemma regex_search_skip_other:
  assumes "keyed key m" "eq_sign \<notin> set pre" "\<not> suffix key pre" "key \<noteq> []"
  shows "regex_search m (pre @ eq_sign # rest) = regex_search m rest"
  using assms(2,3)
proof (induction pre)
  case Nil
  have "m (eq_sign # rest) = None"
    using assms(1,4) by (cases "m (eq_sign # rest)") (auto simp: keyed_def)
  then show ?case by simp
next
  case (Cons c pre)
  have "takeWhile (\<lambda>c. c \<noteq> eq_sign) (c # pre @ eq_sign # rest) = c # pre"
    using Cons.prems by (auto simp: takeWhile_append)
  then have "m (c # pre @ eq_sign # rest) = None"
    using assms(1) Cons.prems(2) by (cases "m (c # pre @ eq_sign # rest)") (auto simp: keyed_def)
  then show ?case using Cons by (simp add: suffix_Cons)
qed

lemma literal_keyed:
  assumes "literal (key @ [eq_sign]) s = Some t" "eq_sign \<notin> set key"
  shows "takeWhile (\<lambda>c. c \<noteq> eq_sign) s = key"
proof -
  have "take (Suc (length key)) s = key @ [eq_sign]" "drop (Suc (length key)) s = t"
    using assms(1) by (auto simp: literal_def split: if_splits)
  then have "s = (key @ [eq_sign]) @ t" by (metis append_take_drop_id)
  then show ?thesis using assms(2) by (auto simp: takeWhile_append)
qed

lemma literal_append [simp]: "literal p (p @ s) = Some s"
  by (simp add: literal_def)

lemma obind_simps [simp]: "obind None f = None" "obind (Some x) f = f x"
  by (simp_all add: obind_def)

lemma obind_eq_Some: "obind m f = Some y \<longleftrightarrow> (\<exists>x. m = Some x \<and> f x = Some y)"
  by (cases m) auto

lemma group_append:
  "list_all P g \<Longrightarrow> g \<noteq> [] \<Longrightarrow> (s = [] \<or> \<not> P (hd s)) \<Longrightarrow> group P (g @ s) = Some (g, s)"
  by (cases s; cases g) (auto simp: group_def Let_def list_all_iff takeWhile_append dropWhile_append)

lemma keys: "WStr ''Version='' = WStr ''Version'' @ [eq_sign]" "WStr ''Culture='' = WStr ''Culture'' @ [eq_sign]"
  "WStr ''PublicKeyToken='' = WStr ''PublicKeyToken'' @ [eq_sign]"
  "eq_sign \<notin> set (WStr ''Version'')" "eq_sign \<notin> set (WStr ''Culture'')" "eq_sign \<notin> set (WStr ''PublicKeyToken'')"
  by (simp_all add: WStr_def)

lemma keyed_matchers:
  "keyed (WStr ''Version'') match_version" "keyed (WStr ''Culture'') match_culture"
  "keyed (WStr ''PublicKeyToken'') match_public_key"
  unfolding keyed_def match_version_def match_culture_def match_public_key_def keys(1,2,3)
  using keys(4-6) by (auto simp: obind_eq_Some intro: literal_keyed)


section \<open>The textual form is read back\<close>

lemma unat_ucast_u16 [simp]: "unat (ucast (b :: byte) :: u16) = unat b"
  using unat_byte [of b] by (simp add: unsigned_ucast_eq take_bit_nat_eq_self)

lemma decimal_Nil [simp]: "decimal n \<noteq> []"
  by (subst decimal.simps) simp

lemma digit_byte: "n < 10 \<Longrightarrow> unat (48 + of_nat n :: byte) = 48 + n"
  using unat_of_nat [of "48 + n", where 'a = 8] by (simp only: of_nat_add) simp

lemma decimal_digits: "\<forall>c \<in> set (decimal n). 48 \<le> unat c \<and> unat c \<le> 57"
proof (induction n rule: decimal.induct)
  case (1 n)
  show ?case
    by (subst decimal.simps) (use 1 digit_byte [of n] digit_byte [of "n mod 10"] in auto)
qed

lemma decimal_value: "foldl (\<lambda>n c. 10 * n + (unat c - 48)) 0 (map ucast (decimal n) :: wstring) = n"
proof (induction n rule: decimal.induct)
  case (1 n)
  show ?case
    by (subst decimal.simps) (use 1 digit_byte [of n] digit_byte [of "n mod 10"] in simp)
qed

lemma decimal_is_digit: "list_all is_digit (map ucast (decimal n))"
  using decimal_digits [of n]
  by (auto simp: list_all_iff is_digit_def wc_def word_le_nat_alt)

lemma ascii_iff: "ascii s \<longleftrightarrow> (\<forall>c \<in> set s. unat c \<noteq> 0 \<and> unat c < 128)" for s :: cstring
  by (auto simp: ascii_def list_all_iff word_less_nat_alt unat_eq_0)

lemma ascii_decimal: "ascii (decimal n)"
  using decimal_digits [of n] by (fastforce simp: ascii_iff)

lemma Version_str_eq:
  "Version_str v = map ucast (decimal (unat (major v))) @ WStr ''.'' @ map ucast (decimal (unat (minor v)))
     @ WStr ''.'' @ map ucast (decimal (unat (build v))) @ WStr ''.'' @ map ucast (decimal (unat (revision v)))"
proof -
  have "ascii (decimal (unat (major v)) @ [46] @ decimal (unat (minor v)) @ [46]
     @ decimal (unat (build v)) @ [46] @ decimal (unat (revision v)))"
    using ascii_decimal by (simp add: ascii_def)
  then show ?thesis by (simp add: Version_str_def ToWSTRING_ascii WStr_def)
qed

lemma stream_ushort_decimal [simp]: "stream_ushort (map ucast (decimal (unat n))) = n"
  using unsigned_less [of n, where 'a = nat] by (simp add: stream_ushort_def decimal_value)

lemma match_version_str:
  assumes "s = [] \<or> \<not> is_digit (hd s)"
  shows "match_version (WStr ''Version='' @ Version_str v @ s) =
    Some (map ucast (decimal (unat (major v))), map ucast (decimal (unat (minor v))),
      map ucast (decimal (unat (build v))), map ucast (decimal (unat (revision v))))"
proof -
  have dot: "group is_digit (map ucast (decimal n) @ WStr ''.'' @ u) = Some (map ucast (decimal n), WStr ''.'' @ u)"
    for n u
    by (rule group_append) (simp_all add: decimal_is_digit WStr_def is_digit_def wc_def)
  show ?thesis
    by (simp add: match_version_def Version_str_eq dot group_append decimal_is_digit assms)
qed

lemma hex_char:
  assumes "n < 16"
  shows "is_hex (ucast (hex_char n)) \<and> hex_digit_value (ucast (hex_char n)) = n
    \<and> unat (hex_char n) \<noteq> 0 \<and> unat (hex_char n) < 128 \<and> unat (hex_char n) \<noteq> 61"
proof -
  have "n \<in> set [0..<16]" using assms by simp
  moreover have "list_all (\<lambda>n. is_hex (ucast (hex_char n)) \<and> hex_digit_value (ucast (hex_char n)) = n
      \<and> unat (hex_char n) \<noteq> 0 \<and> unat (hex_char n) < 128 \<and> unat (hex_char n) \<noteq> 61) [0..<16]"
    by (simp add: hex_char_def is_hex_def is_digit_def hex_digit_value_def wc_def upt_rec)
  ultimately show ?thesis by (simp add: list_all_iff)
qed

lemma hex2_chars: "c \<in> set (hex2 b) \<Longrightarrow> \<exists>n < 16. c = hex_char n"
proof -
  have "unat b div 16 < 16" "unat b mod 16 < 16" using unat_byte [of b] by auto
  moreover assume "c \<in> set (hex2 b)"
  then have "c = hex_char (unat b div 16) \<or> c = hex_char (unat b mod 16)" by (auto simp: hex2_def)
  ultimately show ?thesis by blast
qed

lemma hex2_value:
  "foldl (\<lambda>n c. 16 * n + hex_digit_value c) 0 (map ucast (hex2 b)) = unat b"
  using unat_byte [of b] by (simp add: hex2_def hex_char)

lemma hex2_hex: "c \<in> set (hex2 b) \<Longrightarrow> is_hex (ucast c) \<and> unat c \<noteq> 0 \<and> unat c < 128 \<and> unat c \<noteq> 61"
  using hex2_chars hex_char by blast

lemma PublicKey_str_eq:
  assumes "length pk = 8"
  shows "PublicKey_str pk = concat (map (\<lambda>b. map ucast (hex2 b)) pk)"
proof -
  have "map (\<lambda>i. hex2 (pk ! i)) [0..<8] = map hex2 pk"
    using arg_cong [OF map_nth [of pk], of "map hex2"] assms by (simp add: o_def)
  moreover have "ascii (concat (map hex2 pk))"
    using hex2_hex by (auto simp: ascii_iff)
  ultimately show ?thesis by (simp add: PublicKey_str_def ToWSTRING_ascii map_concat o_def)
qed

lemma hex_pairs:
  assumes "i < length pk"
  shows "take 2 (drop (i * 2) (concat (map (\<lambda>b. map ucast (hex2 b)) pk))) = map ucast (hex2 (pk ! i))"
  using assms
proof (induction pk arbitrary: i)
  case (Cons b pk)
  then show ?case by (cases i) (auto simp: hex2_def)
qed simp

lemma match_public_key_str:
  assumes "length pk = 8"
  shows "match_public_key (WStr ''PublicKeyToken='' @ PublicKey_str pk) = Some (PublicKey_str pk)"
proof -
  have "length (PublicKey_str pk) = 16"
    using assms by (simp add: PublicKey_str_eq length_concat hex2_def o_def sum_list_triv)
  moreover have "list_all is_hex (PublicKey_str pk)"
    using assms hex2_hex by (simp add: PublicKey_str_eq list_all_iff)
  ultimately show ?thesis by (simp add: match_public_key_def)
qed


lemma no_eq_sign:
  "eq_sign \<notin> set (Version_str v)" "list_all is_alnum l \<Longrightarrow> eq_sign \<notin> set l"
proof -
  have d: "c \<noteq> eq_sign" if "is_alnum c" for c
    using that by (auto simp: is_alnum_def is_digit_def wc_def)
  have "list_all is_alnum (map ucast (decimal n))" for n
    using decimal_is_digit [of n] by (simp add: list_all_iff is_alnum_def)
  then show "eq_sign \<notin> set (Version_str v)"
    using d by (auto simp: Version_str_eq list_all_iff WStr_def)
  show "list_all is_alnum l \<Longrightarrow> eq_sign \<notin> set l" using d by (auto simp: list_all_iff)
qed

lemma not_suffix_keys:
  "\<not> suffix (WStr ''Culture'') (xs @ WStr '', Version'')"
  "\<not> suffix (WStr ''PublicKeyToken'') (xs @ WStr '', Version'')"
  "\<not> suffix (WStr ''PublicKeyToken'') (xs @ WStr '', Culture'')"
  by (simp_all add: suffix_to_prefix WStr_def)

lemma WStr_skip:
  "WStr '', Version='' @ s = WStr '', Version'' @ eq_sign # s"
  "WStr '', Culture='' @ s = WStr '', Culture'' @ eq_sign # s"
  by (simp_all add: WStr_def)

lemma WStr_match:
  "WStr '', Version='' @ s = WStr '', '' @ WStr ''Version'' @ eq_sign # s"
  "WStr '', Culture='' @ s = WStr '', '' @ WStr ''Culture'' @ eq_sign # s"
  "WStr '', PublicKeyToken='' @ s = WStr '', '' @ WStr ''PublicKeyToken'' @ eq_sign # s"
  "WStr ''Version='' @ s = WStr ''Version'' @ eq_sign # s"
  "WStr ''Culture='' @ s = WStr ''Culture'' @ eq_sign # s"
  "WStr ''PublicKeyToken='' @ s = WStr ''PublicKeyToken'' @ eq_sign # s"
  by (simp_all add: WStr_def)

lemma WStr_no_eq_sign:
  "eq_sign \<notin> set (WStr '', '')" "eq_sign \<notin> set (WStr '', Version'')" "eq_sign \<notin> set (WStr '', Culture'')"
  "WStr ''Culture'' \<noteq> []" "WStr ''PublicKeyToken'' \<noteq> []"
  by (simp_all add: WStr_def)

lemma parse_name:
  assumes "wc CHR '','' \<notin> set n" "wc CHR '' '' \<notin> set n"
  shows "GetNameFromAssemblyReferenceString (n @ WStr '', Version='' @ s) = n"
proof -
  have "takeWhile (\<lambda>c. c \<noteq> wc CHR '','') (n @ WStr '', Version='' @ s) = n"
    using assms(1) by (subst takeWhile_append2) (auto simp: WStr_def wc_def)
  moreover have "length (takeWhile (\<lambda>c. c \<noteq> wc CHR '' '') (rev n)) = length n"
    by (subst takeWhile_eq_all_conv [THEN iffD2]) (use assms(2) in auto)
  ultimately show ?thesis by (simp add: GetNameFromAssemblyReferenceString_def WStr_def Let_def)
qed

lemma parse_version:
  assumes "eq_sign \<notin> set n" "s = [] \<or> \<not> is_digit (hd s)"
  shows "GetVersionFromAssemblyReferenceString (n @ WStr '', Version='' @ Version_str v @ s) = v"
proof -
  have "regex_search match_version ((n @ WStr '', '') @ WStr ''Version'' @ eq_sign # Version_str v @ s)
      = match_version (WStr ''Version='' @ Version_str v @ s)"
    using regex_search_skip_same [OF keyed_matchers(1), of "n @ WStr '', ''"] assms(1)
      keys(4) match_version_str [OF assms(2), unfolded WStr_match] WStr_no_eq_sign(1)
    by (simp add: WStr_match(4))
  then have "regex_search match_version (n @ WStr '', Version='' @ Version_str v @ s)
      = match_version (WStr ''Version='' @ Version_str v @ s)"
    by (simp only: WStr_match(1) append.assoc)
  then show ?thesis
    by (simp add: GetVersionFromAssemblyReferenceString_def match_version_str [OF assms(2)])
qed

lemma skip_version:
  assumes "keyed key m" "eq_sign \<notin> set n" "key \<in> {WStr ''Culture'', WStr ''PublicKeyToken''}"
  shows "regex_search m (n @ WStr '', Version='' @ s) = regex_search m s"
proof -
  have "regex_search m ((n @ WStr '', Version'') @ eq_sign # s) = regex_search m s"
    using assms(2,3) not_suffix_keys WStr_no_eq_sign by (intro regex_search_skip_other [OF assms(1)]) auto
  then show ?thesis by (simp only: WStr_skip(1) append.assoc)
qed

lemma parse_culture:
  assumes "eq_sign \<notin> set n" "list_all is_alnum l" "l \<noteq> []" "s = [] \<or> \<not> is_alnum (hd s)"
  shows "GetLocaleFromAssemblyReferenceString
    (n @ WStr '', Version='' @ Version_str v @ WStr '', Culture='' @ l @ s) = l"
proof -
  have m: "match_culture (WStr ''Culture='' @ l @ s) = Some l"
    using assms(2-4) by (simp add: match_culture_def group_append)
  have "regex_search match_culture ((Version_str v @ WStr '', '') @ WStr ''Culture'' @ eq_sign # l @ s) = Some l"
    using m [unfolded WStr_match] keys(5) no_eq_sign(1) WStr_no_eq_sign(1)
    by (intro regex_search_skip_same [OF keyed_matchers(2)]) simp_all
  then have "regex_search match_culture (Version_str v @ WStr '', Culture='' @ l @ s) = Some l"
    by (simp only: WStr_match(2) append.assoc)
  then show ?thesis
    using skip_version [OF keyed_matchers(2) assms(1)]
    by (simp add: GetLocaleFromAssemblyReferenceString_def)
qed

lemma parse_public_key:
  assumes "eq_sign \<notin> set n" "list_all is_alnum l" "length pk = 8"
  shows "GetPublicKeyFromAssemblyReferenceString
    (n @ WStr '', Version='' @ Version_str v @ WStr '', Culture='' @ l
       @ WStr '', PublicKeyToken='' @ PublicKey_str pk) = pk"
proof -
  let ?rest = "l @ WStr '', PublicKeyToken='' @ PublicKey_str pk"
  have "regex_search match_public_key ((l @ WStr '', '') @ WStr ''PublicKeyToken'' @ eq_sign # PublicKey_str pk)
      = Some (PublicKey_str pk)"
    using match_public_key_str [OF assms(3), unfolded WStr_match] keys(6) no_eq_sign(2) [OF assms(2)]
      WStr_no_eq_sign(1)
    by (intro regex_search_skip_same [OF keyed_matchers(3)]) simp_all
  then have last: "regex_search match_public_key ?rest = Some (PublicKey_str pk)"
    by (simp only: WStr_match(3) append.assoc)
  have "regex_search match_public_key ((Version_str v @ WStr '', Culture'') @ eq_sign # ?rest)
      = regex_search match_public_key ?rest"
    using not_suffix_keys no_eq_sign(1) WStr_no_eq_sign
    by (intro regex_search_skip_other [OF keyed_matchers(3)]) auto
  then have "regex_search match_public_key (Version_str v @ WStr '', Culture='' @ ?rest) = Some (PublicKey_str pk)"
    using last by (simp only: WStr_skip(2) append.assoc)
  then have "regex_search match_public_key (n @ WStr '', Version='' @ Version_str v
      @ WStr '', Culture='' @ ?rest) = Some (PublicKey_str pk)"
    using skip_version [OF keyed_matchers(3) assms(1)] by simp
  moreover have "map (\<lambda>i. of_nat (foldl (\<lambda>n c. 16 * n + hex_digit_value c) 0 (take 2 (drop (i * 2) (PublicKey_str pk))))) [0..<8]
      = pk"
    using assms(3) by (intro nth_equalityI) (auto simp: PublicKey_str_eq hex_pairs hex2_value)
  ultimately show ?thesis
    by (simp add: GetPublicKeyFromAssemblyReferenceString_def Let_def)
qed

section \<open>Properties\<close>

text \<open>The comparisons of versions are the strict weak order of the first three numbers: the
  revision never decides.\<close>

theorem Version_order:
  "(Version_lt v w \<longleftrightarrow> v < w \<and> \<not> same_release v w) \<and> Version_gt v w = Version_lt w v
    \<and> (\<not> Version_lt v w \<and> \<not> Version_gt v w \<longleftrightarrow> same_release v w) \<and> (Version_eq v w \<longleftrightarrow> v = w)"
  using Version_lt_iff [of v w] Version_lt_iff [of w v] by (auto simp: Version_gt_lt same_release_def)


definition demo_reference :: AssemblyReference where
  "demo_reference = \<lparr>name = WStr ''Some.Assembly'', version = Version 1 2 3 4, locale_name = WStr ''neutral'',
     public_key = [0xab, 0xcd, 0xef, 0x01, 0x23, 0x45, 0x67, 0x89]\<rparr>"



text \<open>C32. The numbers of type arguments and of arguments are always readable. Whether the return type
  is an object is not: the code reads one byte past the end of a signature of two bytes, and of
  a generic one of three.\<close>

theorem MethodSignature_reads:
  "NumberOfTypeArguments data \<noteq> Inl e \<and> NumberOfArguments data \<noteq> Inl e
    \<and> (ReturnTypeIsObject data = Inl BadAccess \<longleftrightarrow>
        length data = 2 \<or> length data = 3 \<and> CallingConvention data AND IMAGE_CEE_CS_CALLCONV_GENERIC \<noteq> 0)"
  by (auto simp: NumberOfTypeArguments_def NumberOfArguments_def ReturnTypeIsObject_def data_at_def)

section \<open>The branch of the other platforms\<close>

lemma ToString_ascii:
  fixes s :: wstring
  assumes "ascii s"
  shows "ToString s = map ucast s"
proof -
  let ?pts = "map ucast s :: u32 list"
  have n: "unat (ucast c :: u32) = unat c" for c :: u16
    using unsigned_less [of c, where 'a = nat] by (simp add: unsigned_ucast_eq take_bit_nat_eq_self)
  have e: "utf8_encode (ucast c) = [ucast c :: byte] \<and> utf16_encode (ucast c) = [c] \<and> scalar (ucast c)
      \<and> (ucast c :: u32) \<noteq> 0" if "c \<in> set s" for c
  proof -
    have lt: "unat c < 128" "unat c \<noteq> 0"
      using assms that by (auto simp: ascii_def list_all_iff word_less_nat_alt unat_eq_0)
    moreover have "ucast (ucast c :: u32) = (ucast c :: byte)" by (rule bit_word_eqI) (simp add: bit_simps)
    moreover have "ucast (ucast c :: u32) = c" by (rule bit_word_eqI) (simp add: bit_simps)
    moreover have "(ucast c :: u32) \<noteq> 0" using n [of c] lt(2) by auto
    ultimately show ?thesis
      by (simp add: utf8_encode_def utf16_encode_def scalar_def word_less_nat_alt word_le_nat_alt n)
  qed
  have "to_utf8_32 ?pts = map ucast s" "concat (map utf16_encode ?pts) = s"
    using e by (induction s) (simp_all add: to_utf8_32_def)
  moreover have "\<forall>pt \<in> set ?pts. scalar pt \<and> pt \<noteq> 0" using e by auto
  ultimately show ?thesis using ToString_scalars [of ?pts] by simp
qed

text \<open>A full name does not start with a key.\<close>

lemma not_a_key:
  fixes key :: cstring
  assumes "eq_sign \<notin> set n" "44 \<notin> set key" "ascii n" "m = length key + 1" "k = key @ [61]"
  shows "take m (map ucast (n @ WStr '', Version='' @ r)) \<noteq> k"
proof
  let ?t = "map ucast (n @ WStr '', Version='' @ r) :: cstring"
  assume "take m ?t = k"
  then have eq: "take (Suc (length key)) ?t = key @ [61]" using assms(4,5) by (simp only: Suc_eq_plus1)
  have at: "?t ! i = (key @ [61]) ! i" if "i \<le> length key" for i
    using that by (metis eq nth_take less_Suc_eq_le)
  show False
  proof (cases "length n \<le> length key")
    case True
    have "?t ! length n = 44" by (simp add: nth_append WStr_def)
    then have "(key @ [61]) ! length n = 44" using at [OF True] by simp
    then show False using assms(2) True nth_mem [of "length n" key]
      by (cases "length n < length key") (auto simp: nth_append)
  next
    case False
    have "(ucast (n ! length key) :: byte) = 61"
      using at [of "length key"] False by (simp add: nth_append)
    moreover have mem: "n ! length key \<in> set n" using False by simp
    then have "unat (n ! length key) < 128"
      using assms(3) by (auto simp: ascii_def list_all_iff word_less_nat_alt)
    then have "unat (ucast (n ! length key) :: byte) = unat (n ! length key)"
      by (simp add: unsigned_ucast_eq take_bit_nat_eq_self)
    ultimately have "unat (n ! length key) = 61" by simp
    then have "n ! length key = eq_sign" by (simp add: word_unat_eq_iff)
    then show False using mem assms(1) by simp
  qed
qed

text \<open>Away from Windows the version, the culture and the key of a full assembly name are lost:
  \<open>FullMatch\<close> matches only a text that is the pattern as a whole, so it never succeeds on a text
  that starts with the name, and the defaults are used.\<close>

theorem AssemblyReference_parse_re2_defaults:
  assumes "\<forall>text v. take 8 text \<noteq> CStr ''Version='' \<longrightarrow> re_version text v = v"
    and "\<forall>text. take 8 text \<noteq> CStr ''Culture='' \<longrightarrow> re_culture text = None"
    and "\<forall>text. take 15 text \<noteq> CStr ''PublicKeyToken='' \<longrightarrow> re_key text = None"
    and "ascii (name a)" "ascii (locale_name a)" "length (public_key a) = 8"
    and "wc CHR '','' \<notin> set (name a)" "wc CHR '' '' \<notin> set (name a)" "wc CHR ''='' \<notin> set (name a)"
  shows "AssemblyReference_parse_re2 re_version re_culture re_key (AssemblyReference_str a)
    = \<lparr>name = name a, version = Version 0 0 0 0, locale_name = WStr ''neutral'', public_key = replicate 8 0\<rparr>"
proof -
  obtain r where r: "AssemblyReference_str a = name a @ WStr '', Version='' @ r"
    by (simp add: AssemblyReference_str_def)
  have wide: "ascii (map ucast s :: wstring)" if "ascii s" for s :: cstring
    using that by (auto simp: ascii_def list_all_iff word_less_nat_alt word_unat_eq_iff)
  have "ascii (Version_str (version a))"
    using ascii_decimal [THEN wide] by (simp add: Version_str_eq ascii_def WStr_def)
  moreover have "ascii (PublicKey_str (public_key a))"
    using hex2_hex by (auto simp: PublicKey_str_eq [OF assms(6)] ascii_def list_all_iff word_less_nat_alt word_unat_eq_iff)
  ultimately have str: "ToString (AssemblyReference_str a) = map ucast (name a @ WStr '', Version='' @ r)"
    using assms(4,5) unfolding r [symmetric]
    by (intro ToString_ascii) (simp add: AssemblyReference_str_def ascii_def WStr_def)
  have e: "eq_sign \<notin> set (name a)" using assms(9) by (simp add: wc_def)
  note k = not_a_key [OF e _ assms(4), of _ _ _ r]
  have "take 8 (ToString (AssemblyReference_str a)) \<noteq> CStr ''Version=''"
    unfolding str by (rule k [of "CStr ''Version''"]) (simp_all add: CStr_def)
  moreover have "take 8 (ToString (AssemblyReference_str a)) \<noteq> CStr ''Culture=''"
    unfolding str by (rule k [of "CStr ''Culture''"]) (simp_all add: CStr_def)
  moreover have "take 15 (ToString (AssemblyReference_str a)) \<noteq> CStr ''PublicKeyToken=''"
    unfolding str by (rule k [of "CStr ''PublicKeyToken''"]) (simp_all add: CStr_def)
  ultimately show ?thesis
    using assms(1-3) parse_name [OF assms(7,8), of r]
    by (simp add: AssemblyReference_parse_re2_def GetVersionFromAssemblyReferenceString_re2_def
        GetLocaleFromAssemblyReferenceString_re2_def GetPublicKeyFromAssemblyReferenceString_re2_def r)
qed

text \<open>A concrete \<open>FullMatch\<close>: the matchers of the other branch on a text with nothing behind.\<close>

definition demo_FullMatch_culture :: "cstring \<Rightarrow> cstring option" where
  "demo_FullMatch_culture text = (if take 8 text = CStr ''Culture='' \<and> drop 8 text \<noteq> []
     \<and> list_all is_alnum (map ucast (drop 8 text)) then Some (drop 8 text) else None)"

definition demo_FullMatch_key :: "cstring \<Rightarrow> cstring option" where
  "demo_FullMatch_key text = (if take 15 text = CStr ''PublicKeyToken='' \<and> length text = 31
     \<and> list_all is_hex (map ucast (drop 15 text)) then Some (drop 15 text) else None)"

definition demo_FullMatch_version :: "cstring \<Rightarrow> u16 \<times> u16 \<times> u16 \<times> u16 \<Rightarrow> u16 \<times> u16 \<times> u16 \<times> u16" where
  "demo_FullMatch_version text v = (case match_version (map ucast text) of
     Some (g1, g2, g3, g4) \<Rightarrow> if length text = 11 + length (g1 @ g2 @ g3 @ g4)
       then (stream_ushort g1, stream_ushort g2, stream_ushort g3, stream_ushort g4) else v
   | None \<Rightarrow> v)"

lemma demo_FullMatch_version_other:
  "take 8 text \<noteq> CStr ''Version='' \<Longrightarrow> demo_FullMatch_version text v = v"
proof -
  assume a: "take 8 text \<noteq> CStr ''Version=''"
  have "literal (WStr ''Version='') (map ucast text) = None"
  proof (rule ccontr)
    assume "literal (WStr ''Version='') (map ucast text) \<noteq> None"
    moreover have "length (WStr ''Version='') = 8" by (simp add: WStr_def)
    ultimately have "map (ucast :: byte \<Rightarrow> u16) (take 8 text) = WStr ''Version=''"
      by (simp add: literal_def take_map split: if_splits)
    then have "map (ucast :: u16 \<Rightarrow> byte) (map (ucast :: byte \<Rightarrow> u16) (take 8 text)) = map ucast (WStr ''Version='')" by simp
    moreover have "ucast (ucast c :: u16) = c" for c :: byte by (rule bit_word_eqI) (auto simp: bit_simps)
    ultimately show False using a by (simp add: CStr_def WStr_def o_def)
  qed
  then show ?thesis by (simp add: demo_FullMatch_version_def match_version_def)
qed

theorem AssemblyReference_parse_re2_defaults_witness:
  "AssemblyReference_parse_re2 demo_FullMatch_version demo_FullMatch_culture demo_FullMatch_key
      (AssemblyReference_str demo_reference)
    = \<lparr>name = WStr ''Some.Assembly'', version = Version 0 0 0 0, locale_name = WStr ''neutral'',
       public_key = replicate 8 0\<rparr>"
  using AssemblyReference_parse_re2_defaults [of demo_FullMatch_version demo_FullMatch_culture demo_FullMatch_key demo_reference]
    demo_FullMatch_version_other
  by (simp add: demo_FullMatch_culture_def demo_FullMatch_key_def demo_reference_def ascii_def WStr_def wc_def)

end
