(* ===== verification/IntegrationFilter.thy ===== *)
theory IntegrationFilter
  imports Integration
begin

text \<open>
  Which integrations apply to a module (\<open>clr_helpers.h\<close>, \<open>clr_helpers.cpp\<close>): the enumeration of
  metadata tokens in batches, the metadata of assemblies, and the filters that
  \<open>cor_profiler.cpp\<close> applies one after the other. The metadata interfaces of the CLR are
  parameters.
\<close>

section \<open>Enumerators\<close>

abbreviation (input) kEnumeratorMax :: u32 where "kEnumeratorMax \<equiv> 256"

text \<open>
  A callback gets the state behind the enumeration handle and the size of the buffer, and
  gives whether it returned \<open>S_OK\<close>, the values it wrote to the start of the buffer, and the
  count. The iterator keeps the buffer, of 256 elements, from one batch to the next.
\<close>

type_synonym ('h, 'a) enum_callback = "'h \<Rightarrow> u32 \<Rightarrow> (bool \<times> 'a list \<times> u32) \<times> 'h"

record ('h, 'a) EnumeratorIterator =
  handle :: 'h
  status_ok :: bool
  arr :: "'a list"
  idx :: u32
  sz :: u32

definition fetch :: "('h, 'a) enum_callback \<Rightarrow> ('h, 'a) EnumeratorIterator \<Rightarrow> ('h, 'a) EnumeratorIterator" where
  "fetch callback it =
     (let ((ok, vals, cnt), h) = callback (handle it) kEnumeratorMax
      in it\<lparr>handle := h, status_ok := ok \<and> cnt \<noteq> 0, arr := vals @ drop (length vals) (arr it), sz := cnt\<rparr>)"

definition enumerator_begin :: "('h, 'a) enum_callback \<Rightarrow> 'h \<Rightarrow> 'a \<Rightarrow> ('h, 'a) EnumeratorIterator" where
  "enumerator_begin callback h zero =
     fetch callback \<lparr>handle = h, status_ok = False, arr = replicate (unat kEnumeratorMax) zero, idx = 0, sz = 0\<rparr>"

definition enumerator_current :: "('h, 'a) EnumeratorIterator \<Rightarrow> 'a option" where
  "enumerator_current it = (if unat (idx it) < length (arr it) then Some (arr it ! unat (idx it)) else None)"

definition enumerator_next :: "('h, 'a) enum_callback \<Rightarrow> ('h, 'a) EnumeratorIterator \<Rightarrow> ('h, 'a) EnumeratorIterator" where
  "enumerator_next callback it =
     (if idx it < sz it - 1 then it\<lparr>idx := idx it + 1\<rparr> else fetch callback (it\<lparr>idx := 0\<rparr>))"

text \<open>\<open>for (auto x : enumerator)\<close>: the elements the loop visits; \<open>None\<close> for a read outside of the
  buffer, or when \<open>n\<close> steps do not reach the end.\<close>

fun for_each :: "('h, 'a) enum_callback \<Rightarrow> nat \<Rightarrow> ('h, 'a) EnumeratorIterator \<Rightarrow> 'a list option" where
  "for_each callback n it =
     (if \<not> status_ok it then Some []
      else case n of 0 \<Rightarrow> None
        | Suc m \<Rightarrow> (case enumerator_current it of None \<Rightarrow> None
            | Some x \<Rightarrow> map_option (\<lambda>xs. x # xs) (for_each callback m (enumerator_next callback it))))"

declare for_each.simps [simp del]

definition enumerate_all :: "('h, 'a) enum_callback \<Rightarrow> nat \<Rightarrow> 'h \<Rightarrow> 'a \<Rightarrow> 'a list option" where
  "enumerate_all callback n h zero = for_each callback n (enumerator_begin callback h zero)"

section \<open>Assemblies\<close>

record AssemblyInfo =
  ai_id :: u64
  ai_name :: wstring
  ai_manifest_module_id :: u64
  ai_app_domain_id :: u64
  ai_app_domain_name :: wstring

definition AssemblyInfo_default :: AssemblyInfo where
  "AssemblyInfo_default = \<lparr>ai_id = 0, ai_name = [], ai_manifest_module_id = 0, ai_app_domain_id = 0,
     ai_app_domain_name = []\<rparr>"

text \<open>\<open>GetAssemblyInfo\<close> and \<open>GetAppDomainInfo\<close> of the CLR: failure, or the length and the buffer of
  the name, and the identifiers.\<close>

definition GetAssemblyInfo ::
  "(u64 \<Rightarrow> (u32 \<times> wstring \<times> u64 \<times> u64) option) \<Rightarrow> (u64 \<Rightarrow> (u32 \<times> wstring) option) \<Rightarrow> u64 \<Rightarrow> AssemblyInfo" where
  "GetAssemblyInfo assembly_info app_domain_info assembly_id = (case assembly_info assembly_id of
     None \<Rightarrow> AssemblyInfo_default
   | Some (assembly_name_len, assembly_name, app_domain_id, manifest_module_id) \<Rightarrow>
       if assembly_name_len = 0 then AssemblyInfo_default
       else (case app_domain_info app_domain_id of
         None \<Rightarrow> AssemblyInfo_default
       | Some (app_domain_name_len, app_domain_name) \<Rightarrow>
           if app_domain_name_len = 0 then AssemblyInfo_default
           else \<lparr>ai_id = assembly_id, ai_name = c_str assembly_name, ai_manifest_module_id = manifest_module_id,
             ai_app_domain_id = app_domain_id, ai_app_domain_name = c_str app_domain_name\<rparr>))"

definition AssemblyInfo_IsValid :: "AssemblyInfo \<Rightarrow> bool" where
  "AssemblyInfo_IsValid a \<longleftrightarrow> ai_id a \<noteq> 0"

record AssemblyMetadata =
  am_module_id :: u64
  am_name :: wstring
  am_assembly_token :: u32
  am_version :: Version

definition AssemblyMetadata_default :: AssemblyMetadata where
  "AssemblyMetadata_default = \<lparr>am_module_id = 0, am_name = [], am_assembly_token = 0, am_version = Version_zero\<rparr>"

definition AssemblyMetadata_IsValid :: "AssemblyMetadata \<Rightarrow> bool" where
  "AssemblyMetadata_IsValid m \<longleftrightarrow> am_module_id m \<noteq> 0"

type_synonym assembly_props = "u32 \<Rightarrow> (u32 \<times> wstring \<times> u16 \<times> u16 \<times> u16 \<times> u16) option"

definition GetReferencedAssemblyMetadata :: "assembly_props \<Rightarrow> u32 \<Rightarrow> AssemblyMetadata" where
  "GetReferencedAssemblyMetadata GetAssemblyRefProps assembly_ref = (case GetAssemblyRefProps assembly_ref of
     None \<Rightarrow> AssemblyMetadata_default
   | Some (name_len, nm, v1, v2, v3, v4) \<Rightarrow>
       if name_len = 0 then AssemblyMetadata_default
       else \<lparr>am_module_id = 0, am_name = c_str nm, am_assembly_token = assembly_ref,
         am_version = Version v1 v2 v3 v4\<rparr>)"

definition GetAssemblyImportMetadata :: "u32 option \<Rightarrow> assembly_props \<Rightarrow> AssemblyMetadata" where
  "GetAssemblyImportMetadata GetAssemblyFromScope GetAssemblyProps = (case GetAssemblyFromScope of
     None \<Rightarrow> AssemblyMetadata_default
   | Some current \<Rightarrow> (case GetAssemblyProps current of
       None \<Rightarrow> AssemblyMetadata_default
     | Some (name_len, nm, v1, v2, v3, v4) \<Rightarrow>
         if name_len = 0 then AssemblyMetadata_default
         else \<lparr>am_module_id = 0, am_name = c_str nm, am_assembly_token = current,
           am_version = Version v1 v2 v3 v4\<rparr>))"

abbreviation (input) mdAssemblyRefNil :: u32 where "mdAssemblyRefNil \<equiv> 0x23000000"

text \<open>The enumeration is given by the tokens it visits.\<close>

fun FindAssemblyRef :: "assembly_props \<Rightarrow> u32 list \<Rightarrow> wstring \<Rightarrow> u32" where
  "FindAssemblyRef props [] assembly_name = mdAssemblyRefNil"
| "FindAssemblyRef props (assembly_ref # refs) assembly_name =
     (if am_name (GetReferencedAssemblyMetadata props assembly_ref) = assembly_name then assembly_ref
      else FindAssemblyRef props refs assembly_name)"

section \<open>The filters\<close>

fun FilterIntegrationsByName :: "Integration list \<Rightarrow> wstring list \<Rightarrow> Integration list" where
  "FilterIntegrationsByName [] disabled_integration_names = []"
| "FilterIntegrationsByName (i # integrations) disabled_integration_names =
     (let disabled = list_ex (\<lambda>d. integration_name i = d) disabled_integration_names
      in if \<not> disabled then i # FilterIntegrationsByName integrations disabled_integration_names
         else FilterIntegrationsByName integrations disabled_integration_names)"

definition calltarget_modification_action :: wstring where
  "calltarget_modification_action = WStr ''CallTargetModification''"

fun flatten_replacements :: "wstring \<Rightarrow> bool \<Rightarrow> MethodReplacement list \<Rightarrow> IntegrationMethod list" where
  "flatten_replacements nm is_calltarget_enabled [] = []"
| "flatten_replacements nm is_calltarget_enabled (mr # mrs) =
     (let isCallTargetIntegration = (action (wrapper_method mr) = calltarget_modification_action);
          rest = flatten_replacements nm is_calltarget_enabled mrs
      in if is_calltarget_enabled \<and> isCallTargetIntegration
         then \<lparr>im_integration_name = nm, replacement = mr\<rparr> # rest
         else if \<not> is_calltarget_enabled \<and> \<not> isCallTargetIntegration
         then \<lparr>im_integration_name = nm, replacement = mr\<rparr> # rest
         else rest)"

fun FlattenIntegrations :: "Integration list \<Rightarrow> bool \<Rightarrow> IntegrationMethod list" where
  "FlattenIntegrations [] is_calltarget_enabled = []"
| "FlattenIntegrations (i # integrations) is_calltarget_enabled =
     flatten_replacements (integration_name i) is_calltarget_enabled (method_replacements i)
       @ FlattenIntegrations integrations is_calltarget_enabled"

fun FilterIntegrationsByCaller :: "IntegrationMethod list \<Rightarrow> AssemblyInfo \<Rightarrow> IntegrationMethod list" where
  "FilterIntegrationsByCaller [] asm = []"
| "FilterIntegrationsByCaller (i # ims) asm =
     (let caller = name (assembly (caller_method (replacement i)))
      in if caller = [] \<or> caller = ai_name asm
         then i # FilterIntegrationsByCaller ims asm else FilterIntegrationsByCaller ims asm)"

definition AssemblyMeetsIntegrationRequirements :: "AssemblyMetadata \<Rightarrow> MethodReplacement \<Rightarrow> bool" where
  "AssemblyMeetsIntegrationRequirements metadata method_replacement =
     (let target = target_method method_replacement
      in if name (assembly target) \<noteq> am_name metadata then False
         else if Version_gt (min_version target) (am_version metadata) then False
         else if Version_lt (max_version target) (am_version metadata) then False
         else True)"

text \<open>\<open>assembly_refs\<close> are the tokens that \<open>EnumAssemblyRefs\<close> visits.\<close>

fun FilterIntegrationsByTarget ::
  "AssemblyMetadata \<Rightarrow> assembly_props \<Rightarrow> u32 list \<Rightarrow> IntegrationMethod list \<Rightarrow> IntegrationMethod list" where
  "FilterIntegrationsByTarget assembly_metadata props assembly_refs [] = []"
| "FilterIntegrationsByTarget assembly_metadata props assembly_refs (i # ims) =
     (let found = (if AssemblyMeetsIntegrationRequirements assembly_metadata (replacement i) then True
            else list_ex (\<lambda>assembly_ref. AssemblyMeetsIntegrationRequirements
              (GetReferencedAssemblyMetadata props assembly_ref) (replacement i)) assembly_refs)
      in if found then i # FilterIntegrationsByTarget assembly_metadata props assembly_refs ims
         else FilterIntegrationsByTarget assembly_metadata props assembly_refs ims)"

fun FilterIntegrationsByTargetAssemblyName :: "IntegrationMethod list \<Rightarrow> wstring list \<Rightarrow> IntegrationMethod list" where
  "FilterIntegrationsByTargetAssemblyName [] excluded_assembly_names = []"
| "FilterIntegrationsByTargetAssemblyName (i # ims) excluded_assembly_names =
     (let assembly_excluded =
            list_ex (\<lambda>e. name (assembly (target_method (replacement i))) = e) excluded_assembly_names
      in if \<not> assembly_excluded then i # FilterIntegrationsByTargetAssemblyName ims excluded_assembly_names
         else FilterIntegrationsByTargetAssemblyName ims excluded_assembly_names)"

section \<open>What the profiler instruments\<close>

text \<open>In \<open>CorProfiler::Initialize\<close>: from the integrations of all files to the methods to replace.\<close>

definition initialize_integrations ::
  "bool \<Rightarrow> bool \<Rightarrow> wstring list \<Rightarrow> Integration list \<Rightarrow> hr + IntegrationMethod list" where
  "initialize_integrations is_calltarget_enabled netstandard_enabled disabled_integration_names all_integrations =
     (let integrations = FilterIntegrationsByName all_integrations disabled_integration_names;
          integration_methods = FlattenIntegrations integrations is_calltarget_enabled
      in if integration_methods = [] then Inl E_FAIL
         else if \<not> netstandard_enabled
         then Inr (FilterIntegrationsByTargetAssemblyName integration_methods [WStr ''netstandard''])
         else Inr integration_methods)"

definition skip_assembly_prefixes :: "wstring list" where
  "skip_assembly_prefixes = map WStr
     [''Microsoft.AI'', ''Microsoft.ApplicationInsights'', ''Microsoft.Build'', ''Microsoft.CSharp'',
      ''Microsoft.Extensions'', ''Microsoft.Web.Compilation.Snapshots'', ''System.Core'', ''System.Console'',
      ''System.Collections'', ''System.ComponentModel'', ''System.Diagnostics'', ''System.Drawing'',
      ''System.EnterpriseServices'', ''System.IO'', ''System.Runtime'', ''System.Text'', ''System.Threading'',
      ''System.Xml'']"

definition skip_assemblies :: "wstring list" where
  "skip_assemblies = map WStr
     [''mscorlib'', ''netstandard'', ''System.Configuration'', ''Microsoft.AspNetCore.Razor.Language'',
      ''Microsoft.AspNetCore.Mvc.RazorPages'', ''Anonymously Hosted DynamicMethods Assembly'', ''ISymWrapper'']"

text \<open>\<open>s.rfind(prefix, 0) == 0\<close>.\<close>

definition starts_with :: "wstring \<Rightarrow> wstring \<Rightarrow> bool" where
  "starts_with s p \<longleftrightarrow> take (length p) s = p"

definition skipped_assembly :: "wstring \<Rightarrow> bool" where
  "skipped_assembly nm \<longleftrightarrow> list_ex (starts_with nm) skip_assembly_prefixes \<or> list_ex (\<lambda>s. nm = s) skip_assemblies"

text \<open>In \<open>CorProfiler::ModuleLoadFinished\<close>: the methods to replace in one module; none where the
  callback returns early.\<close>

definition module_integrations ::
  "bool \<Rightarrow> AssemblyInfo \<Rightarrow> AssemblyMetadata \<Rightarrow> assembly_props \<Rightarrow> u32 list \<Rightarrow> IntegrationMethod list
    \<Rightarrow> IntegrationMethod list" where
  "module_integrations is_calltarget_enabled asm assembly_metadata props assembly_refs integration_methods =
     (if skipped_assembly (ai_name asm) then []
      else
        let filtered_integrations =
              (if is_calltarget_enabled then integration_methods
               else FilterIntegrationsByCaller integration_methods asm)
        in if filtered_integrations = [] then []
           else if ai_name asm \<noteq> WStr ''Microsoft.AspNetCore.Hosting'' \<and> ai_name asm \<noteq> WStr ''Dapper''
                \<and> \<not> is_calltarget_enabled
           then FilterIntegrationsByTarget assembly_metadata props assembly_refs filtered_integrations
           else filtered_integrations)"

section \<open>Lemmas\<close>

text \<open>The filters are the library's \<open>filter\<close>.\<close>

lemma FilterIntegrationsByName_filter:
  "FilterIntegrationsByName ints ds = filter (\<lambda>i. integration_name i \<notin> set ds) ints"
  by (induction ints) (auto simp: list_ex_iff)

lemma FilterIntegrationsByCaller_filter:
  "FilterIntegrationsByCaller ims asm =
     filter (\<lambda>i. name (assembly (caller_method (replacement i))) \<in> {[], ai_name asm}) ims"
  by (induction ims) (auto simp: Let_def)

lemma FilterIntegrationsByTarget_filter:
  "FilterIntegrationsByTarget am props refs ims =
     filter (\<lambda>i. \<exists>m \<in> insert am (GetReferencedAssemblyMetadata props ` set refs).
       AssemblyMeetsIntegrationRequirements m (replacement i)) ims"
  by (induction ims) (auto simp: Let_def list_ex_iff)

lemma FilterIntegrationsByTargetAssemblyName_filter:
  "FilterIntegrationsByTargetAssemblyName ims es =
     filter (\<lambda>i. name (assembly (target_method (replacement i))) \<notin> set es) ims"
  by (induction ims) (auto simp: list_ex_iff)

lemma flatten_replacements_filter:
  "flatten_replacements nm ct mrs =
     map (\<lambda>mr. \<lparr>im_integration_name = nm, replacement = mr\<rparr>)
       (filter (\<lambda>mr. (action (wrapper_method mr) = calltarget_modification_action) = ct) mrs)"
  by (induction mrs) (auto simp: Let_def)

lemma FlattenIntegrations_concat:
  "FlattenIntegrations ints ct =
     concat (map (\<lambda>i. flatten_replacements (integration_name i) ct (method_replacements i)) ints)"
  by (induction ints) auto

lemma FlattenIntegrations_iff:
  "m \<in> set (FlattenIntegrations (FilterIntegrationsByName ints disabled) ct) \<longleftrightarrow>
     (\<exists>i \<in> set ints. integration_name i = im_integration_name m \<and> replacement m \<in> set (method_replacements i))
     \<and> im_integration_name m \<notin> set disabled
     \<and> (action (wrapper_method (replacement m)) = calltarget_modification_action) = ct"
proof -
  have "m = \<lparr>im_integration_name = n, replacement = r\<rparr> \<longleftrightarrow> im_integration_name m = n \<and> replacement m = r" for n r
    by (cases m) auto
  then show ?thesis
    by (auto simp: FlattenIntegrations_concat FilterIntegrationsByName_filter flatten_replacements_filter image_iff)
qed

lemmas filters_filter = FilterIntegrationsByName_filter FilterIntegrationsByCaller_filter
  FilterIntegrationsByTarget_filter FilterIntegrationsByTargetAssemblyName_filter
  flatten_replacements_filter FlattenIntegrations_concat

text \<open>A version range: the first three numbers decide.\<close>

definition release_in :: "Version \<Rightarrow> MethodReference \<Rightarrow> bool" where
  "release_in v target \<longleftrightarrow>
     (major (min_version target), minor (min_version target), build (min_version target)) \<le> (major v, minor v, build v)
     \<and> (major v, minor v, build v) \<le> (major (max_version target), minor (max_version target), build (max_version target))"

lemma Version_lt_release:
  "Version_lt v w \<longleftrightarrow> (major v, minor v, build v) < (major w, minor w, build w)"
  unfolding Version_lt_def less_prod_simp by auto

lemma meets_iff:
  "AssemblyMeetsIntegrationRequirements metadata mr \<longleftrightarrow>
     name (assembly (target_method mr)) = am_name metadata \<and> release_in (am_version metadata) (target_method mr)"
  unfolding AssemblyMeetsIntegrationRequirements_def Let_def release_in_def Version_gt_lt Version_lt_release
  by (simp add: not_less [symmetric] del: less_eq_prod_simp less_prod_simp not_less not_le)

section \<open>The enumeration visits what the batches deliver\<close>

text \<open>The CLR delivers a list: batches that fit the buffer, then an empty one or a status other
  than \<open>S_OK\<close>.\<close>

inductive delivers :: "('h, 'a) enum_callback \<Rightarrow> 'h \<Rightarrow> 'a list \<Rightarrow> bool" for callback where
  last: "callback h kEnumeratorMax = ((ok, vals, cnt), h') \<Longrightarrow> \<not> ok \<or> cnt = 0 \<Longrightarrow> length vals \<le> 256 \<Longrightarrow> delivers callback h []"
| batch: "callback h kEnumeratorMax = ((True, vals, of_nat (length vals)), h') \<Longrightarrow> 0 < length vals
    \<Longrightarrow> length vals \<le> 256 \<Longrightarrow> delivers callback h' xs \<Longrightarrow> delivers callback h (vals @ xs)"

inductive_cases deliversE: "delivers callback h xs"

lemma for_each_stop [simp]: "\<not> status_ok it \<Longrightarrow> for_each callback n it = Some []"
  by (subst for_each.simps) simp

lemma for_each_Suc:
  "status_ok it \<Longrightarrow> enumerator_current it = Some x \<Longrightarrow>
    for_each callback (Suc n) it = map_option (\<lambda>xs. x # xs) (for_each callback n (enumerator_next callback it))"
  by (subst for_each.simps) simp

text \<open>Inside a batch.\<close>

lemma for_each_batch:
  assumes "status_ok it" "unat (sz it) \<le> 256" "length (arr it) = 256" "unat (idx it) < unat (sz it)"
    and "for_each callback n (fetch callback (it\<lparr>idx := 0\<rparr>)) = Some ys"
  shows "for_each callback (n + (unat (sz it) - unat (idx it))) it
    = Some (drop (unat (idx it)) (take (unat (sz it)) (arr it)) @ ys)"
  using assms
proof (induction "unat (sz it) - unat (idx it)" arbitrary: it)
  case 0
  then show ?case by simp
next
  case (Suc k)
  let ?i = "unat (idx it)" and ?n = "unat (sz it)"
  have cur: "enumerator_current it = Some (arr it ! ?i)"
    using Suc.prems by (simp add: enumerator_current_def)
  have hd: "drop ?i (take ?n (arr it)) = arr it ! ?i # drop (Suc ?i) (take ?n (arr it))"
    using Suc.prems by (subst Cons_nth_drop_Suc [symmetric]) auto
  have fuel: "n + (?n - ?i) = Suc (n + k)" using Suc.hyps(2) by simp
  have "sz it \<noteq> 0" using Suc.prems(4) by auto
  then have pred: "unat (sz it - 1) = ?n - 1" by (simp add: unat_minus_one)
  show ?case
  proof (cases "?i + 1 = ?n")
    case True
    then have "k = 0" using Suc.hyps(2) by simp
    moreover have "enumerator_next callback it = fetch callback (it\<lparr>idx := 0\<rparr>)"
      using True pred by (simp add: enumerator_next_def word_less_nat_alt)
    moreover have "drop (Suc ?i) (take ?n (arr it)) = []" using True by simp
    ultimately show ?thesis
      using fuel hd for_each_Suc [OF Suc.prems(1) cur] Suc.prems(5) by simp
  next
    case False
    then have lt: "?i < ?n - 1" using Suc.prems(4) by linarith
    let ?it = "it\<lparr>idx := idx it + 1\<rparr>"
    have i: "unat (idx it + 1) = ?i + 1"
      using Suc.prems(2,4) lt by (subst unat_add_lem [THEN iffD1]) simp_all
    have nxt: "enumerator_next callback it = ?it"
      using lt pred by (simp add: enumerator_next_def word_less_nat_alt)
    have k: "k = unat (sz ?it) - unat (idx ?it)" using Suc.hyps(2) i by simp
    have "for_each callback (n + k) ?it = Some (drop (Suc ?i) (take ?n (arr it)) @ ys)"
      using Suc.hyps(1) [OF k] Suc.prems i lt k by simp
    then show ?thesis using fuel hd nxt for_each_Suc [OF Suc.prems(1) cur] by simp
  qed
qed

lemma for_each_fetch:
  assumes "delivers callback h xs"
  shows "handle it = h \<Longrightarrow> length (arr it) = 256 \<Longrightarrow> idx it = 0 \<Longrightarrow>
    for_each callback (length xs) (fetch callback it) = Some xs"
  using assms
proof (induction arbitrary: it)
  case (last h ok vals cnt h')
  then have "\<not> status_ok (fetch callback it)" by (auto simp: fetch_def)
  then show ?case by simp
next
  case (batch h vals h' xs)
  let ?it = "fetch callback it"
  have n: "unat (of_nat (length vals) :: u32) = length vals"
    using batch.hyps(3) by (simp add: unat_of_nat)
  have it: "handle ?it = h'" "status_ok ?it" "idx ?it = 0" "sz ?it = of_nat (length vals)"
    "arr ?it = vals @ drop (length vals) (arr it)" "length (arr ?it) = 256"
    using batch.hyps(1-3) batch.prems n by (auto simp: fetch_def)
  have rest: "for_each callback (length xs) (fetch callback (?it\<lparr>idx := 0\<rparr>)) = Some xs"
    using it by (intro batch.IH) simp_all
  have "for_each callback (length xs + (unat (sz ?it) - unat (idx ?it))) ?it
      = Some (drop (unat (idx ?it)) (take (unat (sz ?it)) (arr ?it)) @ xs)"
    using it n batch.hyps(2,3) by (intro for_each_batch rest) simp_all
  then show ?case using it n by (simp add: add.commute)
qed

section \<open>Properties\<close>

text \<open>C33. The loop over an enumerator ends and visits exactly the elements the CLR delivers, in
  their order, whatever the batches: one step per element is enough.\<close>

theorem enumerate_all_delivers:
  assumes "delivers callback h xs"
  shows "enumerate_all callback (length xs) h zero = Some xs"
  using for_each_fetch [OF assms]
  by (simp add: enumerate_all_def enumerator_begin_def)

definition demo_callback :: "(u32 list, u32) enum_callback" where
  "demo_callback h n = (let vals = take (min 2 (unat n)) h in ((vals \<noteq> [], vals, of_nat (length vals)), drop 2 h))"

theorem enumerate_all_delivers_witness:
  "enumerate_all demo_callback (length [7, 8, 9 :: u32]) [7, 8, 9] 0 = Some [7, 8, 9]"
proof (rule enumerate_all_delivers)
  have "delivers demo_callback [] []"
    by (rule delivers.last [of _ _ False "[]" 0 "[]"]) (simp_all add: demo_callback_def)
  then have "delivers demo_callback [9] ([9] @ [])"
    by (rule delivers.batch [rotated -1]) (simp_all add: demo_callback_def)
  then have "delivers demo_callback [7, 8, 9] ([7, 8] @ [9] @ [])"
    by (rule delivers.batch [rotated -1]) (simp_all add: demo_callback_def)
  then show "delivers demo_callback [7, 8, 9] [7, 8, 9]" by simp
qed

text \<open>With call-site instrumentation, a replacement is applied to a module that is not exempt
  exactly when its integration is not disabled, its action is not the call-target one, its
  target is not in netstandard (unless enabled), its caller is unspecified or the module's
  assembly, and the assembly itself or one it references is the target's, with a release in the
  range of versions.\<close>

theorem module_integrations_callsite:
  assumes "initialize_integrations False netstandard disabled ints = Inr methods"
    and "ai_name asm \<noteq> WStr ''Microsoft.AspNetCore.Hosting''" "ai_name asm \<noteq> WStr ''Dapper''"
  shows "m \<in> set (module_integrations False asm own props refs methods) \<longleftrightarrow>
    \<not> skipped_assembly (ai_name asm)
    \<and> (\<exists>i \<in> set ints. integration_name i = im_integration_name m \<and> replacement m \<in> set (method_replacements i))
    \<and> im_integration_name m \<notin> set disabled
    \<and> action (wrapper_method (replacement m)) \<noteq> calltarget_modification_action
    \<and> (netstandard \<or> name (assembly (target_method (replacement m))) \<noteq> WStr ''netstandard'')
    \<and> name (assembly (caller_method (replacement m))) \<in> {[], ai_name asm}
    \<and> (\<exists>a \<in> insert own (GetReferencedAssemblyMetadata props ` set refs).
        name (assembly (target_method (replacement m))) = am_name a
        \<and> release_in (am_version a) (target_method (replacement m)))"
proof -
  let ?all = "FlattenIntegrations (FilterIntegrationsByName ints disabled) False"
  have "methods = (if netstandard then ?all else FilterIntegrationsByTargetAssemblyName ?all [WStr ''netstandard''])"
    using assms(1) by (simp add: initialize_integrations_def Let_def split: if_splits)
  then have "m \<in> set methods \<longleftrightarrow> m \<in> set ?all
      \<and> (netstandard \<or> name (assembly (target_method (replacement m))) \<noteq> WStr ''netstandard'')"
    by (auto simp: FilterIntegrationsByTargetAssemblyName_filter)
  then show ?thesis
    using assms(2,3)
    by (auto simp: module_integrations_def Let_def FilterIntegrationsByCaller_filter
        FilterIntegrationsByTarget_filter meets_iff FlattenIntegrations_iff filter_empty_conv)
qed

definition demo_replacement :: MethodReplacement where
  "demo_replacement = \<lparr>caller_method = MethodReference_default,
     target_method = MethodReference_default\<lparr>assembly := assembly MethodReference_default\<lparr>name := WStr ''A''\<rparr>\<rparr>,
     wrapper_method = MethodReference_default\<rparr>"

definition demo_integration :: Integration where
  "demo_integration = \<lparr>integration_name = WStr ''I'', method_replacements = [demo_replacement]\<rparr>"

lemma demo_initialize:
  "initialize_integrations False True [] [demo_integration]
    = Inr [\<lparr>im_integration_name = WStr ''I'', replacement = demo_replacement\<rparr>]"
  by (simp add: initialize_integrations_def demo_integration_def demo_replacement_def MethodReference_default_def
      calltarget_modification_action_def WStr_def)

theorem module_integrations_callsite_witness:
  "\<lparr>im_integration_name = WStr ''I'', replacement = demo_replacement\<rparr>
    \<in> set (module_integrations False (AssemblyInfo_default\<lparr>ai_name := WStr ''B''\<rparr>) AssemblyMetadata_default
        (\<lambda>_. Some (1, WStr ''A'', 1, 0, 0, 0)) [5] [\<lparr>im_integration_name = WStr ''I'', replacement = demo_replacement\<rparr>])"
proof -
  have *: "\<not> skipped_assembly (WStr ''B'')" "c_str (WStr ''A'') = WStr ''A''"
    by (simp_all add: skipped_assembly_def starts_with_def skip_assembly_prefixes_def skip_assemblies_def WStr_def c_str_def)
  show ?thesis
    by (subst module_integrations_callsite [OF demo_initialize])
      (simp_all add: * GetReferencedAssemblyMetadata_def release_in_def demo_replacement_def demo_integration_def
        MethodReference_default_def AssemblyMetadata_default_def AssemblyInfo_default_def
        calltarget_modification_action_def, simp_all add: WStr_def)
qed

end
