(* ===== verification/ClrSig.thy ===== *)
theory ClrSig
  imports SigGrammar StringUtil
begin

text \<open>
  The second signature parser (\<open>FunctionMethodSignature\<close> and \<open>FunctionMethodArgument\<close> in
  \<open>clr_helpers.cpp\<close>): it cuts a method signature into the return type and the parameters and
  answers what a parameter's type is. It has its own reader of numbers and of types; what of
  it has the name of a function of \<open>sig_helpers.cpp\<close> carries the suffix \<open>fm\<close>.

  Pointers and errors are those of the theory \<open>SigParser\<close>: a pointer is the list of the bytes
  from there to the end of the blob, and reading at or behind the end is \<open>Overread\<close>.
\<close>

section \<open>Numbers and bytes\<close>

definition ParseByte :: "byte list \<Rightarrow> sig_error + (byte \<times> byte list)" where
  "ParseByte pbCur = (case pbCur of [] \<Rightarrow> Inl Rejected | b # r \<Rightarrow> Inr (b, r))"

definition ParseNumber_fm :: "byte list \<Rightarrow> sig_error + (u32 \<times> byte list)" where
  "ParseNumber_fm p = bindE (ParseByte p) (\<lambda>(b1, p).
     if b1 = 0xFF then Inl Rejected
     else if b1 AND 0x80 = 0 then Inr (ucast b1, p)
     else bindE (ParseByte p) (\<lambda>(b2, p).
       if b1 AND 0x40 = 0 then Inr (push_bit 8 (ucast (b1 AND 0x3F)) OR ucast b2, p)
       else if b1 AND 0x20 \<noteq> 0 then Inl Rejected
       else bindE (ParseByte p) (\<lambda>(b3, p). bindE (ParseByte p) (\<lambda>(b4, p).
         Inr (push_bit 24 (ucast (b1 AND 0x1F)) OR push_bit 16 (ucast b2) OR push_bit 8 (ucast b3) OR ucast b4, p)))))"

definition ParseTypeDefOrRefEncoded_fm :: "byte list \<Rightarrow> sig_error + ((byte \<times> u32) \<times> byte list)" where
  "ParseTypeDefOrRefEncoded_fm p = bindE (ParseNumber_fm p) (\<lambda>(encoded, p).
     Inr ((ucast (encoded AND 0x3), drop_bit 2 encoded), p))"

section \<open>Types\<close>

definition supported_simple_types :: "byte list" where
  "supported_simple_types =
     [ELEMENT_TYPE_BOOLEAN, ELEMENT_TYPE_CHAR, ELEMENT_TYPE_I1, ELEMENT_TYPE_U1, ELEMENT_TYPE_U2,
      ELEMENT_TYPE_I2, ELEMENT_TYPE_I4, ELEMENT_TYPE_U4, ELEMENT_TYPE_I8, ELEMENT_TYPE_U8, ELEMENT_TYPE_R4,
      ELEMENT_TYPE_R8, ELEMENT_TYPE_I, ELEMENT_TYPE_U, ELEMENT_TYPE_STRING, ELEMENT_TYPE_OBJECT]"

text \<open>The switch has no default: an element type that it does not name is accepted.\<close>

definition ParseType_fm_body :: "parser \<Rightarrow> parser" where
  "ParseType_fm_body pt p = bindE (ParseByte p) (\<lambda>(elem_type, p).
     if elem_type \<in> set supported_simple_types then Inr p
     else if elem_type = ELEMENT_TYPE_PTR then Inl Rejected
     else if elem_type = ELEMENT_TYPE_CLASS then bindE (ParseTypeDefOrRefEncoded_fm p) (\<lambda>(_, p). Inr p)
     else if elem_type = ELEMENT_TYPE_VALUETYPE then bindE (ParseTypeDefOrRefEncoded_fm p) (\<lambda>(_, p). Inr p)
     else if elem_type = ELEMENT_TYPE_FNPTR then Inl Rejected
     else if elem_type = ELEMENT_TYPE_ARRAY then Inl Rejected
     else if elem_type = ELEMENT_TYPE_SZARRAY then
       bindE (rd p) (\<lambda>b. if b = ELEMENT_TYPE_CMOD_OPT \<or> b = ELEMENT_TYPE_CMOD_REQD then Inl Rejected else pt p)
     else if elem_type = ELEMENT_TYPE_GENERICINST then
       bindE (ParseByte p) (\<lambda>(elem_type, p).
         if elem_type \<noteq> ELEMENT_TYPE_CLASS \<and> elem_type \<noteq> ELEMENT_TYPE_VALUETYPE then Inl Rejected
         else bindE (ParseTypeDefOrRefEncoded_fm p) (\<lambda>(_, p).
           bindE (ParseNumber_fm p) (\<lambda>(number, p). repeatE (unat number) pt p)))
     else if elem_type = ELEMENT_TYPE_VAR then bindE (ParseNumber_fm p) (\<lambda>(_, p). Inr p)
     else if elem_type = ELEMENT_TYPE_MVAR then bindE (ParseNumber_fm p) (\<lambda>(_, p). Inr p)
     else Inr p)"

primrec ParseType_fm_fuel :: "nat \<Rightarrow> parser" where
  "ParseType_fm_fuel 0 = (\<lambda>p. Inl OutOfFuel)"
| "ParseType_fm_fuel (Suc k) = ParseType_fm_body (ParseType_fm_fuel k)"

definition ParseType_fm :: parser where
  "ParseType_fm p = ParseType_fm_fuel (Suc (length p)) p"

definition ParseParam_fm :: parser where
  "ParseParam_fm p = bindE (rd p) (\<lambda>b.
     if b = ELEMENT_TYPE_CMOD_OPT \<or> b = ELEMENT_TYPE_CMOD_REQD then Inl Rejected
     else if p = [] then Inl Rejected
     else if b = ELEMENT_TYPE_TYPEDBYREF then Inl Rejected
     else ParseType_fm (if b = ELEMENT_TYPE_BYREF then drop 1 p else p))"

definition ParseRetType_fm :: parser where
  "ParseRetType_fm p = bindE (rd p) (\<lambda>b.
     if b = ELEMENT_TYPE_CMOD_OPT \<or> b = ELEMENT_TYPE_CMOD_REQD then Inl Rejected
     else if p = [] then Inl Rejected
     else if b = ELEMENT_TYPE_TYPEDBYREF then Inl Rejected
     else if b = ELEMENT_TYPE_VOID then Inr (drop 1 p)
     else ParseType_fm (if b = ELEMENT_TYPE_BYREF then drop 1 p else p))"

section \<open>Method signatures\<close>

text \<open>
  An argument is a slice of the blob. Offsets and lengths are pointer differences inside the
  blob, whose length is itself an \<open>unsigned\<close>, so the casts to \<open>ULONG\<close> change nothing.
\<close>

record FunctionMethodArgument =
  arg_offset :: nat
  arg_length :: nat
  arg_pbBase :: "byte list"

record FunctionMethodSignature =
  fms_pbBase :: "byte list"
  numberOfTypeArguments :: u32
  numberOfArguments :: u32
  fms_ret :: FunctionMethodArgument
  fms_params :: "FunctionMethodArgument list"

text \<open>The argument between two pointers into the blob.\<close>

definition slice_between :: "byte list \<Rightarrow> byte list \<Rightarrow> byte list \<Rightarrow> FunctionMethodArgument" where
  "slice_between base pbParam pbCur =
     (let len = length pbParam - length pbCur
      in \<lparr>arg_offset = length base - length pbCur - len, arg_length = len, arg_pbBase = base\<rparr>)"

fun TryParse_params :: "byte list \<Rightarrow> nat \<Rightarrow> bool \<Rightarrow> byte list \<Rightarrow> sig_error + FunctionMethodArgument list" where
  "TryParse_params base 0 fEncounteredSentinal pbCur = Inr []"
| "TryParse_params base (Suc n) fEncounteredSentinal pbCur =
     (case pbCur of
        [] \<Rightarrow> Inl Rejected
      | b # r \<Rightarrow>
          if b = ELEMENT_TYPE_SENTINEL \<and> fEncounteredSentinal then Inl Rejected
          else
            let (pbParam, fEncounteredSentinal) =
                  (if b = ELEMENT_TYPE_SENTINEL then (r, True) else (pbCur, fEncounteredSentinal))
            in bindE (ParseParam_fm pbParam) (\<lambda>pbCur.
                 bindE (TryParse_params base n fEncounteredSentinal pbCur) (\<lambda>params.
                   Inr (slice_between base pbParam pbCur # params))))"

definition TryParse :: "byte list \<Rightarrow> sig_error + FunctionMethodSignature" where
  "TryParse base = bindE (ParseByte base) (\<lambda>(elem_type, pbCur).
     bindE (if elem_type AND IMAGE_CEE_CS_CALLCONV_GENERIC \<noteq> 0 then ParseNumber_fm pbCur else Inr (0, pbCur))
       (\<lambda>(gen_param_count, pbCur).
     bindE (ParseNumber_fm pbCur) (\<lambda>(param_count, pbRet).
     bindE (ParseRetType_fm pbRet) (\<lambda>pbCur.
     bindE (TryParse_params base (unat param_count) False pbCur) (\<lambda>params.
       Inr \<lparr>fms_pbBase = base, numberOfTypeArguments = gen_param_count, numberOfArguments = param_count,
         fms_ret = slice_between base pbRet pbCur, fms_params = params\<rparr>)))))"

text \<open>\<open>operator==\<close> returns what \<open>memcmp\<close> of the first \<open>len\<close> bytes returns: 0 (false) when they are
  equal. \<open>memcmp\<close> reads as many bytes of both.\<close>

definition FunctionMethodSignature_eq :: "byte list \<Rightarrow> byte list \<Rightarrow> sig_error + bool" where
  "FunctionMethodSignature_eq base other =
     (if length other < length base then Inl Overread else Inr (take (length base) other \<noteq> base))"

section \<open>Questions about an argument\<close>

definition arg_ptr :: "FunctionMethodArgument \<Rightarrow> byte list" where
  "arg_ptr a = drop (arg_offset a) (arg_pbBase a)"

text \<open>The bytes that \<open>GetSignature\<close> hands out: a pointer and a length.\<close>

definition GetSignature :: "FunctionMethodArgument \<Rightarrow> byte list" where
  "GetSignature a = take (arg_length a) (arg_ptr a)"

abbreviation (input) "TypeFlagByRef \<equiv> (1 :: nat)"
abbreviation (input) "TypeFlagVoid \<equiv> (2 :: nat)"
abbreviation (input) "TypeFlagBoxedType \<equiv> (4 :: nat)"

definition boxed_element_types :: "byte list" where
  "boxed_element_types =
     [ELEMENT_TYPE_BOOLEAN, ELEMENT_TYPE_CHAR, ELEMENT_TYPE_I1, ELEMENT_TYPE_U1, ELEMENT_TYPE_U2,
      ELEMENT_TYPE_I2, ELEMENT_TYPE_I4, ELEMENT_TYPE_U4, ELEMENT_TYPE_I8, ELEMENT_TYPE_U8, ELEMENT_TYPE_R4,
      ELEMENT_TYPE_R8, ELEMENT_TYPE_I, ELEMENT_TYPE_U, ELEMENT_TYPE_VALUETYPE, ELEMENT_TYPE_MVAR, ELEMENT_TYPE_VAR]"

text \<open>The flags, and the element type written to the out parameter.\<close>

definition GetTypeFlags :: "FunctionMethodArgument \<Rightarrow> sig_error + (nat \<times> byte)" where
  "GetTypeFlags a = (let pbCur = arg_ptr a in bindE (rd pbCur) (\<lambda>b.
     if b = ELEMENT_TYPE_VOID then Inr (TypeFlagVoid, ELEMENT_TYPE_VOID)
     else
       let (pbCur, flag) = (if b = ELEMENT_TYPE_BYREF then (drop 1 pbCur, TypeFlagByRef) else (pbCur, 0))
       in bindE (rd pbCur) (\<lambda>elementType.
         if elementType \<in> set boxed_element_types then Inr (flag + TypeFlagBoxedType, elementType)
         else if elementType = ELEMENT_TYPE_GENERICINST then
           bindE (rd (drop 1 pbCur)) (\<lambda>b.
             Inr (if b = ELEMENT_TYPE_VALUETYPE then flag + TypeFlagBoxedType else flag, elementType))
         else Inr (flag, elementType))))"

definition system_type_name :: "byte \<Rightarrow> wstring option" where
  "system_type_name = map_of
     [(ELEMENT_TYPE_BOOLEAN, WStr ''System.Boolean''), (ELEMENT_TYPE_CHAR, WStr ''System.Char''),
      (ELEMENT_TYPE_I1, WStr ''System.SByte''), (ELEMENT_TYPE_U1, WStr ''System.Byte''),
      (ELEMENT_TYPE_U2, WStr ''System.UInt16''), (ELEMENT_TYPE_I2, WStr ''System.Int16''),
      (ELEMENT_TYPE_I4, WStr ''System.Int32''), (ELEMENT_TYPE_U4, WStr ''System.UInt32''),
      (ELEMENT_TYPE_I8, WStr ''System.Int64''), (ELEMENT_TYPE_U8, WStr ''System.UInt64''),
      (ELEMENT_TYPE_R4, WStr ''System.Single''), (ELEMENT_TYPE_R8, WStr ''System.Double''),
      (ELEMENT_TYPE_I, WStr ''System.IntPtr''), (ELEMENT_TYPE_U, WStr ''System.UIntPtr''),
      (ELEMENT_TYPE_STRING, WStr ''System.String''), (ELEMENT_TYPE_OBJECT, WStr ''System.Object'')]"

text \<open>What \<open>GetTypeTok\<close> asks the metadata for: a reference to a type of the core library, the
  token of a type specification, or nothing because the token stands in the signature.\<close>

datatype type_tok_request =
    DefineTypeRefByName_req wstring
  | GetTokenFromTypeSpec_req "byte list"
  | Token_in_signature u32
  | No_token

definition GetTypeTok :: "FunctionMethodArgument \<Rightarrow> sig_error + type_tok_request" where
  "GetTypeTok a = (let pStart = arg_ptr a in bindE (rd pStart) (\<lambda>b.
     let pbCur = (if b = ELEMENT_TYPE_BYREF then drop 1 pStart else pStart)
     in bindE (rd pbCur) (\<lambda>b.
       case system_type_name b of
         Some n \<Rightarrow> Inr (DefineTypeRefByName_req n)
       | None \<Rightarrow>
         if b = ELEMENT_TYPE_CLASS \<or> b = ELEMENT_TYPE_VALUETYPE then
           bindE (CorSigUncompressToken (drop 1 pbCur)) (\<lambda>(_, token). Inr (Token_in_signature token))
         else if b \<in> {ELEMENT_TYPE_GENERICINST, ELEMENT_TYPE_SZARRAY, ELEMENT_TYPE_MVAR, ELEMENT_TYPE_VAR} then
           Inr (GetTokenFromTypeSpec_req (take (arg_length a - (length pStart - length pbCur)) pbCur))
         else Inr No_token)))"

text \<open>The name of a type; \<open>type_name_of\<close> is \<open>GetTypeInfo(pImport, token).name\<close>. A failed
  \<open>CorSigUncompress...\<close> returns \<open>(ULONG) -1\<close>, which moves the pointer far behind the blob.\<close>

type_synonym namer = "byte list \<Rightarrow> sig_error + (wstring \<times> byte list)"

fun name_list :: "namer \<Rightarrow> nat \<Rightarrow> namer" where
  "name_list g 0 p = Inr ([], p)"
| "name_list g (Suc n) p = bindE (g p) (\<lambda>(s, p). bindE (name_list g n p) (\<lambda>(t, p).
     Inr (s @ (if n \<noteq> 0 then WStr '','' else []) @ t, p)))"

definition GetSigTypeTokName_body :: "(u32 \<Rightarrow> wstring) \<Rightarrow> namer \<Rightarrow> namer" where
  "GetSigTypeTokName_body type_name_of g p = bindE (rd p) (\<lambda>b.
     let ref_flag = (b = ELEMENT_TYPE_BYREF); p = (if ref_flag then drop 1 p else p)
     in bindE (rd p) (\<lambda>b. let r = drop 1 p in
       bindE
        (case system_type_name b of
           Some n \<Rightarrow> Inr (n, r)
         | None \<Rightarrow>
           if b = ELEMENT_TYPE_CLASS \<or> b = ELEMENT_TYPE_VALUETYPE then
             bindE (CorSigUncompressToken r) (\<lambda>(n, token). Inr (type_name_of token, drop (unat n) r))
           else if b = ELEMENT_TYPE_SZARRAY then
             bindE (g r) (\<lambda>(tokenName, r). Inr (tokenName @ WStr ''[]'', r))
           else if b = ELEMENT_TYPE_GENERICINST then
             bindE (g r) (\<lambda>(tokenName, r).
             bindE (CorSigUncompressData r) (\<lambda>(n, num).
             bindE (name_list g (unat num) (drop (unat n) r)) (\<lambda>(names, r).
               Inr (tokenName @ WStr ''['' @ names @ WStr '']'', r))))
           else if b = ELEMENT_TYPE_MVAR then
             bindE (CorSigUncompressData r) (\<lambda>(n, num).
               Inr (WStr ''!!'' @ ToWSTRING (decimal (unat num)), drop (unat n) r))
           else if b = ELEMENT_TYPE_VAR then
             bindE (CorSigUncompressData r) (\<lambda>(n, num).
               Inr (WStr ''!'' @ ToWSTRING (decimal (unat num)), drop (unat n) r))
           else Inr ([], p))
        (\<lambda>(tokenName, p). Inr (if ref_flag then tokenName @ WStr ''&'' else tokenName, p))))"

primrec GetSigTypeTokName_fuel :: "(u32 \<Rightarrow> wstring) \<Rightarrow> nat \<Rightarrow> namer" where
  "GetSigTypeTokName_fuel type_name_of 0 = (\<lambda>p. Inl OutOfFuel)"
| "GetSigTypeTokName_fuel type_name_of (Suc k) =
     GetSigTypeTokName_body type_name_of (GetSigTypeTokName_fuel type_name_of k)"

definition GetSigTypeTokName :: "(u32 \<Rightarrow> wstring) \<Rightarrow> namer" where
  "GetSigTypeTokName type_name_of p = GetSigTypeTokName_fuel type_name_of (Suc (length p)) p"

definition GetTypeTokName :: "(u32 \<Rightarrow> wstring) \<Rightarrow> FunctionMethodArgument \<Rightarrow> sig_error + wstring" where
  "GetTypeTokName type_name_of a =
     bindE (GetSigTypeTokName type_name_of (arg_ptr a)) (\<lambda>(tokenName, _). Inr tokenName)"

section \<open>The two readers of numbers\<close>

lemma byte_bits:
  fixes b :: byte
  shows "b AND 0x80 = 0 \<longleftrightarrow> \<not> bit b 7" "b AND 0x40 = 0 \<longleftrightarrow> \<not> bit b 6" "b AND 0x20 = 0 \<longleftrightarrow> \<not> bit b 5"
    and "b AND 0xC0 = 0x80 \<longleftrightarrow> bit b 7 \<and> \<not> bit b 6" "b AND 0xE0 = 0xC0 \<longleftrightarrow> bit b 7 \<and> bit b 6 \<and> \<not> bit b 5"
proof -
  have m: "b AND 2 ^ k = (if bit b k then 2 ^ k else 0)" for k
    by (rule bit_eqI) (auto simp: bit_and_iff bit_exp_iff)
  note m7 = m [of 7, simplified] and m6 = m [of 6, simplified] and m5 = m [of 5, simplified]
  have c: "b AND 0xC0 = (b AND 0x80) OR (b AND 0x40)" "b AND 0xE0 = (b AND 0x80) OR (b AND 0x40) OR (b AND 0x20)"
    unfolding bit.conj_disj_distrib [symmetric] by simp_all
  show "b AND 0x80 = 0 \<longleftrightarrow> \<not> bit b 7" "b AND 0x40 = 0 \<longleftrightarrow> \<not> bit b 6" "b AND 0x20 = 0 \<longleftrightarrow> \<not> bit b 5"
    unfolding m7 m6 m5 by simp_all
  show "b AND 0xC0 = 0x80 \<longleftrightarrow> bit b 7 \<and> \<not> bit b 6" "b AND 0xE0 = 0xC0 \<longleftrightarrow> bit b 7 \<and> bit b 6 \<and> \<not> bit b 5"
    unfolding c m7 m6 m5 by simp_all
qed

lemma ParseNumber_fm_iff: "ParseNumber_fm p = Inr r \<longleftrightarrow> ParseNumber p = Inr r"
proof -
  have ff: "b \<noteq> 0xFF" if "\<not> bit b 5 \<or> \<not> bit b 6 \<or> \<not> bit b 7" for b :: byte
    using that by auto
  have c: "0xFF AND (0x80 :: byte) \<noteq> 0" by simp
  show ?thesis
    by (cases p rule: list.exhaust; cases "tl p"; cases "tl (tl p)"; cases "tl (tl (tl p))")
      (auto simp: ParseNumber_fm_def ParseNumber_def ParseByte_def CorSigUncompressData_def
        CorSigUncompressData_len_def byte_bits dest: ff)
qed

lemma ParseByte_simps [simp]: "ParseByte (b # p) = Inr (b, p)" "ParseByte [] = Inl Rejected"
  by (simp_all add: ParseByte_def)

lemma ParseByte_Inr: "ParseByte p = Inr (b, q) \<longleftrightarrow> p = b # q"
  by (cases p) auto

lemma ParseByte_Inl: "ParseByte p = Inl e \<longleftrightarrow> p = [] \<and> e = Rejected"
  by (cases p) auto

lemma ParseNumber_fm_Inl: "ParseNumber_fm p = Inl e \<Longrightarrow> e = Rejected"
  by (auto simp: ParseNumber_fm_def bindE_eq_Inl ParseByte_Inl split: if_splits)

lemma ParseNumber_fm_word: "is_number w v \<Longrightarrow> ParseNumber_fm (w @ q) = Inr (v, q)"
  by (simp add: ParseNumber_fm_iff ParseNumber_word)

lemma ParseNumber_fm_le: "ParseNumber_fm p = Inr (v, q) \<Longrightarrow> length q < length p"
  by (simp add: ParseNumber_fm_iff ParseNumber_le)

lemma ParseTypeDefOrRefEncoded_fm_le: "ParseTypeDefOrRefEncoded_fm p = Inr (v, q) \<Longrightarrow> length q < length p"
  by (auto simp: ParseTypeDefOrRefEncoded_fm_def res_simps dest: ParseNumber_fm_le)

lemma ParseTypeDefOrRefEncoded_fm_Inl: "ParseTypeDefOrRefEncoded_fm p = Inl e \<Longrightarrow> e = Rejected"
  by (auto simp: ParseTypeDefOrRefEncoded_fm_def bindE_eq_Inl dest: ParseNumber_fm_Inl)

section \<open>The recursion ends\<close>

lemma ParseType_fm_fuel_shrinks: "ParseType_fm_fuel k p = Inr q \<Longrightarrow> length q < length p"
proof (induction k arbitrary: p q)
  case (Suc k)
  have rep: "repeatE n (ParseType_fm_fuel k) p = Inr q \<Longrightarrow> length q \<le> length p" for n p q
    using repeatE_shrinks [of "ParseType_fm_fuel k" "Suc (length p)" n p q] Suc.IH by fastforce
  show ?case
    using Suc.prems
    by (auto simp: ParseType_fm_body_def res_simps ParseByte_Inr split: if_splits
        dest!: ParseNumber_fm_le ParseTypeDefOrRefEncoded_fm_le rep Suc.IH)
qed simp

lemma ParseType_fm_fuel_fueled: "length p < k \<Longrightarrow> ParseType_fm_fuel k p \<noteq> Inl OutOfFuel"
proof (induction k arbitrary: p)
  case (Suc k)
  have "fueled_below k (ParseType_fm_fuel k)" using Suc.IH by (simp add: fueled_below_def)
  moreover have "shrinks_below k (ParseType_fm_fuel k)"
    by (auto simp: shrinks_below_def dest: ParseType_fm_fuel_shrinks)
  ultimately have rep: "length p < k \<Longrightarrow> repeatE n (ParseType_fm_fuel k) p \<noteq> Inl OutOfFuel" for n p
    by (rule repeatE_fueled)
  show ?case
  proof
    assume "ParseType_fm_fuel (Suc k) p = Inl OutOfFuel"
    then show False
      using Suc.prems Suc.IH rep
      by (auto simp: ParseType_fm_body_def bindE_eq_Inl ParseByte_Inl ParseByte_Inr split: if_splits
          dest!: ParseNumber_fm_Inl ParseTypeDefOrRefEncoded_fm_Inl ParseNumber_fm_le ParseTypeDefOrRefEncoded_fm_le)
  qed
qed simp

lemma ParseType_fm_fueled: "ParseType_fm p \<noteq> Inl OutOfFuel"
  by (simp add: ParseType_fm_def ParseType_fm_fuel_fueled del: ParseType_fm_fuel.simps)

lemma ParseType_fm_shrinks: "ParseType_fm p = Inr q \<Longrightarrow> length q < length p"
  unfolding ParseType_fm_def by (rule ParseType_fm_fuel_shrinks)

lemma ParseParam_fm_fueled: "ParseParam_fm p \<noteq> Inl OutOfFuel" "ParseRetType_fm p \<noteq> Inl OutOfFuel"
  using ParseType_fm_fueled by (auto simp: ParseParam_fm_def ParseRetType_fm_def bindE_eq_Inl)

lemma TryParse_params_fueled: "TryParse_params base n s p \<noteq> Inl OutOfFuel"
  by (induction base n s p rule: TryParse_params.induct)
    (auto simp: bindE_eq_Inl ParseParam_fm_fueled split: list.splits)

lemma TryParse_fueled: "TryParse base \<noteq> Inl OutOfFuel"
  using ParseParam_fm_fueled TryParse_params_fueled
  by (auto simp: TryParse_def bindE_eq_Inl ParseByte_Inl split: if_splits dest: ParseNumber_fm_Inl)

section \<open>Abstract types\<close>

text \<open>The types the parser supports, as a tree, with their encoding and their display name.\<close>

datatype clr_type =
    Prim byte
  | Named bool u32            \<comment> \<open>whether it is a value type; its token\<close>
  | SzArray clr_type
  | Inst bool u32 "clr_type list"
  | TVar u32
  | MVar u32

definition encode_number :: "u32 \<Rightarrow> byte list" where
  "encode_number n = the (CorSigCompressData n)"

definition encode_named :: "bool \<Rightarrow> u32 \<Rightarrow> byte list" where
  "encode_named vt tk = (if vt then ELEMENT_TYPE_VALUETYPE else ELEMENT_TYPE_CLASS) # the (CorSigCompressToken tk)"

fun encode_type :: "clr_type \<Rightarrow> byte list" where
  "encode_type (Prim b) = [b]"
| "encode_type (Named vt tk) = encode_named vt tk"
| "encode_type (SzArray t) = ELEMENT_TYPE_SZARRAY # encode_type t"
| "encode_type (Inst vt tk ts) =
     ELEMENT_TYPE_GENERICINST # encode_named vt tk @ encode_number (of_nat (length ts)) @ concat (map encode_type ts)"
| "encode_type (TVar n) = ELEMENT_TYPE_VAR # encode_number n"
| "encode_type (MVar n) = ELEMENT_TYPE_MVAR # encode_number n"

definition type_token :: "u32 \<Rightarrow> bool" where
  "type_token tk \<longleftrightarrow> TypeFromToken tk \<in> {mdtTypeDef, mdtTypeRef, mdtTypeSpec, mdtBaseType}"

fun wf_type :: "clr_type \<Rightarrow> bool" where
  "wf_type (Prim b) = (b \<in> set supported_simple_types)"
| "wf_type (Named vt tk) = type_token tk"
| "wf_type (SzArray t) = wf_type t"
| "wf_type (Inst vt tk ts) = (type_token tk \<and> length ts \<le> 0x1FFFFFFF \<and> list_all wf_type ts)"
| "wf_type (TVar n) = (n \<le> 0x1FFFFFFF)"
| "wf_type (MVar n) = (n \<le> 0x1FFFFFFF)"

fun commas :: "wstring list \<Rightarrow> wstring" where
  "commas [] = []"
| "commas [s] = s"
| "commas (s # t # ss) = s @ WStr '','' @ commas (t # ss)"

fun show_type :: "(u32 \<Rightarrow> wstring) \<Rightarrow> clr_type \<Rightarrow> wstring" where
  "show_type nm (Prim b) = the (system_type_name b)"
| "show_type nm (Named vt tk) = nm tk"
| "show_type nm (SzArray t) = show_type nm t @ WStr ''[]''"
| "show_type nm (Inst vt tk ts) = nm tk @ WStr ''['' @ commas (map (show_type nm) ts) @ WStr '']''"
| "show_type nm (TVar n) = WStr ''!'' @ ToWSTRING (decimal (unat n))"
| "show_type nm (MVar n) = WStr ''!!'' @ ToWSTRING (decimal (unat n))"

lemma encode_number_word:
  assumes "n \<le> 0x1FFFFFFF"
  shows "is_number (encode_number n) n"
    and "CorSigUncompressData (encode_number n @ q) = Inr (of_nat (length (encode_number n)), n)"
    and "unat (of_nat (length (encode_number n)) :: u32) = length (encode_number n)"
proof -
  obtain bs where bs: "CorSigCompressData n = Some bs"
    using assms CorSigCompressData_None_iff [of n] by (cases "CorSigCompressData n") auto
  have l: "length bs \<in> {1, 2, 4}" by (rule CorSigCompressData_length [OF bs])
  have u: "CorSigUncompressData (bs @ r) = Inr (of_nat (length bs), n)" for r
    by (rule CorSigCompressData_roundtrip_raw [OF bs])
  then show "is_number (encode_number n) n"
    using u [of "[]"] l by (auto simp: is_number_def encode_number_def bs ULONG_MAX_def)
  show "CorSigUncompressData (encode_number n @ q) = Inr (of_nat (length (encode_number n)), n)"
    using u by (simp add: encode_number_def bs)
  show "unat (of_nat (length (encode_number n)) :: u32) = length (encode_number n)"
    using l by (auto simp: encode_number_def bs)
qed


abbreviation named_head :: "bool \<Rightarrow> byte" where
  "named_head vt \<equiv> (if vt then ELEMENT_TYPE_VALUETYPE else ELEMENT_TYPE_CLASS)"

lemma encode_named_word:
  assumes "type_token tk"
  shows "\<exists>bs. encode_named vt tk = named_head vt # bs \<and> is_token bs \<and> bs \<noteq> []
    \<and> (\<forall>q. CorSigUncompressToken (bs @ q) = Inr (of_nat (length bs), tk))
    \<and> unat (of_nat (length bs) :: u32) = length bs"
proof -
  obtain bs where bs: "CorSigCompressToken tk = Some bs"
    using CorSigCompressToken_roundtrip_raw assms unfolding type_token_def by blast
  have tok: "CorSigUncompressToken (bs @ q) = Inr (of_nat (length bs), tk)" for q
    using CorSigCompressToken_roundtrip_raw [of tk q] assms bs by (simp add: type_token_def)
  have c: "CorSigCompressData (push_bit 2 (RidFromToken tk) OR token_tag (TypeFromToken tk)) = Some bs"
    using bs by (simp add: CorSigCompressToken_eq)
  have l: "length bs \<in> {1, 2, 4}" by (rule CorSigCompressData_length [OF c])
  have "is_token bs"
    using CorSigCompressData_roundtrip_raw [OF c, of "[]"] l
    by (auto simp: is_token_def is_number_def ULONG_MAX_def)
  moreover have "bs \<noteq> []" using l by auto
  moreover have "unat (of_nat (length bs) :: u32) = length bs" using l by auto
  ultimately show ?thesis using tok by (simp add: encode_named_def bs)
qed

lemma ParseTypeDefOrRefEncoded_fm_word:
  "is_token w \<Longrightarrow> \<exists>v. ParseTypeDefOrRefEncoded_fm (w @ q) = Inr (v, q)"
  by (auto simp: is_token_def ParseTypeDefOrRefEncoded_fm_def ParseNumber_fm_word)

text \<open>The first byte of a type.\<close>

lemma encode_type_head:
  assumes "wf_type t"
  shows "\<exists>b r. encode_type t = b # r \<and> b \<noteq> ELEMENT_TYPE_VOID \<and> b \<noteq> ELEMENT_TYPE_BYREF
    \<and> b \<noteq> ELEMENT_TYPE_TYPEDBYREF \<and> b \<noteq> ELEMENT_TYPE_CMOD_REQD \<and> b \<noteq> ELEMENT_TYPE_CMOD_OPT
    \<and> b \<noteq> ELEMENT_TYPE_SENTINEL"
proof (cases t)
  case (Prim b)
  then show ?thesis using assms by (auto simp: supported_simple_types_def)
next
  case (Named vt tk)
  then show ?thesis by (auto simp: encode_named_def)
qed auto

lemma repeatE_words:
  assumes "\<And>x q. x \<in> set xs \<Longrightarrow> f (g x @ q) = Inr q"
  shows "repeatE (length xs) f (concat (map g xs) @ q) = Inr q"
  using assms by (induction xs) auto

lemma length_concat_ge: "x \<in> set xs \<Longrightarrow> length (g x) \<le> length (concat (map g xs))"
  by (induction xs) auto

lemma unat_length_u32: "n \<le> 0x1FFFFFFF \<Longrightarrow> unat (of_nat n :: u32) = n \<and> (of_nat n :: u32) \<le> 0x1FFFFFFF"
  by (simp add: unat_of_nat word_le_nat_alt)

lemma ParseType_fm_fuel_encode:
  "wf_type t \<Longrightarrow> length (encode_type t) \<le> k \<Longrightarrow> ParseType_fm_fuel k (encode_type t @ q) = Inr q"
proof (induction t arbitrary: k q)
  case (Prim b)
  then obtain k' where "k = Suc k'" by (cases k) auto
  then show ?case using Prim by (simp add: ParseType_fm_body_def)
next
  case (Named vt tk)
  then obtain k' where k: "k = Suc k'" by (cases k) (auto simp: encode_named_def)
  have "type_token tk" using Named by simp
  from encode_named_word [OF this, of vt]
  obtain bs where bs: "encode_named vt tk = named_head vt # bs" "is_token bs" by blast
  then show ?case
    using ParseTypeDefOrRefEncoded_fm_word [OF bs(2), of q]
    by (auto simp: k ParseType_fm_body_def supported_simple_types_def)
next
  case (SzArray t)
  then obtain k' where k: "k = Suc k'" by (cases k) auto
  have wf: "wf_type t" using SzArray.prems by simp
  obtain b r where "encode_type t = b # r" "b \<noteq> ELEMENT_TYPE_CMOD_OPT" "b \<noteq> ELEMENT_TYPE_CMOD_REQD"
    using encode_type_head [OF wf] by blast
  then show ?case
    using SzArray.IH [OF wf, of k' q] SzArray.prems
    by (simp add: k ParseType_fm_body_def supported_simple_types_def)
next
  case (Inst vt tk ts)
  then obtain k' where k: "k = Suc k'" by (cases k) auto
  have wf: "type_token tk" "length ts \<le> 0x1FFFFFFF" "\<And>t. t \<in> set ts \<Longrightarrow> wf_type t"
    using Inst.prems by (auto simp: list_all_iff)
  from encode_named_word [OF wf(1), of vt]
  obtain bs where bs: "encode_named vt tk = named_head vt # bs" "is_token bs" by blast
  note n = unat_length_u32 [OF wf(2)]
  have "repeatE (length ts) (ParseType_fm_fuel k') (concat (map encode_type ts) @ q) = Inr q"
  proof (rule repeatE_words)
    fix t q assume t: "t \<in> set ts"
    then show "ParseType_fm_fuel k' (encode_type t @ q) = Inr q"
      using Inst.prems(2) length_concat_ge [OF t, of encode_type] k
      by (intro Inst.IH wf(3)) auto
  qed
  then show ?case
    using ParseTypeDefOrRefEncoded_fm_word [OF bs(2), of "encode_number (of_nat (length ts)) @ concat (map encode_type ts) @ q"]
      ParseNumber_fm_word [OF encode_number_word(1), of "of_nat (length ts)"] n bs(1)
    by (auto simp: k ParseType_fm_body_def supported_simple_types_def)
next
  case (TVar n)
  then obtain k' where "k = Suc k'" by (cases k) auto
  then show ?case
    using TVar ParseNumber_fm_word [OF encode_number_word(1), of n q]
    by (simp add: ParseType_fm_body_def supported_simple_types_def)
next
  case (MVar n)
  then obtain k' where "k = Suc k'" by (cases k) auto
  then show ?case
    using MVar ParseNumber_fm_word [OF encode_number_word(1), of n q]
    by (simp add: ParseType_fm_body_def supported_simple_types_def)
qed

lemma ParseType_fm_encode: "wf_type t \<Longrightarrow> ParseType_fm (encode_type t @ q) = Inr q"
  unfolding ParseType_fm_def by (rule ParseType_fm_fuel_encode) simp_all

section \<open>Names\<close>

lemma system_type_name_simple: "b \<in> set supported_simple_types \<Longrightarrow> \<exists>n. system_type_name b = Some n"
  by (auto simp: supported_simple_types_def system_type_name_def)

lemma system_type_name_other [simp]:
  "system_type_name ELEMENT_TYPE_CLASS = None" "system_type_name ELEMENT_TYPE_VALUETYPE = None"
  "system_type_name ELEMENT_TYPE_SZARRAY = None" "system_type_name ELEMENT_TYPE_GENERICINST = None"
  "system_type_name ELEMENT_TYPE_VAR = None" "system_type_name ELEMENT_TYPE_MVAR = None"
  by (simp_all add: system_type_name_def)

lemma commas_Cons: "commas (s # ss) = s @ (if ss \<noteq> [] then WStr '','' else []) @ commas ss"
  by (cases ss) auto

lemma name_list_words:
  assumes "\<And>x q. x \<in> set xs \<Longrightarrow> g (e x @ q) = Inr (h x, q)"
  shows "name_list g (length xs) (concat (map e xs) @ q) = Inr (commas (map h xs), q)"
  using assms by (induction xs) (auto simp: commas_Cons)

lemma GetSigTypeTokName_fuel_encode:
  "wf_type t \<Longrightarrow> length (encode_type t) \<le> k
    \<Longrightarrow> GetSigTypeTokName_fuel nm k (encode_type t @ q) = Inr (show_type nm t, q)"
proof (induction t arbitrary: k q)
  case (Prim b)
  then obtain k' where "k = Suc k'" by (cases k) auto
  moreover obtain n where "system_type_name b = Some n" using Prim system_type_name_simple by auto
  moreover have "b \<noteq> ELEMENT_TYPE_BYREF" using Prim by (auto simp: supported_simple_types_def)
  ultimately show ?case by (simp add: GetSigTypeTokName_body_def)
next
  case (Named vt tk)
  then obtain k' where k: "k = Suc k'" by (cases k) (auto simp: encode_named_def)
  have "type_token tk" using Named by simp
  from encode_named_word [OF this, of vt]
  obtain bs where "encode_named vt tk = named_head vt # bs"
    "\<And>q. CorSigUncompressToken (bs @ q) = Inr (of_nat (length bs), tk)"
    "unat (of_nat (length bs) :: u32) = length bs" by blast
  then show ?case by (simp add: k GetSigTypeTokName_body_def)
next
  case (SzArray t)
  then obtain k' where k: "k = Suc k'" by (cases k) auto
  then show ?case using SzArray by (simp add: GetSigTypeTokName_body_def)
next
  case (Inst vt tk ts)
  then obtain k' where k: "k = Suc k'" by (cases k) auto
  have wf: "type_token tk" "length ts \<le> 0x1FFFFFFF" "\<And>t. t \<in> set ts \<Longrightarrow> wf_type t"
    using Inst.prems by (auto simp: list_all_iff)
  from encode_named_word [OF wf(1), of vt]
  obtain bs where bs: "encode_named vt tk = named_head vt # bs" "bs \<noteq> []"
    "\<And>q. CorSigUncompressToken (bs @ q) = Inr (of_nat (length bs), tk)"
    "unat (of_nat (length bs) :: u32) = length bs" by blast
  obtain k'' where k'': "k' = Suc k''" using Inst.prems(2) k bs(1) by (cases k') auto
  note n = unat_length_u32 [OF wf(2)]
  have "name_list (GetSigTypeTokName_fuel nm k') (length ts) (concat (map encode_type ts) @ q)
      = Inr (commas (map (show_type nm) ts), q)"
  proof (rule name_list_words)
    fix t q assume t: "t \<in> set ts"
    then show "GetSigTypeTokName_fuel nm k' (encode_type t @ q) = Inr (show_type nm t, q)"
      using Inst.prems(2) length_concat_ge [OF t, of encode_type] k by (intro Inst.IH wf(3)) auto
  qed
  moreover have "GetSigTypeTokName_fuel nm k' (encode_named vt tk @ r) = Inr (nm tk, r)" for r
    using bs by (simp add: k'' GetSigTypeTokName_body_def)
  ultimately show ?case
    using encode_number_word(2,3) [of "of_nat (length ts)"] n
    by (simp add: k GetSigTypeTokName_body_def)
next
  case (TVar n)
  then obtain k' where "k = Suc k'" by (cases k) auto
  then show ?case using TVar encode_number_word(2,3) [of n] by (simp add: GetSigTypeTokName_body_def)
next
  case (MVar n)
  then obtain k' where "k = Suc k'" by (cases k) auto
  then show ?case using MVar encode_number_word(2,3) [of n] by (simp add: GetSigTypeTokName_body_def)
qed


section \<open>Abstract method signatures\<close>

datatype clr_arg = ClrArg (by_ref: bool) (arg_type: clr_type)
datatype clr_ret = RetVoid | RetArg clr_arg

fun encode_arg :: "clr_arg \<Rightarrow> byte list" where
  "encode_arg (ClrArg r t) = (if r then [ELEMENT_TYPE_BYREF] else []) @ encode_type t"

fun encode_ret :: "clr_ret \<Rightarrow> byte list" where
  "encode_ret RetVoid = [ELEMENT_TYPE_VOID]"
| "encode_ret (RetArg a) = encode_arg a"

fun wf_ret :: "clr_ret \<Rightarrow> bool" where
  "wf_ret RetVoid = True"
| "wf_ret (RetArg a) = wf_type (arg_type a)"

record clr_method =
  cm_conv :: byte
  cm_generic :: u32
  cm_ret :: clr_ret
  cm_args :: "clr_arg list"

definition encode_method :: "clr_method \<Rightarrow> byte list" where
  "encode_method m = cm_conv m
     # (if cm_conv m AND IMAGE_CEE_CS_CALLCONV_GENERIC \<noteq> 0 then encode_number (cm_generic m) else [])
     @ encode_number (of_nat (length (cm_args m))) @ encode_ret (cm_ret m) @ concat (map encode_arg (cm_args m))"

definition wf_method :: "clr_method \<Rightarrow> bool" where
  "wf_method m \<longleftrightarrow> cm_generic m \<le> 0x1FFFFFFF \<and> (cm_conv m AND IMAGE_CEE_CS_CALLCONV_GENERIC = 0 \<longrightarrow> cm_generic m = 0)
     \<and> length (cm_args m) \<le> 0x1FFFFFFF \<and> wf_ret (cm_ret m) \<and> list_all (\<lambda>a. wf_type (arg_type a)) (cm_args m)"

fun show_arg :: "(u32 \<Rightarrow> wstring) \<Rightarrow> clr_arg \<Rightarrow> wstring" where
  "show_arg nm (ClrArg r t) = show_type nm t @ (if r then WStr ''&'' else [])"

text \<open>Values that live in boxes when they are seen as objects.\<close>

fun boxed_type :: "clr_type \<Rightarrow> bool" where
  "boxed_type (Prim b) = (b \<noteq> ELEMENT_TYPE_STRING \<and> b \<noteq> ELEMENT_TYPE_OBJECT)"
| "boxed_type (Named vt tk) = vt"
| "boxed_type (SzArray t) = False"
| "boxed_type (Inst vt tk ts) = vt"
| "boxed_type (TVar n) = True"
| "boxed_type (MVar n) = True"

fun flags_of_arg :: "clr_arg \<Rightarrow> nat" where
  "flags_of_arg (ClrArg r t) = (if r then TypeFlagByRef else 0) + (if boxed_type t then TypeFlagBoxedType else 0)"

lemma encode_arg_head:
  assumes "wf_type (arg_type a)"
  shows "\<exists>b r. encode_arg a = b # r \<and> b \<noteq> ELEMENT_TYPE_VOID \<and> b \<noteq> ELEMENT_TYPE_TYPEDBYREF
    \<and> b \<noteq> ELEMENT_TYPE_CMOD_REQD \<and> b \<noteq> ELEMENT_TYPE_CMOD_OPT \<and> b \<noteq> ELEMENT_TYPE_SENTINEL"
  using encode_type_head [OF assms] by (cases a) auto

lemma ParseParam_fm_encode:
  assumes "wf_type (arg_type a)"
  shows "ParseParam_fm (encode_arg a @ q) = Inr q" "ParseRetType_fm (encode_arg a @ q) = Inr q"
  using assms encode_type_head [of "arg_type a"] ParseType_fm_encode [of "arg_type a" q]
  by (cases a; auto simp: ParseParam_fm_def ParseRetType_fm_def)+

lemma ParseRetType_fm_encode: "wf_ret r \<Longrightarrow> ParseRetType_fm (encode_ret r @ q) = Inr q"
  by (cases r) (auto simp: ParseParam_fm_encode, simp add: ParseRetType_fm_def)

lemma slice_between_signature:
  assumes "base = pre @ x @ y"
  shows "slice_between base (x @ y) y = \<lparr>arg_offset = length pre, arg_length = length x, arg_pbBase = base\<rparr>"
    and "GetSignature (slice_between base (x @ y) y) = x"
    and "arg_ptr (slice_between base (x @ y) y) = x @ y"
  using assms by (simp_all add: slice_between_def Let_def GetSignature_def arg_ptr_def)

text \<open>The slices of consecutive words.\<close>

fun slices :: "byte list \<Rightarrow> nat \<Rightarrow> byte list list \<Rightarrow> FunctionMethodArgument list" where
  "slices base off [] = []"
| "slices base off (w # ws) =
     \<lparr>arg_offset = off, arg_length = length w, arg_pbBase = base\<rparr> # slices base (off + length w) ws"

lemma TryParse_params_encode:
  assumes "base = pre @ concat (map encode_arg args) @ q" "list_all (\<lambda>a. wf_type (arg_type a)) args"
  shows "TryParse_params base (length args) s (concat (map encode_arg args) @ q)
    = Inr (slices base (length pre) (map encode_arg args))"
  using assms
proof (induction args arbitrary: pre s)
  case (Cons a args)
  let ?rest = "concat (map encode_arg args) @ q"
  have wf: "wf_type (arg_type a)" using Cons.prems(2) by simp
  obtain b r where h: "encode_arg a = b # r" "b \<noteq> ELEMENT_TYPE_SENTINEL"
    using encode_arg_head [OF wf] by blast
  have sl: "slice_between base (encode_arg a @ ?rest) ?rest
      = \<lparr>arg_offset = length pre, arg_length = length (encode_arg a), arg_pbBase = base\<rparr>"
    using Cons.prems(1) by (intro slice_between_signature(1)) simp
  have "TryParse_params base (length args) s ?rest
      = Inr (slices base (length (pre @ encode_arg a)) (map encode_arg args))"
    using Cons.prems by (intro Cons.IH) simp_all
  then show ?case
    using ParseParam_fm_encode(1) [OF wf, of ?rest] sl h by simp
qed simp

lemma TryParse_encode_raw:
  assumes "wf_method m"
  shows "\<exists>pre. TryParse (encode_method m @ extra) = Inr
    \<lparr>fms_pbBase = encode_method m @ extra, numberOfTypeArguments = cm_generic m,
     numberOfArguments = of_nat (length (cm_args m)),
     fms_ret = \<lparr>arg_offset = length pre, arg_length = length (encode_ret (cm_ret m)),
       arg_pbBase = encode_method m @ extra\<rparr>,
     fms_params = slices (encode_method m @ extra) (length pre + length (encode_ret (cm_ret m)))
       (map encode_arg (cm_args m))\<rparr>
    \<and> encode_method m = pre @ encode_ret (cm_ret m) @ concat (map encode_arg (cm_args m))"
proof -
  let ?g = "cm_conv m AND IMAGE_CEE_CS_CALLCONV_GENERIC \<noteq> 0"
  let ?args = "concat (map encode_arg (cm_args m))"
  let ?ret = "encode_ret (cm_ret m)"
  let ?n = "of_nat (length (cm_args m)) :: u32"
  let ?pre = "cm_conv m # (if ?g then encode_number (cm_generic m) else []) @ encode_number ?n"
  let ?base = "encode_method m @ extra"
  note wf = assms [unfolded wf_method_def]
  have base: "?base = ?pre @ ?ret @ ?args @ extra" "encode_method m = ?pre @ ?ret @ ?args"
    by (simp_all add: encode_method_def)
  have n: "unat ?n = length (cm_args m)" "?n \<le> 0x1FFFFFFF" using unat_length_u32 wf by auto
  have gen: "(if ?g then ParseNumber_fm ((if ?g then encode_number (cm_generic m) else []) @ r)
      else Inr (0, (if ?g then encode_number (cm_generic m) else []) @ r)) = Inr (cm_generic m, r)" for r
    using ParseNumber_fm_word [OF encode_number_word(1), of "cm_generic m"] wf by auto
  have cnt: "ParseNumber_fm (encode_number ?n @ r) = Inr (?n, r)" for r
    by (rule ParseNumber_fm_word [OF encode_number_word(1) [OF n(2)]])
  have ret: "ParseRetType_fm (?ret @ ?args @ extra) = Inr (?args @ extra)"
    using wf by (intro ParseRetType_fm_encode) simp
  have params: "TryParse_params ?base (unat ?n) False (?args @ extra)
      = Inr (slices ?base (length (?pre @ ?ret)) (map encode_arg (cm_args m)))"
    unfolding n(1) using wf base(1) by (intro TryParse_params_encode) simp_all
  have sl: "slice_between ?base (?ret @ ?args @ extra) (?args @ extra)
      = \<lparr>arg_offset = length ?pre, arg_length = length ?ret, arg_pbBase = ?base\<rparr>"
    using base(1) by (intro slice_between_signature(1)) simp
  have "TryParse ?base = Inr \<lparr>fms_pbBase = ?base, numberOfTypeArguments = cm_generic m, numberOfArguments = ?n,
     fms_ret = \<lparr>arg_offset = length ?pre, arg_length = length ?ret, arg_pbBase = ?base\<rparr>,
     fms_params = slices ?base (length ?pre + length ?ret) (map encode_arg (cm_args m))\<rparr>"
    unfolding TryParse_def
    by (subst (1) base(1)) (simp add: gen cnt ret params sl add.assoc del: unat_of_nat)
  then show ?thesis using base(2) by blast
qed


lemma slices_signatures:
  assumes "base = pre @ concat ws @ q"
  shows "map GetSignature (slices base (length pre) ws) = ws"
  using assms
proof (induction ws arbitrary: pre)
  case (Cons w ws)
  have "map GetSignature (slices base (length (pre @ w)) ws) = ws"
    using Cons.prems by (intro Cons.IH) simp
  moreover have "GetSignature \<lparr>arg_offset = length pre, arg_length = length w, arg_pbBase = base\<rparr> = w"
    using Cons.prems by (simp add: GetSignature_def arg_ptr_def)
  ultimately show ?case by simp
qed simp

lemma slices_arg_ptr:
  assumes "base = pre @ concat ws @ q" "i < length ws"
  shows "\<exists>r. arg_ptr (slices base (length pre) ws ! i) = ws ! i @ r"
  using assms
proof (induction ws arbitrary: pre i)
  case (Cons w ws)
  show ?case
  proof (cases i)
    case 0
    then show ?thesis using Cons.prems(1) by (auto simp: arg_ptr_def)
  next
    case (Suc j)
    have "\<exists>r. arg_ptr (slices base (length (pre @ w)) ws ! j) = ws ! j @ r"
      using Cons.prems Suc by (intro Cons.IH) simp_all
    then show ?thesis using Suc by simp
  qed
qed simp

lemma length_slices [simp]: "length (slices base off ws) = length ws"
  by (induction ws arbitrary: off) auto

lemma GetSigTypeTokName_arg:
  assumes "wf_type (arg_type a)"
  shows "GetSigTypeTokName nm (encode_arg a @ q) = Inr (show_arg nm a, q)"
proof -
  obtain r t where a: "a = ClrArg r t" by (cases a)
  have wf: "wf_type t" using assms a by simp
  obtain b u where h: "encode_type t = b # u" "b \<noteq> ELEMENT_TYPE_BYREF"
    using encode_type_head [OF wf] by blast
  show ?thesis
  proof (cases r)
    case False
    then show ?thesis
      using GetSigTypeTokName_fuel_encode [OF wf, of "Suc (length (encode_type t @ q))" nm q] a
      by (simp add: GetSigTypeTokName_def del: GetSigTypeTokName_fuel.simps)
  next
    case True
    \<comment> \<open>a reference reads the type in the same call, with the flag set\<close>
    let ?p = "encode_type t @ q"
    let ?g = "GetSigTypeTokName_fuel nm (length (encode_arg a @ q))"
    have body: "GetSigTypeTokName_body nm ?g (ELEMENT_TYPE_BYREF # ?p)
        = bindE (GetSigTypeTokName_body nm ?g ?p) (\<lambda>(n, p). Inr (n @ WStr ''&'', p))"
      using h by (auto simp: GetSigTypeTokName_body_def bindE_assoc Let_def split: prod.splits option.splits intro!: bindE_cong)
    have "GetSigTypeTokName_body nm ?g ?p = Inr (show_type nm t, q)"
      using GetSigTypeTokName_fuel_encode [OF wf, of "Suc (length (encode_arg a @ q))" nm q] a by simp
    then show ?thesis using body True a by (simp add: GetSigTypeTokName_def)
  qed
qed

lemma GetTypeFlags_type:
  assumes "wf_type t" "encode_type t = b # r"
  shows "if b \<in> set boxed_element_types then boxed_type t
    else if b = ELEMENT_TYPE_GENERICINST then (\<exists>c s. r = c # s \<and> (c = ELEMENT_TYPE_VALUETYPE \<longleftrightarrow> boxed_type t))
    else \<not> boxed_type t"
  using assms
  by (cases t) (auto simp: boxed_element_types_def supported_simple_types_def encode_named_def split: if_splits)

lemma GetTypeFlags_arg:
  assumes "wf_type (arg_type a)" "arg_ptr x = encode_arg a @ q"
  shows "\<exists>e. GetTypeFlags x = Inr (flags_of_arg a, e)"
proof -
  obtain r t where a: "a = ClrArg r t" by (cases a)
  obtain b u where h: "encode_type t = b # u" "b \<noteq> ELEMENT_TYPE_BYREF" "b \<noteq> ELEMENT_TYPE_VOID"
    using encode_type_head [of t] assms(1) a by auto
  show ?thesis
    using GetTypeFlags_type [OF _ h(1)] assms a h by (auto simp: GetTypeFlags_def split: if_splits)
qed

section \<open>Properties\<close>

text \<open>C36. The two number readers of the profiler agree: the one of \<open>clr_helpers.cpp\<close> accepts what
  the one of \<open>sig_helpers.cpp\<close>, built on \<open>CorSigUncompressData\<close>, accepts, with the same value
  and the same extent; and it never reads behind the end.\<close>

theorem ParseNumber_equivalence:
  "(ParseNumber_fm p = Inr r \<longleftrightarrow> ParseNumber p = Inr r) \<and> ParseNumber_fm p \<noteq> Inl Overread"
  using ParseNumber_fm_iff ParseNumber_fm_Inl by blast

text \<open>Parsing a method signature ends for every blob: the fuel is enough.\<close>

theorem TryParse_terminates: "TryParse base \<noteq> Inl OutOfFuel"
  by (rule TryParse_fueled)

text \<open>C34. On the encoding of a method whose types the parser supports, whatever bytes follow,
  TryParse succeeds with the counts of the method, and the slices it cuts are exactly the
  encodings of the return type and of each parameter, in order.\<close>

theorem TryParse_encode:
  assumes "wf_method m"
  shows "\<exists>s. TryParse (encode_method m @ extra) = Inr s
    \<and> numberOfTypeArguments s = cm_generic m \<and> unat (numberOfArguments s) = length (cm_args m)
    \<and> GetSignature (fms_ret s) = encode_ret (cm_ret m)
    \<and> map GetSignature (fms_params s) = map encode_arg (cm_args m)"
proof -
  let ?base = "encode_method m @ extra"
  obtain pre where s: "TryParse ?base = Inr
    \<lparr>fms_pbBase = ?base, numberOfTypeArguments = cm_generic m, numberOfArguments = of_nat (length (cm_args m)),
     fms_ret = \<lparr>arg_offset = length pre, arg_length = length (encode_ret (cm_ret m)), arg_pbBase = ?base\<rparr>,
     fms_params = slices ?base (length pre + length (encode_ret (cm_ret m))) (map encode_arg (cm_args m))\<rparr>"
    and base: "encode_method m = pre @ encode_ret (cm_ret m) @ concat (map encode_arg (cm_args m))"
    using TryParse_encode_raw [OF assms] by blast
  have "map GetSignature (slices ?base (length (pre @ encode_ret (cm_ret m))) (map encode_arg (cm_args m)))
      = map encode_arg (cm_args m)"
    by (rule slices_signatures [where q = extra]) (simp add: base)
  moreover have "unat (of_nat (length (cm_args m)) :: u32) = length (cm_args m)"
    using assms unat_length_u32 by (simp add: wf_method_def)
  ultimately show ?thesis using s by (simp add: GetSignature_def arg_ptr_def base)
qed

definition demo_method :: clr_method where
  "demo_method = \<lparr>cm_conv = 0x30, cm_generic = 1, cm_ret = RetArg (ClrArg False (Inst False 0x01000005 [MVar 0])),
     cm_args = [ClrArg True (Prim ELEMENT_TYPE_I4), ClrArg False (SzArray (Prim ELEMENT_TYPE_STRING))]\<rparr>"

lemma demo_method_wf: "wf_method demo_method"
  by (simp add: wf_method_def demo_method_def type_token_def TypeFromToken_def mdtTypeRef_def supported_simple_types_def)

theorem TryParse_encode_witness:
  "\<exists>s. TryParse (encode_method demo_method @ [7]) = Inr s
    \<and> numberOfTypeArguments s = cm_generic demo_method \<and> unat (numberOfArguments s) = length (cm_args demo_method)
    \<and> GetSignature (fms_ret s) = encode_ret (cm_ret demo_method)
    \<and> map GetSignature (fms_params s) = map encode_arg (cm_args demo_method)"
  by (rule TryParse_encode [OF demo_method_wf])

text \<open>C35. For every parameter of such a method the profiler computes the name of its type and its
  flags: by reference, and boxed when it is a value type or a type variable.\<close>

theorem TryParse_arguments:
  assumes "wf_method m" "TryParse (encode_method m @ extra) = Inr s" "i < length (cm_args m)"
  shows "GetTypeTokName nm (fms_params s ! i) = Inr (show_arg nm (cm_args m ! i))
    \<and> (\<exists>e. GetTypeFlags (fms_params s ! i) = Inr (flags_of_arg (cm_args m ! i), e))"
proof -
  let ?base = "encode_method m @ extra" and ?ws = "map encode_arg (cm_args m)"
  obtain pre where p: "fms_params s = slices ?base (length (pre @ encode_ret (cm_ret m))) ?ws"
    and base: "encode_method m = pre @ encode_ret (cm_ret m) @ concat ?ws"
    using TryParse_encode_raw [OF assms(1), of extra] assms(2) by auto
  have "\<exists>r. arg_ptr (slices ?base (length (pre @ encode_ret (cm_ret m))) ?ws ! i) = ?ws ! i @ r"
    using assms(3) by (intro slices_arg_ptr [where q = extra]) (simp_all add: base)
  then obtain r where r: "arg_ptr (fms_params s ! i) = encode_arg (cm_args m ! i) @ r"
    using p assms(3) by auto
  moreover have "wf_type (arg_type (cm_args m ! i))"
    using assms(1,3) by (auto simp: wf_method_def list_all_iff)
  ultimately show ?thesis
    using GetSigTypeTokName_arg [of "cm_args m ! i" nm r] GetTypeFlags_arg [of "cm_args m ! i" _ r]
    by (simp add: GetTypeTokName_def)
qed

theorem TryParse_arguments_witness:
  "\<exists>s. TryParse (encode_method demo_method @ []) = Inr s
    \<and> GetTypeTokName (\<lambda>_. []) (fms_params s ! 0) = Inr (WStr ''System.Int32&'')
    \<and> (\<exists>e. GetTypeFlags (fms_params s ! 0) = Inr (5, e))"
proof -
  obtain s where s: "TryParse (encode_method demo_method @ []) = Inr s"
    using TryParse_encode_raw [OF demo_method_wf, of "[]"] by blast
  from TryParse_arguments [OF demo_method_wf s, of 0 "\<lambda>_. []"] have
    "GetTypeTokName (\<lambda>_. []) (fms_params s ! 0) = Inr (show_arg (\<lambda>_. []) (cm_args demo_method ! 0))
      \<and> (\<exists>e. GetTypeFlags (fms_params s ! 0) = Inr (flags_of_arg (cm_args demo_method ! 0), e))"
    by (simp add: demo_method_def)
  then show ?thesis
    using s by (intro exI [of _ s]) (simp add: demo_method_def system_type_name_def WStr_def)
qed

text \<open>The parser has no default case: a byte that is no element type is taken for a type.\<close>

theorem ParseType_fm_accepts_unknown: "ParseType_fm [0x77] = Inr []"
  by (simp add: ParseType_fm_def ParseType_fm_body_def supported_simple_types_def)

text \<open>Before it compares the pointer with the end of the blob, the parser reads the byte there.\<close>

theorem TryParse_overread: "TryParse [0x00, 0x00] = Inl Overread"
  by (simp add: TryParse_def ParseNumber_fm_def ParseRetType_fm_def rd_def)

text \<open>The comparison of signatures answers \<open>false\<close> for equal ones.\<close>

theorem FunctionMethodSignature_eq_inverted: "FunctionMethodSignature_eq s s = Inr False"
  by (simp add: FunctionMethodSignature_eq_def)

end
