(* ===== verification/CallTargetTokens.thy ===== *)
theory CallTargetTokens
  imports ClrSig IntegrationFilter ILRewriterWrapper
begin

text \<open>
  The metadata references of call-target instrumentation (\<open>calltarget_tokens.h\<close>,
  \<open>calltarget_tokens.cpp\<close>): tokens that are defined in the module's metadata on first use, the
  signatures they need, the locals added to a method, and the calls emitted for them.

  The metadata interfaces of the CLR are parameters over a state of their own. Each call
  returns an \<open>HRESULT\<close> and, if it writes to its out parameter, the value written. Signatures
  are written to a buffer of 500 bytes on the stack: writing more is \<open>BadAccess\<close>.
\<close>

section \<open>Results and tokens\<close>

type_synonym HRESULT = u32

definition FAILED :: "HRESULT \<Rightarrow> bool" where
  "FAILED hr \<longleftrightarrow> bit hr 31"

abbreviation (input) S_OK :: HRESULT where "S_OK \<equiv> 0"
abbreviation (input) E_FAIL_code :: HRESULT where "E_FAIL_code \<equiv> 0x80004005"
abbreviation (input) mdTokenNil :: u32 where "mdTokenNil \<equiv> 0"
abbreviation (input) mdTypeRefNil :: u32 where "mdTypeRefNil \<equiv> 0x01000000"
abbreviation (input) mdMemberRefNil :: u32 where "mdMemberRefNil \<equiv> 0x0A000000"
abbreviation (input) mdTypeSpecNil :: u32 where "mdTypeSpecNil \<equiv> 0x1B000000"
abbreviation (input) mdMethodSpecNil :: u32 where "mdMethodSpecNil \<equiv> 0x2B000000"

abbreviation (input) CALLCONV_DEFAULT :: byte where "CALLCONV_DEFAULT \<equiv> 0x00"
abbreviation (input) CALLCONV_GENERIC :: byte where "CALLCONV_GENERIC \<equiv> 0x10"
abbreviation (input) CALLCONV_GENERICINST :: byte where "CALLCONV_GENERICINST \<equiv> 0x0A"
abbreviation (input) CALLCONV_LOCAL_SIG :: byte where "CALLCONV_LOCAL_SIG \<equiv> 0x07"
abbreviation (input) CALLCONV_HASTHIS :: byte where "CALLCONV_HASTHIS \<equiv> 0x20"

abbreviation (input) FASTPATH_COUNT :: nat where "FASTPATH_COUNT \<equiv> 9"
abbreviation (input) signatureBufferSize :: nat where "signatureBufferSize \<equiv> 500"

record CallTargetTokens =
  corLibAssemblyRef :: u32
  objectTypeRef :: u32
  exTypeRef :: u32
  typeRef :: u32
  runtimeTypeHandleRef :: u32
  getTypeFromHandleToken :: u32
  runtimeMethodHandleRef :: u32
  profilerAssemblyRef :: u32
  callTargetTypeRef :: u32
  callTargetStateTypeRef :: u32
  callTargetReturnVoidTypeRef :: u32
  callTargetReturnTypeRef :: u32
  beginArrayMemberRef :: u32
  beginMethodFastPathRefs :: "u32 list"
  endVoidMemberRef :: u32
  logExceptionRef :: u32
  callTargetStateTypeGetDefault :: u32
  callTargetReturnVoidTypeGetDefault :: u32
  getDefaultMemberRef :: u32

definition CallTargetTokens_new :: CallTargetTokens where
  "CallTargetTokens_new = \<lparr>
     corLibAssemblyRef = mdAssemblyRefNil, objectTypeRef = mdTypeRefNil, exTypeRef = mdTypeRefNil,
     typeRef = mdTypeRefNil, runtimeTypeHandleRef = mdTypeRefNil, getTypeFromHandleToken = mdTokenNil,
     runtimeMethodHandleRef = mdTypeRefNil, profilerAssemblyRef = mdAssemblyRefNil,
     callTargetTypeRef = mdTypeRefNil, callTargetStateTypeRef = mdTypeRefNil,
     callTargetReturnVoidTypeRef = mdTypeRefNil, callTargetReturnTypeRef = mdTypeRefNil,
     beginArrayMemberRef = mdMemberRefNil, beginMethodFastPathRefs = replicate FASTPATH_COUNT mdMemberRefNil,
     endVoidMemberRef = mdMemberRefNil, logExceptionRef = mdMemberRefNil,
     callTargetStateTypeGetDefault = mdMemberRefNil, callTargetReturnVoidTypeGetDefault = mdMemberRefNil,
     getDefaultMemberRef = mdMemberRefNil\<rparr>"

section \<open>The CLR and the state\<close>

text \<open>What is passed to \<open>DefineAssemblyRef\<close>: the public key, the name, the version and locale of
  the metadata, the hash value and the flags.\<close>

record AssemblyRefRequest =
  ar_public_key :: "byte list"
  ar_name :: wstring
  ar_version :: Version
  ar_locale :: wstring
  ar_hash :: "byte list"
  ar_flags :: u32

text \<open>The properties of the core library, which \<open>ModuleLoadFinished\<close> reads when it is loaded.\<close>

record AssemblyProperty =
  cor_public_key :: "byte list"
  cor_hash_alg :: u32
  cor_version :: Version
  cor_locale :: wstring
  cor_name :: wstring
  cor_flags :: u32

type_synonym 'm emit_call = "'m \<Rightarrow> (HRESULT \<times> u32 option) \<times> 'm"

record 'm clr =
  clr_DefineAssemblyRef :: "AssemblyRefRequest \<Rightarrow> 'm emit_call"
  clr_DefineTypeRefByName :: "u32 \<Rightarrow> wstring \<Rightarrow> 'm emit_call"
  clr_DefineMemberRef :: "u32 \<Rightarrow> wstring \<Rightarrow> byte list \<Rightarrow> 'm emit_call"
  clr_DefineMethodSpec :: "u32 \<Rightarrow> byte list \<Rightarrow> 'm emit_call"
  clr_GetTokenFromTypeSpec :: "byte list \<Rightarrow> 'm emit_call"
  clr_GetTokenFromSig :: "byte list \<Rightarrow> 'm emit_call"
  clr_GetSigFromToken :: "u32 \<Rightarrow> 'm \<Rightarrow> HRESULT \<times> byte list"
  clr_GetTypeSpecFromToken :: "u32 \<Rightarrow> 'm \<Rightarrow> HRESULT \<times> byte list"
  platform_parse :: "wstring \<Rightarrow> AssemblyReference"

record 'm ct_state =
  ct_tokens :: CallTargetTokens
  ct_cor :: AssemblyProperty
  ct_meta :: 'm
  ct_wrapper :: ILRewriterWrapper

type_synonym ('a, 'm) ct = "'m ct_state \<Rightarrow> hr + ('a \<times> 'm ct_state)"

definition ret :: "'a \<Rightarrow> ('a, 'm) ct" where
  "ret x = (\<lambda>s. Inr (x, s))"

definition bindS :: "('a, 'm) ct \<Rightarrow> ('a \<Rightarrow> ('b, 'm) ct) \<Rightarrow> ('b, 'm) ct" where
  "bindS f g = (\<lambda>s. bindE (f s) (\<lambda>(x, s). g x s))"

definition lift :: "hr + 'a \<Rightarrow> ('a, 'm) ct" where
  "lift r = (\<lambda>s. bindE r (\<lambda>x. Inr (x, s)))"

definition token :: "(CallTargetTokens \<Rightarrow> 'a) \<Rightarrow> ('a, 'm) ct" where
  "token get = (\<lambda>s. Inr (get (ct_tokens s), s))"

text \<open>A call that writes its out parameter to a member.\<close>

definition emit_call :: "'m emit_call \<Rightarrow> (HRESULT \<times> u32 option, 'm) ct" where
  "emit_call f = (\<lambda>s. let (r, m) = f (ct_meta s) in Inr (r, s\<lparr>ct_meta := m\<rparr>))"

definition store :: "(u32 \<Rightarrow> CallTargetTokens \<Rightarrow> CallTargetTokens) \<Rightarrow> u32 option \<Rightarrow> (unit, 'm) ct" where
  "store put out = (\<lambda>s. Inr ((), case out of None \<Rightarrow> s | Some v \<Rightarrow> s\<lparr>ct_tokens := put v (ct_tokens s)\<rparr>))"

text \<open>\<open>if (member == nil) { hr = ...(&member); if (FAILED(hr)) return hr; }\<close>, and \<open>or_return\<close> for
  what follows.\<close>

definition ensure :: "(CallTargetTokens \<Rightarrow> u32) \<Rightarrow> (u32 \<Rightarrow> CallTargetTokens \<Rightarrow> CallTargetTokens) \<Rightarrow> u32
    \<Rightarrow> (HRESULT \<times> u32 option, 'm) ct \<Rightarrow> (HRESULT, 'm) ct" where
  "ensure get put nil call = (\<lambda>s.
     if get (ct_tokens s) = nil then
       bindS call (\<lambda>(hr, out). bindS (store put out) (\<lambda>_. ret (if FAILED hr then hr else S_OK))) s
     else ret S_OK s)"

definition or_return :: "(HRESULT, 'm) ct \<Rightarrow> (HRESULT, 'm) ct \<Rightarrow> (HRESULT, 'm) ct" where
  "or_return f g = bindS f (\<lambda>hr. if FAILED hr then ret hr else g)"

text \<open>\<open>CorSigCompressToken\<close> into a local, and a signature of which the first \<open>signatureLength\<close>
  bytes are passed on after \<open>written\<close> has been written to the buffer.\<close>

definition compress :: "u32 \<Rightarrow> (byte list, 'm) ct" where
  "compress tk = lift (case CorSigCompressToken tk of None \<Rightarrow> Inl BadAccess | Some bs \<Rightarrow> Inr bs)"

definition signature_arg :: "nat \<Rightarrow> byte list \<Rightarrow> (byte list, 'm) ct" where
  "signature_arg signatureLength written = lift
     (if length written > signatureBufferSize \<or> signatureLength > length written then Inl BadAccess
      else Inr (take signatureLength written))"

section \<open>The core library\<close>

definition SystemObject :: wstring where "SystemObject = WStr ''System.Object''"
definition SystemException :: wstring where "SystemException = WStr ''System.Exception''"
definition SystemTypeName :: wstring where "SystemTypeName = WStr ''System.Type''"
definition RuntimeTypeHandleTypeName :: wstring where "RuntimeTypeHandleTypeName = WStr ''System.RuntimeTypeHandle''"
definition RuntimeMethodHandleTypeName :: wstring where "RuntimeMethodHandleTypeName = WStr ''System.RuntimeMethodHandle''"
definition GetTypeFromHandleMethodName :: wstring where "GetTypeFromHandleMethodName = WStr ''GetTypeFromHandle''"

definition ensure_type :: "'m clr \<Rightarrow> (CallTargetTokens \<Rightarrow> u32) \<Rightarrow> (CallTargetTokens \<Rightarrow> u32)
    \<Rightarrow> (u32 \<Rightarrow> CallTargetTokens \<Rightarrow> CallTargetTokens) \<Rightarrow> wstring \<Rightarrow> (HRESULT, 'm) ct" where
  "ensure_type env scope get put nm =
     ensure get put mdTypeRefNil (bindS (token scope) (\<lambda>sc. emit_call (clr_DefineTypeRefByName env sc nm)))"

definition EnsureGetTypeFromHandle :: "'m clr \<Rightarrow> (HRESULT, 'm) ct" where
  "EnsureGetTypeFromHandle env =
     ensure getTypeFromHandleToken (\<lambda>v t. t\<lparr>getTypeFromHandleToken := v\<rparr>) mdTokenNil
       (bindS (token runtimeTypeHandleRef) (\<lambda>handle_ref. bindS (compress handle_ref) (\<lambda>runtimeTypeHandle_buffer.
        bindS (token typeRef) (\<lambda>type_ref. bindS (compress type_ref) (\<lambda>type_buffer.
        let signature = [CALLCONV_DEFAULT, 0x01, ELEMENT_TYPE_CLASS] @ type_buffer
              @ [ELEMENT_TYPE_VALUETYPE] @ runtimeTypeHandle_buffer
        in bindS (signature_arg (length signature) signature) (\<lambda>sig.
           emit_call (clr_DefineMemberRef env type_ref GetTypeFromHandleMethodName sig)))))))"

definition EnsureCorLibTypes :: "'m clr \<Rightarrow> (HRESULT, 'm) ct" where
  "EnsureCorLibTypes env =
     or_return (ensure_type env corLibAssemblyRef objectTypeRef (\<lambda>v t. t\<lparr>objectTypeRef := v\<rparr>) SystemObject)
    (or_return (ensure_type env corLibAssemblyRef exTypeRef (\<lambda>v t. t\<lparr>exTypeRef := v\<rparr>) SystemException)
    (or_return (ensure_type env corLibAssemblyRef typeRef (\<lambda>v t. t\<lparr>typeRef := v\<rparr>) SystemTypeName)
    (or_return (ensure_type env corLibAssemblyRef runtimeTypeHandleRef (\<lambda>v t. t\<lparr>runtimeTypeHandleRef := v\<rparr>)
        RuntimeTypeHandleTypeName)
    (or_return (EnsureGetTypeFromHandle env)
    (or_return (ensure_type env corLibAssemblyRef runtimeMethodHandleRef (\<lambda>v t. t\<lparr>runtimeMethodHandleRef := v\<rparr>)
        RuntimeMethodHandleTypeName)
       (ret S_OK))))))"

definition cor_request :: "AssemblyProperty \<Rightarrow> AssemblyRefRequest" where
  "cor_request p = \<lparr>ar_public_key = cor_public_key p, ar_name = cor_name p, ar_version = cor_version p,
     ar_locale = cor_locale p, ar_hash = le_bytes 4 (cor_hash_alg p), ar_flags = cor_flags p\<rparr>"

text \<open>For the core library the test after the call is whether the token is still nil, not
  whether the call failed.\<close>

definition EnsureCorLibTokens :: "'m clr \<Rightarrow> (HRESULT, 'm) ct" where
  "EnsureCorLibTokens env = (\<lambda>s.
     if corLibAssemblyRef (ct_tokens s) = mdAssemblyRefNil then
       bindS (emit_call (clr_DefineAssemblyRef env (cor_request (ct_cor s)))) (\<lambda>(hr, out).
       bindS (store (\<lambda>v t. t\<lparr>corLibAssemblyRef := v\<rparr>) out) (\<lambda>_.
       bindS (token corLibAssemblyRef) (\<lambda>r.
         if r = mdAssemblyRefNil then ret hr else EnsureCorLibTypes env))) s
     else EnsureCorLibTypes env s)"

section \<open>The managed profiler\<close>

definition managed_profiler_full_assembly_version :: wstring where
  "managed_profiler_full_assembly_version =
     WStr ''Datadog.Trace.ClrProfiler.Managed, Version=1.28.1.0, Culture=neutral, PublicKeyToken=def86d061d0d2eeb''"

definition managed_profiler_calltarget_type :: wstring where
  "managed_profiler_calltarget_type = WStr ''Datadog.Trace.ClrProfiler.CallTarget.CallTargetInvoker''"
definition managed_profiler_calltarget_beginmethod_name :: wstring where
  "managed_profiler_calltarget_beginmethod_name = WStr ''BeginMethod''"
definition managed_profiler_calltarget_endmethod_name :: wstring where
  "managed_profiler_calltarget_endmethod_name = WStr ''EndMethod''"
definition managed_profiler_calltarget_logexception_name :: wstring where
  "managed_profiler_calltarget_logexception_name = WStr ''LogException''"
definition managed_profiler_calltarget_getdefaultvalue_name :: wstring where
  "managed_profiler_calltarget_getdefaultvalue_name = WStr ''GetDefaultValue''"
definition managed_profiler_calltarget_statetype :: wstring where
  "managed_profiler_calltarget_statetype = WStr ''Datadog.Trace.ClrProfiler.CallTarget.CallTargetState''"
definition managed_profiler_calltarget_statetype_getdefault_name :: wstring where
  "managed_profiler_calltarget_statetype_getdefault_name = WStr ''GetDefault''"
definition managed_profiler_calltarget_returntype :: wstring where
  "managed_profiler_calltarget_returntype = WStr ''Datadog.Trace.ClrProfiler.CallTarget.CallTargetReturn''"
definition managed_profiler_calltarget_returntype_getdefault_name :: wstring where
  "managed_profiler_calltarget_returntype_getdefault_name = WStr ''GetDefault''"
definition managed_profiler_calltarget_returntype_generics :: wstring where
  "managed_profiler_calltarget_returntype_generics = WStr ''Datadog.Trace.ClrProfiler.CallTarget.CallTargetReturn`1''"
definition managed_profiler_calltarget_returntype_getreturnvalue_name :: wstring where
  "managed_profiler_calltarget_returntype_getreturnvalue_name = WStr ''GetReturnValue''"

text \<open>A key of zeros is passed as no key.\<close>

definition profiler_request :: "AssemblyReference \<Rightarrow> AssemblyRefRequest" where
  "profiler_request r =
     (let locale = (if locale_name r = WStr ''neutral'' then [] else locale_name r);
          public_key_size = (if PublicKey_eq (public_key r) PublicKey_zero then 0 else 8)
      in \<lparr>ar_public_key = take public_key_size (public_key r), ar_name = name r, ar_version = version r,
          ar_locale = locale, ar_hash = [], ar_flags = 0\<rparr>)"

definition EnsureStateGetDefault :: "'m clr \<Rightarrow> (HRESULT, 'm) ct" where
  "EnsureStateGetDefault env =
     ensure callTargetStateTypeGetDefault (\<lambda>v t. t\<lparr>callTargetStateTypeGetDefault := v\<rparr>) mdMemberRefNil
       (bindS (token callTargetStateTypeRef) (\<lambda>state_ref. bindS (compress state_ref) (\<lambda>callTargetStateTypeBuffer.
        let signatureLength = 3 + length callTargetStateTypeBuffer;
            signature = [CALLCONV_DEFAULT, 0x00, ELEMENT_TYPE_VALUETYPE] @ callTargetStateTypeBuffer
        in bindS (signature_arg signatureLength signature) (\<lambda>sig.
           emit_call (clr_DefineMemberRef env state_ref managed_profiler_calltarget_statetype_getdefault_name sig)))))"

definition EnsureBaseCalltargetTokens :: "'m clr \<Rightarrow> (HRESULT, 'm) ct" where
  "EnsureBaseCalltargetTokens env =
     or_return (EnsureCorLibTokens env)
    (or_return (ensure profilerAssemblyRef (\<lambda>v t. t\<lparr>profilerAssemblyRef := v\<rparr>) mdAssemblyRefNil
        (emit_call (clr_DefineAssemblyRef env
          (profiler_request (platform_parse env managed_profiler_full_assembly_version)))))
    (or_return (ensure_type env profilerAssemblyRef callTargetTypeRef (\<lambda>v t. t\<lparr>callTargetTypeRef := v\<rparr>)
        managed_profiler_calltarget_type)
    (or_return (ensure_type env profilerAssemblyRef callTargetStateTypeRef (\<lambda>v t. t\<lparr>callTargetStateTypeRef := v\<rparr>)
        managed_profiler_calltarget_statetype)
    (or_return (EnsureStateGetDefault env)
       (ret S_OK)))))"

section \<open>Types and default values\<close>

definition GetTargetStateTypeRef :: "'m clr \<Rightarrow> (u32, 'm) ct" where
  "GetTargetStateTypeRef env = bindS (EnsureBaseCalltargetTokens env) (\<lambda>hr.
     if FAILED hr then ret mdTypeRefNil else token callTargetStateTypeRef)"

definition GetTargetVoidReturnTypeRef :: "'m clr \<Rightarrow> (u32, 'm) ct" where
  "GetTargetVoidReturnTypeRef env = bindS (EnsureBaseCalltargetTokens env) (\<lambda>hr.
     if FAILED hr then ret mdTypeRefNil
     else bindS (ensure_type env profilerAssemblyRef callTargetReturnVoidTypeRef
         (\<lambda>v t. t\<lparr>callTargetReturnVoidTypeRef := v\<rparr>) managed_profiler_calltarget_returntype) (\<lambda>hr.
       if FAILED hr then ret mdTypeRefNil else token callTargetReturnVoidTypeRef))"

definition GetTargetReturnValueTypeRef :: "'m clr \<Rightarrow> FunctionMethodArgument \<Rightarrow> (u32, 'm) ct" where
  "GetTargetReturnValueTypeRef env returnArgument = bindS (EnsureBaseCalltargetTokens env) (\<lambda>hr.
     if FAILED hr then ret mdTypeSpecNil
     else bindS (ensure_type env profilerAssemblyRef callTargetReturnTypeRef
         (\<lambda>v t. t\<lparr>callTargetReturnTypeRef := v\<rparr>) managed_profiler_calltarget_returntype_generics) (\<lambda>hr.
       if FAILED hr then ret mdTypeSpecNil
       else
         let returnSignatureBuffer = GetSignature returnArgument
         in bindS (token callTargetReturnTypeRef) (\<lambda>return_ref. bindS (compress return_ref) (\<lambda>ref_buffer.
         let signatureLength = 3 + length ref_buffer + length returnSignatureBuffer;
             signature = [ELEMENT_TYPE_GENERICINST, ELEMENT_TYPE_VALUETYPE] @ ref_buffer
               @ [0x01] @ returnSignatureBuffer
         in bindS (signature_arg signatureLength signature) (\<lambda>sig.
            bindS (emit_call (clr_GetTokenFromTypeSpec env sig)) (\<lambda>(hr, out).
              ret (if FAILED hr then mdTypeSpecNil else case out of None \<Rightarrow> mdTypeSpecNil | Some v \<Rightarrow> v)))))))"

definition GetCallTargetStateDefaultMemberRef :: "'m clr \<Rightarrow> (u32, 'm) ct" where
  "GetCallTargetStateDefaultMemberRef env = bindS (EnsureBaseCalltargetTokens env) (\<lambda>hr.
     if FAILED hr then ret mdMemberRefNil else token callTargetStateTypeGetDefault)"

definition GetCallTargetReturnVoidDefaultMemberRef :: "'m clr \<Rightarrow> (u32, 'm) ct" where
  "GetCallTargetReturnVoidDefaultMemberRef env = bindS (EnsureBaseCalltargetTokens env) (\<lambda>hr.
     if FAILED hr then ret mdMemberRefNil
     else bindS (ensure callTargetReturnVoidTypeGetDefault
         (\<lambda>v t. t\<lparr>callTargetReturnVoidTypeGetDefault := v\<rparr>) mdMemberRefNil
         (bindS (token callTargetReturnVoidTypeRef) (\<lambda>void_ref. bindS (compress void_ref) (\<lambda>void_buffer.
          let signatureLength = 3 + length void_buffer;
              signature = [CALLCONV_DEFAULT, 0x00, ELEMENT_TYPE_VALUETYPE] @ void_buffer
          in bindS (signature_arg signatureLength signature) (\<lambda>sig.
             emit_call (clr_DefineMemberRef env void_ref
               managed_profiler_calltarget_returntype_getdefault_name sig)))))) (\<lambda>hr.
       if FAILED hr then ret mdMemberRefNil else token callTargetReturnVoidTypeGetDefault))"

definition GetCallTargetReturnValueDefaultMemberRef :: "'m clr \<Rightarrow> u32 \<Rightarrow> (u32, 'm) ct" where
  "GetCallTargetReturnValueDefaultMemberRef env callTargetReturnTypeSpec =
     bindS (EnsureBaseCalltargetTokens env) (\<lambda>hr.
     if FAILED hr then ret mdMemberRefNil
     else bindS (token callTargetReturnTypeRef) (\<lambda>return_ref.
       if return_ref = mdTypeRefNil then ret mdMemberRefNil
       else bindS (compress return_ref) (\<lambda>ref_buffer.
         let signatureLength = 7 + length ref_buffer;
             signature = [CALLCONV_DEFAULT, 0x00, ELEMENT_TYPE_GENERICINST, ELEMENT_TYPE_VALUETYPE] @ ref_buffer
               @ [0x01, ELEMENT_TYPE_VAR, 0x00]
         in bindS (signature_arg signatureLength signature) (\<lambda>sig.
            bindS (emit_call (clr_DefineMemberRef env callTargetReturnTypeSpec
                managed_profiler_calltarget_returntype_getdefault_name sig)) (\<lambda>(hr, out).
              ret (if FAILED hr then mdMemberRefNil else case out of None \<Rightarrow> mdMemberRefNil | Some v \<Rightarrow> v))))))"

text \<open>When the member reference cannot be defined, the code returns the \<open>HRESULT\<close> as the token.\<close>

definition GetCallTargetDefaultValueMethodSpec :: "'m clr \<Rightarrow> FunctionMethodArgument \<Rightarrow> (u32, 'm) ct" where
  "GetCallTargetDefaultValueMethodSpec env methodArgument = bindS (EnsureBaseCalltargetTokens env) (\<lambda>hr.
     if FAILED hr then ret mdMethodSpecNil
     else bindS (ensure getDefaultMemberRef (\<lambda>v t. t\<lparr>getDefaultMemberRef := v\<rparr>) mdMemberRefNil
         (let signatureLength = 5;
              signature = [CALLCONV_GENERIC, 0x01, 0x00, ELEMENT_TYPE_MVAR, 0x00]
          in bindS (signature_arg signatureLength signature) (\<lambda>sig.
             bindS (token callTargetTypeRef) (\<lambda>type_ref.
             emit_call (clr_DefineMemberRef env type_ref managed_profiler_calltarget_getdefaultvalue_name sig))))) (\<lambda>hr.
       if FAILED hr then ret hr
       else
         let methodArgumentSignature = GetSignature methodArgument;
             signatureLength = 2 + length methodArgumentSignature;
             signature = [CALLCONV_GENERICINST, 0x01] @ methodArgumentSignature
         in bindS (signature_arg signatureLength signature) (\<lambda>sig.
            bindS (token getDefaultMemberRef) (\<lambda>member_ref.
            bindS (emit_call (clr_DefineMethodSpec env member_ref sig)) (\<lambda>(hr, out).
              ret (if FAILED hr then mdMethodSpecNil else case out of None \<Rightarrow> mdMethodSpecNil | Some v \<Rightarrow> v))))))"

section \<open>The type of the instrumented method\<close>

datatype TypeInfo = TypeInfo (ti_id: u32) (ti_name: wstring) (ti_type_spec: u32) (ti_token_type: u32)
  (ti_extend_from: "TypeInfo option") (ti_valueType: bool) (ti_isGeneric: bool) (ti_parent_type: "TypeInfo option")

text \<open>The loop over the declaring types: \<open>None\<close> when a generic one stops it.\<close>

primrec declaring_type_loop :: "TypeInfo \<Rightarrow> u32 option" where
  "declaring_type_loop (TypeInfo i nm spec ty ext vt gen parent) =
     (if gen then None
      else case map_option declaring_type_loop parent of None \<Rightarrow> Some i | Some r \<Rightarrow> r)"

definition GetCurrentTypeRef :: "TypeInfo \<Rightarrow> bool \<Rightarrow> (u32 \<times> bool, 'm) ct" where
  "GetCurrentTypeRef currentType isValueType =
     (if ti_type_spec currentType \<noteq> mdTypeSpecNil then ret (ti_type_spec currentType, isValueType)
      else case declaring_type_loop currentType of
        Some i \<Rightarrow> ret (i, isValueType)
      | None \<Rightarrow> bindS (token objectTypeRef) (\<lambda>r. ret (r, False)))"

section \<open>The locals\<close>

record LocalSigResult =
  callTargetStateIndex :: u32
  exceptionIndex :: u32
  callTargetReturnIndex :: u32
  returnValueIndex :: u32
  callTargetStateToken :: u32
  exceptionToken :: u32
  callTargetReturnToken :: u32

text \<open>The test whether the last local is the call-target state already; sizes are \<open>ULONG\<close>s, so a
  signature shorter than the token makes the index wrap around.\<close>

definition already_modified :: "byte list \<Rightarrow> byte list \<Rightarrow> hr + bool" where
  "already_modified originalSignature state_token =
     (let size = length originalSignature; len = length state_token
      in if size = len then Inr False
         else if size < len then Inl BadAccess
         else if originalSignature ! (size - len - 1) = ELEMENT_TYPE_VALUETYPE
         then Inr (drop (size - len) originalSignature = state_token)
         else Inr False)"

text \<open>The new signature: the header, the new count, the old locals, and the added ones. The
  declared size follows the sizes of the parts.\<close>

definition new_locals_signature :: "byte list \<Rightarrow> u32 \<Rightarrow> byte list \<Rightarrow> hr + (nat \<times> byte list \<times> u32)" where
  "new_locals_signature originalSignature added added_locals =
     (let originalSignatureSize = length originalSignature
      in if originalSignatureSize = 0 then
           (case CorSigCompressData added of
              None \<Rightarrow> Inl BadAccess
            | Some newLocals \<Rightarrow>
                Inr (length added_locals + 2, [CALLCONV_LOCAL_SIG] @ newLocals @ added_locals, added))
         else
           bindE (case CorSigUncompressData (drop 1 originalSignature) of
                    Inl _ \<Rightarrow> Inl BadAccess
                  | Inr r \<Rightarrow> Inr r) (\<lambda>(oldLocalsLen, oldLocals).
           let newLocalsCount = added + oldLocals
           in case CorSigCompressData newLocalsCount of
                None \<Rightarrow> Inl BadAccess
              | Some newLocals \<Rightarrow>
                  if oldLocalsLen = ULONG_MAX \<or> originalSignatureSize < 1 + unat oldLocalsLen then Inl BadAccess
                  else Inr (originalSignatureSize + length added_locals + length newLocals - unat oldLocalsLen,
                    [CALLCONV_LOCAL_SIG] @ newLocals @ drop (1 + unat oldLocalsLen) originalSignature @ added_locals,
                    newLocalsCount)))"

text \<open>The signature of the locals the method has, and whether it has been rewritten before.\<close>

definition original_locals :: "'m clr \<Rightarrow> byte list \<Rightarrow> (HRESULT \<times> byte list \<times> bool, 'm) ct" where
  "original_locals env state_buffer =
     bindS (\<lambda>s. Inr (GetTkLocalVarSig (GetILRewriter (ct_wrapper s)), s)) (\<lambda>localVarSig.
     if localVarSig = mdTokenNil then ret (S_OK, [], False)
     else bindS (\<lambda>s. Inr (clr_GetSigFromToken env localVarSig (ct_meta s), s)) (\<lambda>(hr, originalSignature).
       if FAILED hr then ret (hr, [], False)
       else bindS (lift (already_modified originalSignature state_buffer)) (\<lambda>modified.
         ret (hr, originalSignature, modified))))"

text \<open>The token and the signature of the local for the call-target return, the signature of the
  local for the value (empty for a method without one), and the number of new locals.\<close>

definition return_locals :: "'m clr \<Rightarrow> FunctionMethodArgument \<Rightarrow> bool
    \<Rightarrow> ((u32 \<times> byte list \<times> byte list \<times> u32) option, 'm) ct" where
  "return_locals env methodReturnValue is_void =
     (if \<not> is_void then
        bindS (GetTargetReturnValueTypeRef env methodReturnValue) (\<lambda>callTargetReturn.
        bindS (\<lambda>s. Inr (clr_GetTypeSpecFromToken env callTargetReturn (ct_meta s), s)) (\<lambda>(hr, spec).
          ret (if FAILED hr then None else Some (callTargetReturn, GetSignature methodReturnValue, spec, 4))))
      else
        bindS (GetTargetVoidReturnTypeRef env) (\<lambda>callTargetReturn.
        bindS (compress callTargetReturn) (\<lambda>callTargetReturnBuffer.
          ret (Some (callTargetReturn, [], [ELEMENT_TYPE_VALUETYPE] @ callTargetReturnBuffer, 3)))))"

definition set_local_sig :: "u32 option \<Rightarrow> (unit, 'm) ct" where
  "set_local_sig newLocalVarSig = (case newLocalVarSig of
     None \<Rightarrow> lift (Inl BadAccess)
   | Some v \<Rightarrow> (\<lambda>s. Inr ((), s\<lparr>ct_wrapper := (ct_wrapper s)\<lparr>m_ILRewriter :=
       SetTkLocalVarSig v (m_ILRewriter (ct_wrapper s))\<rparr>\<rparr>)))"

definition ModifyLocalSig :: "'m clr \<Rightarrow> FunctionMethodArgument \<Rightarrow> (HRESULT \<times> LocalSigResult option, 'm) ct" where
  "ModifyLocalSig env methodReturnValue = bindS (EnsureBaseCalltargetTokens env) (\<lambda>hr.
     if FAILED hr then ret (hr, None) else
     bindS (token callTargetStateTypeRef) (\<lambda>state_ref.
     bindS (compress state_ref) (\<lambda>state_buffer.
     bindS (original_locals env state_buffer) (\<lambda>(hr, originalSignature, modified).
     if FAILED hr then ret (hr, None) else
     if modified then ret (E_FAIL_code, None) else
     bindS (token exTypeRef) (\<lambda>ex_ref.
     bindS (compress ex_ref) (\<lambda>ex_buffer.
     bindS (lift (case GetTypeFlags methodReturnValue of Inl _ \<Rightarrow> Inl BadAccess | Inr r \<Rightarrow> Inr r)) (\<lambda>(flags, _).
     let is_void = (flags = TypeFlagVoid) in
     bindS (return_locals env methodReturnValue is_void) (\<lambda>r. case r of
       None \<Rightarrow> ret (E_FAIL_code, None)
     | Some (callTargetReturn, returnSignature, callTargetReturnSignature, added) \<Rightarrow>
         bindS (lift (new_locals_signature originalSignature added
           (returnSignature @ [ELEMENT_TYPE_CLASS] @ ex_buffer @ callTargetReturnSignature
             @ [ELEMENT_TYPE_VALUETYPE] @ state_buffer))) (\<lambda>(newSignatureSize, newSignature, newLocalsCount).
         bindS (signature_arg newSignatureSize newSignature) (\<lambda>sig.
         bindS (emit_call (clr_GetTokenFromSig env sig)) (\<lambda>(hr, newLocalVarSig).
         if FAILED hr then ret (hr, None) else
         bindS (set_local_sig newLocalVarSig) (\<lambda>_.
         ret (hr, Some \<lparr>
           callTargetStateIndex = newLocalsCount - 1,
           exceptionIndex = newLocalsCount - 3,
           callTargetReturnIndex = newLocalsCount - 2,
           returnValueIndex = (if \<not> is_void then newLocalsCount - 4 else ULONG_MAX),
           callTargetStateToken = state_ref,
           exceptionToken = ex_ref,
           callTargetReturnToken = callTargetReturn\<rparr>)))))))))))))"

section \<open>The calls\<close>

definition call_member :: "u32 \<Rightarrow> (ptr, 'm) ct" where
  "call_member tk = (\<lambda>s. bindE (CallMember tk False (ct_wrapper s)) (\<lambda>(p, w). Inr (p, s\<lparr>ct_wrapper := w\<rparr>)))"

definition wrapper_op :: "(ILRewriterWrapper \<Rightarrow> hr + (ptr \<times> ILRewriterWrapper)) \<Rightarrow> (ptr, 'm) ct" where
  "wrapper_op f = (\<lambda>s. bindE (f (ct_wrapper s)) (\<lambda>(p, w). Inr (p, s\<lparr>ct_wrapper := w\<rparr>)))"

text \<open>The end of every call: the method specification over the integration, the type of the
  instrumented method and further types, and the call of it.\<close>

definition call_method_spec :: "'m clr \<Rightarrow> u32 \<Rightarrow> u32 \<Rightarrow> TypeInfo \<Rightarrow> byte \<Rightarrow> byte list
    \<Rightarrow> (HRESULT \<times> ptr option, 'm) ct" where
  "call_method_spec env member_ref integrationTypeRef currentType count types =
     bindS (compress integrationTypeRef) (\<lambda>integrationTypeBuffer.
     bindS (GetCurrentTypeRef currentType (ti_valueType currentType)) (\<lambda>(currentTypeRef, isValueType).
     bindS (compress currentTypeRef) (\<lambda>currentTypeBuffer.
     let signatureLength = 4 + length integrationTypeBuffer + length currentTypeBuffer + length types;
         signature = [CALLCONV_GENERICINST, count, ELEMENT_TYPE_CLASS] @ integrationTypeBuffer
           @ [if isValueType then ELEMENT_TYPE_VALUETYPE else ELEMENT_TYPE_CLASS] @ currentTypeBuffer @ types
     in bindS (signature_arg signatureLength signature) (\<lambda>sig.
        bindS (emit_call (clr_DefineMethodSpec env member_ref sig)) (\<lambda>(hr, out).
          if FAILED hr then ret (hr, None)
          else bindS (call_member (case out of None \<Rightarrow> mdMethodSpecNil | Some v \<Rightarrow> v)) (\<lambda>p. ret (S_OK, Some p)))))))"

definition WriteBeginMethodWithArgumentsArray :: "'m clr \<Rightarrow> u32 \<Rightarrow> TypeInfo \<Rightarrow> (HRESULT \<times> ptr option, 'm) ct" where
  "WriteBeginMethodWithArgumentsArray env integrationTypeRef currentType =
     bindS (EnsureBaseCalltargetTokens env) (\<lambda>hr.
     if FAILED hr then ret (hr, None)
     else bindS (ensure beginArrayMemberRef (\<lambda>v t. t\<lparr>beginArrayMemberRef := v\<rparr>) mdMemberRefNil
         (bindS (token callTargetStateTypeRef) (\<lambda>state_ref. bindS (compress state_ref) (\<lambda>state_buffer.
          let signatureLength = 8 + length state_buffer;
              signature = [CALLCONV_GENERIC, 0x02, 0x02, ELEMENT_TYPE_VALUETYPE] @ state_buffer
                @ [ELEMENT_TYPE_MVAR, 0x01, ELEMENT_TYPE_SZARRAY, ELEMENT_TYPE_OBJECT]
          in bindS (signature_arg signatureLength signature) (\<lambda>sig. bindS (token callTargetTypeRef) (\<lambda>type_ref.
             emit_call (clr_DefineMemberRef env type_ref managed_profiler_calltarget_beginmethod_name sig))))))) (\<lambda>hr.
       if FAILED hr then ret (hr, None)
       else bindS (token beginArrayMemberRef) (\<lambda>member_ref.
         call_method_spec env member_ref integrationTypeRef currentType 0x02 [])))"

text \<open>The signature of \<open>BeginMethod\<close> for up to eight arguments.\<close>

definition begin_method_signature :: "byte list \<Rightarrow> nat \<Rightarrow> byte list" where
  "begin_method_signature state_buffer numArguments =
     [CALLCONV_GENERIC, of_nat (0x02 + numArguments), of_nat (0x01 + numArguments), ELEMENT_TYPE_VALUETYPE]
     @ state_buffer @ [ELEMENT_TYPE_MVAR, 0x01]
     @ concat (map (\<lambda>i. [ELEMENT_TYPE_MVAR, of_nat (0x01 + (i + 1))]) [0..<numArguments])"

definition WriteBeginMethod :: "'m clr \<Rightarrow> u32 \<Rightarrow> TypeInfo \<Rightarrow> FunctionMethodArgument list
    \<Rightarrow> (HRESULT \<times> ptr option, 'm) ct" where
  "WriteBeginMethod env integrationTypeRef currentType methodArguments =
     bindS (EnsureBaseCalltargetTokens env) (\<lambda>hr.
     if FAILED hr then ret (hr, None) else
     let numArguments = length methodArguments in
     if numArguments \<ge> FASTPATH_COUNT
     then WriteBeginMethodWithArgumentsArray env integrationTypeRef currentType
     else bindS (ensure (\<lambda>t. beginMethodFastPathRefs t ! numArguments)
         (\<lambda>v t. t\<lparr>beginMethodFastPathRefs := (beginMethodFastPathRefs t)[numArguments := v]\<rparr>) mdMemberRefNil
         (bindS (token callTargetStateTypeRef) (\<lambda>state_ref. bindS (compress state_ref) (\<lambda>state_buffer.
          let signatureLength = 6 + numArguments * 2 + length state_buffer;
              signature = begin_method_signature state_buffer numArguments
          in bindS (signature_arg signatureLength signature) (\<lambda>sig. bindS (token callTargetTypeRef) (\<lambda>type_ref.
             emit_call (clr_DefineMemberRef env type_ref managed_profiler_calltarget_beginmethod_name sig))))))) (\<lambda>hr.
       if FAILED hr then ret (hr, None)
       else bindS (token (\<lambda>t. beginMethodFastPathRefs t ! numArguments)) (\<lambda>member_ref.
         call_method_spec env member_ref integrationTypeRef currentType (0x02 + of_nat numArguments)
           (concat (map GetSignature methodArguments)))))"

definition WriteEndVoidReturnMemberRef :: "'m clr \<Rightarrow> u32 \<Rightarrow> TypeInfo \<Rightarrow> (HRESULT \<times> ptr option, 'm) ct" where
  "WriteEndVoidReturnMemberRef env integrationTypeRef currentType =
     bindS (EnsureBaseCalltargetTokens env) (\<lambda>hr.
     if FAILED hr then ret (hr, None)
     else bindS (ensure endVoidMemberRef (\<lambda>v t. t\<lparr>endVoidMemberRef := v\<rparr>) mdMemberRefNil
         (bindS (token callTargetReturnVoidTypeRef) (\<lambda>void_ref. bindS (compress void_ref) (\<lambda>void_buffer.
          bindS (token exTypeRef) (\<lambda>ex_ref. bindS (compress ex_ref) (\<lambda>ex_buffer.
          bindS (token callTargetStateTypeRef) (\<lambda>state_ref. bindS (compress state_ref) (\<lambda>state_buffer.
          let signatureLength = 8 + length void_buffer + length ex_buffer + length state_buffer;
              signature = [CALLCONV_GENERIC, 0x02, 0x03, ELEMENT_TYPE_VALUETYPE] @ void_buffer
                @ [ELEMENT_TYPE_MVAR, 0x01, ELEMENT_TYPE_CLASS] @ ex_buffer @ [ELEMENT_TYPE_VALUETYPE] @ state_buffer
          in bindS (signature_arg signatureLength signature) (\<lambda>sig. bindS (token callTargetTypeRef) (\<lambda>type_ref.
             emit_call (clr_DefineMemberRef env type_ref managed_profiler_calltarget_endmethod_name sig))))))))))) (\<lambda>hr.
       if FAILED hr then ret (hr, None)
       else bindS (token endVoidMemberRef) (\<lambda>member_ref.
         call_method_spec env member_ref integrationTypeRef currentType 0x02 [])))"

text \<open>With a value there is no member to remember: the reference is defined anew each time. The
  result of \<open>GetTargetReturnValueTypeRef\<close> is not looked at.\<close>

definition WriteEndReturnMemberRef :: "'m clr \<Rightarrow> u32 \<Rightarrow> TypeInfo \<Rightarrow> FunctionMethodArgument
    \<Rightarrow> (HRESULT \<times> ptr option, 'm) ct" where
  "WriteEndReturnMemberRef env integrationTypeRef currentType returnArgument =
     bindS (EnsureBaseCalltargetTokens env) (\<lambda>hr.
     if FAILED hr then ret (hr, None)
     else bindS (GetTargetReturnValueTypeRef env returnArgument) (\<lambda>_.
       bindS (token callTargetReturnTypeRef) (\<lambda>return_ref. bindS (compress return_ref) (\<lambda>return_buffer.
       bindS (token exTypeRef) (\<lambda>ex_ref. bindS (compress ex_ref) (\<lambda>ex_buffer.
       bindS (token callTargetStateTypeRef) (\<lambda>state_ref. bindS (compress state_ref) (\<lambda>state_buffer.
       let signatureLength = 14 + length return_buffer + length ex_buffer + length state_buffer;
           signature = [CALLCONV_GENERIC, 0x03, 0x04, ELEMENT_TYPE_GENERICINST, ELEMENT_TYPE_VALUETYPE]
             @ return_buffer @ [0x01, ELEMENT_TYPE_MVAR, 0x02, ELEMENT_TYPE_MVAR, 0x01, ELEMENT_TYPE_MVAR, 0x02,
               ELEMENT_TYPE_CLASS] @ ex_buffer @ [ELEMENT_TYPE_VALUETYPE] @ state_buffer
       in bindS (signature_arg signatureLength signature) (\<lambda>sig. bindS (token callTargetTypeRef) (\<lambda>type_ref.
          bindS (emit_call (clr_DefineMemberRef env type_ref managed_profiler_calltarget_endmethod_name sig))
            (\<lambda>(hr, out).
          if FAILED hr then ret (hr, None)
          else call_method_spec env (case out of None \<Rightarrow> mdMemberRefNil | Some v \<Rightarrow> v) integrationTypeRef
            currentType 0x03 (GetSignature returnArgument))))))))))))"

definition WriteLogException :: "'m clr \<Rightarrow> u32 \<Rightarrow> TypeInfo \<Rightarrow> (HRESULT \<times> ptr option, 'm) ct" where
  "WriteLogException env integrationTypeRef currentType =
     bindS (EnsureBaseCalltargetTokens env) (\<lambda>hr.
     if FAILED hr then ret (hr, None)
     else bindS (ensure logExceptionRef (\<lambda>v t. t\<lparr>logExceptionRef := v\<rparr>) mdMemberRefNil
         (bindS (token exTypeRef) (\<lambda>ex_ref. bindS (compress ex_ref) (\<lambda>ex_buffer.
          let signatureLength = 5 + length ex_buffer;
              signature = [CALLCONV_GENERIC, 0x02, 0x01, ELEMENT_TYPE_VOID, ELEMENT_TYPE_CLASS] @ ex_buffer
          in bindS (signature_arg signatureLength signature) (\<lambda>sig. bindS (token callTargetTypeRef) (\<lambda>type_ref.
             emit_call (clr_DefineMemberRef env type_ref managed_profiler_calltarget_logexception_name sig))))))) (\<lambda>hr.
       if FAILED hr then ret (hr, None)
       else bindS (token logExceptionRef) (\<lambda>member_ref.
         call_method_spec env member_ref integrationTypeRef currentType 0x02 [])))"

text \<open>The error return of this one is a nil token, which is no failure as an \<open>HRESULT\<close>.\<close>

definition WriteCallTargetReturnGetReturnValue :: "'m clr \<Rightarrow> u32 \<Rightarrow> (HRESULT \<times> ptr option, 'm) ct" where
  "WriteCallTargetReturnGetReturnValue env callTargetReturnTypeSpec =
     bindS (EnsureBaseCalltargetTokens env) (\<lambda>hr.
     if FAILED hr then ret (mdMemberRefNil, None)
     else
       let signatureLength = 4;
           signature = [CALLCONV_DEFAULT OR CALLCONV_HASTHIS, 0x00, ELEMENT_TYPE_VAR, 0x00]
       in bindS (signature_arg signatureLength signature) (\<lambda>sig.
          bindS (emit_call (clr_DefineMemberRef env callTargetReturnTypeSpec
              managed_profiler_calltarget_returntype_getreturnvalue_name sig)) (\<lambda>(hr, out).
            if FAILED hr then ret (mdMemberRefNil, None)
            else bindS (call_member (case out of None \<Rightarrow> mdMemberRefNil | Some v \<Rightarrow> v)) (\<lambda>p. ret (S_OK, Some p)))))"

definition GetObjectTypeRef :: "CallTargetTokens \<Rightarrow> u32" where "GetObjectTypeRef = objectTypeRef"
definition GetExceptionTypeRef :: "CallTargetTokens \<Rightarrow> u32" where "GetExceptionTypeRef = exTypeRef"
definition GetCorLibAssemblyRef_token :: "CallTargetTokens \<Rightarrow> u32" where "GetCorLibAssemblyRef_token = corLibAssemblyRef"

text \<open>The locals, and the code that initialises them at the start of the method. The tokens that
  the helpers return are called without a look at them.\<close>

definition init_locals :: "'m clr \<Rightarrow> FunctionMethodArgument \<Rightarrow> LocalSigResult \<Rightarrow> (ptr, 'm) ct" where
  "init_locals env returnFunctionMethod r =
     bindS (if returnValueIndex r \<noteq> ULONG_MAX then
              bindS (GetCallTargetDefaultValueMethodSpec env returnFunctionMethod) (\<lambda>default_spec.
              bindS (call_member default_spec) (\<lambda>firstInstruction.
              bindS (wrapper_op (StLocal (returnValueIndex r))) (\<lambda>_.
              bindS (GetCallTargetReturnValueDefaultMemberRef env (callTargetReturnToken r)) (\<lambda>return_default.
              bindS (call_member return_default) (\<lambda>_.
              bindS (wrapper_op (StLocal (callTargetReturnIndex r))) (\<lambda>_. ret firstInstruction))))))
            else
              bindS (GetCallTargetReturnVoidDefaultMemberRef env) (\<lambda>void_default.
              bindS (call_member void_default) (\<lambda>firstInstruction.
              bindS (wrapper_op (StLocal (callTargetReturnIndex r))) (\<lambda>_. ret firstInstruction))))
       (\<lambda>firstInstruction.
     bindS (wrapper_op LoadNull) (\<lambda>_.
     bindS (wrapper_op (StLocal (exceptionIndex r))) (\<lambda>_. ret firstInstruction)))"

definition ModifyLocalSigAndInitialize :: "'m clr \<Rightarrow> FunctionMethodArgument
    \<Rightarrow> (HRESULT \<times> (LocalSigResult \<times> ptr) option, 'm) ct" where
  "ModifyLocalSigAndInitialize env returnFunctionMethod =
     bindS (ModifyLocalSig env returnFunctionMethod) (\<lambda>(hr, r). case r of
       None \<Rightarrow> ret (hr, None)
     | Some r \<Rightarrow> bindS (init_locals env returnFunctionMethod r) (\<lambda>firstInstruction. ret (S_OK, Some (r, firstInstruction))))"


section \<open>Lemmas\<close>

named_theorems ct_simps \<open>running the model of \<open>calltarget_tokens.cpp\<close>\<close>

lemma ct_run [ct_simps]:
  "ret x s = Inr (x, s)" "token get s = Inr (get (ct_tokens s), s)"
  "bindS f g s = bindE (f s) (\<lambda>(x, s). g x s)"
  "lift (Inr x) s = Inr (x, s)" "lift (Inl e) s = Inl e"
  by (simp_all add: ret_def token_def bindS_def lift_def)

lemma or_return_run [ct_simps]:
  "or_return f g s = bindE (f s) (\<lambda>(hr, s). if FAILED hr then Inr (hr, s) else g s)"
  by (auto simp: or_return_def bindS_def ret_def intro!: bindE_cong)

lemma FAILED_S_OK [simp]: "\<not> FAILED S_OK"
  by (simp add: FAILED_def)

text \<open>Every token can be compressed: its row number has 24 bits.\<close>

lemma CorSigCompressToken_total:
  "\<exists>bs. CorSigCompressToken tk = Some bs \<and> bs \<noteq> [] \<and> length bs \<le> 4"
proof -
  have u: "unat (push_bit 2 (RidFromToken tk) OR token_tag (TypeFromToken tk)) < 2 ^ 26"
  proof (rule unat_bounded_by_bits)
    fix i assume b: "bit (push_bit 2 (RidFromToken tk) OR token_tag (TypeFromToken tk)) i"
    have "unat (token_tag (TypeFromToken tk)) < 2 ^ 2"
      using token_tag_bound [of "TypeFromToken tk"] by (simp add: word_less_nat_alt)
    with b show "i < 26"
      using bit_bounded [OF RidFromToken_bound [of tk], of "i - 2"] bit_bounded [of "token_tag (TypeFromToken tk)" 2 i]
      by (auto simp: bit_simps)
  qed
  then have "CorSigCompressToken tk \<noteq> None"
    by (simp add: CorSigCompressToken_eq CorSigCompressData_None_iff word_less_nat_alt not_less)
  then obtain bs where bs: "CorSigCompressToken tk = Some bs" by auto
  then have "length bs \<in> {1, 2, 4}"
    using CorSigCompressData_length [of _ bs] by (simp add: CorSigCompressToken_eq)
  then show ?thesis using bs by auto
qed

definition token_bytes :: "u32 \<Rightarrow> byte list" where
  "token_bytes tk = the (CorSigCompressToken tk)"

lemma token_bytes: "token_bytes tk \<noteq> [] \<and> length (token_bytes tk) \<le> 4"
  using CorSigCompressToken_total [of tk] by (auto simp: token_bytes_def)

lemma compress_run [ct_simps]: "compress tk s = Inr (token_bytes tk, s)"
  using CorSigCompressToken_total [of tk] by (auto simp: compress_def token_bytes_def ct_simps)

lemma signature_arg_run [ct_simps]:
  "n = length bs \<Longrightarrow> length bs \<le> 500 \<Longrightarrow> signature_arg n bs s = Inr (bs, s)"
  "500 < length bs \<Longrightarrow> signature_arg n bs s = Inl BadAccess"
  by (simp_all add: signature_arg_def ct_simps)

section \<open>The base tokens\<close>

definition base_defined :: "CallTargetTokens \<Rightarrow> bool" where
  "base_defined t \<longleftrightarrow>
     corLibAssemblyRef t \<noteq> mdAssemblyRefNil \<and> objectTypeRef t \<noteq> mdTypeRefNil \<and> exTypeRef t \<noteq> mdTypeRefNil
     \<and> typeRef t \<noteq> mdTypeRefNil \<and> runtimeTypeHandleRef t \<noteq> mdTypeRefNil \<and> getTypeFromHandleToken t \<noteq> mdTokenNil
     \<and> runtimeMethodHandleRef t \<noteq> mdTypeRefNil \<and> profilerAssemblyRef t \<noteq> mdAssemblyRefNil
     \<and> callTargetTypeRef t \<noteq> mdTypeRefNil \<and> callTargetStateTypeRef t \<noteq> mdTypeRefNil
     \<and> callTargetStateTypeGetDefault t \<noteq> mdMemberRefNil"

text \<open>The CLR keeps its word: a call that does not fail writes a token that is not nil.\<close>

definition writes_token :: "u32 set \<Rightarrow> 'm emit_call \<Rightarrow> bool" where
  "writes_token nils f \<longleftrightarrow> (\<forall>m hr out m'. f m = ((hr, out), m') \<longrightarrow> \<not> FAILED hr \<longrightarrow> (\<exists>v. out = Some v \<and> v \<notin> nils))"

definition well_behaved :: "'m clr \<Rightarrow> bool" where
  "well_behaved env \<longleftrightarrow>
     (\<forall>r. writes_token {mdAssemblyRefNil} (clr_DefineAssemblyRef env r))
     \<and> (\<forall>sc nm. writes_token {mdTypeRefNil} (clr_DefineTypeRefByName env sc nm))
     \<and> (\<forall>tk nm sig. writes_token {mdMemberRefNil, mdTokenNil} (clr_DefineMemberRef env tk nm sig))"

text \<open>A step that ensures a token: it does not crash, it keeps the other members that are set
  already, and if it does not fail the token is defined.\<close>

definition keeps_tokens :: "CallTargetTokens \<Rightarrow> CallTargetTokens \<Rightarrow> bool" where
  "keeps_tokens t t' \<longleftrightarrow>
     (corLibAssemblyRef t \<noteq> mdAssemblyRefNil \<longrightarrow> corLibAssemblyRef t' = corLibAssemblyRef t)
     \<and> (objectTypeRef t \<noteq> mdTypeRefNil \<longrightarrow> objectTypeRef t' = objectTypeRef t)
     \<and> (exTypeRef t \<noteq> mdTypeRefNil \<longrightarrow> exTypeRef t' = exTypeRef t)
     \<and> (typeRef t \<noteq> mdTypeRefNil \<longrightarrow> typeRef t' = typeRef t)
     \<and> (runtimeTypeHandleRef t \<noteq> mdTypeRefNil \<longrightarrow> runtimeTypeHandleRef t' = runtimeTypeHandleRef t)
     \<and> (getTypeFromHandleToken t \<noteq> mdTokenNil \<longrightarrow> getTypeFromHandleToken t' = getTypeFromHandleToken t)
     \<and> (runtimeMethodHandleRef t \<noteq> mdTypeRefNil \<longrightarrow> runtimeMethodHandleRef t' = runtimeMethodHandleRef t)
     \<and> (profilerAssemblyRef t \<noteq> mdAssemblyRefNil \<longrightarrow> profilerAssemblyRef t' = profilerAssemblyRef t)
     \<and> (callTargetTypeRef t \<noteq> mdTypeRefNil \<longrightarrow> callTargetTypeRef t' = callTargetTypeRef t)
     \<and> (callTargetStateTypeRef t \<noteq> mdTypeRefNil \<longrightarrow> callTargetStateTypeRef t' = callTargetStateTypeRef t)
     \<and> (callTargetStateTypeGetDefault t \<noteq> mdMemberRefNil
         \<longrightarrow> callTargetStateTypeGetDefault t' = callTargetStateTypeGetDefault t)"

lemma keeps_tokens_refl [simp]: "keeps_tokens t t"
  by (simp add: keeps_tokens_def)

lemma keeps_tokens_trans: "keeps_tokens t t' \<Longrightarrow> keeps_tokens t' t'' \<Longrightarrow> keeps_tokens t t''"
  unfolding keeps_tokens_def by metis

definition step_ok :: "(CallTargetTokens \<Rightarrow> bool) \<Rightarrow> (HRESULT, 'm) ct \<Rightarrow> bool" where
  "step_ok Q f \<longleftrightarrow> (\<forall>s. \<exists>hr s'. f s = Inr (hr, s') \<and> keeps_tokens (ct_tokens s) (ct_tokens s')
     \<and> ct_wrapper s' = ct_wrapper s \<and> ct_cor s' = ct_cor s \<and> (\<not> FAILED hr \<longrightarrow> Q (ct_tokens s')))"

lemma step_ok_or_return:
  assumes "step_ok P f" "step_ok Q g" "\<And>t t'. P t \<Longrightarrow> keeps_tokens t t' \<Longrightarrow> P t'"
  shows "step_ok (\<lambda>t. P t \<and> Q t) (or_return f g)"
  unfolding step_ok_def
proof
  fix s
  obtain hr s1 where f: "f s = Inr (hr, s1)" "keeps_tokens (ct_tokens s) (ct_tokens s1)"
    "ct_wrapper s1 = ct_wrapper s" "ct_cor s1 = ct_cor s" "\<not> FAILED hr \<Longrightarrow> P (ct_tokens s1)"
    using assms(1) unfolding step_ok_def by blast
  obtain hr2 s2 where g: "g s1 = Inr (hr2, s2)" "keeps_tokens (ct_tokens s1) (ct_tokens s2)"
    "ct_wrapper s2 = ct_wrapper s1" "ct_cor s2 = ct_cor s1" "\<not> FAILED hr2 \<Longrightarrow> Q (ct_tokens s2)"
    using assms(2) unfolding step_ok_def by blast
  show "\<exists>hr s'. or_return f g s = Inr (hr, s') \<and> keeps_tokens (ct_tokens s) (ct_tokens s')
     \<and> ct_wrapper s' = ct_wrapper s \<and> ct_cor s' = ct_cor s \<and> (\<not> FAILED hr \<longrightarrow> P (ct_tokens s') \<and> Q (ct_tokens s'))"
  proof (cases "FAILED hr")
    case True
    then show ?thesis using f by (simp add: ct_simps)
  next
    case False
    then show ?thesis using f g keeps_tokens_trans assms(3) by (simp add: ct_simps)
  qed
qed

lemma step_ok_ret: "step_ok (\<lambda>t. True) (ret S_OK)"
  by (simp add: step_ok_def ct_simps)

lemma ensure_run:
  "ensure get put nil call s =
     (if get (ct_tokens s) = nil then
        bindE (call s) (\<lambda>((hr, out), s). Inr (if FAILED hr then hr else S_OK,
          case out of None \<Rightarrow> s | Some v \<Rightarrow> s\<lparr>ct_tokens := put v (ct_tokens s)\<rparr>))
      else Inr (S_OK, s))"
  by (auto simp: ensure_def ct_simps store_def bindE_def split: sum.splits)

lemma step_ok_ensure:
  assumes "\<And>s. \<exists>hr out m. call s = Inr ((hr, out), s\<lparr>ct_meta := m\<rparr>) \<and> (\<not> FAILED hr \<longrightarrow> (\<exists>v. out = Some v \<and> v \<noteq> nil))"
    and "\<And>v t. get t = nil \<Longrightarrow> keeps_tokens t (put v t)" "\<And>v t. get (put v t) = v"
  shows "step_ok (\<lambda>t. get t \<noteq> nil) (ensure get put nil call)"
  unfolding step_ok_def
proof
  fix s
  obtain hr out m where c: "call s = Inr ((hr, out), s\<lparr>ct_meta := m\<rparr>)"
    "\<not> FAILED hr \<longrightarrow> (\<exists>v. out = Some v \<and> v \<noteq> nil)"
    using assms(1) by blast
  then show "\<exists>hr s'. ensure get put nil call s = Inr (hr, s') \<and> keeps_tokens (ct_tokens s) (ct_tokens s')
     \<and> ct_wrapper s' = ct_wrapper s \<and> ct_cor s' = ct_cor s \<and> (\<not> FAILED hr \<longrightarrow> get (ct_tokens s') \<noteq> nil)"
    using assms(2,3) by (auto simp: ensure_run split: option.splits)
qed

lemma emit_call_run:
  assumes "writes_token nils f"
  shows "\<exists>hr out m. emit_call f (s :: 'm ct_state) = Inr ((hr, out), s\<lparr>ct_meta := m\<rparr>) \<and> (\<not> FAILED hr \<longrightarrow> (\<exists>v. out = Some v \<and> v \<notin> nils))"
proof -
  obtain hr out m where f: "f (ct_meta s) = ((hr, out), m)" by (metis surj_pair)
  then have "\<not> FAILED hr \<longrightarrow> (\<exists>v. out = Some v \<and> v \<notin> nils)" using assms f unfolding writes_token_def by blast
  then show ?thesis using f by (intro exI [of _ hr] exI [of _ out] exI [of _ m]) (simp add: emit_call_def)
qed

lemma step_ensure_type:
  fixes env :: "'m clr"
  assumes "well_behaved env" "\<And>v t. get t = mdTypeRefNil \<Longrightarrow> keeps_tokens t (put v t)" "\<And>v t. get (put v t) = v"
  shows "step_ok (\<lambda>t. get t \<noteq> mdTypeRefNil) (ensure_type env scope get put nm)"
  unfolding ensure_type_def
proof (rule step_ok_ensure [OF _ assms(2,3)])
  fix s :: "'m ct_state"
  have "writes_token {mdTypeRefNil} (clr_DefineTypeRefByName env (scope (ct_tokens s)) nm)"
    using assms(1) by (simp add: well_behaved_def)
  from emit_call_run [OF this, of s]
  show "\<exists>hr out m. bindS (token scope) (\<lambda>sc. emit_call (clr_DefineTypeRefByName env sc nm)) s
      = Inr ((hr, out), s\<lparr>ct_meta := m\<rparr>) \<and> (\<not> FAILED hr \<longrightarrow> (\<exists>v. out = Some v \<and> v \<noteq> mdTypeRefNil))"
    by (simp add: ct_simps)
qed auto

lemma step_member:
  fixes env :: "'m clr"
  assumes "well_behaved env" "\<And>v t. get t = nil \<Longrightarrow> keeps_tokens t (put v t)" "\<And>v t. get (put v t) = v"
    and "nil \<in> {mdMemberRefNil, mdTokenNil}"
    and "\<And>s :: 'm ct_state. \<exists>tk nm sig. call s = emit_call (clr_DefineMemberRef env tk nm sig) s"
  shows "step_ok (\<lambda>t. get t \<noteq> nil) (ensure get put nil call)"
proof (rule step_ok_ensure [OF _ assms(2,3)])
  fix s :: "'m ct_state"
  obtain tk nm sig where c: "call s = emit_call (clr_DefineMemberRef env tk nm sig) s" using assms(5) by blast
  have "writes_token {mdMemberRefNil, mdTokenNil} (clr_DefineMemberRef env tk nm sig)"
    using assms(1) by (simp add: well_behaved_def)
  from emit_call_run [OF this, of s]
  show "\<exists>hr out m. call s = Inr ((hr, out), s\<lparr>ct_meta := m\<rparr>) \<and> (\<not> FAILED hr \<longrightarrow> (\<exists>v. out = Some v \<and> v \<noteq> nil))"
    unfolding c using assms(4) by auto
qed auto

lemma step_GetTypeFromHandle:
  assumes "well_behaved env"
  shows "step_ok (\<lambda>t. getTypeFromHandleToken t \<noteq> mdTokenNil) (EnsureGetTypeFromHandle env)"
  unfolding EnsureGetTypeFromHandle_def
proof (rule step_member [OF assms], goal_cases)
  case (4 s)
  let ?t = "ct_tokens s"
  have "length (token_bytes (typeRef ?t)) + length (token_bytes (runtimeTypeHandleRef ?t)) \<le> 8"
    using token_bytes [of "typeRef ?t"] token_bytes [of "runtimeTypeHandleRef ?t"] by linarith
  then show ?case
    by (intro exI) (simp add: ct_simps Let_def)
qed (auto simp: keeps_tokens_def)

lemma step_StateGetDefault:
  assumes "well_behaved env"
  shows "step_ok (\<lambda>t. callTargetStateTypeGetDefault t \<noteq> mdMemberRefNil) (EnsureStateGetDefault env)"
  unfolding EnsureStateGetDefault_def
proof (rule step_member [OF assms], goal_cases)
  case (4 s)
  have "length (token_bytes (callTargetStateTypeRef (ct_tokens s))) \<le> 4" using token_bytes by blast
  then show ?case
    by (intro exI) (simp add: ct_simps Let_def)
qed (auto simp: keeps_tokens_def)




definition cor_types_defined :: "CallTargetTokens \<Rightarrow> bool" where
  "cor_types_defined t \<longleftrightarrow> objectTypeRef t \<noteq> mdTypeRefNil \<and> exTypeRef t \<noteq> mdTypeRefNil
     \<and> typeRef t \<noteq> mdTypeRefNil \<and> runtimeTypeHandleRef t \<noteq> mdTypeRefNil \<and> getTypeFromHandleToken t \<noteq> mdTokenNil
     \<and> runtimeMethodHandleRef t \<noteq> mdTypeRefNil"

lemma step_ok_weaken: "step_ok P f \<Longrightarrow> (\<And>t. P t \<Longrightarrow> Q t) \<Longrightarrow> step_ok Q f"
  unfolding step_ok_def by blast

lemma step_EnsureCorLibTypes:
  assumes "well_behaved env"
  shows "step_ok cor_types_defined (EnsureCorLibTypes env)"
proof -
  have "step_ok (\<lambda>t. objectTypeRef t \<noteq> mdTypeRefNil \<and> exTypeRef t \<noteq> mdTypeRefNil \<and> typeRef t \<noteq> mdTypeRefNil
      \<and> runtimeTypeHandleRef t \<noteq> mdTypeRefNil \<and> getTypeFromHandleToken t \<noteq> mdTokenNil
      \<and> runtimeMethodHandleRef t \<noteq> mdTypeRefNil \<and> True) (EnsureCorLibTypes env)"
    unfolding EnsureCorLibTypes_def
    by (intro step_ok_or_return step_ensure_type step_GetTypeFromHandle step_ok_ret assms)
      (auto simp: keeps_tokens_def)
  then show ?thesis by (rule step_ok_weaken) (simp add: cor_types_defined_def)
qed

lemma step_EnsureCorLibTokens:
  fixes env :: "'m clr"
  assumes "well_behaved env"
  shows "step_ok (\<lambda>t. corLibAssemblyRef t \<noteq> mdAssemblyRefNil \<and> cor_types_defined t) (EnsureCorLibTokens env)"
  unfolding step_ok_def
proof
  fix s :: "'m ct_state"
  have types: "\<exists>hr s'. EnsureCorLibTypes env s1 = Inr (hr, s') \<and> keeps_tokens (ct_tokens s) (ct_tokens s')
     \<and> ct_wrapper s' = ct_wrapper s \<and> ct_cor s' = ct_cor s
     \<and> (\<not> FAILED hr \<longrightarrow> corLibAssemblyRef (ct_tokens s') \<noteq> mdAssemblyRefNil \<and> cor_types_defined (ct_tokens s'))"
    if "corLibAssemblyRef (ct_tokens s1) \<noteq> mdAssemblyRefNil" "keeps_tokens (ct_tokens s) (ct_tokens s1)"
      "ct_wrapper s1 = ct_wrapper s" "ct_cor s1 = ct_cor s" for s1
  proof -
    obtain hr s' where r: "EnsureCorLibTypes env s1 = Inr (hr, s')" "keeps_tokens (ct_tokens s1) (ct_tokens s')"
      "ct_wrapper s' = ct_wrapper s1" "ct_cor s' = ct_cor s1" "\<not> FAILED hr \<longrightarrow> cor_types_defined (ct_tokens s')"
      using step_EnsureCorLibTypes [OF assms] unfolding step_ok_def by blast
    moreover have "corLibAssemblyRef (ct_tokens s') \<noteq> mdAssemblyRefNil"
      using r(2) that(1) by (simp add: keeps_tokens_def)
    ultimately show ?thesis using that keeps_tokens_trans [OF that(2) r(2)] by simp
  qed
  show "\<exists>hr s'. EnsureCorLibTokens env s = Inr (hr, s') \<and> keeps_tokens (ct_tokens s) (ct_tokens s')
     \<and> ct_wrapper s' = ct_wrapper s \<and> ct_cor s' = ct_cor s
     \<and> (\<not> FAILED hr \<longrightarrow> corLibAssemblyRef (ct_tokens s') \<noteq> mdAssemblyRefNil \<and> cor_types_defined (ct_tokens s'))"
  proof (cases "corLibAssemblyRef (ct_tokens s) = mdAssemblyRefNil")
    case False
    then show ?thesis using types [of s] by (simp add: EnsureCorLibTokens_def)
  next
    case True
    have "writes_token {mdAssemblyRefNil} (clr_DefineAssemblyRef env (cor_request (ct_cor s)))"
      using assms by (simp add: well_behaved_def)
    from emit_call_run [OF this, of s] obtain hr out m where
      c: "emit_call (clr_DefineAssemblyRef env (cor_request (ct_cor s))) s = Inr ((hr, out), s\<lparr>ct_meta := m\<rparr>)"
      "\<not> FAILED hr \<longrightarrow> (\<exists>v. out = Some v \<and> v \<noteq> mdAssemblyRefNil)" by auto
    let ?s1 = "case out of None \<Rightarrow> s\<lparr>ct_meta := m\<rparr>
      | Some v \<Rightarrow> s\<lparr>ct_meta := m, ct_tokens := (ct_tokens s)\<lparr>corLibAssemblyRef := v\<rparr>\<rparr>"
    have run: "EnsureCorLibTokens env s = (if corLibAssemblyRef (ct_tokens ?s1) = mdAssemblyRefNil
        then Inr (hr, ?s1) else EnsureCorLibTypes env ?s1)"
      using True c(1) by (simp add: EnsureCorLibTokens_def ct_simps store_def split: option.splits)
    have s1: "keeps_tokens (ct_tokens s) (ct_tokens ?s1)" "ct_wrapper ?s1 = ct_wrapper s" "ct_cor ?s1 = ct_cor s"
      using True by (auto simp: keeps_tokens_def split: option.splits)
    show ?thesis
    proof (cases "corLibAssemblyRef (ct_tokens ?s1) = mdAssemblyRefNil")
      case True
      then have "FAILED hr" using c(2) by (auto split: option.splits)
      then show ?thesis using run s1 True by simp
    next
      case False
      then show ?thesis using run types [OF False s1] by simp
    qed
  qed
qed

lemma step_EnsureBaseCalltargetTokens:
  fixes env :: "'m clr"
  assumes "well_behaved env"
  shows "step_ok base_defined (EnsureBaseCalltargetTokens env)"
proof -
  have asm: "step_ok (\<lambda>t. profilerAssemblyRef t \<noteq> mdAssemblyRefNil)
    (ensure profilerAssemblyRef (\<lambda>v t. t\<lparr>profilerAssemblyRef := v\<rparr>) mdAssemblyRefNil
        (emit_call (clr_DefineAssemblyRef env r)))" for r
  proof (rule step_ok_ensure, goal_cases)
    case (1 s)
    have "writes_token {mdAssemblyRefNil} (clr_DefineAssemblyRef env r)"
      using assms by (simp add: well_behaved_def)
    from emit_call_run [OF this] show ?case by simp
  qed (auto simp: keeps_tokens_def)
  have "step_ok (\<lambda>t. (corLibAssemblyRef t \<noteq> mdAssemblyRefNil \<and> cor_types_defined t)
      \<and> profilerAssemblyRef t \<noteq> mdAssemblyRefNil \<and> callTargetTypeRef t \<noteq> mdTypeRefNil
      \<and> callTargetStateTypeRef t \<noteq> mdTypeRefNil \<and> callTargetStateTypeGetDefault t \<noteq> mdMemberRefNil \<and> True)
    (EnsureBaseCalltargetTokens env)"
    unfolding EnsureBaseCalltargetTokens_def
    by (intro step_ok_or_return step_EnsureCorLibTokens asm step_ensure_type step_StateGetDefault step_ok_ret assms)
      (auto simp: keeps_tokens_def cor_types_defined_def)
  then show ?thesis by (rule step_ok_weaken) (simp add: base_defined_def cor_types_defined_def)
qed

lemma ensure_defined [ct_simps]:
  "get (ct_tokens s) \<noteq> nil \<Longrightarrow> ensure get put nil call s = Inr (S_OK, s)"
  by (simp add: ensure_run)

lemma EnsureBase_defined [ct_simps]:
  assumes "base_defined (ct_tokens s)"
  shows "EnsureBaseCalltargetTokens env s = Inr (S_OK, s)"
  using assms
  by (simp add: EnsureBaseCalltargetTokens_def EnsureCorLibTokens_def EnsureCorLibTypes_def ensure_type_def
      EnsureGetTypeFromHandle_def EnsureStateGetDefault_def base_defined_def ct_simps)

section \<open>Signatures\<close>

text \<open>\<open>BeginMethod<TIntegration, TTarget, TArg1, ...>(TTarget, TArg1, ...)\<close> as a method signature
  of the theory \<open>ClrSig\<close>.\<close>

definition begin_method :: "u32 \<Rightarrow> nat \<Rightarrow> clr_method" where
  "begin_method state_ref n = \<lparr>cm_conv = CALLCONV_GENERIC, cm_generic = of_nat (2 + n),
     cm_ret = RetArg (ClrArg False (Named True state_ref)),
     cm_args = map (\<lambda>i. ClrArg False (MVar (of_nat (1 + i)))) [0..<Suc n]\<rparr>"

lemma encode_small:
  assumes "n < 128"
  shows "encode_number (of_nat n) = [of_nat n]"
proof -
  have u: "unat (of_nat n :: u32) = n" using assms by (simp add: unat_of_nat)
  have "ucast (of_nat n :: u32) = (of_nat n :: byte)"
    using assms by (simp add: unsigned_of_nat take_bit_nat_eq_self)
  then show ?thesis using assms u by (simp add: encode_number_def CorSigCompressData_def word_le_nat_alt)
qed

lemma begin_method_encode:
  assumes "n < 9"
  shows "begin_method_signature (token_bytes state_ref) n = encode_method (begin_method state_ref n)"
proof -
  have "concat (map (\<lambda>i. [ELEMENT_TYPE_MVAR, of_nat (0x01 + (i + 1))]) [0..<n])
      = concat (map (\<lambda>i. encode_arg (ClrArg False (MVar (of_nat (1 + i))))) [1..<Suc n])"
  proof -
    have "[1..<Suc n] = map Suc [0..<n]" by (simp add: map_Suc_upt)
    moreover have "encode_arg (ClrArg False (MVar (of_nat (1 + Suc i)))) = [ELEMENT_TYPE_MVAR, of_nat (0x01 + (i + 1))]"
      if "i < n" for i
      using encode_small [of "1 + Suc i"] assms that by simp
    then have "map (\<lambda>i. encode_arg (ClrArg False (MVar (of_nat (1 + Suc i))))) [0..<n]
        = map (\<lambda>i. [ELEMENT_TYPE_MVAR, of_nat (0x01 + (i + 1))]) [0..<n]"
      by (intro map_cong) auto
    ultimately show ?thesis by (simp only: map_map o_def)
  qed
  moreover have "[0..<Suc n] = 0 # [1..<Suc n]" by (simp add: upt_conv_Cons)
  moreover have "encode_number (of_nat (2 + n)) = [of_nat (2 + n)]" "encode_number (of_nat (1 + n)) = [of_nat (1 + n)]"
    "encode_number (of_nat 1) = [of_nat 1]"
    using assms by (intro encode_small; simp)+
  ultimately show ?thesis
    by (simp add: begin_method_signature_def begin_method_def encode_method_def encode_named_def token_bytes_def
        o_def del: upt_Suc)
qed


lemma begin_method_signature_length:
  "length (begin_method_signature state_buffer n) = 6 + n * 2 + length state_buffer"
  by (simp add: begin_method_signature_def length_concat o_def sum_list_triv)

text \<open>The type the method specification is over, as a function of the tokens.\<close>

definition target_ref :: "CallTargetTokens \<Rightarrow> TypeInfo \<Rightarrow> u32 \<times> bool" where
  "target_ref t ty =
     (if ti_type_spec ty \<noteq> mdTypeSpecNil then (ti_type_spec ty, ti_valueType ty)
      else case declaring_type_loop ty of Some i \<Rightarrow> (i, ti_valueType ty) | None \<Rightarrow> (objectTypeRef t, False))"

lemma GetCurrentTypeRef_run [ct_simps]:
  "GetCurrentTypeRef ty (ti_valueType ty) s = Inr (target_ref (ct_tokens s) ty, s)"
  by (simp add: GetCurrentTypeRef_def target_ref_def ct_simps split: option.splits)

definition method_spec_bytes :: "byte list \<Rightarrow> u32 \<Rightarrow> u32 \<times> bool \<Rightarrow> byte list \<Rightarrow> byte list" where
  "method_spec_bytes count integ target types = [CALLCONV_GENERICINST] @ count @ encode_named False integ
     @ encode_named (snd target) (fst target) @ types"

lemma call_method_spec_run:
  assumes "clr_DefineMethodSpec env member (method_spec_bytes [count] integ (target_ref (ct_tokens s) ty) types) (ct_meta s)
      = ((hr, Some spec), m)" "\<not> FAILED hr"
    and "CallMember spec False (ct_wrapper s) = Inr (p, w)"
    and "length (method_spec_bytes [count] integ (target_ref (ct_tokens s) ty) types) \<le> 500"
  shows "call_method_spec env member integ ty count types s
    = Inr ((S_OK, Some p), s\<lparr>ct_meta := m, ct_wrapper := w\<rparr>)"
proof -
  obtain tk vt where t: "target_ref (ct_tokens s) ty = (tk, vt)" by (metis surj_pair)
  have b: "method_spec_bytes [count] integ (tk, vt) types
      = [CALLCONV_GENERICINST, count, ELEMENT_TYPE_CLASS] @ token_bytes integ
        @ [if vt then ELEMENT_TYPE_VALUETYPE else ELEMENT_TYPE_CLASS] @ token_bytes tk @ types"
    by (simp add: method_spec_bytes_def encode_named_def token_bytes_def)
  show ?thesis
    using assms unfolding t b
    by (simp add: call_method_spec_def ct_simps t Let_def emit_call_def call_member_def)
qed

lemma call_method_spec_overflow_run:
  assumes "500 < length (method_spec_bytes [count] integ (target_ref (ct_tokens s) ty) types)"
  shows "call_method_spec env member integ ty count types s = Inl BadAccess"
proof -
  obtain tk vt where t: "target_ref (ct_tokens s) ty = (tk, vt)" by (metis surj_pair)
  show ?thesis
    using assms unfolding t
    by (simp add: method_spec_bytes_def encode_named_def token_bytes_def [symmetric] call_method_spec_def ct_simps
        t Let_def)
qed

lemma new_locals_signature_run:
  assumes "unat n + unat added \<le> 0x1FFFFFFF"
  shows "new_locals_signature (CALLCONV_LOCAL_SIG # encode_number n @ body) added extra
    = (let sig = CALLCONV_LOCAL_SIG # encode_number (n + added) @ body @ extra in Inr (length sig, sig, n + added))"
proof -
  have le: "n \<le> 0x1FFFFFFF" using assms by (simp add: word_le_nat_alt)
  have sum: "unat (n + added) = unat n + unat added"
    using assms by (subst unat_add_lem [THEN iffD1]) simp_all
  have u: "unat (0x1FFFFFFF :: u32) = 0x1FFFFFFF" by simp
  have le2: "added + n \<le> 0x1FFFFFFF"
    unfolding word_le_nat_alt u using assms sum by (simp only: add.commute [of added])
  have enc: "CorSigCompressData (added + n) = Some (encode_number (added + n))"
    using CorSigCompressData_None_iff [of "added + n"] le2 unfolding encode_number_def by (cases "CorSigCompressData (added + n)") auto
  have neq: "of_nat (length (encode_number n)) \<noteq> ULONG_MAX"
    using encode_number_word(1) [OF le] encode_number_word(2) [OF le, of "[]"] by (auto simp: is_number_def)
  show ?thesis
    using encode_number_word(2,3) [OF le] enc neq
    by (simp add: new_locals_signature_def Let_def add.commute)
qed

section \<open>Properties\<close>

text \<open>Defining the base tokens never crashes and never touches the code being rewritten; when
  it does not fail, all of them are defined, and from then on it returns \<open>S_OK\<close> without calling
  the CLR.\<close>

theorem EnsureBaseCalltargetTokens_once:
  assumes "well_behaved env"
  shows "\<exists>hr s'. EnsureBaseCalltargetTokens env s = Inr (hr, s') \<and> ct_wrapper s' = ct_wrapper s
    \<and> (\<not> FAILED hr \<longrightarrow> base_defined (ct_tokens s') \<and> EnsureBaseCalltargetTokens env s' = Inr (S_OK, s'))"
proof -
  obtain hr s' where "EnsureBaseCalltargetTokens env s = Inr (hr, s')" "ct_wrapper s' = ct_wrapper s"
    "\<not> FAILED hr \<longrightarrow> base_defined (ct_tokens s')"
    using step_EnsureBaseCalltargetTokens [OF assms] unfolding step_ok_def by blast
  then show ?thesis using EnsureBase_defined by blast
qed

text \<open>A CLR that always has the same tokens.\<close>

definition demo_clr :: "unit clr" where
  "demo_clr = \<lparr>
     clr_DefineAssemblyRef = (\<lambda>_ m. ((S_OK, Some 0x23000001), m)),
     clr_DefineTypeRefByName = (\<lambda>_ _ m. ((S_OK, Some 0x01000001), m)),
     clr_DefineMemberRef = (\<lambda>_ _ _ m. ((S_OK, Some 0x0A000001), m)),
     clr_DefineMethodSpec = (\<lambda>_ _ m. ((S_OK, Some 0x2B000001), m)),
     clr_GetTokenFromTypeSpec = (\<lambda>_ m. ((S_OK, Some 0x1B000001), m)),
     clr_GetTokenFromSig = (\<lambda>_ m. ((S_OK, Some 0x11000002), m)),
     clr_GetSigFromToken = (\<lambda>_ _. (S_OK, [CALLCONV_LOCAL_SIG, 0x01, ELEMENT_TYPE_I4])),
     clr_GetTypeSpecFromToken = (\<lambda>_ _. (S_OK, [ELEMENT_TYPE_OBJECT])),
     platform_parse = AssemblyReference_parse\<rparr>"

lemma demo_clr_well_behaved: "well_behaved demo_clr"
  by (simp add: well_behaved_def writes_token_def demo_clr_def)

definition demo_state :: "unit ct_state" where
  "demo_state = \<lparr>ct_tokens = CallTargetTokens_new,
     ct_cor = \<lparr>cor_public_key = [], cor_hash_alg = 0, cor_version = Version 4 0 0 0, cor_locale = [],
       cor_name = WStr ''mscorlib'', cor_flags = 0\<rparr>,
     ct_meta = (), ct_wrapper = ILRewriterWrapper_new demo_rewriter\<rparr>"

theorem EnsureBaseCalltargetTokens_once_witness:
  "\<exists>hr s'. EnsureBaseCalltargetTokens demo_clr demo_state = Inr (hr, s') \<and> ct_wrapper s' = ct_wrapper demo_state
    \<and> (\<not> FAILED hr \<longrightarrow> base_defined (ct_tokens s') \<and> EnsureBaseCalltargetTokens demo_clr s' = Inr (S_OK, s'))"
  by (rule EnsureBaseCalltargetTokens_once [OF demo_clr_well_behaved])

text \<open>For a method with up to eight parameters WriteBeginMethod refers to the BeginMethod with
  one type parameter for the integration, the type and each parameter; instantiates it with
  these types; and calls the instance, as long as the specification fits the buffer.\<close>

theorem WriteBeginMethod_fast:
  assumes "base_defined (ct_tokens s)" "length args < 9"
    and "beginMethodFastPathRefs (ct_tokens s) ! length args = mdMemberRefNil"
      "length (beginMethodFastPathRefs (ct_tokens s)) = 9"
    and "clr_DefineMemberRef env (callTargetTypeRef (ct_tokens s)) managed_profiler_calltarget_beginmethod_name
        (encode_method (begin_method (callTargetStateTypeRef (ct_tokens s)) (length args))) (ct_meta s)
      = ((hr1, Some member), m1)" "\<not> FAILED hr1"
    and "clr_DefineMethodSpec env member
        (method_spec_bytes (encode_number (cm_generic (begin_method (callTargetStateTypeRef (ct_tokens s)) (length args))))
          integ (target_ref (ct_tokens s) ty) (concat (map GetSignature args))) m1 = ((hr2, Some spec), m2)" "\<not> FAILED hr2"
    and "CallMember spec False (ct_wrapper s) = Inr (p, w)"
    and "length (method_spec_bytes [of_nat (2 + length args)] integ (target_ref (ct_tokens s) ty)
        (concat (map GetSignature args))) \<le> 500"
  shows "WriteBeginMethod env integ ty args s = Inr ((S_OK, Some p),
    s\<lparr>ct_tokens := (ct_tokens s)\<lparr>beginMethodFastPathRefs := (beginMethodFastPathRefs (ct_tokens s))[length args := member]\<rparr>,
      ct_meta := m2, ct_wrapper := w\<rparr>)"
proof -
  let ?t = "ct_tokens s" and ?n = "length args" and ?state = "callTargetStateTypeRef (ct_tokens s)"
  let ?t1 = "?t\<lparr>beginMethodFastPathRefs := (beginMethodFastPathRefs ?t)[?n := member]\<rparr>"
  let ?s1 = "s\<lparr>ct_meta := m1, ct_tokens := ?t1\<rparr>"
  have sig: "begin_method_signature (token_bytes ?state) ?n = encode_method (begin_method ?state ?n)"
    by (rule begin_method_encode [OF assms(2)])
  have len: "length (encode_method (begin_method ?state ?n)) = 6 + ?n * 2 + length (token_bytes ?state)"
    unfolding sig [symmetric] begin_method_signature_length by simp
  have arg: "signature_arg (6 + ?n * 2 + length (token_bytes ?state)) (encode_method (begin_method ?state ?n)) s
      = Inr (encode_method (begin_method ?state ?n), s)"
    using assms(2) token_bytes [of ?state] by (intro signature_arg_run) (simp_all add: len)
  have cnt: "encode_number (cm_generic (begin_method ?state ?n)) = [of_nat (2 + ?n)]"
    using encode_small [of "2 + ?n"] assms(2) by (simp add: begin_method_def)
  have tgt: "target_ref (ct_tokens ?s1) ty = target_ref ?t ty" by (simp add: target_ref_def split: option.splits)
  have "call_method_spec env member integ ty (of_nat (2 + ?n)) (concat (map GetSignature args)) ?s1
      = Inr ((S_OK, Some p), ?s1\<lparr>ct_meta := m2, ct_wrapper := w\<rparr>)"
    using assms(7-10) unfolding cnt by (intro call_method_spec_run) (simp_all only: tgt, simp_all)
  then show ?thesis
    using assms(1-6)
    by (simp add: WriteBeginMethod_def ct_simps ensure_run Let_def sig arg emit_call_def)
qed

text \<open>The locals with those that \<open>ModifyLocalSig\<close> adds.\<close>

definition extended_locals :: "CallTargetTokens \<Rightarrow> u32 \<Rightarrow> byte list \<Rightarrow> byte list \<Rightarrow> byte list \<Rightarrow> byte list" where
  "extended_locals t n body value_sig return_sig = CALLCONV_LOCAL_SIG # encode_number n @ body @ value_sig
     @ encode_named False (exTypeRef t) @ return_sig @ encode_named True (callTargetStateTypeRef t)"

lemma GetTargetReturnValueTypeRef_run:
  assumes "base_defined (ct_tokens s)" "callTargetReturnTypeRef (ct_tokens s) \<noteq> mdTypeRefNil"
    and "clr_GetTokenFromTypeSpec env ([ELEMENT_TYPE_GENERICINST] @ encode_named True (callTargetReturnTypeRef (ct_tokens s))
      @ [0x01] @ GetSignature rv) (ct_meta s) = ((hr, Some tk), m)" "\<not> FAILED hr"
    and "length (GetSignature rv) \<le> 400"
  shows "GetTargetReturnValueTypeRef env rv s = Inr (tk, s\<lparr>ct_meta := m\<rparr>)"
proof -
  let ?r = "token_bytes (callTargetReturnTypeRef (ct_tokens s))"
  have "signature_arg (3 + length ?r + length (GetSignature rv)) ([ELEMENT_TYPE_GENERICINST, ELEMENT_TYPE_VALUETYPE] @ ?r
      @ [0x01] @ GetSignature rv) s
    = Inr ([ELEMENT_TYPE_GENERICINST, ELEMENT_TYPE_VALUETYPE] @ ?r @ [0x01] @ GetSignature rv, s)"
    using assms(5) token_bytes [of "callTargetReturnTypeRef (ct_tokens s)"] by (intro signature_arg_run) simp_all
  then show ?thesis
    using assms(1-4)
    by (simp add: GetTargetReturnValueTypeRef_def ct_simps ensure_type_def Let_def emit_call_def
        encode_named_def token_bytes_def [symmetric])
qed

lemma encoded_arg_flags:
  assumes "wf_type (arg_type a)" "arg_ptr rv = encode_arg a @ q"
  shows "\<exists>f e. GetTypeFlags rv = Inr (f, e) \<and> f \<noteq> TypeFlagVoid"
  using GetTypeFlags_arg [OF assms] by (cases a) (auto split: if_splits)


section \<open>Witnesses\<close>

definition demo_tokens :: CallTargetTokens where
  "demo_tokens = CallTargetTokens_new\<lparr>
     corLibAssemblyRef := 0x23000001, objectTypeRef := 0x01000001, exTypeRef := 0x01000002,
     typeRef := 0x01000003, runtimeTypeHandleRef := 0x01000004, getTypeFromHandleToken := 0x0A000001,
     runtimeMethodHandleRef := 0x01000005, profilerAssemblyRef := 0x23000002,
     callTargetTypeRef := 0x01000006, callTargetStateTypeRef := 0x01000007,
     callTargetReturnTypeRef := 0x01000008, callTargetStateTypeGetDefault := 0x0A000002\<rparr>"

definition demo_ready :: "unit ct_state" where
  "demo_ready = demo_state\<lparr>ct_tokens := demo_tokens,
     ct_wrapper := SetILPosition 2 (ILRewriterWrapper_new (SetTkLocalVarSig 0x11000001 demo_rewriter))\<rparr>"

definition demo_arg :: FunctionMethodArgument where
  "demo_arg = \<lparr>arg_offset = 0, arg_length = 1, arg_pbBase = [ELEMENT_TYPE_I4]\<rparr>"

definition demo_type :: TypeInfo where
  "demo_type = TypeInfo 0x02000005 (WStr ''Demo'') mdTypeSpecNil 0x02000000 None False False None"

lemma demo_ready_base: "base_defined (ct_tokens demo_ready)"
  by (simp add: base_defined_def demo_ready_def demo_tokens_def)

lemma demo_token_bytes:
  "token_bytes 0x01000002 = [0x09]" "token_bytes 0x01000007 = [0x1D]" "token_bytes 0x02000005 = [0x14]"
  by (simp_all add: token_bytes_def CorSigCompressToken_eq CorSigCompressData_def RidFromToken_def
      TypeFromToken_def token_tag_def mdtTypeRef_def mdtTypeSpec_def mdtBaseType_def)

lemma demo_encode_named:
  "encode_named v 0x01000002 = [if v then ELEMENT_TYPE_VALUETYPE else ELEMENT_TYPE_CLASS, 0x09]"
  "encode_named v 0x01000007 = [if v then ELEMENT_TYPE_VALUETYPE else ELEMENT_TYPE_CLASS, 0x1D]"
  "encode_named v 0x02000005 = [if v then ELEMENT_TYPE_VALUETYPE else ELEMENT_TYPE_CLASS, 0x14]"
  using demo_token_bytes by (simp_all add: encode_named_def token_bytes_def)

lemma demo_call: "\<exists>p w. CallMember tk v (ct_wrapper demo_ready) = Inr (p, w)"
  by (simp add: CallMember_def emit_def demo_ready_def SetILPosition_def split: prod.splits)

theorem WriteBeginMethod_fast_witness:
  "\<exists>p w. WriteBeginMethod demo_clr 0x01000002 demo_type [demo_arg] demo_ready = Inr ((S_OK, Some p),
    demo_ready\<lparr>ct_tokens := (ct_tokens demo_ready)\<lparr>beginMethodFastPathRefs :=
        (beginMethodFastPathRefs (ct_tokens demo_ready))[length [demo_arg] := 0x0A000001]\<rparr>,
      ct_meta := (), ct_wrapper := w\<rparr>)"
proof -
  obtain p w where c: "CallMember 0x2B000001 False (ct_wrapper demo_ready) = Inr (p, w)"
    using demo_call by blast
  have "WriteBeginMethod demo_clr 0x01000002 demo_type [demo_arg] demo_ready = Inr ((S_OK, Some p),
    demo_ready\<lparr>ct_tokens := (ct_tokens demo_ready)\<lparr>beginMethodFastPathRefs :=
        (beginMethodFastPathRefs (ct_tokens demo_ready))[length [demo_arg] := 0x0A000001]\<rparr>,
      ct_meta := (), ct_wrapper := w\<rparr>)"
    by (rule WriteBeginMethod_fast [OF demo_ready_base _ _ _ _ _ _ _ c, where args = "[demo_arg]" and env = demo_clr
        and ?hr1.0 = S_OK and ?m1.0 = "()" and integ = "0x01000002" and ty = demo_type and ?hr2.0 = S_OK and ?m2.0 = "()"])
      (simp_all add: demo_ready_def demo_tokens_def demo_state_def CallTargetTokens_new_def demo_clr_def demo_arg_def
        GetSignature_def method_spec_bytes_def demo_encode_named target_ref_def demo_type_def)
  then show ?thesis by blast
qed


section \<open>Failures\<close>

text \<open>A failure to define \<open>GetDefaultValue\<close> is returned as if it were a token, and the initialisation
  of the locals emits a call of it.\<close>

lemma GetCallTargetDefaultValueMethodSpec_returns_hresult:
  assumes "base_defined (ct_tokens s)" "getDefaultMemberRef (ct_tokens s) = mdMemberRefNil"
    and "clr_DefineMemberRef env (callTargetTypeRef (ct_tokens s)) managed_profiler_calltarget_getdefaultvalue_name
      [CALLCONV_GENERIC, 0x01, 0x00, ELEMENT_TYPE_MVAR, 0x00] (ct_meta s) = ((hr, None), m)" "FAILED hr"
  shows "GetCallTargetDefaultValueMethodSpec env a s = Inr (hr, s\<lparr>ct_meta := m\<rparr>)"
  using assms by (simp add: GetCallTargetDefaultValueMethodSpec_def ct_simps ensure_run emit_call_def Let_def)

text \<open>A failure of \<open>WriteCallTargetReturnGetReturnValue\<close> is reported as a nil token, which its caller
  takes for success.\<close>

lemma WriteCallTargetReturnGetReturnValue_hides_failure:
  assumes "EnsureBaseCalltargetTokens env s = Inr (hr, s')" "FAILED hr"
  shows "WriteCallTargetReturnGetReturnValue env spec s = Inr ((mdMemberRefNil, None), s') \<and> \<not> FAILED mdMemberRefNil"
  using assms by (simp add: WriteCallTargetReturnGetReturnValue_def ct_simps FAILED_def bit_numeral_word_iff)

text \<open>For a type inside another one \<open>GetCurrentTypeRef\<close> gives the outermost type.\<close>

lemma GetCurrentTypeRef_nested:
  assumes "ti_type_spec (TypeInfo i nm mdTypeSpecNil ty ext vt False (Some outer)) = mdTypeSpecNil"
    and "outer = TypeInfo j nm' mdTypeSpecNil ty' ext' vt' False None"
  shows "GetCurrentTypeRef (TypeInfo i nm mdTypeSpecNil ty ext vt False (Some outer)) vt s = Inr ((j, vt), s)"
  using assms by (simp add: GetCurrentTypeRef_def ct_simps)

end
