(* ===== verification/BlockingQueue.thy ===== *)
theory BlockingQueue
  imports Prelude
begin

text \<open>
  The blocking queues of \<open>util.h\<close> (\<open>BlockingQueue\<close> and \<open>UniqueBlockingQueue\<close>, which differ only
  in how they hold their elements): any number of producers that \<open>push\<close>, and one consumer that
  calls \<open>pop\<close>. What is locked by the mutex is one step; the points between which other threads
  can run are the states of the consumer and the notifications that producers still have to
  send.
\<close>

section \<open>The queue\<close>

text \<open>Where the consumer is in \<open>pop\<close>: not in it, before the mutex, at the test of the loop with the
  mutex held, or asleep on the condition variable with the mutex released.\<close>

datatype pop_state = Outside | Locking | Testing | Waiting

record 'a bqueue =
  queue_items :: "'a list"
  consumer :: pop_state
  unsent :: nat

definition bqueue_new :: "'a bqueue" where
  "bqueue_new = \<lparr>queue_items = [], consumer = Outside, unsent = 0\<rparr>"

datatype 'a queue_event =
    Pushed 'a      \<comment> \<open>the locked part of \<open>push\<close>\<close>
  | Notified       \<comment> \<open>\<open>notify_one\<close>\<close>
  | PopCalled
  | Locked         \<comment> \<open>the consumer gets the mutex\<close>
  | Slept          \<comment> \<open>\<open>condition_.wait\<close> releases the mutex\<close>
  | Popped 'a
  | WokenSpuriously

inductive bq_step :: "'a bqueue \<Rightarrow> 'a queue_event \<Rightarrow> 'a bqueue \<Rightarrow> bool" where
  push: "consumer q \<noteq> Testing \<Longrightarrow>
    bq_step q (Pushed x) (q\<lparr>queue_items := queue_items q @ [x], unsent := Suc (unsent q)\<rparr>)"
| notify: "unsent q = Suc n \<Longrightarrow>
    bq_step q Notified (q\<lparr>unsent := n, consumer := if consumer q = Waiting then Locking else consumer q\<rparr>)"
| pop: "consumer q = Outside \<Longrightarrow> bq_step q PopCalled (q\<lparr>consumer := Locking\<rparr>)"
| lock: "consumer q = Locking \<Longrightarrow> bq_step q Locked (q\<lparr>consumer := Testing\<rparr>)"
| sleep: "consumer q = Testing \<Longrightarrow> queue_items q = [] \<Longrightarrow> bq_step q Slept (q\<lparr>consumer := Waiting\<rparr>)"
| take: "consumer q = Testing \<Longrightarrow> queue_items q = x # xs \<Longrightarrow>
    bq_step q (Popped x) (q\<lparr>queue_items := xs, consumer := Outside\<rparr>)"
| spurious: "consumer q = Waiting \<Longrightarrow> bq_step q WokenSpuriously (q\<lparr>consumer := Locking\<rparr>)"

code_pred (modes: i \<Rightarrow> i \<Rightarrow> o \<Rightarrow> bool) bq_step .

inductive_simps bq_step_simps:
  "bq_step q (Pushed x) q'" "bq_step q Notified q'" "bq_step q PopCalled q'" "bq_step q Locked q'"
  "bq_step q Slept q'" "bq_step q (Popped x) q'" "bq_step q WokenSpuriously q'"

inductive_cases bq_stepE: "bq_step q e q'"

text \<open>The elements pushed and popped in a history.\<close>

fun pushes :: "'a queue_event list \<Rightarrow> 'a list" where
  "pushes [] = []"
| "pushes (Pushed x # es) = x # pushes es"
| "pushes (_ # es) = pushes es"

fun pops :: "'a queue_event list \<Rightarrow> 'a list" where
  "pops [] = []"
| "pops (Popped x # es) = x # pops es"
| "pops (_ # es) = pops es"

lemma pushes_append [simp]: "pushes (es @ es') = pushes es @ pushes es'"
  by (induction es rule: pushes.induct) auto

lemma pops_append [simp]: "pops (es @ es') = pops es @ pops es'"
  by (induction es rule: pops.induct) auto

section \<open>First in, first out\<close>

text \<open>What a client relies on: the contents are a list that grows at the end and shrinks at the
  front. The lemma for clients is that what has been pushed is what has been popped followed by
  what is in the queue.\<close>

locale fifo_queue =
  fixes step :: "'q \<Rightarrow> 'a queue_event \<Rightarrow> 'q \<Rightarrow> bool" and contents :: "'q \<Rightarrow> 'a list"
  assumes contents_push: "step q (Pushed x) q' \<Longrightarrow> contents q' = contents q @ [x]"
    and contents_pop: "step q (Popped x) q' \<Longrightarrow> contents q = x # contents q'"
    and contents_other: "step q e q' \<Longrightarrow> pushes [e] = [] \<Longrightarrow> pops [e] = [] \<Longrightarrow> contents q' = contents q"
begin

inductive history :: "'q \<Rightarrow> 'a queue_event list \<Rightarrow> 'q \<Rightarrow> bool" where
  start: "history q [] q"
| snoc: "history q es q1 \<Longrightarrow> step q1 e q2 \<Longrightarrow> history q (es @ [e]) q2"

lemma fifo:
  assumes "history q es q'"
  shows "contents q @ pushes es = pops es @ contents q'"
  using assms
proof (induction rule: history.induct)
  case (start q)
  then show ?case by simp
next
  case (snoc q es q1 e q2)
  show ?case
  proof (cases e)
    case (Pushed x)
    then show ?thesis using snoc contents_push by simp
  next
    case (Popped x)
    then show ?thesis using snoc contents_pop [of q1 x q2] by simp
  qed (use snoc contents_other [of q1 e q2] in simp_all)
qed

end

interpretation bq: fifo_queue bq_step queue_items
proof (unfold_locales, goal_cases)
  case (3 q e q')
  then show ?case by (cases e) (auto simp: bq_step_simps)
qed (auto simp: bq_step_simps)

section \<open>No lost wake-up\<close>

text \<open>A consumer that sleeps while there is something in the queue will be notified.\<close>

definition wakes :: "'a bqueue \<Rightarrow> bool" where
  "wakes q \<longleftrightarrow> (consumer q = Waiting \<longrightarrow> queue_items q = [] \<or> unsent q > 0)"

lemma wakes_new: "wakes bqueue_new"
  by (simp add: wakes_def bqueue_new_def)

lemma wakes_step: "bq_step q e q' \<Longrightarrow> wakes q \<Longrightarrow> wakes q'"
  by (erule bq_stepE) (auto simp: wakes_def)

section \<open>Systems that come to rest\<close>

text \<open>A step relation that keeps an invariant and decreases a measure comes to rest: from every
  state that satisfies the invariant a state without steps is reached, and no run is longer
  than the measure.\<close>

locale draining =
  fixes step :: "'s \<Rightarrow> 's \<Rightarrow> bool" and inv :: "'s \<Rightarrow> bool" and weight :: "'s \<Rightarrow> nat"
  assumes inv_step: "inv s \<Longrightarrow> step s t \<Longrightarrow> inv t"
    and weight_step: "inv s \<Longrightarrow> step s t \<Longrightarrow> weight t < weight s"
begin

lemma run_bounded:
  assumes "(step ^^ n) s t" "inv s"
  shows "n + weight t \<le> weight s \<and> inv t"
  using assms
proof (induction n arbitrary: t)
  case 0
  then show ?case by simp
next
  case (Suc n)
  then obtain u where u: "(step ^^ n) s u" "step u t" by auto
  from Suc.IH [OF u(1) Suc.prems(2)] show ?case
    using inv_step [OF _ u(2)] weight_step [OF _ u(2)] by fastforce
qed

lemma comes_to_rest:
  assumes "inv s"
  shows "\<exists>t. step\<^sup>*\<^sup>* s t \<and> inv t \<and> (\<forall>u. \<not> step t u)"
  using assms
proof (induction "weight s" arbitrary: s rule: less_induct)
  case less
  show ?case
  proof (cases "\<exists>t. step s t")
    case True
    then obtain t where t: "step s t" by blast
    from less.hyps [OF weight_step [OF less.prems t] inv_step [OF less.prems t]] show ?thesis
      using t by (meson converse_rtranclp_into_rtranclp)
  qed (use less.prems in blast)
qed

end

end
