(* ===== verification/TypeMetadata.thy ===== *)
theory TypeMetadata
  imports CallTargetTokens
begin

text \<open>
  What the profiler reads about types and functions from the metadata of a module
  (\<open>clr_helpers.h\<close>, \<open>clr_helpers.cpp\<close>): \<open>GetTypeInfo\<close> and \<open>GetFunctionInfo\<close>, which call each
  other, and \<open>FindTypeDefByName\<close>. The metadata import interface of the CLR is a parameter; the
  recursion is bounded by the depth of the call stack, and the theorems say which depth is
  enough.
\<close>

section \<open>The metadata import interface\<close>

definition mdtMemberRef :: u32 where "mdtMemberRef = 0x0A000000"
definition mdtMethodDef :: u32 where "mdtMethodDef = 0x06000000"
definition mdtMethodSpec :: u32 where "mdtMethodSpec = 0x2B000000"

abbreviation (input) mdTypeDefNil :: u32 where "mdTypeDefNil \<equiv> 0x02000000"

text \<open>
  Every call returns an \<open>HRESULT\<close> and what its out parameters hold afterwards. The name is the
  buffer up to its first zero, the length the one reported; a parent, a base or an enclosing
  type that is not written stays \<open>mdTokenNil\<close>.
\<close>

record member_props =
  mp_parent :: u32
  mp_name :: wstring
  mp_name_len :: u32
  mp_signature :: "byte list"

record type_props =
  tp_name :: wstring
  tp_name_len :: u32
  tp_extends :: u32

record metadata_import =
  imp_GetMemberRefProps :: "u32 \<Rightarrow> HRESULT \<times> member_props"
  imp_GetMemberProps :: "u32 \<Rightarrow> HRESULT \<times> member_props"
  imp_GetMethodSpecProps :: "u32 \<Rightarrow> HRESULT \<times> u32 \<times> byte list"
  imp_GetTypeDefProps :: "u32 \<Rightarrow> HRESULT \<times> type_props"
  imp_GetNestedClassProps :: "u32 \<Rightarrow> u32"
  imp_GetTypeRefProps :: "u32 \<Rightarrow> HRESULT \<times> wstring \<times> u32"
  imp_GetTypeSpecFromToken :: "u32 \<Rightarrow> HRESULT \<times> byte list"
  imp_FindTypeDefByName :: "wstring \<Rightarrow> u32 \<Rightarrow> HRESULT \<times> u32"

section \<open>Types and functions\<close>

definition TypeInfo_default :: TypeInfo where
  "TypeInfo_default = TypeInfo 0 [] 0 0 None False False None"

definition TypeInfo_IsValid :: "TypeInfo \<Rightarrow> bool" where
  "TypeInfo_IsValid t \<longleftrightarrow> ti_id t \<noteq> 0"

record FunctionInfo =
  fi_id :: u32
  fi_name :: wstring
  fi_type :: TypeInfo
  fi_is_generic :: bool
  fi_signature :: MethodSignature
  fi_function_spec_signature :: MethodSignature
  fi_method_def_id :: u32
  fi_method_signature :: FunctionMethodSignature

definition FunctionMethodSignature_new :: "byte list \<Rightarrow> FunctionMethodSignature" where
  "FunctionMethodSignature_new pb = \<lparr>fms_pbBase = pb, numberOfTypeArguments = 0, numberOfArguments = 0,
     fms_ret = \<lparr>arg_offset = 0, arg_length = 0, arg_pbBase = []\<rparr>, fms_params = []\<rparr>"

definition FunctionInfo_default :: FunctionInfo where
  "FunctionInfo_default = \<lparr>fi_id = 0, fi_name = [], fi_type = TypeInfo_default, fi_is_generic = False,
     fi_signature = [], fi_function_spec_signature = [], fi_method_def_id = 0,
     fi_method_signature = FunctionMethodSignature_new []\<rparr>"

definition FunctionInfo_IsValid :: "FunctionInfo \<Rightarrow> bool" where
  "FunctionInfo_IsValid f \<longleftrightarrow> fi_id f \<noteq> 0"

text \<open>\<open>GetSignatureByteRepresentation\<close> copies the blob byte by byte.\<close>

definition GetSignatureByteRepresentation :: "nat \<Rightarrow> byte list \<Rightarrow> byte list" where
  "GetSignatureByteRepresentation signature_length raw_signature = map (\<lambda>i. raw_signature ! i) [0..<signature_length]"

text \<open>The last backtick decides whether a type is generic: one or two characters follow it.\<close>

definition rfind :: "u16 \<Rightarrow> wstring \<Rightarrow> nat option" where
  "rfind c s = (if c \<in> set s then Some (length s - 1 - length (takeWhile (\<lambda>x. x \<noteq> c) (rev s))) else None)"

definition generic_name :: "wstring \<Rightarrow> bool" where
  "generic_name nm = (case rfind 0x60 nm of
     None \<Rightarrow> False
   | Some generic_token_index \<Rightarrow>
       let idxFromRight = length nm - generic_token_index - 1
       in idxFromRight = 1 \<or> idxFromRight = 2)"

definition value_type_base :: "TypeInfo option \<Rightarrow> bool" where
  "value_type_base extends = (case extends of
     None \<Rightarrow> False
   | Some e \<Rightarrow> ti_name e = WStr ''System.ValueType'' \<or> ti_name e = WStr ''System.Enum'')"

definition type_result :: "u32 \<Rightarrow> HRESULT \<Rightarrow> wstring \<Rightarrow> u32 \<Rightarrow> TypeInfo option \<Rightarrow> bool \<Rightarrow> TypeInfo option \<Rightarrow> TypeInfo" where
  "type_result tok hr nm nm_len extendsInfo type_valueType parentTypeInfo =
     (if FAILED hr \<or> nm_len = 0 then TypeInfo_default
      else TypeInfo tok nm mdTypeSpecNil (TypeFromToken tok) extendsInfo type_valueType
        (generic_name nm) parentTypeInfo)"

text \<open>\<open>std::make_shared<TypeInfo>(GetTypeInfo(...))\<close> for a token that is not nil.\<close>

definition shared_type :: "(u32 \<Rightarrow> hr + TypeInfo) \<Rightarrow> u32 \<Rightarrow> hr + TypeInfo option" where
  "shared_type get_type tk = (if tk \<noteq> mdTokenNil then bindE (get_type tk) (\<lambda>t. Inr (Some t)) else Inr None)"

definition type_spec_token :: "byte list \<Rightarrow> hr + u32" where
  "type_spec_token signature = (case CorSigUncompressToken (drop 2 signature) of
     Inl _ \<Rightarrow> Inl BadAccess | Inr (_, tk) \<Rightarrow> Inr tk)"

definition GetTypeInfo_body :: "metadata_import \<Rightarrow> (u32 \<Rightarrow> hr + TypeInfo) \<Rightarrow> (u32 \<Rightarrow> hr + FunctionInfo)
    \<Rightarrow> u32 \<Rightarrow> hr + TypeInfo" where
  "GetTypeInfo_body imp get_type get_function tok =
     (let token_type = TypeFromToken tok in
      if token_type = mdtTypeDef then
        let (hr, p) = imp_GetTypeDefProps imp tok
        in bindE (shared_type get_type (imp_GetNestedClassProps imp tok)) (\<lambda>parentTypeInfo.
           bindE (shared_type get_type (tp_extends p)) (\<lambda>extendsInfo.
           Inr (type_result tok hr (tp_name p) (tp_name_len p) extendsInfo (value_type_base extendsInfo) parentTypeInfo)))
      else if token_type = mdtTypeRef then
        let (hr, nm, nm_len) = imp_GetTypeRefProps imp tok
        in Inr (type_result tok hr nm nm_len None False None)
      else if token_type = mdtTypeSpec then
        let (hr, signature) = imp_GetTypeSpecFromToken imp tok
        in if FAILED hr \<or> length signature < 3 then Inr TypeInfo_default
           else if signature ! 0 AND ELEMENT_TYPE_GENERICINST \<noteq> 0 then
             bindE (type_spec_token signature) (\<lambda>type_token.
             bindE (get_type type_token) (\<lambda>baseType.
             Inr (TypeInfo (ti_id baseType) (ti_name baseType) tok token_type (ti_extend_from baseType)
               (ti_valueType baseType) (ti_isGeneric baseType) (ti_parent_type baseType))))
           else Inr (type_result tok hr [] 0 None False None)
      else if token_type = mdtMemberRef \<or> token_type = mdtMethodDef then
        bindE (get_function tok) (\<lambda>f. Inr (fi_type f))
      else Inr TypeInfo_default)"

definition GetFunctionInfo_body :: "metadata_import \<Rightarrow> (u32 \<Rightarrow> hr + TypeInfo) \<Rightarrow> (u32 \<Rightarrow> hr + FunctionInfo)
    \<Rightarrow> u32 \<Rightarrow> hr + FunctionInfo" where
  "GetFunctionInfo_body imp get_type get_function tok =
     (let token_type = TypeFromToken tok in
      if token_type = mdtMethodSpec then
        let (hr, parent_token, raw_signature) = imp_GetMethodSpecProps imp tok
        in if FAILED hr then Inr FunctionInfo_default
           else bindE (get_function parent_token) (\<lambda>generic_info.
             bindE (get_type parent_token) (\<lambda>type_info.
             Inr \<lparr>fi_id = tok, fi_name = fi_name generic_info, fi_type = type_info, fi_is_generic = True,
               fi_signature = fi_signature generic_info,
               fi_function_spec_signature = GetSignatureByteRepresentation (length raw_signature) raw_signature,
               fi_method_def_id = fi_id generic_info,
               fi_method_signature = FunctionMethodSignature_new raw_signature\<rparr>))
      else if token_type = mdtMemberRef \<or> token_type = mdtMethodDef then
        let (hr, p) = (if token_type = mdtMemberRef then imp_GetMemberRefProps imp tok else imp_GetMemberProps imp tok)
        in if FAILED hr \<or> mp_name_len p = 0 then Inr FunctionInfo_default
           else bindE (get_type (mp_parent p)) (\<lambda>type_info.
             Inr \<lparr>fi_id = tok, fi_name = mp_name p, fi_type = type_info, fi_is_generic = False,
               fi_signature = GetSignatureByteRepresentation (length (mp_signature p)) (mp_signature p),
               fi_function_spec_signature = [], fi_method_def_id = 0,
               fi_method_signature = FunctionMethodSignature_new (mp_signature p)\<rparr>)
      else Inr FunctionInfo_default)"

fun GetTypeInfo :: "nat \<Rightarrow> metadata_import \<Rightarrow> u32 \<Rightarrow> hr + TypeInfo"
and GetFunctionInfo :: "nat \<Rightarrow> metadata_import \<Rightarrow> u32 \<Rightarrow> hr + FunctionInfo" where
  "GetTypeInfo 0 imp tok = Inl NoFuel"
| "GetTypeInfo (Suc n) imp tok = GetTypeInfo_body imp (GetTypeInfo n imp) (GetFunctionInfo n imp) tok"
| "GetFunctionInfo 0 imp tok = Inl NoFuel"
| "GetFunctionInfo (Suc n) imp tok = GetFunctionInfo_body imp (GetTypeInfo n imp) (GetFunctionInfo n imp) tok"

section \<open>Finding a type by name\<close>

text \<open>\<open>c_str()\<close> hands over the characters up to the first zero.\<close>

definition c_str :: "wstring \<Rightarrow> wstring" where
  "c_str s = takeWhile (\<lambda>c. c \<noteq> 0) s"

text \<open>\<open>None\<close> for \<open>false\<close>, and the type definition found.\<close>

definition find_in :: "metadata_import \<Rightarrow> wstring \<Rightarrow> u32 \<Rightarrow> u32 option" where
  "find_in imp nm parentTypeDef =
     (let (hr, typeDef) = imp_FindTypeDefByName imp (c_str nm) parentTypeDef
      in if FAILED hr then None else Some typeDef)"

definition FindTypeDefByName :: "metadata_import \<Rightarrow> wstring \<Rightarrow> u32 option" where
  "FindTypeDefByName imp instrumentationTargetMethodTypeName =
     (let nameParts = Split instrumentationTargetMethodTypeName 0x2B
      in if length nameParts = 2 then
           (case find_in imp (nameParts ! 0) mdTokenNil of
              None \<Rightarrow> None
            | Some parentTypeDef \<Rightarrow> find_in imp (nameParts ! 1) parentTypeDef)
         else if length nameParts > 2 then None
         else find_in imp instrumentationTargetMethodTypeName mdTypeDefNil)"

section \<open>Termination\<close>

text \<open>The tokens that the two functions follow from a token.\<close>

definition followed :: "metadata_import \<Rightarrow> u32 \<Rightarrow> u32 list" where
  "followed imp tok =
     (let token_type = TypeFromToken tok in
      if token_type = mdtTypeDef then
        filter (\<lambda>tk. tk \<noteq> mdTokenNil) [imp_GetNestedClassProps imp tok, tp_extends (snd (imp_GetTypeDefProps imp tok))]
      else if token_type = mdtTypeSpec then
        (case type_spec_token (snd (imp_GetTypeSpecFromToken imp tok)) of Inl _ \<Rightarrow> [] | Inr tk \<Rightarrow> [tk])
      else if token_type = mdtMemberRef then [mp_parent (snd (imp_GetMemberRefProps imp tok))]
      else if token_type = mdtMethodDef then [mp_parent (snd (imp_GetMemberProps imp tok))]
      else if token_type = mdtMethodSpec then [fst (snd (imp_GetMethodSpecProps imp tok))]
      else [])"

lemma token_types [simp]:
  "mdtTypeDef \<noteq> mdtTypeRef" "mdtTypeDef \<noteq> mdtTypeSpec" "mdtTypeDef \<noteq> mdtMemberRef" "mdtTypeDef \<noteq> mdtMethodDef"
  "mdtTypeSpec \<noteq> mdtTypeRef" "mdtTypeSpec \<noteq> mdtMemberRef" "mdtTypeSpec \<noteq> mdtMethodDef" "mdtTypeSpec \<noteq> mdtTypeDef"
  "mdtMemberRef \<noteq> mdtMethodDef" "mdtMemberRef \<noteq> mdtMethodSpec" "mdtMethodDef \<noteq> mdtMethodSpec"
  "mdtTypeRef \<noteq> mdtTypeDef" "mdtTypeRef \<noteq> mdtTypeSpec" "mdtTypeRef \<noteq> mdtMemberRef" "mdtTypeRef \<noteq> mdtMethodDef"
  "mdtMemberRef \<noteq> mdtTypeDef" "mdtMemberRef \<noteq> mdtTypeSpec" "mdtMemberRef \<noteq> mdtTypeRef"
  "mdtMethodDef \<noteq> mdtTypeDef" "mdtMethodDef \<noteq> mdtTypeSpec" "mdtMethodDef \<noteq> mdtTypeRef" "mdtMethodDef \<noteq> mdtMemberRef"
  "mdtMethodSpec \<noteq> mdtMemberRef" "mdtMethodSpec \<noteq> mdtMethodDef" "mdtMethodSpec \<noteq> mdtTypeDef" "mdtMethodSpec \<noteq> mdtTypeSpec"
  "mdtTypeRef \<noteq> mdtMethodSpec" "mdtTypeDef \<noteq> mdtMethodSpec" "mdtTypeSpec \<noteq> mdtMethodSpec" "mdtMethodSpec \<noteq> mdtTypeRef"
  by (simp_all add: mdtTypeDef_def mdtTypeRef_def mdtTypeSpec_def mdtMemberRef_def mdtMethodDef_def mdtMethodSpec_def)

text \<open>The bodies depend on the calls they make only at the tokens followed, and return when these
  calls do.\<close>

lemma shared_type_cong:
  "(tk \<noteq> mdTokenNil \<Longrightarrow> f tk = g tk) \<Longrightarrow> shared_type f tk = shared_type g tk"
  by (simp add: shared_type_def)

lemma GetTypeInfo_body_cong:
  assumes "\<And>tk. tk \<in> set (followed imp tok) \<Longrightarrow> get_type tk = get_type' tk"
    and "get_function tok = get_function' tok"
  shows "GetTypeInfo_body imp get_type get_function tok = GetTypeInfo_body imp get_type' get_function' tok"
proof -
  have "TypeFromToken tok = mdtTypeDef \<Longrightarrow>
      shared_type get_type (imp_GetNestedClassProps imp tok) = shared_type get_type' (imp_GetNestedClassProps imp tok)
      \<and> shared_type get_type (tp_extends (snd (imp_GetTypeDefProps imp tok)))
        = shared_type get_type' (tp_extends (snd (imp_GetTypeDefProps imp tok)))"
    using assms(1) by (auto simp: followed_def Let_def intro!: shared_type_cong)
  moreover have "TypeFromToken tok = mdtTypeSpec \<Longrightarrow>
      bindE (type_spec_token (snd (imp_GetTypeSpecFromToken imp tok))) get_type
      = bindE (type_spec_token (snd (imp_GetTypeSpecFromToken imp tok))) get_type'"
    using assms(1) by (auto simp: followed_def Let_def intro!: bindE_cong)
  ultimately show ?thesis
    using assms(2)
    by (auto simp: GetTypeInfo_body_def Let_def split_beta bindE_assoc [symmetric])
qed

lemma GetFunctionInfo_body_cong:
  assumes "\<And>tk. tk \<in> set (followed imp tok) \<Longrightarrow> get_type tk = get_type' tk"
    and "\<And>tk. tk \<in> set (followed imp tok) \<Longrightarrow> get_function tk = get_function' tk"
  shows "GetFunctionInfo_body imp get_type get_function tok = GetFunctionInfo_body imp get_type' get_function' tok"
  using assms by (auto simp: GetFunctionInfo_body_def followed_def Let_def split_beta split: if_splits)

lemma shared_type_fueled:
  "(tk \<noteq> mdTokenNil \<Longrightarrow> get_type tk \<noteq> Inl NoFuel) \<Longrightarrow> shared_type get_type tk \<noteq> Inl NoFuel"
  by (cases "get_type tk") (auto simp: shared_type_def)

lemma type_spec_token_fueled: "type_spec_token s \<noteq> Inl NoFuel"
  by (auto simp: type_spec_token_def split: sum.splits)

lemma GetTypeInfo_body_fueled:
  assumes "\<And>tk. tk \<in> set (followed imp tok) \<Longrightarrow> get_type tk \<noteq> Inl NoFuel"
    and "TypeFromToken tok \<in> {mdtMemberRef, mdtMethodDef} \<Longrightarrow> get_function tok \<noteq> Inl NoFuel"
  shows "GetTypeInfo_body imp get_type get_function tok \<noteq> Inl NoFuel"
  using assms
  by (auto simp: GetTypeInfo_body_def followed_def Let_def split_beta bindE_eq_Inl type_spec_token_fueled
      shared_type_fueled split: if_splits)

lemma GetFunctionInfo_body_fueled:
  assumes "\<And>tk. tk \<in> set (followed imp tok) \<Longrightarrow> get_type tk \<noteq> Inl NoFuel"
    and "\<And>tk. tk \<in> set (followed imp tok) \<Longrightarrow> get_function tk \<noteq> Inl NoFuel"
  shows "GetFunctionInfo_body imp get_type get_function tok \<noteq> Inl NoFuel"
  using assms
  by (auto simp: GetFunctionInfo_body_def followed_def Let_def split_beta bindE_eq_Inl split: if_splits)

text \<open>A metadata scope is well founded when \<open>rank\<close> decreases along the tokens followed; the CLR
  refuses to load types that enclose or extend themselves.\<close>

definition ranked :: "metadata_import \<Rightarrow> (u32 \<Rightarrow> nat) \<Rightarrow> bool" where
  "ranked imp rank \<longleftrightarrow> (\<forall>tok. list_all (\<lambda>tk. rank tk < rank tok) (followed imp tok))"

lemma rankedD: "ranked imp rank \<Longrightarrow> tk \<in> set (followed imp tok) \<Longrightarrow> rank tk < rank tok"
  by (auto simp: ranked_def list_all_iff)

lemma depth_enough:
  assumes "ranked imp rank"
  shows "(2 * rank tok + 2 \<le> n \<longrightarrow> GetTypeInfo n imp tok \<noteq> Inl NoFuel)
    \<and> (2 * rank tok + 1 \<le> n \<longrightarrow> GetFunctionInfo n imp tok \<noteq> Inl NoFuel)"
proof (induction n arbitrary: tok)
  case 0
  then show ?case by simp
next
  case (Suc n)
  have types: "GetTypeInfo n imp tk \<noteq> Inl NoFuel" "GetFunctionInfo n imp tk \<noteq> Inl NoFuel"
    if "2 * rank tok + 1 \<le> Suc n" "tk \<in> set (followed imp tok)" for tk
    using Suc.IH [of tk] rankedD [OF assms that(2)] that(1) by auto
  show ?case
  proof (intro conjI impI)
    assume "2 * rank tok + 2 \<le> Suc n"
    then show "GetTypeInfo (Suc n) imp tok \<noteq> Inl NoFuel"
      using types Suc.IH [of tok] unfolding GetTypeInfo.simps by (intro GetTypeInfo_body_fueled) auto
  next
    assume "2 * rank tok + 1 \<le> Suc n"
    then show "GetFunctionInfo (Suc n) imp tok \<noteq> Inl NoFuel"
      using types unfolding GetFunctionInfo.simps by (intro GetFunctionInfo_body_fueled) auto
  qed
qed

lemma depth_stable:
  assumes "ranked imp rank"
  shows "(2 * rank tok + 2 \<le> n \<longrightarrow> n \<le> m \<longrightarrow> GetTypeInfo m imp tok = GetTypeInfo n imp tok)
    \<and> (2 * rank tok + 1 \<le> n \<longrightarrow> n \<le> m \<longrightarrow> GetFunctionInfo m imp tok = GetFunctionInfo n imp tok)"
proof (induction n arbitrary: tok m)
  case 0
  then show ?case by simp
next
  case (Suc n)
  show ?case
  proof (cases m)
    case 0
    then show ?thesis by simp
  next
    case (Suc k)
    have "GetTypeInfo k imp tk = GetTypeInfo n imp tk" "GetFunctionInfo k imp tk = GetFunctionInfo n imp tk"
      if "2 * rank tok + 1 \<le> Suc n" "n \<le> k" "tk \<in> set (followed imp tok)" for tk
      using Suc.IH [of tk k] rankedD [OF assms that(3)] that(1,2) by auto
    note types = this
    show ?thesis
    proof (intro conjI impI)
      assume "2 * rank tok + 2 \<le> Suc n" "Suc n \<le> m"
      then show "GetTypeInfo m imp tok = GetTypeInfo (Suc n) imp tok"
        using types Suc Suc.IH [of tok k] unfolding Suc GetTypeInfo.simps by (intro GetTypeInfo_body_cong) auto
    next
      assume "2 * rank tok + 1 \<le> Suc n" "Suc n \<le> m"
      then show "GetFunctionInfo m imp tok = GetFunctionInfo (Suc n) imp tok"
        using types Suc unfolding Suc GetFunctionInfo.simps by (intro GetFunctionInfo_body_cong) auto
    qed
  qed
qed

section \<open>Well-formed type information\<close>

text \<open>What holds of all type information the profiler builds, at every level: the flags of a type
  follow from its name and its base, and only an instantiated generic type has a type
  specification.\<close>

primrec type_info_ok :: "TypeInfo \<Rightarrow> bool" where
  "type_info_ok (TypeInfo i nm spec ty ext vt gen parent) =
     ((vt = (case ext of None \<Rightarrow> False
         | Some e \<Rightarrow> ti_name e = WStr ''System.ValueType'' \<or> ti_name e = WStr ''System.Enum''))
      \<and> gen = generic_name nm
      \<and> (case map_option type_info_ok ext of None \<Rightarrow> True | Some b \<Rightarrow> b)
      \<and> (case map_option type_info_ok parent of None \<Rightarrow> True | Some b \<Rightarrow> b)
      \<and> (TypeInfo i nm spec ty ext vt gen parent \<noteq> TypeInfo_default \<longrightarrow> spec = mdTypeSpecNil \<or> TypeFromToken spec = mdtTypeSpec))"

lemma generic_name_Nil [simp]: "\<not> generic_name []"
  by (simp add: generic_name_def rfind_def)

lemma type_info_ok_default [simp]: "type_info_ok TypeInfo_default"
  by (simp add: TypeInfo_default_def)

lemma GetTypeInfo_body_ok:
  assumes "\<And>tk t. get_type tk = Inr t \<Longrightarrow> type_info_ok t"
    and "\<And>f. get_function tok = Inr f \<Longrightarrow> type_info_ok (fi_type f)"
    and "GetTypeInfo_body imp get_type get_function tok = Inr t"
  shows "type_info_ok t"
proof -
  have copied: "type_info_ok (TypeInfo (ti_id b) (ti_name b) tok mdtTypeSpec (ti_extend_from b) (ti_valueType b)
      (ti_isGeneric b) (ti_parent_type b))" if "type_info_ok b" "TypeFromToken tok = mdtTypeSpec" for b
    using that by (cases b) auto
  show ?thesis
    using assms(3)
    by (auto simp: GetTypeInfo_body_def Let_def split_beta bindE_eq_Inr shared_type_def type_result_def
        value_type_base_def intro: assms(1,2) copied split: if_splits option.splits)
qed

lemma GetFunctionInfo_body_ok:
  assumes "\<And>tk t. get_type tk = Inr t \<Longrightarrow> type_info_ok t"
    and "GetFunctionInfo_body imp get_type get_function tok = Inr f"
  shows "type_info_ok (fi_type f)"
  using assms(2)
  by (auto simp: GetFunctionInfo_body_def Let_def split_beta bindE_eq_Inr FunctionInfo_default_def
      intro: assms(1) split: if_splits)

lemma infos_ok:
  "(\<forall>t. GetTypeInfo n imp tok = Inr t \<longrightarrow> type_info_ok t)
    \<and> (\<forall>f. GetFunctionInfo n imp tok = Inr f \<longrightarrow> type_info_ok (fi_type f))"
proof (induction n arbitrary: tok)
  case 0
  then show ?case by simp
next
  case (Suc n)
  have types: "type_info_ok t" if "GetTypeInfo n imp tk = Inr t" for tk t using Suc that by blast
  have funs: "type_info_ok (fi_type f)" if "GetFunctionInfo n imp tk = Inr f" for tk f using Suc that by blast
  show ?case
    using GetTypeInfo_body_ok [OF types funs] GetFunctionInfo_body_ok [OF types] by auto
qed

section \<open>Properties\<close>

text \<open>C38. On well-founded metadata GetTypeInfo and GetFunctionInfo return for every token, from a
  stack depth of twice the rank of the token on, and more depth does not change the result.\<close>

theorem GetFunctionInfo_terminates:
  assumes "ranked imp rank" "2 * rank tok + 2 \<le> n"
  shows "GetTypeInfo n imp tok = GetTypeInfo (2 * rank tok + 2) imp tok \<and> GetTypeInfo n imp tok \<noteq> Inl NoFuel
    \<and> GetFunctionInfo n imp tok = GetFunctionInfo (2 * rank tok + 2) imp tok \<and> GetFunctionInfo n imp tok \<noteq> Inl NoFuel"
  using depth_enough [OF assms(1), of tok n] depth_stable [OF assms(1), of tok "2 * rank tok + 2" n] assms(2) by auto

text \<open>A module with one nested class that has a method.\<close>

definition demo_import :: metadata_import where
  "demo_import = \<lparr>
     imp_GetMemberRefProps = (\<lambda>_. (E_FAIL_code, \<lparr>mp_parent = 0, mp_name = [], mp_name_len = 0, mp_signature = []\<rparr>)),
     imp_GetMemberProps = (\<lambda>_. (S_OK, \<lparr>mp_parent = 0x02000003, mp_name = WStr ''Run'', mp_name_len = 4,
       mp_signature = [0x00, 0x01, ELEMENT_TYPE_VOID, ELEMENT_TYPE_I4]\<rparr>)),
     imp_GetMethodSpecProps = (\<lambda>_. (E_FAIL_code, 0, [])),
     imp_GetTypeDefProps = (\<lambda>tk. (S_OK, \<lparr>tp_name = WStr ''Inner'', tp_name_len = 6,
       tp_extends = if tk = 0x02000003 then 0x01000001 else mdTokenNil\<rparr>)),
     imp_GetNestedClassProps = (\<lambda>tk. if tk = 0x02000003 then 0x02000002 else mdTokenNil),
     imp_GetTypeRefProps = (\<lambda>_. (S_OK, WStr ''System.ValueType'', 17)),
     imp_GetTypeSpecFromToken = (\<lambda>_. (E_FAIL_code, [])),
     imp_FindTypeDefByName = (\<lambda>nm tk. if nm = WStr ''Outer'' then (S_OK, 0x02000002)
       else if nm = WStr ''Inner'' \<and> tk = 0x02000002 then (S_OK, 0x02000003) else (0x80131130, 0))\<rparr>"

definition demo_rank :: "u32 \<Rightarrow> nat" where
  "demo_rank tk = (if TypeFromToken tk = mdtMethodDef \<or> TypeFromToken tk = mdtMemberRef
       \<or> TypeFromToken tk = mdtMethodSpec \<or> TypeFromToken tk = mdtTypeSpec then 3
     else if tk = 0x02000003 then 2 else 1)"

lemma demo_tokens_types:
  "TypeFromToken 0x02000003 = mdtTypeDef" "TypeFromToken 0x02000002 = mdtTypeDef" "TypeFromToken 0x01000001 = mdtTypeRef"
  "TypeFromToken 0 = 0" "TypeFromToken 0x06000001 = mdtMethodDef"
  by (simp_all add: TypeFromToken_def mdtTypeDef_def mdtTypeRef_def mdtMethodDef_def)

lemma nil_type: "0 \<noteq> mdtMethodDef" "0 \<noteq> mdtMemberRef" "0 \<noteq> mdtMethodSpec" "0 \<noteq> mdtTypeSpec"
  by (simp_all add: mdtTypeSpec_def mdtMemberRef_def mdtMethodDef_def mdtMethodSpec_def)

lemma demo_ranked: "ranked demo_import demo_rank"
proof -
  have "type_spec_token [] = Inl BadAccess"
    by (simp add: type_spec_token_def CorSigUncompressToken_def CorSigUncompressData_def CorSigUncompressData_len_def)
  then show ?thesis
    by (auto simp: ranked_def followed_def demo_import_def demo_rank_def Let_def demo_tokens_types nil_type)
qed

theorem GetFunctionInfo_terminates_witness:
  "GetTypeInfo 10 demo_import 0x06000001 = GetTypeInfo (2 * demo_rank 0x06000001 + 2) demo_import 0x06000001
    \<and> GetTypeInfo 10 demo_import 0x06000001 \<noteq> Inl NoFuel
    \<and> GetFunctionInfo 10 demo_import 0x06000001 = GetFunctionInfo (2 * demo_rank 0x06000001 + 2) demo_import 0x06000001
    \<and> GetFunctionInfo 10 demo_import 0x06000001 \<noteq> Inl NoFuel"
proof -
  have "2 * demo_rank 0x06000001 + 2 \<le> 10" by (simp add: demo_rank_def demo_tokens_types)
  then show ?thesis by (rule GetFunctionInfo_terminates [OF demo_ranked])
qed



section \<open>Failures\<close>

text \<open>The test for a generic instance is a test for common bits: the signature of an array of a
  class passes it, and the array is taken for the element class.\<close>

lemma GetTypeInfo_array_as_generic:
  assumes "TypeFromToken tok = mdtTypeSpec" "imp_GetTypeSpecFromToken imp tok = (S_OK, [ELEMENT_TYPE_SZARRAY, ELEMENT_TYPE_CLASS, 0x09])"
    and "GetTypeInfo n imp 0x01000002 = Inr element"
  shows "\<exists>t. GetTypeInfo (Suc n) imp tok = Inr t \<and> ti_id t = ti_id element \<and> ti_name t = ti_name element \<and> ti_type_spec t = tok"
proof -
  have "type_spec_token [ELEMENT_TYPE_SZARRAY, ELEMENT_TYPE_CLASS, 0x09] = Inr 0x01000002"
    by (simp add: type_spec_token_def CorSigUncompressToken_def CorSigUncompressData_def CorSigUncompressData_len_def
        TokenFromRid_def g_tkCorEncodeToken_def mdtTypeRef_def)
  then show ?thesis
    using assms by (simp add: GetTypeInfo_body_def Let_def)
qed

text \<open>A module reference is asked for its name, but the failure code that the function starts with
  stays, so it always gives the empty type information.\<close>

lemma GetTypeInfo_module_ref:
  "TypeFromToken tok = 0x1A000000 \<Longrightarrow> GetTypeInfo (Suc n) imp tok = Inr TypeInfo_default"
  by (simp add: GetTypeInfo_body_def mdtTypeDef_def mdtTypeRef_def mdtTypeSpec_def mdtMemberRef_def mdtMethodDef_def)

text \<open>The empty type information has type specification 0, which is not nil: it counts as a type
  specification.\<close>

lemma GetCurrentTypeRef_default:
  "GetCurrentTypeRef TypeInfo_default vt s = Inr ((0, vt), s)"
  by (simp add: GetCurrentTypeRef_def TypeInfo_default_def ct_simps)

end
