(* ===== verification/RejitHandler.thy ===== *)
theory RejitHandler
  imports BlockingQueue TypeMetadata IntegrationFilter
begin

text \<open>
  The handler of re-JIT requests (\<open>rejit_handler.h\<close>, \<open>rejit_handler.cpp\<close>): the modules and
  methods it knows, the guards in front of the rewriting callback, and the thread that takes
  requests from a queue and hands them to the CLR.

  Pointers to objects the handler does not own (module metadata, function controls) are
  addresses, 0 for the null pointer. Pointers to its own modules and methods are the keys they
  are stored under.
\<close>

section \<open>Modules and methods\<close>

type_synonym ModuleID = u64
type_synonym address = nat

abbreviation (input) nullptr :: address where "nullptr \<equiv> 0"
abbreviation (input) mdMethodDefNil :: u32 where "mdMethodDefNil \<equiv> 0x06000000"
abbreviation (input) S_FALSE :: HRESULT where "S_FALSE \<equiv> 1"

record RejitHandlerModuleMethod =
  m_methodDef :: u32
  m_pFunctionControl :: address
  m_functionInfo :: "FunctionInfo option"
  m_methodReplacement :: "MethodReplacement option"

record RejitHandlerModule =
  m_moduleId :: ModuleID
  m_metadata :: address
  m_methods :: "u32 \<rightharpoonup> RejitHandlerModuleMethod"

definition RejitHandlerModuleMethod_new :: "u32 \<Rightarrow> RejitHandlerModuleMethod" where
  "RejitHandlerModuleMethod_new methodDef = \<lparr>m_methodDef = methodDef, m_pFunctionControl = nullptr,
     m_functionInfo = None, m_methodReplacement = None\<rparr>"

definition GetMethodDef :: "RejitHandlerModuleMethod \<Rightarrow> u32" where "GetMethodDef = m_methodDef"
definition GetFunctionControl :: "RejitHandlerModuleMethod \<Rightarrow> address" where "GetFunctionControl = m_pFunctionControl"
definition SetFunctionControl :: "address \<Rightarrow> RejitHandlerModuleMethod \<Rightarrow> RejitHandlerModuleMethod" where
  "SetFunctionControl pFunctionControl m = m\<lparr>m_pFunctionControl := pFunctionControl\<rparr>"
definition GetMethodFunctionInfo :: "RejitHandlerModuleMethod \<Rightarrow> FunctionInfo option" where
  "GetMethodFunctionInfo = m_functionInfo"
definition SetFunctionInfo :: "FunctionInfo \<Rightarrow> RejitHandlerModuleMethod \<Rightarrow> RejitHandlerModuleMethod" where
  "SetFunctionInfo functionInfo m = m\<lparr>m_functionInfo := Some functionInfo\<rparr>"
definition GetMethodReplacement :: "RejitHandlerModuleMethod \<Rightarrow> MethodReplacement option" where
  "GetMethodReplacement = m_methodReplacement"
definition SetMethodReplacement :: "MethodReplacement \<Rightarrow> RejitHandlerModuleMethod \<Rightarrow> RejitHandlerModuleMethod" where
  "SetMethodReplacement methodReplacement m = m\<lparr>m_methodReplacement := Some methodReplacement\<rparr>"

definition RejitHandlerModule_new :: "ModuleID \<Rightarrow> RejitHandlerModule" where
  "RejitHandlerModule_new moduleId = \<lparr>m_moduleId = moduleId, m_metadata = nullptr, m_methods = Map.empty\<rparr>"

definition GetModuleId :: "RejitHandlerModule \<Rightarrow> ModuleID" where "GetModuleId = m_moduleId"
definition GetModuleMetadata :: "RejitHandlerModule \<Rightarrow> address" where "GetModuleMetadata = m_metadata"
definition SetModuleMetadata :: "address \<Rightarrow> RejitHandlerModule \<Rightarrow> RejitHandlerModule" where
  "SetModuleMetadata metadata m = m\<lparr>m_metadata := metadata\<rparr>"

definition GetOrAddMethod :: "u32 \<Rightarrow> RejitHandlerModule \<Rightarrow> RejitHandlerModuleMethod \<times> RejitHandlerModule" where
  "GetOrAddMethod methodDef m = (case m_methods m methodDef of
     Some methodHandler \<Rightarrow> (methodHandler, m)
   | None \<Rightarrow> let methodHandler = RejitHandlerModuleMethod_new methodDef
       in (methodHandler, m\<lparr>m_methods := (m_methods m)(methodDef \<mapsto> methodHandler)\<rparr>))"

definition TryGetMethod :: "u32 \<Rightarrow> RejitHandlerModule \<Rightarrow> RejitHandlerModuleMethod option" where
  "TryGetMethod methodDef m = m_methods m methodDef"

definition ContainsMethod :: "u32 \<Rightarrow> RejitHandlerModule \<Rightarrow> bool" where
  "ContainsMethod methodDef m \<longleftrightarrow> m_methods m methodDef \<noteq> None"

section \<open>The handler\<close>

text \<open>The array members of an item are what the two \<open>new[]\<close> and \<open>std::copy\<close> leave.\<close>

record RejitItem =
  m_length :: "int"
  m_modulesId :: "ModuleID list"
  m_methodDefs :: "u32 list"

definition CreateEndRejitThread :: RejitItem where
  "CreateEndRejitThread = \<lparr>m_length = -1, m_modulesId = [], m_methodDefs = []\<rparr>"

text \<open>The callback is the rewriter of \<open>cor_profiler.cpp\<close>; \<open>None\<close> is an empty \<open>std::function\<close>.\<close>

type_synonym rewrite_callback = "RejitHandlerModule \<Rightarrow> RejitHandlerModuleMethod \<Rightarrow> HRESULT"

record RejitHandler =
  m_modules :: "ModuleID \<rightharpoonup> RejitHandlerModule"
  m_rewriteCallback :: "rewrite_callback option"

definition RejitHandler_new :: "rewrite_callback \<Rightarrow> RejitHandler" where
  "RejitHandler_new rewriteCallback = \<lparr>m_modules = Map.empty, m_rewriteCallback = Some rewriteCallback\<rparr>"

definition GetOrAddModule :: "ModuleID \<Rightarrow> RejitHandler \<Rightarrow> RejitHandlerModule \<times> RejitHandler" where
  "GetOrAddModule moduleId h = (case m_modules h moduleId of
     Some moduleHandler \<Rightarrow> (moduleHandler, h)
   | None \<Rightarrow> let moduleHandler = RejitHandlerModule_new moduleId
       in (moduleHandler, h\<lparr>m_modules := (m_modules h)(moduleId \<mapsto> moduleHandler)\<rparr>))"

definition TryGetModule :: "ModuleID \<Rightarrow> RejitHandler \<Rightarrow> RejitHandlerModule option" where
  "TryGetModule moduleId h = m_modules h moduleId"

definition RemoveModule :: "ModuleID \<Rightarrow> RejitHandler \<Rightarrow> RejitHandler" where
  "RemoveModule moduleId h = h\<lparr>m_modules := (m_modules h)(moduleId := None)\<rparr>"

text \<open>What is written through a pointer to a module or to a method of it.\<close>

definition put_module :: "RejitHandlerModule \<Rightarrow> ModuleID \<Rightarrow> RejitHandler \<Rightarrow> RejitHandler" where
  "put_module m moduleId h = h\<lparr>m_modules := (m_modules h)(moduleId \<mapsto> m)\<rparr>"

definition put_method :: "RejitHandlerModuleMethod \<Rightarrow> u32 \<Rightarrow> RejitHandlerModule \<Rightarrow> RejitHandlerModule" where
  "put_method m methodDef md = md\<lparr>m_methods := (m_methods md)(methodDef \<mapsto> m)\<rparr>"

text \<open>The item that \<open>EnqueueForRejit\<close> pushes: both arrays have the length of the second vector, and
  copying a longer first one writes behind the end; what is not copied is \<open>uninit\<close>.\<close>

definition EnqueueForRejit :: "ModuleID \<Rightarrow> ModuleID list \<Rightarrow> u32 list \<Rightarrow> hr + RejitItem" where
  "EnqueueForRejit uninit modulesVector modulesMethodDef =
     (let len = length modulesMethodDef in
      if length modulesVector > len then Inl BadAccess
      else Inr \<lparr>m_length = signed_take_bit 31 (int len),
        m_modulesId = modulesVector @ replicate (len - length modulesVector) uninit,
        m_methodDefs = modulesMethodDef\<rparr>)"

text \<open>\<open>Shutdown\<close>, after the thread has been joined.\<close>

definition Shutdown_clear :: "RejitHandler \<Rightarrow> RejitHandler" where
  "Shutdown_clear h = h\<lparr>m_modules := Map.empty, m_rewriteCallback := None\<rparr>"

definition NotifyReJITParameters :: "ModuleID \<Rightarrow> u32 \<Rightarrow> address \<Rightarrow> address \<Rightarrow> RejitHandler
    \<Rightarrow> hr + (HRESULT \<times> RejitHandler)" where
  "NotifyReJITParameters moduleId methodId pFunctionControl metadata h =
     (let (moduleHandler, h) = GetOrAddModule moduleId h;
          moduleHandler = SetModuleMetadata metadata moduleHandler;
          (methodHandler, moduleHandler) = GetOrAddMethod methodId moduleHandler;
          methodHandler = SetFunctionControl pFunctionControl methodHandler;
          moduleHandler = put_method methodHandler methodId moduleHandler;
          h = put_module moduleHandler moduleId h
      in if GetMethodDef methodHandler = mdMethodDefNil then Inr (S_FALSE, h)
         else if GetFunctionControl methodHandler = nullptr then Inr (S_FALSE, h)
         else if GetMethodFunctionInfo methodHandler = None then Inr (S_FALSE, h)
         else if GetMethodReplacement methodHandler = None then Inr (S_FALSE, h)
         else if GetModuleId moduleHandler = 0 then Inr (S_FALSE, h)
         else if GetModuleMetadata moduleHandler = nullptr then Inr (S_FALSE, h)
         else case m_rewriteCallback h of
             None \<Rightarrow> Inl BadAccess
           | Some callback \<Rightarrow> Inr (callback moduleHandler methodHandler, h))"

definition NotifyReJITCompilationStarted :: "u64 \<Rightarrow> u64 \<Rightarrow> HRESULT" where
  "NotifyReJITCompilationStarted functionId rejitId = S_OK"

section \<open>The request thread\<close>

text \<open>\<open>EnqueueThreadLoop\<close>: the result of \<open>InitializeCurrentThread\<close> and of \<open>RequestReJIT\<close> only goes to
  the log. \<open>rs_requests\<close> is what the CLR has been asked for.\<close>

datatype thread_state = Starting | Popping | Requesting RejitItem | Exited

type_synonym rejit_request = "u32 \<times> ModuleID list \<times> u32 list"

record rejit_system =
  rs_queue :: "RejitItem bqueue"
  rs_thread :: thread_state
  rs_requests :: "rejit_request list"

definition rejit_system_new :: rejit_system where
  "rejit_system_new = \<lparr>rs_queue = bqueue_new, rs_thread = Starting, rs_requests = []\<rparr>"

definition request_of :: "RejitItem \<Rightarrow> rejit_request" where
  "request_of item = (word_of_int (m_length item), m_modulesId item, m_methodDefs item)"

text \<open>A step is labelled with what it does to the queue, if anything.\<close>

inductive rejit_step :: "rejit_system \<Rightarrow> RejitItem queue_event option \<Rightarrow> rejit_system \<Rightarrow> bool" where
  queue: "bq_step (rs_queue s) e q \<Longrightarrow> e \<noteq> PopCalled \<Longrightarrow> pops [e] = [] \<Longrightarrow>
    rejit_step s (Some e) (s\<lparr>rs_queue := q\<rparr>)"
| init: "rs_thread s = Starting \<Longrightarrow> bq_step (rs_queue s) PopCalled q \<Longrightarrow>
    rejit_step s (Some PopCalled) (s\<lparr>rs_queue := q, rs_thread := Popping\<rparr>)"
| item: "rs_thread s = Popping \<Longrightarrow> bq_step (rs_queue s) (Popped x) q \<Longrightarrow>
    rejit_step s (Some (Popped x)) (s\<lparr>rs_queue := q, rs_thread := Requesting x\<rparr>)"
| request: "rs_thread s = Requesting x \<Longrightarrow> m_length x \<noteq> -1 \<Longrightarrow> bq_step (rs_queue s) PopCalled q \<Longrightarrow>
    rejit_step s (Some PopCalled) (s\<lparr>rs_queue := q, rs_thread := Popping, rs_requests := rs_requests s @ [request_of x]\<rparr>)"
| exit: "rs_thread s = Requesting x \<Longrightarrow> m_length x = -1 \<Longrightarrow> rejit_step s None (s\<lparr>rs_thread := Exited\<rparr>)"

code_pred (modes: i \<Rightarrow> i \<Rightarrow> o \<Rightarrow> bool) rejit_step .

inductive_cases rejit_stepE: "rejit_step s e t"

lemmas rejit_step_cases [consumes 1, case_names queue init item request exit] = rejit_stepE

text \<open>A history of the system from its start, with the elements pushed so far.\<close>

inductive rejit_run :: "RejitItem list \<Rightarrow> rejit_system \<Rightarrow> bool" where
  start: "rejit_run [] rejit_system_new"
| step: "rejit_run xs s \<Longrightarrow> rejit_step s e t \<Longrightarrow> rejit_run (xs @ pushes (case e of None \<Rightarrow> [] | Some e \<Rightarrow> [e])) t"

text \<open>The thread on its own: what happens when no one pushes, and no thread wakes up for no reason.\<close>

definition thread_step :: "rejit_system \<Rightarrow> rejit_system \<Rightarrow> bool" where
  "thread_step s t \<longleftrightarrow> (\<exists>e. rejit_step s e t \<and> e \<noteq> Some WokenSpuriously \<and> (\<forall>x. e \<noteq> Some (Pushed x)))"

section \<open>The invariant of the request thread\<close>

definition held :: "RejitItem list \<Rightarrow> thread_state \<Rightarrow> bool" where
  "held xs th = (case th of
     Requesting x \<Rightarrow> xs = [x]
   | Exited \<Rightarrow> (case xs of [x] \<Rightarrow> m_length x = -1 | _ \<Rightarrow> False)
   | _ \<Rightarrow> xs = [])"

lemma held_simps [simp]:
  "held xs Starting = (xs = [])" "held xs Popping = (xs = [])" "held xs (Requesting x) = (xs = [x])"
  "held xs Exited = (\<exists>x. xs = [x] \<and> m_length x = -1)"
  by (auto simp: held_def split: list.splits)

text \<open>Of the items pushed, those requested come first, then the one the thread holds, then the
  queue.\<close>

definition served :: "RejitItem list \<Rightarrow> rejit_system \<Rightarrow> bool" where
  "served xs s \<longleftrightarrow> (\<exists>ys zs. xs = ys @ zs @ queue_items (rs_queue s) \<and> rs_requests s = map request_of ys
     \<and> list_all (\<lambda>x. m_length x \<noteq> -1) ys \<and> held zs (rs_thread s))"

definition rejit_inv :: "RejitItem list \<Rightarrow> rejit_system \<Rightarrow> bool" where
  "rejit_inv xs s \<longleftrightarrow> served xs s \<and> wakes (rs_queue s) \<and> (rs_thread s = Popping \<longleftrightarrow> consumer (rs_queue s) \<noteq> Outside)"

lemma consumer_in_pop:
  "bq_step q e q' \<Longrightarrow> e \<noteq> PopCalled \<Longrightarrow> pops [e] = [] \<Longrightarrow> (consumer q' = Outside \<longleftrightarrow> consumer q = Outside)"
  by (erule bq_stepE) auto

lemma queue_grows:
  "bq_step q e q' \<Longrightarrow> pops [e] = [] \<Longrightarrow> queue_items q' = queue_items q @ pushes [e]"
  using bq.contents_push bq.contents_other [of q e q'] by (cases e) auto

lemma served_queue:
  "served xs s \<Longrightarrow> queue_items q = queue_items (rs_queue s) @ ys \<Longrightarrow> served (xs @ ys) (s\<lparr>rs_queue := q\<rparr>)"
  unfolding served_def by auto

lemma rejit_inv_step:
  assumes "rejit_step s e t" "rejit_inv xs s"
  shows "rejit_inv (xs @ pushes (case e of None \<Rightarrow> [] | Some e \<Rightarrow> [e])) t"
  using assms(1)
proof (cases rule: rejit_step_cases)
  case (queue e' q)
  have "served (xs @ pushes [e']) t"
    using assms(2) queue(2) served_queue [OF _ queue_grows [OF queue(3,5)]] by (simp add: rejit_inv_def)
  then show ?thesis
    using assms(2) queue consumer_in_pop [OF queue(3-5)] wakes_step [OF queue(3)] by (simp add: rejit_inv_def)
next
  case (init q)
  then show ?thesis
    using assms(2) wakes_step [OF init(4)] by (auto simp: rejit_inv_def served_def bq_step_simps)
next
  case (item x q)
  have "consumer q = Outside" using item(4) by (rule bq_stepE) simp_all
  moreover have "queue_items (rs_queue s) = x # queue_items q" using bq.contents_pop [OF item(4)] .
  ultimately show ?thesis
    using assms(2) item wakes_step [OF item(4)] by (auto simp: rejit_inv_def served_def)
next
  case (request x q)
  obtain ys where ys: "xs = ys @ [x] @ queue_items (rs_queue s)" "rs_requests s = map request_of ys"
    "list_all (\<lambda>x. m_length x \<noteq> -1) ys"
    using assms(2) request(3) by (auto simp: rejit_inv_def served_def)
  have q: "queue_items q = queue_items (rs_queue s)" "consumer q = Locking"
    using request(5) by (auto simp: bq_step_simps)
  have "served xs t"
    unfolding served_def using ys request(2,4) q by (intro exI [of _ "ys @ [x]"] exI [of _ "[]"]) simp
  then show ?thesis
    using assms(2) request q wakes_step [OF request(5)] by (simp add: rejit_inv_def)
next
  case (exit x)
  obtain ys where ys: "xs = ys @ [x] @ queue_items (rs_queue s)" "rs_requests s = map request_of ys"
    "list_all (\<lambda>x. m_length x \<noteq> -1) ys"
    using assms(2) exit(3) by (auto simp: rejit_inv_def served_def)
  have "served xs t"
    unfolding served_def using ys exit by (intro exI [of _ ys] exI [of _ "[x]"]) simp
  then show ?thesis using assms(2) exit by (simp add: rejit_inv_def)
qed

lemma rejit_run_inv: "rejit_run xs s \<Longrightarrow> rejit_inv xs s"
proof (induction rule: rejit_run.induct)
  case start
  then show ?case
    by (simp add: rejit_inv_def served_def rejit_system_new_def bqueue_new_def wakes_def)
next
  case (step xs s e t)
  show ?case by (rule rejit_inv_step [OF step(2,3)])
qed

section \<open>Draining the queue\<close>

definition pop_weight :: "pop_state \<Rightarrow> nat" where
  "pop_weight p = (case p of Locking \<Rightarrow> 2 | Testing \<Rightarrow> 1 | _ \<Rightarrow> 0)"

definition thread_weight :: "thread_state \<Rightarrow> nat" where
  "thread_weight th = (case th of Starting \<Rightarrow> 3 | Requesting _ \<Rightarrow> 3 | _ \<Rightarrow> 0)"

definition rejit_weight :: "rejit_system \<Rightarrow> nat" where
  "rejit_weight s = 6 * length (queue_items (rs_queue s)) + 4 * unsent (rs_queue s)
     + pop_weight (consumer (rs_queue s)) + thread_weight (rs_thread s)"

lemma thread_step_pushes: "thread_step s t \<Longrightarrow> \<exists>e. rejit_step s e t \<and> pushes (case e of None \<Rightarrow> [] | Some e \<Rightarrow> [e]) = []"
proof -
  assume "thread_step s t"
  then obtain e where "rejit_step s e t" "\<forall>x. e \<noteq> Some (Pushed x)" by (auto simp: thread_step_def)
  moreover from this(2) have "pushes (case e of None \<Rightarrow> [] | Some e \<Rightarrow> [e]) = []"
  proof (cases e)
    case (Some e')
    with \<open>\<forall>x. e \<noteq> Some (Pushed x)\<close> show ?thesis by (cases e') auto
  qed simp
  ultimately show ?thesis by blast
qed

lemma thread_step_inv: "rejit_inv xs s \<Longrightarrow> thread_step s t \<Longrightarrow> rejit_inv xs t"
  using thread_step_pushes rejit_inv_step by fastforce

lemma thread_step_weight:
  assumes "rejit_inv xs s" "thread_step s t"
  shows "rejit_weight t < rejit_weight s"
proof -
  obtain e where e: "rejit_step s e t" "e \<noteq> Some WokenSpuriously" "\<forall>x. e \<noteq> Some (Pushed x)"
    using assms(2) by (auto simp: thread_step_def)
  from e(1) show ?thesis
  proof (cases rule: rejit_step_cases)
    case (queue e' q)
    then show ?thesis
      using e(2,3) by (cases e') (auto simp: bq_step_simps rejit_weight_def pop_weight_def)
  qed (auto simp: bq_step_simps rejit_weight_def pop_weight_def thread_weight_def)
qed

interpretation rejit_thread: draining thread_step "rejit_inv xs" rejit_weight for xs
  by unfold_locales (use thread_step_inv thread_step_weight in blast)+

text \<open>A thread that cannot go on has exited, or sleeps at an empty queue.\<close>

lemma thread_at_rest:
  assumes "rejit_inv xs s" "\<forall>t. \<not> thread_step s t"
  shows "rs_thread s = Exited \<or> rs_thread s = Popping \<and> queue_items (rs_queue s) = []"
proof -
  have go: False if "rejit_step s e t" "e \<noteq> Some WokenSpuriously" "\<forall>x. e \<noteq> Some (Pushed x)" for e t
    using assms(2) that unfolding thread_step_def by blast
  let ?q = "rs_queue s"
  have outside: "consumer ?q = Outside" if "rs_thread s \<noteq> Popping" using assms(1) that by (simp add: rejit_inv_def)
  show ?thesis
  proof (cases "rs_thread s")
    case Starting
    then show ?thesis using go [OF rejit_step.init [OF Starting bq_step.pop]] outside by simp
  next
    case Popping
    have "consumer ?q \<noteq> Locking"
      using go [OF rejit_step.queue [OF bq_step.lock]] by auto
    moreover have "consumer ?q \<noteq> Testing"
    proof (cases "queue_items ?q")
      case Nil
      then show ?thesis using go [OF rejit_step.queue [OF bq_step.sleep]] by auto
    next
      case (Cons x xs)
      then show ?thesis using go [OF rejit_step.item [OF Popping bq_step.take]] by auto
    qed
    ultimately have "consumer ?q = Waiting"
      using assms(1) Popping by (cases "consumer ?q") (auto simp: rejit_inv_def)
    moreover have "unsent ?q = 0"
      using go [OF rejit_step.queue [OF bq_step.notify]] by (cases "unsent ?q") auto
    ultimately show ?thesis using assms(1) Popping by (simp add: rejit_inv_def wakes_def)
  next
    case (Requesting x)
    then show ?thesis
      using go [OF rejit_step.request [OF Requesting _ bq_step.pop]] go [OF rejit_step.exit [OF Requesting]] outside
      by auto
  qed simp
qed

lemma served_exited:
  assumes "served xs s" "rs_thread s = Exited"
  shows "rs_requests s = map request_of (takeWhile (\<lambda>x. m_length x \<noteq> -1) xs)"
proof -
  obtain ys x where "xs = ys @ [x] @ queue_items (rs_queue s)" "rs_requests s = map request_of ys"
    "list_all (\<lambda>x. m_length x \<noteq> -1) ys" "m_length x = -1"
    using assms by (auto simp: served_def)
  then show ?thesis by (simp add: list_all_iff)
qed

lemma served_waiting:
  assumes "served xs s" "rs_thread s = Popping" "queue_items (rs_queue s) = []" "x \<in> set xs"
  shows "m_length x \<noteq> -1"
  using assms by (auto simp: served_def list_all_iff)

section \<open>Properties\<close>

text \<open>C28. Whatever the interleaving of producers and the request thread, the CLR is asked for
  exactly the requests that were pushed, in the order in which they were pushed, without loss or
  repetition: they are followed by the item the thread holds and by the queue; and the thread
  never sleeps over a request without a notification on its way.\<close>

theorem rejit_requests_fifo:
  assumes "rejit_run xs s"
  shows "\<exists>ys zs. xs = ys @ zs @ queue_items (rs_queue s) \<and> rs_requests s = map request_of ys
      \<and> length zs \<le> 1 \<and> (zs \<noteq> [] \<longrightarrow> rs_thread s \<in> {Exited, Requesting (hd zs)})
    \<and> (consumer (rs_queue s) = Waiting \<longrightarrow> queue_items (rs_queue s) = [] \<or> unsent (rs_queue s) > 0)"
proof -
  obtain ys zs where "xs = ys @ zs @ queue_items (rs_queue s)" "rs_requests s = map request_of ys"
    "held zs (rs_thread s)"
    using rejit_run_inv [OF assms] by (auto simp: rejit_inv_def served_def)
  moreover have "length zs \<le> 1" "zs \<noteq> [] \<longrightarrow> rs_thread s \<in> {Exited, Requesting (hd zs)}"
    using \<open>held zs (rs_thread s)\<close> by (cases "rs_thread s"; auto)+
  moreover have "wakes (rs_queue s)" using rejit_run_inv [OF assms] by (simp add: rejit_inv_def)
  ultimately show ?thesis unfolding wakes_def by blast
qed

text \<open>A run in which one request and the end item are pushed before the thread starts.\<close>

definition demo_item :: RejitItem where
  "demo_item = \<lparr>m_length = 1, m_modulesId = [7], m_methodDefs = [0x06000001]\<rparr>"

definition demo_pushed :: rejit_system where
  "demo_pushed = \<lparr>rs_queue = \<lparr>queue_items = [demo_item, CreateEndRejitThread], consumer = Outside, unsent = 2\<rparr>,
     rs_thread = Starting, rs_requests = []\<rparr>"

lemma demo_run: "rejit_run [demo_item, CreateEndRejitThread] demo_pushed"
proof -
  have push: "rejit_run (xs @ [x]) (s\<lparr>rs_queue := (rs_queue s)\<lparr>queue_items := queue_items (rs_queue s) @ [x],
      unsent := Suc (unsent (rs_queue s))\<rparr>\<rparr>)"
    if "rejit_run xs s" "consumer (rs_queue s) \<noteq> Testing" for xs s x
    using rejit_run.step [OF that(1) rejit_step.queue [OF bq_step.push [OF that(2), of x]]] by simp
  show ?thesis
    using push [OF push [OF rejit_run.start, of demo_item], of CreateEndRejitThread]
    by (simp add: rejit_system_new_def bqueue_new_def demo_pushed_def numeral_2_eq_2)
qed

theorem rejit_requests_fifo_witness:
  "\<exists>ys zs. [demo_item, CreateEndRejitThread] = ys @ zs @ queue_items (rs_queue demo_pushed)
      \<and> rs_requests demo_pushed = map request_of ys
      \<and> length zs \<le> 1 \<and> (zs \<noteq> [] \<longrightarrow> rs_thread demo_pushed \<in> {Exited, Requesting (hd zs)})
    \<and> (consumer (rs_queue demo_pushed) = Waiting \<longrightarrow> queue_items (rs_queue demo_pushed) = [] \<or> unsent (rs_queue demo_pushed) > 0)"
  by (rule rejit_requests_fifo [OF demo_run])

text \<open>C27. Once Shutdown has pushed the end item, joining the request thread returns: from every
  reachable state the thread gets to its exit, it cannot get stuck anywhere else, it takes a
  bounded number of steps unless it is disturbed, and then the CLR has been asked for exactly
  the requests pushed before the end item.\<close>

theorem Shutdown_joins:
  assumes "rejit_run xs s" "CreateEndRejitThread \<in> set xs"
  shows "(\<exists>t. thread_step\<^sup>*\<^sup>* s t \<and> rs_thread t = Exited)
    \<and> (\<forall>t. thread_step\<^sup>*\<^sup>* s t \<and> (\<forall>u. \<not> thread_step t u) \<longrightarrow> rs_thread t = Exited)
    \<and> (\<forall>t. thread_step\<^sup>*\<^sup>* s t \<and> rs_thread t = Exited \<longrightarrow>
        rs_requests t = map request_of (takeWhile (\<lambda>x. m_length x \<noteq> -1) xs))
    \<and> (\<forall>n t. (thread_step ^^ n) s t \<longrightarrow> n \<le> rejit_weight s)"
proof -
  note inv = rejit_run_inv [OF assms(1)]
  have reach: "rejit_inv xs t" if "thread_step\<^sup>*\<^sup>* s t" for t
    using that inv by (induction rule: rtranclp_induct) (auto intro: thread_step_inv)
  have rest: "rs_thread t = Exited" if "thread_step\<^sup>*\<^sup>* s t" "\<forall>u. \<not> thread_step t u" for t
    using thread_at_rest [OF reach [OF that(1)] that(2)] served_waiting [of xs t CreateEndRejitThread] reach [OF that(1)] assms(2)
    by (auto simp: rejit_inv_def CreateEndRejitThread_def)
  moreover have "rs_requests t = map request_of (takeWhile (\<lambda>x. m_length x \<noteq> -1) xs)"
    if "thread_step\<^sup>*\<^sup>* s t" "rs_thread t = Exited" for t
    using reach [OF that(1)] served_exited [OF _ that(2)] by (simp add: rejit_inv_def)
  moreover have "n \<le> rejit_weight s" if "(thread_step ^^ n) s t" for n t
    using rejit_thread.run_bounded [OF that inv] by simp
  ultimately show ?thesis using rejit_thread.comes_to_rest [OF inv] by blast
qed

theorem Shutdown_joins_witness:
  "\<exists>t. thread_step\<^sup>*\<^sup>* demo_pushed t \<and> rs_thread t = Exited \<and> rs_requests t = [(1, [7], [0x06000001])]"
proof -
  have "CreateEndRejitThread \<in> set [demo_item, CreateEndRejitThread]" by simp
  note joins = Shutdown_joins [OF demo_run this]
  then obtain t where "thread_step\<^sup>*\<^sup>* demo_pushed t" "rs_thread t = Exited" by blast
  moreover from this joins have "rs_requests t = [(1, [7], [0x06000001])]"
    by (simp add: CreateEndRejitThread_def demo_item_def request_of_def)
  ultimately show ?thesis by blast
qed

text \<open>NotifyReJITParameters calls the rewriting callback exactly when everything it needs is
  there - the method, the function control, the function information, the replacement, the
  module and its metadata - and otherwise returns S_FALSE; either way the handler has recorded
  the metadata and the function control. A callback is only ever missing when the handler has
  been shut down, and then no method has its function information, so it is not called.\<close>

theorem NotifyReJITParameters_guards:
  assumes "m_modules h moduleId = Some md" "m_methods md methodId = Some m" "m_moduleId md = moduleId" "m_methodDef m = methodId"
    and "m_rewriteCallback h = Some callback"
  shows "(let m' = m\<lparr>m_pFunctionControl := control\<rparr>;
        md' = md\<lparr>m_metadata := metadata, m_methods := (m_methods md)(methodId \<mapsto> m')\<rparr>
      in NotifyReJITParameters moduleId methodId control metadata h
        = Inr (if methodId \<noteq> mdMethodDefNil \<and> control \<noteq> nullptr \<and> m_functionInfo m \<noteq> None
            \<and> m_methodReplacement m \<noteq> None \<and> moduleId \<noteq> 0 \<and> metadata \<noteq> nullptr
          then callback md' m' else S_FALSE, h\<lparr>m_modules := (m_modules h)(moduleId \<mapsto> md')\<rparr>))
    \<and> (\<exists>h'. NotifyReJITParameters moduleId methodId control metadata (Shutdown_clear h) = Inr (S_FALSE, h'))"
  using assms
  by (simp add: NotifyReJITParameters_def GetOrAddModule_def GetOrAddMethod_def SetModuleMetadata_def
      SetFunctionControl_def put_method_def put_module_def GetMethodDef_def GetFunctionControl_def
      GetMethodFunctionInfo_def GetMethodReplacement_def GetModuleId_def GetModuleMetadata_def Shutdown_clear_def
      RejitHandlerModule_new_def RejitHandlerModuleMethod_new_def Let_def)

definition demo_method :: RejitHandlerModuleMethod where
  "demo_method = \<lparr>m_methodDef = 0x06000001, m_pFunctionControl = nullptr, m_functionInfo = Some FunctionInfo_default,
     m_methodReplacement = None\<rparr>"

definition demo_module :: RejitHandlerModule where
  "demo_module = \<lparr>m_moduleId = 7, m_metadata = nullptr, m_methods = [0x06000001 \<mapsto> demo_method]\<rparr>"

definition demo_handler :: RejitHandler where
  "demo_handler = \<lparr>m_modules = [7 \<mapsto> demo_module], m_rewriteCallback = Some (\<lambda>_ _. S_OK)\<rparr>"

theorem NotifyReJITParameters_guards_witness:
  "\<exists>h'. NotifyReJITParameters 7 0x06000001 100 200 demo_handler = Inr (S_FALSE, h')"
  using NotifyReJITParameters_guards [where h = demo_handler and moduleId = 7 and md = demo_module and m = demo_method and methodId = "0x06000001"
      and callback = "\<lambda>_ _. S_OK" and control = 100 and metadata = 200]
  by (simp add: demo_handler_def demo_module_def demo_method_def Let_def)

end
