(* ===== verification/ModuleMetadata.thy ===== *)
theory ModuleMetadata
  imports TypeMetadata IntegrationFilter
begin

text \<open>
  The caches of a module's metadata (\<open>module_metadata.h\<close>), the builder that fills them with
  references to wrapper types and methods (\<open>metadata_builder.h\<close>, \<open>metadata_builder.cpp\<close>), and
  \<open>GetWrapperMethodRef\<close> of \<open>cor_profiler.cpp\<close>, which uses both. The metadata interfaces of the
  CLR are parameters: those that define tokens work on a state of their own, those that look
  tokens up read it.
\<close>

section \<open>The caches\<close>

record wrapper_caches =
  wrapper_refs :: "wstring \<rightharpoonup> u32"
  wrapper_parent_type :: "wstring \<rightharpoonup> u32"
  failed_wrapper_keys :: "wstring set"

definition wrapper_caches_new :: wrapper_caches where
  "wrapper_caches_new = \<lparr>wrapper_refs = Map.empty, wrapper_parent_type = Map.empty, failed_wrapper_keys = {}\<rparr>"

text \<open>The lookups with an out parameter: \<open>None\<close> is \<open>false\<close>, and leaves the parameter alone.\<close>

definition TryGetWrapperMemberRef :: "wrapper_caches \<Rightarrow> wstring \<Rightarrow> u32 option" where
  "TryGetWrapperMemberRef c keyIn = wrapper_refs c keyIn"

definition TryGetWrapperParentTypeRef :: "wrapper_caches \<Rightarrow> wstring \<Rightarrow> u32 option" where
  "TryGetWrapperParentTypeRef c keyIn = wrapper_parent_type c keyIn"

definition IsFailedWrapperMemberKey :: "wrapper_caches \<Rightarrow> wstring \<Rightarrow> bool" where
  "IsFailedWrapperMemberKey c k \<longleftrightarrow> k \<in> failed_wrapper_keys c"

definition SetWrapperMemberRef :: "wstring \<Rightarrow> u32 \<Rightarrow> wrapper_caches \<Rightarrow> wrapper_caches" where
  "SetWrapperMemberRef keyIn valueIn c = c\<lparr>wrapper_refs := (wrapper_refs c)(keyIn \<mapsto> valueIn)\<rparr>"

definition SetWrapperParentTypeRef :: "wstring \<Rightarrow> u32 \<Rightarrow> wrapper_caches \<Rightarrow> wrapper_caches" where
  "SetWrapperParentTypeRef keyIn valueIn c = c\<lparr>wrapper_parent_type := (wrapper_parent_type c)(keyIn \<mapsto> valueIn)\<rparr>"

definition SetFailedWrapperMemberKey :: "wstring \<Rightarrow> wrapper_caches \<Rightarrow> wrapper_caches" where
  "SetFailedWrapperMemberKey k c = c\<lparr>failed_wrapper_keys := insert k (failed_wrapper_keys c)\<rparr>"

text \<open>The replacements of a module that apply to a caller.\<close>

fun GetMethodReplacementsForCaller :: "IntegrationMethod list \<Rightarrow> FunctionInfo \<Rightarrow> MethodReplacement list" where
  "GetMethodReplacementsForCaller [] caller = []"
| "GetMethodReplacementsForCaller (i # integrations) caller =
     (let c = caller_method (replacement i)
      in if (type_name c = [] \<or> type_name c = ti_name (fi_type caller))
            \<and> (method_name c = [] \<or> method_name c = fi_name caller)
         then replacement i # GetMethodReplacementsForCaller integrations caller
         else GetMethodReplacementsForCaller integrations caller)"

section \<open>The metadata builder\<close>

text \<open>The interfaces the builder uses beyond those of \<open>CallTargetTokens\<close>: looking up an assembly
  reference by name (\<open>FindAssemblyRef\<close> of \<open>clr_helpers.cpp\<close> over the module's references), a type
  reference and a member reference. A lookup that fails leaves the nil token.\<close>

record 'm builder =
  mb_emit :: "'m clr"
  mb_module :: u32
  mb_assembly_name :: wstring
  mb_assembly_props :: "'m \<Rightarrow> assembly_props"
  mb_assembly_refs :: "'m \<Rightarrow> u32 list"
  mb_FindTypeRef :: "u32 \<Rightarrow> wstring \<Rightarrow> 'm \<Rightarrow> HRESULT \<times> u32"
  mb_FindMemberRef :: "u32 \<Rightarrow> wstring \<Rightarrow> byte list \<Rightarrow> 'm \<Rightarrow> HRESULT \<times> u32"

abbreviation (input) record_not_found :: HRESULT where "record_not_found \<equiv> 0x80131130"

text \<open>What the out parameter holds after a call that may not have written it.\<close>

definition out_or :: "u32 \<Rightarrow> u32 option \<Rightarrow> u32" where
  "out_or old out = (case out of None \<Rightarrow> old | Some v \<Rightarrow> v)"

definition wrapper_request :: "AssemblyReference \<Rightarrow> AssemblyRefRequest" where
  "wrapper_request r = \<lparr>
     ar_public_key = (if PublicKey_eq (public_key r) PublicKey_zero then [] else public_key r),
     ar_name = c_str (name r), ar_version = version r,
     ar_locale = (if locale_name r = WStr ''neutral'' then [] else locale_name r), ar_hash = [], ar_flags = 0\<rparr>"

text \<open>A failure of \<open>DefineAssemblyRef\<close> is logged only.\<close>

definition EmitAssemblyRef :: "'m builder \<Rightarrow> AssemblyReference \<Rightarrow> 'm \<Rightarrow> HRESULT \<times> 'm" where
  "EmitAssemblyRef b assembly_ref m =
     (let ((hr, out), m) = clr_DefineAssemblyRef (mb_emit b) (wrapper_request assembly_ref) m in (S_OK, m))"

definition resolve_type :: "'m builder \<Rightarrow> MethodReference \<Rightarrow> 'm \<Rightarrow> HRESULT \<times> u32 \<times> 'm" where
  "resolve_type b w m =
     (if mb_assembly_name b = name (assembly w) then
        let ((hr, out), m) = clr_DefineTypeRefByName (mb_emit b) (mb_module b) (c_str (type_name w)) m
        in (hr, out_or mdTypeRefNil out, m)
      else
        let assembly_ref = FindAssemblyRef (mb_assembly_props b m) (mb_assembly_refs b m) (name (assembly w))
        in if assembly_ref = mdAssemblyRefNil then (E_FAIL_code, mdTypeRefNil, m)
           else
             let (hr, type_ref) = mb_FindTypeRef b assembly_ref (c_str (type_name w)) m
             in if hr = record_not_found then
                  let ((hr, out), m) = clr_DefineTypeRefByName (mb_emit b) assembly_ref (c_str (type_name w)) m
                  in (hr, out_or type_ref out, m)
                else (hr, type_ref, m))"

definition FindWrapperTypeRef :: "'m builder \<Rightarrow> MethodReplacement \<Rightarrow> wrapper_caches \<times> 'm
    \<Rightarrow> (HRESULT \<times> u32 option) \<times> wrapper_caches \<times> 'm" where
  "FindWrapperTypeRef b method_replacement = (\<lambda>(c, m).
     let w = wrapper_method method_replacement; cache_key = get_type_cache_key w
     in case TryGetWrapperParentTypeRef c cache_key of
          Some type_ref \<Rightarrow> ((S_OK, Some type_ref), c, m)
        | None \<Rightarrow>
            let (hr, type_ref, m) = resolve_type b w m
            in if FAILED hr then ((hr, None), c, m)
               else ((S_OK, Some type_ref), SetWrapperParentTypeRef cache_key type_ref c, m))"

definition resolve_member :: "'m builder \<Rightarrow> MethodReference \<Rightarrow> u32 \<Rightarrow> 'm \<Rightarrow> HRESULT \<times> u32 \<times> 'm" where
  "resolve_member b w type_ref m =
     (let signature_data = method_signature w in
      if length signature_data > 0 then
        let (hr, member_ref) = mb_FindMemberRef b type_ref (c_str (method_name w)) signature_data m
        in if hr = record_not_found then
             let ((hr, out), m) = clr_DefineMemberRef (mb_emit b) type_ref (c_str (method_name w)) signature_data m
             in (hr, out_or member_ref out, m)
           else (hr, member_ref, m)
      else (S_OK, mdMemberRefNil, m))"

definition StoreWrapperMethodRef :: "'m builder \<Rightarrow> MethodReplacement \<Rightarrow> wrapper_caches \<times> 'm
    \<Rightarrow> HRESULT \<times> wrapper_caches \<times> 'm" where
  "StoreWrapperMethodRef b method_replacement = (\<lambda>(c, m).
     let w = wrapper_method method_replacement; cache_key = get_method_cache_key w
     in case TryGetWrapperMemberRef c cache_key of
          Some member_ref \<Rightarrow> (S_OK, c, m)
        | None \<Rightarrow>
            let ((hr, type_ref), c, m) = FindWrapperTypeRef b method_replacement (c, m)
            in if FAILED hr then (hr, SetFailedWrapperMemberKey cache_key c, m)
               else
                 let (hr, member_ref, m) = resolve_member b w (out_or mdTypeRefNil type_ref) m
                 in if FAILED hr then (hr, SetFailedWrapperMemberKey cache_key c, m)
                    else (S_OK, SetWrapperMemberRef cache_key member_ref c, m))"

section \<open>\<open>GetWrapperMethodRef\<close>\<close>

text \<open>
  \<open>module\<close> is what \<open>GetModuleInfo\<close> and \<open>GetModuleFromScope\<close> give: \<open>None\<close> when one of them fails,
  and the module token otherwise. The two references keep their values, nil at every call, where
  the code does not write them; the result says whether the code returns \<open>true\<close>.
\<close>

definition GetWrapperMethodRef :: "'m builder \<Rightarrow> u32 option \<Rightarrow> MethodReplacement \<Rightarrow> wrapper_caches \<times> 'm
    \<Rightarrow> (bool \<times> u32 \<times> u32) \<times> wrapper_caches \<times> 'm" where
  "GetWrapperMethodRef b module method_replacement = (\<lambda>(c, m).
     let w = wrapper_method method_replacement;
         wrapper_method_key = get_method_cache_key w; wrapper_type_key = get_type_cache_key w;
         finish = (\<lambda>method_ref (c, m).
           ((True, method_ref, out_or mdTypeRefNil (TryGetWrapperParentTypeRef c wrapper_type_key)), c, m))
     in case TryGetWrapperMemberRef c wrapper_method_key of
          Some wrapper_method_ref \<Rightarrow> finish wrapper_method_ref (c, m)
        | None \<Rightarrow>
            (case module of
               None \<Rightarrow> ((False, mdMemberRefNil, mdTypeRefNil), c, m)
             | Some mod_token \<Rightarrow>
                 let b = b\<lparr>mb_module := mod_token\<rparr>;
                     (hr, m) = EmitAssemblyRef b (assembly w) m
                 in if FAILED hr then ((False, mdMemberRefNil, mdTypeRefNil), c, m)
                    else
                      let (hr, c, m) = StoreWrapperMethodRef b method_replacement (c, m)
                      in if FAILED hr then ((False, mdMemberRefNil, mdTypeRefNil), c, m)
                         else finish (out_or mdMemberRefNil (TryGetWrapperMemberRef c wrapper_method_key)) (c, m)))"

section \<open>Lemmas\<close>

lemma cache_simps [simp]:
  "TryGetWrapperMemberRef (SetWrapperMemberRef k v c) k = Some v"
  "TryGetWrapperParentTypeRef (SetWrapperMemberRef k v c) k' = TryGetWrapperParentTypeRef c k'"
  "TryGetWrapperParentTypeRef (SetWrapperParentTypeRef k v c) k = Some v"
  "TryGetWrapperMemberRef (SetFailedWrapperMemberKey k c) k' = TryGetWrapperMemberRef c k'"
  "TryGetWrapperMemberRef (SetWrapperParentTypeRef k' v c) k = TryGetWrapperMemberRef c k"
  by (simp_all add: TryGetWrapperMemberRef_def TryGetWrapperParentTypeRef_def SetWrapperMemberRef_def
      SetWrapperParentTypeRef_def SetFailedWrapperMemberKey_def)

lemma GetMethodReplacementsForCaller_filter:
  "GetMethodReplacementsForCaller integrations caller =
    map replacement (filter (\<lambda>i. (type_name (caller_method (replacement i)) \<in> {[], ti_name (fi_type caller)})
      \<and> method_name (caller_method (replacement i)) \<in> {[], fi_name caller}) integrations)"
  by (induction integrations) (auto simp: Let_def)

lemma FindWrapperTypeRef_caches:
  assumes "FindWrapperTypeRef b r (c, m) = ((hr, out), c', m')" "\<not> FAILED hr"
  shows "\<exists>tk. out = Some tk \<and> TryGetWrapperParentTypeRef c' (get_type_cache_key (wrapper_method r)) = Some tk
    \<and> (\<forall>k. TryGetWrapperMemberRef c' k = TryGetWrapperMemberRef c k)"
proof (cases "TryGetWrapperParentTypeRef c (get_type_cache_key (wrapper_method r))")
  case (Some tk)
  then show ?thesis using assms by (auto simp: FindWrapperTypeRef_def Let_def intro: exI [of _ tk])
qed (use assms in \<open>auto simp: FindWrapperTypeRef_def Let_def split: prod.splits if_splits\<close>)

lemma StoreWrapperMethodRef_caches:
  assumes "StoreWrapperMethodRef b r (c, m) = (hr, c', m')" "\<not> FAILED hr"
  shows "\<exists>tk. TryGetWrapperMemberRef c' (get_method_cache_key (wrapper_method r)) = Some tk"
  using assms by (auto simp: StoreWrapperMethodRef_def Let_def split: option.splits prod.splits if_splits)

lemma GetWrapperMethodRef_cached_raw:
  assumes "GetWrapperMethodRef b module r (c, m) = ((True, method_ref, type_ref), c', m')"
  shows "GetWrapperMethodRef b' module' r (c', m') = ((True, method_ref, type_ref), c', m')"
proof (cases "TryGetWrapperMemberRef c (get_method_cache_key (wrapper_method r))")
  case (Some tk)
  then show ?thesis using assms by (auto simp: GetWrapperMethodRef_def Let_def)
next
  case None
  then obtain hr c1 m1 mod_token m0 where s: "StoreWrapperMethodRef (b\<lparr>mb_module := mod_token\<rparr>) r (c, m0) = (hr, c1, m1)" "\<not> FAILED hr"
    "((True, method_ref, type_ref), c', m')
      = ((True, out_or mdMemberRefNil (TryGetWrapperMemberRef c1 (get_method_cache_key (wrapper_method r))),
          out_or mdTypeRefNil (TryGetWrapperParentTypeRef c1 (get_type_cache_key (wrapper_method r)))), c1, m1)"
    using assms by (auto simp: GetWrapperMethodRef_def Let_def split: option.splits prod.splits if_splits)
  then show ?thesis
    using StoreWrapperMethodRef_caches [OF s(1,2)] by (auto simp: GetWrapperMethodRef_def Let_def out_or_def)
qed

section \<open>Properties\<close>

text \<open>What GetWrapperMethodRef has found it keeps: asked again for the same replacement, it
  gives the same references from the caches and leaves them and the metadata as they are.\<close>

theorem GetWrapperMethodRef_cached:
  assumes "GetWrapperMethodRef b module r (c, m) = ((True, method_ref, type_ref), c', m')"
  shows "GetWrapperMethodRef b' module' r (c', m') = ((True, method_ref, type_ref), c', m')"
  by (rule GetWrapperMethodRef_cached_raw [OF assms])

text \<open>A builder for a module that refers to nothing yet.\<close>

definition demo_builder :: "unit builder" where
  "demo_builder = \<lparr>mb_emit = demo_clr, mb_module = 1, mb_assembly_name = WStr ''Demo'',
     mb_assembly_props = (\<lambda>_ _. None), mb_assembly_refs = (\<lambda>_. []),
     mb_FindTypeRef = (\<lambda>_ _ _. (record_not_found, mdTypeRefNil)),
     mb_FindMemberRef = (\<lambda>_ _ _ _. (record_not_found, mdMemberRefNil))\<rparr>"

definition demo_wrapper_replacement :: MethodReplacement where
  "demo_wrapper_replacement = (let r = MethodReference_default\<lparr>assembly := (assembly MethodReference_default)\<lparr>name := WStr ''Demo''\<rparr>,
       type_name := WStr ''Demo.Wrapper'', method_name := WStr ''Run'', method_signature := [0x00, 0x00, ELEMENT_TYPE_VOID]\<rparr>
     in \<lparr>caller_method = r, target_method = r, wrapper_method = r\<rparr>)"

lemma demo_wrapper_ref:
  "\<exists>c'. GetWrapperMethodRef demo_builder (Some 1) demo_wrapper_replacement (wrapper_caches_new, ())
    = ((True, 0x0A000001, 0x01000001), c', ())"
  by (simp add: GetWrapperMethodRef_def StoreWrapperMethodRef_def FindWrapperTypeRef_def resolve_type_def resolve_member_def
      EmitAssemblyRef_def demo_builder_def demo_clr_def demo_wrapper_replacement_def Let_def out_or_def FAILED_def
      TryGetWrapperMemberRef_def TryGetWrapperParentTypeRef_def SetWrapperMemberRef_def SetWrapperParentTypeRef_def
      wrapper_caches_new_def)

theorem GetWrapperMethodRef_cached_witness:
  "\<exists>c'. GetWrapperMethodRef demo_builder None demo_wrapper_replacement (c', ()) = ((True, 0x0A000001, 0x01000001), c', ())"
proof -
  obtain c' where "GetWrapperMethodRef demo_builder (Some 1) demo_wrapper_replacement (wrapper_caches_new, ())
    = ((True, 0x0A000001, 0x01000001), c', ())" using demo_wrapper_ref by blast
  from GetWrapperMethodRef_cached [OF this, of demo_builder None] show ?thesis by blast
qed

section \<open>Failures\<close>

text \<open>The key of a method has no signature, so of two overloads of a wrapper method the second
  gets the reference of the first.\<close>

lemma overloads_share_reference:
  assumes "GetWrapperMethodRef b module r (c, m) = ((True, method_ref, type_ref), c', m')"
    and "r' = r\<lparr>wrapper_method := (wrapper_method r)\<lparr>method_signature := sig\<rparr>\<rparr>"
  shows "GetWrapperMethodRef b module' r' (c', m') = ((True, method_ref, type_ref), c', m')"
proof -
  have keys: "get_method_cache_key (wrapper_method r') = get_method_cache_key (wrapper_method r)"
    "get_type_cache_key (wrapper_method r') = get_type_cache_key (wrapper_method r)"
    using assms(2) by (simp_all add: get_method_cache_key_def get_type_cache_key_def)
  have "TryGetWrapperMemberRef c' (get_method_cache_key (wrapper_method r)) = Some method_ref"
    using assms(1) StoreWrapperMethodRef_caches
    by (fastforce simp: GetWrapperMethodRef_def Let_def out_or_def split: option.splits prod.splits if_splits)
  then show ?thesis
    using GetWrapperMethodRef_cached_raw [OF assms(1), of b module] by (simp add: GetWrapperMethodRef_def keys Let_def)
qed

end
