(* ===== verification/CallTarget.thy ===== *)
theory CallTarget
  imports RejitHandler ModuleMetadata
begin

text \<open>
  The rewriting of a method for call-target instrumentation
  (\<open>CorProfiler::CallTarget_RewriterCallback\<close> of \<open>cor_profiler.cpp\<close>): the instructions around the
  original body, the redirection of its returns, and the exception clauses, on the state of
  \<open>CallTargetTokens\<close> and \<open>ILRewriterWrapper\<close>.

  An instruction pointer that the code leaves unset is \<open>None\<close>. Copying an unset pointer into an
  exception clause is \<open>BadAccess\<close>: nothing that follows returns before \<open>Export\<close>, which
  dereferences the pointers of every clause. Logging and the optional dump of the code are left out.
\<close>

section \<open>Pieces of the rewriting\<close>

abbreviation (input) COR_ILEXCEPTION_CLAUSE_NONE :: u32 where "COR_ILEXCEPTION_CLAUSE_NONE \<equiv> 0"
abbreviation (input) COR_ILEXCEPTION_CLAUSE_FINALLY :: u32 where "COR_ILEXCEPTION_CLAUSE_FINALLY \<equiv> 2"

definition on_rewriter :: "(ILRewriter \<Rightarrow> 'a \<times> ILRewriter) \<Rightarrow> ('a, 'm) ct" where
  "on_rewriter f = (\<lambda>s. let (x, r) = f (m_ILRewriter (ct_wrapper s))
     in Inr (x, s\<lparr>ct_wrapper := (ct_wrapper s)\<lparr>m_ILRewriter := r\<rparr>\<rparr>))"

definition set_position :: "ptr \<Rightarrow> (unit, 'm) ct" where
  "set_position pILInstr = (\<lambda>s. Inr ((), s\<lparr>ct_wrapper := SetILPosition pILInstr (ct_wrapper s)\<rparr>))"

definition current_position :: "(ptr option, 'm) ct" where
  "current_position = (\<lambda>s. Inr (GetCurrentILInstr (ct_wrapper s), s))"

definition next_instr :: "ptr \<Rightarrow> (ptr, 'm) ct" where
  "next_instr p = on_rewriter (\<lambda>r. (m_pNext (heap r p), r))"

definition set_target :: "ptr \<Rightarrow> ptr \<Rightarrow> (unit, 'm) ct" where
  "set_target p q = on_rewriter (\<lambda>r. ((), set_arg p (Target q) r))"

text \<open>A pointer that has to be set, and a part that may end in \<open>return S_FALSE\<close>.\<close>

definition the_ptr :: "ptr option \<Rightarrow> (ptr, 'm) ct" where
  "the_ptr p = lift (case p of None \<Rightarrow> Inl BadAccess | Some p \<Rightarrow> Inr p)"

definition or_false :: "('a option, 'm) ct \<Rightarrow> ('a \<Rightarrow> ('b option, 'm) ct) \<Rightarrow> ('b option, 'm) ct" where
  "or_false f g = bindS f (\<lambda>r. case r of None \<Rightarrow> ret None | Some x \<Rightarrow> g x)"

text \<open>The instance, or null for a static method: its first instruction, or no instrumentation for
  static methods of value types and for methods of generic value types.\<close>

definition load_instance :: "TypeInfo \<Rightarrow> bool \<Rightarrow> (ptr option, 'm) ct" where
  "load_instance ty isStatic =
     (if isStatic then
        (if ti_valueType ty then ret None else bindS (wrapper_op LoadNull) (\<lambda>p. ret (Some p)))
      else
        bindS (wrapper_op (LoadArgument 0)) (\<lambda>p.
          if ti_valueType ty then
            (if ti_type_spec ty \<noteq> mdTypeSpecNil then
               bindS (wrapper_op (LoadObj (ti_type_spec ty))) (\<lambda>_. ret (Some p))
             else if \<not> ti_isGeneric ty then
               bindS (wrapper_op (LoadObj (ti_id ty))) (\<lambda>_. ret (Some p))
             else ret None)
          else ret (Some p)))"

definition arg_flags :: "FunctionMethodArgument list \<Rightarrow> nat \<Rightarrow> (nat, 'm) ct" where
  "arg_flags methodArguments i = lift
     (if i < length methodArguments then
        (case GetTypeFlags (methodArguments ! i) of Inl _ \<Rightarrow> Inl BadAccess | Inr (flags, _) \<Rightarrow> Inr flags)
      else Inl BadAccess)"

definition argument_index :: "bool \<Rightarrow> nat \<Rightarrow> u16" where
  "argument_index isStatic i = of_nat (i + (if isStatic then 0 else 1))"

fun load_arguments_fast :: "bool \<Rightarrow> FunctionMethodArgument list \<Rightarrow> nat \<Rightarrow> nat \<Rightarrow> (unit option, 'm) ct" where
  "load_arguments_fast isStatic methodArguments i 0 = ret (Some ())"
| "load_arguments_fast isStatic methodArguments i (Suc n) =
     bindS (wrapper_op (LoadArgument (argument_index isStatic i))) (\<lambda>_.
     bindS (arg_flags methodArguments i) (\<lambda>argTypeFlags.
     if argTypeFlags AND TypeFlagByRef \<noteq> 0 then ret None
     else load_arguments_fast isStatic methodArguments (Suc i) n))"

definition type_token :: "'m clr \<Rightarrow> FunctionMethodArgument \<Rightarrow> u32 \<Rightarrow> (u32, 'm) ct" where
  "type_token env a corLibRef =
     bindS (lift (case GetTypeTok a of Inl _ \<Rightarrow> Inl BadAccess | Inr r \<Rightarrow> Inr r)) (\<lambda>r. case r of
       DefineTypeRefByName_req nm \<Rightarrow> bindS (emit_call (clr_DefineTypeRefByName env corLibRef nm)) (\<lambda>(hr, out). ret (out_or mdTokenNil out))
     | GetTokenFromTypeSpec_req sig \<Rightarrow> bindS (emit_call (clr_GetTokenFromTypeSpec env sig)) (\<lambda>(hr, out). ret (out_or mdTokenNil out))
     | Token_in_signature tk \<Rightarrow> ret tk
     | No_token \<Rightarrow> ret mdTokenNil)"

fun load_arguments_array :: "'m clr \<Rightarrow> bool \<Rightarrow> FunctionMethodArgument list \<Rightarrow> nat \<Rightarrow> nat \<Rightarrow> (unit option, 'm) ct" where
  "load_arguments_array env isStatic methodArguments i 0 = ret (Some ())"
| "load_arguments_array env isStatic methodArguments i (Suc n) =
     bindS (wrapper_op (BeginLoadValueIntoArray (of_nat i))) (\<lambda>_.
     bindS (wrapper_op (LoadArgument (argument_index isStatic i))) (\<lambda>_.
     bindS (arg_flags methodArguments i) (\<lambda>argTypeFlags.
     if argTypeFlags AND TypeFlagByRef \<noteq> 0 then ret None
     else
       or_false
         (if argTypeFlags AND TypeFlagBoxedType \<noteq> 0 then
            bindS (token GetCorLibAssemblyRef_token) (\<lambda>corLibRef.
            bindS (type_token env (methodArguments ! i) corLibRef) (\<lambda>tok.
            if tok = mdTokenNil then ret None
            else bindS (wrapper_op (Box tok)) (\<lambda>_. ret (Some ()))))
          else ret (Some ()))
         (\<lambda>_. bindS (wrapper_op EndLoadValueIntoArray) (\<lambda>_.
           load_arguments_array env isStatic methodArguments (Suc i) n)))))"

definition load_arguments :: "'m clr \<Rightarrow> bool \<Rightarrow> FunctionMethodArgument list \<Rightarrow> int \<Rightarrow> (unit option, 'm) ct" where
  "load_arguments env isStatic methodArguments numArgs =
     (if numArgs < int FASTPATH_COUNT then load_arguments_fast isStatic methodArguments 0 (nat numArgs)
      else
        bindS (token GetObjectTypeRef) (\<lambda>object_ref.
        bindS (wrapper_op (CreateArray object_ref (word_of_int numArgs))) (\<lambda>_.
        load_arguments_array env isStatic methodArguments 0 (nat numArgs))))"

section \<open>The parts of the method\<close>

text \<open>The locals: what the variables of the callback hold afterwards. The result of
  \<open>ModifyLocalSigAndInitialize\<close> is not looked at.\<close>

definition init_part :: "'m clr \<Rightarrow> FunctionMethodArgument \<Rightarrow> (LocalSigResult \<times> ptr option, 'm) ct" where
  "init_part env retFuncArg = bindS (ModifyLocalSigAndInitialize env retFuncArg) (\<lambda>(hr, r). ret (case r of
     Some (indices, firstInstruction) \<Rightarrow> (indices, Some firstInstruction)
   | None \<Rightarrow> (\<lparr>callTargetStateIndex = ULONG_MAX, exceptionIndex = ULONG_MAX, callTargetReturnIndex = ULONG_MAX,
       returnValueIndex = ULONG_MAX, callTargetStateToken = mdTokenNil, exceptionToken = mdTokenNil,
       callTargetReturnToken = mdTokenNil\<rparr>, None)))"

definition catch_clause :: "ptr \<Rightarrow> ptr \<Rightarrow> ptr \<Rightarrow> u32 \<Rightarrow> EHClause" where
  "catch_clause try_begin handler_begin handler_end exception = \<lparr>m_Flags = COR_ILEXCEPTION_CLAUSE_NONE,
     m_pTryBegin = try_begin, m_pTryEnd = handler_begin, m_pHandlerBegin = handler_begin,
     m_pHandlerEnd = handler_end, m_union = ClassToken exception\<rparr>"

text \<open>The call of \<open>BeginMethod\<close> and its catch block, which both leave to the original code.\<close>

definition begin_part :: "'m clr \<Rightarrow> u32 \<Rightarrow> FunctionInfo \<Rightarrow> bool \<Rightarrow> LocalSigResult \<Rightarrow> ptr option
    \<Rightarrow> (EHClause option, 'm) ct" where
  "begin_part env wrapper_type_ref caller isStatic r firstInstruction =
     (let methodArguments = fms_params (fi_method_signature caller);
          numArgs = sint (numberOfArguments (fi_method_signature caller))
      in or_false (load_instance (fi_type caller) isStatic) (\<lambda>_.
         or_false (load_arguments env isStatic methodArguments numArgs) (\<lambda>_.
         bindS (WriteBeginMethod env wrapper_type_ref (fi_type caller) methodArguments) (\<lambda>(hr, _).
         if FAILED hr then ret None else
         bindS (wrapper_op (StLocal (callTargetStateIndex r))) (\<lambda>_.
         bindS (wrapper_op (CreateInstr CEE_LEAVE_S)) (\<lambda>stateLeave.
         bindS (WriteLogException env wrapper_type_ref (fi_type caller)) (\<lambda>(_, beginMethodCatchFirst).
         bindS (wrapper_op (CreateInstr CEE_LEAVE_S)) (\<lambda>catchLeave.
         bindS (the_ptr firstInstruction) (\<lambda>try_begin.
         bindS (the_ptr beginMethodCatchFirst) (\<lambda>catch_begin.
         bindS (token GetExceptionTypeRef) (\<lambda>ex_ref.
         bindS current_position (\<lambda>pos.
         bindS (the_ptr pos) (\<lambda>beginOriginalMethod.
         bindS (set_target stateLeave beginOriginalMethod) (\<lambda>_.
         bindS (set_target catchLeave beginOriginalMethod) (\<lambda>_.
         ret (Some (catch_clause try_begin catch_begin catchLeave ex_ref)))))))))))))))))"

text \<open>The return instruction at the end of the method, and the catch block that stores the exception
  and throws it again.\<close>

definition exception_part :: "LocalSigResult \<Rightarrow> (ptr \<times> ptr \<times> ptr, 'm) ct" where
  "exception_part r =
     bindS (on_rewriter NewILInstr) (\<lambda>methodReturn.
     bindS (on_rewriter (\<lambda>r. ((), set_opcode methodReturn CEE_RET r))) (\<lambda>_.
     bindS (on_rewriter (\<lambda>r. ((), InsertAfter (m_pPrev (heap r m_IL)) methodReturn r))) (\<lambda>_.
     bindS (set_position methodReturn) (\<lambda>_.
     bindS (wrapper_op (StLocal (exceptionIndex r))) (\<lambda>startExceptionCatch.
     bindS (set_position methodReturn) (\<lambda>_.
     bindS (wrapper_op Rethrow) (\<lambda>rethrow.
     ret (methodReturn, startExceptionCatch, rethrow))))))))"

text \<open>The finally block: the call of \<open>EndMethod\<close>, whose failures are not looked at, and its catch
  block.\<close>

definition end_part :: "'m clr \<Rightarrow> u32 \<Rightarrow> FunctionInfo \<Rightarrow> bool \<Rightarrow> bool \<Rightarrow> LocalSigResult
    \<Rightarrow> ((EHClause \<times> ptr) option, 'm) ct" where
  "end_part env wrapper_type_ref caller isStatic isVoid r =
     (let retFuncArg = fms_ret (fi_method_signature caller) in
      or_false (load_instance (fi_type caller) isStatic) (\<lambda>endMethodTryStart.
      bindS (if \<not> isVoid then bindS (wrapper_op (LoadLocal (returnValueIndex r))) (\<lambda>_. ret ()) else ret ()) (\<lambda>_.
      bindS (wrapper_op (LoadLocal (exceptionIndex r))) (\<lambda>_.
      bindS (wrapper_op (LoadLocal (callTargetStateIndex r))) (\<lambda>_.
      bindS (if isVoid then WriteEndVoidReturnMemberRef env wrapper_type_ref (fi_type caller)
             else WriteEndReturnMemberRef env wrapper_type_ref (fi_type caller) retFuncArg) (\<lambda>_.
      bindS (wrapper_op (StLocal (callTargetReturnIndex r))) (\<lambda>_.
      bindS (if \<not> isVoid then
               bindS (wrapper_op (LoadLocalAddress (callTargetReturnIndex r))) (\<lambda>_.
               bindS (WriteCallTargetReturnGetReturnValue env (callTargetReturnToken r)) (\<lambda>_.
               bindS (wrapper_op (StLocal (returnValueIndex r))) (\<lambda>_. ret ())))
             else ret ()) (\<lambda>_.
      bindS (wrapper_op (CreateInstr CEE_LEAVE_S)) (\<lambda>endMethodTryLeave.
      bindS (WriteLogException env wrapper_type_ref (fi_type caller)) (\<lambda>(_, endMethodCatchFirst).
      bindS (wrapper_op (CreateInstr CEE_LEAVE_S)) (\<lambda>catchLeave.
      bindS (the_ptr endMethodCatchFirst) (\<lambda>catch_begin.
      bindS (token GetExceptionTypeRef) (\<lambda>ex_ref.
      bindS (wrapper_op EndFinally) (\<lambda>endFinally.
      bindS (set_target endMethodTryLeave endFinally) (\<lambda>_.
      bindS (set_target catchLeave endFinally) (\<lambda>_.
      bindS (if \<not> isVoid then bindS (wrapper_op (LoadLocal (returnValueIndex r))) (\<lambda>_. ret ()) else ret ()) (\<lambda>_.
      ret (Some (catch_clause endMethodTryStart catch_begin catchLeave ex_ref, endFinally)))))))))))))))))))"

text \<open>Every return of the original code becomes a jump behind the finally block, in front of which the
  value is stored.\<close>

definition replace_return :: "bool \<Rightarrow> u32 \<Rightarrow> ptr \<Rightarrow> ptr \<Rightarrow> ptr \<Rightarrow> (unit, 'm) ct" where
  "replace_return isVoid value_index methodReturn endFinally pInstr =
     bindS (on_rewriter (\<lambda>r. (m_opcode (heap r pInstr), r))) (\<lambda>opcode.
     if opcode = CEE_RET \<and> pInstr \<noteq> methodReturn then
       bindS (if \<not> isVoid then
                bindS (set_position pInstr) (\<lambda>_. bindS (wrapper_op (StLocal value_index)) (\<lambda>_. ret ()))
              else ret ()) (\<lambda>_.
       bindS (on_rewriter (\<lambda>r. ((), set_opcode pInstr CEE_LEAVE_S r))) (\<lambda>_.
       bindS (next_instr endFinally) (\<lambda>target. set_target pInstr target)))
     else ret ())"

fun replace_returns :: "nat \<Rightarrow> bool \<Rightarrow> u32 \<Rightarrow> ptr \<Rightarrow> ptr \<Rightarrow> ptr \<Rightarrow> (unit, 'm) ct" where
  "replace_returns fuel isVoid value_index methodReturn endFinally pInstr =
     (if pInstr = m_IL then ret ()
      else case fuel of 0 \<Rightarrow> lift (Inl NoFuel)
        | Suc n \<Rightarrow>
            bindS (replace_return isVoid value_index methodReturn endFinally pInstr) (\<lambda>_.
            bindS (next_instr pInstr) (\<lambda>q. replace_returns n isVoid value_index methodReturn endFinally q)))"

declare replace_returns.simps [simp del]

definition finally_clause :: "ptr \<Rightarrow> ptr \<Rightarrow> ptr \<Rightarrow> EHClause" where
  "finally_clause try_begin handler_begin handler_end = \<lparr>m_Flags = COR_ILEXCEPTION_CLAUSE_FINALLY,
     m_pTryBegin = try_begin, m_pTryEnd = handler_begin, m_pHandlerBegin = handler_begin,
     m_pHandlerEnd = handler_end, m_union = ClassToken 0\<rparr>"

definition add_clauses :: "EHClause list \<Rightarrow> (unit, 'm) ct" where
  "add_clauses clauses = (\<lambda>s.
     let r = m_ILRewriter (ct_wrapper s); ehCount = GetEHCount r; old = (case GetEHPointer r of None \<Rightarrow> [] | Some cs \<Rightarrow> cs)
     in if length old < ehCount then Inl BadAccess
        else Inr ((), s\<lparr>ct_wrapper := (ct_wrapper s)\<lparr>m_ILRewriter :=
          SetEHClause (Some (take ehCount old @ clauses)) (ehCount + length clauses) r\<rparr>\<rparr>))"

section \<open>The callback\<close>

text \<open>The rewriting of an imported body: \<open>None\<close> for \<open>return S_FALSE\<close>.\<close>

definition rewrite_body :: "'m clr \<Rightarrow> u32 \<Rightarrow> FunctionInfo \<Rightarrow> bool \<Rightarrow> bool \<Rightarrow> (unit option, 'm) ct" where
  "rewrite_body env wrapper_type_ref caller isVoid isStatic =
     bindS (next_instr m_IL) (\<lambda>first. bindS (set_position first) (\<lambda>_.
     bindS (init_part env (fms_ret (fi_method_signature caller))) (\<lambda>(r, firstInstruction).
     or_false (begin_part env wrapper_type_ref caller isStatic r firstInstruction) (\<lambda>beginMethodExClause.
     bindS (exception_part r) (\<lambda>(methodReturn, startExceptionCatch, rethrow).
     or_false (end_part env wrapper_type_ref caller isStatic isVoid r) (\<lambda>(endMethodExClause, endFinally).
     bindS (on_rewriter (\<lambda>r. (fresh r, r))) (\<lambda>fuel.
     bindS (next_instr m_IL) (\<lambda>pInstr.
     bindS (replace_returns fuel isVoid (returnValueIndex r) methodReturn endFinally pInstr) (\<lambda>_.
     bindS (the_ptr firstInstruction) (\<lambda>try_begin.
     bindS (token GetExceptionTypeRef) (\<lambda>ex_ref.
     bindS (next_instr rethrow) (\<lambda>finally_begin.
     bindS (add_clauses [beginMethodExClause, endMethodExClause,
         catch_clause try_begin startExceptionCatch rethrow ex_ref,
         finally_clause try_begin finally_begin endFinally]) (\<lambda>_.
     ret (Some ()))))))))))))))"

definition ProfilerAssemblyIsLoadedIntoAppDomain :: "bool \<Rightarrow> u64 set \<Rightarrow> u64 \<Rightarrow> bool" where
  "ProfilerAssemblyIsLoadedIntoAppDomain managed_profiler_loaded_domain_neutral managed_profiler_loaded_app_domains
     app_domain_id \<longleftrightarrow> managed_profiler_loaded_domain_neutral \<or> app_domain_id \<in> managed_profiler_loaded_app_domains"

text \<open>What the profiler, the CLR and the allocator contribute to one call.\<close>

record 'm callback_env =
  ce_builder :: "'m builder"
  ce_module :: "u32 option"
  ce_loaded_domain_neutral :: bool
  ce_loaded_app_domains :: "u64 set"
  ce_app_domain :: u64
  ce_body :: "u32 + method_decoder"
  ce_junk :: ILRewriter
  ce_new :: "nat \<Rightarrow> byte list"
  ce_alloc :: "nat \<Rightarrow> byte list option"
  ce_set_body :: "byte list \<Rightarrow> u32 option"

text \<open>A failure code, as opposed to a crash or the model's bound.\<close>

definition failure_code :: "hr \<Rightarrow> bool" where
  "failure_code e \<longleftrightarrow> e \<notin> {BadAccess, TypePun, NoFuel}"

definition or_S_FALSE :: "hr + 'a \<Rightarrow> ('a \<Rightarrow> hr + 'b) \<Rightarrow> 'b \<Rightarrow> hr + 'b" where
  "or_S_FALSE r f other = (case r of Inl e \<Rightarrow> if failure_code e then Inr other else Inl e | Inr x \<Rightarrow> f x)"

text \<open>The result, the caches, the tokens and the metadata, and the body handed to the CLR, if any.\<close>

definition CallTarget_RewriterCallback :: "'m callback_env \<Rightarrow> FunctionInfo \<Rightarrow> MethodReplacement
    \<Rightarrow> wrapper_caches \<times> CallTargetTokens \<times> AssemblyProperty \<times> 'm
    \<Rightarrow> hr + (HRESULT \<times> byte list option \<times> wrapper_caches \<times> CallTargetTokens \<times> 'm)" where
  "CallTarget_RewriterCallback ce caller method_replacement = (\<lambda>(c, t, cor, m).
     bindE (case GetTypeFlags (fms_ret (fi_method_signature caller)) of
         Inl _ \<Rightarrow> Inl BadAccess | Inr (flags, _) \<Rightarrow> Inr flags) (\<lambda>retTypeFlags.
     let isVoid = (retTypeFlags AND TypeFlagVoid \<noteq> 0);
         isStatic = (CallingConvention (fms_pbBase (fi_method_signature caller)) AND CALLCONV_HASTHIS = 0);
         ((_, wrapper_method_ref, wrapper_type_ref), c, m) =
           GetWrapperMethodRef (ce_builder ce) (ce_module ce) method_replacement (c, m)
     in if \<not> ProfilerAssemblyIsLoadedIntoAppDomain (ce_loaded_domain_neutral ce) (ce_loaded_app_domains ce) (ce_app_domain ce)
        then Inr (S_FALSE, None, c, t, m)
        else
          or_S_FALSE (Import (ce_body ce) (ILRewriter_new (ce_junk ce))) (\<lambda>rewriter.
            bindE (rewrite_body (mb_emit (ce_builder ce)) wrapper_type_ref caller isVoid isStatic
                \<lparr>ct_tokens = t, ct_cor = cor, ct_meta = m, ct_wrapper = ILRewriterWrapper_new rewriter\<rparr>) (\<lambda>(modified, s).
            case modified of
              None \<Rightarrow> Inr (S_FALSE, None, c, ct_tokens s, ct_meta s)
            | Some _ \<Rightarrow>
                or_S_FALSE (Export (ce_new ce) (ce_alloc ce) (ce_set_body ce) (m_ILRewriter (ct_wrapper s)))
                  (\<lambda>(body, _). Inr (S_OK, Some body, c, ct_tokens s, ct_meta s))
                  (S_FALSE, None, c, ct_tokens s, ct_meta s)))
          (S_FALSE, None, c, t, m)))"

end
