(* ===== verification/CallTargetCode.thy ===== *)
theory CallTargetCode
  imports CallTarget
begin

text \<open>
  What \<open>CallTarget_RewriterCallback\<close> makes of a method: lemmas on the operations that emit code in front of
  a position, and the code of each part.
\<close>

section \<open>Operations that leave the code alone\<close>

definition keeps_wrapper :: "('a, 'm) ct \<Rightarrow> bool" where
  "keeps_wrapper f \<longleftrightarrow> (\<forall>s x s'. f s = Inr (x, s') \<longrightarrow> ct_wrapper s' = ct_wrapper s)"

named_theorems keeps_intros \<open>operations that leave the code alone\<close>

lemma keeps_basic [keeps_intros]:
  "keeps_wrapper (ret x)" "keeps_wrapper (token get)" "keeps_wrapper (lift r)" "keeps_wrapper (emit_call c)"
  "keeps_wrapper (store put out)" "keeps_wrapper (compress tk)" "keeps_wrapper (signature_arg n bs)"
  by (auto simp: keeps_wrapper_def ret_def token_def lift_def emit_call_def store_def compress_def signature_arg_def
      res_simps Let_def split: option.splits prod.splits)

lemma keeps_bind [keeps_intros]:
  assumes "keeps_wrapper f" "\<And>x. keeps_wrapper (g x)"
  shows "keeps_wrapper (bindS f g)"
  using assms by (fastforce simp: keeps_wrapper_def bindS_def res_simps)

lemma keeps_if [keeps_intros]: "keeps_wrapper f \<Longrightarrow> keeps_wrapper g \<Longrightarrow> keeps_wrapper (if b then f else g)"
  by simp

lemma keeps_prod [keeps_intros]: "(\<And>x y. keeps_wrapper (f x y)) \<Longrightarrow> keeps_wrapper (case p of (x, y) \<Rightarrow> f x y)"
  by (cases p) simp

lemma keeps_let [keeps_intros]: "keeps_wrapper (f a) \<Longrightarrow> keeps_wrapper (Let a f)"
  by simp

lemma keeps_option [keeps_intros]:
  "keeps_wrapper f \<Longrightarrow> (\<And>x. keeps_wrapper (g x)) \<Longrightarrow> keeps_wrapper (case z of None \<Rightarrow> f | Some x \<Rightarrow> g x)"
  by (cases z) simp_all

lemma keeps_ensure [keeps_intros]: "keeps_wrapper call \<Longrightarrow> keeps_wrapper (ensure get put nil call)"
  unfolding ensure_def keeps_wrapper_def
  by (auto simp: ret_def bindS_def store_def res_simps split: option.splits)

lemma keeps_or_return [keeps_intros]: "keeps_wrapper f \<Longrightarrow> keeps_wrapper g \<Longrightarrow> keeps_wrapper (or_return f g)"
  unfolding or_return_def by (intro keeps_intros) auto

lemma keeps_ensure_type [keeps_intros]: "keeps_wrapper (ensure_type env scope get put nm)"
  unfolding ensure_type_def by (intro keeps_intros)

lemma keeps_EnsureCorLibTokens [keeps_intros]: "keeps_wrapper (EnsureCorLibTokens env)"
proof -
  have types: "keeps_wrapper (EnsureCorLibTypes env)"
    unfolding EnsureCorLibTypes_def EnsureGetTypeFromHandle_def by (intro keeps_intros)
  have asm: "keeps_wrapper (bindS (emit_call c) (\<lambda>(hr, out). bindS (store put out) (\<lambda>_. bindS (token get) (\<lambda>r.
      if r = nil then ret hr else EnsureCorLibTypes env))))" for c put get nil
    by (intro keeps_intros types)
  show ?thesis
    unfolding keeps_wrapper_def
  proof (intro allI impI)
    fix s x s' assume "EnsureCorLibTokens env s = Inr (x, s')"
    then show "ct_wrapper s' = ct_wrapper s"
      using types asm [of "clr_DefineAssemblyRef env (cor_request (ct_cor s))" "\<lambda>v t. t\<lparr>corLibAssemblyRef := v\<rparr>"
          corLibAssemblyRef mdAssemblyRefNil]
      by (simp add: EnsureCorLibTokens_def keeps_wrapper_def split: if_splits)
  qed
qed

lemma keeps_EnsureBase [keeps_intros]: "keeps_wrapper (EnsureBaseCalltargetTokens env)"
  unfolding EnsureBaseCalltargetTokens_def EnsureStateGetDefault_def by (intro keeps_intros)

lemma keeps_getters [keeps_intros]:
  "keeps_wrapper (GetTargetVoidReturnTypeRef env)" "keeps_wrapper (GetTargetReturnValueTypeRef env a)"
  "keeps_wrapper (GetCallTargetReturnVoidDefaultMemberRef env)" "keeps_wrapper (GetCallTargetReturnValueDefaultMemberRef env tk)"
  "keeps_wrapper (GetCallTargetDefaultValueMethodSpec env a)" "keeps_wrapper (GetCurrentTypeRef ty vt)"
  unfolding GetTargetVoidReturnTypeRef_def GetTargetReturnValueTypeRef_def GetCallTargetReturnVoidDefaultMemberRef_def
    GetCallTargetReturnValueDefaultMemberRef_def GetCallTargetDefaultValueMethodSpec_def GetCurrentTypeRef_def
  by (intro keeps_intros)+

lemma keeps_type_token [keeps_intros]: "keeps_wrapper (type_token env a tk)"
  unfolding type_token_def by (intro keeps_intros) (auto intro!: keeps_intros split: type_tok_request.split)

lemma keeps_pieces [keeps_intros]: "keeps_wrapper (arg_flags as i)" "keeps_wrapper (the_ptr p)"
  unfolding arg_flags_def the_ptr_def by (intro keeps_intros)+

section \<open>Emitted code\<close>

abbreviation rw :: "'m ct_state \<Rightarrow> ILRewriter" where "rw s \<equiv> m_ILRewriter (ct_wrapper s)"

definition node :: "'m ct_state \<Rightarrow> ptr \<Rightarrow> il" where
  "node s p = il_node (rw s) p"

text \<open>The code is \<open>as @ bs\<close>, and instructions are inserted between the two.\<close>

definition at :: "'m ct_state \<Rightarrow> ptr list \<Rightarrow> ptr list \<Rightarrow> bool" where
  "at s as bs \<longleftrightarrow> il_ring (rw s) (as @ bs) \<and> m_ILInstr (ct_wrapper s) = Some (hd (bs @ [m_IL]))"

text \<open>From \<open>s\<close> to \<open>s'\<close> the instructions \<open>code\<close> have been inserted, as the nodes \<open>xs\<close>; the others and the
  exception clauses are as before.\<close>

definition emitted :: "'m ct_state \<Rightarrow> 'm ct_state \<Rightarrow> ptr list \<Rightarrow> il list \<Rightarrow> bool" where
  "emitted s s' xs code \<longleftrightarrow> length xs = length code \<and> m_pEH (rw s') = m_pEH (rw s) \<and> m_nEH (rw s') = m_nEH (rw s)
     \<and> m_ILInstr (ct_wrapper s') = m_ILInstr (ct_wrapper s)
     \<and> (\<forall>as bs. at s as bs \<longrightarrow> at s' (as @ xs) bs \<and> map (node s') xs = code
         \<and> (\<forall>p \<in> set (as @ bs). node s' p = node s p))"

lemma emitted_keep: "ct_wrapper s' = ct_wrapper s \<Longrightarrow> emitted s s' [] []"
  by (simp add: emitted_def at_def node_def)

lemma emitted_trans:
  assumes "emitted s s1 xs c" "emitted s1 s2 ys d"
  shows "emitted s s2 (xs @ ys) (c @ d)"
  unfolding emitted_def
proof (intro conjI allI impI)
  show "length (xs @ ys) = length (c @ d)" "m_pEH (rw s2) = m_pEH (rw s)" "m_nEH (rw s2) = m_nEH (rw s)"
    "m_ILInstr (ct_wrapper s2) = m_ILInstr (ct_wrapper s)"
    using assms by (simp_all add: emitted_def)
  fix as bs assume at: "at s as bs"
  then have 1: "at s1 (as @ xs) bs" "map (node s1) xs = c" "\<forall>p \<in> set (as @ bs). node s1 p = node s p"
    using assms(1) by (simp_all add: emitted_def)
  then have 2: "at s2 ((as @ xs) @ ys) bs" "map (node s2) ys = d" "\<forall>p \<in> set ((as @ xs) @ bs). node s2 p = node s1 p"
    using assms(2) unfolding emitted_def by blast+
  show "at s2 (as @ xs @ ys) bs" using 2(1) by simp
  have "map (node s2) xs = map (node s1) xs" using 2(3) by simp
  then show "map (node s2) (xs @ ys) = c @ d" using 1(2) 2(2) by simp
  show "\<forall>p \<in> set (as @ bs). node s2 p = node s p" using 1(3) 2(3) by auto
qed

lemma emit_emitted:
  assumes "wrapper_op (emit i) s = Inr (p, s')"
  shows "emitted s s' [p] [i]"
proof -
  obtain op a where i: "i = (op, a)" by fastforce
  from assms obtain pos r' where pos: "m_ILInstr (ct_wrapper s) = Some pos" and run: "emit_before pos i (rw s) = (p, r')"
    and s': "s' = s\<lparr>ct_wrapper := (ct_wrapper s)\<lparr>m_ILRewriter := r'\<rparr>\<rparr>"
    by (auto simp: wrapper_op_def emit_def res_simps split: option.splits prod.splits)
  obtain r1 where r1: "NewILInstr (rw s) = (p, r1)" "r' = InsertBefore pos p (set_arg p a (set_opcode p op r1))"
    using run by (auto simp: emit_before_def i Let_def split: prod.splits)
  have r1': "r1 = (rw s)\<lparr>m_nInstrs := w32 (m_nInstrs (rw s) + 1), fresh := Suc (fresh (rw s)), heap := (heap (rw s))(p := zero_instr)\<rparr>"
    "p = fresh (rw s)"
    using r1(1) by (auto simp: NewILInstr_def)
  have "at s' (as @ [p]) bs \<and> node s' p = i \<and> (\<forall>q \<in> set (as @ bs). node s' q = node s q)" if "at s as bs" for as bs
  proof -
    have ring: "il_ring (rw s) (as @ bs)" and hd: "pos = hd (bs @ [m_IL])" using that pos by (simp_all add: at_def)
    note new = NewILInstr_ring [OF ring r1(1)]
    have "il_ring r' (as @ p # bs)"
      unfolding r1(2) using new hd by (intro InsertBefore_ring_split) (simp_all add: il_ring_upd frame_simps)
    moreover have "node s' p = i" by (simp add: node_def il_node_def s' r1(2) i frame_simps)
    moreover have "node s' q = node s q" if "q \<in> set (as @ bs)" for q
    proof -
      have "q \<noteq> p" using new(3) that by auto
      then show ?thesis by (simp add: node_def il_node_def s' r1(2) r1'(1) frame_simps)
    qed
    ultimately show ?thesis using pos hd s' by (simp add: at_def)
  qed
  then show ?thesis by (simp add: emitted_def s' r1(2) r1'(1) frame_simps)
qed

lemma keeps_emitted: "keeps_wrapper f \<Longrightarrow> f s = Inr (x, s') \<Longrightarrow> emitted s s' [] []"
  by (rule emitted_keep) (simp add: keeps_wrapper_def)

text \<open>Operations of the wrapper that emit one instruction.\<close>

lemmas one_instruction = Pop_def LoadNull_def LoadArgument_def LoadLocal_def LoadLocalAddress_def StLocal_def LoadObj_def Box_def
  CallMember_def Rethrow_def EndFinally_def CreateInstr_def EndLoadValueIntoArray_def Duplicate_def LoadInt32_def

lemma one_emitted:
  "wrapper_op LoadNull s = Inr (p, s') \<Longrightarrow> emitted s s' [p] [(CEE_LDNULL, Zeroed)]"
  "wrapper_op (LoadArgument i) s = Inr (p, s') \<Longrightarrow> emitted s s' [p] [LoadArgument_il i]"
  "wrapper_op (LoadLocal l) s = Inr (p, s') \<Longrightarrow> emitted s s' [p] [LoadLocal_il l]"
  "wrapper_op (LoadLocalAddress l) s = Inr (p, s') \<Longrightarrow> emitted s s' [p] [LoadLocalAddress_il l]"
  "wrapper_op (StLocal l) s = Inr (p, s') \<Longrightarrow> emitted s s' [p] [StLocal_il l]"
  "wrapper_op (LoadObj tk) s = Inr (p, s') \<Longrightarrow> emitted s s' [p] [(CEE_LDOBJ, Arg32 tk)]"
  "wrapper_op Rethrow s = Inr (p, s') \<Longrightarrow> emitted s s' [p] [(CEE_RETHROW, Zeroed)]"
  "wrapper_op EndFinally s = Inr (p, s') \<Longrightarrow> emitted s s' [p] [(CEE_ENDFINALLY, Zeroed)]"
  "wrapper_op (CreateInstr opc) s = Inr (p, s') \<Longrightarrow> emitted s s' [p] [(opc, Zeroed)]"
  by (simp_all add: one_instruction emit_emitted)

lemma call_member_emitted: "call_member tk s = Inr (p, s') \<Longrightarrow> emitted s s' [p] [(CEE_CALL, Arg32 tk)]"
  using emit_emitted [of "(CEE_CALL, Arg32 tk)" s p s'] by (simp add: call_member_def CallMember_def wrapper_op_def)

section \<open>The calls, when the CLR defines what it is asked for\<close>

definition always_writes :: "u32 set \<Rightarrow> 'm emit_call \<Rightarrow> bool" where
  "always_writes nils f \<longleftrightarrow> (\<forall>m. \<exists>hr v m'. f m = ((hr, Some v), m') \<and> \<not> FAILED hr \<and> v \<notin> nils)"

text \<open>The CLR defines every reference and every signature it is asked for.\<close>

definition clr_defines :: "'m clr \<Rightarrow> bool" where
  "clr_defines env \<longleftrightarrow>
     (\<forall>r. always_writes {mdAssemblyRefNil} (clr_DefineAssemblyRef env r))
     \<and> (\<forall>sc nm. always_writes {mdTypeRefNil} (clr_DefineTypeRefByName env sc nm))
     \<and> (\<forall>tk nm sig. always_writes {mdMemberRefNil, mdTokenNil} (clr_DefineMemberRef env tk nm sig))
     \<and> (\<forall>tk sig. always_writes {} (clr_DefineMethodSpec env tk sig))
     \<and> (\<forall>sig. always_writes {} (clr_GetTokenFromTypeSpec env sig))
     \<and> (\<forall>sig. always_writes {} (clr_GetTokenFromSig env sig))"

definition call_succeeds :: "(HRESULT \<times> u32 option, 'm) ct \<Rightarrow> bool" where
  "call_succeeds f \<longleftrightarrow> (\<forall>s hr out s'. f s = Inr ((hr, out), s') \<longrightarrow> \<not> FAILED hr)"

definition succeeds :: "(HRESULT, 'm) ct \<Rightarrow> bool" where
  "succeeds f \<longleftrightarrow> (\<forall>s hr s'. f s = Inr (hr, s') \<longrightarrow> \<not> FAILED hr)"

lemma succeedsD: "succeeds f \<Longrightarrow> f s = Inr (hr, s') \<Longrightarrow> \<not> FAILED hr"
  unfolding succeeds_def by blast

lemma call_succeedsD: "call_succeeds f \<Longrightarrow> f s = Inr ((hr, out), s') \<Longrightarrow> \<not> FAILED hr"
  unfolding call_succeeds_def by blast

named_theorems succeeds_intros \<open>operations that do not fail\<close>

lemma bindS_eq: "bindS f g s = Inr r \<longleftrightarrow> (\<exists>y s1. f s = Inr (y, s1) \<and> g y s1 = Inr r)"
  by (auto simp: bindS_def res_simps)

lemma ret_eq [simp]: "ret x s = Inr (y, s') \<longleftrightarrow> y = x \<and> s' = s"
  by (auto simp: ret_def)

lemma or_false_eq:
  "or_false f g s = Inr (Some y, s') \<longleftrightarrow> (\<exists>x s1. f s = Inr (Some x, s1) \<and> g x s1 = Inr (Some y, s'))"
  by (auto simp: or_false_def bindS_eq split: option.splits)

lemma emit_call_succeeds: "always_writes nils c \<Longrightarrow> call_succeeds (emit_call c)"
  unfolding always_writes_def call_succeeds_def emit_call_def
  by (auto simp: Let_def split: prod.splits) (metis Pair_inject)

lemma emit_calls_succeed [succeeds_intros]:
  assumes "clr_defines env"
  shows "call_succeeds (emit_call (clr_DefineAssemblyRef env r))"
    "call_succeeds (emit_call (clr_DefineTypeRefByName env sc nm))"
    "call_succeeds (emit_call (clr_DefineMemberRef env tk nm sig))"
    "call_succeeds (emit_call (clr_DefineMethodSpec env tk sig))"
    "call_succeeds (emit_call (clr_GetTokenFromTypeSpec env sig))"
    "call_succeeds (emit_call (clr_GetTokenFromSig env sig))"
  using assms emit_call_succeeds unfolding clr_defines_def by metis+

lemma call_succeeds_bind [succeeds_intros]: "(\<And>x. call_succeeds (g x)) \<Longrightarrow> call_succeeds (bindS f g)"
  unfolding call_succeeds_def by (auto simp: bindS_eq) blast

lemma call_succeeds_let [succeeds_intros]: "call_succeeds (f a) \<Longrightarrow> call_succeeds (Let a f)"
  by simp

lemma ensure_succeeds [succeeds_intros]: "call_succeeds call \<Longrightarrow> succeeds (ensure get put nil call)"
  unfolding call_succeeds_def succeeds_def by (auto simp: ensure_run res_simps)

lemma or_return_succeeds [succeeds_intros]: "succeeds f \<Longrightarrow> succeeds g \<Longrightarrow> succeeds (or_return f g)"
  unfolding succeeds_def [of "or_return f g"]
  by (auto simp: or_return_def bindS_eq dest: succeedsD split: if_splits)

lemma ret_S_OK_succeeds [succeeds_intros]: "succeeds (ret S_OK)"
  by (simp add: succeeds_def)

lemma ensure_type_succeeds [succeeds_intros]:
  "clr_defines env \<Longrightarrow> succeeds (ensure_type env scope get put nm)"
  unfolding ensure_type_def by (intro succeeds_intros)

lemma EnsureCorLibTokens_succeeds [succeeds_intros]:
  assumes "clr_defines env"
  shows "succeeds (EnsureCorLibTokens env)"
proof -
  have types: "succeeds (EnsureCorLibTypes env)"
    unfolding EnsureCorLibTypes_def EnsureGetTypeFromHandle_def by (intro succeeds_intros assms)
  have "\<exists>hr v m'. clr_DefineAssemblyRef env r m = ((hr, Some v), m') \<and> \<not> FAILED hr" for r m
    using assms unfolding clr_defines_def always_writes_def by blast
  then show ?thesis
    using types unfolding succeeds_def EnsureCorLibTokens_def
    by (auto simp: bindS_eq emit_call_def store_def ct_simps Let_def split: if_splits prod.splits) (metis Pair_inject)+
qed

lemma EnsureBase_succeeds [succeeds_intros]:
  "clr_defines env \<Longrightarrow> succeeds (EnsureBaseCalltargetTokens env)"
  unfolding EnsureBaseCalltargetTokens_def EnsureStateGetDefault_def by (intro succeeds_intros)

section \<open>Operations that emit a call\<close>

definition call_emits :: "(HRESULT \<times> ptr option, 'm) ct \<Rightarrow> bool" where
  "call_emits f \<longleftrightarrow> (\<forall>s hr out s'. f s = Inr ((hr, out), s') \<longrightarrow>
     (\<exists>p tk. out = Some p \<and> \<not> FAILED hr \<and> emitted s s' [p] [(CEE_CALL, Arg32 tk)]))"

named_theorems call_intros \<open>operations that emit one call\<close>

lemma call_emits_bind [call_intros]:
  assumes "keeps_wrapper f" "\<And>x. call_emits (g x)"
  shows "call_emits (bindS f g)"
  unfolding call_emits_def bindS_eq
proof (intro allI impI, elim exE conjE)
  fix s hr out s' y s1
  assume f: "f s = Inr (y, s1)" and g: "g y s1 = Inr ((hr, out), s')"
  obtain p tk where "out = Some p" "\<not> FAILED hr" "emitted s1 s' [p] [(CEE_CALL, Arg32 tk)]"
    using assms(2) g unfolding call_emits_def by blast
  then show "\<exists>p tk. out = Some p \<and> \<not> FAILED hr \<and> emitted s s' [p] [(CEE_CALL, Arg32 tk)]"
    using emitted_trans [OF keeps_emitted [OF assms(1) f]] by fastforce
qed

lemma call_emits_checked [call_intros]:
  assumes "keeps_wrapper f" "succeeds f" "call_emits g"
  shows "call_emits (bindS f (\<lambda>hr. if FAILED hr then h hr else g))"
proof -
  have "bindS f (\<lambda>hr. if FAILED hr then h hr else g) s = bindS f (\<lambda>_. g) s" for s
    using succeedsD [OF assms(2)] by (cases "f s") (auto simp: bindS_def)
  then show ?thesis using call_emits_bind [OF assms(1,3)] by (simp add: call_emits_def)
qed

lemma call_emits_last [call_intros]:
  assumes "keeps_wrapper f" "call_succeeds f"
  shows "call_emits (bindS f (\<lambda>(hr, out). if FAILED hr then h hr else bindS (call_member (tk out)) (\<lambda>p. ret (S_OK, Some p))))"
proof -
  have "bindS f (\<lambda>(hr, out). if FAILED hr then h hr else bindS (call_member (tk out)) (\<lambda>p. ret (S_OK, Some p))) s
      = bindS f (\<lambda>(hr, out). bindS (call_member (tk out)) (\<lambda>p. ret (S_OK, Some p))) s" for s
    using call_succeedsD [OF assms(2)] by (cases "f s") (auto simp: bindS_def)
  moreover have "call_emits (bindS (call_member tk) (\<lambda>p. ret (S_OK, Some p)))" for tk :: u32
    using call_member_emitted by (fastforce simp: call_emits_def bindS_eq)
  then have "call_emits (bindS f (\<lambda>(hr, out). bindS (call_member (tk out)) (\<lambda>p. ret (S_OK, Some p))))"
    by (intro call_emits_bind assms(1)) (auto split: prod.split)
  ultimately show ?thesis by (simp add: call_emits_def)
qed

lemma call_emits_checked_call [call_intros]:
  assumes "keeps_wrapper f" "call_succeeds f" "\<And>out. call_emits (g out)"
  shows "call_emits (bindS f (\<lambda>(hr, out). if FAILED hr then h hr else g out))"
proof -
  have "bindS f (\<lambda>(hr, out). if FAILED hr then h hr else g out) s = bindS f (\<lambda>(hr, out). g out) s" for s
    using call_succeedsD [OF assms(2)] by (cases "f s") (auto simp: bindS_def)
  moreover have "call_emits (bindS f (\<lambda>(hr, out). g out))"
    by (intro call_emits_bind assms(1)) (auto intro: assms(3) split: prod.split)
  ultimately show ?thesis by (simp add: call_emits_def)
qed

lemma call_emits_cases [call_intros]:
  "(\<And>x y. call_emits (f x y)) \<Longrightarrow> call_emits (case p of (x, y) \<Rightarrow> f x y)"
  "call_emits (f' a) \<Longrightarrow> call_emits (Let a f')"
  "call_emits g \<Longrightarrow> call_emits h \<Longrightarrow> call_emits (if b then g else h)"
  by (auto split: prod.split)

lemma call_method_spec_emits [call_intros]:
  "clr_defines env \<Longrightarrow> call_emits (call_method_spec env member integ ty count types)"
  unfolding call_method_spec_def by (intro call_intros keeps_intros succeeds_intros)

lemma WriteCalls_emit [call_intros]:
  assumes "clr_defines env"
  shows "call_emits (WriteBeginMethodWithArgumentsArray env integ ty)"
    "call_emits (WriteBeginMethod env integ ty args)"
    "call_emits (WriteEndVoidReturnMemberRef env integ ty)"
    "call_emits (WriteEndReturnMemberRef env integ ty a)"
    "call_emits (WriteLogException env integ ty)"
    "call_emits (WriteCallTargetReturnGetReturnValue env spec)"
proof -
  show array: "call_emits (WriteBeginMethodWithArgumentsArray env integ ty)"
    unfolding WriteBeginMethodWithArgumentsArray_def by (intro call_intros keeps_intros succeeds_intros assms)
  show "call_emits (WriteBeginMethod env integ ty args)"
    unfolding WriteBeginMethod_def by (intro call_intros keeps_intros succeeds_intros assms array)
  show "call_emits (WriteEndVoidReturnMemberRef env integ ty)"
    unfolding WriteEndVoidReturnMemberRef_def by (intro call_intros keeps_intros succeeds_intros assms)
  show "call_emits (WriteEndReturnMemberRef env integ ty a)"
    unfolding WriteEndReturnMemberRef_def by (intro call_intros keeps_intros succeeds_intros assms)
  show "call_emits (WriteLogException env integ ty)"
    unfolding WriteLogException_def by (intro call_intros keeps_intros succeeds_intros assms)
  show "call_emits (WriteCallTargetReturnGetReturnValue env spec)"
    unfolding WriteCallTargetReturnGetReturnValue_def by (intro call_intros keeps_intros succeeds_intros assms)
qed

section \<open>The code of the parts\<close>

text \<open>The instructions around the body, as functions of the indices and of the tokens called.\<close>

abbreviation call_il :: "u32 \<Rightarrow> il" where "call_il tk \<equiv> (CEE_CALL, Arg32 tk)"
abbreviation leave_il :: "ptr \<Rightarrow> il" where "leave_il p \<equiv> (CEE_LEAVE_S, Target p)"

definition init_code :: "LocalSigResult \<Rightarrow> u32 \<Rightarrow> u32 \<Rightarrow> il list" where
  "init_code r t1 t2 =
     (if returnValueIndex r \<noteq> ULONG_MAX
      then [call_il t1, StLocal_il (returnValueIndex r), call_il t2, StLocal_il (callTargetReturnIndex r)]
      else [call_il t1, StLocal_il (callTargetReturnIndex r)])
     @ [(CEE_LDNULL, Zeroed), StLocal_il (exceptionIndex r)]"

definition instance_code :: "TypeInfo \<Rightarrow> bool \<Rightarrow> il list" where
  "instance_code ty isStatic =
     (if isStatic then [(CEE_LDNULL, Zeroed)]
      else LoadArgument_il 0 # (if ti_valueType ty
        then [(CEE_LDOBJ, Arg32 (if ti_type_spec ty \<noteq> mdTypeSpecNil then ti_type_spec ty else ti_id ty))] else []))"

definition arguments_code :: "bool \<Rightarrow> nat \<Rightarrow> il list" where
  "arguments_code isStatic n = map (\<lambda>i. LoadArgument_il (argument_index isStatic i)) [0..<n]"

definition begin_code :: "TypeInfo \<Rightarrow> bool \<Rightarrow> nat \<Rightarrow> LocalSigResult \<Rightarrow> u32 \<Rightarrow> u32 \<Rightarrow> ptr \<Rightarrow> il list" where
  "begin_code ty isStatic n r begin_tk log_tk original =
     instance_code ty isStatic @ arguments_code isStatic n
     @ [call_il begin_tk, StLocal_il (callTargetStateIndex r), leave_il original, call_il log_tk, leave_il original]"

definition end_code :: "TypeInfo \<Rightarrow> bool \<Rightarrow> bool \<Rightarrow> LocalSigResult \<Rightarrow> u32 \<Rightarrow> u32 \<Rightarrow> u32 \<Rightarrow> ptr \<Rightarrow> il list" where
  "end_code ty isStatic isVoid r end_tk get_tk log_tk end_finally =
     instance_code ty isStatic @ (if isVoid then [] else [LoadLocal_il (returnValueIndex r)])
     @ [LoadLocal_il (exceptionIndex r), LoadLocal_il (callTargetStateIndex r), call_il end_tk,
        StLocal_il (callTargetReturnIndex r)]
     @ (if isVoid then [] else
          [LoadLocalAddress_il (callTargetReturnIndex r), call_il get_tk, StLocal_il (returnValueIndex r)])
     @ [leave_il end_finally, call_il log_tk, leave_il end_finally, (CEE_ENDFINALLY, Zeroed)]
     @ (if isVoid then [] else [LoadLocal_il (returnValueIndex r)])"

lemma emitted_cong: "emitted s s' xs code \<Longrightarrow> xs = ys \<Longrightarrow> code = code' \<Longrightarrow> emitted s s' ys code'"
  by simp

lemma load_instance_emitted:
  assumes "load_instance ty isStatic s = Inr (Some p, s')"
  shows "\<exists>xs. emitted s s' (p # xs) (instance_code ty isStatic)"
proof (cases isStatic)
  case True
  then show ?thesis
    using assms one_emitted(1)
    by (intro exI [of _ "[]"]) (auto simp: load_instance_def bindS_eq instance_code_def split: if_splits)
next
  case False
  obtain q s1 where arg: "wrapper_op (LoadArgument 0) s = Inr (q, s1)"
    and rest: "(if ti_valueType ty then
            (if ti_type_spec ty \<noteq> mdTypeSpecNil then bindS (wrapper_op (LoadObj (ti_type_spec ty))) (\<lambda>_. ret (Some q))
             else if \<not> ti_isGeneric ty then bindS (wrapper_op (LoadObj (ti_id ty))) (\<lambda>_. ret (Some q)) else ret None)
          else ret (Some q)) s1 = Inr (Some p, s')"
    using assms False by (auto simp: load_instance_def bindS_eq)
  note e = one_emitted(2) [OF arg]
  show ?thesis
  proof (cases "ti_valueType ty")
    case False
    then show ?thesis using rest e \<open>\<not> isStatic\<close> by (intro exI [of _ "[]"]) (auto simp: instance_code_def)
  next
    case True
    then obtain y where "wrapper_op (LoadObj (if ti_type_spec ty \<noteq> mdTypeSpecNil then ti_type_spec ty else ti_id ty)) s1
        = Inr (y, s')" "p = q"
      using rest by (auto simp: bindS_eq split: if_splits)
    from emitted_trans [OF e one_emitted(6) [OF this(1)]] this(2) show ?thesis
      using True \<open>\<not> isStatic\<close> by (intro exI [of _ "[y]"]) (simp add: instance_code_def)
  qed
qed

lemma load_arguments_fast_emitted:
  "load_arguments_fast isStatic as i n s = Inr (Some (), s') \<Longrightarrow>
    \<exists>xs. emitted s s' xs (map (\<lambda>j. LoadArgument_il (argument_index isStatic j)) [i..<i + n])"
proof (induction n arbitrary: i s)
  case 0
  then show ?case using emitted_keep [of s s] by (intro exI [of _ "[]"]) simp
next
  case (Suc n)
  then obtain p s1 f s2 where arg: "wrapper_op (LoadArgument (argument_index isStatic i)) s = Inr (p, s1)"
    "arg_flags as i s1 = Inr (f, s2)" and rest: "load_arguments_fast isStatic as (Suc i) n s2 = Inr (Some (), s')"
    by (auto simp: bindS_eq split: if_splits)
  from Suc.IH [OF rest] obtain xs where
    xs: "emitted s2 s' xs (map (\<lambda>j. LoadArgument_il (argument_index isStatic j)) [Suc i..<Suc i + n])" by blast
  have "emitted s s2 [p] [LoadArgument_il (argument_index isStatic i)]"
    using emitted_trans [OF one_emitted(2) [OF arg(1)] keeps_emitted [OF keeps_pieces(1) arg(2)]] by simp
  from emitted_trans [OF this xs] show ?case
    by (intro exI [of _ "p # xs"]) (simp add: upt_rec [of i] del: upt_Suc)
qed

text \<open>\<open>ModifyLocalSig\<close> changes no instruction: it sets the signature of the locals.\<close>

definition keeps_code :: "('a, 'm) ct \<Rightarrow> bool" where
  "keeps_code f \<longleftrightarrow> (\<forall>s x s'. f s = Inr (x, s') \<longrightarrow> emitted s s' [] [])"

named_theorems code_intros \<open>operations that leave the instructions alone\<close>

lemma keeps_code_bind [code_intros]: "keeps_code f \<Longrightarrow> (\<And>x. keeps_code (g x)) \<Longrightarrow> keeps_code (bindS f g)"
  unfolding keeps_code_def by (fastforce simp: bindS_eq dest: emitted_trans)

lemma keeps_code_cases [code_intros]:
  "keeps_code g \<Longrightarrow> keeps_code h \<Longrightarrow> keeps_code (if b then g else h)"
  "(\<And>x y. keeps_code (f x y)) \<Longrightarrow> keeps_code (case p of (x, y) \<Rightarrow> f x y)"
  "keeps_code (f' a) \<Longrightarrow> keeps_code (Let a f')"
  "keeps_code g \<Longrightarrow> (\<And>x. keeps_code (k x)) \<Longrightarrow> keeps_code (case z of None \<Rightarrow> g | Some x \<Rightarrow> k x)"
  by (auto split: prod.split option.split)

lemma keeps_code_wrapper: "keeps_wrapper f \<Longrightarrow> keeps_code f"
  using keeps_emitted by (auto simp: keeps_code_def)

lemma keeps_code_set_local_sig [code_intros]: "keeps_code (set_local_sig v)"
proof -
  have "emitted s (s\<lparr>ct_wrapper := (ct_wrapper s)\<lparr>m_ILRewriter := SetTkLocalVarSig tk (rw s)\<rparr>\<rparr>) [] []" for s :: "'a ct_state" and tk
    by (simp add: emitted_def at_def node_def il_node_def il_ring_def SetTkLocalVarSig_def)
  then show ?thesis by (auto simp: keeps_code_def set_local_sig_def lift_def split: option.splits)
qed

lemma keeps_read [keeps_intros]: "keeps_wrapper (\<lambda>s. Inr (g s, s))"
  by (simp add: keeps_wrapper_def)

lemma keeps_ModifyLocalSig_parts [keeps_intros]:
  "keeps_wrapper (original_locals env buffer)" "keeps_wrapper (return_locals env a is_void)"
  unfolding original_locals_def return_locals_def by (intro keeps_intros)+

lemma ModifyLocalSig_emitted:
  assumes "ModifyLocalSig env a s = Inr (x, s')"
  shows "emitted s s' [] []"
proof -
  have "keeps_code (ModifyLocalSig env a)"
    unfolding ModifyLocalSig_def
    by (intro code_intros; (intro keeps_code_wrapper keeps_intros; fail)?)
  then show ?thesis using assms unfolding keeps_code_def by blast
qed

lemma init_part_emitted:
  assumes "init_part env a s = Inr ((r, Some p), s')"
  shows "\<exists>xs t1 t2. emitted s s' (p # xs) (init_code r t1 t2)"
proof -
  obtain s1 hr where sig: "ModifyLocalSig env a s = Inr ((hr, Some r), s1)" and init: "init_locals env a r s1 = Inr (p, s')"
    using assms by (auto simp: init_part_def ModifyLocalSigAndInitialize_def bindS_eq split: option.splits)
  have call: "emitted t t' [q1, q2] [call_il tk, StLocal_il i]"
    if "call_member tk t = Inr (q1, t1)" "wrapper_op (StLocal i) t1 = Inr (q2, t')"
    for t t1 t' :: "'a ct_state" and q1 q2 i tk
    using emitted_trans [OF call_member_emitted [OF that(1)] one_emitted(5) [OF that(2)]] by simp
  have null: "emitted t t' [q1, q2] [(CEE_LDNULL, Zeroed), StLocal_il i]"
    if "wrapper_op LoadNull t = Inr (q1, t1)" "wrapper_op (StLocal i) t1 = Inr (q2, t')"
    for t t1 t' :: "'a ct_state" and q1 q2 i
    using emitted_trans [OF one_emitted(1) [OF that(1)] one_emitted(5) [OF that(2)]] by simp
  note e0 = ModifyLocalSig_emitted [OF sig]
  show ?thesis
  proof (cases "returnValueIndex r \<noteq> ULONG_MAX")
    case True
    then obtain t1 t2 a1 b1 a2 b2 a3 b3 u1 u2 u3 u4 u5 u6 u7 where
      run: "GetCallTargetDefaultValueMethodSpec env a s1 = Inr (t1, u1)" "call_member t1 u1 = Inr (p, u2)"
        "wrapper_op (StLocal (returnValueIndex r)) u2 = Inr (b1, u3)"
        "GetCallTargetReturnValueDefaultMemberRef env (callTargetReturnToken r) u3 = Inr (t2, u4)"
        "call_member t2 u4 = Inr (a2, u5)" "wrapper_op (StLocal (callTargetReturnIndex r)) u5 = Inr (b2, u6)"
        "wrapper_op LoadNull u6 = Inr (a3, u7)" "wrapper_op (StLocal (exceptionIndex r)) u7 = Inr (b3, s')"
      using init by (auto simp: init_locals_def bindS_eq)
    have "emitted s s' [p, b1, a2, b2, a3, b3] (init_code r t1 t2)"
      using emitted_trans [OF emitted_trans [OF e0 keeps_emitted [OF keeps_getters(5) run(1)]]
          emitted_trans [OF call [OF run(2,3)] emitted_trans [OF keeps_emitted [OF keeps_getters(4) run(4)]
              emitted_trans [OF call [OF run(5,6)] null [OF run(7,8)]]]]] True
      by (simp add: init_code_def)
    then show ?thesis by blast
  next
    case False
    then obtain t1 b1 a3 b3 u1 u2 u3 u4 where
      run: "GetCallTargetReturnVoidDefaultMemberRef env s1 = Inr (t1, u1)" "call_member t1 u1 = Inr (p, u2)"
        "wrapper_op (StLocal (callTargetReturnIndex r)) u2 = Inr (b1, u3)"
        "wrapper_op LoadNull u3 = Inr (a3, u4)" "wrapper_op (StLocal (exceptionIndex r)) u4 = Inr (b3, s')"
      using init by (auto simp: init_locals_def bindS_eq)
    have "emitted s s' [p, b1, a3, b3] (init_code r t1 t1)"
      using emitted_trans [OF emitted_trans [OF e0 keeps_emitted [OF keeps_getters(3) run(1)]]
          emitted_trans [OF call [OF run(2,3)] null [OF run(4,5)]]] False
      by (simp add: init_code_def)
    then show ?thesis by blast
  qed
qed

section \<open>The jumps over the catch blocks\<close>

lemma on_rewriter_eq:
  "on_rewriter f s = Inr (x, s') \<longleftrightarrow>
    (\<exists>r. f (rw s) = (x, r) \<and> s' = s\<lparr>ct_wrapper := (ct_wrapper s)\<lparr>m_ILRewriter := r\<rparr>\<rparr>)"
  by (auto simp: on_rewriter_def Let_def split: prod.split)

lemma map_split_at:
  assumes "map f ps = xs @ y # zs"
  obtains as p bs where "ps = as @ p # bs" "map f as = xs" "f p = y" "map f bs = zs"
  using assms by (auto simp: map_eq_append_conv map_eq_Cons_conv)

lemma set_target_emitted:
  assumes "emitted s s1 (ys @ p # zs) (c @ (opc, a) # d)" and "length ys = length c"
    and "set_target p q s1 = Inr ((), s2)"
  shows "emitted s s2 (ys @ p # zs) (c @ (opc, Target q) # d)"
proof -
  have s2: "s2 = s1\<lparr>ct_wrapper := (ct_wrapper s1)\<lparr>m_ILRewriter := set_arg p (Target q) (rw s1)\<rparr>\<rparr>"
    using assms(3) by (simp add: set_target_def on_rewriter_eq)
  have other: "node s2 x = node s1 x" if "x \<noteq> p" for x
    using that by (simp add: s2 node_def il_node_def frame_simps)
  show ?thesis
    unfolding emitted_def
  proof (intro conjI allI impI)
    show "length (ys @ p # zs) = length (c @ (opc, Target q) # d)" "m_pEH (rw s2) = m_pEH (rw s)" "m_nEH (rw s2) = m_nEH (rw s)"
      "m_ILInstr (ct_wrapper s2) = m_ILInstr (ct_wrapper s)"
      using assms(1) by (simp_all add: emitted_def s2 frame_simps)
    fix as bs assume "at s as bs"
    then have e: "at s1 (as @ ys @ p # zs) bs" "map (node s1) (ys @ p # zs) = c @ (opc, a) # d"
      "\<forall>x \<in> set (as @ bs). node s1 x = node s x"
      using assms(1) by (simp_all add: emitted_def)
    have dist: "distinct (as @ ys @ p # zs @ bs)" using e(1) by (simp add: at_def il_ring_def)
    have "map (node s1) ys = c" "node s1 p = (opc, a)" "map (node s1) zs = d"
      using e(2) assms(2) by simp_all
    moreover have "node s2 p = (fst (node s1 p), Target q)"
      by (simp add: s2 node_def il_node_def frame_simps)
    moreover have "map (node s2) ys = map (node s1) ys" "map (node s2) zs = map (node s1) zs"
      using dist by (auto intro!: map_cong other)
    ultimately show "map (node s2) (ys @ p # zs) = c @ (opc, Target q) # d" by simp
    show "at s2 (as @ ys @ p # zs) bs" using e(1) by (simp add: at_def s2)
    show "\<forall>x \<in> set (as @ bs). node s2 x = node s x"
    proof
      fix x assume x: "x \<in> set (as @ bs)"
      then have "x \<noteq> p" using dist by auto
      then show "node s2 x = node s x" using e(3) other x by simp
    qed
  qed
qed

lemma begin_part_emitted:
  assumes env: "clr_defines env" and few: "sint (numberOfArguments (fi_method_signature caller)) < int FASTPATH_COUNT"
    and run: "begin_part env wtr caller isStatic r first s = Inr (Some cl, s')"
  shows "\<exists>xs catch leave q bt lt f ex. m_ILInstr (ct_wrapper s) = Some q \<and> first = Some f
    \<and> emitted s s' (xs @ [catch, leave])
        (begin_code (fi_type caller) isStatic (nat (sint (numberOfArguments (fi_method_signature caller)))) r bt lt q)
    \<and> cl = catch_clause f catch leave ex"
proof -
  let ?n = "sint (numberOfArguments (fi_method_signature caller))"
  let ?as = "fms_params (fi_method_signature caller)"
  let ?ty = "fi_type caller"
  obtain p s1 s2 hr b s3 st s4 l1 s5 hr2 catch s6 l2 s7 f s8 cp s9 ex s10 pos s11 q s12 s13 where
    1: "load_instance ?ty isStatic s = Inr (Some p, s1)"
    and 2: "load_arguments env isStatic ?as ?n s1 = Inr (Some (), s2)"
    and 3: "WriteBeginMethod env wtr ?ty ?as s2 = Inr ((hr, b), s3)"
    and 4: "wrapper_op (StLocal (callTargetStateIndex r)) s3 = Inr (st, s4)"
    and 5: "wrapper_op (CreateInstr CEE_LEAVE_S) s4 = Inr (l1, s5)"
    and 6: "WriteLogException env wtr ?ty s5 = Inr ((hr2, catch), s6)"
    and 7: "wrapper_op (CreateInstr CEE_LEAVE_S) s6 = Inr (l2, s7)"
    and 8: "the_ptr first s7 = Inr (f, s8)" and 9: "the_ptr catch s8 = Inr (cp, s9)"
    and 10: "token GetExceptionTypeRef s9 = Inr (ex, s10)"
    and 11: "current_position s10 = Inr (pos, s11)" and 12: "the_ptr pos s11 = Inr (q, s12)"
    and 13: "set_target l1 q s12 = Inr ((), s13)" and 14: "set_target l2 q s13 = Inr ((), s')"
    and cl: "cl = catch_clause f cp l2 ex"
    using run unfolding begin_part_def Let_def or_false_eq bindS_eq
    by (auto simp: bindS_eq split: if_splits prod.splits)
  obtain xs1 where e1: "emitted s s1 (p # xs1) (instance_code ?ty isStatic)"
    using load_instance_emitted [OF 1] by blast
  have "load_arguments_fast isStatic ?as 0 (nat ?n) s1 = Inr (Some (), s2)"
    using 2 few by (simp add: load_arguments_def)
  from load_arguments_fast_emitted [OF this] obtain xs2 where e2: "emitted s1 s2 xs2 (arguments_code isStatic (nat ?n))"
    by (auto simp: arguments_code_def)
  obtain b' bt where e3: "emitted s2 s3 [b'] [call_il bt]"
    using WriteCalls_emit(2) [OF env] 3 unfolding call_emits_def by blast
  obtain c' lt where e6: "emitted s5 s6 [c'] [call_il lt]" and catch: "catch = Some c'"
    using WriteCalls_emit(5) [OF env] 6 unfolding call_emits_def by blast
  have [simp]: "cp = c'" "s9 = s8" "s8 = s7" "first = Some f" "s12 = s11" "pos = Some q"
    using 8 9 12 catch by (auto simp: the_ptr_def lift_def split: option.splits)
  have [simp]: "s11 = s10" "pos = m_ILInstr (ct_wrapper s10)"
    using 11 by (auto simp: current_position_def GetCurrentILInstr_def)
  have e10: "emitted s7 s10 [] []" using 10 keeps_emitted [OF keeps_basic(2)] by fastforce
  have all: "emitted s s10 (p # xs1 @ xs2 @ [b', st, l1, c', l2])
      (instance_code ?ty isStatic @ arguments_code isStatic (nat ?n)
        @ [call_il bt, StLocal_il (callTargetStateIndex r), (CEE_LEAVE_S, Zeroed), call_il lt, (CEE_LEAVE_S, Zeroed)])"
    using emitted_trans [OF e1 emitted_trans [OF e2 emitted_trans [OF e3 emitted_trans [OF one_emitted(5) [OF 4]
          emitted_trans [OF one_emitted(9) [OF 5] emitted_trans [OF e6 emitted_trans [OF one_emitted(9) [OF 7] e10]]]]]]]
    by simp
  have posn: "m_ILInstr (ct_wrapper s) = Some q" 
  proof -
    have "m_ILInstr (ct_wrapper s10) = m_ILInstr (ct_wrapper s)" using all by (simp add: emitted_def)
    then show ?thesis using \<open>pos = m_ILInstr (ct_wrapper s10)\<close> \<open>pos = Some q\<close> by simp
  qed
  let ?xs = "p # xs1 @ xs2" let ?c = "instance_code ?ty isStatic @ arguments_code isStatic (nat ?n)"
  have len: "length ?xs = length ?c" using e1 e2 by (simp add: emitted_def)
  have "emitted s s10 ((?xs @ [b', st]) @ l1 # [c', l2])
      ((?c @ [call_il bt, StLocal_il (callTargetStateIndex r)]) @ (CEE_LEAVE_S, Zeroed) # [call_il lt, (CEE_LEAVE_S, Zeroed)])"
    using all by simp
  from set_target_emitted [OF this _ 13 [unfolded \<open>s12 = s11\<close> \<open>s11 = s10\<close>]] len
  have "emitted s s13 ((?xs @ [b', st, l1, c']) @ l2 # [])
      ((?c @ [call_il bt, StLocal_il (callTargetStateIndex r), leave_il q, call_il lt]) @ (CEE_LEAVE_S, Zeroed) # [])"
    by simp
  from set_target_emitted [OF this _ 14] len
  have "emitted s s' ((?xs @ [b', st, l1]) @ [c', l2]) (begin_code ?ty isStatic (nat ?n) r bt lt q)"
    by (simp add: begin_code_def)
  then show ?thesis
    using posn cl by (intro exI [of _ "?xs @ [b', st, l1]"] exI [of _ c'] exI [of _ l2] exI [of _ q]) auto
qed

lemma optional_load_emitted:
  assumes "(if \<not> b then bindS (wrapper_op (LoadLocal l)) (\<lambda>_. ret ()) else ret ()) s = Inr ((), s')"
  shows "\<exists>xs. length xs = (if b then 0 else 1) \<and> emitted s s' xs (if b then [] else [LoadLocal_il l])"
proof (cases b)
  case True
  then show ?thesis using assms emitted_keep [of s s] by simp
next
  case False
  then obtain x where "wrapper_op (LoadLocal l) s = Inr (x, s')" using assms by (auto simp: bindS_eq)
  from one_emitted(3) [OF this] False show ?thesis by (intro exI [of _ "[x]"]) simp
qed

lemma end_part_emitted:
  assumes env: "clr_defines env"
    and run: "end_part env wtr caller isStatic isVoid r s = Inr (Some (cl, fin), s')"
  shows "\<exists>start xs catch leave ys et gt lt ex. length ys = (if isVoid then 0 else 1)
    \<and> emitted s s' (start # xs @ [catch, leave, fin] @ ys) (end_code (fi_type caller) isStatic isVoid r et gt lt fin)
    \<and> cl = catch_clause start catch leave ex"
proof -
  let ?ty = "fi_type caller"
  let ?ret = "fms_ret (fi_method_signature caller)"
  obtain p s1 s2 a s3 b s4 e s5 st s6 s7 l1 s8 hr2 catch s9 l2 s10 cp s11 ex s12 s13 s14 s15 where
    1: "load_instance ?ty isStatic s = Inr (Some p, s1)"
    and 2: "(if \<not> isVoid then bindS (wrapper_op (LoadLocal (returnValueIndex r))) (\<lambda>_. ret ()) else ret ()) s1 = Inr ((), s2)"
    and 3: "wrapper_op (LoadLocal (exceptionIndex r)) s2 = Inr (a, s3)"
    and 4: "wrapper_op (LoadLocal (callTargetStateIndex r)) s3 = Inr (b, s4)"
    and 5: "(if isVoid then WriteEndVoidReturnMemberRef env wtr ?ty
             else WriteEndReturnMemberRef env wtr ?ty ?ret) s4 = Inr (e, s5)"
    and 6: "wrapper_op (StLocal (callTargetReturnIndex r)) s5 = Inr (st, s6)"
    and 7: "(if \<not> isVoid then
               bindS (wrapper_op (LoadLocalAddress (callTargetReturnIndex r))) (\<lambda>_.
               bindS (WriteCallTargetReturnGetReturnValue env (callTargetReturnToken r)) (\<lambda>_.
               bindS (wrapper_op (StLocal (returnValueIndex r))) (\<lambda>_. ret ())))
             else ret ()) s6 = Inr ((), s7)"
    and 8: "wrapper_op (CreateInstr CEE_LEAVE_S) s7 = Inr (l1, s8)"
    and 9: "WriteLogException env wtr ?ty s8 = Inr ((hr2, catch), s9)"
    and 10: "wrapper_op (CreateInstr CEE_LEAVE_S) s9 = Inr (l2, s10)"
    and 11: "the_ptr catch s10 = Inr (cp, s11)" and 12: "token GetExceptionTypeRef s11 = Inr (ex, s12)"
    and 13: "wrapper_op EndFinally s12 = Inr (fin, s13)"
    and 14: "set_target l1 fin s13 = Inr ((), s14)" and 15: "set_target l2 fin s14 = Inr ((), s15)"
    and 16: "(if \<not> isVoid then bindS (wrapper_op (LoadLocal (returnValueIndex r))) (\<lambda>_. ret ()) else ret ()) s15 = Inr ((), s')"
    and cl: "cl = catch_clause p cp l2 ex"
    using run unfolding end_part_def Let_def or_false_eq bindS_eq
    by (clarsimp simp: or_false_eq bindS_eq split del: if_split split: prod.splits)
  obtain xs1 where e1: "emitted s s1 (p # xs1) (instance_code ?ty isStatic)"
    using load_instance_emitted [OF 1] by blast
  obtain xs2 where e2: "emitted s1 s2 xs2 (if isVoid then [] else [LoadLocal_il (returnValueIndex r)])"
    using optional_load_emitted [OF 2] by blast
  obtain e' et where e5: "emitted s4 s5 [e'] [call_il et]"
    using WriteCalls_emit(3,4) [OF env] 5 unfolding call_emits_def by (cases isVoid; cases e) (simp, blast)+
  obtain xs7 gt where e7: "emitted s6 s7 xs7 (if isVoid then [] else
      [LoadLocalAddress_il (callTargetReturnIndex r), call_il gt, StLocal_il (returnValueIndex r)])"
  proof (cases isVoid)
    case True
    then show ?thesis using that [of "[]"] 7 emitted_keep [of s6 s6] by simp
  next
    case False
    then obtain x u1 y hr u2 z where run: "wrapper_op (LoadLocalAddress (callTargetReturnIndex r)) s6 = Inr (x, u1)"
      "WriteCallTargetReturnGetReturnValue env (callTargetReturnToken r) u1 = Inr ((hr, y), u2)"
      "wrapper_op (StLocal (returnValueIndex r)) u2 = Inr (z, s7)"
      using 7 by (auto simp: bindS_eq)
    then obtain y' gt where "emitted u1 u2 [y'] [call_il gt]"
      using WriteCalls_emit(6) [OF env] unfolding call_emits_def by blast
    from emitted_trans [OF one_emitted(4) [OF run(1)] emitted_trans [OF this one_emitted(5) [OF run(3)]]]
    show ?thesis using that [of "[x, y', z]" gt] False by simp
  qed
  obtain c' lt where e9: "emitted s8 s9 [c'] [call_il lt]" and catch: "catch = Some c'"
    using WriteCalls_emit(5) [OF env] 9 unfolding call_emits_def by blast
  have c: "cp = c'" and s11: "s11 = s10" using 11 catch by (auto simp: the_ptr_def lift_def)
  have e12: "emitted s10 s12 [] []" using 12 keeps_emitted [OF keeps_basic(2)] unfolding s11 by fastforce
  obtain xs16 where len16: "length xs16 = (if isVoid then 0 else 1)"
    and e16: "emitted s15 s' xs16 (if isVoid then [] else [LoadLocal_il (returnValueIndex r)])"
    using optional_load_emitted [OF 16] by blast
  let ?xs = "p # xs1 @ xs2 @ [a, b, e', st] @ xs7"
  let ?c = "instance_code ?ty isStatic @ (if isVoid then [] else [LoadLocal_il (returnValueIndex r)])
     @ [LoadLocal_il (exceptionIndex r), LoadLocal_il (callTargetStateIndex r), call_il et,
        StLocal_il (callTargetReturnIndex r)]
     @ (if isVoid then [] else
          [LoadLocalAddress_il (callTargetReturnIndex r), call_il gt, StLocal_il (returnValueIndex r)])"
  have e: "emitted s s7 ?xs ?c"
    using emitted_trans [OF e1 emitted_trans [OF e2 emitted_trans [OF one_emitted(3) [OF 3]
          emitted_trans [OF one_emitted(3) [OF 4] emitted_trans [OF e5 emitted_trans [OF one_emitted(5) [OF 6] e7]]]]]]
    by simp
  then have len: "length ?xs = length ?c" unfolding emitted_def by blast
  have "emitted s7 s13 [l1, c', l2, fin] [(CEE_LEAVE_S, Zeroed), call_il lt, (CEE_LEAVE_S, Zeroed), (CEE_ENDFINALLY, Zeroed)]"
    using emitted_trans [OF one_emitted(9) [OF 8] emitted_trans [OF e9 emitted_trans [OF one_emitted(9) [OF 10]
          emitted_trans [OF e12 one_emitted(8) [OF 13]]]]] by simp
  from emitted_trans [OF e this] have "emitted s s13 (?xs @ l1 # [c', l2, fin])
      (?c @ (CEE_LEAVE_S, Zeroed) # [call_il lt, (CEE_LEAVE_S, Zeroed), (CEE_ENDFINALLY, Zeroed)])" .
  from set_target_emitted [OF this len 14]
  have "emitted s s14 ((?xs @ [l1, c']) @ l2 # [fin])
      ((?c @ [leave_il fin, call_il lt]) @ (CEE_LEAVE_S, Zeroed) # [(CEE_ENDFINALLY, Zeroed)])" by simp
  moreover have "length (?xs @ [l1, c']) = length (?c @ [leave_il fin, call_il lt])" using len by simp
  ultimately have "emitted s s15 ((?xs @ [l1, c']) @ l2 # [fin])
      ((?c @ [leave_il fin, call_il lt]) @ leave_il fin # [(CEE_ENDFINALLY, Zeroed)])"
    using set_target_emitted 15 by blast
  from emitted_trans [OF this e16]
  have "emitted s s' (p # (xs1 @ xs2 @ [a, b, e', st] @ xs7 @ [l1]) @ [c', l2, fin] @ xs16)
      (end_code ?ty isStatic isVoid r et gt lt fin)"
    by (simp add: end_code_def)
  then show ?thesis
    using len16 cl c
    by (intro exI [of _ p] exI [of _ "xs1 @ xs2 @ [a, b, e', st] @ xs7 @ [l1]"] exI [of _ c'] exI [of _ l2]
        exI [of _ xs16] exI [of _ et] exI [of _ gt] exI [of _ lt] exI [of _ ex]) simp
qed

end
