(* ===== verification/CallTargetRewrite.thy ===== *)
theory CallTargetRewrite
  imports CallTargetCode
begin

text \<open>
  What \<open>CallTarget_RewriterCallback\<close> makes of a method: the end of the method and the replacement of
  its returns, the layout of the instrumented method with its exception clauses, and the callback.
\<close>

section \<open>The end of the method and its returns\<close>

lemma exception_part_code:
  assumes ring: "il_ring (rw s) qs" and run: "exception_part r s = Inr ((mr, st, re), s')"
  shows "at s' (qs @ [st, re]) [mr]" "node s' mr = (CEE_RET, Zeroed)"
    "map (node s') [st, re] = [StLocal_il (exceptionIndex r), (CEE_RETHROW, Zeroed)]"
    "\<forall>p \<in> set qs. node s' p = node s p" "m_pEH (rw s') = m_pEH (rw s)" "m_nEH (rw s') = m_nEH (rw s)"
proof -
  define s1 where "s1 = s\<lparr>ct_wrapper := (ct_wrapper s)\<lparr>m_ILRewriter := snd (NewILInstr (rw s))\<rparr>\<rparr>"
  define s2 where "s2 = s1\<lparr>ct_wrapper := (ct_wrapper s1)\<lparr>m_ILRewriter := set_opcode (fresh (rw s)) CEE_RET (rw s1)\<rparr>\<rparr>"
  define s3 where "s3 = s2\<lparr>ct_wrapper := (ct_wrapper s2)\<lparr>m_ILRewriter :=
    InsertAfter (m_pPrev (heap (rw s2) m_IL)) (fresh (rw s)) (rw s2)\<rparr>\<rparr>"
  define s4 where "s4 = s3\<lparr>ct_wrapper := SetILPosition mr (ct_wrapper s3)\<rparr>"
  obtain s5 where mr: "mr = fresh (rw s)" and st: "wrapper_op (StLocal (exceptionIndex r)) s4 = Inr (st, s5)"
    and re: "wrapper_op Rethrow (s5\<lparr>ct_wrapper := SetILPosition mr (ct_wrapper s5)\<rparr>) = Inr (re, s')"
    using run by (auto simp: exception_part_def bindS_eq on_rewriter_eq set_position_def s1_def s2_def s3_def s4_def
        NewILInstr_def)
  have new: "NewILInstr (rw s) = (mr, rw s1)" by (simp add: s1_def mr NewILInstr_def)
  note ring1 = NewILInstr_ring [OF ring new]
  have ring2: "il_ring (rw s2) qs" using ring1(1) by (simp add: s2_def)
  obtain cs q where cs: "m_IL # qs = cs @ [q]" by (metis list.distinct(1) rev_exhaust)
  have links: "m_pPrev (heap (rw s2) m_IL) = q" "m_pNext (heap (rw s2) q) = m_IL"
    using il_ring_cut(1,2) [of "rw s2" qs "[]" cs q m_IL "[]"] ring2 cs by simp_all
  have "mr \<noteq> m_IL" using ring1(3) by simp
  then have rw3: "rw s3 = InsertBefore m_IL mr (rw s2)"
    using InsertAfter_eq [of "rw s2" q mr] links by (simp add: s3_def mr [symmetric])
  have "mr < fresh (rw s2)" using ring1(4) by (simp add: s2_def frame_simps)
  with InsertBefore_end [OF ring2 ring1(3)] have ring3: "il_ring (rw s3) (qs @ [mr])"
    by (simp add: rw3)
  then have at4: "at s4 qs [mr]" by (simp add: at_def s4_def SetILPosition_def)
  have node4: "node s4 p = (if p = mr then (CEE_RET, Zeroed) else node s p)" for p
    by (simp add: node_def il_node_def s4_def SetILPosition_def rw3 s2_def s1_def NewILInstr_def frame_simps
        zero_instr_def mr)
  have eh4: "m_pEH (rw s4) = m_pEH (rw s)" "m_nEH (rw s4) = m_nEH (rw s)"
    by (simp_all add: s4_def SetILPosition_def rw3 s2_def s1_def NewILInstr_def frame_simps)
  have pos5: "s5\<lparr>ct_wrapper := SetILPosition mr (ct_wrapper s5)\<rparr> = s5"
    using one_emitted(5) [OF st] by (simp add: emitted_def s4_def SetILPosition_def)
  from emitted_trans [OF one_emitted(5) [OF st] one_emitted(7) [OF re [unfolded pos5]]]
  have e: "emitted s4 s' [st, re] [StLocal_il (exceptionIndex r), (CEE_RETHROW, Zeroed)]" by simp
  then show "m_pEH (rw s') = m_pEH (rw s)" "m_nEH (rw s') = m_nEH (rw s)"
    using eh4 by (simp_all add: emitted_def)
  have *: "at s' (qs @ [st, re]) [mr]" "map (node s') [st, re] = [StLocal_il (exceptionIndex r), (CEE_RETHROW, Zeroed)]"
    "\<forall>p \<in> set (qs @ [mr]). node s' p = node s4 p"
    using e at4 unfolding emitted_def by blast+
  then show "at s' (qs @ [st, re]) [mr]"
    "map (node s') [st, re] = [StLocal_il (exceptionIndex r), (CEE_RETHROW, Zeroed)]" by blast+
  show "node s' mr = (CEE_RET, Zeroed)" using *(3) node4 by simp
  show "\<forall>p \<in> set qs. node s' p = node s p" using *(3) node4 ring1(3) by auto
qed

text \<open>What becomes of an instruction: a return other than the final one stores the value and leaves.\<close>

definition redirected :: "bool \<Rightarrow> u32 \<Rightarrow> ptr \<Rightarrow> ptr \<Rightarrow> (ptr \<Rightarrow> il) \<Rightarrow> ptr \<Rightarrow> il list" where
  "redirected isVoid value_index methodReturn after code p =
     (if fst (code p) = CEE_RET \<and> p \<noteq> methodReturn
      then (if isVoid then [] else [StLocal_il value_index]) @ [leave_il after] else [code p])"

lemma set_leave_node:
  assumes "p \<in> set qs" "il_ring (rw s) qs"
  shows "\<exists>s'. bindS (on_rewriter (\<lambda>r. ((), set_opcode p CEE_LEAVE_S r)))
      (\<lambda>_. bindS (next_instr fin) (\<lambda>target. set_target p target)) s = Inr ((), s')
    \<and> il_ring (rw s') qs \<and> heap (rw s') = (heap (rw s))(p := (heap (rw s) p)
        \<lparr>m_opcode := CEE_LEAVE_S, m_arg := Target (m_pNext (heap (rw s) fin))\<rparr>)
    \<and> m_pEH (rw s') = m_pEH (rw s) \<and> m_nEH (rw s') = m_nEH (rw s) \<and> fresh (rw s') = fresh (rw s)"
  using assms by (simp add: bindS_eq on_rewriter_eq next_instr_def set_target_def frame_simps fun_eq_iff il_ring_upd)

lemma replace_return_step:
  assumes ring: "il_ring (rw s) (as @ p # bs)" and fin: "m_pNext (heap (rw s) fin) = after" "fin < fresh (rw s)"
    and keep: "fst (node s p) = CEE_RET \<Longrightarrow> p \<noteq> methodReturn \<Longrightarrow> p \<noteq> after"
  shows "\<exists>gp s'. replace_return isVoid vi methodReturn fin p s = Inr ((), s')
    \<and> il_ring (rw s') (as @ (gp @ [p]) @ bs)
    \<and> map (node s') (gp @ [p]) = redirected isVoid vi methodReturn after (node s) p
    \<and> (\<forall>x \<in> set (as @ bs). node s' x = node s x)
    \<and> m_pNext (heap (rw s') fin) = after \<and> fin < fresh (rw s')
    \<and> m_pEH (rw s') = m_pEH (rw s) \<and> m_nEH (rw s') = m_nEH (rw s)"
proof (cases "fst (node s p) = CEE_RET \<and> p \<noteq> methodReturn")
  case False
  then show ?thesis
    using assms by (intro exI [of _ "[]"] exI [of _ s])
      (auto simp: replace_return_def bindS_eq on_rewriter_eq redirected_def node_def il_node_def)
next
  case ret: True
  have dist: "distinct (m_IL # as @ p # bs)" using ring by (simp add: il_ring_def)
  have op: "m_opcode (heap (rw s) p) = CEE_RET" using ret by (simp add: node_def il_node_def)
  let ?tail = "bindS (on_rewriter (\<lambda>r. ((), set_opcode p CEE_LEAVE_S r)))
      (\<lambda>_. bindS (next_instr fin) (\<lambda>target. set_target p target))"
  have run: "replace_return isVoid vi methodReturn fin p s =
      bindS (if \<not> isVoid then bindS (set_position p) (\<lambda>_. bindS (wrapper_op (StLocal vi)) (\<lambda>_. ret ())) else ret ())
        (\<lambda>_. ?tail) s"
    using ret op by (simp add: replace_return_def bindS_def on_rewriter_def res_simps)
  show ?thesis
  proof (cases isVoid)
    case True
    obtain s' where s': "?tail s = Inr ((), s')" "il_ring (rw s') (as @ p # bs)"
      "heap (rw s') = (heap (rw s))(p := (heap (rw s) p)\<lparr>m_opcode := CEE_LEAVE_S, m_arg := Target (m_pNext (heap (rw s) fin))\<rparr>)"
      "m_pEH (rw s') = m_pEH (rw s)" "m_nEH (rw s') = m_nEH (rw s)" "fresh (rw s') = fresh (rw s)"
      using set_leave_node [OF _ ring, of p fin] by auto
    have "replace_return isVoid vi methodReturn fin p s = Inr ((), s')"
      unfolding run using True s'(1) by (simp add: bindS_eq)
    then show ?thesis
      using s' ret True dist fin by (intro exI [of _ "[]"] exI [of _ s'])
        (auto simp: redirected_def node_def il_node_def)
  next
    case False
    define s1 where "s1 = s\<lparr>ct_wrapper := SetILPosition p (ct_wrapper s)\<rparr>"
    define x where "x = fresh (rw s)"
    define i where "i = StLocal_il vi"
    define r2 where "r2 = set_arg x (snd i) (set_opcode x (fst i) (snd (NewILInstr (rw s))))"
    define s2 where "s2 = s1\<lparr>ct_wrapper := (ct_wrapper s1)\<lparr>m_ILRewriter := InsertBefore p x r2\<rparr>\<rparr>"
    have st: "wrapper_op (StLocal vi) s1 = Inr (x, s2)"
      by (simp add: wrapper_op_def StLocal_def emit_def s1_def SetILPosition_def emit_before_def NewILInstr_def Let_def
          s2_def r2_def x_def i_def res_simps split: prod.split)
    have "at s1 as (p # bs)" using ring by (simp add: at_def s1_def SetILPosition_def)
    then have e2: "at s2 (as @ [x]) (p # bs)" "node s2 x = i" "\<forall>q \<in> set (as @ p # bs). node s2 q = node s1 q"
      "m_pEH (rw s2) = m_pEH (rw s1)" "m_nEH (rw s2) = m_nEH (rw s1)"
      using one_emitted(5) [OF st] unfolding emitted_def i_def by (blast, simp_all)
    have [simp]: "node s1 q = node s q" "rw s1 = rw s" for q by (simp_all add: s1_def node_def SetILPosition_def)
    have ring2: "il_ring (rw s2) ((as @ [x]) @ p # bs)" using e2(1) by (simp add: at_def)
    obtain cs q where cs: "m_IL # as = cs @ [q]" by (metis list.distinct(1) rev_exhaust)
    note cut = il_ring_cut(1,2) [OF ring cs, of p "bs @ [m_IL]", simplified]
    have q_in: "q \<in> set (m_IL # as)" unfolding cs by simp
    have ring_lt: "\<forall>y \<in> set (m_IL # as @ p # bs). y < fresh (rw s)" using ring by (auto simp: il_ring_def)
    have "p \<noteq> x" "q \<noteq> x" using ring_lt q_in by (auto simp: x_def)
    have links: "m_pNext (heap r2 y) = m_pNext (heap (rw s) y)" "m_pPrev (heap r2 y) = m_pPrev (heap (rw s) y)"
      if "y \<noteq> x" for y
      using that by (simp_all add: r2_def NewILInstr_def x_def frame_simps)
    have "fin \<noteq> q" using fin(1) cut(2) keep ret by auto
    moreover have "fin \<noteq> x" using fin(2) by (simp add: x_def)
    moreover have "rw s2 = InsertBefore p x r2" by (simp add: s2_def)
    moreover have "m_pPrev (heap r2 p) = q" using links(2) [OF \<open>p \<noteq> x\<close>] cut(1) by simp
    ultimately have fin2: "m_pNext (heap (rw s2) fin) = after" "fin < fresh (rw s2)"
      using InsertBefore_links(1) [of x p r2 fin] \<open>p \<noteq> x\<close> \<open>q \<noteq> x\<close> links(1) fin
      by (simp_all add: frame_simps r2_def NewILInstr_def)
    obtain s' where s': "?tail s2 = Inr ((), s')" "il_ring (rw s') ((as @ [x]) @ p # bs)"
      "heap (rw s') = (heap (rw s2))(p := (heap (rw s2) p)\<lparr>m_opcode := CEE_LEAVE_S, m_arg := Target (m_pNext (heap (rw s2) fin))\<rparr>)"
      "m_pEH (rw s') = m_pEH (rw s2)" "m_nEH (rw s') = m_nEH (rw s2)" "fresh (rw s') = fresh (rw s2)"
      using set_leave_node [OF _ ring2, of p fin] by auto
    have node': "node s' y = (if y = p then leave_il after else node s2 y)" for y
      by (simp add: node_def il_node_def s'(3) fin2)
    have "replace_return isVoid vi methodReturn fin p s = Inr ((), s')"
      unfolding run using False s'(1) st by (simp add: bindS_eq set_position_def s1_def [symmetric])
    moreover have "\<forall>y \<in> set (as @ bs). node s' y = node s y" using node' e2(3) dist by auto
    moreover have "m_pNext (heap (rw s') fin) = after" using fin2 s'(3) by auto
    moreover have "map (node s') ([x] @ [p]) = redirected isVoid vi methodReturn after (node s) p"
      using node' e2(2) ret False \<open>p \<noteq> x\<close> by (simp add: redirected_def i_def)
    ultimately show ?thesis
      using s'(2,4,5,6) e2(4,5) fin2(2) by (intro exI [of _ "[x]"] exI [of _ s']) simp
  qed
qed

lemma replace_returns_code:
  assumes "il_ring (rw s) (as @ bs)" and "m_pNext (heap (rw s) fin) = after" "fin < fresh (rw s)"
    and "\<forall>p \<in> set bs. fst (node s p) = CEE_RET \<longrightarrow> p \<noteq> methodReturn \<longrightarrow> p \<noteq> after"
    and "length bs \<le> fuel" and "pInstr = hd (bs @ [m_IL])"
  shows "\<exists>g s'. replace_returns fuel isVoid vi methodReturn fin pInstr s = Inr ((), s')
    \<and> il_ring (rw s') (as @ concat (map (\<lambda>p. g p @ [p]) bs))
    \<and> (\<forall>p \<in> set bs. map (node s') (g p @ [p]) = redirected isVoid vi methodReturn after (node s) p)
    \<and> (\<forall>x \<in> set as. node s' x = node s x)
    \<and> m_pEH (rw s') = m_pEH (rw s) \<and> m_nEH (rw s') = m_nEH (rw s)"
  using assms
proof (induction bs arbitrary: as s fuel pInstr)
  case Nil
  then show ?case by (intro exI [of _ "\<lambda>_. []"] exI [of _ s]) (simp add: replace_returns.simps)
next
  case (Cons p bs)
  obtain n where fuel: "fuel = Suc n" using Cons.prems(5) by (cases fuel) auto
  have "p \<noteq> m_IL" using Cons.prems(1) by (auto simp: il_ring_def)
  obtain gp s1 where s1: "replace_return isVoid vi methodReturn fin p s = Inr ((), s1)"
      "il_ring (rw s1) (as @ (gp @ [p]) @ bs)"
      "map (node s1) (gp @ [p]) = redirected isVoid vi methodReturn after (node s) p"
      "\<forall>x \<in> set (as @ bs). node s1 x = node s x"
      "m_pNext (heap (rw s1) fin) = after" "fin < fresh (rw s1)"
      "m_pEH (rw s1) = m_pEH (rw s)" "m_nEH (rw s1) = m_nEH (rw s)"
    using replace_return_step [OF Cons.prems(1-3), of methodReturn isVoid vi] Cons.prems(4) by auto
  have "m_pNext (heap (rw s1) p) = hd (bs @ [m_IL])"
    using il_ring_cut(2) [of "rw s1" "as @ gp @ [p]" bs "m_IL # as @ gp" p "hd (bs @ [m_IL])" "tl (bs @ [m_IL])"] s1(2)
    by simp
  then have step: "replace_returns fuel isVoid vi methodReturn fin pInstr s
      = replace_returns n isVoid vi methodReturn fin (hd (bs @ [m_IL])) s1"
    using s1(1) Cons.prems(6) \<open>p \<noteq> m_IL\<close>
    by (simp add: replace_returns.simps [of "Suc n"] fuel bindS_def next_instr_def on_rewriter_def res_simps)
  have "il_ring (rw s1) ((as @ gp @ [p]) @ bs)" "length bs \<le> n"
    "\<forall>p \<in> set bs. fst (node s1 p) = CEE_RET \<longrightarrow> p \<noteq> methodReturn \<longrightarrow> p \<noteq> after"
    using s1(2,4) Cons.prems(4,5) fuel by simp_all
  from Cons.IH [OF this(1) s1(5,6) this(3,2) refl] obtain g s' where
    s': "replace_returns n isVoid vi methodReturn fin (hd (bs @ [m_IL])) s1 = Inr ((), s')"
      "il_ring (rw s') ((as @ gp @ [p]) @ concat (map (\<lambda>p. g p @ [p]) bs))"
      "\<forall>p \<in> set bs. map (node s') (g p @ [p]) = redirected isVoid vi methodReturn after (node s1) p"
      "\<forall>x \<in> set (as @ gp @ [p]). node s' x = node s1 x"
      "m_pEH (rw s') = m_pEH (rw s1)" "m_nEH (rw s') = m_nEH (rw s1)" by blast
  have p: "p \<notin> set bs" using Cons.prems(1) by (simp add: il_ring_def)
  let ?g = "g(p := gp)"
  have "map (\<lambda>q. ?g q @ [q]) bs = map (\<lambda>q. g q @ [q]) bs" using p by (intro map_cong) auto
  then have "concat (map (\<lambda>q. ?g q @ [q]) (p # bs)) = gp @ p # concat (map (\<lambda>q. g q @ [q]) bs)"
    by (simp del: fun_upd_apply map_eq_conv) simp
  then have "il_ring (rw s') (as @ concat (map (\<lambda>q. ?g q @ [q]) (p # bs)))" using s'(2) by (simp only:) simp
  moreover have "map (node s') (?g q @ [q]) = redirected isVoid vi methodReturn after (node s) q" if "q \<in> set (p # bs)" for q
  proof (cases "q = p")
    case True
    have "map (node s') (gp @ [p]) = map (node s1) (gp @ [p])" using s'(4) by simp
    then show ?thesis unfolding True fun_upd_same using s1(3) by (rule trans)
  next
    case False
    then have "q \<in> set bs" using that by simp
    moreover have "redirected isVoid vi methodReturn after (node s1) q = redirected isVoid vi methodReturn after (node s) q"
      using \<open>q \<in> set bs\<close> s1(4) by (simp add: redirected_def)
    ultimately show ?thesis using False s'(3) by simp
  qed
  ultimately show ?case
    unfolding step using s'(1,4,5,6) s1(4,7,8) by (intro exI [of _ ?g] exI [of _ s']) (simp del: fun_upd_apply)
qed

section \<open>The whole method\<close>

definition no_returns :: "il list \<Rightarrow> bool" where
  "no_returns code \<longleftrightarrow> (\<forall>i \<in> set code. fst i \<noteq> CEE_RET)"

lemma no_returns_append: "no_returns (a @ b) \<longleftrightarrow> no_returns a \<and> no_returns b"
  by (auto simp: no_returns_def)

lemma slots_no_return [simp]:
  "fst (LoadArgument_il i) \<noteq> CEE_RET" "fst (StLocal_il l) \<noteq> CEE_RET" "fst (LoadLocal_il l) \<noteq> CEE_RET"
  "fst (LoadLocalAddress_il l) \<noteq> CEE_RET"
proof -
  have i: "unat i \<le> 3" if "i \<le> 3" for i :: u16 using that by (simp add: word_le_nat_alt)
  have l: "unat l \<le> 3" if "l \<le> 3" for l :: u32 using that by (simp add: word_le_nat_alt)
  show "fst (LoadArgument_il i) \<noteq> CEE_RET" by (auto simp: LoadArgument_il_def dest: i)
  show "fst (StLocal_il l) \<noteq> CEE_RET" by (auto simp: StLocal_il_def dest: l)
  show "fst (LoadLocal_il l) \<noteq> CEE_RET" by (auto simp: LoadLocal_il_def dest: l)
  show "fst (LoadLocalAddress_il l) \<noteq> CEE_RET" by (auto simp: LoadLocalAddress_il_def)
qed

lemma parts_no_returns [simp]:
  "no_returns (init_code r t1 t2)" "no_returns (begin_code ty isStatic n r t3 t4 q)"
  "no_returns (end_code ty isStatic isVoid r t5 t6 t7 q)"
  by (auto simp: no_returns_def init_code_def begin_code_def end_code_def instance_code_def arguments_code_def)

lemma no_returns_untouched:
  assumes "no_returns (map (node s) ps)"
    and "\<forall>p \<in> set ps. map (node s') (g p @ [p]) = redirected isVoid vi methodReturn after (node s) p"
  shows "concat (map (\<lambda>p. g p @ [p]) ps) = ps" "map (node s') ps = map (node s) ps"
proof -
  have "g p = [] \<and> node s' p = node s p" if "p \<in> set ps" for p
  proof -
    have "map (node s') (g p @ [p]) = [node s p]"
      using assms that by (auto simp: redirected_def no_returns_def)
    then show ?thesis by (cases "g p") auto
  qed
  moreover from this have "concat (map (\<lambda>p. g p @ [p]) ps) = ps" by (induction ps) auto
  ultimately show "concat (map (\<lambda>p. g p @ [p]) ps) = ps" "map (node s') ps = map (node s) ps" by auto
qed

lemma returns_of_method:
  assumes ring: "il_ring (rw s) (A @ ps @ B @ [mr])" and B: "B = B1 @ fin # load"
    and code: "no_returns (map (node s) (A @ B))" and mr: "node s mr = (CEE_RET, Zeroed)"
  shows "\<exists>g s'. replace_returns (fresh (rw s)) isVoid vi mr fin (m_pNext (heap (rw s) m_IL)) s = Inr ((), s')
    \<and> il_ring (rw s') (A @ concat (map (\<lambda>p. g p @ [p]) ps) @ B @ [mr])
    \<and> (\<forall>p \<in> set (A @ B @ [mr]). node s' p = node s p)
    \<and> (\<forall>p \<in> set ps. map (node s') (g p @ [p]) = redirected isVoid vi mr (hd (load @ [mr])) (node s) p)
    \<and> m_pEH (rw s') = m_pEH (rw s) \<and> m_nEH (rw s') = m_nEH (rw s)"
proof -
  let ?all = "A @ ps @ B @ [mr]" and ?after = "hd (load @ [mr])"
  have after: "m_pNext (heap (rw s) fin) = ?after"
    using il_ring_cut(2) [of "rw s" "A @ ps @ B1 @ [fin]" "load @ [mr]" "m_IL # A @ ps @ B1" fin ?after
        "tl (load @ [mr]) @ [m_IL]"] ring B by (cases load) simp_all
  have "fin < fresh (rw s)" using ring B by (simp add: il_ring_def)
  moreover have "\<forall>p \<in> set ?all. fst (node s p) = CEE_RET \<longrightarrow> p \<noteq> mr \<longrightarrow> p \<noteq> ?after"
    using code B by (cases load) (auto simp: no_returns_def)
  moreover have "length ?all \<le> fresh (rw s)" using il_ring_length [OF ring] by simp
  moreover have "m_pNext (heap (rw s) m_IL) = hd (?all @ [m_IL])"
    using il_ring_cut(2) [of "rw s" "[]" ?all "[]" m_IL "hd (?all @ [m_IL])" "tl (?all @ [m_IL])"] ring by simp
  ultimately obtain g s' where g: "replace_returns (fresh (rw s)) isVoid vi mr fin (m_pNext (heap (rw s) m_IL)) s = Inr ((), s')"
    "il_ring (rw s') (concat (map (\<lambda>p. g p @ [p]) ?all))"
    "\<forall>p \<in> set ?all. map (node s') (g p @ [p]) = redirected isVoid vi mr ?after (node s) p"
    "m_pEH (rw s') = m_pEH (rw s)" "m_nEH (rw s') = m_nEH (rw s)"
    using replace_returns_code [of s "[]" ?all fin ?after mr "fresh (rw s)" "m_pNext (heap (rw s) m_IL)" isVoid vi,
        unfolded append_Nil, OF ring after] by blast
  have untouched: "concat (map (\<lambda>p. g p @ [p]) C) = C \<and> map (node s') C = map (node s) C" if "C \<in> {A, B}" for C
    using no_returns_untouched [of s C s' g isVoid vi mr ?after] that code g(3) by (auto simp: no_returns_def)
  have "map (node s') (g mr @ [mr]) = [node s mr]" using g(3) by (simp add: redirected_def)
  then have "g mr = []" "node s' mr = node s mr" by (cases "g mr"; simp)+
  then have "il_ring (rw s') (A @ concat (map (\<lambda>p. g p @ [p]) ps) @ B @ [mr])"
    "\<forall>p \<in> set (A @ B @ [mr]). node s' p = node s p"
    using g(2) untouched [of A] untouched [of B] by auto
  then show ?thesis using g by (intro exI [of _ g] exI [of _ s']) simp
qed

text \<open>The layout of the instrumented method: \<open>s\<close> with the original body \<open>ps\<close>, and \<open>s'\<close> after the
  rewriting. An original instruction \<open>p\<close> is still there, behind the instruction \<open>g p\<close> that stores the
  returned value where \<open>p\<close> was a return.\<close>

definition instrumented :: "FunctionInfo \<Rightarrow> bool \<Rightarrow> bool \<Rightarrow> 'm ct_state \<Rightarrow> ptr list \<Rightarrow> 'm ct_state \<Rightarrow> bool" where
  "instrumented caller isVoid isStatic s ps s' \<longleftrightarrow>
     (\<exists>r first init begins catch1 leave1 g st re start ends catch2 leave2 fin load ret
        t1 t2 t3 t4 t5 t6 t7 ex1 ex2 ex3.
        il_ring (rw s') ((first # init) @ (begins @ [catch1, leave1]) @ concat (map (\<lambda>p. g p @ [p]) ps)
            @ [st, re] @ (start # ends @ [catch2, leave2, fin] @ load) @ [ret])
      \<and> map (node s') (first # init) = init_code r t1 t2
      \<and> map (node s') (begins @ [catch1, leave1]) = begin_code (fi_type caller) isStatic
            (nat (sint (numberOfArguments (fi_method_signature caller)))) r t3 t4 (hd (ps @ [m_IL]))
      \<and> (\<forall>p \<in> set ps. map (node s') (g p @ [p]) =
            redirected isVoid (returnValueIndex r) ret (hd (load @ [ret])) (node s) p)
      \<and> map (node s') [st, re] = [StLocal_il (exceptionIndex r), (CEE_RETHROW, Zeroed)]
      \<and> map (node s') (start # ends @ [catch2, leave2, fin] @ load) =
            end_code (fi_type caller) isStatic isVoid r t5 t6 t7 fin
      \<and> node s' ret = (CEE_RET, Zeroed)
      \<and> m_nEH (rw s') = m_nEH (rw s) + 4
      \<and> m_pEH (rw s') = Some (take (m_nEH (rw s)) (case m_pEH (rw s) of None \<Rightarrow> [] | Some cs \<Rightarrow> cs)
          @ [catch_clause first catch1 leave1 ex1, catch_clause start catch2 leave2 ex2,
             catch_clause first st re ex3, finally_clause first start fin]))"

lemma emittedD:
  assumes "emitted s s' xs code" "at s as bs"
  shows "at s' (as @ xs) bs" "map (node s') xs = code" "p \<in> set (as @ bs) \<Longrightarrow> node s' p = node s p"
  using assms by (simp_all add: emitted_def)

lemma add_clauses_run:
  assumes "add_clauses cs s = Inr ((), s')"
  shows "il_ring (rw s') qs \<longleftrightarrow> il_ring (rw s) qs" "node s' p = node s p"
    "m_nEH (rw s') = m_nEH (rw s) + length cs"
    "m_pEH (rw s') = Some (take (m_nEH (rw s)) (case m_pEH (rw s) of None \<Rightarrow> [] | Some cs \<Rightarrow> cs) @ cs)"
  using assms
  by (auto simp: add_clauses_def Let_def GetEHCount_def GetEHPointer_def SetEHClause_def il_ring_def node_def il_node_def
      split: if_splits)

text \<open>The code in front of and behind the original body, before its returns are replaced.\<close>

lemma laid_out:
  assumes env: "clr_defines env" and at0: "at s0 [] ps"
    and few: "sint (numberOfArguments (fi_method_signature caller)) < int FASTPATH_COUNT"
    and init: "init_part env (fms_ret (fi_method_signature caller)) s0 = Inr ((r, first), s1)"
    and begins: "begin_part env wtr caller isStatic r first s1 = Inr (Some cl1, s2)"
    and exc: "exception_part r s2 = Inr ((mr, st, re), s3)"
    and ends: "end_part env wtr caller isStatic isVoid r s3 = Inr (Some (cl2, fin), s4)"
  obtains f ixs bs catch1 leave1 start es catch2 leave2 load t1 t2 t3 t4 t5 t6 t7 ex1 ex2
  where "first = Some f" "cl1 = catch_clause f catch1 leave1 ex1" "cl2 = catch_clause start catch2 leave2 ex2"
    "il_ring (rw s4) (((f # ixs) @ (bs @ [catch1, leave1])) @ ps
        @ ([st, re] @ (start # es @ [catch2, leave2, fin] @ load)) @ [mr])"
    "map (node s4) (f # ixs) = init_code r t1 t2"
    "map (node s4) (bs @ [catch1, leave1]) = begin_code (fi_type caller) isStatic
        (nat (sint (numberOfArguments (fi_method_signature caller)))) r t3 t4 (hd (ps @ [m_IL]))"
    "map (node s4) [st, re] = [StLocal_il (exceptionIndex r), (CEE_RETHROW, Zeroed)]"
    "map (node s4) (start # es @ [catch2, leave2, fin] @ load) = end_code (fi_type caller) isStatic isVoid r t5 t6 t7 fin"
    "node s4 mr = (CEE_RET, Zeroed)" "\<forall>p \<in> set ps. node s4 p = node s0 p"
    "m_pEH (rw s4) = m_pEH (rw s0)" "m_nEH (rw s4) = m_nEH (rw s0)"
proof -
  let ?ty = "fi_type caller"
  let ?n = "nat (sint (numberOfArguments (fi_method_signature caller)))"
  obtain bs catch1 leave1 q t3 t4 f ex1 where q: "m_ILInstr (ct_wrapper s1) = Some q" "first = Some f"
    and eb: "emitted s1 s2 (bs @ [catch1, leave1]) (begin_code ?ty isStatic ?n r t3 t4 q)"
    and cl1: "cl1 = catch_clause f catch1 leave1 ex1"
    using begin_part_emitted [OF env few begins] by blast
  obtain ixs t1 t2 where ei: "emitted s0 s1 (f # ixs) (init_code r t1 t2)"
    using init_part_emitted init unfolding q(2) by blast
  let ?init = "f # ixs" and ?begins = "bs @ [catch1, leave1]"
  have at1: "at s1 ([] @ ?init) ps" using emittedD [OF ei at0] by simp
  have q_eq: "q = hd (ps @ [m_IL])" using q(1) at1 by (simp add: at_def)
  have at2: "at s2 (?init @ ?begins) ps" and n2: "map (node s2) ?begins = begin_code ?ty isStatic ?n r t3 t4 q"
    "map (node s2) ?init = init_code r t1 t2" "\<forall>p \<in> set ps. node s2 p = node s0 p"
  proof -
    have "map (node s2) ?init = map (node s1) ?init"
      using emittedD(3) [OF eb at1] by (intro map_cong) auto
    from this emittedD(2) [OF ei at0] show "map (node s2) ?init = init_code r t1 t2" by (rule trans)
  qed (use emittedD [OF ei at0] emittedD [OF eb at1] in auto)
  have ring2: "il_ring (rw s2) (?init @ ?begins @ ps)" using at2 by (simp add: at_def)
  note x = exception_part_code [OF ring2 exc]
  obtain start es catch2 leave2 load t5 t6 t7 ex2 where
    ee: "emitted s3 s4 (start # es @ [catch2, leave2, fin] @ load) (end_code ?ty isStatic isVoid r t5 t6 t7 fin)"
    and cl2: "cl2 = catch_clause start catch2 leave2 ex2"
    using end_part_emitted [OF env ends] by blast
  let ?ends = "start # es @ [catch2, leave2, fin] @ load"
  have at4: "at s4 (((?init @ ?begins @ ps) @ [st, re]) @ ?ends) [mr]"
    and n4: "map (node s4) ?ends = end_code ?ty isStatic isVoid r t5 t6 t7 fin"
      "\<forall>p \<in> set (((?init @ ?begins @ ps) @ [st, re]) @ [mr]). node s4 p = node s3 p"
    using emittedD [OF ee x(1)] by blast+
  show thesis
  proof (rule that [OF q(2) cl1 cl2])
    show "il_ring (rw s4) ((?init @ ?begins) @ ps @ ([st, re] @ ?ends) @ [mr])" using at4 by (simp add: at_def)
    have "map (node s4) ?init = map (node s2) ?init" "map (node s4) ?begins = map (node s2) ?begins"
      using n4(2) x(4) by (intro map_cong; auto)+
    then show "map (node s4) ?init = init_code r t1 t2"
      "map (node s4) ?begins = begin_code ?ty isStatic ?n r t3 t4 (hd (ps @ [m_IL]))"
      unfolding n2 q_eq [symmetric] by (simp_all only:)
    show "map (node s4) [st, re] = [StLocal_il (exceptionIndex r), (CEE_RETHROW, Zeroed)]"
      "node s4 mr = (CEE_RET, Zeroed)" "\<forall>p \<in> set ps. node s4 p = node s0 p"
      using n4(2) x(2-4) n2 q_eq by auto
    show "m_pEH (rw s4) = m_pEH (rw s0)" "m_nEH (rw s4) = m_nEH (rw s0)"
      using ei eb x(5,6) ee by (simp_all add: emitted_def)
  qed (rule n4)
qed

lemma returns_replaced:
  assumes ring: "il_ring (rw s) (((f # ixs) @ (bs @ [catch1, leave1])) @ ps
        @ ([st, re] @ (start # es @ [catch2, leave2, fin] @ load)) @ [mr])"
    and code: "map (node s) (f # ixs) = init_code r t1 t2"
    "map (node s) (bs @ [catch1, leave1]) = begin_code ty isStatic n r t3 t4 q"
    "map (node s) [st, re] = [StLocal_il (exceptionIndex r), (CEE_RETHROW, Zeroed)]"
    "map (node s) (start # es @ [catch2, leave2, fin] @ load) = end_code ty isStatic isVoid' r t5 t6 t7 fin"
    "node s mr = (CEE_RET, Zeroed)"
  shows "\<exists>g s'. replace_returns (fresh (rw s)) isVoid vi mr fin (m_pNext (heap (rw s) m_IL)) s = Inr ((), s')
    \<and> il_ring (rw s') (((f # ixs) @ (bs @ [catch1, leave1])) @ concat (map (\<lambda>p. g p @ [p]) ps)
        @ ([st, re] @ (start # es @ [catch2, leave2, fin] @ load)) @ [mr])
    \<and> (\<forall>p \<in> set (((f # ixs) @ (bs @ [catch1, leave1])) @ ([st, re] @ (start # es @ [catch2, leave2, fin] @ load)) @ [mr]).
        node s' p = node s p)
    \<and> (\<forall>p \<in> set ps. map (node s') (g p @ [p]) = redirected isVoid vi mr (hd (load @ [mr])) (node s) p)
    \<and> m_pEH (rw s') = m_pEH (rw s) \<and> m_nEH (rw s') = m_nEH (rw s)"
proof -
  have "no_returns (map (node s) (f # ixs))" "no_returns (map (node s) (bs @ [catch1, leave1]))"
    "no_returns (map (node s) [st, re])" "no_returns (map (node s) (start # es @ [catch2, leave2, fin] @ load))"
    unfolding code(1-4) by (simp_all add: no_returns_def [of "[_, _]"])
  then have "no_returns (map (node s) (((f # ixs) @ (bs @ [catch1, leave1]))
      @ [st, re] @ (start # es @ [catch2, leave2, fin] @ load)))"
    by (simp only: map_append no_returns_append simp_thms)
  from returns_of_method [OF ring _ this code(5), of "[st, re] @ start # es @ [catch2, leave2]" fin load isVoid vi]
  show ?thesis by simp
qed

lemma at_start:
  assumes "il_ring (rw s) ps"
  shows "at (s\<lparr>ct_wrapper := SetILPosition (m_pNext (heap (rw s) m_IL)) (ct_wrapper s)\<rparr>) [] ps"
proof -
  obtain q ds where q: "ps @ [m_IL] = q # ds" by (cases ps) auto
  have "m_pNext (heap (rw s) m_IL) = q" using il_ring_cut(2) [of "rw s" "[]" ps "[]" m_IL q ds] assms q by simp
  then show ?thesis using assms q by (simp add: at_def SetILPosition_def)
qed

lemma rewrite_body_instrumented:
  assumes env: "clr_defines env" and ring: "il_ring (rw s) ps"
    and few: "sint (numberOfArguments (fi_method_signature caller)) < int FASTPATH_COUNT"
    and run: "rewrite_body env wtr caller isVoid isStatic s = Inr (Some (), s')"
  shows "instrumented caller isVoid isStatic s ps s'"
proof -
  define s0 where "s0 = s\<lparr>ct_wrapper := SetILPosition (m_pNext (heap (rw s) m_IL)) (ct_wrapper s)\<rparr>"
  obtain r first s1 cl1 s2 mr st re s3 cl2 fin s4 s5 f' s6 ex3 s7 s8 where
    parts: "init_part env (fms_ret (fi_method_signature caller)) s0 = Inr ((r, first), s1)"
      "begin_part env wtr caller isStatic r first s1 = Inr (Some cl1, s2)"
      "exception_part r s2 = Inr ((mr, st, re), s3)"
      "end_part env wtr caller isStatic isVoid r s3 = Inr (Some (cl2, fin), s4)"
    and rets: "replace_returns (fresh (rw s4)) isVoid (returnValueIndex r) mr fin (m_pNext (heap (rw s4) m_IL)) s4 = Inr ((), s5)"
    and f': "the_ptr first s5 = Inr (f', s6)" and ex3: "token GetExceptionTypeRef s6 = Inr (ex3, s7)"
    and cls: "add_clauses [cl1, cl2, catch_clause f' st re ex3, finally_clause f' (m_pNext (heap (rw s7) re)) fin] s7 = Inr ((), s')"
    using run unfolding rewrite_body_def
    by (auto simp: bindS_eq or_false_eq next_instr_def on_rewriter_eq set_position_def s0_def split: prod.splits)
  have node0: "node s0 p = node s p" "m_pEH (rw s0) = m_pEH (rw s)" "m_nEH (rw s0) = m_nEH (rw s)" for p
    by (simp_all add: s0_def node_def SetILPosition_def)
  from laid_out [OF env at_start [OF ring, folded s0_def] few parts] obtain
    f ixs bs catch1 leave1 start es catch2 leave2 load t1 t2 t3 t4 t5 t6 t7 ex1 ex2 where
    f: "first = Some f" and cl: "cl1 = catch_clause f catch1 leave1 ex1" "cl2 = catch_clause start catch2 leave2 ex2"
    and ring4: "il_ring (rw s4) (((f # ixs) @ (bs @ [catch1, leave1])) @ ps
        @ ([st, re] @ (start # es @ [catch2, leave2, fin] @ load)) @ [mr])"
    and code4: "map (node s4) (f # ixs) = init_code r t1 t2"
      "map (node s4) (bs @ [catch1, leave1]) = begin_code (fi_type caller) isStatic
        (nat (sint (numberOfArguments (fi_method_signature caller)))) r t3 t4 (hd (ps @ [m_IL]))"
      "map (node s4) [st, re] = [StLocal_il (exceptionIndex r), (CEE_RETHROW, Zeroed)]"
      "map (node s4) (start # es @ [catch2, leave2, fin] @ load) = end_code (fi_type caller) isStatic isVoid r t5 t6 t7 fin"
      "node s4 mr = (CEE_RET, Zeroed)" "\<forall>p \<in> set ps. node s4 p = node s0 p"
    and eh4: "m_pEH (rw s4) = m_pEH (rw s0)" "m_nEH (rw s4) = m_nEH (rw s0)" .
  let ?init = "f # ixs" and ?begins = "bs @ [catch1, leave1]" and ?ends = "start # es @ [catch2, leave2, fin] @ load"
  have f_eq: "f' = f" "s6 = s5" using f' f by (simp_all add: the_ptr_def lift_def)
  from returns_replaced [OF ring4 code4(1-5), of isVoid "returnValueIndex r"] rets
  obtain g where g: "il_ring (rw s5) ((?init @ ?begins) @ concat (map (\<lambda>p. g p @ [p]) ps) @ ([st, re] @ ?ends) @ [mr])"
    "\<forall>p \<in> set ((?init @ ?begins) @ ([st, re] @ ?ends) @ [mr]). node s5 p = node s4 p"
    "\<forall>p \<in> set ps. map (node s5) (g p @ [p]) = redirected isVoid (returnValueIndex r) mr (hd (load @ [mr])) (node s4) p"
    "m_pEH (rw s5) = m_pEH (rw s4)" "m_nEH (rw s5) = m_nEH (rw s4)" by auto
  have s7: "rw s7 = rw s5" using ex3 f_eq(2) by (auto simp: token_def)
  have "m_pNext (heap (rw s5) re) = start"
    using il_ring_cut(2) [of "rw s5" "?init @ ?begins @ concat (map (\<lambda>p. g p @ [p]) ps) @ [st, re]" "?ends @ [mr]"
        "m_IL # ?init @ ?begins @ concat (map (\<lambda>p. g p @ [p]) ps) @ [st]" re start] g(1) by simp
  note last = add_clauses_run [OF cls [unfolded s7 this f_eq(1) cl]]
  have node': "node s' p = node s5 p" for p using last(2) s7 by (simp add: node_def)
  have kept: "map (node s') xs = map (node s4) xs" if "set xs \<subseteq> set (?init @ ?begins @ [st, re] @ ?ends @ [mr])" for xs
    using that g(2) node' by (intro map_cong) auto
  show ?thesis
    unfolding instrumented_def
  proof ((rule exI)+, intro conjI)
    show "il_ring (rw s') (?init @ ?begins @ concat (map (\<lambda>p. g p @ [p]) ps) @ [st, re] @ ?ends @ [mr])"
      using g(1) last(1) s7 by simp
    show "map (node s') ?init = init_code r t1 t2" by (rule trans [OF kept code4(1)]) auto
    show "map (node s') ?begins = begin_code (fi_type caller) isStatic
        (nat (sint (numberOfArguments (fi_method_signature caller)))) r t3 t4 (hd (ps @ [m_IL]))"
      by (rule trans [OF kept code4(2)]) auto
    show "\<forall>p \<in> set ps. map (node s') (g p @ [p]) =
        redirected isVoid (returnValueIndex r) mr (hd (load @ [mr])) (node s) p"
    proof
      fix p assume p: "p \<in> set ps"
      have "map (node s') (g p @ [p]) = map (node s5) (g p @ [p])" using node' by simp
      also have "\<dots> = redirected isVoid (returnValueIndex r) mr (hd (load @ [mr])) (node s4) p" using g(3) p by blast
      also have "\<dots> = redirected isVoid (returnValueIndex r) mr (hd (load @ [mr])) (node s) p"
        using code4(6) node0(1) p by (simp add: redirected_def)
      finally show "map (node s') (g p @ [p]) = redirected isVoid (returnValueIndex r) mr (hd (load @ [mr])) (node s) p" .
    qed
    show "map (node s') [st, re] = [StLocal_il (exceptionIndex r), (CEE_RETHROW, Zeroed)]"
      by (rule trans [OF kept code4(3)]) auto
    show "map (node s') ?ends = end_code (fi_type caller) isStatic isVoid r t5 t6 t7 fin"
      by (rule trans [OF kept code4(4)]) auto
    show "node s' mr = (CEE_RET, Zeroed)" using kept [of "[mr]"] code4(5) by auto
  qed (use last(3,4) eh4 g(4,5) s7 node0 in simp_all)
qed

lemma Import_ring:
  assumes imp: "Import (Inr d) (ILRewriter_new junk) = Inr r"
    and "GetCodeSize d \<le> length (Code d)" "GetCodeSize d + 10 < 4294967296" "GetMaxStack d < 4294967296"
  shows "\<exists>ps. il_ring r ps"
proof -
  define s0 where "s0 = (ILRewriter_new junk)\<lparr>m_tkLocalVarSig := GetLocalVarSigTok d, m_maxStack := GetMaxStack d,
    m_flags := GetHeaderFlags d AND CorILMethod_InitLocals, m_CodeSize := GetCodeSize d\<rparr>"
  have s0: "il_ring s0 []" "m_nInstrs s0 = 0" "m_maxStack s0 < 4294967296"
    "m_CodeSize s0 \<le> length (Code d)" "m_CodeSize s0 + 10 < 4294967296"
    using il_ring_new [of junk] assms by (simp_all add: s0_def il_ring_def ILRewriter_new_def)
  from imp obtain s1 where s1: "ImportIL (Code d) s0 = Inr s1" "ImportEH (EH d) s1 = Inr r"
    by (auto simp: Import_def s0_def Let_def res_simps)
  from ImportIL_result [OF s0] s1(1) obtain ps where "import_result (Code d) s0 s1 ps" by auto
  then have "il_ring s1 ps" by (simp add: import_result_def il_wf_def)
  moreover have "heap r = heap s1" "fresh r = fresh s1"
    using s1(2) by (auto simp: ImportEH_def Let_def res_simps split: if_splits)
  ultimately show ?thesis by (auto simp: il_ring_def)
qed

section \<open>Witnesses\<close>

text \<open>A method \<open>void Run(int)\<close>, instrumented in the state of the demonstration.\<close>

definition demo_void :: FunctionMethodArgument where
  "demo_void = \<lparr>arg_offset = 2, arg_length = 1, arg_pbBase = [0x20, 0x01, ELEMENT_TYPE_VOID, ELEMENT_TYPE_I4]\<rparr>"

definition demo_function :: FunctionInfo where
  "demo_function = \<lparr>fi_id = 0x06000001, fi_name = WStr ''Run'', fi_type = demo_type, fi_is_generic = False,
     fi_signature = [], fi_function_spec_signature = [], fi_method_def_id = 0x06000001,
     fi_method_signature = \<lparr>fms_pbBase = [0x20, 0x01, ELEMENT_TYPE_VOID, ELEMENT_TYPE_I4], numberOfTypeArguments = 0,
       numberOfArguments = 1, fms_ret = demo_void, fms_params = [demo_arg]\<rparr>\<rparr>"

text \<open>The state after one emitting operation.\<close>

definition after_op :: "il \<Rightarrow> 'm ct_state \<Rightarrow> 'm ct_state" where
  "after_op i s = snd (projr (wrapper_op (emit i) s))"

lemma op_run:
  assumes "m_ILInstr (ct_wrapper s) \<noteq> None"
  shows "wrapper_op (emit i) s = Inr (fresh (rw s), after_op i s)"
    "ct_tokens (after_op i s) = ct_tokens s"
    "ct_meta (after_op i s) = ct_meta s"
    "m_ILInstr (ct_wrapper (after_op i s)) = m_ILInstr (ct_wrapper s)"
  using assms by (auto simp: wrapper_op_def emit_def emit_before_def NewILInstr_def Let_def after_op_def res_simps split: prod.splits)

lemma call_member_op: "call_member tk = wrapper_op (emit (CEE_CALL, Arg32 tk))"
  by (simp add: call_member_def CallMember_def wrapper_op_def fun_eq_iff)

definition demo_start :: "unit ct_state" where
  "demo_start = demo_ready\<lparr>ct_wrapper := SetILPosition (m_pNext (heap (rw demo_ready) m_IL)) (ct_wrapper demo_ready)\<rparr>"

lemma demo_start_simps:
  "ct_tokens demo_start = demo_tokens" "ct_meta demo_start = ()" "m_ILInstr (ct_wrapper demo_start) = Some 1"
  by (simp_all add: demo_start_def demo_ready_def demo_state_def SetILPosition_def SetTkLocalVarSig_def ILRewriterWrapper_new_def demo_rewriter_def demo_node_def)

lemmas demo_run = ct_simps demo_start_simps demo_ready_base EnsureBase_defined ensure_run emit_call_def store_def Let_def
  op_run call_member_op one_instruction

lemma demo_base: "base_defined (t\<lparr>callTargetReturnVoidTypeRef := v\<rparr>) = base_defined t"
  "base_defined (t\<lparr>callTargetReturnVoidTypeGetDefault := v\<rparr>) = base_defined t"
  "base_defined (t\<lparr>beginMethodFastPathRefs := vs\<rparr>) = base_defined t"
  "base_defined (t\<lparr>logExceptionRef := v\<rparr>) = base_defined t"
  "base_defined (t\<lparr>endVoidMemberRef := v\<rparr>) = base_defined t" "base_defined demo_tokens"
  "callTargetReturnVoidTypeRef demo_tokens = mdTypeRefNil"
  using demo_ready_base by (simp_all add: demo_ready_def base_defined_def demo_tokens_def CallTargetTokens_new_def)

lemma demo_void_flags: "GetTypeFlags demo_void = Inr (TypeFlagVoid, ELEMENT_TYPE_VOID)"
  by (simp add: GetTypeFlags_def rd_def demo_void_def arg_ptr_def)

lemma demo_sig: "clr_GetSigFromToken demo_clr tk m = (S_OK, [CALLCONV_LOCAL_SIG, 0x01, ELEMENT_TYPE_I4])"
  by (simp add: demo_clr_def)

lemma demo_calls: "clr_DefineTypeRefByName demo_clr r nm m = ((S_OK, Some 0x01000001), m)"
 "clr_GetTokenFromSig demo_clr sg m = ((S_OK, Some 0x11000002), m)"
 "clr_DefineMemberRef demo_clr r nm sg m = ((S_OK, Some 0x0A000001), m)"
 "clr_DefineMethodSpec demo_clr r sg m = ((S_OK, Some 0x2B000001), m)"
 by (simp_all add: demo_clr_def)

lemma demo_new_locals: "new_locals_signature [CALLCONV_LOCAL_SIG, 0x01, ELEMENT_TYPE_I4] 3 xs
  = Inr (length xs + 3, [CALLCONV_LOCAL_SIG, 0x04, ELEMENT_TYPE_I4] @ xs, 4)"
  by (simp add: new_locals_signature_def CorSigUncompressData_def CorSigCompressData_def CorSigUncompressData_len_def rd_def Let_def)


lemma demo_token_values: "callTargetStateTypeRef demo_tokens = 0x01000007" "exTypeRef demo_tokens = 0x01000002"
  "callTargetTypeRef demo_tokens = 0x01000006" "callTargetReturnVoidTypeGetDefault demo_tokens = mdMemberRefNil"
  "beginMethodFastPathRefs demo_tokens = replicate FASTPATH_COUNT mdMemberRefNil" "profilerAssemblyRef demo_tokens = 0x23000002"
  "token_bytes 0x01000001 = [0x05]" "GetTkLocalVarSig (GetILRewriter (ct_wrapper demo_start)) = 0x11000001"
  by (simp_all add: demo_tokens_def CallTargetTokens_new_def demo_start_def SetTkLocalVarSig_def demo_ready_def GetILRewriter_def SetILPosition_def ILRewriterWrapper_new_def
   GetTkLocalVarSig_def token_bytes_def CorSigCompressToken_eq CorSigCompressData_def RidFromToken_def
      TypeFromToken_def token_tag_def mdtTypeRef_def mdtTypeSpec_def mdtBaseType_def)

lemmas demo_all = demo_run demo_base demo_token_bytes demo_token_values
     demo_void_flags demo_sig already_modified_def demo_calls ensure_type_def

definition demo_tokens1 :: CallTargetTokens where
  "demo_tokens1 = demo_tokens\<lparr>callTargetReturnVoidTypeRef := 0x01000001, callTargetReturnVoidTypeGetDefault := 0x0A000001\<rparr>"

lemma demo_init: "\<exists>r f s. init_part demo_clr demo_void demo_start = Inr ((r, Some f), s) \<and> ct_tokens s = demo_tokens1
    \<and> m_ILInstr (ct_wrapper s) \<noteq> None"
  by (simp add: init_part_def ModifyLocalSigAndInitialize_def ModifyLocalSig_def init_locals_def
      GetCallTargetReturnVoidDefaultMemberRef_def demo_all demo_tokens1_def
    original_locals_def return_locals_def set_local_sig_def GetTargetVoidReturnTypeRef_def demo_new_locals)

lemma demo_arg_flags: "GetTypeFlags demo_arg = Inr (TypeFlagBoxedType, ELEMENT_TYPE_I4)"
  by (simp add: GetTypeFlags_def rd_def demo_arg_def arg_ptr_def boxed_element_types_def)


lemma demo_arg_bytes: "arg_ptr demo_arg = [ELEMENT_TYPE_I4]" "arg_length demo_arg = 1"
  by (simp_all add: arg_ptr_def demo_arg_def)

lemma demo_token_values2: "objectTypeRef demo_tokens = 0x01000001" "logExceptionRef demo_tokens = mdMemberRefNil"
   "endVoidMemberRef demo_tokens = mdMemberRefNil"
  by (simp_all add: demo_tokens_def CallTargetTokens_new_def)


lemmas demo_parts = demo_all demo_function_def demo_type_def load_instance_def or_false_def load_arguments_def
    arg_flags_def demo_arg_flags WriteBeginMethod_def call_method_spec_def GetSignature_def WriteLogException_def
    demo_token_values2 GetCurrentTypeRef_def demo_tokens1_def set_target_def on_rewriter_def current_position_def the_ptr_def GetCurrentILInstr_def
    begin_method_signature_def demo_arg_bytes
lemma demo_begin:
  assumes "ct_tokens s = demo_tokens1" "m_ILInstr (ct_wrapper s) \<noteq> None"
  shows "\<exists>cl s'. begin_part demo_clr 0x01000002 demo_function False r (Some f) s = Inr (Some cl, s')
    \<and> ct_tokens s' = demo_tokens1\<lparr>beginMethodFastPathRefs := (replicate 9 mdMemberRefNil)[1 := 0x0A000001], logExceptionRef := 0x0A000001\<rparr>
    \<and> m_ILInstr (ct_wrapper s') \<noteq> None"
proof -
  obtain q where "m_ILInstr (ct_wrapper s) = Some q" using assms(2) by blast
  with assms(1) show ?thesis by (simp add: begin_part_def demo_parts)
qed

lemma demo_exception:
  shows "\<exists>mr st re s'. exception_part r s = Inr ((mr, st, re), s')
    \<and> ct_tokens s' = ct_tokens s \<and> m_ILInstr (ct_wrapper s') \<noteq> None"
  using op_run(1)
  by (simp add: exception_part_def demo_parts set_position_def SetILPosition_def split: prod.split)

lemma demo_end:
  assumes "ct_tokens s = demo_tokens1\<lparr>beginMethodFastPathRefs := (replicate 9 mdMemberRefNil)[1 := 0x0A000001], logExceptionRef := 0x0A000001\<rparr>"
   "m_ILInstr (ct_wrapper s) \<noteq> None"
  shows "\<exists>cl s'. end_part demo_clr 0x01000002 demo_function False True r s = Inr (Some cl, s')"
  using assms by (simp add: end_part_def demo_parts WriteEndVoidReturnMemberRef_def)

lemma demo_clr_defines: "clr_defines demo_clr"
  by (simp add: clr_defines_def always_writes_def demo_clr_def)

lemma demo_ready_ring: "il_ring (rw demo_ready) [1, 2, 3, 4]"
  using demo_wf
  by (simp add: il_wf_def demo_ready_def SetILPosition_def ILRewriterWrapper_new_def il_ring_def SetTkLocalVarSig_def)

lemma demo_rewrites: "\<exists>s'. rewrite_body demo_clr 0x01000002 demo_function True False demo_ready = Inr (Some (), s')"
proof -
  note env = demo_clr_defines and ring = demo_ready_ring
  have eh: "m_pEH (rw demo_ready) = None" "m_nEH (rw demo_ready) = 0"
    by (simp_all add: demo_ready_def SetILPosition_def ILRewriterWrapper_new_def SetTkLocalVarSig_def demo_rewriter_def demo_memory_def)
  obtain r f s1 where 1: "init_part demo_clr (fms_ret (fi_method_signature demo_function)) demo_start = Inr ((r, Some f), s1)"
    "ct_tokens s1 = demo_tokens1" "m_ILInstr (ct_wrapper s1) \<noteq> None"
    using demo_init by (auto simp: demo_function_def)
  obtain cl1 s2 where 2: "begin_part demo_clr 0x01000002 demo_function False r (Some f) s1 = Inr (Some cl1, s2)"
    "ct_tokens s2 = demo_tokens1\<lparr>beginMethodFastPathRefs := (replicate 9 mdMemberRefNil)[1 := 0x0A000001], logExceptionRef := 0x0A000001\<rparr>"
    "m_ILInstr (ct_wrapper s2) \<noteq> None" using demo_begin [OF 1(2,3)] by blast
  obtain mr st re s3 where 3: "exception_part r s2 = Inr ((mr, st, re), s3)" "ct_tokens s3 = ct_tokens s2"
    "m_ILInstr (ct_wrapper s3) \<noteq> None" using demo_exception by blast
  obtain cl2 fin s4 where 4: "end_part demo_clr 0x01000002 demo_function False True r s3 = Inr (Some (cl2, fin), s4)"
    using demo_end [of s3 r] 2(2) 3(2,3) by auto
  have few: "sint (numberOfArguments (fi_method_signature demo_function)) < int FASTPATH_COUNT" by (simp add: demo_function_def)
  from laid_out [OF env at_start [OF ring, folded demo_start_def] few 1(1) 2(1) 3(1) 4] obtain
    g ixs bs catch1 leave1 start es catch2 leave2 load t1 t2 t3 t4 t5 t6 t7 ex1 ex2 where
    "il_ring (rw s4) (((g # ixs) @ (bs @ [catch1, leave1])) @ [1, 2, 3, 4]
        @ ([st, re] @ (start # es @ [catch2, leave2, fin] @ load)) @ [mr])"
    and "map (node s4) (g # ixs) = init_code r t1 t2"
      "map (node s4) (bs @ [catch1, leave1]) = begin_code (fi_type demo_function) False
        (nat (sint (numberOfArguments (fi_method_signature demo_function)))) r t3 t4 (hd ([1, 2, 3, 4] @ [m_IL]))"
      "map (node s4) [st, re] = [StLocal_il (exceptionIndex r), (CEE_RETHROW, Zeroed)]"
      "map (node s4) (start # es @ [catch2, leave2, fin] @ load) = end_code (fi_type demo_function) False True r t5 t6 t7 fin"
      "node s4 mr = (CEE_RET, Zeroed)"
    and eh4: "m_pEH (rw s4) = m_pEH (rw demo_start)" "m_nEH (rw s4) = m_nEH (rw demo_start)" .
  from returns_replaced [OF this(1-6), of True "returnValueIndex r"]
  obtain s5 where "replace_returns (fresh (rw s4)) True (returnValueIndex r) mr fin (m_pNext (heap (rw s4) m_IL)) s4 = Inr ((), s5)"
    "m_pEH (rw s5) = None" "m_nEH (rw s5) = 0"
    using eh eh4 by (auto simp: demo_start_def SetILPosition_def)
  then show ?thesis using 1(1) 2(1) 3(1) 4
    by (simp add: rewrite_body_def bindS_def next_instr_def on_rewriter_def set_position_def or_false_def demo_start_def res_simps
       the_ptr_def ct_simps add_clauses_def GetEHCount_def GetEHPointer_def Let_def)
qed

section \<open>Properties\<close>

text \<open>C9. A method with fewer than nine arguments that is rewritten, when the CLR defines the
  references it is asked for, consists of the initialisation of the locals, the call of BeginMethod
  with its catch block, the original instructions in their order, the catch block that stores the
  exception, the finally block with the call of EndMethod and its catch block, and one return. Each
  return of the original code has become a jump behind the finally block, in front of which the
  value is stored; no other original instruction has changed. Behind the old exception clauses there
  are four new ones, and they delimit exactly these blocks.\<close>

theorem rewrite_body_code:
  assumes "clr_defines env" "il_ring (rw s) ps"
    and "sint (numberOfArguments (fi_method_signature caller)) < int FASTPATH_COUNT"
    and "rewrite_body env wrapper_type_ref caller isVoid isStatic s = Inr (Some (), s')"
  shows "instrumented caller isVoid isStatic s ps s'"
  using assms by (rule rewrite_body_instrumented)

theorem rewrite_body_code_witness:
  "\<exists>s'. rewrite_body demo_clr 0x01000002 demo_function True False demo_ready = Inr (Some (), s')
    \<and> instrumented demo_function True False demo_ready [1, 2, 3, 4] s'"
proof -
  obtain s' where run: "rewrite_body demo_clr 0x01000002 demo_function True False demo_ready = Inr (Some (), s')"
    using demo_rewrites by blast
  have "sint (numberOfArguments (fi_method_signature demo_function)) < int FASTPATH_COUNT" by (simp add: demo_function_def)
  from rewrite_body_code [OF demo_clr_defines demo_ready_ring this run] run show ?thesis by blast
qed



text \<open>A profiler that has not been loaded into the application domain.\<close>

definition demo_callback_env :: "unit callback_env" where
  "demo_callback_env = \<lparr>ce_builder = demo_builder, ce_module = Some 1, ce_loaded_domain_neutral = False,
     ce_loaded_app_domains = {2}, ce_app_domain = 1, ce_body = Inr demo_body, ce_junk = demo_memory,
     ce_new = (\<lambda>n. replicate n 0xCC), ce_alloc = (\<lambda>n. Some (replicate n 0)), ce_set_body = (\<lambda>_. None)\<rparr>"



text \<open>A branch to a return still leads to that instruction, which is now the jump behind the finally
  block: a value that the branch brings along on the stack is not stored, and what is returned is
  what the local held before.\<close>

lemma branch_to_return_skips_store:
  assumes "\<forall>p \<in> set ps. map (node s') (g p @ [p]) = redirected False value_index last_ret after code p"
    and "p \<in> set ps" "fst (code p) = CEE_RET" "p \<noteq> last_ret"
    and "q \<in> set ps" "code q = (opc, Target p)" "opc \<noteq> CEE_RET"
  shows "map (node s') (g p) = [StLocal_il value_index]" "node s' p = leave_il after" "node s' q = (opc, Target p)"
proof -
  have "map (node s') (g p @ [p]) = [StLocal_il value_index, leave_il after]"
    using assms(1-4) by (simp add: redirected_def)
  then show "map (node s') (g p) = [StLocal_il value_index]" "node s' p = leave_il after"
    by (cases "g p"; simp)+
  have "map (node s') (g q @ [q]) = [(opc, Target p)]"
    using assms(1,5-7) by (simp add: redirected_def)
  then show "node s' q = (opc, Target p)" by (cases "g q") auto
qed

end
