(* ===== verification/CallSiteTypes.thy ===== *)
theory CallSiteTypes
  imports ModuleMetadata
begin

text \<open>
  What the call-site rewriting reads from the signature of a called method (\<open>clr_helpers.cpp\<close>):
  \<open>TryParseSignatureTypes\<close>, which gives the names of the return type and of the parameters, with
  the lemma that says which names, and what \<open>ReturnTypeIsValueTypeOrGeneric\<close> finds out about the
  return type.

  \<open>junk\<close> is what a variable holds that the code has not initialised.
\<close>

section \<open>Tokens read through a reference to the pointer\<close>

definition CorSigUncompressBigData :: "byte list \<Rightarrow> sig_error + (u32 \<times> byte list)" where
  "CorSigUncompressBigData p = (case p of
     [] \<Rightarrow> Inl Overread
   | b0 # r \<Rightarrow>
       if b0 AND 0xC0 = 0x80 then
         (case r of b1 # r \<Rightarrow> Inr (push_bit 8 (ucast (b0 AND 0x3F)) OR ucast b1, r) | _ \<Rightarrow> Inl Overread)
       else
         (case r of
            b1 # b2 # b3 # r \<Rightarrow>
              Inr (push_bit 24 (ucast (b0 AND 0x1F)) OR push_bit 16 (ucast b1) OR push_bit 8 (ucast b2) OR ucast b3, r)
          | _ \<Rightarrow> Inl Overread))"

definition CorSigUncompressData_ref :: "byte list \<Rightarrow> sig_error + (u32 \<times> byte list)" where
  "CorSigUncompressData_ref p = (case p of
     [] \<Rightarrow> Inl Overread
   | b0 # r \<Rightarrow> if b0 AND 0x80 = 0 then Inr (ucast b0, r) else CorSigUncompressBigData p)"

definition CorSigUncompressToken_ref :: "byte list \<Rightarrow> sig_error + (u32 \<times> byte list)" where
  "CorSigUncompressToken_ref p = bindE (CorSigUncompressData_ref p) (\<lambda>(tk, r).
     Inr (TokenFromRid (drop_bit 2 tk) (g_tkCorEncodeToken (tk AND 0x3)), r))"

section \<open>The names of the types of a signature\<close>

definition element_type_name :: "byte \<Rightarrow> wstring option" where
  "element_type_name b =
     (if b = ELEMENT_TYPE_VOID then Some (WStr ''System.Void'')
      else if b = ELEMENT_TYPE_BOOLEAN then Some (WStr ''System.Boolean'')
      else if b = ELEMENT_TYPE_CHAR then Some (WStr ''System.Char16'')
      else if b = ELEMENT_TYPE_I1 then Some (WStr ''System.SByte'')
      else if b = ELEMENT_TYPE_U1 then Some (WStr ''System.Byte'')
      else if b = ELEMENT_TYPE_I2 then Some (WStr ''System.Int16'')
      else if b = ELEMENT_TYPE_U2 then Some (WStr ''System.UInt16'')
      else if b = ELEMENT_TYPE_I4 then Some (WStr ''System.Int32'')
      else if b = ELEMENT_TYPE_U4 then Some (WStr ''System.UInt32'')
      else if b = ELEMENT_TYPE_I8 then Some (WStr ''System.Int64'')
      else if b = ELEMENT_TYPE_U8 then Some (WStr ''System.UInt64'')
      else if b = ELEMENT_TYPE_R4 then Some (WStr ''System.Single'')
      else if b = ELEMENT_TYPE_R8 then Some (WStr ''System.Double'')
      else if b = ELEMENT_TYPE_STRING then Some (WStr ''System.String'')
      else if b = ELEMENT_TYPE_OBJECT then Some (WStr ''System.Object'')
      else None)"

text \<open>\<open>std::stoi\<close>: blanks, a sign and digits, whatever follows; \<open>None\<close> is an exception.\<close>

definition is_decimal_digit :: "byte \<Rightarrow> bool" where
  "is_decimal_digit c \<longleftrightarrow> 0x30 \<le> c \<and> c \<le> 0x39"

definition digits_value :: "byte list \<Rightarrow> int" where
  "digits_value = foldl (\<lambda>v c. 10 * v + (int (unat c) - 48)) 0"

definition stoi :: "cstring \<Rightarrow> int option" where
  "stoi s =
     (let s = dropWhile (\<lambda>c. c = 0x20 \<or> (0x09 \<le> c \<and> c \<le> 0x0D)) s;
          negative = (s \<noteq> [] \<and> hd s = 0x2D);
          digits = takeWhile is_decimal_digit (if s \<noteq> [] \<and> (hd s = 0x2D \<or> hd s = 0x2B) then tl s else s);
          v = (if negative then - digits_value digits else digits_value digits)
      in if digits = [] \<or> v < - 2147483648 \<or> v > 2147483647 then None else Some v)"

text \<open>The state of the loop over the pieces of a signature: the stack of the numbers of generic
  arguments to come, the brackets to append, the name so far, and the names stored.\<close>

record piece_state =
  generic_arg_stack :: "int list"
  append_to_type :: wstring
  current_type_name :: wstring
  type_names :: "wstring list"
  current_type_index :: nat

text \<open>How a case of the switch ends, with the distance \<open>current_index\<close> has moved: \<open>break\<close>, \<open>continue\<close>,
  or an exception.\<close>

datatype piece =
    Break nat piece_state
  | Continue nat piece_state
  | Throw

definition append_name :: "wstring \<Rightarrow> piece_state \<Rightarrow> piece_state" where
  "append_name nm st = st\<lparr>current_type_name := current_type_name st @ nm\<rparr>"

definition RetrieveTypeForSignature :: "(u32 \<Rightarrow> hr + TypeInfo) \<Rightarrow> byte list \<Rightarrow> nat \<Rightarrow> hr + (TypeInfo \<times> u32)" where
  "RetrieveTypeForSignature get_type data current_index =
     (case CorSigUncompressToken (drop current_index data) of
        Inl _ \<Rightarrow> Inl BadAccess
      | Inr (token_length, tk) \<Rightarrow> bindE (get_type tk) (\<lambda>type_data. Inr (type_data, token_length)))"

text \<open>The enclosing types are looked up while the name has no dot. \<open>GetNestedClassProps\<close> does not
  write its result for a type that is not nested.\<close>

fun nested_name :: "nat \<Rightarrow> metadata_import \<Rightarrow> u32 \<Rightarrow> (u32 \<Rightarrow> hr + TypeInfo) \<Rightarrow> u32 \<Rightarrow> wstring \<Rightarrow> wstring \<Rightarrow> hr + wstring" where
  "nested_name fuel imp junk get_type examined_type_token examined_type_name ongoing_type_name =
     (if wc CHR ''.'' \<in> set examined_type_name then Inr ongoing_type_name
      else case fuel of
        0 \<Rightarrow> Inl NoFuel
      | Suc n \<Rightarrow>
          let written = imp_GetNestedClassProps imp examined_type_token;
              potentialParentToken = (if written = mdTokenNil then junk else written)
          in if potentialParentToken = mdTokenNil then Inr ongoing_type_name
             else bindE (get_type potentialParentToken) (\<lambda>nesting_type.
               nested_name n imp junk get_type (ti_id nesting_type) (ti_name nesting_type)
                 (ti_name nesting_type @ WStr ''+'' @ ongoing_type_name)))"

declare nested_name.simps [simp del]

text \<open>The array brackets: how many more element types \<open>SZARRAY\<close> follow.\<close>

fun skip_szarrays :: "byte list \<Rightarrow> hr + nat" where
  "skip_szarrays [] = Inl BadAccess"
| "skip_szarrays (b # r) = (if b = ELEMENT_TYPE_SZARRAY then bindE (skip_szarrays r) (\<lambda>n. Inr (Suc n)) else Inr 0)"

definition arity_of_name :: "wstring \<Rightarrow> int option" where
  "arity_of_name nm = stoi (ToString (case rfind 0x60 nm of None \<Rightarrow> nm | Some index_of_tick \<Rightarrow> drop (index_of_tick + 1) nm))"

definition dec_top :: "int list \<Rightarrow> int list" where
  "dec_top s = (case s of [] \<Rightarrow> [] | n # s \<Rightarrow> (n - 1) # s)"

text \<open>The names of a type that is a token, and of a generic instance up to its arguments.\<close>

definition named_piece :: "nat \<Rightarrow> metadata_import \<Rightarrow> u32 \<Rightarrow> (u32 \<Rightarrow> hr + TypeInfo) \<Rightarrow> byte list \<Rightarrow> nat \<Rightarrow> piece_state \<Rightarrow> hr + piece" where
  "named_piece fuel imp junk get_type data current_index st =
     bindE (RetrieveTypeForSignature get_type data (current_index + 1)) (\<lambda>(type_data, token_length).
     bindE (nested_name fuel imp junk get_type (ti_id type_data) (ti_name type_data) (ti_name type_data)) (\<lambda>ongoing_type_name.
     Inr (Break (1 + unat (token_length - 1)) (append_name ongoing_type_name st))))"

definition generic_piece :: "(u32 \<Rightarrow> hr + TypeInfo) \<Rightarrow> byte list \<Rightarrow> nat \<Rightarrow> piece_state \<Rightarrow> hr + piece" where
  "generic_piece get_type data current_index st =
     bindE (RetrieveTypeForSignature get_type data (current_index + 2)) (\<lambda>(generic_type_data, token_length).
       let nm = ti_name generic_type_data;
           st = append_name (nm @ WStr ''<'') st;
           st = st\<lparr>generic_arg_stack := dec_top (generic_arg_stack st)\<rparr>
       in (case arity_of_name nm of
             None \<Rightarrow> Inr Throw
           | Some actual_arg_count \<Rightarrow>
               Inr (Continue (2 + unat token_length) (st\<lparr>generic_arg_stack := actual_arg_count # generic_arg_stack st\<rparr>))))"

definition variable_piece :: "byte list \<Rightarrow> nat \<Rightarrow> piece_state \<Rightarrow> hr + piece" where
  "variable_piece data current_index st =
     (case CorSigUncompressToken (drop current_index data) of
        Inl _ \<Rightarrow> Inl BadAccess
      | Inr (token_length, _) \<Rightarrow> Inr (Break (unat token_length) (append_name (WStr ''T'') st)))"

definition type_piece :: "nat \<Rightarrow> metadata_import \<Rightarrow> u32 \<Rightarrow> (u32 \<Rightarrow> hr + TypeInfo) \<Rightarrow> byte list \<Rightarrow> nat \<Rightarrow> piece_state \<Rightarrow> hr + piece" where
  "type_piece fuel imp junk get_type data current_index st =
     (let cor_element_type = data ! current_index in
      case element_type_name cor_element_type of
        Some nm \<Rightarrow> Inr (Break 0 (append_name nm st))
      | None \<Rightarrow>
          if cor_element_type = ELEMENT_TYPE_VALUETYPE \<or> cor_element_type = ELEMENT_TYPE_CLASS
          then named_piece fuel imp junk get_type data current_index st
          else if cor_element_type = ELEMENT_TYPE_SZARRAY
          then bindE (skip_szarrays (drop (current_index + 1) data)) (\<lambda>n.
            Inr (Continue n (st\<lparr>append_to_type := append_to_type st @ concat (replicate (Suc n) (WStr ''[]''))\<rparr>)))
          else if cor_element_type = ELEMENT_TYPE_MVAR \<or> cor_element_type = ELEMENT_TYPE_VAR
          then variable_piece data current_index st
          else if cor_element_type = ELEMENT_TYPE_GENERICINST then generic_piece get_type data current_index st
          else if cor_element_type = ELEMENT_TYPE_BYREF then Inr (Break 0 (append_name (WStr ''ref'') st))
          else if cor_element_type = 0x00 then Inr (Continue 0 st)
          else Inr (Break 0 (append_name (ToWSTRING (ToString_uint64 (ucast cor_element_type))) st)))"

text \<open>Behind the switch: brackets, commas, closed generic instances, and the name is complete when no
  generic instance is open. \<open>None\<close> is \<open>return false\<close>.\<close>

fun unwind :: "int list \<Rightarrow> wstring \<Rightarrow> int list \<times> wstring" where
  "unwind [] nm = ([], nm)"
| "unwind (n # s) nm =
     (if n = 0 then unwind s (nm @ WStr ''>'' @ (if s \<noteq> [] \<and> hd s > 0 then WStr '', '' else []))
      else (n # s, nm))"

definition finish :: "int list \<Rightarrow> wstring \<Rightarrow> piece_state \<Rightarrow> piece_state option" where
  "finish stack nm st =
     (let nm = (if stack \<noteq> [] \<and> hd stack > 0 then nm @ WStr '', '' else nm);
          (stack, nm) = unwind stack nm;
          st = st\<lparr>append_to_type := [], generic_arg_stack := stack, current_type_name := nm\<rparr>
      in if stack \<noteq> [] then Some st
         else if current_type_index st \<ge> length (type_names st) then None
         else Some (st\<lparr>type_names := (type_names st)[current_type_index st := nm], current_type_name := [],
           current_type_index := Suc (current_type_index st)\<rparr>))"

definition end_of_piece :: "piece_state \<Rightarrow> piece_state option" where
  "end_of_piece st = finish (dec_top (generic_arg_stack st)) (current_type_name st @ append_to_type st) st"

function type_pieces :: "nat \<Rightarrow> metadata_import \<Rightarrow> u32 \<Rightarrow> (u32 \<Rightarrow> hr + TypeInfo) \<Rightarrow> byte list \<Rightarrow> nat \<Rightarrow> piece_state
    \<Rightarrow> hr + wstring list option" where
  "type_pieces fuel imp junk get_type data current_index st =
     (if current_index < length data then
        bindE (type_piece fuel imp junk get_type data current_index st) (\<lambda>p. case p of
          Throw \<Rightarrow> Inr None
        | Continue d st \<Rightarrow> type_pieces fuel imp junk get_type data (Suc (current_index + d)) st
        | Break d st \<Rightarrow> (case end_of_piece st of
            None \<Rightarrow> Inr None
          | Some st \<Rightarrow> type_pieces fuel imp junk get_type data (Suc (current_index + d)) st))
      else Inr (Some (type_names st)))"
  by pat_completeness auto
termination by (relation "measure (\<lambda>(_, _, _, _, data, i, _). length data - i)") auto

declare type_pieces.simps [simp del]

definition piece_start :: "nat \<Rightarrow> piece_state" where
  "piece_start expected_number_of_types = \<lparr>generic_arg_stack = [], append_to_type = [], current_type_name = [],
     type_names = replicate expected_number_of_types [], current_type_index = 0\<rparr>"

definition TryParseSignatureTypes :: "nat \<Rightarrow> metadata_import \<Rightarrow> u32 \<Rightarrow> MethodSignature \<Rightarrow> hr + wstring list option" where
  "TryParseSignatureTypes fuel imp junk data =
     bindE (NumberOfTypeArguments data) (\<lambda>generic_count.
     bindE (NumberOfArguments data) (\<lambda>param_count.
     type_pieces fuel imp junk (GetTypeInfo fuel imp) data (if generic_count > 0 then 3 else 2)
       (piece_start (unat param_count + 1))))"

section \<open>The type of the returned value\<close>

text \<open>A core library whose properties have not been read has no key.\<close>

definition corlib_request :: "AssemblyProperty \<Rightarrow> AssemblyRefRequest" where
  "corlib_request cor =
     (if cor_public_key cor \<noteq> [] then
        \<lparr>ar_public_key = cor_public_key cor, ar_name = TypeMetadata.c_str (cor_name cor), ar_version = cor_version cor,
         ar_locale = cor_locale cor, ar_hash = [], ar_flags = 0\<rparr>
      else
        \<lparr>ar_public_key = [0xB7, 0x7A, 0x5C, 0x56, 0x19, 0x34, 0xE0, 0x89], ar_name = WStr ''mscorlib'',
         ar_version = Version 4 0 0 0, ar_locale = [], ar_hash = [], ar_flags = 0\<rparr>)"

definition GetCorLibAssemblyRef :: "'m clr \<Rightarrow> (HRESULT \<times> u32 option, 'm) ct" where
  "GetCorLibAssemblyRef env = (\<lambda>s. emit_call (clr_DefineAssemblyRef env (corlib_request (ct_cor s))) s)"

definition value_type_name :: "byte \<Rightarrow> wstring option" where
  "value_type_name b =
     (if b = ELEMENT_TYPE_VOID then Some (WStr ''System.Void'')
      else if b = ELEMENT_TYPE_BOOLEAN then Some (WStr ''System.Boolean'')
      else if b = ELEMENT_TYPE_CHAR then Some (WStr ''System.Char'')
      else if b = ELEMENT_TYPE_I1 then Some (WStr ''System.SByte'')
      else if b = ELEMENT_TYPE_U1 then Some (WStr ''System.Byte'')
      else if b = ELEMENT_TYPE_I2 then Some (WStr ''System.Int16'')
      else if b = ELEMENT_TYPE_U2 then Some (WStr ''System.UInt16'')
      else if b = ELEMENT_TYPE_I4 then Some (WStr ''System.Int32'')
      else if b = ELEMENT_TYPE_U4 then Some (WStr ''System.UInt32'')
      else if b = ELEMENT_TYPE_I8 then Some (WStr ''System.Int64'')
      else if b = ELEMENT_TYPE_U8 then Some (WStr ''System.UInt64'')
      else if b = ELEMENT_TYPE_R4 then Some (WStr ''System.Single'')
      else if b = ELEMENT_TYPE_R8 then Some (WStr ''System.Double'')
      else if b = ELEMENT_TYPE_TYPEDBYREF then Some (WStr ''System.TypedReference'')
      else if b = ELEMENT_TYPE_I then Some (WStr ''System.IntPtr'')
      else if b = ELEMENT_TYPE_U then Some (WStr ''System.UIntPtr'')
      else None)"

text \<open>Reading a signature; the results of the functions are their boolean and what
  \<open>*ret_type_token\<close> holds afterwards.\<close>

definition read_byte :: "byte list \<Rightarrow> (byte, 'm) ct" where
  "read_byte p = lift (case p of [] \<Rightarrow> Inl BadAccess | b # _ \<Rightarrow> Inr b)"

definition from_sig :: "sig_error + 'a \<Rightarrow> ('a, 'm) ct" where
  "from_sig r = lift (case r of Inl _ \<Rightarrow> Inl BadAccess | Inr x \<Rightarrow> Inr x)"

definition try_type :: "byte list \<Rightarrow> (byte list option, 'm) ct" where
  "try_type p = lift (case ParseType p of Inl Rejected \<Rightarrow> Inr None | Inl _ \<Rightarrow> Inl BadAccess | Inr q \<Rightarrow> Inr (Some q))"

definition ReturnTypeTokenforValueTypeElementType :: "'m clr \<Rightarrow> u32 \<Rightarrow> byte list \<Rightarrow> (bool \<times> u32, 'm) ct" where
  "ReturnTypeTokenforValueTypeElementType env junk p_sig =
     bindS (read_byte p_sig) (\<lambda>cor_element_type.
     if cor_element_type = ELEMENT_TYPE_VALUETYPE then
       bindS (from_sig (CorSigUncompressToken (drop 1 p_sig))) (\<lambda>(result, tok). ret (result \<noteq> ULONG_MAX, tok))
     else (case value_type_name cor_element_type of
         None \<Rightarrow> ret (False, junk)
       | Some managed_type_name \<Rightarrow>
           bindS (GetCorLibAssemblyRef env) (\<lambda>(hr, mscorlib_ref).
           if FAILED hr then ret (False, junk)
           else bindS (emit_call (clr_DefineTypeRefByName env (out_or junk mscorlib_ref) managed_type_name)) (\<lambda>(hr, out).
             ret (\<not> FAILED hr, out_or junk out)))))"

definition type_spec_result :: "'m clr \<Rightarrow> u32 \<Rightarrow> byte list \<Rightarrow> (bool \<times> u32, 'm) ct" where
  "type_spec_result env junk sig = bindS (emit_call (clr_GetTokenFromTypeSpec env sig)) (\<lambda>(hr, out).
     ret (\<not> FAILED hr, out_or junk out))"

text \<open>A generic instance at the pointer: its type specification when it is a value type.\<close>

definition generic_instance_result :: "'m clr \<Rightarrow> u32 \<Rightarrow> byte list \<Rightarrow> (bool \<times> u32, 'm) ct" where
  "generic_instance_result env junk p_start_byte =
     bindS (read_byte (drop 1 p_start_byte)) (\<lambda>b.
     if b \<noteq> ELEMENT_TYPE_VALUETYPE then ret (False, junk)
     else bindS (try_type p_start_byte) (\<lambda>p_end_byte. case p_end_byte of
         None \<Rightarrow> ret (False, junk)
       | Some q \<Rightarrow> type_spec_result env junk (take (length p_start_byte - length q) p_start_byte)))"

text \<open>The loop over the generic arguments, up to the one with the index.\<close>

fun generic_argument_result :: "'m clr \<Rightarrow> u32 \<Rightarrow> u32 \<Rightarrow> nat \<Rightarrow> nat \<Rightarrow> byte list \<Rightarrow> (bool \<times> u32, 'm) ct" where
  "generic_argument_result env junk generic_type_index i 0 p = ret (False, junk)"
| "generic_argument_result env junk generic_type_index i (Suc n) p =
     (if i \<noteq> unat generic_type_index then
        bindS (try_type p) (\<lambda>q. case q of
          None \<Rightarrow> ret (False, junk)
        | Some q \<Rightarrow> generic_argument_result env junk generic_type_index (Suc i) n q)
      else
        bindS (read_byte p) (\<lambda>b.
        if b = ELEMENT_TYPE_MVAR \<or> b = ELEMENT_TYPE_VAR then
          bindS (read_byte (drop 1 p)) (\<lambda>_. type_spec_result env junk (take 2 p))
        else if b = ELEMENT_TYPE_GENERICINST then generic_instance_result env junk p
        else ReturnTypeTokenforValueTypeElementType env junk p))"

text \<open>The signature that lists the generic arguments, from its count of arguments on: the type
  specification of the parent of a method, or the method specification. \<open>None\<close> is \<open>return false\<close>.\<close>

definition generic_arguments :: "metadata_import \<Rightarrow> byte \<Rightarrow> u32 \<Rightarrow> (byte list option, 'm) ct" where
  "generic_arguments imp generic_count targetFunctionToken =
     (let token_type = TypeFromToken targetFunctionToken in
      if token_type = mdtMemberRef \<or> token_type = mdtMethodDef then
        if generic_count > 0 then ret None
        else
          let (hr, props) = (if token_type = mdtMemberRef then imp_GetMemberRefProps imp targetFunctionToken
                             else imp_GetMemberProps imp targetFunctionToken);
              (hr, spec_signature) = (if FAILED hr then (hr, []) else imp_GetTypeSpecFromToken imp (mp_parent props))
          in if FAILED hr then ret None
             else bindS (from_sig (CorSigUncompressToken (drop 2 spec_signature))) (\<lambda>(token_length, _).
               ret (Some (drop (2 + unat token_length) spec_signature)))
      else if token_type = mdtMethodSpec then
        let (hr, _, spec_signature) = imp_GetMethodSpecProps imp targetFunctionToken
        in ret (if FAILED hr then None else Some (drop 1 spec_signature))
      else ret None)"

definition ReturnTypeIsValueTypeOrGeneric :: "metadata_import \<Rightarrow> 'm clr \<Rightarrow> u32 \<Rightarrow> u32 \<Rightarrow> MethodSignature \<Rightarrow> (bool \<times> u32, 'm) ct" where
  "ReturnTypeIsValueTypeOrGeneric imp env junk targetFunctionToken data =
     bindS (lift (NumberOfTypeArguments data)) (\<lambda>generic_count.
     let p = drop (if generic_count = 0 then 2 else 3) data in
     bindS (read_byte p) (\<lambda>ret_type.
     if ret_type = ELEMENT_TYPE_VOID then ret (False, junk)
     else if ret_type = ELEMENT_TYPE_GENERICINST then generic_instance_result env junk p
     else if ret_type = ELEMENT_TYPE_VAR \<or> ret_type = ELEMENT_TYPE_MVAR then
       bindS (from_sig (CorSigUncompressData (drop 1 p))) (\<lambda>(n, generic_type_index).
       if n = ULONG_MAX then ret (False, junk)
       else bindS (generic_arguments imp generic_count targetFunctionToken) (\<lambda>spec. case spec of
           None \<Rightarrow> ret (False, junk)
         | Some spec \<Rightarrow>
             bindS (from_sig (CorSigUncompressData spec)) (\<lambda>(n, num_generic_arguments).
             generic_argument_result env junk generic_type_index 0 (unat num_generic_arguments) (drop (unat n) spec))))
     else ReturnTypeTokenforValueTypeElementType env junk p))"

section \<open>Which names are read\<close>

definition bare_name :: "(u32 \<Rightarrow> hr + TypeInfo) \<Rightarrow> u32 \<Rightarrow> wstring option" where
  "bare_name get_type tk = (case get_type tk of Inl _ \<Rightarrow> None | Inr t \<Rightarrow> Some (ti_name t))"

definition full_name :: "nat \<Rightarrow> metadata_import \<Rightarrow> u32 \<Rightarrow> (u32 \<Rightarrow> hr + TypeInfo) \<Rightarrow> u32 \<Rightarrow> wstring option" where
  "full_name fuel imp junk get_type tk = (case get_type tk of
     Inl _ \<Rightarrow> None
   | Inr t \<Rightarrow> (case nested_name fuel imp junk get_type (ti_id t) (ti_name t) (ti_name t) of Inl _ \<Rightarrow> None | Inr n \<Rightarrow> Some n))"

text \<open>The name of a type, and the types that are named like that: an array of generic instances is
  not one of them.\<close>

fun separated :: "wstring list \<Rightarrow> wstring" where
  "separated [] = []"
| "separated [s] = s"
| "separated (s # t # ss) = s @ WStr '', '' @ separated (t # ss)"

fun site_name :: "(u32 \<Rightarrow> wstring option) \<Rightarrow> (u32 \<Rightarrow> wstring option) \<Rightarrow> clr_type \<Rightarrow> wstring" where
  "site_name full bare (Prim b) = the (element_type_name b)"
| "site_name full bare (Named vt tk) = the (full tk)"
| "site_name full bare (SzArray t) = site_name full bare t @ WStr ''[]''"
| "site_name full bare (Inst vt tk ts) = the (bare tk) @ WStr ''<'' @ separated (map (site_name full bare) ts) @ WStr ''>''"
| "site_name full bare (TVar n) = WStr ''T''"
| "site_name full bare (MVar n) = WStr ''T''"

fun innermost_inst :: "clr_type \<Rightarrow> bool" where
  "innermost_inst (SzArray t) = innermost_inst t"
| "innermost_inst (Inst vt tk ts) = True"
| "innermost_inst _ = False"

fun site_type :: "(u32 \<Rightarrow> wstring option) \<Rightarrow> (u32 \<Rightarrow> wstring option) \<Rightarrow> clr_type \<Rightarrow> bool" where
  "site_type full bare (Prim b) = (element_type_name b \<noteq> None)"
| "site_type full bare (Named vt tk) = (type_token tk \<and> full tk \<noteq> None)"
| "site_type full bare (SzArray t) = (site_type full bare t \<and> \<not> innermost_inst t)"
| "site_type full bare (Inst vt tk ts) = (type_token tk \<and> ts \<noteq> [] \<and> length ts < 128
     \<and> (case bare tk of None \<Rightarrow> False | Some nm \<Rightarrow> arity_of_name nm = Some (int (length ts))) \<and> list_all (site_type full bare) ts)"
| "site_type full bare (TVar n) = (n < 128)"
| "site_type full bare (MVar n) = (n < 128)"

text \<open>What happens when the name of a type is complete.\<close>

definition completed :: "piece_state \<Rightarrow> wstring \<Rightarrow> piece_state option" where
  "completed st nm = finish (dec_top (generic_arg_stack st)) (current_type_name st @ nm) st"

lemma finish_current [simp]: "finish s nm (st\<lparr>current_type_name := x\<rparr>) = finish s nm st"
  "finish s nm (st\<lparr>append_to_type := y\<rparr>) = finish s nm st" "finish s nm (st\<lparr>generic_arg_stack := z\<rparr>) = finish s nm st"
  by (simp_all add: finish_def Let_def split: prod.split)

lemma end_of_piece_append: "end_of_piece (append_name nm st) = completed st (nm @ append_to_type st)"
  by (simp add: end_of_piece_def completed_def append_name_def)

text \<open>The last argument of a generic instance closes it.\<close>

lemma finish_inst: "finish (0 # s) nm st = finish s (nm @ WStr ''>'') st"
  by (simp add: finish_def Let_def)

lemma finish_more: "k > 0 \<Longrightarrow> finish (k # s) nm st = Some (st\<lparr>append_to_type := [], generic_arg_stack := k # s, current_type_name := nm @ WStr '', ''\<rparr>)"
  by (simp add: finish_def Let_def)

lemma CorSig_small:
  "b < 128 \<Longrightarrow> CorSigUncompressData (b # q) = Inr (1, ucast b)"
proof -
  assume "b < 128"
  then have "unat b < 2 ^ 7" by (simp add: word_less_nat_alt)
  then have "b AND 0x80 = 0" using bit_bounded [of b 7 7] by (intro bit_word_eqI) (auto simp: bit_simps bits_simps)
  then show ?thesis by (simp add: CorSigUncompressData_def CorSigUncompressData_len_def)
qed

lemma encode_number_small: "n < 128 \<Longrightarrow> encode_number n = [ucast n]"
  by (simp add: encode_number_def CorSigCompressData_def word_less_nat_alt word_le_nat_alt)

text \<open>One step of the loop.\<close>

lemma type_pieces_break:
  assumes "i < length data" "type_piece fuel imp junk get_type data i st = Inr (Break d (append_name nm st))"
  shows "type_pieces fuel imp junk get_type data i st = (case completed st (nm @ append_to_type st) of
      None \<Rightarrow> Inr None | Some st \<Rightarrow> type_pieces fuel imp junk get_type data (Suc (i + d)) st)"
  using assms by (subst type_pieces.simps) (simp add: end_of_piece_append)

lemma type_pieces_continue:
  assumes "i < length data" "type_piece fuel imp junk get_type data i st = Inr (Continue d st')"
  shows "type_pieces fuel imp junk get_type data i st = type_pieces fuel imp junk get_type data (Suc (i + d)) st'"
  using assms by (subst type_pieces.simps) simp

lemma type_pieces_szarray:
  assumes "data ! i = ELEMENT_TYPE_SZARRAY" "Suc i < length data"
  shows "type_pieces fuel imp junk get_type data i st
    = type_pieces fuel imp junk get_type data (Suc i) (st\<lparr>append_to_type := append_to_type st @ WStr ''[]''\<rparr>)"
proof (cases "skip_szarrays (drop (i + 1) data)")
  case (Inl e)
  have "drop (i + 1) data = data ! Suc i # drop (Suc (Suc i)) data" using assms(2) by (simp add: Cons_nth_drop_Suc)
  then show ?thesis
    using Inl assms by (subst (1 2) type_pieces.simps)
      (auto simp: type_piece_def element_type_name_def Let_def bindE_eq_Inl split: if_splits)
next
  case (Inr n)
  have d: "drop (i + 1) data = data ! Suc i # drop (Suc (Suc i)) data" using assms(2) by (simp add: Cons_nth_drop_Suc)
  let ?st = "st\<lparr>append_to_type := append_to_type st @ WStr ''[]''\<rparr>"
  have step: "type_pieces fuel imp junk get_type data i st = type_pieces fuel imp junk get_type data (Suc (i + n))
      (st\<lparr>append_to_type := append_to_type st @ concat (replicate (Suc n) (WStr ''[]''))\<rparr>)"
    using Inr assms by (intro type_pieces_continue) (simp_all add: type_piece_def element_type_name_def)
  show ?thesis
  proof (cases "data ! Suc i = ELEMENT_TYPE_SZARRAY")
    case True
    then obtain m where m: "skip_szarrays (drop (Suc i + 1) data) = Inr m" "n = Suc m"
      using Inr unfolding d by (auto simp: bindE_eq_Inr)
    have "type_pieces fuel imp junk get_type data (Suc i) ?st = type_pieces fuel imp junk get_type data (Suc (Suc i + m))
        (?st\<lparr>append_to_type := append_to_type ?st @ concat (replicate (Suc m) (WStr ''[]''))\<rparr>)"
      using m True assms by (intro type_pieces_continue) (simp_all add: type_piece_def element_type_name_def)
    then show ?thesis using step m(2) by simp
  next
    case False
    then have "n = 0" using Inr unfolding d by simp
    then show ?thesis using step by simp
  qed
qed

lemma site_type_wf_token:
  assumes "type_token tk"
  obtains bs where "encode_named vt tk = named_head vt # bs" "bs \<noteq> []" "unat (of_nat (length bs) :: u32) = length bs"
    "\<And>q. CorSigUncompressToken (bs @ q) = Inr (of_nat (length bs), tk)"
  using encode_named_word [OF assms, of vt] by blast

lemma brackets_commute: "x = concat (replicate k y) \<Longrightarrow> y @ x = x @ y"
  by (induction k arbitrary: x) simp_all

lemma encode_type_nonempty [simp]: "encode_type t \<noteq> []"
  by (cases t) (simp_all add: encode_named_def)

lemma unat_pred: "unat (w :: u32) \<noteq> 0 \<Longrightarrow> unat (w - 1) = unat w - 1"
  by (simp add: unat_sub word_le_nat_alt)

lemma named_step:
  assumes tk: "type_token tk" "full_name fuel imp junk gt tk = Some nm" and data: "data = pre @ encode_named vt tk @ post"
  shows "type_piece fuel imp junk gt data (length pre) st
    = Inr (Break (length (encode_named vt tk) - 1) (append_name nm st))"
proof -
  obtain bs where bs: "encode_named vt tk = named_head vt # bs" "bs \<noteq> []" "unat (of_nat (length bs) :: u32) = length bs"
    "\<And>q. CorSigUncompressToken (bs @ q) = Inr (of_nat (length bs), tk)"
    using site_type_wf_token [OF tk(1), of vt] by blast
  obtain td where td: "gt tk = Inr td" "nested_name fuel imp junk gt (ti_id td) (ti_name td) (ti_name td) = Inr nm"
    using tk(2) by (auto simp: full_name_def split: sum.splits)
  have "RetrieveTypeForSignature gt data (length pre + 1) = Inr (td, of_nat (length bs))"
    using bs(4) [of post] td(1) by (simp add: RetrieveTypeForSignature_def data bs(1))
  moreover have "unat (of_nat (length bs) - 1 :: u32) = length bs - 1" using bs(2,3) by (simp add: unat_pred)
  moreover have "data ! length pre = named_head vt" using data bs(1) by simp
  ultimately show ?thesis
    using td(2) bs(1,2) by (cases vt) (simp_all add: type_piece_def element_type_name_def named_piece_def)
qed

lemma generic_step:
  assumes tk: "type_token tk" "bare_name gt tk = Some nm" "arity_of_name nm = Some n"
    and data: "data = pre @ (ELEMENT_TYPE_GENERICINST # encode_named vt tk @ [c]) @ post"
  shows "type_piece fuel imp junk gt data (length pre) st = Inr (Continue (Suc (length (encode_named vt tk)))
    ((append_name (nm @ WStr ''<'') st)\<lparr>generic_arg_stack := n # dec_top (generic_arg_stack st)\<rparr>))"
proof -
  obtain bs where bs: "encode_named vt tk = named_head vt # bs" "bs \<noteq> []" "unat (of_nat (length bs) :: u32) = length bs"
    "\<And>q. CorSigUncompressToken (bs @ q) = Inr (of_nat (length bs), tk)"
    using site_type_wf_token [OF tk(1), of vt] by blast
  obtain td where td: "gt tk = Inr td" "ti_name td = nm"
    using tk(2) by (auto simp: bare_name_def split: sum.splits)
  have "RetrieveTypeForSignature gt data (length pre + 2) = Inr (td, of_nat (length bs))"
    using bs(4) [of "c # post"] td(1) by (simp add: RetrieveTypeForSignature_def data bs(1))
  then show ?thesis
    using td(2) bs(1,3) tk(3)
    by (simp add: type_piece_def element_type_name_def generic_piece_def data append_name_def)
qed

lemma type_pieces_arguments:
  assumes types: "\<And>t pre post st. t \<in> set ts \<Longrightarrow> data = pre @ encode_type t @ post \<Longrightarrow> append_to_type st = []
      \<Longrightarrow> type_pieces fuel imp junk gt data (length pre) st
        = (case completed st (nm t) of None \<Rightarrow> Inr None
           | Some st' \<Rightarrow> type_pieces fuel imp junk gt data (length (pre @ encode_type t)) st')"
    and "ts \<noteq> []" "data = pre @ concat (map encode_type ts) @ post" "append_to_type st = []"
    and "generic_arg_stack st = int (length ts) # s"
  shows "type_pieces fuel imp junk gt data (length pre) st
    = (case finish s (current_type_name st @ separated (map nm ts) @ WStr ''>'') st of None \<Rightarrow> Inr None
       | Some st' \<Rightarrow> type_pieces fuel imp junk gt data (length (pre @ concat (map encode_type ts))) st')"
  using assms
proof (induction ts arbitrary: pre st)
  case (Cons t ts)
  have first: "type_pieces fuel imp junk gt data (length pre) st
      = (case completed st (nm t) of None \<Rightarrow> Inr None
         | Some st' \<Rightarrow> type_pieces fuel imp junk gt data (length (pre @ encode_type t)) st')"
    using Cons.prems(3,4) by (intro Cons.prems(1) [where post = "concat (map encode_type ts) @ post"]) simp_all
  show ?case
  proof (cases ts)
    case Nil
    then show ?thesis using first Cons.prems(5) by (simp add: completed_def dec_top_def finish_inst cong: option.case_cong)
  next
    case more: (Cons t' ts')
    let ?st = "st\<lparr>append_to_type := [], generic_arg_stack := int (length ts) # s,
      current_type_name := (current_type_name st @ nm t) @ WStr '', ''\<rparr>"
    have "completed st (nm t) = Some ?st"
      using Cons.prems(5) more by (simp add: completed_def dec_top_def finish_more)
    then have "type_pieces fuel imp junk gt data (length pre) st = type_pieces fuel imp junk gt data (length (pre @ encode_type t)) ?st"
      using first by simp
    also have "\<dots> = (case finish s (current_type_name ?st @ separated (map nm ts) @ WStr ''>'') ?st of None \<Rightarrow> Inr None
       | Some st' \<Rightarrow> type_pieces fuel imp junk gt data (length ((pre @ encode_type t) @ concat (map encode_type ts))) st')"
    proof (rule Cons.IH)
      show "type_pieces fuel imp junk gt data (length pre') st'
        = (case completed st' (nm u) of None \<Rightarrow> Inr None
           | Some st'' \<Rightarrow> type_pieces fuel imp junk gt data (length (pre' @ encode_type u)) st'')"
        if "u \<in> set ts" "data = pre' @ encode_type u @ post'" "append_to_type st' = []" for u pre' post' st'
        using that by (intro Cons.prems(1)) simp_all
    qed (use Cons.prems(3) more in simp_all)
    finally show ?thesis using more by (simp cong: option.case_cong)
  qed
qed simp

lemma type_pieces_type:
  assumes "site_type (full_name fuel imp junk gt) (bare_name gt) t" "data = pre @ encode_type t @ post"
    and "append_to_type st = concat (replicate k (WStr ''[]''))" "innermost_inst t \<Longrightarrow> k = 0"
  shows "type_pieces fuel imp junk gt data (length pre) st
    = (case completed st (site_name (full_name fuel imp junk gt) (bare_name gt) t @ append_to_type st) of None \<Rightarrow> Inr None
       | Some st' \<Rightarrow> type_pieces fuel imp junk gt data (length (pre @ encode_type t)) st')"
  using assms
proof (induction t arbitrary: pre post st k)
  case (Prim b)
  then obtain nm where nm: "element_type_name b = Some nm" by auto
  then have "type_piece fuel imp junk gt data (length pre) st = Inr (Break 0 (append_name nm st))"
    using Prim by (simp add: type_piece_def)
  then show ?case using Prim nm by (subst type_pieces_break) (auto cong: option.case_cong)
next
  case (Named vt tk)
  then obtain nm where nm: "full_name fuel imp junk gt tk = Some nm" "type_token tk" by auto
  have "type_piece fuel imp junk gt data (length pre) st = Inr (Break (length (encode_named vt tk) - 1) (append_name nm st))"
    using Named nm by (intro named_step) simp_all
  then show ?case using Named nm by (subst type_pieces_break) (auto simp: encode_named_def cong: option.case_cong)
next
  case (SzArray t)
  let ?st = "st\<lparr>append_to_type := append_to_type st @ WStr ''[]''\<rparr>"
  have k: "append_to_type ?st = concat (replicate (Suc k) (WStr ''[]''))"
    using SzArray.prems(3) brackets_commute [of _ k "WStr ''[]''"] by simp
  have "type_pieces fuel imp junk gt data (length pre) st = type_pieces fuel imp junk gt data (length (pre @ [ELEMENT_TYPE_SZARRAY])) ?st"
    using SzArray.prems(2) by (subst type_pieces_szarray) (auto simp: neq_Nil_conv)
  also have "\<dots> = (case completed ?st (site_name (full_name fuel imp junk gt) (bare_name gt) t @ append_to_type ?st) of None \<Rightarrow> Inr None
       | Some st' \<Rightarrow> type_pieces fuel imp junk gt data (length ((pre @ [ELEMENT_TYPE_SZARRAY]) @ encode_type t)) st')"
    using SzArray.prems k by (intro SzArray.IH [where k = "Suc k" and post = post]) simp_all
  finally show ?case
    using SzArray.prems(3) brackets_commute [of "append_to_type st" k "WStr ''[]''"] by (simp add: completed_def cong: option.case_cong)
next
  case (Inst vt tk ts)
  let ?f = "full_name fuel imp junk gt" and ?b = "bare_name gt"
  have no: "append_to_type st = []" using Inst.prems(3,4) by simp
  obtain nm where nm: "?b tk = Some nm" "arity_of_name nm = Some (int (length ts))" "type_token tk" "ts \<noteq> []"
    using Inst.prems(1) by (auto split: option.splits)
  have "(of_nat (length ts) :: u32) < 128" using Inst.prems(1) by (simp add: word_less_nat_alt unat_of_nat)
  then obtain c where c: "encode_number (of_nat (length ts)) = [c]" by (simp add: encode_number_small)
  let ?st = "(append_name (nm @ WStr ''<'') st)\<lparr>generic_arg_stack := int (length ts) # dec_top (generic_arg_stack st)\<rparr>"
  let ?pre = "pre @ ELEMENT_TYPE_GENERICINST # encode_named vt tk @ [c]"
  have "type_pieces fuel imp junk gt data (length pre) st = type_pieces fuel imp junk gt data (length ?pre) ?st"
    using Inst.prems(2) c nm
    by (subst type_pieces_continue [OF _ generic_step [where tk = tk and nm = nm and n = "int (length ts)" and vt = vt
          and c = c and post = "concat (map encode_type ts) @ post"]]) simp_all
  also have "\<dots> = (case finish (dec_top (generic_arg_stack st)) (current_type_name ?st @ separated (map (site_name ?f ?b) ts) @ WStr ''>'') ?st of
      None \<Rightarrow> Inr None | Some st' \<Rightarrow> type_pieces fuel imp junk gt data (length (?pre @ concat (map encode_type ts))) st')"
  proof (rule type_pieces_arguments [where post = post])
    fix t pre' post' and st' :: piece_state
    assume t: "t \<in> set ts" "data = pre' @ encode_type t @ post'" "append_to_type st' = []"
    then show "type_pieces fuel imp junk gt data (length pre') st'
      = (case completed st' (site_name ?f ?b t) of None \<Rightarrow> Inr None
         | Some st'' \<Rightarrow> type_pieces fuel imp junk gt data (length (pre' @ encode_type t)) st'')"
      using Inst.IH [OF t(1) _ t(2), of st' 0] Inst.prems(1) by (simp add: list_all_iff split: option.splits)
  qed (use Inst.prems(2) nm no c in \<open>simp_all add: append_name_def\<close>)
  finally show ?case using no nm c by (simp add: completed_def append_name_def cong: option.case_cong)
next
  case (TVar n)
  then have n: "CorSigUncompressToken (drop (length pre) data) = Inr (1, TokenFromRid 4 mdtBaseType)" "encode_number n = [ucast n]"
    by (simp_all add: CorSigUncompressToken_def CorSig_small encode_number_small g_tkCorEncodeToken_def)
  then have "type_piece fuel imp junk gt data (length pre) st = Inr (Break 1 (append_name (WStr ''T'') st))"
    using TVar by (simp add: type_piece_def element_type_name_def variable_piece_def)
  then show ?case using TVar n(2) by (subst type_pieces_break) (auto cong: option.case_cong)
next
  case (MVar n)
  then have n: "CorSigUncompressToken (drop (length pre) data) = Inr (1, TokenFromRid 7 mdtTypeSpec)" "encode_number n = [ucast n]"
    by (simp_all add: CorSigUncompressToken_def CorSig_small encode_number_small g_tkCorEncodeToken_def)
  then have "type_piece fuel imp junk gt data (length pre) st = Inr (Break 1 (append_name (WStr ''T'') st))"
    using MVar by (simp add: type_piece_def element_type_name_def variable_piece_def)
  then show ?case using MVar n(2) by (subst type_pieces_break) (auto cong: option.case_cong)
qed

lemma type_pieces_types:
  assumes "list_all (site_type (full_name fuel imp junk gt) (bare_name gt)) ts" "data = pre @ concat (map encode_type ts)"
    and "st = \<lparr>generic_arg_stack = [], append_to_type = [], current_type_name = [], type_names = found @ replicate (length ts) [],
      current_type_index = length found\<rparr>"
  shows "type_pieces fuel imp junk gt data (length pre) st
    = Inr (Some (found @ map (site_name (full_name fuel imp junk gt) (bare_name gt)) ts))"
  using assms
proof (induction ts arbitrary: pre st found)
  case Nil
  then show ?case by (subst type_pieces.simps) simp
next
  case (Cons t ts)
  let ?nm = "site_name (full_name fuel imp junk gt) (bare_name gt)"
  let ?st = "\<lparr>generic_arg_stack = [], append_to_type = [], current_type_name = [],
      type_names = (found @ [?nm t]) @ replicate (length ts) [], current_type_index = length (found @ [?nm t])\<rparr>"
  have "completed st (?nm t) = Some ?st"
    by (simp add: Cons.prems(3) completed_def finish_def dec_top_def list_update_append)
  then have "type_pieces fuel imp junk gt data (length pre) st = type_pieces fuel imp junk gt data (length (pre @ encode_type t)) ?st"
    using Cons.prems by (subst type_pieces_type [where t = t and post = "concat (map encode_type ts)" and k = 0]) simp_all
  also have "\<dots> = Inr (Some ((found @ [?nm t]) @ map ?nm ts))"
    using Cons.prems by (intro Cons.IH) simp_all
  finally show ?case by simp
qed

text \<open>The signature of a method, with one byte for each of the two counts.\<close>

definition site_signature :: "byte \<Rightarrow> byte \<Rightarrow> clr_type \<Rightarrow> clr_type list \<Rightarrow> MethodSignature" where
  "site_signature conv generic_count return_type params =
     conv # (if conv AND IMAGE_CEE_CS_CALLCONV_GENERIC \<noteq> 0 then [generic_count] else []) @ [of_nat (length params)]
     @ concat (map encode_type (return_type # params))"

lemma site_signature_counts:
  fixes conv generic_count :: byte
  assumes "length params < 256" "conv AND IMAGE_CEE_CS_CALLCONV_GENERIC \<noteq> 0 \<Longrightarrow> generic_count \<noteq> 0"
  shows "\<exists>g n. NumberOfTypeArguments (site_signature conv generic_count r params) = Inr g
    \<and> NumberOfArguments (site_signature conv generic_count r params) = Inr n \<and> unat n = length params
    \<and> (if g > 0 then 3 else 2) = (if conv AND IMAGE_CEE_CS_CALLCONV_GENERIC \<noteq> 0 then 3 else 2 :: nat)"
proof -
  have n: "unat (of_nat (length params) :: byte) = length params" using assms(1) by (simp add: unat_of_nat)
  obtain b rest where r: "encode_type r = b # rest" using encode_type_nonempty [of r] by (cases "encode_type r") auto
  show ?thesis
    using assms(2) n r by (simp add: site_signature_def NumberOfTypeArguments_def NumberOfArguments_def CallingConvention_def
        data_at_def word_gt_0)
qed

section \<open>Properties\<close>


text \<open>A generic method with the types of \<open>T Get(List<Uri[]>, int)\<close>.\<close>

definition demo_site_import :: metadata_import where
  "demo_site_import = demo_import\<lparr>imp_GetTypeRefProps :=
     (\<lambda>tk. (S_OK, if tk = 0x01000001 then WStr ''System.List`1'' else WStr ''System.Uri'', 14))\<rparr>"

lemma demo_site_names:
  "GetTypeInfo (Suc n) demo_site_import 0x01000001
    = Inr (TypeInfo 0x01000001 (WStr ''System.List`1'') mdTypeSpecNil mdtTypeRef None False (generic_name (WStr ''System.List`1'')) None)"
  "GetTypeInfo (Suc n) demo_site_import 0x01000002
    = Inr (TypeInfo 0x01000002 (WStr ''System.Uri'') mdTypeSpecNil mdtTypeRef None False (generic_name (WStr ''System.Uri'')) None)"
proof -
  have "TypeFromToken 0x01000001 = mdtTypeRef" "TypeFromToken 0x01000002 = mdtTypeRef"
    by (simp_all add: TypeFromToken_def mdtTypeRef_def)
  then show "GetTypeInfo (Suc n) demo_site_import 0x01000001
    = Inr (TypeInfo 0x01000001 (WStr ''System.List`1'') mdTypeSpecNil mdtTypeRef None False (generic_name (WStr ''System.List`1'')) None)"
  "GetTypeInfo (Suc n) demo_site_import 0x01000002
    = Inr (TypeInfo 0x01000002 (WStr ''System.Uri'') mdTypeSpecNil mdtTypeRef None False (generic_name (WStr ''System.Uri'')) None)"
    by (simp_all add: GetTypeInfo_body_def demo_site_import_def Let_def type_result_def FAILED_def)
qed

lemma demo_arity: "arity_of_name (WStr ''System.List`1'') = Some 1"
proof -
  have "(case rfind 0x60 (WStr ''System.List`1'') of None \<Rightarrow> WStr ''System.List`1''
      | Some i \<Rightarrow> drop (i + 1) (WStr ''System.List`1'')) = [0x31]"
    by (simp add: rfind_def WStr_def wc_def)
  moreover have "ToString [0x31] = [0x31]" using ToString_ascii [of "[0x31]"] by (simp add: ascii_def)
  ultimately show ?thesis
    by (simp add: arity_of_name_def stoi_def Let_def is_decimal_digit_def digits_value_def)
qed

lemma demo_site_full:
  "full_name (Suc n) demo_site_import 0 (GetTypeInfo (Suc n) demo_site_import) 0x01000002 = Some (WStr ''System.Uri'')"
  "bare_name (GetTypeInfo (Suc n) demo_site_import) 0x01000001 = Some (WStr ''System.List`1'')"
  unfolding full_name_def bare_name_def demo_site_names by (simp_all add: nested_name.simps WStr_def wc_def)


section \<open>Wrong names\<close>

text \<open>The brackets of an array of generic instances are appended to the first argument of the instance: an
  array of lists is named like a list of arrays.\<close>

lemma array_of_instances_misnamed:
  "TryParseSignatureTypes (Suc 0) demo_site_import 0
     (site_signature 0 0 (Prim ELEMENT_TYPE_VOID) [SzArray (Inst False 0x01000001 [Prim ELEMENT_TYPE_I4])])
   = Inr (Some [WStr ''System.Void'', WStr ''System.List`1<System.Int32[]>''])"
proof -
  have tok: "the (CorSigCompressToken 0x01000001) = [0x05]"
    by (simp add: CorSigCompressToken_def CorSigCompressData_def RidFromToken_def TypeFromToken_def token_tag_def mdtTypeRef_def Let_def
        mdtTypeDef_def mdtTypeSpec_def g_tkCorEncodeToken_def)
  have sig: "site_signature 0 0 (Prim ELEMENT_TYPE_VOID) [SzArray (Inst False 0x01000001 [Prim ELEMENT_TYPE_I4])]
      = [0, 1, ELEMENT_TYPE_VOID, ELEMENT_TYPE_SZARRAY, ELEMENT_TYPE_GENERICINST, ELEMENT_TYPE_CLASS, 0x05, 0x01, ELEMENT_TYPE_I4]"
    by (simp add: site_signature_def encode_named_def encode_number_small tok)
  let ?d = "[0, 1, ELEMENT_TYPE_VOID, ELEMENT_TYPE_SZARRAY, ELEMENT_TYPE_GENERICINST, ELEMENT_TYPE_CLASS, 0x05, 0x01, ELEMENT_TYPE_I4] :: byte list"
  have ret: "RetrieveTypeForSignature (GetTypeInfo (Suc 0) demo_site_import) ?d 6
      = Inr (TypeInfo 0x01000001 (WStr ''System.List`1'') mdTypeSpecNil mdtTypeRef None False (generic_name (WStr ''System.List`1'')) None, 1)"
    using demo_site_names(1) [of 0]
    by (simp add: RetrieveTypeForSignature_def CorSigUncompressToken_def CorSig_small g_tkCorEncodeToken_def TokenFromRid_def
        mdtTypeRef_def del: GetTypeInfo.simps)
  have counts: "NumberOfTypeArguments ?d = Inr 0" "NumberOfArguments ?d = Inr 1"
    by (simp_all add: NumberOfTypeArguments_def NumberOfArguments_def CallingConvention_def data_at_def)
  let ?tp = "type_pieces (Suc 0) demo_site_import 0 (GetTypeInfo (Suc 0) demo_site_import) ?d"
  have ps: "piece_start 2 = \<lparr>generic_arg_stack = [], append_to_type = [], current_type_name = [], type_names = [[], []], current_type_index = 0\<rparr>"
    by (simp add: piece_start_def numeral_2_eq_2)
  have "?tp 2 (piece_start 2) = ?tp 3 \<lparr>generic_arg_stack = [], append_to_type = [], current_type_name = [],
      type_names = [WStr ''System.Void'', []], current_type_index = 1\<rparr>"
    by (subst type_pieces.simps) (simp add: type_piece_def element_type_name_def end_of_piece_def append_name_def ps
        finish_def dec_top_def)
  moreover have "?tp 3 \<lparr>generic_arg_stack = [], append_to_type = [], current_type_name = [],
      type_names = [WStr ''System.Void'', []], current_type_index = 1\<rparr>
    = ?tp 4 \<lparr>generic_arg_stack = [], append_to_type = WStr ''[]'', current_type_name = [],
      type_names = [WStr ''System.Void'', []], current_type_index = 1\<rparr>"
    by (subst type_pieces.simps) (simp add: type_piece_def element_type_name_def)
  moreover have "\<dots> = ?tp 8 \<lparr>generic_arg_stack = [1], append_to_type = WStr ''[]'', current_type_name = WStr ''System.List`1<'',
      type_names = [WStr ''System.Void'', []], current_type_index = 1\<rparr>"
    by (subst type_pieces.simps) (simp add: type_piece_def element_type_name_def generic_piece_def ret demo_arity append_name_def
        dec_top_def del: GetTypeInfo.simps, simp add: WStr_def)
  moreover have "\<dots> = ?tp 9 \<lparr>generic_arg_stack = [], append_to_type = [], current_type_name = [],
      type_names = [WStr ''System.Void'', WStr ''System.List`1<System.Int32[]>''], current_type_index = 2\<rparr>"
    by (subst type_pieces.simps) (simp add: type_piece_def element_type_name_def end_of_piece_def append_name_def
        finish_def dec_top_def, simp add: WStr_def numeral_2_eq_2)
  moreover have "?tp 9 \<lparr>generic_arg_stack = [], append_to_type = [], current_type_name = [],
      type_names = [WStr ''System.Void'', WStr ''System.List`1<System.Int32[]>''], current_type_index = 2\<rparr>
    = Inr (Some [WStr ''System.Void'', WStr ''System.List`1<System.Int32[]>''])"
    by (subst type_pieces.simps) simp
  ultimately show ?thesis unfolding sig TryParseSignatureTypes_def counts bindE_Inr by (simp flip: numeral_2_eq_2 del: GetTypeInfo.simps)
qed

text \<open>A type that is not nested has its parent left uninitialised. If that happens to be the token of a type
  without a namespace that is not nested either, the loop never ends.\<close>

lemma nested_name_endless:
  assumes "\<forall>tk. imp_GetNestedClassProps imp tk = mdTokenNil" "junk \<noteq> mdTokenNil"
    and "get_type junk = Inr t" "wc CHR ''.'' \<notin> set (ti_name t)" "wc CHR ''.'' \<notin> set nm"
  shows "nested_name fuel imp junk get_type tk nm ongoing = Inl NoFuel"
  using assms(5)
proof (induction fuel arbitrary: tk nm ongoing)
  case 0
  then show ?case by (subst nested_name.simps) simp
next
  case (Suc n)
  then show ?case using assms(1-4) by (subst nested_name.simps) (simp add: Let_def)
qed

end
