(* ===== verification/CallSites.thy ===== *)
theory CallSites
  imports CallSiteTypes CallTargetCode
begin

text \<open>
  The rewriting of call sites (\<open>CorProfiler::ProcessReplacementCalls\<close> and
  \<open>CorProfiler::ProcessInsertionCalls\<close> of \<open>cor_profiler.cpp\<close>): which calls of a method are replaced by a call
  of a wrapper method, and the instructions around the new call, on the state of
  \<open>CallTargetTokens\<close> and \<open>ILRewriterWrapper\<close> and the caches of \<open>ModuleMetadata\<close>.

  Logging and the optional dump of the code are left out. What the metadata say of a token is fixed
  while a method is rewritten.
\<close>

abbreviation (input) CEE_CONSTRAINED :: nat where "CEE_CONSTRAINED \<equiv> 278"

text \<open>What the profiler, the CLR and the memory contribute to one call. \<open>se_behind\<close> is what can be read
  behind the bytes of a signature, and \<open>se_junk\<close> what an uninitialised variable holds.\<close>

record 'm site_env =
  se_builder :: "'m builder"
  se_module :: "u32 option"
  se_import :: metadata_import
  se_fuel :: nat
  se_junk :: u32
  se_behind :: "byte list"
  se_loaded_domain_neutral :: bool
  se_loaded_app_domains :: "u64 set"
  se_app_domain :: u64
  se_is_desktop :: bool
  se_corlib_module_loaded :: bool
  se_corlib_app_domain :: u64
  se_instrument_domain_neutral :: bool
  se_module_version_id :: u64

section \<open>Which calls are replaced\<close>

definition DefineMethodSpec :: "'m clr \<Rightarrow> u32 \<Rightarrow> MethodSignature \<Rightarrow> (u32, 'm) ct" where
  "DefineMethodSpec env tok signature =
     bindS (emit_call (clr_DefineMethodSpec env tok signature)) (\<lambda>(_, out). ret (out_or mdMethodSpecNil out))"

text \<open>The checks in front of \<open>GetWrapperMethodRef\<close>: a call of a known method with the name of the target,
  a wrapper signature that can hold the arguments added, and as many arguments as the wrapper takes.\<close>

definition site_target :: "'m site_env \<Rightarrow> MethodReplacement \<Rightarrow> il \<Rightarrow> hr + FunctionInfo option" where
  "site_target env method_replacement pInstr =
     (if fst pInstr \<noteq> CEE_CALL \<and> fst pInstr \<noteq> CEE_CALLVIRT then Inr None
      else
        bindE (get_Arg32 (snd pInstr)) (\<lambda>tok.
        bindE (GetFunctionInfo (se_fuel env) (se_import env) tok) (\<lambda>target.
        if \<not> FunctionInfo_IsValid target then Inr None
        else if type_name (target_method method_replacement) \<noteq> ti_name (fi_type target)
              \<or> method_name (target_method method_replacement) \<noteq> fi_name target then Inr None
        else
          let added_parameters_count = 3;
              wrapper_signature = method_signature (wrapper_method method_replacement)
          in if length wrapper_signature < added_parameters_count + 3 then Inr None
             else
               bindE (NumberOfArguments wrapper_signature) (\<lambda>wrapper_args.
               bindE (NumberOfArguments (fi_signature target)) (\<lambda>target_arg_count.
               let expected_number_args = (ucast wrapper_args :: u64) - of_nat added_parameters_count
                     - (if IsInstanceMethod (fi_signature target) then 1 else 0)
               in if expected_number_args \<noteq> ucast target_arg_count then Inr None else Inr (Some target))))))"

text \<open>The reference to call and the token of the original method: \<open>None\<close> when the wrapper cannot be referred
  to or its number of generic arguments differs.\<close>

definition site_reference :: "'m site_env \<Rightarrow> MethodReplacement \<Rightarrow> FunctionInfo \<Rightarrow> wrapper_caches \<times> 'm ct_state
    \<Rightarrow> hr + ((u32 \<times> u32) option \<times> wrapper_caches \<times> 'm ct_state)" where
  "site_reference env method_replacement target = (\<lambda>(c, s).
     let ((generated_wrapper_method_ref, wrapper_method_ref, _), c, m) =
           GetWrapperMethodRef (se_builder env) (se_module env) method_replacement (c, ct_meta s);
         s = s\<lparr>ct_meta := m\<rparr>
     in if \<not> generated_wrapper_method_ref then Inr (None, c, s)
        else if fi_is_generic target then
          bindE (NumberOfTypeArguments (fi_signature target)) (\<lambda>n.
          bindE (NumberOfTypeArguments (method_signature (wrapper_method method_replacement))) (\<lambda>k.
          if n \<noteq> k then Inr (None, c, s)
          else
            bindE (DefineMethodSpec (mb_emit (se_builder env)) wrapper_method_ref (fi_function_spec_signature target) s)
              (\<lambda>(wrapper_method_ref, s). Inr (Some (wrapper_method_ref, fi_method_def_id target), c, s))))
        else Inr (Some (wrapper_method_ref, fi_id target), c, s))"

definition types_match :: "wstring list \<Rightarrow> wstring list \<Rightarrow> bool" where
  "types_match expected_sig actual_sig \<longleftrightarrow> length actual_sig = length expected_sig
     \<and> list_all2 (\<lambda>e a. e = WStr ''_'' \<or> e = a) expected_sig actual_sig"

definition site_matches :: "'m site_env \<Rightarrow> MethodReplacement \<Rightarrow> FunctionInfo \<Rightarrow> hr + bool" where
  "site_matches env method_replacement target =
     bindE (TryParseSignatureTypes (se_fuel env) (se_import env) (se_junk env) (fi_signature target)) (\<lambda>actual_sig.
     Inr (case actual_sig of
         None \<Rightarrow> False
       | Some actual_sig \<Rightarrow> types_match (signature_types (target_method method_replacement)) actual_sig))"

text \<open>The last checks: the managed profiler is loaded, the caller is not shared between domains, and the
  call is not a constrained one.\<close>

definition site_allowed :: "'m site_env \<Rightarrow> nat \<Rightarrow> nat \<Rightarrow> bool" where
  "site_allowed env previous_opcode opcode \<longleftrightarrow>
     ProfilerAssemblyIsLoadedIntoAppDomain (se_loaded_domain_neutral env) (se_loaded_app_domains env) (se_app_domain env)
     \<and> (let caller_assembly_is_domain_neutral = se_is_desktop env \<and> se_corlib_module_loaded env
              \<and> se_app_domain env = se_corlib_app_domain env
        in \<not> (caller_assembly_is_domain_neutral \<and> \<not> se_instrument_domain_neutral env))
     \<and> \<not> (opcode = CEE_CALLVIRT \<and> previous_opcode = CEE_CONSTRAINED)"

section \<open>The new instructions\<close>

text \<open>The pointer into the signature runs over the return type and all parameters but the last.\<close>

fun skip_types :: "nat \<Rightarrow> byte list \<Rightarrow> (byte list option, 'm) ct" where
  "skip_types 0 p = ret (Some p)"
| "skip_types (Suc n) p = bindS (try_type p) (\<lambda>q. case q of None \<Rightarrow> ret None | Some q \<Rightarrow> skip_types n q)"

definition box_token :: "u32 \<Rightarrow> (unit, 'm) ct" where
  "box_token tok = bindS (wrapper_op (Box tok)) (\<lambda>_. ret ())"

definition box_cancellation_token :: "'m site_env \<Rightarrow> byte list \<Rightarrow> (byte list, 'm) ct" where
  "box_cancellation_token env p =
     bindS (read_byte p) (\<lambda>b.
     if b = ELEMENT_TYPE_VALUETYPE then
       bindS (from_sig (CorSigUncompressToken_ref (drop 1 p))) (\<lambda>(valuetype_type_token, q).
       bindS (lift (GetTypeInfo (se_fuel env) (se_import env) valuetype_type_token)) (\<lambda>type_info.
       bindS (if ti_name type_info = WStr ''System.Threading.CancellationToken'' then box_token valuetype_type_token
              else ret ()) (\<lambda>_. ret q)))
     else ret p)"

definition box_read_only_memory :: "'m site_env \<Rightarrow> byte list \<Rightarrow> (unit, 'm) ct" where
  "box_read_only_memory env p =
     bindS (read_byte p) (\<lambda>b.
     if b = ELEMENT_TYPE_GENERICINST then
       bindS (read_byte (drop 1 p)) (\<lambda>b.
       if b = ELEMENT_TYPE_VALUETYPE then
         bindS (from_sig (CorSigUncompressToken_ref (drop 2 p))) (\<lambda>(valuetype_type_token, _).
         bindS (lift (GetTypeInfo (se_fuel env) (se_import env) valuetype_type_token)) (\<lambda>type_info.
         if ti_name type_info = WStr ''System.ReadOnlyMemory`1'' then
           bindS (try_type p) (\<lambda>p_end_byte. case p_end_byte of
               None \<Rightarrow> ret ()
             | Some q \<Rightarrow>
                 bindS (emit_call (clr_GetTokenFromTypeSpec (mb_emit (se_builder env)) (take (length p - length q) p)))
                   (\<lambda>(_, out). box_token (out_or (se_junk env) out)))
         else ret ()))
       else ret ())
     else ret ())"

definition box_last_argument :: "'m site_env \<Rightarrow> FunctionInfo \<Rightarrow> (unit, 'm) ct" where
  "box_last_argument env target =
     bindS (lift (NumberOfArguments (fi_signature target))) (\<lambda>argument_count.
     let pSigCurrent = drop (IndexOfReturnType (fi_signature target)) (fi_signature target) @ se_behind env
     in bindS (skip_types (unat argument_count) pSigCurrent) (\<lambda>p. case p of
          None \<Rightarrow> ret ()
        | Some p \<Rightarrow> bindS (box_cancellation_token env p) (box_read_only_memory env)))"

definition prev_instr :: "ptr \<Rightarrow> (ptr, 'm) ct" where
  "prev_instr p = on_rewriter (\<lambda>r. (m_pPrev (heap r p), r))"

definition unbox_return_value :: "'m site_env \<Rightarrow> MethodReplacement \<Rightarrow> FunctionInfo \<Rightarrow> (unit, 'm) ct" where
  "unbox_return_value env method_replacement target =
     bindS (lift (ReturnTypeIsObject (method_signature (wrapper_method method_replacement)))) (\<lambda>returns_object.
     if returns_object then
       bindS (ReturnTypeIsValueTypeOrGeneric (se_import env) (mb_emit (se_builder env)) (se_junk env) (fi_id target)
           (fi_signature target)) (\<lambda>(found, typeToken).
       if found then bindS (wrapper_op (UnboxAnyAfter typeToken)) (\<lambda>_. ret ()) else ret ())
     else ret ())"

text \<open>One call becomes a \<open>NOP\<close>, and the new instructions follow it. The result is the instruction that
  followed the call, where the loop goes on.\<close>

definition replace_site :: "'m site_env \<Rightarrow> MethodReplacement \<Rightarrow> FunctionInfo \<Rightarrow> u32 \<Rightarrow> u32 \<Rightarrow> ptr \<Rightarrow> (ptr, 'm) ct" where
  "replace_site env method_replacement target wrapper_method_ref method_def_md_token pInstr =
     bindS (set_position pInstr) (\<lambda>_.
     bindS (on_rewriter (\<lambda>r. (m_opcode (heap r pInstr), set_opcode pInstr CEE_NOP r))) (\<lambda>original_methodcall_opcode.
     bindS (next_instr pInstr) (\<lambda>pInstr.
     bindS (set_position pInstr) (\<lambda>_.
     bindS (box_last_argument env target) (\<lambda>_.
     bindS (wrapper_op (CallMember wrapper_method_ref False)) (\<lambda>_.
     bindS (prev_instr pInstr) (\<lambda>method_call.
     bindS (set_position method_call) (\<lambda>_.
     bindS (wrapper_op (LoadInt32 (of_nat original_methodcall_opcode))) (\<lambda>_.
     bindS (wrapper_op (LoadInt32 method_def_md_token)) (\<lambda>_.
     bindS (wrapper_op (LoadInt64 (se_module_version_id env))) (\<lambda>_.
     bindS (unbox_return_value env method_replacement target) (\<lambda>_.
     ret pInstr))))))))))))"

section \<open>The loops\<close>

text \<open>One turn of the loop over the instructions: whether the call was replaced, and where the loop goes on.\<close>

definition visit_site :: "'m site_env \<Rightarrow> MethodReplacement \<Rightarrow> ptr \<Rightarrow> wrapper_caches \<times> 'm ct_state
    \<Rightarrow> hr + ((bool \<times> ptr) \<times> wrapper_caches \<times> 'm ct_state)" where
  "visit_site env method_replacement pInstr = (\<lambda>(c, s).
     let i = heap (rw s) pInstr in
     bindE (site_target env method_replacement (m_opcode i, m_arg i)) (\<lambda>target. case target of
         None \<Rightarrow> Inr ((False, pInstr), c, s)
       | Some target \<Rightarrow>
           bindE (site_reference env method_replacement target (c, s)) (\<lambda>(reference, c, s). case reference of
               None \<Rightarrow> Inr ((False, pInstr), c, s)
             | Some (wrapper_method_ref, method_def_md_token) \<Rightarrow>
                 bindE (site_matches env method_replacement target) (\<lambda>is_match.
                 if \<not> is_match \<or> \<not> site_allowed env (m_opcode (heap (rw s) (m_pPrev i))) (m_opcode i)
                 then Inr ((False, pInstr), c, s)
                 else
                   bindE (replace_site env method_replacement target wrapper_method_ref method_def_md_token pInstr s)
                     (\<lambda>(p, s). Inr ((True, p), c, s))))))"

fun replacement_pass :: "nat \<Rightarrow> 'm site_env \<Rightarrow> MethodReplacement \<Rightarrow> ptr \<Rightarrow> bool \<Rightarrow> wrapper_caches \<times> 'm ct_state
    \<Rightarrow> hr + (bool \<times> wrapper_caches \<times> 'm ct_state)" where
  "replacement_pass fuel env method_replacement pInstr modified cs =
     (if pInstr = m_IL then Inr (modified, cs)
      else case fuel of 0 \<Rightarrow> Inl NoFuel
        | Suc n \<Rightarrow>
            bindE (visit_site env method_replacement pInstr cs) (\<lambda>((replaced, p), cs).
            replacement_pass n env method_replacement (m_pNext (heap (rw (snd cs)) p)) (modified \<or> replaced) cs))"

declare replacement_pass.simps [simp del]

text \<open>A pass visits the instructions that are there at its beginning; the bound leaves room for a second
  turn with the instructions inserted, which happens when the very last instruction has been replaced.\<close>

definition replacement_fuel :: "'m ct_state \<Rightarrow> nat" where
  "replacement_fuel s = 8 * fresh (rw s)"

fun replacement_passes :: "'m site_env \<Rightarrow> MethodReplacement list \<Rightarrow> bool \<Rightarrow> wrapper_caches \<times> 'm ct_state
    \<Rightarrow> hr + (bool \<times> wrapper_caches \<times> 'm ct_state)" where
  "replacement_passes env [] modified cs = Inr (modified, cs)"
| "replacement_passes env (method_replacement # replacements) modified cs =
     (if action (wrapper_method method_replacement) \<noteq> WStr ''ReplaceTargetMethod''
          \<or> IsFailedWrapperMemberKey (fst cs) (get_method_cache_key (wrapper_method method_replacement))
      then replacement_passes env replacements modified cs
      else
        bindE (replacement_pass (replacement_fuel (snd cs)) env method_replacement (m_pNext (heap (rw (snd cs)) m_IL)) modified cs)
          (\<lambda>(modified, cs). replacement_passes env replacements modified cs))"

text \<open>The calls inserted at the beginning of a method.\<close>

fun insertions :: "'m site_env \<Rightarrow> MethodReplacement list \<Rightarrow> ptr \<Rightarrow> bool \<Rightarrow> wrapper_caches \<times> 'm ct_state
    \<Rightarrow> hr + (bool \<times> wrapper_caches \<times> 'm ct_state)" where
  "insertions env [] firstInstr modified cs = Inr (modified, cs)"
| "insertions env (method_replacement # replacements) firstInstr modified (c, s) =
     (let w = wrapper_method method_replacement in
      if action w = WStr ''ReplaceTargetMethod'' \<or> IsFailedWrapperMemberKey c (get_method_cache_key w)
      then insertions env replacements firstInstr modified (c, s)
      else
        let ((generated_wrapper_method_ref, wrapper_method_ref, _), c, m) =
              GetWrapperMethodRef (se_builder env) (se_module env) method_replacement (c, ct_meta s);
            s = s\<lparr>ct_meta := m\<rparr>
        in if \<not> generated_wrapper_method_ref then insertions env replacements firstInstr modified (c, s)
           else if action w = WStr ''InsertFirst'' then
             bindE (bindS (set_position firstInstr) (\<lambda>_. bindS (wrapper_op (CallMember wrapper_method_ref False)) (\<lambda>_.
               prev_instr firstInstr)) s) (\<lambda>(firstInstr, s).
             insertions env replacements firstInstr True (c, s))
           else insertions env replacements firstInstr modified (c, s))"

section \<open>The two functions\<close>

text \<open>What the allocator and the CLR contribute to \<open>Import\<close> and \<open>Export\<close>.\<close>

record body_env =
  be_body :: "u32 + method_decoder"
  be_junk :: ILRewriter
  be_new :: "nat \<Rightarrow> byte list"
  be_alloc :: "nat \<Rightarrow> byte list option"
  be_set_body :: "byte list \<Rightarrow> u32 option"

text \<open>The result: the body handed to the CLR, if any, or the failure that is returned; the caches and
  the metadata keep what has been defined before \<open>Export\<close> fails.\<close>

definition rewrite_sites :: "body_env \<Rightarrow> (wrapper_caches \<times> 'm ct_state \<Rightarrow> hr + (bool \<times> wrapper_caches \<times> 'm ct_state))
    \<Rightarrow> AssemblyProperty \<Rightarrow> CallTargetTokens \<Rightarrow> wrapper_caches \<times> 'm \<Rightarrow> hr + ((hr + byte list option) \<times> wrapper_caches \<times> 'm)" where
  "rewrite_sites be loop cor tokens = (\<lambda>(c, m).
     case Import (be_body be) (ILRewriter_new (be_junk be)) of
       Inl hr \<Rightarrow> if failure_code hr then Inr (Inl hr, c, m) else Inl hr
     | Inr rewriter \<Rightarrow>
         bindE (loop (c, \<lparr>ct_tokens = tokens, ct_cor = cor, ct_meta = m, ct_wrapper = ILRewriterWrapper_new rewriter\<rparr>))
           (\<lambda>(modified, c, s).
           if modified then
             (case Export (be_new be) (be_alloc be) (be_set_body be) (rw s) of
                Inl hr \<Rightarrow> if failure_code hr then Inr (Inl hr, c, ct_meta s) else Inl hr
              | Inr (body, _) \<Rightarrow> Inr (Inr (Some body), c, ct_meta s))
           else Inr (Inr None, c, ct_meta s)))"

definition ProcessReplacementCalls :: "'m site_env \<Rightarrow> body_env \<Rightarrow> AssemblyProperty \<Rightarrow> CallTargetTokens \<Rightarrow> MethodReplacement list
    \<Rightarrow> wrapper_caches \<times> 'm \<Rightarrow> hr + ((hr + byte list option) \<times> wrapper_caches \<times> 'm)" where
  "ProcessReplacementCalls env be cor tokens replacements =
     rewrite_sites be (replacement_passes env replacements False) cor tokens"

definition ProcessInsertionCalls :: "'m site_env \<Rightarrow> body_env \<Rightarrow> AssemblyProperty \<Rightarrow> CallTargetTokens \<Rightarrow> MethodReplacement list
    \<Rightarrow> wrapper_caches \<times> 'm \<Rightarrow> hr + ((hr + byte list option) \<times> wrapper_caches \<times> 'm)" where
  "ProcessInsertionCalls env be cor tokens replacements =
     rewrite_sites be (\<lambda>(c, s). insertions env replacements (m_pNext (heap (rw s) m_IL)) False (c, s)) cor tokens"

section \<open>Operations that leave the code alone\<close>

lemma keeps_reads [keeps_intros]: "keeps_wrapper (read_byte p)" "keeps_wrapper (from_sig r)" "keeps_wrapper (try_type p)"
  unfolding read_byte_def from_sig_def try_type_def by (intro keeps_intros)+

lemma keeps_type_spec [keeps_intros]: "keeps_wrapper (type_spec_result env junk sig)"
  unfolding type_spec_result_def by (intro keeps_intros)

lemma keeps_value_type [keeps_intros]: "keeps_wrapper (ReturnTypeTokenforValueTypeElementType env junk p)"
proof -
  have "keeps_wrapper (GetCorLibAssemblyRef env)" unfolding GetCorLibAssemblyRef_def keeps_wrapper_def
    by (auto simp: emit_call_def Let_def split: prod.splits)
  then show ?thesis unfolding ReturnTypeTokenforValueTypeElementType_def by (intro keeps_intros)
qed

lemma keeps_instance [keeps_intros]: "keeps_wrapper (generic_instance_result env junk p)"
  unfolding generic_instance_result_def by (intro keeps_intros)

lemma keeps_argument [keeps_intros]: "keeps_wrapper (generic_argument_result env junk k i n p)"
  by (induction n arbitrary: i p) (auto intro!: keeps_intros)

lemma keeps_arguments [keeps_intros]: "keeps_wrapper (generic_arguments imp n tok)"
  unfolding generic_arguments_def Let_def by (intro keeps_intros)

lemma keeps_return_type [keeps_intros]: "keeps_wrapper (ReturnTypeIsValueTypeOrGeneric imp env junk tok data)"
  unfolding ReturnTypeIsValueTypeOrGeneric_def Let_def by (intro keeps_intros)

lemma keeps_skip_types [keeps_intros]: "keeps_wrapper (skip_types n p)"
  by (induction n arbitrary: p) (auto intro!: keeps_intros)

lemma keeps_DefineMethodSpec [keeps_intros]: "keeps_wrapper (DefineMethodSpec env tok sig)"
  unfolding DefineMethodSpec_def by (intro keeps_intros)

section \<open>The code at a replaced call\<close>

text \<open>The instructions behind the \<open>NOP\<close>: boxes of the last argument, the opcode, the token and the
  module version added to the arguments, the call, and the unboxing of its result.\<close>

definition site_code :: "u32 \<Rightarrow> u32 \<Rightarrow> u64 \<Rightarrow> nat \<Rightarrow> il list \<Rightarrow> bool" where
  "site_code wrapper_method_ref method_def_md_token mvid opcode code \<longleftrightarrow> (\<exists>boxes unboxed.
     code = map (\<lambda>t. (CEE_BOX, Arg32 t)) boxes
       @ [LoadInt32_il (of_nat opcode), LoadInt32_il method_def_md_token, (CEE_LDC_I8, Arg64 mvid), call_il wrapper_method_ref]
       @ map (\<lambda>t. (CEE_UNBOX_ANY, Arg32 t)) unboxed \<and> length boxes \<le> 2 \<and> length unboxed \<le> 1)"

lemma more_emitted:
  "wrapper_op (Box t) s = Inr (p, s') \<Longrightarrow> emitted s s' [p] [(CEE_BOX, Arg32 t)]"
  "wrapper_op (CallMember t False) s = Inr (p, s') \<Longrightarrow> emitted s s' [p] [call_il t]"
  "wrapper_op (LoadInt32 v) s = Inr (p, s') \<Longrightarrow> emitted s s' [p] [LoadInt32_il v]"
  "wrapper_op (LoadInt64 w) s = Inr (p, s') \<Longrightarrow> emitted s s' [p] [(CEE_LDC_I8, Arg64 w)]"
  by (simp_all add: one_instruction LoadInt64_def emit_emitted)

text \<open>At most \<open>n\<close> boxes.\<close>

definition boxes :: "nat \<Rightarrow> ('a, 'm) ct \<Rightarrow> bool" where
  "boxes n f \<longleftrightarrow> (\<forall>s x s'. f s = Inr (x, s') \<longrightarrow>
     (\<exists>xs ts. emitted s s' xs (map (\<lambda>t. (CEE_BOX, Arg32 t)) ts) \<and> length ts \<le> n))"

lemma boxesD: "boxes n f \<Longrightarrow> f s = Inr (x, s') \<Longrightarrow> \<exists>xs ts. emitted s s' xs (map (\<lambda>t. (CEE_BOX, Arg32 t)) ts) \<and> length ts \<le> n"
  unfolding boxes_def by blast

lemma boxes_keeps: "keeps_wrapper f \<Longrightarrow> boxes n f"
  unfolding boxes_def using keeps_emitted by (metis list.map(1) list.size(3) zero_le)

lemma boxes_bind:
  assumes "boxes k f" "\<And>x. boxes n (g x)"
  shows "boxes (k + n) (bindS f g)"
  unfolding boxes_def
proof (intro allI impI)
  fix s x s' assume "bindS f g s = Inr (x, s')"
  then obtain y s1 where y: "f s = Inr (y, s1)" "g y s1 = Inr (x, s')" by (auto simp: bindS_eq)
  from boxesD [OF assms(1) y(1)] boxesD [OF assms(2) y(2)] obtain xs ts ys us where
    "emitted s s1 xs (map (\<lambda>t. (CEE_BOX, Arg32 t)) ts)" "length ts \<le> k"
    "emitted s1 s' ys (map (\<lambda>t. (CEE_BOX, Arg32 t)) us)" "length us \<le> n" by blast
  with emitted_trans [OF this(1,3)]
  show "\<exists>xs ts. emitted s s' xs (map (\<lambda>t. (CEE_BOX, Arg32 t)) ts) \<and> length ts \<le> k + n"
    by (intro exI [of _ "xs @ ys"] exI [of _ "ts @ us"]) simp
qed

lemma boxes_after: "keeps_wrapper f \<Longrightarrow> (\<And>x. boxes n (g x)) \<Longrightarrow> boxes n (bindS f g)"
  using boxes_bind [OF boxes_keeps [of f 0], of n g] by simp

lemma boxes_box_token: "boxes 1 (box_token t)"
  unfolding boxes_def box_token_def using more_emitted(1)
  by (fastforce simp: bindS_eq intro: exI [of _ "[t]"])

lemma boxes_cancellation: "boxes 1 (box_cancellation_token env p)"
proof -
  have *: "boxes 1 (bindS (if b then box_token t else ret ()) (\<lambda>_. ret q))" for b t q
    using boxes_bind [OF boxes_box_token [of t] boxes_keeps [OF keeps_basic(1) [of q], of 0]]
    by (cases b) (simp_all add: boxes_keeps keeps_intros)
  show ?thesis
    unfolding box_cancellation_token_def
  proof (rule boxes_after [OF keeps_reads(1)])
    fix b
    show "boxes 1 (if b = ELEMENT_TYPE_VALUETYPE then
       bindS (from_sig (CorSigUncompressToken_ref (drop 1 p))) (\<lambda>(tk, q).
       bindS (lift (GetTypeInfo (se_fuel env) (se_import env) tk)) (\<lambda>type_info.
       bindS (if ti_name type_info = WStr ''System.Threading.CancellationToken'' then box_token tk else ret ()) (\<lambda>_. ret q)))
     else ret p)"
      using boxes_keeps [OF keeps_basic(1)]
      by (auto intro!: boxes_after [OF keeps_reads(2)] boxes_after [OF keeps_basic(3)] * [simplified] simp del: if_split)
  qed
qed

lemma boxes_memory: "boxes 1 (box_read_only_memory env p)"
  unfolding box_read_only_memory_def
  by (auto intro!: boxes_after keeps_intros boxes_box_token [simplified] boxes_keeps [of "ret ()"] split: prod.split option.split)

lemma box_last_argument_emitted:
  assumes "box_last_argument env target s = Inr (x, s')"
  shows "\<exists>xs ts. emitted s s' xs (map (\<lambda>t. (CEE_BOX, Arg32 t)) ts) \<and> length ts \<le> 2"
proof -
  have "boxes 2 (bindS (box_cancellation_token env p) (box_read_only_memory env))" for p
    using boxes_bind [OF boxes_cancellation boxes_memory] by (simp add: numeral_2_eq_2)
  then have "boxes 2 (box_last_argument env target)"
    unfolding box_last_argument_def Let_def
    by (auto intro!: boxes_after keeps_intros boxes_keeps [of "ret ()"] split: option.split)
  then show ?thesis using assms by (rule boxesD)
qed

lemma prev_of:
  assumes "il_ring r (as @ c # bs)"
  shows "m_pNext (heap r c) = hd (bs @ [m_IL])" "m_pPrev (heap r (hd (bs @ [m_IL]))) = c"
  using il_ring_cut(1,2) [of r "as @ [c]" bs "m_IL # as" c "hd (bs @ [m_IL])" "tl (bs @ [m_IL])"] assms by simp_all

lemma prev_at:
  assumes "il_ring r (as @ p # bs)"
  shows "m_pPrev (heap r p) = last (m_IL # as)"
proof -
  obtain cs q where cs: "m_IL # as = cs @ [q]" by (metis list.distinct(1) rev_exhaust)
  then show ?thesis using il_ring_cut(2,1) [OF assms cs, of p "bs @ [m_IL]"] cs by simp
qed

text \<open>The instruction inserted behind a position.\<close>

lemma unbox_after:
  assumes at: "at s as (c # bs)" and run: "wrapper_op (UnboxAnyAfter t) s = Inr (u, s')"
  shows "il_ring (rw s') (as @ c # u # bs)" "node s' u = (CEE_UNBOX_ANY, Arg32 t)"
    "\<forall>p \<in> set (as @ c # bs). node s' p = node s p" "m_pEH (rw s') = m_pEH (rw s)" "m_nEH (rw s') = m_nEH (rw s)"
proof -
  have ring: "il_ring (rw s) (as @ c # bs)" and pos: "m_ILInstr (ct_wrapper s) = Some c" using at by (simp_all add: at_def)
  define r1 where "r1 = snd (NewILInstr (rw s))"
  define r2 where "r2 = set_arg u (Arg32 t) (set_opcode u CEE_UNBOX_ANY r1)"
  have u: "NewILInstr (rw s) = (u, r1)" and s': "rw s' = InsertAfter c u r2"
    using run pos by (auto simp: wrapper_op_def UnboxAnyAfter_def res_simps r1_def r2_def Let_def split: prod.splits)
  note new = NewILInstr_ring [OF ring u]
  have ring2: "il_ring r2 (as @ c # bs)" using new(1) by (simp add: r2_def)
  have r1: "r1 = (rw s)\<lparr>m_nInstrs := w32 (m_nInstrs (rw s) + 1), fresh := Suc (fresh (rw s)), heap := (heap (rw s))(u := zero_instr)\<rparr>"
    using u by (auto simp: NewILInstr_def)
  let ?v = "hd (bs @ [m_IL])"
  note links = prev_of [OF ring2]
  have v: "?v \<in> set (m_IL # bs)" by (cases bs) simp_all
  then have "u \<noteq> ?v" using new(3) by auto
  then have ins: "rw s' = InsertBefore ?v u r2"
    unfolding s' using InsertAfter_eq [of r2 c u] links by simp
  show "il_ring (rw s') (as @ c # u # bs)"
    unfolding ins using InsertBefore_ring_split [of r2 "as @ [c]" bs u ?v] ring2 new(3,4) by (simp add: r2_def frame_simps)
  show "node s' u = (CEE_UNBOX_ANY, Arg32 t)" by (simp add: node_def il_node_def ins r2_def frame_simps)
  show "\<forall>p \<in> set (as @ c # bs). node s' p = node s p"
    using new(3) by (auto simp: node_def il_node_def ins r2_def r1 frame_simps)
  show "m_pEH (rw s') = m_pEH (rw s)" "m_nEH (rw s') = m_nEH (rw s)" by (simp_all add: ins r2_def r1 frame_simps)
qed

lemma unbox_return_value_code:
  assumes at: "at s as (c # bs)" and run: "unbox_return_value env r target s = Inr (x, s')"
  shows "\<exists>us ts. il_ring (rw s') (as @ c # us @ bs) \<and> map (node s') us = map (\<lambda>t. (CEE_UNBOX_ANY, Arg32 t)) ts \<and> length ts \<le> 1
    \<and> (\<forall>p \<in> set (as @ c # bs). node s' p = node s p) \<and> m_pEH (rw s') = m_pEH (rw s) \<and> m_nEH (rw s') = m_nEH (rw s)"
proof -
  have "ct_wrapper s' = ct_wrapper s \<or> (\<exists>u t s1. ct_wrapper s1 = ct_wrapper s \<and> wrapper_op (UnboxAnyAfter t) s1 = Inr (u, s'))"
  proof -
    obtain b s1 where b: "lift (ReturnTypeIsObject (method_signature (wrapper_method r))) s = Inr (b, s1)"
      "ct_wrapper s1 = ct_wrapper s"
      using run by (auto simp: unbox_return_value_def bindS_eq lift_def res_simps)
    show ?thesis
    proof (cases b)
      case False
      then show ?thesis using run b by (auto simp: unbox_return_value_def bindS_def)
    next
      case True
      then obtain found t s2 where ret: "ReturnTypeIsValueTypeOrGeneric (se_import env) (mb_emit (se_builder env)) (se_junk env)
          (fi_id target) (fi_signature target) s1 = Inr ((found, t), s2)"
        and rest: "(if found then bindS (wrapper_op (UnboxAnyAfter t)) (\<lambda>_. ret ()) else ret ()) s2 = Inr (x, s')"
        using run b by (auto simp: unbox_return_value_def bindS_eq)
      have "ct_wrapper s2 = ct_wrapper s" using keeps_return_type ret b(2) unfolding keeps_wrapper_def by fastforce
      then show ?thesis using rest by (auto simp: bindS_eq split: if_splits)
    qed
  qed
  then show ?thesis
  proof (elim disjE exE conjE)
    assume "ct_wrapper s' = ct_wrapper s"
    then show ?thesis using at by (intro exI [of _ "[]"]) (simp add: at_def node_def)
  next
    fix u t s1 assume s1: "ct_wrapper s1 = ct_wrapper s" "wrapper_op (UnboxAnyAfter t) s1 = Inr (u, s')"
    have "at s1 as (c # bs)" using at s1(1) by (simp add: at_def)
    from unbox_after [OF this s1(2)] show ?thesis
      using s1(1) by (intro exI [of _ "[u]"] exI [of _ "[t]"]) (simp add: node_def)
  qed
qed

lemma set_position_at:
  assumes "il_ring (rw s) (as @ bs)" "p = hd (bs @ [m_IL])"
  shows "set_position p s = Inr ((), s\<lparr>ct_wrapper := SetILPosition p (ct_wrapper s)\<rparr>)"
    "at (s\<lparr>ct_wrapper := SetILPosition p (ct_wrapper s)\<rparr>) as bs"
  using assms by (simp_all add: set_position_def at_def SetILPosition_def)

text \<open>The whole replacement of one call.\<close>

lemma replace_site_code:
  assumes ring: "il_ring (rw s) (as @ p # bs)"
    and run: "replace_site env r target ref tok p s = Inr (q, s')"
  shows "q = hd (bs @ [m_IL]) \<and> (\<exists>xs. il_ring (rw s') (as @ p # xs @ bs) \<and> node s' p = (CEE_NOP, snd (node s p))
    \<and> site_code ref tok (se_module_version_id env) (fst (node s p)) (map (node s') xs)
    \<and> (\<forall>x \<in> set (as @ bs). node s' x = node s x)
    \<and> m_pEH (rw s') = m_pEH (rw s) \<and> m_nEH (rw s') = m_nEH (rw s))"
proof -
  define s1 where "s1 = s\<lparr>ct_wrapper := SetILPosition p (ct_wrapper s)\<lparr>m_ILRewriter := set_opcode p CEE_NOP (rw s)\<rparr>\<rparr>"
  let ?q = "hd (bs @ [m_IL])"
  define s2 where "s2 = s1\<lparr>ct_wrapper := SetILPosition ?q (ct_wrapper s1)\<rparr>"
  have dist: "distinct (m_IL # as @ p # bs)" using ring by (simp add: il_ring_def)
  have ring1: "il_ring (rw s1) (as @ p # bs)" using ring by (simp add: s1_def)
  note nxt0 = prev_of(1) [OF ring]
  have s2_eq: "s2 = s\<lparr>ct_wrapper := (ct_wrapper s)\<lparr>m_ILRewriter := set_opcode p CEE_NOP (rw s), m_ILInstr := Some ?q\<rparr>\<rparr>"
    by (simp add: s2_def s1_def SetILPosition_def)
  have node1: "node s2 x = (if x = p then (CEE_NOP, snd (node s p)) else node s x)" for x
    by (simp add: node_def il_node_def s2_def s1_def SetILPosition_def frame_simps)
  have at2: "at s2 (as @ [p]) bs" using set_position_at(2) [of s1 "as @ [p]" bs ?q] ring1 by (simp add: s2_def)
  have eh2: "m_pEH (rw s2) = m_pEH (rw s)" "m_nEH (rw s2) = m_nEH (rw s)"
    by (simp_all add: s2_def s1_def SetILPosition_def frame_simps)
  have op: "m_opcode (heap (rw s) p) = fst (node s p)" by (simp add: node_def il_node_def)
  obtain c x1 x2 x3 c' s3 s4 s5 s6 s7 where
    run3: "box_last_argument env target s2 = Inr ((), s3)"
    and run4: "wrapper_op (CallMember ref False) s3 = Inr (c, s4)"
    and c': "c' = m_pPrev (heap (rw s4) ?q)"
    and run5: "wrapper_op (LoadInt32 (of_nat (fst (node s p)))) (s4\<lparr>ct_wrapper := SetILPosition c' (ct_wrapper s4)\<rparr>) = Inr (x1, s5)"
      "wrapper_op (LoadInt32 tok) s5 = Inr (x2, s6)" "wrapper_op (LoadInt64 (se_module_version_id env)) s6 = Inr (x3, s7)"
    and run8: "unbox_return_value env r target s7 = Inr ((), s')" and q: "q = ?q"
    using run unfolding replace_site_def
    by (auto simp: bindS_eq on_rewriter_eq next_instr_def prev_instr_def set_position_def nxt0 s2_eq op SetILPosition_def
        frame_simps)
  obtain bx ts where e3: "emitted s2 s3 bx (map (\<lambda>t. (CEE_BOX, Arg32 t)) ts)" "length ts \<le> 2"
    using box_last_argument_emitted [OF run3] by blast
  note e4 = emitted_trans [OF e3(1) more_emitted(2) [OF run4]]
  have at4: "at s4 ((as @ p # bx) @ [c]) bs" "map (node s4) (bx @ [c]) = map (\<lambda>t. (CEE_BOX, Arg32 t)) ts @ [call_il ref]"
    "\<forall>x \<in> set ((as @ [p]) @ bs). node s4 x = node s2 x" "m_pEH (rw s4) = m_pEH (rw s2)" "m_nEH (rw s4) = m_nEH (rw s2)"
    using e4 at2 unfolding emitted_def by (fastforce, blast+)
  have ring4: "il_ring (rw s4) ((as @ p # bx) @ c # bs)" using at4(1) by (simp add: at_def)
  have "c' = c" using prev_of(2) [OF ring4] c' by simp
  let ?s4 = "s4\<lparr>ct_wrapper := SetILPosition c (ct_wrapper s4)\<rparr>"
  have at4': "at ?s4 (as @ p # bx) (c # bs)" using set_position_at(2) [of s4 "as @ p # bx" "c # bs" c] ring4 by simp
  have node4: "node ?s4 = node s4" by (simp add: node_def fun_eq_iff SetILPosition_def)
  note e7 = emitted_trans [OF emitted_trans [OF more_emitted(3) [OF run5(1) [unfolded \<open>c' = c\<close>]] more_emitted(3) [OF run5(2)]]
      more_emitted(4) [OF run5(3)]]
  have at7: "at s7 ((as @ p # bx) @ [x1, x2, x3]) (c # bs)"
    "map (node s7) [x1, x2, x3] = [LoadInt32_il (of_nat (fst (node s p))), LoadInt32_il tok, (CEE_LDC_I8, Arg64 (se_module_version_id env))]"
    "\<forall>x \<in> set ((as @ p # bx) @ (c # bs)). node s7 x = node s4 x" "m_pEH (rw s7) = m_pEH (rw s4)" "m_nEH (rw s7) = m_nEH (rw s4)"
    using e7 at4' unfolding emitted_def node4 by (fastforce, fastforce, fastforce, simp_all add: SetILPosition_def)
  obtain us vs where s': "il_ring (rw s') (((as @ p # bx) @ [x1, x2, x3]) @ c # us @ bs)"
    "map (node s') us = map (\<lambda>t. (CEE_UNBOX_ANY, Arg32 t)) vs" "length vs \<le> 1"
    "\<forall>x \<in> set (((as @ p # bx) @ [x1, x2, x3]) @ c # bs). node s' x = node s7 x"
    "m_pEH (rw s') = m_pEH (rw s7)" "m_nEH (rw s') = m_nEH (rw s7)"
    using unbox_return_value_code [OF at7(1) run8] by blast
  let ?xs = "bx @ [x1, x2, x3, c] @ us"
  have bxc: "map (node s4) bx = map (\<lambda>t. (CEE_BOX, Arg32 t)) ts" "node s4 c = call_il ref" using at4(2) by simp_all
  have "map (node s') bx = map (\<lambda>t. (CEE_BOX, Arg32 t)) ts" unfolding bxc(1) [symmetric] using s'(4) at7(3) by simp
  moreover have "map (node s') [x1, x2, x3] = map (node s7) [x1, x2, x3]" using s'(4) by simp
  moreover have "node s' c = call_il ref" using s'(4) at7(3) bxc(2) by simp
  ultimately have code: "map (node s') ?xs = map (\<lambda>t. (CEE_BOX, Arg32 t)) ts
      @ [LoadInt32_il (of_nat (fst (node s p))), LoadInt32_il tok, (CEE_LDC_I8, Arg64 (se_module_version_id env)), call_il ref]
      @ map (\<lambda>t. (CEE_UNBOX_ANY, Arg32 t)) vs"
    using at7(2) s'(2) by simp
  have old: "node s' x = node s2 x" if "x \<in> set (as @ p # bs)" for x using that s'(4) at7(3) at4(3) by auto
  have "il_ring (rw s') (as @ p # ?xs @ bs)" using s'(1) by simp
  moreover have "node s' p = (CEE_NOP, snd (node s p))" using old node1 by simp
  moreover have "site_code ref tok (se_module_version_id env) (fst (node s p)) (map (node s') ?xs)"
    unfolding site_code_def using code e3(2) s'(3) by blast
  moreover have "\<forall>x \<in> set (as @ bs). node s' x = node s x" using old node1 dist by auto
  ultimately show ?thesis
    using q s'(5,6) at7(4,5) at4(4,5) eh2 by (intro conjI exI [of _ ?xs]) simp_all
qed

end
