(* ===== verification/CallSiteRewrite.thy ===== *)
theory CallSiteRewrite
  imports CallSites CallTargetRewrite
begin

text \<open>
  What \<open>ProcessReplacementCalls\<close> and \<open>ProcessInsertionCalls\<close> make of a method: the code after one pass of
  a replacement whose wrapper can be referred to, what all passes keep of the method, and when a body
  is handed to the CLR.
\<close>

section \<open>One turn of the loop\<close>

text \<open>Whether a call is replaced, when the wrapper can be referred to.\<close>

definition site_arity :: "MethodReplacement \<Rightarrow> FunctionInfo \<Rightarrow> bool" where
  "site_arity r target \<longleftrightarrow> (fi_is_generic target \<longrightarrow>
     NumberOfTypeArguments (fi_signature target) = NumberOfTypeArguments (method_signature (wrapper_method r)))"

definition site_selected :: "'m site_env \<Rightarrow> MethodReplacement \<Rightarrow> nat \<Rightarrow> il \<Rightarrow> bool" where
  "site_selected env r previous_opcode i = (case site_target env r i of
     Inr (Some target) \<Rightarrow> site_arity r target \<and> site_matches env r target = Inr True \<and> site_allowed env previous_opcode (fst i)
   | _ \<Rightarrow> False)"

text \<open>The token of the original method that a replaced call passes on.\<close>

definition site_token :: "FunctionInfo \<Rightarrow> u32" where
  "site_token target = (if fi_is_generic target then fi_method_def_id target else fi_id target)"

lemma site_reference_wrapper:
  assumes "site_reference env r target (c, s) = Inr (reference, c', s')"
  shows "ct_wrapper s' = ct_wrapper s"
  using assms keeps_DefineMethodSpec unfolding site_reference_def keeps_wrapper_def
  by (fastforce simp: res_simps Let_def split: prod.splits if_splits)

lemma visit_site_cases:
  assumes run: "visit_site env r p (c, s) = Inr ((b, q), c', s')"
  obtains
    (kept) "\<not> b" "q = p" "ct_wrapper s' = ct_wrapper s"
  | (replaced) target ref tok s1 where "b" "site_target env r (node s p) = Inr (Some target)"
      "ct_wrapper s1 = ct_wrapper s" "site_reference env r target (c, s) = Inr (Some (ref, tok), c', s1)"
      "site_matches env r target = Inr True"
      "site_allowed env (m_opcode (heap (rw s) (m_pPrev (heap (rw s) p)))) (fst (node s p))"
      "replace_site env r target ref tok p s1 = Inr (q, s')"
proof -
  obtain t where t: "site_target env r (node s p) = Inr t"
    using run by (auto simp: visit_site_def Let_def res_simps node_def il_node_def)
  note run1 = run [unfolded visit_site_def prod.case Let_def, folded il_node_def, folded node_def, unfolded t bindE_Inr]
  show thesis
  proof (cases t)
    case None
    then show thesis using run1 kept by simp
  next
    case (Some target)
    obtain reference c1 s1 where ref: "site_reference env r target (c, s) = Inr (reference, c1, s1)"
      using run1 Some by (auto simp: res_simps)
    note w = site_reference_wrapper [OF ref]
    show thesis
    proof (cases reference)
      case None
      then show thesis using run1 Some ref w kept by simp
    next
      case (Some rt)
      obtain rf tok where rt: "rt = (rf, tok)" by (cases rt)
      obtain m where m: "site_matches env r target = Inr m" using run1 Some ref rt \<open>t = Some target\<close> by (auto simp: res_simps)
      show thesis
      proof (cases "m \<and> site_allowed env (m_opcode (heap (rw s) (m_pPrev (heap (rw s) p)))) (fst (node s p))")
        case False
        then show thesis using run1 Some ref rt \<open>t = Some target\<close> m w kept by (simp add: node_def il_node_def)
      next
        case True
        then show thesis using run1 Some ref rt \<open>t = Some target\<close> m w t replaced [of target s1 rf tok]
          by (auto simp: node_def il_node_def res_simps)
      qed
    qed
  qed
qed

text \<open>What a turn does to the code, whatever the caches hold.\<close>

lemma visit_site_code:
  assumes ring: "il_ring (rw s) (as @ p # bs)" and run: "visit_site env r p (c, s) = Inr ((b, q), c', s')"
  shows "(\<not> b \<and> q = p \<and> ct_wrapper s' = ct_wrapper s) \<or>
    (b \<and> q = hd (bs @ [m_IL]) \<and> (\<exists>target ref tok xs. site_target env r (node s p) = Inr (Some target)
      \<and> il_ring (rw s') (as @ p # xs @ bs) \<and> node s' p = (CEE_NOP, snd (node s p))
      \<and> site_code ref tok (se_module_version_id env) (fst (node s p)) (map (node s') xs)
      \<and> (\<forall>x \<in> set (as @ bs). node s' x = node s x)
      \<and> m_pEH (rw s') = m_pEH (rw s) \<and> m_nEH (rw s') = m_nEH (rw s)
      \<and> site_allowed env (m_opcode (heap (rw s) (last (m_IL # as)))) (fst (node s p))))"
  using run
proof (cases rule: visit_site_cases)
  case kept
  then show ?thesis by simp
next
  case (replaced target ref tok s1)
  have "il_ring (rw s1) (as @ p # bs)" and n: "node s1 = node s" using ring replaced(3) by (simp_all add: node_def fun_eq_iff)
  from replace_site_code [OF this(1) replaced(7)] n replaced(3) obtain xs where
    "q = hd (bs @ [m_IL])" "il_ring (rw s') (as @ p # xs @ bs)" "node s' p = (CEE_NOP, snd (node s p))"
    "site_code ref tok (se_module_version_id env) (fst (node s p)) (map (node s') xs)"
    "\<forall>x \<in> set (as @ bs). node s' x = node s x" "m_pEH (rw s') = m_pEH (rw s)" "m_nEH (rw s') = m_nEH (rw s)"
    by auto
  with replaced(1,2,6) prev_at [OF ring] show ?thesis by (intro disjI2) (simp, blast)
qed

text \<open>When the wrapper can be referred to, the turn replaces exactly the selected calls.\<close>

definition wrapper_known :: "MethodReplacement \<Rightarrow> u32 \<Rightarrow> wrapper_caches \<Rightarrow> bool" where
  "wrapper_known r ref c \<longleftrightarrow> TryGetWrapperMemberRef c (get_method_cache_key (wrapper_method r)) = Some ref"

lemma site_reference_known:
  assumes "wrapper_known r ref c" "site_reference env r target (c, s) = Inr (reference, c', s')"
  shows "c' = c \<and> (case reference of None \<Rightarrow> \<not> site_arity r target
    | Some (ref', tok) \<Rightarrow> site_arity r target \<and> tok = site_token target \<and> (\<not> fi_is_generic target \<longrightarrow> ref' = ref))"
  using assms
  by (auto simp: wrapper_known_def site_reference_def GetWrapperMethodRef_def Let_def res_simps site_arity_def site_token_def
      split: if_splits)

definition replaced_code :: "'m site_env \<Rightarrow> MethodReplacement \<Rightarrow> u32 \<Rightarrow> il \<Rightarrow> il list \<Rightarrow> bool" where
  "replaced_code env r ref i code \<longleftrightarrow> (\<exists>target ref'. site_target env r i = Inr (Some target)
     \<and> (\<not> fi_is_generic target \<longrightarrow> ref' = ref)
     \<and> site_code ref' (site_token target) (se_module_version_id env) (fst i) code)"

lemma visit_site_known:
  assumes known: "wrapper_known r ref c" and ring: "il_ring (rw s) (as @ p # bs)"
    and run: "visit_site env r p (c, s) = Inr ((b, q), c', s')"
  shows "c' = c \<and> b = site_selected env r (m_opcode (heap (rw s) (last (m_IL # as)))) (node s p)
    \<and> (if b then q = hd (bs @ [m_IL]) \<and> (\<exists>xs. il_ring (rw s') (as @ p # xs @ bs) \<and> node s' p = (CEE_NOP, snd (node s p))
        \<and> replaced_code env r ref (node s p) (map (node s') xs) \<and> (\<forall>x \<in> set (as @ bs). node s' x = node s x)
        \<and> m_pEH (rw s') = m_pEH (rw s) \<and> m_nEH (rw s') = m_nEH (rw s))
       else q = p \<and> ct_wrapper s' = ct_wrapper s)"
  using run
proof (cases rule: visit_site_cases)
  case kept
  have "c' = c \<and> \<not> site_selected env r (m_opcode (heap (rw s) (last (m_IL # as)))) (node s p)"
  proof -
    obtain t where t: "site_target env r (node s p) = Inr t"
      using run by (auto simp: visit_site_def Let_def res_simps node_def il_node_def)
    note run1 = run [unfolded visit_site_def prod.case Let_def, folded il_node_def, folded node_def, unfolded t bindE_Inr]
    show ?thesis
    proof (cases t)
      case None
      then show ?thesis using run1 t by (simp add: site_selected_def)
    next
      case (Some target)
      obtain reference c1 s1 where ref: "site_reference env r target (c, s) = Inr (reference, c1, s1)"
        using run1 Some by (auto simp: res_simps)
      note k = site_reference_known [OF known ref]
      have prev: "m_opcode (heap (rw s1) (m_pPrev (heap (rw s) p))) = m_opcode (heap (rw s) (last (m_IL # as)))"
        using prev_at [OF ring] site_reference_wrapper [OF ref] by simp
      have "c1 = c" using k by blast
      show ?thesis
        using run1 Some ref k prev t kept(1) \<open>c1 = c\<close>
        by (auto simp: site_selected_def res_simps node_def il_node_def split: option.splits if_splits)
    qed
  qed
  then show ?thesis using kept by simp
next
  case (replaced target rf tok s1)
  have k: "c' = c" "site_arity r target" "tok = site_token target" "\<not> fi_is_generic target \<longrightarrow> rf = ref"
    using site_reference_known [OF known replaced(4)] by simp_all
  have "il_ring (rw s1) (as @ p # bs)" and n: "node s1 = node s" using ring replaced(3) by (simp_all add: node_def fun_eq_iff)
  from replace_site_code [OF this(1) replaced(7)] n replaced(3) obtain xs where xs:
    "q = hd (bs @ [m_IL])" "il_ring (rw s') (as @ p # xs @ bs)" "node s' p = (CEE_NOP, snd (node s p))"
    "site_code rf tok (se_module_version_id env) (fst (node s p)) (map (node s') xs)"
    "\<forall>x \<in> set (as @ bs). node s' x = node s x" "m_pEH (rw s') = m_pEH (rw s)" "m_nEH (rw s') = m_nEH (rw s)"
    by auto
  have "site_selected env r (m_opcode (heap (rw s) (last (m_IL # as)))) (node s p)"
    using replaced(2,5,6) k(2) prev_at [OF ring] by (simp add: site_selected_def)
  moreover have "replaced_code env r ref (node s p) (map (node s') xs)"
    using replaced(2) k(3,4) xs(4) unfolding replaced_code_def by blast
  ultimately show ?thesis using replaced(1) k(1) xs by auto
qed

section \<open>One pass\<close>

text \<open>The calls that are replaced: the instruction behind a replaced call is not looked at.\<close>

fun selected :: "(nat \<Rightarrow> il \<Rightarrow> bool) \<Rightarrow> nat \<Rightarrow> (ptr \<Rightarrow> il) \<Rightarrow> ptr list \<Rightarrow> ptr list" where
  "selected select previous_opcode code [] = []"
| "selected select previous_opcode code [p] = (if select previous_opcode (code p) then [p] else [])"
| "selected select previous_opcode code (p # q # ps) =
     (if select previous_opcode (code p) then p # selected select (fst (code q)) code ps
      else selected select (fst (code p)) code (q # ps))"

definition is_call :: "il \<Rightarrow> bool" where
  "is_call i \<longleftrightarrow> fst i = CEE_CALL \<or> fst i = CEE_CALLVIRT"

lemma selected_call: "site_selected env r prev i \<Longrightarrow> is_call i"
  by (auto simp: site_selected_def site_target_def is_call_def split: if_splits)

lemma selected_subset: "set (selected select prev code ps) \<subseteq> set ps"
  by (induction select prev code ps rule: selected.induct) auto

text \<open>The code after a pass: every instruction keeps its place; a selected call is a \<open>NOP\<close> with the new
  instructions behind it.\<close>

definition pass_result :: "'m site_env \<Rightarrow> MethodReplacement \<Rightarrow> u32 \<Rightarrow> ptr list \<Rightarrow> 'm ct_state \<Rightarrow> ptr list \<Rightarrow> ptr list \<Rightarrow> 'm ct_state \<Rightarrow> (ptr \<Rightarrow> ptr list) \<Rightarrow> bool" where
  "pass_result env r ref sel s as bs s' g \<longleftrightarrow>
     il_ring (rw s') (as @ concat (map (\<lambda>p. p # g p) bs))
     \<and> (\<forall>p \<in> set bs. if p \<in> set sel then node s' p = (CEE_NOP, snd (node s p)) \<and> replaced_code env r ref (node s p) (map (node s') (g p))
          else g p = [] \<and> node s' p = node s p)
     \<and> (\<forall>p \<in> set as. node s' p = node s p)
     \<and> m_pEH (rw s') = m_pEH (rw s) \<and> m_nEH (rw s') = m_nEH (rw s)"

lemma replacement_pass_end [simp]: "replacement_pass fuel env r m_IL modified cs = Inr (modified, cs)"
  by (simp add: replacement_pass.simps)

lemma replacement_pass_step:
  assumes "p \<noteq> m_IL" "replacement_pass (Suc n) env r p modified (c, s) = Inr res"
  obtains b q c' s' where "visit_site env r p (c, s) = Inr ((b, q), c', s')"
    "replacement_pass n env r (m_pNext (heap (rw s') q)) (modified \<or> b) (c', s') = Inr res"
  using assms that by (auto simp: replacement_pass.simps [of "Suc n"] res_simps)

text \<open>An unselected instruction is passed over.\<close>

lemma pass_kept:
  assumes ring: "il_ring (rw s) (as @ p # bs)" and same: "ct_wrapper s1 = ct_wrapper s"
    and rest: "pass_result env r ref sel s1 (as @ [p]) bs s' g" and sel: "p \<notin> set sel"
  shows "pass_result env r ref sel s as (p # bs) s' (g(p := []))"
proof -
  have p: "p \<notin> set bs" using ring by (simp add: il_ring_def)
  have n: "node s1 = node s" using same by (simp add: node_def fun_eq_iff)
  have "map (\<lambda>x. x # (g(p := [])) x) bs = map (\<lambda>x. x # g x) bs" using p by (intro map_cong) auto
  then have cc: "concat (map (\<lambda>x. x # (g(p := [])) x) (p # bs)) = p # concat (map (\<lambda>x. x # g x) bs)" by (simp only: list.map concat.simps) simp
  have old: "if x \<in> set sel then node s' x = (CEE_NOP, snd (node s x)) \<and> replaced_code env r ref (node s x) (map (node s') (g x))
      else g x = [] \<and> node s' x = node s x" if "x \<in> set bs" for x
    using that rest unfolding pass_result_def n by blast
  have new: "if x \<in> set sel then node s' x = (CEE_NOP, snd (node s x)) \<and> replaced_code env r ref (node s x) (map (node s') ((g(p := [])) x))
      else (g(p := [])) x = [] \<and> node s' x = node s x" if "x \<in> set (p # bs)" for x
  proof (cases "x = p")
    case True
    then show ?thesis using rest sel n by (simp add: pass_result_def)
  next
    case False
    then show ?thesis using old [of x] that by simp
  qed
  show ?thesis
    unfolding pass_result_def cc
  proof (intro conjI ballI)
    show "il_ring (rw s') (as @ p # concat (map (\<lambda>x. x # g x) bs))" using rest by (simp add: pass_result_def)
    show "if x \<in> set sel then node s' x = (CEE_NOP, snd (node s x)) \<and> replaced_code env r ref (node s x) (map (node s') ((g(p := [])) x))
      else (g(p := [])) x = [] \<and> node s' x = node s x" if "x \<in> set (p # bs)" for x by (rule new [OF that])
    show "node s' x = node s x" if "x \<in> set as" for x using that rest n by (simp add: pass_result_def)
  qed (use rest same in \<open>simp_all add: pass_result_def\<close>)
qed

lemma replacement_pass_known:
  assumes "wrapper_known r ref c" "il_ring (rw s) (as @ bs)" "length bs \<le> fuel" "pInstr = hd (bs @ [m_IL])"
    and "bs \<noteq> [] \<Longrightarrow> \<not> is_call (node s (last bs))" "prev = m_opcode (heap (rw s) (last (m_IL # as)))"
    and "\<And>p. p \<in> set bs \<Longrightarrow> node s p = code p"
    and "replacement_pass fuel env r pInstr modified (c, s) = Inr (modified', c', s')"
  shows "c' = c \<and> modified' = (modified \<or> selected (site_selected env r) prev code bs \<noteq> [])
    \<and> (\<exists>g. pass_result env r ref (selected (site_selected env r) prev code bs) s as bs s' g)"
  using assms
proof (induction "site_selected env r" prev code bs arbitrary: as s fuel pInstr modified rule: selected.induct)
  case (1 prev code)
  have "pass_result env r ref [] s' as [] s' (\<lambda>_. [])" if "il_ring (rw s') as" using that by (simp add: pass_result_def)
  with 1 show ?case by auto
next
  case (2 prev code p)
  then obtain n where n: "fuel = Suc n" by (cases fuel) auto
  have p: "p \<noteq> m_IL" "pInstr = p" using 2 by (auto simp: il_ring_def)
  from replacement_pass_step [OF p(1)] 2(8) n p(2) obtain b q c1 s1 where
    v: "visit_site env r p (c, s) = Inr ((b, q), c1, s1)" "replacement_pass n env r (m_pNext (heap (rw s1) q)) (modified \<or> b) (c1, s1) = Inr (modified', c', s')"
    by metis
  have no: "\<not> site_selected env r x (code p)" for x using 2(5) 2(7) [of p] selected_call [of env r x "code p"] by auto
  with visit_site_known [OF 2(1,2) v(1)] 2(7) have k: "c1 = c" "\<not> b" "q = p" "ct_wrapper s1 = ct_wrapper s" by auto
  then have "m_pNext (heap (rw s1) q) = m_IL" using prev_of(1) [OF 2(2)] by simp
  then have e: "modified' = modified" "c' = c" "s' = s1" using v(2) k by simp_all
  have "pass_result env r ref [] s1 (as @ [p]) [] s' (\<lambda>_. [])"
    using 2(2) k(4) e by (simp add: pass_result_def)
  from pass_kept [OF 2(2) k(4) this] show ?case using no e by auto
next
  case (3 prev code p q ps)
  note IH1 = "3.hyps"(1) and IH2 = "3.hyps"(2) and prems = "3.prems"
  obtain n where n: "fuel = Suc n" using prems(3) by (cases fuel) auto
  have p: "p \<noteq> m_IL" "pInstr = p" using prems(2,4) by (auto simp: il_ring_def)
  from replacement_pass_step [OF p(1)] prems(8) n p(2) obtain b q' c1 s1 where
    v: "visit_site env r p (c, s) = Inr ((b, q'), c1, s1)" "replacement_pass n env r (m_pNext (heap (rw s1) q')) (modified \<or> b) (c1, s1) = Inr (modified', c', s')"
    by metis
  note k = visit_site_known [OF prems(1,2) v(1)]
  have b: "b = site_selected env r prev (code p)" "c1 = c" using k prems(6,7) by simp_all
  show ?case
  proof (cases b)
    case False
    then have k': "q' = p" "ct_wrapper s1 = ct_wrapper s" using k by simp_all
    have nd: "node s1 = node s" using k'(2) by (simp add: node_def fun_eq_iff)
    have ring1: "il_ring (rw s1) ((as @ [p]) @ q # ps)" using prems(2) k'(2) by simp
    have nx: "m_pNext (heap (rw s1) q') = hd ((q # ps) @ [m_IL])" using prev_of(1) [OF prems(2)] k' by simp
    have cp: "node s p = code p" using prems(7) by simp
    have opc: "fst (code p) = m_opcode (heap (rw s1) (last (m_IL # as @ [p])))"
      unfolding cp [symmetric] using k'(2) by (simp add: node_def il_node_def)
    have last: "\<not> is_call (node s1 (last (q # ps)))" using prems(5) nd by simp
    have fuel: "length (q # ps) \<le> n" using prems(3) n by simp
    have cd: "node s1 x = code x" if "x \<in> set (q # ps)" for x using that prems(7) nd by simp
    have run: "replacement_pass n env r (m_pNext (heap (rw s1) q')) modified (c, s1) = Inr (modified', c', s')"
      using v(2) False b(2) by simp
    have nsel: "\<not> site_selected env r prev (code p)" using b False by simp
    from IH2 [OF nsel prems(1) ring1 fuel nx last opc cd run]
    obtain g where g: "c' = c" "modified' = (modified \<or> selected (site_selected env r) (fst (code p)) code (q # ps) \<noteq> [])"
      "pass_result env r ref (selected (site_selected env r) (fst (code p)) code (q # ps)) s1 (as @ [p]) (q # ps) s' g" by blast
    have "p \<notin> set (q # ps)" using prems(2) by (simp add: il_ring_def)
    then have "p \<notin> set (selected (site_selected env r) (fst (code p)) code (q # ps))" using selected_subset by blast
    from pass_kept [OF prems(2) k'(2) g(3) this] show ?thesis using g nsel by auto
  next
    case True
    then have q': "q' = q" using k by simp
    obtain xs where xs: "il_ring (rw s1) (as @ p # xs @ q # ps)" "node s1 p = (CEE_NOP, snd (node s p))"
        "replaced_code env r ref (node s p) (map (node s1) xs)" "\<forall>x \<in> set (as @ q # ps). node s1 x = node s x"
        "m_pEH (rw s1) = m_pEH (rw s)" "m_nEH (rw s1) = m_nEH (rw s)" using k True by auto
    have sel: "site_selected env r prev (code p)" using b True by simp
    let ?as = "as @ p # xs @ [q]"
    have ring1: "il_ring (rw s1) (?as @ ps)" using xs(1) by simp
    have nx: "m_pNext (heap (rw s1) q') = hd (ps @ [m_IL])" using prev_of(1) [of "rw s1" "as @ p # xs" q ps] xs(1) q' by simp
    have last: "\<not> is_call (node s1 (last ps))" if "ps \<noteq> []"
      using prems(5) xs(4) that by simp
    have nq: "node s1 q = code q" using prems(7) xs(4) by simp
    have opc: "fst (code q) = m_opcode (heap (rw s1) (last (m_IL # ?as)))"
      unfolding nq [symmetric] by (simp add: node_def il_node_def)
    have fuel: "length ps \<le> n" using prems(3) n by simp
    have cd: "node s1 x = code x" if "x \<in> set ps" for x using that prems(7) xs(4) by simp
    have run: "replacement_pass n env r (m_pNext (heap (rw s1) q')) True (c, s1) = Inr (modified', c', s')"
      using v(2) True b(2) by simp
    let ?sel = "selected (site_selected env r) (fst (code q)) code ps"
    from IH1 [OF sel prems(1) ring1 fuel nx last opc cd run]
    obtain g where g: "c' = c" "modified'" "pass_result env r ref ?sel s1 ?as ps s' g" by auto
    have dist: "distinct (as @ p # q # ps)" using prems(2) by (simp add: il_ring_def)
    have psel: "p \<notin> set ?sel" "q \<notin> set ?sel" using dist selected_subset [of "site_selected env r" _ code ps] by auto
    let ?g = "g(p := xs, q := [])"
    have "map (\<lambda>x. x # ?g x) ps = map (\<lambda>x. x # g x) ps" using dist by (intro map_cong) auto
    then have cc: "concat (map (\<lambda>x. x # ?g x) (p # q # ps)) = p # xs @ q # concat (map (\<lambda>x. x # g x) ps)"
      using dist by (simp only: list.map concat.simps) simp
    have rest: "il_ring (rw s') (?as @ concat (map (\<lambda>x. x # g x) ps))"
      "\<And>x. x \<in> set ps \<Longrightarrow> if x \<in> set ?sel then node s' x = (CEE_NOP, snd (node s1 x)) \<and> replaced_code env r ref (node s1 x) (map (node s') (g x))
          else g x = [] \<and> node s' x = node s1 x"
      "\<And>x. x \<in> set ?as \<Longrightarrow> node s' x = node s1 x" "m_pEH (rw s') = m_pEH (rw s1)" "m_nEH (rw s') = m_nEH (rw s1)"
      using g(3) unfolding pass_result_def by blast+
    have mx: "map (node s') xs = map (node s1) xs" using rest(3) by simp
    have "pass_result env r ref (p # ?sel) s as (p # q # ps) s' ?g"
      unfolding pass_result_def cc
    proof (intro conjI ballI)
      show "il_ring (rw s') (as @ p # xs @ q # concat (map (\<lambda>x. x # g x) ps))" using rest(1) by simp
      fix x assume x: "x \<in> set (p # q # ps)"
      show "if x \<in> set (p # ?sel) then node s' x = (CEE_NOP, snd (node s x)) \<and> replaced_code env r ref (node s x) (map (node s') (?g x))
          else ?g x = [] \<and> node s' x = node s x"
      proof (cases "x = p")
        case True
        have "replaced_code env r ref (node s p) (map (node s') xs)" unfolding mx by (rule xs(3))
        then show ?thesis using True xs(2) rest(3) [of p] dist by simp
      next
        case False
        show ?thesis
        proof (cases "x = q")
          case True
          then show ?thesis using rest(3) [of q] xs(4) dist psel(2) by simp
        next
          case False
          then have "x \<in> set ps" using x \<open>x \<noteq> p\<close> by simp
          then have "node s1 x = node s x" using xs(4) by simp
          from rest(2) [OF \<open>x \<in> set ps\<close>, unfolded this] show ?thesis using \<open>x \<noteq> p\<close> False by simp
        qed
      qed
    next
      fix x assume "x \<in> set as"
      then show "node s' x = node s x" using rest(3) [of x] xs(4) by simp
    qed (use rest(4,5) xs(5,6) in simp_all)
    then show ?thesis using g(1,2) sel by auto
  qed
qed

section \<open>What all passes keep\<close>

definition added :: "il \<Rightarrow> bool" where
  "added i \<longleftrightarrow> fst i \<in> {CEE_NOP, CEE_BOX, CEE_CALL, CEE_LDC_I8, CEE_UNBOX_ANY, CEE_LDC_I4, CEE_LDC_I4_S}
     \<or> (CEE_LDC_I4_M1 \<le> fst i \<and> fst i \<le> CEE_LDC_I4_0 + 8)"

text \<open>The instructions keep their order, a call may have become a \<open>NOP\<close>, and only straight-line
  instructions have been added; the exception clauses are the same.\<close>

definition sites_kept :: "'m ct_state \<Rightarrow> ptr list \<Rightarrow> 'm ct_state \<Rightarrow> ptr list \<Rightarrow> bool" where
  "sites_kept s ps s' ps' \<longleftrightarrow> il_ring (rw s') ps' \<and> subseq ps ps'
     \<and> (\<forall>p \<in> set ps. node s' p = node s p \<or> (is_call (node s p) \<and> node s' p = (CEE_NOP, snd (node s p))))
     \<and> (\<forall>p \<in> set ps' - set ps. added (node s' p))
     \<and> m_pEH (rw s') = m_pEH (rw s) \<and> m_nEH (rw s') = m_nEH (rw s)"

lemma added_LoadInt32: "added (LoadInt32_il v)"
  using LoadInt32_loads [of v] by (cases "LoadInt32_il v"; cases "snd (LoadInt32_il v)") (auto simp: added_def split: if_splits)

lemma site_code_added: "site_code ref tok mvid opc code \<Longrightarrow> i \<in> set code \<Longrightarrow> added i"
  using added_LoadInt32 by (auto simp: site_code_def) (simp_all add: added_def)

lemma sites_kept_refl: "il_ring (rw s) ps \<Longrightarrow> ct_wrapper s' = ct_wrapper s \<Longrightarrow> sites_kept s ps s' ps"
  by (simp add: sites_kept_def node_def)

lemma sites_kept_trans:
  assumes "sites_kept s ps s1 ps1" "sites_kept s1 ps1 s2 ps2"
  shows "sites_kept s ps s2 ps2"
proof -
  have sub: "set ps \<subseteq> set ps1" using assms(1) list_emb_set [of "(=)" ps ps1] by (auto simp: sites_kept_def)
  have nop: "\<not> is_call (CEE_NOP, a)" for a by (simp add: is_call_def)
  have "node s2 p = node s p \<or> (is_call (node s p) \<and> node s2 p = (CEE_NOP, snd (node s p)))" if "p \<in> set ps" for p
  proof -
    have "p \<in> set ps1" using that sub by blast
    then have "node s2 p = node s1 p \<or> (is_call (node s1 p) \<and> node s2 p = (CEE_NOP, snd (node s1 p)))"
      "node s1 p = node s p \<or> (is_call (node s p) \<and> node s1 p = (CEE_NOP, snd (node s p)))"
      using assms that unfolding sites_kept_def by blast+
    then show ?thesis using nop by auto
  qed
  moreover have "added (node s2 p)" if "p \<in> set ps2 - set ps" for p
  proof (cases "p \<in> set ps1")
    case True
    then have "node s2 p = node s1 p \<or> node s2 p = (CEE_NOP, snd (node s1 p))" "added (node s1 p)"
      using assms that unfolding sites_kept_def by blast+
    then show ?thesis by (auto simp: added_def)
  qed (use assms(2) that in \<open>auto simp: sites_kept_def\<close>)
  ultimately show ?thesis using assms unfolding sites_kept_def by (auto intro: subseq_order.trans)
qed

lemma ring_next_in:
  assumes "il_ring r ps" "q \<in> insert m_IL (set ps)"
  shows "m_pNext (heap r q) \<in> insert m_IL (set ps)"
proof (cases "q = m_IL")
  case True
  have "m_pNext (heap r m_IL) = hd (ps @ [m_IL])" using il_ring_cut(2) [of r "[]" ps "[]" m_IL "hd (ps @ [m_IL])" "tl (ps @ [m_IL])"] assms(1) by simp
  then show ?thesis using True by (cases ps) simp_all
next
  case False
  then obtain as bs where ps: "ps = as @ q # bs" using assms(2) by (auto dest: split_list)
  have "m_pNext (heap r q) = hd (bs @ [m_IL])" using prev_of(1) assms(1) unfolding ps by blast
  then show ?thesis unfolding ps by (cases bs) simp_all
qed

text \<open>The managed profiler is loaded and the caller is not shared.\<close>

definition caller_allowed :: "'m site_env \<Rightarrow> bool" where
  "caller_allowed env \<longleftrightarrow>
     ProfilerAssemblyIsLoadedIntoAppDomain (se_loaded_domain_neutral env) (se_loaded_app_domains env) (se_app_domain env)
     \<and> (se_is_desktop env \<longrightarrow> se_corlib_module_loaded env \<longrightarrow> se_app_domain env = se_corlib_app_domain env
       \<longrightarrow> se_instrument_domain_neutral env)"

lemma site_allowed_caller: "site_allowed env a b \<Longrightarrow> caller_allowed env"
  by (auto simp: caller_allowed_def site_allowed_def Let_def)

lemma visit_site_kept:
  assumes ring: "il_ring (rw s) ps" and p: "p \<in> set ps" and run: "visit_site env r p (c, s) = Inr ((b, q), c', s')"
  shows "\<exists>ps'. sites_kept s ps s' ps' \<and> q \<in> insert m_IL (set ps')" "b \<Longrightarrow> caller_allowed env" "\<not> b \<Longrightarrow> ct_wrapper s' = ct_wrapper s"
proof -
  obtain as bs where ps: "ps = as @ p # bs" using p by (auto dest: split_list)
  have dist: "distinct (m_IL # as @ p # bs)" using ring ps by (simp add: il_ring_def)
  from visit_site_code [OF ring [unfolded ps] run]
  have "(\<exists>ps'. sites_kept s ps s' ps' \<and> q \<in> insert m_IL (set ps')) \<and> (b \<longrightarrow> caller_allowed env) \<and> (\<not> b \<longrightarrow> ct_wrapper s' = ct_wrapper s)"
  proof (elim disjE conjE exE)
    assume "\<not> b" "q = p" "ct_wrapper s' = ct_wrapper s"
    with sites_kept_refl [OF ring, of s'] p show ?thesis by auto
  next
    fix target ref tok xs
    assume b: b and q: "q = hd (bs @ [m_IL])" and target: "site_target env r (node s p) = Inr (Some target)"
      and s': "il_ring (rw s') (as @ p # xs @ bs)" "node s' p = (CEE_NOP, snd (node s p))"
      "site_code ref tok (se_module_version_id env) (fst (node s p)) (map (node s') xs)"
      "\<forall>x \<in> set (as @ bs). node s' x = node s x" "m_pEH (rw s') = m_pEH (rw s)" "m_nEH (rw s') = m_nEH (rw s)"
      and allowed: "site_allowed env (m_opcode (heap (rw s) (last (m_IL # as)))) (fst (node s p))"
    have "is_call (node s p)" using target by (auto simp: site_target_def is_call_def split: if_splits)
    moreover have "subseq (as @ p # bs) (as @ p # xs @ bs)"
      by (intro list_emb_append_mono subseq_order.refl) (auto intro: list_emb_append2)
    moreover have "added (node s' x)" if "x \<in> set xs" for x using site_code_added [OF s'(3)] that by simp
    ultimately have "sites_kept s ps s' (as @ p # xs @ bs)"
      using s' unfolding sites_kept_def ps by auto
    moreover have "q \<in> insert m_IL (set (as @ p # xs @ bs))" using q by (cases bs) simp_all
    ultimately show ?thesis using site_allowed_caller [OF allowed] b by blast
  qed
  then show "\<exists>ps'. sites_kept s ps s' ps' \<and> q \<in> insert m_IL (set ps')" "b \<Longrightarrow> caller_allowed env" "\<not> b \<Longrightarrow> ct_wrapper s' = ct_wrapper s"
    by simp_all
qed

text \<open>What holds behind any number of turns.\<close>

definition passes_result :: "'m site_env \<Rightarrow> 'm ct_state \<Rightarrow> ptr list \<Rightarrow> bool \<Rightarrow> bool \<Rightarrow> 'm ct_state \<Rightarrow> bool" where
  "passes_result env s ps modified modified' s' \<longleftrightarrow> (\<exists>ps'. sites_kept s ps s' ps') \<and> (modified \<longrightarrow> modified')
     \<and> (modified' \<longrightarrow> modified \<or> caller_allowed env) \<and> (\<not> modified' \<longrightarrow> ct_wrapper s' = ct_wrapper s)"

lemma replacement_pass_kept:
  assumes "replacement_pass fuel env r p modified (c, s) = Inr (modified', c', s')" "il_ring (rw s) ps" "p \<in> insert m_IL (set ps)"
  shows "passes_result env s ps modified modified' s'"
  using assms
proof (induction fuel arbitrary: p modified c s ps)
  case 0
  then show ?case using sites_kept_refl by (fastforce simp: replacement_pass.simps passes_result_def split: if_splits)
next
  case (Suc n)
  show ?case
  proof (cases "p = m_IL")
    case True
    then show ?thesis using Suc.prems sites_kept_refl by (fastforce simp: passes_result_def)
  next
    case False
    obtain b q c1 s1 where v: "visit_site env r p (c, s) = Inr ((b, q), c1, s1)"
      and rest: "replacement_pass n env r (m_pNext (heap (rw s1) q)) (modified \<or> b) (c1, s1) = Inr (modified', c', s')"
      using replacement_pass_step [OF False Suc.prems(1)] by blast
    have p: "p \<in> set ps" using Suc.prems(3) False by simp
    obtain ps1 where ps1: "sites_kept s ps s1 ps1" "q \<in> insert m_IL (set ps1)"
      using visit_site_kept(1) [OF Suc.prems(2) p v] by blast
    have ring1: "il_ring (rw s1) ps1" using ps1(1) by (simp add: sites_kept_def)
    from Suc.IH [OF rest ring1 ring_next_in [OF ring1 ps1(2)]] have IH: "passes_result env s1 ps1 (modified \<or> b) modified' s'" .
    then show ?thesis
      using visit_site_kept(2,3) [OF Suc.prems(2) p v] sites_kept_trans [OF ps1(1)] unfolding passes_result_def by auto
  qed
qed

lemma replacement_passes_kept:
  assumes "replacement_passes env rs modified (c, s) = Inr (modified', c', s')" "il_ring (rw s) ps"
  shows "passes_result env s ps modified modified' s'"
  using assms
proof (induction rs arbitrary: modified c s ps)
  case Nil
  then show ?case using sites_kept_refl by (fastforce simp: passes_result_def)
next
  case (Cons r rs)
  let ?w = "wrapper_method r"
  show ?case
  proof (cases "action ?w \<noteq> WStr ''ReplaceTargetMethod'' \<or> IsFailedWrapperMemberKey c (get_method_cache_key ?w)")
    case True
    then have "replacement_passes env rs modified (c, s) = Inr (modified', c', s')" using Cons.prems(1) by simp
    from Cons.IH [OF this Cons.prems(2)] show ?thesis .
  next
    case False
    then obtain m1 c1 s1 where first: "replacement_pass (replacement_fuel s) env r (m_pNext (heap (rw s) m_IL)) modified (c, s) = Inr (m1, c1, s1)"
      and rest: "replacement_passes env rs m1 (c1, s1) = Inr (modified', c', s')"
      using Cons.prems(1) by (auto simp: res_simps)
    from replacement_pass_kept [OF first Cons.prems(2) ring_next_in [OF Cons.prems(2)]]
    have 1: "passes_result env s ps modified m1 s1" by simp
    then obtain ps1 where ps1: "sites_kept s ps s1 ps1" by (auto simp: passes_result_def)
    then have "il_ring (rw s1) ps1" by (simp add: sites_kept_def)
    from Cons.IH [OF rest this] 1 show ?thesis
      using sites_kept_trans [OF ps1] unfolding passes_result_def by auto
  qed
qed

section \<open>Insertions\<close>

text \<open>The references that \<open>InsertFirst\<close> replacements call, in the order of the replacements.\<close>

fun insertion_refs :: "'m site_env \<Rightarrow> MethodReplacement list \<Rightarrow> wrapper_caches \<times> 'm \<Rightarrow> u32 list \<times> wrapper_caches \<times> 'm" where
  "insertion_refs env [] cm = ([], cm)"
| "insertion_refs env (r # rs) cm =
     (let w = wrapper_method r in
      if action w = WStr ''ReplaceTargetMethod'' \<or> IsFailedWrapperMemberKey (fst cm) (get_method_cache_key w)
      then insertion_refs env rs cm
      else
        let ((ok, ref, _), cm) = GetWrapperMethodRef (se_builder env) (se_module env) r cm;
            (refs, cm) = insertion_refs env rs cm
        in (if ok \<and> action w = WStr ''InsertFirst'' then ref # refs else refs, cm))"

lemma insert_call:
  assumes "il_ring (rw s) qs" "p = hd (qs @ [m_IL])"
  shows "\<exists>x s1. bindS (set_position p) (\<lambda>_. bindS (wrapper_op (CallMember ref False)) (\<lambda>_. prev_instr p)) s = Inr (x, s1)
    \<and> il_ring (rw s1) (x # qs) \<and> node s1 x = call_il ref \<and> (\<forall>y \<in> set qs. node s1 y = node s y)
    \<and> m_pEH (rw s1) = m_pEH (rw s) \<and> m_nEH (rw s1) = m_nEH (rw s) \<and> ct_meta s1 = ct_meta s"
proof -
  let ?s = "s\<lparr>ct_wrapper := SetILPosition p (ct_wrapper s)\<rparr>"
  have at: "at ?s [] qs" using set_position_at(2) [of s "[]" qs p] assms by simp
  obtain x s1 where x: "wrapper_op (CallMember ref False) ?s = Inr (x, s1)" "ct_meta s1 = ct_meta s"
    by (cases "emit_before p (CEE_CALL, Arg32 ref) (rw s)")
      (auto simp: wrapper_op_def CallMember_def emit_def SetILPosition_def res_simps Let_def)
  from more_emitted(2) [OF x(1)] at have s1: "at s1 [x] qs" "node s1 x = call_il ref" "\<forall>y \<in> set qs. node s1 y = node ?s y"
    "m_pEH (rw s1) = m_pEH (rw ?s)" "m_nEH (rw s1) = m_nEH (rw ?s)" unfolding emitted_def by (fastforce, fastforce, fastforce, simp_all)
  have ring: "il_ring (rw s1) ([] @ x # qs)" using s1(1) by (simp add: at_def)
  have "m_pPrev (heap (rw s1) p) = x" using prev_of(2) [OF ring] assms(2) by simp
  then have "bindS (set_position p) (\<lambda>_. bindS (wrapper_op (CallMember ref False)) (\<lambda>_. prev_instr p)) s = Inr (x, s1)"
    using x(1) by (simp add: bindS_eq set_position_def prev_instr_def on_rewriter_eq)
  then show ?thesis using ring s1 x(2) by (auto simp: node_def SetILPosition_def)
qed

lemma insertions_code:
  assumes "il_ring (rw s) qs" "firstInstr = hd (qs @ [m_IL])" "insertion_refs env rs (c, ct_meta s) = (refs, c', m')"
  shows "\<exists>s' xs. insertions env rs firstInstr modified (c, s) = Inr (modified \<or> refs \<noteq> [], c', s') \<and> ct_meta s' = m'
    \<and> il_ring (rw s') (xs @ qs) \<and> map (node s') xs = map call_il (rev refs) \<and> (\<forall>y \<in> set qs. node s' y = node s y)
    \<and> m_pEH (rw s') = m_pEH (rw s) \<and> m_nEH (rw s') = m_nEH (rw s)"
  using assms
proof (induction rs arbitrary: qs firstInstr c s refs modified)
  case Nil
  then show ?case by (intro exI [of _ s] exI [of _ "[]"]) simp
next
  case (Cons r rs)
  let ?w = "wrapper_method r"
  show ?case
  proof (cases "action ?w = WStr ''ReplaceTargetMethod'' \<or> IsFailedWrapperMemberKey c (get_method_cache_key ?w)")
    case True
    then have "insertions env (r # rs) firstInstr modified (c, s) = insertions env rs firstInstr modified (c, s)" by (simp add: Let_def)
    moreover have "insertion_refs env rs (c, ct_meta s) = (refs, c', m')" using Cons.prems(3) True by (simp add: Let_def)
    ultimately show ?thesis using Cons.IH [OF Cons.prems(1,2)] by simp
  next
    case False
    obtain ok ref t c1 m1 where g: "GetWrapperMethodRef (se_builder env) (se_module env) r (c, ct_meta s) = ((ok, ref, t), c1, m1)"
      by (metis prod_cases3)
    let ?s = "s\<lparr>ct_meta := m1\<rparr>"
    have n: "node ?s y = node s y" for y by (simp add: node_def)
    obtain refs1 where refs1: "insertion_refs env rs (c1, m1) = (refs1, c', m')"
      "refs = (if ok \<and> action ?w = WStr ''InsertFirst'' then ref # refs1 else refs1)"
      using Cons.prems(3) False g by (auto simp: Let_def split: prod.splits)
    show ?thesis
    proof (cases "ok \<and> action ?w = WStr ''InsertFirst''")
      case skip: False
      then have "insertions env (r # rs) firstInstr modified (c, s) = insertions env rs firstInstr modified (c1, ?s)"
        using False g by (auto simp: Let_def)
      moreover have "il_ring (rw ?s) qs" "insertion_refs env rs (c1, ct_meta ?s) = (refs, c', m')"
        using Cons.prems(1) refs1 skip by auto
      note Cons.IH [OF this(1) Cons.prems(2) this(2), of modified]
      ultimately show ?thesis using n by simp
    next
      case ins: True
      have "il_ring (rw ?s) qs" using Cons.prems(1) by simp
      from insert_call [OF this Cons.prems(2), of ref] obtain x s1 where s1:
        "bindS (set_position firstInstr) (\<lambda>_. bindS (wrapper_op (CallMember ref False)) (\<lambda>_. prev_instr firstInstr)) ?s = Inr (x, s1)"
        "il_ring (rw s1) (x # qs)" "node s1 x = call_il ref" "\<forall>y \<in> set qs. node s1 y = node s y"
        "m_pEH (rw s1) = m_pEH (rw s)" "m_nEH (rw s1) = m_nEH (rw s)" "ct_meta s1 = m1" using n by auto
      have run: "insertions env (r # rs) firstInstr modified (c, s) = insertions env rs x True (c1, s1)"
        using False ins g s1(1) by (simp add: Let_def)
      have "x = hd ((x # qs) @ [m_IL])" "insertion_refs env rs (c1, ct_meta s1) = (refs1, c', m')" using refs1(1) s1(7) by simp_all
      from Cons.IH [OF s1(2) this, of True] obtain s' xs where s': "insertions env rs x True (c1, s1) = Inr (True, c', s')" "ct_meta s' = m'"
        "il_ring (rw s') (xs @ x # qs)" "map (node s') xs = map call_il (rev refs1)" "\<forall>y \<in> set (x # qs). node s' y = node s1 y"
        "m_pEH (rw s') = m_pEH (rw s1)" "m_nEH (rw s') = m_nEH (rw s1)" by auto
      have "map (node s') (xs @ [x]) = map call_il (rev refs)"
        using s'(4,5) s1(3) refs1(2) ins by (simp del: map_eq_conv)
      then show ?thesis
        using run s' s1(4-6) refs1(2) ins by (intro exI [of _ s'] exI [of _ "xs @ [x]"]) (simp del: map_append map_eq_conv)
    qed
  qed
qed

section \<open>The bound of a pass\<close>

text \<open>Unless the very last instruction is a call, the loop ends within the instructions there are: any
  larger bound gives the same result.\<close>

lemma replacement_pass_bound_raw:
  assumes "il_ring (rw s) (as @ bs)" "p = hd (bs @ [m_IL])" "bs \<noteq> [] \<Longrightarrow> \<not> is_call (node s (last bs))" "length bs \<le> n"
  shows "replacement_pass n env r p modified (c, s) = replacement_pass (length bs) env r p modified (c, s)"
  using assms
proof (induction "length bs" arbitrary: as bs c s p n modified rule: less_induct)
  case less
  show ?case
  proof (cases bs)
    case Nil
    then show ?thesis using less.prems(2) by simp
  next
    case (Cons q qs)
    obtain n' where n: "n = Suc n'" using less.prems(4) Cons by (cases n) auto
    have q: "p = q" "q \<noteq> m_IL" using less.prems(1,2) Cons by (auto simp: il_ring_def)
    have ring: "il_ring (rw s) (as @ q # qs)" using less.prems(1) Cons by simp
    have "bindE (visit_site env r p (c, s)) (\<lambda>((replaced, p), cs). replacement_pass n' env r (m_pNext (heap (rw (snd cs)) p)) (modified \<or> replaced) cs)
        = bindE (visit_site env r p (c, s)) (\<lambda>((replaced, p), cs). replacement_pass (length qs) env r (m_pNext (heap (rw (snd cs)) p)) (modified \<or> replaced) cs)"
    proof (cases "visit_site env r p (c, s)")
      case (Inr res)
      obtain b q' c1 s1 where res: "res = ((b, q'), c1, s1)" by (metis surj_pair)
      note v = visit_site_code [OF ring Inr [unfolded res q(1)]]
      have "replacement_pass n' env r (m_pNext (heap (rw s1) q')) (modified \<or> b) (c1, s1)
          = replacement_pass (length qs) env r (m_pNext (heap (rw s1) q')) (modified \<or> b) (c1, s1)"
      proof (cases b)
        case False
        then have k: "q' = q" "ct_wrapper s1 = ct_wrapper s" using v by auto
        have "il_ring (rw s1) ((as @ [q]) @ qs)" "m_pNext (heap (rw s1) q') = hd (qs @ [m_IL])"
          "qs \<noteq> [] \<Longrightarrow> \<not> is_call (node s1 (last qs))"
          using ring k prev_of(1) [OF ring] less.prems(3) Cons by (simp_all add: node_def)
        then show ?thesis using less.hyps [of qs s1 "as @ [q]" _ n' "modified \<or> b" c1] Cons less.prems(4) n by simp
      next
        case True
        then obtain target xs where t: "q' = hd (qs @ [m_IL])" "site_target env r (node s q) = Inr (Some target)"
          "il_ring (rw s1) (as @ q # xs @ qs)" "\<forall>x \<in> set (as @ qs). node s1 x = node s x" using v by blast
        have "is_call (node s q)" using t(2) by (auto simp: site_target_def is_call_def split: if_splits)
        then obtain y ys where ys: "qs = y # ys" using less.prems(3) Cons by (cases qs) auto
        have ring1: "il_ring (rw s1) ((as @ q # xs @ [y]) @ ys)" using t(3) ys by simp
        have nx: "m_pNext (heap (rw s1) q') = hd (ys @ [m_IL])" using prev_of(1) [of "rw s1" "as @ q # xs" y ys] t(1,3) ys by simp
        have la: "ys \<noteq> [] \<Longrightarrow> \<not> is_call (node s1 (last ys))" using less.prems(3) Cons ys t(4) by simp
        have "length ys < length bs" "length ys \<le> n'" "length ys \<le> length qs" using Cons ys n less.prems(4) by simp_all
        then show ?thesis
          using less.hyps [OF _ ring1 nx la, of n' "modified \<or> b" c1] less.hyps [OF _ ring1 nx la, of "length qs" "modified \<or> b" c1] by simp
      qed
      then show ?thesis using Inr res by simp
    qed simp
    then show ?thesis
      using q n Cons by (simp add: replacement_pass.simps [of "Suc n'"] replacement_pass.simps [of "Suc (length qs)"])
  qed
qed

end
