(* ===== verification/CallSiteTheorems.thy ===== *)
theory CallSiteTheorems
  imports CallSiteRewrite
begin

text \<open>
  The properties of the rewriting of call sites: which last arguments are boxed, the code after a pass,
  the bound of a pass, and the bodies handed to the CLR; and what the rewriting does that it should not.
\<close>

section \<open>Which last arguments are boxed\<close>

lemma CorSigUncompressToken_ref_eq:
  assumes "CorSigUncompressToken p = Inr (n, tk)" "n \<noteq> ULONG_MAX"
  shows "CorSigUncompressToken_ref p = Inr (tk, drop (unat n) p)"
  using assms
  by (auto simp: CorSigUncompressToken_def CorSigUncompressToken_ref_def CorSigUncompressData_def CorSigUncompressData_len_def
      CorSigUncompressData_ref_def CorSigUncompressBigData_def res_simps split: list.splits if_splits)

text \<open>The types that \<open>ParseType\<close> accepts: native integers are not among them.\<close>

fun parsed_type :: "clr_type \<Rightarrow> bool" where
  "parsed_type (Prim b) = (b \<in> set simple_element_types)"
| "parsed_type (Named vt tk) = ClrSig.type_token tk"
| "parsed_type (SzArray t) = parsed_type t"
| "parsed_type (Inst vt tk ts) = (ClrSig.type_token tk \<and> length ts \<le> 0x1FFFFFFF \<and> list_all parsed_type ts)"
| "parsed_type (TVar n) = (n \<le> 0x1FFFFFFF)"
| "parsed_type (MVar n) = (n \<le> 0x1FFFFFFF)"

lemma encode_type_TypeSig: "parsed_type t \<Longrightarrow> TypeSig (encode_type t)"
proof (induction t)
  case (Prim b)
  then show ?case by (simp add: simple)
next
  case (Named vt tk)
  then obtain bs where "encode_named vt tk = named_head vt # bs" "is_token bs" using encode_named_word [of tk vt] by auto
  then show ?case by (cases vt) (auto intro: valuetype class_ref)
next
  case (SzArray t)
  have "TypeSig (ELEMENT_TYPE_SZARRAY # [] @ encode_type t)" using SzArray by (intro szarray) (auto intro: CustomModsSig.none)
  then show ?case by simp
next
  case (Inst vt tk ts)
  then obtain bs where bs: "encode_named vt tk = named_head vt # bs" "is_token bs" using encode_named_word [of tk vt] by auto
  have n: "is_number (encode_number (of_nat (length ts))) (of_nat (length ts))" "unat (of_nat (length ts) :: u32) = length ts"
    using Inst.prems by (auto intro!: encode_number_word(1) simp: unat_of_nat word_le_nat_alt)
  have "\<And>t. t \<in> set ts \<Longrightarrow> TypeSig (encode_type t)" using Inst by (auto simp: list_all_iff)
  then have "TypesSig (length ts) (concat (map encode_type ts))"
    by (induction ts) (auto intro: types_none types_more)
  then have "TypeSig (ELEMENT_TYPE_GENERICINST # named_head vt # bs @ encode_number (of_nat (length ts)) @ concat (map encode_type ts))"
    using bs(2) n by (intro genericinst) auto
  then show ?case using bs(1) by simp
next
  case (TVar n)
  then show ?case by (auto intro!: var encode_number_word(1))
next
  case (MVar n)
  then show ?case by (auto intro!: mvar encode_number_word(1))
qed

lemma ParseType_encoded: "parsed_type t \<Longrightarrow> ParseType (encode_type t @ q) = Inr q"
  using parse_complete(1) [OF encode_type_TypeSig] by simp

lemma try_type_encoded: "parsed_type t \<Longrightarrow> try_type (encode_type t @ q) = ret (Some q)"
  by (simp add: try_type_def ParseType_encoded lift_def ret_def)

lemma skip_types_encoded:
  "list_all parsed_type ts \<Longrightarrow> skip_types (length ts) (concat (map encode_type ts) @ q) = ret (Some q)"
  by (induction ts) (auto simp: try_type_encoded bindS_def ret_def)

text \<open>What the boxing is meant to do, on the type of the last argument.\<close>

definition boxed_argument :: "'m site_env \<Rightarrow> clr_type \<Rightarrow> (unit, 'm) ct" where
  "boxed_argument env t =
     (let nm = bare_name (GetTypeInfo (se_fuel env) (se_import env)) in
      case t of
        Named vt tk \<Rightarrow>
          if vt \<and> nm tk = Some (WStr ''System.Threading.CancellationToken'') then box_token tk else ret ()
      | Inst vt tk ts \<Rightarrow>
          if vt \<and> nm tk = Some (WStr ''System.ReadOnlyMemory`1'') then
            bindS (emit_call (clr_GetTokenFromTypeSpec (mb_emit (se_builder env)) (encode_type t)))
              (\<lambda>(_, out). box_token (out_or (se_junk env) out))
          else ret ()
      | _ \<Rightarrow> ret ())"

fun token_known :: "'m site_env \<Rightarrow> clr_type \<Rightarrow> bool" where
  "token_known env (Named vt tk) = (bare_name (GetTypeInfo (se_fuel env) (se_import env)) tk \<noteq> None)"
| "token_known env (Inst vt tk ts) = (bare_name (GetTypeInfo (se_fuel env) (se_import env)) tk \<noteq> None)"
| "token_known env _ = True"

lemma encoded_token:
  assumes "ClrSig.type_token tk"
  obtains bs where "encode_named vt tk = named_head vt # bs" "\<And>q. CorSigUncompressToken_ref (bs @ q) = Inr (tk, q)"
proof -
  obtain bs where bs: "encode_named vt tk = named_head vt # bs" "\<forall>q. CorSigUncompressToken (bs @ q) = Inr (of_nat (length bs), tk)"
      "unat (of_nat (length bs) :: u32) = length bs" "is_token bs"
    using encode_named_word [OF assms, of vt] by blast
  have "(of_nat (length bs) :: u32) \<noteq> ULONG_MAX"
  proof -
    obtain v n where "CorSigUncompressData bs = Inr (n, v)" "n \<noteq> ULONG_MAX" "unat n = length bs"
      using bs(4) by (auto simp: is_token_def is_number_def)
    then show ?thesis by (metis word_of_nat_eq_iff unsigned_word_eqI word_unat_eq_iff bs(3))
  qed
  then have "CorSigUncompressToken_ref (bs @ q) = Inr (tk, q)" for q
    using CorSigUncompressToken_ref_eq [of "bs @ q"] bs(2,3) by simp
  with bs(1) show thesis by (rule that)
qed

lemma box_named:
  assumes "ClrSig.type_token tk" "bare_name (GetTypeInfo (se_fuel env) (se_import env)) tk \<noteq> None" "b \<noteq> ELEMENT_TYPE_GENERICINST"
  shows "bindS (box_cancellation_token env (encode_named vt tk @ b # q)) (box_read_only_memory env) s = boxed_argument env (Named vt tk) s"
proof -
  obtain bs where bs: "encode_named vt tk = named_head vt # bs" "\<And>q. CorSigUncompressToken_ref (bs @ q) = Inr (tk, q)"
    using encoded_token [OF assms(1)] by blast
  obtain ty where ty: "GetTypeInfo (se_fuel env) (se_import env) tk = Inr ty" using assms(2) by (auto simp: bare_name_def split: sum.splits)
  have memory: "box_read_only_memory env (c # r) = ret ()" if "c \<noteq> ELEMENT_TYPE_GENERICINST" for c r
    using that by (simp add: box_read_only_memory_def read_byte_def lift_def bindS_def ret_def)
  show ?thesis
  proof (cases vt)
    case False
    then show ?thesis
      using bs(1) memory [of ELEMENT_TYPE_CLASS]
      by (simp add: box_cancellation_token_def read_byte_def lift_def bindS_def ret_def boxed_argument_def)
  next
    case True
    then show ?thesis
      using bs ty memory [OF assms(3)]
      by (simp add: box_cancellation_token_def read_byte_def from_sig_def lift_def bindS_def ret_def boxed_argument_def bare_name_def
          box_token_def split: prod.split) (cases "wrapper_op (Box tk) s"; simp split: prod.split)
  qed
qed

lemma box_inst:
  assumes "parsed_type (Inst vt tk ts)" "bare_name (GetTypeInfo (se_fuel env) (se_import env)) tk \<noteq> None"
  shows "bindS (box_cancellation_token env (encode_type (Inst vt tk ts) @ q)) (box_read_only_memory env) s
    = boxed_argument env (Inst vt tk ts) s"
proof -
  have tok: "ClrSig.type_token tk" using assms(1) by simp
  obtain bs where bs: "encode_named vt tk = named_head vt # bs" "\<And>q. CorSigUncompressToken_ref (bs @ q) = Inr (tk, q)"
    using encoded_token [OF tok] by blast
  obtain ty where ty: "GetTypeInfo (se_fuel env) (se_import env) tk = Inr ty" using assms(2) by (auto simp: bare_name_def split: sum.splits)
  let ?e = "encode_type (Inst vt tk ts)"
  have hd: "?e = ELEMENT_TYPE_GENERICINST # named_head vt # bs @ encode_number (of_nat (length ts)) @ concat (map encode_type ts)"
    using bs(1) by simp
  have "box_cancellation_token env (?e @ q) = ret (?e @ q)"
    unfolding hd by (simp add: box_cancellation_token_def read_byte_def lift_def bindS_def ret_def)
  moreover have "box_read_only_memory env (?e @ q) s = boxed_argument env (Inst vt tk ts) s"
  proof (cases vt)
    case False
    then show ?thesis
      unfolding hd by (simp add: box_read_only_memory_def read_byte_def lift_def bindS_def ret_def boxed_argument_def)
  next
    case True
    have "box_read_only_memory env (?e @ q) s = (if ti_name ty = WStr ''System.ReadOnlyMemory`1'' then
        bindS (try_type (?e @ q)) (\<lambda>p_end_byte. case p_end_byte of None \<Rightarrow> ret ()
         | Some r \<Rightarrow> bindS (emit_call (clr_GetTokenFromTypeSpec (mb_emit (se_builder env)) (take (length (?e @ q) - length r) (?e @ q))))
             (\<lambda>(_, out). box_token (out_or (se_junk env) out))) s else ret () s)"
      unfolding hd box_read_only_memory_def using True bs(2) ty
      by (simp add: read_byte_def from_sig_def lift_def bindS_def ret_def)
    also have "\<dots> = boxed_argument env (Inst vt tk ts) s"
      unfolding try_type_encoded [OF assms(1)]
      using True ty by (simp add: boxed_argument_def bare_name_def bindS_def ret_def del: encode_type.simps)
    finally show ?thesis .
  qed
  ultimately show ?thesis by (simp add: bindS_def ret_def del: encode_type.simps)
qed

lemma box_type:
  assumes "parsed_type t" "token_known env t" "b \<noteq> ELEMENT_TYPE_GENERICINST"
  shows "bindS (box_cancellation_token env (encode_type t @ b # q)) (box_read_only_memory env) s = boxed_argument env t s"
proof -
  have *: "bindS (box_cancellation_token env (c # r)) (box_read_only_memory env) s = ret () s"
    if "c \<noteq> ELEMENT_TYPE_VALUETYPE" "c \<noteq> ELEMENT_TYPE_GENERICINST" for c r
    using that by (simp add: box_cancellation_token_def box_read_only_memory_def read_byte_def lift_def bindS_def ret_def)
  show ?thesis
  proof (cases t)
    case (Prim c)
    then show ?thesis using assms(1) * [of c] by (auto simp: boxed_argument_def simple_element_types_def)
  next
    case (Named vt tk)
    then show ?thesis using assms box_named [of tk env b vt q s] by simp
  next
    case (Inst vt tk ts)
    then show ?thesis using assms box_inst [of vt tk ts env "b # q" s] by (simp del: encode_type.simps)
  qed (use * in \<open>auto simp: boxed_argument_def\<close>)
qed

lemma box_last_argument_run:
  fixes conv generic_count :: byte
  assumes sig: "fi_signature target = site_signature conv generic_count r params"
    and types: "list_all parsed_type (r # params)" "length params < 256"
      "conv AND IMAGE_CEE_CS_CALLCONV_GENERIC = 0 \<or> generic_count \<noteq> 0"
    and last: "token_known env (last (r # params))" and behind: "se_behind env = b # q" "b \<noteq> ELEMENT_TYPE_GENERICINST"
  shows "box_last_argument env target s = boxed_argument env (last (r # params)) s"
proof -
  let ?data = "site_signature conv generic_count r params"
  let ?pre = "conv # (if conv AND IMAGE_CEE_CS_CALLCONV_GENERIC \<noteq> 0 then [generic_count] else []) @ [of_nat (length params)]"
  obtain g n where g: "NumberOfTypeArguments ?data = Inr g" "NumberOfArguments ?data = Inr n" "unat n = length params"
    "(if g > 0 then 3 else 2) = (if conv AND IMAGE_CEE_CS_CALLCONV_GENERIC \<noteq> 0 then 3 else 2 :: nat)"
    using site_signature_counts [OF types(2), of conv generic_count r] types(3) by blast
  obtain ts t where ts: "r # params = ts @ [t]" by (metis list.distinct(1) rev_exhaust)
  then have l: "length params = length ts" "last (r # params) = t" by (metis Suc_inject length_Cons length_append_singleton, simp)
  have e: "?data = ?pre @ concat (map encode_type (r # params))" by (simp add: site_signature_def)
  obtain c1 c2 where c: "encode_type r = c1 # c2" using encode_type_nonempty [of r] by (cases "encode_type r") auto
  have "drop (IndexOfReturnType ?data) ?data = concat (map encode_type (r # params))"
    using c by (simp add: IndexOfReturnType_def site_signature_def CallingConvention_def)
  then have d: "drop (IndexOfReturnType ?data) ?data @ se_behind env = concat (map encode_type ts) @ encode_type t @ b # q"
    using ts behind(1) by simp
  have all: "list_all parsed_type ts" "parsed_type t" using types(1) unfolding ts by simp_all
  have "box_last_argument env target s
      = bindS (skip_types (length ts) (concat (map encode_type ts) @ encode_type t @ b # q)) (\<lambda>p. case p of None \<Rightarrow> ret ()
        | Some p \<Rightarrow> bindS (box_cancellation_token env p) (box_read_only_memory env)) s"
    unfolding box_last_argument_def sig g(2) d [symmetric] using g(3) l(1) by (simp add: bindS_def lift_def)
  also have "\<dots> = bindS (box_cancellation_token env (encode_type t @ b # q)) (box_read_only_memory env) s"
    unfolding skip_types_encoded [OF all(1)] by (simp add: bindS_def ret_def)
  also have "\<dots> = boxed_argument env t s" using box_type [OF all(2)] last behind(2) l(2) by simp
  finally show ?thesis using l(2) by simp
qed

section \<open>A method with two calls in a row\<close>

definition demo_calls_rewriter :: ILRewriter where
  "demo_calls_rewriter = demo_memory\<lparr>fresh := 4, m_nInstrs := 3,
     heap := (\<lambda>_. zero_instr)(0 := demo_node 1 3 0 Zeroed, 1 := demo_node 2 0 CEE_CALL (Arg32 0x06000001),
       2 := demo_node 3 1 CEE_CALL (Arg32 0x06000001), 3 := demo_node 0 2 CEE_RET Zeroed)\<rparr>"

definition demo_calls_state :: "unit ct_state" where
  "demo_calls_state = demo_ready\<lparr>ct_wrapper := ILRewriterWrapper_new demo_calls_rewriter\<rparr>"

definition demo_site_env :: "unit site_env" where
  "demo_site_env = \<lparr>se_builder = demo_builder, se_module = Some 1, se_import = demo_import, se_fuel = 4, se_junk = 0,
     se_behind = [0], se_loaded_domain_neutral = True, se_loaded_app_domains = {}, se_app_domain = 1, se_is_desktop = False,
     se_corlib_module_loaded = True, se_corlib_app_domain = 1, se_instrument_domain_neutral = False,
     se_module_version_id = 0x1122\<rparr>"

definition demo_call_replacement :: MethodReplacement where
  "demo_call_replacement = \<lparr>caller_method = MethodReference_default,
     target_method = MethodReference_default\<lparr>type_name := WStr ''Inner'', method_name := WStr ''Run'',
       signature_types := [WStr ''System.Void'', WStr ''_'']\<rparr>,
     wrapper_method = MethodReference_default\<lparr>type_name := WStr ''Demo.Wrapper'', method_name := WStr ''Run'',
       action := WStr ''ReplaceTargetMethod'',
       method_signature := [0x00, 0x04, ELEMENT_TYPE_VOID, ELEMENT_TYPE_I4, ELEMENT_TYPE_I4, ELEMENT_TYPE_I4, ELEMENT_TYPE_I8]\<rparr>\<rparr>"

definition demo_call_caches :: wrapper_caches where
  "demo_call_caches = SetWrapperMemberRef (get_method_cache_key (wrapper_method demo_call_replacement)) 0x0A000009 wrapper_caches_new"

lemma demo_calls_ring: "il_ring (rw demo_calls_state) [1, 2, 3]"
  by (simp add: demo_calls_state_def ILRewriterWrapper_new_def il_ring_def demo_calls_rewriter_def demo_node_def)

lemma demo_known: "wrapper_known demo_call_replacement 0x0A000009 demo_call_caches"
  by (simp add: wrapper_known_def demo_call_caches_def TryGetWrapperMemberRef_def SetWrapperMemberRef_def)

definition demo_call_info :: FunctionInfo where
  "demo_call_info = \<lparr>fi_id = 0x06000001, fi_name = WStr ''Run'',
     fi_type = the (case GetTypeInfo 3 demo_import 0x02000003 of Inr t \<Rightarrow> Some t | _ \<Rightarrow> None), fi_is_generic = False,
     fi_signature = [0x00, 0x01, ELEMENT_TYPE_VOID, ELEMENT_TYPE_I4], fi_function_spec_signature = [], fi_method_def_id = 0,
     fi_method_signature = FunctionMethodSignature_new [0x00, 0x01, ELEMENT_TYPE_VOID, ELEMENT_TYPE_I4]\<rparr>"

lemma demo_call_function: "GetFunctionInfo 4 demo_import 0x06000001 = Inr demo_call_info" "ti_name (fi_type demo_call_info) = WStr ''Inner''"
proof -
  have 4: "(4 :: nat) = Suc (Suc (Suc (Suc 0)))" "(3 :: nat) = Suc (Suc (Suc 0))" by simp_all
  show "GetFunctionInfo 4 demo_import 0x06000001 = Inr demo_call_info" "ti_name (fi_type demo_call_info) = WStr ''Inner''"
    unfolding 4 demo_call_info_def
    by (simp_all add: GetFunctionInfo_body_def GetTypeInfo_body_def demo_tokens_types Let_def GetSignatureByteRepresentation_def
        shared_type_def type_result_def value_type_base_def demo_import_def FAILED_def FunctionMethodSignature_new_def)
qed

lemma demo_call_target:
  "site_target demo_site_env demo_call_replacement (CEE_CALL, Arg32 0x06000001) = Inr (Some demo_call_info)"
  using demo_call_function(2)
  by (simp add: site_target_def demo_site_env_def demo_call_function demo_call_replacement_def FunctionInfo_IsValid_def
      demo_call_info_def NumberOfArguments_def data_at_def CallingConvention_def IsInstanceMethod_def Let_def)

lemma demo_call_matches: "site_matches demo_site_env demo_call_replacement demo_call_info = Inr True"
proof -
  have "TryParseSignatureTypes 4 demo_import 0 [0x00, 0x01, ELEMENT_TYPE_VOID, ELEMENT_TYPE_I4]
      = Inr (Some [WStr ''System.Void'', WStr ''System.Int32''])"
    by code_simp
  then show ?thesis
    by (simp add: site_matches_def demo_site_env_def demo_call_info_def demo_call_replacement_def types_match_def)
qed

lemma demo_call_allowed: "site_allowed demo_site_env a CEE_CALL"
  by (simp add: site_allowed_def demo_site_env_def ProfilerAssemblyIsLoadedIntoAppDomain_def)

lemma demo_call_selected: "site_selected demo_site_env demo_call_replacement CEE_NOP (CEE_CALL, Arg32 0x06000001)"
  by (simp add: site_selected_def demo_call_target demo_call_matches demo_call_allowed) (simp add: site_arity_def demo_call_info_def)

lemma demo_not_selected: "\<not> is_call i \<Longrightarrow> site_target env r i = Inr None"
  by (simp add: site_target_def is_call_def)

lemma demo_boxes: "box_last_argument demo_site_env demo_call_info s = Inr ((), s)"
proof -
  have "fi_signature demo_call_info = site_signature 0 0 (Prim ELEMENT_TYPE_VOID) [Prim ELEMENT_TYPE_I4]"
    by (simp add: demo_call_info_def site_signature_def)
  from box_last_argument_run [OF this, of demo_site_env 0 "[]" s] show ?thesis
    by (simp add: simple_element_types_def demo_site_env_def boxed_argument_def ret_def)
qed

lemma demo_no_unbox: "unbox_return_value demo_site_env demo_call_replacement target s = Inr ((), s)"
  by (simp add: unbox_return_value_def demo_call_replacement_def ReturnTypeIsObject_def data_at_def CallingConvention_def
      lift_def bindS_def ret_def)

lemma demo_replace: "\<exists>q s'. replace_site demo_site_env demo_call_replacement demo_call_info ref tok p s = Inr (q, s')"
  by (simp add: replace_site_def bindS_eq set_position_def on_rewriter_eq next_instr_def demo_boxes prev_instr_def demo_no_unbox
      one_instruction LoadInt64_def op_run SetILPosition_def)

lemma demo_visit:
  "\<exists>q s'. visit_site demo_site_env demo_call_replacement 1 (demo_call_caches, demo_calls_state) = Inr ((True, q), demo_call_caches, s')"
proof -
  let ?s = "demo_calls_state"
  have i: "m_opcode (heap (rw ?s) 1) = CEE_CALL" "m_arg (heap (rw ?s) 1) = Arg32 0x06000001"
    by (simp_all add: demo_calls_state_def ILRewriterWrapper_new_def demo_calls_rewriter_def demo_node_def)
  have ref: "site_reference demo_site_env demo_call_replacement demo_call_info (demo_call_caches, ?s)
      = Inr (Some (0x0A000009, 0x06000001), demo_call_caches, ?s)"
    using demo_known by (simp add: site_reference_def wrapper_known_def GetWrapperMethodRef_def Let_def demo_call_info_def)
  obtain q s' where "replace_site demo_site_env demo_call_replacement demo_call_info 0x0A000009 0x06000001 1 ?s = Inr (q, s')"
    using demo_replace by blast
  then show ?thesis by (simp add: visit_site_def Let_def i demo_call_target ref demo_call_matches demo_call_allowed del: One_nat_def)
qed

lemma demo_pass: "\<exists>c' s'. replacement_pass 3 demo_site_env demo_call_replacement 1 False (demo_call_caches, demo_calls_state) = Inr (True, c', s')"
proof -
  obtain q s' where v: "visit_site demo_site_env demo_call_replacement 1 (demo_call_caches, demo_calls_state) = Inr ((True, q), demo_call_caches, s')"
    using demo_visit by blast
  have "il_ring (rw demo_calls_state) ([] @ 1 # [2, 3])" using demo_calls_ring by simp
  from visit_site_known [OF demo_known this v] obtain xs where s': "q = 2" "il_ring (rw s') ([] @ 1 # xs @ [2, 3])"
    "node s' 3 = node demo_calls_state 3" by auto
  have n: "m_pNext (heap (rw s') 2) = 3" "m_pNext (heap (rw s') 3) = m_IL"
    using prev_of(1) [of "rw s'" "1 # xs" 2 "[3]"] prev_of(1) [of "rw s'" "1 # xs @ [2]" 3 "[]"] s'(2) by simp_all
  have "\<not> is_call (node s' 3)"
    unfolding s'(3) by (simp add: is_call_def node_def il_node_def demo_calls_state_def ILRewriterWrapper_new_def demo_calls_rewriter_def demo_node_def)
  then have v3: "visit_site demo_site_env demo_call_replacement 3 (demo_call_caches, s') = Inr ((False, 3), demo_call_caches, s')"
    using demo_not_selected [of "node s' 3" demo_site_env demo_call_replacement]
    by (simp add: visit_site_def Let_def node_def il_node_def)
  have "replacement_pass (Suc (Suc (Suc 0))) demo_site_env demo_call_replacement 1 False (demo_call_caches, demo_calls_state)
      = Inr (True, demo_call_caches, s')"
    using v v3 n s'(1) by (simp add: replacement_pass.simps [of "Suc n" for n] del: One_nat_def)
  then show ?thesis unfolding numeral_3_eq_3 by blast
qed

section \<open>The bodies handed to the CLR\<close>

text \<open>What becomes of a rewritten method: the body, or the failure of \<open>Export\<close>.\<close>

definition exported :: "body_env \<Rightarrow> ILRewriter \<Rightarrow> wrapper_caches \<times> 'm \<Rightarrow> hr + ((hr + byte list option) \<times> wrapper_caches \<times> 'm)" where
  "exported be rewriter cm = (case Export (be_new be) (be_alloc be) (be_set_body be) rewriter of
     Inl hr \<Rightarrow> if failure_code hr then Inr (Inl hr, cm) else Inl hr
   | Inr (body, _) \<Rightarrow> Inr (Inr (Some body), cm))"

lemma rewrite_sites_run:
  assumes "Import (be_body be) (ILRewriter_new (be_junk be)) = Inr rewriter"
    and "loop (c, \<lparr>ct_tokens = tokens, ct_cor = cor, ct_meta = m, ct_wrapper = ILRewriterWrapper_new rewriter\<rparr>) = Inr (modified, c', s')"
  shows "rewrite_sites be loop cor tokens (c, m)
    = (if modified then exported be (rw s') (c', ct_meta s') else Inr (Inr None, c', ct_meta s'))"
  using assms by (auto simp: rewrite_sites_def exported_def split: sum.split prod.split)

section \<open>Properties\<close>

text \<open>C15. One pass of a replacement whose wrapper can be referred to, over a method whose last instruction
  is not a call, keeps every instruction in its place: an instruction that is not selected is as
  before, and a selected call is a NOP with the boxing, the three added arguments, the call of the
  wrapper and the unboxing behind it. Selected is a call of the target whose types match, unless the
  call right in front of it has been replaced.\<close>

theorem replacement_pass_code:
  assumes "wrapper_known r ref c" "il_ring (rw s) ps" "length ps \<le> fuel" "ps = [] \<or> \<not> is_call (node s (last ps))"
    and "replacement_pass fuel env r (hd (ps @ [m_IL])) modified (c, s) = Inr (modified', c', s')"
  shows "let sel = selected (site_selected env r) (m_opcode (heap (rw s) m_IL)) (node s) ps in
    c' = c \<and> modified' = (modified \<or> sel \<noteq> []) \<and> (\<exists>g. pass_result env r ref sel s [] ps s' g)"
proof -
  have "il_ring (rw s) ([] @ ps)" using assms(2) by simp
  moreover have "ps \<noteq> [] \<Longrightarrow> \<not> is_call (node s (last ps))" using assms(4) by blast
  ultimately show ?thesis
    using replacement_pass_known [OF assms(1) _ assms(3) refl _ refl _ assms(5), of "[]" "node s"] by (simp add: Let_def)
qed

text \<open>Of two calls in a row the second one is not replaced.\<close>

theorem replacement_pass_code_witness:
  "\<exists>c' s' g. replacement_pass 3 demo_site_env demo_call_replacement 1 False (demo_call_caches, demo_calls_state) = Inr (True, c', s')
    \<and> pass_result demo_site_env demo_call_replacement 0x0A000009 [1] demo_calls_state [] [1, 2, 3] s' g"
proof -
  obtain c' s' where run: "replacement_pass 3 demo_site_env demo_call_replacement 1 False (demo_call_caches, demo_calls_state) = Inr (True, c', s')"
    using demo_pass by blast
  have n: "node demo_calls_state 1 = (CEE_CALL, Arg32 0x06000001)" "node demo_calls_state 3 = (CEE_RET, Zeroed)"
    "m_opcode (heap (rw demo_calls_state) m_IL) = CEE_NOP"
    by (simp_all add: node_def il_node_def demo_calls_state_def ILRewriterWrapper_new_def demo_calls_rewriter_def demo_node_def)
  have ret: "\<not> is_call (CEE_RET, Zeroed)" by (simp add: is_call_def)
  have "selected (site_selected demo_site_env demo_call_replacement) CEE_NOP (node demo_calls_state) [1, 2, 3] = [1]"
    using demo_call_selected ret selected_call [of demo_site_env demo_call_replacement _ "(CEE_RET, Zeroed)"]
    by (auto simp: n simp del: One_nat_def)
  moreover have "replacement_pass 3 demo_site_env demo_call_replacement (hd ([1, 2, 3] @ [m_IL])) False (demo_call_caches, demo_calls_state)
      = Inr (True, c', s')" using run by simp
  note replacement_pass_code [OF demo_known demo_calls_ring _ _ this, simplified n Let_def]
  ultimately show ?thesis using run n ret by (auto simp del: One_nat_def)
qed




text \<open>C17. ProcessInsertionCalls puts the calls of the InsertFirst replacements in front of the imported
  method, in the reverse of their order, and hands over what Export makes of it; with nothing to
  insert it hands over no body. It always returns when Export does.\<close>

theorem ProcessInsertionCalls_body:
  assumes "be_body be = Inr d" "GetCodeSize d \<le> length (Code d)" "GetCodeSize d + 10 < 4294967296" "GetMaxStack d < 4294967296"
    and "Import (Inr d) (ILRewriter_new (be_junk be)) = Inr rewriter"
    and "insertion_refs env replacements (c, m) = (refs, c', m')"
  shows "\<exists>ps xs r'. il_ring rewriter ps \<and> il_ring r' (xs @ ps) \<and> map (il_node r') xs = map call_il (rev refs)
    \<and> map (il_node r') ps = map (il_node rewriter) ps \<and> m_pEH r' = m_pEH rewriter \<and> m_nEH r' = m_nEH rewriter
    \<and> ProcessInsertionCalls env be cor tokens replacements (c, m)
      = (if refs = [] then Inr (Inr None, c', m') else exported be r' (c', m'))"
proof -
  obtain ps where ring: "il_ring rewriter ps" using Import_ring [OF assms(5,2-4)] by blast
  let ?s = "\<lparr>ct_tokens = tokens, ct_cor = cor, ct_meta = m, ct_wrapper = ILRewriterWrapper_new rewriter\<rparr>"
  have rw: "rw ?s = rewriter" by (simp add: ILRewriterWrapper_new_def)
  have first: "m_pNext (heap (rw ?s) m_IL) = hd (ps @ [m_IL])"
    using il_ring_cut(2) [of rewriter "[]" ps "[]" m_IL "hd (ps @ [m_IL])" "tl (ps @ [m_IL])"] ring rw by simp
  have "il_ring (rw ?s) ps" "insertion_refs env replacements (c, ct_meta ?s) = (refs, c', m')" using ring rw assms(6) by simp_all
  from insertions_code [OF this(1) first this(2), of False] obtain s' xs where
    s': "insertions env replacements (m_pNext (heap (rw ?s) m_IL)) False (c, ?s) = Inr (refs \<noteq> [], c', s')" "ct_meta s' = m'"
    "il_ring (rw s') (xs @ ps)" "map (node s') xs = map call_il (rev refs)" "\<forall>y \<in> set ps. node s' y = node ?s y"
    "m_pEH (rw s') = m_pEH (rw ?s)" "m_nEH (rw s') = m_nEH (rw ?s)" by auto
  have imp: "Import (be_body be) (ILRewriter_new (be_junk be)) = Inr rewriter" using assms(1,5) by simp
  let ?loop = "\<lambda>(c, s). insertions env replacements (m_pNext (heap (rw s) m_IL)) False (c, s)"
  have "?loop (c, ?s) = Inr (refs \<noteq> [], c', s')" using s'(1) by simp
  from rewrite_sites_run [of be rewriter ?loop, OF imp this]
  have "ProcessInsertionCalls env be cor tokens replacements (c, m)
      = (if refs = [] then Inr (Inr None, c', m') else exported be (rw s') (c', m'))"
    using s'(2) by (simp add: ProcessInsertionCalls_def)
  moreover have "map (il_node (rw s')) ps = map (il_node rewriter) ps" using s'(5) rw by (simp add: node_def)
  moreover have "map (il_node (rw s')) xs = map call_il (rev refs)" using s'(4) unfolding node_def .
  ultimately show ?thesis using ring s'(3,6,7) rw by (intro exI [of _ ps] exI [of _ xs] exI [of _ "rw s'"]) simp
qed



text \<open>A method whose last parameter is a \<open>CancellationToken\<close>.\<close>

definition demo_token_env :: "unit site_env" where
  "demo_token_env = demo_site_env\<lparr>se_import := demo_import\<lparr>imp_GetTypeRefProps :=
     (\<lambda>_. (S_OK, WStr ''System.Threading.CancellationToken'', 35))\<rparr>\<rparr>"

definition demo_token_info :: FunctionInfo where
  "demo_token_info = demo_call_info\<lparr>fi_signature := site_signature 0x20 0 (Prim ELEMENT_TYPE_VOID)
     [Prim ELEMENT_TYPE_I4, Named True 0x01000001]\<rparr>"

lemma demo_token_name: "bare_name (GetTypeInfo 4 (se_import demo_token_env)) 0x01000001 = Some (WStr ''System.Threading.CancellationToken'')"
proof -
  have 4: "(4 :: nat) = Suc (Suc (Suc (Suc 0)))" by simp
  show ?thesis unfolding 4 by (simp add: bare_name_def GetTypeInfo_body_def demo_tokens_types demo_token_env_def type_result_def FAILED_def)
qed


text \<open>A replacement whose wrapper has failed before, and one that inserts a call.\<close>

definition demo_body_env :: body_env where
  "demo_body_env = \<lparr>be_body = Inr demo_body, be_junk = demo_memory, be_new = (\<lambda>n. replicate n 0xCC),
     be_alloc = (\<lambda>n. Some (replicate n 0)), be_set_body = (\<lambda>_. None)\<rparr>"


definition demo_insertion :: MethodReplacement where
  "demo_insertion = demo_call_replacement\<lparr>wrapper_method := (wrapper_method demo_call_replacement)\<lparr>action := WStr ''InsertFirst''\<rparr>\<rparr>"

theorem ProcessInsertionCalls_body_witness:
  "\<exists>rewriter ps x r'. Import (Inr demo_body) (ILRewriter_new demo_memory) = Inr rewriter \<and> il_ring rewriter ps
    \<and> il_ring r' (x # ps) \<and> il_node r' x = call_il 0x0A000009
    \<and> ProcessInsertionCalls demo_site_env demo_body_env (ct_cor demo_ready) demo_tokens [demo_insertion] (demo_call_caches, ())
      = exported demo_body_env r' (demo_call_caches, ())"
proof -
  obtain rewriter where imp: "Import (Inr demo_body) (ILRewriter_new demo_memory) = Inr rewriter" using demo_import by blast
  have env: "be_body demo_body_env = Inr demo_body" "be_junk demo_body_env = demo_memory" by (simp_all add: demo_body_env_def)
  have key: "get_method_cache_key (wrapper_method demo_insertion) = get_method_cache_key (wrapper_method demo_call_replacement)"
    "action (wrapper_method demo_insertion) = WStr ''InsertFirst''"
    by (simp_all add: demo_insertion_def get_method_cache_key_def)
  have "\<not> IsFailedWrapperMemberKey demo_call_caches (get_method_cache_key (wrapper_method demo_call_replacement))"
    by (simp add: demo_call_caches_def IsFailedWrapperMemberKey_def SetWrapperMemberRef_def wrapper_caches_new_def)
  then have "insertion_refs demo_site_env [demo_insertion] (demo_call_caches, ()) = ([0x0A000009], demo_call_caches, ())"
    using demo_known key by (simp add: GetWrapperMethodRef_def wrapper_known_def Let_def) (simp add: WStr_def wc_def)
  moreover have "GetCodeSize demo_body \<le> length (Code demo_body)" "GetCodeSize demo_body + 10 < 4294967296" "GetMaxStack demo_body < 4294967296"
    "Import (Inr demo_body) (ILRewriter_new (be_junk demo_body_env)) = Inr rewriter"
    using imp env(2) by (simp_all add: demo_body_def demo_code_def)
  ultimately obtain ps xs r' where "il_ring rewriter ps" "il_ring r' (xs @ ps)" "map (il_node r') xs = [call_il 0x0A000009]"
    "ProcessInsertionCalls demo_site_env demo_body_env (ct_cor demo_ready) demo_tokens [demo_insertion] (demo_call_caches, ())
      = exported demo_body_env r' (demo_call_caches, ())"
    using ProcessInsertionCalls_body [OF env(1), of rewriter demo_site_env "[demo_insertion]" demo_call_caches "()" "[0x0A000009]"
        demo_call_caches "()" "ct_cor demo_ready" demo_tokens]
    by (simp del: map_eq_conv) metis
  moreover from this(3) obtain x where "xs = [x]" "il_node r' x = call_il 0x0A000009" by auto
  ultimately show ?thesis using imp by auto
qed

section \<open>What the rewriting should not do\<close>

text \<open>Behind a replaced call the loop goes on after the next instruction: a call there is never looked at.\<close>

lemma adjacent_call_not_replaced:
  assumes "distinct (p # q # ps)" "select previous_opcode (code p)"
  shows "q \<notin> set (selected select previous_opcode code (p # q # ps))"
  using assms selected_subset [of select "fst (code q)" code ps] by auto

text \<open>Behind a \<open>CancellationToken\<close> in the last place the type byte of the next parameter is read, which is
  behind the end of the signature: an access outside of the buffer when it ends there.\<close>

lemma cancellation_token_overread:
  fixes env :: "'m site_env" and s :: "'m ct_state"
  assumes "fi_signature target = site_signature conv generic_count return_type (params @ [Named True tk])"
    and "list_all parsed_type (return_type # params)" "length params + 1 < 256" "ClrSig.type_token tk"
    and "conv AND IMAGE_CEE_CS_CALLCONV_GENERIC = 0 \<or> generic_count \<noteq> 0"
    and "se_behind env = []" "GetTypeInfo (se_fuel env) (se_import env) tk = Inr ty" "m_ILInstr (ct_wrapper s) \<noteq> None"
  shows "box_last_argument env target s = Inl BadAccess"
proof -
  let ?params = "params @ [Named True tk]" and ?sig = "fi_signature target"
  obtain g n where n: "NumberOfArguments ?sig = Inr n" "unat n = length ?params"
    using site_signature_counts [of ?params conv generic_count return_type] assms(1,3,5) by auto
  obtain c1 c2 where c: "encode_type return_type = c1 # c2" using encode_type_nonempty [of return_type] by (cases "encode_type return_type") auto
  have "drop (IndexOfReturnType ?sig) ?sig = concat (map encode_type (return_type # ?params))"
    unfolding assms(1) using c by (simp add: IndexOfReturnType_def site_signature_def CallingConvention_def)
  then have d: "drop (IndexOfReturnType ?sig) ?sig @ se_behind env = concat (map encode_type (return_type # params)) @ encode_named True tk"
    using assms(6) by simp
  have "skip_types (unat n) (drop (IndexOfReturnType ?sig) ?sig @ se_behind env) = (ret (Some (encode_named True tk)) :: (_, 'm) ct)"
    unfolding d using skip_types_encoded [OF assms(2), of "encode_named True tk"] n(2) by simp
  then have "box_last_argument env target s = bindS (box_cancellation_token env (encode_named True tk)) (box_read_only_memory env) s"
    unfolding box_last_argument_def n(1) by (simp add: lift_def bindS_def ret_def Let_def)
  moreover obtain bs where bs: "encode_named True tk = ELEMENT_TYPE_VALUETYPE # bs" "CorSigUncompressToken_ref (bs @ []) = Inr (tk, [])"
    using encoded_token [OF assms(4), of True] by metis
  ultimately show ?thesis
    using assms(7,8) op_run(1) [OF assms(8)]
    by (simp add: box_cancellation_token_def box_read_only_memory_def read_byte_def from_sig_def lift_def bindS_def ret_def
        box_token_def one_instruction)
qed

text \<open>A method without parameters that returns a \<open>CancellationToken\<close> has its instance, or whatever is on the
  stack, boxed.\<close>

lemma no_argument_boxed:
  assumes "fi_signature target = site_signature 0x20 0 (Named True tk) []" "ClrSig.type_token tk"
    and "se_behind env = b # q" "b \<noteq> ELEMENT_TYPE_GENERICINST"
    and "bare_name (GetTypeInfo (se_fuel env) (se_import env)) tk = Some (WStr ''System.Threading.CancellationToken'')"
  shows "box_last_argument env target s = box_token tk s"
  using box_last_argument_run [OF assms(1) _ _ _ _ assms(3,4), of s] assms(2,5) by (simp add: boxed_argument_def)

end
