(* ===== verification/Environment.thy ===== *)
theory Environment
  imports StringUtil
begin

text \<open>
  The configuration of the profiler (\<open>environment_variables.h\<close>, \<open>environment_variables_util.h\<close>): the
  names of the environment variables, and the switches that are read from them. A switch is read
  once: a static variable of its function keeps what was found, from the first call on.
\<close>

section \<open>Names\<close>

definition tracing_enabled :: wstring where "tracing_enabled = WStr ''DD_TRACE_ENABLED''"
definition debug_enabled :: wstring where "debug_enabled = WStr ''DD_TRACE_DEBUG''"
definition integrations_path :: wstring where "integrations_path = WStr ''DD_INTEGRATIONS''"
definition include_process_names :: wstring where "include_process_names = WStr ''DD_PROFILER_PROCESSES''"
definition exclude_process_names :: wstring where "exclude_process_names = WStr ''DD_PROFILER_EXCLUDE_PROCESSES''"
definition disabled_integrations :: wstring where "disabled_integrations = WStr ''DD_DISABLED_INTEGRATIONS''"
definition clr_disable_optimizations :: wstring where "clr_disable_optimizations = WStr ''DD_CLR_DISABLE_OPTIMIZATIONS''"
definition domain_neutral_instrumentation :: wstring where
  "domain_neutral_instrumentation = WStr ''DD_TRACE_DOMAIN_NEUTRAL_INSTRUMENTATION''"
definition azure_app_services :: wstring where "azure_app_services = WStr ''DD_AZURE_APP_SERVICES''"
definition azure_app_services_app_pool_id :: wstring where "azure_app_services_app_pool_id = WStr ''APP_POOL_ID''"
definition azure_app_services_cli_telemetry_profile_value :: wstring where
  "azure_app_services_cli_telemetry_profile_value = WStr ''DOTNET_CLI_TELEMETRY_PROFILE''"
definition netstandard_enabled :: wstring where "netstandard_enabled = WStr ''DD_TRACE_NETSTANDARD_ENABLED''"
definition dump_il_rewrite_enabled :: wstring where "dump_il_rewrite_enabled = WStr ''DD_DUMP_ILREWRITE_ENABLED''"
definition clr_enable_inlining :: wstring where "clr_enable_inlining = WStr ''DD_CLR_ENABLE_INLINING''"
definition calltarget_enabled :: wstring where "calltarget_enabled = WStr ''DD_TRACE_CALLTARGET_ENABLED''"

section \<open>Switches\<close>

text \<open>The three macros: the answer, and the static variable after the call. It is \<open>-1\<close> before the first
  one.\<close>

definition is_true :: "wstring \<Rightarrow> bool" where
  "is_true envValue \<longleftrightarrow> envValue = WStr ''1'' \<or> envValue = WStr ''true''"

definition is_false :: "wstring \<Rightarrow> bool" where
  "is_false envValue \<longleftrightarrow> envValue = WStr ''0'' \<or> envValue = WStr ''false''"

definition CheckIfTrue :: "wstring \<Rightarrow> int \<Rightarrow> bool \<times> int" where
  "CheckIfTrue envValue sValue =
     (let sValue = (if sValue = -1 then if is_true envValue then 1 else 0 else sValue) in (sValue = 1, sValue))"

definition CheckIfFalse :: "wstring \<Rightarrow> int \<Rightarrow> bool \<times> int" where
  "CheckIfFalse envValue sValue =
     (let sValue = (if sValue = -1 then if is_false envValue then 1 else 0 else sValue) in (sValue = 1, sValue))"

definition ToBooleanWithDefault :: "wstring \<Rightarrow> bool \<Rightarrow> int \<Rightarrow> bool \<times> int" where
  "ToBooleanWithDefault envValue d sValue =
     (let sValue = (if sValue = -1 then
            if is_true envValue then 1 else if is_false envValue then 0 else of_bool d
          else sValue)
      in (sValue = 1, sValue))"

text \<open>One static variable for every function.\<close>

record statics =
  s_DisableOptimizations :: int
  s_EnableInlining :: int
  s_IsCallTargetEnabled :: int
  s_IsDebugEnabled :: int
  s_IsDumpILRewriteEnabled :: int
  s_IsTracingDisabled :: int
  s_IsAzureAppServices :: int
  s_IsNetstandardEnabled :: int
  s_IsDomainNeutralInstrumentation :: int

definition statics_initial :: statics where
  "statics_initial = \<lparr>s_DisableOptimizations = -1, s_EnableInlining = -1, s_IsCallTargetEnabled = -1,
     s_IsDebugEnabled = -1, s_IsDumpILRewriteEnabled = -1, s_IsTracingDisabled = -1,
     s_IsAzureAppServices = -1, s_IsNetstandardEnabled = -1, s_IsDomainNeutralInstrumentation = -1\<rparr>"

type_synonym environment = "cstring \<Rightarrow> cstring option"

definition DisableOptimizations :: "environment \<Rightarrow> statics \<Rightarrow> bool \<times> statics" where
  "DisableOptimizations getenv st = (let (b, v) =
       CheckIfTrue (GetEnvironmentValue getenv clr_disable_optimizations) (s_DisableOptimizations st)
     in (b, st\<lparr>s_DisableOptimizations := v\<rparr>))"

definition EnableInlining :: "environment \<Rightarrow> bool \<Rightarrow> statics \<Rightarrow> bool \<times> statics" where
  "EnableInlining getenv defaultValue st = (let (b, v) =
       ToBooleanWithDefault (GetEnvironmentValue getenv clr_enable_inlining) defaultValue (s_EnableInlining st)
     in (b, st\<lparr>s_EnableInlining := v\<rparr>))"

text \<open>\<open>arm\<close>: the code is compiled for ARM or ARM64.\<close>

definition IsCallTargetEnabled :: "bool \<Rightarrow> environment \<Rightarrow> bool \<Rightarrow> statics \<Rightarrow> bool \<times> statics" where
  "IsCallTargetEnabled arm getenv defaultValue st = (let (b, v) =
       ToBooleanWithDefault (GetEnvironmentValue getenv calltarget_enabled) (if arm then True else defaultValue)
         (s_IsCallTargetEnabled st)
     in (b, st\<lparr>s_IsCallTargetEnabled := v\<rparr>))"

definition IsDebugEnabled :: "environment \<Rightarrow> statics \<Rightarrow> bool \<times> statics" where
  "IsDebugEnabled getenv st = (let (b, v) =
       CheckIfTrue (GetEnvironmentValue getenv debug_enabled) (s_IsDebugEnabled st)
     in (b, st\<lparr>s_IsDebugEnabled := v\<rparr>))"

definition IsDumpILRewriteEnabled :: "environment \<Rightarrow> statics \<Rightarrow> bool \<times> statics" where
  "IsDumpILRewriteEnabled getenv st = (let (b, v) =
       CheckIfTrue (GetEnvironmentValue getenv dump_il_rewrite_enabled) (s_IsDumpILRewriteEnabled st)
     in (b, st\<lparr>s_IsDumpILRewriteEnabled := v\<rparr>))"

definition IsTracingDisabled :: "environment \<Rightarrow> statics \<Rightarrow> bool \<times> statics" where
  "IsTracingDisabled getenv st = (let (b, v) =
       CheckIfFalse (GetEnvironmentValue getenv tracing_enabled) (s_IsTracingDisabled st)
     in (b, st\<lparr>s_IsTracingDisabled := v\<rparr>))"

definition IsAzureAppServices :: "environment \<Rightarrow> statics \<Rightarrow> bool \<times> statics" where
  "IsAzureAppServices getenv st = (let (b, v) =
       CheckIfTrue (GetEnvironmentValue getenv azure_app_services) (s_IsAzureAppServices st)
     in (b, st\<lparr>s_IsAzureAppServices := v\<rparr>))"

definition IsNetstandardEnabled :: "environment \<Rightarrow> statics \<Rightarrow> bool \<times> statics" where
  "IsNetstandardEnabled getenv st = (let (b, v) =
       CheckIfTrue (GetEnvironmentValue getenv netstandard_enabled) (s_IsNetstandardEnabled st)
     in (b, st\<lparr>s_IsNetstandardEnabled := v\<rparr>))"

definition IsDomainNeutralInstrumentation :: "environment \<Rightarrow> statics \<Rightarrow> bool \<times> statics" where
  "IsDomainNeutralInstrumentation getenv st = (let (b, v) =
       CheckIfTrue (GetEnvironmentValue getenv domain_neutral_instrumentation) (s_IsDomainNeutralInstrumentation st)
     in (b, st\<lparr>s_IsDomainNeutralInstrumentation := v\<rparr>))"

section \<open>A switch is read once\<close>

text \<open>What the macros share: a switch that has a value keeps it, and after a call it has one.\<close>

locale switch =
  fixes read_switch :: "'a \<Rightarrow> int \<Rightarrow> bool \<times> int"
  assumes answer: "fst (read_switch a v) \<longleftrightarrow> snd (read_switch a v) = 1"
    and keeps: "v \<noteq> -1 \<Longrightarrow> snd (read_switch a v) = v"
    and settles: "snd (read_switch a v) \<noteq> -1"
begin

lemma settled: "v \<noteq> -1 \<Longrightarrow> read_switch a v = (v = 1, v)"
  by (simp add: keeps answer prod_eq_iff)

lemma read_again: "read_switch b (snd (read_switch a v)) = read_switch a v"
  using settled [OF settles] by (simp add: answer prod_eq_iff)

end

interpretation if_true: switch CheckIfTrue
  by unfold_locales (auto simp: CheckIfTrue_def Let_def)

interpretation if_false: switch CheckIfFalse
  by unfold_locales (auto simp: CheckIfFalse_def Let_def)

interpretation with_default: switch "\<lambda>(envValue, d). ToBooleanWithDefault envValue d"
  by unfold_locales (auto simp: ToBooleanWithDefault_def Let_def split: if_splits split_of_bool_asm)

lemma ToBooleanWithDefault_settled: "v \<noteq> -1 \<Longrightarrow> ToBooleanWithDefault envValue d v = (v = 1, v)"
  using with_default.settled [of v "(envValue, d)"] by simp

lemma IsCallTargetEnabled_settled:
  "s_IsCallTargetEnabled st \<noteq> -1 \<Longrightarrow> IsCallTargetEnabled arm getenv d st = (s_IsCallTargetEnabled st = 1, st)"
  by (simp add: IsCallTargetEnabled_def ToBooleanWithDefault_settled)

lemma IsCallTargetEnabled_settles:
  "s_IsCallTargetEnabled (snd (IsCallTargetEnabled arm getenv d st)) \<noteq> -1"
  using with_default.settles [of "(GetEnvironmentValue getenv calltarget_enabled, if arm then True else d)"
      "s_IsCallTargetEnabled st"]
  by (simp add: IsCallTargetEnabled_def case_prod_beta Let_def del: if_split)

lemma IsCallTargetEnabled_answer:
  "fst (IsCallTargetEnabled arm getenv d st) \<longleftrightarrow> s_IsCallTargetEnabled (snd (IsCallTargetEnabled arm getenv d st)) = 1"
  using with_default.answer [of "(GetEnvironmentValue getenv calltarget_enabled, if arm then True else d)"
      "s_IsCallTargetEnabled st"]
  by (simp add: IsCallTargetEnabled_def case_prod_beta Let_def del: if_split)

section \<open>Properties\<close>

text \<open>The instrumentation mode is decided once: whatever the environment and the default are later,
  the switch gives the answer of its first call. That answer is the environment's, and the default
  (on ARM: enabled) only where the variable says neither yes nor no.\<close>

theorem IsCallTargetEnabled_once:
  "(let (b, st') = IsCallTargetEnabled arm getenv d st
    in IsCallTargetEnabled arm getenv' d' st' = (b, st'))
   \<and> fst (IsCallTargetEnabled arm getenv d statics_initial) =
       (if is_true (GetEnvironmentValue getenv calltarget_enabled) then True
        else if is_false (GetEnvironmentValue getenv calltarget_enabled) then False else arm \<or> d)"
proof
  show "let (b, st') = IsCallTargetEnabled arm getenv d st in IsCallTargetEnabled arm getenv' d' st' = (b, st')"
    using IsCallTargetEnabled_settled [OF IsCallTargetEnabled_settles [of arm getenv d st], of arm getenv' d']
      IsCallTargetEnabled_answer [of arm getenv d st]
    by (simp add: Let_def case_prod_beta)
  show "fst (IsCallTargetEnabled arm getenv d statics_initial) =
       (if is_true (GetEnvironmentValue getenv calltarget_enabled) then True
        else if is_false (GetEnvironmentValue getenv calltarget_enabled) then False else arm \<or> d)"
    by (simp add: IsCallTargetEnabled_def ToBooleanWithDefault_def statics_initial_def Let_def)
qed

end
