(* ===== verification/PInvokeMaps.thy ===== *)
theory PInvokeMaps
  imports TypeMetadata Environment
begin

text \<open>
  The redirection of platform invocations (\<open>cor_profiler.cpp\<close>, \<open>ModuleLoadFinished\<close>, not on
  Windows): when the managed profiler is loaded, the methods of its native-methods type are bound
  to the file the profiler has been loaded from. The metadata interfaces are parameters over a
  state of their own.
\<close>

section \<open>The code\<close>

text \<open>A platform invocation map: the flags, the name of the entry point and the module.\<close>

type_synonym pinvoke = "u32 \<times> wstring \<times> u32"

record 'm pinvoke_api =
  pi_DefineModuleRef :: "wstring \<Rightarrow> 'm \<Rightarrow> (HRESULT \<times> u32) \<times> 'm"
  pi_EnumMethods :: "u32 \<Rightarrow> 'm \<Rightarrow> u32 list"
  pi_GetPinvokeMap :: "u32 \<Rightarrow> 'm \<Rightarrow> HRESULT \<times> pinvoke"
  pi_DeletePinvokeMap :: "u32 \<Rightarrow> 'm \<Rightarrow> HRESULT \<times> 'm"
  pi_DefinePinvokeMap :: "u32 \<Rightarrow> pinvoke \<Rightarrow> 'm \<Rightarrow> HRESULT \<times> 'm"

definition nonwindows_nativemethods_type :: wstring where
  "nonwindows_nativemethods_type = WStr ''Datadog.Trace.ClrProfiler.NativeMethods+NonWindows''"

definition GetCoreCLRProfilerPath :: "bool \<Rightarrow> environment \<Rightarrow> wstring" where
  "GetCoreCLRProfilerPath bit64 getenv =
     (let native_profiler_file = GetEnvironmentValue getenv
            (if bit64 then WStr ''CORECLR_PROFILER_PATH_64'' else WStr ''CORECLR_PROFILER_PATH_32'')
      in if native_profiler_file = [] then GetEnvironmentValue getenv (WStr ''CORECLR_PROFILER_PATH'')
         else native_profiler_file)"

text \<open>The body of the loop: when the new map cannot be defined, the old one is put back.\<close>

definition fix_pinvoke_map :: "'m pinvoke_api \<Rightarrow> u32 \<Rightarrow> u32 \<Rightarrow> 'm \<Rightarrow> 'm" where
  "fix_pinvoke_map api profiler_ref methodDef m =
     (let (hr, (pdwMappingFlags, importName, importModule)) = pi_GetPinvokeMap api methodDef m
      in if FAILED hr then m
         else let (hr, m') = pi_DeletePinvokeMap api methodDef m
           in if FAILED hr then m'
              else let (hr, m') = pi_DefinePinvokeMap api methodDef
                         (pdwMappingFlags, TypeMetadata.c_str importName, profiler_ref) m'
                in if FAILED hr
                   then snd (pi_DefinePinvokeMap api methodDef
                          (pdwMappingFlags, TypeMetadata.c_str importName, importModule) m')
                   else m')"

definition fix_pinvoke_maps :: "'m pinvoke_api \<Rightarrow> metadata_import \<Rightarrow> wstring \<Rightarrow> 'm \<Rightarrow> 'm" where
  "fix_pinvoke_maps api imp native_profiler_file m =
     (case FindTypeDefByName imp nonwindows_nativemethods_type of
        None \<Rightarrow> m
      | Some nativeMethodsTypeDef \<Rightarrow>
          let ((hr, profiler_ref), m) = pi_DefineModuleRef api (TypeMetadata.c_str native_profiler_file) m
          in if FAILED hr then m
             else fold (fix_pinvoke_map api profiler_ref) (pi_EnumMethods api nativeMethodsTypeDef m) m)"

section \<open>Every invocation is redirected\<close>

text \<open>What the code relies on: the three operations read, remove and store the map of one method.
  \<open>maps\<close> is what the metadata holds.\<close>

definition pinvoke_laws :: "'m pinvoke_api \<Rightarrow> ('m \<Rightarrow> u32 \<rightharpoonup> pinvoke) \<Rightarrow> bool" where
  "pinvoke_laws api maps \<longleftrightarrow>
     (\<forall>md m. case maps m md of None \<Rightarrow> FAILED (fst (pi_GetPinvokeMap api md m))
        | Some v \<Rightarrow> pi_GetPinvokeMap api md m = (S_OK, v) \<and> TypeMetadata.c_str (fst (snd v)) = fst (snd v))
     \<and> (\<forall>md m. maps m md \<noteq> None \<longrightarrow> fst (pi_DeletePinvokeMap api md m) = S_OK
          \<and> maps (snd (pi_DeletePinvokeMap api md m)) = (maps m)(md := None))
     \<and> (\<forall>md v m. maps m md = None \<longrightarrow> TypeMetadata.c_str (fst (snd v)) = fst (snd v) \<longrightarrow>
          fst (pi_DefinePinvokeMap api md v m) = S_OK
          \<and> maps (snd (pi_DefinePinvokeMap api md v m)) = (maps m)(md \<mapsto> v))
     \<and> (\<forall>nm m. maps (snd (pi_DefineModuleRef api nm m)) = maps m)"

lemma S_OK_not_FAILED [simp]: "\<not> FAILED S_OK"
  by (simp add: FAILED_def)

lemma pinvoke_lawsD:
  assumes "pinvoke_laws api maps"
  shows "maps m md = None \<Longrightarrow> FAILED (fst (pi_GetPinvokeMap api md m))"
    and "maps m md = Some v \<Longrightarrow> pi_GetPinvokeMap api md m = (S_OK, v)"
    and "maps m md = Some v \<Longrightarrow> TypeMetadata.c_str (fst (snd v)) = fst (snd v)"
    and "maps m md = Some v \<Longrightarrow> pi_DeletePinvokeMap api md m = (h, m') \<Longrightarrow> h = S_OK \<and> maps m' = (maps m)(md := None)"
    and "maps m md = None \<Longrightarrow> TypeMetadata.c_str (fst (snd w)) = fst (snd w) \<Longrightarrow>
      pi_DefinePinvokeMap api md w m = (h, m') \<Longrightarrow> h = S_OK \<and> maps m' = (maps m)(md \<mapsto> w)"
    and "pi_DefineModuleRef api nm m = (r, m') \<Longrightarrow> maps m' = maps m"
proof -
  have get: "case maps m md of None \<Rightarrow> FAILED (fst (pi_GetPinvokeMap api md m))
        | Some v \<Rightarrow> pi_GetPinvokeMap api md m = (S_OK, v) \<and> TypeMetadata.c_str (fst (snd v)) = fst (snd v)"
    using assms unfolding pinvoke_laws_def by blast
  show "maps m md = None \<Longrightarrow> FAILED (fst (pi_GetPinvokeMap api md m))" using get by simp
  show "maps m md = Some v \<Longrightarrow> pi_GetPinvokeMap api md m = (S_OK, v)" using get by simp
  show "maps m md = Some v \<Longrightarrow> TypeMetadata.c_str (fst (snd v)) = fst (snd v)" using get by simp
  have "maps m md \<noteq> None \<longrightarrow> fst (pi_DeletePinvokeMap api md m) = S_OK
          \<and> maps (snd (pi_DeletePinvokeMap api md m)) = (maps m)(md := None)"
    using assms unfolding pinvoke_laws_def by blast
  then show "maps m md = Some v \<Longrightarrow> pi_DeletePinvokeMap api md m = (h, m') \<Longrightarrow> h = S_OK \<and> maps m' = (maps m)(md := None)"
    by simp
  have "maps m md = None \<longrightarrow> TypeMetadata.c_str (fst (snd w)) = fst (snd w) \<longrightarrow>
          fst (pi_DefinePinvokeMap api md w m) = S_OK
          \<and> maps (snd (pi_DefinePinvokeMap api md w m)) = (maps m)(md \<mapsto> w)"
    using assms unfolding pinvoke_laws_def by blast
  then show "maps m md = None \<Longrightarrow> TypeMetadata.c_str (fst (snd w)) = fst (snd w) \<Longrightarrow>
      pi_DefinePinvokeMap api md w m = (h, m') \<Longrightarrow> h = S_OK \<and> maps m' = (maps m)(md \<mapsto> w)"
    by simp
  have "maps (snd (pi_DefineModuleRef api nm m)) = maps m"
    using assms unfolding pinvoke_laws_def by blast
  then show "pi_DefineModuleRef api nm m = (r, m') \<Longrightarrow> maps m' = maps m" by simp
qed

lemma fix_pinvoke_map_redirects:
  assumes laws: "pinvoke_laws api maps"
  shows "maps (fix_pinvoke_map api profiler_ref md m) =
    (case maps m md of None \<Rightarrow> maps m | Some (fl, nm, _) \<Rightarrow> (maps m)(md \<mapsto> (fl, nm, profiler_ref)))"
proof (cases "maps m md")
  case None
  then show ?thesis
    using pinvoke_lawsD(1) [OF laws None] by (simp add: fix_pinvoke_map_def case_prod_beta Let_def)
next
  case (Some v)
  obtain fl nm r where v: "v = (fl, nm, r)" by (cases v)
  have get: "pi_GetPinvokeMap api md m = (S_OK, (fl, nm, r))" "TypeMetadata.c_str nm = nm"
    using pinvoke_lawsD(2,3) [OF laws Some] v by simp_all
  obtain h1 m1 where del: "pi_DeletePinvokeMap api md m = (h1, m1)" by fastforce
  have d: "h1 = S_OK" "maps m1 = (maps m)(md := None)"
    using pinvoke_lawsD(4) [OF laws Some del] by simp_all
  obtain h2 m2 where dfn: "pi_DefinePinvokeMap api md (fl, nm, profiler_ref) m1 = (h2, m2)" by fastforce
  have "maps m1 md = None" using d(2) by simp
  then have "h2 = S_OK \<and> maps m2 = (maps m1)(md \<mapsto> (fl, nm, profiler_ref))"
    by (intro pinvoke_lawsD(5) [OF laws _ _ dfn]) (simp_all add: get)
  then show ?thesis using Some v get del dfn d by (simp add: fix_pinvoke_map_def)
qed

lemma fix_pinvoke_map_fold:
  assumes "pinvoke_laws api maps"
  shows "maps (fold (fix_pinvoke_map api profiler_ref) mds m) =
    (\<lambda>md. case maps m md of None \<Rightarrow> None
       | Some (fl, nm, r) \<Rightarrow> Some (fl, nm, if md \<in> set mds then profiler_ref else r))"
proof (induction mds arbitrary: m)
  case (Cons md mds)
  show ?case
    unfolding fold_Cons comp_def Cons fix_pinvoke_map_redirects [OF assms]
    by (rule ext, case_tac "maps m md"; case_tac "mda = md"; case_tac "maps m mda") auto
qed (auto split: option.splits)

text \<open>A store to evaluate the loop with.\<close>

definition demo_pinvoke :: "(u32 \<rightharpoonup> pinvoke) pinvoke_api" where
  "demo_pinvoke = \<lparr>pi_DefineModuleRef = (\<lambda>nm m. ((S_OK, 7), m)), pi_EnumMethods = (\<lambda>t m. [1, 2, 3]),
     pi_GetPinvokeMap = (\<lambda>md m. case m md of None \<Rightarrow> (0x80131124, (0, [], 0))
        | Some (fl, nm, r) \<Rightarrow> (S_OK, (fl, TypeMetadata.c_str nm, r))),
     pi_DeletePinvokeMap = (\<lambda>md m. (S_OK, m(md := None))),
     pi_DefinePinvokeMap = (\<lambda>md v m. (S_OK, m(md \<mapsto> v)))\<rparr>"

definition demo_maps :: "(u32 \<rightharpoonup> pinvoke) \<Rightarrow> u32 \<rightharpoonup> pinvoke" where
  "demo_maps m = (\<lambda>md. map_option (\<lambda>(fl, nm, r). (fl, TypeMetadata.c_str nm, r)) (m md))"

section \<open>Properties\<close>

text \<open>C24. When the native-methods type is found and the file of the profiler can be named, each of its
  platform invocations leads to that file afterwards, with the flags and the entry point it had;
  methods of other types, and methods without such a map, are as they were.\<close>

theorem fix_pinvoke_maps_redirects:
  assumes "pinvoke_laws api maps" "FindTypeDefByName imp nonwindows_nativemethods_type = Some native_type"
    and "pi_DefineModuleRef api (TypeMetadata.c_str file) m = ((S_OK, profiler_ref), m')"
  shows "maps (fix_pinvoke_maps api imp file m) =
    (\<lambda>md. case maps m md of None \<Rightarrow> None
       | Some (fl, nm, r) \<Rightarrow> Some (fl, nm, if md \<in> set (pi_EnumMethods api native_type m') then profiler_ref else r))"
proof -
  have "maps m' = maps m" by (rule pinvoke_lawsD(6) [OF assms(1,3)])
  then show ?thesis
    using assms by (simp add: fix_pinvoke_maps_def fix_pinvoke_map_fold)
qed

lemma demo_pinvoke_laws: "pinvoke_laws demo_pinvoke demo_maps"
proof -
  have c: "TypeMetadata.c_str (TypeMetadata.c_str s) = TypeMetadata.c_str s" for s
    unfolding TypeMetadata.c_str_def by (rule takeWhile_idem)
  have n: "demo_maps m md = None \<longleftrightarrow> m md = None" for m md by (simp add: demo_maps_def)
  show ?thesis
    unfolding pinvoke_laws_def
  proof (intro conjI allI impI)
    fix md m
    show "case demo_maps m md of None \<Rightarrow> FAILED (fst (pi_GetPinvokeMap demo_pinvoke md m))
        | Some v \<Rightarrow> pi_GetPinvokeMap demo_pinvoke md m = (S_OK, v) \<and> TypeMetadata.c_str (fst (snd v)) = fst (snd v)"
      by (cases "m md") (auto simp: demo_maps_def demo_pinvoke_def c FAILED_def)
  qed (auto simp: demo_pinvoke_def demo_maps_def)
qed

definition demo_native_import :: metadata_import where
  "demo_native_import = demo_import\<lparr>imp_FindTypeDefByName := (\<lambda>nm parent. (S_OK, 0x02000009))\<rparr>"

theorem fix_pinvoke_maps_redirects_witness:
  "\<exists>m. demo_maps (fix_pinvoke_maps demo_pinvoke demo_native_import (WStr ''/opt/profiler.so'') m)
     = [1 \<mapsto> (0x100, WStr ''IsProfilerAttached'', 7), 8 \<mapsto> (0x100, WStr ''getpid'', 5)]"
proof (rule exI [of _ "[1 \<mapsto> (0x100, WStr ''IsProfilerAttached'', 4), 8 \<mapsto> (0x100, WStr ''getpid'', 5)]"])
  let ?m = "[1 \<mapsto> (0x100, WStr ''IsProfilerAttached'', 4), 8 \<mapsto> (0x100, WStr ''getpid'', 5)]"
  have f: "FindTypeDefByName demo_native_import nonwindows_nativemethods_type = Some 0x02000009"
    by code_simp
  have "demo_maps (fix_pinvoke_maps demo_pinvoke demo_native_import (WStr ''/opt/profiler.so'') ?m) =
    (\<lambda>md. case demo_maps ?m md of None \<Rightarrow> None
       | Some (fl, nm, r) \<Rightarrow> Some (fl, nm, if md \<in> set (pi_EnumMethods demo_pinvoke 0x02000009 ?m) then 7 else r))"
    by (rule fix_pinvoke_maps_redirects [OF demo_pinvoke_laws f]) (simp add: demo_pinvoke_def)
  then show "demo_maps (fix_pinvoke_maps demo_pinvoke demo_native_import (WStr ''/opt/profiler.so'') ?m)
     = [1 \<mapsto> (0x100, WStr ''IsProfilerAttached'', 7), 8 \<mapsto> (0x100, WStr ''getpid'', 5)]"
    by (auto simp: demo_maps_def demo_pinvoke_def TypeMetadata.c_str_def WStr_def)
qed

end
