(* ===== verification/StartupHook.thy ===== *)
theory StartupHook
  imports CallSiteRewrite PInvokeMaps
begin

text \<open>
  The startup hook (\<open>CorProfiler::RunILStartupHook\<close>, \<open>CorProfiler::GenerateVoidILStartupMethod\<close> and
  \<open>CorProfiler::AddIISPreStartInitFlags\<close> of \<open>cor_profiler.cpp\<close>): the type and the methods that are
  defined in the module of the first method compiled in an application domain, the IL of these
  methods, the call of them in front of that method, and the flags around the start of IIS.

  The calls into the metadata of the module are parameters over a state of their own; an out
  parameter that is not written holds what its uninitialised variable held (\<open>hk_junk\<close>). The bodies
  that are handed to the CLR are collected in the order in which they are handed over. Logging is
  left out.
\<close>

section \<open>What the CLR contributes\<close>

abbreviation (input) CEE_LDC_I4_1 :: nat where "CEE_LDC_I4_1 \<equiv> 23"
abbreviation (input) CEE_LDLOC_1 :: nat where "CEE_LDLOC_1 \<equiv> 7"
abbreviation (input) CEE_LDLOC_2 :: nat where "CEE_LDLOC_2 \<equiv> 8"
abbreviation (input) CEE_LDLOC_3 :: nat where "CEE_LDLOC_3 \<equiv> 9"
abbreviation (input) CEE_LDSFLDA :: nat where "CEE_LDSFLDA \<equiv> 127"
abbreviation (input) CEE_CEQ :: nat where "CEE_CEQ \<equiv> 257"

abbreviation (input) mdPrivate :: u32 where "mdPrivate \<equiv> 0x0001"
abbreviation (input) mdStatic :: u32 where "mdStatic \<equiv> 0x0010"
abbreviation (input) mdHideBySig :: u32 where "mdHideBySig \<equiv> 0x0080"
abbreviation (input) mdPinvokeImpl :: u32 where "mdPinvokeImpl \<equiv> 0x2000"
abbreviation (input) fdPrivate :: u32 where "fdPrivate \<equiv> 0x0001"
abbreviation (input) fdStatic :: u32 where "fdStatic \<equiv> 0x0010"
abbreviation (input) tdAbstract :: u32 where "tdAbstract \<equiv> 0x0080"
abbreviation (input) tdSealed :: u32 where "tdSealed \<equiv> 0x0100"
abbreviation (input) miPreserveSig :: u32 where "miPreserveSig \<equiv> 0x0080"
abbreviation (input) CALLCONV_FIELD :: byte where "CALLCONV_FIELD \<equiv> 0x06"

record 'm hook_clr =
  hk_clr :: "'m clr"
  hk_GetModuleMetaData :: HRESULT
  hk_DefineTypeDef :: "wstring \<Rightarrow> u32 \<Rightarrow> u32 \<Rightarrow> 'm emit_call"
  hk_DefineMethod :: "u32 \<Rightarrow> wstring \<Rightarrow> u32 \<Rightarrow> byte list \<Rightarrow> 'm emit_call"
  hk_DefineField :: "u32 \<Rightarrow> wstring \<Rightarrow> u32 \<Rightarrow> byte list \<Rightarrow> 'm emit_call"
  hk_SetMethodImplFlags :: "u32 \<Rightarrow> u32 \<Rightarrow> 'm emit_call"
  hk_DefineModuleRef :: "wstring \<Rightarrow> 'm emit_call"
  hk_DefinePinvokeMap :: "u32 \<Rightarrow> u32 \<Rightarrow> wstring \<Rightarrow> u32 \<Rightarrow> 'm emit_call"
  hk_DefineUserString :: "wstring \<Rightarrow> 'm emit_call"

record 'm hook_env =
  hk_api :: "'m hook_clr"
  hk_cor :: AssemblyProperty
  hk_is_net46_or_greater :: bool
  hk_windows :: bool
  hk_bit64 :: bool
  hk_getenv :: environment
  hk_junk :: u32
  hk_memory :: ILRewriter
  hk_new :: "nat \<Rightarrow> byte list"
  hk_alloc :: "nat \<Rightarrow> byte list option"
  hk_body :: "u32 \<Rightarrow> u32 + method_decoder"
  hk_set_body :: "u32 \<Rightarrow> byte list \<Rightarrow> u32 option"

record 'm hook_state =
  hs_meta :: 'm
  hs_bodies :: "(u32 \<times> byte list) list"

text \<open>A failure is returned at once; what has been defined before it stays.\<close>

type_synonym ('a, 'm) hook = "'m hook_state \<Rightarrow> (hr + 'a) \<times> 'm hook_state"

definition retH :: "'a \<Rightarrow> ('a, 'm) hook" where
  "retH x = (\<lambda>s. (Inr x, s))"

definition liftH :: "hr + 'a \<Rightarrow> ('a, 'm) hook" where
  "liftH r = (\<lambda>s. (r, s))"

definition bindH :: "('a, 'm) hook \<Rightarrow> ('a \<Rightarrow> ('b, 'm) hook) \<Rightarrow> ('b, 'm) hook" where
  "bindH f g = (\<lambda>s. case f s of (Inl hr, s) \<Rightarrow> (Inl hr, s) | (Inr x, s) \<Rightarrow> g x s)"

text \<open>\<open>hr = ...(&out); if (FAILED(hr)) return hr;\<close> and the call whose result is not looked at.\<close>

definition call_ignored :: "'m hook_env \<Rightarrow> 'm emit_call \<Rightarrow> (u32, 'm) hook" where
  "call_ignored env call = (\<lambda>s. let ((_, out), m) = call (hs_meta s) in (Inr (out_or (hk_junk env) out), s\<lparr>hs_meta := m\<rparr>))"

definition call_checked :: "'m hook_env \<Rightarrow> 'm emit_call \<Rightarrow> (u32, 'm) hook" where
  "call_checked env call = (\<lambda>s. let ((hr, out), m) = call (hs_meta s)
     in (if FAILED hr then Inl (ClrError hr) else Inr (out_or (hk_junk env) out), s\<lparr>hs_meta := m\<rparr>))"

definition module_metadata :: "'m hook_env \<Rightarrow> (unit, 'm) hook" where
  "module_metadata env = liftH (let hr = hk_GetModuleMetaData (hk_api env) in if FAILED hr then Inl (ClrError hr) else Inr ())"

definition hand_over :: "'m hook_env \<Rightarrow> u32 \<Rightarrow> ILRewriter \<Rightarrow> (unit, 'm) hook" where
  "hand_over env tok rewriter = (\<lambda>s. case Export (hk_new env) (hk_alloc env) (hk_set_body env tok) rewriter of
     Inl hr \<Rightarrow> (Inl hr, s)
   | Inr (body, _) \<Rightarrow> (Inr (), s\<lparr>hs_bodies := hs_bodies s @ [(tok, body)]\<rparr>))"

definition compressed :: "u32 \<Rightarrow> (byte list, 'm) hook" where
  "compressed tk = liftH (case CorSigCompressToken tk of None \<Rightarrow> Inl BadAccess | Some bs \<Rightarrow> Inr bs)"

definition DefineTypeRef :: "'m hook_env \<Rightarrow> u32 \<Rightarrow> char list \<Rightarrow> 'm emit_call" where
  "DefineTypeRef env corlib_ref nm = clr_DefineTypeRefByName (hk_clr (hk_api env)) corlib_ref (WStr nm)"

definition DefineMemberRef :: "'m hook_env \<Rightarrow> u32 \<Rightarrow> char list \<Rightarrow> byte list \<Rightarrow> 'm emit_call" where
  "DefineMemberRef env type_ref nm sig = clr_DefineMemberRef (hk_clr (hk_api env)) type_ref (WStr nm) sig"

definition DefineCorLibRef :: "'m hook_env \<Rightarrow> 'm emit_call" where
  "DefineCorLibRef env = clr_DefineAssemblyRef (hk_clr (hk_api env)) (corlib_request (hk_cor env))"

section \<open>Is the assembly loaded already?\<close>

text \<open>A rewriter for a new method, and code put at its end.\<close>

definition tiny_rewriter :: "'m hook_env \<Rightarrow> ILRewriter" where
  "tiny_rewriter env = InitializeTiny (ILRewriter_new (hk_memory env))"

definition append_code :: "il list \<Rightarrow> ILRewriter \<Rightarrow> ILRewriter" where
  "append_code code r = emits emit_before (m_pNext (heap r (GetILList r))) code r"

definition already_loaded_code :: "u32 \<Rightarrow> u32 \<Rightarrow> il list" where
  "already_loaded_code isAssemblyLoadedFieldToken interlocked_compare_member_ref =
     [(CEE_LDSFLDA, Arg32 isAssemblyLoadedFieldToken), (CEE_LDC_I4_1, Zeroed), (CEE_LDC_I4_0, Zeroed),
      (CEE_CALL, Arg32 interlocked_compare_member_ref), (CEE_LDC_I4_1, Zeroed), (CEE_CEQ, Zeroed), (CEE_RET, Zeroed)]"

definition never_loaded_code :: "il list" where
  "never_loaded_code = [(CEE_LDC_I4_0, Zeroed), (CEE_RET, Zeroed)]"

definition compare_exchange_signature :: "byte list" where
  "compare_exchange_signature =
     [CALLCONV_DEFAULT, 3, ELEMENT_TYPE_I4, ELEMENT_TYPE_BYREF, ELEMENT_TYPE_I4, ELEMENT_TYPE_I4, ELEMENT_TYPE_I4]"

definition IsAlreadyLoaded_code :: "'m hook_env \<Rightarrow> u32 \<Rightarrow> u32 \<Rightarrow> (il list, 'm) hook" where
  "IsAlreadyLoaded_code env corlib_ref new_type_def =
     (if hk_is_net46_or_greater env then
        bindH (call_checked env (hk_DefineField (hk_api env) new_type_def (WStr ''_isAssemblyLoaded'') (fdStatic OR fdPrivate)
            [CALLCONV_FIELD, ELEMENT_TYPE_I4])) (\<lambda>isAssemblyLoadedFieldToken.
        bindH (call_checked env (DefineTypeRef env corlib_ref ''System.Threading.Interlocked'')) (\<lambda>interlocked_type_ref.
        bindH (call_checked env (DefineMemberRef env interlocked_type_ref ''CompareExchange'' compare_exchange_signature))
          (\<lambda>interlocked_compare_member_ref.
        retH (already_loaded_code isAssemblyLoadedFieldToken interlocked_compare_member_ref))))
      else retH never_loaded_code)"

definition define_IsAlreadyLoaded :: "'m hook_env \<Rightarrow> u32 \<Rightarrow> u32 \<Rightarrow> (u32, 'm) hook" where
  "define_IsAlreadyLoaded env corlib_ref new_type_def =
     bindH (call_checked env (hk_DefineMethod (hk_api env) new_type_def (WStr ''IsAlreadyLoaded'') (mdStatic OR mdPrivate)
         [CALLCONV_DEFAULT, 0, ELEMENT_TYPE_BOOLEAN])) (\<lambda>alreadyLoadedMethodToken.
     bindH (IsAlreadyLoaded_code env corlib_ref new_type_def) (\<lambda>code.
     bindH (hand_over env alreadyLoadedMethodToken (append_code code (tiny_rewriter env))) (\<lambda>_.
     retH alreadyLoadedMethodToken)))"

section \<open>The references of the startup method\<close>

definition get_assembly_bytes_signature :: "byte list" where
  "get_assembly_bytes_signature =
     [CALLCONV_DEFAULT, 4, ELEMENT_TYPE_VOID, ELEMENT_TYPE_BYREF, ELEMENT_TYPE_I, ELEMENT_TYPE_BYREF, ELEMENT_TYPE_I4,
      ELEMENT_TYPE_BYREF, ELEMENT_TYPE_I, ELEMENT_TYPE_BYREF, ELEMENT_TYPE_I4]"

definition native_profiler_file :: "'m hook_env \<Rightarrow> wstring" where
  "native_profiler_file env =
     (if hk_windows env then WStr ''DATADOG.TRACE.CLRPROFILER.NATIVE.DLL''
      else GetCoreCLRProfilerPath (hk_bit64 env) (hk_getenv env))"

text \<open>The result of \<open>SetMethodImplFlags\<close> is dropped: the test behind the call looks at the result before it.\<close>

definition define_pinvoke :: "'m hook_env \<Rightarrow> u32 \<Rightarrow> (u32, 'm) hook" where
  "define_pinvoke env new_type_def =
     bindH (call_checked env (hk_DefineMethod (hk_api env) new_type_def (WStr ''GetAssemblyAndSymbolsBytes'')
         (mdStatic OR mdPinvokeImpl OR mdHideBySig) get_assembly_bytes_signature)) (\<lambda>pinvoke_method_def.
     bindH (call_ignored env (hk_SetMethodImplFlags (hk_api env) pinvoke_method_def miPreserveSig)) (\<lambda>_.
     bindH (call_checked env (hk_DefineModuleRef (hk_api env) (TypeMetadata.c_str (native_profiler_file env)))) (\<lambda>profiler_ref.
     bindH (call_checked env (hk_DefinePinvokeMap (hk_api env) pinvoke_method_def 0 (WStr ''GetAssemblyAndSymbolsBytes'')
         profiler_ref)) (\<lambda>_.
     retH pinvoke_method_def))))"

definition marshal_copy_signature :: "byte list" where
  "marshal_copy_signature =
     [CALLCONV_DEFAULT, 4, ELEMENT_TYPE_VOID, ELEMENT_TYPE_I, ELEMENT_TYPE_SZARRAY, ELEMENT_TYPE_U1, ELEMENT_TYPE_I4,
      ELEMENT_TYPE_I4]"

definition appdomain_load_signature :: "byte list \<Rightarrow> byte list" where
  "appdomain_load_signature bytes =
     [CALLCONV_DEFAULT, 2, ELEMENT_TYPE_CLASS] @ bytes
     @ [ELEMENT_TYPE_SZARRAY, ELEMENT_TYPE_U1, ELEMENT_TYPE_SZARRAY, ELEMENT_TYPE_U1]"

definition create_instance_signature :: "byte list" where
  "create_instance_signature = [CALLCONV_HASTHIS, 1, ELEMENT_TYPE_OBJECT, ELEMENT_TYPE_STRING]"

text \<open>Fifteen bytes, whatever the length of the token; it is written behind the first eleven.\<close>

definition locals_signature :: "u32 \<Rightarrow> byte list" where
  "locals_signature system_reflection_assembly_type_ref =
     take 15 ([CALLCONV_LOCAL_SIG, 7, ELEMENT_TYPE_I, ELEMENT_TYPE_I4, ELEMENT_TYPE_I, ELEMENT_TYPE_I4, ELEMENT_TYPE_SZARRAY,
       ELEMENT_TYPE_U1, ELEMENT_TYPE_SZARRAY, ELEMENT_TYPE_U1, ELEMENT_TYPE_CLASS]
     @ (case CorSigCompressToken system_reflection_assembly_type_ref of None \<Rightarrow> [] | Some bs \<Rightarrow> bs) @ replicate 4 0)"

definition load_helper_str :: wstring where
  "load_helper_str = WStr ''Datadog.Trace.ClrProfiler.Managed.Loader.Startup''"

record startup_refs =
  alreadyLoadedMethodToken :: u32
  pinvoke_method_def :: u32
  byte_type_ref :: u32
  marshal_copy_member_ref :: u32
  appdomain_load_member_ref :: u32
  assembly_create_instance_member_ref :: u32
  load_helper_token :: u32
  locals_signature_token :: u32

definition define_refs :: "'m hook_env \<Rightarrow> u32 \<Rightarrow> u32 \<Rightarrow> u32 \<Rightarrow> (startup_refs, 'm) hook" where
  "define_refs env corlib_ref already_loaded pinvoke =
     bindH (call_checked env (DefineTypeRef env corlib_ref ''System.Byte'')) (\<lambda>byte_ref.
     bindH (call_checked env (DefineTypeRef env corlib_ref ''System.Runtime.InteropServices.Marshal'')) (\<lambda>marshal_type_ref.
     bindH (call_checked env (DefineMemberRef env marshal_type_ref ''Copy'' marshal_copy_signature)) (\<lambda>marshal_copy.
     bindH (call_checked env (DefineTypeRef env corlib_ref ''System.Reflection.Assembly'')) (\<lambda>system_reflection_assembly_type_ref.
     bindH (call_checked env (DefineTypeRef env corlib_ref ''System.Object'')) (\<lambda>_.
     bindH (compressed system_reflection_assembly_type_ref) (\<lambda>bytes.
     bindH (call_checked env (DefineMemberRef env system_reflection_assembly_type_ref ''Load'' (appdomain_load_signature bytes)))
       (\<lambda>appdomain_load.
     bindH (call_checked env (DefineMemberRef env system_reflection_assembly_type_ref ''CreateInstance'' create_instance_signature))
       (\<lambda>create_instance.
     bindH (call_checked env (hk_DefineUserString (hk_api env) load_helper_str)) (\<lambda>load_helper.
     bindH (call_checked env (clr_GetTokenFromSig (hk_clr (hk_api env)) (locals_signature system_reflection_assembly_type_ref)))
       (\<lambda>locals.
     retH \<lparr>alreadyLoadedMethodToken = already_loaded, pinvoke_method_def = pinvoke, byte_type_ref = byte_ref,
       marshal_copy_member_ref = marshal_copy, appdomain_load_member_ref = appdomain_load,
       assembly_create_instance_member_ref = create_instance, load_helper_token = load_helper,
       locals_signature_token = locals\<rparr>))))))))))"

section \<open>The code of the startup method\<close>

text \<open>The code sets \<open>m_Arg32\<close> of a \<open>ldloca.s\<close> and \<open>Export\<close> reads \<open>m_Arg8\<close> of the same union, which is its
  low byte on the (little-endian) machines the profiler is built for.\<close>

definition low_byte_of_Arg32 :: "u32 \<Rightarrow> operand" where
  "low_byte_of_Arg32 w = Arg8 (ucast w)"

text \<open>Behind the test: the bytes of the assembly and of its symbols, their copies, and the loader.\<close>

definition copy_code :: "startup_refs \<Rightarrow> nat \<Rightarrow> nat \<Rightarrow> byte \<Rightarrow> il list" where
  "copy_code t load_size load_source array =
     [(load_size, Zeroed), (CEE_NEWARR, Arg32 (byte_type_ref t)), (CEE_STLOC_S, Arg8 array), (load_source, Zeroed),
      (CEE_LDLOC_S, Arg8 array), (CEE_LDC_I4_0, Zeroed), (load_size, Zeroed), (CEE_CALL, Arg32 (marshal_copy_member_ref t))]"

definition load_code :: "startup_refs \<Rightarrow> il list" where
  "load_code t =
     [(CEE_LDLOCA_S, low_byte_of_Arg32 1), (CEE_LDLOCA_S, low_byte_of_Arg32 2), (CEE_LDLOCA_S, low_byte_of_Arg32 3),
      (CEE_CALL, Arg32 (pinvoke_method_def t))]
     @ copy_code t CEE_LDLOC_1 CEE_LDLOC_0 4 @ copy_code t CEE_LDLOC_3 CEE_LDLOC_2 5
     @ [(CEE_LDLOC_S, Arg8 4), (CEE_LDLOC_S, Arg8 5), (CEE_CALL, Arg32 (appdomain_load_member_ref t)), (CEE_STLOC_S, Arg8 6),
        (CEE_LDLOC_S, Arg8 6), (CEE_LDSTR, Arg32 (load_helper_token t)),
        (CEE_CALLVIRT, Arg32 (assembly_create_instance_member_ref t)), (CEE_POP, Zeroed), (CEE_RET, Zeroed)]"

definition write_startup_code :: "startup_refs \<Rightarrow> ILRewriter \<Rightarrow> ILRewriter" where
  "write_startup_code t r =
     (let pFirstInstr = m_pNext (heap r (GetILList r));
          (_, r) = emit_before pFirstInstr (CEE_CALL, Arg32 (alreadyLoadedMethodToken t)) r;
          (pBranchFalseInstr, r) = emit_before pFirstInstr (CEE_BRFALSE_S, Zeroed) r;
          (_, r) = emit_before pFirstInstr (CEE_RET, Zeroed) r;
          (pNewInstr, r) = emit_before pFirstInstr (CEE_LDLOCA_S, low_byte_of_Arg32 0) r;
          r = set_arg pBranchFalseInstr (Target pNewInstr) r
      in emits emit_before pFirstInstr (load_code t) r)"

definition GenerateVoidILStartupMethod :: "'m hook_env \<Rightarrow> (u32, 'm) hook" where
  "GenerateVoidILStartupMethod env =
     bindH (module_metadata env) (\<lambda>_.
     bindH (call_checked env (DefineCorLibRef env)) (\<lambda>corlib_ref.
     bindH (call_checked env (DefineTypeRef env corlib_ref ''System.Object'')) (\<lambda>object_type_ref.
     bindH (call_checked env (hk_DefineTypeDef (hk_api env) (WStr ''__DDVoidMethodType__'') (tdAbstract OR tdSealed) object_type_ref))
       (\<lambda>new_type_def.
     bindH (call_checked env (hk_DefineMethod (hk_api env) new_type_def (WStr ''__DDVoidMethodCall__'') mdStatic
         [CALLCONV_DEFAULT, 0, ELEMENT_TYPE_VOID])) (\<lambda>ret_method_token.
     bindH (define_IsAlreadyLoaded env corlib_ref new_type_def) (\<lambda>already_loaded.
     bindH (define_pinvoke env new_type_def) (\<lambda>pinvoke.
     bindH (define_refs env corlib_ref already_loaded pinvoke) (\<lambda>refs.
     bindH (hand_over env ret_method_token
         (write_startup_code refs (SetTkLocalVarSig (locals_signature_token refs) (tiny_rewriter env)))) (\<lambda>_.
     retH ret_method_token)))))))))"

section \<open>The hooks\<close>

definition import_method :: "'m hook_env \<Rightarrow> u32 \<Rightarrow> (ILRewriter, 'm) hook" where
  "import_method env function_token = liftH (Import (hk_body env function_token) (ILRewriter_new (hk_memory env)))"

definition call_first :: "u32 \<Rightarrow> ILRewriter \<Rightarrow> hr + ILRewriter" where
  "call_first ret_method_token r =
     bindE (CallMember ret_method_token False (SetILPosition (m_pNext (heap r (GetILList r))) (ILRewriterWrapper_new r)))
       (\<lambda>(_, w). Inr (GetILRewriter w))"

definition RunILStartupHook :: "'m hook_env \<Rightarrow> u32 \<Rightarrow> (unit, 'm) hook" where
  "RunILStartupHook env function_token =
     bindH (GenerateVoidILStartupMethod env) (\<lambda>ret_method_token.
     bindH (import_method env function_token) (\<lambda>rewriter.
     bindH (liftH (call_first ret_method_token rewriter)) (\<lambda>rewriter.
     hand_over env function_token rewriter)))"

record iis_refs =
  boolToken :: u32
  appdomain_get_current_domain_member_ref :: u32
  appdomain_set_data_member_ref :: u32
  pre_init_start_string_token :: u32

definition get_current_domain_signature :: "byte list \<Rightarrow> byte list" where
  "get_current_domain_signature bytes = [CALLCONV_DEFAULT, 0, ELEMENT_TYPE_CLASS] @ bytes"

definition set_data_signature :: "byte list" where
  "set_data_signature = [CALLCONV_DEFAULT OR CALLCONV_HASTHIS, 2, ELEMENT_TYPE_VOID, ELEMENT_TYPE_STRING, ELEMENT_TYPE_OBJECT]"

definition define_iis_refs :: "'m hook_env \<Rightarrow> (iis_refs, 'm) hook" where
  "define_iis_refs env =
     bindH (call_ignored env (DefineCorLibRef env)) (\<lambda>corlib_ref.
     bindH (call_ignored env (DefineTypeRef env corlib_ref ''System.Boolean'')) (\<lambda>bool.
     bindH (call_checked env (DefineTypeRef env corlib_ref ''System.AppDomain'')) (\<lambda>system_appdomain_type_ref.
     bindH (compressed system_appdomain_type_ref) (\<lambda>bytes.
     bindH (call_ignored env (DefineMemberRef env system_appdomain_type_ref ''get_CurrentDomain'' (get_current_domain_signature bytes)))
       (\<lambda>get_current_domain.
     bindH (call_ignored env (DefineMemberRef env system_appdomain_type_ref ''SetData'' set_data_signature)) (\<lambda>set_data.
     bindH (call_checked env (hk_DefineUserString (hk_api env) (WStr ''Datadog_IISPreInitStart''))) (\<lambda>pre_init_start.
     retH \<lparr>boolToken = bool, appdomain_get_current_domain_member_ref = get_current_domain,
       appdomain_set_data_member_ref = set_data, pre_init_start_string_token = pre_init_start\<rparr>)))))))"

text \<open>The name of the flag, its value in a box, and the call of \<open>SetData\<close>, at the position of the wrapper.\<close>

definition set_data_call :: "iis_refs \<Rightarrow> u32 \<Rightarrow> ILRewriterWrapper \<Rightarrow> hr + ILRewriterWrapper" where
  "set_data_call t flag w =
     bindE (case GetCurrentILInstr w of
         None \<Rightarrow> Inl BadAccess
       | Some pCurrentInstr \<Rightarrow>
           Inr (w\<lparr>m_ILRewriter := snd (emit_before pCurrentInstr (CEE_LDSTR, Arg32 (pre_init_start_string_token t)) (GetILRewriter w))\<rparr>))
       (\<lambda>w. bindE (LoadInt32 flag w) (\<lambda>(_, w).
        bindE (Box (boolToken t) w) (\<lambda>(_, w).
        bindE (CallMember (appdomain_set_data_member_ref t) True w) (\<lambda>(_, w). Inr w))))"

definition add_flags :: "iis_refs \<Rightarrow> ILRewriter \<Rightarrow> hr + ILRewriter" where
  "add_flags t r =
     bindE (CallMember (appdomain_get_current_domain_member_ref t) False
         (SetILPosition (m_pNext (heap r (GetILList r))) (ILRewriterWrapper_new r))) (\<lambda>(_, w).
     bindE (set_data_call t 1 w) (\<lambda>w.
     let r = GetILRewriter w;
         pInstr = m_pPrev (heap r (GetILList r));
         (pNewInstr, r) = NewILInstr r;
         r = set_opcode pNewInstr CEE_RET r;
         r = InsertAfter pInstr pNewInstr r;
         r = set_opcode pInstr CEE_CALL r;
         r = set_arg pInstr (Arg32 (appdomain_get_current_domain_member_ref t)) r
     in bindE (set_data_call t 0 (SetILPosition pNewInstr (w\<lparr>m_ILRewriter := r\<rparr>))) (\<lambda>w. Inr (GetILRewriter w))))"

definition AddIISPreStartInitFlags :: "'m hook_env \<Rightarrow> u32 \<Rightarrow> (unit, 'm) hook" where
  "AddIISPreStartInitFlags env function_token =
     bindH (module_metadata env) (\<lambda>_.
     bindH (import_method env function_token) (\<lambda>rewriter.
     bindH (define_iis_refs env) (\<lambda>refs.
     bindH (liftH (add_flags refs rewriter)) (\<lambda>rewriter.
     hand_over env function_token rewriter))))"

end
