(* ===== verification/StartupHookCode.thy ===== *)
theory StartupHookCode
  imports StartupHook
begin

text \<open>
  The code of the startup hook: what is emitted into a new or an imported rewriter, which members of
  the rewriter it leaves alone, and the bytes that \<open>Export\<close> makes of it.
\<close>

section \<open>Emitting into a ring\<close>

lemma emit_before_run:
  "emit_before w i r = (fresh r, InsertBefore w (fresh r) (set_arg (fresh r) (snd i) (set_opcode (fresh r) (fst i)
     (r\<lparr>m_nInstrs := w32 (m_nInstrs r + 1), fresh := Suc (fresh r), heap := (heap r)(fresh r := zero_instr)\<rparr>))))"
  by (cases i) (simp add: emit_before_def NewILInstr_def Let_def)

lemma emit_before_ring:
  assumes ring: "il_ring r (as @ bs)" and w: "w = hd (bs @ [m_IL])" and run: "emit_before w i r = (x, r')"
  shows "il_ring r' (as @ x # bs) \<and> x \<notin> set (as @ bs) \<and> il_node r' x = i \<and> (\<forall>p \<in> set (as @ bs). il_node r' p = il_node r p)"
proof -
  obtain r1 where r1: "NewILInstr r = (x, r1)" "r' = InsertBefore w x (set_arg x (snd i) (set_opcode x (fst i) r1))"
    "heap r1 = (heap r)(x := zero_instr)"
    using run by (auto simp: emit_before_run NewILInstr_def)
  note new = NewILInstr_ring [OF ring r1(1)]
  have "il_ring r' (as @ x # bs)"
    unfolding r1(2) using new w by (intro InsertBefore_ring_split) (simp_all add: il_ring_upd frame_simps)
  moreover have "il_node r' x = i" by (simp add: il_node_def r1(2) frame_simps)
  moreover have "il_node r' q = il_node r q" if "q \<in> set (as @ bs)" for q
    using new(3) that by (auto simp: il_node_def r1(2,3) frame_simps)
  ultimately show ?thesis using new(3) by auto
qed

interpretation any_code: il_emitter "\<lambda>_. il_ring" emit_before il_node "\<lambda>_ _. True"
  by unfold_locales (auto dest: emit_before_ring)

lemma emits_simps [simp]:
  "emits f w [] r = r"
  "emits f w (i # code) r = emits f w code (snd (f w i r))"
  by (simp_all add: emits_def)

lemma emit_before_members:
  "same_members r (snd (emit_before w i r))"
  "m_maxStack (snd (emit_before w i r)) = w32 (m_maxStack r + k_rgnStackPushes ! fst i)"
  "m_nInstrs (snd (emit_before w i r)) = w32 (m_nInstrs r + 1)"
  by (simp_all add: emit_before_run same_members_def InsertBefore_maxStack frame_simps)

lemma same_members_trans: "same_members r s \<Longrightarrow> same_members s t \<Longrightarrow> same_members r t"
  by (simp add: same_members_def)

lemma emits_members:
  "same_members r (emits emit_before w code r)"
  "m_maxStack r < 4294967296 \<Longrightarrow> m_maxStack (emits emit_before w code r) = w32 (m_maxStack r + stack_pushes code)"
  "m_nInstrs r < 4294967296 \<Longrightarrow> m_nInstrs (emits emit_before w code r) = w32 (m_nInstrs r + length code)"
proof -
  show "same_members r (emits emit_before w code r)"
    by (induction code arbitrary: r)
      (simp add: same_members_def, metis emits_simps(2) emit_before_members(1) same_members_trans)
  show "m_maxStack r < 4294967296 \<Longrightarrow> m_maxStack (emits emit_before w code r) = w32 (m_maxStack r + stack_pushes code)"
    by (induction code arbitrary: r)
      (simp_all add: stack_pushes_def emit_before_members split_beta mod_add_left_eq add.assoc)
  show "m_nInstrs r < 4294967296 \<Longrightarrow> m_nInstrs (emits emit_before w code r) = w32 (m_nInstrs r + length code)"
    by (induction code arbitrary: r) (simp_all add: emit_before_members mod_add_left_eq)
qed

lemma il_wf_nodes:
  "il_wf r ps \<longleftrightarrow> il_ring r ps \<and> list_all (il_valid (set ps)) (map (il_node r) ps) \<and> length ps \<le> m_nInstrs r"
  by (auto simp: il_wf_def il_valid_def instr_ok_def il_node_def list_all_iff)

section \<open>The code in a new rewriter\<close>

lemma tiny_rewriter_members:
  "il_ring (tiny_rewriter env) []" "m_nInstrs (tiny_rewriter env) = 0" "m_maxStack (tiny_rewriter env) = 8"
  "m_fGenerateTinyHeader (tiny_rewriter env)" "m_nEH (tiny_rewriter env) = 0" "m_flags (tiny_rewriter env) = CorILMethod_TinyFormat"
  using il_ring_new [of "hk_memory env"]
  by (simp_all add: tiny_rewriter_def InitializeTiny_def il_ring_def) (simp_all add: ILRewriter_new_def)

lemma first_of_empty: "il_ring r [] \<Longrightarrow> m_pNext (heap r (GetILList r)) = m_IL"
  by (simp add: il_ring_def GetILList_def)

lemma append_code_nodes:
  assumes "il_ring r []"
  shows "\<exists>ps. il_ring (append_code code r) ps \<and> map (il_node (append_code code r)) ps = code"
proof -
  have "il_ring r ([] @ [])" using assms by simp
  from any_code.emits_law [OF this, of m_IL code] show ?thesis
    unfolding append_code_def first_of_empty [OF assms] by (auto simp: list_all_iff)
qed

text \<open>The code of the startup method. The branch leads over the return, to the node of the first \<open>ldloca.s\<close>.\<close>

definition startup_code :: "startup_refs \<Rightarrow> ptr \<Rightarrow> il list" where
  "startup_code t target =
     [(CEE_CALL, Arg32 (alreadyLoadedMethodToken t)), (CEE_BRFALSE_S, Target target), (CEE_RET, Zeroed), (CEE_LDLOCA_S, Arg8 0)]
     @ load_code t"

lemma il_node_set_arg: "il_node (set_arg p a r) q = (if q = p then (fst (il_node r p), a) else il_node r q)"
  by (simp add: il_node_def)

lemma write_startup_code_nodes:
  assumes "il_ring r []"
  shows "\<exists>a b c d ps. il_ring (write_startup_code t r) (a # b # c # d # ps)
    \<and> map (il_node (write_startup_code t r)) (a # b # c # d # ps) = startup_code t d"
proof -
  let ?i = "[(CEE_CALL, Arg32 (alreadyLoadedMethodToken t)), (CEE_BRFALSE_S, Zeroed), (CEE_RET, Zeroed),
    (CEE_LDLOCA_S, low_byte_of_Arg32 0)]"
  obtain a r1 where r1: "emit_before m_IL (?i ! 0) r = (a, r1)" by fastforce
  obtain b r2 where r2: "emit_before m_IL (?i ! 1) r1 = (b, r2)" by fastforce
  obtain c r3 where r3: "emit_before m_IL (?i ! 2) r2 = (c, r3)" by fastforce
  obtain d r4 where r4: "emit_before m_IL (?i ! 3) r3 = (d, r4)" by fastforce
  have 1: "il_ring r1 ([a] @ [])" "il_node r1 a = ?i ! 0"
    using emit_before_ring [of r "[]" "[]" m_IL, OF _ _ r1] assms by simp_all
  have 2: "il_ring r2 ([a, b] @ [])" "il_node r2 b = ?i ! 1" "il_node r2 a = il_node r1 a"
    using emit_before_ring [OF 1(1) _ r2] by simp_all
  have 3: "il_ring r3 ([a, b, c] @ [])" "il_node r3 c = ?i ! 2" "il_node r3 a = il_node r2 a" "il_node r3 b = il_node r2 b"
    using emit_before_ring [OF 2(1) _ r3] by simp_all
  have 4: "il_ring r4 [a, b, c, d]" "il_node r4 d = ?i ! 3" "\<forall>p \<in> {a, b, c}. il_node r4 p = il_node r3 p"
    using emit_before_ring [OF 3(1) _ r4] by simp_all
  let ?r = "set_arg b (Target d) r4"
  have "distinct [a, b, c, d]" using 4(1) by (simp add: il_ring_def)
  then have nodes: "map (il_node ?r) [a, b, c, d] = take 4 (startup_code t d)"
    using 1 2 3 4 by (simp add: il_node_set_arg startup_code_def low_byte_of_Arg32_def)
  have "il_ring ?r ([a, b, c, d] @ [])" using 4(1) by (simp add: il_ring_upd frame_simps)
  from any_code.emits_law [OF this, of m_IL "load_code t"] obtain ps where
    ps: "il_ring (emits emit_before m_IL (load_code t) ?r) (a # b # c # d # ps)"
      "map (il_node (emits emit_before m_IL (load_code t) ?r)) ps = load_code t"
      "\<forall>p \<in> {a, b, c, d}. il_node (emits emit_before m_IL (load_code t) ?r) p = il_node ?r p"
    by (auto simp: list_all_iff)
  have w: "write_startup_code t r = emits emit_before m_IL (load_code t) ?r"
    using r1 r2 r3 r4 by (simp add: write_startup_code_def first_of_empty [OF assms] Let_def)
  show ?thesis
    unfolding w
  proof (intro exI conjI)
    show "map (il_node (emits emit_before m_IL (load_code t) ?r)) (a # b # c # d # ps) = startup_code t d"
      using ps(2,3) nodes by (simp add: startup_code_def)
  qed (rule ps(1))
qed

lemma write_startup_code_members:
  assumes "il_ring r []" "m_nInstrs r = 0" "m_maxStack r = 8"
  shows "same_members r (write_startup_code t r)" "m_maxStack (write_startup_code t r) = 34"
    "m_nInstrs (write_startup_code t r) = 33"
proof -
  let ?i = "[(CEE_CALL, Arg32 (alreadyLoadedMethodToken t)), (CEE_BRFALSE_S, Zeroed), (CEE_RET, Zeroed),
    (CEE_LDLOCA_S, low_byte_of_Arg32 0)]"
  obtain a r1 where r1: "emit_before m_IL (?i ! 0) r = (a, r1)" by fastforce
  obtain b r2 where r2: "emit_before m_IL (?i ! 1) r1 = (b, r2)" by fastforce
  obtain c r3 where r3: "emit_before m_IL (?i ! 2) r2 = (c, r3)" by fastforce
  obtain d r4 where r4: "emit_before m_IL (?i ! 3) r3 = (d, r4)" by fastforce
  have 4: "r4 = emits emit_before m_IL ?i r" using r1 r2 r3 r4 by simp
  let ?r = "set_arg b (Target d) r4"
  have w: "write_startup_code t r = emits emit_before m_IL (load_code t) ?r"
    using r1 r2 r3 r4 by (simp add: write_startup_code_def first_of_empty [OF assms(1)] Let_def)
  have same: "same_members r4 ?r" "m_maxStack ?r = m_maxStack r4" "m_nInstrs ?r = m_nInstrs r4"
    by (simp_all add: same_members_def frame_simps)
  show "same_members r (write_startup_code t r)"
    unfolding w using emits_members(1) same(1) 4 same_members_trans by metis
  have pushes: "stack_pushes ?i = 2" "stack_pushes (load_code t) = 24"
    by (simp_all add: stack_pushes_def load_code_def copy_code_def k_rgnStackPushes_def opdefs_def opdef_one_byte_def nth_append)
  have "m_maxStack r4 = 10" unfolding 4 using emits_members(2) [of r m_IL ?i] pushes(1) assms(3) by simp
  then show "m_maxStack (write_startup_code t r) = 34"
    unfolding w using emits_members(2) [of ?r m_IL "load_code t"] pushes(2) same(2) by simp
  have "m_nInstrs r4 = 4" unfolding 4 using emits_members(3) [of r m_IL ?i] assms(2) by simp
  then show "m_nInstrs (write_startup_code t r) = 33"
    unfolding w using emits_members(3) [of ?r m_IL "load_code t"] same(3) by (simp add: load_code_def copy_code_def)
qed

section \<open>The bytes of the code\<close>

text \<open>An instruction without a branch target.\<close>

definition il_bytes :: "il \<Rightarrow> byte list" where
  "il_bytes i = opcode_bytes (fst i) @ operand_bytes (operand_size (fst i)) (snd i)"

fun plain :: "il \<Rightarrow> bool" where
  "plain (op, Target p) = False"
| "plain (op, a) = True"

lemma enc_plain: "plain (il_node r p) \<Longrightarrow> enc_instr (heap r) sb p = il_bytes (il_node r p)"
  by (cases "m_arg (heap r p)") (simp_all add: enc_instr_def il_bytes_def il_node_def)

lemma enc_code_plain:
  "list_all plain (map (il_node r) ps) \<Longrightarrow> enc_code (heap r) sb ps = concat (map il_bytes (map (il_node r) ps))"
  by (induction ps arbitrary: sb) (simp_all add: enc_plain)

lemma lay_out_node [simp]: "il_node (lay_out ps r) = il_node r"
  by (simp add: il_node_def fun_eq_iff)

lemma export_state_no_widening:
  "\<not> list_ex (needs_widening (heap (lay_out ps r))) ps \<Longrightarrow> export_state ps r = lay_out ps r"
  by (simp add: export_state_def Let_def)

lemma plain_not_short:
  assumes "il_wf r ps" "list_all plain (map (il_node r) ps)" "p \<in> set ps"
  shows "\<not> needs_widening (heap (lay_out ps r)) p"
proof -
  have "operand_ok (insert m_IL (set ps)) (op_flags (m_opcode (heap r p))) (m_arg (heap r p))" "plain (il_node r p)"
    using assms by (auto simp: il_wf_def instr_ok_def list_all_iff)
  then have "op_flags (m_opcode (heap r p)) \<noteq> 17" by (cases "m_arg (heap r p)") (auto simp: il_node_def)
  then show ?thesis by (simp add: needs_widening_def)
qed

text \<open>What the CLR and the allocator do when nothing goes wrong.\<close>

definition memory_ok :: "'m hook_env \<Rightarrow> bool" where
  "memory_ok env \<longleftrightarrow> (\<forall>n. length (hk_new env n) = n) \<and> (\<forall>n. \<exists>m. hk_alloc env n = Some m \<and> length m = n)
     \<and> (\<forall>tok body. hk_set_body env tok body = None)"

definition tiny_body :: "il list \<Rightarrow> byte list" where
  "tiny_body code = (let bytes = concat (map il_bytes code) in of_nat (or 2 (4 * length bytes)) # bytes)"

lemma hand_over_tiny:
  assumes ok: "memory_ok env" and wf: "il_wf r ps" and code: "map (il_node r) ps = code" "list_all plain code"
    and tiny: "m_fGenerateTinyHeader r" and few: "10 * m_nInstrs r + 10 < 4294967296"
    and short: "length (concat (map il_bytes code)) < 64"
  shows "hand_over env tok r s = (Inr (), s\<lparr>hs_bodies := hs_bodies s @ [(tok, tiny_body code)]\<rparr>)"
proof -
  have st: "export_state ps r = lay_out ps r"
    using plain_not_short [OF wf] code by (intro export_state_no_widening) (auto simp: list_ex_iff)
  have enc: "enc_code (heap (lay_out ps r)) 0 ps = concat (map il_bytes code)"
    using enc_code_plain [of "lay_out ps r" ps 0] code by simp
  have "Export (hk_new env) (hk_alloc env) (hk_set_body env tok) r
      = Inr (of_nat (or 2 (4 * length (concat (map il_bytes code)))) # concat (map il_bytes code), lay_out ps r)"
    using Export_tiny [OF wf few _ tiny, of "hk_new env" "hk_alloc env" "hk_set_body env tok"] ok short
    by (simp add: memory_ok_def st enc Let_def)
  then show ?thesis by (simp add: hand_over_def tiny_body_def Let_def)
qed

lemma Export_fat:
  assumes wf: "il_wf r ps" and few: "10 * m_nInstrs r + 10 < 4294967296" and fat: "\<not> m_fGenerateTinyHeader r" "m_nEH r = 0"
    and st: "export_state ps r = lay_out ps r" and enc: "enc_code (heap (lay_out ps r)) 0 ps = code"
    and short: "length code + 16 < 4294967296"
    and mem: "\<forall>n. length (new n) = n" "\<forall>n. \<exists>m. alloc n = Some m \<and> length m = n" "\<forall>b. set_body b = None"
  shows "\<exists>pad. length pad = alignedCodeSize (length code) - length code
    \<and> Export new alloc set_body r = Inr (fat_header (m_flags r OR CorILMethod_FatFormat) (m_maxStack r) (length code) (m_tkLocalVarSig r)
        @ code @ pad, lay_out ps r)"
proof -
  let ?hdr = "fat_header (m_flags r OR CorILMethod_FatFormat) (m_maxStack r) (length code) (m_tkLocalVarSig r)"
  let ?al = "alignedCodeSize (length code)"
  have ec: "ExportCode new r = Inr (code, lay_out ps r)"
    using ExportCode_raw(2) [OF wf few, of new] mem(1) by (simp add: st enc)
  note al = alignedCodeSize_le [of "length code"]
  have total: "w32 (12 + ?al) = 12 + ?al" using al short by simp
  obtain m where m: "alloc (12 + ?al) = Some m" "length m = 12 + ?al" using mem(2) by blast
  obtain pad where pad: "length pad = ?al - length code"
    "bindE (write_bytes ?hdr 0 m) (\<lambda>m. bindE (write_bytes code 12 m) (\<lambda>m. write_bytes [] (12 + ?al) m)) = Inr (?hdr @ code @ pad)"
    using write_body [of m ?hdr ?al "[]" code] m(2) al short by (auto simp: length_fat_header)
  have frame: "m_fGenerateTinyHeader (lay_out ps r) = m_fGenerateTinyHeader r" "m_nEH (lay_out ps r) = m_nEH r"
    "m_flags (lay_out ps r) = m_flags r" "m_maxStack (lay_out ps r) = m_maxStack r" "m_tkLocalVarSig (lay_out ps r) = m_tkLocalVarSig r"
    by (simp_all add: lay_out_frame)
  have "Export new alloc set_body r = Inr (?hdr @ code @ pad, lay_out ps r)"
    using fat mem(3) m(1) pad(2) total unfolding Export_def ec bindE_Inr prod.case Let_def frame
    by (simp add: export_clauses_def)
  then show ?thesis using pad(1) by blast
qed

section \<open>The two methods\<close>

lemma hook_flags:
  "op_flags 6 = 0" "op_flags 7 = 0" "op_flags 8 = 0" "op_flags 9 = 0" "op_flags 17 = 1" "op_flags 18 = 1" "op_flags 19 = 1"
  "op_flags 22 = 0" "op_flags 23 = 0" "op_flags 38 = 0" "op_flags 40 = 4" "op_flags 42 = 0" "op_flags 44 = 17"
  "op_flags 111 = 4" "op_flags 114 = 4" "op_flags 127 = 4" "op_flags 140 = 4" "op_flags 141 = 4" "op_flags 257 = 0"
  by (simp_all add: s_OpCodeFlags_def opdefs_def opdef_one_byte_def opdef_two_byte_def nth_append)

lemma le_bytes_1: "le_bytes (Suc 0) w = [ucast w]"
  by simp

lemmas byte_simps = le_bytes_1 il_bytes_def opcode_bytes_def operand_size_def hook_flags

lemma already_loaded_bytes:
  "concat (map il_bytes (already_loaded_code field compare)) =
     0x7F # le_bytes 4 field @ [0x17, 0x16, 0x28] @ le_bytes 4 compare @ [0x17, 0xFE, 0x01, 0x2A]"
  "concat (map il_bytes never_loaded_code) = [0x16, 0x2A]"
  by (simp_all add: already_loaded_code_def never_loaded_code_def byte_simps del: le_bytes.simps)

text \<open>The bytes of the startup method, by ECMA-335.\<close>

definition startup_bytes :: "startup_refs \<Rightarrow> byte list" where
  "startup_bytes t =
     0x28 # le_bytes 4 (alreadyLoadedMethodToken t) @ [0x2C, 0x01, 0x2A]
     @ [0x12, 0, 0x12, 1, 0x12, 2, 0x12, 3, 0x28] @ le_bytes 4 (pinvoke_method_def t)
     @ [0x07, 0x8D] @ le_bytes 4 (byte_type_ref t) @ [0x13, 4, 0x06, 0x11, 4, 0x16, 0x07, 0x28] @ le_bytes 4 (marshal_copy_member_ref t)
     @ [0x09, 0x8D] @ le_bytes 4 (byte_type_ref t) @ [0x13, 5, 0x08, 0x11, 5, 0x16, 0x09, 0x28] @ le_bytes 4 (marshal_copy_member_ref t)
     @ [0x11, 4, 0x11, 5, 0x28] @ le_bytes 4 (appdomain_load_member_ref t) @ [0x13, 6, 0x11, 6]
     @ 0x72 # le_bytes 4 (load_helper_token t) @ 0x6F # le_bytes 4 (assembly_create_instance_member_ref t) @ [0x26, 0x2A]"

lemma length_startup_bytes: "length (startup_bytes t) = 82"
  by (simp add: startup_bytes_def del: le_bytes.simps)

lemma load_code_bytes:
  "startup_bytes t = 0x28 # le_bytes 4 (alreadyLoadedMethodToken t) @ [0x2C, 0x01, 0x2A, 0x12, 0] @ concat (map il_bytes (load_code t))"
  by (simp add: startup_bytes_def load_code_def copy_code_def low_byte_of_Arg32_def byte_simps del: le_bytes.simps)

lemma load_code_valid: "list_all (il_valid P) (load_code t)" "list_all plain (load_code t)"
  by (simp_all add: load_code_def copy_code_def low_byte_of_Arg32_def il_valid_def hook_flags)

lemma startup_code_wf:
  assumes "il_ring r (a # b # c # d # ps)" "map (il_node r) (a # b # c # d # ps) = startup_code t d" "33 \<le> m_nInstrs r"
  shows "il_wf r (a # b # c # d # ps)"
proof -
  have "length (a # b # c # d # ps) = length (startup_code t d)" using assms(2) by (metis length_map)
  then have "length ps = 29" by (simp add: startup_code_def load_code_def copy_code_def)
  moreover have "list_all (il_valid (set (a # b # c # d # ps))) (startup_code t d)"
    using load_code_valid(1) by (simp add: startup_code_def il_valid_def hook_flags)
  ultimately show ?thesis unfolding il_wf_nodes assms(2) using assms(1,3) by simp
qed

lemma startup_code_export:
  assumes wf: "il_wf r (a # b # c # d # ps)" and nodes: "map (il_node r) (a # b # c # d # ps) = startup_code t d"
  shows "export_state (a # b # c # d # ps) r = lay_out (a # b # c # d # ps) r"
    "enc_code (heap (lay_out (a # b # c # d # ps) r)) 0 (a # b # c # d # ps) = startup_bytes t"
proof -
  let ?ps = "a # b # c # d # ps"
  let ?h = "heap (lay_out ?ps r)"
  have ring: "il_ring r ?ps" using wf by (simp add: il_wf_def)
  have n: "(m_opcode (heap r a), m_arg (heap r a)) = (CEE_CALL, Arg32 (alreadyLoadedMethodToken t))"
    "(m_opcode (heap r b), m_arg (heap r b)) = (CEE_BRFALSE_S, Target d)"
    "(m_opcode (heap r c), m_arg (heap r c)) = (CEE_RET, Zeroed)" "(m_opcode (heap r d), m_arg (heap r d)) = (CEE_LDLOCA_S, Arg8 0)"
    "map (il_node r) ps = load_code t"
    using nodes by (simp_all add: startup_code_def il_node_def)
  have "laid_out ?h 0 ?ps" using ring by (intro laid_out_lay_out) (simp add: il_ring_def)
  then have off: "m_offset (?h b) = 5" "m_offset (?h c) = 7" "m_offset (?h d) = 8"
    using n(1-3) by (simp_all add: instr_size_def byte_simps)
  have "m_pNext (heap r b) = c" using ring by (simp add: il_ring_def)
  then have delta: "target_delta ?h b = 1" using n(2) off by (simp add: target_delta_def branch_delta_def)
  have "\<not> needs_widening ?h p" if p: "p \<in> set ?ps" for p
  proof (cases "p = b")
    case True
    then show ?thesis using delta by (simp add: needs_widening_def fits_int8_def)
  next
    case False
    then have "p \<in> {a, c, d} \<union> set ps" using p by auto
    then have "plain (il_node r p)"
      using n(1,3,4) load_code_valid(2) [of t, folded n(5)] by (auto simp: il_node_def list_all_iff)
    moreover have "operand_ok (insert m_IL (set ?ps)) (op_flags (m_opcode (heap r p))) (m_arg (heap r p))"
      using wf p by (simp add: il_wf_def instr_ok_def) blast
    ultimately have "op_flags (m_opcode (heap r p)) \<noteq> 17" by (cases "m_arg (heap r p)") (auto simp: il_node_def)
    then show ?thesis by (simp add: needs_widening_def)
  qed
  then show "export_state ?ps r = lay_out ?ps r" by (intro export_state_no_widening) (simp add: list_ex_iff)
  have b: "enc_instr ?h sb b = [0x2C, 1]" for sb
    using n(2) off by (simp add: enc_instr_def is_branch_def branch_base_def branch_delta_def instr_size_def byte_simps)
  have rest: "enc_code ?h sb ps = concat (map il_bytes (load_code t))" for sb
    using enc_code_plain [of "lay_out ?ps r" ps sb] load_code_valid(2) [of t] n(5) by simp
  have "enc_code ?h 0 ?ps = il_bytes (CEE_CALL, Arg32 (alreadyLoadedMethodToken t)) @ [0x2C, 1] @ il_bytes (CEE_RET, Zeroed)
      @ il_bytes (CEE_LDLOCA_S, Arg8 0) @ concat (map il_bytes (load_code t))"
    using n(1,3,4) b rest enc_plain [of "lay_out ?ps r"] by (simp add: il_node_def)
  also have "\<dots> = startup_bytes t" unfolding load_code_bytes by (simp add: byte_simps del: le_bytes.simps)
  finally show "enc_code ?h 0 ?ps = startup_bytes t" .
qed

section \<open>The bodies handed over\<close>

definition IsAlreadyLoaded_body :: "'m hook_env \<Rightarrow> u32 \<Rightarrow> u32 \<Rightarrow> byte list" where
  "IsAlreadyLoaded_body env field compare =
     (if hk_is_net46_or_greater env
      then [0x42, 0x7F] @ le_bytes 4 field @ [0x17, 0x16, 0x28] @ le_bytes 4 compare @ [0x17, 0xFE, 0x01, 0x2A]
      else [0x0A, 0x16, 0x2A])"

definition startup_body :: "startup_refs \<Rightarrow> byte list \<Rightarrow> byte list" where
  "startup_body t padding = fat_header 0x3 34 82 (locals_signature_token t) @ startup_bytes t @ padding"

lemma hand_over_code:
  assumes ok: "memory_ok env" and code: "list_all plain code" "list_all (il_valid {}) code" "length code \<le> 7"
    and short: "length (concat (map il_bytes code)) < 64"
  shows "hand_over env tok (append_code code (tiny_rewriter env)) s
    = (Inr (), s\<lparr>hs_bodies := hs_bodies s @ [(tok, tiny_body code)]\<rparr>)"
proof -
  let ?r = "append_code code (tiny_rewriter env)"
  obtain ps where ps: "il_ring ?r ps" "map (il_node ?r) ps = code"
    using append_code_nodes [OF tiny_rewriter_members(1)] by blast
  have len: "length ps = length code" using ps(2) by (metis length_map)
  have n: "m_nInstrs ?r = length code" "m_fGenerateTinyHeader ?r"
    using emits_members(1) [of "tiny_rewriter env"] emits_members(3) [of "tiny_rewriter env"] tiny_rewriter_members [of env] code(3)
    by (auto simp: append_code_def same_members_def)
  have "list_all (il_valid (set ps)) code"
    using code(2) rewriter.valid_mono [of "{}" _ "set ps"] by (auto simp: list_all_iff)
  then have "il_wf ?r ps" unfolding il_wf_nodes ps(2) using ps(1) n(1) len by simp
  then show ?thesis using hand_over_tiny [OF ok _ ps(2) code(1) n(2) _ short] n(1) code(3) by simp
qed

lemma hand_over_already_loaded:
  assumes "memory_ok env"
  shows "hand_over env tok (append_code (if hk_is_net46_or_greater env then already_loaded_code field compare else never_loaded_code)
      (tiny_rewriter env)) s
    = (Inr (), s\<lparr>hs_bodies := hs_bodies s @ [(tok, IsAlreadyLoaded_body env field compare)]\<rparr>)"
proof -
  have body: "tiny_body (already_loaded_code field compare) = [0x42, 0x7F] @ le_bytes 4 field @ [0x17, 0x16, 0x28] @ le_bytes 4 compare
      @ [0x17, 0xFE, 0x01, 0x2A]" "tiny_body never_loaded_code = [0x0A, 0x16, 0x2A]"
    unfolding tiny_body_def already_loaded_bytes by (simp_all add: Let_def del: le_bytes.simps)
  have v: "list_all plain (already_loaded_code field compare)" "list_all (il_valid {}) (already_loaded_code field compare)"
    "list_all plain never_loaded_code" "list_all (il_valid {}) never_loaded_code"
    by (simp_all add: already_loaded_code_def never_loaded_code_def il_valid_def hook_flags)
  have n: "length (already_loaded_code field compare) = 7" "length never_loaded_code = 2"
    by (simp_all add: already_loaded_code_def never_loaded_code_def)
  note over = hand_over_code [OF assms v(1,2), where tok = tok and s = s] hand_over_code [OF assms v(3,4), where tok = tok and s = s]
  show ?thesis
    using over n already_loaded_bytes body
    by (simp add: IsAlreadyLoaded_body_def del: le_bytes.simps append.simps)
qed

lemma hand_over_startup:
  assumes "memory_ok env"
  shows "\<exists>padding. length padding = 2 \<and> hand_over env tok (write_startup_code t (SetTkLocalVarSig (locals_signature_token t) (tiny_rewriter env))) s
    = (Inr (), s\<lparr>hs_bodies := hs_bodies s @ [(tok, startup_body t padding)]\<rparr>)"
proof -
  let ?init = "SetTkLocalVarSig (locals_signature_token t) (tiny_rewriter env)"
  let ?r = "write_startup_code t ?init"
  have r0: "il_ring ?init []" "m_nInstrs ?init = 0" "m_maxStack ?init = 8" "m_tkLocalVarSig ?init = locals_signature_token t"
    "\<not> m_fGenerateTinyHeader ?init" "m_nEH ?init = 0" "m_flags ?init = CorILMethod_TinyFormat"
    using tiny_rewriter_members [of env] by (simp_all add: SetTkLocalVarSig_def il_ring_def)
  note mem = write_startup_code_members [OF r0(1-3), of t]
  obtain a b c d ps where ps: "il_ring ?r (a # b # c # d # ps)" "map (il_node ?r) (a # b # c # d # ps) = startup_code t d"
    using write_startup_code_nodes [OF r0(1)] by blast
  note wf = startup_code_wf [OF ps]
  note ex = startup_code_export [OF wf ps(2)]
  have al: "alignedCodeSize 82 = 84" by (simp add: alignedCodeSize_def)
  have m: "\<not> m_fGenerateTinyHeader ?r" "m_nEH ?r = 0" "m_flags ?r OR CorILMethod_FatFormat = 0x3" "m_tkLocalVarSig ?r = locals_signature_token t"
    using mem(1) r0 by (simp_all add: same_members_def)
  have ok: "\<forall>n. length (hk_new env n) = n" "\<forall>n. \<exists>m. hk_alloc env n = Some m \<and> length m = n" "\<forall>b. hk_set_body env tok b = None"
    using assms by (simp_all add: memory_ok_def)
  obtain padding where "length padding = 2" "Export (hk_new env) (hk_alloc env) (hk_set_body env tok) ?r
      = Inr (startup_body t padding, lay_out (a # b # c # d # ps) ?r)"
    using Export_fat [OF wf _ m(1,2) ex _ ok] mem(2,3) m(3,4) length_startup_bytes [of t] al unfolding startup_body_def by auto
  then show ?thesis by (auto simp: hand_over_def)
qed

section \<open>The hook monad\<close>

lemma bindH_Inr: "bindH f g s = (Inr y, s') \<longleftrightarrow> (\<exists>x s1. f s = (Inr x, s1) \<and> g x s1 = (Inr y, s'))"
  by (auto simp: bindH_def split: prod.splits sum.splits)

lemma bindH_Inl: "bindH f g s = (Inl e, s') \<longleftrightarrow> f s = (Inl e, s') \<or> (\<exists>x s1. f s = (Inr x, s1) \<and> g x s1 = (Inl e, s'))"
  by (auto simp: bindH_def split: prod.splits sum.splits)

text \<open>Operations that fail only with a failure of the CLR, and operations that hand nothing over.\<close>

definition reports :: "('a, 'm) hook \<Rightarrow> bool" where
  "reports f \<longleftrightarrow> (\<forall>s e s'. f s = (Inl e, s') \<longrightarrow> (\<exists>hr. e = ClrError hr \<and> FAILED hr))"

definition silent :: "('a, 'm) hook \<Rightarrow> bool" where
  "silent f \<longleftrightarrow> (\<forall>s r s'. f s = (r, s') \<longrightarrow> hs_bodies s' = hs_bodies s)"

named_theorems hook_intros \<open>operations that only fail with the CLR, or that hand nothing over\<close>

lemma reports_bind [hook_intros]: "reports f \<Longrightarrow> (\<And>x. reports (g x)) \<Longrightarrow> reports (bindH f g)"
  unfolding reports_def bindH_Inl by blast

lemma silent_bind [hook_intros]:
  assumes "silent f" "\<And>x. silent (g x)"
  shows "silent (bindH f g)"
  unfolding silent_def
proof (intro allI impI)
  fix s r s' assume run: "bindH f g s = (r, s')"
  show "hs_bodies s' = hs_bodies s"
  proof (cases r)
    case (Inl e)
    then show ?thesis using run assms unfolding Inl bindH_Inl silent_def by metis
  next
    case (Inr y)
    then show ?thesis using run assms unfolding Inr bindH_Inr silent_def by metis
  qed
qed

lemma CorSigCompressToken_Some: "\<exists>bs. CorSigCompressToken tk = Some bs"
  using token_bits(3) [OF RidFromToken_bound [of tk] token_tag_bound [of "TypeFromToken tk"]] CorSigCompressData_None_iff
  by (simp add: CorSigCompressToken_eq flip: not_None_eq)

lemma hook_basic [hook_intros]:
  "reports (retH x)" "silent (retH x)" "silent (liftH r)"
  "reports (call_checked env c)" "silent (call_checked env c)" "reports (call_ignored env c)" "silent (call_ignored env c)"
  "reports (compressed tk)" "silent (compressed tk)" "reports (module_metadata env)" "silent (module_metadata env)"
  using CorSigCompressToken_Some [of tk]
  by (auto simp: reports_def silent_def retH_def liftH_def call_checked_def call_ignored_def compressed_def module_metadata_def Let_def
      split: prod.splits if_splits)

lemma hook_if [hook_intros]:
  "reports f \<Longrightarrow> reports g \<Longrightarrow> reports (if b then f else g)" "silent f \<Longrightarrow> silent g \<Longrightarrow> silent (if b then f else g)"
  by simp_all

lemma hook_pieces [hook_intros]:
  "reports (IsAlreadyLoaded_code env c t)" "silent (IsAlreadyLoaded_code env c t)"
  "reports (define_pinvoke env t)" "silent (define_pinvoke env t)"
  "reports (define_refs env c l p)" "silent (define_refs env c l p)"
  "reports (define_iis_refs env)" "silent (define_iis_refs env)"
  unfolding IsAlreadyLoaded_code_def define_pinvoke_def define_refs_def define_iis_refs_def by (intro hook_intros)+

end
