(* ===== verification/StartupHookRun.thy ===== *)
theory StartupHookRun
  imports StartupHookCode "HOL-Library.Multiset"
begin

text \<open>
  What the methods of the startup hook do when they run, on any number of threads: a machine for the
  instructions they consist of (ECMA-335, partition III), with the field that \<open>IsAlreadyLoaded\<close>
  exchanges as the state that the threads share. A step is one instruction of one thread; the exchange
  is atomic.

  The values are symbolic: what a call returns, what it writes through an address and a new array are
  told apart by the call and by a count. A step that ECMA-335 does not allow (an empty stack, a local
  that does not exist, a value of the wrong kind, more on the stack than the method returns) is no
  step, so a thread that can always go on is free of these errors.
\<close>

section \<open>The machine\<close>

datatype val = VUninit | VInt u32 | VLocal nat | VStatic u32 | VString u32 | VNew nat val | VOut u32 nat | VResult u32 nat

datatype callee = IL_method "ptr list" "il list" | CompareExchange | Native nat bool

text \<open>A method of the runtime, by its signature: how many values it takes, and whether it returns one.\<close>

definition native_of :: "byte list \<Rightarrow> callee" where
  "native_of sig = Native (unat (sig ! 1) + (if sig ! 0 AND CALLCONV_HASTHIS \<noteq> 0 then 1 else 0)) (sig ! 2 \<noteq> ELEMENT_TYPE_VOID)"

text \<open>A method of a rewriter: its nodes and its code.\<close>

definition method_of :: "ILRewriter \<Rightarrow> callee" where
  "method_of r = (case il_nodes r of Inr ps \<Rightarrow> IL_method ps (map (il_node r) ps) | Inl _ \<Rightarrow> IL_method [] [])"

record frame =
  fr_ptrs :: "ptr list"
  fr_code :: "il list"
  fr_rest :: "il list"
  fr_stack :: "val list"
  fr_locals :: "val list"

record thread =
  th_frames :: "frame list"
  th_new :: nat
  th_calls :: "(u32 \<times> val list) list"

definition new_frame :: "nat \<Rightarrow> callee \<Rightarrow> frame" where
  "new_frame n m = (case m of IL_method ps code \<Rightarrow>
       \<lparr>fr_ptrs = ps, fr_code = code, fr_rest = code, fr_stack = [], fr_locals = replicate n VUninit\<rparr>
     | _ \<Rightarrow> \<lparr>fr_ptrs = [], fr_code = [], fr_rest = [], fr_stack = [], fr_locals = []\<rparr>)"

definition start_thread :: "nat \<Rightarrow> callee \<Rightarrow> thread" where
  "start_thread n m = \<lparr>th_frames = [new_frame n m], th_new = 0, th_calls = []\<rparr>"

text \<open>The instructions that only use the stack and the locals, with the number of the next array.\<close>

definition stack_step :: "nat \<Rightarrow> il \<Rightarrow> val list \<times> val list \<Rightarrow> (val list \<times> val list) option" where
  "stack_step k i = (\<lambda>(st, ls). case snd i of
     Zeroed \<Rightarrow>
       if CEE_LDLOC_0 \<le> fst i \<and> fst i \<le> CEE_LDLOC_3 \<and> fst i - CEE_LDLOC_0 < length ls then Some (ls ! (fst i - CEE_LDLOC_0) # st, ls)
       else if CEE_LDC_I4_0 \<le> fst i \<and> fst i \<le> CEE_LDC_I4_0 + 8 then Some (VInt (of_nat (fst i - CEE_LDC_I4_0)) # st, ls)
       else if fst i = CEE_POP then (case st of v # st \<Rightarrow> Some (st, ls) | _ \<Rightarrow> None)
       else if fst i = CEE_CEQ then (case st of VInt b # VInt a # st \<Rightarrow> Some (VInt (if a = b then 1 else 0) # st, ls) | _ \<Rightarrow> None)
       else None
   | Arg8 n \<Rightarrow>
       if length ls \<le> unat n then None
       else if fst i = CEE_LDLOC_S then Some (ls ! unat n # st, ls)
       else if fst i = CEE_LDLOCA_S then Some (VLocal (unat n) # st, ls)
       else if fst i = CEE_STLOC_S then (case st of v # st \<Rightarrow> Some (st, ls[unat n := v]) | _ \<Rightarrow> None)
       else None
   | Arg32 tok \<Rightarrow>
       if fst i = CEE_LDSFLDA then Some (VStatic tok # st, ls)
       else if fst i = CEE_LDSTR then Some (VString tok # st, ls)
       else if fst i = CEE_NEWARR then (case st of v # st \<Rightarrow> Some (VNew k v # st, ls) | _ \<Rightarrow> None)
       else None
   | _ \<Rightarrow> None)"

text \<open>What a call writes through the addresses of locals it is given.\<close>

definition write_outs :: "u32 \<Rightarrow> val list \<Rightarrow> val list \<Rightarrow> val list" where
  "write_outs tok args ls = fold (\<lambda>(i, a) ls. case a of VLocal l \<Rightarrow> ls[l := VOut tok i] | _ \<Rightarrow> ls) (enumerate 0 args) ls"

definition call_step :: "(u32 \<Rightarrow> callee option) \<Rightarrow> u32 \<Rightarrow> frame \<Rightarrow> frame list \<Rightarrow> thread \<Rightarrow> thread option" where
  "call_step M tok f fs th = (case M tok of
     Some (IL_method ps code) \<Rightarrow> Some (th\<lparr>th_frames := new_frame 0 (IL_method ps code) # f # fs\<rparr>)
   | Some (Native n returns) \<Rightarrow>
       if length (fr_stack f) < n then None
       else
         let args = rev (take n (fr_stack f)); st = drop n (fr_stack f)
         in Some (th\<lparr>th_calls := th_calls th @ [(tok, args)],
              th_frames := f\<lparr>fr_stack := if returns then VResult tok (length (th_calls th)) # st else st,
                fr_locals := write_outs tok args (fr_locals f)\<rparr> # fs\<rparr>)
   | _ \<Rightarrow> None)"

text \<open>A step that is not an exchange.\<close>

definition local_step :: "(u32 \<Rightarrow> callee option) \<Rightarrow> thread \<Rightarrow> thread option" where
  "local_step M th = (case th_frames th of [] \<Rightarrow> None | f # fs \<Rightarrow> (case fr_rest f of [] \<Rightarrow> None | i # rest \<Rightarrow>
     if fst i = CEE_CALL \<or> fst i = CEE_CALLVIRT then
       (case snd i of Arg32 tok \<Rightarrow> call_step M tok (f\<lparr>fr_rest := rest\<rparr>) fs th | _ \<Rightarrow> None)
     else if fst i = CEE_RET then
       (case fs of
          [] \<Rightarrow> if fr_stack f = [] then Some (th\<lparr>th_frames := []\<rparr>) else None
        | g # gs \<Rightarrow> (case fr_stack f of [v] \<Rightarrow> Some (th\<lparr>th_frames := g\<lparr>fr_stack := v # fr_stack g\<rparr> # gs\<rparr>) | _ \<Rightarrow> None))
     else if fst i = CEE_BRFALSE_S then
       (case (snd i, fr_stack f) of
          (Target p, VInt b # st) \<Rightarrow>
            Some (th\<lparr>th_frames := f\<lparr>fr_stack := st,
              fr_rest := if b = 0 then drop (length (takeWhile (\<lambda>q. q \<noteq> p) (fr_ptrs f))) (fr_code f) else rest\<rparr> # fs\<rparr>)
        | _ \<Rightarrow> None)
     else
       map_option (\<lambda>(st, ls). th\<lparr>th_frames := f\<lparr>fr_rest := rest, fr_stack := st, fr_locals := ls\<rparr> # fs,
           th_new := if fst i = CEE_NEWARR then Suc (th_new th) else th_new th\<rparr>)
         (stack_step (th_new th) i (fr_stack f, fr_locals f))))"

text \<open>The exchange: when the field holds the comparand it is set to the value; its old value is the result.\<close>

definition exchange :: "(u32 \<Rightarrow> callee option) \<Rightarrow> u32 \<Rightarrow> thread \<Rightarrow> (u32 \<times> u32 \<times> (u32 \<Rightarrow> thread)) option" where
  "exchange M field th = (case th_frames th of f # fs \<Rightarrow> (case (fr_rest f, fr_stack f) of
       ((op, Arg32 tok) # rest, VInt comparand # VInt value # VStatic fld # st) \<Rightarrow>
         if op = CEE_CALL \<and> M tok = Some CompareExchange \<and> fld = field
         then Some (comparand, value, \<lambda>old. th\<lparr>th_frames := f\<lparr>fr_rest := rest, fr_stack := VInt old # st\<rparr> # fs\<rparr>)
         else None
     | _ \<Rightarrow> None) | _ \<Rightarrow> None)"

definition hook_step :: "(u32 \<Rightarrow> callee option) \<Rightarrow> u32 \<Rightarrow> u32 \<Rightarrow> thread \<Rightarrow> (u32 \<times> thread) option" where
  "hook_step M field v th = (case exchange M field th of
     Some (comparand, value, next) \<Rightarrow> Some (if v = comparand then value else v, next v)
   | None \<Rightarrow> map_option (Pair v) (local_step M th))"

inductive pool_step :: "(u32 \<Rightarrow> callee option) \<Rightarrow> u32 \<Rightarrow> u32 \<times> thread list \<Rightarrow> u32 \<times> thread list \<Rightarrow> bool"
  for M field where
  step: "i < length ths \<Longrightarrow> hook_step M field v (ths ! i) = Some (v', th') \<Longrightarrow> pool_step M field (v, ths) (v', ths[i := th'])"

inductive_cases pool_stepE: "pool_step M field (v, ths) s"

section \<open>Runs of one thread between exchanges\<close>

fun local_run :: "(u32 \<Rightarrow> callee option) \<Rightarrow> u32 \<Rightarrow> nat \<Rightarrow> thread \<Rightarrow> thread option" where
  "local_run M field 0 th = Some th"
| "local_run M field (Suc k) th =
     (if exchange M field th \<noteq> None then None else Option.bind (local_step M th) (local_run M field k))"

lemma local_run_numeral [simp]:
  "local_run M field (numeral n) th =
     (if exchange M field th \<noteq> None then None else Option.bind (local_step M th) (local_run M field (pred_numeral n)))"
  by (simp add: numeral_eq_Suc)

lemma local_run_add: "local_run M field (j + k) th = Option.bind (local_run M field j th) (local_run M field k)"
  by (induction j arbitrary: th) (auto split: Option.bind_split)

text \<open>The references mean what they have been defined for.\<close>

definition resolves :: "'m hook_env \<Rightarrow> (u32 \<Rightarrow> callee option) \<Rightarrow> startup_refs \<Rightarrow> u32 \<Rightarrow> u32 \<Rightarrow> bool" where
  "resolves env M t field compare \<longleftrightarrow>
     M (alreadyLoadedMethodToken t) = Some (method_of (append_code (already_loaded_code field compare) (tiny_rewriter env)))
     \<and> M compare = Some CompareExchange
     \<and> M (pinvoke_method_def t) = Some (native_of get_assembly_bytes_signature)
     \<and> M (marshal_copy_member_ref t) = Some (native_of marshal_copy_signature)
     \<and> (\<exists>bytes. M (appdomain_load_member_ref t) = Some (native_of (appdomain_load_signature bytes)))
     \<and> M (assembly_create_instance_member_ref t) = Some (native_of create_instance_signature)"

definition startup_thread :: "'m hook_env \<Rightarrow> startup_refs \<Rightarrow> thread" where
  "startup_thread env t = start_thread 7
     (method_of (write_startup_code t (SetTkLocalVarSig (locals_signature_token t) (tiny_rewriter env))))"

text \<open>The calls of a thread that loads the assembly: its bytes and those of its symbols, the two copies,
  the load with the copies, and the instance of the startup class.\<close>

definition loader_calls :: "startup_refs \<Rightarrow> (u32 \<times> val list) list" where
  "loader_calls t = (let p = pinvoke_method_def t; c = marshal_copy_member_ref t; l = appdomain_load_member_ref t;
       assembly = VNew 0 (VOut p 1); symbols = VNew 1 (VOut p 3) in
     [(p, [VLocal 0, VLocal 1, VLocal 2, VLocal 3]),
      (c, [VOut p 0, assembly, VInt 0, VOut p 1]), (c, [VOut p 2, symbols, VInt 0, VOut p 3]),
      (l, [assembly, symbols]), (assembly_create_instance_member_ref t, [VResult l 3, VString (load_helper_token t)])])"

lemma natives:
  "native_of get_assembly_bytes_signature = Native 4 False" "native_of marshal_copy_signature = Native 4 False"
  "native_of (appdomain_load_signature bytes) = Native 2 True" "native_of create_instance_signature = Native 2 True"
  by (simp_all add: native_of_def get_assembly_bytes_signature_def marshal_copy_signature_def appdomain_load_signature_def
      create_instance_signature_def)

lemma method_of_ring: "il_ring r ps \<Longrightarrow> method_of r = IL_method ps (map (il_node r) ps)"
  by (simp add: method_of_def il_nodes_ring)

lemma resolvesD:
  assumes "resolves env M t field compare"
  shows "\<exists>ps. M (alreadyLoadedMethodToken t) = Some (IL_method ps (already_loaded_code field compare))" "M compare = Some CompareExchange"
    "M (pinvoke_method_def t) = Some (Native 4 False)" "M (marshal_copy_member_ref t) = Some (Native 4 False)"
    "M (appdomain_load_member_ref t) = Some (Native 2 True)" "M (assembly_create_instance_member_ref t) = Some (Native 2 True)"
proof -
  obtain ps where "il_ring (append_code (already_loaded_code field compare) (tiny_rewriter env)) ps"
    "map (il_node (append_code (already_loaded_code field compare) (tiny_rewriter env))) ps = already_loaded_code field compare"
    using append_code_nodes [OF tiny_rewriter_members(1)] by blast
  then show "\<exists>ps. M (alreadyLoadedMethodToken t) = Some (IL_method ps (already_loaded_code field compare))"
    using assms method_of_ring by (auto simp: resolves_def)
qed (use assms natives in \<open>auto simp: resolves_def\<close>)

lemma startup_thread_code:
  "\<exists>a b c d ps. startup_thread env t = start_thread 7 (IL_method (a # b # c # d # ps) (startup_code t d)) \<and> distinct [a, b, c, d]"
proof -
  let ?init = "SetTkLocalVarSig (locals_signature_token t) (tiny_rewriter env)"
  have "il_ring ?init []" using tiny_rewriter_members(1) [of env] by (simp add: SetTkLocalVarSig_def il_ring_def)
  from write_startup_code_nodes [OF this, of t] obtain a b c d ps where
    ps: "il_ring (write_startup_code t ?init) (a # b # c # d # ps)"
      "map (il_node (write_startup_code t ?init)) (a # b # c # d # ps) = startup_code t d" by blast
  have "startup_thread env t = start_thread 7 (IL_method (a # b # c # d # ps) (startup_code t d))"
    unfolding startup_thread_def method_of_ring [OF ps(1)] ps(2) by (rule refl)
  moreover have "distinct (m_IL # a # b # c # d # ps)" using ps(1) unfolding il_ring_def by blast
  then have "distinct [a, b, c, d]" by simp
  ultimately show ?thesis by blast
qed

text \<open>The state in front of the exchange, and those behind it.\<close>

definition main_frame :: "ptr list \<Rightarrow> il list \<Rightarrow> il list \<Rightarrow> val list \<Rightarrow> val list \<Rightarrow> frame" where
  "main_frame ps code rest st ls = \<lparr>fr_ptrs = ps, fr_code = code, fr_rest = rest, fr_stack = st, fr_locals = ls\<rparr>"

definition at_exchange :: "ptr list \<Rightarrow> il list \<Rightarrow> ptr list \<Rightarrow> u32 \<Rightarrow> u32 \<Rightarrow> thread" where
  "at_exchange ps code qs field compare = \<lparr>th_frames =
     [main_frame qs (already_loaded_code field compare) (drop 3 (already_loaded_code field compare)) [VInt 0, VInt 1, VStatic field] [],
      main_frame ps code (drop 1 code) [] (replicate 7 VUninit)], th_new = 0, th_calls = []\<rparr>"

definition after_exchange :: "ptr list \<Rightarrow> il list \<Rightarrow> ptr list \<Rightarrow> u32 \<Rightarrow> u32 \<Rightarrow> u32 \<Rightarrow> thread" where
  "after_exchange ps code qs field compare old = \<lparr>th_frames =
     [main_frame qs (already_loaded_code field compare) (drop 4 (already_loaded_code field compare)) [VInt old] [],
      main_frame ps code (drop 1 code) [] (replicate 7 VUninit)], th_new = 0, th_calls = []\<rparr>"

definition ended :: "nat \<Rightarrow> (u32 \<times> val list) list \<Rightarrow> thread" where
  "ended k cs = \<lparr>th_frames = [], th_new = k, th_calls = cs\<rparr>"

lemmas machine_simps = local_step_def exchange_def call_step_def stack_step_def new_frame_def main_frame_def write_outs_def
  already_loaded_code_def

lemma run_to_exchange:
  assumes "resolves env M t field compare"
  shows "\<exists>qs. local_run M field 4 (start_thread 7 (IL_method (a # b # c # d # ps) (startup_code t d)))
      = Some (at_exchange (a # b # c # d # ps) (startup_code t d) qs field compare)
    \<and> M (alreadyLoadedMethodToken t) = Some (IL_method qs (already_loaded_code field compare))"
proof -
  obtain qs where m: "M (alreadyLoadedMethodToken t) = Some (IL_method qs (already_loaded_code field compare))"
    using resolvesD(1) [OF assms] by blast
  have 4: "(4 :: nat) = Suc (Suc (Suc (Suc 0)))" by simp
  have head: "startup_code t d = call_il (alreadyLoadedMethodToken t) # drop 1 (startup_code t d)" by (simp add: startup_code_def)
  have "local_run M field 4 \<lparr>th_frames = [main_frame ps code (call_il (alreadyLoadedMethodToken t) # rest) [] ls], th_new = 0, th_calls = []\<rparr>
      = Some \<lparr>th_frames = [main_frame qs (already_loaded_code field compare) (drop 3 (already_loaded_code field compare))
          [VInt 0, VInt 1, VStatic field] [], main_frame ps code rest [] ls], th_new = 0, th_calls = []\<rparr>" for ps code rest ls
    unfolding 4 by (simp add: machine_simps m)
  from this [of "a # b # c # d # ps" "startup_code t d" "drop 1 (startup_code t d)" "replicate 7 VUninit", folded head]
  have "local_run M field 4 (start_thread 7 (IL_method (a # b # c # d # ps) (startup_code t d)))
      = Some (at_exchange (a # b # c # d # ps) (startup_code t d) qs field compare)"
    by (simp add: start_thread_def new_frame_def main_frame_def at_exchange_def)
  then show ?thesis using m by blast
qed

lemma exchange_step:
  assumes "resolves env M t field compare"
  shows "exchange M field (at_exchange ps code qs field compare) = Some (0, 1, after_exchange ps code qs field compare)"
  using resolvesD(2) [OF assms]
  by (simp add: exchange_def at_exchange_def after_exchange_def main_frame_def already_loaded_code_def fun_eq_iff)

lemma run_lost:
  "local_run M field 5 (after_exchange (a # b # c # d # ps) (startup_code t d) qs field compare 1) = Some (ended 0 [])"
proof -
  have 5: "(5 :: nat) = Suc (Suc (Suc (Suc (Suc 0))))" by simp
  show ?thesis unfolding 5 by (simp add: after_exchange_def startup_code_def machine_simps ended_def)
qed


text \<open>The first instruction of the loading part, reached by the branch, and the run from there.\<close>

lemma run_won:
  assumes res: "resolves env M t field compare" and dist: "distinct [a, b, c, d]"
  shows "local_run M field 34 (after_exchange (a # b # c # d # ps) (startup_code t d) qs field compare 0) = Some (ended 2 (loader_calls t))"
proof -
  let ?ps = "a # b # c # d # ps" and ?code = "startup_code t d"
  let ?at = "\<lambda>rest. \<lparr>th_frames = [main_frame ?ps ?code rest [] (replicate 7 VUninit)], th_new = 0, th_calls = []\<rparr>"
  have 4: "(4 :: nat) = Suc (Suc (Suc (Suc 0)))" by simp
  have drops: "drop 1 ?code = (CEE_BRFALSE_S, Target d) # (CEE_RET, Zeroed) # (CEE_LDLOCA_S, Arg8 0) # load_code t"
    "drop 3 ?code = (CEE_LDLOCA_S, Arg8 0) # load_code t" by (simp_all add: startup_code_def)
  have "local_run M field 4 (after_exchange ?ps ?code qs field compare 0) = Some (?at (drop 3 ?code))"
    unfolding 4 after_exchange_def drops using dist by (simp add: machine_simps drops(2) [unfolded numeral_3_eq_3])
  moreover have "local_run M field 30 (?at (drop 3 ?code)) = Some (ended 2 (loader_calls t))"
    unfolding drops
    by (simp add: machine_simps load_code_def copy_code_def low_byte_of_Arg32_def resolvesD(2-) [OF res]
        ended_def loader_calls_def Let_def)
  ultimately show ?thesis using local_run_add [of M field 4 30] by simp
qed

section \<open>Any number of threads\<close>

lemma local_run_mid:
  assumes "local_run M field n th = Some y" "k \<le> n"
  shows "\<exists>x. local_run M field k th = Some x \<and> local_run M field (n - k) x = Some y"
  using assms local_run_add [of M field k "n - k" th] by (cases "local_run M field k th") auto

lemma local_run_next:
  assumes "local_run M field n th = Some y" "k < n" "local_run M field k th = Some x"
  shows "exchange M field x = None" "\<exists>x'. local_step M x = Some x' \<and> local_run M field (Suc k) th = Some x'"
proof -
  obtain j where j: "n - k = Suc j" using assms(2) by (metis Suc_diff_Suc)
  have "local_run M field (Suc j) x = Some y" using local_run_mid [OF assms(1), of k] assms(2,3) j by simp
  then show 1: "exchange M field x = None" by (metis local_run.simps(2) option.distinct(1))
  with \<open>local_run M field (Suc j) x = Some y\<close> obtain x' where "local_step M x = Some x'" by (cases "local_step M x") auto
  moreover have "local_run M field (Suc k) th = local_run M field (Suc 0) x" using local_run_add [of M field k "Suc 0" th] assms(3) by simp
  ultimately show "\<exists>x'. local_step M x = Some x' \<and> local_run M field (Suc k) th = Some x'" using 1 by simp
qed

lemma local_step_calls: "local_step M th = Some th' \<Longrightarrow> \<exists>cs. th_calls th' = th_calls th @ cs"
  by (auto simp: local_step_def call_step_def Let_def split: list.splits if_splits operand.splits option.splits callee.splits val.splits)

lemma local_run_calls: "local_run M field k th = Some th' \<Longrightarrow> \<exists>cs. th_calls th' = th_calls th @ cs"
proof (induction k arbitrary: th)
  case (Suc k)
  then obtain x where "local_step M th = Some x" "local_run M field k x = Some th'" by (auto split: if_splits Option.bind_splits)
  with Suc.IH [of x] local_step_calls [of M th x] show ?case by auto
qed simp

lemma ended_stops: "exchange M field (ended k cs) = None" "local_step M (ended k cs) = None"
  by (simp_all add: exchange_def local_step_def ended_def)

text \<open>How far a thread is: in front of the exchange, or behind it, as the one that has set the field or as
  another.\<close>

datatype phase = Before nat | Won nat | Lost nat

fun steps_done :: "phase \<Rightarrow> nat" where
  "steps_done (Before k) = k"
| "steps_done (Won k) = 5 + k"
| "steps_done (Lost k) = 5 + k"

fun is_won :: "phase \<Rightarrow> bool" where
  "is_won (Won k) = True"
| "is_won _ = False"

fun is_before :: "phase \<Rightarrow> bool" where
  "is_before (Before k) = True"
| "is_before _ = False"

fun in_phase :: "(u32 \<Rightarrow> callee option) \<Rightarrow> u32 \<Rightarrow> thread \<Rightarrow> (u32 \<Rightarrow> thread) \<Rightarrow> phase \<Rightarrow> thread \<Rightarrow> bool" where
  "in_phase M field start next (Before k) th = (k \<le> 4 \<and> local_run M field k start = Some th)"
| "in_phase M field start next (Won k) th = (k \<le> 34 \<and> local_run M field k (next 0) = Some th)"
| "in_phase M field start next (Lost k) th = (k \<le> 5 \<and> local_run M field k (next 1) = Some th)"

text \<open>What has been evaluated of a thread.\<close>

definition hook_thread :: "(u32 \<Rightarrow> callee option) \<Rightarrow> u32 \<Rightarrow> thread \<Rightarrow> (u32 \<Rightarrow> thread) \<Rightarrow> (u32 \<times> val list) list \<Rightarrow> bool" where
  "hook_thread M field start next cs \<longleftrightarrow>
     (\<exists>x. local_run M field 4 start = Some x \<and> exchange M field x = Some (0, 1, next) \<and> th_frames x \<noteq> [] \<and> th_calls x = [])
     \<and> local_run M field 34 (next 0) = Some (ended 2 cs) \<and> local_run M field 5 (next 1) = Some (ended 0 [])"

lemma startup_hook_thread:
  assumes "resolves env M t field compare"
  shows "\<exists>next. hook_thread M field (startup_thread env t) next (loader_calls t)"
proof -
  obtain a b c d ps where s: "startup_thread env t = start_thread 7 (IL_method (a # b # c # d # ps) (startup_code t d))" "distinct [a, b, c, d]"
    using startup_thread_code [of env t] by blast
  obtain qs where "local_run M field 4 (startup_thread env t) = Some (at_exchange (a # b # c # d # ps) (startup_code t d) qs field compare)"
    using run_to_exchange [OF assms, of a b c d ps] unfolding s(1) by blast
  moreover have "th_frames (at_exchange ps code qs field compare) \<noteq> []" "th_calls (at_exchange ps code qs field compare) = []" for ps code
    by (simp_all add: at_exchange_def)
  ultimately show ?thesis
    unfolding hook_thread_def using exchange_step [OF assms] run_won [OF assms s(2)] run_lost by blast
qed

lemma hook_step_local: "exchange M field th = None \<Longrightarrow> hook_step M field v th = map_option (Pair v) (local_step M th)"
  by (simp add: hook_step_def)

lemma local_phase_step:
  assumes "local_run M field n s = Some y" "k < n" "local_run M field k s = Some th"
  shows "\<exists>th'. hook_step M field v th = Some (v, th') \<and> local_run M field (Suc k) s = Some th'" "th_frames th \<noteq> []"
proof -
  obtain x' where x': "local_step M th = Some x'" "local_run M field (Suc k) s = Some x'"
    using local_run_next(2) [OF assms] by blast
  then show "\<exists>th'. hook_step M field v th = Some (v, th') \<and> local_run M field (Suc k) s = Some th'"
    using hook_step_local [OF local_run_next(1) [OF assms], of v] by simp
  show "th_frames th \<noteq> []" using x'(1) by (auto simp: local_step_def)
qed

text \<open>One step of a thread in a phase: it ends, or the exchange is won or lost, or the thread goes on.\<close>

lemma phase_step:
  assumes h: "hook_thread M field start next cs" and ph: "in_phase M field start next ph th" and v: "v \<in> {0, 1}" "v = 0 \<longrightarrow> is_before ph"
  shows "(th_frames th = [] \<and> hook_step M field v th = None \<and> \<not> is_before ph \<and> th_calls th = (if is_won ph then cs else []))
    \<or> (th_frames th \<noteq> [] \<and> (\<exists>v' th' ph'. hook_step M field v th = Some (v', th') \<and> in_phase M field start next ph' th'
        \<and> steps_done ph' = Suc (steps_done ph) \<and> (v' = 0 \<longrightarrow> v = 0 \<and> is_before ph') \<and> v' \<in> {0, 1}
        \<and> (if is_won ph' then 1 else 0) + unat v = (if is_won ph then 1 else 0) + unat v'))"
proof (cases ph)
  case (Before k)
  obtain x where x: "local_run M field 4 start = Some x" "exchange M field x = Some (0, 1, next)" "th_frames x \<noteq> []"
    using h by (auto simp: hook_thread_def)
  show ?thesis
  proof (cases "k = 4")
    case True
    then have "th = x" using ph Before x(1) by simp
    then have "hook_step M field v th = Some (if v = 0 then 1 else v, next v)" "th_frames th \<noteq> []"
      using x(2,3) by (simp_all add: hook_step_def)
    moreover have "v = 0 \<or> v = 1" using v by simp
    ultimately show ?thesis
      using Before True by (elim disjE) (auto intro: exI [of _ "Won 0"] exI [of _ "Lost 0"])
  next
    case False
    then have "k < 4" "local_run M field k start = Some th" using ph Before by simp_all
    from local_phase_step(1) [OF x(1) this, of v] local_phase_step(2) [OF x(1) this] show ?thesis
      using v Before \<open>k < 4\<close> by (auto intro!: exI [of _ "Before (Suc k)"])
  qed
next
  case (Won k)
  have e: "local_run M field 34 (next 0) = Some (ended 2 cs)" using h by (simp add: hook_thread_def)
  show ?thesis
  proof (cases "k = 34")
    case True
    then have "th = ended 2 cs" using ph Won e by simp
    then show ?thesis using Won ended_stops by (simp add: hook_step_def) (simp add: ended_def)
  next
    case False
    then have "k < 34" "local_run M field k (next 0) = Some th" using ph Won by simp_all
    from local_phase_step(1) [OF e this, of v] local_phase_step(2) [OF e this] show ?thesis
      using v Won \<open>k < 34\<close> h by (auto intro!: exI [of _ "Won (Suc k)"])
  qed
next
  case (Lost k)
  have e: "local_run M field 5 (next 1) = Some (ended 0 [])" using h by (simp add: hook_thread_def)
  show ?thesis
  proof (cases "k = 5")
    case True
    then have "th = ended 0 []" using ph Lost e by simp
    then show ?thesis using Lost ended_stops by (simp add: hook_step_def) (simp add: ended_def)
  next
    case False
    then have "k < 5" "local_run M field k (next 1) = Some th" using ph Lost by simp_all
    from local_phase_step(1) [OF e this, of v] local_phase_step(2) [OF e this] show ?thesis
      using v Lost \<open>k < 5\<close> h by (auto intro!: exI [of _ "Lost (Suc k)"])
  qed
qed

definition pool_inv :: "(u32 \<Rightarrow> callee option) \<Rightarrow> u32 \<Rightarrow> thread \<Rightarrow> (u32 \<Rightarrow> thread) \<Rightarrow> nat \<Rightarrow> nat \<Rightarrow> u32 \<times> thread list \<Rightarrow> bool" where
  "pool_inv M field start next n k = (\<lambda>(v, ths). length ths = n \<and> v \<in> {0, 1}
     \<and> (\<exists>phs. list_all2 (in_phase M field start next) phs ths \<and> (v = 0 \<longrightarrow> list_all is_before phs)
         \<and> sum_list (map (\<lambda>ph. if is_won ph then 1 else 0) phs) = unat v \<and> sum_list (map steps_done phs) = k))"

lemma pool_inv_start: "pool_inv M field start next n 0 (0, replicate n start)"
  unfolding pool_inv_def
  by (auto intro!: exI [of _ "replicate n (Before 0)"] simp: list_all2_conv_all_nth list_all_iff sum_list_replicate)

lemma sum_list_change:
  fixes f :: "'a \<Rightarrow> nat"
  assumes "i < length xs"
  shows "sum_list (map f (xs[i := y])) + f (xs ! i) = sum_list (map f xs) + f y"
proof -
  have "f (xs ! i) \<le> sum_list (map f xs)" using elem_le_sum_list [of i "map f xs"] assms by simp
  then show ?thesis using assms by (simp add: map_update sum_list_update)
qed

lemma pool_inv_step:
  assumes h: "hook_thread M field start next cs" and inv: "pool_inv M field start next n k s" and st: "pool_step M field s s'"
  shows "pool_inv M field start next n (Suc k) s'"
proof -
  obtain v ths where s: "s = (v, ths)" by fastforce
  from st obtain i v' th' where i: "i < length ths" "hook_step M field v (ths ! i) = Some (v', th')" and s': "s' = (v', ths[i := th'])"
    unfolding s by (auto elim: pool_stepE)
  obtain phs where phs: "list_all2 (in_phase M field start next) phs ths" "v = 0 \<longrightarrow> list_all is_before phs"
    "sum_list (map (\<lambda>ph. if is_won ph then 1 else 0) phs) = unat v" "sum_list (map steps_done phs) = k" and v: "v \<in> {0, 1}" and n: "length ths = n"
    using inv unfolding s pool_inv_def by auto
  have ip: "i < length phs" using phs(1) i(1) by (simp add: list_all2_lengthD)
  have "in_phase M field start next (phs ! i) (ths ! i)" "v = 0 \<longrightarrow> is_before (phs ! i)"
    using phs(1,2) ip i(1) by (auto simp: list_all2_nthD list_all_length)
  from phase_step [OF h this(1) v this(2)] i(2) obtain ph' where ph': "in_phase M field start next ph' th'"
    "steps_done ph' = Suc (steps_done (phs ! i))" "v' = 0 \<longrightarrow> v = 0 \<and> is_before ph'" "v' \<in> {0, 1}"
    "(if is_won ph' then 1 else 0) + unat v = (if is_won (phs ! i) then 1 else 0) + unat v'" by auto
  let ?phs = "phs[i := ph']"
  have "list_all2 (in_phase M field start next) ?phs (ths[i := th'])" using phs(1) ph'(1) by (rule list_all2_update_cong)
  moreover have "v' = 0 \<longrightarrow> list_all is_before ?phs"
    using phs(2) ph'(3) set_update_subset_insert [of phs i ph'] by (auto simp: list_all_iff)
  moreover have "sum_list (map (\<lambda>ph. if is_won ph then 1 else 0) ?phs) = unat v'"
    using sum_list_change [OF ip, of "\<lambda>ph. if is_won ph then 1 else 0" ph'] phs(3) ph'(5) by simp
  moreover have "sum_list (map steps_done ?phs) = Suc k"
    using sum_list_change [OF ip, of steps_done ph'] phs(4) ph'(2) by simp
  ultimately show ?thesis using ph'(4) n unfolding s' pool_inv_def by auto
qed

lemma pool_inv_run:
  assumes "hook_thread M field start next cs" "(pool_step M field ^^ k) (0, replicate n start) s"
  shows "pool_inv M field start next n k s"
  using assms(2)
proof (induction k arbitrary: s)
  case 0
  then show ?case using pool_inv_start by auto
next
  case (Suc k)
  from Suc.prems obtain u where "(pool_step M field ^^ k) (0, replicate n start) u" "pool_step M field u s" by (rule relpowp_Suc_E)
  then show ?case using pool_inv_step [OF assms(1) Suc.IH] by blast
qed

lemma phase_calls:
  assumes h: "hook_thread M field start next cs" and ph: "in_phase M field start next ph th" "\<not> is_won ph"
  shows "th_calls th = []"
proof -
  obtain x where x: "local_run M field 4 start = Some x" "th_calls x = []" and l: "local_run M field 5 (next 1) = Some (ended 0 [])"
    using h by (auto simp: hook_thread_def)
  have "\<exists>n s y. local_run M field n s = Some y \<and> th_calls y = [] \<and> (\<exists>k \<le> n. local_run M field k s = Some th)"
  proof (cases ph)
    case (Before k)
    then show ?thesis
      using x ph(1) by (intro exI [of _ 4] exI [of _ start] exI [of _ x]) (auto simp del: local_run_numeral)
  next
    case (Lost k)
    then show ?thesis using l ph(1) by (intro exI [of _ 5] exI [of _ "next 1"] exI [of _ "ended 0 []"]) (auto simp: ended_def simp del: local_run_numeral)
  qed (use ph(2) in simp)
  then obtain n s y k where y: "local_run M field n s = Some y" "th_calls y = []" "k \<le> n" "local_run M field k s = Some th" by blast
  then have "local_run M field (n - k) th = Some y" using local_run_mid [OF y(1,3)] by auto
  from local_run_calls [OF this] y(2) show ?thesis by auto
qed

lemma mset_two:
  "mset (map (\<lambda>x. if P x then a else b) xs) = replicate_mset (length (filter P xs)) a + replicate_mset (length xs - length (filter P xs)) b"
proof (induction xs)
  case (Cons x xs)
  have "length (filter P xs) \<le> length xs" by simp
  then show ?case using Cons by (simp add: Suc_diff_le)
qed simp

lemma count_won: "sum_list (map (\<lambda>ph. if is_won ph then 1 else 0) phs) = length (filter is_won phs)"
  by (induction phs) simp_all

text \<open>What holds of every pool that can be reached.\<close>

lemma pool_facts:
  assumes h: "hook_thread M field start next cs" and inv: "pool_inv M field start next n k (v, ths)"
  shows "length (filter (\<lambda>th. th_calls th \<noteq> []) ths) \<le> 1" "k \<le> 39 * n"
    "\<forall>th \<in> set ths. th_frames th = [] \<or> hook_step M field v th \<noteq> None"
    "n \<noteq> 0 \<Longrightarrow> \<forall>th \<in> set ths. th_frames th = [] \<Longrightarrow> mset (map th_calls ths) = {#cs#} + replicate_mset (n - 1) []"
proof -
  obtain phs where phs: "list_all2 (in_phase M field start next) phs ths" "v = 0 \<longrightarrow> list_all is_before phs"
    "length (filter is_won phs) = unat v" "sum_list (map steps_done phs) = k" and v: "v \<in> {0, 1}" and n: "length ths = n" "length phs = n"
    using inv list_all2_lengthD unfolding pool_inv_def count_won by auto
  have v1: "unat v \<le> 1" using v by auto
  have "length (filter (\<lambda>th. th_calls th \<noteq> []) ths) \<le> length (filter is_won phs)"
    using phs(1) by (induction rule: list_all2_induct) (use phase_calls [OF h] in auto)
  then show "length (filter (\<lambda>th. th_calls th \<noteq> []) ths) \<le> 1" using phs(3) v1 by simp
  have bound: "steps_done ph \<le> 39" if "in_phase M field start next ph th" for ph th using that by (cases ph) auto
  have "sum_list (map steps_done phs) \<le> 39 * length phs" using phs(1) by (induction rule: list_all2_induct) (use bound in fastforce)+
  then show "k \<le> 39 * n" using phs(4) n by simp
  have step: "th_frames (ths ! i) = [] \<and> \<not> is_before (phs ! i) \<and> th_calls (ths ! i) = (if is_won (phs ! i) then cs else [])
      \<or> th_frames (ths ! i) \<noteq> [] \<and> hook_step M field v (ths ! i) \<noteq> None" if "i < n" for i
  proof -
    have "in_phase M field start next (phs ! i) (ths ! i)" "v = 0 \<longrightarrow> is_before (phs ! i)"
      using phs(1,2) n that by (auto simp: list_all2_nthD list_all_length)
    from phase_step [OF h this(1) v this(2)] show ?thesis by auto
  qed
  then show "\<forall>th \<in> set ths. th_frames th = [] \<or> hook_step M field v th \<noteq> None" using n by (metis in_set_conv_nth)
  assume n0: "n \<noteq> 0" and fin: "\<forall>th \<in> set ths. th_frames th = []"
  have all: "\<not> is_before (phs ! i) \<and> th_calls (ths ! i) = (if is_won (phs ! i) then cs else [])" if "i < n" for i
    using step [OF that] fin n that by auto
  then have "\<not> list_all is_before phs" using n0 n by (auto simp: list_all_length)
  then have "unat v = 1" using phs(2) v by auto
  have "map th_calls ths = map (\<lambda>ph. if is_won ph then cs else []) phs" using all n by (auto intro!: nth_equalityI)
  then show "mset (map th_calls ths) = {#cs#} + replicate_mset (n - 1) []"
    using mset_two [of is_won cs "[]" phs] phs(3) \<open>unat v = 1\<close> n by simp
qed

end
