(* ===== verification/StartupHookTheorems.thy ===== *)
theory StartupHookTheorems
  imports StartupHookRun
begin

text \<open>
  The properties of the startup hook: the bodies that are handed to the CLR, and the code in front of
  and behind the hooked methods.
\<close>

section \<open>The methods that are defined\<close>

lemma IsAlreadyLoaded_code_result:
  assumes "IsAlreadyLoaded_code env corlib_ref type_def s = (Inr code, s')"
  shows "\<exists>field compare. code = (if hk_is_net46_or_greater env then already_loaded_code field compare else never_loaded_code)"
  using assms by (auto simp: IsAlreadyLoaded_code_def bindH_Inr retH_def split: if_splits)

lemma reports_bind_result:
  "reports f \<Longrightarrow> (\<And>s x s'. f s = (Inr x, s') \<Longrightarrow> reports (g x)) \<Longrightarrow> reports (bindH f g)"
  unfolding reports_def bindH_Inl by blast

lemma reports_define_IsAlreadyLoaded:
  assumes "memory_ok env"
  shows "reports (define_IsAlreadyLoaded env corlib_ref type_def)"
  unfolding define_IsAlreadyLoaded_def
proof (intro reports_bind_result [OF hook_basic(4)] reports_bind_result [OF hook_pieces(1)])
  fix s tok s' t code t'
  assume "IsAlreadyLoaded_code env corlib_ref type_def t = (Inr code, t')"
  then obtain field compare where "code = (if hk_is_net46_or_greater env then already_loaded_code field compare else never_loaded_code)"
    using IsAlreadyLoaded_code_result by blast
  then have "reports (hand_over env tok (append_code code (tiny_rewriter env)))"
    using hand_over_already_loaded [OF assms] by (simp add: reports_def del: if_split)
  then show "reports (bindH (hand_over env tok (append_code code (tiny_rewriter env))) (\<lambda>_. retH tok))"
    by (intro hook_intros)
qed

lemma define_IsAlreadyLoaded_result:
  assumes "memory_ok env" "define_IsAlreadyLoaded env corlib_ref type_def s = (Inr tok, s')"
  shows "\<exists>field compare. hs_bodies s' = hs_bodies s @ [(tok, IsAlreadyLoaded_body env field compare)]"
proof -
  obtain s1 code s2 s3 where 1: "call_checked env (hk_DefineMethod (hk_api env) type_def (WStr ''IsAlreadyLoaded'') (mdStatic OR mdPrivate)
         [CALLCONV_DEFAULT, 0, ELEMENT_TYPE_BOOLEAN]) s = (Inr tok, s1)"
    and 2: "IsAlreadyLoaded_code env corlib_ref type_def s1 = (Inr code, s2)"
    and 3: "hand_over env tok (append_code code (tiny_rewriter env)) s2 = (Inr (), s3)" "s' = s3"
    using assms(2) by (auto simp: define_IsAlreadyLoaded_def bindH_Inr retH_def)
  obtain field compare where "code = (if hk_is_net46_or_greater env then already_loaded_code field compare else never_loaded_code)"
    using IsAlreadyLoaded_code_result [OF 2] by blast
  then have "hs_bodies s3 = hs_bodies s2 @ [(tok, IsAlreadyLoaded_body env field compare)]"
    using 3(1) hand_over_already_loaded [OF assms(1), of tok field compare s2] by (auto simp del: if_split)
  moreover have "hs_bodies s2 = hs_bodies s" using 1 2 hook_basic(5) hook_pieces(2) unfolding silent_def by metis
  ultimately show ?thesis using 3(2) by auto
qed

lemma reports_startup:
  assumes "memory_ok env"
  shows "reports (hand_over env tok (write_startup_code t (SetTkLocalVarSig (locals_signature_token t) (tiny_rewriter env))))"
  unfolding reports_def
proof (intro allI impI)
  fix s e s' assume "hand_over env tok (write_startup_code t (SetTkLocalVarSig (locals_signature_token t) (tiny_rewriter env))) s = (Inl e, s')"
  then show "\<exists>hr. e = ClrError hr \<and> FAILED hr" using hand_over_startup [OF assms, of tok t s] by auto
qed

lemma reports_Generate:
  assumes "memory_ok env"
  shows "reports (GenerateVoidILStartupMethod env)"
  unfolding GenerateVoidILStartupMethod_def
  by (intro hook_intros reports_define_IsAlreadyLoaded [OF assms] reports_startup [OF assms])

text \<open>C12. GenerateVoidILStartupMethod fails only with the failure of a metadata call. Otherwise it hands over
  two bodies, byte for byte: IsAlreadyLoaded, which exchanges the field on .NET Framework 4.6 and later
  and is constantly false elsewhere, and then the startup method, 82 bytes of code in a fat body that
  announces 34 stack slots and the locals that have been defined.\<close>

theorem GenerateVoidILStartupMethod_bodies:
  assumes "memory_ok env"
  shows "case GenerateVoidILStartupMethod env s of
      (Inl e, s') \<Rightarrow> (\<exists>hr. e = ClrError hr \<and> FAILED hr)
    | (Inr tok, s') \<Rightarrow> (\<exists>field compare t padding corlib_ref pinvoke u u'. length padding = 2
        \<and> define_refs env corlib_ref (alreadyLoadedMethodToken t) pinvoke u = (Inr t, u')
        \<and> hs_bodies s' = hs_bodies s @ [(alreadyLoadedMethodToken t, IsAlreadyLoaded_body env field compare), (tok, startup_body t padding)])"
proof (cases "GenerateVoidILStartupMethod env s")
  case (Pair r s')
  show ?thesis
  proof (cases r)
    case (Inl e)
    then show ?thesis using Pair reports_Generate [OF assms] by (auto simp: reports_def)
  next
    case (Inr tok)
    obtain corlib_ref object_ref type_def loaded pinvoke t s1 s2 s3 s4 s5 s6 s7 s8 s9 where
      silent: "module_metadata env s = (Inr (), s1)" "call_checked env (DefineCorLibRef env) s1 = (Inr corlib_ref, s2)"
        "call_checked env (DefineTypeRef env corlib_ref ''System.Object'') s2 = (Inr object_ref, s3)"
        "call_checked env (hk_DefineTypeDef (hk_api env) (WStr ''__DDVoidMethodType__'') (tdAbstract OR tdSealed) object_ref) s3
          = (Inr type_def, s4)"
        "call_checked env (hk_DefineMethod (hk_api env) type_def (WStr ''__DDVoidMethodCall__'') mdStatic
          [CALLCONV_DEFAULT, 0, ELEMENT_TYPE_VOID]) s4 = (Inr tok, s5)"
      and loaded: "define_IsAlreadyLoaded env corlib_ref type_def s5 = (Inr loaded, s6)"
      and refs: "define_pinvoke env type_def s6 = (Inr pinvoke, s7)" "define_refs env corlib_ref loaded pinvoke s7 = (Inr t, s8)"
      and over: "hand_over env tok (write_startup_code t (SetTkLocalVarSig (locals_signature_token t) (tiny_rewriter env))) s8 = (Inr (), s9)"
        "s' = s9"
      using Pair unfolding Inr GenerateVoidILStartupMethod_def by (auto simp: bindH_Inr retH_def)
    have "hs_bodies s5 = hs_bodies s" using silent hook_basic(5,11) unfolding silent_def by metis
    moreover obtain field compare where "hs_bodies s6 = hs_bodies s5 @ [(loaded, IsAlreadyLoaded_body env field compare)]"
      using define_IsAlreadyLoaded_result [OF assms loaded] by blast
    moreover have "hs_bodies s8 = hs_bodies s6" using refs hook_pieces(4,6) unfolding silent_def by metis
    moreover obtain padding where "length padding = 2" "hs_bodies s9 = hs_bodies s8 @ [(tok, startup_body t padding)]"
      using hand_over_startup [OF assms, of tok t s8] over(1) by auto
    moreover have t: "alreadyLoadedMethodToken t = loaded" using refs(2) by (auto simp: define_refs_def bindH_Inr retH_def)
    ultimately have "hs_bodies s' = hs_bodies s @ [(alreadyLoadedMethodToken t, IsAlreadyLoaded_body env field compare),
        (tok, startup_body t padding)]" "length padding = 2"
      using over(2) by simp_all
    then show ?thesis
      using refs(2) unfolding Pair Inr t [symmetric] prod.case sum.case
      by blast
  qed
qed

section \<open>The hooked methods\<close>

lemma Import_wf:
  assumes imp: "Import (Inr d) (ILRewriter_new junk) = Inr r"
    and "GetCodeSize d \<le> length (Code d)" "GetCodeSize d + 10 < 4294967296" "GetMaxStack d < 4294967296"
  shows "\<exists>ps. il_wf r ps \<and> m_nInstrs r = length ps \<and> length ps \<le> GetCodeSize d \<and> (ps = [] \<longrightarrow> GetCodeSize d = 0)"
proof -
  define s0 where "s0 = (ILRewriter_new junk)\<lparr>m_tkLocalVarSig := GetLocalVarSigTok d, m_maxStack := GetMaxStack d,
    m_flags := GetHeaderFlags d AND CorILMethod_InitLocals, m_CodeSize := GetCodeSize d\<rparr>"
  have s0: "il_ring s0 []" "m_nInstrs s0 = 0" "m_maxStack s0 < 4294967296"
    "m_CodeSize s0 \<le> length (Code d)" "m_CodeSize s0 + 10 < 4294967296" "m_CodeSize s0 = GetCodeSize d"
    using il_ring_new [of junk] assms by (simp_all add: s0_def il_ring_def ILRewriter_new_def)
  from imp obtain s1 where s1: "ImportIL (Code d) s0 = Inr s1" "ImportEH (EH d) s1 = Inr r"
    by (auto simp: Import_def s0_def Let_def res_simps)
  from ImportIL_result [OF s0(1-5)] s1(1) obtain ps where "import_result (Code d) s0 s1 ps" by auto
  then have "il_wf s1 ps" "m_nInstrs s1 = length ps" "length ps \<le> GetCodeSize d" "ps = [] \<longrightarrow> GetCodeSize d = 0"
    using s0(6) assms(2) by (auto simp: import_result_def)
  moreover have "heap r = heap s1" "fresh r = fresh s1" "m_nInstrs r = m_nInstrs s1"
    using s1(2) by (auto simp: ImportEH_def Let_def res_simps split: if_splits)
  ultimately show ?thesis by (auto simp: il_wf_def il_ring_def intro!: exI [of _ ps])
qed

lemma first_of_ring: "il_ring r ps \<Longrightarrow> m_pNext (heap r (GetILList r)) = hd (ps @ [m_IL])"
  using il_ring_cut(2) [of r "[]" ps "[]" m_IL "hd (ps @ [m_IL])" "tl (ps @ [m_IL])"] by (simp add: GetILList_def)

lemma last_of_ring:
  assumes "il_ring r (ps @ [p])"
  shows "m_pPrev (heap r m_IL) = p" "m_pNext (heap r p) = m_IL"
  using il_ring_cut(1,2) [of r "ps @ [p]" "[]" "m_IL # ps" p m_IL "[]"] assms by simp_all

lemma call_first_code:
  assumes wf: "il_wf r ps" and few: "m_nInstrs r + 1 < 4294967296"
  shows "\<exists>x r'. call_first tok r = Inr r' \<and> il_wf r' (x # ps) \<and> il_node r' x = call_il tok
    \<and> map (il_node r') ps = map (il_node r) ps \<and> same_members r r'"
proof -
  let ?w = "hd (ps @ [m_IL])"
  obtain x r' where run: "emit_before ?w (call_il tok) r = (x, r')" by fastforce
  have "call_first tok r = Inr r'"
    using run first_of_ring [of r ps] wf
    by (simp add: call_first_def CallMember_def emit_def SetILPosition_def ILRewriterWrapper_new_def GetILRewriter_def il_wf_def)
  moreover have "il_room (Suc 0) r ([] @ ps)" "il_valid (set ([] @ ps)) (call_il tok)"
    using wf few by (simp_all add: il_room_def il_valid_def hook_flags)
  note emit_before_law [OF this(1) refl [of "?w"] this(2) run]
  ultimately show ?thesis
    using emit_before_members(1) [of r ?w "call_il tok"] run by (auto simp: il_room_def)
qed

text \<open>C14. RunILStartupHook puts one call, of the method that has been defined, in front of the first
  instruction of the hooked method, which is otherwise unchanged, and hands over what Export makes of
  it; when the method cannot be defined, nothing is handed over for the hooked method.\<close>

theorem RunILStartupHook_body:
  assumes "hk_body env function_token = Inr d" "GetCodeSize d \<le> length (Code d)" "GetCodeSize d + 10 < 4294967296" "GetMaxStack d < 4294967296"
    and "Import (Inr d) (ILRewriter_new (hk_memory env)) = Inr r"
  shows "case GenerateVoidILStartupMethod env s of
      (Inl e, s') \<Rightarrow> RunILStartupHook env function_token s = (Inl e, s')
    | (Inr tok, s') \<Rightarrow> (\<exists>ps x r'. il_wf r ps \<and> il_wf r' (x # ps) \<and> il_node r' x = call_il tok
        \<and> map (il_node r') ps = map (il_node r) ps \<and> same_members r r'
        \<and> RunILStartupHook env function_token s = hand_over env function_token r' s')"
proof (cases "GenerateVoidILStartupMethod env s")
  case (Pair res s')
  show ?thesis
  proof (cases res)
    case (Inl e)
    then show ?thesis using Pair by (simp add: RunILStartupHook_def bindH_def)
  next
    case (Inr tok)
    obtain ps where ps: "il_wf r ps" "m_nInstrs r = length ps" "length ps \<le> GetCodeSize d"
      using Import_wf [OF assms(5,2-4)] by blast
    then have few: "m_nInstrs r + 1 < 4294967296" using assms(3) by simp
    obtain x r' where r': "call_first tok r = Inr r'" "il_wf r' (x # ps)" "il_node r' x = call_il tok"
      "map (il_node r') ps = map (il_node r) ps" "same_members r r'"
      using call_first_code [OF ps(1) few, of tok] by blast
    have "RunILStartupHook env function_token s = hand_over env function_token r' s'"
      using Pair Inr assms(1,5) r'(1) by (simp add: RunILStartupHook_def bindH_def import_method_def liftH_def)
    then show ?thesis using Pair Inr ps(1) r'(2-5) by auto
  qed
qed

text \<open>The call that sets the flag.\<close>

definition set_data_code :: "iis_refs \<Rightarrow> u32 \<Rightarrow> il list" where
  "set_data_code t flag =
     [(CEE_LDSTR, Arg32 (pre_init_start_string_token t)), LoadInt32_il flag, (CEE_BOX, Arg32 (boolToken t)),
      (CEE_CALLVIRT, Arg32 (appdomain_set_data_member_ref t))]"

lemma set_data_call_run:
  assumes "m_ILInstr w = Some pos"
  shows "set_data_call t flag w = Inr (w\<lparr>m_ILRewriter := emits emit_before pos (set_data_code t flag) (m_ILRewriter w)\<rparr>)"
  using assms
  by (simp add: set_data_call_def set_data_code_def GetCurrentILInstr_def GetILRewriter_def one_instruction emit_def split_beta)

lemma set_data_code_valid: "flag \<in> {0, 1} \<Longrightarrow> list_all (il_valid P) (set_data_code t flag)" "length (set_data_code t flag) = 4"
  by (auto simp: set_data_code_def LoadInt32_il_def il_valid_def hook_flags)

text \<open>The return that is appended.\<close>

lemma append_return:
  assumes wf: "il_wf r (ps @ [p])" and few: "m_nInstrs r + 1 < 4294967296" and run: "NewILInstr r = (x, r1)"
  shows "InsertAfter p x (set_opcode x CEE_RET r1) = snd (emit_before m_IL (CEE_RET, Zeroed) r)"
    "emit_before m_IL (CEE_RET, Zeroed) r = (x, InsertAfter p x (set_opcode x CEE_RET r1))"
proof -
  have ring: "il_ring r (ps @ [p])" using wf by (simp add: il_wf_def)
  note new = NewILInstr_ring [OF ring run]
  have r1: "r1 = r\<lparr>m_nInstrs := w32 (m_nInstrs r + 1), fresh := Suc (fresh r), heap := (heap r)(fresh r := zero_instr)\<rparr>" "x = fresh r"
    using run by (auto simp: NewILInstr_def)
  let ?r2 = "set_opcode x CEE_RET r1"
  have "il_ring ?r2 (ps @ [p])" using new(1) by (simp add: il_ring_upd frame_simps)
  note links = last_of_ring [OF this]
  have "x \<noteq> m_IL" using new(3) by simp
  then have after: "InsertAfter p x ?r2 = InsertBefore m_IL x ?r2" using InsertAfter_eq [of ?r2 p x] links by simp
  have "set_arg x Zeroed ?r2 = ?r2" by (simp add: set_arg_def set_opcode_def upd_instr_def r1 zero_instr_def)
  then show 1: "emit_before m_IL (CEE_RET, Zeroed) r = (x, InsertAfter p x ?r2)"
    unfolding after by (simp add: emit_before_def run Let_def)
  show "InsertAfter p x ?r2 = snd (emit_before m_IL (CEE_RET, Zeroed) r)" unfolding 1 by simp
qed

lemma rewrite_last_wf:
  assumes "il_wf r ps" "p \<in> set ps"
  shows "il_wf (set_arg p (Arg32 tk) (set_opcode p CEE_CALL r)) ps"
    "il_node (set_arg p (Arg32 tk) (set_opcode p CEE_CALL r)) q = (if q = p then call_il tk else il_node r q)"
    "same_members r (set_arg p (Arg32 tk) (set_opcode p CEE_CALL r))"
    "m_nInstrs (set_arg p (Arg32 tk) (set_opcode p CEE_CALL r)) = m_nInstrs r"
proof -
  show node: "il_node (set_arg p (Arg32 tk) (set_opcode p CEE_CALL r)) q = (if q = p then call_il tk else il_node r q)" for q
    by (simp add: il_node_def frame_simps)
  show "m_nInstrs (set_arg p (Arg32 tk) (set_opcode p CEE_CALL r)) = m_nInstrs r" by (simp add: frame_simps)
  have "il_ring (set_arg p (Arg32 tk) (set_opcode p CEE_CALL r)) ps" using assms(1) by (simp add: il_wf_def il_ring_upd set_arg_def set_opcode_def)
  then show "il_wf (set_arg p (Arg32 tk) (set_opcode p CEE_CALL r)) ps"
    using assms unfolding il_wf_nodes by (auto simp: node list_all_iff il_valid_def hook_flags) (simp add: frame_simps)
  show "same_members r (set_arg p (Arg32 tk) (set_opcode p CEE_CALL r))" by (simp add: same_members_def frame_simps)
qed

text \<open>The code of a method with the flags: \<open>xs\<close> in front of it, \<open>ys\<close> and a return behind it, and the last
  instruction a call.\<close>

definition flagged :: "iis_refs \<Rightarrow> ILRewriter \<Rightarrow> ptr list \<Rightarrow> ptr \<Rightarrow> ILRewriter \<Rightarrow> bool" where
  "flagged t r ps p r' \<longleftrightarrow> (\<exists>xs ys x. il_wf r' (xs @ ps @ p # ys @ [x])
     \<and> map (il_node r') xs = call_il (appdomain_get_current_domain_member_ref t) # set_data_code t 1
     \<and> map (il_node r') ps = map (il_node r) ps \<and> il_node r' p = call_il (appdomain_get_current_domain_member_ref t)
     \<and> map (il_node r') ys = set_data_code t 0 \<and> il_node r' x = (CEE_RET, Zeroed) \<and> same_members r r')"

lemma add_flags_code:
  assumes wf: "il_wf r (ps @ [p])" and few: "m_nInstrs r + 10 < 4294967296"
  shows "\<exists>r'. add_flags t r = Inr r' \<and> flagged t r ps p r'"
proof -
  let ?cur = "appdomain_get_current_domain_member_ref t" and ?w = "hd (ps @ [p])"
  let ?c1 = "call_il ?cur # set_data_code t 1"
  define r1 where "r1 = emits emit_before ?w ?c1 r"
  have v1: "list_all (il_valid (set ([] @ ps @ [p]))) ?c1"
    using set_data_code_valid(1) [of 1] by (simp add: il_valid_def hook_flags)
  have "il_room (length ?c1 + 5) r ([] @ ps @ [p])" "?w = hd ((ps @ [p]) @ [m_IL])"
    using wf few set_data_code_valid(2) by (auto simp: il_room_def hd_append)
  from rewriter.emits_law [OF this v1, folded r1_def] obtain xs where "il_room 5 r1 ([] @ xs @ ps @ [p])"
    "map (il_node r1) xs = ?c1" "\<forall>q \<in> set ([] @ ps @ [p]). il_node r1 q = il_node r q"
    by (elim exE conjE) (rule that)
  then have xs: "il_room 5 r1 ((xs @ ps) @ [p])"
    "map (il_node r1) xs = ?c1" "\<forall>q \<in> set (ps @ [p]). il_node r1 q = il_node r q" by simp_all
  have wf1: "il_wf r1 ((xs @ ps) @ [p])" "m_nInstrs r1 + 1 < 4294967296" using xs(1) by (simp_all add: il_room_def)
  obtain x r2 where new: "NewILInstr r1 = (x, r2)" by fastforce
  define r3 where "r3 = InsertAfter p x (set_opcode x CEE_RET r2)"
  have run3: "emit_before m_IL (CEE_RET, Zeroed) r1 = (x, r3)" using append_return(2) [OF wf1 new] by (simp add: r3_def)
  have "il_room (Suc 4) r1 (((xs @ ps) @ [p]) @ [])" "il_valid (set (((xs @ ps) @ [p]) @ [])) (CEE_RET, Zeroed)"
    using xs(1) by (simp_all add: il_valid_def hook_flags)
  note law3 = emit_before_law [OF this(1) _ this(2) run3]
  have r3: "il_wf r3 (xs @ ps @ [p, x])" "m_nInstrs r3 + 4 < 4294967296" "il_node r3 x = (CEE_RET, Zeroed)" "x \<notin> set (xs @ ps @ [p])"
    "\<forall>q \<in> set (xs @ ps @ [p]). il_node r3 q = il_node r1 q"
    using law3 by (simp_all add: il_room_def)
  define r4 where "r4 = set_arg p (Arg32 ?cur) (set_opcode p CEE_CALL r3)"
  have "p \<in> set (xs @ ps @ [p, x])" by simp
  note last = rewrite_last_wf [OF r3(1) this, of ?cur, folded r4_def]
  define r5 where "r5 = emits emit_before x (set_data_code t 0) r4"
  have "il_room (length (set_data_code t 0) + 0) r4 ((xs @ ps @ [p]) @ [x])" "x = hd ([x] @ [m_IL])"
    "list_all (il_valid (set ((xs @ ps @ [p]) @ [x]))) (set_data_code t 0)"
    using last(1,4) r3(2) set_data_code_valid(1) [of 0] set_data_code_valid(2) by (simp_all add: il_room_def)
  from rewriter.emits_law [OF this, folded r5_def] obtain ys where "il_room 0 r5 ((xs @ ps @ [p]) @ ys @ [x])"
    "map (il_node r5) ys = set_data_code t 0" "\<forall>q \<in> set ((xs @ ps @ [p]) @ [x]). il_node r5 q = il_node r4 q"
    by (elim exE conjE) (rule that)
  then have ys: "il_wf r5 ((xs @ ps @ [p]) @ ys @ [x])"
    "map (il_node r5) ys = set_data_code t 0" "\<forall>q \<in> set (xs @ ps @ [p, x]). il_node r5 q = il_node r4 q"
    by (simp_all add: il_room_def)
  have "add_flags t r = Inr r5"
  proof -
    have ring: "il_ring r (ps @ [p])" "il_ring r1 ((xs @ ps) @ [p])" using wf wf1 by (simp_all add: il_wf_def)
    have first: "m_pNext (heap r (GetILList r)) = ?w" using first_of_ring [OF ring(1)] by (simp add: hd_append)
    have prev: "m_pPrev (heap r1 (GetILList r1)) = p" using last_of_ring(1) [OF ring(2)] by (simp add: GetILList_def)
    have r1_eq: "emits emit_before ?w (set_data_code t 1) (snd (emit_before ?w (call_il ?cur) r)) = r1" by (simp add: r1_def)
    show ?thesis
      by (simp add: add_flags_def first CallMember_def emit_def SetILPosition_def ILRewriterWrapper_new_def split_beta
          set_data_call_run [of _ ?w] set_data_call_run [of _ x] r1_eq GetILRewriter_def Let_def prev new)
        (simp add: r3_def r4_def r5_def)
  qed
  moreover have "flagged t r ps p r5"
    unfolding flagged_def
  proof (intro exI conjI)
    have dist: "distinct (xs @ ps @ [p, x])" using r3(1) by (simp add: il_wf_def il_ring_def)
    show "il_wf r5 (xs @ ps @ p # ys @ [x])" using ys(1) by simp
    have 1: "il_node r5 q = il_node r1 q" if "q \<in> set (xs @ ps)" for q
      using that ys(3) last(2) r3(5) dist by auto
    have "map (il_node r5) xs = map (il_node r1) xs" using 1 by simp
    then show "map (il_node r5) xs = ?c1" using xs(2) by simp
    show "map (il_node r5) ps = map (il_node r) ps" using 1 xs(3) by simp
    show "il_node r5 p = call_il ?cur" "map (il_node r5) ys = set_data_code t 0" using ys last(2) by simp_all
    show "il_node r5 x = (CEE_RET, Zeroed)" using ys(3) last(2) r3(3,4) by auto
    have "same_members r r1" "same_members r1 r3" "same_members r4 r5"
      using emits_members(1) emit_before_members(1) [of r1 m_IL "(CEE_RET, Zeroed)"] run3 by (simp_all only: r1_def r5_def snd_conv)
    then show "same_members r r5" using last(3) same_members_trans by blast
  qed
  ultimately show ?thesis by blast
qed

text \<open>C13. AddIISPreStartInitFlags sets the flag to true in front of the method and to false behind it: the last
  instruction becomes the first call of the code that resets the flag, so that jumps to it reset the flag
  too, and a new return ends the method.\<close>

theorem AddIISPreStartInitFlags_body:
  assumes "hk_body env function_token = Inr d" "GetCodeSize d \<le> length (Code d)" "GetCodeSize d + 10 < 4294967296" "GetMaxStack d < 4294967296"
    and "Import (Inr d) (ILRewriter_new (hk_memory env)) = Inr r" "GetCodeSize d \<noteq> 0"
    and "bindH (module_metadata env) (\<lambda>_. define_iis_refs env) s = (res, s')"
  shows "\<exists>ps p. il_wf r (ps @ [p]) \<and> (case res of
      Inl e \<Rightarrow> AddIISPreStartInitFlags env function_token s = (Inl e, s') \<and> (\<exists>hr. e = ClrError hr \<and> FAILED hr)
    | Inr t \<Rightarrow> (\<exists>r'. flagged t r ps p r' \<and> AddIISPreStartInitFlags env function_token s = hand_over env function_token r' s'))"
proof -
  obtain qs where qs: "il_wf r qs" "m_nInstrs r = length qs" "length qs \<le> GetCodeSize d" "qs \<noteq> []"
    using Import_wf [OF assms(5,2-4)] assms(6) by blast
  then obtain ps p where ps: "qs = ps @ [p]" by (metis rev_exhaust)
  have imp: "import_method env function_token u = (Inr r, u)" for u :: "'a hook_state"
    using assms(1,5) by (simp add: import_method_def liftH_def)
  have "case res of
      Inl e \<Rightarrow> AddIISPreStartInitFlags env function_token s = (Inl e, s') \<and> (\<exists>hr. e = ClrError hr \<and> FAILED hr)
    | Inr t \<Rightarrow> (\<exists>r'. flagged t r ps p r' \<and> AddIISPreStartInitFlags env function_token s = hand_over env function_token r' s')"
  proof (cases res)
    case (Inl e)
    have "reports (bindH (module_metadata env) (\<lambda>_. define_iis_refs env))" by (intro hook_intros)
    moreover have "AddIISPreStartInitFlags env function_token s = (Inl e, s')"
      using assms(7) unfolding Inl AddIISPreStartInitFlags_def bindH_Inl by (auto simp: imp bindH_Inl)
    ultimately show ?thesis using assms(7) Inl by (auto simp: reports_def)
  next
    case (Inr t)
    have few: "m_nInstrs r + 10 < 4294967296" using qs(2,3) assms(3) by simp
    obtain r' where r': "add_flags t r = Inr r'" "flagged t r ps p r'" using add_flags_code [OF qs(1) [unfolded ps] few] by blast
    obtain u s1 where "module_metadata env s = (Inr u, s1)" "define_iis_refs env s1 = (Inr t, s')"
      using assms(7) unfolding Inr bindH_Inr by blast
    then have "AddIISPreStartInitFlags env function_token s = hand_over env function_token r' s'"
      using r'(1) by (simp add: AddIISPreStartInitFlags_def bindH_def imp liftH_def)
    then show ?thesis using Inr r'(2) by auto
  qed
  then show ?thesis using qs(1) ps by blast
qed

section \<open>Any number of threads run the startup method\<close>


text \<open>Every pool of threads comes to its end.\<close>

lemma pool_finishes:
  assumes "hook_thread M field start next_thread cs"
  shows "\<exists>k v ths. (pool_step M field ^^ k) (0, replicate n start) (v, ths) \<and> (\<forall>th \<in> set ths. th_frames th = [])"
proof -
  define P where "P k \<longleftrightarrow> (\<exists>s. (pool_step M field ^^ k) (0, replicate n start) s)" for k
  have bound: "k \<le> 39 * n" if "P k" for k
    using that pool_facts(2) [OF assms] pool_inv_run [OF assms] unfolding P_def by fastforce
  have "P 0" by (auto simp: P_def)
  then have max: "P (Greatest P)" "\<And>k. P k \<Longrightarrow> k \<le> Greatest P"
    using GreatestI_nat [of P 0 "39 * n"] Greatest_le_nat [of P _ "39 * n"] bound by blast+
  obtain v ths where run: "(pool_step M field ^^ Greatest P) (0, replicate n start) (v, ths)" using max(1) by (auto simp: P_def)
  have "th_frames th = []" if mem: "th \<in> set ths" for th
  proof (rule ccontr)
    assume "th_frames th \<noteq> []"
    then have "hook_step M field v th \<noteq> None"
      using pool_facts(3) [OF assms pool_inv_run [OF assms run]] mem by blast
    then obtain v' th' where "hook_step M field v th = Some (v', th')" by force
    moreover obtain i where "i < length ths" "th = ths ! i" using mem by (auto simp: in_set_conv_nth)
    ultimately have "pool_step M field (v, ths) (v', ths[i := th'])" using pool_step.step by simp
    then have "P (Suc (Greatest P))" using relpowp_Suc_I [OF run] unfolding P_def by blast
    then show False using max(2) by fastforce
  qed
  then show ?thesis using run by blast
qed

section \<open>Witnesses\<close>

definition demo_hook_api :: "unit hook_clr" where
  "demo_hook_api = \<lparr>hk_clr = demo_clr\<lparr>clr_DefineMemberRef := (\<lambda>_ nm _ m. ((S_OK, Some (0x0A000000 + of_nat (length nm))), m))\<rparr>,
     hk_GetModuleMetaData = S_OK, hk_DefineTypeDef = (\<lambda>_ _ _ m. ((S_OK, Some 0x02000002), m)),
     hk_DefineMethod = (\<lambda>_ nm _ _ m. ((S_OK, Some (0x06000000 + of_nat (length nm))), m)),
     hk_DefineField = (\<lambda>_ _ _ _ m. ((S_OK, Some 0x04000001), m)), hk_SetMethodImplFlags = (\<lambda>_ _ m. ((S_OK, None), m)),
     hk_DefineModuleRef = (\<lambda>_ m. ((S_OK, Some 0x1A000001), m)), hk_DefinePinvokeMap = (\<lambda>_ _ _ _ m. ((S_OK, None), m)),
     hk_DefineUserString = (\<lambda>_ m. ((S_OK, Some 0x70000001), m))\<rparr>"

definition demo_hook_env :: "unit hook_env" where
  "demo_hook_env = \<lparr>hk_api = demo_hook_api, hk_cor = ct_cor demo_ready, hk_is_net46_or_greater = True, hk_windows = True,
     hk_bit64 = True, hk_getenv = (\<lambda>_. None), hk_junk = 0, hk_memory = demo_memory, hk_new = (\<lambda>n. replicate n 0xCC),
     hk_alloc = (\<lambda>n. Some (replicate n 0)), hk_body = (\<lambda>_. Inr demo_body), hk_set_body = (\<lambda>_ _. None)\<rparr>"

definition demo_hook_state :: "unit hook_state" where
  "demo_hook_state = \<lparr>hs_meta = (), hs_bodies = []\<rparr>"

lemma demo_memory_ok: "memory_ok demo_hook_env"
  by (simp add: memory_ok_def demo_hook_env_def)

lemma bindH_ret: "bindH (retH x) g = g x" "bindH f retH = f"
  by (auto simp: bindH_def retH_def fun_eq_iff split: prod.splits sum.splits)

lemma bindH_assoc: "bindH (bindH f g) h = bindH f (\<lambda>x. bindH (g x) h)"
  by (auto simp: bindH_def fun_eq_iff split: prod.splits sum.splits)

lemma demo_env:
  "hk_api demo_hook_env = demo_hook_api" "hk_is_net46_or_greater demo_hook_env" "hk_junk demo_hook_env = 0"
  "hk_body demo_hook_env tok = Inr demo_body" "hk_memory demo_hook_env = demo_memory"
  by (simp_all add: demo_hook_env_def)

lemma demo_bind:
  "\<not> FAILED (fst (fst (c ()))) \<Longrightarrow> bindH (call_checked demo_hook_env c) g s = g (out_or 0 (snd (fst (c ())))) s"
  "bindH (call_ignored demo_hook_env c) g s = g (out_or 0 (snd (fst (c ())))) s"
proof -
  have [simp]: "s\<lparr>hs_meta := ()\<rparr> = s" by (cases s) simp
  show "\<not> FAILED (fst (fst (c ()))) \<Longrightarrow> bindH (call_checked demo_hook_env c) g s = g (out_or 0 (snd (fst (c ())))) s"
    "bindH (call_ignored demo_hook_env c) g s = g (out_or 0 (snd (fst (c ())))) s"
    by (auto simp: bindH_def call_checked_def call_ignored_def demo_env split: prod.splits)
qed

lemma demo_compressed: "bindH (compressed tk) g s = g (the (CorSigCompressToken tk)) s"
  using CorSigCompressToken_Some [of tk] by (auto simp: bindH_def compressed_def liftH_def)

lemma demo_metadata: "bindH (module_metadata demo_hook_env) g s = g () s"
  by (simp add: bindH_def module_metadata_def liftH_def demo_env demo_hook_api_def FAILED_def)

lemmas demo_run = demo_bind demo_compressed demo_metadata demo_env demo_hook_api_def demo_clr_def FAILED_def DefineTypeRef_def DefineMemberRef_def
  DefineCorLibRef_def

lemma demo_pieces:
  "\<exists>t. define_pinvoke demo_hook_env type_def s = (Inr t, s)" "\<exists>t. define_refs demo_hook_env corlib_ref loaded pinvoke s = (Inr t, s)"
  "\<exists>t. bindH (module_metadata demo_hook_env) (\<lambda>_. define_iis_refs demo_hook_env) s = (Inr t, s)"
  unfolding define_pinvoke_def define_refs_def define_iis_refs_def by (simp_all add: demo_run retH_def)

lemma demo_hook_runs: "\<exists>s'. GenerateVoidILStartupMethod demo_hook_env demo_hook_state = (Inr 0x06000014, s')"
proof -
  have 1: "\<exists>t s'. define_IsAlreadyLoaded demo_hook_env corlib_ref type_def s = (Inr t, s')" for corlib_ref type_def s
  proof -
    have "IsAlreadyLoaded_code demo_hook_env corlib_ref type_def u = (Inr (already_loaded_code 0x04000001 0x0A00000F), u)" for u
      by (simp add: IsAlreadyLoaded_code_def demo_run retH_def WStr_def out_or_def)
    moreover have "\<exists>s'. hand_over demo_hook_env tok (append_code (already_loaded_code field compare) (tiny_rewriter demo_hook_env)) u = (Inr (), s')"
      for tok field compare u
      using hand_over_already_loaded [OF demo_memory_ok, of tok field compare u] by (simp add: demo_env)
    ultimately have "\<exists>s'. bindH (IsAlreadyLoaded_code demo_hook_env corlib_ref type_def)
        (\<lambda>code. bindH (hand_over demo_hook_env tok (append_code code (tiny_rewriter demo_hook_env))) (\<lambda>_. retH tok)) s = (Inr tok, s')" for tok
      unfolding bindH_Inr retH_def by blast
    then show ?thesis unfolding define_IsAlreadyLoaded_def by (simp add: demo_run) blast
  qed
  have 2: "\<exists>s'. hand_over demo_hook_env tok (write_startup_code t (SetTkLocalVarSig (locals_signature_token t) (tiny_rewriter demo_hook_env))) s
      = (Inr (), s')" for tok t s
    using hand_over_startup [OF demo_memory_ok, of tok t s] by auto
  obtain loaded s1 where loaded: "define_IsAlreadyLoaded demo_hook_env 0x23000001 0x02000002 demo_hook_state = (Inr loaded, s1)" using 1 by blast
  obtain pinvoke where pinvoke: "define_pinvoke demo_hook_env 0x02000002 s1 = (Inr pinvoke, s1)" using demo_pieces(1) by blast
  obtain t where t: "define_refs demo_hook_env 0x23000001 loaded pinvoke s1 = (Inr t, s1)" using demo_pieces(2) by blast
  obtain s2 where "hand_over demo_hook_env 0x06000014 (write_startup_code t (SetTkLocalVarSig (locals_signature_token t) (tiny_rewriter demo_hook_env))) s1
      = (Inr (), s2)" using 2 by blast
  then have "GenerateVoidILStartupMethod demo_hook_env demo_hook_state = (Inr 0x06000014, s2)"
    unfolding GenerateVoidILStartupMethod_def
    by (simp add: demo_run WStr_def out_or_def) (simp add: bindH_def loaded pinvoke t retH_def)
  then show ?thesis by blast
qed


theorem GenerateVoidILStartupMethod_bodies_witness:
  "\<exists>s' field compare t padding. GenerateVoidILStartupMethod demo_hook_env demo_hook_state = (Inr 0x06000014, s') \<and> length padding = 2
    \<and> hs_bodies s' = [(alreadyLoadedMethodToken t, IsAlreadyLoaded_body demo_hook_env field compare), (0x06000014, startup_body t padding)]"
proof -
  obtain s' where s': "GenerateVoidILStartupMethod demo_hook_env demo_hook_state = (Inr 0x06000014, s')" using demo_hook_runs by blast
  have "hs_bodies demo_hook_state = []" by (simp add: demo_hook_state_def)
  with GenerateVoidILStartupMethod_bodies [OF demo_memory_ok, of demo_hook_state, unfolded s' prod.case sum.case] s' show ?thesis by auto
qed

theorem RunILStartupHook_body_witness:
  "\<exists>s' r ps x r'. GenerateVoidILStartupMethod demo_hook_env demo_hook_state = (Inr 0x06000014, s')
    \<and> Import (Inr demo_body) (ILRewriter_new demo_memory) = Inr r
    \<and> il_wf r' (x # ps) \<and> il_node r' x = call_il 0x06000014 \<and> map (il_node r') ps = map (il_node r) ps
    \<and> RunILStartupHook demo_hook_env 0x06000001 demo_hook_state = hand_over demo_hook_env 0x06000001 r' s'"
proof -
  obtain r where r: "Import (Inr demo_body) (ILRewriter_new demo_memory) = Inr r" using demo_import by blast
  obtain s' where s': "GenerateVoidILStartupMethod demo_hook_env demo_hook_state = (Inr 0x06000014, s')" using demo_hook_runs by blast
  have "GetCodeSize demo_body \<le> length (Code demo_body)" "GetCodeSize demo_body + 10 < 4294967296" "GetMaxStack demo_body < 4294967296"
    by (simp_all add: demo_body_def demo_code_def)
  from RunILStartupHook_body [OF demo_env(4) this, where r = r and s = demo_hook_state and function_token = "0x06000001", unfolded s' prod.case sum.case demo_env] r
  show ?thesis using s' by blast
qed

theorem AddIISPreStartInitFlags_body_witness:
  "\<exists>t r ps p r'. Import (Inr demo_body) (ILRewriter_new demo_memory) = Inr r \<and> il_wf r (ps @ [p]) \<and> flagged t r ps p r'
    \<and> AddIISPreStartInitFlags demo_hook_env 0x06000001 demo_hook_state = hand_over demo_hook_env 0x06000001 r' demo_hook_state"
proof -
  obtain r where r: "Import (Inr demo_body) (ILRewriter_new demo_memory) = Inr r" using demo_import by blast
  obtain t where t: "bindH (module_metadata demo_hook_env) (\<lambda>_. define_iis_refs demo_hook_env) demo_hook_state = (Inr t, demo_hook_state)"
    using demo_pieces(3) by blast
  have "GetCodeSize demo_body \<le> length (Code demo_body)" "GetCodeSize demo_body + 10 < 4294967296" "GetMaxStack demo_body < 4294967296"
    "GetCodeSize demo_body \<noteq> 0"
    by (simp_all add: demo_body_def demo_code_def)
  from AddIISPreStartInitFlags_body [OF demo_env(4) this(1-3) _ this(4) t, where r = r and function_token = "0x06000001", unfolded sum.case demo_env] r
  show ?thesis by blast
qed

text \<open>Two threads, with references that mean what they have been defined for.\<close>

definition demo_refs :: startup_refs where
  "demo_refs = \<lparr>alreadyLoadedMethodToken = 0x0600000F, pinvoke_method_def = 0x0600001A, byte_type_ref = 0x01000002,
     marshal_copy_member_ref = 0x0A000004, appdomain_load_member_ref = 0x0A000005,
     assembly_create_instance_member_ref = 0x0A00000E, load_helper_token = 0x70000001, locals_signature_token = 0x11000001\<rparr>"

definition demo_callees :: "u32 \<Rightarrow> callee option" where
  "demo_callees = [0x0600000F \<mapsto> method_of (append_code (already_loaded_code 0x04000001 0x0A00000F) (tiny_rewriter demo_hook_env)),
     0x0A00000F \<mapsto> CompareExchange, 0x0600001A \<mapsto> native_of get_assembly_bytes_signature,
     0x0A000004 \<mapsto> native_of marshal_copy_signature, 0x0A000005 \<mapsto> native_of (appdomain_load_signature [0x05]),
     0x0A00000E \<mapsto> native_of create_instance_signature]"

lemma demo_resolves: "resolves demo_hook_env demo_callees demo_refs 0x04000001 0x0A00000F"
  by (auto simp: resolves_def demo_callees_def demo_refs_def)


end
