(* ===== verification/IntegrationLoader.thy ===== *)
theory IntegrationLoader
  imports IntegrationFilter Environment
begin

text \<open>
  The loading of the integrations (\<open>integration_loader.cpp\<close>): from the JSON files named by the
  environment to the \<open>Integration\<close>s of the profiler. The JSON library is third-party: its parser
  and its conversions \<open>get<T>\<close> are parameters, and the values it hands out are a datatype.
  Exceptions of the library are results.
\<close>

section \<open>JSON values\<close>

text \<open>The members of an object are in the order in which the library iterates over them. A
  floating-point number is given by its bits.\<close>

datatype json =
    JNull
  | JBool bool
  | JUnsigned u64
  | JInteger u64
  | JFloat u64
  | JString cstring
  | JArray "json list"
  | JObject "(cstring \<times> json) list"

datatype json_error = ParseError | TypeError

text \<open>\<open>get<std::string>\<close>, \<open>get<std::vector<std::string>>\<close>, \<open>get<USHORT>\<close> and \<open>get<BYTE>\<close>.\<close>

record json_api =
  get_string :: "json \<Rightarrow> json_error + cstring"
  get_strings :: "json \<Rightarrow> json_error + cstring list"
  get_ushort :: "json \<Rightarrow> json_error + u16"
  get_byte :: "json \<Rightarrow> json_error + byte"

text \<open>\<open>src.find(key)\<close>, and \<open>src.value(key, default)\<close> for a default that is a string or an array.\<close>

definition find_key :: "(cstring \<times> json) list \<Rightarrow> string \<Rightarrow> json option" where
  "find_key src key = map_of src (CStr key)"

definition value_string :: "json_api \<Rightarrow> (cstring \<times> json) list \<Rightarrow> string \<Rightarrow> json_error + cstring" where
  "value_string api src key = (case find_key src key of None \<Rightarrow> Inr [] | Some v \<Rightarrow> get_string api v)"

definition value_json :: "(cstring \<times> json) list \<Rightarrow> string \<Rightarrow> json \<Rightarrow> json" where
  "value_json src key d = (case find_key src key of None \<Rightarrow> d | Some v \<Rightarrow> v)"

text \<open>\<open>for (auto& el : j)\<close>: the elements of an array, the values of an object, and a value of any
  other kind as its own only element.\<close>

fun json_elements :: "json \<Rightarrow> json list" where
  "json_elements JNull = []"
| "json_elements (JArray els) = els"
| "json_elements (JObject members) = map snd members"
| "json_elements j = [j]"

section \<open>Method references\<close>

definition ushort_field :: "json_api \<Rightarrow> (cstring \<times> json) list \<Rightarrow> string \<Rightarrow> u16 \<Rightarrow> json_error + u16" where
  "ushort_field api src key d = (case find_key src key of None \<Rightarrow> Inr d | Some v \<Rightarrow> get_ushort api v)"

text \<open>The loop over the signature types runs downwards, until the unsigned index wraps around.\<close>

fun store_types :: "nat \<Rightarrow> u64 \<Rightarrow> cstring list \<Rightarrow> wstring list \<Rightarrow> wstring list option" where
  "store_types 0 i sig_types types = None"
| "store_types (Suc n) i sig_types types =
     (if i < of_nat (length sig_types)
      then store_types n (i - 1) sig_types (types[unat i := ToWSTRING (sig_types ! unat i)])
      else Some types)"

definition signature_type_array :: "cstring list \<Rightarrow> wstring list option" where
  "signature_type_array sig_types =
     store_types (length sig_types + 1) (of_nat (length sig_types) - 1) sig_types
       (replicate (length sig_types) [])"

definition hex_nibble :: "byte \<Rightarrow> byte option" where
  "hex_nibble c =
     (if 0x30 \<le> c \<and> c \<le> 0x39 then Some (c - 0x30)
      else if 0x61 \<le> c \<and> c \<le> 0x66 then Some (c - 0x61 + 10)
      else if 0x41 \<le> c \<and> c \<le> 0x46 then Some (c - 0x41 + 10)
      else None)"

fun hex_signature :: "cstring \<Rightarrow> bool \<Rightarrow> byte \<Rightarrow> byte list" where
  "hex_signature [] flip prev = []"
| "hex_signature (c # str) flip prev = (case hex_nibble c of
     None \<Rightarrow> hex_signature str flip prev
   | Some b \<Rightarrow> (if flip then [push_bit 4 prev + b] else []) @ hex_signature str (\<not> flip) b)"

fun byte_elements :: "json_api \<Rightarrow> json list \<Rightarrow> json_error + byte list" where
  "byte_elements api [] = Inr []"
| "byte_elements api (JUnsigned n # els) =
     bindE (get_byte api (JUnsigned n)) (\<lambda>b. bindE (byte_elements api els) (\<lambda>bs. Inr (b # bs)))"
| "byte_elements api (el # els) = byte_elements api els"

fun signature_bytes :: "json_api \<Rightarrow> json \<Rightarrow> json_error + byte list" where
  "signature_bytes api (JArray els) = byte_elements api els"
| "signature_bytes api (JString str) = Inr (hex_signature str False 0)"
| "signature_bytes api raw_signature = Inr []"

definition target_versions :: "json_api \<Rightarrow> (cstring \<times> json) list \<Rightarrow> json_error + (Version \<times> Version)" where
  "target_versions api src =
     bindE (ushort_field api src ''minimum_major'' 0) (\<lambda>min_major.
     bindE (ushort_field api src ''minimum_minor'' 0) (\<lambda>min_minor.
     bindE (ushort_field api src ''minimum_patch'' 0) (\<lambda>min_patch.
     bindE (ushort_field api src ''maximum_major'' 65535) (\<lambda>max_major.
     bindE (ushort_field api src ''maximum_minor'' 65535) (\<lambda>max_minor.
     bindE (ushort_field api src ''maximum_patch'' 65535) (\<lambda>max_patch.
     Inr (Version min_major min_minor min_patch 0, Version max_major max_minor max_patch 65535)))))))"

definition target_types :: "json_api \<Rightarrow> (cstring \<times> json) list \<Rightarrow> json_error + wstring list" where
  "target_types api src = (case find_key src ''signature_types'' of
     None \<Rightarrow> Inr []
   | Some v \<Rightarrow> bindE (get_strings api v) (\<lambda>sig_types. Inr (the (signature_type_array sig_types))))"

text \<open>\<open>parse\<close> is the constructor of \<open>AssemblyReference\<close> of the platform.\<close>

definition MethodReferenceFromJson ::
  "json_api \<Rightarrow> (wstring \<Rightarrow> AssemblyReference) \<Rightarrow> json \<Rightarrow> bool \<Rightarrow> bool \<Rightarrow> json_error + MethodReference" where
  "MethodReferenceFromJson api parse j is_target_method is_wrapper_method = (case j of
     JObject src \<Rightarrow>
       bindE (value_string api src ''assembly'') (\<lambda>asm.
       bindE (value_string api src ''type'') (\<lambda>ty.
       bindE (value_string api src ''method'') (\<lambda>meth.
       let raw_signature = value_json src ''signature'' (JArray []) in
       bindE (if is_target_method then target_versions api src
              else Inr (Version 0 0 0 0, Version 65535 65535 65535 65535)) (\<lambda>(minv, maxv).
       bindE (if is_target_method then target_types api src else Inr []) (\<lambda>types.
       bindE (if \<not> is_target_method \<and> is_wrapper_method then value_string api src ''action'' else Inr []) (\<lambda>act.
       bindE (signature_bytes api raw_signature) (\<lambda>sig.
       Inr (MethodReference_make parse (ToWSTRING asm) (ToWSTRING ty) (ToWSTRING meth) (ToWSTRING act)
              minv maxv sig types))))))))
   | _ \<Rightarrow> Inr MethodReference_default)"

section \<open>Integrations\<close>

text \<open>\<open>None\<close> is the pair whose second component is false.\<close>

definition MethodReplacementFromJson ::
  "json_api \<Rightarrow> (wstring \<Rightarrow> AssemblyReference) \<Rightarrow> json \<Rightarrow> json_error + MethodReplacement option" where
  "MethodReplacementFromJson api parse j = (case j of
     JObject src \<Rightarrow>
       bindE (MethodReferenceFromJson api parse (value_json src ''caller'' (JObject [])) False False) (\<lambda>caller.
       bindE (MethodReferenceFromJson api parse (value_json src ''target'' (JObject [])) True False) (\<lambda>target.
       bindE (MethodReferenceFromJson api parse (value_json src ''wrapper'' (JObject [])) False True) (\<lambda>wrapper.
       Inr (Some \<lparr>caller_method = caller, target_method = target, wrapper_method = wrapper\<rparr>))))
   | _ \<Rightarrow> Inr None)"

fun replacements_from :: "json_api \<Rightarrow> (wstring \<Rightarrow> AssemblyReference) \<Rightarrow> json list \<Rightarrow> json_error + MethodReplacement list" where
  "replacements_from api parse [] = Inr []"
| "replacements_from api parse (el # els) =
     bindE (MethodReplacementFromJson api parse el) (\<lambda>mr.
     bindE (replacements_from api parse els) (\<lambda>mrs.
     Inr (case mr of None \<Rightarrow> mrs | Some r \<Rightarrow> r # mrs)))"

definition IntegrationFromJson ::
  "json_api \<Rightarrow> (wstring \<Rightarrow> AssemblyReference) \<Rightarrow> json \<Rightarrow> json_error + Integration option" where
  "IntegrationFromJson api parse j = (case j of
     JObject src \<Rightarrow>
       bindE (value_string api src ''name'') (\<lambda>nm.
       if ToWSTRING nm = [] then Inr None
       else bindE (case value_json src ''method_replacements'' (JArray []) of
                     JArray els \<Rightarrow> replacements_from api parse els
                   | _ \<Rightarrow> Inr []) (\<lambda>replacements.
            Inr (Some \<lparr>integration_name = ToWSTRING nm, method_replacements = replacements\<rparr>)))
   | _ \<Rightarrow> Inr None)"

section \<open>Files\<close>

text \<open>The loop stands in a \<open>try\<close> block, and what has been read before an exception is kept.\<close>

fun load_elements :: "json_api \<Rightarrow> (wstring \<Rightarrow> AssemblyReference) \<Rightarrow> json list \<Rightarrow> Integration list" where
  "load_elements api parse [] = []"
| "load_elements api parse (el # els) = (case IntegrationFromJson api parse el of
     Inl e \<Rightarrow> []
   | Inr None \<Rightarrow> load_elements api parse els
   | Inr (Some i) \<Rightarrow> i # load_elements api parse els)"

text \<open>\<open>parser\<close> is \<open>stream >> j\<close>, \<open>open_file\<close> the contents of a file that can be opened.\<close>

definition LoadIntegrationsFromStream ::
  "json_api \<Rightarrow> (wstring \<Rightarrow> AssemblyReference) \<Rightarrow> (cstring \<Rightarrow> json_error + json) \<Rightarrow> cstring \<Rightarrow> Integration list" where
  "LoadIntegrationsFromStream api parse parser stream = (case parser stream of
     Inl e \<Rightarrow> []
   | Inr j \<Rightarrow> load_elements api parse (json_elements j))"

definition LoadIntegrationsFromFile ::
  "json_api \<Rightarrow> (wstring \<Rightarrow> AssemblyReference) \<Rightarrow> (cstring \<Rightarrow> json_error + json) \<Rightarrow> (cstring \<Rightarrow> cstring option)
    \<Rightarrow> wstring \<Rightarrow> Integration list" where
  "LoadIntegrationsFromFile api parse parser open_file file_path = (case open_file (ToString file_path) of
     None \<Rightarrow> []
   | Some stream \<Rightarrow> LoadIntegrationsFromStream api parse parser stream)"

definition LoadIntegrationsFromEnvironment ::
  "json_api \<Rightarrow> (wstring \<Rightarrow> AssemblyReference) \<Rightarrow> (cstring \<Rightarrow> json_error + json) \<Rightarrow> (cstring \<Rightarrow> cstring option)
    \<Rightarrow> (cstring \<Rightarrow> cstring option) \<Rightarrow> Integration list" where
  "LoadIntegrationsFromEnvironment api parse parser open_file getenv =
     concat (map (LoadIntegrationsFromFile api parse parser open_file)
       (GetEnvironmentValues_semicolon getenv integrations_path))"

section \<open>Lemmas\<close>

lemma CStr_eq_iff [simp]: "CStr s = CStr t \<longleftrightarrow> s = t"
proof -
  have "inj (\<lambda>c :: char. of_nat (of_char c) :: byte)"
  proof (rule injI)
    fix c d :: char
    assume "(of_nat (of_char c) :: byte) = of_nat (of_char d)"
    then have "take_bit 8 (of_char c :: nat) = take_bit 8 (of_char d)"
      by (simp only: of_nat_eq_iff word_of_nat_eq_iff) simp
    then have "(of_char c :: nat) = of_char d" by (simp add: take_bit_nat_eq_self)
    then show "c = d" by simp
  qed
  then show ?thesis by (simp add: CStr_def inj_map_eq_map)
qed

lemma find_key_Nil [simp]: "find_key [] key = None"
  by (simp add: find_key_def)

lemma find_key_Cons [simp]: "find_key ((CStr k, v) # src) key = (if k = key then Some v else find_key src key)"
  by (auto simp: find_key_def)

text \<open>The downward loop converts every type, in its place.\<close>

lemma store_types_from:
  assumes "k \<le> length ss" "length ss < 2 ^ 64" "length types = length ss"
    and "drop k types = map ToWSTRING (drop k ss)"
  shows "store_types (Suc k) (of_nat k - 1) ss types = Some (map ToWSTRING ss)"
  using assms
proof (induction k arbitrary: types)
  case 0
  have "\<not> (of_nat 0 - 1 :: u64) < of_nat (length ss)"
    by (simp add: not_less)
  then show ?case using 0(4) by simp
next
  case (Suc k)
  have i: "(of_nat (Suc k) - 1 :: u64) = of_nat k" by simp
  have u: "unat (of_nat k :: u64) = k" using Suc.prems(1,2) by (simp add: unat_of_nat take_bit_nat_eq_self)
  have "(of_nat k :: u64) < of_nat (length ss)"
    using Suc.prems(1,2) by (simp add: word_less_nat_alt unat_of_nat take_bit_nat_eq_self)
  moreover have "drop k (types[k := ToWSTRING (ss ! k)]) = map ToWSTRING (drop k ss)"
    using Suc.prems by (simp add: drop_update_cancel Cons_nth_drop_Suc [symmetric] drop_map [symmetric])
  then have "store_types (Suc k) (of_nat k - 1) ss (types[k := ToWSTRING (ss ! k)]) = Some (map ToWSTRING ss)"
    using Suc.prems by (intro Suc.IH) simp_all
  ultimately show ?case unfolding store_types.simps(2) [of "Suc k"] i u by (simp only: if_True)
qed

lemma signature_type_array_map:
  "length ss < 2 ^ 64 \<Longrightarrow> signature_type_array ss = Some (map ToWSTRING ss)"
  unfolding signature_type_array_def Suc_eq_plus1 [symmetric] by (rule store_types_from) simp_all

text \<open>A signature printed by \<open>MethodSignature::str\<close> is read back from its hexadecimal digits.\<close>

lemma HexStr_pairs: "HexStr data = concat (map hex_pair data)"
proof -
  let ?g = "\<lambda>i s. s[2 * i := HexMap ! unat (drop_bit 4 (data ! i AND 0xF0)),
       2 * i + 1 := HexMap ! unat (data ! i AND 0x0F)]"
  have len: "length (concat (map hex_pair xs)) = 2 * length xs" for xs
    by (induction xs) (simp_all add: hex_pair_def)
  have "n \<le> length data \<Longrightarrow> fold ?g [0..<n] (replicate (length data * 2) 32)
      = concat (map hex_pair (take n data)) @ replicate (2 * (length data - n)) 32" for n
  proof (induction n)
    case (Suc n)
    define xs where "xs = concat (map hex_pair (take n data))"
    have xs: "length xs = 2 * n" using Suc.prems by (simp add: xs_def len)
    have upd: "(xs @ 32 # 32 # r)[2 * n := a, Suc (2 * n) := b] = xs @ a # b # r" for a b r
      unfolding xs [symmetric] by (simp add: list_update_append)
    have "replicate (2 * (length data - n)) 32 = (32 :: u16) # 32 # replicate (2 * (length data - Suc n)) 32"
    proof -
      have "2 * (length data - n) = Suc (Suc (2 * (length data - Suc n)))" using Suc.prems by simp
      then show ?thesis by simp
    qed
    then show ?case
      using Suc.IH Suc.prems
      by (simp add: take_Suc_conv_app_nth xs_def [symmetric] upd del: nibbles) (simp add: hex_pair_def)
  qed (simp add: mult.commute)
  from this [of "length data"] show ?thesis by (simp add: HexStr_def)
qed

lemma hex_nibble_HexMap:
  assumes "n < 16"
  shows "hex_nibble (ucast (HexMap ! n)) = Some (of_nat n)"
proof -
  have "list_all (\<lambda>n. hex_nibble (ucast (HexMap ! n)) = Some (of_nat n)) [0..<16]"
    by code_simp
  then show ?thesis using assms by (simp add: list_all_iff)
qed

lemma hex_signature_pair:
  "hex_signature (map ucast (hex_pair b) @ str) False prev = b # hex_signature str False (b AND 0x0F)"
proof -
  have lt: "unat b div 16 < 16" using unat_byte [of b] by simp
  have "push_bit 4 (of_nat (unat b div 16)) + of_nat (unat b mod 16)
      = (of_nat (unat b div 16 * 16 + unat b mod 16) :: byte)"
    unfolding of_nat_add of_nat_mult by (simp add: push_bit_eq_mult)
  then have *: "push_bit 4 (of_nat (unat b div 16)) + of_nat (unat b mod 16) = b" by simp
  have "of_nat (unat b mod 16) = (of_nat (unat (b AND 0x0F)) :: byte)" by (simp only: nibbles(2))
  then have "of_nat (unat b mod 16) = b AND 0x0F" by simp
  then show ?thesis
    unfolding hex_pair_def nibbles using * lt by (simp add: hex_nibble_HexMap)
qed

lemma hex_signature_HexStr: "hex_signature (map ucast (HexStr data)) False prev = data"
  unfolding HexStr_pairs by (induction data arbitrary: prev) (simp_all add: hex_signature_pair)

lemma ToString_ascii_bytes:
  assumes "ascii s"
  shows "ToString s = map ucast s"
proof -
  have c: "utf8_encode (ucast c) = [ucast c] \<and> utf16_encode (ucast c) = [c] \<and> scalar (ucast c)
      \<and> (ucast c :: u32) \<noteq> 0" if "c \<noteq> 0" "c < 0x80" for c :: u16
  proof -
    have u: "unat c < 128" "unat c \<noteq> 0" using that by (simp_all add: word_less_nat_alt unat_eq_0)
    then have n: "unat (ucast c :: u32) = unat c" by (simp add: unsigned_ucast_eq take_bit_nat_eq_self)
    have "ucast (ucast c :: u32) = c" "ucast (ucast c :: u32) = (ucast c :: byte)"
      by (rule bit_word_eqI; simp add: bit_simps)+
    moreover have "(ucast c :: u32) \<noteq> 0" using n u(2) by auto
    ultimately show ?thesis
      using u n by (simp add: utf8_encode_def utf16_encode_def scalar_def word_less_nat_alt word_le_nat_alt)
  qed
  let ?pts = "map ucast s :: u32 list"
  have all: "\<forall>c \<in> set s. c \<noteq> 0 \<and> c < 0x80" using assms by (simp add: ascii_def list_all_iff)
  have "to_utf8_32 ?pts = map ucast s" "concat (map utf16_encode ?pts) = s"
    using all c by (induction s) (simp_all add: to_utf8_32_def)
  moreover have "\<forall>pt \<in> set ?pts. scalar pt \<and> pt \<noteq> 0" using all c by auto
  ultimately show ?thesis using ToString_scalars [of ?pts] by simp
qed

lemma ascii_HexStr: "ascii (HexStr data)"
proof -
  have "n < 16 \<Longrightarrow> HexMap ! n \<noteq> 0 \<and> HexMap ! n < 0x80" for n
  proof -
    have "list_all (\<lambda>n. HexMap ! n \<noteq> 0 \<and> HexMap ! n < 0x80) [0..<16]"
      by (simp add: HexMap_def upt_rec)
    then show "n < 16 \<Longrightarrow> HexMap ! n \<noteq> 0 \<and> HexMap ! n < 0x80" by (simp add: list_all_iff)
  qed
  moreover have "unat b div 16 < 16" for b :: byte using unat_byte [of b] by simp
  ultimately show ?thesis
    unfolding HexStr_pairs by (induction data) (simp_all add: hex_pair_def nibbles ascii_def)
qed

lemma signature_loaded: "hex_signature (ToString (HexStr data)) False prev = data"
  by (simp add: ToString_ascii_bytes ascii_HexStr hex_signature_HexStr)

section \<open>Writing integrations\<close>

text \<open>The JSON value of an integration, in the form that the loader reads: what is read only of a
  target or of a wrapper is written only there. \<open>asm_text\<close> writes the reference to an assembly.\<close>

definition reference_json :: "(AssemblyReference \<Rightarrow> wstring) \<Rightarrow> bool \<Rightarrow> bool \<Rightarrow> MethodReference \<Rightarrow> json" where
  "reference_json asm_text is_target is_wrapper m = (let text = (\<lambda>s. JString (ToString s)) in JObject
     ([(CStr ''assembly'', text (asm_text (assembly m))), (CStr ''type'', text (type_name m)),
       (CStr ''method'', text (method_name m)), (CStr ''signature'', text (HexStr (method_signature m)))]
      @ (if is_target then
           [(CStr ''minimum_major'', JUnsigned (ucast (major (min_version m)))),
            (CStr ''minimum_minor'', JUnsigned (ucast (minor (min_version m)))),
            (CStr ''minimum_patch'', JUnsigned (ucast (build (min_version m)))),
            (CStr ''maximum_major'', JUnsigned (ucast (major (max_version m)))),
            (CStr ''maximum_minor'', JUnsigned (ucast (minor (max_version m)))),
            (CStr ''maximum_patch'', JUnsigned (ucast (build (max_version m)))),
            (CStr ''signature_types'', JArray (map text (signature_types m)))]
         else if is_wrapper then [(CStr ''action'', text (action m))] else [])))"

definition replacement_json :: "(AssemblyReference \<Rightarrow> wstring) \<Rightarrow> MethodReplacement \<Rightarrow> json" where
  "replacement_json asm_text r = JObject
     [(CStr ''caller'', reference_json asm_text False False (caller_method r)),
      (CStr ''target'', reference_json asm_text True False (target_method r)),
      (CStr ''wrapper'', reference_json asm_text False True (wrapper_method r))]"

definition integration_json :: "(AssemblyReference \<Rightarrow> wstring) \<Rightarrow> Integration \<Rightarrow> json" where
  "integration_json asm_text i = JObject
     [(CStr ''name'', JString (ToString (integration_name i))),
      (CStr ''method_replacements'', JArray (map (replacement_json asm_text) (method_replacements i)))]"

text \<open>What a file can say: text survives the conversion to UTF-8, the numbers that a file does not
  give have their defaults.\<close>

definition encodable :: "wstring \<Rightarrow> bool" where
  "encodable w \<longleftrightarrow> ToWSTRING (ToString w) = w"

definition loadable_reference ::
  "(wstring \<Rightarrow> AssemblyReference) \<Rightarrow> (AssemblyReference \<Rightarrow> wstring) \<Rightarrow> bool \<Rightarrow> bool \<Rightarrow> MethodReference \<Rightarrow> bool" where
  "loadable_reference parse asm_text is_target is_wrapper m \<longleftrightarrow>
     encodable (asm_text (assembly m)) \<and> parse (asm_text (assembly m)) = assembly m
     \<and> encodable (type_name m) \<and> encodable (method_name m)
     \<and> (if is_wrapper then encodable (action m) else action m = [])
     \<and> (if is_target then revision (min_version m) = 0 \<and> revision (max_version m) = 65535
            \<and> list_all encodable (signature_types m) \<and> length (signature_types m) < 2 ^ 64
        else min_version m = Version 0 0 0 0 \<and> max_version m = Version 65535 65535 65535 65535
            \<and> signature_types m = [])"

definition loadable :: "(wstring \<Rightarrow> AssemblyReference) \<Rightarrow> (AssemblyReference \<Rightarrow> wstring) \<Rightarrow> Integration \<Rightarrow> bool" where
  "loadable parse asm_text i \<longleftrightarrow> encodable (integration_name i) \<and> integration_name i \<noteq> []
     \<and> list_all (\<lambda>r. loadable_reference parse asm_text False False (caller_method r)
         \<and> loadable_reference parse asm_text True False (target_method r)
         \<and> loadable_reference parse asm_text False True (wrapper_method r)) (method_replacements i)"

text \<open>What the loader relies on of the library: values are converted to what they are.\<close>

definition json_api_ok :: "json_api \<Rightarrow> bool" where
  "json_api_ok api \<longleftrightarrow> (\<forall>s. get_string api (JString s) = Inr s)
     \<and> (\<forall>ss. get_strings api (JArray (map JString ss)) = Inr ss)
     \<and> (\<forall>v. get_ushort api (JUnsigned (ucast v)) = Inr v)"

lemma encodable_ascii:
  assumes "ascii w"
  shows "encodable w"
proof -
  have "ascii (map ucast w :: cstring)"
  proof -
    have "(ucast c :: byte) \<noteq> 0 \<and> (ucast c :: byte) < 0x80" if "c \<noteq> 0" "c < 0x80" for c :: u16
    proof -
      have "unat c < 128" "unat c \<noteq> 0" using that by (simp_all add: word_less_nat_alt unat_eq_0)
      then have "unat (ucast c :: byte) = unat c" by (simp add: unsigned_ucast_eq take_bit_nat_eq_self)
      then show ?thesis
        using \<open>unat c < 128\<close> \<open>unat c \<noteq> 0\<close> by (auto simp: word_less_nat_alt)
    qed
    then show ?thesis using assms by (auto simp: ascii_def list_all_iff)
  qed
  moreover have "map (\<lambda>c. ucast (ucast c :: byte)) w = w"
  proof (rule map_idI)
    fix c assume "c \<in> set w"
    then have "unat c < 128" using assms by (auto simp: ascii_def list_all_iff word_less_nat_alt)
    then have "unat (ucast (ucast c :: byte) :: u16) = unat c"
      by (simp add: unsigned_ucast_eq unsigned_take_bit_eq take_bit_nat_eq_self)
    then show "ucast (ucast c :: byte) = c" by (simp only: unsigned_word_eqI)
  qed
  ultimately show ?thesis
    by (simp add: encodable_def ToString_ascii_bytes assms ToWSTRING_ascii comp_def)
qed

lemma reference_loaded:
  assumes api: "json_api_ok api" and m: "loadable_reference parse asm_text is_target is_wrapper m"
    and k: "\<not> (is_target \<and> is_wrapper)"
  shows "MethodReferenceFromJson api parse (reference_json asm_text is_target is_wrapper m) is_target is_wrapper = Inr m"
proof -
  have s: "get_string api (JString s) = Inr s" "get_ushort api (JUnsigned (ucast v)) = Inr v"
    "get_strings api (JArray (map JString ss)) = Inr ss" for s v ss
    using api by (simp_all add: json_api_ok_def)
  have v: "Version (major w) (minor w) (build w) r = w" if "revision w = r" for w r
    using that by (cases w) simp
  have types: "bindE (get_strings api (JArray (map (\<lambda>s. JString (ToString s)) ts)))
      (\<lambda>sig_types. Inr (the (signature_type_array sig_types))) = Inr ts"
    if "list_all encodable ts" "length ts < 2 ^ 64" for ts
  proof -
    have "map (\<lambda>s. JString (ToString s)) ts = map JString (map ToString ts)" by simp
    moreover have "map ToWSTRING (map ToString ts) = ts"
      using that(1) by (induction ts) (simp_all add: encodable_def)
    ultimately show ?thesis
      using that(2) by (simp add: s(3) signature_type_array_map del: map_map)
  qed
  have nil: "ToWSTRING [] = []" using ToWSTRING_ascii [of "[]"] by (simp add: ascii_def)
  note simps = MethodReferenceFromJson_def reference_json_def Let_def value_string_def s value_json_def
    signature_loaded loadable_reference_def encodable_def MethodReference_make_def nil
  consider (target) "is_target" "\<not> is_wrapper" | (wrapper) "\<not> is_target" "is_wrapper" | (caller) "\<not> is_target" "\<not> is_wrapper"
    using k by auto
  then show ?thesis
  proof cases
    case target
    then show ?thesis
      using m types by (cases m) (simp add: simps target_versions_def target_types_def ushort_field_def v)
  next
    case wrapper
    then show ?thesis using m by (cases m) (simp add: simps)
  next
    case caller
    then show ?thesis using m by (cases m) (simp add: simps)
  qed
qed

lemma replacement_loaded:
  assumes "json_api_ok api" "loadable_reference parse asm_text False False (caller_method r)"
    "loadable_reference parse asm_text True False (target_method r)"
    "loadable_reference parse asm_text False True (wrapper_method r)"
  shows "MethodReplacementFromJson api parse (replacement_json asm_text r) = Inr (Some r)"
  using assms by (simp add: MethodReplacementFromJson_def replacement_json_def value_json_def reference_loaded)

lemma integration_loaded:
  assumes api: "json_api_ok api" and i: "loadable parse asm_text i"
  shows "IntegrationFromJson api parse (integration_json asm_text i) = Inr (Some i)"
proof -
  have "list_all (\<lambda>r. loadable_reference parse asm_text False False (caller_method r)
         \<and> loadable_reference parse asm_text True False (target_method r)
         \<and> loadable_reference parse asm_text False True (wrapper_method r)) rs
      \<Longrightarrow> replacements_from api parse (map (replacement_json asm_text) rs) = Inr rs" for rs
    by (induction rs) (simp_all add: replacement_loaded [OF api])
  then show ?thesis
    using i api by (simp add: IntegrationFromJson_def integration_json_def value_string_def value_json_def
        json_api_ok_def loadable_def encodable_def)
qed

lemma load_elements_loaded:
  "json_api_ok api \<Longrightarrow> list_all (loadable parse asm_text) ints
    \<Longrightarrow> load_elements api parse (map (integration_json asm_text) ints) = ints"
  by (induction ints) (simp_all add: integration_loaded)

lemma load_elements_takeWhile:
  "load_elements api parse els =
     [i. Inr (Some i) \<leftarrow> map (IntegrationFromJson api parse) (takeWhile (\<lambda>el. \<not> isl (IntegrationFromJson api parse el)) els)]"
  by (induction els) (auto split: sum.splits option.splits)

text \<open>A library to evaluate the loader with, and an integration.\<close>

fun demo_string :: "json \<Rightarrow> json_error + cstring" where
  "demo_string (JString s) = Inr s"
| "demo_string j = Inl TypeError"

fun demo_string_list :: "json list \<Rightarrow> json_error + cstring list" where
  "demo_string_list [] = Inr []"
| "demo_string_list (j # js) = bindE (demo_string j) (\<lambda>s. bindE (demo_string_list js) (\<lambda>ss. Inr (s # ss)))"

fun demo_strings :: "json \<Rightarrow> json_error + cstring list" where
  "demo_strings (JArray js) = demo_string_list js"
| "demo_strings j = Inl TypeError"

fun demo_number :: "json \<Rightarrow> json_error + 'a::len word" where
  "demo_number (JUnsigned n) = Inr (ucast n)"
| "demo_number j = Inl TypeError"

definition demo_api :: json_api where
  "demo_api = \<lparr>get_string = demo_string, get_strings = demo_strings, get_ushort = demo_number, get_byte = demo_number\<rparr>"

lemma demo_api_ok: "json_api_ok demo_api"
proof -
  have "demo_string_list (map JString ss) = Inr ss" for ss by (induction ss) simp_all
  moreover have "ucast (ucast v :: u64) = v" for v :: u16 by (rule bit_word_eqI) (simp add: bit_simps)
  ultimately show ?thesis by (simp add: json_api_ok_def demo_api_def)
qed

definition demo_method_reference :: "wstring \<Rightarrow> MethodReference" where
  "demo_method_reference act = MethodReference_make AssemblyReference_parse (WStr ''Some.Assembly'') (WStr ''Some.Type'')
     (WStr ''Run'') act (Version 0 0 0 0) (Version 65535 65535 65535 65535) [0x20, 0x01, 0x1C, 0x1C] []"

definition demo_loaded :: Integration where
  "demo_loaded = \<lparr>integration_name = WStr ''Some'', method_replacements =
     [\<lparr>caller_method = demo_method_reference [],
       target_method = (demo_method_reference [])\<lparr>min_version := Version 1 2 0 0,
         signature_types := [WStr ''System.Void'', WStr ''_'']\<rparr>,
       wrapper_method = demo_method_reference (WStr ''CallTargetModification'')\<rparr>]\<rparr>"

lemma demo_loadable: "loadable AssemblyReference_parse name demo_loaded"
proof -
  have "name (AssemblyReference_parse (WStr ''Some.Assembly'')) = WStr ''Some.Assembly''" by code_simp
  moreover have "ascii (WStr ''Some'')" "ascii (WStr ''Some.Assembly'')" "ascii (WStr ''Some.Type'')"
    "ascii (WStr ''Run'')" "ascii (WStr ''System.Void'')" "ascii (WStr ''_'')" "ascii (WStr ''CallTargetModification'')"
    by code_simp+
  moreover have "WStr ''Some'' \<noteq> []" by (simp add: WStr_def)
  ultimately show ?thesis
    by (simp add: loadable_def demo_loaded_def demo_method_reference_def loadable_reference_def
        MethodReference_make_def encodable_ascii)
qed

text \<open>One null among the signature types of a target, and the rest of the file is gone.\<close>

lemma null_type_ends_file:
  assumes "get_string api (JString (CStr ''x'')) = Inr (CStr ''x'')" "get_strings api (JArray [JNull]) = Inl TypeError"
  shows "load_elements api parse (JObject [(CStr ''name'', JString (CStr ''x'')), (CStr ''method_replacements'',
      JArray [JObject [(CStr ''target'', JObject [(CStr ''signature_types'', JArray [JNull])])]])] # els) = []"
proof -
  have "ToWSTRING (CStr ''x'') \<noteq> []"
    using ToWSTRING_ascii [of "CStr ''x''"] by (simp add: ascii_def CStr_def)
  then show ?thesis
    using assms by (simp add: IntegrationFromJson_def value_string_def value_json_def MethodReplacementFromJson_def
        MethodReferenceFromJson_def target_versions_def ushort_field_def target_types_def)
qed

section \<open>Properties\<close>

text \<open>C23. Whatever integrations can be written to a file are read back from it: names, assemblies,
  versions, signature types, and signatures in hexadecimal.\<close>

theorem LoadIntegrations_roundtrip:
  assumes "json_api_ok api" "list_all (loadable parse asm_text) ints"
    and "parser text = Inr (JArray (map (integration_json asm_text) ints))"
  shows "LoadIntegrationsFromStream api parse parser text = ints"
  using assms by (simp add: LoadIntegrationsFromStream_def load_elements_loaded)

theorem LoadIntegrations_roundtrip_witness:
  "LoadIntegrationsFromStream demo_api AssemblyReference_parse
     (\<lambda>_. Inr (JArray (map (integration_json name) [demo_loaded, demo_loaded]))) [] = [demo_loaded, demo_loaded]"
  by (rule LoadIntegrations_roundtrip [where asm_text = name]) (simp_all add: demo_api_ok demo_loadable)


end
