(* ===== verification/CorProfiler.thy ===== *)
theory CorProfiler
  imports PInvokeMaps IntegrationLoader RejitHandler ModuleMetadata CallTarget
begin

text \<open>
  The profiler as a state machine (\<open>cor_profiler.cpp\<close>, \<open>cor_profiler.h\<close>): its members, \<open>Initialize\<close>,
  and the callbacks that the CLR makes into it. Each callback is a function on the state. The
  metadata objects of the modules live in a store, because the map of modules, the re-JIT handler
  and the callbacks share pointers to them.

  What the CLR answers is a parameter, one record for the duration of a callback; what it is asked
  for, apart from reading, is recorded in the order of the calls. Logging is left out.
\<close>

section \<open>The runtime and the modules\<close>

abbreviation (input) COR_PRF_DESKTOP_CLR :: u32 where "COR_PRF_DESKTOP_CLR \<equiv> 1"
abbreviation (input) COR_PRF_MODULE_WINDOWS_RUNTIME :: u32 where "COR_PRF_MODULE_WINDOWS_RUNTIME \<equiv> 0x40"

record RuntimeInformation =
  runtime_type :: u32
  runtime_version :: "u16 \<times> u16 \<times> u16 \<times> u16"

definition RuntimeInformation_default :: RuntimeInformation where
  "RuntimeInformation_default = \<lparr>runtime_type = 0, runtime_version = (0, 0, 0, 0)\<rparr>"

definition is_desktop :: "RuntimeInformation \<Rightarrow> bool" where
  "is_desktop i \<longleftrightarrow> runtime_type i = COR_PRF_DESKTOP_CLR"

text \<open>\<open>None\<close> is a failure of \<open>GetRuntimeInformation\<close> of the CLR.\<close>

definition GetRuntimeInformation :: "(u32 \<times> u16 \<times> u16 \<times> u16 \<times> u16) option \<Rightarrow> RuntimeInformation" where
  "GetRuntimeInformation info = (case info of
     None \<Rightarrow> RuntimeInformation_default
   | Some (ty, major_version, minor_version, build_version, qfe_version) \<Rightarrow>
       \<lparr>runtime_type = ty, runtime_version = (major_version, minor_version, build_version, qfe_version)\<rparr>)"

record ModuleInfo =
  mo_id :: ModuleID
  mo_path :: wstring
  mo_assembly :: AssemblyInfo
  mo_flags :: u32

definition ModuleInfo_default :: ModuleInfo where
  "ModuleInfo_default = \<lparr>mo_id = 0, mo_path = [], mo_assembly = AssemblyInfo_default, mo_flags = 0\<rparr>"

definition ModuleInfo_IsValid :: "ModuleInfo \<Rightarrow> bool" where
  "ModuleInfo_IsValid m \<longleftrightarrow> mo_id m \<noteq> 0"

definition IsWindowsRuntime :: "ModuleInfo \<Rightarrow> bool" where
  "IsWindowsRuntime m \<longleftrightarrow> mo_flags m AND COR_PRF_MODULE_WINDOWS_RUNTIME \<noteq> 0"

text \<open>\<open>GetModuleInfo2\<close> gives the length and the buffer of the path, the assembly and the flags.\<close>

definition GetModuleInfo ::
  "(u64 \<Rightarrow> (u32 \<times> wstring \<times> u64 \<times> u32) option) \<Rightarrow> (u64 \<Rightarrow> AssemblyInfo) \<Rightarrow> ModuleID \<Rightarrow> ModuleInfo" where
  "GetModuleInfo module_info get_assembly_info module_id = (case module_info module_id of
     None \<Rightarrow> ModuleInfo_default
   | Some (module_path_len, module_path, assembly_id, module_flags) \<Rightarrow>
       if module_path_len = 0 then ModuleInfo_default
       else \<lparr>mo_id = module_id, mo_path = StringUtil.c_str module_path,
         mo_assembly = get_assembly_info assembly_id, mo_flags = module_flags\<rparr>)"

text \<open>The metadata interfaces of a module. The enumerations are given by the tokens they visit,
  \<open>mi_cor_props\<close> by what \<open>GetAssemblyProps\<close> leaves in the properties of the core library.\<close>

record 'm module_interfaces =
  mi_import :: metadata_import
  mi_assembly_from_scope :: "u32 option"
  mi_assembly_props :: assembly_props
  mi_assembly_ref_props :: assembly_props
  mi_assembly_refs :: "u32 list"
  mi_cor_props :: "u32 \<Rightarrow> AssemblyProperty \<Rightarrow> AssemblyProperty"
  mi_module_from_scope :: "u32 option"
  mi_module_version_id :: "128 word option"
  mi_methods_with_name :: "u32 \<Rightarrow> wstring \<Rightarrow> u32 list"
  mi_pinvoke :: "'m pinvoke_api"

record 'm ModuleMetadata =
  mm_interfaces :: "'m module_interfaces"
  mm_assemblyName :: wstring
  mm_app_domain_id :: u64
  mm_module_version_id :: "128 word"
  mm_integrations :: "IntegrationMethod list"
  mm_caches :: wrapper_caches

definition assembly_metadata_of :: "'m module_interfaces \<Rightarrow> AssemblyMetadata" where
  "assembly_metadata_of mi = GetAssemblyImportMetadata (mi_assembly_from_scope mi) (mi_assembly_props mi)"

section \<open>The state\<close>

text \<open>What the CLR, or the thread of the re-JIT handler, is asked to do.\<close>

datatype request =
    SetEventMask u32
  | SetEventMask2 u32 u32
  | StartRejitThread
  | EnqueueRejit RejitItem
  | ShutdownRejitThread
  | InsertStartupHook ModuleID u32 u64
  | InsertPreStartInitFlags ModuleID u32
  | InsertCalls ModuleID u32
  | ReplaceCalls ModuleID u32
  | AddProfilerReference AssemblyRefRequest

record 'm CorProfiler =
  is_attached :: bool
  runtime_information :: RuntimeInformation
  integration_methods :: "IntegrationMethod list"
  instrument_domain_neutral_assemblies :: bool
  corlib_module_loaded :: bool
  corlib_app_domain_id :: u64
  managed_profiler_loaded_domain_neutral :: bool
  managed_profiler_loaded_app_domains :: "u64 set"
  first_jit_compilation_app_domains :: "u64 set"
  in_azure_app_services :: bool
  is_desktop_iis :: bool
  is_net46_or_greater :: bool
  rejit_handler :: "RejitHandler option"
  corAssemblyProperty :: AssemblyProperty
  module_id_to_info_map :: "ModuleID \<rightharpoonup> address"
  debug_logging_enabled :: bool
  static_switches :: statics
  modules_store :: "address \<rightharpoonup> 'm ModuleMetadata"
  next_address :: address
  clr_metadata :: 'm
  requests :: "request list"

definition CorProfiler_new :: "AssemblyProperty \<Rightarrow> 'm \<Rightarrow> 'm CorProfiler" where
  "CorProfiler_new cor metadata = \<lparr>is_attached = False, runtime_information = RuntimeInformation_default,
     integration_methods = [], instrument_domain_neutral_assemblies = False, corlib_module_loaded = False,
     corlib_app_domain_id = 0, managed_profiler_loaded_domain_neutral = False,
     managed_profiler_loaded_app_domains = {}, first_jit_compilation_app_domains = {},
     in_azure_app_services = False, is_desktop_iis = False, is_net46_or_greater = False,
     rejit_handler = None, corAssemblyProperty = cor, module_id_to_info_map = Map.empty,
     debug_logging_enabled = False, static_switches = statics_initial, modules_store = Map.empty,
     next_address = 1, clr_metadata = metadata, requests = []\<rparr>"

definition request_clr :: "request \<Rightarrow> 'm CorProfiler \<Rightarrow> 'm CorProfiler" where
  "request_clr r p = p\<lparr>requests := requests p @ [r]\<rparr>"

text \<open>
  What the platform, the CLR and the allocator contribute to one callback. The four functions that
  rewrite a method body while it is compiled (\<open>RunILStartupHook\<close>, \<open>AddIISPreStartInitFlags\<close>,
  \<open>ProcessInsertionCalls\<close>, \<open>ProcessReplacementCalls\<close>) work on the body and on the caches of the
  module only; here they are their results and the caches they leave.
\<close>

record 'm clr_env =
  e_windows :: bool
  e_arm :: bool
  e_bit64 :: bool
  e_getenv :: environment
  e_process_name :: wstring
  e_ICorProfilerInfo4 :: bool
  e_ICorProfilerInfo6 :: bool
  e_ICorProfilerInfo12 :: bool
  e_SetEventMask :: "u32 \<Rightarrow> HRESULT"
  e_SetEventMask2 :: "u32 \<Rightarrow> u32 \<Rightarrow> HRESULT"
  e_runtime :: "(u32 \<times> u16 \<times> u16 \<times> u16 \<times> u16) option"
  e_json :: json_api
  e_parse :: "wstring \<Rightarrow> AssemblyReference"
  e_parser :: "cstring \<Rightarrow> json_error + json"
  e_open_file :: "cstring \<Rightarrow> cstring option"
  e_rewriter :: rewrite_callback
  e_assembly_info :: "u64 \<Rightarrow> (u32 \<times> wstring \<times> u64 \<times> u64) option"
  e_app_domain_info :: "u64 \<Rightarrow> (u32 \<times> wstring) option"
  e_module_info :: "u64 \<Rightarrow> (u32 \<times> wstring \<times> u64 \<times> u32) option"
  e_module_metadata :: "ModuleID \<Rightarrow> 'm module_interfaces option"
  e_function_info :: "u64 \<Rightarrow> (ModuleID \<times> u32) option"
  e_fuel :: nat
  e_uninit :: ModuleID
  e_RunILStartupHook :: "ModuleID \<Rightarrow> u32 \<Rightarrow> HRESULT"
  e_AddIISPreStartInitFlags :: "ModuleID \<Rightarrow> u32 \<Rightarrow> HRESULT"
  e_ProcessInsertionCalls :: "ModuleID \<Rightarrow> u32 \<Rightarrow> MethodReplacement list \<Rightarrow> wrapper_caches \<Rightarrow> HRESULT \<times> wrapper_caches"
  e_ProcessReplacementCalls :: "ModuleID \<Rightarrow> u32 \<Rightarrow> MethodReplacement list \<Rightarrow> wrapper_caches \<Rightarrow> HRESULT \<times> wrapper_caches"
  e_AddAssemblyReference :: "AssemblyRefRequest \<Rightarrow> HRESULT"

definition assembly_info_of :: "'m clr_env \<Rightarrow> u64 \<Rightarrow> AssemblyInfo" where
  "assembly_info_of e = GetAssemblyInfo (e_assembly_info e) (e_app_domain_info e)"

definition module_info_of :: "'m clr_env \<Rightarrow> ModuleID \<Rightarrow> ModuleInfo" where
  "module_info_of e = GetModuleInfo (e_module_info e) (assembly_info_of e)"

text \<open>A switch of \<open>environment_variables_util.h\<close> is read.\<close>

definition read_static :: "(statics \<Rightarrow> bool \<times> statics) \<Rightarrow> 'm CorProfiler \<Rightarrow> bool \<times> 'm CorProfiler" where
  "read_static f p = (let (b, st) = f (static_switches p) in (b, p\<lparr>static_switches := st\<rparr>))"

definition calltarget_mode :: "'m clr_env \<Rightarrow> 'm CorProfiler \<Rightarrow> bool \<times> 'm CorProfiler" where
  "calltarget_mode e p = read_static (IsCallTargetEnabled (e_arm e) (e_getenv e) (is_net46_or_greater p)) p"

section \<open>Initialize\<close>

definition event_mask_base :: u32 where
  "event_mask_base = 0x20 OR 0x40000000 OR 0x4 OR 0x8 OR 0x80000000"

abbreviation (input) COR_PRF_ENABLE_REJIT :: u32 where "COR_PRF_ENABLE_REJIT \<equiv> 0x40000"
abbreviation (input) COR_PRF_DISABLE_INLINING :: u32 where "COR_PRF_DISABLE_INLINING \<equiv> 0x200000"
abbreviation (input) COR_PRF_DISABLE_OPTIMIZATIONS :: u32 where "COR_PRF_DISABLE_OPTIMIZATIONS \<equiv> 0x400000"
abbreviation (input) COR_PRF_HIGH_ADD_ASSEMBLY_REFERENCES :: u32 where "COR_PRF_HIGH_ADD_ASSEMBLY_REFERENCES \<equiv> 1"

text \<open>The checks of the process come first: nothing but the switches changes when one fails.\<close>

definition process_excluded :: "'m clr_env \<Rightarrow> bool" where
  "process_excluded e =
     (let include_names = GetEnvironmentValues_semicolon (e_getenv e) include_process_names;
          exclude_names = GetEnvironmentValues_semicolon (e_getenv e) exclude_process_names
      in include_names \<noteq> [] \<and> e_process_name e \<notin> set include_names \<or> e_process_name e \<in> set exclude_names)"

definition azure_reserved :: "'m clr_env \<Rightarrow> bool" where
  "azure_reserved e =
     (let app_pool_id_value = GetEnvironmentValue (e_getenv e) azure_app_services_app_pool_id;
          cli_telemetry_profile_value = GetEnvironmentValue (e_getenv e) azure_app_services_cli_telemetry_profile_value
      in length app_pool_id_value > 1 \<and> hd app_pool_id_value = wc CHR ''~''
         \<or> cli_telemetry_profile_value = WStr ''AzureKudu'')"

text \<open>From the event mask on.\<close>

definition initialize_attach :: "'m clr_env \<Rightarrow> bool \<Rightarrow> 'm CorProfiler \<Rightarrow> HRESULT \<times> 'm CorProfiler" where
  "initialize_attach e is_calltarget_enabled p =
     (let event_mask = event_mask_base;
          event_mask = (if is_calltarget_enabled then event_mask OR COR_PRF_ENABLE_REJIT else event_mask);
          (inlining, p) = read_static (EnableInlining (e_getenv e) is_calltarget_enabled) p;
          event_mask = (if \<not> inlining then event_mask OR COR_PRF_DISABLE_INLINING else event_mask);
          (no_optimizations, p) = read_static (DisableOptimizations (e_getenv e)) p;
          event_mask = (if no_optimizations then event_mask OR COR_PRF_DISABLE_OPTIMIZATIONS else event_mask);
          p = (if is_true (GetEnvironmentValue (e_getenv e) domain_neutral_instrumentation)
               then p\<lparr>instrument_domain_neutral_assemblies := True\<rparr> else p);
          (hr, p) = (if is_net46_or_greater p
               then (e_SetEventMask2 e event_mask COR_PRF_HIGH_ADD_ASSEMBLY_REFERENCES,
                     request_clr (SetEventMask2 event_mask COR_PRF_HIGH_ADD_ASSEMBLY_REFERENCES) p)
               else (e_SetEventMask e event_mask, request_clr (SetEventMask event_mask) p))
      in if FAILED hr then (E_FAIL_code, p)
         else
           let p = p\<lparr>runtime_information := GetRuntimeInformation (e_runtime e)\<rparr>;
               p = (if e_process_name e = WStr ''w3wp.exe'' \<or> e_process_name e = WStr ''iisexpress.exe''
                    then p\<lparr>is_desktop_iis := is_desktop (runtime_information p)\<rparr> else p)
           in (S_OK, p\<lparr>is_attached := True\<rparr>))"

text \<open>From the choice of the instrumentation mode on.\<close>

definition initialize_integrations_of :: "'m clr_env \<Rightarrow> bool \<Rightarrow> IntegrationMethod list" where
  "initialize_integrations_of e is_calltarget_enabled =
     (let all_integrations = LoadIntegrationsFromEnvironment (e_json e) (e_parse e) (e_parser e) (e_open_file e) (e_getenv e);
          disabled_integration_names = GetEnvironmentValues_semicolon (e_getenv e) disabled_integrations;
          integrations = FilterIntegrationsByName all_integrations disabled_integration_names
      in FlattenIntegrations integrations is_calltarget_enabled)"

definition initialize_mode :: "'m clr_env \<Rightarrow> 'm CorProfiler \<Rightarrow> HRESULT \<times> 'm CorProfiler" where
  "initialize_mode e p =
     (let (is_calltarget_enabled, p) = calltarget_mode e p;
          p = (if is_calltarget_enabled
               then request_clr StartRejitThread (p\<lparr>rejit_handler := Some (RejitHandler_new (e_rewriter e))\<rparr>)
               else p\<lparr>rejit_handler := None\<rparr>);
          p = p\<lparr>integration_methods := initialize_integrations_of e is_calltarget_enabled\<rparr>
      in if integration_methods p = [] then (E_FAIL_code, p)
         else
           let (netstandard, p) = read_static (IsNetstandardEnabled (e_getenv e)) p;
               p = (if \<not> netstandard
                    then p\<lparr>integration_methods :=
                      FilterIntegrationsByTargetAssemblyName (integration_methods p) [WStr ''netstandard'']\<rparr>
                    else p)
           in initialize_attach e is_calltarget_enabled p)"

definition Initialize :: "'m clr_env \<Rightarrow> 'm CorProfiler \<Rightarrow> HRESULT \<times> 'm CorProfiler" where
  "Initialize e p =
     (let (debug, p) = read_static (IsDebugEnabled (e_getenv e)) p;
          p = p\<lparr>debug_logging_enabled := debug\<rparr>;
          (_, p) = read_static (IsDumpILRewriteEnabled (e_getenv e)) p;
          (tracing_disabled, p) = read_static (IsTracingDisabled (e_getenv e)) p
      in if tracing_disabled then (E_FAIL_code, p)
         else if e_arm e \<and> \<not> e_ICorProfilerInfo12 e then (E_FAIL_code, p)
         else if process_excluded e then (E_FAIL_code, p)
         else if \<not> e_ICorProfilerInfo4 e then (E_FAIL_code, p)
         else
           let p = (if e_ICorProfilerInfo6 e then p\<lparr>is_net46_or_greater := True\<rparr> else p);
               (azure, p) = read_static (IsAzureAppServices (e_getenv e)) p;
               p = (if azure then p\<lparr>in_azure_app_services := True\<rparr> else p)
           in if azure \<and> azure_reserved e then (E_FAIL_code, p)
              else if GetEnvironmentValue (e_getenv e) integrations_path = [] then (E_FAIL_code, p)
              else initialize_mode e p)"

section \<open>Assemblies and modules are loaded\<close>

definition PROFILER_VERSION :: cstring where "PROFILER_VERSION = CStr ''1.28.1''"

definition managed_profiler_name :: wstring where
  "managed_profiler_name = WStr ''Datadog.Trace.ClrProfiler.Managed''"

text \<open>The string stream of the first three numbers of a version.\<close>

definition release_str :: "Version \<Rightarrow> wstring" where
  "release_str v = ToWSTRING (decimal (unat (major v)) @ CStr ''.'' @ decimal (unat (minor v)) @ CStr ''.''
     @ decimal (unat (build v)))"

definition AssemblyLoadFinished :: "'m clr_env \<Rightarrow> u64 \<Rightarrow> HRESULT \<Rightarrow> 'm CorProfiler \<Rightarrow> HRESULT \<times> 'm CorProfiler" where
  "AssemblyLoadFinished e assembly_id hr_status p =
     (if FAILED hr_status then (S_OK, p)
      else if \<not> is_attached p then (S_OK, p)
      else
        let assembly_info = assembly_info_of e assembly_id in
        if \<not> AssemblyInfo_IsValid assembly_info then (S_OK, p)
        else
          let is_instrumentation_assembly = (ai_name assembly_info = managed_profiler_name) in
          if \<not> (is_instrumentation_assembly \<or> debug_logging_enabled p) then (S_OK, p)
          else (case e_module_metadata e (ai_manifest_module_id assembly_info) of
              None \<Rightarrow> (S_OK, p)
            | Some mi \<Rightarrow>
                let assembly_metadata = assembly_metadata_of mi in
                if \<not> is_instrumentation_assembly then (S_OK, p)
                else if release_str (am_version assembly_metadata) \<noteq> ToWSTRING PROFILER_VERSION then (S_OK, p)
                else
                  let p = p\<lparr>managed_profiler_loaded_app_domains :=
                        insert (ai_app_domain_id assembly_info) (managed_profiler_loaded_app_domains p)\<rparr>
                  in if is_desktop (runtime_information p) \<and> corlib_module_loaded p
                        \<and> ai_app_domain_id assembly_info = corlib_app_domain_id p
                     then (S_OK, p\<lparr>managed_profiler_loaded_domain_neutral := True\<rparr>)
                     else (S_OK, p)))"

section \<open>Requesting the methods of a module\<close>

text \<open>The names of the parameters are compared one by one; \<open>_\<close> matches every type. The type names come
  from \<open>GetTypeInfo\<close>, which always returns when the metadata is well-founded
  (\<open>TypeMetadata.GetFunctionInfo_terminates\<close>).\<close>

definition type_name_of :: "nat \<Rightarrow> metadata_import \<Rightarrow> u32 \<Rightarrow> wstring" where
  "type_name_of fuel imp tok = (case GetTypeInfo fuel imp tok of Inl _ \<Rightarrow> [] | Inr t \<Rightarrow> ti_name t)"

fun arguments_match :: "(u32 \<Rightarrow> wstring) \<Rightarrow> FunctionMethodArgument list \<Rightarrow> wstring list \<Rightarrow> hr + bool" where
  "arguments_match type_names [] types = Inr True"
| "arguments_match type_names (a # args) [] = Inl BadAccess"
| "arguments_match type_names (a # args) (t # types) = (case GetTypeTokName type_names a of
     Inl _ \<Rightarrow> Inl BadAccess
   | Inr argumentTypeName \<Rightarrow>
       if argumentTypeName \<noteq> t \<and> t \<noteq> WStr ''_'' then Inr False else arguments_match type_names args types)"

text \<open>Whether a method is one to instrument: then its information, with the parsed signature.\<close>

definition rejit_candidate ::
  "nat \<Rightarrow> metadata_import \<Rightarrow> wstring list \<Rightarrow> u32 \<Rightarrow> hr + FunctionInfo option" where
  "rejit_candidate fuel imp types methodDef =
     bindE (GetFunctionInfo fuel imp methodDef) (\<lambda>caller.
       if \<not> FunctionInfo_IsValid caller then Inr None
       else (case TryParse (fms_pbBase (fi_method_signature caller)) of
           Inl Rejected \<Rightarrow> Inr None
         | Inl _ \<Rightarrow> Inl BadAccess
         | Inr sig \<Rightarrow>
             if (ucast (numberOfArguments sig) :: u64) \<noteq> of_nat (length types) - 1 then Inr None
             else bindE (arguments_match (type_name_of fuel imp) (fms_params sig) (tl types)) (\<lambda>ok.
               Inr (if ok then Some (caller\<lparr>fi_method_signature := sig\<rparr>) else None))))"

text \<open>What the handler is told about a method.\<close>

definition register_method ::
  "ModuleID \<Rightarrow> address \<Rightarrow> u32 \<Rightarrow> FunctionInfo \<Rightarrow> MethodReplacement \<Rightarrow> RejitHandler \<Rightarrow> RejitHandler" where
  "register_method module_id module_metadata methodDef functionInfo rep h =
     (let (moduleHandler, h) = GetOrAddModule module_id h;
          moduleHandler = SetModuleMetadata module_metadata moduleHandler;
          (methodHandler, moduleHandler) = GetOrAddMethod methodDef moduleHandler;
          methodHandler = SetFunctionInfo functionInfo methodHandler;
          methodHandler = SetMethodReplacement rep methodHandler
      in put_module (put_method methodHandler methodDef moduleHandler) module_id h)"

text \<open>The loop over the methods with the name of the target, and the loop over the integrations. They
  give the methods to request, and what to tell the handler about each.\<close>

fun candidates :: "nat \<Rightarrow> metadata_import \<Rightarrow> MethodReplacement \<Rightarrow> u32 list
    \<Rightarrow> hr + (u32 \<times> FunctionInfo \<times> MethodReplacement) list" where
  "candidates fuel imp rep [] = Inr []"
| "candidates fuel imp rep (methodDef # methodDefs) =
     bindE (rejit_candidate fuel imp (signature_types (target_method rep)) methodDef) (\<lambda>found.
     bindE (candidates fuel imp rep methodDefs) (\<lambda>rest.
       Inr (case found of None \<Rightarrow> rest | Some functionInfo \<Rightarrow> (methodDef, functionInfo, rep) # rest)))"

definition integration_applies :: "wstring \<Rightarrow> Version \<Rightarrow> MethodReplacement \<Rightarrow> bool" where
  "integration_applies assemblyName v rep \<longleftrightarrow>
     name (assembly (target_method rep)) = assemblyName
     \<and> action (wrapper_method rep) = calltarget_modification_action
     \<and> \<not> Version_gt (min_version (target_method rep)) v
     \<and> \<not> Version_lt (max_version (target_method rep)) v"

definition candidates_of ::
  "nat \<Rightarrow> 'm module_interfaces \<Rightarrow> wstring \<Rightarrow> MethodReplacement \<Rightarrow> hr + (u32 \<times> FunctionInfo \<times> MethodReplacement) list" where
  "candidates_of fuel mi assemblyName rep =
     (if \<not> integration_applies assemblyName (am_version (assembly_metadata_of mi)) rep then Inr []
      else (case FindTypeDefByName (mi_import mi) (type_name (target_method rep)) of
          None \<Rightarrow> Inr []
        | Some typeDef \<Rightarrow> candidates fuel (mi_import mi) rep
            (mi_methods_with_name mi typeDef (StringUtil.c_str (method_name (target_method rep))))))"

fun all_candidates ::
  "nat \<Rightarrow> 'm module_interfaces \<Rightarrow> wstring \<Rightarrow> IntegrationMethod list \<Rightarrow> hr + (u32 \<times> FunctionInfo \<times> MethodReplacement) list" where
  "all_candidates fuel mi assemblyName [] = Inr []"
| "all_candidates fuel mi assemblyName (integration # integrations) =
     bindE (candidates_of fuel mi assemblyName (replacement integration)) (\<lambda>found.
     bindE (all_candidates fuel mi assemblyName integrations) (\<lambda>rest. Inr (found @ rest)))"

definition register_all :: "ModuleID \<Rightarrow> address \<Rightarrow> (u32 \<times> FunctionInfo \<times> MethodReplacement) list \<Rightarrow> RejitHandler \<Rightarrow> RejitHandler" where
  "register_all module_id module_metadata =
     fold (\<lambda>(methodDef, functionInfo, rep). register_method module_id module_metadata methodDef functionInfo rep)"

text \<open>The handler is only reached when there is a method to request; without one its null pointer
  does no harm.\<close>

definition CallTarget_RequestRejitForModule ::
  "'m clr_env \<Rightarrow> ModuleID \<Rightarrow> address \<Rightarrow> IntegrationMethod list \<Rightarrow> 'm CorProfiler \<Rightarrow> hr + (nat \<times> 'm CorProfiler)" where
  "CallTarget_RequestRejitForModule e module_id module_metadata filtered_integrations p =
     (case modules_store p module_metadata of
        None \<Rightarrow> Inl BadAccess
      | Some mm \<Rightarrow>
          bindE (all_candidates (e_fuel e) (mm_interfaces mm) (mm_assemblyName mm) filtered_integrations) (\<lambda>found.
          if found = [] then Inr (0, p)
          else (case rejit_handler p of
              None \<Rightarrow> Inl BadAccess
            | Some h \<Rightarrow>
                let vtModules = map (\<lambda>_. module_id) found;
                    vtMethodDefs = map fst found;
                    p = p\<lparr>rejit_handler := Some (register_all module_id module_metadata found h)\<rparr>
                in bindE (EnqueueForRejit (e_uninit e) vtModules vtMethodDefs) (\<lambda>item.
                     Inr (length vtMethodDefs, request_clr (EnqueueRejit item) p)))))"

section \<open>Module callbacks\<close>

text \<open>The core library: its result of \<open>GetModuleMetaData\<close> is not looked at.\<close>

definition load_corlib :: "'m clr_env \<Rightarrow> ModuleID \<Rightarrow> AssemblyInfo \<Rightarrow> 'm CorProfiler \<Rightarrow> hr + (HRESULT \<times> 'm CorProfiler)" where
  "load_corlib e module_id asm p =
     (let p = p\<lparr>corlib_module_loaded := True, corlib_app_domain_id := ai_app_domain_id asm\<rparr>
      in (case e_module_metadata e module_id of
          None \<Rightarrow> Inl BadAccess
        | Some mi \<Rightarrow>
            let cor = mi_cor_props mi (am_assembly_token (assembly_metadata_of mi)) (corAssemblyProperty p)
            in Inr (S_OK, p\<lparr>corAssemblyProperty := cor\<lparr>cor_name := ai_name asm\<rparr>\<rparr>)))"

text \<open>A new metadata object, known under the module from now on.\<close>

definition store_module :: "ModuleID \<Rightarrow> 'm ModuleMetadata \<Rightarrow> 'm CorProfiler \<Rightarrow> address \<times> 'm CorProfiler" where
  "store_module module_id mm p =
     (let a = next_address p
      in (a, p\<lparr>modules_store := (modules_store p)(a \<mapsto> mm), next_address := a + 1,
        module_id_to_info_map := (module_id_to_info_map p)(module_id \<mapsto> a)\<rparr>))"

text \<open>From the new metadata object on.\<close>

definition register_module ::
  "'m clr_env \<Rightarrow> ModuleID \<Rightarrow> 'm ModuleMetadata \<Rightarrow> bool \<Rightarrow> 'm CorProfiler \<Rightarrow> hr + (HRESULT \<times> 'm CorProfiler)" where
  "register_module e module_id mm calltarget p =
     (let (module_metadata, p) = store_module module_id mm p;
          mi = mm_interfaces mm
      in bindE (if calltarget
             then CallTarget_RequestRejitForModule e module_id module_metadata (mm_integrations mm) p
             else Inr (0, p)) (\<lambda>(_, p).
         if \<not> e_windows e \<and> mm_assemblyName mm = managed_profiler_name
         then Inr (S_OK, p\<lparr>clr_metadata := fix_pinvoke_maps (mi_pinvoke mi) (mi_import mi)
           (GetCoreCLRProfilerPath (e_bit64 e) (e_getenv e)) (clr_metadata p)\<rparr>)
         else Inr (S_OK, p)))"

text \<open>The switch is asked three times; the answer is the same (\<open>Environment.IsCallTargetEnabled_once\<close>).\<close>

definition instrument_module ::
  "'m clr_env \<Rightarrow> ModuleID \<Rightarrow> AssemblyInfo \<Rightarrow> 'm CorProfiler \<Rightarrow> hr + (HRESULT \<times> 'm CorProfiler)" where
  "instrument_module e module_id asm p =
     (let (calltarget, p) = calltarget_mode e p;
          filtered_integrations = (if calltarget then integration_methods p
            else FilterIntegrationsByCaller (integration_methods p) asm)
      in if filtered_integrations = [] then Inr (S_OK, p)
         else (case e_module_metadata e module_id of
             None \<Rightarrow> Inr (S_OK, p)
           | Some mi \<Rightarrow>
               let filtered_integrations =
                     (if ai_name asm \<noteq> WStr ''Microsoft.AspNetCore.Hosting'' \<and> ai_name asm \<noteq> WStr ''Dapper'' \<and> \<not> calltarget
                      then FilterIntegrationsByTarget (assembly_metadata_of mi) (mi_assembly_ref_props mi)
                             (mi_assembly_refs mi) filtered_integrations
                      else filtered_integrations)
               in if filtered_integrations = [] then Inr (S_OK, p)
                  else (case mi_module_from_scope mi of
                      None \<Rightarrow> Inr (S_OK, p)
                    | Some _ \<Rightarrow> (case mi_module_version_id mi of
                        None \<Rightarrow> Inr (S_OK, p)
                      | Some module_version_id \<Rightarrow>
                          register_module e module_id
                            \<lparr>mm_interfaces = mi, mm_assemblyName = ai_name asm,
                             mm_app_domain_id = ai_app_domain_id asm, mm_module_version_id = module_version_id,
                             mm_integrations = filtered_integrations, mm_caches = wrapper_caches_new\<rparr>
                            calltarget p))))"

definition ModuleLoadFinished ::
  "'m clr_env \<Rightarrow> ModuleID \<Rightarrow> HRESULT \<Rightarrow> 'm CorProfiler \<Rightarrow> hr + (HRESULT \<times> 'm CorProfiler)" where
  "ModuleLoadFinished e module_id hr_status p =
     (if FAILED hr_status then Inr (S_OK, p)
      else if \<not> is_attached p then Inr (S_OK, p)
      else
        let module_info = module_info_of e module_id;
            asm = mo_assembly module_info
        in if \<not> ModuleInfo_IsValid module_info then Inr (S_OK, p)
           else if \<not> corlib_module_loaded p
                \<and> (ai_name asm = WStr ''mscorlib'' \<or> ai_name asm = WStr ''System.Private.CoreLib'')
           then load_corlib e module_id asm p
           else if ai_name asm = WStr ''Datadog.Trace.ClrProfiler.Managed.Loader''
           then Inr (S_OK, p\<lparr>first_jit_compilation_app_domains :=
                  insert (ai_app_domain_id asm) (first_jit_compilation_app_domains p)\<rparr>)
           else if IsWindowsRuntime module_info then Inr (S_OK, p)
           else if skipped_assembly (ai_name asm) then Inr (S_OK, p)
           else instrument_module e module_id asm p)"

text \<open>A metadata pointer in the map leads to an object, or the code reads freed memory.\<close>

definition ModuleUnloadStarted :: "ModuleID \<Rightarrow> 'm CorProfiler \<Rightarrow> hr + (HRESULT \<times> 'm CorProfiler)" where
  "ModuleUnloadStarted module_id p =
     (if \<not> is_attached p then Inr (S_OK, p)
      else (case module_id_to_info_map p module_id of
          None \<Rightarrow> Inr (S_OK, p)
        | Some metadata \<Rightarrow> (case modules_store p metadata of
            None \<Rightarrow> Inl BadAccess
          | Some mm \<Rightarrow>
              let p = (if mm_app_domain_id mm \<in> managed_profiler_loaded_app_domains p
                       then p\<lparr>managed_profiler_loaded_app_domains :=
                         managed_profiler_loaded_app_domains p - {mm_app_domain_id mm}\<rparr>
                       else p);
                  p = p\<lparr>module_id_to_info_map := (module_id_to_info_map p)(module_id := None)\<rparr>;
                  p = (case rejit_handler p of
                      None \<Rightarrow> p
                    | Some h \<Rightarrow> p\<lparr>rejit_handler := Some (RemoveModule module_id h)\<rparr>)
              in Inr (S_OK, p\<lparr>modules_store := (modules_store p)(metadata := None)\<rparr>))))"

text \<open>\<open>RejitHandler::Shutdown\<close> joins the thread (\<open>RejitHandler.Shutdown_joins\<close>).\<close>

definition Shutdown :: "'m CorProfiler \<Rightarrow> HRESULT \<times> 'm CorProfiler" where
  "Shutdown p =
     (let p = (case rejit_handler p of
            None \<Rightarrow> p
          | Some _ \<Rightarrow> request_clr ShutdownRejitThread (p\<lparr>rejit_handler := None\<rparr>))
      in (S_OK, p\<lparr>is_attached := False\<rparr>))"

definition ProfilerDetachSucceeded :: "'m CorProfiler \<Rightarrow> HRESULT \<times> 'm CorProfiler" where
  "ProfilerDetachSucceeded p =
     (if \<not> is_attached p then (S_OK, p) else (S_OK, p\<lparr>is_attached := False\<rparr>))"

section \<open>Compilation callbacks\<close>

text \<open>The startup hook goes into one method per application domain. The result says whether the
  callback goes on.\<close>

definition valid_startup_hook_callsite :: "bool \<Rightarrow> wstring \<Rightarrow> FunctionInfo \<Rightarrow> bool" where
  "valid_startup_hook_callsite desktop_iis assemblyName caller =
     (if desktop_iis
      then assemblyName = WStr ''System.Web'' \<and> ti_name (fi_type caller) = WStr ''System.Web.Compilation.BuildManager''
           \<and> fi_name caller = WStr ''InvokePreStartInitMethods''
      else \<not> (assemblyName = WStr ''System'' \<or> assemblyName = WStr ''System.Net.Http''))"

definition insert_startup_hook ::
  "'m clr_env \<Rightarrow> ModuleID \<Rightarrow> u32 \<Rightarrow> 'm ModuleMetadata \<Rightarrow> 'm CorProfiler \<Rightarrow> bool \<times> 'm CorProfiler" where
  "insert_startup_hook e module_id function_token mm p =
     (let p = p\<lparr>first_jit_compilation_app_domains :=
            insert (mm_app_domain_id mm) (first_jit_compilation_app_domains p)\<rparr>;
          p = request_clr (InsertStartupHook module_id function_token (mm_app_domain_id mm)) p
      in if FAILED (e_RunILStartupHook e module_id function_token) then (False, p)
         else if is_desktop_iis p
         then (\<not> FAILED (e_AddIISPreStartInitFlags e module_id function_token),
               request_clr (InsertPreStartInitFlags module_id function_token) p)
         else (True, p))"

definition rewrite_calls ::
  "'m clr_env \<Rightarrow> ModuleID \<Rightarrow> u32 \<Rightarrow> address \<Rightarrow> 'm ModuleMetadata \<Rightarrow> FunctionInfo \<Rightarrow> 'm CorProfiler \<Rightarrow> 'm CorProfiler" where
  "rewrite_calls e module_id function_token module_metadata mm caller p =
     (if mm_assemblyName mm = WStr ''Microsoft.AspNetCore.Hosting'' then p
      else
        let method_replacements = GetMethodReplacementsForCaller (mm_integrations mm) caller
        in if method_replacements = [] then p
           else
             let (hr, caches) = e_ProcessInsertionCalls e module_id function_token method_replacements (mm_caches mm);
                 mm = mm\<lparr>mm_caches := caches\<rparr>;
                 p = request_clr (InsertCalls module_id function_token)
                       (p\<lparr>modules_store := (modules_store p)(module_metadata \<mapsto> mm)\<rparr>)
             in if FAILED hr then p
                else
                  let (hr, caches) = e_ProcessReplacementCalls e module_id function_token method_replacements (mm_caches mm);
                      mm = mm\<lparr>mm_caches := caches\<rparr>
                  in request_clr (ReplaceCalls module_id function_token)
                       (p\<lparr>modules_store := (modules_store p)(module_metadata \<mapsto> mm)\<rparr>))"

text \<open>From the check of the caller on.\<close>

definition jit_method ::
  "'m clr_env \<Rightarrow> bool \<Rightarrow> ModuleID \<Rightarrow> u32 \<Rightarrow> address \<Rightarrow> 'm ModuleMetadata \<Rightarrow> FunctionInfo \<Rightarrow> 'm CorProfiler \<Rightarrow> 'm CorProfiler" where
  "jit_method e is_calltarget_enabled module_id function_token module_metadata mm caller p =
     (let has_loader_injected_in_appdomain = mm_app_domain_id mm \<in> first_jit_compilation_app_domains p;
          (go_on, p) =
            (if valid_startup_hook_callsite (is_desktop_iis p) (mm_assemblyName mm) caller
                \<and> \<not> has_loader_injected_in_appdomain
             then insert_startup_hook e module_id function_token mm p else (True, p))
      in if \<not> go_on \<or> is_calltarget_enabled then p
         else rewrite_calls e module_id function_token module_metadata mm caller p)"

definition JITCompilationStarted ::
  "'m clr_env \<Rightarrow> u64 \<Rightarrow> bool \<Rightarrow> 'm CorProfiler \<Rightarrow> hr + (HRESULT \<times> 'm CorProfiler)" where
  "JITCompilationStarted e function_id is_safe_to_block p =
     (if \<not> is_attached p \<or> \<not> is_safe_to_block then Inr (S_OK, p)
      else (case e_function_info e function_id of
          None \<Rightarrow> Inr (S_OK, p)
        | Some (module_id, function_token) \<Rightarrow> (case module_id_to_info_map p module_id of
            None \<Rightarrow> Inr (S_OK, p)
          | Some module_metadata \<Rightarrow> (case modules_store p module_metadata of
              None \<Rightarrow> Inl BadAccess
            | Some mm \<Rightarrow>
                let (is_calltarget_enabled, p) = calltarget_mode e p;
                    has_loader_injected_in_appdomain = mm_app_domain_id mm \<in> first_jit_compilation_app_domains p
                in if is_calltarget_enabled \<and> has_loader_injected_in_appdomain then Inr (S_OK, p)
                   else bindE (GetFunctionInfo (e_fuel e) (mi_import (mm_interfaces mm)) function_token) (\<lambda>caller.
                     if \<not> FunctionInfo_IsValid caller then Inr (S_OK, p)
                     else Inr (S_OK, jit_method e is_calltarget_enabled module_id function_token module_metadata mm caller p))))))"

text \<open>\<open>*pfShouldInline\<close> after the call; \<open>None\<close> when it is not written.\<close>

definition JITInlining :: "'m clr_env \<Rightarrow> u64 \<Rightarrow> 'm CorProfiler \<Rightarrow> HRESULT \<times> bool option" where
  "JITInlining e calleeId p =
     (if \<not> is_attached p then (S_OK, None)
      else (case rejit_handler p of
          None \<Rightarrow> (S_OK, None)
        | Some h \<Rightarrow> (case e_function_info e calleeId of
            None \<Rightarrow> (S_OK, Some True)
          | Some (calleeModuleId, calleFunctionToken) \<Rightarrow> (case TryGetModule calleeModuleId h of
              None \<Rightarrow> (S_OK, Some True)
            | Some handlerModule \<Rightarrow> (S_OK, Some (\<not> ContainsMethod calleFunctionToken handlerModule))))))"

section \<open>Re-JIT callbacks\<close>

text \<open>
  \<open>GetReJITParameters\<close> has two steps: the lookup of the metadata, under the lock of the map, and the
  notification of the handler, without it. \<open>Inl\<close> is a return from the first step.
\<close>

definition GetReJITParameters_lookup :: "ModuleID \<Rightarrow> 'm CorProfiler \<Rightarrow> HRESULT + address" where
  "GetReJITParameters_lookup moduleId p =
     (if \<not> is_attached p then Inl S_OK
      else (case module_id_to_info_map p moduleId of None \<Rightarrow> Inl S_FALSE | Some module_metadata \<Rightarrow> Inr module_metadata))"

definition GetReJITParameters_notify ::
  "ModuleID \<Rightarrow> u32 \<Rightarrow> address \<Rightarrow> address \<Rightarrow> 'm CorProfiler \<Rightarrow> hr + (HRESULT \<times> 'm CorProfiler)" where
  "GetReJITParameters_notify moduleId methodId pFunctionControl module_metadata p =
     (case rejit_handler p of
        None \<Rightarrow> Inl BadAccess
      | Some h \<Rightarrow> bindE (NotifyReJITParameters moduleId methodId pFunctionControl module_metadata h) (\<lambda>(hr, h).
          Inr (hr, p\<lparr>rejit_handler := Some h\<rparr>)))"

definition GetReJITParameters ::
  "ModuleID \<Rightarrow> u32 \<Rightarrow> address \<Rightarrow> 'm CorProfiler \<Rightarrow> hr + (HRESULT \<times> 'm CorProfiler)" where
  "GetReJITParameters moduleId methodId pFunctionControl p = (case GetReJITParameters_lookup moduleId p of
     Inl hr \<Rightarrow> Inr (hr, p)
   | Inr module_metadata \<Rightarrow> GetReJITParameters_notify moduleId methodId pFunctionControl module_metadata p)"

definition ReJITCompilationStarted :: "u64 \<Rightarrow> u64 \<Rightarrow> 'm CorProfiler \<Rightarrow> hr + HRESULT" where
  "ReJITCompilationStarted functionId rejitId p =
     (if \<not> is_attached p then Inr S_OK
      else (case rejit_handler p of None \<Rightarrow> Inl BadAccess | Some h \<Rightarrow> Inr (NotifyReJITCompilationStarted functionId rejitId)))"

definition ReJITCompilationFinished :: "'m CorProfiler \<Rightarrow> HRESULT" where
  "ReJITCompilationFinished p = S_OK"

definition ReJITError :: "'m CorProfiler \<Rightarrow> HRESULT" where
  "ReJITError p = S_OK"

section \<open>References to the managed profiler\<close>

text \<open>\<open>std::string::find_last_of\<close> and \<open>std::string::rfind\<close>; \<open>None\<close> is \<open>npos\<close>.\<close>

definition last_index :: "nat list \<Rightarrow> nat option" where
  "last_index is = (if is = [] then None else Some (last is))"

definition find_last_of :: "byte set \<Rightarrow> cstring \<Rightarrow> nat option" where
  "find_last_of cs s = last_index (filter (\<lambda>i. s ! i \<in> cs) [0..<length s])"

definition rfind_string :: "cstring \<Rightarrow> cstring \<Rightarrow> nat option" where
  "rfind_string pat s = last_index (filter (\<lambda>i. take (length pat) (drop i s) = pat) [0..<Suc (length s) - length pat])"

definition erase :: "nat \<Rightarrow> nat \<Rightarrow> cstring \<Rightarrow> cstring" where
  "erase i n s = take i s @ drop (i + n) s"

definition filename_of :: "cstring \<Rightarrow> cstring" where
  "filename_of path = (case find_last_of {0x5C, 0x2F} path of None \<Rightarrow> path | Some i \<Rightarrow> drop (i + 1) path)"

definition assembly_name_of_path :: "cstring \<Rightarrow> wstring" where
  "assembly_name_of_path path =
     (let filename = filename_of path
      in ToWSTRING (case rfind_string (CStr ''.ni.dll'') filename of
           Some lastNiDllPeriodIndex \<Rightarrow> erase lastNiDllPeriodIndex 7 filename
         | None \<Rightarrow> (case rfind_string (CStr ''.dll'') filename of
             Some lastDllPeriodIndex \<Rightarrow> erase lastDllPeriodIndex 4 filename
           | None \<Rightarrow> filename)))"

definition GetAssemblyReferences :: "'m clr_env \<Rightarrow> wstring \<Rightarrow> 'm CorProfiler \<Rightarrow> HRESULT \<times> 'm CorProfiler" where
  "GetAssemblyReferences e wszAssemblyPath p =
     (if in_azure_app_services p then (S_OK, p)
      else
        let assembly_name = assembly_name_of_path (ToString wszAssemblyPath)
        in if skipped_assembly assembly_name then (S_OK, p)
           else
             let request = profiler_request (e_parse e managed_profiler_full_assembly_version);
                 p = request_clr (AddProfilerReference request) p
             in if FAILED (e_AddAssemblyReference e request) then (S_OK, p)
                else (S_OK, p\<lparr>instrument_domain_neutral_assemblies := True\<rparr>))"

section \<open>Histories\<close>

text \<open>The callbacks that change the state. \<open>Initialize\<close> is the first and comes once.\<close>

datatype event =
    AssemblyLoad u64 HRESULT
  | ModuleLoad ModuleID HRESULT
  | ModuleUnload ModuleID
  | ShutdownEvent
  | DetachEvent
  | JITCompilation u64 bool
  | ReJITParameters ModuleID u32 address
  | AssemblyReferences wstring

fun callback :: "'m clr_env \<Rightarrow> event \<Rightarrow> 'm CorProfiler \<Rightarrow> hr + (HRESULT \<times> 'm CorProfiler)" where
  "callback e (AssemblyLoad assembly_id hr_status) p = Inr (AssemblyLoadFinished e assembly_id hr_status p)"
| "callback e (ModuleLoad module_id hr_status) p = ModuleLoadFinished e module_id hr_status p"
| "callback e (ModuleUnload module_id) p = ModuleUnloadStarted module_id p"
| "callback e ShutdownEvent p = Inr (Shutdown p)"
| "callback e DetachEvent p = Inr (ProfilerDetachSucceeded p)"
| "callback e (JITCompilation function_id is_safe_to_block) p = JITCompilationStarted e function_id is_safe_to_block p"
| "callback e (ReJITParameters moduleId methodId pFunctionControl) p = GetReJITParameters moduleId methodId pFunctionControl p"
| "callback e (AssemblyReferences wszAssemblyPath) p = Inr (GetAssemblyReferences e wszAssemblyPath p)"

text \<open>The state after a history; each callback sees the CLR as it is at that time.\<close>

inductive history :: "'m clr_env \<Rightarrow> AssemblyProperty \<Rightarrow> 'm \<Rightarrow> 'm CorProfiler \<Rightarrow> bool" for init_env cor metadata where
  initialized: "Initialize init_env (CorProfiler_new cor metadata) = (hr, p) \<Longrightarrow> history init_env cor metadata p"
| called: "history init_env cor metadata p \<Longrightarrow> callback e ev p = Inr (hr, p') \<Longrightarrow> history init_env cor metadata p'"

end
