(* ===== verification/CorProfilerProperties.thy ===== *)
theory CorProfilerProperties
  imports CorProfiler
begin

text \<open>
  What holds of the profiler over all histories of callbacks: pointers to metadata objects are
  never dangling, no callback dereferences a null pointer, the startup hook goes once into an
  application domain, and a profiler that has been detached does nothing more.
\<close>

section \<open>The invariant\<close>

text \<open>The re-JIT handler exists exactly in the call-target mode, and the switch has been read.\<close>

definition mode_inv :: "'m CorProfiler \<Rightarrow> bool" where
  "mode_inv p \<longleftrightarrow> is_attached p \<longrightarrow> s_IsCallTargetEnabled (static_switches p) \<noteq> -1
     \<and> (s_IsCallTargetEnabled (static_switches p) = 1 \<longleftrightarrow> rejit_handler p \<noteq> None)"

text \<open>The map of modules leads to live objects, to a different one for each module.\<close>

definition map_inv :: "'m CorProfiler \<Rightarrow> bool" where
  "map_inv p \<longleftrightarrow>
     (\<forall>a. modules_store p a \<noteq> None \<longrightarrow> 0 < a \<and> a < next_address p)
     \<and> (\<forall>i a. module_id_to_info_map p i = Some a \<longrightarrow> modules_store p a \<noteq> None)
     \<and> (\<forall>i j a. module_id_to_info_map p i = Some a \<longrightarrow> module_id_to_info_map p j = Some a \<longrightarrow> i = j)
     \<and> 0 < next_address p"

text \<open>So do the pointers of the handler, and none of them leads to the object of another module.\<close>

definition metadata_ok :: "'m CorProfiler \<Rightarrow> ModuleID \<Rightarrow> address \<Rightarrow> bool" where
  "metadata_ok p i a \<longleftrightarrow> a = nullptr \<or> modules_store p a \<noteq> None
     \<and> (\<forall>j. module_id_to_info_map p j = Some a \<longrightarrow> j = i)"

definition handler_inv :: "'m CorProfiler \<Rightarrow> bool" where
  "handler_inv p \<longleftrightarrow> (\<forall>h. rejit_handler p = Some h \<longrightarrow> m_rewriteCallback h \<noteq> None
     \<and> (\<forall>i m. m_modules h i = Some m \<longrightarrow> metadata_ok p i (m_metadata m)))"

definition profiler_inv :: "'m CorProfiler \<Rightarrow> bool" where
  "profiler_inv p \<longleftrightarrow> mode_inv p \<and> map_inv p \<and> handler_inv p"

text \<open>The parts of the state that the invariant reads.\<close>

definition same_modules :: "'m CorProfiler \<Rightarrow> 'm CorProfiler \<Rightarrow> bool" where
  "same_modules p q \<longleftrightarrow> dom (modules_store p) = dom (modules_store q) \<and> next_address p = next_address q
     \<and> module_id_to_info_map p = module_id_to_info_map q \<and> rejit_handler p = rejit_handler q"

lemma same_modules_refl [simp]: "same_modules p p"
  by (simp add: same_modules_def)

lemma same_modules_trans: "same_modules p q \<Longrightarrow> same_modules q r \<Longrightarrow> same_modules p r"
  by (simp add: same_modules_def)

lemma live_dom: "modules_store p a \<noteq> None \<longleftrightarrow> a \<in> dom (modules_store p)"
  by auto

lemma same_modules_inv: "same_modules p q \<Longrightarrow> map_inv p \<and> handler_inv p \<longleftrightarrow> map_inv q \<and> handler_inv q"
  unfolding same_modules_def map_inv_def handler_inv_def metadata_ok_def live_dom by simp

text \<open>A callback that leaves the modules, the switch and the attachment alone keeps the invariant.\<close>

definition same_mode :: "'m CorProfiler \<Rightarrow> 'm CorProfiler \<Rightarrow> bool" where
  "same_mode p q \<longleftrightarrow> (is_attached q \<longrightarrow> is_attached p) \<and> rejit_handler p = rejit_handler q
     \<and> (s_IsCallTargetEnabled (static_switches p) \<noteq> -1 \<longrightarrow>
         s_IsCallTargetEnabled (static_switches q) = s_IsCallTargetEnabled (static_switches p))"

lemma profiler_inv_same: "profiler_inv p \<Longrightarrow> same_modules p q \<Longrightarrow> same_mode p q \<Longrightarrow> profiler_inv q"
  using same_modules_inv [of p q] by (auto simp: profiler_inv_def mode_inv_def same_mode_def)

section \<open>The switch\<close>

lemma calltarget_mode_settled:
  assumes "s_IsCallTargetEnabled (static_switches p) \<noteq> -1"
  shows "calltarget_mode e p = (s_IsCallTargetEnabled (static_switches p) = 1, p)"
  using IsCallTargetEnabled_settled [OF assms] by (simp add: calltarget_mode_def read_static_def)

lemma calltarget_mode_attached:
  assumes "profiler_inv p" "is_attached p"
  shows "calltarget_mode e p = (rejit_handler p \<noteq> None, p)"
  using assms calltarget_mode_settled [of p e] by (simp add: profiler_inv_def mode_inv_def)

section \<open>The operations on the modules keep the invariant\<close>

lemma GetOrAddModule_cases:
  "GetOrAddModule i h = (case m_modules h i of Some m \<Rightarrow> (m, h)
    | None \<Rightarrow> (RejitHandlerModule_new i, put_module (RejitHandlerModule_new i) i h))"
  by (simp add: GetOrAddModule_def put_module_def Let_def split: option.splits)

text \<open>What a re-JIT operation on one module does to the handler.\<close>

definition touches_module :: "ModuleID \<Rightarrow> address \<Rightarrow> RejitHandler \<Rightarrow> RejitHandler \<Rightarrow> bool" where
  "touches_module i a h h' \<longleftrightarrow> m_rewriteCallback h' = m_rewriteCallback h
     \<and> (\<exists>m. m_metadata m = a \<and> m_modules h' = (m_modules h)(i \<mapsto> m))"

lemma put_module_touches:
  assumes "GetOrAddModule i h = (mh, h1)" "m_metadata m = a"
  shows "touches_module i a h (put_module m i h1)"
proof -
  have "m_rewriteCallback h1 = m_rewriteCallback h" "(m_modules h1)(i \<mapsto> m) = (m_modules h)(i \<mapsto> m)"
    using assms(1) by (auto simp: GetOrAddModule_cases put_module_def split: option.splits)
  then show ?thesis using assms(2) by (auto simp: touches_module_def put_module_def)
qed

lemma GetOrAddMethod_metadata: "GetOrAddMethod md m = (x, m') \<Longrightarrow> m_metadata m' = m_metadata m"
  by (auto simp: GetOrAddMethod_def Let_def split: option.splits)

lemma register_method_touches: "touches_module i a h (register_method i a md fi r h)"
proof -
  obtain mh h1 where h1: "GetOrAddModule i h = (mh, h1)" by fastforce
  obtain x m' where m': "GetOrAddMethod md (SetModuleMetadata a mh) = (x, m')" by fastforce
  have "m_metadata (put_method y md m') = a" for y
    using GetOrAddMethod_metadata [OF m'] by (simp add: put_method_def SetModuleMetadata_def)
  then show ?thesis by (simp add: register_method_def h1 m' Let_def put_module_touches [OF h1])
qed

lemma touches_module_trans:
  "touches_module i a h h' \<Longrightarrow> touches_module i a h' h'' \<Longrightarrow> touches_module i a h h''"
  by (auto simp: touches_module_def)

lemma register_all_touches: "found \<noteq> [] \<Longrightarrow> touches_module i a h (register_all i a found h)"
proof (induction found arbitrary: h)
  case (Cons x found)
  obtain md fi r where x: "x = (md, fi, r)" by (cases x)
  show ?case
  proof (cases "found = []")
    case True
    then show ?thesis by (simp add: register_all_def x register_method_touches)
  next
    case False
    have "register_all i a (x # found) h = register_all i a found (register_method i a md fi r h)"
      by (simp add: register_all_def x)
    then show ?thesis
      using touches_module_trans [OF register_method_touches Cons.IH [OF False]] by simp
  qed
qed simp

lemma NotifyReJITParameters_touches:
  assumes "m_rewriteCallback h \<noteq> None"
  shows "\<exists>hr h'. NotifyReJITParameters i md fc a h = Inr (hr, h') \<and> touches_module i a h h'"
proof -
  obtain mh h1 where h1: "GetOrAddModule i h = (mh, h1)" by fastforce
  obtain x m' where m': "GetOrAddMethod md (SetModuleMetadata a mh) = (x, m')" by fastforce
  let ?h' = "put_module (put_method (SetFunctionControl fc x) md m') i h1"
  have "m_metadata (put_method (SetFunctionControl fc x) md m') = a"
    using GetOrAddMethod_metadata [OF m'] by (simp add: put_method_def SetModuleMetadata_def)
  then have t: "touches_module i a h ?h'" by (rule put_module_touches [OF h1])
  then obtain cb where "m_rewriteCallback ?h' = Some cb"
    using assms by (auto simp: touches_module_def)
  then have "\<exists>hr. NotifyReJITParameters i md fc a h = Inr (hr, ?h')"
    by (simp add: NotifyReJITParameters_def h1 m' Let_def)
  then show ?thesis using t by blast
qed

text \<open>Pointing the handler's module at the object that the map has for it.\<close>

lemma handler_inv_touch:
  assumes inv: "map_inv p" "handler_inv p" and h: "rejit_handler p = Some h" "touches_module i a h h'"
    and a: "module_id_to_info_map p i = Some a"
  shows "handler_inv (p\<lparr>rejit_handler := Some h'\<rparr>)"
proof -
  obtain m where m: "m_metadata m = a" "m_modules h' = (m_modules h)(i \<mapsto> m)"
    "m_rewriteCallback h' = m_rewriteCallback h"
    using h(2) by (auto simp: touches_module_def)
  have "metadata_ok p i a"
    using inv(1) a unfolding metadata_ok_def map_inv_def by blast
  then show ?thesis
    using inv(2) h(1) m by (auto simp: handler_inv_def metadata_ok_def)
qed

section \<open>Initialize\<close>

lemma read_static_simps [simp]:
  "fst (read_static f p) = fst (f (static_switches p))"
  "snd (read_static f p) = p\<lparr>static_switches := snd (f (static_switches p))\<rparr>"
  by (simp_all add: read_static_def case_prod_beta)

text \<open>The other switches leave this one alone.\<close>

lemma other_switches [simp]:
  "s_IsCallTargetEnabled (snd (EnableInlining g d st)) = s_IsCallTargetEnabled st"
  "s_IsCallTargetEnabled (snd (DisableOptimizations g st)) = s_IsCallTargetEnabled st"
  "s_IsCallTargetEnabled (snd (IsNetstandardEnabled g st)) = s_IsCallTargetEnabled st"
  "s_IsCallTargetEnabled (snd (IsAzureAppServices g st)) = s_IsCallTargetEnabled st"
  "s_IsCallTargetEnabled (snd (IsDebugEnabled g st)) = s_IsCallTargetEnabled st"
  "s_IsCallTargetEnabled (snd (IsDumpILRewriteEnabled g st)) = s_IsCallTargetEnabled st"
  "s_IsCallTargetEnabled (snd (IsTracingDisabled g st)) = s_IsCallTargetEnabled st"
  by (simp_all add: EnableInlining_def DisableOptimizations_def IsNetstandardEnabled_def IsAzureAppServices_def
      IsDebugEnabled_def IsDumpILRewriteEnabled_def IsTracingDisabled_def case_prod_beta Let_def)

text \<open>Everything that the histories rely on, and that attaching leaves alone.\<close>

definition kept_by_attach :: "'m CorProfiler \<Rightarrow> 'm CorProfiler \<Rightarrow> bool" where
  "kept_by_attach p q \<longleftrightarrow> rejit_handler q = rejit_handler p \<and> modules_store q = modules_store p
     \<and> next_address q = next_address p \<and> module_id_to_info_map q = module_id_to_info_map p
     \<and> first_jit_compilation_app_domains q = first_jit_compilation_app_domains p
     \<and> s_IsCallTargetEnabled (static_switches q) = s_IsCallTargetEnabled (static_switches p)"

lemma kept_by_attach_refl [simp]: "kept_by_attach p p"
  by (simp add: kept_by_attach_def)

lemma initialize_attach_keeps: "kept_by_attach p (snd (initialize_attach e ct p))"
  by (simp add: initialize_attach_def kept_by_attach_def Let_def case_prod_beta request_clr_def)

text \<open>The mode is fixed before the profiler can attach.\<close>

definition initial_modules :: "'m CorProfiler \<Rightarrow> bool" where
  "initial_modules p \<longleftrightarrow> modules_store p = Map.empty \<and> next_address p = 1 \<and> module_id_to_info_map p = Map.empty
     \<and> first_jit_compilation_app_domains p = {}"

definition mode_chosen :: "'m CorProfiler \<Rightarrow> bool" where
  "mode_chosen p \<longleftrightarrow> s_IsCallTargetEnabled (static_switches p) \<noteq> -1
     \<and> (s_IsCallTargetEnabled (static_switches p) = 1 \<longleftrightarrow> rejit_handler p \<noteq> None)"

definition fresh_handler :: "'m CorProfiler \<Rightarrow> bool" where
  "fresh_handler p \<longleftrightarrow> (\<forall>h. rejit_handler p = Some h \<longrightarrow> m_modules h = Map.empty \<and> m_rewriteCallback h \<noteq> None)"

lemma calltarget_mode_answer:
  "s_IsCallTargetEnabled (static_switches (snd (calltarget_mode e p))) \<noteq> -1"
  "fst (calltarget_mode e p) \<longleftrightarrow> s_IsCallTargetEnabled (static_switches (snd (calltarget_mode e p))) = 1"
  by (simp_all add: calltarget_mode_def IsCallTargetEnabled_settles IsCallTargetEnabled_answer)

lemma calltarget_mode_snd: "\<exists>st. snd (calltarget_mode e p) = p\<lparr>static_switches := st\<rparr>"
  by (auto simp: calltarget_mode_def)

lemma initialize_mode_chosen:
  assumes "initial_modules p"
  shows "mode_chosen (snd (initialize_mode e p)) \<and> initial_modules (snd (initialize_mode e p))
    \<and> fresh_handler (snd (initialize_mode e p))"
proof -
  obtain ct q where q: "calltarget_mode e p = (ct, q)" by fastforce
  obtain st where st: "q = p\<lparr>static_switches := st\<rparr>" using calltarget_mode_snd [of e p] q by auto
  have s: "s_IsCallTargetEnabled st \<noteq> -1" "ct \<longleftrightarrow> s_IsCallTargetEnabled st = 1"
    using calltarget_mode_answer [of e p] q st by simp_all
  define r where "r = (if ct then request_clr StartRejitThread (q\<lparr>rejit_handler := Some (RejitHandler_new (e_rewriter e))\<rparr>)
               else q\<lparr>rejit_handler := None\<rparr>)\<lparr>integration_methods := initialize_integrations_of e ct\<rparr>"
  have r: "mode_chosen r \<and> initial_modules r \<and> fresh_handler r"
    using assms s by (simp add: r_def st mode_chosen_def initial_modules_def fresh_handler_def request_clr_def RejitHandler_new_def)
  have step: "mode_chosen q' \<and> initial_modules q' \<and> fresh_handler q'" if "kept_by_attach r q'" for q'
    using r that by (simp add: kept_by_attach_def mode_chosen_def initial_modules_def fresh_handler_def)
  obtain ns r1 where r1: "read_static (IsNetstandardEnabled (e_getenv e)) r = (ns, r1)" by fastforce
  define r2 where "r2 = (if \<not> ns then r1\<lparr>integration_methods :=
      FilterIntegrationsByTargetAssemblyName (integration_methods r1) [WStr ''netstandard'']\<rparr> else r1)"
  have "initialize_mode e p =
      (if integration_methods r = [] then (E_FAIL_code, r) else initialize_attach e ct r2)"
    by (simp only: initialize_mode_def q Let_def prod.case r_def [symmetric] r1 r2_def [symmetric])
  moreover have "kept_by_attach r r2"
    using r1 by (auto simp: read_static_def case_prod_beta r2_def kept_by_attach_def)
  ultimately have "kept_by_attach r (snd (initialize_mode e p))"
    using initialize_attach_keeps [of r2 e ct] by (simp add: kept_by_attach_def)
  then show ?thesis by (rule step)
qed

lemma initial_inv:
  assumes "initial_modules p" "fresh_handler p" "is_attached p \<longrightarrow> mode_chosen p"
  shows "profiler_inv p"
  using assms by (auto simp: profiler_inv_def mode_inv_def map_inv_def handler_inv_def initial_modules_def
      fresh_handler_def mode_chosen_def)

text \<open>What comes before the mode is chosen leaves the profiler detached, and the later switches unread.\<close>

definition unread :: "statics \<Rightarrow> bool" where
  "unread st \<longleftrightarrow> s_IsCallTargetEnabled st = -1 \<and> s_EnableInlining st = -1 \<and> s_DisableOptimizations st = -1
     \<and> s_IsNetstandardEnabled st = -1"

definition detached_start :: "'m CorProfiler \<Rightarrow> bool" where
  "detached_start p \<longleftrightarrow> initial_modules p \<and> rejit_handler p = None \<and> \<not> is_attached p \<and> requests p = []
     \<and> unread (static_switches p)"

text \<open>The conditions under which the mode is chosen.\<close>

definition process_accepted :: "'m clr_env \<Rightarrow> bool" where
  "process_accepted e \<longleftrightarrow>
     (let value = GetEnvironmentValue (e_getenv e); values = GetEnvironmentValues_semicolon (e_getenv e)
      in value tracing_enabled \<notin> {WStr ''0'', WStr ''false''} \<and> (if e_arm e then e_ICorProfilerInfo12 e else True)
       \<and> (values include_process_names = [] \<or> e_process_name e \<in> set (values include_process_names))
       \<and> e_process_name e \<notin> set (values exclude_process_names) \<and> e_ICorProfilerInfo4 e
       \<and> \<not> (value azure_app_services \<in> {WStr ''1'', WStr ''true''}
            \<and> ((\<exists>pool. pool \<noteq> [] \<and> value azure_app_services_app_pool_id = wc CHR ''~'' # pool)
                 \<or> value azure_app_services_cli_telemetry_profile_value = WStr ''AzureKudu''))
       \<and> value integrations_path \<noteq> [])"

lemma process_accepted_iff:
  "process_accepted e \<longleftrightarrow> \<not> is_false (GetEnvironmentValue (e_getenv e) tracing_enabled)
     \<and> (if e_arm e then e_ICorProfilerInfo12 e else True) \<and> \<not> process_excluded e \<and> e_ICorProfilerInfo4 e
     \<and> \<not> (is_true (GetEnvironmentValue (e_getenv e) azure_app_services) \<and> azure_reserved e)
     \<and> GetEnvironmentValue (e_getenv e) integrations_path \<noteq> []"
proof -
  have pool: "(\<exists>pool. pool \<noteq> [] \<and> v = x # pool) \<longleftrightarrow> length v > 1 \<and> hd v = x" for v and x :: 'b
    by (cases v) auto
  show ?thesis
    unfolding process_accepted_def Let_def pool process_excluded_def azure_reserved_def is_true_def is_false_def
    by auto
qed

lemma early_switches:
  "fst (IsTracingDisabled g st) \<longleftrightarrow> (if s_IsTracingDisabled st = -1
     then is_false (GetEnvironmentValue g tracing_enabled) else s_IsTracingDisabled st = 1)"
  "fst (IsAzureAppServices g st) \<longleftrightarrow> (if s_IsAzureAppServices st = -1
     then is_true (GetEnvironmentValue g azure_app_services) else s_IsAzureAppServices st = 1)"
  "snd (IsDebugEnabled g st) = st\<lparr>s_IsDebugEnabled := s_IsDebugEnabled (snd (IsDebugEnabled g st))\<rparr>"
  "snd (IsDumpILRewriteEnabled g st) = st\<lparr>s_IsDumpILRewriteEnabled := s_IsDumpILRewriteEnabled (snd (IsDumpILRewriteEnabled g st))\<rparr>"
  "snd (IsTracingDisabled g st) = st\<lparr>s_IsTracingDisabled := s_IsTracingDisabled (snd (IsTracingDisabled g st))\<rparr>"
  "snd (IsAzureAppServices g st) = st\<lparr>s_IsAzureAppServices := s_IsAzureAppServices (snd (IsAzureAppServices g st))\<rparr>"
  by (simp_all add: IsDebugEnabled_def IsDumpILRewriteEnabled_def IsTracingDisabled_def IsAzureAppServices_def
      CheckIfTrue_def CheckIfFalse_def Let_def)

lemma Initialize_cases:
  fixes e :: "'m clr_env"
  assumes "Initialize e (CorProfiler_new cor metadata) = (hr, p)"
  obtains (refused) "\<not> process_accepted e" "hr = E_FAIL_code" "detached_start p"
    | (mode) q where "process_accepted e" "detached_start q" "is_net46_or_greater q = e_ICorProfilerInfo6 e"
        "initialize_mode e q = (hr, p)"
proof -
  let ?p = "CorProfiler_new cor metadata :: 'm CorProfiler"
  let ?g = "e_getenv e"
  obtain b1 p1 where p1: "read_static (IsDebugEnabled ?g) ?p = (b1, p1)" by fastforce
  obtain b2 p2 where p2: "read_static (IsDumpILRewriteEnabled ?g) (p1\<lparr>debug_logging_enabled := b1\<rparr>) = (b2, p2)"
    by fastforce
  obtain b3 p3 where p3: "read_static (IsTracingDisabled ?g) p2 = (b3, p3)" by fastforce
  define p4 where "p4 = (if e_ICorProfilerInfo6 e then p3\<lparr>is_net46_or_greater := True\<rparr> else p3)"
  obtain b5 p5 where p5: "read_static (IsAzureAppServices ?g) p4 = (b5, p5)" by fastforce
  define p6 where "p6 = (if b5 then p5\<lparr>in_azure_app_services := True\<rparr> else p5)"
  have q1: "p1 = ?p\<lparr>static_switches := snd (IsDebugEnabled ?g statics_initial)\<rparr>"
    using p1 by (auto simp: read_static_def case_prod_beta CorProfiler_new_def)
  have q2: "p2 = p1\<lparr>debug_logging_enabled := b1, static_switches := snd (IsDumpILRewriteEnabled ?g (static_switches p1))\<rparr>"
    using p2 by (auto simp: read_static_def case_prod_beta)
  have q3: "b3 = fst (IsTracingDisabled ?g (static_switches p2))"
    "p3 = p2\<lparr>static_switches := snd (IsTracingDisabled ?g (static_switches p2))\<rparr>"
    using p3 by (auto simp: read_static_def case_prod_beta)
  have q5: "b5 = fst (IsAzureAppServices ?g (static_switches p4))"
    "p5 = p4\<lparr>static_switches := snd (IsAzureAppServices ?g (static_switches p4))\<rparr>"
    using p5 by (auto simp: read_static_def case_prod_beta)
  have st1: "static_switches p1 = statics_initial\<lparr>s_IsDebugEnabled := s_IsDebugEnabled (snd (IsDebugEnabled ?g statics_initial))\<rparr>"
    unfolding q1 by (simp add: early_switches(3) [symmetric])
  have st2: "s_IsTracingDisabled (static_switches p2) = -1" "s_IsAzureAppServices (static_switches p2) = -1"
    "unread (static_switches p2)"
    unfolding q2 by (simp, subst early_switches(4), simp add: st1 statics_initial_def unread_def)+
  have b3: "b3 \<longleftrightarrow> is_false (GetEnvironmentValue ?g tracing_enabled)"
    unfolding q3(1) early_switches(1) by (simp add: st2)
  have st3: "s_IsAzureAppServices (static_switches p3) = -1" "unread (static_switches p3)"
    unfolding q3(2) by (simp, subst early_switches(5), use st2 in \<open>simp add: unread_def\<close>)+
  have st4: "static_switches p4 = static_switches p3" by (simp add: p4_def)
  have b5: "b5 \<longleftrightarrow> is_true (GetEnvironmentValue ?g azure_app_services)"
    unfolding q5(1) early_switches(2) by (simp add: st3 st4)
  have st5: "unread (static_switches p5)"
    unfolding q5(2) by (simp, subst early_switches(6), use st3 st4 in \<open>simp add: unread_def\<close>)
  have d3: "detached_start p3" using st3(2) by (simp add: detached_start_def initial_modules_def q3(2) q2 q1 CorProfiler_new_def)
  have d6: "detached_start p6"
    using st5 by (simp add: detached_start_def initial_modules_def p6_def q5(2) p4_def q3(2) q2 q1 CorProfiler_new_def)
  have n6: "is_net46_or_greater p6 = e_ICorProfilerInfo6 e"
    by (simp add: p6_def q5(2) p4_def q3(2) q2 q1 CorProfiler_new_def)
  have eq: "Initialize e ?p = (if b3 then (E_FAIL_code, p3)
         else if e_arm e \<and> \<not> e_ICorProfilerInfo12 e then (E_FAIL_code, p3)
         else if process_excluded e then (E_FAIL_code, p3)
         else if \<not> e_ICorProfilerInfo4 e then (E_FAIL_code, p3)
         else if b5 \<and> azure_reserved e then (E_FAIL_code, p6)
         else if GetEnvironmentValue (e_getenv e) integrations_path = [] then (E_FAIL_code, p6)
         else initialize_mode e p6)"
    by (simp only: Initialize_def Let_def p1 p2 p3 prod.case p4_def [symmetric] p5 p6_def [symmetric])
  show thesis
  proof (cases "process_accepted e")
    case True
    then have "initialize_mode e p6 = (hr, p)" using assms unfolding eq process_accepted_iff by (auto simp: b3 b5 split: if_splits)
    then show thesis by (rule mode [OF True d6 n6])
  next
    case False
    then have "hr = E_FAIL_code \<and> (p = p3 \<or> p = p6)"
      using assms unfolding eq process_accepted_iff by (auto simp: b3 b5 split: if_splits)
    then show thesis using refused [OF False] d3 d6 by blast
  qed
qed

lemma Initialize_inv:
  assumes "Initialize e (CorProfiler_new cor metadata) = (hr, p)"
  shows "profiler_inv p"
  using assms
proof (cases rule: Initialize_cases)
  case refused
  then show ?thesis by (intro initial_inv) (simp_all add: detached_start_def fresh_handler_def)
next
  case (mode q)
  then show ?thesis
    using initialize_mode_chosen [of q e] by (intro initial_inv) (simp_all add: detached_start_def)
qed

section \<open>The callbacks keep the invariant and do not crash\<close>

text \<open>Metadata that can be read: on well-founded metadata \<open>GetFunctionInfo\<close> returns
  (\<open>TypeMetadata.GetFunctionInfo_terminates\<close>), and \<open>TryParse\<close> and the type names do not run over the
  end of a signature of the CLR.\<close>

definition readable :: "nat \<Rightarrow> metadata_import \<Rightarrow> bool" where
  "readable fuel imp \<longleftrightarrow> (\<forall>tok. isl (GetFunctionInfo fuel imp tok) = False)
     \<and> (\<forall>types tok. isl (rejit_candidate fuel imp types tok) = False)"

definition env_ok :: "'m clr_env \<Rightarrow> 'm CorProfiler \<Rightarrow> bool" where
  "env_ok e p \<longleftrightarrow> (\<forall>i. \<exists>mi. e_module_metadata e i = Some mi \<and> readable (e_fuel e) (mi_import mi))
     \<and> (\<forall>a mm. modules_store p a = Some mm \<longrightarrow> readable (e_fuel e) (mi_import (mm_interfaces mm)))"

lemma not_isl: "isl x = False \<longleftrightarrow> (\<exists>y. x = Inr y)"
  by (cases x) auto

text \<open>A callback that keeps the invariant if it returns, and that returns if \<open>b\<close> holds.\<close>

definition outcome :: "bool \<Rightarrow> hr + ('r \<times> 'm CorProfiler) \<Rightarrow> bool" where
  "outcome b r \<longleftrightarrow> (case r of Inl _ \<Rightarrow> \<not> b | Inr (_, q) \<Rightarrow> profiler_inv q)"

lemma outcome_simps [simp]:
  "outcome b (Inr (hr, q)) \<longleftrightarrow> profiler_inv q"
  "outcome b (Inl err) \<longleftrightarrow> \<not> b"
  by (simp_all add: outcome_def)

lemma candidates_total:
  assumes "readable fuel imp"
  shows "\<exists>xs. candidates fuel imp rep methodDefs = Inr xs"
proof (induction methodDefs)
  case (Cons md mds)
  obtain r where "rejit_candidate fuel imp (signature_types (target_method rep)) md = Inr r"
    using assms unfolding readable_def not_isl by blast
  then show ?case using Cons by auto
qed simp

lemma all_candidates_total:
  assumes "readable fuel (mi_import mi)"
  shows "\<exists>xs. all_candidates fuel mi assemblyName ims = Inr xs"
proof (induction ims)
  case (Cons im ims)
  have "\<exists>xs. candidates_of fuel mi assemblyName (replacement im) = Inr xs"
    using candidates_total [OF assms] by (auto simp: candidates_of_def split: option.splits)
  then show ?case using Cons by auto
qed simp

lemma store_module_inv:
  assumes inv: "profiler_inv p" and q: "store_module i mm p = (a, q)"
  shows "profiler_inv q" "module_id_to_info_map q i = Some a" "modules_store q a = Some mm"
    "rejit_handler q = rejit_handler p" "is_attached q = is_attached p"
proof -
  have q': "q = p\<lparr>modules_store := (modules_store p)(a \<mapsto> mm), next_address := a + 1,
        module_id_to_info_map := (module_id_to_info_map p)(i \<mapsto> a)\<rparr>" "a = next_address p"
    using q by (auto simp: store_module_def Let_def)
  show "module_id_to_info_map q i = Some a" "modules_store q a = Some mm" "rejit_handler q = rejit_handler p"
    "is_attached q = is_attached p"
    by (simp_all add: q')
  have m: "map_inv p" "handler_inv p" "mode_inv p" using inv by (simp_all add: profiler_inv_def)
  have fresh: "modules_store p a = None" "module_id_to_info_map p j \<noteq> Some a" for j
    using m(1) q'(2) unfolding map_inv_def by blast+
  have "map_inv q" using m(1) fresh unfolding map_inv_def q'
    by (auto simp: q'(2) less_Suc_eq)
  moreover have "handler_inv q"
    unfolding handler_inv_def
  proof (intro allI impI conjI)
    fix h assume h: "rejit_handler q = Some h"
    then show "m_rewriteCallback h \<noteq> None" using m(2) by (simp add: handler_inv_def q')
    fix j md assume "m_modules h j = Some md"
    then have "metadata_ok p j (m_metadata md)" using m(2) h by (simp add: handler_inv_def q')
    then show "metadata_ok q j (m_metadata md)"
      using fresh by (auto simp: metadata_ok_def q')
  qed
  moreover have "mode_inv q" using m(3) by (simp add: mode_inv_def q')
  ultimately show "profiler_inv q" by (simp add: profiler_inv_def)
qed

lemma RequestRejit_inv:
  assumes inv: "profiler_inv p" and h: "rejit_handler p = Some h" and i: "module_id_to_info_map p i = Some a"
    and mm: "modules_store p a = Some mm"
  shows "outcome (readable (e_fuel e) (mi_import (mm_interfaces mm))) (CallTarget_RequestRejitForModule e i a ims p)"
proof (cases "all_candidates (e_fuel e) (mm_interfaces mm) (mm_assemblyName mm) ims")
  case (Inl err)
  then have "\<not> readable (e_fuel e) (mi_import (mm_interfaces mm))"
    using all_candidates_total [of "e_fuel e" "mm_interfaces mm" "mm_assemblyName mm" ims] by auto
  then show ?thesis using Inl mm by (simp add: CallTarget_RequestRejitForModule_def)
next
  case (Inr found)
  show ?thesis
  proof (cases "found = []")
    case True
    then show ?thesis using inv mm Inr by (simp add: CallTarget_RequestRejitForModule_def)
  next
    case False
    let ?h = "register_all i a found h"
    let ?q = "\<lambda>item. request_clr (EnqueueRejit item) (p\<lparr>rejit_handler := Some ?h\<rparr>)"
    have "handler_inv (p\<lparr>rejit_handler := Some ?h\<rparr>)"
      using inv by (intro handler_inv_touch [OF _ _ h register_all_touches [OF False] i]) (simp_all add: profiler_inv_def)
    then have "profiler_inv (?q item)" for item
      using inv h by (auto simp: profiler_inv_def map_inv_def mode_inv_def handler_inv_def metadata_ok_def request_clr_def)
    moreover obtain item where "EnqueueForRejit (e_uninit e) (map (\<lambda>_. i) found) (map fst found) = Inr item"
      by (simp add: EnqueueForRejit_def)
    ultimately show ?thesis
      using False mm Inr h by (simp add: CallTarget_RequestRejitForModule_def Let_def)
  qed
qed

lemma profiler_inv_clr_metadata [simp]: "profiler_inv (q\<lparr>clr_metadata := m\<rparr>) \<longleftrightarrow> profiler_inv q"
  by (simp add: profiler_inv_def mode_inv_def map_inv_def handler_inv_def metadata_ok_def)

lemma register_module_inv:
  assumes inv: "profiler_inv p"
  shows "outcome (readable (e_fuel e) (mi_import (mm_interfaces mm)))
    (register_module e i mm (rejit_handler p \<noteq> None) p)"
proof -
  obtain a q where q: "store_module i mm p = (a, q)" by fastforce
  note s = store_module_inv [OF inv q]
  show ?thesis
  proof (cases "rejit_handler p")
    case None
    then show ?thesis using s(1) by (simp add: register_module_def Let_def q)
  next
    case (Some h)
    then have "rejit_handler q = Some h" using s(4) by simp
    from RequestRejit_inv [OF s(1) this s(2,3), of e "mm_integrations mm"] show ?thesis
      using Some by (cases "CallTarget_RequestRejitForModule e i a (mm_integrations mm) q")
        (auto simp: register_module_def Let_def q)
  qed
qed

lemma instrument_module_inv:
  assumes inv: "profiler_inv p" "is_attached p"
  shows "outcome (env_ok e p) (instrument_module e i asm p)"
proof (cases "e_module_metadata e i")
  case None
  then show ?thesis
    using inv(1) unfolding instrument_module_def calltarget_mode_attached [OF inv] Let_def prod.case
    by (simp split: option.splits)
next
  case (Some mi)
  have "readable (e_fuel e) (mi_import mi)" if "env_ok e p"
  proof -
    from that obtain mi' where "e_module_metadata e i = Some mi'" "readable (e_fuel e) (mi_import mi')"
      unfolding env_ok_def by blast
    then show ?thesis using Some by simp
  qed
  then have "outcome (env_ok e p) (register_module e i mm (rejit_handler p \<noteq> None) p)" if "mm_interfaces mm = mi" for mm
    using register_module_inv [OF inv(1), of e mm i] that by (auto simp: outcome_def split: sum.splits)
  then show ?thesis
    using inv(1) Some unfolding instrument_module_def calltarget_mode_attached [OF inv] Let_def prod.case
    by (cases "rejit_handler p"; simp split: option.splits)
qed

lemma ModuleUnloadStarted_inv:
  assumes inv: "profiler_inv p"
  shows "outcome True (ModuleUnloadStarted i p)"
proof (cases "is_attached p")
  case False
  then show ?thesis using inv by (simp add: ModuleUnloadStarted_def)
next
  case True
  have m: "map_inv p" "handler_inv p" "mode_inv p" using inv by (simp_all add: profiler_inv_def)
  show ?thesis
  proof (cases "module_id_to_info_map p i")
    case None
    then show ?thesis using inv True by (simp add: ModuleUnloadStarted_def)
  next
    case (Some a)
    then obtain mm where mm: "modules_store p a = Some mm" using m(1) unfolding map_inv_def by blast
    define d where "d = (if mm_app_domain_id mm \<in> managed_profiler_loaded_app_domains p
        then managed_profiler_loaded_app_domains p - {mm_app_domain_id mm} else managed_profiler_loaded_app_domains p)"
    define q where "q = p\<lparr>managed_profiler_loaded_app_domains := d,
        module_id_to_info_map := (module_id_to_info_map p)(i := None),
        rejit_handler := map_option (RemoveModule i) (rejit_handler p),
        modules_store := (modules_store p)(a := None)\<rparr>"
    have "ModuleUnloadStarted i p = Inr (S_OK, q)"
      using True Some mm by (cases "rejit_handler p") (simp_all add: ModuleUnloadStarted_def q_def d_def Let_def)
    moreover have "map_inv q"
      using m(1) Some unfolding map_inv_def q_def by auto
    moreover have "handler_inv q"
      unfolding handler_inv_def
    proof (intro allI impI conjI)
      fix h' assume "rejit_handler q = Some h'"
      then obtain h where h: "rejit_handler p = Some h" "h' = RemoveModule i h" by (auto simp: q_def)
      then show "m_rewriteCallback h' \<noteq> None" using m(2) by (simp add: handler_inv_def RemoveModule_def)
      fix j md assume "m_modules h' j = Some md"
      then have j: "j \<noteq> i" "m_modules h j = Some md" by (simp_all add: h(2) RemoveModule_def split: if_splits)
      then have "metadata_ok p j (m_metadata md)" using m(2) h(1) by (simp add: handler_inv_def)
      then show "metadata_ok q j (m_metadata md)"
        using j(1) Some by (auto simp: metadata_ok_def q_def)
    qed
    moreover have "mode_inv q" using m(3) by (auto simp: mode_inv_def q_def)
    ultimately show ?thesis by (simp add: profiler_inv_def)
  qed
qed

lemma profiler_inv_simps [simp]:
  "profiler_inv (p\<lparr>corAssemblyProperty := cor\<rparr>) \<longleftrightarrow> profiler_inv p"
  "profiler_inv (p\<lparr>corlib_module_loaded := b\<rparr>) \<longleftrightarrow> profiler_inv p"
  "profiler_inv (p\<lparr>corlib_app_domain_id := d\<rparr>) \<longleftrightarrow> profiler_inv p"
  "profiler_inv (p\<lparr>first_jit_compilation_app_domains := ds\<rparr>) \<longleftrightarrow> profiler_inv p"
  "profiler_inv (p\<lparr>managed_profiler_loaded_app_domains := ds\<rparr>) \<longleftrightarrow> profiler_inv p"
  "profiler_inv (p\<lparr>managed_profiler_loaded_domain_neutral := b\<rparr>) \<longleftrightarrow> profiler_inv p"
  "profiler_inv (p\<lparr>instrument_domain_neutral_assemblies := b\<rparr>) \<longleftrightarrow> profiler_inv p"
  "profiler_inv (request_clr r p) \<longleftrightarrow> profiler_inv p"
  by (simp_all add: profiler_inv_def mode_inv_def map_inv_def handler_inv_def metadata_ok_def request_clr_def)

lemma ModuleLoadFinished_inv:
  assumes inv: "profiler_inv p"
  shows "outcome (env_ok e p) (ModuleLoadFinished e i hr_status p)"
proof (cases "is_attached p")
  case False
  then show ?thesis using inv by (simp add: ModuleLoadFinished_def)
next
  case True
  have "\<not> env_ok e p" if "e_module_metadata e i = None"
    using that unfolding env_ok_def by (metis option.distinct(1))
  then have "outcome (env_ok e p) (load_corlib e i asm p)" for asm
    using inv by (simp add: load_corlib_def Let_def split: option.splits)
  then show ?thesis
    using True inv instrument_module_inv [OF inv True] by (simp add: ModuleLoadFinished_def Let_def)
qed

lemma AssemblyLoadFinished_inv: "profiler_inv p \<Longrightarrow> profiler_inv (snd (AssemblyLoadFinished e i hr p))"
  by (simp add: AssemblyLoadFinished_def Let_def split: option.splits)

lemma insert_startup_hook_inv: "profiler_inv p \<Longrightarrow> profiler_inv (snd (insert_startup_hook e i tok mm p))"
  by (simp add: insert_startup_hook_def Let_def)

text \<open>Writing to a live object changes no pointer.\<close>

lemma modules_store_update_inv:
  assumes "profiler_inv p" "modules_store p a = Some mm"
  shows "profiler_inv (p\<lparr>modules_store := (modules_store p)(a \<mapsto> mm')\<rparr>)"
  by (rule profiler_inv_same [OF assms(1)]) (use assms(2) in \<open>auto simp: same_modules_def same_mode_def\<close>)

lemma rewrite_calls_inv:
  assumes "profiler_inv p" "modules_store p a = Some mm"
  shows "profiler_inv (rewrite_calls e i tok a mm caller p)"
proof -
  let ?q = "\<lambda>m. request_clr (InsertCalls i tok) (p\<lparr>modules_store := (modules_store p)(a \<mapsto> m)\<rparr>)"
  have q: "profiler_inv (?q m)" for m using modules_store_update_inv [OF assms] by simp
  have "modules_store (?q m) a = Some m" for m by (simp add: request_clr_def)
  from modules_store_update_inv [OF q this]
  have "profiler_inv (request_clr r ((?q m)\<lparr>modules_store := (modules_store (?q m))(a \<mapsto> m')\<rparr>))" for r m m'
    by simp
  then show ?thesis using assms(1) q by (simp add: rewrite_calls_def Let_def case_prod_beta)
qed

lemma JITCompilationStarted_inv:
  assumes inv: "profiler_inv p"
  shows "outcome (env_ok e p) (JITCompilationStarted e f safe p)"
proof (cases "is_attached p \<and> safe \<and> e_function_info e f \<noteq> None")
  case False
  then show ?thesis using inv by (cases "e_function_info e f") (auto simp: JITCompilationStarted_def)
next
  case True
  then obtain i tok where f: "e_function_info e f = Some (i, tok)" by auto
  have att: "is_attached p" using True by simp
  show ?thesis
  proof (cases "module_id_to_info_map p i")
    case None
    then show ?thesis using True f inv by (simp add: JITCompilationStarted_def)
  next
    case (Some a)
    then obtain mm where mm: "modules_store p a = Some mm"
      using inv unfolding profiler_inv_def map_inv_def by blast
    have caller: "isl (GetFunctionInfo (e_fuel e) (mi_import (mm_interfaces mm)) tok) = False" if "env_ok e p"
      using that mm unfolding env_ok_def readable_def by blast
    have store: "modules_store (snd (insert_startup_hook e i tok mm p)) = modules_store p"
      by (simp add: insert_startup_hook_def Let_def request_clr_def)
    have "profiler_inv (rewrite_calls e i tok a mm caller (snd (insert_startup_hook e i tok mm p)))" for caller
      by (rule rewrite_calls_inv) (simp_all add: insert_startup_hook_inv inv store mm)
    then have "profiler_inv (jit_method e ct i tok a mm caller p)" for ct caller
      using inv insert_startup_hook_inv [OF inv] rewrite_calls_inv [OF inv mm]
      by (simp add: jit_method_def Let_def case_prod_beta)
    then show ?thesis
      using True f Some mm caller inv
      unfolding JITCompilationStarted_def calltarget_mode_attached [OF inv att]
      by (cases "GetFunctionInfo (e_fuel e) (mi_import (mm_interfaces mm)) tok")
        (auto simp: Let_def case_prod_beta)
  qed
qed

lemma GetReJITParameters_inv:
  assumes inv: "profiler_inv p"
  shows "outcome (is_attached p \<longrightarrow> rejit_handler p \<noteq> None) (GetReJITParameters i md fc p)"
proof (cases "is_attached p \<and> module_id_to_info_map p i \<noteq> None")
  case False
  then show ?thesis using inv by (auto simp: GetReJITParameters_def GetReJITParameters_lookup_def)
next
  case True
  then obtain a where a: "module_id_to_info_map p i = Some a" by auto
  show ?thesis
  proof (cases "rejit_handler p")
    case None
    then show ?thesis
      using True a by (simp add: GetReJITParameters_def GetReJITParameters_lookup_def GetReJITParameters_notify_def)
  next
    case (Some h)
    then have "m_rewriteCallback h \<noteq> None" using inv by (simp add: profiler_inv_def handler_inv_def)
    then obtain hr h' where h': "NotifyReJITParameters i md fc a h = Inr (hr, h')" "touches_module i a h h'"
      using NotifyReJITParameters_touches by blast
    have "handler_inv (p\<lparr>rejit_handler := Some h'\<rparr>)"
      using inv by (intro handler_inv_touch [OF _ _ Some h'(2) a]) (simp_all add: profiler_inv_def)
    then have "profiler_inv (p\<lparr>rejit_handler := Some h'\<rparr>)"
      using inv Some by (auto simp: profiler_inv_def map_inv_def mode_inv_def)
    then show ?thesis
      using True a Some h'(1)
      by (simp add: GetReJITParameters_def GetReJITParameters_lookup_def GetReJITParameters_notify_def)
  qed
qed

lemma Shutdown_inv: "profiler_inv p \<Longrightarrow> profiler_inv (snd (Shutdown p))"
  by (auto simp: Shutdown_def Let_def request_clr_def profiler_inv_def mode_inv_def map_inv_def handler_inv_def
      split: option.splits)

lemma Detach_inv: "profiler_inv p \<Longrightarrow> profiler_inv (snd (ProfilerDetachSucceeded p))"
  by (auto simp: ProfilerDetachSucceeded_def profiler_inv_def mode_inv_def map_inv_def handler_inv_def metadata_ok_def)

lemma GetAssemblyReferences_inv: "profiler_inv p \<Longrightarrow> profiler_inv (snd (GetAssemblyReferences e path p))"
  by (simp add: GetAssemblyReferences_def Let_def)

text \<open>What is needed for a callback to return: readable metadata, and re-JIT callbacks only when
  re-JIT has been enabled.\<close>

definition callback_ok :: "'m clr_env \<Rightarrow> event \<Rightarrow> 'm CorProfiler \<Rightarrow> bool" where
  "callback_ok e ev p \<longleftrightarrow> env_ok e p
     \<and> (case ev of ReJITParameters _ _ _ \<Rightarrow> is_attached p \<longrightarrow> rejit_handler p \<noteq> None | _ \<Rightarrow> True)"

lemma outcome_mono: "outcome b r \<Longrightarrow> (c \<Longrightarrow> b) \<Longrightarrow> outcome c r"
  by (auto simp: outcome_def split: sum.splits)

lemma outcome_pair: "profiler_inv (snd r) \<Longrightarrow> outcome b (Inr r)"
  by (cases r) simp

lemma callback_inv:
  assumes inv: "profiler_inv p"
  shows "outcome (callback_ok e ev p) (callback e ev p)"
proof (cases ev)
  case (ModuleLoad i hr)
  then show ?thesis
    using outcome_mono [OF ModuleLoadFinished_inv [OF inv, of e i hr]] by (simp add: callback_ok_def)
next
  case (ModuleUnload i)
  then show ?thesis using outcome_mono [OF ModuleUnloadStarted_inv [OF inv]] by simp
next
  case (JITCompilation f safe)
  then show ?thesis
    using outcome_mono [OF JITCompilationStarted_inv [OF inv, of e f safe]] by (simp add: callback_ok_def)
next
  case (ReJITParameters i md fc)
  then show ?thesis
    using outcome_mono [OF GetReJITParameters_inv [OF inv, of i md fc]] by (simp add: callback_ok_def)
qed (simp_all add: outcome_pair AssemblyLoadFinished_inv Shutdown_inv Detach_inv GetAssemblyReferences_inv inv)

lemma history_inv: "history init_env cor metadata p \<Longrightarrow> profiler_inv p"
proof (induction rule: history.induct)
  case (called p e ev hr q)
  then show ?case using callback_inv [OF called.IH, of e ev] by simp
qed (rule Initialize_inv)

section \<open>When the profiler attaches\<close>

text \<open>The event mask: re-JIT in the call-target mode, inlining and optimizations as configured.\<close>

definition initialize_mask :: "'m clr_env \<Rightarrow> bool \<Rightarrow> u32" where
  "initialize_mask e ct =
     (let inlining = (if is_true (GetEnvironmentValue (e_getenv e) clr_enable_inlining) then True
            else if is_false (GetEnvironmentValue (e_getenv e) clr_enable_inlining) then False else ct);
          no_optimizations = is_true (GetEnvironmentValue (e_getenv e) clr_disable_optimizations)
      in event_mask_base OR (if ct then COR_PRF_ENABLE_REJIT else 0)
         OR (if inlining then 0 else COR_PRF_DISABLE_INLINING)
         OR (if no_optimizations then COR_PRF_DISABLE_OPTIMIZATIONS else 0))"

definition mask_request :: "'m clr_env \<Rightarrow> bool \<Rightarrow> request" where
  "mask_request e ct = (if e_ICorProfilerInfo6 e
     then SetEventMask2 (initialize_mask e ct) COR_PRF_HIGH_ADD_ASSEMBLY_REFERENCES
     else SetEventMask (initialize_mask e ct))"

definition mask_accepted :: "'m clr_env \<Rightarrow> bool \<Rightarrow> bool" where
  "mask_accepted e ct \<longleftrightarrow> \<not> FAILED (if e_ICorProfilerInfo6 e
     then e_SetEventMask2 e (initialize_mask e ct) COR_PRF_HIGH_ADD_ASSEMBLY_REFERENCES
     else e_SetEventMask e (initialize_mask e ct))"

text \<open>The mode of the first call.\<close>

definition first_mode :: "'m clr_env \<Rightarrow> bool" where
  "first_mode e = fst (IsCallTargetEnabled (e_arm e) (e_getenv e) (e_ICorProfilerInfo6 e) statics_initial)"

lemma attach_result:
  fixes p :: "'m CorProfiler"
  assumes st: "s_EnableInlining (static_switches p) = -1" "s_DisableOptimizations (static_switches p) = -1"
    and net: "is_net46_or_greater p = e_ICorProfilerInfo6 e" and att: "\<not> is_attached p"
    and r: "initialize_attach e ct p = (hr, q)"
  shows "requests q = requests p @ [mask_request e ct]"
    and "hr = (if mask_accepted e ct then S_OK else E_FAIL_code)" and "is_attached q = mask_accepted e ct"
proof -
  have inl: "fst (EnableInlining (e_getenv e) ct (static_switches p)) =
      (if is_true (GetEnvironmentValue (e_getenv e) clr_enable_inlining) then True
       else if is_false (GetEnvironmentValue (e_getenv e) clr_enable_inlining) then False else ct)"
    using st(1) by (simp add: EnableInlining_def ToBooleanWithDefault_def Let_def)
  have opt: "s_DisableOptimizations (snd (EnableInlining g d s)) = s_DisableOptimizations s" for g d s
    by (simp add: EnableInlining_def case_prod_beta Let_def)
  have opt': "fst (DisableOptimizations (e_getenv e) s) = is_true (GetEnvironmentValue (e_getenv e) clr_disable_optimizations)"
    if "s_DisableOptimizations s = -1" for s
    using that by (simp add: DisableOptimizations_def CheckIfTrue_def Let_def)
  define inlining where "inlining = fst (EnableInlining (e_getenv e) ct (static_switches p))"
  define no_opt where "no_opt = is_true (GetEnvironmentValue (e_getenv e) clr_disable_optimizations)"
  define p1 where "p1 = p\<lparr>static_switches := snd (EnableInlining (e_getenv e) ct (static_switches p))\<rparr>"
  define p2 where "p2 = p1\<lparr>static_switches := snd (DisableOptimizations (e_getenv e) (static_switches p1))\<rparr>"
  define p3 where "p3 = (if is_true (GetEnvironmentValue (e_getenv e) domain_neutral_instrumentation)
               then p2\<lparr>instrument_domain_neutral_assemblies := True\<rparr> else p2)"
  have e1: "read_static (EnableInlining (e_getenv e) ct) p = (inlining, p1)"
    by (simp add: read_static_def case_prod_beta inlining_def p1_def)
  have "s_DisableOptimizations (static_switches p1) = -1" using st(2) by (simp add: p1_def opt)
  from opt' [OF this] have e2: "read_static (DisableOptimizations (e_getenv e)) p1 = (no_opt, p2)"
    by (simp add: read_static_def case_prod_beta no_opt_def p2_def)
  have mask: "(let m = event_mask_base; m = (if ct then m OR COR_PRF_ENABLE_REJIT else m);
      m = (if \<not> inlining then m OR COR_PRF_DISABLE_INLINING else m)
      in if no_opt then m OR COR_PRF_DISABLE_OPTIMIZATIONS else m) = initialize_mask e ct"
    unfolding initialize_mask_def Let_def inl [symmetric] inlining_def [symmetric] no_opt_def [symmetric]
    by (simp add: or.assoc)
  have same: "is_net46_or_greater p3 = e_ICorProfilerInfo6 e" "requests p3 = requests p" "\<not> is_attached p3"
    using net att by (simp_all add: p3_def p2_def p1_def)
  define p4 where "p4 = request_clr (mask_request e ct) p3"
  have eq: "initialize_attach e ct p =
    (if \<not> mask_accepted e ct then (E_FAIL_code, p4)
         else
           let p = p4\<lparr>runtime_information := GetRuntimeInformation (e_runtime e)\<rparr>;
               p = (if e_process_name e = WStr ''w3wp.exe'' \<or> e_process_name e = WStr ''iisexpress.exe''
                    then p\<lparr>is_desktop_iis := is_desktop (runtime_information p)\<rparr> else p)
           in (S_OK, p\<lparr>is_attached := True\<rparr>))"
    unfolding initialize_attach_def Let_def e1 e2 prod.case p3_def [symmetric] same(1)
    by (cases "e_ICorProfilerInfo6 e")
      (simp_all add: mask [unfolded Let_def] mask_accepted_def mask_request_def p4_def)
  show "requests q = requests p @ [mask_request e ct]" "hr = (if mask_accepted e ct then S_OK else E_FAIL_code)"
    "is_attached q = mask_accepted e ct"
    using r same unfolding eq by (auto simp: p4_def request_clr_def Let_def split: if_splits)
qed

lemma first_mode_read:
  assumes "s_IsCallTargetEnabled st = -1"
  shows "fst (IsCallTargetEnabled (e_arm e) (e_getenv e) (e_ICorProfilerInfo6 e) st) = first_mode e"
  using assms by (simp add: first_mode_def IsCallTargetEnabled_def ToBooleanWithDefault_def Let_def statics_initial_def)

lemma mode_result:
  fixes q :: "'m CorProfiler"
  assumes q: "detached_start q" "is_net46_or_greater q = e_ICorProfilerInfo6 e"
    and r: "initialize_mode e q = (hr, p)"
  shows "hr = (if initialize_integrations_of e (first_mode e) \<noteq> [] \<and> mask_accepted e (first_mode e) then S_OK else E_FAIL_code)"
    and "is_attached p \<longleftrightarrow> hr = S_OK" and "rejit_handler p \<noteq> None \<longleftrightarrow> first_mode e"
    and "requests p = (if first_mode e then [StartRejitThread] else [])
      @ (if initialize_integrations_of e (first_mode e) \<noteq> [] then [mask_request e (first_mode e)] else [])"
proof -
  obtain ct q1 where q1: "calltarget_mode e q = (ct, q1)" by fastforce
  have un: "unread (static_switches q)" using q(1) by (simp add: detached_start_def)
  then have ct: "ct = first_mode e"
    using first_mode_read [of "static_switches q" e] q1 q(2)
    by (simp add: calltarget_mode_def read_static_def case_prod_beta unread_def)
  have q1': "q1 = q\<lparr>static_switches := snd (IsCallTargetEnabled (e_arm e) (e_getenv e) (is_net46_or_greater q) (static_switches q))\<rparr>"
    using q1 by (auto simp: calltarget_mode_def read_static_def case_prod_beta)
  have s1: "s_EnableInlining (static_switches q1) = -1" "s_DisableOptimizations (static_switches q1) = -1"
    using un by (simp_all add: q1' IsCallTargetEnabled_def case_prod_beta Let_def unread_def)
  define r0 where "r0 = (if ct then request_clr StartRejitThread (q1\<lparr>rejit_handler := Some (RejitHandler_new (e_rewriter e))\<rparr>)
               else q1\<lparr>rejit_handler := None\<rparr>)\<lparr>integration_methods := initialize_integrations_of e ct\<rparr>"
  have r0: "static_switches r0 = static_switches q1" "is_net46_or_greater r0 = e_ICorProfilerInfo6 e"
    "\<not> is_attached r0" "rejit_handler r0 \<noteq> None \<longleftrightarrow> ct" "requests r0 = (if ct then [StartRejitThread] else [])"
    "integration_methods r0 = initialize_integrations_of e ct"
    using q by (simp_all add: r0_def q1' request_clr_def detached_start_def)
  obtain ns r1 where r1: "read_static (IsNetstandardEnabled (e_getenv e)) r0 = (ns, r1)" by fastforce
  define r2 where "r2 = (if \<not> ns then r1\<lparr>integration_methods :=
      FilterIntegrationsByTargetAssemblyName (integration_methods r1) [WStr ''netstandard'']\<rparr> else r1)"
  have eq: "initialize_mode e q =
      (if integration_methods r0 = [] then (E_FAIL_code, r0) else initialize_attach e ct r2)"
    by (simp only: initialize_mode_def q1 Let_def prod.case r0_def [symmetric] r1 r2_def [symmetric])
  have r1': "r1 = r0\<lparr>static_switches := snd (IsNetstandardEnabled (e_getenv e) (static_switches r0))\<rparr>"
    using r1 by (auto simp: read_static_def case_prod_beta)
  have s2: "s_EnableInlining (static_switches r2) = -1" "s_DisableOptimizations (static_switches r2) = -1"
    using s1 by (simp_all add: r2_def r1' r0(1) IsNetstandardEnabled_def case_prod_beta Let_def)
  have keep: "is_net46_or_greater r2 = e_ICorProfilerInfo6 e" "\<not> is_attached r2"
    "rejit_handler r2 = rejit_handler r0" "requests r2 = requests r0"
    using r0 by (simp_all add: r2_def r1')
  have "hr = (if initialize_integrations_of e ct \<noteq> [] \<and> mask_accepted e ct then S_OK else E_FAIL_code)
      \<and> (is_attached p \<longleftrightarrow> hr = S_OK) \<and> (rejit_handler p \<noteq> None \<longleftrightarrow> ct)
      \<and> requests p = (if ct then [StartRejitThread] else [])
      @ (if initialize_integrations_of e ct \<noteq> [] then [mask_request e ct] else [])"
  proof (cases "initialize_integrations_of e ct = []")
    case True
    then have "hr = E_FAIL_code" "p = r0" using r unfolding eq r0(6) by simp_all
    then show ?thesis using True r0 by simp
  next
    case False
    then have a: "initialize_attach e ct r2 = (hr, p)" using r unfolding eq r0(6) by simp
    have "rejit_handler p = rejit_handler r0"
      using initialize_attach_keeps [of r2 e ct] a keep(3) by (simp add: kept_by_attach_def)
    then show ?thesis
      using attach_result [OF s2 keep(1,2) a] False r0(4,5) keep(4) by simp
  qed
  then show "hr = (if initialize_integrations_of e (first_mode e) \<noteq> [] \<and> mask_accepted e (first_mode e) then S_OK else E_FAIL_code)"
    "is_attached p \<longleftrightarrow> hr = S_OK" "rejit_handler p \<noteq> None \<longleftrightarrow> first_mode e"
    "requests p = (if first_mode e then [StartRejitThread] else [])
      @ (if initialize_integrations_of e (first_mode e) \<noteq> [] then [mask_request e (first_mode e)] else [])"
    unfolding ct by blast+
qed

lemma Initialize_outcome:
  assumes "Initialize e (CorProfiler_new cor metadata) = (hr, p)"
  shows "(hr = S_OK \<longleftrightarrow> process_accepted e \<and> initialize_integrations_of e (first_mode e) \<noteq> [] \<and> mask_accepted e (first_mode e))
    \<and> (hr = S_OK \<or> hr = E_FAIL_code) \<and> (is_attached p \<longleftrightarrow> hr = S_OK)
    \<and> (if hr = S_OK then (rejit_handler p \<noteq> None \<longleftrightarrow> first_mode e)
         \<and> requests p = (if first_mode e then [StartRejitThread] else []) @ [mask_request e (first_mode e)]
       else True)"
  using assms
proof (cases rule: Initialize_cases)
  case refused
  then show ?thesis by (simp add: detached_start_def)
next
  case (mode q)
  show ?thesis using mode_result [OF mode(2-4)] mode(1) by (simp split: if_splits)
qed

text \<open>A failure after the mode has been chosen leaves the thread of the handler running in a profiler
  that the CLR unloads.\<close>

lemma Initialize_leaves_thread:
  assumes "Initialize e (CorProfiler_new cor metadata) = (hr, p)" "process_accepted e" "first_mode e"
    and "initialize_integrations_of e True = []"
  shows "hr = E_FAIL_code" "rejit_handler p \<noteq> None" "requests p = [StartRejitThread]"
proof (atomize (full), use assms(1) in \<open>cases rule: Initialize_cases\<close>)
  case refused
  then show "hr = E_FAIL_code \<and> rejit_handler p \<noteq> None \<and> requests p = [StartRejitThread]" using assms(2) by simp
next
  case (mode q)
  show "hr = E_FAIL_code \<and> rejit_handler p \<noteq> None \<and> requests p = [StartRejitThread]"
    using mode_result [OF mode(2-4)] assms(3,4) by simp
qed

section \<open>The startup hook\<close>

text \<open>The application domains that a hook has been put into.\<close>

fun hook_domain :: "request \<Rightarrow> u64 option" where
  "hook_domain (InsertStartupHook _ _ d) = Some d"
| "hook_domain _ = None"

definition hook_domains :: "'m CorProfiler \<Rightarrow> u64 list" where
  "hook_domains p = List.map_filter hook_domain (requests p)"

text \<open>At most one hook per callback, in a domain that had none and is known to have one from then on.\<close>

definition hook_step :: "'m CorProfiler \<Rightarrow> 'm CorProfiler \<Rightarrow> bool" where
  "hook_step p q \<longleftrightarrow> first_jit_compilation_app_domains p \<subseteq> first_jit_compilation_app_domains q
     \<and> (hook_domains q = hook_domains p
        \<or> (\<exists>d. hook_domains q = hook_domains p @ [d] \<and> d \<notin> first_jit_compilation_app_domains p
             \<and> d \<in> first_jit_compilation_app_domains q))"

definition no_hook :: "'m CorProfiler \<Rightarrow> 'm CorProfiler \<Rightarrow> bool" where
  "no_hook p q \<longleftrightarrow> first_jit_compilation_app_domains p \<subseteq> first_jit_compilation_app_domains q
     \<and> hook_domains q = hook_domains p"

lemma no_hook_refl [simp]: "no_hook p p"
  by (simp add: no_hook_def)

lemma no_hook_trans: "no_hook p q \<Longrightarrow> no_hook q r \<Longrightarrow> no_hook p r"
  by (auto simp: no_hook_def)

lemma no_hook_step: "no_hook p q \<Longrightarrow> hook_step p q"
  by (simp add: no_hook_def hook_step_def)

lemma hook_step_no_hook: "hook_step p q \<Longrightarrow> no_hook q r \<Longrightarrow> hook_step p r"
  by (auto simp: no_hook_def hook_step_def)

lemma hook_domains_request_clr [simp]:
  "hook_domains (request_clr r p) = hook_domains p @ (case hook_domain r of None \<Rightarrow> [] | Some d \<Rightarrow> [d])"
  by (simp add: hook_domains_def request_clr_def map_filter_def split: option.splits)

lemma request_clr_domains [simp]:
  "first_jit_compilation_app_domains (request_clr r p) = first_jit_compilation_app_domains p"
  by (simp add: request_clr_def)

lemma hook_domains_simps [simp]:
  "hook_domains (p\<lparr>static_switches := x1\<rparr>) = hook_domains p"
  "hook_domains (p\<lparr>rejit_handler := x2\<rparr>) = hook_domains p"
  "hook_domains (p\<lparr>modules_store := x3\<rparr>) = hook_domains p"
  "hook_domains (p\<lparr>next_address := x4\<rparr>) = hook_domains p"
  "hook_domains (p\<lparr>module_id_to_info_map := x5\<rparr>) = hook_domains p"
  "hook_domains (p\<lparr>first_jit_compilation_app_domains := x6\<rparr>) = hook_domains p"
  "hook_domains (p\<lparr>managed_profiler_loaded_app_domains := x6\<rparr>) = hook_domains p"
  "hook_domains (p\<lparr>managed_profiler_loaded_domain_neutral := x7\<rparr>) = hook_domains p"
  "hook_domains (p\<lparr>corAssemblyProperty := x8\<rparr>) = hook_domains p"
  "hook_domains (p\<lparr>corlib_module_loaded := x7\<rparr>) = hook_domains p"
  "hook_domains (p\<lparr>corlib_app_domain_id := x9\<rparr>) = hook_domains p"
  "hook_domains (p\<lparr>clr_metadata := x10\<rparr>) = hook_domains p"
  "hook_domains (p\<lparr>is_attached := x7\<rparr>) = hook_domains p"
  "hook_domains (p\<lparr>instrument_domain_neutral_assemblies := x7\<rparr>) = hook_domains p"
  by (simp_all add: hook_domains_def)

lemma calltarget_mode_no_hook: "calltarget_mode e p = (ct, q) \<Longrightarrow> no_hook p q"
  using calltarget_mode_snd [of e p] by (auto simp: no_hook_def)

lemma RequestRejit_no_hook:
  assumes "CallTarget_RequestRejitForModule e i a ims p = Inr (n, q)"
  shows "no_hook p q"
proof -
  have "q = p \<or> (\<exists>h item. q = request_clr (EnqueueRejit item) (p\<lparr>rejit_handler := h\<rparr>))"
    using assms by (auto simp: CallTarget_RequestRejitForModule_def Let_def bindE_eq_Inr
        split: option.splits if_splits)
  then show ?thesis by (auto simp: no_hook_def)
qed

lemma register_module_no_hook:
  assumes "register_module e i mm ct p = Inr (hr, q)"
  shows "no_hook p q"
proof -
  obtain a p1 where p1: "store_module i mm p = (a, p1)" by fastforce
  have "no_hook p p1" using p1 by (auto simp: store_module_def Let_def no_hook_def)
  moreover obtain n p2 where p2: "(if ct then CallTarget_RequestRejitForModule e i a (mm_integrations mm) p1 else Inr (0, p1))
      = Inr (n, p2)" and "q = p2 \<or> (\<exists>m. q = p2\<lparr>clr_metadata := m\<rparr>)"
    using assms by (auto simp: register_module_def p1 Let_def bindE_eq_Inr split: if_splits)
  then have "no_hook p2 q" by (auto simp: no_hook_def)
  moreover have "no_hook p1 p2" using p2 RequestRejit_no_hook by (auto split: if_splits)
  ultimately show ?thesis by (blast intro: no_hook_trans)
qed

lemma instrument_module_no_hook:
  assumes "instrument_module e i asm p = Inr (hr, q)"
  shows "no_hook p q"
proof -
  obtain ct p1 where p1: "calltarget_mode e p = (ct, p1)" by fastforce
  have "q = p1 \<or> (\<exists>mm. register_module e i mm ct p1 = Inr (hr, q))"
    using assms by (auto simp: instrument_module_def p1 Let_def split: if_splits option.splits)
  then show ?thesis
    using calltarget_mode_no_hook [OF p1] register_module_no_hook no_hook_trans by blast
qed

lemma ModuleLoadFinished_no_hook:
  assumes "ModuleLoadFinished e i h p = Inr (hr, q)"
  shows "no_hook p q"
proof -
  have "no_hook p r" if "load_corlib e i asm p = Inr (hr, r)" for asm r
    using that by (auto simp: load_corlib_def Let_def no_hook_def split: option.splits)
  moreover have "no_hook p (p\<lparr>first_jit_compilation_app_domains := insert d (first_jit_compilation_app_domains p)\<rparr>)" for d
    by (auto simp: no_hook_def)
  ultimately show ?thesis
    using assms by (auto simp: ModuleLoadFinished_def Let_def split: if_splits intro: instrument_module_no_hook)
qed

lemma ModuleUnloadStarted_no_hook: "ModuleUnloadStarted i p = Inr (hr, q) \<Longrightarrow> no_hook p q"
  by (auto simp: ModuleUnloadStarted_def Let_def no_hook_def split: if_splits option.splits)

lemma rewrite_calls_no_hook: "no_hook p (rewrite_calls e i tok a mm caller p)"
  by (simp add: rewrite_calls_def Let_def case_prod_beta no_hook_def)

lemma insert_startup_hook_step:
  "mm_app_domain_id mm \<notin> first_jit_compilation_app_domains p \<Longrightarrow> hook_step p (snd (insert_startup_hook e i tok mm p))"
  by (auto simp: insert_startup_hook_def Let_def hook_step_def)

lemma jit_method_step: "hook_step p (jit_method e ct i tok a mm caller p)"
proof -
  define r where "r = (if valid_startup_hook_callsite (is_desktop_iis p) (mm_assemblyName mm) caller
        \<and> mm_app_domain_id mm \<notin> first_jit_compilation_app_domains p
      then insert_startup_hook e i tok mm p else (True, p))"
  have "hook_step p (snd r)"
    by (simp add: r_def insert_startup_hook_step no_hook_step)
  then have "hook_step p (rewrite_calls e i tok a mm caller (snd r))"
    by (rule hook_step_no_hook [OF _ rewrite_calls_no_hook])
  then show ?thesis
    using \<open>hook_step p (snd r)\<close> by (simp add: jit_method_def Let_def r_def [symmetric] case_prod_beta)
qed

lemma JITCompilationStarted_step:
  assumes "JITCompilationStarted e f safe p = Inr (hr, q)"
  shows "hook_step p q"
proof -
  obtain ct p1 where p1: "calltarget_mode e p = (ct, p1)" by fastforce
  have "q = p \<or> q = p1 \<or> (\<exists>i tok a mm caller. q = jit_method e ct i tok a mm caller p1)"
    using assms by (auto simp: JITCompilationStarted_def p1 Let_def bindE_eq_Inr split: if_splits option.splits) blast+
  moreover have "no_hook p p1" by (rule calltarget_mode_no_hook [OF p1])
  moreover have "hook_step p (jit_method e ct i tok a mm caller p1)" for i tok a mm caller
    using jit_method_step [of p1 e ct i tok a mm caller] calltarget_mode_snd [of e p] p1 by (auto simp: hook_step_def)
  ultimately show ?thesis using no_hook_step [of p p] no_hook_step [of p p1] by auto
qed

lemma GetReJITParameters_no_hook:
  assumes "GetReJITParameters i md fc p = Inr (hr, q)"
  shows "no_hook p q"
proof -
  have "q = p \<or> (\<exists>h. q = p\<lparr>rejit_handler := h\<rparr>)"
    using assms by (auto simp: GetReJITParameters_def GetReJITParameters_lookup_def GetReJITParameters_notify_def
        bindE_eq_Inr split: if_splits option.splits sum.splits)
  then show ?thesis by (auto simp: no_hook_def)
qed

lemma AssemblyLoadFinished_no_hook: "no_hook p (snd (AssemblyLoadFinished e i h p))"
  by (simp add: AssemblyLoadFinished_def Let_def no_hook_def split: option.splits)

lemma other_callbacks_no_hook:
  "no_hook p (snd (Shutdown p))" "no_hook p (snd (ProfilerDetachSucceeded p))"
  "no_hook p (snd (GetAssemblyReferences e path p))"
  by (simp_all add: Shutdown_def ProfilerDetachSucceeded_def GetAssemblyReferences_def Let_def no_hook_def
      split: option.splits)

lemma callback_hook_step:
  assumes "callback e ev p = Inr (hr, q)"
  shows "hook_step p q"
proof (cases ev)
  case (JITCompilation f safe)
  then show ?thesis using assms JITCompilationStarted_step by simp
next
  case (AssemblyLoad i h)
  then have "q = snd (AssemblyLoadFinished e i h p)" using assms by simp
  then show ?thesis by (simp only: no_hook_step [OF AssemblyLoadFinished_no_hook])
next
  case ShutdownEvent
  then have "q = snd (Shutdown p)" using assms by simp
  then show ?thesis by (simp only: no_hook_step [OF other_callbacks_no_hook(1)])
next
  case DetachEvent
  then have "q = snd (ProfilerDetachSucceeded p)" using assms by simp
  then show ?thesis by (simp only: no_hook_step [OF other_callbacks_no_hook(2)])
next
  case (AssemblyReferences path)
  then have "q = snd (GetAssemblyReferences e path p)" using assms by simp
  then show ?thesis by (simp only: no_hook_step [OF other_callbacks_no_hook(3)])
qed (use assms in \<open>auto intro!: no_hook_step intro: ModuleLoadFinished_no_hook ModuleUnloadStarted_no_hook GetReJITParameters_no_hook\<close>)

lemma Initialize_no_hooks:
  assumes "Initialize e (CorProfiler_new cor metadata) = (hr, p)"
  shows "hook_domains p = []"
  using assms
proof (cases rule: Initialize_cases)
  case refused
  then show ?thesis by (simp add: detached_start_def hook_domains_def map_filter_def)
next
  case (mode q)
  show ?thesis using mode_result(4) [OF mode(2-4)] by (simp add: hook_domains_def map_filter_def mask_request_def)
qed

lemma history_hooks:
  "history init_env cor metadata p
    \<Longrightarrow> distinct (hook_domains p) \<and> set (hook_domains p) \<subseteq> first_jit_compilation_app_domains p"
proof (induction rule: history.induct)
  case (initialized hr p)
  then show ?case by (simp add: Initialize_no_hooks)
next
  case (called p e ev hr q)
  show ?case using callback_hook_step [OF called(2)] called.IH by (auto simp: hook_step_def)
qed

section \<open>After the end\<close>

text \<open>A sequence of callbacks, each with the CLR it sees.\<close>

primrec run :: "('m clr_env \<times> event) list \<Rightarrow> 'm CorProfiler \<Rightarrow> hr + 'm CorProfiler" where
  "run [] p = Inr p"
| "run (x # xs) p = bindE (callback (fst x) (snd x) p) (\<lambda>(hr, q). run xs q)"

fun reference_event :: "event \<Rightarrow> bool" where
  "reference_event (AssemblyReferences _) = True"
| "reference_event _ = False"

lemma callback_detached:
  assumes "\<not> is_attached p" "rejit_handler p = None" "\<not> reference_event ev"
  shows "callback e ev p = Inr (S_OK, p)"
  using assms by (cases ev) (auto simp: AssemblyLoadFinished_def ModuleLoadFinished_def ModuleUnloadStarted_def
      Shutdown_def ProfilerDetachSucceeded_def JITCompilationStarted_def GetReJITParameters_def
      GetReJITParameters_lookup_def)

lemma run_detached:
  "\<not> is_attached p \<Longrightarrow> rejit_handler p = None \<Longrightarrow> list_all (\<lambda>x. \<not> reference_event (snd x)) xs \<Longrightarrow> run xs p = Inr p"
  by (induction xs) (simp_all add: callback_detached)

section \<open>Which methods are requested\<close>

lemma candidates_set:
  assumes "candidates fuel imp rep methodDefs = Inr xs"
  shows "set xs = {(md, fi, rep) | md fi. md \<in> set methodDefs
     \<and> rejit_candidate fuel imp (signature_types (target_method rep)) md = Inr (Some fi)}"
  using assms
proof (induction methodDefs arbitrary: xs)
  case (Cons md mds)
  obtain found rest where f: "rejit_candidate fuel imp (signature_types (target_method rep)) md = Inr found"
    "candidates fuel imp rep mds = Inr rest"
    "xs = (case found of None \<Rightarrow> rest | Some functionInfo \<Rightarrow> (md, functionInfo, rep) # rest)"
    using Cons.prems by (auto simp: bindE_eq_Inr)
  show ?case using f Cons.IH [OF f(2)] by (auto split: option.splits)
qed simp

text \<open>The specification: a method is requested for an integration when the integration is for this
  assembly and its version, and the method has the name and the parameters of the target.\<close>

definition release :: "Version \<Rightarrow> u16 \<times> u16 \<times> u16" where
  "release v = (major v, minor v, build v)"

definition type_fits :: "(u32 \<Rightarrow> wstring) \<Rightarrow> FunctionMethodArgument \<Rightarrow> wstring \<Rightarrow> bool" where
  "type_fits type_names a t \<longleftrightarrow> (\<exists>n. GetTypeTokName type_names a = Inr n \<and> (t = n \<or> t = WStr ''_''))"

definition method_fits :: "nat \<Rightarrow> metadata_import \<Rightarrow> wstring list \<Rightarrow> u32 \<Rightarrow> FunctionInfo \<Rightarrow> bool" where
  "method_fits fuel imp types md fi \<longleftrightarrow> (\<exists>caller sig.
     GetFunctionInfo fuel imp md = Inr caller \<and> FunctionInfo_IsValid caller
     \<and> TryParse (fms_pbBase (fi_method_signature caller)) = Inr sig \<and> fi = caller\<lparr>fi_method_signature := sig\<rparr>
     \<and> (ucast (numberOfArguments sig) :: u64) = of_nat (length types) - 1
     \<and> list_all2 (type_fits (type_name_of fuel imp)) (fms_params sig) (take (length (fms_params sig)) (tl types)))"

definition requested :: "nat \<Rightarrow> 'm module_interfaces \<Rightarrow> wstring \<Rightarrow> MethodReplacement \<Rightarrow> u32 \<Rightarrow> FunctionInfo \<Rightarrow> bool" where
  "requested fuel mi assemblyName rep md fi \<longleftrightarrow>
     (let target = target_method rep; v = am_version (assembly_metadata_of mi)
      in name (assembly target) = assemblyName \<and> action (wrapper_method rep) = WStr ''CallTargetModification''
       \<and> release (min_version target) \<le> release v \<and> release v \<le> release (max_version target)
       \<and> (\<exists>typeDef. FindTypeDefByName (mi_import mi) (type_name target) = Some typeDef
            \<and> md \<in> set (mi_methods_with_name mi typeDef (StringUtil.c_str (method_name target))))
       \<and> method_fits fuel (mi_import mi) (signature_types target) md fi)"

lemma release_le: "release v \<le> release w \<longleftrightarrow> \<not> Version_lt w v"
  by (auto simp: release_def Version_lt_def)

lemma integration_applies_iff:
  "integration_applies assemblyName v rep \<longleftrightarrow> name (assembly (target_method rep)) = assemblyName
     \<and> action (wrapper_method rep) = WStr ''CallTargetModification''
     \<and> release (min_version (target_method rep)) \<le> release v \<and> release v \<le> release (max_version (target_method rep))"
  by (simp add: integration_applies_def calltarget_modification_action_def release_le Version_gt_lt)

lemma arguments_match_iff:
  "arguments_match type_names args types = Inr True
     \<longleftrightarrow> list_all2 (type_fits type_names) args (take (length args) types)"
  by (induction type_names args types rule: arguments_match.induct) (auto simp: type_fits_def split: sum.splits)

lemma rejit_candidate_iff: "rejit_candidate fuel imp types md = Inr (Some fi) \<longleftrightarrow> method_fits fuel imp types md fi"
proof (cases "GetFunctionInfo fuel imp md")
  case (Inr caller)
  show ?thesis
  proof (cases "TryParse (fms_pbBase (fi_method_signature caller))")
    case (Inl x)
    then show ?thesis using Inr by (cases x) (auto simp: rejit_candidate_def method_fits_def)
  next
    case Inr2: (Inr sig)
    show ?thesis
      unfolding rejit_candidate_def method_fits_def arguments_match_iff [symmetric]
      by (auto simp: Inr Inr2 bindE_eq_Inr)
  qed
qed (simp add: rejit_candidate_def method_fits_def)

lemma requested_iff:
  "requested fuel mi assemblyName rep md fi \<longleftrightarrow>
     integration_applies assemblyName (am_version (assembly_metadata_of mi)) rep
     \<and> (case FindTypeDefByName (mi_import mi) (type_name (target_method rep)) of
          None \<Rightarrow> False
        | Some typeDef \<Rightarrow> md \<in> set (mi_methods_with_name mi typeDef (StringUtil.c_str (method_name (target_method rep)))))
     \<and> rejit_candidate fuel (mi_import mi) (signature_types (target_method rep)) md = Inr (Some fi)"
  by (auto simp: requested_def Let_def integration_applies_iff rejit_candidate_iff split: option.splits)

lemma candidates_of_set:
  assumes "candidates_of fuel mi assemblyName rep = Inr xs"
  shows "set xs = {(md, fi, rep) | md fi. requested fuel mi assemblyName rep md fi}"
  using assms by (auto simp: candidates_of_def requested_iff candidates_set split: if_splits option.splits)

lemma all_candidates_set:
  assumes "all_candidates fuel mi assemblyName ims = Inr xs"
  shows "set xs = {(md, fi, replacement im) | md fi im. im \<in> set ims
     \<and> requested fuel mi assemblyName (replacement im) md fi}"
  using assms
proof (induction ims arbitrary: xs)
  case (Cons im ims)
  obtain found rest where f: "candidates_of fuel mi assemblyName (replacement im) = Inr found"
    "all_candidates fuel mi assemblyName ims = Inr rest" "xs = found @ rest"
    using Cons.prems by (auto simp: bindE_eq_Inr)
  show ?case unfolding f(3) set_append candidates_of_set [OF f(1)] Cons.IH [OF f(2)] by auto
qed simp

text \<open>What the handler knows about the registered methods.\<close>

definition method_known :: "RejitHandler \<Rightarrow> ModuleID \<Rightarrow> address \<Rightarrow> u32 \<Rightarrow> bool" where
  "method_known h i a md \<longleftrightarrow> (\<exists>m x. m_modules h i = Some m \<and> m_metadata m = a \<and> m_methods m md = Some x
     \<and> m_functionInfo x \<noteq> None \<and> m_methodReplacement x \<noteq> None)"

lemma register_method_known:
  "method_known (register_method i a md fi r h) i a md"
  "method_known h i a md' \<Longrightarrow> method_known (register_method i a md fi r h) i a md'"
  by (auto simp: method_known_def register_method_def GetOrAddModule_cases GetOrAddMethod_def Let_def put_module_def
      put_method_def SetModuleMetadata_def SetFunctionInfo_def SetMethodReplacement_def split: option.splits)

lemma register_all_known:
  "md \<in> fst ` set found \<or> method_known h i a md \<Longrightarrow> method_known (register_all i a found h) i a md"
proof (induction found arbitrary: h)
  case (Cons x found)
  obtain md' fi r where x: "x = (md', fi, r)" by (cases x)
  have "register_all i a (x # found) h = register_all i a found (register_method i a md' fi r h)"
    by (simp add: register_all_def x)
  then show ?case
    using Cons.prems Cons.IH [of "register_method i a md' fi r h"] register_method_known x by auto
qed (simp add: register_all_def)

end
