(* ===== verification/CorProfilerTheorems.thy ===== *)
theory CorProfilerTheorems
  imports CorProfilerProperties
begin

text \<open>
  The properties of the profiler as a state machine, with a small profiler to evaluate them on:
  one integration file, one module, one method to instrument.
\<close>

section \<open>A profiler to evaluate the callbacks with\<close>

text \<open>One integration file, whose integration instruments \<open>Outer+Inner.Run\<close> of \<open>Some.Assembly\<close>; the
  call-target mode is switched on.\<close>

definition demo_target :: MethodReference where
  "demo_target = (demo_method_reference [])\<lparr>type_name := WStr ''Outer+Inner'',
     signature_types := [WStr ''System.Void'', WStr ''System.Int32'']\<rparr>"

definition demo_instrumented :: Integration where
  "demo_instrumented = \<lparr>integration_name = WStr ''Some'', method_replacements =
     [\<lparr>caller_method = demo_method_reference [], target_method = demo_target,
       wrapper_method = demo_method_reference calltarget_modification_action\<rparr>]\<rparr>"

definition demo_getenv :: environment where
  "demo_getenv nm = (if nm = CStr ''DD_INTEGRATIONS'' then Some (CStr ''file'')
     else if nm = CStr ''DD_TRACE_CALLTARGET_ENABLED'' then Some (CStr ''1'') else None)"

definition demo_assembly_props :: assembly_props where
  "demo_assembly_props tok = Some (13, WStr ''Some.Assembly'', 1, 2, 3, 4)"

definition demo_interfaces :: "metadata_import \<Rightarrow> (u32 \<rightharpoonup> pinvoke) module_interfaces" where
  "demo_interfaces imp = \<lparr>mi_import = imp, mi_assembly_from_scope = Some 0x20000001,
     mi_assembly_props = demo_assembly_props, mi_assembly_ref_props = (\<lambda>_. None), mi_assembly_refs = [],
     mi_cor_props = (\<lambda>_ cor. cor), mi_module_from_scope = Some 1, mi_module_version_id = Some 1,
     mi_methods_with_name = (\<lambda>ty nm. if nm = WStr ''Run'' then [0x06000001] else []),
     mi_pinvoke = demo_pinvoke\<rparr>"

definition demo_env :: "metadata_import \<Rightarrow> (u32 \<rightharpoonup> pinvoke) clr_env" where
  "demo_env imp = \<lparr>e_windows = False, e_arm = False, e_bit64 = True, e_getenv = demo_getenv,
     e_process_name = WStr ''app'', e_ICorProfilerInfo4 = True, e_ICorProfilerInfo6 = True,
     e_ICorProfilerInfo12 = False, e_SetEventMask = (\<lambda>_. S_OK), e_SetEventMask2 = (\<lambda>_ _. S_OK),
     e_runtime = Some (2, 5, 0, 0, 0), e_json = demo_api, e_parse = AssemblyReference_parse,
     e_parser = (\<lambda>_. Inr (JArray [integration_json name demo_instrumented])), e_open_file = Some,
     e_rewriter = (\<lambda>_ _. S_OK), e_assembly_info = (\<lambda>_. Some (13, WStr ''Some.Assembly'', 7, 5)),
     e_app_domain_info = (\<lambda>_. Some (6, WStr ''domain'')), e_module_info = (\<lambda>_. Some (4, WStr ''path'', 6, 0)),
     e_module_metadata = (\<lambda>_. Some (demo_interfaces imp)), e_function_info = (\<lambda>_. Some (5, 0x06000001)),
     e_fuel = Suc (Suc (Suc (Suc 0))), e_uninit = 0, e_RunILStartupHook = (\<lambda>_ _. S_OK), e_AddIISPreStartInitFlags = (\<lambda>_ _. S_OK),
     e_ProcessInsertionCalls = (\<lambda>_ _ _ c. (S_OK, c)), e_ProcessReplacementCalls = (\<lambda>_ _ _ c. (S_OK, c)),
     e_AddAssemblyReference = (\<lambda>_. S_OK)\<rparr>"

definition demo_cor :: AssemblyProperty where
  "demo_cor = \<lparr>cor_public_key = [], cor_hash_alg = 0, cor_version = Version 4 0 0 0, cor_locale = [],
     cor_name = [], cor_flags = 0\<rparr>"

definition demo_started :: "metadata_import \<Rightarrow> (u32 \<rightharpoonup> pinvoke) CorProfiler" where
  "demo_started imp = snd (Initialize (demo_env imp) (CorProfiler_new demo_cor Map.empty))"

text \<open>The environment: names and values in ASCII need no conversion.\<close>

definition plain :: "string \<Rightarrow> bool" where
  "plain s \<longleftrightarrow> ascii (WStr s) \<and> ascii (CStr s)"

lemma ToString_WStr: "plain s \<Longrightarrow> ToString (WStr s) = CStr s"
proof -
  assume p: "plain s"
  have "map ucast (WStr s) = (CStr s :: cstring)"
    unfolding WStr_def CStr_def map_map
  proof (rule map_cong [OF refl])
    fix c :: char
    show "(ucast \<circ> (\<lambda>c. of_nat (of_char c) :: u16)) c = (of_nat (of_char c) :: byte)"
      by (rule bit_word_eqI) (simp add: bit_simps)
  qed
  then show ?thesis using p by (simp add: ToString_ascii_bytes plain_def)
qed

lemma ToWSTRING_CStr: "plain s \<Longrightarrow> ToWSTRING (CStr s) = WStr s"
proof -
  assume p: "plain s"
  have "map ucast (CStr s) = (WStr s :: wstring)"
    unfolding WStr_def CStr_def map_map
  proof (rule map_cong [OF refl])
    fix c :: char
    have "(of_char c :: nat) < 256" by simp
    then show "(ucast \<circ> (\<lambda>c. of_nat (of_char c) :: byte)) c = (of_nat (of_char c) :: u16)"
      by (simp add: unsigned_of_nat take_bit_nat_eq_self)
  qed
  then show ?thesis using p by (simp add: ToWSTRING_ascii plain_def)
qed

lemma demo_variable:
  "plain s \<Longrightarrow> GetEnvironmentValue demo_getenv (WStr s) =
     (if s = ''DD_INTEGRATIONS'' then WStr ''file'' else if s = ''DD_TRACE_CALLTARGET_ENABLED'' then WStr ''1'' else [])"
proof -
  have v: "plain ''file''" "plain ''1''" by code_simp+
  have "Trim (WStr ''file'') = WStr ''file''" "Trim (WStr ''1'') = WStr ''1''" by code_simp+
  then show "plain s \<Longrightarrow> ?thesis" by (simp add: GetEnvironmentValue_def ToString_WStr demo_getenv_def ToWSTRING_CStr v)
qed

lemma demo_variables:
  "GetEnvironmentValue demo_getenv tracing_enabled = []"
  "GetEnvironmentValue demo_getenv debug_enabled = []"
  "GetEnvironmentValue demo_getenv dump_il_rewrite_enabled = []"
  "GetEnvironmentValue demo_getenv azure_app_services = []"
  "GetEnvironmentValue demo_getenv netstandard_enabled = []"
  "GetEnvironmentValue demo_getenv clr_enable_inlining = []"
  "GetEnvironmentValue demo_getenv clr_disable_optimizations = []"
  "GetEnvironmentValue demo_getenv domain_neutral_instrumentation = []"
  "GetEnvironmentValue demo_getenv include_process_names = []"
  "GetEnvironmentValue demo_getenv exclude_process_names = []"
  "GetEnvironmentValue demo_getenv disabled_integrations = []"
  "GetEnvironmentValue demo_getenv integrations_path = WStr ''file''"
  "GetEnvironmentValue demo_getenv calltarget_enabled = WStr ''1''"
  unfolding tracing_enabled_def debug_enabled_def dump_il_rewrite_enabled_def azure_app_services_def
    netstandard_enabled_def clr_enable_inlining_def clr_disable_optimizations_def domain_neutral_instrumentation_def
    include_process_names_def exclude_process_names_def disabled_integrations_def integrations_path_def calltarget_enabled_def
  by (subst demo_variable, code_simp, simp)+

lemma demo_lists:
  "GetEnvironmentValues_semicolon demo_getenv include_process_names = []"
  "GetEnvironmentValues_semicolon demo_getenv exclude_process_names = []"
  "GetEnvironmentValues_semicolon demo_getenv disabled_integrations = []"
  "GetEnvironmentValues_semicolon demo_getenv integrations_path = [WStr ''file'']"
proof -
  have "filter (\<lambda>s. s \<noteq> []) (map Trim (Split [] 59)) = []"
    "filter (\<lambda>s. s \<noteq> []) (map Trim (Split (WStr ''file'') 59)) = [WStr ''file'']" by code_simp+
  then show "GetEnvironmentValues_semicolon demo_getenv include_process_names = []"
    "GetEnvironmentValues_semicolon demo_getenv exclude_process_names = []"
    "GetEnvironmentValues_semicolon demo_getenv disabled_integrations = []"
    "GetEnvironmentValues_semicolon demo_getenv integrations_path = [WStr ''file'']"
    by (simp_all add: GetEnvironmentValues_semicolon_def GetEnvironmentValues_def demo_variables)
qed

lemma demo_instrumented_loadable: "loadable AssemblyReference_parse name demo_instrumented"
proof -
  have "name (AssemblyReference_parse (WStr ''Some.Assembly'')) = WStr ''Some.Assembly''" by code_simp
  moreover have "ascii (WStr ''Some'')" "ascii (WStr ''Some.Assembly'')" "ascii (WStr ''Some.Type'')"
    "ascii (WStr ''Run'')" "ascii (WStr ''System.Void'')" "ascii (WStr ''System.Int32'')" "ascii (WStr ''Outer+Inner'')"
    "ascii calltarget_modification_action"
    by code_simp+
  moreover have "WStr ''Some'' \<noteq> []" by (simp add: WStr_def)
  ultimately show ?thesis
    by (simp add: loadable_def demo_instrumented_def demo_target_def demo_method_reference_def loadable_reference_def
        MethodReference_make_def encodable_ascii)
qed

definition demo_method_to_instrument :: IntegrationMethod where
  "demo_method_to_instrument = \<lparr>im_integration_name = WStr ''Some'',
     replacement = hd (method_replacements demo_instrumented)\<rparr>"

lemma demo_integrations: "initialize_integrations_of (demo_env imp) True = [demo_method_to_instrument]"
proof -
  have "load_elements demo_api AssemblyReference_parse (map (integration_json name) [demo_instrumented]) = [demo_instrumented]"
    by (rule load_elements_loaded) (simp_all add: demo_api_ok demo_instrumented_loadable)
  then have "LoadIntegrationsFromEnvironment demo_api AssemblyReference_parse
      (\<lambda>_. Inr (JArray [integration_json name demo_instrumented])) Some demo_getenv = [demo_instrumented]"
    by (simp add: LoadIntegrationsFromEnvironment_def demo_lists LoadIntegrationsFromFile_def LoadIntegrationsFromStream_def)
  then show ?thesis
    by (simp add: initialize_integrations_of_def demo_env_def demo_lists demo_method_to_instrument_def)
      (simp add: demo_instrumented_def demo_method_reference_def MethodReference_make_def)
qed

lemma demo_env_simps [simp]:
  "e_windows (demo_env imp) = False" "e_arm (demo_env imp) = False" "e_bit64 (demo_env imp) = True"
  "e_getenv (demo_env imp) = demo_getenv" "e_process_name (demo_env imp) = WStr ''app''"
  "e_ICorProfilerInfo4 (demo_env imp) = True" "e_ICorProfilerInfo6 (demo_env imp) = True"
  "e_SetEventMask2 (demo_env imp) = (\<lambda>_ _. S_OK)" "e_runtime (demo_env imp) = Some (2, 5, 0, 0, 0)"
  "e_rewriter (demo_env imp) = (\<lambda>_ _. S_OK)" "e_assembly_info (demo_env imp) = (\<lambda>_. Some (13, WStr ''Some.Assembly'', 7, 5))"
  "e_app_domain_info (demo_env imp) = (\<lambda>_. Some (6, WStr ''domain''))"
  "e_module_info (demo_env imp) = (\<lambda>_. Some (4, WStr ''path'', 6, 0))"
  "e_module_metadata (demo_env imp) = (\<lambda>_. Some (demo_interfaces imp))"
  "e_function_info (demo_env imp) = (\<lambda>_. Some (5, 0x06000001))" "e_fuel (demo_env imp) = Suc (Suc (Suc (Suc 0)))"
  "e_uninit (demo_env imp) = 0" "e_RunILStartupHook (demo_env imp) = (\<lambda>_ _. S_OK)"
  by (simp_all add: demo_env_def)

lemma demo_flags:
  "\<not> is_true []" "\<not> is_false []" "is_true (WStr ''1'')" "WStr ''file'' \<noteq> []"
  "WStr ''app'' \<noteq> WStr ''w3wp.exe''" "WStr ''app'' \<noteq> WStr ''iisexpress.exe''"
  "WStr ''Some.Assembly'' \<noteq> WStr ''netstandard''"
  by (simp_all add: is_true_def is_false_def WStr_def)

lemma demo_initialized:
  "\<exists>st. Initialize (demo_env imp) (CorProfiler_new demo_cor Map.empty) = (S_OK,
     (CorProfiler_new demo_cor Map.empty)\<lparr>is_attached := True, is_net46_or_greater := True,
       rejit_handler := Some (RejitHandler_new (\<lambda>_ _. S_OK)), integration_methods := [demo_method_to_instrument],
       runtime_information := \<lparr>runtime_type = 2, runtime_version = (5, 0, 0, 0)\<rparr>,
       static_switches := st, requests := [StartRejitThread, mask_request (demo_env imp) True]\<rparr>)
     \<and> s_IsCallTargetEnabled st = 1"
proof -
  have n: "name (assembly (target_method (replacement demo_method_to_instrument))) = WStr ''Some.Assembly''"
  proof -
    have "name (AssemblyReference_parse (WStr ''Some.Assembly'')) = WStr ''Some.Assembly''" by code_simp
    then show ?thesis
      by (simp add: demo_method_to_instrument_def demo_instrumented_def demo_target_def demo_method_reference_def MethodReference_make_def)
  qed
  have m: "event_mask_base OR COR_PRF_ENABLE_REJIT = initialize_mask (demo_env imp) True"
    by (simp add: initialize_mask_def demo_variables demo_flags)
  show ?thesis
    by (simp add: Initialize_def initialize_mode_def initialize_attach_def Let_def read_static_def calltarget_mode_def
        IsDebugEnabled_def IsDumpILRewriteEnabled_def IsTracingDisabled_def IsAzureAppServices_def IsCallTargetEnabled_def
        IsNetstandardEnabled_def EnableInlining_def DisableOptimizations_def CheckIfTrue_def CheckIfFalse_def
        ToBooleanWithDefault_def statics_initial_def CorProfiler_new_def demo_variables demo_flags process_excluded_def
        demo_lists demo_integrations n m mask_request_def request_clr_def GetRuntimeInformation_def FAILED_def)
qed

lemma demo_candidate:
  "\<exists>fi. rejit_candidate (Suc (Suc (Suc (Suc 0)))) demo_import [WStr ''System.Void'', WStr ''System.Int32''] 0x06000001
     = Inr (Some fi)"
proof -
  let ?sig = "[0x00, 0x01, ELEMENT_TYPE_VOID, ELEMENT_TYPE_I4] :: byte list"
  obtain f where f: "GetFunctionInfo (Suc (Suc (Suc (Suc 0)))) demo_import 0x06000001 = Inr f"
    "FunctionInfo_IsValid f" "fms_pbBase (fi_method_signature f) = ?sig"
    by (simp add: GetFunctionInfo_body_def GetTypeInfo_body_def demo_tokens_types Let_def FunctionInfo_IsValid_def
        shared_type_def type_result_def value_type_base_def demo_import_def FAILED_def FunctionMethodSignature_new_def)
  let ?a = "\<lparr>arg_offset = 3, arg_length = 1, arg_pbBase = ?sig\<rparr>"
  have p: "TryParse ?sig = Inr \<lparr>fms_pbBase = ?sig, numberOfTypeArguments = 0, numberOfArguments = 1,
      fms_ret = \<lparr>arg_offset = 2, arg_length = 1, arg_pbBase = ?sig\<rparr>, fms_params = [?a]\<rparr>"
    by code_simp
  have "GetTypeTokName names ?a = Inr (WStr ''System.Int32'')" for names
    by code_simp
  then show ?thesis using f by (simp add: rejit_candidate_def p)
qed

definition demo_assembly :: AssemblyInfo where
  "demo_assembly = \<lparr>ai_id = 6, ai_name = WStr ''Some.Assembly'', ai_manifest_module_id = 5, ai_app_domain_id = 7,
     ai_app_domain_name = WStr ''domain''\<rparr>"

definition demo_metadata :: "metadata_import \<Rightarrow> (u32 \<rightharpoonup> pinvoke) ModuleMetadata" where
  "demo_metadata imp = \<lparr>mm_interfaces = demo_interfaces imp, mm_assemblyName = WStr ''Some.Assembly'',
     mm_app_domain_id = 7, mm_module_version_id = 1, mm_integrations = [demo_method_to_instrument],
     mm_caches = wrapper_caches_new\<rparr>"

lemma demo_applies:
  "candidates_of fuel (demo_interfaces demo_import) (WStr ''Some.Assembly'') (replacement demo_method_to_instrument)
    = candidates fuel demo_import (replacement demo_method_to_instrument) [0x06000001]"
  "signature_types (target_method (replacement demo_method_to_instrument)) = [WStr ''System.Void'', WStr ''System.Int32'']"
proof -
  have n: "name (AssemblyReference_parse (WStr ''Some.Assembly'')) = WStr ''Some.Assembly''" by code_simp
  have f: "FindTypeDefByName demo_import (WStr ''Outer+Inner'') = Some 0x02000003" by code_simp
  have r: "StringUtil.c_str (WStr ''Run'') = WStr ''Run''" by code_simp
  show "candidates_of fuel (demo_interfaces demo_import) (WStr ''Some.Assembly'') (replacement demo_method_to_instrument)
    = candidates fuel demo_import (replacement demo_method_to_instrument) [0x06000001]"
    by (simp add: candidates_of_def integration_applies_def demo_method_to_instrument_def demo_instrumented_def
        demo_target_def demo_method_reference_def MethodReference_make_def n f r demo_interfaces_def assembly_metadata_of_def
        GetAssemblyImportMetadata_def demo_assembly_props_def Version_gt_def Version_lt_def)
  show "signature_types (target_method (replacement demo_method_to_instrument)) = [WStr ''System.Void'', WStr ''System.Int32'']"
    by (simp add: demo_method_to_instrument_def demo_instrumented_def demo_target_def)
qed

lemma demo_candidates:
  "\<exists>fi. all_candidates (Suc (Suc (Suc (Suc 0)))) (demo_interfaces demo_import) (WStr ''Some.Assembly'') [demo_method_to_instrument]
     = Inr [(0x06000001, fi, replacement demo_method_to_instrument)]"
  using demo_candidate by (auto simp: demo_applies)

lemma demo_module: "module_info_of (demo_env imp) 5 = \<lparr>mo_id = 5, mo_path = WStr ''path'', mo_assembly = demo_assembly, mo_flags = 0\<rparr>"
proof -
  have "StringUtil.c_str (WStr ''Some.Assembly'') = WStr ''Some.Assembly''" "StringUtil.c_str (WStr ''domain'') = WStr ''domain''"
    "StringUtil.c_str (WStr ''path'') = WStr ''path''" by code_simp+
  then show ?thesis
    by (simp add: module_info_of_def GetModuleInfo_def assembly_info_of_def GetAssemblyInfo_def demo_assembly_def)
qed

text \<open>The history: the profiler is initialized, and the module is loaded.\<close>

definition demo_profiler :: "metadata_import \<Rightarrow> (u32 \<rightharpoonup> pinvoke) CorProfiler" where
  "demo_profiler imp = snd (projr (ModuleLoadFinished (demo_env imp) 5 S_OK (demo_started imp)))"

lemma demo_loaded_module:
  assumes "all_candidates (Suc (Suc (Suc (Suc 0)))) (demo_interfaces imp) (WStr ''Some.Assembly'') [demo_method_to_instrument] = Inr found"
  shows "history (demo_env imp) demo_cor Map.empty (demo_profiler imp)"
    and "module_id_to_info_map (demo_profiler imp) = [5 \<mapsto> 1]" "modules_store (demo_profiler imp) = [1 \<mapsto> demo_metadata imp]"
    and "is_attached (demo_profiler imp)" "rejit_handler (demo_profiler imp) \<noteq> None"
    and "first_jit_compilation_app_domains (demo_profiler imp) = {}" "\<not> is_desktop_iis (demo_profiler imp)"
    and "hook_domains (demo_profiler imp) = []"
proof -
  obtain st where st: "Initialize (demo_env imp) (CorProfiler_new demo_cor Map.empty) = (S_OK,
     (CorProfiler_new demo_cor Map.empty)\<lparr>is_attached := True, is_net46_or_greater := True,
       rejit_handler := Some (RejitHandler_new (\<lambda>_ _. S_OK)), integration_methods := [demo_method_to_instrument],
       runtime_information := \<lparr>runtime_type = 2, runtime_version = (5, 0, 0, 0)\<rparr>,
       static_switches := st, requests := [StartRejitThread, mask_request (demo_env imp) True]\<rparr>)"
    "s_IsCallTargetEnabled st = 1"
    using demo_initialized [of imp] by blast
  let ?p = "demo_started imp"
  have p: "?p = (CorProfiler_new demo_cor Map.empty)\<lparr>is_attached := True, is_net46_or_greater := True,
       rejit_handler := Some (RejitHandler_new (\<lambda>_ _. S_OK)), integration_methods := [demo_method_to_instrument],
       runtime_information := \<lparr>runtime_type = 2, runtime_version = (5, 0, 0, 0)\<rparr>,
       static_switches := st, requests := [StartRejitThread, mask_request (demo_env imp) True]\<rparr>"
    by (simp add: demo_started_def st)
  have ct: "calltarget_mode e ?p = (True, ?p)" for e :: "(u32 \<rightharpoonup> pinvoke) clr_env"
    using calltarget_mode_settled [of ?p e] st(2) by (simp add: p)
  have names: "WStr ''Some.Assembly'' \<noteq> WStr ''mscorlib''" "WStr ''Some.Assembly'' \<noteq> WStr ''System.Private.CoreLib''"
    "WStr ''Some.Assembly'' \<noteq> WStr ''Datadog.Trace.ClrProfiler.Managed.Loader''" "WStr ''Some.Assembly'' \<noteq> managed_profiler_name"
    "\<not> skipped_assembly (WStr ''Some.Assembly'')"
    by (simp_all add: WStr_def managed_profiler_name_def) code_simp
  obtain q where q: "ModuleLoadFinished (demo_env imp) 5 S_OK ?p = Inr (S_OK, q)"
    "module_id_to_info_map q = [5 \<mapsto> 1]" "modules_store q = [1 \<mapsto> demo_metadata imp]" "is_attached q" "rejit_handler q \<noteq> None"
    "first_jit_compilation_app_domains q = {}" "\<not> is_desktop_iis q" "hook_domains q = []"
  proof -
    have att: "is_attached ?p" "\<not> corlib_module_loaded ?p" by (simp_all add: p CorProfiler_new_def)
    have "ModuleLoadFinished (demo_env imp) 5 S_OK ?p = instrument_module (demo_env imp) 5 demo_assembly ?p"
      using att by (simp add: ModuleLoadFinished_def FAILED_def Let_def demo_module ModuleInfo_IsValid_def
          demo_assembly_def names IsWindowsRuntime_def)
    moreover have "integration_methods ?p = [demo_method_to_instrument]" by (simp add: p)
    then have "instrument_module (demo_env imp) 5 demo_assembly ?p = register_module (demo_env imp) 5 (demo_metadata imp) True ?p"
      by (simp add: instrument_module_def ct Let_def demo_assembly_def demo_metadata_def demo_interfaces_def)
    moreover define p1 where "p1 = ?p\<lparr>modules_store := [1 \<mapsto> demo_metadata imp], next_address := 2,
        module_id_to_info_map := [5 \<mapsto> 1]\<rparr>"
    then have s: "store_module 5 (demo_metadata imp) ?p = (1, p1)"
      by (simp add: store_module_def Let_def p CorProfiler_new_def)
    moreover obtain n q where q: "CallTarget_RequestRejitForModule (demo_env imp) 5 1 [demo_method_to_instrument] p1 = Inr (n, q)"
      "module_id_to_info_map q = [5 \<mapsto> 1]" "modules_store q = [1 \<mapsto> demo_metadata imp]" "is_attached q" "rejit_handler q \<noteq> None"
      "first_jit_compilation_app_domains q = {}" "\<not> is_desktop_iis q" "hook_domains q = []"
      using assms by (cases "found = []") (auto simp: CallTarget_RequestRejitForModule_def p1_def p Let_def demo_metadata_def
          EnqueueForRejit_def request_clr_def hook_domains_def map_filter_def CorProfiler_new_def mask_request_def)
    ultimately show thesis
      using that [of q] by (simp add: register_module_def Let_def names demo_metadata_def)
  qed
  then have d: "demo_profiler imp = q" by (simp add: demo_profiler_def)
  have "history (demo_env imp) demo_cor Map.empty q"
    by (rule history.called [OF history.initialized, where e = "demo_env imp" and ev = "ModuleLoad 5 S_OK" and hr = S_OK])
      (use q(1) st(1) p in simp_all)
  then show "history (demo_env imp) demo_cor Map.empty (demo_profiler imp)" by (simp add: d)
  show "module_id_to_info_map (demo_profiler imp) = [5 \<mapsto> 1]" "modules_store (demo_profiler imp) = [1 \<mapsto> demo_metadata imp]"
    "is_attached (demo_profiler imp)" "rejit_handler (demo_profiler imp) \<noteq> None"
    "first_jit_compilation_app_domains (demo_profiler imp) = {}" "\<not> is_desktop_iis (demo_profiler imp)"
    "hook_domains (demo_profiler imp) = []"
    using q by (simp_all add: d)
qed

text \<open>Metadata in which nothing is found.\<close>

definition silent_import :: metadata_import where
  "silent_import = \<lparr>
     imp_GetMemberRefProps = (\<lambda>_. (E_FAIL_code, \<lparr>mp_parent = 0, mp_name = [], mp_name_len = 0, mp_signature = []\<rparr>)),
     imp_GetMemberProps = (\<lambda>_. (E_FAIL_code, \<lparr>mp_parent = 0, mp_name = [], mp_name_len = 0, mp_signature = []\<rparr>)),
     imp_GetMethodSpecProps = (\<lambda>_. (E_FAIL_code, 0, [])),
     imp_GetTypeDefProps = (\<lambda>_. (E_FAIL_code, \<lparr>tp_name = [], tp_name_len = 0, tp_extends = 0\<rparr>)),
     imp_GetNestedClassProps = (\<lambda>_. mdTokenNil), imp_GetTypeRefProps = (\<lambda>_. (E_FAIL_code, [], 0)),
     imp_GetTypeSpecFromToken = (\<lambda>_. (E_FAIL_code, [])),
     imp_FindTypeDefByName = (\<lambda>_ _. (E_FAIL_code, 0))\<rparr>"

lemma silent_function: "GetFunctionInfo (Suc n) silent_import tok = Inr FunctionInfo_default"
  by (simp add: GetFunctionInfo_body_def silent_import_def FAILED_def Let_def)

lemma silent_readable: "readable (Suc n) silent_import"
  unfolding readable_def rejit_candidate_def silent_function bindE_Inr
  by (simp add: FunctionInfo_IsValid_def FunctionInfo_default_def)

lemma silent_candidates: "all_candidates fuel (demo_interfaces silent_import) nm ims = Inr []"
proof (induction ims)
  case (Cons im ims)
  have "find_in silent_import s t = None" for s t by (simp add: find_in_def silent_import_def FAILED_def)
  then have "FindTypeDefByName silent_import s = None" for s by (simp add: FindTypeDefByName_def Let_def)
  then have "candidates_of fuel (demo_interfaces silent_import) nm rep = Inr []" for rep
    by (simp add: candidates_of_def demo_interfaces_def)
  then show ?case using Cons by simp
qed simp

lemmas silent_module = demo_loaded_module [OF silent_candidates]

section \<open>Properties\<close>

text \<open>The pointers to metadata objects that the profiler and its re-JIT handler hold.\<close>

definition pointers_live :: "'m CorProfiler \<Rightarrow> bool" where
  "pointers_live p \<longleftrightarrow> (\<forall>i a. module_id_to_info_map p i = Some a \<longrightarrow> modules_store p a \<noteq> None)
     \<and> (\<forall>h i m. rejit_handler p = Some h \<longrightarrow> m_modules h i = Some m \<longrightarrow>
          m_metadata m = nullptr \<or> modules_store p (m_metadata m) \<noteq> None)"

lemma inv_pointers_live: "profiler_inv p \<Longrightarrow> pointers_live p"
  unfolding profiler_inv_def map_inv_def handler_inv_def metadata_ok_def pointers_live_def by blast



text \<open>C21. The startup hook is put at most once into each application domain, over every sequence of
  callbacks, and a domain that has one is remembered.\<close>

theorem startup_hook_once:
  assumes "history init_env cor metadata p"
  shows "distinct (hook_domains p) \<and> set (hook_domains p) \<subseteq> first_jit_compilation_app_domains p"
  by (rule history_hooks [OF assms])

lemma demo_jit:
  "\<exists>hr q. callback (demo_env demo_import) (JITCompilation 9 True) (demo_profiler demo_import) = Inr (hr, q)
     \<and> hook_domains q = [7]"
proof -
  obtain fi where "all_candidates (Suc (Suc (Suc (Suc 0)))) (demo_interfaces demo_import) (WStr ''Some.Assembly'') [demo_method_to_instrument]
     = Inr [(0x06000001, fi, replacement demo_method_to_instrument)]"
    using demo_candidates by blast
  note d = demo_loaded_module [OF this]
  let ?p = "demo_profiler demo_import"
  have ct: "calltarget_mode (demo_env demo_import) ?p = (True, ?p)"
    using calltarget_mode_attached [OF history_inv [OF d(1)] d(4)] d(5) by simp
  obtain f where f: "GetFunctionInfo (Suc (Suc (Suc (Suc 0)))) demo_import 0x06000001 = Inr f" "FunctionInfo_IsValid f"
    by (simp add: GetFunctionInfo_body_def GetTypeInfo_body_def demo_tokens_types Let_def FunctionInfo_IsValid_def
        shared_type_def type_result_def value_type_base_def demo_import_def FAILED_def FunctionMethodSignature_new_def)
  have "valid_startup_hook_callsite False (WStr ''Some.Assembly'') f"
    by (simp add: valid_startup_hook_callsite_def WStr_def)
  then show ?thesis
    using d f by (simp add: JITCompilationStarted_def ct Let_def demo_metadata_def demo_interfaces_def
        jit_method_def insert_startup_hook_def FAILED_def)
qed

theorem startup_hook_once_witness:
  "\<exists>q. hook_domains q = [7] \<and> distinct (hook_domains q) \<and> set (hook_domains q) \<subseteq> first_jit_compilation_app_domains (q :: (u32 \<rightharpoonup> pinvoke) CorProfiler)"
proof -
  obtain fi where "all_candidates (Suc (Suc (Suc (Suc 0)))) (demo_interfaces demo_import) (WStr ''Some.Assembly'') [demo_method_to_instrument]
     = Inr [(0x06000001, fi, replacement demo_method_to_instrument)]"
    using demo_candidates by blast
  note d = demo_loaded_module [OF this]
  obtain hr q where q: "callback (demo_env demo_import) (JITCompilation 9 True) (demo_profiler demo_import) = Inr (hr, q)"
    "hook_domains q = [7]"
    using demo_jit by blast
  have "history (demo_env demo_import) demo_cor Map.empty q" by (rule history.called [OF d(1) q(1)])
  from startup_hook_once [OF this] show ?thesis using q(2) by blast
qed

text \<open>C22. Exactly when the profiler attaches: the process is accepted, there is an integration for the mode,
  and the CLR accepts the event mask. Then re-JIT is asked for exactly in the call-target mode, in
  which there is a handler; otherwise the answer is a failure and the profiler is not attached.\<close>

theorem Initialize_attaches:
  assumes "Initialize e (CorProfiler_new cor metadata) = (hr, p)"
  shows "(hr = S_OK \<longleftrightarrow> process_accepted e \<and> initialize_integrations_of e (first_mode e) \<noteq> [] \<and> mask_accepted e (first_mode e))
    \<and> (hr = S_OK \<or> hr = E_FAIL_code) \<and> (is_attached p \<longleftrightarrow> hr = S_OK)
    \<and> (if hr = S_OK then (rejit_handler p \<noteq> None \<longleftrightarrow> first_mode e)
         \<and> requests p = (if first_mode e then [StartRejitThread] else []) @ [mask_request e (first_mode e)]
       else True)"
  by (rule Initialize_outcome [OF assms])

theorem Initialize_attaches_witness:
  "\<exists>hr p. Initialize (demo_env demo_import) (CorProfiler_new demo_cor Map.empty) = (hr, p) \<and> hr = S_OK
     \<and> is_attached p \<and> process_accepted (demo_env demo_import) \<and> (rejit_handler p \<noteq> None \<longleftrightarrow> first_mode (demo_env demo_import))"
proof -
  obtain p where p: "Initialize (demo_env demo_import) (CorProfiler_new demo_cor Map.empty) = (S_OK, p)"
    using demo_initialized [of demo_import] by blast
  from Initialize_attaches [OF p] p show ?thesis by auto
qed



text \<open>C7. Which methods of a module are requested for re-JIT: exactly those that an applicable integration
  names, with the right number and types of parameters. They go to the thread in one item, and the
  handler knows everything about each of them that the rewriting needs.\<close>

theorem RequestRejit_exact:
  assumes "modules_store p a = Some mm" "CallTarget_RequestRejitForModule e i a ims p = Inr (n, q)"
  shows "\<exists>mds. n = length mds
    \<and> set mds = {md. \<exists>im \<in> set ims. \<exists>fi. requested (e_fuel e) (mm_interfaces mm) (mm_assemblyName mm) (replacement im) md fi}
    \<and> (if mds = [] then q = p
       else requests q = requests p @ [EnqueueRejit \<lparr>m_length = signed_take_bit 31 (int n), m_modulesId = replicate n i,
              m_methodDefs = mds\<rparr>]
         \<and> (\<exists>h. rejit_handler q = Some h \<and> list_all (method_known h i a) mds))"
proof -
  obtain found where f: "all_candidates (e_fuel e) (mm_interfaces mm) (mm_assemblyName mm) ims = Inr found"
    using assms by (auto simp: CallTarget_RequestRejitForModule_def bindE_eq_Inr)
  have s: "set (map fst found) = {md. \<exists>im \<in> set ims. \<exists>fi. requested (e_fuel e) (mm_interfaces mm) (mm_assemblyName mm) (replacement im) md fi}"
    unfolding set_map all_candidates_set [OF f] by force
  show ?thesis
  proof (cases "found = []")
    case True
    then show ?thesis using assms f s by (intro exI [of _ "[]"]) (simp add: CallTarget_RequestRejitForModule_def)
  next
    case False
    then obtain h where h: "rejit_handler p = Some h"
      using assms f by (auto simp: CallTarget_RequestRejitForModule_def split: option.splits)
    have "list_all (method_known (register_all i a found h) i a) (map fst found)"
      by (auto simp: list_all_iff intro!: register_all_known)
    then show ?thesis
      using False assms f s h
      by (intro exI [of _ "map fst found"]) (auto simp: CallTarget_RequestRejitForModule_def Let_def
          EnqueueForRejit_def request_clr_def map_replicate_const)
  qed
qed

theorem RequestRejit_exact_witness:
  "\<exists>p q mds. CallTarget_RequestRejitForModule (demo_env demo_import) 5 1 [demo_method_to_instrument] p = Inr (1, q)
     \<and> mds = [0x06000001]
     \<and> set mds = {md. \<exists>im \<in> set [demo_method_to_instrument]. \<exists>fi. requested (Suc (Suc (Suc (Suc 0)))) (demo_interfaces demo_import) (WStr ''Some.Assembly'') (replacement im) md fi}"
proof -
  obtain fi where fi: "all_candidates (Suc (Suc (Suc (Suc 0)))) (demo_interfaces demo_import) (WStr ''Some.Assembly'') [demo_method_to_instrument]
     = Inr [(0x06000001, fi, replacement demo_method_to_instrument)]"
    using demo_candidates by blast
  note d = demo_loaded_module [OF fi]
  let ?p = "demo_profiler demo_import"
  have mm: "modules_store ?p 1 = Some (demo_metadata demo_import)" by (simp add: d)
  obtain q where q: "CallTarget_RequestRejitForModule (demo_env demo_import) 5 1 [demo_method_to_instrument] ?p = Inr (1, q)"
    "requests q = requests ?p @ [EnqueueRejit \<lparr>m_length = 1, m_modulesId = [5], m_methodDefs = [0x06000001]\<rparr>]"
    using fi d by (auto simp: CallTarget_RequestRejitForModule_def demo_metadata_def Let_def EnqueueForRejit_def request_clr_def)
  obtain mds where mds: "Suc 0 = length mds"
    "set mds = {md. \<exists>im \<in> set [demo_method_to_instrument]. \<exists>fi. requested (e_fuel (demo_env demo_import))
       (mm_interfaces (demo_metadata demo_import)) (mm_assemblyName (demo_metadata demo_import)) (replacement im) md fi}"
    "if mds = [] then q = ?p
     else requests q = requests ?p @ [EnqueueRejit \<lparr>m_length = signed_take_bit 31 (int 1), m_modulesId = replicate 1 5, m_methodDefs = mds\<rparr>]
       \<and> (\<exists>h. rejit_handler q = Some h \<and> list_all (method_known h 5 1) mds)"
    using RequestRejit_exact [OF mm q(1)] unfolding One_nat_def [symmetric] by blast
  then have "mds \<noteq> []" by auto
  then have ms: "mds = [0x06000001]" using mds(3) q(2) by simp
  have sel: "mm_interfaces (demo_metadata demo_import) = demo_interfaces demo_import"
    "mm_assemblyName (demo_metadata demo_import) = WStr ''Some.Assembly''"
    "e_fuel (demo_env demo_import) = Suc (Suc (Suc (Suc 0)))" by (simp_all add: demo_metadata_def)
  show ?thesis using q(1) ms mds(2) unfolding sel by blast
qed

section \<open>Failures\<close>

text \<open>Unloading any module forgets that the managed profiler is loaded into the application domain of that
  module, although its assembly is still there: methods of the domain are no longer rewritten.\<close>

lemma unload_forgets_profiler:
  assumes "is_attached p" "module_id_to_info_map p i = Some a" "modules_store p a = Some mm"
    and "\<not> managed_profiler_loaded_domain_neutral p"
  shows "\<exists>q. ModuleUnloadStarted i p = Inr (S_OK, q) \<and> \<not> ProfilerAssemblyIsLoadedIntoAppDomain
    (managed_profiler_loaded_domain_neutral q) (managed_profiler_loaded_app_domains q) (mm_app_domain_id mm)"
  using assms by (auto simp: ModuleUnloadStarted_def Let_def ProfilerAssemblyIsLoadedIntoAppDomain_def split: option.splits)

text \<open>The two steps of \<open>GetReJITParameters\<close> with an unload of the module between them: the handler is left
  with a pointer to the metadata object that has been deleted.\<close>

lemma rejit_parameters_race:
  assumes inv: "profiler_inv p" and p: "is_attached p" "rejit_handler p \<noteq> None" "module_id_to_info_map p i = Some a"
  shows "GetReJITParameters_lookup i p = Inr a
    \<and> (\<exists>q hr r h m. ModuleUnloadStarted i p = Inr (S_OK, q) \<and> GetReJITParameters_notify i md fc a q = Inr (hr, r)
        \<and> rejit_handler r = Some h \<and> m_modules h i = Some m \<and> m_metadata m = a \<and> a \<noteq> nullptr \<and> modules_store r a = None)"
proof -
  obtain h where h: "rejit_handler p = Some h" using p by auto
  obtain mm where mm: "modules_store p a = Some mm" "a \<noteq> nullptr"
    using inv p(3) unfolding profiler_inv_def map_inv_def by blast
  obtain q where q: "ModuleUnloadStarted i p = Inr (S_OK, q)" "rejit_handler q = Some (RemoveModule i h)"
    "modules_store q a = None"
    using p h mm by (auto simp: ModuleUnloadStarted_def Let_def)
  have "m_rewriteCallback (RemoveModule i h) \<noteq> None"
    using inv h by (simp add: profiler_inv_def handler_inv_def RemoveModule_def)
  then obtain hr h' where h': "NotifyReJITParameters i md fc a (RemoveModule i h) = Inr (hr, h')"
    "touches_module i a (RemoveModule i h) h'"
    using NotifyReJITParameters_touches by blast
  then obtain m where "m_metadata m = a" "m_modules h' i = Some m" by (auto simp: touches_module_def)
  moreover have "GetReJITParameters_notify i md fc a q = Inr (hr, q\<lparr>rejit_handler := Some h'\<rparr>)"
    using h'(1) q(2) by (simp add: GetReJITParameters_notify_def)
  ultimately show ?thesis
    using p q mm(2) by (auto simp: GetReJITParameters_lookup_def)
qed

end
