(* ===== verification/MethodDecoder.thy ===== *)
theory MethodDecoder
  imports ILProperties
begin

text \<open>
  The decoder of method bodies that \<open>ILRewriter::Import\<close> uses (\<open>COR_ILMETHOD_DECODER\<close>, \<open>corhlpr.h\<close> and
  \<open>corhlpr.cpp\<close>): the tiny and the fat header, and the exception clauses in both forms. A body is the
  bytes from its address on that can be read; \<open>BadAccess\<close> is a read behind them. The clauses are read
  at once here, and one by one in the code.
\<close>

section \<open>Headers\<close>

abbreviation (input) "CorILMethod_FormatMask \<equiv> (7 :: byte)"
abbreviation (input) "CorILMethod_Sect_KindMask \<equiv> (0x3F :: byte)"
abbreviation (input) "CorILMethod_Sect_EHTable \<equiv> (1 :: byte)"
abbreviation (input) "CorILMethod_Sect_FatFormat \<equiv> (0x40 :: byte)"

definition IsTiny :: "byte \<Rightarrow> bool" where
  "IsTiny b \<longleftrightarrow> b AND drop_bit 1 CorILMethod_FormatMask = 2"

definition Tiny_GetCodeSize :: "byte \<Rightarrow> nat" where
  "Tiny_GetCodeSize b = unat (drop_bit 2 b)"

definition IsFat :: "byte \<Rightarrow> bool" where
  "IsFat b \<longleftrightarrow> b AND CorILMethod_FormatMask = 3"

definition Fat_GetSize :: "byte \<Rightarrow> nat" where
  "Fat_GetSize b = unat (drop_bit 4 b)"

definition Fat_GetFlags :: "byte \<Rightarrow> byte \<Rightarrow> u32" where
  "Fat_GetFlags b0 b1 = ucast b0 OR push_bit 8 (ucast b1 AND 0x0F)"

definition Fat_More :: "byte \<Rightarrow> bool" where
  "Fat_More b \<longleftrightarrow> b AND 0x08 \<noteq> 0"

text \<open>\<open>Align\<close>, of the address \<open>at + n\<close>, as an offset from \<open>at\<close>.\<close>

definition Align :: "nat \<Rightarrow> nat \<Rightarrow> nat" where
  "Align at n = (at + n + 3) div 4 * 4 - at"

section \<open>Exception clauses\<close>

text \<open>A clause of the section at \<open>sect\<close>, in the fat form.\<close>

definition SectEH_EHClause :: "byte list \<Rightarrow> nat \<Rightarrow> bool \<Rightarrow> nat \<Rightarrow> hr + eh_clause_fat" where
  "SectEH_EHClause body sect fat idx =
     (if fat then
        let at = sect + 4 + 24 * idx in
        bindE (read_le 4 body at) (\<lambda>flags. bindE (read_le 4 body (at + 4)) (\<lambda>(try_offset :: u32).
        bindE (read_le 4 body (at + 8)) (\<lambda>(try_length :: u32). bindE (read_le 4 body (at + 12)) (\<lambda>(handler_offset :: u32).
        bindE (read_le 4 body (at + 16)) (\<lambda>(handler_length :: u32). bindE (read_le 4 body (at + 20)) (\<lambda>token.
        Inr \<lparr>GetFlags = flags, GetTryOffset = unat try_offset, GetTryLength = unat try_length,
          GetHandlerOffset = unat handler_offset, GetHandlerLength = unat handler_length,
          GetClassTokenOrFilterOffset = token\<rparr>))))))
      else
        let at = sect + 4 + 12 * idx in
        bindE (read_le 2 body at) (\<lambda>(flags :: u16). bindE (read_le 2 body (at + 2)) (\<lambda>(try_offset :: u16).
        bindE (read_le 1 body (at + 4)) (\<lambda>(try_length :: byte). bindE (read_le 2 body (at + 5)) (\<lambda>(handler_offset :: u16).
        bindE (read_le 1 body (at + 7)) (\<lambda>(handler_length :: byte). bindE (read_le 4 body (at + 8)) (\<lambda>token.
        Inr \<lparr>GetFlags = ucast flags, GetTryOffset = unat try_offset, GetTryLength = unat try_length,
          GetHandlerOffset = unat handler_offset, GetHandlerLength = unat handler_length,
          GetClassTokenOrFilterOffset = token\<rparr>)))))))"

definition EHCount :: "byte list \<Rightarrow> nat \<Rightarrow> bool \<Rightarrow> hr + nat" where
  "EHCount body sect fat =
     (if fat then
        bindE (read_le 1 body (sect + 1)) (\<lambda>(b1 :: byte). bindE (read_le 1 body (sect + 2)) (\<lambda>(b2 :: byte).
        bindE (read_le 1 body (sect + 3)) (\<lambda>(b3 :: byte).
        Inr (unat ((ucast b1 OR push_bit 8 (ucast b2) OR push_bit 16 (ucast b3)) :: u32) div 24))))
      else bindE (read_le 1 body (sect + 1)) (\<lambda>(size :: byte). Inr (unat size div 12)))"

text \<open>The clauses, if the first section is a table of them.\<close>

definition sect_clauses :: "byte list \<Rightarrow> nat \<Rightarrow> hr + eh_clause_fat list" where
  "sect_clauses body sect =
     bindE (read_le 1 body sect) (\<lambda>kind.
     if kind AND CorILMethod_Sect_KindMask \<noteq> CorILMethod_Sect_EHTable then Inr []
     else
       let fat = kind AND CorILMethod_Sect_FatFormat \<noteq> 0
       in bindE (EHCount body sect fat) (\<lambda>n. mapE (SectEH_EHClause body sect fat) [0..<n]))"

section \<open>The decoder\<close>

text \<open>A decoder that has only been cleared.\<close>

definition decoder_cleared :: method_decoder where
  "decoder_cleared = \<lparr>GetLocalVarSigTok = 0, GetMaxStack = 0, GetHeaderFlags = 0, GetCodeSize = 0, Code = [], EH = []\<rparr>"

text \<open>The body at the address \<open>at\<close>; a fat header is only read at an aligned address on 64-bit machines.\<close>

definition DecoderInit :: "bool \<Rightarrow> nat \<Rightarrow> byte list \<Rightarrow> hr + method_decoder" where
  "DecoderInit bit64 at body =
     bindE (read_le 1 body 0) (\<lambda>b0.
     if IsTiny b0 then
       Inr \<lparr>GetLocalVarSigTok = 0, GetMaxStack = 8, GetHeaderFlags = CorILMethod_TinyFormat,
         GetCodeSize = Tiny_GetCodeSize b0, Code = drop 1 body, EH = []\<rparr>
     else if IsFat b0 \<and> (bit64 \<longrightarrow> at mod 4 = 0) then
       bindE (read_le 1 body 1) (\<lambda>b1. bindE (read_le 2 body 2) (\<lambda>(max_stack :: u16).
       bindE (read_le 4 body 4) (\<lambda>(code_size :: u32). bindE (read_le 4 body 8) (\<lambda>local_var_sig_tok.
       let code = 4 * Fat_GetSize b1
       in bindE (if Fat_GetSize b1 \<ge> 3 \<and> Fat_More b0 then sect_clauses body (Align at (code + unat code_size)) else Inr [])
         (\<lambda>clauses. Inr \<lparr>GetLocalVarSigTok = local_var_sig_tok, GetMaxStack = unat max_stack,
           GetHeaderFlags = Fat_GetFlags b0 b1, GetCodeSize = unat code_size, Code = drop code body, EH = clauses\<rparr>)))))
     else Inr decoder_cleared)"

section \<open>Decoding what has been exported\<close>

lemma read_le_at:
  assumes "length as = n" "length bs = k"
  shows "read_le k (as @ bs @ cs) n = Inr (le_word bs)"
  using assms by (auto simp: read_le_def)

lemma mapE_all: "(\<And>x. x \<in> set xs \<Longrightarrow> f x = Inr (g x)) \<Longrightarrow> mapE f xs = Inr (map g xs)"
  by (induction xs) simp_all

text \<open>A clause whose members fit into their words.\<close>

definition clause_fits :: "eh_clause_fat \<Rightarrow> bool" where
  "clause_fits c \<longleftrightarrow> GetTryOffset c < 2 ^ 32 \<and> GetTryLength c < 2 ^ 32 \<and> GetHandlerOffset c < 2 ^ 32 \<and> GetHandlerLength c < 2 ^ 32"

lemma EHClause_written:
  assumes "clause_fits c" "length as = sect + 4 + 24 * idx"
  shows "SectEH_EHClause (as @ clause_bytes c @ rest) sect True idx = Inr c"
proof -
  have r: "read_le 4 (as @ clause_bytes c @ rest) (length as) = Inr (GetFlags c)"
    "read_le 4 (as @ clause_bytes c @ rest) (length as + 4) = Inr (of_nat (GetTryOffset c) :: u32)"
    "read_le 4 (as @ clause_bytes c @ rest) (length as + 8) = Inr (of_nat (GetTryLength c) :: u32)"
    "read_le 4 (as @ clause_bytes c @ rest) (length as + 12) = Inr (of_nat (GetHandlerOffset c) :: u32)"
    "read_le 4 (as @ clause_bytes c @ rest) (length as + 16) = Inr (of_nat (GetHandlerLength c) :: u32)"
    "read_le 4 (as @ clause_bytes c @ rest) (length as + 20) = Inr (GetClassTokenOrFilterOffset c)"
    by (simp_all add: read_le_def clause_bytes_def le_word_bytes_4)
  show ?thesis
    using assms(1) unfolding SectEH_EHClause_def assms(2) [symmetric] Let_def r
    by (cases c) (simp add: clause_fits_def unat_of_nat)
qed

lemma length_clause_bytes: "length (clause_bytes c) = 24"
  by (simp add: clause_bytes_def)

lemma EHCount_written:
  assumes "4 + 24 * n < 2 ^ 24"
  shows "EHCount (as @ fat_section n @ rest) (length as) True = Inr n"
proof -
  define w :: u32 where "w = of_nat (4 + 24 * n)"
  let ?body = "as @ fat_section n @ rest"
  have three: "le_bytes 3 w = [ucast w, ucast (drop_bit 8 w), ucast (drop_bit 8 (drop_bit 8 w))]"
    by (simp add: numeral_3_eq_3)
  have sec: "fat_section n = [0x41, ucast w, ucast (drop_bit 8 w), ucast (drop_bit 8 (drop_bit 8 w))]"
    unfolding fat_section_def w_def [symmetric] three ..
  have b: "length as + 3 < length ?body" "?body ! (length as + 1) = ucast w" "?body ! (length as + 2) = ucast (drop_bit 8 w)"
    "?body ! (length as + 3) = ucast (drop_bit 8 (drop_bit 8 w))"
    unfolding sec by (simp_all add: nth_append)
  have r: "read_le 1 ?body (length as + 1) = Inr (ucast w :: byte)" "read_le 1 ?body (length as + 2) = Inr (ucast (drop_bit 8 w) :: byte)"
    "read_le 1 ?body (length as + 3) = Inr (ucast (drop_bit 8 (drop_bit 8 w)) :: byte)"
    unfolding b(2-4) [symmetric] using b(1) by (intro read_byte; simp)+
  have u: "unat w = 4 + 24 * n" using assms by (simp add: w_def unat_of_nat del: of_nat_add)
  have "(ucast (ucast w :: byte) :: u32) OR push_bit 8 (ucast (ucast (drop_bit 8 w) :: byte)) OR push_bit 16 (ucast (ucast (drop_bit 8 (drop_bit 8 w)) :: byte))
      = le_word (le_bytes 3 w)"
    unfolding three by (simp add: push_bit_or)
  then have "(ucast (ucast w :: byte) :: u32) OR push_bit 8 (ucast (ucast (drop_bit 8 w) :: byte)) OR push_bit 16 (ucast (ucast (drop_bit 8 (drop_bit 8 w)) :: byte))
      = take_bit 24 w" by (simp add: le_word_bytes)
  moreover have "unat (take_bit 24 w) = 4 + 24 * n" using u assms by (simp add: unsigned_take_bit_eq take_bit_nat_eq_self)
  ultimately show ?thesis unfolding EHCount_def r by simp
qed

lemma sect_clauses_written:
  assumes fits: "\<forall>c \<in> set cs. clause_fits c" and "cs \<noteq> []" "4 + 24 * length cs < 2 ^ 24"
  shows "sect_clauses (as @ section_bytes cs @ rest) (length as) = Inr cs"
proof -
  let ?body = "as @ section_bytes cs @ rest"
  have sec: "section_bytes cs = fat_section (length cs) @ concat (map clause_bytes cs)" using assms(2) by (simp add: section_bytes_def)
  have kind: "read_le 1 ?body (length as) = Inr (0x41 :: byte)"
    by (simp add: read_le_def sec fat_section_def)
  have n: "EHCount ?body (length as) True = Inr (length cs)"
    using EHCount_written [OF assms(3), of as "concat (map clause_bytes cs) @ rest"] by (simp add: sec)
  have "SectEH_EHClause ?body (length as) True i = Inr (cs ! i)" if i: "i < length cs" for i
  proof -
    have cs: "cs = take i cs @ cs ! i # drop (Suc i) cs" using i by (rule id_take_nth_drop)
    define pre where "pre = as @ fat_section (length cs) @ concat (map clause_bytes (take i cs))"
    have "concat (map clause_bytes cs) = concat (map clause_bytes (take i cs)) @ clause_bytes (cs ! i) @ concat (map clause_bytes (drop (Suc i) cs))"
      by (subst cs) simp
    then have body: "?body = pre @ clause_bytes (cs ! i) @ concat (map clause_bytes (drop (Suc i) cs)) @ rest"
      by (simp add: sec pre_def)
    have "length (concat (map clause_bytes xs)) = 24 * length xs" for xs by (induction xs) (simp_all add: length_clause_bytes)
    then have "length pre = length as + 4 + 24 * i" using i by (simp add: pre_def fat_section_def)
    then show ?thesis unfolding body using fits i by (intro EHClause_written) simp_all
  qed
  then have "mapE (SectEH_EHClause ?body (length as) True) [0..<length cs] = Inr (map ((!) cs) [0..<length cs])"
    by (intro mapE_all) simp
  then show ?thesis unfolding sect_clauses_def kind bindE_Inr by (simp add: n map_nth)
qed

lemma header_flags:
  assumes "flags AND 0xFFF = (flags :: u32)" "flags AND 7 = 3"
  defines "w \<equiv> ((ucast flags :: u16) AND 0x0FFF) OR push_bit 12 3"
  shows "\<not> IsTiny (ucast w)" "IsFat (ucast w)" "Fat_GetSize (ucast (drop_bit 8 w)) = 3"
    "Fat_GetFlags (ucast w) (ucast (drop_bit 8 w)) = flags" "Fat_More (ucast w) \<longleftrightarrow> flags AND 8 \<noteq> 0"
proof -
  have masks: "(0x0FFF :: u16) = mask 12" "(0xFFF :: u32) = mask 12" "(3 :: u16) = mask 2" "(3 :: byte) = mask 2" "(0x0F :: u32) = mask 4"
    by (simp_all add: mask_eq_exp_minus_1)
  have b0: "ucast w = (ucast flags :: byte)"
    by (rule bit_word_eqI) (auto simp: w_def masks bit_simps)
  have low: "(ucast flags :: byte) AND ucast k = ucast (flags AND k)" for k
    by (rule bit_word_eqI) (auto simp: bit_simps)
  from low [of 7] low [of 3] low [of 8] have lows: "(ucast flags :: byte) AND 7 = 3" "(ucast flags :: byte) AND 3 = ucast (flags AND 3)"
    "(ucast flags :: byte) AND 8 = ucast (flags AND 8)" by (simp_all add: assms(2))
  have "flags AND 3 = (flags AND 7) AND 3" by (simp add: and.assoc)
  then have three: "flags AND 3 = 3" by (simp add: assms(2))
  show "IsFat (ucast w)" by (simp add: IsFat_def b0 lows)
  show "\<not> IsTiny (ucast w)" by (simp add: IsTiny_def b0 lows three)
  show "Fat_GetSize (ucast (drop_bit 8 w)) = 3"
  proof -
    have "drop_bit 4 (ucast (drop_bit 8 w) :: byte) = 3"
      by (rule bit_word_eqI) (auto simp: w_def masks bit_simps)
    then show ?thesis by (simp add: Fat_GetSize_def)
  qed
  have "Fat_GetFlags (ucast w) (ucast (drop_bit 8 w)) = flags AND 0xFFF"
    unfolding Fat_GetFlags_def b0 by (rule bit_word_eqI) (auto simp: w_def masks bit_simps)
  then show "Fat_GetFlags (ucast w) (ucast (drop_bit 8 w)) = flags" using assms(1) by simp
  show "Fat_More (ucast w) \<longleftrightarrow> flags AND 8 \<noteq> 0"
  proof -
    have "b AND 8 \<noteq> 0 \<longleftrightarrow> bit b 3" for b :: byte using and_exp_eq_0_iff_not_bit [of b 3] by simp
    moreover have "flags AND 8 \<noteq> 0 \<longleftrightarrow> bit flags 3" using and_exp_eq_0_iff_not_bit [of flags 3] by simp
    ultimately show ?thesis unfolding Fat_More_def b0 by (simp add: bit_simps)
  qed
qed

lemma DecoderInit_fat:
  assumes "at mod 4 = 0" and flags: "flags AND 0xFFF = flags" "flags AND 7 = 3" "flags AND 8 \<noteq> 0 \<longleftrightarrow> cs \<noteq> []"
    and size: "length code + 3 < 2 ^ 32" "length pad = alignedCodeSize (length code) - length code"
    and cs: "\<forall>c \<in> set cs. clause_fits c" "4 + 24 * length cs < 2 ^ 24"
  shows "DecoderInit bit64 at (fat_header flags ms (length code) tk @ code @ pad @ section_bytes cs)
    = Inr \<lparr>GetLocalVarSigTok = tk, GetMaxStack = ms mod 65536, GetHeaderFlags = flags, GetCodeSize = length code,
        Code = code @ pad @ section_bytes cs, EH = cs\<rparr>"
proof -
  define w where "w = ((ucast flags :: u16) AND 0x0FFF) OR push_bit 12 3"
  define body where "body = fat_header flags ms (length code) tk @ code @ pad @ section_bytes cs"
  note hf = header_flags [OF flags(1,2), folded w_def]
  have hdr: "fat_header flags ms (length code) tk = [ucast w, ucast (drop_bit 8 w)]
      @ le_bytes 2 (of_nat ms :: u16) @ le_bytes 4 (of_nat (length code) :: u32) @ le_bytes 4 tk"
    unfolding fat_header_def w_def [symmetric] by (simp add: numeral_2_eq_2)
  have len: "length (fat_header flags ms (length code) tk) = 12" by (rule length_fat_header)
  have r: "read_le 1 body 0 = Inr (ucast w :: byte)" "read_le 1 body 1 = Inr (ucast (drop_bit 8 w) :: byte)"
    "read_le 2 body 2 = Inr (of_nat ms :: u16)" "read_le 4 body 4 = Inr (of_nat (length code) :: u32)" "read_le 4 body 8 = Inr tk"
    unfolding body_def hdr by (simp_all add: read_le_def le_word_bytes take_bit_word_eq_self)
  have u: "unat (of_nat (length code) :: u32) = length code" using size(1) by (simp add: unat_of_nat)
  have m: "unat (of_nat ms :: u16) = ms mod 65536" by (simp add: unat_of_nat)
  have al: "length code \<le> alignedCodeSize (length code)" using alignedCodeSize_le(1) [of "length code"] size(1) by simp
  have sect: "Align at (12 + length code) = 12 + alignedCodeSize (length code)"
  proof -
    obtain k where k: "at = 4 * k" using assms(1) by (metis mod_0_imp_dvd dvd_def)
    have "alignedCodeSize (length code) = (length code + 3) div 4 * 4" using size(1) by (simp add: alignedCodeSize_def)
    moreover have "(4 * k + (12 + length code) + 3) div 4 = k + 3 + (length code + 3) div 4" by presburger
    ultimately show ?thesis by (simp add: Align_def k algebra_simps)
  qed
  have clauses: "(if Fat_More (ucast w) then sect_clauses body (12 + alignedCodeSize (length code)) else Inr []) = Inr cs"
  proof (cases "cs = []")
    case False
    have "length (fat_header flags ms (length code) tk @ code @ pad) = 12 + alignedCodeSize (length code)" using al size(2) by (simp add: len)
    then show ?thesis
      using sect_clauses_written [OF cs(1) False cs(2), of "fat_header flags ms (length code) tk @ code @ pad" "[]"] hf(5) flags(3) False by (simp add: body_def)
  qed (use hf(5) flags(3) in simp)
  have "drop 12 body = code @ pad @ section_bytes cs" by (simp add: len body_def)
  then show ?thesis
    unfolding body_def [symmetric] DecoderInit_def r bindE_Inr using hf(1-4) assms(1) clauses sect by (cases "Fat_More (ucast w)") (simp_all add: u m Let_def)
qed

lemma DecoderInit_tiny:
  assumes "length code < 64"
  shows "DecoderInit bit64 at (of_nat (or 2 (length code * 4)) # code @ rest) = Inr \<lparr>GetLocalVarSigTok = 0, GetMaxStack = 8,
    GetHeaderFlags = CorILMethod_TinyFormat, GetCodeSize = length code, Code = code @ rest, EH = []\<rparr>"
proof -
  define b :: byte where "b = of_nat (or 2 (length code * 4))"
  have "b = 2 OR push_bit 2 (of_nat (length code))"
    by (simp add: b_def of_nat_or_eq push_bit_eq_mult)
  moreover have three: "(3 :: byte) = mask 2" by (simp add: mask_eq_exp_minus_1)
  ultimately have "b AND 3 = 2" "drop_bit 2 b = take_bit 6 (of_nat (length code))"
    by (auto intro!: bit_word_eqI simp: bit_simps three)
  then have "IsTiny b" "Tiny_GetCodeSize b = length code"
    using assms by (simp_all add: IsTiny_def Tiny_GetCodeSize_def unsigned_take_bit_eq unat_of_nat take_bit_nat_eq_self)
  then show ?thesis by (simp add: DecoderInit_def read_le_def b_def [symmetric])
qed

end
