(* ===== verification/ILReimport.thy ===== *)
theory ILReimport
  imports MethodDecoder
begin

text \<open>
  Reading back what \<open>Export\<close> has written: \<open>Import\<close> accepts the body and makes the same list of
  instructions of it, with the same targets and the same exception clauses, at other addresses. The
  profiler relies on it where one method is rewritten by several functions, each of which imports the
  body that the one before has handed over.
\<close>

section \<open>Reading one instruction\<close>

text \<open>Opcodes that are written and read as such: not the internal ones, and not the prefix bytes.\<close>

definition plain_opcode :: "nat \<Rightarrow> bool" where
  "plain_opcode op \<longleftrightarrow> op < CEE_COUNT \<and> \<not> (CEE_PREFIX7 \<le> op \<and> op \<le> CEE_PREFIX1)"

text \<open>A raw operand as it is read: no operand at all only where the opcode has none.\<close>

definition raw_normal :: "nat \<Rightarrow> operand \<Rightarrow> nat \<Rightarrow> bool" where
  "raw_normal op a off \<longleftrightarrow> raw_ok op a off \<and> (a = Zeroed \<longrightarrow> op_flags op = 0)"

lemma import_opcode_forward:
  assumes op: "plain_opcode op" and le: "off + length (opcode_bytes op) \<le> m_CodeSize s"
    and N: "m_CodeSize s \<le> length pIL" "m_CodeSize s + 10 < 4294967296"
    and bytes: "take (length (opcode_bytes op)) (drop off pIL) = opcode_bytes op"
  shows "import_opcode pIL off s = Inr (op, off + length (opcode_bytes op))"
proof (cases "op < 256")
  case True
  then have ob: "opcode_bytes op = [of_nat op]" using op by (simp add: opcode_bytes_def plain_opcode_def and_255)
  have b: "pIL ! off = of_nat op" using bytes le N(1) unfolding ob by (simp add: take_Suc_conv_app_nth hd_drop_conv_nth take_Suc)
  have u: "unat (of_nat op :: byte) = op" using True by (simp add: unat_of_nat)
  have "w32 (off + 1) = off + 1" using le N(2) unfolding ob by simp
  moreover have "op \<noteq> CEE_PREFIX1" "\<not> (CEE_PREFIX7 \<le> op \<and> op \<le> CEE_PREFIX2)" "\<not> CEE_COUNT \<le> op"
    using op by (auto simp: plain_opcode_def)
  ultimately show ?thesis
    using le N unfolding ob import_opcode_def by (simp add: read_byte b u Let_def del: One_nat_def)
next
  case False
  have c: "op < CEE_COUNT" using op by (simp add: plain_opcode_def)
  then have ob: "opcode_bytes op = [of_nat CEE_PREFIX1, of_nat (op - 256)]"
  proof -
    have "of_nat (and op 255) = (of_nat (op - 256) :: byte)"
      using False c by (simp add: and_255 le_mod_geq)
    then show ?thesis using False c by (simp add: opcode_bytes_def)
  qed
  have "take 2 (drop off pIL) = [pIL ! off, pIL ! (off + 1)]"
    using le N(1) unfolding ob by (simp add: take_Suc_conv_app_nth numeral_2_eq_2)
  then have b: "pIL ! off = of_nat CEE_PREFIX1" "pIL ! (off + 1) = of_nat (op - 256)"
    using bytes unfolding ob by (simp_all add: numeral_2_eq_2)
  have "unat (of_nat k :: byte) = k" if "k < 256" for k using that by (simp add: unat_of_nat)
  from this [of "op - 256"] have u: "unat (of_nat CEE_PREFIX1 :: byte) = CEE_PREFIX1" "256 + unat (of_nat (op - 256) :: byte) = op"
    using False c by simp_all
  have w: "w32 (off + 1) = off + 1" "w32 (off + 1 + 1) = off + 2" using le N(2) unfolding ob by simp_all
  have r: "read_le 1 pIL off = Inr (pIL ! off)" "read_le 1 pIL (off + 1) = Inr (pIL ! (off + 1))"
    using le N(1) unfolding ob by (simp_all add: read_byte del: One_nat_def)
  show ?thesis
    using le c False unfolding ob import_opcode_def r Let_def bindE_Inr w b u by simp
qed

lemma import_operand_forward:
  assumes op: "op < CEE_COUNT" "op \<noteq> CEE_SWITCH" and zero: "m_arg (heap s x) = Zeroed"
    and a: "raw_normal op a off" and len: "off + instr_size op \<le> length pIL"
    and o': "o' = off + length (opcode_bytes op)"
    and bytes: "take (instr_size op) (drop off pIL) = raw_instr op a off sb"
  shows "import_operand pIL (op_flags op) x o' s = Inr (o', is_branch op, set_arg x a s)"
proof -
  let ?sz = "operand_size op"
  have op': "op < 296" "op \<noteq> CEE_COUNT" "op \<noteq> CEE_SWITCH_ARG" using op by auto
  note flags = op_flags_cases [OF op'(1)]
  have sz: "?sz = (if op_flags op = 17 then 1 else if op_flags op = 20 then 4 else op_flags op)"
    using operand_size_flags [OF op'(1)] flags(2) op(2) by auto
  have isz: "instr_size op = length (opcode_bytes op) + ?sz" by (simp add: instr_size_def)
  have lo: "o' + ?sz \<le> length pIL" using len by (simp add: o' isz)
  define bs where "bs = take ?sz (drop o' pIL)"
  define X where "X = (if is_branch op then (case a of Arg32 v \<Rightarrow> le_bytes ?sz (raw_delta op off sb v) | _ \<Rightarrow> [])
      else operand_bytes ?sz a)"
  define T where "T = take (length (opcode_bytes op)) (drop off pIL)"
  have "take (instr_size op) (drop off pIL) = T @ bs"
    unfolding isz take_add bs_def T_def by (simp add: o' add.commute)
  then have "opcode_bytes op @ X = T @ bs" using bytes by (simp add: raw_instr_def X_def)
  moreover have "length T = length (opcode_bytes op)" using len by (simp add: isz T_def)
  ultimately have bs: "bs = X" by simp
  have rd: "read_le n pIL o' = Inr (le_word bs)" if "n = ?sz" for n using lo by (simp add: read_le_ok bs_def that)
  have ok: "raw_ok op a off" "a = Zeroed \<Longrightarrow> op_flags op = 0" using a by (simp_all add: raw_normal_def)
  consider "op_flags op = 0" | "op_flags op \<in> {1, 2, 4, 8}" | "op_flags op = 17" | "op_flags op = 20"
    using flags(1,2) op(2) by auto
  then show ?thesis
  proof cases
    case 1
    then have "a = Zeroed" using ok(1) by (cases a) (auto simp: raw_ok_def is_branch_def)
    moreover have "set_arg x Zeroed s = s"
      using zero by (cases s; cases "heap s x") (auto simp: set_arg_def upd_instr_def fun_upd_idem)
    ultimately show ?thesis using 1 by (simp add: import_operand_def is_branch_def)
  next
    case 2
    then have nb: "\<not> is_branch op" by (auto simp: is_branch_def)
    then have "operand_ok {} (op_flags op) a" using ok(1) by (simp add: raw_ok_def)
    with 2 ok(2) nb bs show ?thesis
      unfolding X_def by (cases a) (auto simp: import_operand_def sz le_word_bytes rd take_bit_word_eq_self simp del: One_nat_def le_bytes.simps le_word.simps)
  next
    case 3
    then have br: "is_branch op" by (simp add: is_branch_def)
    then obtain v where v: "a = Arg32 v" "fits_int8 (v - of_nat (off + instr_size op))"
      using ok(1) 3 by (auto simp: raw_ok_def)
    have base: "of_nat (o' + 1) = (of_nat (off + instr_size op) :: u32)" using 3 by (simp add: o' isz sz)
    have "(le_word bs :: byte) = ucast (raw_delta op off sb v)"
      using bs br 3 v(1) by (simp add: sz X_def)
    then have "of_nat (o' + 1) + scast (le_word bs :: byte) = v"
      unfolding base using v(2) op'(3) by (simp add: raw_delta_def fits_int8_def del: of_nat_add)
    then show ?thesis
      using 3 br v(1) by (simp add: import_operand_def sz rd del: One_nat_def le_word.simps of_nat_add)
  next
    case 4
    then have br: "is_branch op" by (simp add: is_branch_def)
    then obtain v where v: "a = Arg32 v" using ok(1) by (auto simp: raw_ok_def)
    have base: "of_nat (o' + 4) = (of_nat (off + instr_size op) :: u32)" using 4 by (simp add: o' isz sz)
    have "(le_word bs :: u32) = raw_delta op off sb v" using bs br 4 v by (simp add: sz X_def le_word_bytes_4)
    then have "of_nat (o' + 4) + (le_word bs :: u32) = v"
      unfolding base using op'(3) by (simp add: raw_delta_def del: of_nat_add)
    then show ?thesis
      using 4 br v by (simp add: import_operand_def sz rd del: le_word.simps of_nat_add)
  qed
qed


section \<open>Reading the list\<close>

text \<open>What a step appends: nodes with the given opcodes and operands.\<close>

definition appended :: "ILRewriter \<Rightarrow> ptr list \<Rightarrow> raw \<Rightarrow> ILRewriter \<Rightarrow> ptr list \<Rightarrow> bool" where
  "appended s ps rs s' xs \<longleftrightarrow> il_ring s' (ps @ xs) \<and> il_list s' (ps @ xs) = il_list s ps @ rs
     \<and> m_CodeSize s' = m_CodeSize s"

lemma appended_trans:
  "appended s ps rs s1 xs \<Longrightarrow> appended s1 (ps @ xs) rs' s2 ys \<Longrightarrow> appended s ps (rs @ rs') s2 (xs @ ys)"
  by (simp add: appended_def)

lemma appended_node:
  assumes "il_ring s ps" and new: "append_instr op s = (x, s1)"
  shows "appended s ps [(op, a)] (set_arg x a s1) [x]"
    and "appended s ps [(op, a)] (set_arg x a (s1\<lparr>m_pOffsetToInstr := tbl\<rparr>)) [x]"
proof -
  note node = append_instr_node [OF assms]
  have "il_list (set_arg x a s1) ps = il_list s ps" "il_list (set_arg x a (s1\<lparr>m_pOffsetToInstr := tbl\<rparr>)) ps = il_list s ps"
    using node(2,3) by (auto intro!: il_list_cong)
  moreover have "il_ring (s1\<lparr>m_pOffsetToInstr := tbl\<rparr>) (ps @ [x])" using node(1) by (simp cong: il_ring_cong)
  ultimately show "appended s ps [(op, a)] (set_arg x a s1) [x]"
    "appended s ps [(op, a)] (set_arg x a (s1\<lparr>m_pOffsetToInstr := tbl\<rparr>)) [x]"
    using node(1,4,6) by (simp_all add: appended_def il_list_def same_members_def) (simp_all add: frame_simps)
qed

abbreviation switch_args :: "u32 list \<Rightarrow> raw" where
  "switch_args vs \<equiv> map (\<lambda>v. (CEE_SWITCH_ARG, Arg32 v)) vs"

lemma import_switch_args_forward:
  assumes "il_ring s ps" and "off + 4 * length vs \<le> m_CodeSize s"
    and N: "m_CodeSize s \<le> length pIL" "m_CodeSize s + 10 < 4294967296"
    and "take (4 * length vs) (drop off pIL) = raw_code (switch_args vs) off base"
  shows "\<exists>s' xs. import_switch_args pIL base (length vs) off s = Inr (off + 4 * length vs, s')
    \<and> appended s ps (switch_args vs) s' xs \<and> m_pOffsetToInstr s' = m_pOffsetToInstr s"
  using assms
proof (induction vs arbitrary: off s ps)
  case Nil
  then show ?case by (intro exI [of _ s] exI [of _ "[]"]) (simp add: appended_def)
next
  case (Cons v vs)
  define d where "d = v - of_nat base"
  have v: "v = of_nat base + d" by (simp add: d_def)
  obtain x s1 where ap: "append_instr CEE_SWITCH_ARG s = (x, s1)" by fastforce
  let ?s = "set_arg x (Arg32 v) s1"
  note app = appended_node(1) [OF Cons.prems(1) ap, of "Arg32 v"]
  have raw: "raw_code (switch_args (v # vs)) off base = le_bytes 4 d @ raw_code (switch_args vs) (off + 4) base"
    by (simp only: list.map raw_code.simps raw_switch_arg(3,4)) (simp only: v raw_switch_arg(2))
  have "take (4 * length (v # vs)) (drop off pIL) = take 4 (drop off pIL) @ take (4 * length vs) (drop (off + 4) pIL)"
    using take_add [of 4 "4 * length vs" "drop off pIL"] by (simp add: add.commute)
  then have "take 4 (drop off pIL) @ take (4 * length vs) (drop (off + 4) pIL) = le_bytes 4 d @ raw_code (switch_args vs) (off + 4) base"
    using Cons.prems(5) raw by simp
  moreover have "4 \<le> length pIL - off" using Cons.prems(2,3) by simp
  then have "length (take 4 (drop off pIL)) = length (le_bytes 4 d)" by simp
  ultimately have bytes: "take 4 (drop off pIL) = le_bytes 4 d" "take (4 * length vs) (drop (off + 4) pIL) = raw_code (switch_args vs) (off + 4) base"
    by simp_all
  have size: "m_CodeSize ?s = m_CodeSize s" and ring: "il_ring ?s (ps @ [x])" using app by (simp_all add: appended_def)
  have "off + 4 + 4 * length vs \<le> m_CodeSize ?s" "m_CodeSize ?s \<le> length pIL" "m_CodeSize ?s + 10 < 4294967296"
    using Cons.prems(2-4) by (simp_all add: size)
  from Cons.IH [OF ring this bytes(2)] obtain s' xs where
    IH: "import_switch_args pIL base (length vs) (off + 4) ?s = Inr (off + 4 + 4 * length vs, s')"
      "appended ?s (ps @ [x]) (switch_args vs) s' xs" "m_pOffsetToInstr s' = m_pOffsetToInstr ?s" by blast
  have "read_le 4 pIL off = Inr d" using Cons.prems(2,3) by (simp add: read_le_ok bytes(1) le_word_bytes_4)
  moreover have "w32 (off + 4) = off + 4" "\<not> off + 4 > m_CodeSize s" using Cons.prems(2,4) by simp_all
  ultimately have "import_switch_args pIL base (length (v # vs)) off s = Inr (off + 4 * length (v # vs), s')"
    using ap IH(1) by (auto simp: append_instr_def Let_def InsertBefore_set_arg v [symmetric] split: prod.splits)
  moreover have "m_pOffsetToInstr ?s = m_pOffsetToInstr s"
    using append_instr_node(9) [OF Cons.prems(1) ap] by (simp add: frame_simps)
  ultimately show ?case using appended_trans [OF app IH(2)] IH(3) by (intro exI [of _ s'] exI [of _ "x # xs"]) simp
qed

text \<open>An instruction with its targets, if it is a \<open>switch\<close>.\<close>

definition raw_group :: "nat \<Rightarrow> operand \<Rightarrow> u32 list \<Rightarrow> bool" where
  "raw_group op a vs \<longleftrightarrow> (if op = CEE_SWITCH then \<exists>n. a = Arg32 n \<and> unat n = length vs else plain_opcode op \<and> vs = [])"

lemma import_group_forward:
  assumes ring: "il_ring s ps" and group: "raw_group op a vs" and a: "raw_normal op a off"
    and le: "off + instr_size op + 4 * length vs \<le> m_CodeSize s"
    and N: "m_CodeSize s \<le> length pIL" "m_CodeSize s + 10 < 4294967296"
    and bytes: "take (instr_size op + 4 * length vs) (drop off pIL) = raw_code ((op, a) # switch_args vs) off sb"
  shows "\<exists>s' x xs br. import_instr pIL off s = Inr (off + instr_size op + 4 * length vs, br, s')
    \<and> appended s ps ((op, a) # switch_args vs) s' (x # xs) \<and> m_pOffsetToInstr s' = (m_pOffsetToInstr s)[off := Some x]"
proof -
  have plain: "plain_opcode op" and op: "op < CEE_COUNT" using group by (auto simp: raw_group_def plain_opcode_def split: if_splits)
  let ?l = "length (opcode_bytes op)"
  obtain x s1 where ap: "append_instr op s = (x, s1)" by fastforce
  let ?tbl = "(m_pOffsetToInstr s1)[off := Some x]"
  let ?s2 = "s1\<lparr>m_pOffsetToInstr := ?tbl\<rparr>"
  note node = append_instr_node [OF ring ap]
  note app = appended_node(2) [OF ring ap, of a ?tbl]
  have N1: "m_CodeSize s1 = m_CodeSize s" using node(6) by (simp add: same_members_def)
  have tbl: "?tbl = (m_pOffsetToInstr s)[off := Some x]" using node(9) by simp
  let ?c = "raw_code (switch_args vs) (off + instr_size op) (raw_base op a off sb)"
  have lo: "length (raw_instr op a off sb) = instr_size op"
  proof -
    have "operand_size op = length (if is_branch op then (case a of Arg32 v \<Rightarrow> le_bytes (operand_size op) (raw_delta op off sb v) | _ \<Rightarrow> [])
      else operand_bytes (operand_size op) a)"
      using a by (cases a) (auto simp: raw_normal_def raw_ok_def is_branch_def)
    then show ?thesis by (simp add: raw_instr_def instr_size_def)
  qed
  have "take (instr_size op) (drop off pIL) @ take (4 * length vs) (drop (off + instr_size op) pIL) = raw_instr op a off sb @ ?c"
    using bytes by (simp add: take_add add.commute)
  moreover have "instr_size op \<le> length pIL - off" using le N(1) by simp
  then have "length (take (instr_size op) (drop off pIL)) = length (raw_instr op a off sb)" by (simp add: lo)
  ultimately have b: "take (instr_size op) (drop off pIL) = raw_instr op a off sb"
    "take (4 * length vs) (drop (off + instr_size op) pIL) = ?c" by simp_all
  have "take ?l (take (instr_size op) (drop off pIL)) = opcode_bytes op" unfolding b by (simp add: raw_instr_def)
  then have ob: "take ?l (drop off pIL) = opcode_bytes op" by (simp add: instr_size_def min_def)
  have "import_opcode pIL off s = Inr (op, off + ?l)"
    using le by (intro import_opcode_forward [OF plain _ N ob]) (simp add: instr_size_def)
  then have run: "import_instr pIL off s =
      (if w32 (off + ?l + and (op_flags op) OPCODEFLAGS_SizeMask) > m_CodeSize s then Inl COR_E_INVALIDPROGRAM
       else bindE (import_operand pIL (op_flags op) x (off + ?l) ?s2) (\<lambda>(offset, branch, s).
         Inr (w32 (offset + and (op_flags op) OPCODEFLAGS_SizeMask), branch, s)))"
    by (simp add: import_instr_def ap Let_def)
  have zero: "m_arg (heap ?s2 x) = Zeroed" using node(5) by simp
  show ?thesis
  proof (cases "op = CEE_SWITCH")
    case False
    then have vs: "vs = []" using group by (simp add: raw_group_def)
    have "op_flags op \<noteq> 32" using op_flags_cases(2) [of op] False op by simp
    then have sz: "and (op_flags op) OPCODEFLAGS_SizeMask = operand_size op" by (simp add: operand_size_def)
    have isz: "off + ?l + operand_size op = off + instr_size op" by (simp add: instr_size_def)
    have w: "w32 (off + instr_size op) = off + instr_size op" using le N(2) by simp
    have "off + instr_size op \<le> length pIL" using le N(1) by simp
    note opd = import_operand_forward [OF op False zero a this refl b(1)]
    have "import_instr pIL off s = Inr (off + instr_size op, is_branch op, set_arg x a ?s2)"
      using le unfolding run opd sz isz w by (simp add: isz w)
    then show ?thesis using app tbl by (auto simp: vs frame_simps)
  next
    case True
    then obtain n where n: "a = Arg32 n" "unat n = length vs" using group by (auto simp: raw_group_def)
    note sw = raw_switch [of "le_bytes 4 n"]
    have fl: "op_flags op = 32" and l: "?l = 1" and five: "instr_size op = 5" unfolding True using sw(3-5) by simp_all
    let ?s3 = "set_arg x a ?s2"
    have "raw_instr CEE_SWITCH (Arg32 n) off sb = opcode_bytes CEE_SWITCH @ le_bytes 4 n"
      using sw(2) [of off sb] by (simp add: le_word_bytes_4)
    then have "take 5 (drop off pIL) = opcode_bytes op @ le_bytes 4 n" using b(1) True n(1) five by simp
    moreover have "take 5 (drop off pIL) = take 1 (drop off pIL) @ take 4 (drop (off + 1) pIL)"
      using take_add [of 1 4 "drop off pIL"] by (simp add: add.commute)
    ultimately have "take 4 (drop (off + 1) pIL) = le_bytes 4 n" using ob l by simp
    then have rd: "read_le 4 pIL (off + 1) = Inr n" using le N(1) five by (simp add: read_le_ok le_word_bytes_4)
    have w: "w32 (off + 1) = off + 1" "w32 (off + 1 + 4) = off + 5" "w32 (off + 5 + 4 * length vs) = off + 5 + 4 * length vs"
      using le N(2) five by simp_all
    have base: "raw_base op a off sb = w32 (off + 5 + length vs * 4)"
      unfolding True n(1) using sw(6) [of n off sb] n(2) by simp
    have "il_ring ?s3 (ps @ [x])" "m_CodeSize ?s3 = m_CodeSize s" using app by (simp_all add: appended_def)
    from import_switch_args_forward [OF this(1), of "off + 5" vs pIL "w32 (off + 5 + length vs * 4)", unfolded this(2)] le N b(2) five base
    obtain s' xs where args: "import_switch_args pIL (w32 (off + 5 + length vs * 4)) (length vs) (off + 5) ?s3 = Inr (off + 5 + 4 * length vs, s')"
      "appended ?s3 (ps @ [x]) (switch_args vs) s' xs" "m_pOffsetToInstr s' = m_pOffsetToInstr ?s3" by auto
    have opd: "import_operand pIL 32 x (off + 1) ?s2 =
        bindE (import_switch_args pIL (w32 (off + 5 + length vs * 4)) (length vs) (off + 5) ?s3) (\<lambda>(offset, s). Inr (offset, True, s))"
      using le five rd w unfolding import_operand_def by (simp add: N1 Let_def n ac_simps)
    have "import_instr pIL off s = Inr (off + instr_size op + 4 * length vs, True, s')"
      using le five w unfolding run fl l opd args(1) by simp
    then show ?thesis
      using appended_trans [OF app args(2)] args(3) tbl by (auto simp: frame_simps)
  qed
qed

text \<open>A list whose instructions are plain and whose \<open>switch\<close>es have their targets behind them; the first
  argument counts the targets that are still to come.\<close>

fun readable :: "nat \<Rightarrow> raw \<Rightarrow> bool" where
  "readable k [] \<longleftrightarrow> k = 0"
| "readable 0 ((op, a) # rs) \<longleftrightarrow>
     (if op = CEE_SWITCH then (case a of Arg32 v \<Rightarrow> readable (unat v) rs | Zeroed \<Rightarrow> readable 0 rs | _ \<Rightarrow> False)
      else plain_opcode op \<and> readable 0 rs)"
| "readable (Suc k) ((op, a) # rs) \<longleftrightarrow> op = CEE_SWITCH_ARG \<and> readable k rs"

abbreviation normal_operands :: "raw \<Rightarrow> bool" where
  "normal_operands rs \<equiv> list_all (\<lambda>(op, a). a = Zeroed \<longrightarrow> op_flags op = 0) rs"

lemma readable_args:
  "readable k rs \<Longrightarrow> raw_wf rs off \<Longrightarrow> \<exists>vs rs'. rs = switch_args vs @ rs' \<and> length vs = k \<and> readable 0 rs'"
proof (induction k rs arbitrary: off rule: readable.induct)
  case (3 k op a rs)
  then obtain vs rs' where "rs = switch_args vs @ rs'" "length vs = k" "readable 0 rs'"
    using 3(1) [of "off + instr_size op"] by auto
  moreover obtain v where "a = Arg32 v" using 3 raw_switch_arg(5) by (auto simp: raw_ok_def)
  ultimately show ?case using 3 by (intro exI [of _ "v # vs"] exI [of _ rs']) simp
qed (auto intro: exI [of _ "[]"])

lemma readable_group:
  assumes "readable 0 ((op, a) # rs)" "raw_wf ((op, a) # rs) off" "normal_operands ((op, a) # rs)"
  shows "\<exists>vs rs'. rs = switch_args vs @ rs' \<and> raw_group op a vs \<and> readable 0 rs'"
proof (cases "op = CEE_SWITCH")
  case False
  then show ?thesis using assms by (intro exI [of _ "[]"] exI [of _ rs]) (simp add: raw_group_def)
next
  case True
  have "op_flags CEE_SWITCH = 32" using raw_switch(4) [of "[0, 0, 0, 0]"] by simp
  then obtain n where "a = Arg32 n" "readable (unat n) rs"
    using assms True by (cases a) auto
  moreover have "raw_wf rs (off + instr_size op)" using assms(2) by simp
  ultimately obtain vs rs' where "rs = switch_args vs @ rs'" "length vs = unat n" "readable 0 rs'"
    using readable_args by blast
  then show ?thesis using True \<open>a = Arg32 n\<close> by (intro exI [of _ vs] exI [of _ rs']) (simp add: raw_group_def)
qed

text \<open>The offsets of the instructions lead to their nodes.\<close>

definition table_has :: "ptr option list \<Rightarrow> ptr list \<Rightarrow> raw \<Rightarrow> bool" where
  "table_has tbl ps rs \<longleftrightarrow> (\<forall>i < length rs. fst (rs ! i) \<noteq> CEE_SWITCH_ARG \<longrightarrow> tbl ! raw_size (take i rs) = Some (ps ! i))"

lemma raw_size_take:
  assumes "raw_wf rs off" "i < length rs"
  shows "raw_size (take i rs) < raw_size rs"
proof -
  have "raw_size rs = raw_size (take i rs) + raw_size (drop i rs)"
    by (metis append_take_drop_id map_append sum_list_append)
  moreover have "drop i rs = rs ! i # drop (Suc i) rs" using assms(2) by (simp add: Cons_nth_drop_Suc)
  moreover obtain o' where "raw_ok (fst (rs ! i)) (snd (rs ! i)) o'"
    using raw_wf_member [OF assms(1), of "fst (rs ! i)" "snd (rs ! i)"] assms(2) by auto
  then have "0 < instr_size (fst (rs ! i))" by (intro instr_size_pos) (simp_all add: raw_ok_def)
  ultimately show ?thesis by simp
qed

lemma table_has_group:
  assumes "table_has tbl ps rs" "length ps = length rs" "raw_wf rs off" "raw_size rs < length tbl"
  shows "table_has (tbl[raw_size rs := Some x]) (ps @ x # xs) (rs @ (op, a) # switch_args vs)"
  unfolding table_has_def
proof (intro allI impI)
  fix i let ?all = "rs @ (op, a) # switch_args vs"
  assume i: "i < length ?all" "fst (?all ! i) \<noteq> CEE_SWITCH_ARG"
  consider "i < length rs" | "i = length rs" | j where "i = Suc (length rs + j)" "j < length vs"
    using i(1) by (metis add_Suc_right length_append length_Cons length_map less_add_Suc1 linorder_neqE_nat nat_add_left_cancel_less
        less_imp_Suc_add not_less_eq)
  then show "tbl[raw_size rs := Some x] ! raw_size (take i ?all) = Some ((ps @ x # xs) ! i)"
  proof cases
    case 1
    then have "tbl ! raw_size (take i rs) = Some (ps ! i)" using assms(1) i(2) by (simp add: table_has_def nth_append)
    then show ?thesis using 1 raw_size_take [OF assms(3) 1] assms(2) by (simp add: nth_append)
  next
    case 2
    then have "(ps @ x # xs) ! i = x" using assms(2) by (metis nth_append_length)
    then show ?thesis using 2 assms(4) by simp
  next
    case 3
    then have "?all ! i = (CEE_SWITCH_ARG, Arg32 (vs ! j))" by (simp add: nth_append)
    then show ?thesis using i(2) by simp
  qed
qed

lemma length_raw_code: "raw_wf rs off \<Longrightarrow> length (raw_code rs off sb) = raw_size rs"
proof (induction rs off sb rule: raw_code.induct)
  case (2 op a rs off sb)
  then have "length (raw_instr op a off sb) = instr_size op"
    by (cases a) (auto simp: raw_ok_def is_branch_def raw_instr_def instr_size_def)
  then show ?case using 2 by simp
qed simp

lemma middle_bytes:
  assumes "take n xs = as @ bs @ cs" "n \<le> length xs"
  shows "take (length bs) (drop (length as) xs) = bs"
proof -
  have "xs = as @ bs @ cs @ drop n xs" using assms(1) by (metis append_take_drop_id append_assoc)
  then have "drop (length as) xs = bs @ cs @ drop n xs" by (metis append_eq_conv_conj)
  then show ?thesis by simp
qed

lemma import_loop_forward:
  assumes "il_ring s ps" "il_list s ps = rs1" and "off = raw_size rs1"
    and "raw_wf (rs1 @ rs2) 0" "normal_operands rs2" "readable 0 rs2" "raw_size (rs1 @ rs2) = m_CodeSize s"
    and "m_CodeSize s \<le> length pIL" "m_CodeSize s + 10 < 4294967296"
    and "take (m_CodeSize s) pIL = raw_code (rs1 @ rs2) 0 0" and "m_CodeSize s - off \<le> k"
    and "table_has (m_pOffsetToInstr s) ps rs1" "length (m_pOffsetToInstr s) = Suc (m_CodeSize s)"
      "m_pOffsetToInstr s ! m_CodeSize s = Some m_IL"
  shows "\<exists>fb' s' qs. import_loop k pIL off fb s = Inr (m_CodeSize s, fb', s') \<and> il_ring s' qs
    \<and> il_list s' qs = rs1 @ rs2 \<and> m_CodeSize s' = m_CodeSize s \<and> table_has (m_pOffsetToInstr s') qs (rs1 @ rs2)
    \<and> m_pOffsetToInstr s' ! m_CodeSize s = Some m_IL"
  using assms
proof (induction k arbitrary: off fb s ps rs1 rs2)
  case 0
  show ?case
  proof (cases rs2)
    case Nil
    then show ?thesis using 0 by auto
  next
    case (Cons r rs)
    have "raw_size rs1 < raw_size (rs1 @ rs2)" using raw_size_take [OF 0(4), of "length rs1"] Cons by simp
    then have "off < m_CodeSize s" using 0(3,7) by (simp add: comp_def)
    then show ?thesis using 0(11) by simp
  qed
next
  case (Suc k)
  show ?case
  proof (cases rs2)
    case Nil
    then show ?thesis using Suc.prems by auto
  next
    case (Cons r rs)
    obtain op a where r: "r = (op, a)" by fastforce
    have wf: "raw_wf rs1 0" "raw_wf ((op, a) # rs) off" using Suc.prems(3,4) unfolding Cons r by (simp_all add: comp_def)
    obtain vs rs' where rs: "rs = switch_args vs @ rs'" "raw_group op a vs" "readable 0 rs'"
      using readable_group [OF _ wf(2)] Suc.prems(5,6) unfolding Cons r by blast
    let ?g = "(op, a) # switch_args vs"
    note args = comp_def raw_switch_arg(3) sum_list_triv
    have size: "m_CodeSize s = off + instr_size op + 4 * length vs + raw_size rs'"
      using Suc.prems(3,7) unfolding Cons r rs(1) by (simp add: args)
    have pos: "0 < instr_size op" using wf(2) by (intro instr_size_pos) (simp_all add: raw_ok_def)
    then have off: "off < m_CodeSize s" using size by simp
    let ?sb = "raw_sb rs1 0 0"
    have "raw_code (rs1 @ rs2) 0 0 = raw_code rs1 0 0 @ raw_code (?g @ rs') off ?sb"
      using Suc.prems(3) unfolding Cons r rs(1) by (simp add: comp_def)
    also have "\<dots> = raw_code rs1 0 0 @ raw_code ?g off ?sb @ raw_code rs' (off + raw_size ?g) (raw_sb ?g off ?sb)"
      unfolding raw_append by simp
    finally have code: "take (m_CodeSize s) pIL = \<dots>" using Suc.prems(10) by simp
    have wfg: "raw_wf ?g off" using wf(2) unfolding rs(1) by simp
    have lens: "length (raw_code rs1 0 0) = off" "length (raw_code ?g off ?sb) = instr_size op + 4 * length vs"
      using length_raw_code [OF wf(1), of 0] length_raw_code [OF wfg, of ?sb] Suc.prems(3) by (simp_all add: args)
    have bytes: "take (instr_size op + 4 * length vs) (drop off pIL) = raw_code ?g off ?sb"
      using middle_bytes [OF code Suc.prems(8)] unfolding lens .
    have nrm: "raw_normal op a off" using wf(2) Suc.prems(5) by (simp add: raw_normal_def Cons r)
    have le: "off + instr_size op + 4 * length vs \<le> m_CodeSize s" using size by simp
    from import_group_forward [OF Suc.prems(1) rs(2) nrm le Suc.prems(8,9) bytes] obtain s' x xs br where
      run: "import_instr pIL off s = Inr (off + instr_size op + 4 * length vs, br, s')"
      and app: "appended s ps ?g s' (x # xs)" and tbl: "m_pOffsetToInstr s' = (m_pOffsetToInstr s)[off := Some x]" by blast
    have s': "il_ring s' (ps @ x # xs)" "il_list s' (ps @ x # xs) = rs1 @ ?g" "m_CodeSize s' = m_CodeSize s"
      using app Suc.prems(2) by (simp_all add: appended_def)
    have all: "(rs1 @ ?g) @ rs' = rs1 @ rs2" unfolding Cons r rs(1) by simp
    have len: "length ps = length rs1" using Suc.prems(2) by (auto simp: il_list_def)
    have tbl': "table_has (m_pOffsetToInstr s') (ps @ x # xs) (rs1 @ ?g)"
      unfolding tbl Suc.prems(3) using Suc.prems(3,13) off by (intro table_has_group [OF Suc.prems(12) len wf(1)]) (simp add: comp_def)
    have "off + instr_size op + 4 * length vs = raw_size (rs1 @ ?g)" using Suc.prems(3) by (simp add: args)
    note IH = Suc.IH [OF s'(1,2) this, where ?rs2.0 = rs', unfolded all s'(3)]
    have "\<exists>fb' t qs. import_loop k pIL (off + instr_size op + 4 * length vs) (fb \<or> br) s' = Inr (m_CodeSize s, fb', t) \<and> il_ring t qs
      \<and> il_list t qs = rs1 @ rs2 \<and> m_CodeSize t = m_CodeSize s \<and> table_has (m_pOffsetToInstr t) qs (rs1 @ rs2)
      \<and> m_pOffsetToInstr t ! m_CodeSize s = Some m_IL"
      using Suc.prems pos off tbl' rs(3) by (intro IH) (simp_all add: Cons r rs(1) tbl comp_def)
    then show ?thesis using off by (simp add: run)
  qed
qed

section \<open>The list that has been written\<close>

text \<open>A member that has not been written is read back as a zero of the width of the operand.\<close>

definition zero_operand :: "nat \<Rightarrow> operand" where
  "zero_operand fl = (if fl = 1 then Arg8 0 else if fl = 2 then Arg16 0 else if fl = 4 \<or> fl = 32 then Arg32 0
     else if fl = 8 then Arg64 0 else Zeroed)"

fun written :: "(ptr \<Rightarrow> ILInstr) \<Rightarrow> nat \<Rightarrow> operand \<Rightarrow> operand" where
  "written h fl (Target t) = Arg32 (of_nat (m_offset (h t)))"
| "written h fl Zeroed = zero_operand fl"
| "written h fl a = a"

definition written_list :: "(ptr \<Rightarrow> ILInstr) \<Rightarrow> ptr list \<Rightarrow> raw" where
  "written_list h ps = map (\<lambda>p. (m_opcode (h p), written h (op_flags (m_opcode (h p))) (m_arg (h p)))) ps"

lemma readable_written: "readable k (il_list s ps) \<Longrightarrow> readable k (written_list (heap s) ps)"
proof (induction ps arbitrary: k)
  case (Cons p ps)
  have "op_flags CEE_SWITCH = 32" using raw_switch(4) [of "[0, 0, 0, 0]"] by simp
  then show ?case
    using Cons by (cases k; cases "m_arg (heap s p)") (auto simp: il_list_def written_list_def zero_operand_def split: if_splits)
qed (simp add: il_list_def written_list_def)

lemma readable_opcodes: "readable k rs \<Longrightarrow> r \<in> set rs \<Longrightarrow> fst r \<noteq> CEE_COUNT"
  by (induction k rs rule: readable.induct) (auto simp: plain_opcode_def split: if_splits operand.splits)

lemma le_bytes_0 [simp]: "le_bytes n 0 = replicate n 0"
  by (induction n) simp_all

lemma written_instr:
  assumes ok: "instr_ok P (h p)" "m_opcode (h p) \<noteq> CEE_COUNT" and off: "m_offset (h p) = off"
    and nxt: "m_offset (h (m_pNext (h p))) = off + instr_size (m_opcode (h p))" and fits: "\<not> needs_widening h p"
  shows "raw_ok (m_opcode (h p)) (written h (op_flags (m_opcode (h p))) (m_arg (h p))) off"
    "enc_instr h sb p = raw_instr (m_opcode (h p)) (written h (op_flags (m_opcode (h p))) (m_arg (h p))) off sb"
    "next_switch_base h p sb = raw_base (m_opcode (h p)) (written h (op_flags (m_opcode (h p))) (m_arg (h p))) off sb"
    "written h (op_flags (m_opcode (h p))) (m_arg (h p)) = Zeroed \<longrightarrow> op_flags (m_opcode (h p)) = 0"
proof -
  let ?op = "m_opcode (h p)" and ?a = "m_arg (h p)"
  let ?w = "written h (op_flags ?op) ?a"
  have op: "?op < 296" "operand_ok P (op_flags ?op) ?a" using ok by (simp_all add: instr_ok_def)
  note flags = op_flags_cases(1,2) [OF op(1)]
  have "raw_ok ?op ?w off \<and> enc_instr h sb p = raw_instr ?op ?w off sb
    \<and> next_switch_base h p sb = raw_base ?op ?w off sb \<and> (?w = Zeroed \<longrightarrow> op_flags ?op = 0)"
  proof (cases "is_branch ?op")
    case True
    then obtain t where t: "?a = Target t" using op(2) by (cases ?a) (auto simp: is_branch_def)
    have "op_flags ?op = 17 \<longrightarrow> fits_int8 (of_nat (m_offset (h t)) - of_nat (off + instr_size ?op))"
      using fits t by (auto simp: needs_widening_def target_delta_def branch_delta_def nxt)
    moreover have "?op \<noteq> CEE_SWITCH" using True flags(2) by (auto simp: is_branch_def)
    ultimately show ?thesis
      using True t op(1) ok(2) off
      by (simp add: raw_ok_def enc_instr_def raw_instr_def branch_delta_def branch_base_def raw_delta_def next_switch_base_def raw_base_def)
  next
    case False
    then have nb: "op_flags ?op \<noteq> 17" "op_flags ?op \<noteq> 20" by (simp_all add: is_branch_def)
    have "operand_ok {} (op_flags ?op) ?w" "?w = Zeroed \<longrightarrow> op_flags ?op = 0"
      using op(2) nb flags(1) by (cases ?a; auto simp: zero_operand_def)+
    moreover have "enc_instr h sb p = raw_instr ?op ?w off sb"
      using op(2) nb False by (cases ?a) (auto simp: enc_instr_def raw_instr_def zero_operand_def)
    moreover have "next_switch_base h p sb = raw_base ?op ?w off sb"
      using op(2) nb off flags(2) by (cases ?a) (auto simp: next_switch_base_def raw_base_def zero_operand_def)
    ultimately show ?thesis
      using False op(1) ok(2) by (simp add: raw_ok_def)
  qed
  then show "raw_ok ?op ?w off" "enc_instr h sb p = raw_instr ?op ?w off sb" "next_switch_base h p sb = raw_base ?op ?w off sb"
    "?w = Zeroed \<longrightarrow> op_flags ?op = 0" by blast+
qed

lemma written_raw:
  assumes "\<forall>p \<in> set ps. instr_ok P (h p) \<and> m_opcode (h p) \<noteq> CEE_COUNT"
    and "laid_out h off ps" "linked h (ps @ [m_IL])" "\<not> list_ex (needs_widening h) ps"
  shows "raw_wf (written_list h ps) off \<and> enc_code h sb ps = raw_code (written_list h ps) off sb
    \<and> normal_operands (written_list h ps) \<and> raw_size (written_list h ps) = code_size h ps"
  using assms
proof (induction ps arbitrary: off sb)
  case (Cons p ps)
  have nxt: "m_offset (h (m_pNext (h p))) = off + instr_size (m_opcode (h p))"
    by (rule laid_out_next) (use Cons.prems in auto)
  have "instr_ok P (h p)" "m_opcode (h p) \<noteq> CEE_COUNT" "m_offset (h p) = off" "\<not> needs_widening h p"
    using Cons.prems by simp_all
  note raw = written_instr [OF this(1-3) nxt this(4)]
  have "linked h (ps @ [m_IL])" using Cons.prems(3) by (cases ps) auto
  then show ?case
    using Cons.IH [of "off + instr_size (m_opcode (h p))" "next_switch_base h p sb"] Cons.prems raw
    by (simp add: written_list_def)
qed (simp add: written_list_def)

section \<open>Reading back\<close>

lemma resolve_known:
  assumes "m_opcode (heap s p) < 296" "length (m_pOffsetToInstr s) = Suc (m_CodeSize s)"
    and "is_branch (m_opcode (heap s p)) \<Longrightarrow> target_known s (m_arg (heap s p))"
  shows "resolve_target p s = Inr (resolved s [p])"
proof (rule resolve_target_cases [OF assms(1,2)])
  show "\<exists>v. m_arg (heap s p) = Arg32 v" if "is_branch (m_opcode (heap s p))"
    using assms(3) [OF that] by (auto simp: target_known_def)
  assume bad: "resolve_target p s = Inl COR_E_INVALIDPROGRAM"
  then have "is_branch (m_opcode (heap s p))" unfolding resolve_target_def branch_flag [OF assms(1)] by (simp split: if_splits)
  moreover from assms(3) [OF this] obtain v t where "m_arg (heap s p) = Arg32 v" "unat v \<le> m_CodeSize s"
    "m_pOffsetToInstr s ! unat v = Some t" by (auto simp: target_known_def)
  ultimately show ?thesis
    using bad assms(2) unfolding resolve_target_def branch_flag [OF assms(1)] by (simp add: GetInstrFromOffset_def)
qed

lemma foldE_resolve_known:
  assumes "\<And>p. p \<in> set ps \<Longrightarrow> m_opcode (heap s p) < 296" "length (m_pOffsetToInstr s) = Suc (m_CodeSize s)"
    and "\<And>p. p \<in> set ps \<Longrightarrow> is_branch (m_opcode (heap s p)) \<Longrightarrow> target_known s (m_arg (heap s p))" and "distinct ps"
  shows "foldE resolve_target ps s = Inr (resolved s ps)"
  using assms
proof (induction ps arbitrary: s)
  case Nil
  then show ?case by (simp add: resolved_def)
next
  case (Cons p ps)
  let ?s = "resolved s [p]"
  have other: "heap ?s q = heap s q" if "q \<in> set ps" for q
    using that Cons.prems(4) by (auto simp: resolved_def)
  have known: "target_known ?s a = target_known s a" for a
    by (cases a) (simp_all add: target_known_def resolved_def)
  have "resolve_target p s = Inr ?s" using Cons.prems by (intro resolve_known) simp_all
  moreover have "foldE resolve_target ps ?s = Inr (resolved ?s ps)"
    using Cons.prems by (intro Cons.IH) (simp_all add: other known, simp add: resolved_def)
  ultimately show ?case using Cons.prems(4) resolved_Cons [of p ps s] by simp
qed

text \<open>The node that stands where \<open>t\<close> stood, in a list \<open>qs\<close> that was made of \<open>ps\<close>.\<close>

definition moved :: "ptr list \<Rightarrow> ptr list \<Rightarrow> ptr \<Rightarrow> ptr" where
  "moved ps qs t = (case map_of (zip ps qs) t of Some q \<Rightarrow> q | None \<Rightarrow> m_IL)"

fun moved_operand :: "ptr list \<Rightarrow> ptr list \<Rightarrow> nat \<Rightarrow> operand \<Rightarrow> operand" where
  "moved_operand ps qs fl (Target t) = Target (moved ps qs t)"
| "moved_operand ps qs fl Zeroed = zero_operand fl"
| "moved_operand ps qs fl a = a"

text \<open>The same instructions at other addresses.\<close>

definition same_code :: "(ptr \<Rightarrow> ILInstr) \<Rightarrow> ptr list \<Rightarrow> (ptr \<Rightarrow> ILInstr) \<Rightarrow> ptr list \<Rightarrow> bool" where
  "same_code h ps g qs \<longleftrightarrow> list_all2 (\<lambda>p q. m_opcode (g q) = m_opcode (h p)
     \<and> m_arg (g q) = moved_operand ps qs (op_flags (m_opcode (h p))) (m_arg (h p))) ps qs"

text \<open>Targets that can be found again: the end of the list, or an instruction that is not itself the target
  of a \<open>switch\<close>.\<close>

definition findable :: "(ptr \<Rightarrow> ILInstr) \<Rightarrow> ptr list \<Rightarrow> ptr \<Rightarrow> bool" where
  "findable h ps t \<longleftrightarrow> t = m_IL \<or> t \<in> set ps \<and> m_opcode (h t) \<noteq> CEE_SWITCH_ARG"

lemma moved_simps:
  assumes "distinct ps" "length qs = length ps" "m_IL \<notin> set ps"
  shows "j < length ps \<Longrightarrow> moved ps qs (ps ! j) = qs ! j" "moved ps qs m_IL = m_IL"
proof -
  show "j < length ps \<Longrightarrow> moved ps qs (ps ! j) = qs ! j"
    using assms(1,2) by (simp add: moved_def map_of_zip_nth)
  have "map_of (zip ps qs) m_IL = None" using assms(2,3) by (simp add: map_of_zip_is_None)
  then show "moved ps qs m_IL = m_IL" by (simp add: moved_def)
qed

lemma ImportIL_reads:
  assumes set: "settled s ps" and read: "readable 0 (il_list s ps)"
    and targets: "\<forall>p \<in> set ps. \<forall>t. m_arg (heap s p) = Target t \<longrightarrow> findable (heap s) ps t"
    and r: "il_ring r []" "m_nInstrs r = 0" "m_maxStack r < 4294967296" "m_CodeSize r = code_size (heap s) ps"
    and N: "m_CodeSize r \<le> length pIL" "m_CodeSize r + 10 < 4294967296"
    and code: "take (m_CodeSize r) pIL = enc_code (heap s) 0 ps"
  shows "\<exists>r' qs. ImportIL pIL r = Inr r' \<and> import_result pIL r r' qs \<and> same_code (heap s) ps (heap r') qs
    \<and> (\<forall>t. findable (heap s) ps t \<longrightarrow> GetInstrFromOffset (m_offset (heap s t)) r' = Inr (moved ps qs t))"
proof -
  define h where "h = heap s"
  define rs where "rs = written_list h ps"
  define N where "N = m_CodeSize r"
  have wf: "il_wf s ps" and lo: "laid_out h 0 ps" and fits: "\<not> list_ex (needs_widening h) ps"
    using set by (simp_all add: settled_def h_def)
  then have ring: "il_ring s ps" by (simp add: il_wf_def)
  then have dist: "distinct ps" "m_IL \<notin> set ps" by (auto simp: il_ring_def)
  have op: "\<forall>p \<in> set ps. instr_ok (insert m_IL (set ps)) (h p) \<and> m_opcode (h p) \<noteq> CEE_COUNT"
  proof
    fix p assume p: "p \<in> set ps"
    then have "(m_opcode (h p), m_arg (h p)) \<in> set (il_list s ps)" by (simp add: il_list_def h_def)
    then have "m_opcode (h p) \<noteq> CEE_COUNT" using readable_opcodes [OF read] by fastforce
    then show "instr_ok (insert m_IL (set ps)) (h p) \<and> m_opcode (h p) \<noteq> CEE_COUNT" using wf p by (simp add: il_wf_def h_def)
  qed
  have w: "raw_wf rs 0" "enc_code h 0 ps = raw_code rs 0 0" "normal_operands rs" "raw_size rs = N"
    using written_raw [OF op lo _ fits, of 0] il_ring_linked [OF ring] r(4) by (simp_all add: rs_def h_def N_def)
  let ?s = "set_opcode m_IL 0xFFFFFFFF (r\<lparr>m_pOffsetToInstr := replicate N None @ [Some m_IL]\<rparr>)"
  have Ns: "m_CodeSize ?s = N" by (simp add: frame_simps N_def)
  note start = imported_start [OF r(1-3), of pIL, folded N_def]
  have ring0: "il_ring ?s []" using start by (simp add: imported_def)
  have "\<exists>fb' s' qs. import_loop N pIL 0 False ?s = Inr (N, fb', s') \<and> il_ring s' qs
    \<and> il_list s' qs = [] @ rs \<and> m_CodeSize s' = N \<and> table_has (m_pOffsetToInstr s') qs ([] @ rs)
    \<and> m_pOffsetToInstr s' ! N = Some m_IL"
    by (rule import_loop_forward [OF ring0, of "[]" 0 rs, unfolded Ns])
      (use w assms(8,9) code readable_written [OF read] in \<open>simp_all add: il_list_def rs_def h_def N_def table_has_def frame_simps nth_append\<close>)
  then obtain fb s1 qs where loop: "import_loop N pIL 0 False ?s = Inr (N, fb, s1)"
    and s1: "il_ring s1 qs" "il_list s1 qs = rs" "table_has (m_pOffsetToInstr s1) qs rs" "m_pOffsetToInstr s1 ! N = Some m_IL" "m_CodeSize s1 = N"
    by auto
  let ?tbl = "m_pOffsetToInstr s1"
  have len: "length qs = length ps" using arg_cong [OF s1(2), of length] by (simp add: il_list_def rs_def written_list_def)
  have node: "m_opcode (heap s1 (qs ! i)) = m_opcode (h (ps ! i))"
    "m_arg (heap s1 (qs ! i)) = written h (op_flags (m_opcode (h (ps ! i)))) (m_arg (h (ps ! i)))" if "i < length ps" for i
    using arg_cong [OF s1(2), of "\<lambda>l. l ! i"] that len by (simp_all add: il_list_def rs_def written_list_def)
  from import_loop_ok [OF start, of N False] loop assms(8,9) obtain qs' where
    imp: "imported pIL r N s1 qs'" and fb: "fb \<or> (\<forall>q \<in> set qs'. \<not> is_branch (m_opcode (heap s1 q)))"
    unfolding Ns by (auto simp: N_def)
  have "il_ring s1 qs'" using imp by (simp add: imported_def)
  then have "il_nodes s1 = Inr qs" "il_nodes s1 = Inr qs'" using il_nodes_ring s1(1) by blast+
  then have qs': "qs' = qs" by simp
  have found: "m_offset (h t) \<le> N \<and> ?tbl ! m_offset (h t) = Some (moved ps qs t)" if t: "findable h ps t" for t
  proof (cases "t = m_IL")
    case True
    then show ?thesis
      using laid_out_end [OF lo] r(4) s1(4) moved_simps(2) [OF dist(1) len dist(2)] by (simp add: h_def N_def)
  next
    case False
    then obtain j where j: "j < length ps" "t = ps ! j" using t by (auto simp: findable_def in_set_conv_nth)
    have take: "raw_size (take j rs) = code_size h (take j ps)"
      by (simp add: rs_def written_list_def take_map code_size_def comp_def)
    have "ps = take j ps @ t # drop (Suc j) ps" using j id_take_nth_drop by blast
    then have "starts_at h ps t (raw_size (take j rs))" unfolding starts_at_def take by blast
    from laid_out_starts [OF lo this] have off: "m_offset (h t) = raw_size (take j rs)" by simp
    have jr: "j < length rs" "fst (rs ! j) \<noteq> CEE_SWITCH_ARG"
      using j t False by (simp_all add: rs_def written_list_def findable_def)
    have "raw_size (take j rs) < N" using raw_size_take [OF w(1) jr(1)] w(4) by simp
    then show ?thesis
      using s1(3) jr j moved_simps(1) [OF dist(1) len dist(2) j(1)] unfolding off by (simp add: table_has_def)
  qed
  have again: "unat (of_nat (m_offset (h t)) :: u32) = m_offset (h t)" if "findable h ps t" for t
    using found [OF that] assms(9) by (simp add: unat_of_nat N_def)
  have arg: "m_arg (heap s1 (qs ! i)) = Arg32 (of_nat (m_offset (h t)))" "findable h ps t"
    if "i < length ps" "m_arg (h (ps ! i)) = Target t" for i t
    using node(2) [OF that(1)] targets nth_mem [OF that(1)] that by (auto simp: h_def)
  have opi: "m_opcode (h (ps ! i)) < 296" "operand_ok (insert m_IL (set ps)) (op_flags (m_opcode (h (ps ! i)))) (m_arg (h (ps ! i)))"
    if "i < length ps" for i using op nth_mem [OF that] by (simp_all add: instr_ok_def)
  have branch: "\<exists>t. m_arg (h (ps ! i)) = Target t" if "i < length ps" "is_branch (m_opcode (h (ps ! i)))" for i
    using opi [OF that(1)] that(2) by (cases "m_arg (h (ps ! i))") (auto simp: is_branch_def)
  have target: "target_of s1 (Arg32 (of_nat (m_offset (h t)))) = moved ps qs t" if "findable h ps t" for t
    using found [OF that] again [OF that] by simp
  have known: "target_known s1 (m_arg (heap s1 q))" if q: "q \<in> set qs" and b: "is_branch (m_opcode (heap s1 q))" for q
  proof -
    obtain i where i: "i < length ps" "q = qs ! i" using q len by (auto simp: in_set_conv_nth)
    then obtain t where "m_arg (h (ps ! i)) = Target t" using branch b node(1) by auto
    note a = arg [OF i(1) this]
    show ?thesis
      unfolding i(2) a(1) target_known_def using found [OF a(2)] again [OF a(2)] target [OF a(2)] s1(5) by auto
  qed
  have size: "length ?tbl = Suc (m_CodeSize s1)" and dq: "distinct qs" using imp qs' by (simp_all add: imported_def table_ok_def il_ring_def)
  have small: "\<And>q. q \<in> set qs \<Longrightarrow> m_opcode (heap s1 q) < 296"
    using opi(1) node(1) len by (auto simp: in_set_conv_nth)
  have run: "ImportIL pIL r = Inr (resolved s1 qs)"
  proof -
    have "ImportIL pIL r = (if fb then bindE (il_nodes s1) (\<lambda>ps. foldE resolve_target ps s1) else Inr s1)"
      using loop s1(5) by (simp add: ImportIL_def Let_def frame_simps N_def)
    then show ?thesis
      using foldE_resolve_known [OF small size known dq] resolved_id [of qs s1] fb s1(1) by (auto simp: il_nodes_ring qs')
  qed
  have res: "import_result pIL r (resolved s1 qs) qs"
    using known assms(9) by (intro resolved_result) (use imp qs' in \<open>simp_all add: N_def\<close>)
  have "same_code h ps (heap (resolved s1 qs)) qs"
    unfolding same_code_def list_all2_conv_all_nth
  proof (intro conjI allI impI)
    fix i assume i: "i < length ps"
    let ?a = "m_arg (h (ps ! i))" and ?op = "m_opcode (h (ps ! i))"
    show "m_opcode (heap (resolved s1 qs) (qs ! i)) = ?op"
      using node(1) [OF i] by (simp add: resolved_def resolve_node_def)
    have q: "qs ! i \<in> set qs" using i len by simp
    show "m_arg (heap (resolved s1 qs) (qs ! i)) = moved_operand ps qs (op_flags ?op) ?a"
    proof (cases "is_branch ?op")
      case True
      then obtain t where t: "?a = Target t" using branch i by blast
      note a = arg [OF i t]
      show ?thesis using True q t a(1) target [OF a(2)] node(1) [OF i] by (simp add: resolved_def resolve_node_def)
    next
      case False
      have "written h (op_flags ?op) ?a = moved_operand ps qs (op_flags ?op) ?a"
        using opi(2) [OF i] False by (cases ?a) (auto simp: is_branch_def)
      then show ?thesis using False node [OF i] by (simp add: resolved_def resolve_node_def)
    qed
  qed (use len in simp)
  moreover have "GetInstrFromOffset (m_offset (h t)) (resolved s1 qs) = Inr (moved ps qs t)" if "findable h ps t" for t
    using found [OF that] s1(5) size by (simp add: GetInstrFromOffset_def resolved_def)
  ultimately show ?thesis using run res unfolding h_def by blast
qed

section \<open>Whole bodies\<close>

lemma widen_all_frame:
  "m_nEH (widen_all qs s) = m_nEH s" "m_pEH (widen_all qs s) = m_pEH s" "m_flags (widen_all qs s) = m_flags s"
  "m_maxStack (widen_all qs s) = m_maxStack s" "m_tkLocalVarSig (widen_all qs s) = m_tkLocalVarSig s"
  "m_fGenerateTinyHeader (widen_all qs s) = m_fGenerateTinyHeader s"
  by (induction qs arbitrary: s) (simp_all add: frame_simps)

lemma export_state_frame:
  "m_nEH (export_state ps s) = m_nEH s" "m_pEH (export_state ps s) = m_pEH s" "m_flags (export_state ps s) = m_flags s"
  "m_maxStack (export_state ps s) = m_maxStack s" "m_tkLocalVarSig (export_state ps s) = m_tkLocalVarSig s"
  "m_fGenerateTinyHeader (export_state ps s) = m_fGenerateTinyHeader s"
proof -
  have "m_nEH (settle k ps s) = m_nEH s \<and> m_pEH (settle k ps s) = m_pEH s \<and> m_flags (settle k ps s) = m_flags s
    \<and> m_maxStack (settle k ps s) = m_maxStack s \<and> m_tkLocalVarSig (settle k ps s) = m_tkLocalVarSig s
    \<and> m_fGenerateTinyHeader (settle k ps s) = m_fGenerateTinyHeader s" for k
    by (induction k arbitrary: s) (simp_all add: Let_def widen_all_frame)
  then show "m_nEH (export_state ps s) = m_nEH s" "m_pEH (export_state ps s) = m_pEH s" "m_flags (export_state ps s) = m_flags s"
    "m_maxStack (export_state ps s) = m_maxStack s" "m_tkLocalVarSig (export_state ps s) = m_tkLocalVarSig s"
    "m_fGenerateTinyHeader (export_state ps s) = m_fGenerateTinyHeader s" unfolding export_state_def by blast+
qed

text \<open>What \<open>Export\<close> hands over.\<close>

definition exported_code :: "ptr list \<Rightarrow> ILRewriter \<Rightarrow> byte list" where
  "exported_code ps s = enc_code (heap (export_state ps s)) 0 ps"

lemma length_exported: "il_wf s ps \<Longrightarrow> 10 * m_nInstrs s + 10 < 4294967296 \<Longrightarrow> length (exported_code ps s) = code_size (heap (export_state ps s)) ps
    \<and> length (exported_code ps s) \<le> 10 * m_nInstrs s"
proof -
  assume wf: "il_wf s ps" and small: "10 * m_nInstrs s + 10 < 4294967296"
  have "il_wf (export_state ps s) ps"
    using ExportCode_raw(1) [OF wf small, of "\<lambda>n. replicate n 0"] by (simp add: settled_def)
  then have ok: "\<And>p. p \<in> set ps \<Longrightarrow> instr_ok (insert m_IL (set ps)) (heap (export_state ps s) p)" by (simp add: il_wf_def)
  have "length (exported_code ps s) = code_size (heap (export_state ps s)) ps"
    unfolding exported_code_def using ok by (rule length_enc_code)
  moreover have "code_size (heap (export_state ps s)) ps \<le> 10 * length ps"
    using ok by (intro code_size_le) (force simp: instr_ok_def)
  ultimately show ?thesis using wf by (simp add: il_wf_def)
qed

lemma length_export_clauses:
  assumes "export_clauses s = Inr clauses"
  shows "length clauses = (if m_nEH s \<noteq> 0 then 4 + 24 * m_nEH s else 0)"
proof -
  have "length (concat (map (export_clause s) cs)) = 24 * length cs" for cs
    by (induction cs) (simp_all add: export_clause_def Let_def)
  then show ?thesis
    using assms by (auto simp: export_clauses_def fat_section_def not_less split: if_splits option.splits)
qed

lemma Export_body:
  assumes wf: "il_wf s ps" and small: "10 * m_nInstrs s + 10 < 4294967296"
    and new: "\<And>n. length (new n) = n" and alloc: "\<forall>n m. alloc n = Some m \<longrightarrow> length m = n"
    and total: "length (exported_code ps s) + 24 * m_nEH s + 19 < 4294967296"
    and run: "Export new alloc set_body s = Inr (body, s')"
  shows "s' = export_state ps s"
    and "m_fGenerateTinyHeader s \<Longrightarrow> length (exported_code ps s) < 64 \<and> body = of_nat (or 2 (length (exported_code ps s) * 4)) # exported_code ps s"
    and "\<not> m_fGenerateTinyHeader s \<Longrightarrow> \<exists>pad clauses. length pad = alignedCodeSize (length (exported_code ps s)) - length (exported_code ps s)
      \<and> export_clauses (export_state ps s) = Inr clauses
      \<and> body = fat_header (m_flags s OR (if m_nEH s \<noteq> 0 then CorILMethod_MoreSects else 0) OR CorILMethod_FatFormat)
          (m_maxStack s) (length (exported_code ps s)) (m_tkLocalVarSig s) @ exported_code ps s @ pad @ clauses"
proof -
  let ?code = "exported_code ps s" and ?e = "export_state ps s"
  have ec: "ExportCode new s = Inr (?code, ?e)" using ExportCode_raw(2) [OF wf small new] by (simp add: exported_code_def)
  note fr = export_state_frame [of ps s]
  let ?n = "length ?code"
  have al: "?n \<le> alignedCodeSize ?n" "alignedCodeSize ?n \<le> ?n + 3"
    using alignedCodeSize_le [of ?n] total by simp_all
  show "s' = ?e" using run by (auto simp: Export_def ec Let_def res_simps split: if_splits option.splits)
  show "?n < 64 \<and> body = of_nat (or 2 (?n * 4)) # ?code" if tiny: "m_fGenerateTinyHeader s"
  proof -
    obtain m where m: "\<not> 64 \<le> ?n" "alloc (w32 (1 + ?n)) = Some m"
      "bindE (write_bytes [of_nat (or 2 (?n * 4))] 0 m) (write_bytes ?code 1) = Inr body"
      using run tiny by (auto simp: Export_def ec Let_def fr res_simps split: if_splits option.splits)
    have "length m = 1 + ?n" using alloc [rule_format, OF m(2)] m(1) by simp
    then have "write_bytes [of_nat (or 2 (?n * 4))] 0 m = Inr ([of_nat (or 2 (?n * 4))] @ drop 1 m)"
      "write_bytes ?code 1 ([of_nat (or 2 (?n * 4))] @ drop 1 m) = Inr ([of_nat (or 2 (?n * 4))] @ ?code)"
      by (simp_all add: write_bytes_def)
    then show ?thesis using m(1,3) by simp
  qed
  show "\<exists>pad clauses. length pad = alignedCodeSize ?n - ?n \<and> export_clauses ?e = Inr clauses
      \<and> body = fat_header (m_flags s OR (if m_nEH s \<noteq> 0 then CorILMethod_MoreSects else 0) OR CorILMethod_FatFormat)
          (m_maxStack s) ?n (m_tkLocalVarSig s) @ ?code @ pad @ clauses" if fat: "\<not> m_fGenerateTinyHeader s"
  proof -
    let ?total = "12 + alignedCodeSize ?n + (if m_nEH s \<noteq> 0 then 4 + 24 * m_nEH s else 0)"
    let ?hdr = "fat_header (m_flags s OR (if m_nEH s \<noteq> 0 then CorILMethod_MoreSects else 0) OR CorILMethod_FatFormat)
          (m_maxStack s) ?n (m_tkLocalVarSig s)"
    have w: "w32 ?total = ?total" using al total by simp
    have "bindE (case alloc ?total of None \<Rightarrow> Inl E_OUTOFMEMORY
        | Some m \<Rightarrow> bindE (write_bytes ?hdr 0 m) (\<lambda>m. bindE (write_bytes ?code 12 m) (\<lambda>m.
            bindE (export_clauses ?e) (\<lambda>clauses. write_bytes clauses (12 + alignedCodeSize ?n) m))))
        (\<lambda>m. case set_body m of Some failure \<Rightarrow> Inl (ClrError failure) | None \<Rightarrow> Inr (m, ?e)) = Inr (body, s')"
      using run fat by (simp only: Export_def ec bindE_Inr prod.case Let_def fr if_False w)
    then obtain m m1 m2 clauses where m: "alloc ?total = Some m" "write_bytes ?hdr 0 m = Inr m1" "write_bytes ?code 12 m1 = Inr m2"
      "export_clauses ?e = Inr clauses" "write_bytes clauses (12 + alignedCodeSize ?n) m2 = Inr body"
      by (auto simp: res_simps split: option.splits simp del: bindE_assoc)
    have "length m = length ?hdr + alignedCodeSize ?n + length clauses"
      using alloc [rule_format, OF m(1)] length_export_clauses [OF m(4)] by (simp add: length_fat_header fr)
    from write_body [OF this al(1)] m(2,3,5) obtain pad where "length pad = alignedCodeSize ?n - ?n" "body = ?hdr @ ?code @ pad @ clauses"
      by (auto simp: length_fat_header)
    then show ?thesis using m(4) by blast
  qed
qed

text \<open>The clauses as they are written, and the same clauses at other addresses.\<close>

definition written_clause :: "ILRewriter \<Rightarrow> EHClause \<Rightarrow> eh_clause_fat" where
  "written_clause s c =
     (let off = (\<lambda>p. of_nat (m_offset (heap s p)) :: u32)
      in \<lparr>GetFlags = m_Flags c, GetTryOffset = unat (off (m_pTryBegin c)),
           GetTryLength = unat (off (m_pTryEnd c) - off (m_pTryBegin c)), GetHandlerOffset = unat (off (m_pHandlerBegin c)),
           GetHandlerLength = unat (off (m_pNext (heap s (m_pHandlerEnd c))) - off (m_pHandlerBegin c)),
           GetClassTokenOrFilterOffset = (case m_union c of ClassToken tk \<Rightarrow> tk | Filter p \<Rightarrow> off p)\<rparr>)"

lemma export_clause_bytes: "export_clause s c = clause_bytes (written_clause s c)"
  by (simp add: export_clause_def clause_bytes_def written_clause_def Let_def)

lemma written_clause_fits: "clause_fits (written_clause s c)"
proof -
  have u: "unat (v :: u32) < 4294967296" for v using unsigned_less [of v] by simp
  show ?thesis using u by (simp add: clause_fits_def written_clause_def Let_def)
qed

definition clause_wf :: "(ptr \<Rightarrow> ILInstr) \<Rightarrow> ptr list \<Rightarrow> EHClause \<Rightarrow> bool" where
  "clause_wf h ps c \<longleftrightarrow> clause_union_ok c \<and> findable h ps (m_pTryBegin c) \<and> findable h ps (m_pTryEnd c)
     \<and> findable h ps (m_pHandlerBegin c) \<and> m_pHandlerEnd c \<in> insert m_IL (set ps)
     \<and> findable h ps (m_pNext (h (m_pHandlerEnd c))) \<and> (case m_union c of ClassToken _ \<Rightarrow> True | Filter p \<Rightarrow> findable h ps p)"

definition moved_clause :: "ptr list \<Rightarrow> ptr list \<Rightarrow> EHClause \<Rightarrow> EHClause" where
  "moved_clause ps qs c = \<lparr>m_Flags = m_Flags c, m_pTryBegin = moved ps qs (m_pTryBegin c), m_pTryEnd = moved ps qs (m_pTryEnd c),
     m_pHandlerBegin = moved ps qs (m_pHandlerBegin c), m_pHandlerEnd = moved ps qs (m_pHandlerEnd c),
     m_union = (case m_union c of ClassToken tk \<Rightarrow> ClassToken tk | Filter p \<Rightarrow> Filter (moved ps qs p))\<rparr>"

lemma ring_index:
  assumes "il_ring s ps" "i \<le> length ps"
  shows "m_pNext (heap s ((m_IL # ps @ [m_IL]) ! i)) = (m_IL # ps @ [m_IL]) ! Suc i"
    "m_pPrev (heap s ((m_IL # ps @ [m_IL]) ! Suc i)) = (m_IL # ps @ [m_IL]) ! i"
proof -
  let ?L = "m_IL # ps @ [m_IL]"
  have "?L = take i ?L @ ?L ! i # ?L ! Suc i # drop (Suc (Suc i)) ?L"
    using assms(2) by (metis Cons_nth_drop_Suc Suc_leI Suc_le_mono append_take_drop_id le_imp_less_Suc length_Cons length_append_singleton less_SucI)
  then have "linked (heap s) (take i ?L @ ?L ! i # ?L ! Suc i # drop (Suc (Suc i)) ?L)"
    using assms(1) by (metis il_ring_def)
  from linked_appendD(2) [OF this] show "m_pNext (heap s (?L ! i)) = ?L ! Suc i" "m_pPrev (heap s (?L ! Suc i)) = ?L ! i"
    by simp_all
qed

lemma moved_end:
  assumes ring: "il_ring s ps" "il_ring r qs" and len: "length qs = length ps" and p: "p \<in> insert m_IL (set ps)"
  shows "m_pPrev (heap r (moved ps qs (m_pNext (heap s p)))) = moved ps qs p"
proof -
  have dist: "distinct ps" "m_IL \<notin> set ps" using ring(1) by (auto simp: il_ring_def)
  let ?L = "m_IL # ps @ [m_IL]" and ?M = "m_IL # qs @ [m_IL]"
  have moved: "moved ps qs (?L ! k) = ?M ! k" if "k \<le> Suc (length ps)" for k
    using that moved_simps [OF dist(1) len dist(2)] len by (cases k) (auto simp: nth_append)
  have "\<exists>i \<le> length ps. p = ?L ! i"
  proof (cases "p = m_IL")
    case False
    then obtain j where "j < length ps" "p = ps ! j" using p by (auto simp: in_set_conv_nth)
    then show ?thesis by (intro exI [of _ "Suc j"]) (simp add: nth_append)
  qed (intro exI [of _ 0], simp)
  then obtain i where i: "i \<le> length ps" "p = ?L ! i" by blast
  show ?thesis
    using ring_index(1) [OF ring(1) i(1)] ring_index(2) [OF ring(2), of i] moved [of i] moved [of "Suc i"] i len by simp
qed

lemma import_clause_written:
  assumes ring: "il_ring s ps" "il_ring r qs" and len: "length qs = length ps"
    and found: "\<forall>t. findable (heap s) ps t \<longrightarrow> m_offset (heap s t) < 2 ^ 32 \<and> GetInstrFromOffset (m_offset (heap s t)) r = Inr (moved ps qs t)"
    and wf: "clause_wf (heap s) ps c"
  shows "import_clause (written_clause s c) r = Inr (moved_clause ps qs c)"
proof -
  have sum: "w32 (unat a + unat (b - a)) = unat b" for a b :: u32
    using unat_word_ariths(1) [of a "b - a"] by simp
  have at: "GetInstrFromOffset (unat (of_nat (m_offset (heap s t)) :: u32)) r = Inr (moved ps qs t)" if "findable (heap s) ps t" for t
    using found that by (simp add: unat_of_nat)
  have c: "clause_union_ok c" "findable (heap s) ps (m_pTryBegin c)" "findable (heap s) ps (m_pTryEnd c)" "findable (heap s) ps (m_pHandlerBegin c)"
    "m_pHandlerEnd c \<in> insert m_IL (set ps)" "findable (heap s) ps (m_pNext (heap s (m_pHandlerEnd c)))"
    "\<And>p. m_union c = Filter p \<Longrightarrow> findable (heap s) ps p"
    using wf by (simp_all add: clause_wf_def)
  note union = c(1) [unfolded clause_union_ok_def]
  show ?thesis
    unfolding import_clause_def written_clause_def Let_def eh_clause_fat.simps sum at [OF c(2)] at [OF c(3)] at [OF c(4)] at [OF c(6)] bindE_Inr
      moved_end [OF ring len c(5)]
    using union by (cases "m_union c") (simp_all add: moved_clause_def at c(7))
qed

text \<open>The part of \<open>Import\<close> behind the header, on the code and the clauses that a laid-out list was written as.\<close>

lemma Import_written:
  assumes set: "settled s ps" and read: "readable 0 (il_list s ps)"
    and targets: "\<forall>p \<in> set ps. \<forall>t. m_arg (heap s p) = Target t \<longrightarrow> findable (heap s) ps t"
    and cs: "\<forall>c \<in> set cs. clause_wf (heap s) ps c"
    and small: "code_size (heap s) ps + 10 < 4294967296" and stack: "GetMaxStack d < 4294967296"
    and d: "GetCodeSize d = code_size (heap s) ps" "\<exists>rest. Code d = enc_code (heap s) 0 ps @ rest" "EH d = map (written_clause s) cs"
  shows "\<exists>r qs. Import (Inr d) (ILRewriter_new junk) = Inr r \<and> il_wf r qs \<and> same_code (heap s) ps (heap r) qs
    \<and> m_nEH r = length cs \<and> (cs \<noteq> [] \<longrightarrow> m_pEH r = Some (map (moved_clause ps qs) cs))
    \<and> m_tkLocalVarSig r = GetLocalVarSigTok d \<and> m_flags r = GetHeaderFlags d AND CorILMethod_InitLocals
    \<and> \<not> m_fGenerateTinyHeader r"
proof -
  define r0 where "r0 = (ILRewriter_new junk)\<lparr>m_tkLocalVarSig := GetLocalVarSigTok d, m_maxStack := GetMaxStack d,
    m_flags := GetHeaderFlags d AND CorILMethod_InitLocals, m_CodeSize := GetCodeSize d\<rparr>"
  have r0: "il_ring r0 []" "m_nInstrs r0 = 0" "m_maxStack r0 < 4294967296" "m_CodeSize r0 = code_size (heap s) ps" "m_pEH r0 = None"
    "m_tkLocalVarSig r0 = GetLocalVarSigTok d" "m_flags r0 = GetHeaderFlags d AND CorILMethod_InitLocals" "\<not> m_fGenerateTinyHeader r0"
    using il_ring_new [of junk] stack d(1) by (simp_all add: r0_def il_ring_def ILRewriter_new_def)
  have wf: "il_wf s ps" using set by (simp add: settled_def)
  have "length (enc_code (heap s) 0 ps) = code_size (heap s) ps"
    using wf by (intro length_enc_code [where P = "insert m_IL (set ps)"]) (simp add: il_wf_def)
  then have code: "m_CodeSize r0 \<le> length (Code d)" "take (m_CodeSize r0) (Code d) = enc_code (heap s) 0 ps"
    using d(2) by (auto simp: r0(4))
  have small': "m_CodeSize r0 + 10 < 4294967296" using small by (simp add: r0(4))
  from ImportIL_reads [OF set read targets r0(1-4) code(1) small' code(2)] obtain r1 qs where
    r1: "ImportIL (Code d) r0 = Inr r1" "import_result (Code d) r0 r1 qs" "same_code (heap s) ps (heap r1) qs"
    and found: "\<forall>t. findable (heap s) ps t \<longrightarrow> GetInstrFromOffset (m_offset (heap s t)) r1 = Inr (moved ps qs t)" by blast
  have wf1: "il_wf r1 qs" and same: "same_members r0 r1" using r1(2) by (simp_all add: import_result_def)
  have len: "length qs = length ps" using r1(3) by (simp add: same_code_def list_all2_lengthD)
  have found': "\<forall>t. findable (heap s) ps t \<longrightarrow> m_offset (heap s t) < 2 ^ 32 \<and> GetInstrFromOffset (m_offset (heap s t)) r1 = Inr (moved ps qs t)"
  proof (intro allI impI conjI)
    fix t assume t: "findable (heap s) ps t"
    then show f: "GetInstrFromOffset (m_offset (heap s t)) r1 = Inr (moved ps qs t)" using found by blast
    then show "m_offset (heap s t) < 2 ^ 32"
      using same r0(4) small by (auto simp: GetInstrFromOffset_def same_members_def split: if_splits)
  qed
  have "mapE (\<lambda>c. import_clause c r1) (map (written_clause s) cs) = Inr (map (moved_clause ps qs) cs)"
    unfolding mapE_all2 list_all2_map1 list_all2_map2
    using import_clause_written [OF _ _ len found'] wf wf1 cs by (auto simp: list_all2_same il_wf_def)
  then have eh: "ImportEH (EH d) r1 = Inr (r1\<lparr>m_nEH := length cs, m_pEH := (if cs = [] then None else Some (map (moved_clause ps qs) cs))\<rparr>)"
    using same r0(5) by (auto simp: ImportEH_def d(3) Let_def same_members_def)
  let ?r = "r1\<lparr>m_nEH := length cs, m_pEH := (if cs = [] then None else Some (map (moved_clause ps qs) cs))\<rparr>"
  have "Import (Inr d) (ILRewriter_new junk) = Inr ?r" using r1(1) eh by (simp add: Import_def r0_def Let_def)
  moreover have "il_wf ?r qs" using wf1 by (simp add: il_wf_def il_ring_def)
  ultimately show ?thesis
    using r1(3) same r0(6-8) by (intro exI [of _ ?r] exI [of _ qs]) (simp add: same_members_def)
qed

end
