(* ===== verification/ILBodies.thy ===== *)
theory ILBodies
  imports ILReimport
begin

text \<open>
  Whole method bodies: \<open>Import\<close> with the decoder of \<open>corhlpr.cpp\<close> in it reads what \<open>Export\<close> hands over, and
  everything that \<open>Import\<close> accepts can be exported and imported again.
\<close>

text \<open>\<open>Import\<close> with the decoder in it: the body at the address \<open>at\<close>, or the failure of \<open>GetILFunctionBody\<close>.\<close>

definition Import_body :: "bool \<Rightarrow> nat \<Rightarrow> u32 + byte list \<Rightarrow> ILRewriter \<Rightarrow> hr + ILRewriter" where
  "Import_body bit64 at pMethodBytes s = (case pMethodBytes of
     Inl failure \<Rightarrow> Inl (ClrError failure)
   | Inr body \<Rightarrow> bindE (DecoderInit bit64 at body) (\<lambda>decoder. Import (Inr decoder) s))"

text \<open>The same instructions at other addresses, and long branches in place of short ones.\<close>

definition same_instructions :: "(ptr \<Rightarrow> ILInstr) \<Rightarrow> ptr list \<Rightarrow> (ptr \<Rightarrow> ILInstr) \<Rightarrow> ptr list \<Rightarrow> bool" where
  "same_instructions h ps g qs \<longleftrightarrow> list_all2 (\<lambda>p q. widened_to (m_opcode (h p)) (m_opcode (g q))
     \<and> m_arg (g q) = moved_operand ps qs (op_flags (m_opcode (h p))) (m_arg (h p))) ps qs"

text \<open>The clauses that are written: none behind a tiny header.\<close>

definition clauses_of :: "ILRewriter \<Rightarrow> EHClause list" where
  "clauses_of s = (if m_nEH s = 0 \<or> m_fGenerateTinyHeader s then [] else take (m_nEH s) (the (m_pEH s)))"

text \<open>A list that can be written and read back.\<close>

definition reimportable :: "ILRewriter \<Rightarrow> ptr list \<Rightarrow> bool" where
  "reimportable s ps \<longleftrightarrow> il_wf s ps \<and> readable 0 (il_list s ps)
     \<and> (\<forall>p \<in> set ps. \<forall>t. m_arg (heap s p) = Target t \<longrightarrow> findable (heap s) ps t)
     \<and> (\<forall>c \<in> set (clauses_of s). clause_wf (heap s) ps c)"

lemma widened_plain:
  assumes "widened_to op op'" "op < 296"
  shows "op' = CEE_SWITCH \<longleftrightarrow> op = CEE_SWITCH" "op' = CEE_SWITCH_ARG \<longleftrightarrow> op = CEE_SWITCH_ARG" "plain_opcode op \<Longrightarrow> plain_opcode op'"
proof -
  have "(op' = CEE_SWITCH \<longleftrightarrow> op = CEE_SWITCH) \<and> (op' = CEE_SWITCH_ARG \<longleftrightarrow> op = CEE_SWITCH_ARG) \<and> (plain_opcode op \<longrightarrow> plain_opcode op')"
  proof (cases "op' = op")
    case False
    then have "op_flags op = 17" "op' = long_form op" using assms(1) by (simp_all add: widened_to_def)
    moreover have "CEE_BR_S \<le> op \<and> op \<le> CEE_BLT_UN_S \<or> op = CEE_LEAVE_S"
      using op_flags_cases(3) [OF assms(2)] calculation(1) by simp
    ultimately have "CEE_BR_S \<le> op \<and> op \<le> CEE_BLT_UN_S \<and> op' = op + 13 \<or> op = CEE_LEAVE_S \<and> op' = CEE_LEAVE"
      by (auto simp: long_form_def)
    then show ?thesis unfolding plain_opcode_def by auto
  qed simp
  then show "op' = CEE_SWITCH \<longleftrightarrow> op = CEE_SWITCH" "op' = CEE_SWITCH_ARG \<longleftrightarrow> op = CEE_SWITCH_ARG" "plain_opcode op \<Longrightarrow> plain_opcode op'"
    by blast+
qed

lemma readable_widened:
  assumes "list_all2 (\<lambda>(op, a) (op', a'). widened_to op op' \<and> op < 296 \<and> (op = CEE_SWITCH \<longrightarrow> a' = a)) rs rs'" "readable k rs"
  shows "readable k rs'"
  using assms
proof (induction k rs arbitrary: rs' rule: readable.induct)
  case (2 op a rs)
  then obtain op' a' js where "rs' = (op', a') # js" "widened_to op op'" "op < 296" "op = CEE_SWITCH \<longrightarrow> a' = a"
    "list_all2 (\<lambda>(op, a) (op', a'). widened_to op op' \<and> op < 296 \<and> (op = CEE_SWITCH \<longrightarrow> a' = a)) rs js" by (auto simp: list_all2_Cons1)
  then show ?case using 2 widened_plain [of op op'] by (auto split: if_splits operand.splits)
next
  case (3 k op a rs)
  then show ?case using widened_plain(2) by (auto simp: list_all2_Cons1)
qed simp

lemma export_state_reimportable:
  assumes "reimportable s ps" "10 * m_nInstrs s + 10 < 4294967296"
  defines "e \<equiv> export_state ps s"
  shows "settled e ps" "readable 0 (il_list e ps)"
    "\<forall>p \<in> set ps. \<forall>t. m_arg (heap e p) = Target t \<longrightarrow> findable (heap e) ps t"
    "\<forall>c \<in> set (clauses_of s). clause_wf (heap e) ps c" "clauses_of e = clauses_of s"
proof -
  have wf: "il_wf s ps" using assms(1) by (simp add: reimportable_def)
  note mem = export_state_members [OF wf, folded e_def]
  show "settled e ps" unfolding e_def by (rule ExportCode_raw(1) [OF wf assms(2), of "\<lambda>n. replicate n 0"]) simp
  have op: "m_opcode (heap s p) < 296" if "p \<in> set ps" for p using wf that by (simp add: il_wf_def instr_ok_def)
  have find: "findable (heap e) ps t" if "findable (heap s) ps t" for t
    using that mem(4) widened_plain(2) op by (auto simp: findable_def)
  have "list_all2 (\<lambda>(op, a) (op', a'). widened_to op op' \<and> op < 296 \<and> (op = CEE_SWITCH \<longrightarrow> a' = a)) (il_list s ps) (il_list e ps)"
    unfolding il_list_def list_all2_map1 list_all2_map2 list_all2_same using op mem(1,4) by simp
  from readable_widened [OF this, of 0] show "readable 0 (il_list e ps)"
    using assms(1) unfolding reimportable_def by blast
  show "\<forall>p \<in> set ps. \<forall>t. m_arg (heap e p) = Target t \<longrightarrow> findable (heap e) ps t"
    using assms(1) find mem(1) by (auto simp: reimportable_def)
  show "\<forall>c \<in> set (clauses_of s). clause_wf (heap e) ps c"
    using assms(1) find mem(2) by (auto simp: reimportable_def clause_wf_def split: eh_union.splits)
  show "clauses_of e = clauses_of s" by (simp add: clauses_of_def e_def export_state_frame)
qed

section \<open>What \<open>Import\<close> makes\<close>

lemma readable_append: "readable k rs \<Longrightarrow> readable 0 js \<Longrightarrow> readable k (rs @ js)"
  by (induction k rs rule: readable.induct) (auto split: if_splits operand.splits)

lemma readable_switch_args: "readable (length vs) (switch_args vs)"
  by (induction vs) auto

lemma import_opcode_plain:
  assumes "import_opcode pIL off s = Inr (op, o')"
  shows "plain_opcode op"
  using assms unfolding import_opcode_def Let_def
  by (auto simp: res_simps plain_opcode_def split: if_splits)

lemma import_switch_args_appends:
  assumes "il_ring s ps" "import_switch_args pIL base n off s = Inr (o', s')"
  shows "\<exists>vs xs. length vs = n \<and> appended s ps (switch_args vs) s' xs \<and> m_pOffsetToInstr s' = m_pOffsetToInstr s"
  using assms
proof (induction n arbitrary: off s ps)
  case 0
  then show ?case by (intro exI [of _ "[]"]) (simp add: appended_def)
next
  case (Suc n)
  obtain x s1 where ap: "append_instr CEE_SWITCH_ARG s = (x, s1)" by fastforce
  obtain v :: u32 where v: "read_le 4 pIL off = Inr v" "import_switch_args pIL base n (w32 (off + 4)) (set_arg x (Arg32 (of_nat base + v)) s1) = Inr (o', s')"
    using Suc.prems(2) ap by (auto simp: append_instr_def Let_def res_simps InsertBefore_set_arg split: if_splits prod.splits)
  note app = appended_node(1) [OF Suc.prems(1) ap, of "Arg32 (of_nat base + v)"]
  then have "il_ring (set_arg x (Arg32 (of_nat base + v)) s1) (ps @ [x])" by (simp add: appended_def)
  from Suc.IH [OF this v(2)] obtain vs xs where IH: "length vs = n"
    "appended (set_arg x (Arg32 (of_nat base + v)) s1) (ps @ [x]) (switch_args vs) s' xs"
    "m_pOffsetToInstr s' = m_pOffsetToInstr (set_arg x (Arg32 (of_nat base + v)) s1)" by blast
  then show ?case
    using appended_trans [OF app IH(2)] append_instr_node(9) [OF Suc.prems(1) ap]
    by (intro exI [of _ "(of_nat base + v) # vs"] exI [of _ "x # xs"]) (simp add: frame_simps)
qed

lemma import_instr_appends:
  assumes ring: "il_ring s ps" and run: "import_instr pIL off s = Inr (o', br, s')"
  shows "\<exists>op a vs x xs. raw_group op a vs \<and> appended s ps ((op, a) # switch_args vs) s' (x # xs)
    \<and> m_pOffsetToInstr s' = (m_pOffsetToInstr s)[off := Some x]"
proof -
  obtain op o1 where o: "import_opcode pIL off s = Inr (op, o1)" using run by (auto simp: import_instr_def res_simps)
  have plain: "plain_opcode op" by (rule import_opcode_plain [OF o])
  then have op: "op < 296" by (simp add: plain_opcode_def)
  obtain x s1 where ap: "append_instr op s = (x, s1)" by fastforce
  let ?s2 = "s1\<lparr>m_pOffsetToInstr := (m_pOffsetToInstr s1)[off := Some x]\<rparr>"
  note node = append_instr_node [OF ring ap]
  obtain o2 where operand: "import_operand pIL (op_flags op) x o1 ?s2 = Inr (o2, br, s')"
    using run by (auto simp: import_instr_def o ap Let_def res_simps split: if_splits)
  have tbl: "m_pOffsetToInstr ?s2 = (m_pOffsetToInstr s)[off := Some x]" using node(9) by simp
  note app = appended_node(2) [OF ring ap]
  show ?thesis
  proof (cases "op = CEE_SWITCH")
    case False
    then have "op_flags op \<noteq> 32" using op_flags_cases(2) [OF op] by simp
    moreover have "set_arg x Zeroed ?s2 = ?s2"
      using node(5) by (cases s1; cases "heap s1 x") (auto simp: set_arg_def upd_instr_def fun_upd_idem)
    ultimately have "\<exists>a. s' = set_arg x a ?s2"
      using operand by (auto simp: import_operand_def res_simps split: if_splits intro: exI [of _ Zeroed])
    then obtain a where a: "s' = set_arg x a ?s2" by blast
    have A: "appended s ps ((op, a) # switch_args []) s' [x]" unfolding a using app [of a] by simp
    have B: "m_pOffsetToInstr s' = (m_pOffsetToInstr s)[off := Some x]" unfolding a using tbl by (simp add: frame_simps)
    have "raw_group op a []" using False plain by (simp add: raw_group_def)
    with A B show ?thesis by blast
  next
    case True
    have "op_flags op = 32" unfolding True using raw_switch(4) [of "[0, 0, 0, 0]"] by simp
    then obtain v :: u32 and o3 where v: "import_switch_args pIL (w32 (w32 (o1 + 4) + unat v * 4)) (unat v) (w32 (o1 + 4)) (set_arg x (Arg32 v) ?s2) = Inr (o3, s')"
      using operand by (auto simp: import_operand_def res_simps Let_def split: if_splits)
    have "il_ring (set_arg x (Arg32 v) ?s2) (ps @ [x])" using app [of "Arg32 v"] by (simp add: appended_def)
    from import_switch_args_appends [OF this v] obtain vs xs where args: "length vs = unat v"
      "appended (set_arg x (Arg32 v) ?s2) (ps @ [x]) (switch_args vs) s' xs" "m_pOffsetToInstr s' = m_pOffsetToInstr (set_arg x (Arg32 v) ?s2)"
      by blast
    have "raw_group op (Arg32 v) vs" using True args(1) by (simp add: raw_group_def)
    moreover have "appended s ps ((op, Arg32 v) # switch_args vs) s' (x # xs)" using appended_trans [OF app args(2)] by simp
    moreover have "m_pOffsetToInstr s' = (m_pOffsetToInstr s)[off := Some x]" using args(3) tbl by (simp add: frame_simps)
    ultimately show ?thesis by blast
  qed
qed

text \<open>The table of offsets leads to the end of the list and to instructions that are not targets of a \<open>switch\<close>.\<close>

definition leads :: "ILRewriter \<Rightarrow> ptr list \<Rightarrow> bool" where
  "leads s ps \<longleftrightarrow> (\<forall>p. Some p \<in> set (m_pOffsetToInstr s) \<longrightarrow> findable (heap s) ps p)"

lemma import_instr_leads:
  assumes ring: "il_ring s ps" and read: "readable 0 (il_list s ps)" and leads: "leads s ps"
    and run: "import_instr pIL off s = Inr (o', br, s')"
  shows "\<exists>xs. il_ring s' (ps @ xs) \<and> readable 0 (il_list s' (ps @ xs)) \<and> leads s' (ps @ xs)"
proof -
  from import_instr_appends [OF ring run] obtain op a vs x xs where
    group: "raw_group op a vs" and app: "appended s ps ((op, a) # switch_args vs) s' (x # xs)"
    and tbl: "m_pOffsetToInstr s' = (m_pOffsetToInstr s)[off := Some x]" by blast
  have list: "il_list s' (ps @ x # xs) = il_list s ps @ (op, a) # switch_args vs" using app by (simp add: appended_def)
  have "readable 0 ((op, a) # switch_args vs)"
    using group readable_switch_args [of vs] by (auto simp: raw_group_def split: if_splits)
  then have read': "readable 0 (il_list s' (ps @ x # xs))" unfolding list by (rule readable_append [OF read])
  have "il_list s' ps = il_list s ps" "il_list s' (x # xs) = (op, a) # switch_args vs"
    using list by (simp_all add: il_list_def)
  then have op: "\<And>p. p \<in> set ps \<Longrightarrow> m_opcode (heap s' p) = m_opcode (heap s p)" "m_opcode (heap s' x) = op"
    by (simp_all add: il_list_def)
  have "op \<noteq> CEE_SWITCH_ARG" using group by (auto simp: raw_group_def plain_opcode_def split: if_splits)
  then have "leads s' (ps @ x # xs)"
    using leads op by (auto simp: leads_def findable_def tbl dest!: subsetD [OF set_update_subset_insert])
  then show ?thesis using app read' unfolding appended_def by blast
qed

lemma import_loop_leads:
  assumes "il_ring s ps" "readable 0 (il_list s ps)" "leads s ps" "import_loop k pIL off fb s = Inr (o', fb', s')"
  shows "\<exists>qs. il_ring s' qs \<and> readable 0 (il_list s' qs) \<and> leads s' qs"
  using assms
proof (induction k arbitrary: off fb s ps)
  case (Suc k)
  show ?case
  proof (cases "off < m_CodeSize s")
    case True
    then obtain o1 br s1 where s1: "import_instr pIL off s = Inr (o1, br, s1)" "import_loop k pIL o1 (fb \<or> br) s1 = Inr (o', fb', s')"
      using Suc.prems(4) by (auto simp: res_simps)
    from import_instr_leads [OF Suc.prems(1-3) s1(1)] obtain xs where
      "il_ring s1 (ps @ xs)" "readable 0 (il_list s1 (ps @ xs))" "leads s1 (ps @ xs)" by blast
    then show ?thesis by (rule Suc.IH [OF _ _ _ s1(2)])
  qed (use Suc.prems in auto)
qed (auto split: if_splits)

lemma leads_found: "leads s ps \<Longrightarrow> GetInstrFromOffset n s = Inr p \<Longrightarrow> findable (heap s) ps p"
  by (auto simp: leads_def GetInstrFromOffset_def split: if_splits option.splits dest: nth_mem)

lemma ImportIL_leads:
  assumes s: "il_ring s []" "m_nInstrs s = 0" "m_maxStack s < 4294967296"
    and N: "m_CodeSize s \<le> length pIL" "m_CodeSize s + 10 < 4294967296" and run: "ImportIL pIL s = Inr s'"
  shows "\<exists>ps. il_wf s' ps \<and> same_members s s' \<and> m_nInstrs s' = length ps \<and> length ps \<le> m_CodeSize s
    \<and> readable 0 (il_list s' ps) \<and> leads s' ps \<and> (\<forall>p \<in> set ps. \<forall>t. m_arg (heap s' p) = Target t \<longrightarrow> findable (heap s') ps t)"
proof -
  let ?s = "set_opcode m_IL 0xFFFFFFFF
    (s\<lparr>m_pOffsetToInstr := replicate (m_CodeSize s) None @ [Some m_IL]\<rparr>)"
  from ImportIL_resolved [OF s N] run obtain s1 ps fb where
    loop: "import_loop (m_CodeSize s) pIL 0 False ?s = Inr (m_CodeSize s, fb, s1)" and imp: "imported pIL s (m_CodeSize s) s1 ps"
    and s': "s' = resolved s1 ps" and known: "\<forall>p \<in> set ps. is_branch (m_opcode (heap s1 p)) \<longrightarrow> target_known s1 (m_arg (heap s1 p))"
    by auto
  have "m_CodeSize s < 4294967296" using N(2) by simp
  note result = resolved_result [OF imp this known, folded s', unfolded import_result_def]
  have "leads ?s []" by (auto simp: leads_def findable_def frame_simps)
  moreover have "il_ring ?s []" using imported_start [OF s, of pIL] by (simp add: imported_def)
  ultimately obtain qs where qs: "il_ring s1 qs" "readable 0 (il_list s1 qs)" "leads s1 qs"
    using import_loop_leads [OF _ _ _ loop, of "[]"] by (auto simp: il_list_def)
  moreover have "il_ring s1 ps" using imp by (simp add: imported_def)
  ultimately have "il_nodes s1 = Inr qs" "il_nodes s1 = Inr ps" using il_nodes_ring by blast+
  then have "qs = ps" by simp
  note s1 = qs [unfolded this]
  have raw: "\<exists>o'. raw_ok (m_opcode (heap s1 p)) (m_arg (heap s1 p)) o'" if "p \<in> set ps" for p
    using that imp by (intro raw_wf_member [of "il_list s1 ps" 0]) (auto simp: il_list_def imported_def)
  have op: "m_opcode (heap s' p) = m_opcode (heap s1 p)" for p by (simp add: s' resolved_def resolve_node_def)
  have find: "findable (heap s') ps = findable (heap s1) ps" by (simp add: fun_eq_iff findable_def op)
  have arg: "m_arg (heap s' p) = (if is_branch (m_opcode (heap s1 p)) then Target (target_of s1 (m_arg (heap s1 p))) else m_arg (heap s1 p))"
    if "p \<in> set ps" for p using that by (simp add: s' resolved_def resolve_node_def)
  have small: "m_opcode (heap s1 p) < 296" if "p \<in> set ps" for p using raw [OF that] by (auto simp: raw_ok_def)
  have "list_all2 (\<lambda>(op, a) (op', a'). widened_to op op' \<and> op < 296 \<and> (op = CEE_SWITCH \<longrightarrow> a' = a)) (il_list s1 ps) (il_list s' ps)"
    unfolding il_list_def list_all2_map1 list_all2_map2 list_all2_same
    using small op_flags_cases(2) [of CEE_SWITCH] by (auto simp: op arg widened_to_def is_branch_def)
  from readable_widened [OF this s1(2)] have read: "readable 0 (il_list s' ps)" .
  have "findable (heap s1) ps t" if p: "p \<in> set ps" and t: "m_arg (heap s' p) = Target t" for p t
  proof (cases "is_branch (m_opcode (heap s1 p))")
    case True
    then obtain v where v: "m_arg (heap s1 p) = Arg32 v" "unat v \<le> m_CodeSize s1" "m_pOffsetToInstr s1 ! unat v = Some t"
      using known p t by (auto simp: arg target_known_def)
    have "length (m_pOffsetToInstr s1) = Suc (m_CodeSize s1)" using imp by (simp add: imported_def table_ok_def)
    then have "Some t \<in> set (m_pOffsetToInstr s1)" using v(2,3) by (metis le_imp_less_Suc nth_mem)
    then show ?thesis using s1(3) by (simp add: leads_def)
  next
    case False
    then show ?thesis using raw [OF p] t p by (auto simp: arg raw_ok_def is_branch_def)
  qed
  moreover have "leads s' ps" using s1(3) unfolding leads_def find by (simp add: s' resolved_def)
  ultimately show ?thesis using result read by (intro exI [of _ ps]) (simp add: find)
qed

lemma ring_prev:
  assumes "il_ring s ps" "p \<in> insert m_IL (set ps)"
  shows "m_pPrev (heap s p) \<in> insert m_IL (set ps)" "m_pNext (heap s (m_pPrev (heap s p))) = p"
proof -
  let ?L = "m_IL # ps @ [m_IL]"
  have "\<exists>i \<le> length ps. p = ?L ! Suc i"
  proof (cases "p = m_IL")
    case False
    then obtain j where "j < length ps" "p = ps ! j" using assms(2) by (auto simp: in_set_conv_nth)
    then show ?thesis by (intro exI [of _ j]) (simp add: nth_append)
  qed (intro exI [of _ "length ps"], simp)
  then obtain i where i: "i \<le> length ps" "p = ?L ! Suc i" by blast
  note r = ring_index [OF assms(1) i(1)]
  have "?L ! i \<in> set ?L" using i(1) by (intro nth_mem) simp
  then show "m_pPrev (heap s p) \<in> insert m_IL (set ps)" "m_pNext (heap s (m_pPrev (heap s p))) = p"
    using r i(2) by simp_all
qed

lemma import_clause_wf:
  assumes "il_ring s ps" "leads s ps" "import_clause e s = Inr c"
  shows "clause_wf (heap s) ps c"
proof -
  note found = leads_found [OF assms(2)]
  obtain b e' hb h u where r: "GetInstrFromOffset (GetTryOffset e) s = Inr b" "GetInstrFromOffset (w32 (GetTryOffset e + GetTryLength e)) s = Inr e'"
    "GetInstrFromOffset (GetHandlerOffset e) s = Inr hb" "GetInstrFromOffset (w32 (GetHandlerOffset e + GetHandlerLength e)) s = Inr h"
    "(if GetFlags e AND COR_ILEXCEPTION_CLAUSE_FILTER = 0 then Inr (ClassToken (GetClassTokenOrFilterOffset e))
      else bindE (GetInstrFromOffset (unat (GetClassTokenOrFilterOffset e)) s) (\<lambda>p. Inr (Filter p))) = Inr u"
    "c = \<lparr>m_Flags = GetFlags e, m_pTryBegin = b, m_pTryEnd = e', m_pHandlerBegin = hb, m_pHandlerEnd = m_pPrev (heap s h), m_union = u\<rparr>"
    using assms(3) unfolding import_clause_def by (auto simp: res_simps simp del: bindE_assoc split del: if_split)
  have "h \<in> insert m_IL (set ps)" using found [OF r(4)] by (auto simp: findable_def)
  note prev = ring_prev [OF assms(1) this]
  have "clause_union_ok c" "case u of ClassToken _ \<Rightarrow> True | Filter p \<Rightarrow> findable (heap s) ps p"
    using r(5) found by (auto simp: clause_union_ok_def r(6) res_simps split: if_splits)
  then show ?thesis
    using found r(1-4) prev by (auto simp: clause_wf_def r(6))
qed

text \<open>Everything that is imported can be written and read back.\<close>

lemma Import_reimportable:
  assumes imp: "Import (Inr d) (ILRewriter_new junk) = Inr r"
    and "GetCodeSize d \<le> length (Code d)" "GetCodeSize d + 10 < 4294967296" "GetMaxStack d < 4294967296"
  shows "\<exists>ps. reimportable r ps \<and> m_nInstrs r \<le> GetCodeSize d \<and> m_nEH r = length (EH d) \<and> length (clauses_of r) = length (EH d)
    \<and> \<not> m_fGenerateTinyHeader r \<and> m_flags r = GetHeaderFlags d AND CorILMethod_InitLocals"
proof -
  define s0 where "s0 = (ILRewriter_new junk)\<lparr>m_tkLocalVarSig := GetLocalVarSigTok d, m_maxStack := GetMaxStack d,
    m_flags := GetHeaderFlags d AND CorILMethod_InitLocals, m_CodeSize := GetCodeSize d\<rparr>"
  have s0: "il_ring s0 []" "m_nInstrs s0 = 0" "m_maxStack s0 < 4294967296"
    "m_CodeSize s0 \<le> length (Code d)" "m_CodeSize s0 + 10 < 4294967296" "m_CodeSize s0 = GetCodeSize d"
    "m_pEH s0 = None" "\<not> m_fGenerateTinyHeader s0" "m_flags s0 = GetHeaderFlags d AND CorILMethod_InitLocals"
    using il_ring_new [of junk] assms by (simp_all add: s0_def il_ring_def ILRewriter_new_def)
  from imp obtain s1 where s1: "ImportIL (Code d) s0 = Inr s1" "ImportEH (EH d) s1 = Inr r"
    by (auto simp: Import_def s0_def Let_def res_simps)
  from ImportIL_leads [OF s0(1-5) s1(1)] obtain ps where ps: "il_wf s1 ps" "same_members s0 s1" "m_nInstrs s1 = length ps"
    "length ps \<le> GetCodeSize d" "readable 0 (il_list s1 ps)" "leads s1 ps"
    "\<forall>p \<in> set ps. \<forall>t. m_arg (heap s1 p) = Target t \<longrightarrow> findable (heap s1) ps t"
    by (auto simp: s0(6))
  have same: "heap r = heap s1" "fresh r = fresh s1" "m_nInstrs r = m_nInstrs s1" "m_maxStack r = m_maxStack s1"
    "m_nEH r = length (EH d)" "m_fGenerateTinyHeader r = m_fGenerateTinyHeader s1" "m_flags r = m_flags s1"
    using s1(2) by (auto simp: ImportEH_def Let_def res_simps split: if_splits)
  have wf: "il_wf r ps" using ps(1) same(1-4) by (simp add: il_wf_def il_ring_def)
  have ring: "il_ring (s1\<lparr>m_nEH := length (EH d)\<rparr>) ps" "leads (s1\<lparr>m_nEH := length (EH d)\<rparr>) ps"
    using ps(1,6) by (simp_all add: il_wf_def il_ring_def leads_def)
  have "clause_wf (heap s1) ps c" if "c \<in> set (clauses_of r)" for c
  proof -
    have ne: "EH d \<noteq> []" using that same(5) by (auto simp: clauses_of_def split: if_splits)
    then obtain cs where cs: "mapE (\<lambda>e. import_clause e (s1\<lparr>m_nEH := length (EH d)\<rparr>)) (EH d) = Inr cs" "m_pEH r = Some cs"
      using s1(2) by (auto simp: ImportEH_def Let_def res_simps split: if_splits)
    have "c \<in> set cs" using that cs(2) by (auto simp: clauses_of_def split: if_splits dest: in_set_takeD)
    then obtain e where "import_clause e (s1\<lparr>m_nEH := length (EH d)\<rparr>) = Inr c"
      using cs(1) unfolding mapE_all2 by (auto simp: list_all2_conv_all_nth in_set_conv_nth)
    from import_clause_wf [OF ring this] show ?thesis by simp
  qed
  moreover have "length (clauses_of r) = length (EH d)"
  proof (cases "EH d = []")
    case False
    then obtain cs where "mapE (\<lambda>e. import_clause e (s1\<lparr>m_nEH := length (EH d)\<rparr>)) (EH d) = Inr cs" "m_pEH r = Some cs"
      using s1(2) by (auto simp: ImportEH_def Let_def res_simps split: if_splits)
    then show ?thesis
      using False ps(2) s0(8) same(5,6) by (simp add: clauses_of_def mapE_all2 list_all2_lengthD same_members_def)
  qed (use same(5) in \<open>simp add: clauses_of_def\<close>)
  moreover have "il_list r ps = il_list s1 ps" by (simp add: il_list_def same)
  ultimately have "reimportable r ps" "length (clauses_of r) = length (EH d)" using wf ps(5,7) by (simp_all add: reimportable_def same)
  then show ?thesis using ps(2-4) same s0(8,9) by (intro exI [of _ ps]) (simp add: same_members_def)
qed

section \<open>Insertions\<close>

lemma readable_split:
  "readable k (as @ (op, a) # bs) \<Longrightarrow> op \<noteq> CEE_SWITCH_ARG \<Longrightarrow> readable k as \<and> readable 0 ((op, a) # bs)"
proof (induction k as rule: readable.induct)
  case (1 k)
  then show ?case by (cases k) simp_all
qed (auto split: if_splits operand.splits)

text \<open>What can be written and read back stays so when an instruction is inserted that is not a \<open>switch\<close>, unless
  it is put between a \<open>switch\<close> and its targets.\<close>

lemma reimportable_InsertBefore:
  assumes s: "reimportable s ps" and w: "findable (heap s) ps w" and x: "x \<notin> insert m_IL (set ps)" "x < fresh s" "length ps < m_nInstrs s"
    and ok: "instr_ok (insert m_IL (insert x (set ps))) (heap s x)" "plain_opcode (m_opcode (heap s x))" "m_opcode (heap s x) \<noteq> CEE_SWITCH"
    and target: "\<forall>t. m_arg (heap s x) = Target t \<longrightarrow> t = x \<or> findable (heap s) ps t"
  shows "reimportable (InsertBefore w x s) (insert_before w x ps)"
proof -
  let ?s = "InsertBefore w x s" and ?ps = "insert_before w x ps"
  have wf: "il_wf s ps" and ring: "il_ring s ps" using s by (simp_all add: reimportable_def il_wf_def)
  have w': "w \<in> insert m_IL (set ps)" using w by (auto simp: findable_def)
  have "m_opcode (heap s x) \<noteq> CEE_SWITCH_ARG" using ok(2) by (auto simp: plain_opcode_def)
  then have find: "findable (heap ?s) ?ps t" if "t = x \<or> findable (heap s) ps t" for t
    using that by (auto simp: findable_def set_insert_before frame_simps)
  have "m_IL \<notin> set ps" using ring by (simp add: il_ring_def)
  from insert_before_split [OF w' this] obtain as bs where split: "ps = as @ bs" "?ps = as @ x # bs" "w = hd (bs @ [m_IL])" .
  have "readable 0 (il_list s as) \<and> readable 0 (il_list s bs)"
  proof (cases bs)
    case (Cons b bs')
    then have "m_opcode (heap s w) \<noteq> CEE_SWITCH_ARG" using w split(3) \<open>m_IL \<notin> set ps\<close> by (auto simp: findable_def split(1))
    moreover have "readable 0 (il_list s as @ il_list s bs)" using s by (simp add: reimportable_def split(1) il_list_def)
    ultimately show ?thesis using readable_split split(3) by (simp add: Cons il_list_def)
  qed (use s in \<open>simp add: reimportable_def split(1) il_list_def\<close>)
  moreover have "il_list ?s ?ps = il_list s as @ (m_opcode (heap s x), m_arg (heap s x)) # il_list s bs"
    by (simp add: split(2) il_list_def frame_simps)
  moreover have "readable 0 ((m_opcode (heap s x), m_arg (heap s x)) # il_list s bs)"
    using ok(2,3) calculation(1) by simp
  ultimately have read: "readable 0 (il_list ?s ?ps)" using readable_append by simp
  have cl: "clauses_of ?s = clauses_of s" by (simp add: clauses_of_def frame_simps)
  have prev: "m_pPrev (heap s w) \<in> insert m_IL (set ps)" using ring_prev [OF ring w'] by simp
  then have links: "x \<noteq> w" "m_pPrev (heap s w) \<noteq> x" using x(1) w' by auto
  have next_found: "findable (heap ?s) ?ps (m_pNext (heap ?s p))" if "findable (heap s) ps (m_pNext (heap s p))" "p \<noteq> x" for p
    using that find unfolding InsertBefore_links [OF links] by simp
  have "clause_wf (heap ?s) ?ps c" if "clause_wf (heap s) ps c" for c
    using that x(1) find next_found unfolding clause_wf_def
    by (cases "m_union c") (auto simp: set_insert_before)
  moreover have "findable (heap ?s) ?ps t" if "p \<in> set ?ps" "m_arg (heap ?s p) = Target t" for p t
    using that s target find by (auto simp: set_insert_before reimportable_def frame_simps)
  moreover have "il_wf ?s ?ps" by (rule InsertBefore_wf_raw [OF wf w' x ok(1)])
  ultimately show ?thesis using s read by (simp add: reimportable_def cl)
qed

section \<open>Exporting and importing again\<close>

text \<open>What a rewriter and the rewriter that reads its body have in common.\<close>

definition reads_back :: "ILRewriter \<Rightarrow> ptr list \<Rightarrow> ILRewriter \<Rightarrow> ptr list \<Rightarrow> bool" where
  "reads_back s ps r qs \<longleftrightarrow> il_wf r qs \<and> same_instructions (heap s) ps (heap r) qs
     \<and> clauses_of r = map (moved_clause ps qs) (clauses_of s) \<and> m_nEH r = length (clauses_of r)
     \<and> (if m_fGenerateTinyHeader s then m_tkLocalVarSig r = 0 \<and> m_flags r = 0
        else m_tkLocalVarSig r = m_tkLocalVarSig s \<and> m_flags r = m_flags s) \<and> \<not> m_fGenerateTinyHeader r"

lemma same_code_instructions:
  assumes "same_code (heap (export_state ps s)) ps g qs" "il_wf s ps"
  shows "same_instructions (heap s) ps g qs"
  unfolding same_instructions_def
proof (rule list_all2_all_nthI)
  have len: "length ps = length qs" using assms(1) by (simp add: same_code_def list_all2_lengthD)
  then show "length ps = length qs" .
  note mem = export_state_members [OF assms(2)]
  fix i assume i: "i < length ps"
  let ?p = "ps ! i" and ?e = "heap (export_state ps s)"
  have w: "widened_to (m_opcode (heap s ?p)) (m_opcode (?e ?p))" using mem(4) i by simp
  have c: "m_opcode (g (qs ! i)) = m_opcode (?e ?p)" "m_arg (g (qs ! i)) = moved_operand ps qs (op_flags (m_opcode (?e ?p))) (m_arg (heap s ?p))"
    using assms(1) i mem(1) by (simp_all add: same_code_def list_all2_conv_all_nth)
  have "instr_ok (insert m_IL (set ps)) (heap s ?p)" using assms(2) i by (simp add: il_wf_def)
  then have "moved_operand ps qs (op_flags (m_opcode (?e ?p))) (m_arg (heap s ?p))
      = moved_operand ps qs (op_flags (m_opcode (heap s ?p))) (m_arg (heap s ?p))"
    using w by (cases "m_arg (heap s ?p)") (auto simp: instr_ok_def widened_to_def)
  then show "widened_to (m_opcode (heap s ?p)) (m_opcode (g (qs ! i)))
      \<and> m_arg (g (qs ! i)) = moved_operand ps qs (op_flags (m_opcode (heap s ?p))) (m_arg (heap s ?p))"
    using w c by simp
qed

lemma export_clauses_bytes:
  assumes "export_clauses e = Inr clauses" "\<not> m_fGenerateTinyHeader e"
  shows "clauses = section_bytes (map (written_clause e) (clauses_of e))" "length (clauses_of e) = m_nEH e"
proof -
  have "export_clause e = (\<lambda>c. clause_bytes (written_clause e c))" by (simp add: fun_eq_iff export_clause_bytes)
  then show "clauses = section_bytes (map (written_clause e) (clauses_of e))" "length (clauses_of e) = m_nEH e"
    using assms by (auto simp: export_clauses_def clauses_of_def section_bytes_def comp_def split: if_splits option.splits)
qed

lemma init_locals_flags:
  fixes b :: bool
  assumes "flags AND CorILMethod_InitLocals = flags"
  defines "w \<equiv> flags OR (if b then CorILMethod_MoreSects else 0) OR CorILMethod_FatFormat"
  shows "w AND 0xFFF = w" "w AND 7 = 3" "w AND 8 \<noteq> 0 \<longleftrightarrow> b" "w AND CorILMethod_InitLocals = flags"
proof -
  have "flags = 0 \<or> flags = 16"
  proof (cases "flags AND 16 = 0")
    case False
    then have "bit flags 4" using and_exp_eq_0_iff_not_bit [of flags 4] by simp
    have "flags AND 2 ^ 4 = 2 ^ 4"
    proof (rule bit_word_eqI)
      fix n
      show "bit (flags AND 2 ^ 4) n \<longleftrightarrow> bit (2 ^ 4 :: u32) n" unfolding bit_and_iff bit_exp_iff using \<open>bit flags 4\<close> by blast
    qed
    then show ?thesis using assms(1) by simp
  qed (use assms(1) in simp)
  then show "w AND 0xFFF = w" "w AND 7 = 3" "w AND 8 \<noteq> 0 \<longleftrightarrow> b" "w AND CorILMethod_InitLocals = flags"
    unfolding w_def by (elim disjE; cases b; simp)+
qed



end
